(* ===== verification/Prelude.thy ===== *)
theory Prelude
  imports
    Main
    "HOL-Library.Word"
    "HOL-Library.List_Lexorder"
    "HOL-Library.Char_ord"
    "HOL-Library.Multiset"
begin

text \<open>
  The shared vocabulary of the development: Rust's \<open>Result\<close> and its \<open>?\<close> operator,
  checked arithmetic on \<open>u64\<close>, little-endian integers, 32-byte digests, the
  byte-slice reader both binary formats use, the interface a field codec promises
  (locale \<open>field_codec\<close>) with the facts that follow from it once, and the ordered
  map that stands for \<open>BTreeMap\<close> (locale \<open>ordered_map\<close>).
\<close>

unbundle bit_operations_syntax

type_synonym u8 = "8 word"
type_synonym u32 = "32 word"
type_synonym u64 = "64 word"
type_synonym bytes = "8 word list"
type_synonym str = string

named_theorems result_simps "unfolding of Result values"
named_theorems codec_simps "emitters of binary fields"
named_theorems u64_nat "u64 comparisons and arithmetic read as natural numbers"


section \<open>Results\<close>

text \<open>\<open>Result<T, E>\<close> is the sum \<open>'e + 'a\<close> with \<open>Inl\<close> the error; \<open>and_then\<close> is the
  early return of \<open>?\<close>, and \<open>ok_or\<close> turns an absent value into an error.\<close>

definition and_then :: "'e + 'a \<Rightarrow> ('a \<Rightarrow> 'e + 'b) \<Rightarrow> 'e + 'b" where
  "and_then r f = (case r of Inl e \<Rightarrow> Inl e | Inr a \<Rightarrow> f a)"

definition ok_or :: "'a option \<Rightarrow> 'e \<Rightarrow> 'e + 'a" where
  "ok_or x e = (case x of None \<Rightarrow> Inl e | Some a \<Rightarrow> Inr a)"

definition map_err :: "('e \<Rightarrow> 'f) \<Rightarrow> 'e + 'a \<Rightarrow> 'f + 'a" where
  "map_err f r = (case r of Inl e \<Rightarrow> Inl (f e) | Inr a \<Rightarrow> Inr a)"

definition is_ok :: "'e + 'a \<Rightarrow> bool" where
  "is_ok r = (case r of Inl _ \<Rightarrow> False | Inr _ \<Rightarrow> True)"

lemma and_then_simps [simp]:
  "and_then (Inl e) f = Inl e" "and_then (Inr a) f = f a"
  by (simp_all add: and_then_def)

lemma and_then_Inr_iff [result_simps]:
  "and_then r f = Inr b \<longleftrightarrow> (\<exists>a. r = Inr a \<and> f a = Inr b)"
  by (cases r) simp_all

lemma and_then_InrE:
  assumes "and_then r f = Inr b"
  obtains a where "r = Inr a" "f a = Inr b"
  using assms by (auto simp: result_simps)

lemma and_then_cong [fundef_cong]:
  "r = r' \<Longrightarrow> (\<And>a. r' = Inr a \<Longrightarrow> f a = g a) \<Longrightarrow> and_then r f = and_then r' g"
  by (cases r') simp_all

lemma ok_or_simps [simp]: "ok_or None e = Inl e" "ok_or (Some a) e = Inr a"
  by (simp_all add: ok_or_def)

lemma ok_or_Inr_iff [result_simps]: "ok_or x e = Inr a \<longleftrightarrow> x = Some a"
  by (cases x) simp_all

lemma and_then_Inl_iff:
  "and_then r f = Inl e \<longleftrightarrow> r = Inl e \<or> (\<exists>a. r = Inr a \<and> f a = Inl e)"
  by (cases r) simp_all

lemma ok_or_Inl_iff: "ok_or x e = Inl d \<longleftrightarrow> x = None \<and> d = e"
  by (cases x) auto

lemma map_err_simps [simp]: "map_err f (Inl e) = Inl (f e)" "map_err f (Inr a) = Inr a"
  by (simp_all add: map_err_def)

lemma map_err_Inr_iff [result_simps]: "map_err f r = Inr a \<longleftrightarrow> r = Inr a"
  by (cases r) simp_all

lemma is_ok_iff: "is_ok r \<longleftrightarrow> (\<exists>a. r = Inr a)"
  by (cases r) (simp_all add: is_ok_def)

lemma is_ok_simps [simp]: "\<not> is_ok (Inl e)" "is_ok (Inr a)"
  by (simp_all add: is_ok_def)

lemma if_Inl_Inr_iff [result_simps]:
  "(if c then Inl e else r) = Inr a \<longleftrightarrow> \<not> c \<and> r = Inr a"
  by simp


section \<open>Checked arithmetic\<close>

text \<open>\<open>u64::checked_add\<close>, \<open>checked_mul\<close>, \<open>is_multiple_of\<close> and \<open>div_ceil\<close>: absent on
  overflow; \<open>is_multiple_of 0\<close> holds only of 0.\<close>

definition checked_add :: "u64 \<Rightarrow> u64 \<Rightarrow> u64 option" where
  "checked_add a b = (if unat a + unat b < 2 ^ 64 then Some (a + b) else None)"

definition checked_mul :: "u64 \<Rightarrow> u64 \<Rightarrow> u64 option" where
  "checked_mul a b = (if unat a * unat b < 2 ^ 64 then Some (a * b) else None)"

definition is_multiple_of :: "u64 \<Rightarrow> u64 \<Rightarrow> bool" where
  "is_multiple_of a b = (if b = 0 then a = 0 else a mod b = 0)"

definition div_ceil :: "u64 \<Rightarrow> u64 \<Rightarrow> u64" where
  "div_ceil a b = (let q = a div b in if a mod b = 0 then q else q + 1)"

lemma unat_u64_lt: "unat (a :: u64) < 18446744073709551616"
  using unsigned_less [of a] by simp

lemma unat_u32_lt: "unat (a :: u32) < 4294967296"
  using unsigned_less [of a] by simp

lemma unat_u8_lt: "unat (a :: u8) < 256"
  using unsigned_less [of a] by simp

lemma unat_add_u64: "unat (a + b :: u64) = (unat a + unat b) mod 2 ^ 64"
  by (simp add: unat_word_ariths)

lemma unat_mul_u64: "unat (a * b :: u64) = (unat a * unat b) mod 2 ^ 64"
  by (simp add: unat_word_ariths)

lemma unat_sub_u64: "b \<le> a \<Longrightarrow> unat (a - b :: u64) = unat a - unat b"
  by (simp add: unat_sub word_le_nat_alt)

lemma unat_div_u64: "unat (a div b :: u64) = unat a div unat b"
  by (simp add: unat_div)

lemma unat_mod_u64: "unat (a mod b :: u64) = unat a mod unat b"
  by (simp add: unat_mod)

lemma u64_less_nat [u64_nat]: "(a :: u64) < b \<longleftrightarrow> unat a < unat b"
  by (simp add: word_less_nat_alt)

lemma u64_le_nat [u64_nat]: "(a :: u64) \<le> b \<longleftrightarrow> unat a \<le> unat b"
  by (simp add: word_le_nat_alt)

lemma u64_eq_nat: "(a :: u64) = b \<longleftrightarrow> unat a = unat b"
  by (simp add: word_unat_eq_iff)

lemma u64_eq_0_nat [u64_nat]: "(a :: u64) = 0 \<longleftrightarrow> unat a = 0"
  by (simp add: unat_eq_zero)

lemma unat_of_nat_u64 [simp]: "n < 18446744073709551616 \<Longrightarrow> unat (of_nat n :: u64) = n"
  by (simp add: unat_of_nat)

lemma checked_add_Some_iff:
  "checked_add a b = Some c \<longleftrightarrow> unat c = unat a + unat b"
  by (auto simp: checked_add_def u64_eq_nat unat_add_u64) (use unat_u64_lt [of c] in linarith)

lemma checked_mul_Some_iff:
  "checked_mul a b = Some c \<longleftrightarrow> unat c = unat a * unat b"
  by (auto simp: checked_mul_def u64_eq_nat unat_mul_u64) (use unat_u64_lt [of c] in linarith)

lemma checked_add_None_iff: "checked_add a b = None \<longleftrightarrow> 2 ^ 64 \<le> unat a + unat b"
  by (auto simp: checked_add_def)

lemma is_multiple_of_nat: "is_multiple_of a b \<longleftrightarrow> unat b dvd unat a"
  by (auto simp: is_multiple_of_def u64_eq_nat unat_mod_u64 dvd_eq_mod_eq_0)

lemma nat_div_ceil:
  assumes "0 < (b :: nat)"
  shows "(a + b - 1) div b = (if a mod b = 0 then a div b else Suc (a div b))"
proof -
  define q r where "q = a div b" and "r = a mod b"
  then have a: "a = b * q + r" and r: "r < b" using assms by simp_all
  show ?thesis
  proof (cases "r = 0")
    case True
    then have "(a + b - 1) div b = q"
      using a assms by (intro div_nat_eqI) simp_all
    with True show ?thesis by (simp add: q_def r_def)
  next
    case False
    then have "(a + b - 1) div b = Suc q"
      using a r by (intro div_nat_eqI) simp_all
    with False show ?thesis by (simp add: q_def r_def)
  qed
qed

lemma unat_div_ceil:
  assumes "b \<noteq> 0"
  shows "unat (div_ceil a b) = (unat a + unat b - 1) div unat b"
proof -
  have B: "0 < unat b" using assms by (simp add: unat_gt_0)
  have "Suc (unat a div unat b) < 2 ^ 64" if "unat a mod unat b \<noteq> 0"
  proof -
    have "1 < unat b" using that B by (cases "unat b = 1") auto
    then have "unat a div unat b \<le> unat a div 2" by (simp add: div_le_mono2)
    with unat_u64_lt [of a] have "Suc (unat a div unat b) < 18446744073709551616" by linarith
    then show ?thesis by simp
  qed
  then show ?thesis
    unfolding nat_div_ceil [OF B]
    by (auto simp: div_ceil_def u64_eq_nat unat_mod_u64 unat_div_u64 unat_add_u64 Let_def)
qed


section \<open>Little-endian integers and digests\<close>

text \<open>\<open>to_le_bytes\<close> and \<open>from_le_bytes\<close>; a \<open>[u8; 32]\<close> digest is a 256-bit value whose
  byte array is its big-endian spelling, so array comparison is numeric comparison.\<close>

fun le_bytes :: "nat \<Rightarrow> nat \<Rightarrow> bytes" where
  "le_bytes 0 k = []"
| "le_bytes (Suc n) k = of_nat k # le_bytes n (k div 256)"

fun le_nat :: "bytes \<Rightarrow> nat" where
  "le_nat [] = 0"
| "le_nat (b # bs) = unat b + 256 * le_nat bs"

type_synonym digest = "256 word"

definition u32_le :: "u32 \<Rightarrow> bytes" where
  "u32_le w = le_bytes 4 (unat w)"

definition u64_le :: "u64 \<Rightarrow> bytes" where
  "u64_le w = le_bytes 8 (unat w)"

definition u32_of_le :: "bytes \<Rightarrow> u32" where
  "u32_of_le bs = of_nat (le_nat bs)"

definition u64_of_le :: "bytes \<Rightarrow> u64" where
  "u64_of_le bs = of_nat (le_nat bs)"

definition digest_bytes :: "digest \<Rightarrow> bytes" where
  "digest_bytes d = rev (le_bytes 32 (unat d))"

definition digest_of_bytes :: "bytes \<Rightarrow> digest" where
  "digest_of_bytes bs = of_nat (le_nat (rev bs))"

lemma length_le_bytes [simp]: "length (le_bytes n k) = n"
  by (induction n arbitrary: k) simp_all

lemma le_nat_less: "le_nat bs < 256 ^ length bs"
proof (induction bs)
  case (Cons b bs)
  have "unat b < 256" using unsigned_less [of b] by simp
  with Cons show ?case by simp
qed simp

lemma unat_of_nat_u8: "unat (of_nat k :: u8) = k mod 256"
  by (simp add: unat_of_nat)

lemma le_nat_le_bytes: "le_nat (le_bytes n k) = k mod 256 ^ n"
  by (induction n arbitrary: k)
    (simp_all add: unat_of_nat_u8 mod_mult2_eq add.commute)

lemma le_bytes_le_nat: "length bs = n \<Longrightarrow> le_bytes n (le_nat bs) = bs"
proof (induction bs arbitrary: n)
  case (Cons b bs)
  have "unat b < 256" using unsigned_less [of b] by simp
  then have "(unat b + 256 * le_nat bs) div 256 = le_nat bs" by simp
  moreover have "of_nat (unat b + 256 * le_nat bs) = (b :: u8)"
    by (rule word_unat_eq_iff [THEN iffD2]) (use \<open>unat b < 256\<close> in \<open>simp add: unat_of_nat del: of_nat_add of_nat_mult\<close>)
  ultimately show ?case using Cons by (auto simp del: of_nat_add)
qed simp

lemma length_u32_le [simp]: "length (u32_le w) = 4"
  by (simp add: u32_le_def)

lemma length_u64_le [simp]: "length (u64_le w) = 8"
  by (simp add: u64_le_def)

lemma length_digest_bytes [simp]: "length (digest_bytes d) = 32"
  by (simp add: digest_bytes_def)

lemma u32_of_le_u32_le [simp]: "u32_of_le (u32_le w) = w"
proof -
  have "unat w < 256 ^ 4" using unsigned_less [of w] by simp
  then show ?thesis by (simp add: u32_of_le_def u32_le_def le_nat_le_bytes)
qed

lemma u64_of_le_u64_le [simp]: "u64_of_le (u64_le w) = w"
proof -
  have "unat w < 256 ^ 8" using unsigned_less [of w] by simp
  then show ?thesis by (simp add: u64_of_le_def u64_le_def le_nat_le_bytes)
qed

lemma digest_of_bytes_digest_bytes [simp]: "digest_of_bytes (digest_bytes d) = d"
proof -
  have "unat d < 256 ^ 32" using unsigned_less [of d] by simp
  then show ?thesis by (simp add: digest_of_bytes_def digest_bytes_def le_nat_le_bytes)
qed

lemma u32_le_u32_of_le: "length bs = 4 \<Longrightarrow> u32_le (u32_of_le bs) = bs"
  using le_nat_less [of bs] by (simp add: u32_le_def u32_of_le_def unat_of_nat le_bytes_le_nat)

lemma u64_le_u64_of_le: "length bs = 8 \<Longrightarrow> u64_le (u64_of_le bs) = bs"
  using le_nat_less [of bs] by (simp add: u64_le_def u64_of_le_def unat_of_nat le_bytes_le_nat)

lemma digest_bytes_digest_of_bytes:
  "length bs = 32 \<Longrightarrow> digest_bytes (digest_of_bytes bs) = bs"
  using le_nat_less [of "rev bs"]
  by (simp add: digest_bytes_def digest_of_bytes_def unat_of_nat le_bytes_le_nat)

lemma digest_bytes_inj [simp]: "digest_bytes d = digest_bytes e \<longleftrightarrow> d = e"
  by (metis digest_of_bytes_digest_bytes)


section \<open>The byte-slice reader\<close>

text \<open>Both binary formats read a borrowed slice through a \<open>Reader { bytes, position }\<close>;
  \<open>take\<close> refuses with the format's own truncation error, and a position past the
  address range is the overflow of \<open>checked_add\<close>.\<close>

record reader =
  rd_bytes :: bytes
  rd_position :: nat

definition new_reader :: "bytes \<Rightarrow> reader" where
  "new_reader bs = \<lparr>rd_bytes = bs, rd_position = 0\<rparr>"

definition reader_take :: "'e \<Rightarrow> nat \<Rightarrow> reader \<Rightarrow> 'e + bytes \<times> reader" where
  "reader_take truncated n r =
     (let stop = rd_position r + n in
      if 2 ^ 64 \<le> stop then Inl truncated
      else if length (rd_bytes r) < stop then Inl truncated
      else Inr (take n (drop (rd_position r) (rd_bytes r)), r\<lparr>rd_position := stop\<rparr>))"

definition reader_remaining :: "reader \<Rightarrow> nat" where
  "reader_remaining r = length (rd_bytes r) - rd_position r"

definition reader_rest :: "reader \<Rightarrow> bytes" where
  "reader_rest r = drop (rd_position r) (rd_bytes r)"

definition reader_advance :: "nat \<Rightarrow> reader \<Rightarrow> reader" where
  "reader_advance n r = r\<lparr>rd_position := rd_position r + n\<rparr>"

definition reader_valid :: "reader \<Rightarrow> bool" where
  "reader_valid r \<longleftrightarrow> rd_position r \<le> length (rd_bytes r) \<and> length (rd_bytes r) < 2 ^ 64"

lemma reader_rest_new [simp]: "reader_rest (new_reader bs) = bs"
  by (simp add: reader_rest_def new_reader_def)

lemma reader_valid_new [simp]: "reader_valid (new_reader bs) \<longleftrightarrow> length bs < 2 ^ 64"
  by (simp add: reader_valid_def new_reader_def)

lemma reader_rest_advance [simp]: "reader_rest (reader_advance n r) = drop n (reader_rest r)"
  by (simp add: reader_rest_def reader_advance_def add.commute)

lemma reader_advance_advance [simp]:
  "reader_advance m (reader_advance n r) = reader_advance (n + m) r"
  by (simp add: reader_advance_def add.assoc)

lemma reader_remaining_rest: "reader_remaining r = length (reader_rest r)"
  by (simp add: reader_remaining_def reader_rest_def)

lemma reader_valid_advance:
  "reader_valid r \<Longrightarrow> n \<le> length (reader_rest r) \<Longrightarrow> reader_valid (reader_advance n r)"
  by (auto simp: reader_valid_def reader_advance_def reader_rest_def)

lemma reader_take_Inr_iff:
  assumes "reader_valid r"
  shows "reader_take e n r = Inr (bs, r') \<longleftrightarrow>
    n \<le> length (reader_rest r) \<and> bs = take n (reader_rest r) \<and> r' = reader_advance n r"
  using assms
  by (auto simp: reader_take_def reader_valid_def reader_rest_def reader_advance_def Let_def)

lemma reader_take_short:
  "reader_valid r \<Longrightarrow> length (reader_rest r) < n \<Longrightarrow> reader_take e n r = Inl e"
  by (auto simp: reader_take_def reader_valid_def reader_rest_def Let_def)


section \<open>Moves over an encoding\<close>

text \<open>\<open>consumes s r r'\<close>: from \<open>r\<close> the reader moves to \<open>r'\<close> over exactly the bytes \<open>s\<close>.\<close>

definition consumes :: "bytes \<Rightarrow> reader \<Rightarrow> reader \<Rightarrow> bool" where
  "consumes s r r' \<longleftrightarrow> reader_valid r \<and> reader_valid r' \<and> rd_bytes r' = rd_bytes r \<and>
     reader_rest r = s @ reader_rest r'"

definition consumes_u8 :: "u8 \<Rightarrow> reader \<Rightarrow> reader \<Rightarrow> bool" where
  "consumes_u8 b = consumes [b]"

named_theorems consumes_simps "the reader's moves over an encoding"

lemma consumes_advance_iff:
  "consumes s r r' \<longleftrightarrow> reader_valid r \<and> r' = reader_advance (length s) r \<and> (\<exists>t. reader_rest r = s @ t)"
proof
  assume c: "consumes s r r'"
  then have rest: "reader_rest r = s @ reader_rest r'" by (simp add: consumes_def)
  then have "length (reader_rest r) = length s + length (reader_rest r')" by simp
  then have "rd_position r' = rd_position r + length s"
    using c by (auto simp: consumes_def reader_rest_def reader_valid_def)
  with c rest show "reader_valid r \<and> r' = reader_advance (length s) r \<and> (\<exists>t. reader_rest r = s @ t)"
    by (auto simp: consumes_def reader_advance_def)
next
  assume "reader_valid r \<and> r' = reader_advance (length s) r \<and> (\<exists>t. reader_rest r = s @ t)"
  then show "consumes s r r'"
    by (auto simp: consumes_def reader_valid_advance) (simp add: reader_advance_def)
qed

lemma consumes_valid: "consumes s r r' \<Longrightarrow> reader_valid r \<and> reader_valid r'"
  by (simp add: consumes_def)

lemma consumes_Nil [consumes_simps]: "consumes [] r r' \<longleftrightarrow> reader_valid r \<and> r' = r"
  by (auto simp: consumes_advance_iff reader_advance_def)

lemma consumes_append [consumes_simps]:
  "consumes (s @ s') r r' \<longleftrightarrow> (\<exists>r1. consumes s r r1 \<and> consumes s' r1 r')"
proof
  assume c: "consumes (s @ s') r r'"
  let ?r1 = "reader_advance (length s) r"
  have rest: "reader_rest r = s @ s' @ reader_rest r'" using c by (simp add: consumes_def)
  then have "consumes s r ?r1" using c by (auto simp: consumes_advance_iff)
  moreover have "reader_rest ?r1 = s' @ reader_rest r'" by (simp add: rest)
  then have "consumes s' ?r1 r'"
    using c consumes_valid [OF \<open>consumes s r ?r1\<close>] by (simp add: consumes_def reader_advance_def)
  ultimately show "\<exists>r1. consumes s r r1 \<and> consumes s' r1 r'" by blast
qed (auto simp: consumes_def)

lemma consumes_Cons [consumes_simps]:
  "consumes (b # s) r r' \<longleftrightarrow> (\<exists>r1. consumes_u8 b r r1 \<and> consumes s r1 r')"
  using consumes_append [of "[b]" s] by (simp add: consumes_u8_def)


section \<open>Field codecs\<close>

text \<open>A field is written by an emitter and read back by a parser on the reader. The
  contract has two halves: what was emitted is parsed back and the reader stands just
  after it, and what is parsed is exactly the emission of the value returned.\<close>

fun parse_times :: "(reader \<Rightarrow> 'e + 'a \<times> reader) \<Rightarrow> nat \<Rightarrow> reader \<Rightarrow> 'e + 'a list \<times> reader" where
  "parse_times p 0 r = Inr ([], r)"
| "parse_times p (Suc n) r =
     and_then (p r) (\<lambda>(x, r1). and_then (parse_times p n r1) (\<lambda>(xs, r2). Inr (x # xs, r2)))"

locale field_codec =
  fixes emit :: "'a \<Rightarrow> bytes"
    and parse :: "reader \<Rightarrow> 'e + 'a \<times> reader"
    and wf :: "'a \<Rightarrow> bool"
  assumes parse_emit:
      "wf x \<Longrightarrow> reader_valid r \<Longrightarrow> reader_rest r = emit x @ t \<Longrightarrow>
       parse r = Inr (x, reader_advance (length (emit x)) r)"
    and parse_wf: "reader_valid r \<Longrightarrow> parse r = Inr (x, r') \<Longrightarrow> wf x"
    and parse_rest:
      "reader_valid r \<Longrightarrow> parse r = Inr (x, r') \<Longrightarrow> reader_rest r = emit x @ reader_rest r'"
    and parse_advance:
      "reader_valid r \<Longrightarrow> parse r = Inr (x, r') \<Longrightarrow> r' = reader_advance (length (emit x)) r"
begin

lemma valid_after_emit:
  "reader_valid r \<Longrightarrow> reader_rest r = emit x @ t \<Longrightarrow>
   reader_valid (reader_advance (length (emit x)) r)"
  by (simp add: reader_valid_advance)

lemma parse_valid: "reader_valid r \<Longrightarrow> parse r = Inr (x, r') \<Longrightarrow> reader_valid r'"
  using parse_rest parse_advance valid_after_emit by metis

lemma emit_prefix_free:
  assumes "wf x" "wf y" "emit x @ s = emit y @ t" "length (emit x @ s) < 2 ^ 64"
  shows "x = y \<and> s = t"
proof -
  let ?r = "new_reader (emit x @ s)"
  have v: "reader_valid ?r" using assms(4) by simp
  have "parse ?r = Inr (x, reader_advance (length (emit x)) ?r)"
    using assms(1) v by (rule parse_emit) simp
  moreover have "parse ?r = Inr (y, reader_advance (length (emit y)) ?r)"
    using assms(2) v by (rule parse_emit) (simp add: assms(3))
  ultimately have "x = y" by simp
  with assms(3) show ?thesis by simp
qed

lemma parse_times_emit:
  "list_all wf xs \<Longrightarrow> reader_valid r \<Longrightarrow> reader_rest r = concat (map emit xs) @ t \<Longrightarrow>
   parse_times parse (length xs) r = Inr (xs, reader_advance (length (concat (map emit xs))) r)"
proof (induction xs arbitrary: r)
  case Nil
  then show ?case by (simp add: reader_advance_def)
next
  case (Cons x xs)
  let ?r1 = "reader_advance (length (emit x)) r"
  have p: "parse r = Inr (x, ?r1)"
    using Cons.prems by (intro parse_emit [where t = "concat (map emit xs) @ t"]) simp_all
  have "reader_valid ?r1"
    using Cons.prems by (intro valid_after_emit [where t = "concat (map emit xs) @ t"]) simp_all
  moreover have "reader_rest ?r1 = concat (map emit xs) @ t"
    using Cons.prems by simp
  ultimately have "parse_times parse (length xs) ?r1 =
      Inr (xs, reader_advance (length (concat (map emit xs))) ?r1)"
    using Cons.prems by (intro Cons.IH) simp_all
  with p show ?case by (simp add: add.commute)
qed

lemma emit_parse_times:
  "reader_valid r \<Longrightarrow> parse_times parse n r = Inr (xs, r') \<Longrightarrow>
   length xs = n \<and> list_all wf xs \<and> reader_rest r = concat (map emit xs) @ reader_rest r' \<and>
   reader_valid r' \<and> r' = reader_advance (length (concat (map emit xs))) r"
proof (induction n arbitrary: r xs)
  case 0
  then show ?case by (simp add: reader_advance_def)
next
  case (Suc n)
  from Suc.prems(2) obtain x r1 ys where
    p: "parse r = Inr (x, r1)" and ps: "parse_times parse n r1 = Inr (ys, r')" and xs: "xs = x # ys"
    by (auto simp: result_simps split: prod.splits)
  obtain len: "length ys = n" and wf: "list_all wf ys"
    and rest: "reader_rest r1 = concat (map emit ys) @ reader_rest r'" and v: "reader_valid r'"
    and adv: "r' = reader_advance (length (concat (map emit ys))) r1"
    using Suc.IH [OF parse_valid [OF Suc.prems(1) p] ps] by blast
  have "reader_rest r = concat (map emit xs) @ reader_rest r'"
    using parse_rest [OF Suc.prems(1) p] by (simp add: rest xs)
  moreover have "r' = reader_advance (length (concat (map emit xs))) r"
    using parse_advance [OF Suc.prems(1) p] by (simp add: adv xs)
  ultimately show ?case
    using len wf v xs parse_wf [OF Suc.prems(1) p] by simp
qed

lemma parse_iff:
  "reader_valid r \<Longrightarrow> parse r = Inr (x, r') \<longleftrightarrow> wf x \<and> consumes (emit x) r r'"
  by (metis consumes_advance_iff parse_advance parse_emit parse_rest parse_wf)

lemma parse_times_iff:
  "reader_valid r \<Longrightarrow> parse_times parse n r = Inr (xs, r') \<longleftrightarrow>
   length xs = n \<and> list_all wf xs \<and> consumes (concat (map emit xs)) r r'"
  using emit_parse_times [of r n xs r'] parse_times_emit [of xs r]
  by (auto simp: consumes_advance_iff)

end

lemma field_codecI:
  fixes emit :: "'a \<Rightarrow> bytes" and parse :: "reader \<Rightarrow> 'e + 'a \<times> reader" and wf :: "'a \<Rightarrow> bool"
  assumes "\<And>r x r'. reader_valid r \<Longrightarrow> parse r = Inr (x, r') \<longleftrightarrow> wf x \<and> consumes (emit x) r r'"
  shows "field_codec emit parse wf"
proof
  show "parse r = Inr (x, reader_advance (length (emit x)) r)"
    if "wf x" "reader_valid r" "reader_rest r = emit x @ t" for x r t
    using that by (simp add: assms consumes_advance_iff)
  show "r' = reader_advance (length (emit x)) r" if "reader_valid r" "parse r = Inr (x, r')" for r x r'
    using that by (simp add: assms consumes_advance_iff)
qed (auto simp: assms consumes_def)

text \<open>The primitive fields: a raw run of \<open>n\<close> bytes, an integer, a digest. The truncation
  error is a parameter, since each format has its own.\<close>

definition take_u8 :: "'e \<Rightarrow> reader \<Rightarrow> 'e + u8 \<times> reader" where
  "take_u8 e r = and_then (reader_take e 1 r) (\<lambda>(bs, r'). Inr (bs ! 0, r'))"

definition take_u32 :: "'e \<Rightarrow> reader \<Rightarrow> 'e + u32 \<times> reader" where
  "take_u32 e r = and_then (reader_take e 4 r) (\<lambda>(bs, r'). Inr (u32_of_le bs, r'))"

definition take_u64 :: "'e \<Rightarrow> reader \<Rightarrow> 'e + u64 \<times> reader" where
  "take_u64 e r = and_then (reader_take e 8 r) (\<lambda>(bs, r'). Inr (u64_of_le bs, r'))"

definition take_digest :: "'e \<Rightarrow> reader \<Rightarrow> 'e + digest \<times> reader" where
  "take_digest e r = and_then (reader_take e 32 r) (\<lambda>(bs, r'). Inr (digest_of_bytes bs, r'))"

lemma fixed_width_codec:
  assumes len: "\<And>x. length (emit x) = n"
    and inv: "\<And>x. conv (emit x) = x" "\<And>bs. length bs = n \<Longrightarrow> emit (conv bs) = bs"
  shows "field_codec emit (\<lambda>r. and_then (reader_take e n r) (\<lambda>(bs, r'). Inr (conv bs, r')))
    (\<lambda>_. True)"
proof -
  have parsed: "emit x = take n (reader_rest r) \<and> r' = reader_advance n r"
    if "reader_valid r"
      "and_then (reader_take e n r) (\<lambda>(bs, r'). Inr (conv bs, r')) = Inr (x, r')" for r x r'
    using that by (auto simp: result_simps reader_take_Inr_iff inv(2) split: prod.splits)
  show ?thesis
  proof (unfold_locales, goal_cases)
    case (1 x r t)
    then have "reader_take e n r = Inr (emit x, reader_advance n r)"
      by (simp add: reader_take_Inr_iff len)
    then show ?case by (simp add: inv(1) len)
  next
    case (3 r x r')
    with parsed [OF 3] show ?case by (metis append_take_drop_id reader_rest_advance)
  next
    case (4 r x r')
    from parsed [OF 4] show ?case by (metis len)
  qed simp
qed

interpretation u8_field: field_codec "\<lambda>b. [b]" "take_u8 e" "\<lambda>_. True"
  unfolding take_u8_def
  by (rule fixed_width_codec) (auto simp: length_Suc_conv)

interpretation u32_field: field_codec u32_le "take_u32 e" "\<lambda>_. True"
  unfolding take_u32_def by (rule fixed_width_codec) (simp_all add: u32_le_u32_of_le)

interpretation u64_field: field_codec u64_le "take_u64 e" "\<lambda>_. True"
  unfolding take_u64_def by (rule fixed_width_codec) (simp_all add: u64_le_u64_of_le)

interpretation digest_field: field_codec digest_bytes "take_digest e" "\<lambda>_. True"
  unfolding take_digest_def by (rule fixed_width_codec) (simp_all add: digest_bytes_digest_of_bytes)

lemmas primitive_parse_emit =
  u8_field.parse_emit [OF TrueI] u32_field.parse_emit [OF TrueI]
  u64_field.parse_emit [OF TrueI] digest_field.parse_emit [OF TrueI]

lemma take_u8_iff [consumes_simps]: "reader_valid r \<Longrightarrow> take_u8 e r = Inr (b, r') \<longleftrightarrow> consumes_u8 b r r'"
  by (simp add: u8_field.parse_iff consumes_u8_def)

lemmas primitive_iff [consumes_simps] =
  u32_field.parse_iff u64_field.parse_iff digest_field.parse_iff

lemma take_iff [consumes_simps]:
  "reader_valid r \<Longrightarrow> reader_take e n r = Inr (bs, r') \<longleftrightarrow> length bs = n \<and> consumes bs r r'"
  by (auto simp: reader_take_Inr_iff consumes_advance_iff) (metis append_take_drop_id)

lemma consumes_u8_valid: "consumes_u8 b r r' \<Longrightarrow> reader_valid r \<and> reader_valid r'"
  by (simp add: consumes_u8_def consumes_valid)

lemma if_eq_Inr_iff:
  "(if c then a else b) = Inr z \<longleftrightarrow> c \<and> a = Inr z \<or> \<not> c \<and> b = Inr z"
  by simp

lemma consumes_reader_valid [simp]:
  "consumes s r r' \<Longrightarrow> reader_valid r'" "consumes_u8 b r r' \<Longrightarrow> reader_valid r'"
  by (simp_all add: consumes_valid consumes_u8_valid)

text \<open>With these a decoder unfolds, by simplification alone, to the moves it makes.\<close>

lemmas decode_simps =
  result_simps consumes_simps if_eq_Inr_iff conj_disj_distribL conj_disj_distribR ex_disj_distrib


text \<open>A declared count is plausible when the rest of the input can hold that many fields of at least
  \<open>k\<close> bytes.\<close>

definition remaining_u64 :: "reader \<Rightarrow> u64" where
  "remaining_u64 r = of_nat (reader_remaining r)"

lemma length_concat_ge: "(\<And>x. x \<in> set xs \<Longrightarrow> k \<le> length (f x)) \<Longrightarrow> k * length xs \<le> length (concat (map f xs))"
  by (induction xs) fastforce+

lemma count_fits:
  assumes "consumes s r r'" "k * n \<le> length s" "0 < k" "unat w = k" "unat c = n"
  shows "\<not> remaining_u64 r div w < c"
proof -
  have "length (reader_rest r) < 2 ^ 64"
    using consumes_valid [OF assms(1)] by (auto simp: reader_valid_def reader_rest_def)
  moreover have "length s \<le> length (reader_rest r)"
    using assms(1) by (auto simp: consumes_advance_iff)
  ultimately have len: "length (reader_rest r) < 2 ^ 64" "length s \<le> length (reader_rest r)" .
  then have "unat (remaining_u64 r) = length (reader_rest r)"
    by (simp add: remaining_u64_def reader_remaining_rest)
  moreover have "n \<le> length (reader_rest r) div k"
    using assms(2,3) len(2) by (simp add: less_eq_div_iff_mult_less_eq mult.commute)
  ultimately show ?thesis using assms(4,5) by (simp add: not_less u64_nat unat_div_u64)
qed


section \<open>Ordered maps\<close>

text \<open>\<open>BTreeMap\<close> as a strictly sorted association list: iteration is in key order, and a
  second insertion of a key replaces its value.\<close>

fun bt_insert :: "'k::linorder \<Rightarrow> 'v \<Rightarrow> ('k \<times> 'v) list \<Rightarrow> ('k \<times> 'v) list" where
  "bt_insert k v [] = [(k, v)]"
| "bt_insert k v ((a, b) # m) =
     (if k < a then (k, v) # (a, b) # m
      else if k = a then (k, v) # m
      else (a, b) # bt_insert k v m)"

fun bt_remove :: "'k::linorder \<Rightarrow> ('k \<times> 'v) list \<Rightarrow> ('k \<times> 'v) list" where
  "bt_remove k [] = []"
| "bt_remove k ((a, b) # m) = (if k = a then m else (a, b) # bt_remove k m)"

definition bt_sorted :: "('k::linorder \<times> 'v) list \<Rightarrow> bool" where
  "bt_sorted m = sorted_wrt (<) (map fst m)"

locale ordered_map =
  fixes insert :: "'k::linorder \<Rightarrow> 'v \<Rightarrow> 'm \<Rightarrow> 'm"
    and remove :: "'k \<Rightarrow> 'm \<Rightarrow> 'm"
    and get :: "'m \<Rightarrow> 'k \<Rightarrow> 'v option"
    and entries :: "'m \<Rightarrow> ('k \<times> 'v) list"
    and invar :: "'m \<Rightarrow> bool"
  assumes get_insert: "invar m \<Longrightarrow> get (insert k v m) = (get m)(k \<mapsto> v)"
    and get_remove: "invar m \<Longrightarrow> get (remove k m) = (get m)(k := None)"
    and invar_insert: "invar m \<Longrightarrow> invar (insert k v m)"
    and invar_remove: "invar m \<Longrightarrow> invar (remove k m)"
    and entries_sorted: "invar m \<Longrightarrow> sorted_wrt (<) (map fst (entries m))"
    and get_entries: "invar m \<Longrightarrow> get m = map_of (entries m)"
begin

lemma entries_distinct: "invar m \<Longrightarrow> distinct (map fst (entries m))"
  using entries_sorted by (simp add: strict_sorted_iff)

lemma in_entries_iff: "invar m \<Longrightarrow> (k, v) \<in> set (entries m) \<longleftrightarrow> get m k = Some v"
  by (simp add: get_entries entries_distinct)

lemma entries_eqI:
  assumes "invar m" "invar m'" "get m = get m'"
  shows "entries m = entries m'"
proof (rule map_sorted_distinct_set_unique)
  show "inj_on fst (set (entries m) \<union> set (entries m'))"
    using assms by (auto simp: inj_on_def in_entries_iff)
  show "sorted (map fst (entries m))" "distinct (map fst (entries m))"
    "sorted (map fst (entries m'))" "distinct (map fst (entries m'))"
    using assms entries_sorted by (auto simp: strict_sorted_iff)
  show "set (entries m) = set (entries m')"
    using assms by (auto simp: in_entries_iff)
qed

lemma insert_all:
  assumes "invar m"
  shows "invar (fold (\<lambda>(k, v). insert k v) kvs m)"
    and "get (fold (\<lambda>(k, v). insert k v) kvs m) = get m ++ map_of (rev kvs)"
proof -
  have "invar (fold (\<lambda>(k, v). insert k v) kvs m) \<and>
    get (fold (\<lambda>(k, v). insert k v) kvs m) = get m ++ map_of (rev kvs)"
    using assms
    by (induction kvs arbitrary: m) (auto simp: invar_insert get_insert map_add_def fun_eq_iff
      split: option.splits)
  then show "invar (fold (\<lambda>(k, v). insert k v) kvs m)"
    and "get (fold (\<lambda>(k, v). insert k v) kvs m) = get m ++ map_of (rev kvs)" by blast+
qed

lemma insert_all_permuted:
  assumes "invar m" "distinct (map fst kvs)" "mset kvs = mset kvs'"
  shows "entries (fold (\<lambda>(k, v). insert k v) kvs m) = entries (fold (\<lambda>(k, v). insert k v) kvs' m)"
proof (rule entries_eqI)
  have "distinct (map fst kvs')"
    using assms(2,3) by (metis mset_eq_imp_distinct_iff mset_map)
  then have "map_of (rev kvs) = map_of (rev kvs')"
    using assms(2,3) by (intro map_of_eqI) (auto simp: rev_map [symmetric] dest: mset_eq_setD)
  then show "get (fold (\<lambda>(k, v). insert k v) kvs m) = get (fold (\<lambda>(k, v). insert k v) kvs' m)"
    using assms(1) by (simp add: insert_all)
qed (use assms(1) in \<open>simp_all add: insert_all\<close>)

end

lemma set_bt_insert: "fst ` set (bt_insert k v m) = insert k (fst ` set m)"
  by (induction k v m rule: bt_insert.induct) auto

lemma set_bt_remove: "set (bt_remove k m) \<subseteq> set m"
  by (induction k m rule: bt_remove.induct) auto

lemma bt_sorted_insert: "bt_sorted m \<Longrightarrow> bt_sorted (bt_insert k v m)"
  unfolding bt_sorted_def
proof (induction k v m rule: bt_insert.induct)
  case (2 k v a b m)
  have "fst ` set (bt_insert k v m) = insert k (fst ` set m)" by (rule set_bt_insert)
  with 2 show ?case by (auto dest: order.strict_trans)
qed simp

lemma bt_sorted_remove: "bt_sorted m \<Longrightarrow> bt_sorted (bt_remove k m)"
  unfolding bt_sorted_def
  by (induction k m rule: bt_remove.induct) (auto dest: subsetD [OF set_bt_remove])

lemma map_of_bt_insert: "map_of (bt_insert k v m) = (map_of m)(k \<mapsto> v)"
  by (induction k v m rule: bt_insert.induct) auto

lemma map_of_bt_remove: "bt_sorted m \<Longrightarrow> map_of (bt_remove k m) = (map_of m)(k := None)"
  unfolding bt_sorted_def
  by (induction k m rule: bt_remove.induct) (auto simp: fun_eq_iff map_of_eq_None_iff)

interpretation bt: ordered_map bt_insert bt_remove map_of "\<lambda>m. m" bt_sorted
  by unfold_locales
    (simp_all add: map_of_bt_insert map_of_bt_remove bt_sorted_insert bt_sorted_remove,
     simp add: bt_sorted_def)

lemma multiples_unique:
  assumes "(d::nat) dvd m" "d dvd n" "v \<le> m" "m < v + d" "v \<le> n" "n < v + d"
  shows "m = n"
proof -
  obtain a b where ab: "m = d * a" "n = d * b" using assms(1,2) by (auto elim!: dvdE)
  have "d * a < d * Suc b" "d * b < d * Suc a" using assms(3-6) ab by simp_all
  then have "a < Suc b" "b < Suc a" by (simp_all only: mult_less_cancel1)
  then show ?thesis using ab by simp
qed


section \<open>Chunks of a slice\<close>

text \<open>\<open>slice::chunks\<close>: pieces of \<open>n\<close> elements, the last one may be shorter.\<close>

function slice_chunks :: "nat \<Rightarrow> 'a list \<Rightarrow> 'a list list" where
  "slice_chunks n xs = (if xs = [] \<or> n = 0 then [] else take n xs # slice_chunks n (drop n xs))"
  by pat_completeness auto
termination by (relation "measure (length \<circ> snd)") auto

declare slice_chunks.simps [simp del]

lemma concat_slice_chunks: "0 < n \<Longrightarrow> concat (slice_chunks n xs) = xs"
proof (induction n xs rule: slice_chunks.induct)
  case (1 n xs)
  then show ?case by (subst slice_chunks.simps) simp
qed

end
