(* ===== verification/Rust_Text.thy ===== *)
theory Rust_Text
  imports Prelude
begin

text \<open>
  The pieces of Rust's string library the sources use: UTF-8 validation as
  \<open>str::from_utf8\<close> performs it, splitting, decimal and hexadecimal printing, and
  integer parsing with \<open>from_str_radix\<close>. A \<open>str\<close> is the list of its UTF-8 bytes, one
  \<open>char\<close> of HOL per byte; \<open>chars\<close> gives its Unicode scalar values.
\<close>

section \<open>UTF-8\<close>

datatype utf8_next = Utf8_Char nat bytes | Utf8_Incomplete | Utf8_Bad

text \<open>Continuation bytes of one sequence: the first has its own range (it excludes
  overlong forms, surrogates and values past U+10FFFF), the others 80..BF.\<close>

fun utf8_more :: "nat \<Rightarrow> nat \<Rightarrow> nat \<Rightarrow> nat \<Rightarrow> bytes \<Rightarrow> utf8_next" where
  "utf8_more 0 lo hi acc bs = Utf8_Char acc bs"
| "utf8_more (Suc k) lo hi acc [] = Utf8_Incomplete"
| "utf8_more (Suc k) lo hi acc (c # cs) =
     (if lo \<le> unat c \<and> unat c \<le> hi
      then utf8_more k 0x80 0xBF (acc * 64 + (unat c - 0x80)) cs
      else Utf8_Bad)"

fun utf8_step :: "u8 \<Rightarrow> bytes \<Rightarrow> utf8_next" where
  "utf8_step b bs =
     (let n = unat b in
      if n < 0x80 then Utf8_Char n bs
      else if 0xC2 \<le> n \<and> n \<le> 0xDF then utf8_more 1 0x80 0xBF (n - 0xC0) bs
      else if n = 0xE0 then utf8_more 2 0xA0 0xBF 0 bs
      else if n = 0xED then utf8_more 2 0x80 0x9F (n - 0xE0) bs
      else if 0xE1 \<le> n \<and> n \<le> 0xEF then utf8_more 2 0x80 0xBF (n - 0xE0) bs
      else if n = 0xF0 then utf8_more 3 0x90 0xBF 0 bs
      else if 0xF1 \<le> n \<and> n \<le> 0xF3 then utf8_more 3 0x80 0xBF (n - 0xF0) bs
      else if n = 0xF4 then utf8_more 3 0x80 0x8F (n - 0xF0) bs
      else Utf8_Bad)"

lemma utf8_more_length: "utf8_more k lo hi acc bs = Utf8_Char c rest \<Longrightarrow> length rest \<le> length bs"
  by (induction k lo hi acc bs rule: utf8_more.induct) (auto split: if_splits)

lemma utf8_step_length: "utf8_step b bs = Utf8_Char c rest \<Longrightarrow> length rest < length (b # bs)"
  by (auto simp: Let_def less_Suc_eq_le split: if_splits dest!: utf8_more_length)

text \<open>\<open>utf8_scan\<close> returns the scalar values of the longest valid prefix, what follows it,
  and how the scan ended: \<open>Utf8Error::error_len() == None\<close> is \<open>Utf8_Cut\<close>.\<close>

datatype utf8_end = Utf8_Done | Utf8_Cut | Utf8_Error

function utf8_scan :: "bytes \<Rightarrow> nat list \<times> bytes \<times> utf8_end" where
  "utf8_scan [] = ([], [], Utf8_Done)"
| "utf8_scan (b # bs) =
     (case utf8_step b bs of
        Utf8_Char c rest \<Rightarrow> (let (cs, suffix, fin) = utf8_scan rest in (c # cs, suffix, fin))
      | Utf8_Incomplete \<Rightarrow> ([], b # bs, Utf8_Cut)
      | Utf8_Bad \<Rightarrow> ([], b # bs, Utf8_Error))"
  by pat_completeness auto
termination
  by (relation "measure length") (auto dest!: utf8_step_length simp del: utf8_step.simps)

text \<open>Scanning in pieces: a valid prefix can be dropped, an incomplete tail has at most three
  bytes and is scanned again with what follows.\<close>

lemma utf8_more_append:
  "utf8_more k lo hi acc bs = Utf8_Char c rest \<Longrightarrow> utf8_more k lo hi acc (bs @ ys) = Utf8_Char c (rest @ ys)"
  "utf8_more k lo hi acc bs = Utf8_Bad \<Longrightarrow> utf8_more k lo hi acc (bs @ ys) = Utf8_Bad"
  "utf8_more k lo hi acc bs = Utf8_Incomplete \<Longrightarrow> length bs < k"
  by (induction k lo hi acc bs rule: utf8_more.induct) (auto split: if_splits)

lemma utf8_step_append:
  "utf8_step b bs = Utf8_Char c rest \<Longrightarrow> utf8_step b (bs @ ys) = Utf8_Char c (rest @ ys)"
  "utf8_step b bs = Utf8_Bad \<Longrightarrow> utf8_step b (bs @ ys) = Utf8_Bad"
  "utf8_step b bs = Utf8_Incomplete \<Longrightarrow> length bs < 3"
  unfolding utf8_step.simps Let_def
  by (auto split: if_splits simp del: utf8_more.simps simp: utf8_more_append dest: utf8_more_append(3))

lemma utf8_scan_append:
  "utf8_scan xs = (cs, suffix, fin) \<Longrightarrow>
   utf8_scan (xs @ ys) =
     (if fin = Utf8_Error then (cs, suffix @ ys, Utf8_Error)
      else case utf8_scan (suffix @ ys) of (ds, s, f) \<Rightarrow> (cs @ ds, s, f))"
proof (induction xs arbitrary: cs suffix fin rule: utf8_scan.induct)
  case (2 b bs)
  show ?case
  proof (cases "utf8_step b bs")
    case (Utf8_Char c rest)
    obtain ds s f where sc: "utf8_scan rest = (ds, s, f)" by (cases "utf8_scan rest")
    with 2(2) Utf8_Char have *: "cs = c # ds" "suffix = s" "fin = f" by (simp_all del: utf8_step.simps)
    show ?thesis using 2(1) [OF Utf8_Char sc] utf8_step_append(1) [OF Utf8_Char, of ys]
      by (simp add: * case_prod_beta del: utf8_step.simps)
  qed (use 2(2) utf8_step_append(2) [of b bs ys] in \<open>auto simp del: utf8_step.simps split: prod.splits\<close>)
qed auto

lemma utf8_scan_end:
  "utf8_scan xs = (cs, suffix, fin) \<Longrightarrow>
   (fin = Utf8_Done \<longrightarrow> suffix = []) \<and>
   (fin = Utf8_Cut \<longrightarrow> utf8_scan suffix = ([], suffix, Utf8_Cut) \<and> length suffix \<le> 3)"
proof (induction xs arbitrary: cs suffix fin rule: utf8_scan.induct)
  case (2 b bs)
  show ?case
  proof (cases "utf8_step b bs")
    case (Utf8_Char c rest)
    obtain ds s f where sc: "utf8_scan rest = (ds, s, f)" by (cases "utf8_scan rest")
    with 2(2) Utf8_Char have *: "suffix = s" "fin = f" by (simp_all del: utf8_step.simps)
    then show ?thesis using 2(1) [OF Utf8_Char sc] by simp
  qed (use 2(2) utf8_step_append(3) [of b bs] in \<open>auto simp del: utf8_step.simps\<close>)
qed auto


definition utf8_valid :: "bytes \<Rightarrow> bool" where
  "utf8_valid bs = (snd (snd (utf8_scan bs)) = Utf8_Done)"

definition byte_of :: "char \<Rightarrow> u8" where
  "byte_of c = of_nat (of_char c)"

definition char_at :: "u8 \<Rightarrow> char" where
  "char_at b = char_of (unat b)"

definition as_bytes :: "str \<Rightarrow> bytes" where
  "as_bytes s = map byte_of s"

definition from_utf8 :: "bytes \<Rightarrow> str option" where
  "from_utf8 bs = (if utf8_valid bs then Some (map char_at bs) else None)"

definition chars :: "str \<Rightarrow> nat list" where
  "chars s = fst (utf8_scan (as_bytes s))"

definition is_str :: "str \<Rightarrow> bool" where
  "is_str s = utf8_valid (as_bytes s)"

lemma unat_byte_of: "unat (byte_of c) = of_char c"
  by (simp add: byte_of_def unat_of_nat)

lemma byte_of_char_at [simp]: "byte_of (char_at b) = b"
proof -
  have "unat b < 256" using unsigned_less [of b] by simp
  then show ?thesis by (simp add: byte_of_def char_at_def)
qed

lemma char_at_byte_of [simp]: "char_at (byte_of c) = c"
  by (simp add: char_at_def unat_byte_of)

lemma as_bytes_map_char_at [simp]: "as_bytes (map char_at bs) = bs"
  by (simp add: as_bytes_def comp_def)

lemma char_at_as_bytes [simp]: "map char_at (as_bytes s) = s"
  by (simp add: as_bytes_def comp_def)

lemma length_as_bytes [simp]: "length (as_bytes s) = length s"
  by (simp add: as_bytes_def)

lemma from_utf8_as_bytes: "is_str s \<Longrightarrow> from_utf8 (as_bytes s) = Some s"
  by (simp add: from_utf8_def is_str_def)

lemma from_utf8_Some_iff: "from_utf8 bs = Some s \<longleftrightarrow> bs = as_bytes s \<and> is_str s"
  by (auto simp: from_utf8_def is_str_def)

lemma as_bytes_inj [simp]: "as_bytes s = as_bytes t \<longleftrightarrow> s = t"
  by (metis char_at_as_bytes)

lemma as_bytes_append: "as_bytes (s @ t) = as_bytes s @ as_bytes t"
  by (simp add: as_bytes_def)

lemma as_bytes_Nil [simp]: "as_bytes [] = []" "as_bytes s = [] \<longleftrightarrow> s = []"
  by (simp_all add: as_bytes_def)

lemma is_str_Nil [simp]: "is_str []"
  by (simp add: is_str_def utf8_valid_def)

definition is_ascii_char :: "char \<Rightarrow> bool" where
  "is_ascii_char c = ((of_char c :: nat) < 128)"

lemma utf8_valid_ascii: "(\<And>b. b \<in> set bs \<Longrightarrow> unat b < 128) \<Longrightarrow> utf8_valid bs"
proof (induction bs)
  case (Cons b bs)
  then have "unat b < 128" "utf8_valid bs" by simp_all
  then show ?case by (simp add: utf8_valid_def case_prod_beta)
qed (simp add: utf8_valid_def)

lemma is_str_ascii: "list_all is_ascii_char s \<Longrightarrow> is_str s"
  unfolding is_str_def
  by (rule utf8_valid_ascii) (auto simp: as_bytes_def list_all_iff is_ascii_char_def unat_byte_of)


section \<open>Splitting and character classes\<close>

fun split_on :: "'a \<Rightarrow> 'a list \<Rightarrow> 'a list list" where
  "split_on c [] = [[]]"
| "split_on c (x # xs) =
     (if x = c then [] # split_on c xs
      else (case split_on c xs of [] \<Rightarrow> [[x]] | y # ys \<Rightarrow> (x # y) # ys))"

definition split_once :: "'a \<Rightarrow> 'a list \<Rightarrow> ('a list \<times> 'a list) option" where
  "split_once c s =
     (case dropWhile (\<lambda>x. x \<noteq> c) s of
        [] \<Rightarrow> None
      | _ # rest \<Rightarrow> Some (takeWhile (\<lambda>x. x \<noteq> c) s, rest))"

definition rsplit_once :: "'a \<Rightarrow> 'a list \<Rightarrow> ('a list \<times> 'a list) option" where
  "rsplit_once c s = map_option (\<lambda>(post, pre). (rev pre, rev post)) (split_once c (rev s))"

fun strip_prefix :: "'a list \<Rightarrow> 'a list \<Rightarrow> 'a list option" where
  "strip_prefix [] s = Some s"
| "strip_prefix (p # ps) [] = None"
| "strip_prefix (p # ps) (x # xs) = (if p = x then strip_prefix ps xs else None)"

definition is_ascii_digit :: "char \<Rightarrow> bool" where
  "is_ascii_digit c = (48 \<le> (of_char c :: nat) \<and> (of_char c :: nat) \<le> 57)"

definition is_ascii_lowercase :: "char \<Rightarrow> bool" where
  "is_ascii_lowercase c = (97 \<le> (of_char c :: nat) \<and> (of_char c :: nat) \<le> 122)"

definition is_ascii_uppercase :: "char \<Rightarrow> bool" where
  "is_ascii_uppercase c = (65 \<le> (of_char c :: nat) \<and> (of_char c :: nat) \<le> 90)"

definition to_ascii_lowercase :: "char \<Rightarrow> char" where
  "to_ascii_lowercase c = (if is_ascii_uppercase c then char_of (of_char c + 32 :: nat) else c)"

definition eq_ignore_ascii_case :: "str \<Rightarrow> str \<Rightarrow> bool" where
  "eq_ignore_ascii_case s t = (map to_ascii_lowercase s = map to_ascii_lowercase t)"

text \<open>\<open>char::is_control\<close>: the Unicode category Cc.\<close>

definition is_control :: "nat \<Rightarrow> bool" where
  "is_control c = (c < 32 \<or> (127 \<le> c \<and> c < 160))"

lemma strip_prefix_Some_iff: "strip_prefix p s = Some t \<longleftrightarrow> s = p @ t"
  by (induction p s rule: strip_prefix.induct) auto

lemma split_on_not_Nil [simp]: "split_on c s \<noteq> []"
  by (induction s) (simp_all split: list.split)

lemma split_once_Some_iff:
  "split_once c s = Some (a, b) \<longleftrightarrow> s = a @ c # b \<and> c \<notin> set a"
proof
  assume "split_once c s = Some (a, b)"
  then obtain x where d: "dropWhile (\<lambda>x. x \<noteq> c) s = x # b" and a: "a = takeWhile (\<lambda>x. x \<noteq> c) s"
    by (auto simp: split_once_def split: list.splits)
  have "x = c" using hd_dropWhile [of "\<lambda>x. x \<noteq> c" s] d by simp
  moreover have "s = a @ x # b" using takeWhile_dropWhile_id [of "\<lambda>x. x \<noteq> c" s] d a by simp
  moreover have "c \<notin> set a" using a by (auto dest: set_takeWhileD)
  ultimately show "s = a @ c # b \<and> c \<notin> set a" by simp
next
  have "c \<notin> set a \<Longrightarrow> dropWhile (\<lambda>x. x \<noteq> c) (a @ c # b) = c # b"
    "c \<notin> set a \<Longrightarrow> takeWhile (\<lambda>x. x \<noteq> c) (a @ c # b) = a"
    by (induction a) auto
  moreover assume "s = a @ c # b \<and> c \<notin> set a"
  ultimately show "split_once c s = Some (a, b)" by (simp add: split_once_def)
qed

lemma split_once_None_iff: "split_once c s = None \<longleftrightarrow> c \<notin> set s"
proof -
  have "split_once c s \<noteq> None" if "c \<in> set s"
    using split_list_first [OF that] split_once_Some_iff [of c s] by fastforce
  moreover have "c \<in> set s" if "split_once c s \<noteq> None"
    using that split_once_Some_iff [of c s] by auto
  ultimately show ?thesis by blast
qed

lemma rsplit_once_Some_iff:
  "rsplit_once c s = Some (a, b) \<longleftrightarrow> s = a @ c # b \<and> c \<notin> set b"
proof -
  have "rsplit_once c s = Some (a, b) \<longleftrightarrow> split_once c (rev s) = Some (rev b, rev a)"
    by (auto simp: rsplit_once_def rev_swap)
  also have "\<dots> \<longleftrightarrow> s = a @ c # b \<and> c \<notin> set b"
    by (auto simp: split_once_Some_iff rev_swap)
  finally show ?thesis .
qed

lemma rsplit_once_None_iff: "rsplit_once c s = None \<longleftrightarrow> c \<notin> set s"
  by (simp add: rsplit_once_def split_once_None_iff)


section \<open>Integers as text\<close>

definition digit_char :: "nat \<Rightarrow> char" where
  "digit_char n = ''0123456789abcdef'' ! n"

fun to_decimal :: "nat \<Rightarrow> str" where
  "to_decimal n = (if n < 10 then [digit_char n] else to_decimal (n div 10) @ [digit_char (n mod 10)])"

declare to_decimal.simps [simp del]

definition hex_byte :: "u8 \<Rightarrow> str" where
  "hex_byte b = [digit_char (unat b div 16), digit_char (unat b mod 16)]"

definition hex_bytes :: "bytes \<Rightarrow> str" where
  "hex_bytes bs = concat (map hex_byte bs)"

definition to_digit :: "nat \<Rightarrow> char \<Rightarrow> nat option" where
  "to_digit radix c =
     (let k = (of_char c :: nat);
          d = (if 48 \<le> k \<and> k \<le> 57 then k - 48
               else if 97 \<le> k \<and> k \<le> 122 then k - 87
               else if 65 \<le> k \<and> k \<le> 90 then k - 55
               else radix)
      in if d < radix then Some d else None)"

text \<open>\<open>from_str_radix\<close> on an unsigned type with values below \<open>bound\<close>: one leading plus sign
  is accepted before the digits, and overflow refuses.\<close>

fun parse_digits :: "nat \<Rightarrow> nat \<Rightarrow> nat \<Rightarrow> str \<Rightarrow> nat option" where
  "parse_digits radix bound acc [] = Some acc"
| "parse_digits radix bound acc (c # cs) =
     (case to_digit radix c of
        None \<Rightarrow> None
      | Some d \<Rightarrow> (let acc' = acc * radix + d in
                  if bound \<le> acc' then None else parse_digits radix bound acc' cs))"

definition from_str_radix :: "nat \<Rightarrow> nat \<Rightarrow> str \<Rightarrow> nat option" where
  "from_str_radix radix bound s =
     (case s of
        [] \<Rightarrow> None
      | c # cs \<Rightarrow>
          if (c = CHR ''+'' \<or> c = CHR ''-'') \<and> cs = [] then None
          else if c = CHR ''+'' then parse_digits radix bound 0 cs
          else parse_digits radix bound 0 s)"

definition parse_u64 :: "str \<Rightarrow> u64 option" where
  "parse_u64 s = map_option of_nat (from_str_radix 10 (2 ^ 64) s)"

definition parse_u32 :: "str \<Rightarrow> u32 option" where
  "parse_u32 s = map_option of_nat (from_str_radix 10 (2 ^ 32) s)"

definition decimal_u64 :: "u64 \<Rightarrow> str" where
  "decimal_u64 w = to_decimal (unat w)"

definition decimal_u32 :: "u32 \<Rightarrow> str" where
  "decimal_u32 w = to_decimal (unat w)"

text \<open>The shared hexadecimal reader of digests: 64 bytes taken as 32 pairs, an uppercase
  letter in a pair refuses, and each pair goes through \<open>u8::from_str_radix(pair, 16)\<close>.\<close>

fun parse_hex_pairs :: "str \<Rightarrow> bytes option" where
  "parse_hex_pairs [] = Some []"
| "parse_hex_pairs [c] = Some []"
| "parse_hex_pairs (c # d # s) =
     (if \<not> is_str [c, d] then None
      else if is_ascii_uppercase c \<or> is_ascii_uppercase d then None
      else (case from_str_radix 16 256 [c, d] of
              None \<Rightarrow> None
            | Some b \<Rightarrow> map_option (\<lambda>bs. of_nat b # bs) (parse_hex_pairs s)))"

definition parse_hex64 :: "str \<Rightarrow> digest option" where
  "parse_hex64 s = (if length s \<noteq> 64 then None else map_option digest_of_bytes (parse_hex_pairs s))"


lemma nat_below_16: "(n :: nat) < 16 \<Longrightarrow> n \<in> {0, 1, 2, 3, 4, 5, 6, 7, 8, 9, 10, 11, 12, 13, 14, 15}"
  by simp presburger

lemma digit_char_facts:
  assumes "n < 16"
  shows "to_digit 16 (digit_char n) = Some n" "is_ascii_char (digit_char n)"
    "\<not> is_ascii_uppercase (digit_char n)" "digit_char n \<noteq> CHR ''+''" "digit_char n \<noteq> CHR ''-''"
    "n < 10 \<Longrightarrow> to_digit 10 (digit_char n) = Some n" "n < 10 \<Longrightarrow> is_ascii_digit (digit_char n)"
    "digit_char n = CHR ''0'' \<longleftrightarrow> n = 0" "n < 10 \<Longrightarrow> of_char (digit_char n) = n + 48"
  using nat_below_16 [OF assms]
  by (atomize (full), elim insertE emptyE)
    (simp_all add: digit_char_def to_digit_def is_ascii_char_def is_ascii_uppercase_def
      is_ascii_digit_def Let_def)

lemma parse_digits_append:
  "parse_digits radix bound acc (s @ t) =
     (case parse_digits radix bound acc s of None \<Rightarrow> None | Some a \<Rightarrow> parse_digits radix bound a t)"
  by (induction radix bound acc s rule: parse_digits.induct) (auto simp: Let_def split: option.splits)

lemma parse_digits_bound: "parse_digits radix bound acc s = Some n \<Longrightarrow> s \<noteq> [] \<Longrightarrow> n < bound"
  by (induction radix bound acc s rule: parse_digits.induct)
    (force simp: Let_def split: option.splits if_splits)+

lemma parse_digits_to_decimal: "n < bound \<Longrightarrow> parse_digits 10 bound 0 (to_decimal n) = Some n"
proof (induction n rule: to_decimal.induct)
  case (1 n)
  show ?case
  proof (cases "n < 10")
    case True
    with 1 show ?thesis by (subst to_decimal.simps) (simp add: digit_char_facts)
  next
    case False
    with 1 have "parse_digits 10 bound 0 (to_decimal (n div 10)) = Some (n div 10)" by simp
    with False 1(2) show ?thesis
      by (subst to_decimal.simps) (simp add: parse_digits_append digit_char_facts)
  qed
qed

lemma to_decimal_not_Nil [simp]: "to_decimal n \<noteq> []"
  by (subst to_decimal.simps) simp

lemma to_decimal_digits: "list_all is_ascii_digit (to_decimal n)"
  by (induction n rule: to_decimal.induct)
    (subst to_decimal.simps, simp add: digit_char_facts)

lemma hd_to_decimal: "hd (to_decimal n) = CHR ''0'' \<longleftrightarrow> n = 0"
proof (induction n rule: to_decimal.induct)
  case (1 n)
  show ?case
    by (cases "n < 10") (use 1 in \<open>subst to_decimal.simps, simp add: digit_char_facts\<close>)+
qed

lemma length_to_decimal_0: "to_decimal 0 = ''0''"
  by (subst to_decimal.simps) (simp add: digit_char_def)

lemma is_ascii_digit_not_sign: "is_ascii_digit c \<Longrightarrow> c \<noteq> CHR ''+'' \<and> c \<noteq> CHR ''-''"
  by (auto simp: is_ascii_digit_def)

lemma from_str_radix_digits:
  assumes "s \<noteq> []" "is_ascii_digit (hd s)"
  shows "from_str_radix radix bound s = parse_digits radix bound 0 s"
  using assms is_ascii_digit_not_sign by (cases s) (auto simp: from_str_radix_def)

lemma from_str_radix_to_decimal: "n < bound \<Longrightarrow> from_str_radix 10 bound (to_decimal n) = Some n"
  using to_decimal_digits [of n]
  by (simp add: from_str_radix_digits parse_digits_to_decimal list_all_iff)

lemma parse_u64_decimal [simp]: "parse_u64 (decimal_u64 w) = Some w"
  using unat_u64_lt [of w] by (simp add: parse_u64_def decimal_u64_def from_str_radix_to_decimal)

lemma parse_u32_decimal [simp]: "parse_u32 (decimal_u32 w) = Some w"
proof -
  have "unat w < 2 ^ 32" using unsigned_less [of w] by simp
  then show ?thesis by (simp add: parse_u32_def decimal_u32_def from_str_radix_to_decimal)
qed

lemma to_digit_10_SomeD: "to_digit 10 c = Some d \<Longrightarrow> d < 10 \<and> digit_char d = c"
proof -
  assume "to_digit 10 c = Some d"
  then have d: "d < 10" "of_char c = d + 48"
    by (auto simp: to_digit_def Let_def split: if_splits)
  then have "of_char (digit_char d) = (of_char c :: nat)"
    by (simp add: digit_char_facts)
  with d(1) show ?thesis by (metis char_of_char)
qed

lemma to_decimal_parse_digits:
  assumes "parse_digits 10 bound 0 s = Some n" "s \<noteq> []" "1 < length s \<Longrightarrow> hd s \<noteq> CHR ''0''"
  shows "to_decimal n = s"
  using assms
proof (induction s arbitrary: n rule: rev_induct)
  case (snoc c s)
  from snoc.prems(1) obtain a d where a: "parse_digits 10 bound 0 s = Some a"
    and d: "to_digit 10 c = Some d" and n: "n = a * 10 + d"
    by (auto simp: parse_digits_append Let_def split: option.splits if_splits)
  note dc = to_digit_10_SomeD [OF d]
  show ?case
  proof (cases "s = []")
    case True
    with a n dc show ?thesis by (subst to_decimal.simps) simp
  next
    case False
    then have "to_decimal a = s"
      using snoc.prems(3) by (intro snoc.IH [OF a]) (auto simp: hd_append)
    moreover have "a \<noteq> 0"
      using False snoc.prems(3) \<open>to_decimal a = s\<close> hd_to_decimal [of a] by (auto simp: hd_append)
    ultimately show ?thesis using n dc by (subst to_decimal.simps) simp
  qed
qed simp


subsection \<open>Hexadecimal digests\<close>

lemma u8_nibbles: "unat (b :: u8) div 16 < 16" "unat b mod 16 < 16"
  using unat_u8_lt [of b] by linarith+

lemma from_str_radix_hex_byte: "from_str_radix 16 256 (hex_byte b) = Some (unat b)"
proof -
  have "unat b < 256" using unsigned_less [of b] by simp
  with u8_nibbles [of b] show ?thesis
    by (simp add: from_str_radix_def hex_byte_def digit_char_facts Let_def)
qed

lemma hex_byte_ok: "hex_byte b = [c, d] \<Longrightarrow>
  is_str [c, d] \<and> \<not> is_ascii_uppercase c \<and> \<not> is_ascii_uppercase d"
  using u8_nibbles [of b] by (auto simp: hex_byte_def digit_char_facts intro!: is_str_ascii)

lemma parse_hex_pairs_hex_bytes: "parse_hex_pairs (hex_bytes bs) = Some bs"
proof (induction bs)
  case (Cons b bs)
  obtain c d where cd: "hex_byte b = [c, d]" by (simp add: hex_byte_def)
  have "from_str_radix 16 256 [c, d] = Some (unat b)"
    using from_str_radix_hex_byte [of b] cd by simp
  with Cons hex_byte_ok [OF cd] show ?case by (simp add: hex_bytes_def cd)
qed (simp add: hex_bytes_def)

lemma length_hex_bytes [simp]: "length (hex_bytes bs) = 2 * length bs"
  by (induction bs) (simp_all add: hex_bytes_def hex_byte_def)

lemma parse_hex64_hex [simp]: "parse_hex64 (hex_bytes (digest_bytes d)) = Some d"
  by (simp add: parse_hex64_def parse_hex_pairs_hex_bytes)

lemma to_digit_16_SomeD:
  assumes "to_digit 16 c = Some d" "\<not> is_ascii_uppercase c"
  shows "d < 16 \<and> digit_char d = c"
proof -
  have d: "d < 16" "of_char c = (if d < 10 then d + 48 else d + 87)"
    using assms by (auto simp: to_digit_def Let_def is_ascii_uppercase_def split: if_splits)
  have "of_char (digit_char d) = (if d < 10 then d + 48 else d + 87 :: nat)"
    using nat_below_16 [OF d(1)] by (elim insertE emptyE) (simp_all add: digit_char_def)
  then have "of_char (digit_char d) = (of_char c :: nat)" using d(2) by presburger
  with d(1) show ?thesis by (metis char_of_char)
qed

text \<open>Where no pair starts with a plus sign, the accepted text is the canonical spelling.\<close>

lemma parse_hex_pairs_canonical:
  "parse_hex_pairs s = Some bs \<Longrightarrow> even (length s) \<Longrightarrow> CHR ''+'' \<notin> set s \<Longrightarrow> s = hex_bytes bs"
proof (induction s arbitrary: bs rule: parse_hex_pairs.induct)
  case (3 c d s)
  from 3 obtain b bs' where up: "\<not> is_ascii_uppercase c" "\<not> is_ascii_uppercase d"
    and r: "from_str_radix 16 256 [c, d] = Some b" and bs: "bs = of_nat b # bs'"
    and p: "parse_hex_pairs s = Some bs'"
    by (auto split: if_splits option.splits)
  have rest: "s = hex_bytes bs'" using "3.IH" up r p "3.prems" by (auto split: if_splits)
  from r "3.prems"(3) have "parse_digits 16 256 0 [c, d] = Some b"
    by (auto simp: from_str_radix_def split: if_splits)
  then obtain x y where x: "to_digit 16 c = Some x" and y: "to_digit 16 d = Some y"
    and b: "b = x * 16 + y"
    by (auto simp: Let_def split: option.splits if_splits)
  note xc = to_digit_16_SomeD [OF x up(1)] and yd = to_digit_16_SomeD [OF y up(2)]
  then have "hex_byte (of_nat b) = [c, d]"
    by (simp add: hex_byte_def b unat_of_nat del: of_nat_add of_nat_mult)
  with rest bs show ?case by (simp add: hex_bytes_def)
qed (simp_all add: hex_bytes_def)

lemma length_parse_hex_pairs: "parse_hex_pairs s = Some bs \<Longrightarrow> length bs = length s div 2"
  by (induction s arbitrary: bs rule: parse_hex_pairs.induct) (auto split: if_splits option.splits)

lemma parse_hex64_canonical:
  assumes "parse_hex64 s = Some d" "CHR ''+'' \<notin> set s"
  shows "s = hex_bytes (digest_bytes d)"
proof -
  from assms(1) obtain bs where l: "length s = 64" and p: "parse_hex_pairs s = Some bs"
    and d: "d = digest_of_bytes bs"
    by (auto simp: parse_hex64_def split: if_splits)
  from length_parse_hex_pairs [OF p] l have "length bs = 32" by simp
  with d have "digest_bytes d = bs" by (simp add: digest_bytes_digest_of_bytes)
  moreover have "s = hex_bytes bs"
    by (rule parse_hex_pairs_canonical [OF p]) (simp_all add: l assms(2))
  ultimately show ?thesis by simp
qed

lemma hex_bytes_plain: "CHR ''+'' \<notin> set (hex_bytes bs)"
  using digit_char_facts(4) [OF u8_nibbles(1)] digit_char_facts(4) [OF u8_nibbles(2)]
  by (fastforce simp: hex_bytes_def hex_byte_def)

end
