(* ===== verification/Contract_Stamp.thy ===== *)
theory Contract_Stamp
  imports Rust_Text
begin

text \<open>
  Contract handles and stamps (\<open>contract.rs\<close>): the error vocabulary of contract
  documents, the \<open>producer.format@version\<close> handle, and the stamp a manifest records,
  with its display form and the parser of that form.
\<close>

datatype contract_error =
    ContractError_Json str
  | ContractError_Format
  | ContractError_Name str
  | ContractError_Version
  | ContractError_Identity
  | ContractError_DigestStamp str
  | ContractError_Dtype str
  | ContractError_NoTensors
  | ContractError_Pattern str
  | ContractError_Duplicate str
  | ContractError_RoleHoles str
  | ContractError_Fusion str
  | ContractError_Permute str
  | ContractError_Set str
  | ContractError_DuplicateContract str

fun contract_error_reason :: "contract_error \<Rightarrow> str" where
  "contract_error_reason (ContractError_Json _) = ''json''"
| "contract_error_reason ContractError_Format = ''format''"
| "contract_error_reason (ContractError_Name _) = ''name''"
| "contract_error_reason ContractError_Version = ''version''"
| "contract_error_reason ContractError_Identity = ''identity''"
| "contract_error_reason (ContractError_DigestStamp _) = ''digest-stamp''"
| "contract_error_reason (ContractError_Dtype _) = ''dtype''"
| "contract_error_reason ContractError_NoTensors = ''no-tensors''"
| "contract_error_reason (ContractError_Pattern _) = ''pattern''"
| "contract_error_reason (ContractError_Duplicate _) = ''duplicate''"
| "contract_error_reason (ContractError_RoleHoles _) = ''role-holes''"
| "contract_error_reason (ContractError_Fusion _) = ''fusion''"
| "contract_error_reason (ContractError_Permute _) = ''permute''"
| "contract_error_reason (ContractError_Set _) = ''set''"
| "contract_error_reason (ContractError_DuplicateContract _) = ''duplicate-contract''"

definition MAX_CONTRACT_NAME_BYTES :: nat where
  "MAX_CONTRACT_NAME_BYTES = 64"

definition is_lower_or_digit :: "char \<Rightarrow> bool" where
  "is_lower_or_digit c = (is_ascii_lowercase c \<or> is_ascii_digit c)"

definition is_contract_name :: "str \<Rightarrow> bool" where
  "is_contract_name name =
     (if name = [] \<or> MAX_CONTRACT_NAME_BYTES < length name then False
      else case split_once CHR ''.'' name of
        None \<Rightarrow> False
      | Some (producer, format) \<Rightarrow>
          if producer = [] \<or> \<not> is_lower_or_digit (hd producer)
             \<or> \<not> list_all (\<lambda>c. is_lower_or_digit c \<or> c = CHR ''-'') producer
          then False
          else case format of
            [] \<Rightarrow> False
          | first # characters \<Rightarrow>
              if \<not> is_lower_or_digit first then False
              else list_all (\<lambda>c. is_lower_or_digit c \<or> c = CHR ''.'' \<or> c = CHR ''-'' \<or> c = CHR ''_'')
                     characters)"

record handle =
  handle_name :: str
  handle_version :: u32

definition handle_new :: "str \<Rightarrow> u32 \<Rightarrow> contract_error + handle" where
  "handle_new name version =
     (if \<not> is_contract_name name then Inl (ContractError_Name name)
      else if version = 0 then Inl ContractError_Version
      else Inr \<lparr>handle_name = name, handle_version = version\<rparr>)"

datatype stamp = Stamp_None | Stamp_Named handle | Stamp_Digest digest

definition stamp_named :: "str \<Rightarrow> u32 \<Rightarrow> contract_error + stamp" where
  "stamp_named name version = and_then (handle_new name version) (\<lambda>h. Inr (Stamp_Named h))"

definition stamp_parse :: "str \<Rightarrow> contract_error + stamp" where
  "stamp_parse text =
     (if text = ''none'' then Inr Stamp_None
      else case strip_prefix ''sha256:'' text of
        Some digits \<Rightarrow>
          (case parse_hex64 digits of
             None \<Rightarrow> Inl (ContractError_DigestStamp text)
           | Some d \<Rightarrow> Inr (Stamp_Digest d))
      | None \<Rightarrow>
          and_then (ok_or (rsplit_once CHR ''@'' text) (ContractError_Name text))
            (\<lambda>(name, version).
               and_then (ok_or (parse_u32 version) ContractError_Version)
                 (\<lambda>version. stamp_named name version)))"

fun stamp_name :: "stamp \<Rightarrow> str option" where
  "stamp_name (Stamp_Named h) = Some (handle_name h)"
| "stamp_name _ = None"

fun stamp_version :: "stamp \<Rightarrow> u32" where
  "stamp_version (Stamp_Named h) = handle_version h"
| "stamp_version _ = 0"

fun stamp_digest :: "stamp \<Rightarrow> digest option" where
  "stamp_digest (Stamp_Digest d) = Some d"
| "stamp_digest _ = None"

fun stamp_display :: "stamp \<Rightarrow> str" where
  "stamp_display Stamp_None = ''none''"
| "stamp_display (Stamp_Named h) = handle_name h @ ''@'' @ decimal_u32 (handle_version h)"
| "stamp_display (Stamp_Digest d) = ''sha256:'' @ hex_bytes (digest_bytes d)"

text \<open>The type invariant of \<open>Handle\<close>: its fields are private and \<open>Handle::new\<close> is the only
  constructor.\<close>

definition handle_ok :: "handle \<Rightarrow> bool" where
  "handle_ok h = (is_contract_name (handle_name h) \<and> handle_version h \<noteq> 0)"

fun stamp_ok :: "stamp \<Rightarrow> bool" where
  "stamp_ok (Stamp_Named h) = handle_ok h"
| "stamp_ok _ = True"


section \<open>The handle grammar\<close>

lemma is_lower_or_digit_ascii: "is_lower_or_digit c \<Longrightarrow> is_ascii_char c"
  by (auto simp: is_lower_or_digit_def is_ascii_lowercase_def is_ascii_digit_def is_ascii_char_def)

definition is_name_char :: "char \<Rightarrow> bool" where
  "is_name_char c = (is_lower_or_digit c \<or> c = CHR ''.'' \<or> c = CHR ''-'' \<or> c = CHR ''_'')"

lemma contract_name_chars:
  assumes "is_contract_name name"
  shows "list_all is_name_char name" "name \<noteq> []" "length name \<le> 64"
proof -
  from assms obtain p f where s: "split_once CHR ''.'' name = Some (p, f)"
    by (auto simp: is_contract_name_def split: if_splits option.splits)
  then have "name = p @ CHR ''.'' # f" by (simp add: split_once_Some_iff)
  with assms s show "list_all is_name_char name"
    by (auto simp: is_contract_name_def list_all_iff is_name_char_def split: if_splits list.splits)
  from assms show "name \<noteq> []" "length name \<le> 64"
    by (auto simp: is_contract_name_def MAX_CONTRACT_NAME_BYTES_def split: if_splits)
qed

lemma is_name_char_ascii: "is_name_char c \<Longrightarrow> is_ascii_char c"
  by (auto simp: is_name_char_def is_ascii_char_def dest: is_lower_or_digit_ascii)

lemma contract_name_is_str: "is_contract_name name \<Longrightarrow> is_str name"
  using contract_name_chars(1) by (auto simp: list_all_iff intro!: is_str_ascii is_name_char_ascii)

lemma name_char_excludes:
  "is_name_char c \<Longrightarrow> c \<noteq> CHR ''@'' \<and> c \<noteq> CHR '':'' \<and> c \<noteq> CHR ''/''"
  by (auto simp: is_name_char_def is_lower_or_digit_def is_ascii_lowercase_def is_ascii_digit_def)

lemma handle_new_Inr_iff [result_simps]:
  "handle_new name version = Inr h \<longleftrightarrow>
     handle_ok h \<and> h = \<lparr>handle_name = name, handle_version = version\<rparr>"
  by (auto simp: handle_new_def handle_ok_def)

lemma stamp_named_Inr_iff [result_simps]:
  "stamp_named name version = Inr s \<longleftrightarrow>
     s = Stamp_Named \<lparr>handle_name = name, handle_version = version\<rparr> \<and> stamp_ok s"
  by (auto simp: stamp_named_def result_simps)

lemma stamp_parse_ok: "stamp_parse text = Inr s \<Longrightarrow> stamp_ok s"
  by (auto simp: stamp_parse_def result_simps split: if_splits option.splits prod.splits)


section \<open>Display and parse\<close>

lemma stamp_parse_versioned:
  assumes name: "is_contract_name name" and v: "parse_u32 version = Some v" "v \<noteq> 0"
    and chars: "CHR ''@'' \<notin> set version" "CHR '':'' \<notin> set version"
  shows "stamp_parse (name @ ''@'' @ version) =
    Inr (Stamp_Named \<lparr>handle_name = name, handle_version = v\<rparr>)"
proof -
  let ?t = "name @ ''@'' @ version"
  have sep: "CHR ''@'' \<notin> set name \<and> CHR '':'' \<notin> set name"
    using contract_name_chars(1) [OF name] name_char_excludes by (auto simp: list_all_iff)
  then have colon: "CHR '':'' \<notin> set ?t" using chars by auto
  have "strip_prefix ''sha256:'' ?t = None"
  proof (cases "strip_prefix ''sha256:'' ?t")
    case (Some u)
    then have t: "?t = ''sha256:'' @ u" by (simp only: strip_prefix_Some_iff)
    have "CHR '':'' \<in> set (''sha256:'' @ u)" by simp
    with colon show ?thesis unfolding t by blast
  qed simp
  moreover have "?t \<noteq> ''none''"
  proof
    assume t: "?t = ''none''"
    have "CHR ''@'' \<in> set ?t" by simp
    then show False unfolding t by simp
  qed
  moreover have "rsplit_once CHR ''@'' ?t = Some (name, version)"
    using chars by (simp add: rsplit_once_Some_iff)
  moreover have "stamp_named name v = Inr (Stamp_Named \<lparr>handle_name = name, handle_version = v\<rparr>)"
    using name v by (simp add: result_simps handle_ok_def)
  ultimately show ?thesis using v(1) by (simp add: stamp_parse_def)
qed

lemma decimal_chars: "c \<in> set (decimal_u32 v) \<Longrightarrow> is_ascii_digit c"
  using to_decimal_digits by (auto simp: decimal_u32_def list_all_iff)

lemma stamp_parse_display_lemma:
  assumes "stamp_ok s"
  shows "stamp_parse (stamp_display s) = Inr s"
proof (cases s)
  case (Stamp_Named h)
  have "CHR ''@'' \<notin> set (decimal_u32 v) \<and> CHR '':'' \<notin> set (decimal_u32 v)" for v
    using decimal_chars [of _ v] by (fastforce simp: is_ascii_digit_def)
  with Stamp_Named assms show ?thesis
    using stamp_parse_versioned [of "handle_name h" "decimal_u32 (handle_version h)" "handle_version h"]
    by (simp add: handle_ok_def)
next
  case (Stamp_Digest d)
  have "strip_prefix ''sha256:'' (''sha256:'' @ t) = Some t" for t by (simp add: strip_prefix_Some_iff)
  then show ?thesis using Stamp_Digest by (simp add: stamp_parse_def)
qed (simp add: stamp_parse_def)

end
