(* ===== verification/Contract_Pattern.thy ===== *)
theory Contract_Pattern
  imports Contract_Stamp
begin

text \<open>
  Tensor-name patterns (\<open>contract.rs\<close>, \<open>Pattern\<close>): literal text with \<open>{i}\<close> integer holes.
  The parser refuses every pattern whose holes could be split in two ways; the facts below
  show that matching and instantiation are inverse to each other on what it accepts.
\<close>

datatype piece = Piece_Literal str | Piece_Integer

record pattern =
  pat_pieces :: "piece list"
  pat_text :: str

text \<open>\<open>rest.find("{i}")\<close>, with the text before the hole and the text after it.\<close>

fun find_hole :: "str \<Rightarrow> (str \<times> str) option" where
  "find_hole [] = None"
| "find_hole (c # cs) =
     (case strip_prefix ''{i}'' (c # cs) of
        Some after \<Rightarrow> Some ([], after)
      | None \<Rightarrow> map_option (\<lambda>(before, after). (c # before, after)) (find_hole cs))"

lemma find_hole_Some: "find_hole s = Some (before, after) \<Longrightarrow> s = before @ ''{i}'' @ after"
proof (induction s arbitrary: before)
  case (Cons c s)
  show ?case
  proof (cases "strip_prefix ''{i}'' (c # s)")
    case None
    with Cons show ?thesis by (auto simp del: strip_prefix.simps)
  next
    case (Some u)
    with Cons.prems have "before = []" "after = u" by (simp_all del: strip_prefix.simps)
    with Some show ?thesis by (simp add: strip_prefix_Some_iff del: strip_prefix.simps)
  qed
qed simp

function pattern_loop :: "str \<Rightarrow> piece list \<Rightarrow> str \<Rightarrow> contract_error + piece list" where
  "pattern_loop text pieces rest =
     (if rest = [] then Inr pieces
      else case find_hole rest of
        None \<Rightarrow> Inr (pieces @ [Piece_Literal rest])
      | Some (before, after) \<Rightarrow>
          if before = [] \<and> pieces \<noteq> [] \<and> last pieces = Piece_Integer
          then Inl (ContractError_Pattern text)
          else
            let pieces = (if before \<noteq> [] then pieces @ [Piece_Literal before] else pieces)
                         @ [Piece_Integer] in
            if after \<noteq> [] \<and> is_ascii_digit (hd after) then Inl (ContractError_Pattern text)
            else pattern_loop text pieces after)"
  by pat_completeness auto
termination
  by (relation "measure (\<lambda>(text, pieces, rest). length rest)") (auto dest!: find_hole_Some)

declare pattern_loop.simps [simp del]

fun piece_has_brace :: "piece \<Rightarrow> bool" where
  "piece_has_brace (Piece_Literal l) = (CHR ''{'' \<in> set l \<or> CHR ''}'' \<in> set l)"
| "piece_has_brace Piece_Integer = False"

definition pattern_parse :: "str \<Rightarrow> contract_error + pattern" where
  "pattern_parse text =
     (if text = [] \<or> 512 < length text then Inl (ContractError_Pattern text)
      else and_then (pattern_loop text [] text)
        (\<lambda>pieces.
           if list_ex piece_has_brace pieces then Inl (ContractError_Pattern text)
           else Inr \<lparr>pat_pieces = pieces, pat_text = text\<rparr>))"

definition pattern_holes :: "pattern \<Rightarrow> nat" where
  "pattern_holes p = length (filter (\<lambda>piece. piece = Piece_Integer) (pat_pieces p))"

fun capture_pieces :: "piece list \<Rightarrow> str \<Rightarrow> u64 list option" where
  "capture_pieces [] rest = (if rest = [] then Some [] else None)"
| "capture_pieces (Piece_Literal l # ps) rest =
     Option.bind (strip_prefix l rest) (capture_pieces ps)"
| "capture_pieces (Piece_Integer # ps) rest =
     (let number = takeWhile is_ascii_digit rest; tail = dropWhile is_ascii_digit rest in
      if number = [] \<or> (1 < length number \<and> hd number = CHR ''0'') then None
      else Option.bind (parse_u64 number) (\<lambda>v. map_option (Cons v) (capture_pieces ps tail)))"

definition captures :: "pattern \<Rightarrow> str \<Rightarrow> u64 list option" where
  "captures p name = capture_pieces (pat_pieces p) name"

definition pattern_matches :: "pattern \<Rightarrow> str \<Rightarrow> bool" where
  "pattern_matches p name = (captures p name \<noteq> None)"

fun fill_pieces :: "piece list \<Rightarrow> u64 list \<Rightarrow> str option" where
  "fill_pieces [] vs = Some []"
| "fill_pieces (Piece_Literal l # ps) vs = map_option (\<lambda>s. l @ s) (fill_pieces ps vs)"
| "fill_pieces (Piece_Integer # ps) [] = None"
| "fill_pieces (Piece_Integer # ps) (v # vs) = map_option (\<lambda>s. decimal_u64 v @ s) (fill_pieces ps vs)"

definition instantiate :: "pattern \<Rightarrow> u64 list \<Rightarrow> str option" where
  "instantiate p values =
     (if length values \<noteq> pattern_holes p then None else fill_pieces (pat_pieces p) values)"

fun render_piece :: "piece \<Rightarrow> str" where
  "render_piece (Piece_Literal l) = l"
| "render_piece Piece_Integer = ''{i}''"

text \<open>What the parser establishes: no empty literal, and a hole is last or followed by a
  literal that does not start with a digit.\<close>

fun pieces_ok :: "piece list \<Rightarrow> bool" where
  "pieces_ok [] = True"
| "pieces_ok (Piece_Literal l # ps) = (l \<noteq> [] \<and> pieces_ok ps)"
| "pieces_ok [Piece_Integer] = True"
| "pieces_ok (Piece_Integer # Piece_Integer # ps) = False"
| "pieces_ok (Piece_Integer # Piece_Literal l # ps) =
     (l \<noteq> [] \<and> \<not> is_ascii_digit (hd l) \<and> pieces_ok ps)"


section \<open>What the parser accepts\<close>

definition after_ok :: "piece list \<Rightarrow> str \<Rightarrow> bool" where
  "after_ok pieces rest =
     (pieces_ok pieces \<and> (pieces \<noteq> [] \<and> last pieces = Piece_Integer \<and> rest \<noteq> []
        \<longrightarrow> \<not> is_ascii_digit (hd rest)) \<and>
      (pieces \<noteq> [] \<and> last pieces \<noteq> Piece_Integer \<longrightarrow> rest = []))"

lemma pieces_ok_snoc_literal:
  "pieces_ok ps \<Longrightarrow> l \<noteq> [] \<Longrightarrow> (ps \<noteq> [] \<and> last ps = Piece_Integer \<longrightarrow> \<not> is_ascii_digit (hd l)) \<Longrightarrow>
   pieces_ok (ps @ [Piece_Literal l])"
  by (induction ps rule: pieces_ok.induct) (auto split: if_splits)

lemma pieces_ok_snoc_integer:
  "pieces_ok ps \<Longrightarrow> (ps \<noteq> [] \<longrightarrow> last ps \<noteq> Piece_Integer) \<Longrightarrow> pieces_ok (ps @ [Piece_Integer])"
  by (induction ps rule: pieces_ok.induct) (auto split: if_splits)

lemma pattern_loop_ok:
  "pattern_loop doc pieces rest = Inr ps \<Longrightarrow>
   after_ok pieces rest \<Longrightarrow> pieces = [] \<or> last pieces = Piece_Integer \<Longrightarrow>
   pieces_ok ps \<and> concat (map render_piece ps) = concat (map render_piece pieces) @ rest"
proof (induction doc pieces rest rule: pattern_loop.induct)
  case (1 doc pieces rest)
  note loop = 1(2) [unfolded pattern_loop.simps [of doc pieces rest]]
  show ?case
  proof (cases "find_hole rest")
    case None
    with loop 1(3,4) show ?thesis
      by (auto simp: after_ok_def intro!: pieces_ok_snoc_literal split: if_splits)
  next
    case (Some ba)
    obtain before after where ba: "ba = (before, after)" by (cases ba)
    note split = find_hole_Some [OF Some [unfolded ba]]
    let ?ps = "(if before \<noteq> [] then pieces @ [Piece_Literal before] else pieces) @ [Piece_Integer]"
    have step: "pattern_loop doc ?ps after = Inr ps"
      and digit: "after \<noteq> [] \<longrightarrow> \<not> is_ascii_digit (hd after)"
      and adj: "\<not> (before = [] \<and> pieces \<noteq> [] \<and> last pieces = Piece_Integer)"
      and ne: "rest \<noteq> []"
      using loop Some ba split by (auto simp: Let_def split: if_splits)
    have "pieces_ok ?ps"
    proof (rule pieces_ok_snoc_integer)
      show "pieces_ok (if before \<noteq> [] then pieces @ [Piece_Literal before] else pieces)"
        using 1(3) split by (auto simp: after_ok_def intro!: pieces_ok_snoc_literal)
    qed (use 1(4) adj in auto)
    then have ao: "after_ok ?ps after" using digit by (simp add: after_ok_def)
    have "pieces_ok ps \<and> concat (map render_piece ps) = concat (map render_piece ?ps) @ after"
      by (rule "1.IH" [OF ne Some ba [symmetric] adj refl _ step ao]) (use digit in auto)
    with split show ?thesis by auto
  qed
qed

lemma pattern_parse_ok:
  assumes "pattern_parse text = Inr p"
  shows "pieces_ok (pat_pieces p)" "pat_text p = text" "concat (map render_piece (pat_pieces p)) = text"
proof -
  from assms have l: "pattern_loop text [] text = Inr (pat_pieces p)" and "pat_text p = text"
    by (auto simp: pattern_parse_def result_simps split: if_splits)
  then show "pat_text p = text" by simp
  from pattern_loop_ok [OF l] show "pieces_ok (pat_pieces p)"
    "concat (map render_piece (pat_pieces p)) = text"
    by (simp_all add: after_ok_def)
qed


section \<open>Matching and instantiation\<close>

lemma fill_capture_pieces: "capture_pieces ps s = Some vs \<Longrightarrow> fill_pieces ps vs = Some s"
proof (induction ps s arbitrary: vs rule: capture_pieces.induct)
  case (3 ps rest)
  let ?number = "takeWhile is_ascii_digit rest" and ?tail = "dropWhile is_ascii_digit rest"
  from "3.prems" obtain v us where ne: "?number \<noteq> []"
    and lead: "\<not> (1 < length ?number \<and> hd ?number = CHR ''0'')"
    and v: "parse_u64 ?number = Some v" and us: "capture_pieces ps ?tail = Some us" "vs = v # us"
    by (auto simp: Let_def bind_eq_Some_conv split: if_splits)
  have "is_ascii_digit (hd ?number)" using ne by (metis hd_in_set set_takeWhileD)
  with v ne obtain n where n: "parse_digits 10 (2 ^ 64) 0 ?number = Some n" "v = of_nat n"
    by (auto simp: parse_u64_def from_str_radix_digits)
  then have "to_decimal n = ?number"
    using to_decimal_parse_digits [OF n(1) ne] lead by blast
  moreover have "n < 2 ^ 64" using parse_digits_bound [OF n(1) ne] by simp
  ultimately have "decimal_u64 v = ?number" by (simp add: decimal_u64_def n(2))
  moreover have "fill_pieces ps us = Some ?tail" using "3.IH" ne lead v us(1) by blast
  ultimately show ?case using us(2) by simp
qed (auto simp: bind_eq_Some_conv strip_prefix_Some_iff split: if_splits)

lemma takeWhile_decimal:
  assumes "tail = [] \<or> \<not> is_ascii_digit (hd tail)"
  shows "takeWhile is_ascii_digit (decimal_u64 v @ tail) = decimal_u64 v"
    "dropWhile is_ascii_digit (decimal_u64 v @ tail) = tail"
proof -
  have d: "\<And>c. c \<in> set (decimal_u64 v) \<Longrightarrow> is_ascii_digit c"
    using to_decimal_digits by (auto simp: decimal_u64_def list_all_iff)
  show "takeWhile is_ascii_digit (decimal_u64 v @ tail) = decimal_u64 v"
    using assms d by (cases tail) (auto simp: takeWhile_append2)
  show "dropWhile is_ascii_digit (decimal_u64 v @ tail) = tail"
    using assms d by (cases tail) (auto simp: dropWhile_append2)
qed

lemma decimal_u64_not_Nil [simp]: "decimal_u64 v \<noteq> []"
  by (simp add: decimal_u64_def)

lemma decimal_u64_lead: "\<not> (1 < length (decimal_u64 v) \<and> hd (decimal_u64 v) = CHR ''0'')"
proof
  assume *: "1 < length (decimal_u64 v) \<and> hd (decimal_u64 v) = CHR ''0''"
  then have "unat v = 0" using hd_to_decimal [of "unat v"] unfolding decimal_u64_def by blast
  with * show False by (simp add: decimal_u64_def length_to_decimal_0)
qed

lemma fill_starts_nondigit:
  "pieces_ok (Piece_Integer # ps) \<Longrightarrow> fill_pieces ps vs = Some s \<Longrightarrow> s = [] \<or> \<not> is_ascii_digit (hd s)"
  by (cases "(ps, vs)" rule: fill_pieces.cases) auto

lemma pieces_ok_tl: "pieces_ok (p # ps) \<Longrightarrow> pieces_ok ps"
  by (cases "p # ps" rule: pieces_ok.cases) auto

lemma capture_fill_pieces:
  "pieces_ok ps \<Longrightarrow> length vs = length (filter (\<lambda>p. p = Piece_Integer) ps) \<Longrightarrow>
   fill_pieces ps vs = Some s \<Longrightarrow> capture_pieces ps s = Some vs"
proof (induction ps vs arbitrary: s rule: fill_pieces.induct)
  case (2 l ps vs)
  then obtain t where t: "fill_pieces ps vs = Some t" "s = l @ t" by auto
  then have "strip_prefix l s = Some t" by (simp add: strip_prefix_Some_iff)
  with 2 t show ?case by (auto dest: pieces_ok_tl)
next
  case (4 ps v vs)
  then obtain t where t: "fill_pieces ps vs = Some t" "s = decimal_u64 v @ t" by auto
  then have "capture_pieces ps t = Some vs" using 4 by (auto dest: pieces_ok_tl)
  with t(2) takeWhile_decimal [OF fill_starts_nondigit [OF 4(2) t(1)], of v] decimal_u64_lead [of v]
  show ?case by (simp add: Let_def)
qed auto

lemma length_capture_pieces:
  "capture_pieces ps s = Some vs \<Longrightarrow> length vs = length (filter (\<lambda>p. p = Piece_Integer) ps)"
  by (induction ps s arbitrary: vs rule: capture_pieces.induct)
    (auto simp: Let_def bind_eq_Some_conv split: if_splits)

lemma captures_iff_instantiate:
  assumes "pattern_parse text = Inr p"
  shows "captures p name = Some vs \<longleftrightarrow> instantiate p vs = Some name"
  using pattern_parse_ok(1) [OF assms]
  by (auto simp: captures_def instantiate_def pattern_holes_def length_capture_pieces
      fill_capture_pieces intro: capture_fill_pieces split: if_splits)

lemma instantiate_defined: "length vs = pattern_holes p \<Longrightarrow> \<exists>name. instantiate p vs = Some name"
proof -
  have "length vs = length (filter (\<lambda>p. p = Piece_Integer) ps) \<Longrightarrow> \<exists>s. fill_pieces ps vs = Some s" for ps
    by (induction ps vs rule: fill_pieces.induct) auto
  then show "length vs = pattern_holes p \<Longrightarrow> \<exists>name. instantiate p vs = Some name"
    by (simp add: instantiate_def pattern_holes_def)
qed

end
