(* ===== verification/Contract_Fusion.thy ===== *)
theory Contract_Fusion
  imports Contract_Pattern
begin

text \<open>
  Fusions and permutes (\<open>contract.rs\<close>): the byte runs a declared fusion cuts a tensor
  into, and the concrete view of a declared permute. Sums of shares use the machine
  addition of \<open>u64\<close>, as \<open>Iterator::sum\<close> does in a release build; products are checked.
\<close>

definition MIN_SEAM_PART_BYTES :: u64 where
  "MIN_SEAM_PART_BYTES = 1048576"

record fusion_part =
  part_role :: str
  part_share :: u64

record fusion_run =
  run_role :: str
  run_length :: u64

definition fusion_run_whole :: "u64 \<Rightarrow> fusion_run" where
  "fusion_run_whole len = \<lparr>run_role = [], run_length = len\<rparr>"

record fusion =
  fus_groups :: u64
  fus_parts :: "fusion_part list"

definition is_interleaved :: "fusion \<Rightarrow> bool" where
  "is_interleaved f = (1 < fus_groups f)"

definition fusion_units :: "fusion \<Rightarrow> u64 option" where
  "fusion_units f = checked_mul (sum_list (map part_share (fus_parts f))) (fus_groups f)"

definition fusion_role :: "fusion \<Rightarrow> nat \<Rightarrow> fusion_part \<Rightarrow> str" where
  "fusion_role f g part =
     (if part_role part \<noteq> [] then ''#'' @ part_role part else [])
     @ (if 1 < fus_groups f then ''@'' @ to_decimal g else [])"

definition fusion_runs :: "fusion \<Rightarrow> u64 list \<Rightarrow> u64 \<Rightarrow> fusion_run list option" where
  "fusion_runs f shape byte_length =
     (case shape of
        [] \<Rightarrow> None
      | rows # _ \<Rightarrow>
          Option.bind (fusion_units f) (\<lambda>units.
            if rows = 0 \<or> units = 0 \<or> \<not> is_multiple_of rows units then None
            else if \<not> is_multiple_of byte_length rows then None
            else Option.bind (checked_mul (byte_length div rows) (rows div units)) (\<lambda>unit_bytes.
              those (concat (map (\<lambda>g.
                map (\<lambda>part.
                  map_option (\<lambda>len. \<lparr>run_role = fusion_role f g part, run_length = len\<rparr>)
                    (checked_mul unit_bytes (part_share part)))
                  (fus_parts f))
                [0..<unat (fus_groups f)])))))"

datatype dim = Dim_Literal u64 | Dim_Axis nat u64 | Dim_Auto

text \<open>\<open>str::parse::<usize>\<close> on a 64-bit target.\<close>

definition parse_usize :: "str \<Rightarrow> nat option" where
  "parse_usize s = from_str_radix 10 (2 ^ 64) s"

definition strip_suffix_char :: "char \<Rightarrow> str \<Rightarrow> str option" where
  "strip_suffix_char c s = (if s \<noteq> [] \<and> last s = c then Some (butlast s) else None)"

definition dim_parse :: "str \<Rightarrow> dim option" where
  "dim_parse s =
     (if s = ''auto'' then Some Dim_Auto
      else case parse_u64 s of
        Some literal \<Rightarrow> if 0 < literal then Some (Dim_Literal literal) else None
      | None \<Rightarrow>
          Option.bind
            (case split_once CHR ''/'' s of
               None \<Rightarrow> Some (s, 1)
             | Some (head, tail) \<Rightarrow>
                 Option.bind (parse_u64 tail) (\<lambda>v. if 0 < v then Some (head, v) else None))
            (\<lambda>(head, divisor).
               Option.bind (strip_prefix ''shape['' head) (\<lambda>h.
               Option.bind (strip_suffix_char CHR '']'' h) (\<lambda>h.
               map_option (\<lambda>axis. Dim_Axis axis divisor) (parse_usize h)))))"

record permute =
  perm_view :: "dim list"
  perm_axes :: "nat list"

definition checked_product :: "u64 list \<Rightarrow> u64 option" where
  "checked_product xs = fold (\<lambda>d acc. Option.bind acc (\<lambda>p. checked_mul p d)) xs (Some 1)"

text \<open>The loop of \<open>Permute::resolve\<close>: the dimensions so far, the index of the inferred one,
  and the product of the known ones.\<close>

fun resolve_dims :: "u64 list \<Rightarrow> dim list \<Rightarrow> u64 list \<Rightarrow> nat option \<Rightarrow> u64 \<Rightarrow>
    (u64 list \<times> nat option \<times> u64) option" where
  "resolve_dims shape [] resolved auto_at known = Some (resolved, auto_at, known)"
| "resolve_dims shape (d # ds) resolved auto_at known =
     Option.bind
       (case d of
          Dim_Literal literal \<Rightarrow> Some (literal, auto_at)
        | Dim_Axis axis divisor \<Rightarrow>
            (if length shape \<le> axis then None
             else if divisor = 0 \<or> \<not> is_multiple_of (shape ! axis) divisor then None
             else Some (shape ! axis div divisor, auto_at))
        | Dim_Auto \<Rightarrow>
            (if auto_at \<noteq> None then None else Some (1, Some (length resolved))))
       (\<lambda>(v, auto_at'). if v = 0 then None
          else Option.bind (checked_mul known v) (\<lambda>known'.
            resolve_dims shape ds (resolved @ [v]) auto_at' known'))"

definition permute_resolve :: "permute \<Rightarrow> u64 list \<Rightarrow> u64 list option" where
  "permute_resolve p shape =
     Option.bind (checked_product shape) (\<lambda>elements.
     Option.bind (resolve_dims shape (perm_view p) [] None 1) (\<lambda>(resolved, auto_at, known).
       case auto_at of
         None \<Rightarrow> if known = elements then Some resolved else None
       | Some index \<Rightarrow>
           if known = 0 \<or> \<not> is_multiple_of elements known then None
           else Some (resolved[index := elements div known])))"


section \<open>The runs of a fusion\<close>

text \<open>The declaration's shares, added without wrap-around, fit in a \<open>u64\<close>.\<close>

definition shares_fit :: "fusion \<Rightarrow> bool" where
  "shares_fit f = (sum_list (map (unat \<circ> part_share) (fus_parts f)) < 2 ^ 64)"

lemma those_Some_iff: "those xs = Some ys \<longleftrightarrow> xs = map Some ys"
  by (induction xs arbitrary: ys) (auto split: option.splits)

lemma unat_sum_list_u64:
  "sum_list (map unat xs) < 2 ^ 64 \<Longrightarrow> unat (sum_list xs :: u64) = sum_list (map unat xs)"
  by (induction xs) (auto simp: unat_add_u64)

lemma fusion_units_nat:
  assumes "shares_fit f" "fusion_units f = Some u"
  shows "unat u = sum_list (map (unat \<circ> part_share) (fus_parts f)) * unat (fus_groups f)"
  using assms unat_sum_list_u64 [of "map part_share (fus_parts f)"]
  by (simp add: fusion_units_def checked_mul_Some_iff shares_fit_def comp_def)

lemma map_option_eq_Some_map:
  "map (\<lambda>p. map_option (g p) (h p)) xs = map Some ys \<Longrightarrow>
   length ys = length xs \<and> (\<forall>i < length xs. \<exists>v. h (xs ! i) = Some v \<and> ys ! i = g (xs ! i) v)"
proof -
  assume eq: "map (\<lambda>p. map_option (g p) (h p)) xs = map Some ys"
  then have l: "length ys = length xs" by (metis length_map)
  moreover have "\<exists>v. h (xs ! i) = Some v \<and> ys ! i = g (xs ! i) v" if "i < length xs" for i
  proof -
    have "map_option (g (xs ! i)) (h (xs ! i)) = Some (ys ! i)"
      using arg_cong [OF eq, of "\<lambda>zs. zs ! i"] that l by simp
    then show ?thesis by auto
  qed
  ultimately show ?thesis by blast
qed

text \<open>The list of (group, part) pairs in file order.\<close>

definition fusion_cells :: "fusion \<Rightarrow> (nat \<times> fusion_part) list" where
  "fusion_cells f = concat (map (\<lambda>g. map (Pair g) (fus_parts f)) [0..<unat (fus_groups f)])"

lemma fusion_runsD:
  assumes "fusion_runs f shape n = Some runs"
  obtains rows rest units and unit_bytes :: u64 where "shape = rows # rest" "fusion_units f = Some units"
    "rows \<noteq> 0" "units \<noteq> 0" "unat units dvd unat rows" "unat rows dvd unat n"
    "unat unit_bytes = unat n div unat rows * (unat rows div unat units)"
    "length runs = length (fusion_cells f)"
    "\<forall>i < length (fusion_cells f).
       unat (run_length (runs ! i)) = unat unit_bytes * unat (part_share (snd (fusion_cells f ! i))) \<and>
       run_role (runs ! i) = fusion_role f (fst (fusion_cells f ! i)) (snd (fusion_cells f ! i))"
proof -
  from assms obtain rows rest units ub where s: "shape = rows # rest" and u: "fusion_units f = Some units"
    and z: "rows \<noteq> 0" "units \<noteq> 0" and m: "is_multiple_of rows units" "is_multiple_of n rows"
    and ub: "checked_mul (n div rows) (rows div units) = Some ub"
    and th: "those (concat (map (\<lambda>g. map (\<lambda>part.
        map_option (\<lambda>len. \<lparr>run_role = fusion_role f g part, run_length = len\<rparr>)
          (checked_mul ub (part_share part))) (fus_parts f)) [0..<unat (fus_groups f)])) = Some runs"
    by (auto simp: fusion_runs_def bind_eq_Some_conv split: list.splits if_splits)
  have cells: "concat (map (\<lambda>g. map (\<lambda>part.
        map_option (\<lambda>len. \<lparr>run_role = fusion_role f g part, run_length = len\<rparr>)
          (checked_mul ub (part_share part))) (fus_parts f)) [0..<unat (fus_groups f)]) =
      map (\<lambda>c. map_option (\<lambda>len. \<lparr>run_role = fusion_role f (fst c) (snd c), run_length = len\<rparr>)
          (checked_mul ub (part_share (snd c)))) (fusion_cells f)"
    by (simp add: fusion_cells_def map_concat comp_def)
  from map_option_eq_Some_map [OF th [unfolded cells those_Some_iff]]
  have cell: "length runs = length (fusion_cells f)" "\<forall>i < length (fusion_cells f).
       unat (run_length (runs ! i)) = unat ub * unat (part_share (snd (fusion_cells f ! i))) \<and>
       run_role (runs ! i) = fusion_role f (fst (fusion_cells f ! i)) (snd (fusion_cells f ! i))"
    by (auto simp: checked_mul_Some_iff)
  show thesis
    by (rule that [OF s u z _ _ _ cell])
      (use m ub in \<open>simp_all add: is_multiple_of_nat checked_mul_Some_iff unat_div_u64\<close>)
qed

lemma sum_fusion_cells:
  "sum_list (map (\<lambda>c. k * h (snd c)) (fusion_cells f)) =
     k * (unat (fus_groups f) * sum_list (map h (fus_parts f)))" for k :: nat
proof -
  have "sum_list (map (\<lambda>c. k * h (snd c)) (concat (map (\<lambda>g. map (Pair g) ps) gs))) =
      k * (length gs * sum_list (map h ps))" for gs :: "nat list" and ps
    by (induction gs) (simp_all add: comp_def sum_list_const_mult algebra_simps)
  from this [of "fus_parts f" "[0..<unat (fus_groups f)]"] show ?thesis
    by (simp add: fusion_cells_def)
qed

lemma fusion_runs_total:
  assumes "shares_fit f" "fusion_runs f shape n = Some runs"
  shows "sum_list (map (unat \<circ> run_length) runs) = unat n"
proof -
  from assms(2) obtain rows rest units and ub :: u64 where "shape = rows # rest"
    and u: "fusion_units f = Some units" and z: "rows \<noteq> 0" "units \<noteq> 0"
    and dvd: "unat units dvd unat rows" "unat rows dvd unat n"
    and ub: "unat ub = unat n div unat rows * (unat rows div unat units)"
    and len: "length runs = length (fusion_cells f)"
    and cell: "\<forall>i < length (fusion_cells f).
       unat (run_length (runs ! i)) = unat ub * unat (part_share (snd (fusion_cells f ! i))) \<and>
       run_role (runs ! i) = fusion_role f (fst (fusion_cells f ! i)) (snd (fusion_cells f ! i))"
    by (rule fusion_runsD)
  have "map (unat \<circ> run_length) runs =
      map (\<lambda>c. unat ub * unat (part_share (snd c))) (fusion_cells f)"
    using len cell by (auto intro!: nth_equalityI)
  then have "sum_list (map (unat \<circ> run_length) runs) =
      unat ub * (unat (fus_groups f) * sum_list (map (unat \<circ> part_share) (fus_parts f)))"
    using sum_fusion_cells [of "unat ub" "unat \<circ> part_share" f] by (simp add: comp_def)
  also have "\<dots> = unat ub * unat units"
    using fusion_units_nat [OF assms(1) u] by simp
  also have "\<dots> = unat n"
    using dvd ub by (simp add: mult.assoc)
  finally show ?thesis .
qed

lemma fusion_runs_not_Nil:
  assumes "fusion_runs f shape n = Some runs"
  shows "runs \<noteq> []"
proof -
  from assms obtain units where u: "fusion_units f = Some units" "units \<noteq> 0"
    and len: "length runs = length (fusion_cells f)"
    by (auto elim: fusion_runsD)
  from u have "fus_parts f \<noteq> []" "unat (fus_groups f) \<noteq> 0"
    by (auto simp: fusion_units_def checked_mul_Some_iff u64_nat)
  then have "fusion_cells f \<noteq> []" by (auto simp: fusion_cells_def)
  with len show ?thesis by auto
qed


section \<open>The view of a permute\<close>

lemma checked_product_nat:
  "checked_product xs = Some p \<Longrightarrow> unat p = prod_list (map unat xs)"
proof -
  have "fold (\<lambda>d acc. Option.bind acc (\<lambda>p. checked_mul p d)) xs acc = Some p \<Longrightarrow>
      \<exists>a. acc = Some a \<and> unat p = unat a * prod_list (map unat xs)" for acc
  proof (induction xs arbitrary: acc)
    case (Cons d xs)
    then obtain a where "Option.bind acc (\<lambda>p. checked_mul p d) = Some a"
      "unat p = unat a * prod_list (map unat xs)" by fastforce
    then show ?case by (auto simp: bind_eq_Some_conv checked_mul_Some_iff)
  qed simp
  then show "checked_product xs = Some p \<Longrightarrow> unat p = prod_list (map unat xs)"
    by (fastforce simp: checked_product_def)
qed

lemma resolve_dims_inv:
  assumes "resolve_dims shape ds resolved auto_at known = Some (res, at', known')"
    and "unat known = prod_list (map unat resolved)" "0 \<notin> set resolved"
    and "\<And>i. auto_at = Some i \<Longrightarrow> i < length resolved \<and> resolved ! i = 1"
  shows "unat known' = prod_list (map unat res) \<and> 0 \<notin> set res \<and> length res = length resolved + length ds \<and>
    (\<forall>i. at' = Some i \<longrightarrow> i < length res \<and> res ! i = 1)"
  using assms
proof (induction shape ds resolved auto_at known rule: resolve_dims.induct)
  case (2 shape d ds resolved auto_at known)
  from "2.prems"(1) obtain v at1 known1 where
    v: "(case d of Dim_Literal literal \<Rightarrow> Some (literal, auto_at)
        | Dim_Axis axis divisor \<Rightarrow>
            (if length shape \<le> axis then None
             else if divisor = 0 \<or> \<not> is_multiple_of (shape ! axis) divisor then None
             else Some (shape ! axis div divisor, auto_at))
        | Dim_Auto \<Rightarrow> (if auto_at \<noteq> None then None else Some (1, Some (length resolved)))) = Some (v, at1)"
    and nz: "v \<noteq> 0" and k: "checked_mul known v = Some known1"
    and r: "resolve_dims shape ds (resolved @ [v]) at1 known1 = Some (res, at', known')"
    by (auto simp: bind_eq_Some_conv split: if_splits)
  have at1: "i < length (resolved @ [v]) \<and> (resolved @ [v]) ! i = 1" if "at1 = Some i" for i
    using v that "2.prems"(4) by (auto simp: nth_append split: dim.splits if_splits)
  have "unat known1 = prod_list (map unat (resolved @ [v]))"
    using k "2.prems"(2) by (simp add: checked_mul_Some_iff)
  from "2.IH" [OF v refl nz k r this _ at1] nz "2.prems"(3) show ?case by auto
qed auto

lemma permute_resolve_product:
  assumes "permute_resolve p shape = Some view"
  shows "prod_list (map unat view) = prod_list (map unat shape) \<and> length view = length (perm_view p)"
proof -
  from assms obtain elements resolved auto_at known where e: "checked_product shape = Some elements"
    and r: "resolve_dims shape (perm_view p) [] None 1 = Some (resolved, auto_at, known)"
    and v: "(case auto_at of None \<Rightarrow> if known = elements then Some resolved else None
       | Some index \<Rightarrow> if known = 0 \<or> \<not> is_multiple_of elements known then None
           else Some (resolved[index := elements div known])) = Some view"
    by (auto simp: permute_resolve_def bind_eq_Some_conv)
  have inv: "unat known = prod_list (map unat resolved)" "length resolved = length (perm_view p)"
    "\<And>i. auto_at = Some i \<Longrightarrow> i < length resolved \<and> resolved ! i = 1"
    using resolve_dims_inv [OF r] by auto
  show ?thesis
  proof (cases auto_at)
    case None
    with v inv checked_product_nat [OF e] show ?thesis by (auto split: if_splits)
  next
    case (Some i)
    with v have view: "view = resolved[i := elements div known]" and m: "is_multiple_of elements known"
      by (auto split: if_splits)
    note i = inv(3) [OF Some]
    define xs ys where "xs = take i resolved" and "ys = drop (Suc i) resolved"
    then have split: "resolved = xs @ 1 # ys" and upd: "view = xs @ (elements div known) # ys"
      using i id_take_nth_drop [of i resolved] by (simp_all add: view upd_conv_take_nth_drop)
    have "prod_list (map unat view) = unat known * (unat elements div unat known)"
      using inv(1) by (simp add: split upd unat_div_u64)
    with m checked_product_nat [OF e] inv(2) view show ?thesis
      by (simp add: is_multiple_of_nat)
  qed
qed

end
