(* ===== verification/Planner_Types.thy ===== *)
theory Planner_Types
  imports Contract_Stamp
begin

text \<open>
  The data vocabulary of the planner (\<open>planner/mod.rs\<close>): planner ids, tensor formats,
  regions, the header inventory and the planner's errors. The grid constant bounds one
  tensor-planned object; the cardinality bound limits the regions of one file.
\<close>

definition MAX_OBJECT_SIZE :: u64 where
  "MAX_OBJECT_SIZE = 64 * 1024 * 1024"

definition MAX_OBJECT_COUNT :: nat where
  "MAX_OBJECT_COUNT = 1000000"

datatype planner_id = PlannerId_SafetensorsV1 | PlannerId_GgufV1 | PlannerId_BlobV1

datatype tensor_format = TensorFormat_SafetensorsV1 | TensorFormat_GgufV1

fun planner_as_str :: "planner_id \<Rightarrow> str" where
  "planner_as_str PlannerId_SafetensorsV1 = ''safetensors-v1''"
| "planner_as_str PlannerId_GgufV1 = ''gguf-v1''"
| "planner_as_str PlannerId_BlobV1 = ''blob-v1''"

fun planner_tensor_format :: "planner_id \<Rightarrow> tensor_format option" where
  "planner_tensor_format PlannerId_SafetensorsV1 = Some TensorFormat_SafetensorsV1"
| "planner_tensor_format PlannerId_GgufV1 = Some TensorFormat_GgufV1"
| "planner_tensor_format PlannerId_BlobV1 = None"

fun format_planner_id :: "tensor_format \<Rightarrow> planner_id" where
  "format_planner_id TensorFormat_SafetensorsV1 = PlannerId_SafetensorsV1"
| "format_planner_id TensorFormat_GgufV1 = PlannerId_GgufV1"

datatype region_kind = RegionKind_Header | RegionKind_Tensor | RegionKind_Blob

record region =
  reg_offset :: u64
  reg_length :: u64
  reg_kind :: region_kind

text \<open>I/O failures carry the operating system's own description, which no code inspects.\<close>

type_synonym io_error = str

datatype plan_error =
    PlanError_Read io_error
  | PlanError_SourceChanged io_error
  | PlanError_InvalidCoverage
  | PlanError_ObjectLimit
  | PlanError_ResourceExhausted
  | PlanError_SourceLengthMismatch u64 u64

record inventory_tensor =
  inv_name :: str
  inv_dtype :: str
  inv_shape :: "u64 list"
  inv_offset :: u64
  inv_length :: u64

record tensor_inventory =
  inv_format :: tensor_format
  inv_tensors :: "inventory_tensor list"

lemma planner_tensor_format_inverse:
  "planner_tensor_format p = Some f \<longleftrightarrow> p = format_planner_id f"
  by (cases p; cases f) simp_all

end
