(* ===== verification/Contract_Document.thy ===== *)
theory Contract_Document
  imports Contract_Fusion Planner_Types
begin

text \<open>
  Contract documents (\<open>contract.rs\<close>): the declared tensor families, the contract with its
  canonical rendering, digest and stamp, the seams it gives the planner, and the
  validation of a parsed JSON document. SHA-256 and the JSON deserialiser are parameters.
\<close>

section \<open>Contracts\<close>

record tensor_pattern =
  tp_role :: pattern
  tp_pattern :: pattern
  tp_dtypes :: "str list"
  tp_rank :: "nat option"
  tp_required :: bool
  tp_fusion :: "fusion option"
  tp_permute :: "permute option"

definition tensor_pattern_accepts :: "tensor_pattern \<Rightarrow> str \<Rightarrow> u64 list \<Rightarrow> bool" where
  "tensor_pattern_accepts t dtype shape =
     (if tp_dtypes t \<noteq> [] \<and> dtype \<notin> set (tp_dtypes t) then False
      else if (case tp_rank t of None \<Rightarrow> False | Some r \<Rightarrow> r \<noteq> length shape) then False
      else True)"

record contract =
  con_handle :: "handle option"
  con_description :: str
  con_dtype :: "str option"
  con_tensors :: "tensor_pattern list"
  con_sets :: "(str \<times> pattern list) list"

fun join :: "str \<Rightarrow> str list \<Rightarrow> str" where
  "join sep [] = []"
| "join sep [x] = x"
| "join sep (x # y # xs) = x @ sep @ join sep (y # xs)"

definition debug_usizes :: "nat list \<Rightarrow> str" where
  "debug_usizes axes = ''['' @ join '', '' (map to_decimal axes) @ '']''"

fun canonical_dim :: "dim \<Rightarrow> str" where
  "canonical_dim (Dim_Literal l) = decimal_u64 l @ '',''"
| "canonical_dim Dim_Auto = ''auto,''"
| "canonical_dim (Dim_Axis axis divisor) =
     ''shape['' @ to_decimal axis @ '']/'' @ decimal_u64 divisor @ '',''"

definition newline :: str where
  "newline = [CHR 0x0A]"

definition canonical_tensor :: "tensor_pattern \<Rightarrow> str" where
  "canonical_tensor t =
     ''tensor role='' @ pat_text (tp_role t)
     @ '' pattern='' @ pat_text (tp_pattern t)
     @ '' rank='' @ (case tp_rank t of None \<Rightarrow> ''any'' | Some r \<Rightarrow> to_decimal r)
     @ '' required='' @ (if tp_required t then ''true'' else ''false'')
     @ '' dtypes='' @ join '','' (tp_dtypes t)
     @ (case tp_permute t of
          None \<Rightarrow> []
        | Some p \<Rightarrow> '' permute='' @ concat (map canonical_dim (perm_view p))
                    @ '':'' @ debug_usizes (perm_axes p))
     @ (case tp_fusion t of
          None \<Rightarrow> []
        | Some f \<Rightarrow> '' fusion=groups:'' @ decimal_u64 (fus_groups f) @ '',''
                    @ concat (map (\<lambda>part. part_role part @ '':'' @ decimal_u64 (part_share part) @ '','')
                        (fus_parts f)))
     @ newline"

definition canonical_set :: "str \<times> pattern list \<Rightarrow> str" where
  "canonical_set entry =
     ''set '' @ fst entry @ ''='' @ concat (map (\<lambda>p. pat_text p @ '','') (snd entry)) @ newline"

definition CONTRACT_FORMAT :: str where
  "CONTRACT_FORMAT = ''tensorfs-contract-v1''"

definition contract_canonical :: "contract \<Rightarrow> str" where
  "contract_canonical c =
     CONTRACT_FORMAT @ newline
     @ (case con_handle c of
          None \<Rightarrow> []
        | Some h \<Rightarrow> ''name='' @ handle_name h @ newline
                    @ ''version='' @ decimal_u32 (handle_version h) @ newline)
     @ (case con_dtype c of None \<Rightarrow> [] | Some d \<Rightarrow> ''dtype='' @ d @ newline)
     @ concat (map canonical_tensor (con_tensors c))
     @ concat (map canonical_set (con_sets c))"

definition contract_digest :: "(bytes \<Rightarrow> digest) \<Rightarrow> contract \<Rightarrow> digest" where
  "contract_digest sha256 c = sha256 (as_bytes (contract_canonical c))"

definition contract_stamp :: "(bytes \<Rightarrow> digest) \<Rightarrow> contract \<Rightarrow> stamp" where
  "contract_stamp sha256 c =
     (case con_handle c of
        Some h \<Rightarrow> Stamp_Named h
      | None \<Rightarrow> Stamp_Digest (contract_digest sha256 c))"

definition entry_for :: "contract \<Rightarrow> str \<Rightarrow> tensor_pattern option" where
  "entry_for c name = find (\<lambda>t. pattern_matches (tp_pattern t) name) (con_tensors c)"

definition runs_of :: "contract \<Rightarrow> str \<Rightarrow> u64 list \<Rightarrow> u64 \<Rightarrow> fusion_run list option" where
  "runs_of c name shape byte_length =
     Option.bind (entry_for c name) (\<lambda>entry.
     Option.bind (tp_fusion entry) (\<lambda>f.
     Option.bind (fusion_runs f shape byte_length) (\<lambda>runs.
       if list_ex (\<lambda>run. run_length run < MIN_SEAM_PART_BYTES) runs then None else Some runs)))"

fun running_offsets :: "u64 \<Rightarrow> fusion_run list \<Rightarrow> u64 list" where
  "running_offsets cursor [] = []"
| "running_offsets cursor (run # runs) =
     (cursor + run_length run) # running_offsets (cursor + run_length run) runs"

definition seam_offsets :: "contract \<Rightarrow> str \<Rightarrow> u64 list \<Rightarrow> u64 \<Rightarrow> u64 list" where
  "seam_offsets c name shape byte_length =
     (case runs_of c name shape byte_length of
        None \<Rightarrow> []
      | Some runs \<Rightarrow> running_offsets 0 (butlast runs))"

definition set_members :: "contract \<Rightarrow> str \<Rightarrow> tensor_inventory \<Rightarrow> str list" where
  "set_members c set_name inventory =
     (case map_of (con_sets c) set_name of
        None \<Rightarrow> []
      | Some patterns \<Rightarrow>
          map inv_name (filter (\<lambda>t. list_ex (\<lambda>p. pattern_matches p (inv_name t)) patterns)
            (inv_tensors inventory)))"


section \<open>Validation of a document\<close>

text \<open>The document as \<open>serde\<close> hands it over, defaults filled in.\<close>

datatype raw_dim = RawDim_Number "u64 option" | RawDim_String str | RawDim_Other

record raw_permute =
  rp_view :: "raw_dim list"
  rp_axes :: "nat list"

record raw_fusion =
  rf_axis :: nat
  rf_groups :: u64
  rf_parts :: "fusion_part list"

record raw_tensor =
  rt_role :: str
  rt_pattern :: str
  rt_dtypes :: "str list"
  rt_rank :: "nat option"
  rt_required :: bool
  rt_fusion :: "raw_fusion option"
  rt_permute :: "raw_permute option"

record raw_contract =
  rc_format :: str
  rc_name :: "str option"
  rc_version :: "u32 option"
  rc_description :: str
  rc_dtype :: "str option"
  rc_tensors :: "raw_tensor list"
  rc_sets :: "(str \<times> str list) list"

fun validate_parts :: "str \<Rightarrow> fusion_part list \<Rightarrow> str list \<Rightarrow> contract_error + fusion_part list" where
  "validate_parts pat [] part_roles = Inr []"
| "validate_parts pat (part # parts) part_roles =
     (if part_share part = 0 \<or> part_role part \<in> set part_roles then Inl (ContractError_Fusion pat)
      else if part_role part = [] \<and> 1 < length (part_role part # part_roles)
      then Inl (ContractError_Fusion pat)
      else and_then (validate_parts pat parts (part_role part # part_roles))
             (\<lambda>rest. Inr (part # rest)))"

definition validate_fusion :: "str \<Rightarrow> raw_fusion \<Rightarrow> contract_error + fusion" where
  "validate_fusion pat raw =
     (if rf_axis raw \<noteq> 0 \<or> rf_groups raw = 0 \<or> rf_parts raw = []
         \<or> (rf_groups raw = 1 \<and> length (rf_parts raw) < 2)
      then Inl (ContractError_Fusion pat)
      else and_then (validate_parts pat (rf_parts raw) [])
        (\<lambda>parts.
           if list_ex (\<lambda>part. part_role part = []) parts \<and> 1 < length parts
           then Inl (ContractError_Fusion pat)
           else Inr \<lparr>fus_groups = rf_groups raw, fus_parts = parts\<rparr>))"

fun axes_once :: "bool list \<Rightarrow> nat list \<Rightarrow> bool" where
  "axes_once seen [] = True"
| "axes_once seen (axis # axes) =
     (if length seen \<le> axis \<or> seen ! axis then False else axes_once (seen[axis := True]) axes)"

fun parse_raw_dim :: "raw_dim \<Rightarrow> dim option" where
  "parse_raw_dim (RawDim_Number n) =
     Option.bind n (\<lambda>v. if 0 < v then Some (Dim_Literal v) else None)"
| "parse_raw_dim (RawDim_String s) = dim_parse s"
| "parse_raw_dim RawDim_Other = None"

definition validate_permute :: "str \<Rightarrow> fusion option \<Rightarrow> raw_permute \<Rightarrow> contract_error + permute" where
  "validate_permute pat fus raw =
     (if fus \<noteq> None then Inl (ContractError_Permute pat)
      else if length (rp_view raw) < 2 \<or> length (rp_axes raw) \<noteq> length (rp_view raw)
      then Inl (ContractError_Permute pat)
      else if \<not> axes_once (replicate (length (rp_axes raw)) False) (rp_axes raw)
      then Inl (ContractError_Permute pat)
      else if rp_axes raw = [0..<length (rp_axes raw)] then Inl (ContractError_Permute pat)
      else and_then (ok_or (those (map parse_raw_dim (rp_view raw))) (ContractError_Permute pat))
        (\<lambda>view. Inr \<lparr>perm_view = view, perm_axes = rp_axes raw\<rparr>))"

definition validate_optional :: "('a \<Rightarrow> 'e + 'b) \<Rightarrow> 'a option \<Rightarrow> 'e + 'b option" where
  "validate_optional f x =
     (case x of None \<Rightarrow> Inr None | Some a \<Rightarrow> and_then (f a) (\<lambda>b. Inr (Some b)))"

fun validate_tensors :: "raw_tensor list \<Rightarrow> str list \<Rightarrow> str list \<Rightarrow>
    contract_error + tensor_pattern list" where
  "validate_tensors [] patterns roles = Inr []"
| "validate_tensors (raw # raws) patterns roles =
     and_then (pattern_parse (rt_pattern raw)) (\<lambda>pat.
     and_then (pattern_parse (rt_role raw)) (\<lambda>role.
       if pattern_holes role \<noteq> pattern_holes pat then Inl (ContractError_RoleHoles (rt_role raw))
       else if rt_pattern raw \<in> set patterns then Inl (ContractError_Duplicate (rt_pattern raw))
       else if rt_role raw \<in> set roles then Inl (ContractError_Duplicate (rt_role raw))
       else
         and_then (validate_optional (validate_fusion (rt_pattern raw)) (rt_fusion raw)) (\<lambda>fus.
         and_then (validate_optional (validate_permute (rt_pattern raw) fus) (rt_permute raw)) (\<lambda>perm.
         and_then (validate_tensors raws (rt_pattern raw # patterns) (rt_role raw # roles)) (\<lambda>rest.
           Inr (\<lparr>tp_role = role, tp_pattern = pat, tp_dtypes = rt_dtypes raw, tp_rank = rt_rank raw,
                 tp_required = rt_required raw, tp_fusion = fus, tp_permute = perm\<rparr> # rest))))))"

fun parse_patterns :: "str list \<Rightarrow> contract_error + pattern list" where
  "parse_patterns [] = Inr []"
| "parse_patterns (member # members) =
     and_then (pattern_parse member) (\<lambda>p.
     and_then (parse_patterns members) (\<lambda>ps. Inr (p # ps)))"

fun validate_sets :: "(str \<times> str list) list \<Rightarrow> contract_error + (str \<times> pattern list) list" where
  "validate_sets [] = Inr []"
| "validate_sets ((name, members) # sets) =
     (if members = [] then Inl (ContractError_Set name)
      else and_then (parse_patterns members) (\<lambda>compiled.
           and_then (validate_sets sets) (\<lambda>rest. Inr ((name, compiled) # rest))))"

definition dtype_usable :: "str \<Rightarrow> bool" where
  "dtype_usable d =
     (d \<noteq> [] \<and> length d \<le> 32 \<and>
      list_all (\<lambda>c. is_ascii_lowercase c \<or> is_ascii_digit c \<or> c = CHR ''_'') d)"

definition raw_validate :: "raw_contract \<Rightarrow> contract_error + contract" where
  "raw_validate raw =
     (if rc_format raw \<noteq> CONTRACT_FORMAT then Inl ContractError_Format
      else and_then
        (case (rc_name raw, rc_version raw) of
           (None, None) \<Rightarrow> Inr None
         | (Some name, Some version) \<Rightarrow> and_then (handle_new name version) (\<lambda>h. Inr (Some h))
         | _ \<Rightarrow> Inl ContractError_Identity)
        (\<lambda>h.
          if (case rc_dtype raw of None \<Rightarrow> False | Some d \<Rightarrow> \<not> dtype_usable d)
          then Inl (ContractError_Dtype (the (rc_dtype raw)))
          else if rc_tensors raw = [] then Inl ContractError_NoTensors
          else
            and_then (validate_tensors (rc_tensors raw) [] []) (\<lambda>tensors.
            and_then (validate_sets (rc_sets raw)) (\<lambda>sets.
              Inr \<lparr>con_handle = h, con_description = rc_description raw, con_dtype = rc_dtype raw,
                   con_tensors = tensors, con_sets = sets\<rparr>))))"

definition contract_parse :: "(str \<Rightarrow> str + raw_contract) \<Rightarrow> str \<Rightarrow> contract_error + contract" where
  "contract_parse from_str document =
     and_then (map_err ContractError_Json (from_str document)) raw_validate"


section \<open>What validation establishes\<close>

definition fusion_ok :: "fusion \<Rightarrow> bool" where
  "fusion_ok f =
     (fus_groups f \<noteq> 0 \<and> fus_parts f \<noteq> [] \<and> \<not> (fus_groups f = 1 \<and> length (fus_parts f) < 2) \<and>
      list_all (\<lambda>part. part_share part \<noteq> 0) (fus_parts f) \<and>
      distinct (map part_role (fus_parts f)) \<and>
      (list_ex (\<lambda>part. part_role part = []) (fus_parts f) \<longrightarrow> length (fus_parts f) = 1))"

definition permute_ok :: "permute \<Rightarrow> bool" where
  "permute_ok p =
     (2 \<le> length (perm_view p) \<and> length (perm_axes p) = length (perm_view p) \<and>
      distinct (perm_axes p) \<and> set (perm_axes p) = {0..<length (perm_view p)} \<and>
      perm_axes p \<noteq> [0..<length (perm_view p)])"

definition tensor_pattern_ok :: "tensor_pattern \<Rightarrow> bool" where
  "tensor_pattern_ok t =
     (pieces_ok (pat_pieces (tp_pattern t)) \<and> pieces_ok (pat_pieces (tp_role t)) \<and>
      pattern_holes (tp_role t) = pattern_holes (tp_pattern t) \<and>
      (\<forall>f. tp_fusion t = Some f \<longrightarrow> fusion_ok f) \<and>
      (\<forall>p. tp_permute t = Some p \<longrightarrow> permute_ok p) \<and>
      (tp_fusion t = None \<or> tp_permute t = None))"

definition contract_ok :: "contract \<Rightarrow> bool" where
  "contract_ok c =
     (con_tensors c \<noteq> [] \<and> list_all tensor_pattern_ok (con_tensors c) \<and>
      distinct (map (pat_text \<circ> tp_pattern) (con_tensors c)) \<and>
      distinct (map (pat_text \<circ> tp_role) (con_tensors c)) \<and>
      (\<forall>h. con_handle c = Some h \<longrightarrow> handle_ok h) \<and>
      (\<forall>d. con_dtype c = Some d \<longrightarrow> dtype_usable d))"

lemma validate_parts_Inr:
  "validate_parts pat parts part_roles = Inr ps \<Longrightarrow>
   ps = parts \<and> list_all (\<lambda>part. part_share part \<noteq> 0) parts \<and> distinct (map part_role parts) \<and>
   set (map part_role parts) \<inter> set part_roles = {}"
  by (induction pat parts part_roles arbitrary: ps rule: validate_parts.induct)
    (auto simp: result_simps split: if_splits)

lemma validate_fusion_ok: "validate_fusion pat raw = Inr f \<Longrightarrow> fusion_ok f"
  by (auto simp: validate_fusion_def fusion_ok_def result_simps dest!: validate_parts_Inr
      split: if_splits) (metis One_nat_def Suc_lessI length_0_conv neq0_conv)+

lemma axes_once_distinct:
  "axes_once seen axes \<Longrightarrow>
   distinct axes \<and> (\<forall>a \<in> set axes. a < length seen \<and> \<not> seen ! a)"
proof (induction seen axes rule: axes_once.induct)
  case (2 seen axis axes)
  then show ?case by (fastforce simp: nth_list_update split: if_splits)
qed simp

lemma validate_permute_ok: "validate_permute pat fus raw = Inr p \<Longrightarrow> permute_ok p \<and> fus = None"
proof -
  assume "validate_permute pat fus raw = Inr p"
  then have fus: "fus = None" and len: "2 \<le> length (rp_view raw)" "length (rp_axes raw) = length (rp_view raw)"
    and once: "axes_once (replicate (length (rp_axes raw)) False) (rp_axes raw)"
    and nid: "rp_axes raw \<noteq> [0..<length (rp_axes raw)]"
    and view: "those (map parse_raw_dim (rp_view raw)) = Some (perm_view p)"
    and axes: "perm_axes p = rp_axes raw"
    by (auto simp: validate_permute_def result_simps split: if_splits)
  have lv: "length (perm_view p) = length (rp_view raw)"
    using view by (metis length_map those_Some_iff)
  from axes_once_distinct [OF once] have d: "distinct (rp_axes raw)"
    and sub: "set (rp_axes raw) \<subseteq> {0..<length (rp_view raw)}" using len(2) by auto
  have "set (rp_axes raw) = {0..<length (rp_view raw)}"
    by (rule card_subset_eq) (use sub len(2) in \<open>simp_all add: distinct_card [OF d]\<close>)
  with fus len nid lv axes d show ?thesis by (simp add: permute_ok_def)
qed

lemma validate_optional_Inr [result_simps]:
  "validate_optional f x = Inr y \<longleftrightarrow>
     (x = None \<and> y = None) \<or> (\<exists>a b. x = Some a \<and> y = Some b \<and> f a = Inr b)"
  by (cases x) (auto simp: validate_optional_def result_simps)

lemma validate_tensors_ok:
  "validate_tensors raws patterns roles = Inr ts \<Longrightarrow>
   list_all tensor_pattern_ok ts \<and> length ts = length raws \<and>
   map (pat_text \<circ> tp_pattern) ts = map rt_pattern raws \<and>
   map (pat_text \<circ> tp_role) ts = map rt_role raws \<and>
   distinct (map rt_pattern raws) \<and> set (map rt_pattern raws) \<inter> set patterns = {} \<and>
   distinct (map rt_role raws) \<and> set (map rt_role raws) \<inter> set roles = {}"
proof (induction raws patterns roles arbitrary: ts rule: validate_tensors.induct)
  case (2 raw raws patterns roles)
  from "2.prems" obtain pat role fus perm rest where
    p: "pattern_parse (rt_pattern raw) = Inr pat" and r: "pattern_parse (rt_role raw) = Inr role"
    and holes: "pattern_holes role = pattern_holes pat"
    and new: "rt_pattern raw \<notin> set patterns" "rt_role raw \<notin> set roles"
    and f: "validate_optional (validate_fusion (rt_pattern raw)) (rt_fusion raw) = Inr fus"
    and q: "validate_optional (validate_permute (rt_pattern raw) fus) (rt_permute raw) = Inr perm"
    and v: "validate_tensors raws (rt_pattern raw # patterns) (rt_role raw # roles) = Inr rest"
    and ts: "ts = \<lparr>tp_role = role, tp_pattern = pat, tp_dtypes = rt_dtypes raw, tp_rank = rt_rank raw,
                 tp_required = rt_required raw, tp_fusion = fus, tp_permute = perm\<rparr> # rest"
    by (auto simp: and_then_Inr_iff split: if_splits)
  have "\<And>g. fus = Some g \<Longrightarrow> fusion_ok g"
    using f by (auto simp: result_simps dest: validate_fusion_ok)
  moreover have "\<And>g. perm = Some g \<Longrightarrow> permute_ok g \<and> fus = None"
    using q by (auto simp: validate_optional_Inr dest: validate_permute_ok)
  ultimately have "tensor_pattern_ok (hd ts)"
    using pattern_parse_ok [OF p] pattern_parse_ok [OF r] holes
    by (auto simp: tensor_pattern_ok_def ts)
  moreover note "2.IH" [OF p r _ _ _ f q v]
  ultimately show ?case
    using holes new pattern_parse_ok(2) [OF p] pattern_parse_ok(2) [OF r] by (auto simp: ts)
qed simp

lemma raw_validate_contract_ok:
  assumes "raw_validate raw = Inr c"
  shows "contract_ok c"
proof -
  from assms obtain h where
    h: "(case (rc_name raw, rc_version raw) of
           (None, None) \<Rightarrow> Inr None
         | (Some name, Some version) \<Rightarrow> and_then (handle_new name version) (\<lambda>h. Inr (Some h))
         | _ \<Rightarrow> Inl ContractError_Identity) = Inr h" "con_handle c = h"
    and d: "\<not> (case rc_dtype raw of None \<Rightarrow> False | Some d \<Rightarrow> \<not> dtype_usable d)"
      "con_dtype c = rc_dtype raw"
    and ne: "rc_tensors raw \<noteq> []"
    and t: "validate_tensors (rc_tensors raw) [] [] = Inr (con_tensors c)"
    unfolding raw_validate_def by (auto simp: and_then_Inr_iff split: if_splits)
  have "\<And>k. h = Some k \<Longrightarrow> handle_ok k"
    using h(1) by (auto simp: result_simps split: option.splits)
  moreover have "con_tensors c \<noteq> []"
    using validate_tensors_ok [OF t] ne by auto
  ultimately show ?thesis
    using validate_tensors_ok [OF t] h(2) d by (auto simp: contract_ok_def)
qed


section \<open>Seams\<close>

text \<open>The seams of a tensor of length \<open>n\<close> are usable when they increase strictly inside it.\<close>

fun seams_fit :: "u64 \<Rightarrow> u64 list \<Rightarrow> u64 \<Rightarrow> bool" where
  "seams_fit cursor [] n = True"
| "seams_fit cursor (s # ss) n = (cursor < s \<and> s < n \<and> seams_fit s ss n)"

definition con_shares_fit :: "contract \<Rightarrow> bool" where
  "con_shares_fit c =
     list_all (\<lambda>t. case tp_fusion t of None \<Rightarrow> True | Some f \<Rightarrow> shares_fit f) (con_tensors c)"

lemma running_offsets_fit:
  "(\<And>r. r \<in> set runs \<Longrightarrow> 0 < unat (run_length r)) \<Longrightarrow>
   unat cursor + sum_list (map (unat \<circ> run_length) runs) < unat n \<Longrightarrow>
   seams_fit cursor (running_offsets cursor runs) n"
proof (induction runs arbitrary: cursor)
  case (Cons r runs)
  have pos: "0 < unat (run_length r)" using Cons.prems(1) by simp
  have lt: "unat cursor + unat (run_length r) < 2 ^ 64"
    using Cons.prems(2) unat_u64_lt [of n] by simp
  then have step: "unat (cursor + run_length r) = unat cursor + unat (run_length r)"
    by (simp add: unat_add_u64)
  have "seams_fit (cursor + run_length r) (running_offsets (cursor + run_length r) runs) n"
    using Cons.prems step by (intro Cons.IH) simp_all
  with pos Cons.prems(2) step show ?case by (simp add: u64_nat)
qed simp

lemma runs_of_Some:
  assumes "runs_of c name shape n = Some runs"
  obtains entry f where "entry \<in> set (con_tensors c)" "tp_fusion entry = Some f"
    "fusion_runs f shape n = Some runs" "\<forall>r \<in> set runs. MIN_SEAM_PART_BYTES \<le> run_length r"
proof -
  from assms obtain entry f where "find (\<lambda>t. pattern_matches (tp_pattern t) name) (con_tensors c) = Some entry"
    "tp_fusion entry = Some f" "fusion_runs f shape n = Some runs"
    "\<forall>r \<in> set runs. MIN_SEAM_PART_BYTES \<le> run_length r"
    by (auto simp: runs_of_def bind_eq_Some_conv entry_for_def list_ex_iff not_less split: if_splits)
  then show thesis using that by (metis find_Some_iff nth_mem)
qed

lemma runs_of_total:
  assumes "con_shares_fit c" "runs_of c name shape n = Some runs"
  shows "sum_list (map (unat \<circ> run_length) runs) = unat n" "runs \<noteq> []"
    "\<And>r. r \<in> set runs \<Longrightarrow> 2 ^ 20 \<le> unat (run_length r)"
proof -
  from assms(2) obtain entry f where e: "entry \<in> set (con_tensors c)" "tp_fusion entry = Some f"
    and r: "fusion_runs f shape n = Some runs"
    and m: "\<forall>r \<in> set runs. MIN_SEAM_PART_BYTES \<le> run_length r"
    by (rule runs_of_Some)
  from e assms(1) have "shares_fit f" by (auto simp: con_shares_fit_def list_all_iff split: option.splits)
  then show "sum_list (map (unat \<circ> run_length) runs) = unat n" by (rule fusion_runs_total [OF _ r])
  show "runs \<noteq> []" by (rule fusion_runs_not_Nil [OF r])
  show "2 ^ 20 \<le> unat (run_length r)" if "r \<in> set runs" for r
    using m that by (auto simp: MIN_SEAM_PART_BYTES_def u64_nat)
qed

lemma seam_offsets_fit:
  assumes "con_shares_fit c"
  shows "seams_fit 0 (seam_offsets c name shape n) n"
proof (cases "runs_of c name shape n")
  case (Some runs)
  note t = runs_of_total [OF assms Some]
  have split: "runs = butlast runs @ [last runs]" using t(2) by simp
  have "sum_list (map (unat \<circ> run_length) (butlast runs)) + unat (run_length (last runs)) = unat n"
    using t(1) arg_cong [OF split, of "\<lambda>xs. sum_list (map (unat \<circ> run_length) xs)"] by simp
  moreover have "2 ^ 20 \<le> unat (run_length (last runs))" using t(2,3) by simp
  ultimately have "sum_list (map (unat \<circ> run_length) (butlast runs)) < unat n" by simp
  then have "seams_fit 0 (running_offsets 0 (butlast runs)) n"
    using t(3) by (intro running_offsets_fit) (force dest: in_set_butlastD)+
  with Some show ?thesis by (simp add: seam_offsets_def)
qed (simp add: seam_offsets_def)

lemma seams_fit_sorted:
  "seams_fit cursor seams len \<Longrightarrow> sorted_wrt (<) (cursor # seams) \<and> list_all (\<lambda>seam. seam < len) seams"
  by (induction cursor seams len rule: seams_fit.induct) (auto intro: less_trans)

end
