(* ===== verification/Planner_Grid.thy ===== *)
theory Planner_Grid
  imports Contract_Document
begin

text \<open>
  The chunk grid (\<open>planner/mod.rs\<close>): splitting an extent on the 64 MiB grid, cutting a
  tensor at its seams first, the whole-blob plan, and the coverage check every plan has to
  pass. Offsets and cursors use machine addition, as the source does after its checks.
\<close>

record plan =
  plan_planner :: planner_id
  plan_contract :: stamp
  plan_file_size :: u64
  plan_regions :: "region list"

text \<open>A byte source: its captured length, positional reads, and the outcome of its \<open>k\<close>-th
  \<open>check_unchanged\<close>, since the file may be changed by others while it is planned.\<close>

record byte_source =
  src_len :: u64
  src_read :: "u64 \<Rightarrow> nat \<Rightarrow> io_error + bytes"
  src_check :: "nat \<Rightarrow> io_error + unit"

definition slice_read :: "bytes \<Rightarrow> u64 \<Rightarrow> nat \<Rightarrow> io_error + bytes" where
  "slice_read bs offset n =
     (let stop = unat offset + n in
      if 2 ^ 64 \<le> stop then Inl ''range overflow''
      else if length bs < stop then Inl ''range is truncated''
      else Inr (take n (drop (unat offset) bs)))"

definition slice_source :: "bytes \<Rightarrow> byte_source" where
  "slice_source bs =
     \<lparr>src_len = of_nat (length bs), src_read = slice_read bs, src_check = (\<lambda>_. Inr ())\<rparr>"

function split_loop :: "region_kind \<Rightarrow> u64 \<Rightarrow> u64 \<Rightarrow> region list" where
  "split_loop kind cursor remaining =
     (if 0 < remaining then
        let part = min remaining MAX_OBJECT_SIZE in
        \<lparr>reg_offset = cursor, reg_length = part, reg_kind = kind\<rparr>
          # split_loop kind (cursor + part) (remaining - part)
      else [])"
  by pat_completeness auto

lemma unat_MAX_OBJECT_SIZE: "unat MAX_OBJECT_SIZE = 67108864"
  by (simp add: MAX_OBJECT_SIZE_def)

lemma split_part:
  assumes "0 < (remaining :: u64)" "part = min remaining MAX_OBJECT_SIZE"
  shows "unat part = min (unat remaining) 67108864" "0 < unat part" "unat part \<le> unat remaining"
    "unat (remaining - part) = unat remaining - unat part"
proof -
  show p: "unat part = min (unat remaining) 67108864"
    using assms(2) by (simp add: min_def word_le_nat_alt unat_MAX_OBJECT_SIZE)
  then show "0 < unat part" "unat part \<le> unat remaining" using assms(1) by (auto simp: u64_nat)
  then show "unat (remaining - part) = unat remaining - unat part"
    by (simp add: unat_sub_u64 word_le_nat_alt)
qed

lemma split_decreases:
  "0 < (remaining :: u64) \<Longrightarrow> unat (remaining - min remaining MAX_OBJECT_SIZE) < unat remaining"
  using split_part(2-4) [OF _ refl] by fastforce

termination split_loop
  by (relation "measure (\<lambda>(kind, cursor, remaining). unat remaining)") (simp_all add: split_decreases)

declare split_loop.simps [simp del]

definition append_split_region :: "region list \<Rightarrow> u64 \<Rightarrow> u64 \<Rightarrow> region_kind \<Rightarrow> plan_error + region list" where
  "append_split_region regions offset len kind =
     (let object_count = (if len = 0 then 0 else unat (div_ceil len MAX_OBJECT_SIZE)) in
      if MAX_OBJECT_COUNT < length regions + object_count then Inl PlanError_ObjectLimit
      else Inr (regions @ split_loop kind offset len))"

fun seam_loop :: "region list \<Rightarrow> u64 \<Rightarrow> u64 \<Rightarrow> u64 \<Rightarrow> u64 list \<Rightarrow> region_kind \<Rightarrow>
    plan_error + region list" where
  "seam_loop regions offset len cursor [] kind =
     append_split_region regions (offset + cursor) (len - cursor) kind"
| "seam_loop regions offset len cursor (seam # seams) kind =
     (if seam \<le> cursor \<or> len \<le> seam then Inl PlanError_InvalidCoverage
      else and_then (append_split_region regions (offset + cursor) (seam - cursor) kind)
        (\<lambda>regions. seam_loop regions offset len seam seams kind))"

definition append_tensor_regions ::
    "region list \<Rightarrow> u64 \<Rightarrow> u64 \<Rightarrow> u64 list \<Rightarrow> region_kind \<Rightarrow> plan_error + region list" where
  "append_tensor_regions regions offset len seams kind = seam_loop regions offset len 0 seams kind"

definition blob_plan :: "u64 \<Rightarrow> plan" where
  "blob_plan file_size =
     \<lparr>plan_planner = PlannerId_BlobV1, plan_contract = Stamp_None, plan_file_size = file_size,
      plan_regions = (if file_size = 0 then []
        else [\<lparr>reg_offset = 0, reg_length = file_size, reg_kind = RegionKind_Blob\<rparr>])\<rparr>"

fun cover_loop :: "bool \<Rightarrow> u64 \<Rightarrow> region list \<Rightarrow> plan_error + u64" where
  "cover_loop blob expected [] = Inr expected"
| "cover_loop blob expected (r # rs) =
     (if reg_offset r \<noteq> expected \<or> reg_length r = 0 \<or> (\<not> blob \<and> MAX_OBJECT_SIZE < reg_length r)
      then Inl PlanError_InvalidCoverage
      else and_then (ok_or (checked_add expected (reg_length r)) PlanError_InvalidCoverage)
        (\<lambda>expected. cover_loop blob expected rs))"

definition plan_validate :: "plan \<Rightarrow> plan_error + unit" where
  "plan_validate p =
     (if MAX_OBJECT_COUNT < length (plan_regions p) then Inl PlanError_ObjectLimit
      else let blob = (plan_planner p = PlannerId_BlobV1) in
      if blob \<and> 1 < length (plan_regions p) then Inl PlanError_InvalidCoverage
      else if plan_file_size p = 0 then
        (if plan_regions p = [] then Inr () else Inl PlanError_InvalidCoverage)
      else and_then (cover_loop blob 0 (plan_regions p)) (\<lambda>expected.
        if expected \<noteq> plan_file_size p then Inl PlanError_InvalidCoverage else Inr ()))"


section \<open>Tilings\<close>

text \<open>The regions tile the byte range from \<open>a\<close> to \<open>b\<close>: consecutive, non-empty, no gap and no
  overlap.\<close>

fun tiles :: "nat \<Rightarrow> region list \<Rightarrow> nat \<Rightarrow> bool" where
  "tiles a [] b = (a = b)"
| "tiles a (r # rs) b =
     (unat (reg_offset r) = a \<and> 0 < unat (reg_length r) \<and> tiles (a + unat (reg_length r)) rs b)"

definition on_grid :: "region list \<Rightarrow> bool" where
  "on_grid rs = list_all (\<lambda>r. reg_length r \<le> MAX_OBJECT_SIZE) rs"

lemma tiles_append: "tiles a (rs @ qs) c \<longleftrightarrow> (\<exists>b. tiles a rs b \<and> tiles b qs c)"
  by (induction rs arbitrary: a) auto

lemma tiles_le: "tiles a rs b \<Longrightarrow> a \<le> b"
  by (induction rs arbitrary: a) fastforce+

lemma tiles_bounded:
  "tiles a rs b \<Longrightarrow> r \<in> set rs \<Longrightarrow> a \<le> unat (reg_offset r) \<and> unat (reg_offset r) + unat (reg_length r) \<le> b"
  by (induction rs arbitrary: a) (fastforce dest: tiles_le)+

lemma tiles_eq_Nil: "tiles a rs a \<longleftrightarrow> rs = []"
  by (cases rs) (auto dest: tiles_le)

lemma on_grid_append [simp]: "on_grid (rs @ qs) \<longleftrightarrow> on_grid rs \<and> on_grid qs"
  by (simp add: on_grid_def)

lemma cover_loop_iff:
  assumes "unat b < 2 ^ 64"
  shows "cover_loop blob a rs = Inr b \<longleftrightarrow> tiles (unat a) rs (unat b) \<and> (blob \<or> on_grid rs)"
  using assms
proof (induction rs arbitrary: a)
  case Nil
  then show ?case by (auto simp: u64_eq_nat on_grid_def)
next
  case (Cons r rs)
  show ?case
  proof (cases "checked_add a (reg_length r)")
    case None
    have "\<not> tiles (unat a + unat (reg_length r)) rs (unat b)"
      using None Cons.prems tiles_le [of "unat a + unat (reg_length r)" rs "unat b"]
      by (auto simp: checked_add_None_iff)
    with None show ?thesis by (auto simp: u64_eq_nat)
  next
    case (Some s)
    then have s: "unat s = unat a + unat (reg_length r)" by (simp add: checked_add_Some_iff)
    show ?thesis using Some Cons by (auto simp: s u64_nat u64_eq_nat on_grid_def not_less)
  qed
qed

lemma plan_validate_iff:
  "plan_validate p = Inr () \<longleftrightarrow>
     length (plan_regions p) \<le> MAX_OBJECT_COUNT \<and>
     (plan_planner p = PlannerId_BlobV1 \<longrightarrow> length (plan_regions p) \<le> 1) \<and>
     tiles 0 (plan_regions p) (unat (plan_file_size p)) \<and>
     (plan_planner p \<noteq> PlannerId_BlobV1 \<longrightarrow> on_grid (plan_regions p))"
proof (cases "plan_file_size p = 0")
  case True
  then show ?thesis by (auto simp: plan_validate_def Let_def tiles_eq_Nil on_grid_def)
next
  case False
  have "(\<exists>e. cover_loop blob 0 rs = Inr e \<and> e = plan_file_size p) \<longleftrightarrow>
      tiles 0 rs (unat (plan_file_size p)) \<and> (blob \<or> on_grid rs)" for blob rs
    using cover_loop_iff [of "plan_file_size p" blob 0 rs] unat_u64_lt [of "plan_file_size p"] by simp
  with False show ?thesis
    by (auto simp: plan_validate_def Let_def result_simps)
qed

lemma split_loop_0 [simp]: "split_loop kind cursor 0 = []"
  by (subst split_loop.simps) simp

lemma split_loop_step:
  "0 < remaining \<Longrightarrow> part = min remaining MAX_OBJECT_SIZE \<Longrightarrow>
   split_loop kind cursor remaining =
     \<lparr>reg_offset = cursor, reg_length = part, reg_kind = kind\<rparr>
       # split_loop kind (cursor + part) (remaining - part)"
  by (subst split_loop.simps) (simp add: Let_def)

lemma split_loop_induct [case_names Empty Part]:
  assumes "\<And>cursor. P cursor 0"
    and "\<And>cursor remaining part. \<lbrakk>0 < remaining; part = min remaining MAX_OBJECT_SIZE;
      P (cursor + part) (remaining - part)\<rbrakk> \<Longrightarrow> P cursor remaining"
  shows "P cursor (remaining :: u64)"
proof -
  have "P cursor remaining" for kind :: region_kind
  proof (induction kind cursor remaining rule: split_loop.induct)
    case (1 kind cursor remaining)
    then show ?case using assms by (cases "0 < remaining") (auto simp: word_gt_0)
  qed
  then show ?thesis .
qed

lemma split_loop_tiles:
  "unat cursor + unat remaining < 2 ^ 64 \<Longrightarrow>
   tiles (unat cursor) (split_loop kind cursor remaining) (unat cursor + unat remaining) \<and>
   on_grid (split_loop kind cursor remaining)"
proof (induction cursor remaining rule: split_loop_induct)
  case (Part cursor remaining part)
  note p = split_part [OF Part(1,2)]
  have add: "unat (cursor + part) = unat cursor + unat part"
    using Part(4) p(3) by (simp add: unat_add_u64)
  have total: "unat (cursor + part) + unat (remaining - part) = unat cursor + unat remaining"
    using add p by simp
  have "part \<le> MAX_OBJECT_SIZE" using Part(2) by simp
  with Part(3,4) p(2) show ?case
    unfolding split_loop_step [OF Part(1,2)] total by (simp add: add on_grid_def)
qed (simp add: on_grid_def)

definition grid_count :: "nat \<Rightarrow> nat" where
  "grid_count n = (67108863 + n) div 67108864"

lemma grid_count_add: "grid_count (67108864 + k) = Suc (grid_count k)"
proof -
  have "67108863 + (67108864 + k) = (67108863 + k) + 67108864" by simp
  then show ?thesis by (simp only: grid_count_def div_add_self2)
qed

lemma length_split_loop: "length (split_loop kind cursor remaining) = grid_count (unat remaining)"
proof (induction cursor remaining rule: split_loop_induct)
  case (Part cursor remaining part)
  note p = split_part [OF Part(1,2)]
  have "Suc (grid_count (unat remaining - unat part)) = grid_count (unat remaining)"
  proof (cases "unat remaining \<le> 67108864")
    case True
    then show ?thesis using p(1,2) by (simp add: grid_count_def div_nat_eqI)
  next
    case False
    then have "unat remaining = 67108864 + (unat remaining - unat part)" using p(1) by simp
    then show ?thesis by (metis grid_count_add)
  qed
  with Part(3) p(4) show ?case by (simp add: split_loop_step [OF Part(1,2)])
qed (simp add: grid_count_def)

lemma object_count_grid:
  "(if len = 0 then 0 else unat (div_ceil len MAX_OBJECT_SIZE)) = grid_count (unat len)"
proof -
  have "unat (div_ceil len MAX_OBJECT_SIZE) = grid_count (unat len)"
    using unat_div_ceil [of MAX_OBJECT_SIZE len]
    by (simp add: grid_count_def unat_MAX_OBJECT_SIZE u64_nat)
  then show ?thesis by (simp add: grid_count_def)
qed

lemma append_split_region_Inr_iff:
  "append_split_region regions offset len kind = Inr rs \<longleftrightarrow>
     rs = regions @ split_loop kind offset len \<and> length rs \<le> MAX_OBJECT_COUNT"
  unfolding append_split_region_def object_count_grid Let_def by (auto simp: length_split_loop)

lemma append_split_region_Inl_iff:
  "append_split_region regions offset len kind = Inl e \<longleftrightarrow>
     e = PlanError_ObjectLimit \<and> MAX_OBJECT_COUNT < length regions + grid_count (unat len)"
  unfolding append_split_region_def object_count_grid Let_def by auto

lemma append_split_region_tiles:
  assumes "append_split_region regions offset len kind = Inr rs"
    and "tiles a regions (unat offset)" "on_grid regions" "unat offset + unat len < 2 ^ 64"
  shows "tiles a rs (unat offset + unat len)" "on_grid rs" "length rs \<le> MAX_OBJECT_COUNT"
  using split_loop_tiles [OF assms(4), of kind] assms(1-3)
  by (auto simp: append_split_region_Inr_iff tiles_append)


section \<open>Cutting at seams\<close>

lemma seam_loop_tiles:
  "seam_loop regions offset len cursor seams kind = Inr rs \<Longrightarrow>
   tiles a regions (unat offset + unat cursor) \<Longrightarrow> on_grid regions \<Longrightarrow>
   unat cursor \<le> unat len \<Longrightarrow> unat offset + unat len < 2 ^ 64 \<Longrightarrow>
   tiles a rs (unat offset + unat len) \<and> on_grid rs \<and> length rs \<le> MAX_OBJECT_COUNT"
proof (induction regions offset len cursor seams kind rule: seam_loop.induct)
  case (1 regions offset len cursor kind)
  have o: "unat (offset + cursor) = unat offset + unat cursor" using 1 by (simp add: unat_add_u64)
  have l: "unat (len - cursor) = unat len - unat cursor"
    using 1 by (simp add: unat_sub_u64 word_le_nat_alt)
  have total: "unat (offset + cursor) + unat (len - cursor) = unat offset + unat len"
    using o l 1(4) by simp
  have "append_split_region regions (offset + cursor) (len - cursor) kind = Inr rs"
    using 1(1) by simp
  from append_split_region_tiles [OF this, of a, unfolded total] 1 o show ?case by simp
next
  case (2 regions offset len cursor seam seams kind)
  from 2(2) have s: "cursor < seam" "seam < len" by (auto split: if_splits)
  from 2(2) obtain qs where q: "append_split_region regions (offset + cursor) (seam - cursor) kind = Inr qs"
    and r: "seam_loop qs offset len seam seams kind = Inr rs"
    by (auto simp: result_simps split: if_splits)
  have o: "unat (offset + cursor) = unat offset + unat cursor"
    using 2(5,6) by (simp add: unat_add_u64)
  have l: "unat (seam - cursor) = unat seam - unat cursor"
    using s by (simp add: unat_sub_u64)
  have total: "unat (offset + cursor) + unat (seam - cursor) = unat offset + unat seam"
    using o l s by (simp add: u64_nat)
  have "unat offset + unat seam < 2 ^ 64" using 2(6) s by (simp add: u64_nat)
  then have "tiles a qs (unat offset + unat seam)" "on_grid qs"
    using append_split_region_tiles [OF q, of a, unfolded total] 2(3,4) o by simp_all
  with "2.IH" [OF _ q r] s 2(6) show ?case by (simp add: u64_nat)
qed

lemma seam_loop_Inl:
  "seam_loop regions offset len cursor seams kind = Inl e \<Longrightarrow>
   e = PlanError_ObjectLimit \<or> e = PlanError_InvalidCoverage"
  by (induction regions offset len cursor seams kind rule: seam_loop.induct)
    (auto simp: and_then_Inl_iff append_split_region_Inl_iff split: if_splits)

text \<open>With usable seams, the only way to fail is the cardinality bound.\<close>

lemma seam_loop_no_coverage_error:
  "seams_fit cursor seams len \<Longrightarrow> seam_loop regions offset len cursor seams kind = Inl e \<Longrightarrow>
   e = PlanError_ObjectLimit"
proof (induction regions offset len cursor seams kind rule: seam_loop.induct)
  case (2 regions offset len cursor seam seams kind)
  have s: "\<not> (seam \<le> cursor \<or> len \<le> seam)" using 2(2) by (simp add: not_le)
  show ?case
  proof (cases "append_split_region regions (offset + cursor) (seam - cursor) kind")
    case (Inl d)
    with 2(3) s show ?thesis by (simp add: append_split_region_Inl_iff)
  next
    case (Inr rs)
    with 2(3) s have "seam_loop rs offset len seam seams kind = Inl e" by simp
    with "2.IH" [OF s Inr] 2(2) show ?thesis by simp
  qed
qed (auto simp: append_split_region_Inl_iff)


section \<open>The bytes of the regions\<close>

text \<open>What one region holds of a file, and the reference chunking of a standalone byte string:
  64 MiB pieces from its own start.\<close>

definition region_bytes :: "bytes \<Rightarrow> region \<Rightarrow> bytes" where
  "region_bytes file r = take (unat (reg_length r)) (drop (unat (reg_offset r)) file)"

function grid_chunks :: "bytes \<Rightarrow> bytes list" where
  "grid_chunks bs = (if bs = [] then [] else take 67108864 bs # grid_chunks (drop 67108864 bs))"
  by pat_completeness auto
termination
  by (relation "measure length") auto

declare grid_chunks.simps [simp del]

lemma grid_chunks_Nil [simp]: "grid_chunks [] = []"
  by (subst grid_chunks.simps) simp

lemma tiles_concat:
  "tiles a rs b \<Longrightarrow> b \<le> length file \<Longrightarrow>
   concat (map (region_bytes file) rs) = take (b - a) (drop a file)"
proof (induction rs arbitrary: a)
  case (Cons r rs)
  let ?n = "unat (reg_length r)"
  have "a + ?n \<le> b" using Cons.prems by (auto dest: tiles_le)
  then obtain d where "b = a + ?n + d" using le_Suc_ex by blast
  then have e: "b - a = ?n + d" "b - (a + ?n) = d" by simp_all
  have "take (b - a) (drop a file) =
      take ?n (drop a file) @ take (b - (a + ?n)) (drop (a + ?n) file)"
    unfolding e take_add by (simp add: add.commute [of a])
  with Cons show ?case by (simp add: region_bytes_def)
qed simp

lemma split_loop_chunks:
  "unat cursor + unat remaining \<le> length file \<Longrightarrow> unat cursor + unat remaining < 2 ^ 64 \<Longrightarrow>
   map (region_bytes file) (split_loop kind cursor remaining) =
     grid_chunks (take (unat remaining) (drop (unat cursor) file))"
proof (induction cursor remaining rule: split_loop_induct)
  case (Part cursor remaining part)
  note p = split_part [OF Part(1,2)]
  let ?bs = "take (unat remaining) (drop (unat cursor) file)"
  have add: "unat (cursor + part) = unat cursor + unat part"
    using Part(5) p(3) by (simp add: unat_add_u64)
  have ne: "?bs \<noteq> []" using Part(4) p(2,3) by auto
  have len: "length ?bs = unat remaining" using Part(4) by simp
  have "take 67108864 ?bs = take (unat part) (drop (unat cursor) file)"
    using p(1) by (simp add: min.commute)
  moreover have "drop 67108864 ?bs =
      take (unat (remaining - part)) (drop (unat (cursor + part)) file)"
  proof (cases "unat remaining \<le> 67108864")
    case True
    then show ?thesis using p(1,4) len by simp
  next
    case False
    then show ?thesis using p(1,4) add by (simp add: drop_take add.commute)
  qed
  moreover have "map (region_bytes file) (split_loop kind (cursor + part) (remaining - part)) =
      grid_chunks (take (unat (remaining - part)) (drop (unat (cursor + part)) file))"
    using Part(4,5) add p(3,4) by (intro Part(3)) simp_all
  ultimately show ?case
    using ne unfolding split_loop_step [OF Part(1,2)]
    by (subst grid_chunks.simps) (simp add: region_bytes_def)
qed simp

text \<open>The parts a list of seams cuts a tensor of length \<open>len\<close> into, as (start, length).\<close>

fun seam_parts :: "nat \<Rightarrow> nat list \<Rightarrow> nat \<Rightarrow> (nat \<times> nat) list" where
  "seam_parts cursor [] len = [(cursor, len - cursor)]"
| "seam_parts cursor (s # ss) len = (cursor, s - cursor) # seam_parts s ss len"

definition part_bytes :: "bytes \<Rightarrow> nat \<Rightarrow> nat \<times> nat \<Rightarrow> bytes" where
  "part_bytes file offset part = take (snd part) (drop (offset + fst part) file)"

lemma seam_loop_chunks:
  "seam_loop regions offset len cursor seams kind = Inr rs \<Longrightarrow>
   unat cursor \<le> unat len \<Longrightarrow> unat offset + unat len \<le> length file \<Longrightarrow> unat offset + unat len < 2 ^ 64 \<Longrightarrow>
   map (region_bytes file) rs = map (region_bytes file) regions @
     concat (map (grid_chunks \<circ> part_bytes file (unat offset))
       (seam_parts (unat cursor) (map unat seams) (unat len)))"
proof (induction regions offset len cursor seams kind rule: seam_loop.induct)
  case (1 regions offset len cursor kind)
  have o: "unat (offset + cursor) = unat offset + unat cursor" using 1 by (simp add: unat_add_u64)
  have l: "unat (len - cursor) = unat len - unat cursor"
    using 1 by (simp add: unat_sub_u64 word_le_nat_alt)
  have "map (region_bytes file) (split_loop kind (offset + cursor) (len - cursor)) =
      grid_chunks (take (unat (len - cursor)) (drop (unat (offset + cursor)) file))"
    by (rule split_loop_chunks) (use 1 o l in simp_all)
  with 1(1) show ?case by (auto simp: append_split_region_Inr_iff part_bytes_def o l)
next
  case (2 regions offset len cursor seam seams kind)
  from 2(2) have nle: "\<not> (seam \<le> cursor \<or> len \<le> seam)" by (auto split: if_splits)
  then have s: "unat cursor < unat seam" "unat seam < unat len" by (simp_all add: not_le u64_nat)
  from 2(2) nle obtain qs
    where q: "append_split_region regions (offset + cursor) (seam - cursor) kind = Inr qs"
    and r: "seam_loop qs offset len seam seams kind = Inr rs"
    by (auto simp: result_simps)
  have o: "unat (offset + cursor) = unat offset + unat cursor"
    using 2(3,5) by (simp add: unat_add_u64)
  have l: "unat (seam - cursor) = unat seam - unat cursor"
    using s by (simp add: unat_sub_u64 word_le_nat_alt)
  have "map (region_bytes file) (split_loop kind (offset + cursor) (seam - cursor)) =
      grid_chunks (take (unat (seam - cursor)) (drop (unat (offset + cursor)) file))"
    by (rule split_loop_chunks) (use 2(4,5) s o l in simp_all)
  then have "map (region_bytes file) qs = map (region_bytes file) regions @
      grid_chunks (part_bytes file (unat offset) (unat cursor, unat seam - unat cursor))"
    using q by (auto simp: append_split_region_Inr_iff part_bytes_def o l)
  with "2.IH" [OF nle q r] 2(4,5) s show ?case by simp
qed

end
