(* ===== verification/Safetensors.thy ===== *)
theory Safetensors
  imports Planner_Grid "HOL-Library.Product_Lexorder"
begin

text \<open>
  The safetensors planner (\<open>planner/safetensors.rs\<close>): the bounded header, the checks that
  make it a structural proof of the whole file, the plan it yields and the header
  inventory. The JSON parser is a parameter that turns bytes into a JSON value; the header
  visitors of the source are written out over that value.
\<close>

section \<open>The header\<close>

text \<open>JSON values as the deserialiser sees them: a number is kept when it is a \<open>u64\<close>, an object
  is the list of its members in document order, repeated keys included.\<close>

datatype json =
    Json_Null
  | Json_Bool bool
  | Json_Number "u64 option"
  | Json_String str
  | Json_Array "json list"
  | Json_Object "(str \<times> json) list"

record tensor_descriptor =
  td_dtype :: str
  td_shape :: "u64 list"
  td_data_offsets :: "u64 \<times> u64"

fun json_u64 :: "json \<Rightarrow> u64 option" where
  "json_u64 (Json_Number n) = n"
| "json_u64 _ = None"

fun json_str :: "json \<Rightarrow> str option" where
  "json_str (Json_String s) = Some s"
| "json_str _ = None"

fun json_u64s :: "json \<Rightarrow> u64 list option" where
  "json_u64s (Json_Array vs) = those (map json_u64 vs)"
| "json_u64s _ = None"

fun json_u64_pair :: "json \<Rightarrow> (u64 \<times> u64) option" where
  "json_u64_pair (Json_Array [a, b]) =
     Option.bind (json_u64 a) (\<lambda>x. map_option (Pair x) (json_u64 b))"
| "json_u64_pair _ = None"

definition descriptor_of :: "json \<Rightarrow> json \<Rightarrow> json \<Rightarrow> tensor_descriptor option" where
  "descriptor_of d s o' =
     Option.bind (json_str d) (\<lambda>dtype.
     Option.bind (json_u64s s) (\<lambda>shape.
     Option.bind (json_u64_pair o') (\<lambda>offsets.
       Some \<lparr>td_dtype = dtype, td_shape = shape, td_data_offsets = offsets\<rparr>)))"

text \<open>The derived deserialiser of \<open>TensorDescriptor\<close>: an object with exactly the three fields,
  each once, in any order, or the array of the three fields in declaration order.\<close>

fun json_descriptor :: "json \<Rightarrow> tensor_descriptor option" where
  "json_descriptor (Json_Object members) =
     (if length members \<noteq> 3 then None
      else case (map_of members ''dtype'', map_of members ''shape'', map_of members ''data_offsets'') of
        (Some d, Some s, Some o') \<Rightarrow> descriptor_of d s o'
      | _ \<Rightarrow> None)"
| "json_descriptor (Json_Array [d, s, o']) = descriptor_of d s o'"
| "json_descriptor _ = None"

fun metadata_visit :: "str list \<Rightarrow> (str \<times> json) list \<Rightarrow> bool" where
  "metadata_visit keys [] = True"
| "metadata_visit keys ((key, v) # rest) =
     (if key \<in> set keys then False
      else json_str v \<noteq> None \<and> metadata_visit (key # keys) rest)"

fun json_metadata :: "json \<Rightarrow> bool" where
  "json_metadata Json_Null = True"
| "json_metadata (Json_Object members) = metadata_visit [] members"
| "json_metadata _ = False"

text \<open>\<open>HeaderVisitor::visit_map\<close>: \<open>n\<close> counts the tensors pushed so far.\<close>

fun header_visit :: "str list \<Rightarrow> nat \<Rightarrow> (str \<times> json) list \<Rightarrow> (str \<times> tensor_descriptor) list option" where
  "header_visit names n [] = Some []"
| "header_visit names n ((name, v) # rest) =
     (if name \<in> set names then None
      else if name = ''__metadata__'' then
        (if json_metadata v then header_visit (name # names) n rest else None)
      else if name = [] then None
      else if MAX_OBJECT_COUNT \<le> n then None
      else Option.bind (json_descriptor v) (\<lambda>d.
           map_option (\<lambda>ts. (name, d) # ts) (header_visit (name # names) (Suc n) rest)))"

definition header_of :: "json \<Rightarrow> (str \<times> tensor_descriptor) list option" where
  "header_of j = (case j of Json_Object members \<Rightarrow> header_visit [] 0 members | _ \<Rightarrow> None)"

definition dtype_bits :: "str \<Rightarrow> u64 option" where
  "dtype_bits d =
     (if d = ''F4'' then Some 4
      else if d \<in> {''F6_E2M3'', ''F6_E3M2''} then Some 6
      else if d \<in> {''BOOL'', ''U8'', ''I8'', ''F8_E5M2'', ''F8_E4M3'', ''F8_E8M0'', ''F8_E5M2FNUZ'',
                   ''F8_E4M3FNUZ''} then Some 8
      else if d \<in> {''I16'', ''U16'', ''F16'', ''BF16''} then Some 16
      else if d \<in> {''I32'', ''U32'', ''F32''} then Some 32
      else if d \<in> {''I64'', ''U64'', ''F64'', ''C64''} then Some 64
      else None)"

definition tensor_byte_size :: "tensor_descriptor \<Rightarrow> u64 option" where
  "tensor_byte_size t =
     Option.bind (dtype_bits (td_dtype t)) (\<lambda>bits_per_element.
     Option.bind (checked_product (td_shape t)) (\<lambda>elements.
     Option.bind (checked_mul elements bits_per_element) (\<lambda>bits.
       if bits mod 8 \<noteq> 0 then None else Some (bits div 8))))"


section \<open>The layout\<close>

record tensor_entry =
  te_name :: str
  te_dtype :: str
  te_shape :: "u64 list"
  te_start :: u64
  te_end :: u64

record st_layout =
  st_header_end :: u64
  st_tensors :: "tensor_entry list"

definition PREFIX_SIZE :: u64 where
  "PREFIX_SIZE = 8"

definition MAX_HEADER_SIZE :: u64 where
  "MAX_HEADER_SIZE = 100000000"

fun check_tensors :: "(str \<times> tensor_descriptor) list \<Rightarrow> tensor_entry list option" where
  "check_tensors [] = Some []"
| "check_tensors ((name, t) # rest) =
     (let (start, stop) = td_data_offsets t in
      if stop < start \<or> tensor_byte_size t \<noteq> Some (stop - start) then None
      else map_option (Cons \<lparr>te_name = name, te_dtype = td_dtype t, te_shape = td_shape t,
             te_start = start, te_end = stop\<rparr>) (check_tensors rest))"

fun contiguous :: "u64 \<Rightarrow> u64 \<Rightarrow> tensor_entry list \<Rightarrow> u64 option" where
  "contiguous data_size cursor [] = Some cursor"
| "contiguous data_size cursor (t # ts) =
     (if te_start t \<noteq> cursor \<or> data_size < te_end t then None
      else contiguous data_size (te_end t) ts)"

text \<open>The entries are sorted by their offsets. The sort of the source is unstable and this one is stable; two
  entries with equal offsets are both empty, so the difference is the order of empty tensors at one offset.\<close>

definition st_read_layout :: "(bytes \<Rightarrow> json option) \<Rightarrow> byte_source \<Rightarrow> plan_error + st_layout option" where
  "st_read_layout json_parse source =
     (let file_size = src_len source in
      if file_size < PREFIX_SIZE + 2 then Inr None
      else and_then (map_err PlanError_Read (src_read source 0 8)) (\<lambda>prefix.
        let header_size = u64_of_le prefix in
        if \<not> (2 \<le> header_size \<and> header_size \<le> MAX_HEADER_SIZE) then Inr None
        else let header_end = PREFIX_SIZE + header_size in
        if file_size < header_end then Inr None
        else and_then (map_err PlanError_Read (src_read source PREFIX_SIZE (unat header_size)))
          (\<lambda>header_bytes.
            if header_bytes = [] \<or> hd header_bytes \<noteq> byte_of CHR ''{'' then Inr None
            else case Option.bind (json_parse header_bytes) header_of of
              None \<Rightarrow> Inr None
            | Some header \<Rightarrow>
                let data_size = file_size - header_end in
                (case check_tensors header of
                   None \<Rightarrow> Inr None
                 | Some entries \<Rightarrow>
                     let tensors = sort_key (\<lambda>t. (te_start t, te_end t)) entries in
                     if contiguous data_size 0 tensors \<noteq> Some data_size then Inr None
                     else Inr (Some \<lparr>st_header_end = header_end, st_tensors = tensors\<rparr>)))))"

definition st_inventory :: "st_layout \<Rightarrow> tensor_inventory" where
  "st_inventory layout =
     \<lparr>inv_format = TensorFormat_SafetensorsV1,
      inv_tensors = map (\<lambda>t. \<lparr>inv_name = te_name t, inv_dtype = te_dtype t, inv_shape = te_shape t,
        inv_offset = st_header_end layout + te_start t, inv_length = te_end t - te_start t\<rparr>)
        (st_tensors layout)\<rparr>"

definition contract_seams :: "contract option \<Rightarrow> str \<Rightarrow> u64 list \<Rightarrow> u64 \<Rightarrow> u64 list" where
  "contract_seams con name shape len =
     (case con of None \<Rightarrow> [] | Some c \<Rightarrow> seam_offsets c name shape len)"

fun st_tensor_regions :: "contract option \<Rightarrow> u64 \<Rightarrow> region list \<Rightarrow> tensor_entry list \<Rightarrow>
    plan_error + region list option" where
  "st_tensor_regions con header_end regions [] = Inr (Some regions)"
| "st_tensor_regions con header_end regions (t # ts) =
     (let len = te_end t - te_start t in
      if len = 0 then st_tensor_regions con header_end regions ts
      else case append_tensor_regions regions (header_end + te_start t) len
             (contract_seams con (te_name t) (te_shape t) len) RegionKind_Tensor of
        Inr regions' \<Rightarrow> st_tensor_regions con header_end regions' ts
      | Inl PlanError_ObjectLimit \<Rightarrow> Inr None
      | Inl e \<Rightarrow> Inl e)"

definition plan_stamp :: "(bytes \<Rightarrow> digest) \<Rightarrow> contract option \<Rightarrow> stamp" where
  "plan_stamp sha256 con = (case con of None \<Rightarrow> Stamp_None | Some c \<Rightarrow> contract_stamp sha256 c)"

definition st_try_plan :: "(bytes \<Rightarrow> digest) \<Rightarrow> (bytes \<Rightarrow> json option) \<Rightarrow> byte_source \<Rightarrow>
    contract option \<Rightarrow> plan_error + plan option" where
  "st_try_plan sha256 json_parse source con =
     and_then (st_read_layout json_parse source) (\<lambda>found. case found of
       None \<Rightarrow> Inr None
     | Some layout \<Rightarrow>
         (case append_split_region [] 0 (st_header_end layout) RegionKind_Header of
            Inl PlanError_ObjectLimit \<Rightarrow> Inr None
          | Inl e \<Rightarrow> Inl e
          | Inr regions \<Rightarrow>
              and_then (st_tensor_regions con (st_header_end layout) regions (st_tensors layout))
                (\<lambda>result. Inr (map_option (\<lambda>regions.
                   \<lparr>plan_planner = PlannerId_SafetensorsV1, plan_contract = plan_stamp sha256 con,
                    plan_file_size = src_len source, plan_regions = regions\<rparr>) result))))"


section \<open>Every plan covers the file\<close>

definition contract_fits :: "contract option \<Rightarrow> bool" where
  "contract_fits con = (case con of None \<Rightarrow> True | Some c \<Rightarrow> con_shares_fit c)"

lemma contract_seams_fit:
  "contract_fits con \<Longrightarrow> seams_fit 0 (contract_seams con name shape len) len"
  by (auto simp: contract_fits_def contract_seams_def seam_offsets_fit split: option.splits)

lemma append_tensor_regions_fits:
  assumes "contract_fits con"
    and "append_tensor_regions regions offset len (contract_seams con name shape len) kind = Inl e"
  shows "e = PlanError_ObjectLimit"
  using seam_loop_no_coverage_error [OF contract_seams_fit [OF assms(1)]] assms(2)
  by (simp add: append_tensor_regions_def)

lemma append_tensor_regions_tiles:
  assumes "append_tensor_regions regions offset len seams kind = Inr rs"
    and "tiles a regions (unat offset)" "on_grid regions" "unat offset + unat len < 2 ^ 64"
  shows "tiles a rs (unat offset + unat len)" "on_grid rs" "length rs \<le> MAX_OBJECT_COUNT"
  using seam_loop_tiles [of regions offset len 0 seams kind rs a] assms
  by (simp_all add: append_tensor_regions_def)

lemma check_tensors_ordered:
  "check_tensors header = Some es \<Longrightarrow> t \<in> set es \<Longrightarrow> te_start t \<le> te_end t"
proof (induction header arbitrary: es rule: check_tensors.induct)
  case (2 name d rest)
  obtain start stop where off: "td_data_offsets d = (start, stop)" by (cases "td_data_offsets d")
  from 2 off show ?case by (auto simp: not_less split: if_splits)
qed simp

lemma st_read_layout_Some:
  assumes "st_read_layout json_parse source = Inr (Some layout)"
  shows "10 \<le> unat (st_header_end layout)" "unat (st_header_end layout) \<le> 100000008"
    "st_header_end layout \<le> src_len source"
    "contiguous (src_len source - st_header_end layout) 0 (st_tensors layout) =
       Some (src_len source - st_header_end layout)"
    "t \<in> set (st_tensors layout) \<Longrightarrow> te_start t \<le> te_end t"
proof -
  from assms obtain header_size entries header where
    hs: "2 \<le> header_size" "header_size \<le> MAX_HEADER_SIZE"
    and he: "st_header_end layout = PREFIX_SIZE + header_size"
    and le: "\<not> src_len source < PREFIX_SIZE + header_size"
    and ck: "check_tensors header = Some entries"
    and ts: "st_tensors layout = sort_key (\<lambda>t. (te_start t, te_end t)) entries"
    and co: "contiguous (src_len source - st_header_end layout) 0 (st_tensors layout) =
       Some (src_len source - st_header_end layout)"
    by (auto simp: st_read_layout_def Let_def and_then_Inr_iff split: if_splits option.splits)
  have "unat (PREFIX_SIZE + header_size) = 8 + unat header_size"
    using hs(2) by (simp add: PREFIX_SIZE_def MAX_HEADER_SIZE_def unat_add_u64 u64_nat)
  then show "10 \<le> unat (st_header_end layout)" "unat (st_header_end layout) \<le> 100000008"
    using hs he by (simp_all add: MAX_HEADER_SIZE_def u64_nat)
  show "st_header_end layout \<le> src_len source" using le he by (simp add: not_less)
  show "contiguous (src_len source - st_header_end layout) 0 (st_tensors layout) =
       Some (src_len source - st_header_end layout)" by (rule co)
  show "te_start t \<le> te_end t" if "t \<in> set (st_tensors layout)" for t
    using check_tensors_ordered [OF ck] that ts by simp
qed

lemma st_tensor_regions_tiles:
  assumes "contiguous d cursor ts = Some d" "\<And>t. t \<in> set ts \<Longrightarrow> te_start t \<le> te_end t"
    and "tiles 0 regions (unat he + unat cursor)" "on_grid regions" "length regions \<le> MAX_OBJECT_COUNT"
    and "unat he + unat d < 2 ^ 64" "cursor \<le> d" "contract_fits con"
  shows "st_tensor_regions con he regions ts \<noteq> Inl e \<and>
    (st_tensor_regions con he regions ts = Inr (Some rs) \<longrightarrow>
       tiles 0 rs (unat he + unat d) \<and> on_grid rs \<and> length rs \<le> MAX_OBJECT_COUNT)"
  using assms
proof (induction ts arbitrary: cursor regions)
  case (Cons t ts)
  from Cons.prems(1) have start: "te_start t = cursor" and stop: "te_end t \<le> d"
    and rest: "contiguous d (te_end t) ts = Some d" by (auto simp: not_less split: if_splits)
  have ord: "te_start t \<le> te_end t" using Cons.prems(2) by simp
  define len where "len = te_end t - te_start t"
  have len: "unat len = unat (te_end t) - unat cursor"
    using ord start by (simp add: len_def unat_sub_u64)
  have step: "unat he + unat cursor + unat len = unat he + unat (te_end t)"
    using len ord start by (simp add: u64_nat)
  have he: "unat (he + te_start t) = unat he + unat cursor"
    using Cons.prems(6,7) start by (simp add: unat_add_u64 u64_nat)
  show ?case
  proof (cases "len = 0")
    case True
    then have "te_end t = cursor" using ord start by (simp add: len_def)
    with Cons.IH [OF rest] Cons.prems True show ?thesis by (simp add: len_def)
  next
    case False
    show ?thesis
    proof (cases "append_tensor_regions regions (he + te_start t) len
        (contract_seams con (te_name t) (te_shape t) len) RegionKind_Tensor")
      case (Inl x)
      from append_tensor_regions_fits [OF Cons.prems(8) this] Inl False
      show ?thesis by (simp add: len_def)
    next
      case (Inr qs)
      have "unat he + unat cursor + unat len < 2 ^ 64"
        using step stop Cons.prems(6) by (simp add: u64_nat)
      then have "tiles 0 qs (unat he + unat (te_end t))" "on_grid qs" "length qs \<le> MAX_OBJECT_COUNT"
        using append_tensor_regions_tiles [OF Inr, of 0, unfolded he] Cons.prems(3,4) step
        by simp_all
      with Cons.IH [OF rest _ _ _ _ Cons.prems(6) stop Cons.prems(8)] Cons.prems(2) Inr False
      show ?thesis by (simp add: len_def)
    qed
  qed
qed auto

lemma st_read_layout_Inl:
  "st_read_layout json_parse source = Inl e \<Longrightarrow> \<exists>io. e = PlanError_Read io"
  by (auto simp: st_read_layout_def Let_def and_then_def map_err_def
      split: if_splits option.splits sum.splits)

lemma st_try_plan_SomeE:
  assumes st: "st_try_plan sha256 json_parse source con = Inr (Some p)"
  obtains layout regions rs where "st_read_layout json_parse source = Inr (Some layout)"
    "append_split_region [] 0 (st_header_end layout) RegionKind_Header = Inr regions"
    "st_tensor_regions con (st_header_end layout) regions (st_tensors layout) = Inr (Some rs)"
    "p = \<lparr>plan_planner = PlannerId_SafetensorsV1, plan_contract = plan_stamp sha256 con,
      plan_file_size = src_len source, plan_regions = rs\<rparr>"
proof -
  from st obtain layout where lay: "st_read_layout json_parse source = Inr (Some layout)"
    by (auto simp: st_try_plan_def result_simps split: option.splits)
  from st lay obtain regions where
    hd: "append_split_region [] 0 (st_header_end layout) RegionKind_Header = Inr regions"
    by (auto simp: st_try_plan_def split: sum.splits plan_error.splits)
  from st lay hd obtain rs where
    "st_tensor_regions con (st_header_end layout) regions (st_tensors layout) = Inr (Some rs)"
    "p = \<lparr>plan_planner = PlannerId_SafetensorsV1, plan_contract = plan_stamp sha256 con,
      plan_file_size = src_len source, plan_regions = rs\<rparr>"
    by (auto simp: st_try_plan_def result_simps)
  with that lay hd show thesis by blast
qed

lemma st_try_plan_sound:
  assumes "contract_fits con"
  shows "st_try_plan sha256 json_parse source con = Inr (Some p) \<Longrightarrow> plan_validate p = Inr ()"
    and "st_try_plan sha256 json_parse source con = Inl e \<Longrightarrow> st_read_layout json_parse source = Inl e"
proof -
  let ?d = "\<lambda>layout. src_len source - st_header_end layout"
  have regions: "st_tensor_regions con (st_header_end layout) regions (st_tensors layout) \<noteq> Inl x \<and>
      (st_tensor_regions con (st_header_end layout) regions (st_tensors layout) = Inr (Some rs) \<longrightarrow>
        tiles 0 rs (unat (src_len source)) \<and> on_grid rs \<and> length rs \<le> MAX_OBJECT_COUNT)"
    if lay: "st_read_layout json_parse source = Inr (Some layout)"
      and hd: "append_split_region [] 0 (st_header_end layout) RegionKind_Header = Inr regions"
    for layout regions x rs
  proof -
    note l = st_read_layout_Some [OF lay]
    have total: "unat (st_header_end layout) + unat (?d layout) = unat (src_len source)"
      using l(3) by (simp add: unat_sub_u64 u64_nat)
    have "tiles 0 regions (unat (st_header_end layout) + unat (0 :: u64))" "on_grid regions"
      "length regions \<le> MAX_OBJECT_COUNT"
      using append_split_region_tiles [OF hd, of 0] unat_u64_lt [of "st_header_end layout"]
      by (simp_all add: on_grid_def)
    from st_tensor_regions_tiles [OF l(4,5) this _ _ assms, where e = x and rs = rs]
    show ?thesis using unat_u64_lt [of "src_len source"] unfolding total by simp
  qed
  show "plan_validate p = Inr ()" if st: "st_try_plan sha256 json_parse source con = Inr (Some p)"
    using st by (rule st_try_plan_SomeE) (use regions in \<open>simp add: plan_validate_iff\<close>)
  show "st_read_layout json_parse source = Inl e" if st: "st_try_plan sha256 json_parse source con = Inl e"
  proof (cases "st_read_layout json_parse source")
    case (Inl x)
    with st show ?thesis by (simp add: st_try_plan_def)
  next
    case (Inr found)
    show ?thesis
    proof (cases found)
      case (Some layout)
      have "append_split_region [] 0 (st_header_end layout) RegionKind_Header = Inl x \<Longrightarrow>
          x = PlanError_ObjectLimit" for x
        by (simp add: append_split_region_Inl_iff)
      with st Inr Some regions [of layout] show ?thesis
        by (auto simp: st_try_plan_def and_then_def split: sum.splits plan_error.splits)
    qed (use st Inr in \<open>simp add: st_try_plan_def\<close>)
  qed
qed

end
