(* ===== verification/Gguf.thy ===== *)
theory Gguf
  imports Safetensors
begin

text \<open>
  The GGUF planner (\<open>planner/gguf.rs\<close>): the bounded reader over a byte source, the metadata
  walk with its budgets and nesting bound, the tensor directory, the layout it proves of the
  file, the plan and the header inventory. Allocation is taken to succeed, so
  \<open>ResourceExhausted\<close> is kept in the types and never produced here.
\<close>

section \<open>The bounded reader\<close>

datatype parse_failure =
    ParseFailure_Invalid
  | ParseFailure_Read io_error
  | ParseFailure_ResourceExhausted

type_synonym 'a parse_result = "parse_failure + 'a"

definition DEFAULT_ALIGNMENT :: u64 where
  "DEFAULT_ALIGNMENT = 32"

definition MAX_METADATA_COUNT :: u64 where
  "MAX_METADATA_COUNT = 1000000"

definition MAX_TENSOR_COUNT :: u64 where
  "MAX_TENSOR_COUNT = 1000000"

definition MAX_SYMBOL_BYTES :: u64 where
  "MAX_SYMBOL_BYTES = 64 * 1024 * 1024"

definition MAX_METADATA_VALUE_BYTES :: u64 where
  "MAX_METADATA_VALUE_BYTES = 64 * 1024 * 1024"

definition MAX_METADATA_INSPECTION_BYTES :: u64 where
  "MAX_METADATA_INSPECTION_BYTES = 64 * 1024 * 1024"

definition MAX_ARRAY_ELEMENTS :: u64 where
  "MAX_ARRAY_ELEMENTS = 16000000"

definition MAX_ARRAY_DEPTH :: nat where
  "MAX_ARRAY_DEPTH = 16"

definition MAX_METADATA_KEY_LEN :: u64 where
  "MAX_METADATA_KEY_LEN = 65535"

definition MAX_TENSOR_NAME_LEN :: u64 where
  "MAX_TENSOR_NAME_LEN = 63"

text \<open>The \<open>GGUF_TYPE_*\<close> tags of metadata values.\<close>

definition GGUF_TYPE_UINT32 :: u32 where
  "GGUF_TYPE_UINT32 = 4"

definition GGUF_TYPE_BOOL :: u32 where
  "GGUF_TYPE_BOOL = 7"

definition GGUF_TYPE_STRING :: u32 where
  "GGUF_TYPE_STRING = 8"

definition GGUF_TYPE_ARRAY :: u32 where
  "GGUF_TYPE_ARRAY = 9"

definition GGUF_TYPE_FLOAT64 :: u32 where
  "GGUF_TYPE_FLOAT64 = 12"

text \<open>The scalar types of a fixed size: \<open>UINT8\<close>, \<open>INT8\<close> (0, 1), \<open>UINT16\<close>, \<open>INT16\<close> (2, 3),
  \<open>UINT32\<close>, \<open>INT32\<close>, \<open>FLOAT32\<close> (4, 5, 6), \<open>UINT64\<close>, \<open>INT64\<close>, \<open>FLOAT64\<close> (10, 11, 12). Both
  matches of the source list the same groups.\<close>

definition gguf_fixed_size :: "u32 \<Rightarrow> u64 option" where
  "gguf_fixed_size t =
     (if t = 0 \<or> t = 1 then Some 1
      else if t = 2 \<or> t = 3 then Some 2
      else if t = 4 \<or> t = 5 \<or> t = 6 then Some 4
      else if t = 10 \<or> t = 11 \<or> t = 12 then Some 8
      else None)"

record gguf_reader =
  gr_source :: byte_source
  gr_position :: u64
  gr_length :: u64
  gr_limit :: "u64 option"

definition gr_new :: "byte_source \<Rightarrow> gguf_reader" where
  "gr_new source = \<lparr>gr_source = source, gr_position = 0, gr_length = src_len source, gr_limit = None\<rparr>"

definition gr_remaining :: "gguf_reader \<Rightarrow> u64" where
  "gr_remaining r = gr_length r - gr_position r"

definition gr_ensure :: "u64 \<Rightarrow> gguf_reader \<Rightarrow> unit parse_result" where
  "gr_ensure len r =
     and_then (ok_or (checked_add (gr_position r) len) ParseFailure_Invalid) (\<lambda>stop.
       if gr_length r < stop \<or> (case gr_limit r of None \<Rightarrow> False | Some limit \<Rightarrow> limit < stop)
       then Inl ParseFailure_Invalid else Inr ())"

definition gr_fetch :: "u64 \<Rightarrow> gguf_reader \<Rightarrow> (bytes \<times> gguf_reader) parse_result" where
  "gr_fetch len r =
     and_then (map_err ParseFailure_Read (src_read (gr_source r) (gr_position r) (unat len))) (\<lambda>bs.
       Inr (bs, r\<lparr>gr_position := gr_position r + len\<rparr>))"

definition gr_read :: "u64 \<Rightarrow> gguf_reader \<Rightarrow> (bytes \<times> gguf_reader) parse_result" where
  "gr_read n r = and_then (gr_ensure n r) (\<lambda>_. gr_fetch n r)"

definition gr_read_u8 :: "gguf_reader \<Rightarrow> (u8 \<times> gguf_reader) parse_result" where
  "gr_read_u8 r = and_then (gr_read 1 r) (\<lambda>(bs, r). Inr (hd bs, r))"

definition gr_read_u32 :: "gguf_reader \<Rightarrow> (u32 \<times> gguf_reader) parse_result" where
  "gr_read_u32 r = and_then (gr_read 4 r) (\<lambda>(bs, r). Inr (u32_of_le bs, r))"

definition gr_read_u64 :: "gguf_reader \<Rightarrow> (u64 \<times> gguf_reader) parse_result" where
  "gr_read_u64 r = and_then (gr_read 8 r) (\<lambda>(bs, r). Inr (u64_of_le bs, r))"

definition gr_skip :: "u64 \<Rightarrow> gguf_reader \<Rightarrow> gguf_reader parse_result" where
  "gr_skip len r =
     and_then (gr_ensure len r) (\<lambda>_. Inr (r\<lparr>gr_position := gr_position r + len\<rparr>))"

definition gr_limit_next :: "u64 \<Rightarrow> gguf_reader \<Rightarrow> gguf_reader parse_result" where
  "gr_limit_next len r =
     and_then (ok_or (checked_add (gr_position r) len) ParseFailure_Invalid) (\<lambda>limit.
       Inr (r\<lparr>gr_limit := Some limit\<rparr>))"

definition gr_clear_limit :: "gguf_reader \<Rightarrow> gguf_reader" where
  "gr_clear_limit r = r\<lparr>gr_limit := None\<rparr>"

definition gr_read_bounded_bytes :: "u64 \<Rightarrow> gguf_reader \<Rightarrow> (bytes \<times> gguf_reader) parse_result" where
  "gr_read_bounded_bytes max_length r =
     and_then (gr_read_u64 r) (\<lambda>(len, r).
       if max_length < len then Inl ParseFailure_Invalid
       else and_then (gr_ensure len r) (\<lambda>_. gr_fetch len r))"


section \<open>Budgets and chunked validation\<close>

record metadata_budget =
  mb_array_elements :: u64
  mb_value_bytes :: u64

definition mb_charge :: "u64 \<Rightarrow> metadata_budget \<Rightarrow> metadata_budget parse_result" where
  "mb_charge n b =
     and_then (ok_or (checked_add (mb_array_elements b) n) ParseFailure_Invalid) (\<lambda>total.
       if MAX_ARRAY_ELEMENTS < total then Inl ParseFailure_Invalid
       else Inr (b\<lparr>mb_array_elements := total\<rparr>))"

definition mb_charge_bytes :: "u64 \<Rightarrow> metadata_budget \<Rightarrow> metadata_budget parse_result" where
  "mb_charge_bytes n b =
     and_then (ok_or (checked_add (mb_value_bytes b) n) ParseFailure_Invalid) (\<lambda>total.
       if MAX_METADATA_VALUE_BYTES < total then Inl ParseFailure_Invalid
       else Inr (b\<lparr>mb_value_bytes := total\<rparr>))"

lemma chunk_decreases: "0 < (remaining :: u64) \<Longrightarrow> unat (remaining - min remaining 8192) < unat remaining"
  by (cases "remaining \<le> 8192") (auto simp: unat_sub_u64 u64_nat min_def)

text \<open>The loop of \<open>skip_utf8_string\<close>: \<open>pending\<close> is the incomplete sequence carried to the front
  of the buffer.\<close>

function gr_utf8_loop :: "u64 \<Rightarrow> bytes \<Rightarrow> gguf_reader \<Rightarrow> (bytes \<times> gguf_reader) parse_result" where
  "gr_utf8_loop remaining pending r =
     (if 0 < remaining then
        let chunk = min remaining 8192 in
        and_then (gr_fetch chunk r) (\<lambda>(bs, r).
          case utf8_scan (pending @ bs) of
            (_, _, Utf8_Done) \<Rightarrow> gr_utf8_loop (remaining - chunk) [] r
          | (_, suffix, Utf8_Cut) \<Rightarrow>
              if 3 < length suffix then Inl ParseFailure_Invalid
              else gr_utf8_loop (remaining - chunk) suffix r
          | (_, _, Utf8_Error) \<Rightarrow> Inl ParseFailure_Invalid)
      else Inr (pending, r))"
  by pat_completeness auto
termination
  by (relation "measure (\<lambda>(remaining, pending, r). unat remaining)") (simp_all add: chunk_decreases)

declare gr_utf8_loop.simps [simp del]

definition gr_skip_utf8_string ::
    "gguf_reader \<Rightarrow> metadata_budget \<Rightarrow> (gguf_reader \<times> metadata_budget) parse_result" where
  "gr_skip_utf8_string r b =
     and_then (gr_read_u64 r) (\<lambda>(len, r).
     and_then (mb_charge_bytes len b) (\<lambda>b.
     and_then (gr_ensure len r) (\<lambda>_.
     and_then (gr_utf8_loop len [] r) (\<lambda>(pending, r).
       if pending \<noteq> [] then Inl ParseFailure_Invalid else Inr (r, b)))))"

function gr_bool_loop :: "u64 \<Rightarrow> gguf_reader \<Rightarrow> gguf_reader parse_result" where
  "gr_bool_loop remaining r =
     (if 0 < remaining then
        let chunk = min remaining 8192 in
        and_then (gr_fetch chunk r) (\<lambda>(bs, r).
          if list_ex (\<lambda>v. 1 < v) bs then Inl ParseFailure_Invalid
          else gr_bool_loop (remaining - chunk) r)
      else Inr r)"
  by pat_completeness auto
termination
  by (relation "measure (\<lambda>(remaining, r). unat remaining)") (simp_all add: chunk_decreases)

declare gr_bool_loop.simps [simp del]

definition gr_check_bool_bytes :: "u64 \<Rightarrow> gguf_reader \<Rightarrow> gguf_reader parse_result" where
  "gr_check_bool_bytes n r = and_then (gr_ensure n r) (\<lambda>_. gr_bool_loop n r)"


section \<open>Metadata values\<close>

text \<open>\<open>parse_metadata_value\<close>, \<open>parse_metadata_array\<close> and the element loop of the latter, in
  mutual recursion; the nesting bound makes it terminate.\<close>

function
  parse_metadata_value :: "u32 \<Rightarrow> nat \<Rightarrow> gguf_reader \<times> metadata_budget \<Rightarrow>
    (gguf_reader \<times> metadata_budget) parse_result"
and parse_metadata_array :: "nat \<Rightarrow> gguf_reader \<times> metadata_budget \<Rightarrow>
    (gguf_reader \<times> metadata_budget) parse_result"
and parse_metadata_items :: "nat \<Rightarrow> u32 \<Rightarrow> nat \<Rightarrow> gguf_reader \<times> metadata_budget \<Rightarrow>
    (gguf_reader \<times> metadata_budget) parse_result" where
  "parse_metadata_value value_type depth (r, b) =
     (case gguf_fixed_size value_type of
        Some width \<Rightarrow>
          and_then (mb_charge_bytes width b) (\<lambda>b. and_then (gr_skip width r) (\<lambda>r. Inr (r, b)))
      | None \<Rightarrow>
          if value_type = GGUF_TYPE_BOOL then
            and_then (mb_charge_bytes 1 b) (\<lambda>b. and_then (gr_read_u8 r) (\<lambda>(v, r).
              if 1 < v then Inl ParseFailure_Invalid else Inr (r, b)))
          else if value_type = GGUF_TYPE_STRING then gr_skip_utf8_string r b
          else if value_type = GGUF_TYPE_ARRAY then parse_metadata_array depth (r, b)
          else Inl ParseFailure_Invalid)"
| "parse_metadata_array depth (r, b) =
     (if MAX_ARRAY_DEPTH \<le> depth then Inl ParseFailure_Invalid
      else and_then (gr_read_u32 r) (\<lambda>(element_type, r).
        if GGUF_TYPE_FLOAT64 < element_type then Inl ParseFailure_Invalid
        else and_then (gr_read_u64 r) (\<lambda>(n, r).
        and_then (mb_charge n b) (\<lambda>b.
        case gguf_fixed_size element_type of
          Some width \<Rightarrow>
            and_then (ok_or (checked_mul n width) ParseFailure_Invalid) (\<lambda>len.
            and_then (mb_charge_bytes len b) (\<lambda>b.
            and_then (gr_skip len r) (\<lambda>r. Inr (r, b))))
        | None \<Rightarrow>
            if element_type = GGUF_TYPE_BOOL then
              and_then (mb_charge_bytes n b) (\<lambda>b.
              and_then (gr_check_bool_bytes n r) (\<lambda>r. Inr (r, b)))
            else parse_metadata_items (unat n) element_type (depth + 1) (r, b)))))"
| "parse_metadata_items 0 element_type depth s = Inr s"
| "parse_metadata_items (Suc n) element_type depth s =
     and_then (parse_metadata_value element_type depth s) (\<lambda>s. parse_metadata_items n element_type depth s)"
  by pat_completeness auto
termination
  by (relation "inv_image (less_than <*lex*> less_than <*lex*> less_than)
       (\<lambda>x. case x of
          Inl (t, d, s) \<Rightarrow> (17 - d, 1, 0)
        | Inr (Inl (d, s)) \<Rightarrow> (17 - d, 0, 0)
        | Inr (Inr (n, t, d, s)) \<Rightarrow> (17 - d, 2, n :: nat))")
    (auto simp: MAX_ARRAY_DEPTH_def)


section \<open>Names, tables and extents\<close>

definition is_ascii_alphanumeric :: "char \<Rightarrow> bool" where
  "is_ascii_alphanumeric c = (is_ascii_lowercase c \<or> is_ascii_uppercase c \<or> is_ascii_digit c)"

fun no_double_underscore :: "str \<Rightarrow> bool" where
  "no_double_underscore (a # b # s) =
     (\<not> (a = CHR ''_'' \<and> b = CHR ''_'') \<and> no_double_underscore (b # s))"
| "no_double_underscore _ = True"

definition is_lower_snake_case :: "str \<Rightarrow> bool" where
  "is_lower_snake_case segment =
     (segment \<noteq> [] \<and> is_ascii_lowercase (hd segment) \<and> is_ascii_alphanumeric (last segment) \<and>
      no_double_underscore segment \<and>
      list_all (\<lambda>c. is_ascii_lowercase c \<or> is_ascii_digit c \<or> c = CHR ''_'') segment)"

definition validate_key :: "bytes \<Rightarrow> unit parse_result" where
  "validate_key key =
     (if key = [] \<or> list_ex (\<lambda>segment. \<not> is_lower_snake_case segment)
           (split_on CHR ''.'' (map char_at key))
      then Inl ParseFailure_Invalid else Inr ())"

definition validate_name :: "bytes \<Rightarrow> unit parse_result" where
  "validate_name name =
     (if 0 \<in> set name \<or> from_utf8 name = None then Inl ParseFailure_Invalid else Inr ())"

definition charge_symbol_bytes :: "u64 \<Rightarrow> nat \<Rightarrow> u64 parse_result" where
  "charge_symbol_bytes used n =
     and_then (ok_or (checked_add used (of_nat n)) ParseFailure_Invalid) (\<lambda>total.
       if MAX_SYMBOL_BYTES < total then Inl ParseFailure_Invalid else Inr total)"

definition validate_counts :: "u64 \<Rightarrow> u64 \<Rightarrow> u64 \<Rightarrow> unit parse_result" where
  "validate_counts metadata_count tensor_count remaining =
     (if MAX_METADATA_COUNT < metadata_count \<or> MAX_TENSOR_COUNT < tensor_count
      then Inl ParseFailure_Invalid
      else and_then (ok_or (Option.bind (checked_mul metadata_count 13) (\<lambda>len.
          Option.bind (checked_mul tensor_count 24) (\<lambda>more. checked_add len more)))
          ParseFailure_Invalid) (\<lambda>minimum.
        if remaining < minimum then Inl ParseFailure_Invalid else Inr ()))"

text \<open>The tables of tensor types: id, canonical name, elements and bytes of one encoded block.\<close>

definition ggml_type_names :: "(u32 \<times> str) list" where
  "ggml_type_names =
     [(0, ''F32''), (1, ''F16''), (2, ''Q4_0''), (3, ''Q4_1''), (6, ''Q5_0''), (7, ''Q5_1''),
      (8, ''Q8_0''), (9, ''Q8_1''), (10, ''Q2_K''), (11, ''Q3_K''), (12, ''Q4_K''),
      (13, ''Q5_K''), (14, ''Q6_K''), (15, ''Q8_K''), (16, ''IQ2_XXS''), (17, ''IQ2_XS''),
      (18, ''IQ3_XXS''), (19, ''IQ1_S''), (20, ''IQ4_NL''), (21, ''IQ3_S''), (22, ''IQ2_S''),
      (23, ''IQ4_XS''), (24, ''I8''), (25, ''I16''), (26, ''I32''), (27, ''I64''),
      (28, ''F64''), (29, ''IQ1_M''), (30, ''BF16''), (34, ''TQ1_0''), (35, ''TQ2_0''),
      (39, ''MXFP4''), (40, ''NVFP4''), (41, ''Q1_0''), (42, ''Q2_0'')]"

definition ggml_type_name :: "u32 \<Rightarrow> str option" where
  "ggml_type_name t = map_of ggml_type_names t"

definition ggml_layouts :: "(u32 \<times> u64 \<times> u64) list" where
  "ggml_layouts =
     [(0, 1, 4), (1, 1, 2), (2, 32, 18), (3, 32, 20), (6, 32, 22), (7, 32, 24), (8, 32, 34),
      (9, 32, 40), (10, 256, 84), (11, 256, 110), (12, 256, 144), (13, 256, 176),
      (14, 256, 210), (15, 256, 292), (16, 256, 66), (17, 256, 74), (18, 256, 98),
      (19, 256, 50), (20, 32, 18), (21, 256, 110), (22, 256, 82), (23, 256, 136), (24, 1, 1),
      (25, 1, 2), (26, 1, 4), (27, 1, 8), (28, 1, 8), (29, 256, 56), (30, 1, 2), (34, 256, 54),
      (35, 256, 66), (39, 32, 17), (40, 64, 36), (41, 128, 18), (42, 64, 18)]"

definition ggml_layout :: "u32 \<Rightarrow> (u64 \<times> u64) parse_result" where
  "ggml_layout t = ok_or (map_of ggml_layouts t) ParseFailure_Invalid"

definition I64_MAX :: u64 where
  "I64_MAX = 9223372036854775807"

definition tensor_length :: "u64 list \<Rightarrow> u64 \<Rightarrow> u64 \<Rightarrow> u64 parse_result" where
  "tensor_length dimensions block_elements block_bytes =
     (if \<not> is_multiple_of (dimensions ! 0) block_elements then Inl ParseFailure_Invalid
      else and_then (ok_or (checked_product dimensions) ParseFailure_Invalid) (\<lambda>element_count.
        if I64_MAX \<le> element_count then Inl ParseFailure_Invalid
        else ok_or (Option.bind (checked_mul (dimensions ! 0 div block_elements) block_bytes) (\<lambda>row.
          Option.bind (checked_mul row (dimensions ! 1)) (\<lambda>plane.
          Option.bind (checked_mul plane (dimensions ! 2)) (\<lambda>cube.
            checked_mul cube (dimensions ! 3))))) ParseFailure_Invalid))"

definition align_up :: "u64 \<Rightarrow> u64 \<Rightarrow> u64 option" where
  "align_up v alignment =
     map_option (\<lambda>sum. sum AND NOT (alignment - 1)) (checked_add v (alignment - 1))"

definition is_power_of_two :: "u64 \<Rightarrow> bool" where
  "is_power_of_two a = (length (filter (bit a) [0..<64]) = 1)"


section \<open>The layout\<close>

record tensor_info =
  ti_name :: str
  ti_dimensions :: "u64 list"
  ti_dimension_count :: u32
  ti_ggml_type :: u32
  ti_offset :: u64
  ti_length :: u64

record gguf_layout =
  gl_alignment :: u64
  gl_directory_start :: u64
  gl_directory_end :: u64
  gl_data_start :: u64
  gl_tensors :: "tensor_info list"

definition GENERAL_ALIGNMENT :: bytes where
  "GENERAL_ALIGNMENT = as_bytes ''general.alignment''"

record metadata_state =
  ms_keys :: "bytes list"
  ms_symbol_bytes :: u64
  ms_budget :: metadata_budget
  ms_alignment :: u64

text \<open>The body of the metadata loop, and the loop.\<close>

definition parse_metadata_entry ::
    "gguf_reader \<times> metadata_state \<Rightarrow> (gguf_reader \<times> metadata_state) parse_result" where
  "parse_metadata_entry = (\<lambda>(r, s).
     and_then (gr_read_bounded_bytes MAX_METADATA_KEY_LEN r) (\<lambda>(key, r).
     and_then (validate_key key) (\<lambda>_.
     and_then (charge_symbol_bytes (ms_symbol_bytes s) (length key)) (\<lambda>symbol_bytes.
       if key \<in> set (ms_keys s) then Inl ParseFailure_Invalid
       else let s = s\<lparr>ms_keys := key # ms_keys s, ms_symbol_bytes := symbol_bytes\<rparr> in
       and_then (gr_read_u32 r) (\<lambda>(value_type, r).
         if key = GENERAL_ALIGNMENT then
           if value_type \<noteq> GGUF_TYPE_UINT32 then Inl ParseFailure_Invalid
           else and_then (mb_charge_bytes 4 (ms_budget s)) (\<lambda>b.
             and_then (gr_read_u32 r) (\<lambda>(alignment, r).
               Inr (r, s\<lparr>ms_budget := b, ms_alignment := ucast alignment\<rparr>)))
         else and_then (parse_metadata_value value_type 0 (r, ms_budget s)) (\<lambda>(r, b).
           Inr (r, s\<lparr>ms_budget := b\<rparr>)))))))"

fun metadata_loop :: "nat \<Rightarrow> gguf_reader \<times> metadata_state \<Rightarrow>
    (gguf_reader \<times> metadata_state) parse_result" where
  "metadata_loop 0 s = Inr s"
| "metadata_loop (Suc n) s = and_then (parse_metadata_entry s) (metadata_loop n)"

fun read_dimensions :: "nat \<Rightarrow> gguf_reader \<Rightarrow> (u64 list \<times> gguf_reader) parse_result" where
  "read_dimensions 0 r = Inr ([], r)"
| "read_dimensions (Suc n) r =
     and_then (gr_read_u64 r) (\<lambda>(dimension, r).
       if I64_MAX < dimension then Inl ParseFailure_Invalid
       else and_then (read_dimensions n r) (\<lambda>(ds, r). Inr (dimension # ds, r)))"

record directory_state =
  ds_names :: "bytes list"
  ds_symbol_bytes :: u64
  ds_expected_offset :: u64

text \<open>The body of the directory loop returns the tensor it pushes; the loop returns them all.\<close>

definition parse_tensor :: "u64 \<Rightarrow> gguf_reader \<Rightarrow> directory_state \<Rightarrow>
    (tensor_info \<times> gguf_reader \<times> directory_state) parse_result" where
  "parse_tensor alignment r s =
     and_then (gr_read_bounded_bytes MAX_TENSOR_NAME_LEN r) (\<lambda>(name_bytes, r).
     and_then (validate_name name_bytes) (\<lambda>_.
     and_then (charge_symbol_bytes (ds_symbol_bytes s) (length name_bytes)) (\<lambda>symbol_bytes.
       if name_bytes \<in> set (ds_names s) then Inl ParseFailure_Invalid
       else
       and_then (ok_or (from_utf8 name_bytes) ParseFailure_Invalid) (\<lambda>name.
       and_then (gr_read_u32 r) (\<lambda>(dimension_count, r).
         if 4 < dimension_count then Inl ParseFailure_Invalid
         else
         and_then (read_dimensions (unat dimension_count) r) (\<lambda>(ds, r).
         let dimensions = ds @ replicate (4 - length ds) 1 in
         and_then (gr_read_u32 r) (\<lambda>(ggml_type, r).
         and_then (ggml_layout ggml_type) (\<lambda>(block_elements, block_bytes).
         and_then (tensor_length dimensions block_elements block_bytes) (\<lambda>len.
         and_then (gr_read_u64 r) (\<lambda>(offset, r).
           if offset \<noteq> ds_expected_offset s then Inl ParseFailure_Invalid
           else
           and_then (ok_or (align_up len alignment) ParseFailure_Invalid) (\<lambda>padded.
           and_then (ok_or (checked_add (ds_expected_offset s) padded) ParseFailure_Invalid)
             (\<lambda>expected_offset.
             Inr (\<lparr>ti_name = name, ti_dimensions = dimensions, ti_dimension_count = dimension_count,
                   ti_ggml_type = ggml_type, ti_offset = offset, ti_length = len\<rparr>, r,
                  \<lparr>ds_names = name_bytes # ds_names s, ds_symbol_bytes = symbol_bytes,
                   ds_expected_offset = expected_offset\<rparr>)))))))))))))"

fun directory_loop :: "u64 \<Rightarrow> nat \<Rightarrow> gguf_reader \<Rightarrow> directory_state \<Rightarrow>
    (tensor_info list \<times> gguf_reader \<times> directory_state) parse_result" where
  "directory_loop alignment 0 r s = Inr ([], r, s)"
| "directory_loop alignment (Suc n) r s =
     and_then (parse_tensor alignment r s) (\<lambda>(tensor, r, s).
     and_then (directory_loop alignment n r s) (\<lambda>(tensors, r, s).
       Inr (tensor # tensors, r, s)))"

definition GGUF_MAGIC :: bytes where
  "GGUF_MAGIC = as_bytes ''GGUF''"

definition gguf_directory :: "gguf_reader \<Rightarrow> u64 \<Rightarrow> u64 \<Rightarrow> u64 \<Rightarrow> gguf_layout parse_result" where
  "gguf_directory r alignment symbol_bytes tensor_count =
     (if alignment < 8 \<or> \<not> is_power_of_two alignment then Inl ParseFailure_Invalid
      else
      and_then (directory_loop alignment (unat tensor_count) r
          \<lparr>ds_names = [], ds_symbol_bytes = symbol_bytes, ds_expected_offset = 0\<rparr>)
        (\<lambda>(tensors, r', s).
      let directory_end = gr_position r' in
      and_then (if tensors = [] then Inr directory_end
          else ok_or (align_up directory_end alignment) ParseFailure_Invalid) (\<lambda>data_start.
      and_then (ok_or (checked_add data_start (ds_expected_offset s)) ParseFailure_Invalid)
        (\<lambda>expected_file_size.
        if expected_file_size \<noteq> gr_length r' then Inl ParseFailure_Invalid
        else Inr \<lparr>gl_alignment = alignment, gl_directory_start = gr_position r,
          gl_directory_end = directory_end, gl_data_start = data_start, gl_tensors = tensors\<rparr>))))"

definition gguf_parse :: "byte_source \<Rightarrow> gguf_layout parse_result" where
  "gguf_parse source =
     and_then (gr_read 4 (gr_new source)) (\<lambda>(magic, r).
     if magic \<noteq> GGUF_MAGIC then Inl ParseFailure_Invalid
     else
     and_then (gr_read_u32 r) (\<lambda>(version, r).
     if \<not> (version = 2 \<or> version = 3) then Inl ParseFailure_Invalid
     else
     and_then (gr_read_u64 r) (\<lambda>(tensor_count, r).
     and_then (gr_read_u64 r) (\<lambda>(metadata_count, r).
     and_then (validate_counts metadata_count tensor_count (gr_remaining r)) (\<lambda>_.
     and_then (gr_limit_next MAX_METADATA_INSPECTION_BYTES r) (\<lambda>r.
     and_then (metadata_loop (unat metadata_count)
         (r, \<lparr>ms_keys = [], ms_symbol_bytes = 0,
              ms_budget = \<lparr>mb_array_elements = 0, mb_value_bytes = 0\<rparr>,
              ms_alignment = DEFAULT_ALIGNMENT\<rparr>)) (\<lambda>(r, s).
       gguf_directory (gr_clear_limit r) (ms_alignment s) (ms_symbol_bytes s) tensor_count)))))))"


section \<open>The plan and the inventory\<close>

definition domain_error :: "plan_error \<Rightarrow> parse_failure" where
  "domain_error e =
     (case e of PlanError_ResourceExhausted \<Rightarrow> ParseFailure_ResourceExhausted
      | _ \<Rightarrow> ParseFailure_Invalid)"

definition append_domain :: "region list \<Rightarrow> u64 \<Rightarrow> u64 \<Rightarrow> region_kind \<Rightarrow> region list parse_result" where
  "append_domain regions offset len kind =
     map_err domain_error (append_split_region regions offset len kind)"

definition append_seamed_domain ::
    "region list \<Rightarrow> u64 \<Rightarrow> u64 \<Rightarrow> u64 list \<Rightarrow> region list parse_result" where
  "append_seamed_domain regions offset len seams =
     map_err domain_error (append_tensor_regions regions offset len seams RegionKind_Tensor)"

definition logical_shape :: "tensor_info \<Rightarrow> u64 list" where
  "logical_shape t = rev (take (unat (ti_dimension_count t)) (ti_dimensions t))"

fun gguf_tensor_regions :: "contract option \<Rightarrow> u64 \<Rightarrow> u64 \<Rightarrow> region list \<Rightarrow> tensor_info list \<Rightarrow>
    region list parse_result" where
  "gguf_tensor_regions con alignment data_start regions [] = Inr regions"
| "gguf_tensor_regions con alignment data_start regions (t # ts) =
     and_then (ok_or (checked_add data_start (ti_offset t)) ParseFailure_Invalid) (\<lambda>tensor_start.
     and_then (append_seamed_domain regions tensor_start (ti_length t)
         (contract_seams con (ti_name t) (logical_shape t) (ti_length t))) (\<lambda>regions.
     and_then (ok_or (align_up (ti_length t) alignment) ParseFailure_Invalid) (\<lambda>padded_length.
     and_then (append_domain regions (tensor_start + ti_length t) (padded_length - ti_length t)
         RegionKind_Header) (\<lambda>regions.
       gguf_tensor_regions con alignment data_start regions ts))))"

definition plan_layout :: "(bytes \<Rightarrow> digest) \<Rightarrow> u64 \<Rightarrow> gguf_layout \<Rightarrow> contract option \<Rightarrow> plan parse_result" where
  "plan_layout sha256 file_size layout con =
     and_then (append_domain [] 0 (gl_directory_start layout) RegionKind_Header) (\<lambda>regions.
     and_then (append_domain regions (gl_directory_start layout)
         (gl_directory_end layout - gl_directory_start layout) RegionKind_Header) (\<lambda>regions.
     and_then (append_domain regions (gl_directory_end layout)
         (gl_data_start layout - gl_directory_end layout) RegionKind_Header) (\<lambda>regions.
     and_then (gguf_tensor_regions con (gl_alignment layout) (gl_data_start layout) regions
         (gl_tensors layout)) (\<lambda>regions.
       Inr \<lparr>plan_planner = PlannerId_GgufV1, plan_contract = plan_stamp sha256 con,
            plan_file_size = file_size, plan_regions = regions\<rparr>))))"

definition lift_parse :: "'a parse_result \<Rightarrow> plan_error + 'a option" where
  "lift_parse result =
     (case result of
        Inr a \<Rightarrow> Inr (Some a)
      | Inl ParseFailure_Invalid \<Rightarrow> Inr None
      | Inl (ParseFailure_Read io) \<Rightarrow> Inl (PlanError_Read io)
      | Inl ParseFailure_ResourceExhausted \<Rightarrow> Inl PlanError_ResourceExhausted)"

definition gguf_try_plan :: "(bytes \<Rightarrow> digest) \<Rightarrow> byte_source \<Rightarrow> contract option \<Rightarrow>
    plan_error + plan option" where
  "gguf_try_plan sha256 source con =
     lift_parse (and_then (gguf_parse source) (\<lambda>layout. plan_layout sha256 (src_len source) layout con))"

definition gguf_read_layout :: "byte_source \<Rightarrow> plan_error + gguf_layout option" where
  "gguf_read_layout source = lift_parse (gguf_parse source)"

definition gguf_inventory :: "gguf_layout \<Rightarrow> tensor_inventory" where
  "gguf_inventory layout =
     \<lparr>inv_format = TensorFormat_GgufV1,
      inv_tensors = map (\<lambda>t.
        \<lparr>inv_name = ti_name t,
         inv_dtype = (case ggml_type_name (ti_ggml_type t) of Some n \<Rightarrow> n | None \<Rightarrow> ''UNKNOWN''),
         inv_shape = logical_shape t,
         inv_offset = gl_data_start layout + ti_offset t, inv_length = ti_length t\<rparr>)
        (gl_tensors layout)\<rparr>"


section \<open>Alignment\<close>

lemma is_power_of_two_exp: "k < 64 \<Longrightarrow> is_power_of_two (2 ^ k)"
proof -
  assume k: "k < 64"
  have "filter (bit (2 ^ k :: u64)) [0..<64] = filter (\<lambda>n. n = k) [0..<64]"
    by (intro filter_cong) (auto simp: bit_simps)
  also have "length ... = 1"
    using k by (simp add: distinct_length_filter Collect_conv_if flip: Collect_conj_eq)
  finally show ?thesis by (simp add: is_power_of_two_def)
qed

lemma unat_exp_u64: "k < 64 \<Longrightarrow> unat (2 ^ k :: u64) = 2 ^ k"
proof -
  assume "k < 64"
  then have "(2 :: nat) ^ k < 2 ^ 64" by (rule power_strict_increasing) simp
  then show ?thesis using unat_of_nat_u64 [of "2 ^ k"] by simp
qed

lemma is_power_of_twoD:
  assumes "is_power_of_two a"
  obtains k where "k < 64" "a = 2 ^ k"
proof -
  obtain k where f: "filter (bit a) [0..<64] = [k]"
    using assms by (auto simp: is_power_of_two_def length_Suc_conv)
  then have "set (filter (bit a) [0..<64]) = {k}" by simp
  then have k: "k < 64" "\<And>n. n < 64 \<Longrightarrow> bit a n \<longleftrightarrow> n = k" by auto
  have "a = 2 ^ k"
    by (rule bit_word_eqI) (use k in \<open>simp add: bit_simps\<close>)
  with k that show thesis by blast
qed

lemma unat_and_not_mask: "k < 64 \<Longrightarrow> unat (s AND NOT (mask k) :: u64) = unat s div 2 ^ k * 2 ^ k"
proof -
  assume k: "k < 64"
  have "s AND NOT (mask k) = push_bit k (drop_bit k s)"
    by (rule bit_word_eqI) (auto simp: bit_simps)
  moreover have "unat s div 2 ^ k * 2 ^ k < 18446744073709551616"
    using unat_u64_lt [of s] div_times_less_eq_dividend [of "unat s" "2 ^ k"] by linarith
  ultimately show ?thesis
    using k by (simp add: push_bit_eq_mult drop_bit_eq_div unat_mul_u64 unat_div_u64 unat_exp_u64)
qed

lemma align_up_nat:
  assumes "is_power_of_two a"
  shows "align_up v a = Some w \<Longrightarrow> unat w = (unat v + unat a - 1) div unat a * unat a"
    and "align_up v a = None \<longleftrightarrow> 2 ^ 64 \<le> unat v + unat a - 1"
proof -
  obtain k where k: "k < 64" "a = 2 ^ k" using assms(1) by (rule is_power_of_twoD)
  have ua: "unat a = 2 ^ k" using k by (simp add: unat_exp_u64)
  have "1 \<le> a" using k ua by (simp add: word_le_nat_alt)
  then have a1: "unat (a - 1) = unat a - 1" by (simp add: unat_sub_u64)
  have pos: "0 < unat a" using ua by simp
  have m: "a - 1 = mask k" using k by (simp add: mask_eq_exp_minus_1)
  show "unat w = (unat v + unat a - 1) div unat a * unat a" if "align_up v a = Some w"
  proof -
    from that obtain s where s: "checked_add v (a - 1) = Some s" and w: "w = s AND NOT (a - 1)"
      by (auto simp: align_up_def)
    have "unat s = unat v + unat a - 1" using s a1 pos by (simp add: checked_add_Some_iff)
    then show ?thesis unfolding w m unat_and_not_mask [OF k(1)] ua by simp
  qed
  show "align_up v a = None \<longleftrightarrow> 2 ^ 64 \<le> unat v + unat a - 1"
    using a1 pos by (simp add: align_up_def checked_add_None_iff)
qed

lemma align_up_bounds:
  assumes "is_power_of_two a" "align_up v a = Some w"
  shows "unat a dvd unat w" "unat v \<le> unat w" "unat w < unat v + unat a"
proof -
  have w: "unat w = (unat v + unat a - 1) div unat a * unat a" by (rule align_up_nat(1) [OF assms])
  have "0 < unat a" using assms(1) by (auto elim!: is_power_of_twoD simp: unat_exp_u64)
  show "unat a dvd unat w" unfolding w by simp
  have "unat w + (unat v + unat a - 1) mod unat a = unat v + unat a - 1"
    unfolding w by (simp add: div_mult_mod_eq)
  moreover have "(unat v + unat a - 1) mod unat a < unat a" using \<open>0 < unat a\<close> by simp
  ultimately show "unat v \<le> unat w" "unat w < unat v + unat a" using \<open>0 < unat a\<close> by linarith+
qed


section \<open>The directory proves the file\<close>

text \<open>What every reader operation keeps: the source and the length, and the position never goes
  back.\<close>

definition gr_advances :: "gguf_reader \<Rightarrow> gguf_reader \<Rightarrow> bool" where
  "gr_advances r r' \<longleftrightarrow> gr_source r' = gr_source r \<and> gr_length r' = gr_length r \<and>
     gr_limit r' = gr_limit r \<and> unat (gr_position r) \<le> unat (gr_position r')"

lemma gr_advances_refl [simp]: "gr_advances r r"
  by (simp add: gr_advances_def)

lemma gr_advances_trans [trans]: "gr_advances r s \<Longrightarrow> gr_advances s t \<Longrightarrow> gr_advances r t"
  by (auto simp: gr_advances_def)

lemma gr_ensure_iff:
  "gr_ensure n r = Inr u \<longleftrightarrow> unat (gr_position r) + unat n \<le> unat (gr_length r) \<and>
     (\<forall>limit. gr_limit r = Some limit \<longrightarrow> unat (gr_position r) + unat n \<le> unat limit)"
proof (cases "checked_add (gr_position r) n")
  case None
  then have "2 ^ 64 \<le> unat (gr_position r) + unat n" by (simp add: checked_add_None_iff)
  with None show ?thesis using unat_u64_lt [of "gr_length r"] by (auto simp: gr_ensure_def)
next
  case (Some stop)
  then have "unat stop = unat (gr_position r) + unat n" by (simp add: checked_add_Some_iff)
  then show ?thesis using Some by (auto simp: gr_ensure_def u64_nat not_less split: option.splits)
qed

lemma gr_fetch_advances:
  assumes "gr_ensure n r = Inr u" "gr_fetch n r = Inr (bs, r')"
  shows "gr_advances r r'" "unat (gr_position r') = unat (gr_position r) + unat n"
  using assms unat_u64_lt [of "gr_length r"]
  by (auto simp: gr_ensure_iff gr_fetch_def result_simps gr_advances_def unat_add_u64)

lemma gr_read_advances: "gr_read n r = Inr (bs, r') \<Longrightarrow> gr_advances r r'"
  by (auto simp: gr_read_def result_simps dest: gr_fetch_advances)

lemma gr_read_int_advances:
  "gr_read_u8 r = Inr (b, r') \<Longrightarrow> gr_advances r r'"
  "gr_read_u32 r = Inr (w, r') \<Longrightarrow> gr_advances r r'"
  "gr_read_u64 r = Inr (v, r') \<Longrightarrow> gr_advances r r'"
  by (auto simp: gr_read_u8_def gr_read_u32_def gr_read_u64_def result_simps
      dest!: gr_read_advances split: prod.splits)

lemma gr_read_bounded_bytes_advances:
  "gr_read_bounded_bytes m r = Inr (bs, r') \<Longrightarrow> gr_advances r r'"
  by (auto simp: gr_read_bounded_bytes_def result_simps split: prod.splits if_splits
      dest!: gr_read_int_advances(3) gr_fetch_advances(1) elim: gr_advances_trans)

lemma read_dimensions_advances:
  "read_dimensions n r = Inr (ds, r') \<Longrightarrow> gr_advances r r' \<and> length ds = n"
proof (induction n arbitrary: r ds)
  case (Suc n)
  then obtain d r1 es where "gr_read_u64 r = Inr (d, r1)" "read_dimensions n r1 = Inr (es, r')"
    "ds = d # es"
    by (auto simp: result_simps split: prod.splits if_splits)
  with Suc.IH show ?case using gr_read_int_advances(3) gr_advances_trans by fastforce
qed simp

text \<open>The tensors of a directory follow each other, each at the padded end of the one before.\<close>

fun gguf_chain :: "u64 \<Rightarrow> u64 \<Rightarrow> tensor_info list \<Rightarrow> u64 \<Rightarrow> bool" where
  "gguf_chain alignment start [] stop = (start = stop)"
| "gguf_chain alignment start (t # ts) stop =
     (ti_offset t = start \<and> (\<exists>padded next. align_up (ti_length t) alignment = Some padded \<and>
        checked_add start padded = Some next \<and> gguf_chain alignment next ts stop))"

lemma parse_tensor_step:
  assumes "parse_tensor alignment r s = Inr (t, r', s')"
  shows "gr_advances r r'" "ti_offset t = ds_expected_offset s"
    "\<exists>padded. align_up (ti_length t) alignment = Some padded \<and>
       checked_add (ds_expected_offset s) padded = Some (ds_expected_offset s')"
    "length (ti_dimensions t) = 4" "unat (ti_dimension_count t) \<le> 4"
proof -
  from assms obtain nb r1 dc r2 ds r3 gt r4 be bb len off pad ex where
    st: "gr_read_bounded_bytes MAX_TENSOR_NAME_LEN r = Inr (nb, r1)" "gr_read_u32 r1 = Inr (dc, r2)"
      "read_dimensions (unat dc) r2 = Inr (ds, r3)" "gr_read_u32 r3 = Inr (gt, r4)"
      "gr_read_u64 r4 = Inr (off, r')"
    and dc: "\<not> 4 < dc" 
    and pad: "align_up len alignment = Some pad" "checked_add (ds_expected_offset s) pad = Some ex"
    and t: "ti_offset t = off" "ti_length t = len" "ti_dimensions t = ds @ replicate (4 - length ds) 1"
      "ti_dimension_count t = dc"
    and off: "off = ds_expected_offset s" and ex: "ds_expected_offset s' = ex"
    unfolding parse_tensor_def Let_def result_simps
    by (elim exE conjE and_then_InrE prod.exhaust)
      (auto simp: result_simps Let_def split: prod.splits if_splits)
  show "gr_advances r r'"
    using st by (meson gr_read_bounded_bytes_advances gr_read_int_advances read_dimensions_advances
      gr_advances_trans)
  have "unat dc \<le> 4" using dc by (simp add: not_less word_le_nat_alt)
  with st(3) t show "length (ti_dimensions t) = 4" "unat (ti_dimension_count t) \<le> 4"
    using read_dimensions_advances by fastforce+
  show "ti_offset t = ds_expected_offset s" using t off by simp
  show "\<exists>padded. align_up (ti_length t) alignment = Some padded \<and>
       checked_add (ds_expected_offset s) padded = Some (ds_expected_offset s')"
    using pad t ex by simp
qed

lemma directory_loop_chain:
  "directory_loop alignment n r s = Inr (ts, r', s') \<Longrightarrow>
   gr_advances r r' \<and> length ts = n \<and>
   gguf_chain alignment (ds_expected_offset s) ts (ds_expected_offset s')"
proof (induction n arbitrary: r s ts)
  case (Suc n)
  then obtain t r1 s1 us where p: "parse_tensor alignment r s = Inr (t, r1, s1)"
    and l: "directory_loop alignment n r1 s1 = Inr (us, r', s')" and ts: "ts = t # us"
    by (auto simp: result_simps split: prod.splits)
  note st = parse_tensor_step [OF p]
  from Suc.IH [OF l] st ts show ?case by (auto elim: gr_advances_trans)
qed simp

text \<open>The layout a successful parse returns: the three header domains in order, the tensor chain
  starting at 0, and the data section ending exactly at the end of the file.\<close>

definition gguf_layout_ok :: "u64 \<Rightarrow> gguf_layout \<Rightarrow> bool" where
  "gguf_layout_ok file_size l \<longleftrightarrow>
     is_power_of_two (gl_alignment l) \<and> 8 \<le> gl_alignment l \<and>
     gl_directory_start l \<le> gl_directory_end l \<and> gl_directory_end l \<le> gl_data_start l \<and>
     (gl_tensors l \<noteq> [] \<longrightarrow> unat (gl_alignment l) dvd unat (gl_data_start l)) \<and>
     (\<exists>data_size. gguf_chain (gl_alignment l) 0 (gl_tensors l) data_size \<and>
        unat (gl_data_start l) + unat data_size = unat file_size)"

lemma gguf_directory_ok:
  assumes "gguf_directory r alignment symbol_bytes tensor_count = Inr l"
  shows "gguf_layout_ok (gr_length r) l"
proof -
  from assms obtain ts r' s start fs where
    al: "\<not> alignment < 8" "is_power_of_two alignment"
    and loop: "directory_loop alignment (unat tensor_count) r
      \<lparr>ds_names = [], ds_symbol_bytes = symbol_bytes, ds_expected_offset = 0\<rparr> = Inr (ts, r', s)"
    and start: "(if ts = [] then Inr (gr_position r')
          else ok_or (align_up (gr_position r') alignment) ParseFailure_Invalid) = Inr start"
    and fs: "checked_add start (ds_expected_offset s) = Some fs" "fs = gr_length r'"
    and l: "l = \<lparr>gl_alignment = alignment, gl_directory_start = gr_position r,
          gl_directory_end = gr_position r', gl_data_start = start, gl_tensors = ts\<rparr>"
    by (auto simp: gguf_directory_def Let_def result_simps split: prod.splits if_splits)
  note c = directory_loop_chain [OF loop, simplified]
  have "unat (gr_position r') \<le> unat start \<and> (ts \<noteq> [] \<longrightarrow> unat alignment dvd unat start)"
    using start align_up_bounds [OF al(2)] by (cases "ts = []") (auto simp: result_simps)
  moreover have "unat start + unat (ds_expected_offset s) = unat (gr_length r)"
    using fs c by (simp add: checked_add_Some_iff gr_advances_def)
  ultimately show ?thesis
    using c al by (auto simp: gguf_layout_ok_def l gr_advances_def u64_nat not_less)
qed

text \<open>The chunked loops consume exactly the bytes they were asked for.\<close>

lemma chunk_part:
  assumes "0 < (remaining :: u64)" "chunk = min remaining 8192"
  shows "unat chunk = min (unat remaining) 8192" "0 < unat chunk" "unat chunk \<le> unat remaining"
    "unat (remaining - chunk) = unat remaining - unat chunk"
proof -
  show p: "unat chunk = min (unat remaining) 8192"
    using assms(2) by (simp add: min_def word_le_nat_alt)
  then show "0 < unat chunk" "unat chunk \<le> unat remaining" using assms(1) by (auto simp: u64_nat)
  then show "unat (remaining - chunk) = unat remaining - unat chunk"
    by (simp add: unat_sub_u64 word_le_nat_alt)
qed

lemma gr_fetch_chunk:
  assumes "gr_fetch chunk r = Inr (bs, r')" "unat (gr_position r) + unat chunk < 2 ^ 64"
  shows "gr_advances r r'" "unat (gr_position r') = unat (gr_position r) + unat chunk"
  using assms by (auto simp: gr_fetch_def result_simps gr_advances_def unat_add_u64)

lemma gr_utf8_loop_0 [simp]: "gr_utf8_loop 0 pending r = Inr (pending, r)"
  by (subst gr_utf8_loop.simps) simp

lemma gr_utf8_loop_step:
  assumes "0 < remaining" "chunk = min remaining 8192"
  shows "gr_utf8_loop remaining pending r = and_then (gr_fetch chunk r) (\<lambda>(bs, r).
    case utf8_scan (pending @ bs) of (_, suffix, fin) \<Rightarrow>
      if fin = Utf8_Error \<or> fin = Utf8_Cut \<and> 3 < length suffix then Inl ParseFailure_Invalid
      else gr_utf8_loop (remaining - chunk) (if fin = Utf8_Done then [] else suffix) r)"
  unfolding assms(2) using assms(1) by (subst gr_utf8_loop.simps)
    (auto simp: Let_def and_then_def split: sum.splits utf8_end.splits prod.splits)

lemma gr_bool_loop_0 [simp]: "gr_bool_loop 0 r = Inr r"
  by (subst gr_bool_loop.simps) simp

lemma gr_bool_loop_step:
  assumes "0 < remaining" "chunk = min remaining 8192"
  shows "gr_bool_loop remaining r = and_then (gr_fetch chunk r) (\<lambda>(bs, r).
    if list_ex (\<lambda>v. 1 < v) bs then Inl ParseFailure_Invalid else gr_bool_loop (remaining - chunk) r)"
  unfolding assms(2) using assms(1) by (subst gr_bool_loop.simps) (simp add: Let_def)

lemma chunk_induct [case_names Empty Chunk]:
  assumes "P 0" and "\<And>remaining chunk. \<lbrakk>0 < remaining; chunk = min remaining 8192;
      P (remaining - chunk)\<rbrakk> \<Longrightarrow> P remaining"
  shows "P (remaining :: u64)"
proof (induction "unat remaining" arbitrary: remaining rule: less_induct)
  case less
  then show ?case
    using assms chunk_decreases by (cases "0 < remaining") (blast, simp add: word_gt_0)
qed

lemma gr_utf8_loop_advances:
  "gr_utf8_loop remaining pending r = Inr (pending', r') \<Longrightarrow>
   unat (gr_position r) + unat remaining < 2 ^ 64 \<Longrightarrow> gr_advances r r'"
proof (induction remaining arbitrary: pending r rule: chunk_induct)
  case (Chunk remaining chunk)
  note c = chunk_part [OF Chunk(1,2)]
  from Chunk(4) obtain bs r1 where f: "gr_fetch chunk r = Inr (bs, r1)"
    unfolding gr_utf8_loop_step [OF Chunk(1,2)] by (auto simp: result_simps)
  with Chunk(4) obtain pending1
    where l: "gr_utf8_loop (remaining - chunk) pending1 r1 = Inr (pending', r')"
    unfolding gr_utf8_loop_step [OF Chunk(1,2)]
    by (cases "utf8_scan (pending @ bs)") (auto simp: result_simps)
  have "unat (gr_position r) + unat chunk < 2 ^ 64" using c Chunk(5) by simp
  note fc = gr_fetch_chunk [OF f this]
  from Chunk(3) [OF l] fc c Chunk(5) show ?case by (auto elim: gr_advances_trans)
qed simp

lemma gr_bool_loop_advances:
  "gr_bool_loop remaining r = Inr r' \<Longrightarrow>
   unat (gr_position r) + unat remaining < 2 ^ 64 \<Longrightarrow> gr_advances r r'"
proof (induction remaining arbitrary: r rule: chunk_induct)
  case (Chunk remaining chunk)
  note c = chunk_part [OF Chunk(1,2)]
  from Chunk(4) obtain bs r1 where f: "gr_fetch chunk r = Inr (bs, r1)"
    and l: "gr_bool_loop (remaining - chunk) r1 = Inr r'"
    unfolding gr_bool_loop_step [OF Chunk(1,2)]
    by (auto simp: result_simps split: prod.splits if_splits)
  have "unat (gr_position r) + unat chunk < 2 ^ 64" using c Chunk(5) by simp
  note fc = gr_fetch_chunk [OF f this]
  from Chunk(3) [OF l] fc c Chunk(5) show ?case by (auto elim: gr_advances_trans)
qed simp

lemma gr_ensure_bound: "gr_ensure n r = Inr u \<Longrightarrow> unat (gr_position r) + unat n < 2 ^ 64"
  using unat_u64_lt [of "gr_length r"] by (simp add: gr_ensure_iff)

lemma gr_skip_advances: "gr_skip n r = Inr r' \<Longrightarrow> gr_advances r r'"
  using gr_ensure_bound [of n r]
  by (auto simp: gr_skip_def result_simps gr_advances_def unat_add_u64)

lemma gr_skip_utf8_string_advances: "gr_skip_utf8_string r b = Inr (r', b') \<Longrightarrow> gr_advances r r'"
  by (auto simp: gr_skip_utf8_string_def result_simps split: prod.splits if_splits
      dest!: gr_read_int_advances(3) gr_utf8_loop_advances gr_ensure_bound elim: gr_advances_trans)

lemma gr_check_bool_bytes_advances: "gr_check_bool_bytes n r = Inr r' \<Longrightarrow> gr_advances r r'"
  by (auto simp: gr_check_bool_bytes_def result_simps dest!: gr_bool_loop_advances gr_ensure_bound)

lemmas gr_advance_rules = gr_read_int_advances gr_read_bounded_bytes_advances gr_skip_advances
  gr_skip_utf8_string_advances gr_check_bool_bytes_advances

declare parse_metadata_value.simps [simp del] parse_metadata_array.simps [simp del]

lemma parse_metadata_advances:
  "parse_metadata_value t d s = Inr (r', b') \<Longrightarrow> gr_advances (fst s) r'"
  "parse_metadata_array d s = Inr (r', b') \<Longrightarrow> gr_advances (fst s) r'"
  "parse_metadata_items n t d s = Inr (r', b') \<Longrightarrow> gr_advances (fst s) r'"
proof (induction t d s and d s and n t d s arbitrary: r' b' and r' b' and r' b'
    rule: parse_metadata_value_parse_metadata_array_parse_metadata_items.induct)
  case (1 t d r b)
  then show ?case
    by (auto simp: parse_metadata_value.simps result_simps
        split: option.splits prod.splits if_splits dest!: gr_advance_rules)
next
  case (2 d r b)
  from 2(2) obtain t r1 n r2 b1 where rd: "gr_read_u32 r = Inr (t, r1)" "gr_read_u64 r1 = Inr (n, r2)"
    and ch: "\<not> MAX_ARRAY_DEPTH \<le> d" "\<not> GGUF_TYPE_FLOAT64 < t" "mb_charge n b = Inr b1"
    by (auto simp: parse_metadata_array.simps result_simps split: if_splits)
  have "gr_advances r2 r'"
  proof (cases "gguf_fixed_size t")
    case None
    show ?thesis
    proof (cases "t = GGUF_TYPE_BOOL")
      case False
      with 2(2) rd ch None
      have l: "parse_metadata_items (unat n) t (d + 1) (r2, b1) = Inr (r', b')"
        by (simp add: parse_metadata_array.simps)
      from 2(1) [OF ch(1) rd(1) refl ch(2) rd(2) refl ch(3) None False l] show ?thesis by simp
    qed (use 2(2) rd ch None in \<open>auto simp: parse_metadata_array.simps result_simps dest: gr_check_bool_bytes_advances\<close>)
  qed (use 2(2) rd ch in \<open>auto simp: parse_metadata_array.simps result_simps dest: gr_skip_advances\<close>)
  with rd show ?case by (auto dest!: gr_read_int_advances elim: gr_advances_trans)
next
  case (4 n t d s)
  from 4(3) obtain r1 b1 where v: "parse_metadata_value t d s = Inr (r1, b1)"
    and l: "parse_metadata_items n t d (r1, b1) = Inr (r', b')" by (auto simp: result_simps)
  from 4(1) [OF v] 4(2) [OF v l] show ?case by (auto elim: gr_advances_trans)
qed simp

lemma parse_metadata_entry_advances:
  "parse_metadata_entry s = Inr s' \<Longrightarrow> gr_advances (fst s) (fst s')"
  by (cases s) (auto simp: parse_metadata_entry_def result_simps Let_def
      split: prod.splits if_splits
      dest!: gr_advance_rules parse_metadata_advances(1) elim!: gr_advances_trans)

lemma metadata_loop_advances: "metadata_loop n s = Inr s' \<Longrightarrow> gr_advances (fst s) (fst s')"
  by (induction n arbitrary: s)
    (auto simp: result_simps dest!: parse_metadata_entry_advances elim: gr_advances_trans)

lemma gguf_parse_layout_ok:
  assumes "gguf_parse source = Inr l"
  shows "gguf_layout_ok (src_len source) l"
proof -
  from assms obtain m r1 v r2 tc r3 mc r4 r5 r6 s where
    rd: "gr_read 4 (gr_new source) = Inr (m, r1)" "gr_read_u32 r1 = Inr (v, r2)"
      "gr_read_u64 r2 = Inr (tc, r3)" "gr_read_u64 r3 = Inr (mc, r4)"
    and lim: "gr_limit_next MAX_METADATA_INSPECTION_BYTES r4 = Inr r5"
    and loop: "metadata_loop (unat mc) (r5, \<lparr>ms_keys = [], ms_symbol_bytes = 0,
              ms_budget = \<lparr>mb_array_elements = 0, mb_value_bytes = 0\<rparr>,
              ms_alignment = DEFAULT_ALIGNMENT\<rparr>) = Inr (r6, s)"
    and dir: "gguf_directory (gr_clear_limit r6) (ms_alignment s) (ms_symbol_bytes s) tc = Inr l"
    by (auto simp: gguf_parse_def result_simps split: prod.splits if_splits)
  have "gr_length r4 = src_len source"
    using rd by (auto dest!: gr_read_advances gr_read_int_advances simp: gr_advances_def gr_new_def)
  moreover have "gr_length r5 = gr_length r4"
    using lim by (auto simp: gr_limit_next_def result_simps)
  moreover have "gr_length r6 = gr_length r5"
    using metadata_loop_advances [OF loop] by (simp add: gr_advances_def)
  ultimately show ?thesis using gguf_directory_ok [OF dir] by (simp add: gr_clear_limit_def)
qed


section \<open>Every plan covers the file\<close>

lemma append_domain_iff:
  "append_domain regions offset len kind = Inr rs \<longleftrightarrow> append_split_region regions offset len kind = Inr rs"
  "append_domain regions offset len kind = Inl x \<Longrightarrow> x = ParseFailure_Invalid"
  by (simp add: append_domain_def result_simps)
    (auto simp: append_domain_def map_err_def append_split_region_Inl_iff domain_error_def
      split: sum.splits)

lemma gguf_chain_le: "gguf_chain al off ts d \<Longrightarrow> unat off \<le> unat d"
  by (induction ts arbitrary: off) (fastforce simp: checked_add_Some_iff)+

lemma gguf_tensor_regions_tiles:
  assumes "gguf_chain al off ts d" "is_power_of_two al" "unat start + unat d < 2 ^ 64"
    and "tiles 0 regions (unat start + unat off)" "on_grid regions" "length regions \<le> MAX_OBJECT_COUNT"
    and "gguf_tensor_regions con al start regions ts = Inr rs"
  shows "tiles 0 rs (unat start + unat d) \<and> on_grid rs \<and> length rs \<le> MAX_OBJECT_COUNT"
  using assms
proof (induction ts arbitrary: off regions)
  case (Cons t ts)
  from Cons.prems(1) obtain padded nx where off: "ti_offset t = off"
    and pad: "align_up (ti_length t) al = Some padded" and nxt: "checked_add off padded = Some nx"
    and rest: "gguf_chain al nx ts d" by auto
  from Cons.prems(7) pad off obtain tstart qs ps where
    st: "checked_add start off = Some tstart"
    and q: "append_tensor_regions regions tstart (ti_length t)
      (contract_seams con (ti_name t) (logical_shape t) (ti_length t)) RegionKind_Tensor = Inr qs"
    and p: "append_split_region qs (tstart + ti_length t) (padded - ti_length t) RegionKind_Header = Inr ps"
    and r: "gguf_tensor_regions con al start ps ts = Inr rs"
    by (auto simp: result_simps append_seamed_domain_def append_domain_iff)
  have n: "unat tstart = unat start + unat off" "unat nx = unat off + unat padded"
    using st nxt by (simp_all add: checked_add_Some_iff)
  note b = align_up_bounds [OF Cons.prems(2) pad]
  have nd: "unat nx \<le> unat d" using gguf_chain_le [OF rest] .
  have l: "unat tstart + unat (ti_length t) < 2 ^ 64" using n b nd Cons.prems(3) by simp
  have s: "unat (tstart + ti_length t) = unat tstart + unat (ti_length t)"
    using l by (simp add: unat_add_u64)
  have w: "unat (padded - ti_length t) = unat padded - unat (ti_length t)"
    using b by (simp add: unat_sub_u64 word_le_nat_alt)
  have total: "unat (tstart + ti_length t) + unat (padded - ti_length t) = unat start + unat nx"
    using s w n b by simp
  have "tiles 0 qs (unat (tstart + ti_length t))" "on_grid qs"
    using append_tensor_regions_tiles [OF q, of 0] l Cons.prems(4,5) n s by simp_all
  then have "tiles 0 ps (unat start + unat nx)" "on_grid ps" "length ps \<le> MAX_OBJECT_COUNT"
    using append_split_region_tiles [OF p, of 0, unfolded total] nd Cons.prems(3) by simp_all
  then show ?case using Cons.IH [OF rest Cons.prems(2,3) _ _ _ r] by simp
qed simp

lemma plan_layout_valid:
  assumes "gguf_layout_ok file_size l" "plan_layout sha256 file_size l con = Inr p"
  shows "plan_validate p = Inr ()"
proof -
  from assms(1) obtain d where pow: "is_power_of_two (gl_alignment l)"
    and ord: "gl_directory_start l \<le> gl_directory_end l" "gl_directory_end l \<le> gl_data_start l"
    and chain: "gguf_chain (gl_alignment l) 0 (gl_tensors l) d"
    and total: "unat (gl_data_start l) + unat d = unat file_size"
    by (auto simp: gguf_layout_ok_def)
  from assms(2) obtain r1 r2 r3 rs where
    a1: "append_split_region [] 0 (gl_directory_start l) RegionKind_Header = Inr r1"
    and a2: "append_split_region r1 (gl_directory_start l)
      (gl_directory_end l - gl_directory_start l) RegionKind_Header = Inr r2"
    and a3: "append_split_region r2 (gl_directory_end l)
      (gl_data_start l - gl_directory_end l) RegionKind_Header = Inr r3"
    and ts: "gguf_tensor_regions con (gl_alignment l) (gl_data_start l) r3 (gl_tensors l) = Inr rs"
    and p: "plan_planner p = PlannerId_GgufV1" "plan_file_size p = file_size" "plan_regions p = rs"
    by (auto simp: plan_layout_def result_simps append_domain_iff)
  have w: "unat (gl_directory_start l) + unat (gl_directory_end l - gl_directory_start l) =
      unat (gl_directory_end l)"
    "unat (gl_directory_end l) + unat (gl_data_start l - gl_directory_end l) = unat (gl_data_start l)"
    using ord by (simp_all add: unat_sub_u64 u64_nat)
  note lt = unat_u64_lt [of "gl_directory_start l"] unat_u64_lt [of "gl_directory_end l"]
    unat_u64_lt [of "gl_data_start l"] unat_u64_lt [of file_size]
  have "tiles 0 r1 (unat (gl_directory_start l))" "on_grid r1"
    using append_split_region_tiles [OF a1, of 0] lt by (simp_all add: on_grid_def)
  then have "tiles 0 r2 (unat (gl_directory_end l))" "on_grid r2"
    using append_split_region_tiles [OF a2, of 0, unfolded w] lt by simp_all
  then have "tiles 0 r3 (unat (gl_data_start l))" "on_grid r3" "length r3 \<le> MAX_OBJECT_COUNT"
    using append_split_region_tiles [OF a3, of 0, unfolded w] lt by simp_all
  then have "tiles 0 rs (unat file_size)" "on_grid rs" "length rs \<le> MAX_OBJECT_COUNT"
    using gguf_tensor_regions_tiles [OF chain pow _ _ _ _ ts, unfolded total] lt by simp_all
  with p show ?thesis by (simp add: plan_validate_iff)
qed

lemma gguf_try_plan_SomeE:
  assumes "gguf_try_plan sha256 source con = Inr (Some p)"
  obtains l where "gguf_parse source = Inr l" "plan_layout sha256 (src_len source) l con = Inr p"
  using assms
  by (auto simp: gguf_try_plan_def lift_parse_def and_then_def split: sum.splits parse_failure.splits)

lemma gguf_try_plan_sound:
  "gguf_try_plan sha256 source con = Inr (Some p) \<Longrightarrow> plan_validate p = Inr ()"
  by (auto elim!: gguf_try_plan_SomeE dest!: gguf_parse_layout_ok intro: plan_layout_valid)


section \<open>The only failure of a readable source is an invalid file\<close>

definition source_readable :: "byte_source \<Rightarrow> bool" where
  "source_readable source \<longleftrightarrow>
     (\<forall>offset n. unat offset + n \<le> unat (src_len source) \<longrightarrow> is_ok (src_read source offset n))"

definition gr_ready :: "gguf_reader \<Rightarrow> bool" where
  "gr_ready r \<longleftrightarrow> source_readable (gr_source r) \<and> gr_length r = src_len (gr_source r)"

lemma gr_ready_advances: "gr_ready r \<Longrightarrow> gr_advances r r' \<Longrightarrow> gr_ready r'"
  by (simp add: gr_ready_def gr_advances_def)

lemma gr_fetch_total:
  "gr_ready r \<Longrightarrow> unat (gr_position r) + unat n \<le> unat (gr_length r) \<Longrightarrow> gr_fetch n r \<noteq> Inl x"
  by (cases "src_read (gr_source r) (gr_position r) (unat n)")
    (auto simp: gr_ready_def source_readable_def gr_fetch_def dest!: spec [of _ "gr_position r"])

lemma gr_ensure_Inl: "gr_ensure n r = Inl x \<Longrightarrow> x = ParseFailure_Invalid"
  by (auto simp: gr_ensure_def and_then_Inl_iff ok_or_Inl_iff split: if_splits)

lemma gr_read_Inl: "gr_ready r \<Longrightarrow> gr_read n r = Inl x \<Longrightarrow> x = ParseFailure_Invalid"
  by (auto simp: gr_read_def and_then_Inl_iff gr_fetch_total gr_ensure_iff dest: gr_ensure_Inl)

lemma gr_read_int_Inl:
  "gr_ready r \<Longrightarrow> gr_read_u8 r = Inl x \<Longrightarrow> x = ParseFailure_Invalid"
  "gr_ready r \<Longrightarrow> gr_read_u32 r = Inl x \<Longrightarrow> x = ParseFailure_Invalid"
  "gr_ready r \<Longrightarrow> gr_read_u64 r = Inl x \<Longrightarrow> x = ParseFailure_Invalid"
  by (auto simp: gr_read_u8_def gr_read_u32_def gr_read_u64_def and_then_Inl_iff dest: gr_read_Inl)

lemma gr_read_bounded_bytes_Inl:
  "gr_ready r \<Longrightarrow> gr_read_bounded_bytes m r = Inl x \<Longrightarrow> x = ParseFailure_Invalid"
  by (auto simp: gr_read_bounded_bytes_def and_then_Inl_iff gr_ensure_iff split: if_splits
      dest: gr_read_int_Inl gr_ensure_Inl gr_read_int_advances gr_ready_advances gr_fetch_total)

lemma mb_charge_Inl:
  "mb_charge n b = Inl x \<Longrightarrow> x = ParseFailure_Invalid"
  "mb_charge_bytes n b = Inl x \<Longrightarrow> x = ParseFailure_Invalid"
  by (auto simp: mb_charge_def mb_charge_bytes_def and_then_Inl_iff ok_or_Inl_iff split: if_splits)

lemma gr_skip_Inl: "gr_skip n r = Inl x \<Longrightarrow> x = ParseFailure_Invalid"
  by (auto simp: gr_skip_def and_then_Inl_iff dest: gr_ensure_Inl)

lemma gr_utf8_loop_Inl:
  "gr_ready r \<Longrightarrow> unat (gr_position r) + unat remaining \<le> unat (gr_length r) \<Longrightarrow>
   gr_utf8_loop remaining pending r = Inl x \<Longrightarrow> x = ParseFailure_Invalid"
proof (induction remaining arbitrary: pending r rule: chunk_induct)
  case (Chunk remaining chunk)
  note c = chunk_part [OF Chunk(1,2)]
  have b: "unat (gr_position r) + unat chunk \<le> unat (gr_length r)" using Chunk(5) c by simp
  then obtain bs r1 where f: "gr_fetch chunk r = Inr (bs, r1)"
    using gr_fetch_total [OF Chunk(4)] by (cases "gr_fetch chunk r") auto
  have "unat (gr_position r) + unat chunk < 2 ^ 64" using b unat_u64_lt [of "gr_length r"] by simp
  note fc = gr_fetch_chunk [OF f this]
  have "gr_ready r1" using gr_ready_advances [OF Chunk(4) fc(1)] .
  moreover have "unat (gr_position r1) + unat (remaining - chunk) \<le> unat (gr_length r1)"
    using fc c Chunk(5) by (simp add: gr_advances_def)
  ultimately have "gr_utf8_loop (remaining - chunk) p r1 = Inl x \<Longrightarrow> x = ParseFailure_Invalid" for p
    by (rule Chunk(3))
  with Chunk(6) f show ?case unfolding gr_utf8_loop_step [OF Chunk(1,2)]
    by (cases "utf8_scan (pending @ bs)") (auto split: if_splits)
qed simp

lemma gr_bool_loop_Inl:
  "gr_ready r \<Longrightarrow> unat (gr_position r) + unat remaining \<le> unat (gr_length r) \<Longrightarrow>
   gr_bool_loop remaining r = Inl x \<Longrightarrow> x = ParseFailure_Invalid"
proof (induction remaining arbitrary: r rule: chunk_induct)
  case (Chunk remaining chunk)
  note c = chunk_part [OF Chunk(1,2)]
  have b: "unat (gr_position r) + unat chunk \<le> unat (gr_length r)" using Chunk(5) c by simp
  then obtain bs r1 where f: "gr_fetch chunk r = Inr (bs, r1)"
    using gr_fetch_total [OF Chunk(4)] by (cases "gr_fetch chunk r") auto
  have "unat (gr_position r) + unat chunk < 2 ^ 64" using b unat_u64_lt [of "gr_length r"] by simp
  note fc = gr_fetch_chunk [OF f this]
  have "gr_ready r1" using gr_ready_advances [OF Chunk(4) fc(1)] .
  moreover have "unat (gr_position r1) + unat (remaining - chunk) \<le> unat (gr_length r1)"
    using fc c Chunk(5) by (simp add: gr_advances_def)
  ultimately have "gr_bool_loop (remaining - chunk) r1 = Inl x \<Longrightarrow> x = ParseFailure_Invalid"
    by (rule Chunk(3))
  with Chunk(6) f show ?case unfolding gr_bool_loop_step [OF Chunk(1,2)] by (auto split: if_splits)
qed simp

lemma gr_skip_utf8_string_Inl:
  "gr_ready r \<Longrightarrow> gr_skip_utf8_string r b = Inl x \<Longrightarrow> x = ParseFailure_Invalid"
  by (auto simp: gr_skip_utf8_string_def and_then_Inl_iff gr_ensure_iff split: if_splits prod.splits
      dest: gr_read_int_Inl(3) gr_ensure_Inl mb_charge_Inl gr_read_int_advances(3) gr_ready_advances
        gr_utf8_loop_Inl)

lemma gr_check_bool_bytes_Inl:
  "gr_ready r \<Longrightarrow> gr_check_bool_bytes n r = Inl x \<Longrightarrow> x = ParseFailure_Invalid"
  by (auto simp: gr_check_bool_bytes_def and_then_Inl_iff gr_ensure_iff
      dest: gr_ensure_Inl gr_bool_loop_Inl)

text \<open>A triple for the early-return style: the computation fails only as an invalid file, and what
  it returns satisfies \<open>Q\<close>. The rules follow the shape of the code.\<close>

definition invalid_or :: "'a parse_result \<Rightarrow> ('a \<Rightarrow> bool) \<Rightarrow> bool" where
  "invalid_or r Q = (case r of Inl x \<Rightarrow> x = ParseFailure_Invalid | Inr a \<Rightarrow> Q a)"

named_theorems invalid_rules "rules of the invalid_or triple"

lemma invalid_or_iff: "invalid_or r Q \<longleftrightarrow> (\<forall>x. r = Inl x \<longrightarrow> x = ParseFailure_Invalid) \<and> (\<forall>a. r = Inr a \<longrightarrow> Q a)"
  by (cases r) (auto simp: invalid_or_def)

lemma invalid_or_bind [invalid_rules]:
  "invalid_or r P \<Longrightarrow> (\<And>a. P a \<Longrightarrow> invalid_or (f a) Q) \<Longrightarrow> invalid_or (and_then r f) Q"
  by (cases r) (auto simp: invalid_or_def)

lemma invalid_or_basic [invalid_rules]:
  "invalid_or (Inl ParseFailure_Invalid) Q"
  "Q a \<Longrightarrow> invalid_or (Inr a) Q"
  "invalid_or (ok_or v ParseFailure_Invalid) (\<lambda>_. True)"
  by (auto simp: invalid_or_def ok_or_def split: option.splits)

lemma invalid_or_if [invalid_rules]:
  "(c \<Longrightarrow> invalid_or a Q) \<Longrightarrow> (\<not> c \<Longrightarrow> invalid_or b Q) \<Longrightarrow> invalid_or (if c then a else b) Q"
  by simp

lemma invalid_or_prod [invalid_rules]:
  "invalid_or (f (fst p) (snd p)) Q \<Longrightarrow> invalid_or (case p of (a, b) \<Rightarrow> f a b) Q"
  by (simp add: case_prod_beta)

lemma invalid_or_option [invalid_rules]:
  "invalid_or a Q \<Longrightarrow> (\<And>y. invalid_or (f y) Q) \<Longrightarrow> invalid_or (case v of None \<Rightarrow> a | Some y \<Rightarrow> f y) Q"
  by (cases v) simp_all

lemma invalid_or_reader [invalid_rules]:
  "gr_ready r \<Longrightarrow> invalid_or (gr_read n r) (\<lambda>p. gr_ready (snd p))"
  "gr_ready r \<Longrightarrow> invalid_or (gr_read_u8 r) (\<lambda>p. gr_ready (snd p))"
  "gr_ready r \<Longrightarrow> invalid_or (gr_read_u32 r) (\<lambda>p. gr_ready (snd p))"
  "gr_ready r \<Longrightarrow> invalid_or (gr_read_u64 r) (\<lambda>p. gr_ready (snd p))"
  "gr_ready r \<Longrightarrow> invalid_or (gr_read_bounded_bytes m r) (\<lambda>p. gr_ready (snd p))"
  "gr_ready r \<Longrightarrow> invalid_or (gr_skip n r) gr_ready"
  "gr_ready r \<Longrightarrow> invalid_or (gr_skip_utf8_string r b) (\<lambda>p. gr_ready (fst p))"
  "gr_ready r \<Longrightarrow> invalid_or (gr_check_bool_bytes n r) gr_ready"
  by (auto simp: invalid_or_iff dest: gr_read_Inl gr_read_int_Inl gr_read_bounded_bytes_Inl gr_skip_Inl
      gr_skip_utf8_string_Inl gr_check_bool_bytes_Inl gr_read_advances gr_advance_rules
      intro: gr_ready_advances)

lemma invalid_or_limit [invalid_rules]:
  "gr_ready r \<Longrightarrow> invalid_or (gr_limit_next n r) gr_ready"
  by (simp add: gr_limit_next_def gr_ready_def invalid_or_def and_then_def ok_or_def
      split: option.splits sum.splits)

lemma invalid_or_checks [invalid_rules]:
  "invalid_or (mb_charge n b) (\<lambda>_. True)"
  "invalid_or (mb_charge_bytes n b) (\<lambda>_. True)"
  "invalid_or (validate_key key) (\<lambda>_. True)"
  "invalid_or (validate_name name) (\<lambda>_. True)"
  "invalid_or (charge_symbol_bytes used k) (\<lambda>_. True)"
  "invalid_or (validate_counts mc tc rem) (\<lambda>_. True)"
  "invalid_or (ggml_layout t) (\<lambda>_. True)"
  "invalid_or (tensor_length ds be bb) (\<lambda>_. True)"
  unfolding mb_charge_def mb_charge_bytes_def validate_key_def validate_name_def
    charge_symbol_bytes_def validate_counts_def ggml_layout_def tensor_length_def
  by (auto intro!: invalid_rules)

lemma parse_metadata_items_invalid:
  assumes "\<And>s. gr_ready (fst s) \<Longrightarrow> invalid_or (parse_metadata_value t d s) (\<lambda>p. gr_ready (fst p))"
  shows "gr_ready (fst s) \<Longrightarrow> invalid_or (parse_metadata_items n t d s) (\<lambda>p. gr_ready (fst p))"
proof (induction n arbitrary: s)
  case (Suc n)
  then show ?case by (auto intro!: invalid_or_bind assms Suc.IH)
qed (simp add: invalid_or_def)

lemma parse_metadata_value_invalid [invalid_rules]:
  "gr_ready (fst s) \<Longrightarrow> invalid_or (parse_metadata_value t d s) (\<lambda>p. gr_ready (fst p))"
proof (induction "16 - d" arbitrary: d t s rule: less_induct)
  case less
  have arr: "invalid_or (parse_metadata_array d (r, b)) (\<lambda>p. gr_ready (fst p))" if "gr_ready r" for r b
  proof (cases "MAX_ARRAY_DEPTH \<le> d")
    case True
    then show ?thesis by (simp add: parse_metadata_array.simps invalid_or_def)
  next
    case False
    then have "16 - (d + 1) < 16 - d" by (simp add: MAX_ARRAY_DEPTH_def)
    note items = parse_metadata_items_invalid [OF less.hyps [OF this]]
    show ?thesis
      unfolding parse_metadata_array.simps
      by (rule items invalid_rules that | assumption | (simp; fail))+
  qed
  obtain r b where s: "s = (r, b)" by (cases s)
  then have ready: "gr_ready r" using less.prems by simp
  show ?case
    unfolding s parse_metadata_value.simps
    by (rule arr invalid_rules ready | assumption | (simp; fail))+
qed

lemma parse_metadata_entry_invalid [invalid_rules]:
  "gr_ready (fst s) \<Longrightarrow> invalid_or (parse_metadata_entry s) (\<lambda>p. gr_ready (fst p))"
  unfolding parse_metadata_entry_def Let_def by (auto intro!: invalid_rules)

lemma metadata_loop_invalid [invalid_rules]:
  "gr_ready (fst s) \<Longrightarrow> invalid_or (metadata_loop n s) (\<lambda>p. gr_ready (fst p))"
  by (induction n arbitrary: s) (auto intro!: invalid_rules)

lemma read_dimensions_invalid [invalid_rules]:
  "gr_ready r \<Longrightarrow> invalid_or (read_dimensions n r) (\<lambda>p. gr_ready (snd p))"
proof (induction n arbitrary: r)
  case (Suc n)
  then show ?case by (auto intro!: invalid_rules Suc.IH)
qed (simp add: invalid_or_def)

lemma parse_tensor_invalid [invalid_rules]:
  "gr_ready r \<Longrightarrow> invalid_or (parse_tensor al r s) (\<lambda>p. gr_ready (fst (snd p)))"
  unfolding parse_tensor_def Let_def by (auto intro!: invalid_rules)

lemma directory_loop_invalid [invalid_rules]:
  "gr_ready r \<Longrightarrow> invalid_or (directory_loop al n r s) (\<lambda>p. gr_ready (fst (snd p)))"
proof (induction n arbitrary: r s)
  case (Suc n)
  then show ?case by (auto intro!: invalid_rules Suc.IH)
qed (simp add: invalid_or_def)

lemma gguf_directory_invalid [invalid_rules]:
  "gr_ready r \<Longrightarrow> invalid_or (gguf_directory r al sb tc) (\<lambda>_. True)"
  unfolding gguf_directory_def Let_def by (auto intro!: invalid_rules)

lemma gguf_parse_invalid [invalid_rules]:
  assumes "source_readable source"
  shows "invalid_or (gguf_parse source) (\<lambda>_. True)"
proof -
  have new: "gr_ready (gr_new source)" using assms by (simp add: gr_ready_def gr_new_def)
  have clear: "gr_ready r \<Longrightarrow> gr_ready (gr_clear_limit r)" for r
    by (simp add: gr_ready_def gr_clear_limit_def)
  show ?thesis
    unfolding gguf_parse_def by (rule invalid_rules new clear | assumption | simp)+
qed

lemma append_seamed_domain_Inl:
  "append_seamed_domain regions offset len seams = Inl x \<Longrightarrow> x = ParseFailure_Invalid"
  by (auto simp: append_seamed_domain_def append_tensor_regions_def map_err_def domain_error_def
      split: sum.splits dest: seam_loop_Inl)

lemma append_domain_invalid [invalid_rules]:
  "invalid_or (append_domain regions offset len kind) (\<lambda>_. True)"
  "invalid_or (append_seamed_domain regions offset len seams) (\<lambda>_. True)"
  by (auto simp: invalid_or_iff dest: append_seamed_domain_Inl append_domain_iff(2))

lemma gguf_tensor_regions_invalid [invalid_rules]:
  "invalid_or (gguf_tensor_regions con al start regions ts) (\<lambda>_. True)"
  by (induction ts arbitrary: regions) (auto intro!: invalid_rules)

lemma gguf_try_plan_total:
  assumes "source_readable source"
  shows "\<exists>p. gguf_try_plan sha256 source con = Inr p"
proof -
  have "invalid_or (and_then (gguf_parse source)
      (\<lambda>l. plan_layout sha256 (src_len source) l con)) (\<lambda>_. True)"
    using assms unfolding plan_layout_def by (auto intro!: invalid_rules)
  then show ?thesis
    by (auto simp: gguf_try_plan_def lift_parse_def invalid_or_def split: sum.splits)
qed


section \<open>Chunked validation is validation of the whole string\<close>

lemma slice_fetch:
  assumes "gr_source r = slice_source file" "unat (gr_position r) + unat n \<le> length file"
    and "length file < 2 ^ 64"
  shows "gr_fetch n r = Inr (take (unat n) (drop (unat (gr_position r)) file),
      r\<lparr>gr_position := gr_position r + n\<rparr>)"
  using assms by (simp add: gr_fetch_def slice_source_def slice_read_def Let_def)

lemma gr_utf8_loop_slice:
  assumes "gr_source r = slice_source file" "unat (gr_position r) + unat remaining \<le> length file"
    and "length file < 2 ^ 64" "pending = [] \<or> utf8_scan pending = ([], pending, Utf8_Cut)"
  shows "gr_utf8_loop remaining pending r =
    (case utf8_scan (pending @ take (unat remaining) (drop (unat (gr_position r)) file)) of
       (_, suffix, fin) \<Rightarrow> if fin = Utf8_Error then Inl ParseFailure_Invalid
         else Inr (suffix, r\<lparr>gr_position := gr_position r + remaining\<rparr>))"
  using assms
proof (induction remaining arbitrary: pending r rule: chunk_induct)
  case Empty
  then show ?case by auto
next
  case (Chunk remaining chunk)
  note c = chunk_part [OF Chunk(1,2)]
  define r1 where "r1 = r\<lparr>gr_position := gr_position r + chunk\<rparr>"
  define data where "data = take (unat chunk) (drop (unat (gr_position r)) file)"
  have b: "unat (gr_position r) + unat chunk \<le> length file" using c Chunk(5) by simp
  have f: "gr_fetch chunk r = Inr (data, r1)"
    using slice_fetch [OF Chunk(4) b Chunk(6)] by (simp add: data_def r1_def)
  have pos: "unat (gr_position r1) = unat (gr_position r) + unat chunk"
    using b Chunk(6) by (simp add: r1_def unat_add_u64)
  define rest where "rest = take (unat (remaining - chunk)) (drop (unat (gr_position r1)) file)"
  have whole: "take (unat remaining) (drop (unat (gr_position r)) file) = data @ rest"
    using c by (simp add: data_def rest_def pos add.commute [of "unat (gr_position r)"]
        flip: take_add drop_drop)
  obtain cs suffix fin where sc: "utf8_scan (pending @ data) = (cs, suffix, fin)"
    by (cases "utf8_scan (pending @ data)")
  note e = utf8_scan_end [OF sc]
  show ?case
  proof (cases "fin = Utf8_Error")
    case True
    then show ?thesis using utf8_scan_append [OF sc, of rest]
      unfolding gr_utf8_loop_step [OF Chunk(1,2)] whole by (simp add: f sc)
  next
    case False
    have "gr_utf8_loop (remaining - chunk) suffix r1 =
      (case utf8_scan (suffix @ rest) of (_, suffix, fin) \<Rightarrow> if fin = Utf8_Error
         then Inl ParseFailure_Invalid
         else Inr (suffix, r1\<lparr>gr_position := gr_position r1 + (remaining - chunk)\<rparr>))"
      unfolding rest_def
      by (rule Chunk(3)) (use Chunk(4,5,6) c pos e False in \<open>auto simp: r1_def intro: utf8_end.exhaust [of fin]\<close>)
    then show ?thesis using utf8_scan_append [OF sc, of rest] False e
      unfolding gr_utf8_loop_step [OF Chunk(1,2)] whole
      by (auto simp: f sc r1_def split: prod.splits)
  qed
qed

lemma gr_skip_utf8_string_slice:
  assumes "gr_source r = slice_source file" "length file < 2 ^ 64"
    and "gr_length r = of_nat (length file)" "gr_read_u64 r = Inr (len, r1)"
    and "mb_charge_bytes len b = Inr b1" "gr_ensure len r1 = Inr ()"
  shows "gr_skip_utf8_string r b =
    (if utf8_valid (take (unat len) (drop (unat (gr_position r1)) file))
     then Inr (r1\<lparr>gr_position := gr_position r1 + len\<rparr>, b1) else Inl ParseFailure_Invalid)"
proof -
  let ?s = "take (unat len) (drop (unat (gr_position r1)) file)"
  have adv: "gr_source r1 = slice_source file" "gr_length r1 = gr_length r"
    using gr_read_int_advances(3) [OF assms(4)] assms(1) by (simp_all add: gr_advances_def)
  have "unat (gr_position r1) + unat len \<le> length file"
    using assms(2,3,6) adv by (simp add: gr_ensure_iff)
  note loop = gr_utf8_loop_slice [OF adv(1) this assms(2), of "[]", simplified]
  obtain cs suffix fin where sc: "utf8_scan ?s = (cs, suffix, fin)" by (cases "utf8_scan ?s")
  have "suffix = [] \<longleftrightarrow> fin = Utf8_Done" if "fin \<noteq> Utf8_Error"
    using utf8_scan_end [OF sc] that by (cases fin) auto
  then show ?thesis
    using assms(4-6) loop sc by (auto simp: gr_skip_utf8_string_def utf8_valid_def)
qed

end
