(* ===== verification/Planner.thy ===== *)
theory Planner
  imports Gguf "HOL-Library.Sublist"
begin

text \<open>
  The planner entry points (\<open>planner/mod.rs\<close>) and the hashing of a plan (\<open>object.rs\<close>): the
  sole canonical planner of a file, the header inventory, and the digests of the planned
  objects. The \<open>k\<close>-th \<open>check_unchanged\<close> of a call is named by its index, so a source that
  changes half way is a source whose later checks fail. SHA-256 is a parameter: the whole
  function \<open>sha256\<close>, and the incremental hasher of the source as a record of its three
  operations.
\<close>

section \<open>Planning\<close>

definition validated :: "plan \<Rightarrow> plan_error + plan" where
  "validated p = and_then (plan_validate p) (\<lambda>_. Inr p)"

definition plan_once :: "(bytes \<Rightarrow> digest) \<Rightarrow> (bytes \<Rightarrow> json option) \<Rightarrow> byte_source \<Rightarrow>
    contract option \<Rightarrow> plan_error + plan" where
  "plan_once sha256 json_parse source con =
     (if src_len source < 10 then validated (blob_plan (src_len source))
      else
      and_then (if 24 \<le> src_len source then gguf_try_plan sha256 source con else Inr None)
        (\<lambda>found. case found of
          Some p \<Rightarrow> validated p
        | None \<Rightarrow>
      and_then (st_try_plan sha256 json_parse source con) (\<lambda>found. case found of
          Some p \<Rightarrow> validated p
        | None \<Rightarrow> validated (blob_plan (src_len source)))))"

definition check_unchanged :: "byte_source \<Rightarrow> nat \<Rightarrow> plan_error + unit" where
  "check_unchanged source k = map_err PlanError_SourceChanged (src_check source k)"

definition plan_with :: "(bytes \<Rightarrow> digest) \<Rightarrow> (bytes \<Rightarrow> json option) \<Rightarrow> nat \<Rightarrow> byte_source \<Rightarrow>
    contract option \<Rightarrow> plan_error + plan" where
  "plan_with sha256 json_parse k source con =
     and_then (check_unchanged source k) (\<lambda>_.
       let result = plan_once sha256 json_parse source con in
       and_then (check_unchanged source (k + 1)) (\<lambda>_. result))"

definition inventory :: "(bytes \<Rightarrow> json option) \<Rightarrow> nat \<Rightarrow> byte_source \<Rightarrow>
    plan_error + tensor_inventory option" where
  "inventory json_parse k source =
     and_then (check_unchanged source k) (\<lambda>_.
     and_then (if 24 \<le> src_len source then gguf_read_layout source else Inr None) (\<lambda>found.
       case found of
         Some layout \<Rightarrow> Inr (Some (gguf_inventory layout))
       | None \<Rightarrow>
     and_then (st_read_layout json_parse source) (\<lambda>found. case found of
         Some layout \<Rightarrow> Inr (Some (st_inventory layout))
       | None \<Rightarrow> Inr None)))"


section \<open>Hashing\<close>

record 'h hasher =
  hs_new :: 'h
  hs_update :: "'h \<Rightarrow> bytes \<Rightarrow> 'h"
  hs_finalize :: "'h \<Rightarrow> digest"

text \<open>The documented behaviour of an incremental hasher: the digest of the pieces is the digest
  of their concatenation.\<close>

definition hasher_streams :: "'h hasher \<Rightarrow> (bytes \<Rightarrow> digest) \<Rightarrow> bool" where
  "hasher_streams hs sha256 \<longleftrightarrow>
     (\<forall>pieces. hs_finalize hs (fold (\<lambda>bs h. hs_update hs h bs) pieces (hs_new hs)) =
        sha256 (concat pieces))"

record planned_object =
  po_digest :: digest
  po_length :: u64
  po_kind :: region_kind

record hashed_plan =
  hp_planner :: planner_id
  hp_contract :: stamp
  hp_file_size :: u64
  hp_objects :: "planned_object list"

definition HASH_BUFFER_SIZE :: u64 where
  "HASH_BUFFER_SIZE = 1024 * 1024"

definition object_to_hex :: "digest \<Rightarrow> str" where
  "object_to_hex d = hex_bytes (digest_bytes d)"

definition object_display :: "digest \<Rightarrow> str" where
  "object_display d = ''sha256:'' @ hex_bytes (digest_bytes d)"

lemma hash_decreases:
  "0 < (remaining :: u64) \<Longrightarrow> unat (remaining - min remaining HASH_BUFFER_SIZE) < unat remaining"
  by (cases "remaining \<le> HASH_BUFFER_SIZE") (auto simp: unat_sub_u64 u64_nat min_def HASH_BUFFER_SIZE_def)

function hash_loop :: "'h hasher \<Rightarrow> byte_source \<Rightarrow> 'h \<Rightarrow> u64 \<Rightarrow> u64 \<Rightarrow> plan_error + 'h" where
  "hash_loop hs source h cursor remaining =
     (if 0 < remaining then
        let read_length = min remaining HASH_BUFFER_SIZE in
        and_then (map_err PlanError_Read (src_read source cursor (unat read_length))) (\<lambda>bs.
          hash_loop hs source (hs_update hs h bs) (cursor + read_length) (remaining - read_length))
      else Inr h)"
  by pat_completeness auto
termination
  by (relation "measure (\<lambda>(hs, source, h, cursor, remaining). unat remaining)")
    (simp_all add: hash_decreases)

declare hash_loop.simps [simp del]

fun hash_regions :: "'h hasher \<Rightarrow> byte_source \<Rightarrow> region list \<Rightarrow> plan_error + planned_object list" where
  "hash_regions hs source [] = Inr []"
| "hash_regions hs source (r # rs) =
     and_then (hash_loop hs source (hs_new hs) (reg_offset r) (reg_length r)) (\<lambda>h.
     and_then (hash_regions hs source rs) (\<lambda>objects.
       Inr (\<lparr>po_digest = hs_finalize hs h, po_length = reg_length r, po_kind = reg_kind r\<rparr> # objects)))"

definition hash_plan :: "'h hasher \<Rightarrow> nat \<Rightarrow> byte_source \<Rightarrow> plan \<Rightarrow> plan_error + hashed_plan" where
  "hash_plan hs k source p =
     and_then (check_unchanged source k) (\<lambda>_.
     and_then (plan_validate p) (\<lambda>_.
     if src_len source \<noteq> plan_file_size p
     then Inl (PlanError_SourceLengthMismatch (plan_file_size p) (src_len source))
     else
     and_then (hash_regions hs source (plan_regions p)) (\<lambda>objects.
     let hashed = \<lparr>hp_planner = plan_planner p, hp_contract = plan_contract p,
       hp_file_size = plan_file_size p, hp_objects = objects\<rparr> in
     and_then (check_unchanged source (k + 1)) (\<lambda>_. Inr hashed))))"

definition plan_and_hash_under :: "'h hasher \<Rightarrow> (bytes \<Rightarrow> digest) \<Rightarrow> (bytes \<Rightarrow> json option) \<Rightarrow>
    byte_source \<Rightarrow> contract option \<Rightarrow> plan_error + hashed_plan" where
  "plan_and_hash_under hs sha256 json_parse source con =
     and_then (plan_with sha256 json_parse 0 source con) (hash_plan hs 2 source)"


section \<open>A returned plan is valid, and a readable file always gets one\<close>

lemma validated_Inr_iff [result_simps]: "validated p = Inr q \<longleftrightarrow> q = p \<and> plan_validate p = Inr ()"
  by (auto simp: validated_def result_simps)

lemma blob_plan_valid: "plan_validate (blob_plan n) = Inr ()"
  by (cases "n = 0") (simp_all add: plan_validate_iff blob_plan_def MAX_OBJECT_COUNT_def unat_gt_0)

lemma st_try_plan_fields:
  "st_try_plan sha256 json_parse source con = Inr (Some p) \<Longrightarrow>
   plan_planner p = PlannerId_SafetensorsV1 \<and> plan_contract p = plan_stamp sha256 con \<and>
   plan_file_size p = src_len source"
  by (auto elim!: st_try_plan_SomeE)

lemma gguf_try_plan_fields:
  "gguf_try_plan sha256 source con = Inr (Some p) \<Longrightarrow>
   plan_planner p = PlannerId_GgufV1 \<and> plan_contract p = plan_stamp sha256 con \<and>
   plan_file_size p = src_len source"
  by (auto simp: plan_layout_def result_simps elim!: gguf_try_plan_SomeE)

lemma plan_once_cases:
  assumes "plan_once sha256 json_parse source con = Inr p"
  obtains "p = blob_plan (src_len source)"
    | "gguf_try_plan sha256 source con = Inr (Some p)"
    | "st_try_plan sha256 json_parse source con = Inr (Some p)"
  using assms
  by (fastforce simp: plan_once_def result_simps split: if_splits option.splits)

lemma plan_once_Inr:
  assumes "plan_once sha256 json_parse source con = Inr p"
  shows "plan_validate p = Inr ()" "plan_file_size p = src_len source"
    "plan_contract p = (if plan_planner p = PlannerId_BlobV1 then Stamp_None else plan_stamp sha256 con)"
proof -
  show "plan_validate p = Inr ()"
    using assms by (auto simp: plan_once_def result_simps split: if_splits option.splits)
  from assms show "plan_file_size p = src_len source"
    by (cases rule: plan_once_cases) (auto simp: blob_plan_def dest: st_try_plan_fields gguf_try_plan_fields)
  from assms show "plan_contract p =
      (if plan_planner p = PlannerId_BlobV1 then Stamp_None else plan_stamp sha256 con)"
    by (cases rule: plan_once_cases) (auto simp: blob_plan_def dest: st_try_plan_fields gguf_try_plan_fields)
qed

lemma plan_with_Inr_iff:
  "plan_with sha256 json_parse k source con = Inr p \<longleftrightarrow>
   src_check source k = Inr () \<and> src_check source (k + 1) = Inr () \<and>
   plan_once sha256 json_parse source con = Inr p"
  by (auto simp: plan_with_def check_unchanged_def result_simps)

lemma source_readableD:
  "source_readable source \<Longrightarrow> unat offset + n \<le> unat (src_len source) \<Longrightarrow>
   \<exists>bs. src_read source offset n = Inr bs"
  by (simp add: source_readable_def is_ok_iff)

lemma st_read_layout_total:
  assumes "source_readable source"
  shows "\<exists>l. st_read_layout json_parse source = Inr l"
proof (cases "src_len source < PREFIX_SIZE + 2")
  case True
  then show ?thesis by (simp add: st_read_layout_def)
next
  case False
  then have "10 \<le> unat (src_len source)" by (simp add: PREFIX_SIZE_def not_less word_le_nat_alt)
  then obtain prefix where prefix: "src_read source 0 8 = Inr prefix"
    using source_readableD [OF assms, of 0 8] by auto
  define hs where "hs = u64_of_le prefix"
  have hdr: "\<exists>bs. src_read source PREFIX_SIZE (unat hs) = Inr bs"
    if "hs \<le> MAX_HEADER_SIZE" "\<not> src_len source < PREFIX_SIZE + hs"
  proof (rule source_readableD [OF assms])
    have "unat (PREFIX_SIZE + hs) = 8 + unat hs"
      using that(1) by (simp add: PREFIX_SIZE_def MAX_HEADER_SIZE_def unat_add_u64 u64_nat)
    with that(2) show "unat PREFIX_SIZE + unat hs \<le> unat (src_len source)"
      by (simp add: not_less u64_nat) (simp add: PREFIX_SIZE_def)
  qed
  show ?thesis
  proof (cases "2 \<le> hs \<and> hs \<le> MAX_HEADER_SIZE \<and> \<not> src_len source < PREFIX_SIZE + hs")
    case True
    with hdr obtain hb where "src_read source PREFIX_SIZE (unat hs) = Inr hb" by blast
    with prefix show ?thesis
      by (auto simp: st_read_layout_def Let_def hs_def split: option.splits)
  qed (use prefix in \<open>auto simp: st_read_layout_def Let_def hs_def\<close>)
qed

lemma st_try_plan_total:
  assumes "source_readable source" "contract_fits con"
  shows "\<exists>p. st_try_plan sha256 json_parse source con = Inr p"
  using st_read_layout_total [OF assms(1), of json_parse] st_try_plan_sound(2) [OF assms(2)]
  by (metis Inl_Inr_False sum.exhaust)

lemma plan_once_total:
  assumes "source_readable source" "contract_fits con"
  shows "\<exists>p. plan_once sha256 json_parse source con = Inr p"
proof -
  obtain g st where g: "gguf_try_plan sha256 source con = Inr g"
    and st: "st_try_plan sha256 json_parse source con = Inr st"
    using gguf_try_plan_total st_try_plan_total assms by metis
  have "gguf_try_plan sha256 source con = Inr (Some p) \<Longrightarrow> plan_validate p = Inr ()"
    "st_try_plan sha256 json_parse source con = Inr (Some p) \<Longrightarrow> plan_validate p = Inr ()" for p
    using gguf_try_plan_sound st_try_plan_sound(1) [OF assms(2)] by blast+
  with g st show ?thesis
    by (auto simp: plan_once_def validated_def blob_plan_valid split: option.splits)
qed

lemma slice_source_readable: "length file < 2 ^ 64 \<Longrightarrow> source_readable (slice_source file)"
  by (simp add: source_readable_def slice_source_def slice_read_def Let_def)



section \<open>The objects of a plan are the file\<close>

lemma hash_loop_slice:
  assumes "unat cursor + unat remaining \<le> length file" "length file < 2 ^ 64"
  shows "\<exists>pieces. hash_loop hs (slice_source file) h cursor remaining =
      Inr (fold (\<lambda>bs h. hs_update hs h bs) pieces h) \<and>
    concat pieces = take (unat remaining) (drop (unat cursor) file)"
  using assms(1)
proof (induction "unat remaining" arbitrary: h cursor remaining rule: less_induct)
  case less
  show ?case
  proof (cases "0 < remaining")
    case False
    then show ?thesis by (intro exI [of _ "[]"], subst hash_loop.simps) (simp add: word_gt_0)
  next
    case True
    define n where "n = min remaining HASH_BUFFER_SIZE"
    have n: "unat n \<le> unat remaining" "unat (remaining - n) = unat remaining - unat n"
      by (simp_all add: n_def min_def u64_nat unat_sub_u64)
    have c: "unat (cursor + n) = unat cursor + unat n"
      using less.prems assms(2) n by (simp add: unat_add_u64)
    define bs where "bs = take (unat n) (drop (unat cursor) file)"
    have "src_read (slice_source file) cursor (unat n) = Inr bs"
      using less.prems n(1) assms(2) by (simp add: slice_source_def slice_read_def bs_def Let_def)
    then have step: "hash_loop hs (slice_source file) h cursor remaining =
        hash_loop hs (slice_source file) (hs_update hs h bs) (cursor + n) (remaining - n)"
      using True by (subst hash_loop.simps) (simp add: Let_def n_def)
    obtain pieces where p: "hash_loop hs (slice_source file) (hs_update hs h bs) (cursor + n) (remaining - n) =
        Inr (fold (\<lambda>bs h. hs_update hs h bs) pieces (hs_update hs h bs))"
      "concat pieces = take (unat (remaining - n)) (drop (unat (cursor + n)) file)"
      using less.hyps [of "remaining - n" "cursor + n" "hs_update hs h bs"] True less.prems n c
        hash_decreases by (auto simp: n_def)
    have "concat (bs # pieces) = take (unat remaining) (drop (unat cursor) file)"
      using p(2) n c by (simp add: bs_def add.commute [of "unat cursor"] flip: take_add drop_drop)
    with step p(1) show ?thesis by (intro exI [of _ "bs # pieces"]) simp
  qed
qed

lemma hash_regions_slice:
  assumes "hasher_streams hs sha256" "length file < 2 ^ 64"
  shows "tiles a rs b \<Longrightarrow> b \<le> length file \<Longrightarrow>
    hash_regions hs (slice_source file) rs = Inr (map (\<lambda>r.
      \<lparr>po_digest = sha256 (region_bytes file r), po_length = reg_length r, po_kind = reg_kind r\<rparr>) rs)"
proof (induction rs arbitrary: a)
  case (Cons r rs)
  have "unat (reg_offset r) + unat (reg_length r) \<le> length file"
    using Cons.prems by (auto dest!: tiles_le)
  from hash_loop_slice [OF this assms(2), of hs "hs_new hs"] obtain pieces where
    p: "hash_loop hs (slice_source file) (hs_new hs) (reg_offset r) (reg_length r) =
      Inr (fold (\<lambda>bs h. hs_update hs h bs) pieces (hs_new hs))"
    "concat pieces = region_bytes file r" by (auto simp: region_bytes_def)
  have "hs_finalize hs (fold (\<lambda>bs h. hs_update hs h bs) pieces (hs_new hs)) = sha256 (region_bytes file r)"
    using assms(1) p(2) by (auto simp: hasher_streams_def)
  with Cons p(1) show ?case by auto
qed simp


section \<open>The objects of one tensor\<close>

text \<open>What a tensor contributes to the store depends on its own bytes and its seams alone: each
  part the seams cut is chunked from its own start.\<close>

definition tensor_bytes :: "bytes \<Rightarrow> u64 \<Rightarrow> u64 \<Rightarrow> bytes" where
  "tensor_bytes file offset len = take (unat len) (drop (unat offset) file)"

definition tensor_objects :: "u64 list \<Rightarrow> bytes \<Rightarrow> bytes list" where
  "tensor_objects seams tb =
     concat (map (grid_chunks \<circ> part_bytes tb 0) (seam_parts 0 (map unat seams) (length tb)))"

lemma seam_loop_parts:
  "seam_loop regions offset len cursor seams kind = Inr rs \<Longrightarrow> unat cursor \<le> unat len \<Longrightarrow>
   (\<exists>mid. rs = regions @ mid) \<and>
   (\<forall>(s, n) \<in> set (seam_parts (unat cursor) (map unat seams) (unat len)). s + n \<le> unat len)"
proof (induction regions offset len cursor seams kind rule: seam_loop.induct)
  case (2 regions offset len cursor seam seams kind)
  from 2(2) have nle: "\<not> (seam \<le> cursor \<or> len \<le> seam)" by (auto split: if_splits)
  then have s: "unat cursor < unat seam" "unat seam < unat len" by (simp_all add: not_le u64_nat)
  from 2(2) nle obtain qs
    where q: "append_split_region regions (offset + cursor) (seam - cursor) kind = Inr qs"
    and r: "seam_loop qs offset len seam seams kind = Inr rs"
    by (auto simp: result_simps)
  from "2.IH" [OF nle q r] s q show ?case by (auto simp: append_split_region_Inr_iff)
qed (auto simp: append_split_region_Inr_iff)

lemma append_tensor_run:
  assumes "append_tensor_regions regions offset len seams kind = Inr rs"
    and "unat offset + unat len \<le> length file" "length file < 2 ^ 64"
  shows "\<exists>mid. rs = regions @ mid \<and>
    map (region_bytes file) mid = tensor_objects seams (tensor_bytes file offset len)"
proof -
  let ?tb = "tensor_bytes file offset len" and ?parts = "seam_parts 0 (map unat seams) (unat len)"
  have loop: "seam_loop regions offset len 0 seams kind = Inr rs"
    using assms(1) by (simp add: append_tensor_regions_def)
  from seam_loop_parts [OF loop] obtain mid where mid: "rs = regions @ mid"
    and parts: "\<forall>(s, n) \<in> set ?parts. s + n \<le> unat len" by auto
  have len: "length ?tb = unat len" using assms(2) by (simp add: tensor_bytes_def)
  have "part_bytes file (unat offset) part = part_bytes ?tb 0 part" if "part \<in> set ?parts" for part
    using that parts by (cases part) (auto simp: part_bytes_def tensor_bytes_def drop_take min_def add.commute)
  then have "map (grid_chunks \<circ> part_bytes file (unat offset)) ?parts =
      map (grid_chunks \<circ> part_bytes ?tb 0) ?parts" by simp
  moreover have "map (region_bytes file) mid =
      concat (map (grid_chunks \<circ> part_bytes file (unat offset)) ?parts)"
    using seam_loop_chunks [OF loop _ assms(2)] assms(2,3) mid by simp
  ultimately have "map (region_bytes file) mid = tensor_objects seams ?tb"
    unfolding tensor_objects_def len by (simp only:)
  with mid show ?thesis by blast
qed

text \<open>\<open>has_run file regions objs\<close>: some consecutive regions of the file hold exactly these objects.\<close>

definition has_run :: "bytes \<Rightarrow> region list \<Rightarrow> bytes list \<Rightarrow> bool" where
  "has_run file regions objs \<longleftrightarrow>
     (\<exists>pre mid post. regions = pre @ mid @ post \<and> map (region_bytes file) mid = objs)"

lemma has_run_prefix: "has_run file rs objs \<Longrightarrow> has_run file (rs @ qs) objs"
  by (force simp: has_run_def)

lemma st_tensor_regions_prefix:
  "st_tensor_regions con he regions ts = Inr (Some rs) \<Longrightarrow> \<exists>qs. rs = regions @ qs"
proof (induction ts arbitrary: regions)
  case (Cons t ts)
  show ?case
  proof (cases "te_end t - te_start t = 0")
    case False
    with Cons.prems obtain regions' where
      a: "append_tensor_regions regions (he + te_start t) (te_end t - te_start t)
          (contract_seams con (te_name t) (te_shape t) (te_end t - te_start t)) RegionKind_Tensor = Inr regions'"
      and r: "st_tensor_regions con he regions' ts = Inr (Some rs)"
      by (auto simp: Let_def split: sum.splits plan_error.splits)
    from Cons.IH [OF r] seam_loop_parts [OF a [unfolded append_tensor_regions_def]] show ?thesis by auto
  qed (use Cons in simp)
qed simp

lemma st_tensor_regions_run:
  assumes "st_tensor_regions con he regions ts = Inr (Some rs)" "contiguous d cursor ts = Some d"
    and "\<And>t. t \<in> set ts \<Longrightarrow> te_start t \<le> te_end t" "unat he + unat d = length file" "length file < 2 ^ 64"
    and "t \<in> set ts" "len = te_end t - te_start t" "0 < len"
  shows "has_run file rs (tensor_objects (contract_seams con (te_name t) (te_shape t) len)
    (tensor_bytes file (he + te_start t) len))"
  using assms
proof (induction ts arbitrary: regions cursor)
  case (Cons u ts)
  let ?len = "te_end u - te_start u"
  from Cons.prems(2) have stop: "te_end u \<le> d" and rest: "contiguous d (te_end u) ts = Some d"
    by (auto simp: not_less split: if_splits)
  show ?case
  proof (cases "?len = 0")
    case True
    have "t \<in> set ts" using Cons.prems(6-8) True by auto
    with Cons.IH [OF _ rest] Cons.prems True show ?thesis by simp
  next
    case False
    with Cons.prems(1) obtain qs where
      q: "append_tensor_regions regions (he + te_start u) ?len
          (contract_seams con (te_name u) (te_shape u) ?len) RegionKind_Tensor = Inr qs"
      and r: "st_tensor_regions con he qs ts = Inr (Some rs)"
      by (auto simp: Let_def split: sum.splits plan_error.splits)
    show ?thesis
    proof (cases "t = u")
      case True
      have ord: "te_start u \<le> te_end u" using Cons.prems(3) by simp
      have "unat (he + te_start u) = unat he + unat (te_start u)"
        using ord stop Cons.prems(4,5) by (simp add: unat_add_u64 u64_nat)
      moreover have "unat ?len = unat (te_end u) - unat (te_start u)" using ord by (simp add: unat_sub_u64)
      ultimately have "unat (he + te_start u) + unat ?len \<le> length file"
        using ord stop Cons.prems(4) by (simp add: u64_nat)
      from append_tensor_run [OF q this Cons.prems(5)] st_tensor_regions_prefix [OF r]
      show ?thesis using True Cons.prems(7) by (fastforce simp: has_run_def)
    next
      case False
      with Cons.IH [OF r rest] Cons.prems show ?thesis by simp
    qed
  qed
qed simp

lemma gguf_tensor_regions_step:
  assumes "gguf_tensor_regions con al start regions (t # ts) = Inr rs"
  obtains tstart qs ps padded where "checked_add start (ti_offset t) = Some tstart"
    "append_tensor_regions regions tstart (ti_length t)
      (contract_seams con (ti_name t) (logical_shape t) (ti_length t)) RegionKind_Tensor = Inr qs"
    "append_split_region qs (tstart + ti_length t) (padded - ti_length t) RegionKind_Header = Inr ps"
    "gguf_tensor_regions con al start ps ts = Inr rs"
  using assms by (auto simp: result_simps append_seamed_domain_def append_domain_iff)

lemma gguf_tensor_regions_prefix:
  "gguf_tensor_regions con al start regions ts = Inr rs \<Longrightarrow> \<exists>qs. rs = regions @ qs"
proof (induction ts arbitrary: regions)
  case (Cons t ts)
  from Cons.prems show ?case
    by (rule gguf_tensor_regions_step)
      (auto simp: append_tensor_regions_def append_split_region_Inr_iff dest!: seam_loop_parts Cons.IH)
qed simp

lemma gguf_tensor_regions_run:
  assumes "gguf_tensor_regions con al start regions ts = Inr rs" "gguf_chain al off ts d"
    and "is_power_of_two al" "unat start + unat d = length file" "length file < 2 ^ 64" "t \<in> set ts"
  shows "has_run file rs (tensor_objects (contract_seams con (ti_name t) (logical_shape t) (ti_length t))
    (tensor_bytes file (start + ti_offset t) (ti_length t)))"
  using assms
proof (induction ts arbitrary: regions off)
  case (Cons u ts)
  from Cons.prems(2) obtain padded nx where off: "ti_offset u = off"
    and pad: "align_up (ti_length u) al = Some padded" and nxt: "checked_add off padded = Some nx"
    and rest: "gguf_chain al nx ts d" by auto
  from Cons.prems(1) obtain tstart qs ps pd where
    st: "checked_add start (ti_offset u) = Some tstart"
    and q: "append_tensor_regions regions tstart (ti_length u)
      (contract_seams con (ti_name u) (logical_shape u) (ti_length u)) RegionKind_Tensor = Inr qs"
    and p: "append_split_region qs (tstart + ti_length u) (pd - ti_length u) RegionKind_Header = Inr ps"
    and r: "gguf_tensor_regions con al start ps ts = Inr rs"
    by (rule gguf_tensor_regions_step)
  show ?case
  proof (cases "t = u")
    case True
    have tstart: "tstart = start + ti_offset u" using st by (auto simp: checked_add_def split: if_splits)
    have "unat tstart + unat (ti_length u) \<le> length file"
      using st nxt off align_up_bounds(2) [OF Cons.prems(3) pad] gguf_chain_le [OF rest] Cons.prems(4)
      by (simp add: checked_add_Some_iff)
    from append_tensor_run [OF q this Cons.prems(5)] p gguf_tensor_regions_prefix [OF r]
    show ?thesis unfolding True tstart [symmetric]
      by (fastforce simp: has_run_def append_split_region_Inr_iff)
  next
    case False
    with Cons.IH [OF r rest] Cons.prems show ?thesis by simp
  qed
qed simp

lemma inventory_cases:
  assumes "inventory json_parse k source = Inr (Some iv)"
  obtains l where "gguf_parse source = Inr l" "iv = gguf_inventory l"
    | l where "st_read_layout json_parse source = Inr (Some l)" "iv = st_inventory l"
  using assms
  by (auto simp: inventory_def gguf_read_layout_def lift_parse_def result_simps
      split: if_splits option.splits sum.splits parse_failure.splits)

lemma gguf_plan_run:
  assumes "gguf_parse (slice_source file) = Inr l" "length file < 2 ^ 64"
    and "plan_layout sha256 (src_len (slice_source file)) l con = Inr p" "t \<in> set (gl_tensors l)"
  shows "has_run file (plan_regions p)
    (tensor_objects (contract_seams con (ti_name t) (logical_shape t) (ti_length t))
      (tensor_bytes file (gl_data_start l + ti_offset t) (ti_length t)))"
proof -
  from gguf_parse_layout_ok [OF assms(1)] obtain d where "is_power_of_two (gl_alignment l)"
    "gguf_chain (gl_alignment l) 0 (gl_tensors l) d" "unat (gl_data_start l) + unat d = length file"
    using assms(2) by (auto simp: gguf_layout_ok_def slice_source_def)
  moreover from assms(3) obtain regions where
    "gguf_tensor_regions con (gl_alignment l) (gl_data_start l) regions (gl_tensors l) =
      Inr (plan_regions p)" by (auto simp: plan_layout_def result_simps)
  ultimately show ?thesis using gguf_tensor_regions_run assms(2,4) by blast
qed

lemma st_plan_run:
  assumes "st_try_plan sha256 json_parse (slice_source file) con = Inr (Some p)" "length file < 2 ^ 64"
    and "st_read_layout json_parse (slice_source file) = Inr (Some l)" "t \<in> set (st_tensors l)"
    and "len = te_end t - te_start t" "0 < len"
  shows "has_run file (plan_regions p)
    (tensor_objects (contract_seams con (te_name t) (te_shape t) len)
      (tensor_bytes file (st_header_end l + te_start t) len))"
proof -
  note lay = st_read_layout_Some [OF assms(3)]
  define d where "d = src_len (slice_source file) - st_header_end l"
  from assms(1) obtain regions where
    "st_tensor_regions con (st_header_end l) regions (st_tensors l) = Inr (Some (plan_regions p))"
    by (rule st_try_plan_SomeE) (use assms(3) in auto)
  moreover have "unat (st_header_end l) + unat d = length file"
    using lay(3) assms(2) by (simp add: d_def slice_source_def unat_sub_u64 u64_nat)
  moreover have "contiguous d 0 (st_tensors l) = Some d" using lay(4) by (simp add: d_def)
  ultimately show ?thesis using st_tensor_regions_run lay(5) assms(2,4,5,6) by metis
qed

lemma planned_tensor_run:
  assumes "plan_once sha256 json_parse (slice_source file) con = Inr p" "length file < 2 ^ 64"
    and "inventory json_parse k (slice_source file) = Inr (Some iv)"
    and "planner_tensor_format (plan_planner p) = Some (inv_format iv)"
    and "t \<in> set (inv_tensors iv)" "0 < inv_length t"
  shows "has_run file (plan_regions p)
    (tensor_objects (contract_seams con (inv_name t) (inv_shape t) (inv_length t))
      (tensor_bytes file (inv_offset t) (inv_length t)))"
  using assms(3)
proof (cases rule: inventory_cases)
  case (1 l)
  then have "plan_planner p = PlannerId_GgufV1"
    using assms(4) by (simp add: gguf_inventory_def planner_tensor_format_inverse)
  with assms(1) have "gguf_try_plan sha256 (slice_source file) con = Inr (Some p)"
    by (cases rule: plan_once_cases) (auto simp: blob_plan_def dest: st_try_plan_fields)
  with 1(1) have "plan_layout sha256 (src_len (slice_source file)) l con = Inr p"
    by (auto elim!: gguf_try_plan_SomeE)
  from gguf_plan_run [OF 1(1) assms(2) this] assms(5) 1(2) show ?thesis
    by (auto simp: gguf_inventory_def)
next
  case (2 l)
  then have "plan_planner p = PlannerId_SafetensorsV1"
    using assms(4) by (simp add: st_inventory_def planner_tensor_format_inverse)
  with assms(1) have "st_try_plan sha256 json_parse (slice_source file) con = Inr (Some p)"
    by (cases rule: plan_once_cases) (auto simp: blob_plan_def dest: gguf_try_plan_fields)
  from st_plan_run [OF this assms(2) 2(1)] assms(5,6) 2(2) show ?thesis
    by (auto simp: st_inventory_def)
qed

lemma concat_grid_chunks: "concat (grid_chunks bs) = bs"
proof (induction bs rule: grid_chunks.induct)
  case (1 bs)
  then show ?case by (subst grid_chunks.simps) auto
qed

lemma grid_chunks_bounded: "c \<in> set (grid_chunks bs) \<Longrightarrow> c \<noteq> [] \<and> length c \<le> 67108864"
proof (induction bs rule: grid_chunks.induct)
  case (1 bs)
  show ?case
  proof (cases "bs = []")
    case False
    with 1(2) have "c = take 67108864 bs \<or> c \<in> set (grid_chunks (drop 67108864 bs))"
      by (subst (asm) grid_chunks.simps) auto
    with 1(1) False show ?thesis by auto
  qed (use 1(2) in simp)
qed

lemma seam_parts_concat:
  "seams_fit cursor seams len \<Longrightarrow> unat cursor \<le> unat len \<Longrightarrow> length tb = unat len \<Longrightarrow>
   concat (map (part_bytes tb 0) (seam_parts (unat cursor) (map unat seams) (unat len))) =
     drop (unat cursor) tb"
proof (induction cursor seams len rule: seams_fit.induct)
  case (2 cursor s ss len)
  then have s: "unat cursor < unat s" "unat s < unat len" by (simp_all add: u64_nat)
  have "take (unat s - unat cursor) (drop (unat cursor) tb) @ drop (unat s) tb = drop (unat cursor) tb"
    using s(1) by (metis append_take_drop_id drop_drop le_add_diff_inverse2 less_imp_le)
  with 2 s show ?case by (simp add: part_bytes_def)
qed (simp add: part_bytes_def)

lemma concat_map_concat: "concat (concat (map f xs)) = concat (map (\<lambda>x. concat (f x)) xs)"
  by (induction xs) simp_all

lemma concat_tensor_objects:
  assumes "seams_fit 0 seams (of_nat (length tb))" "length tb < 2 ^ 64"
  shows "concat (tensor_objects seams tb) = tb"
  using seam_parts_concat [OF assms(1), of tb] assms(2)
  by (simp add: tensor_objects_def concat_map_concat comp_def concat_grid_chunks)


section \<open>Hashed plans\<close>

lemma plan_and_hash_under_Inr_iff:
  "plan_and_hash_under hs sha256 json_parse source con = Inr h \<longleftrightarrow>
   (\<exists>p objects. plan_once sha256 json_parse source con = Inr p \<and>
     hash_regions hs source (plan_regions p) = Inr objects \<and>
     src_check source 0 = Inr () \<and> src_check source 1 = Inr () \<and> src_check source 2 = Inr () \<and>
     src_check source 3 = Inr () \<and>
     h = \<lparr>hp_planner = plan_planner p, hp_contract = plan_contract p,
       hp_file_size = plan_file_size p, hp_objects = objects\<rparr>)"
  by (auto simp: plan_and_hash_under_def hash_plan_def result_simps plan_with_Inr_iff check_unchanged_def
      numeral_eq_Suc plan_once_Inr dest: plan_once_Inr(1,2) split: if_splits)

lemma plan_and_hash_slice:
  assumes "hasher_streams hs sha256" "length file < 2 ^ 64"
    and "plan_and_hash_under hs sha256 json_parse (slice_source file) con = Inr h"
  obtains p where "plan_once sha256 json_parse (slice_source file) con = Inr p"
    "tiles 0 (plan_regions p) (length file)" "hp_planner h = plan_planner p"
    "hp_contract h = plan_contract p" "hp_file_size h = plan_file_size p"
    "hp_objects h = map (\<lambda>r. \<lparr>po_digest = sha256 (region_bytes file r), po_length = reg_length r,
       po_kind = reg_kind r\<rparr>) (plan_regions p)"
proof -
  from assms(3) obtain p objects where p: "plan_once sha256 json_parse (slice_source file) con = Inr p"
    and objs: "hash_regions hs (slice_source file) (plan_regions p) = Inr objects"
    and h: "h = \<lparr>hp_planner = plan_planner p, hp_contract = plan_contract p,
       hp_file_size = plan_file_size p, hp_objects = objects\<rparr>"
    by (auto simp: plan_and_hash_under_Inr_iff)
  have t: "tiles 0 (plan_regions p) (length file)"
    using plan_once_Inr(1,2) [OF p] assms(2)
    by (simp add: plan_validate_iff slice_source_def unat_of_nat_u64)
  show thesis
    using that [OF p t] hash_regions_slice [OF assms(1,2) t order_refl] objs h by simp
qed

lemma hashed_tensor_run:
  assumes "hasher_streams hs sha256" "length file < 2 ^ 64"
    and "plan_and_hash_under hs sha256 json_parse (slice_source file) con = Inr h"
    and "inventory json_parse k (slice_source file) = Inr (Some iv)"
    and "planner_tensor_format (hp_planner h) = Some (inv_format iv)"
    and "t \<in> set (inv_tensors iv)" "0 < inv_length t"
  shows "sublist (map sha256 (tensor_objects (contract_seams con (inv_name t) (inv_shape t) (inv_length t))
      (tensor_bytes file (inv_offset t) (inv_length t)))) (map po_digest (hp_objects h))"
proof -
  from assms(1-3) obtain p where p: "plan_once sha256 json_parse (slice_source file) con = Inr p"
    and pl: "hp_planner h = plan_planner p"
    and objs: "hp_objects h = map (\<lambda>r. \<lparr>po_digest = sha256 (region_bytes file r),
       po_length = reg_length r, po_kind = reg_kind r\<rparr>) (plan_regions p)"
    by (rule plan_and_hash_slice)
  have "has_run file (plan_regions p)
    (tensor_objects (contract_seams con (inv_name t) (inv_shape t) (inv_length t))
      (tensor_bytes file (inv_offset t) (inv_length t)))"
    using assms(5) by (intro planned_tensor_run [OF p assms(2,4) _ assms(6,7)]) (simp add: pl)
  then obtain pre mid post where "plan_regions p = pre @ mid @ post"
    and run: "tensor_objects (contract_seams con (inv_name t) (inv_shape t) (inv_length t))
      (tensor_bytes file (inv_offset t) (inv_length t)) = map (region_bytes file) mid"
    by (metis has_run_def)
  then have "map po_digest (hp_objects h) = map (sha256 \<circ> region_bytes file) pre @
      map (sha256 \<circ> region_bytes file) mid @ map (sha256 \<circ> region_bytes file) post"
    using objs by (simp add: comp_def)
  then show ?thesis unfolding run by (auto simp: sublist_def)
qed

lemma hash_regions_total:
  assumes "length file < 2 ^ 64"
  shows "tiles a rs b \<Longrightarrow> b \<le> length file \<Longrightarrow> \<exists>objects. hash_regions hs (slice_source file) rs = Inr objects"
proof (induction rs arbitrary: a)
  case (Cons r rs)
  have "unat (reg_offset r) + unat (reg_length r) \<le> length file"
    using Cons.prems by (auto dest!: tiles_le)
  from hash_loop_slice [OF this assms, of hs "hs_new hs"] Cons show ?case by fastforce
qed simp

lemma hashed_pieces:
  assumes "hasher_streams hs sha256" "length file < 2 ^ 64"
    and "plan_and_hash_under hs sha256 json_parse (slice_source file) con = Inr h"
  shows "\<exists>pieces. concat pieces = file \<and> map po_digest (hp_objects h) = map sha256 pieces \<and>
    map (unat \<circ> po_length) (hp_objects h) = map length pieces \<and>
    (hp_planner h = PlannerId_BlobV1 \<or> list_all (\<lambda>piece. length piece \<le> 67108864) pieces)"
proof -
  from assms obtain p where p: "plan_once sha256 json_parse (slice_source file) con = Inr p"
    and t: "tiles 0 (plan_regions p) (length file)" and pl: "hp_planner h = plan_planner p"
    and objs: "hp_objects h = map (\<lambda>r. \<lparr>po_digest = sha256 (region_bytes file r),
       po_length = reg_length r, po_kind = reg_kind r\<rparr>) (plan_regions p)"
    by (rule plan_and_hash_slice)
  let ?pieces = "map (region_bytes file) (plan_regions p)"
  have len: "length (region_bytes file r) = unat (reg_length r)" if "r \<in> set (plan_regions p)" for r
    using tiles_bounded [OF t that] by (simp add: region_bytes_def)
  have "concat ?pieces = file" using tiles_concat [OF t order_refl] by simp
  moreover have "hp_planner h = PlannerId_BlobV1 \<or> list_all (\<lambda>piece. length piece \<le> 67108864) ?pieces"
    using plan_once_Inr(1) [OF p] len pl
    by (auto simp: plan_validate_iff on_grid_def list_all_iff word_le_nat_alt unat_MAX_OBJECT_SIZE)
  ultimately show ?thesis using objs len by (intro exI [of _ ?pieces]) simp
qed

lemma plan_and_hash_slice_total:
  assumes "length file < 2 ^ 64" "contract_fits con"
  shows "\<exists>h. plan_and_hash_under hs sha256 json_parse (slice_source file) con = Inr h"
proof -
  obtain p where p: "plan_once sha256 json_parse (slice_source file) con = Inr p"
    using plan_once_total [OF slice_source_readable [OF assms(1)] assms(2)] by blast
  have t: "tiles 0 (plan_regions p) (length file)"
    using plan_once_Inr(1,2) [OF p] assms(1) by (simp add: plan_validate_iff slice_source_def)
  obtain objects where "hash_regions hs (slice_source file) (plan_regions p) = Inr objects"
    using hash_regions_total [OF assms(1) t order_refl] by blast
  with p show ?thesis by (auto simp: plan_and_hash_under_Inr_iff slice_source_def)
qed

end
