(* ===== verification/Fused_Objects.thy ===== *)
theory Fused_Objects
  imports Planner
begin

text \<open>
  The objects of a fused tensor (contract.rs, safetensors.rs, gguf.rs): under its contract a fused tensor is
  cut exactly at the boundaries of the parts it is declared to hold, so each part is hashed to the objects
  it has as a tensor of its own.
\<close>

section \<open>A declared fusion that divides a tensor\<close>

text \<open>The rows a fusion shares out: the sum of the shares, once for each group.\<close>

definition fusion_rows :: "fusion \<Rightarrow> nat" where
  "fusion_rows f = sum_list (map (unat \<circ> part_share) (fus_parts f)) * unat (fus_groups f)"

lemma checked_mul_defined: "unat a * unat b < 2 ^ 64 \<Longrightarrow> \<exists>c. checked_mul a b = Some c \<and> unat c = unat a * unat b"
  by (simp add: checked_mul_def unat_mul_u64)

lemma those_defined: "\<forall>x \<in> set xs. x \<noteq> None \<Longrightarrow> \<exists>ys. those xs = Some ys"
  by (induction xs) auto

lemma fusion_runs_defined:
  assumes "shares_fit f" "rows \<noteq> 0" "fusion_rows f dvd unat rows" "unat rows dvd unat n"
  shows "\<exists>runs. fusion_runs f (rows # rest) n = Some runs"
proof -
  let ?sum = "sum_list (map (unat \<circ> part_share) (fus_parts f))"
  have rows: "0 < unat rows" using assms(2) by (simp add: u64_eq_nat)
  then have "fusion_rows f \<le> unat rows" "fusion_rows f \<noteq> 0" using assms(3) by (auto dest: dvd_imp_le)
  then have fits: "fusion_rows f < 2 ^ 64" using unat_u64_lt [of rows] by simp
  have "unat (sum_list (map part_share (fus_parts f))) = ?sum"
    using assms(1) unat_sum_list_u64 [of "map part_share (fus_parts f)"] by (simp add: shares_fit_def comp_def)
  then obtain units where u: "fusion_units f = Some units" "unat units = fusion_rows f"
    using checked_mul_defined [of "sum_list (map part_share (fus_parts f))" "fus_groups f"] fits
    by (auto simp: fusion_units_def fusion_rows_def)
  have nz: "units \<noteq> 0" using u(2) \<open>fusion_rows f \<noteq> 0\<close> by auto
  let ?ub = "unat n div unat rows * (unat rows div fusion_rows f)"
  have whole: "?ub * fusion_rows f = unat n" using assms(3,4) by (simp add: mult.assoc)
  then have "?ub \<le> unat n" using \<open>fusion_rows f \<noteq> 0\<close> by (metis le_add1 mult.right_neutral mult_le_mono2 not0_implies_Suc plus_1_eq_Suc)
  then have "?ub < 2 ^ 64" using unat_u64_lt [of n] by simp
  then obtain ub where ub: "checked_mul (n div rows) (rows div units) = Some ub" "unat ub = ?ub"
    using checked_mul_defined [of "n div rows" "rows div units"] u(2) by (auto simp: unat_div_u64)
  have "checked_mul ub (part_share part) \<noteq> None" if part: "part \<in> set (fus_parts f)" for part
  proof -
    have "unat (part_share part) \<le> ?sum" using part by (intro member_le_sum_list) auto
    also have "\<dots> \<le> fusion_rows f" using \<open>fusion_rows f \<noteq> 0\<close> by (auto simp: fusion_rows_def)
    finally have "unat ub * unat (part_share part) \<le> unat n" unfolding ub(2) using whole by (metis mult_le_mono2)
    then have "unat ub * unat (part_share part) < 2 ^ 64" using unat_u64_lt [of n] by simp
    then show ?thesis using checked_mul_defined by fastforce
  qed
  then have "\<exists>runs. those (concat (map (\<lambda>g. map (\<lambda>part. map_option (\<lambda>len. \<lparr>run_role = fusion_role f g part, run_length = len\<rparr>)
      (checked_mul ub (part_share part))) (fus_parts f)) [0..<unat (fus_groups f)])) = Some runs"
    by (intro those_defined) auto
  then show ?thesis using u nz ub(1) assms by (simp add: fusion_runs_def is_multiple_of_nat)
qed

text \<open>The pieces of the tensor that the declaration names, in file order: each has its share of the bytes.\<close>

definition declared_pieces :: "fusion \<Rightarrow> bytes \<Rightarrow> bytes list \<Rightarrow> bool" where
  "declared_pieces f tb pieces \<longleftrightarrow> concat pieces = tb \<and> length pieces = length (fusion_cells f) \<and>
     (\<forall>i < length pieces. length (pieces ! i) * fusion_rows f = length tb * unat (part_share (snd (fusion_cells f ! i))))"

lemma fusion_runs_pieces:
  assumes "shares_fit f" "fusion_runs f shape n = Some runs" "declared_pieces f tb pieces" "length tb = unat n"
  shows "map (unat \<circ> run_length) runs = map length pieces"
proof -
  from assms(2) obtain rows rest units and ub :: u64 where "shape = rows # rest" and u: "fusion_units f = Some units"
    and "rows \<noteq> 0" and nz: "units \<noteq> 0"
    and dvd: "unat units dvd unat rows" "unat rows dvd unat n"
    and ub: "unat ub = unat n div unat rows * (unat rows div unat units)"
    and len: "length runs = length (fusion_cells f)"
    and cell: "\<forall>i < length (fusion_cells f).
       unat (run_length (runs ! i)) = unat ub * unat (part_share (snd (fusion_cells f ! i))) \<and>
       run_role (runs ! i) = fusion_role f (fst (fusion_cells f ! i)) (snd (fusion_cells f ! i))"
    by (rule fusion_runsD)
  have units: "unat units = fusion_rows f" using fusion_units_nat [OF assms(1) u] by (simp add: fusion_rows_def)
  have pos: "0 < fusion_rows f" using nz units by (metis gr0I u64_eq_nat unat_0)
  have whole: "unat n = unat ub * fusion_rows f" using dvd ub units by (simp add: mult.assoc)
  show ?thesis
  proof (rule nth_equalityI)
    fix i assume "i < length (map (unat \<circ> run_length) runs)"
    then have i: "i < length (fusion_cells f)" using len by simp
    then have "length (pieces ! i) * fusion_rows f = unat n * unat (part_share (snd (fusion_cells f ! i)))"
      using assms(3,4) by (simp add: declared_pieces_def)
    then have "length (pieces ! i) * fusion_rows f = unat ub * unat (part_share (snd (fusion_cells f ! i))) * fusion_rows f"
      unfolding whole by (metis mult.commute mult.left_commute)
    then have "length (pieces ! i) = unat ub * unat (part_share (snd (fusion_cells f ! i)))" using pos by simp
    then show "map (unat \<circ> run_length) runs ! i = map length pieces ! i" using i len cell assms(3) by (simp add: declared_pieces_def)
  qed (use len assms(3) in \<open>simp add: declared_pieces_def\<close>)
qed


section \<open>The seams cut the pieces\<close>

lemma seam_parts_pieces:
  assumes "map (unat \<circ> run_length) runs = map length pieces" "runs \<noteq> []"
    and "tb = front @ concat pieces" "unat cursor = length front" "length tb < 2 ^ 64"
  shows "map (part_bytes tb 0) (seam_parts (unat cursor) (map unat (running_offsets cursor (butlast runs))) (length tb)) = pieces"
  using assms
proof (induction runs arbitrary: pieces front cursor)
  case (Cons run runs)
  obtain piece rest where p: "pieces = piece # rest" "unat (run_length run) = length piece" "map (unat \<circ> run_length) runs = map length rest"
    using Cons.prems(1) by (cases pieces) (auto simp: comp_def)
  show ?case
  proof (cases "runs = []")
    case True
    then show ?thesis using Cons.prems(3,4) p by (simp add: part_bytes_def)
  next
    case False
    have step: "unat (cursor + run_length run) = length (front @ piece)"
      using Cons.prems(3-5) p(1,2) by (simp add: unat_add_u64)
    from Cons.IH [OF p(3) False, of "front @ piece", OF _ step Cons.prems(5)] show ?thesis
      using False step Cons.prems(3,4) p(1) by (simp add: part_bytes_def)
  qed
qed simp

lemma fused_objects_pieces:
  assumes "entry_for c name = Some entry" "tp_fusion entry = Some f" "shares_fit f"
    and "shape = rows # rest" "rows \<noteq> 0" "fusion_rows f dvd unat rows" "unat rows dvd unat n"
    and "declared_pieces f tb pieces" "length tb = unat n" "\<forall>piece \<in> set pieces. 2 ^ 20 \<le> length piece"
  shows "tensor_objects (contract_seams (Some c) name shape n) tb = concat (map grid_chunks pieces)"
proof -
  obtain runs where runs: "fusion_runs f shape n = Some runs" using fusion_runs_defined [OF assms(3,5-7)] assms(4) by blast
  have lens: "map (unat \<circ> run_length) runs = map length pieces" by (rule fusion_runs_pieces [OF assms(3) runs assms(8,9)])
  have "\<not> run_length run < MIN_SEAM_PART_BYTES" if "run \<in> set runs" for run
  proof -
    have "unat (run_length run) \<in> set (map length pieces)" using that unfolding lens [symmetric] by auto
    then show ?thesis using assms(10) by (auto simp: MIN_SEAM_PART_BYTES_def u64_nat)
  qed
  then have "runs_of c name shape n = Some runs" using assms(1,2) runs by (auto simp: runs_of_def list_ex_iff)
  then have seams: "contract_seams (Some c) name shape n = running_offsets 0 (butlast runs)"
    by (simp add: contract_seams_def seam_offsets_def)
  have "map (part_bytes tb 0) (seam_parts (unat (0 :: u64)) (map unat (running_offsets 0 (butlast runs))) (length tb)) = pieces"
    by (rule seam_parts_pieces [OF lens fusion_runs_not_Nil [OF runs], where front = "[]"])
      (use assms(8,9) unat_u64_lt [of n] in \<open>simp_all add: declared_pieces_def\<close>)
  then show ?thesis by (simp add: tensor_objects_def seams flip: map_map)
qed

lemma tensor_objects_whole: "tensor_objects [] tb = grid_chunks tb"
  by (simp add: tensor_objects_def part_bytes_def)

lemma sublist_concat: "x \<in> set xs \<Longrightarrow> sublist x (concat xs)"
  by (metis concat.simps(2) concat_append split_list sublist_appendI)


section \<open>Tensors lie inside their file\<close>

lemma contiguous_inside: "contiguous d cursor ts = Some stop \<Longrightarrow> t \<in> set ts \<Longrightarrow> te_end t \<le> d"
  by (induction ts arbitrary: cursor) (auto simp: not_less split: if_splits)

lemma gguf_chain_inside:
  "gguf_chain al off ts d \<Longrightarrow> is_power_of_two al \<Longrightarrow> t \<in> set ts \<Longrightarrow> unat (ti_offset t) + unat (ti_length t) \<le> unat d"
proof (induction ts arbitrary: off)
  case (Cons u ts)
  from Cons.prems(1) obtain padded nx where u: "ti_offset u = off" "align_up (ti_length u) al = Some padded"
    "checked_add off padded = Some nx" and rest: "gguf_chain al nx ts d" by auto
  show ?case
  proof (cases "t = u")
    case True
    then show ?thesis using u align_up_bounds(2) [OF Cons.prems(2) u(2)] gguf_chain_le [OF rest] by (simp add: checked_add_Some_iff)
  qed (use Cons.IH [OF rest] Cons.prems in simp)
qed simp

lemma inventory_inside:
  assumes "inventory json_parse k (slice_source file) = Inr (Some iv)" "length file < 2 ^ 64" "t \<in> set (inv_tensors iv)"
  shows "length (tensor_bytes file (inv_offset t) (inv_length t)) = unat (inv_length t)"
proof -
  have "unat (inv_offset t) + unat (inv_length t) \<le> length file"
    using assms(1)
  proof (cases rule: inventory_cases)
    case (1 l)
    from gguf_parse_layout_ok [OF 1(1)] obtain d where d: "is_power_of_two (gl_alignment l)"
      "gguf_chain (gl_alignment l) 0 (gl_tensors l) d" "unat (gl_data_start l) + unat d = length file"
      using assms(2) by (auto simp: gguf_layout_ok_def slice_source_def)
    obtain u where u: "u \<in> set (gl_tensors l)" "inv_offset t = gl_data_start l + ti_offset u" "inv_length t = ti_length u"
      using assms(3) 1(2) by (auto simp: gguf_inventory_def)
    show ?thesis using gguf_chain_inside [OF d(2,1) u(1)] d(3) u(2,3) assms(2) by (simp add: unat_add_u64)
  next
    case (2 l)
    note lay = st_read_layout_Some [OF 2(1)]
    obtain u where u: "u \<in> set (st_tensors l)" "inv_offset t = st_header_end l + te_start u" "inv_length t = te_end u - te_start u"
      using assms(3) 2(2) by (auto simp: st_inventory_def)
    have "unat (st_header_end l) + unat (src_len (slice_source file) - st_header_end l) = length file"
      using lay(3) assms(2) by (simp add: slice_source_def unat_sub_u64 u64_nat)
    moreover have "te_end u \<le> src_len (slice_source file) - st_header_end l" by (rule contiguous_inside [OF lay(4) u(1)])
    ultimately show ?thesis using lay(5) [OF u(1)] u(2,3) assms(2) by (simp add: unat_add_u64 unat_sub_u64 u64_nat)
  qed
  then show ?thesis by (simp add: tensor_bytes_def)
qed


section \<open>The objects of a fused tensor\<close>

text \<open>A fused tensor of a hashed file, with the pieces its contract declares.\<close>

lemma fused_tensor_run:
  assumes "hasher_streams hs sha256" "length file < 2 ^ 64"
    and "plan_and_hash_under hs sha256 json_parse (slice_source file) (Some c) = Inr h"
    and "inventory json_parse k (slice_source file) = Inr (Some iv)" "planner_tensor_format (hp_planner h) = Some (inv_format iv)"
    and "t \<in> set (inv_tensors iv)" "entry_for c (inv_name t) = Some entry" "tp_fusion entry = Some f" "shares_fit f"
    and "inv_shape t = rows # rest" "rows \<noteq> 0" "fusion_rows f dvd unat rows" "unat rows dvd unat (inv_length t)"
    and "declared_pieces f (tensor_bytes file (inv_offset t) (inv_length t)) pieces" "pieces \<noteq> []"
    and "\<forall>piece \<in> set pieces. 2 ^ 20 \<le> length piece"
  shows "sublist (concat (map (map sha256 \<circ> grid_chunks) pieces)) (map po_digest (hp_objects h))"
proof -
  let ?tb = "tensor_bytes file (inv_offset t) (inv_length t)"
  have len: "length ?tb = unat (inv_length t)" by (rule inventory_inside [OF assms(4,2,6)])
  have "?tb \<noteq> []" using assms(14-16) by (cases pieces) (auto simp: declared_pieces_def)
  then have pos: "0 < inv_length t" using len by (metis length_0_conv unat_0 word_gt_0)
  have "tensor_objects (contract_seams (Some c) (inv_name t) (inv_shape t) (inv_length t)) ?tb = concat (map grid_chunks pieces)"
    by (rule fused_objects_pieces [OF assms(7-14) len assms(16)])
  then show ?thesis
    using hashed_tensor_run [OF assms(1-6) pos] by (simp add: map_concat)
qed

lemma whole_tensor_run:
  assumes "hasher_streams hs sha256" "length file < 2 ^ 64"
    and "plan_and_hash_under hs sha256 json_parse (slice_source file) con = Inr h"
    and "inventory json_parse k (slice_source file) = Inr (Some iv)" "planner_tensor_format (hp_planner h) = Some (inv_format iv)"
    and "t \<in> set (inv_tensors iv)" "contract_seams con (inv_name t) (inv_shape t) (inv_length t) = []"
    and "tensor_bytes file (inv_offset t) (inv_length t) = piece" "piece \<noteq> []"
  shows "sublist (map sha256 (grid_chunks piece)) (map po_digest (hp_objects h))"
proof -
  have "0 < inv_length t" using inventory_inside [OF assms(4,2,6)] assms(8,9) by (metis length_0_conv unat_0 word_gt_0)
  then show ?thesis using hashed_tensor_run [OF assms(1-6)] assms(7,8) by (simp add: tensor_objects_whole)
qed

end
