(* ===== verification/Tfm1_Types.thy ===== *)
theory Tfm1_Types
  imports Planner_Types
begin

text \<open>
  The manifest vocabulary of TFM1 (\<open>tfm1.rs\<close>): file bodies, entries, the path and record
  rules, the whole-tree rules, and the canonical encoding. Two facts about Unicode the
  source takes from outside are one parameter: the NFC test of \<open>unicode_normalization\<close> and
  the lowercase table of \<open>char::to_lowercase\<close>.
\<close>

section \<open>Data\<close>

definition MAX_PATH_BYTES :: nat where
  "MAX_PATH_BYTES = 4096"

definition MAX_SYMLINK_TARGET_BYTES :: nat where
  "MAX_SYMLINK_TARGET_BYTES = 4096"

definition MAX_FILE_RECORDS :: nat where
  "MAX_FILE_RECORDS = 1000000"

definition EMPTY_BLOB_DIGEST :: digest where
  "EMPTY_BLOB_DIGEST = digest_of_bytes
     [227, 176, 196, 66, 152, 252, 28, 20, 154, 251, 244, 200, 153, 111, 185, 36,
      39, 174, 65, 228, 100, 155, 147, 76, 164, 149, 153, 27, 120, 82, 184, 85]"

datatype tfm1_error =
    Tfm1Error_Truncated
  | Tfm1Error_BadMagic
  | Tfm1Error_ParentFlag
  | Tfm1Error_CountExceedsInput
  | Tfm1Error_TrailingBytes
  | Tfm1Error_EntryOrder
  | Tfm1Error_DuplicatePath
  | Tfm1Error_PathUtf8
  | Tfm1Error_PathLength
  | Tfm1Error_PathNotNfc
  | Tfm1Error_PathAbsolute
  | Tfm1Error_PathEmptySegment
  | Tfm1Error_PathDotSegment
  | Tfm1Error_PathForbiddenCharacter
  | Tfm1Error_PathTrailingDotSpace
  | Tfm1Error_PathWindowsReserved
  | Tfm1Error_CaseFoldCollision
  | Tfm1Error_MissingParentDirectory
  | Tfm1Error_UnknownEntryKind
  | Tfm1Error_ExecutableFlag
  | Tfm1Error_UnknownPlanner
  | Tfm1Error_ContractName
  | Tfm1Error_ContractVersion
  | Tfm1Error_UnknownRecordTag
  | Tfm1Error_ZeroLengthRecord
  | Tfm1Error_AdjacentHoles
  | Tfm1Error_DataTooLarge
  | Tfm1Error_RecordLimit
  | Tfm1Error_LengthSumMismatch
  | Tfm1Error_EmptyBlobDigest
  | Tfm1Error_BlobRecords
  | Tfm1Error_SymlinkTarget
  | Tfm1Error_HardlinkOrdinal
  | Tfm1Error_HardlinkTarget
  | Tfm1Error_ResourceExhausted

fun tfm1_error_reason :: "tfm1_error \<Rightarrow> str" where
  "tfm1_error_reason Tfm1Error_Truncated = ''truncated''"
| "tfm1_error_reason Tfm1Error_BadMagic = ''bad-magic''"
| "tfm1_error_reason Tfm1Error_ParentFlag = ''parent-flag''"
| "tfm1_error_reason Tfm1Error_CountExceedsInput = ''count-exceeds-input''"
| "tfm1_error_reason Tfm1Error_TrailingBytes = ''trailing-bytes''"
| "tfm1_error_reason Tfm1Error_EntryOrder = ''entry-order''"
| "tfm1_error_reason Tfm1Error_DuplicatePath = ''duplicate-path''"
| "tfm1_error_reason Tfm1Error_PathUtf8 = ''path-utf8''"
| "tfm1_error_reason Tfm1Error_PathLength = ''path-length''"
| "tfm1_error_reason Tfm1Error_PathNotNfc = ''path-not-nfc''"
| "tfm1_error_reason Tfm1Error_PathAbsolute = ''path-absolute''"
| "tfm1_error_reason Tfm1Error_PathEmptySegment = ''path-empty-segment''"
| "tfm1_error_reason Tfm1Error_PathDotSegment = ''path-dot-segment''"
| "tfm1_error_reason Tfm1Error_PathForbiddenCharacter = ''path-forbidden-character''"
| "tfm1_error_reason Tfm1Error_PathTrailingDotSpace = ''path-trailing-dot-space''"
| "tfm1_error_reason Tfm1Error_PathWindowsReserved = ''path-windows-reserved''"
| "tfm1_error_reason Tfm1Error_CaseFoldCollision = ''case-fold-collision''"
| "tfm1_error_reason Tfm1Error_MissingParentDirectory = ''missing-parent-directory''"
| "tfm1_error_reason Tfm1Error_UnknownEntryKind = ''unknown-entry-kind''"
| "tfm1_error_reason Tfm1Error_ExecutableFlag = ''executable-flag''"
| "tfm1_error_reason Tfm1Error_UnknownPlanner = ''unknown-planner''"
| "tfm1_error_reason Tfm1Error_ContractName = ''contract-name''"
| "tfm1_error_reason Tfm1Error_ContractVersion = ''contract-version''"
| "tfm1_error_reason Tfm1Error_UnknownRecordTag = ''unknown-record-tag''"
| "tfm1_error_reason Tfm1Error_ZeroLengthRecord = ''zero-length-record''"
| "tfm1_error_reason Tfm1Error_AdjacentHoles = ''adjacent-holes''"
| "tfm1_error_reason Tfm1Error_DataTooLarge = ''data-too-large''"
| "tfm1_error_reason Tfm1Error_RecordLimit = ''record-limit''"
| "tfm1_error_reason Tfm1Error_LengthSumMismatch = ''length-sum-mismatch''"
| "tfm1_error_reason Tfm1Error_EmptyBlobDigest = ''empty-blob-digest''"
| "tfm1_error_reason Tfm1Error_BlobRecords = ''blob-records''"
| "tfm1_error_reason Tfm1Error_SymlinkTarget = ''symlink-target''"
| "tfm1_error_reason Tfm1Error_HardlinkOrdinal = ''hardlink-ordinal''"
| "tfm1_error_reason Tfm1Error_HardlinkTarget = ''hardlink-target''"
| "tfm1_error_reason Tfm1Error_ResourceExhausted = ''resource-exhausted''"

record unicode =
  uc_is_nfc :: "str \<Rightarrow> bool"
  uc_to_lowercase :: "nat \<Rightarrow> nat list"

type_synonym snapshot_id = digest

definition snapshot_id_parse_hex :: "str \<Rightarrow> snapshot_id option" where
  "snapshot_id_parse_hex hex = parse_hex64 hex"

definition snapshot_id_display :: "snapshot_id \<Rightarrow> str" where
  "snapshot_id_display i = hex_bytes (digest_bytes i)"

datatype file_record =
    FileRecord_Data digest u64
  | FileRecord_Hole u64

fun record_length :: "file_record \<Rightarrow> u64" where
  "record_length (FileRecord_Data _ len) = len"
| "record_length (FileRecord_Hole len) = len"

datatype file_body =
    FileBody_Tensor tensor_format stamp u64 "file_record list"
  | FileBody_Blob u64 digest

fun body_logical_size :: "file_body \<Rightarrow> u64" where
  "body_logical_size (FileBody_Tensor _ _ logical_size _) = logical_size"
| "body_logical_size (FileBody_Blob logical_size _) = logical_size"

fun body_planner_id :: "file_body \<Rightarrow> planner_id" where
  "body_planner_id (FileBody_Tensor f _ _ _) = format_planner_id f"
| "body_planner_id (FileBody_Blob _ _) = PlannerId_BlobV1"

fun body_records :: "file_body \<Rightarrow> file_record list" where
  "body_records (FileBody_Tensor _ _ _ records) = records"
| "body_records (FileBody_Blob logical_size d) =
     (if logical_size = 0 then [] else [FileRecord_Data d logical_size])"

datatype entry =
    Entry_Directory
  | Entry_File bool file_body
  | Entry_Symlink str
  | Entry_Hardlink u64

datatype tree_entry =
    TreeEntry_Directory
  | TreeEntry_File bool planner_id stamp "file_record list"
  | TreeEntry_Symlink str
  | TreeEntry_Hardlink u64

fun is_Directory :: "entry \<Rightarrow> bool" where
  "is_Directory Entry_Directory = True"
| "is_Directory _ = False"

fun is_File :: "entry \<Rightarrow> bool" where
  "is_File (Entry_File _ _) = True"
| "is_File _ = False"

fun tree_is_Directory :: "tree_entry \<Rightarrow> bool" where
  "tree_is_Directory TreeEntry_Directory = True"
| "tree_is_Directory _ = False"

fun tree_is_File :: "tree_entry \<Rightarrow> bool" where
  "tree_is_File (TreeEntry_File _ _ _ _) = True"
| "tree_is_File _ = False"

record snapshot =
  snap_parent :: "snapshot_id option"
  snap_entries :: "(str \<times> entry) list"

text \<open>\<open>ordinal_path\<close> of a snapshot and of a head tree: the path of the n-th file in entry order.\<close>

definition nth_path :: "('e \<Rightarrow> bool) \<Rightarrow> (str \<times> 'e) list \<Rightarrow> u64 \<Rightarrow> str option" where
  "nth_path is_file entries ordinal =
     (let files = filter (\<lambda>(path, entry). is_file entry) entries in
      if unat ordinal < length files then Some (fst (files ! unat ordinal)) else None)"

definition ordinal_path :: "snapshot \<Rightarrow> u64 \<Rightarrow> str option" where
  "ordinal_path s ordinal = nth_path is_File (snap_entries s) ordinal"

definition tree_ordinal_path :: "(str \<times> tree_entry) list \<Rightarrow> u64 \<Rightarrow> str option" where
  "tree_ordinal_path entries ordinal = nth_path tree_is_File entries ordinal"


section \<open>Validation\<close>

definition WINDOWS_RESERVED :: "str list" where
  "WINDOWS_RESERVED =
     [''CON'', ''PRN'', ''AUX'', ''NUL'', ''COM1'', ''COM2'', ''COM3'', ''COM4'', ''COM5'', ''COM6'', ''COM7'',
      ''COM8'', ''COM9'', ''LPT1'', ''LPT2'', ''LPT3'', ''LPT4'', ''LPT5'', ''LPT6'', ''LPT7'', ''LPT8'', ''LPT9'']"

text \<open>The characters a path segment may not hold: backslash, colon, star, question mark, double
  quote, angle brackets and bar, besides the control characters.\<close>

definition forbidden_char :: "nat \<Rightarrow> bool" where
  "forbidden_char c = (is_control c \<or> c \<in> {0x5C, 0x3A, 0x2A, 0x3F, 0x22, 0x3C, 0x3E, 0x7C})"

definition validate_segment :: "str \<Rightarrow> tfm1_error + unit" where
  "validate_segment segment =
     (if segment = [] then Inl Tfm1Error_PathEmptySegment
      else if segment = ''.'' \<or> segment = ''..'' then Inl Tfm1Error_PathDotSegment
      else if list_ex forbidden_char (chars segment) then Inl Tfm1Error_PathForbiddenCharacter
      else if last segment = CHR ''.'' \<or> last segment = CHR '' '' then Inl Tfm1Error_PathTrailingDotSpace
      else
        let stem = hd (split_on CHR ''.'' segment) in
        if length stem \<le> 4 \<and> list_ex (eq_ignore_ascii_case stem) WINDOWS_RESERVED
        then Inl Tfm1Error_PathWindowsReserved else Inr ())"

fun validate_segments :: "str list \<Rightarrow> tfm1_error + unit" where
  "validate_segments [] = Inr ()"
| "validate_segments (segment # segments) =
     and_then (validate_segment segment) (\<lambda>_. validate_segments segments)"

definition validate_path :: "unicode \<Rightarrow> str \<Rightarrow> tfm1_error + unit" where
  "validate_path u path =
     (if path = [] \<or> MAX_PATH_BYTES < length path then Inl Tfm1Error_PathLength
      else if \<not> uc_is_nfc u path then Inl Tfm1Error_PathNotNfc
      else if hd path = CHR ''/'' then Inl Tfm1Error_PathAbsolute
      else validate_segments (split_on CHR ''/'' path))"

definition validate_symlink_target :: "str \<Rightarrow> tfm1_error + unit" where
  "validate_symlink_target target =
     (if target = [] \<or> MAX_SYMLINK_TARGET_BYTES < length target \<or> list_ex is_control (chars target)
      then Inl Tfm1Error_SymlinkTarget else Inr ())"

text \<open>The loop of \<open>validate_record_run\<close>, returning the sum of the lengths.\<close>

fun record_run :: "u64 \<Rightarrow> bool \<Rightarrow> file_record list \<Rightarrow> tfm1_error + u64" where
  "record_run acc hole [] = Inr acc"
| "record_run acc hole (r # rs) =
     (if record_length r = 0 then Inl Tfm1Error_ZeroLengthRecord
      else and_then
        (case r of
           FileRecord_Data _ _ \<Rightarrow> Inr False
         | FileRecord_Hole _ \<Rightarrow> if hole then Inl Tfm1Error_AdjacentHoles else Inr True) (\<lambda>hole.
        and_then (ok_or (checked_add acc (record_length r)) Tfm1Error_LengthSumMismatch) (\<lambda>acc.
          record_run acc hole rs)))"

definition validate_record_run :: "file_record list \<Rightarrow> u64 \<Rightarrow> tfm1_error + unit" where
  "validate_record_run records logical_size =
     (if MAX_FILE_RECORDS < length records then Inl Tfm1Error_RecordLimit
      else and_then (record_run 0 False records) (\<lambda>sum.
        if sum \<noteq> logical_size then Inl Tfm1Error_LengthSumMismatch else Inr ()))"

fun data_too_large :: "file_record \<Rightarrow> bool" where
  "data_too_large (FileRecord_Data _ len) = (MAX_OBJECT_SIZE < len)"
| "data_too_large (FileRecord_Hole _) = False"

definition validate_records :: "file_record list \<Rightarrow> u64 \<Rightarrow> tfm1_error + unit" where
  "validate_records records logical_size =
     and_then (validate_record_run records logical_size) (\<lambda>_.
       if list_ex data_too_large records then Inl Tfm1Error_DataTooLarge else Inr ())"

definition case_fold :: "unicode \<Rightarrow> str \<Rightarrow> nat list" where
  "case_fold u path = concat (map (uc_to_lowercase u) (chars path))"

fun parents_present :: "str list \<Rightarrow> str list \<Rightarrow> bool" where
  "parents_present directories [] = True"
| "parents_present directories (path # paths) =
     ((case rsplit_once CHR ''/'' path of
         None \<Rightarrow> True
       | Some (parent, _) \<Rightarrow> parent \<in> set directories) \<and> parents_present directories paths)"

definition validate_tree :: "unicode \<Rightarrow> ('e \<Rightarrow> bool) \<Rightarrow> (str \<times> 'e) list \<Rightarrow> tfm1_error + unit" where
  "validate_tree u is_directory entries =
     (if \<not> distinct (map (case_fold u \<circ> fst) entries) then Inl Tfm1Error_CaseFoldCollision
      else if \<not> parents_present (map fst (filter (\<lambda>(path, entry). is_directory entry) entries))
                  (map fst entries)
      then Inl Tfm1Error_MissingParentDirectory
      else Inr ())"


section \<open>The canonical encoding\<close>

definition TFM1_MAGIC :: bytes where
  "TFM1_MAGIC = as_bytes ''TFM1''"

fun planner_tag :: "file_body \<Rightarrow> u8" where
  "planner_tag (FileBody_Tensor TensorFormat_SafetensorsV1 _ _ _) = 1"
| "planner_tag (FileBody_Tensor TensorFormat_GgufV1 _ _ _) = 2"
| "planner_tag (FileBody_Blob _ _) = 4"

fun emit_stamp :: "stamp \<Rightarrow> bytes" where
  "emit_stamp (Stamp_Digest d) = 0xFF # digest_bytes d"
| "emit_stamp s =
     (let name = (case stamp_name s of None \<Rightarrow> [] | Some n \<Rightarrow> n) in
      of_nat (length name) # as_bytes name @ u32_le (stamp_version s))"

fun emit_record :: "file_record \<Rightarrow> bytes" where
  "emit_record (FileRecord_Data d len) = 1 # digest_bytes d @ u64_le len"
| "emit_record (FileRecord_Hole len) = 2 # u64_le len"

fun emit_body :: "file_body \<Rightarrow> bytes" where
  "emit_body (FileBody_Tensor f contract logical_size records) =
     planner_tag (FileBody_Tensor f contract logical_size records) # u64_le logical_size
       @ emit_stamp contract @ u64_le (of_nat (length records)) @ concat (map emit_record records)"
| "emit_body (FileBody_Blob logical_size d) =
     planner_tag (FileBody_Blob logical_size d) # u64_le logical_size @ digest_bytes d"

fun emit_entry :: "entry \<Rightarrow> bytes" where
  "emit_entry Entry_Directory = [1]"
| "emit_entry (Entry_File executable body) = 2 # (if executable then 1 else 0) # emit_body body"
| "emit_entry (Entry_Symlink target) = 3 # u32_le (of_nat (length target)) @ as_bytes target"
| "emit_entry (Entry_Hardlink ordinal) = 4 # u64_le ordinal"

definition emit_path :: "str \<Rightarrow> bytes" where
  "emit_path path = u32_le (of_nat (length path)) @ as_bytes path"

definition emit_parent :: "snapshot_id option \<Rightarrow> bytes" where
  "emit_parent parent = (case parent of None \<Rightarrow> [0] | Some p \<Rightarrow> 1 # digest_bytes p)"

definition emit_pair :: "str \<times> entry \<Rightarrow> bytes" where
  "emit_pair = (\<lambda>(path, entry). emit_path path @ emit_entry entry)"

definition emit :: "snapshot_id option \<Rightarrow> (str \<times> entry) list \<Rightarrow> bytes" where
  "emit parent entries =
     TFM1_MAGIC @ emit_parent parent @ u64_le (of_nat (length entries)) @ concat (map emit_pair entries)"

definition to_bytes :: "snapshot \<Rightarrow> bytes" where
  "to_bytes s = emit (snap_parent s) (snap_entries s)"

definition snapshot_id_of :: "(bytes \<Rightarrow> digest) \<Rightarrow> snapshot \<Rightarrow> snapshot_id" where
  "snapshot_id_of sha256 s = sha256 (to_bytes s)"

definition body_sha256 :: "(bytes \<Rightarrow> digest) \<Rightarrow> file_body \<Rightarrow> digest" where
  "body_sha256 sha256 body = sha256 (emit_body body)"


section \<open>What the record rules say\<close>

fun is_hole :: "file_record \<Rightarrow> bool" where
  "is_hole (FileRecord_Hole _) = True"
| "is_hole (FileRecord_Data _ _) = False"

lemma checked_sum_step:
  "(\<exists>a. checked_add acc len = Some a \<and> P \<and> Q \<and> R \<and> unat sz = unat a + n) \<longleftrightarrow>
   P \<and> Q \<and> R \<and> unat (sz :: u64) = unat acc + unat len + n"
proof -
  have "\<exists>a. checked_add acc len = Some a \<and> unat sz = unat a + n" if s: "unat sz = unat acc + unat len + n"
  proof -
    have "unat acc + unat len < 2 ^ 64" using s unat_u64_lt [of sz] by simp
    then have "checked_add acc len = Some (acc + len)" by (simp add: checked_add_def)
    with s show ?thesis by (auto simp: checked_add_Some_iff)
  qed
  then show ?thesis by (auto simp: checked_add_Some_iff)
qed

lemma record_run_iff:
  "record_run acc hole rs = Inr sz \<longleftrightarrow>
   (\<forall>r \<in> set rs. record_length r \<noteq> 0) \<and> (hole \<and> rs \<noteq> [] \<longrightarrow> \<not> is_hole (hd rs)) \<and>
   successively (\<lambda>a b. \<not> (is_hole a \<and> is_hole b)) rs \<and>
   unat sz = unat acc + sum_list (map (unat \<circ> record_length) rs)"
proof (induction rs arbitrary: acc hole)
  case Nil
  then show ?case by (auto simp: u64_eq_nat)
next
  case (Cons r rs)
  show ?case
  proof (cases r)
    case (FileRecord_Data d len)
    have "record_run acc hole (r # rs) = Inr sz \<longleftrightarrow> len \<noteq> 0 \<and>
        (\<exists>a. checked_add acc len = Some a \<and> record_run a False rs = Inr sz)"
      by (simp add: FileRecord_Data result_simps)
    then show ?thesis unfolding Cons.IH checked_sum_step
      by (auto simp: FileRecord_Data successively_Cons comp_def)
  next
    case (FileRecord_Hole len)
    have "record_run acc hole (r # rs) = Inr sz \<longleftrightarrow> len \<noteq> 0 \<and> \<not> hole \<and>
        (\<exists>a. checked_add acc len = Some a \<and> record_run a True rs = Inr sz)"
      by (auto simp: FileRecord_Hole result_simps split: if_splits)
    then show ?thesis unfolding Cons.IH checked_sum_step
      by (auto simp: FileRecord_Hole successively_Cons comp_def)
  qed
qed

lemma not_large_iff:
  "\<not> list_ex data_too_large rs \<longleftrightarrow> (\<forall>d len. FileRecord_Data d len \<in> set rs \<longrightarrow> unat len \<le> 67108864)"
proof -
  have "list_ex data_too_large rs \<longleftrightarrow> (\<exists>d len. FileRecord_Data d len \<in> set rs \<and> MAX_OBJECT_SIZE < len)"
    by (auto simp: list_ex_iff elim!: data_too_large.elims(2)) force
  then show ?thesis by (auto simp: MAX_OBJECT_SIZE_def not_less word_le_nat_alt)
qed

lemma validate_records_iff:
  "validate_records rs sz = Inr () \<longleftrightarrow>
   length rs \<le> 1000000 \<and> (\<forall>r \<in> set rs. record_length r \<noteq> 0) \<and>
   successively (\<lambda>a b. \<not> (is_hole a \<and> is_hole b)) rs \<and>
   sum_list (map (unat \<circ> record_length) rs) = unat sz \<and> \<not> list_ex data_too_large rs"
proof -
  have "(\<exists>s. record_run 0 False rs = Inr s \<and> s = sz) \<longleftrightarrow> record_run 0 False rs = Inr sz" by blast
  then show ?thesis
    by (auto simp: validate_records_def validate_record_run_def result_simps record_run_iff MAX_FILE_RECORDS_def)
qed

end
