(* ===== verification/Tfm1_Decode.thy ===== *)
theory Tfm1_Decode
  imports Tfm1_Types
begin

text \<open>
  The strict TFM1 decoder (\<open>decode\<close>, \<open>decode_tensor_body\<close>, \<open>decode_stamp\<close> of \<open>tfm1.rs\<close>) and the
  theorem its module comment claims: the decoder accepts exactly the canonical encodings of the
  valid snapshots. Each field of the format is an instance of the field codec interface, so the
  whole-manifest theorem is assembled from the instances. Allocation is taken to succeed, so
  \<open>ResourceExhausted\<close> is never produced here.
\<close>

section \<open>Decoding\<close>

abbreviation tfm1_take :: "nat \<Rightarrow> reader \<Rightarrow> tfm1_error + bytes \<times> reader" where
  "tfm1_take \<equiv> reader_take Tfm1Error_Truncated"

abbreviation tfm1_u8 :: "reader \<Rightarrow> tfm1_error + u8 \<times> reader" where
  "tfm1_u8 \<equiv> take_u8 Tfm1Error_Truncated"

abbreviation tfm1_u32 :: "reader \<Rightarrow> tfm1_error + u32 \<times> reader" where
  "tfm1_u32 \<equiv> take_u32 Tfm1Error_Truncated"

abbreviation tfm1_u64 :: "reader \<Rightarrow> tfm1_error + u64 \<times> reader" where
  "tfm1_u64 \<equiv> take_u64 Tfm1Error_Truncated"

abbreviation tfm1_digest :: "reader \<Rightarrow> tfm1_error + digest \<times> reader" where
  "tfm1_digest \<equiv> take_digest Tfm1Error_Truncated"

definition decode_record :: "reader \<Rightarrow> tfm1_error + file_record \<times> reader" where
  "decode_record r =
     and_then (tfm1_u8 r) (\<lambda>(tag, r).
       if tag = 1 then
         and_then (tfm1_digest r) (\<lambda>(d, r).
         and_then (tfm1_u64 r) (\<lambda>(len, r). Inr (FileRecord_Data d len, r)))
       else if tag = 2 then and_then (tfm1_u64 r) (\<lambda>(len, r). Inr (FileRecord_Hole len, r))
       else Inl Tfm1Error_UnknownRecordTag)"

definition decode_stamp :: "reader \<Rightarrow> tfm1_error + stamp \<times> reader" where
  "decode_stamp r =
     and_then (tfm1_u8 r) (\<lambda>(len, r).
       if len = 0xFF then and_then (tfm1_digest r) (\<lambda>(d, r). Inr (Stamp_Digest d, r))
       else if MAX_CONTRACT_NAME_BYTES < unat len then Inl Tfm1Error_ContractName
       else
       and_then (tfm1_take (unat len) r) (\<lambda>(bs, r).
       and_then (ok_or (from_utf8 bs) Tfm1Error_ContractName) (\<lambda>name.
       and_then (tfm1_u32 r) (\<lambda>(version, r).
         if name = [] then
           (if version \<noteq> 0 then Inl Tfm1Error_ContractVersion else Inr (Stamp_None, r))
         else if version = 0 then Inl Tfm1Error_ContractVersion
         else and_then (map_err (\<lambda>_. Tfm1Error_ContractName) (stamp_named name version)) (\<lambda>s.
           Inr (s, r))))))"

definition MIN_ENTRY_BYTES :: u64 where
  "MIN_ENTRY_BYTES = 4 + 1 + 1"

definition MIN_RECORD_BYTES :: u64 where
  "MIN_RECORD_BYTES = 1 + 8"

definition decode_tensor_body :: "tensor_format \<Rightarrow> reader \<Rightarrow> tfm1_error + file_body \<times> reader" where
  "decode_tensor_body f r =
     and_then (tfm1_u64 r) (\<lambda>(logical_size, r).
     and_then (decode_stamp r) (\<lambda>(contract, r).
     and_then (tfm1_u64 r) (\<lambda>(record_count, r).
       if of_nat MAX_FILE_RECORDS < record_count then Inl Tfm1Error_RecordLimit
       else if remaining_u64 r div MIN_RECORD_BYTES < record_count then Inl Tfm1Error_CountExceedsInput
       else
       and_then (parse_times decode_record (unat record_count) r) (\<lambda>(records, r).
       and_then (validate_records records logical_size) (\<lambda>_.
         Inr (FileBody_Tensor f contract logical_size records, r))))))"

definition decode_body :: "reader \<Rightarrow> tfm1_error + file_body \<times> reader" where
  "decode_body r =
     and_then (tfm1_u8 r) (\<lambda>(tag, r).
       if tag = 1 then decode_tensor_body TensorFormat_SafetensorsV1 r
       else if tag = 2 then decode_tensor_body TensorFormat_GgufV1 r
       else if tag = 4 then
         and_then (tfm1_u64 r) (\<lambda>(logical_size, r).
         and_then (tfm1_digest r) (\<lambda>(d, r).
           if logical_size = 0 \<and> d \<noteq> EMPTY_BLOB_DIGEST then Inl Tfm1Error_EmptyBlobDigest
           else Inr (FileBody_Blob logical_size d, r)))
       else Inl Tfm1Error_UnknownPlanner)"

definition decode_entry :: "u64 \<Rightarrow> reader \<Rightarrow> tfm1_error + entry \<times> reader" where
  "decode_entry assigned_ordinals r =
     and_then (tfm1_u8 r) (\<lambda>(kind, r).
       if kind = 1 then Inr (Entry_Directory, r)
       else if kind = 2 then
         and_then (tfm1_u8 r) (\<lambda>(flag, r).
         and_then (if flag = 0 then Inr False else if flag = 1 then Inr True
                   else Inl Tfm1Error_ExecutableFlag) (\<lambda>executable.
         and_then (decode_body r) (\<lambda>(body, r). Inr (Entry_File executable body, r))))
       else if kind = 3 then
         and_then (tfm1_u32 r) (\<lambda>(target_length, r).
           if MAX_SYMLINK_TARGET_BYTES < unat target_length then Inl Tfm1Error_SymlinkTarget
           else
           and_then (tfm1_take (unat target_length) r) (\<lambda>(bs, r).
           and_then (ok_or (from_utf8 bs) Tfm1Error_SymlinkTarget) (\<lambda>target.
           and_then (validate_symlink_target target) (\<lambda>_. Inr (Entry_Symlink target, r)))))
       else if kind = 4 then
         and_then (tfm1_u64 r) (\<lambda>(ordinal, r).
           if assigned_ordinals \<le> ordinal then Inl Tfm1Error_HardlinkOrdinal
           else Inr (Entry_Hardlink ordinal, r))
       else Inl Tfm1Error_UnknownEntryKind)"

definition decode_path :: "unicode \<Rightarrow> reader \<Rightarrow> tfm1_error + str \<times> reader" where
  "decode_path u r =
     and_then (tfm1_u32 r) (\<lambda>(path_length, r).
       if path_length = 0 \<or> MAX_PATH_BYTES < unat path_length then Inl Tfm1Error_PathLength
       else
       and_then (tfm1_take (unat path_length) r) (\<lambda>(bs, r).
       and_then (ok_or (from_utf8 bs) Tfm1Error_PathUtf8) (\<lambda>path.
       and_then (validate_path u path) (\<lambda>_. Inr (path, r)))))"

definition check_order :: "str option \<Rightarrow> str \<Rightarrow> tfm1_error + unit" where
  "check_order previous path =
     (case previous of
        None \<Rightarrow> Inr ()
      | Some p \<Rightarrow>
          if p < path then Inr ()
          else if p = path then Inl Tfm1Error_DuplicatePath
          else Inl Tfm1Error_EntryOrder)"

fun decode_entries :: "unicode \<Rightarrow> nat \<Rightarrow> str option \<Rightarrow> u64 \<Rightarrow> reader \<Rightarrow>
    tfm1_error + (str \<times> entry) list \<times> reader" where
  "decode_entries u 0 previous assigned_ordinals r = Inr ([], r)"
| "decode_entries u (Suc n) previous assigned_ordinals r =
     and_then (decode_path u r) (\<lambda>(path, r).
     and_then (check_order previous path) (\<lambda>_.
     and_then (decode_entry assigned_ordinals r) (\<lambda>(entry, r).
     and_then (decode_entries u n (Some path)
         (if is_File entry then assigned_ordinals + 1 else assigned_ordinals) r) (\<lambda>(entries, r).
       Inr ((path, entry) # entries, r)))))"

definition decode_parent :: "reader \<Rightarrow> tfm1_error + snapshot_id option \<times> reader" where
  "decode_parent r =
     and_then (tfm1_u8 r) (\<lambda>(flag, r).
       if flag = 0 then Inr (None, r)
       else if flag = 1 then and_then (tfm1_digest r) (\<lambda>(d, r). Inr (Some d, r))
       else Inl Tfm1Error_ParentFlag)"

definition decode :: "unicode \<Rightarrow> bytes \<Rightarrow> tfm1_error + snapshot" where
  "decode u bs =
     and_then (tfm1_take 4 (new_reader bs)) (\<lambda>(magic, r).
     if magic \<noteq> TFM1_MAGIC then Inl Tfm1Error_BadMagic
     else
     and_then (decode_parent r) (\<lambda>(parent, r).
     and_then (tfm1_u64 r) (\<lambda>(entry_count, r).
     if remaining_u64 r div MIN_ENTRY_BYTES < entry_count then Inl Tfm1Error_CountExceedsInput
     else
     and_then (decode_entries u (unat entry_count) None 0 r) (\<lambda>(entries, r).
     if remaining_u64 r \<noteq> 0 then Inl Tfm1Error_TrailingBytes
     else
     and_then (validate_tree u is_Directory entries) (\<lambda>_.
       Inr \<lparr>snap_parent = parent, snap_entries = entries\<rparr>)))))"


section \<open>Records and stamps\<close>


lemma decode_record_iff:
  assumes v: "reader_valid r"
  shows "decode_record r = Inr (x, r') \<longleftrightarrow> consumes (emit_record x) r r'"
  by (cases x) (simp_all add: decode_record_def decode_simps v split_paired_Ex cong: conj_cong)

lemma unat_of_nat_u8_small: "n < 256 \<Longrightarrow> unat (of_nat n :: u8) = n"
  by (simp add: unat_of_nat)


lemmas decode_string_simps = decode_simps stamp_named_Inr_iff from_utf8_Some_iff


lemma length_prefix_iff:
  "n < 256 \<Longrightarrow> n = unat (b :: u8) \<longleftrightarrow> b = of_nat n"
  "n < 4294967296 \<Longrightarrow> n = unat (w :: u32) \<longleftrightarrow> w = of_nat n"
  by (auto simp: unat_of_nat)

lemma decode_stamp_iff:
  assumes v: "reader_valid r"
  shows "decode_stamp r = Inr (x, r') \<longleftrightarrow> stamp_ok x \<and> consumes (emit_stamp x) r r'"
proof (cases x)
  case Stamp_None
  with v show ?thesis
    by (simp add: decode_stamp_def decode_string_simps cong: conj_cong)
      (auto simp: consumes_Nil MAX_CONTRACT_NAME_BYTES_def unat_eq_zero intro!: exI [of _ "0 :: u8"] exI [of _ "[]"])
next
  case (Stamp_Named h)
  obtain n w where h: "h = \<lparr>handle_name = n, handle_version = w\<rparr>" by (cases h) auto
  have name: "n \<noteq> []" "length n \<le> 64" "is_str n" "w \<noteq> 0" if "handle_ok h"
    using that contract_name_chars contract_name_is_str by (auto simp: handle_ok_def h)
  have small: "(of_nat (length n) :: u8) \<noteq> 255 \<and> length n < 256 \<and> unat (of_nat (length n) :: u8) = length n"
    if "handle_ok h" using name(2) [OF that] by (simp add: word_unat_eq_iff unat_of_nat)
  show ?thesis
  proof (cases "handle_ok h")
    case True
    with Stamp_Named v small [OF True] name [OF True] show ?thesis
      by (simp add: h decode_stamp_def decode_string_simps Let_def cong: conj_cong)
        (auto simp: MAX_CONTRACT_NAME_BYTES_def length_prefix_iff
          intro!: exI [of _ "of_nat (length n)"] exI [of _ "as_bytes n"])
  qed (use Stamp_Named v in \<open>simp add: h decode_stamp_def decode_string_simps cong: conj_cong\<close>)
qed (use v in \<open>simp add: decode_stamp_def decode_string_simps cong: conj_cong\<close>)

lemma decode_path_iff:
  assumes v: "reader_valid r"
  shows "decode_path u r = Inr (path, r') \<longleftrightarrow>
    (is_str path \<and> validate_path u path = Inr ()) \<and> consumes (emit_path path) r r'"
proof -
  have "path \<noteq> [] \<and> length path \<le> MAX_PATH_BYTES" if "validate_path u path = Inr ()"
    using that by (auto simp: validate_path_def split: if_splits)
  moreover have "(of_nat n :: u32) \<noteq> 0" if "0 < n" "n \<le> 4096" for n
    using that by (simp add: word_unat_eq_iff unat_of_nat)
  ultimately show ?thesis using v
    by (simp add: decode_path_def decode_string_simps emit_path_def cong: conj_cong)
      (auto simp: MAX_PATH_BYTES_def length_prefix_iff unat_of_nat)
qed

interpretation record_field: field_codec emit_record decode_record "\<lambda>_. True"
  by (rule field_codecI) (simp add: decode_record_iff)

interpretation stamp_field: field_codec emit_stamp decode_stamp stamp_ok
  by (rule field_codecI) (simp add: decode_stamp_iff)

interpretation path_field: field_codec emit_path "decode_path u" "\<lambda>p. is_str p \<and> validate_path u p = Inr ()"
  by (rule field_codecI) (simp add: decode_path_iff)

section \<open>File bodies\<close>

fun body_ok :: "file_body \<Rightarrow> bool" where
  "body_ok (FileBody_Tensor f contract logical_size records) =
     (stamp_ok contract \<and> validate_records records logical_size = Inr ())"
| "body_ok (FileBody_Blob logical_size d) = (logical_size = 0 \<longrightarrow> d = EMPTY_BLOB_DIGEST)"

lemma length_emit_record: "9 \<le> length (emit_record x)"
  by (cases x) simp_all

lemma validate_records_length: "validate_records records n = Inr () \<Longrightarrow> length records \<le> 1000000"
  by (auto simp: validate_records_def validate_record_run_def result_simps MAX_FILE_RECORDS_def
      split: if_splits)

lemma decode_tensor_body_iff:
  assumes v: "reader_valid r"
  shows "decode_tensor_body f r = Inr (x, r') \<longleftrightarrow>
    (\<exists>contract logical_size records. x = FileBody_Tensor f contract logical_size records \<and> body_ok x \<and>
      consumes (u64_le logical_size @ emit_stamp contract @ u64_le (of_nat (length records)) @
        concat (map emit_record records)) r r')" (is "?l \<longleftrightarrow> ?r")
proof
  assume ?l
  then show ?r using v
    by (auto simp: decode_tensor_body_def decode_simps stamp_field.parse_iff record_field.parse_times_iff
        cong: conj_cong) blast
next
  assume ?r
  then obtain c n rs r1 r2 r3 where x: "x = FileBody_Tensor f c n rs" and ok: "body_ok x"
    and m: "consumes (u64_le n) r r1" "consumes (emit_stamp c) r1 r2"
      "consumes (u64_le (of_nat (length rs))) r2 r3" "consumes (concat (map emit_record rs)) r3 r'"
    by (auto simp: consumes_append)
  have len: "length rs \<le> 1000000" using ok x by (auto dest: validate_records_length)
  have "\<not> remaining_u64 r3 div MIN_RECORD_BYTES < of_nat (length rs)"
    using len by (intro count_fits [OF m(4) length_concat_ge [of rs 9]])
      (simp_all add: length_emit_record MIN_RECORD_BYTES_def)
  moreover have "\<not> of_nat MAX_FILE_RECORDS < (of_nat (length rs) :: u64)"
    using len by (simp add: MAX_FILE_RECORDS_def not_less u64_nat)
  moreover have "tfm1_u64 r = Inr (n, r1)" "decode_stamp r1 = Inr (c, r2)"
    "tfm1_u64 r2 = Inr (of_nat (length rs), r3)" "parse_times decode_record (length rs) r3 = Inr (rs, r')"
    using m ok x v by (simp_all add: consumes_simps stamp_field.parse_iff record_field.parse_times_iff
        m [THEN consumes_reader_valid(1)] list_all_iff)
  ultimately show ?l using x ok len by (simp add: decode_tensor_body_def)
qed

lemma decode_body_iff:
  assumes v: "reader_valid r"
  shows "decode_body r = Inr (x, r') \<longleftrightarrow> body_ok x \<and> consumes (emit_body x) r r'"
proof (cases x)
  case (FileBody_Tensor f c n rs)
  then show ?thesis using v
    by (cases f) (simp_all add: decode_body_def decode_simps decode_tensor_body_iff cong: conj_cong, auto)
next
  case (FileBody_Blob n d)
  then show ?thesis using v
    by (simp add: decode_body_def decode_simps decode_tensor_body_iff cong: conj_cong) auto
qed

interpretation body_field: field_codec emit_body decode_body body_ok
  by (rule field_codecI) (rule decode_body_iff)

section \<open>Entries\<close>

fun entry_ok :: "u64 \<Rightarrow> entry \<Rightarrow> bool" where
  "entry_ok assigned Entry_Directory = True"
| "entry_ok assigned (Entry_File executable body) = body_ok body"
| "entry_ok assigned (Entry_Symlink target) = (is_str target \<and> validate_symlink_target target = Inr ())"
| "entry_ok assigned (Entry_Hardlink ordinal) = (ordinal < assigned)"

lemma decode_entry_iff:
  assumes v: "reader_valid r"
  shows "decode_entry assigned r = Inr (x, r') \<longleftrightarrow> entry_ok assigned x \<and> consumes (emit_entry x) r r'"
proof (cases x)
  case (Entry_File executable body)
  then show ?thesis using v
    by (simp add: decode_entry_def decode_simps body_field.parse_iff cong: conj_cong) auto
next
  case (Entry_Symlink target)
  have "length target \<le> 4096" if "validate_symlink_target target = Inr ()"
    using that by (auto simp: validate_symlink_target_def MAX_SYMLINK_TARGET_BYTES_def split: if_splits)
  with Entry_Symlink show ?thesis using v
    by (simp add: decode_entry_def decode_string_simps cong: conj_cong)
      (auto simp: MAX_SYMLINK_TARGET_BYTES_def length_prefix_iff unat_of_nat, blast+)
qed (use v in \<open>simp_all add: decode_entry_def decode_simps not_le cong: conj_cong\<close>, auto)

interpretation entry_field: field_codec emit_entry "decode_entry assigned" "entry_ok assigned"
  by (rule field_codecI) (rule decode_entry_iff)

fun entries_ok :: "unicode \<Rightarrow> str option \<Rightarrow> u64 \<Rightarrow> (str \<times> entry) list \<Rightarrow> bool" where
  "entries_ok u previous assigned [] = True"
| "entries_ok u previous assigned ((path, e) # es) =
     (is_str path \<and> validate_path u path = Inr () \<and> check_order previous path = Inr () \<and>
      entry_ok assigned e \<and>
      entries_ok u (Some path) (if is_File e then assigned + 1 else assigned) es)"

lemma decode_entries_iff:
  "reader_valid r \<Longrightarrow> decode_entries u n previous assigned r = Inr (es, r') \<longleftrightarrow>
   length es = n \<and> entries_ok u previous assigned es \<and> consumes (concat (map emit_pair es)) r r'"
proof (induction n arbitrary: previous assigned r es)
  case 0
  then show ?case by (auto simp: consumes_Nil)
next
  case (Suc n)
  note iffs = Suc.IH path_field.parse_iff entry_field.parse_iff
  show ?case
  proof
    assume "decode_entries u (Suc n) previous assigned r = Inr (es, r')"
    then show "length es = Suc n \<and> entries_ok u previous assigned es \<and>
        consumes (concat (map emit_pair es)) r r'"
      using Suc.prems
      by (simp add: decode_simps iffs cong: conj_cong) (auto simp: emit_pair_def consumes_append, blast)
  next
    assume *: "length es = Suc n \<and> entries_ok u previous assigned es \<and>
        consumes (concat (map emit_pair es)) r r'"
    then obtain path e fs where es: "es = (path, e) # fs" by (cases es) auto
    with * obtain r1 r2 where m: "consumes (emit_path path) r r1" "consumes (emit_entry e) r1 r2"
      "consumes (concat (map emit_pair fs)) r2 r'" by (auto simp: emit_pair_def consumes_append)
    have "decode_path u r = Inr (path, r1)" "decode_entry assigned r1 = Inr (e, r2)"
      "decode_entries u n (Some path) (if is_File e then assigned + 1 else assigned) r2 = Inr (fs, r')"
      using * es m Suc.prems by (simp_all only: iffs m [THEN consumes_reader_valid(1)]) simp_all
    with * es show "decode_entries u (Suc n) previous assigned r = Inr (es, r')" by simp
  qed
qed

section \<open>The decoder accepts exactly the canonical encodings\<close>

definition snapshot_ok :: "unicode \<Rightarrow> snapshot \<Rightarrow> bool" where
  "snapshot_ok u s \<longleftrightarrow> entries_ok u None 0 (snap_entries s) \<and>
     validate_tree u is_Directory (snap_entries s) = Inr ()"

lemma consumes_all:
  "length bs < 2 ^ 64 \<Longrightarrow> (\<exists>r'. consumes s (new_reader bs) r' \<and> reader_rest r' = []) \<longleftrightarrow> bs = s"
proof -
  assume "length bs < 2 ^ 64"
  then have "(\<exists>r'. consumes s (new_reader bs) r' \<and> reader_rest r' = []) \<longleftrightarrow>
      (\<exists>t. bs = s @ t) \<and> drop (length s) bs = []"
    by (auto simp: consumes_advance_iff simp del: drop_eq_Nil)
  then show ?thesis by auto
qed

lemma remaining_0_iff: "reader_valid r \<Longrightarrow> remaining_u64 r = 0 \<longleftrightarrow> reader_rest r = []"
proof -
  assume "reader_valid r"
  then have "length (reader_rest r) < 2 ^ 64" by (auto simp: reader_valid_def reader_rest_def)
  then show ?thesis by (simp add: remaining_u64_def reader_remaining_rest u64_eq_0_nat)
qed

lemma length_emit_pair: "entries_ok u previous assigned es \<Longrightarrow> x \<in> set es \<Longrightarrow> 6 \<le> length (emit_pair x)"
proof (induction es arbitrary: previous assigned)
  case (Cons y es)
  obtain path e where y: "y = (path, e)" by (cases y)
  have "path \<noteq> []" using Cons.prems(1) y by (auto simp: validate_path_def)
  moreover have "1 \<le> length (emit_entry e)" by (cases e) simp_all
  ultimately have "6 \<le> length (emit_pair y)"
    by (cases path) (simp_all add: y emit_pair_def emit_path_def trans_le_add2)
  with Cons y show ?case by auto
qed simp

interpretation parent_field: field_codec emit_parent decode_parent "\<lambda>_. True"
proof (rule field_codecI)
  show "decode_parent r = Inr (x, r') \<longleftrightarrow> True \<and> consumes (emit_parent x) r r'"
    if "reader_valid r" for r x r'
    using that by (cases x) (simp_all add: decode_parent_def emit_parent_def decode_simps cong: conj_cong)
qed

lemma to_bytes_parts:
  "to_bytes s = TFM1_MAGIC @ emit_parent (snap_parent s) @ u64_le (of_nat (length (snap_entries s))) @
     concat (map emit_pair (snap_entries s))"
  by (simp add: to_bytes_def emit_def)

lemma length_TFM1_MAGIC: "length TFM1_MAGIC = 4"
  by (simp add: TFM1_MAGIC_def)

lemma decode_iff:
  assumes len: "length bs < 2 ^ 64"
  shows "decode u bs = Inr s \<longleftrightarrow> snapshot_ok u s \<and> bs = to_bytes s"
proof
  assume "decode u bs = Inr s"
  then show "snapshot_ok u s \<and> bs = to_bytes s" using len
    unfolding decode_def consumes_all [OF len, symmetric] to_bytes_parts
    by (simp add: decode_simps parent_field.parse_iff decode_entries_iff snapshot_ok_def remaining_0_iff
        cong: conj_cong) (auto, blast)
next
  assume s: "snapshot_ok u s \<and> bs = to_bytes s"
  with consumes_all [OF len, of "to_bytes s"] obtain r' where
    c: "consumes (to_bytes s) (new_reader bs) r'" and fin: "reader_rest r' = []" by blast
  let ?es = "snap_entries s"
  from c obtain r1 r2 r3 where m: "consumes TFM1_MAGIC (new_reader bs) r1"
    "consumes (emit_parent (snap_parent s)) r1 r2" "consumes (u64_le (of_nat (length ?es))) r2 r3"
    "consumes (concat (map emit_pair ?es)) r3 r'"
    unfolding to_bytes_parts by (auto simp: consumes_append)
  have ok: "entries_ok u None 0 ?es" "validate_tree u is_Directory ?es = Inr ()"
    using s by (simp_all add: snapshot_ok_def)
  have six: "6 * length ?es \<le> length (concat (map emit_pair ?es))"
    by (rule length_concat_ge) (rule length_emit_pair [OF ok(1)])
  have "length (concat (map emit_pair ?es)) \<le> length bs" using s by (simp add: to_bytes_parts)
  with six len have cnt: "length ?es < 2 ^ 64" by simp
  have "\<not> remaining_u64 r3 div MIN_ENTRY_BYTES < of_nat (length ?es)"
    using cnt by (intro count_fits [OF m(4) six]) (simp_all add: MIN_ENTRY_BYTES_def)
  moreover have "tfm1_take 4 (new_reader bs) = Inr (TFM1_MAGIC, r1)"
    "decode_parent r1 = Inr (snap_parent s, r2)" "tfm1_u64 r2 = Inr (of_nat (length ?es), r3)"
    "decode_entries u (length ?es) None 0 r3 = Inr (?es, r')" "remaining_u64 r' = 0"
    using m ok fin len
    by (simp_all add: consumes_simps parent_field.parse_iff decode_entries_iff remaining_0_iff
        length_TFM1_MAGIC m [THEN consumes_reader_valid(1)])
  ultimately show "decode u bs = Inr s" using ok cnt by (simp add: decode_def)
qed


section \<open>What a valid snapshot promises\<close>

lemma check_order_iff: "check_order previous path = Inr () \<longleftrightarrow> (\<forall>p. previous = Some p \<longrightarrow> p < path)"
  by (auto simp: check_order_def split: option.splits)

lemma entries_ok_sorted:
  "entries_ok u previous assigned es \<Longrightarrow>
   sorted_wrt (<) (map fst es) \<and> (\<forall>p. previous = Some p \<longrightarrow> (\<forall>x \<in> set es. p < fst x))"
proof (induction es arbitrary: previous assigned)
  case (Cons y es)
  obtain path e where y: "y = (path, e)" by (cases y)
  with Cons show ?case by (fastforce simp: check_order_iff)
qed simp

lemma entries_ok_path:
  "entries_ok u previous assigned es \<Longrightarrow> (path, e) \<in> set es \<Longrightarrow>
   is_str path \<and> validate_path u path = Inr () \<and> (\<exists>a. entry_ok a e)"
  by (induction u previous assigned es rule: entries_ok.induct) auto

definition files_of :: "(str \<times> entry) list \<Rightarrow> (str \<times> entry) list" where
  "files_of es = filter (\<lambda>(path, e). is_File e) es"

lemma entries_ok_hardlink:
  "entries_ok u previous assigned (pre @ (path, Entry_Hardlink k) # post) \<Longrightarrow>
   unat k < unat assigned + length (files_of pre)"
proof (induction pre arbitrary: previous assigned)
  case (Cons y pre)
  obtain q e where y: "y = (q, e)" by (cases y)
  have "unat (assigned + 1) \<le> unat assigned + 1"
    by (simp add: unat_word_ariths)
  with Cons y show ?case by (fastforce simp: files_of_def split: if_splits)
qed (simp add: u64_nat files_of_def)

lemma hardlink_carrier:
  assumes "entries_ok u None 0 es" "(path, Entry_Hardlink k) \<in> set es"
  shows "\<exists>carrier executable body. nth_path is_File es k = Some carrier \<and> carrier < path \<and>
    (carrier, Entry_File executable body) \<in> set es"
proof -
  from assms(2) obtain pre post where es: "es = pre @ (path, Entry_Hardlink k) # post"
    by (meson split_list)
  have k: "unat k < length (files_of pre)" using entries_ok_hardlink assms(1) es by fastforce
  let ?f = "files_of pre ! unat k"
  have "?f \<in> set (files_of pre)" using k by simp
  then have f: "?f \<in> set pre" "is_File (snd ?f)" by (auto simp: files_of_def)
  have "sorted_wrt (<) (map fst es)" using entries_ok_sorted assms(1) by blast
  with f(1) have "fst ?f < path" by (auto simp: es sorted_wrt_append)
  moreover have "nth_path is_File es k = Some (fst ?f)"
    using k by (simp add: nth_path_def es files_of_def Let_def nth_append)
  moreover obtain x b where "snd ?f = Entry_File x b" using f(2) by (cases "snd ?f") auto
  ultimately show ?thesis using f(1) by (metis es UnCI prod.collapse set_append)
qed

lemma parents_present_iff:
  "parents_present ds ps \<longleftrightarrow> (\<forall>p \<in> set ps. \<forall>parent name. rsplit_once CHR ''/'' p = Some (parent, name) \<longrightarrow> parent \<in> set ds)"
  by (induction ps) (auto split: option.splits)

lemma ancestor_is_directory:
  assumes "validate_tree u is_Directory es = Inr ()" "(q @ CHR ''/'' # r, e) \<in> set es"
  shows "(q, Entry_Directory) \<in> set es"
  using assms(2)
proof (induction "length r" arbitrary: r e rule: less_induct)
  case less
  let ?ds = "map fst (filter (\<lambda>(path, entry). is_Directory entry) es)"
  have dirs: "(p, Entry_Directory) \<in> set es" if "p \<in> set ?ds" for p
    using that by (auto elim!: is_Directory.elims(2))
  have parents: "parents_present ?ds (map fst es)"
    using assms(1) by (auto simp: validate_tree_def split: if_splits)
  have in_dirs: "p \<in> set ?ds" if "rsplit_once CHR ''/'' (q @ CHR ''/'' # r) = Some (p, n)" for p n
    using parents that less.prems by (force simp: parents_present_iff)
  show ?case
  proof (cases "CHR ''/'' \<in> set r")
    case False
    then have "rsplit_once CHR ''/'' (q @ CHR ''/'' # r) = Some (q, r)" by (simp add: rsplit_once_Some_iff)
    then show ?thesis using in_dirs dirs by blast
  next
    case True
    then obtain r1 r2 where r: "r = r1 @ CHR ''/'' # r2" "CHR ''/'' \<notin> set r2"
      by (meson split_list_last)
    then have "rsplit_once CHR ''/'' (q @ CHR ''/'' # r) = Some (q @ CHR ''/'' # r1, r2)"
      by (simp add: rsplit_once_Some_iff)
    then have "(q @ CHR ''/'' # r1, Entry_Directory) \<in> set es" using in_dirs dirs by blast
    moreover have "length r1 < length r" using r by simp
    ultimately show ?thesis using less.hyps by blast
  qed
qed

end
