(* ===== verification/Tfm1_Builder.thy ===== *)
theory Tfm1_Builder
  imports Tfm1_Decode
begin

text \<open>
  The sole TFM1 writer, \<open>SnapshotBuilder\<close> of \<open>tfm1.rs\<close>: declarations in any order, resolved into a
  validated tree (duplicate refusal, hardlink groups re-rooted onto their first sorted path,
  ordinals), and canonicalised into a snapshot. The theorems: what it finishes is a valid
  snapshot, it does not depend on the order of the declarations, and a hardlink that names a file
  always resolves.
\<close>

section \<open>The builder\<close>

datatype pending =
    Pending_Directory
  | Pending_File bool planner_id stamp "file_record list"
  | Pending_Symlink str
  | Pending_HardlinkTo str

record snapshot_builder =
  sb_parent :: "snapshot_id option"
  sb_pending :: "(str \<times> pending) list"

definition builder_new :: "snapshot_id option \<Rightarrow> snapshot_builder" where
  "builder_new parent = \<lparr>sb_parent = parent, sb_pending = []\<rparr>"

definition builder_push :: "str \<Rightarrow> pending \<Rightarrow> snapshot_builder \<Rightarrow> snapshot_builder" where
  "builder_push path p b = b\<lparr>sb_pending := sb_pending b @ [(path, p)]\<rparr>"

definition builder_directory :: "str \<Rightarrow> snapshot_builder \<Rightarrow> snapshot_builder" where
  "builder_directory path b = builder_push path Pending_Directory b"

definition builder_file_under ::
    "str \<Rightarrow> bool \<Rightarrow> planner_id \<Rightarrow> stamp \<Rightarrow> file_record list \<Rightarrow> snapshot_builder \<Rightarrow> snapshot_builder" where
  "builder_file_under path executable planner contract records b =
     builder_push path (Pending_File executable planner contract records) b"

definition builder_file ::
    "str \<Rightarrow> bool \<Rightarrow> planner_id \<Rightarrow> file_record list \<Rightarrow> snapshot_builder \<Rightarrow> snapshot_builder" where
  "builder_file path executable planner records b =
     builder_file_under path executable planner Stamp_None records b"

definition builder_symlink :: "str \<Rightarrow> str \<Rightarrow> snapshot_builder \<Rightarrow> snapshot_builder" where
  "builder_symlink path target b = builder_push path (Pending_Symlink target) b"

definition builder_hardlink :: "str \<Rightarrow> str \<Rightarrow> snapshot_builder \<Rightarrow> snapshot_builder" where
  "builder_hardlink path target_path b = builder_push path (Pending_HardlinkTo target_path) b"

type_synonym pending_map = "(str \<times> pending) list"

fun check_pending :: "pending \<Rightarrow> tfm1_error + unit" where
  "check_pending (Pending_Symlink target) = validate_symlink_target target"
| "check_pending _ = Inr ()"

fun collect_pending :: "unicode \<Rightarrow> (str \<times> pending) list \<Rightarrow> pending_map \<Rightarrow> tfm1_error + pending_map" where
  "collect_pending u [] entries = Inr entries"
| "collect_pending u ((path, p) # rest) entries =
     and_then (validate_path u path) (\<lambda>_.
     and_then (check_pending p) (\<lambda>_.
       if map_of entries path \<noteq> None then Inl Tfm1Error_DuplicatePath
       else collect_pending u rest (bt_insert path p entries)))"

fun is_pending_file :: "pending \<Rightarrow> bool" where
  "is_pending_file (Pending_File _ _ _ _) = True"
| "is_pending_file _ = False"

fun group_links :: "pending_map \<Rightarrow> (str \<times> pending) list \<Rightarrow> (str \<times> str list) list \<Rightarrow>
    tfm1_error + (str \<times> str list) list" where
  "group_links entries [] groups = Inr groups"
| "group_links entries ((path, Pending_HardlinkTo target_path) # rest) groups =
     (case map_of entries target_path of
        Some (Pending_File _ _ _ _) \<Rightarrow>
          let links = (case map_of groups target_path of None \<Rightarrow> [] | Some ls \<Rightarrow> ls) in
          group_links entries rest (bt_insert target_path (links @ [path]) groups)
      | _ \<Rightarrow> Inl Tfm1Error_HardlinkTarget)"
| "group_links entries ((path, _) # rest) groups = group_links entries rest groups"

text \<open>One group re-rooted onto its first sorted path. While the groups are processed every remaining
  group still has its file (\<open>reroot_group_keeps\<close> below), so the last case, where the source would
  panic, is not reached.\<close>

definition reroot_group :: "str \<Rightarrow> str list \<Rightarrow> pending_map \<Rightarrow> pending_map" where
  "reroot_group file_path link_paths entries =
     (let carrier = min_list (link_paths @ [file_path]) in
      if carrier = file_path then entries
      else case map_of entries file_path of
        Some body \<Rightarrow>
          bt_insert carrier body
            (fold (\<lambda>link. bt_insert link (Pending_HardlinkTo carrier)) link_paths
              (bt_insert file_path (Pending_HardlinkTo carrier) (bt_remove file_path entries)))
      | None \<Rightarrow> entries)"

fun reroot :: "(str \<times> str list) list \<Rightarrow> pending_map \<Rightarrow> pending_map" where
  "reroot [] entries = entries"
| "reroot ((file_path, link_paths) # groups) entries =
     reroot groups (reroot_group file_path link_paths entries)"

fun sum_records :: "u64 \<Rightarrow> file_record list \<Rightarrow> tfm1_error + u64" where
  "sum_records logical_size [] = Inr logical_size"
| "sum_records logical_size (r # rs) =
     (if record_length r = 0 then Inl Tfm1Error_ZeroLengthRecord
      else and_then (ok_or (checked_add logical_size (record_length r)) Tfm1Error_LengthSumMismatch)
        (\<lambda>logical_size. sum_records logical_size rs))"

definition resolve_entry :: "(str \<times> u64) list \<Rightarrow> str \<Rightarrow> pending \<Rightarrow>
    tfm1_error + (str \<times> u64) list \<times> tree_entry" where
  "resolve_entry ordinals path p =
     (case p of
        Pending_Directory \<Rightarrow> Inr (ordinals, TreeEntry_Directory)
      | Pending_File executable planner contract records \<Rightarrow>
          and_then (sum_records 0 records) (\<lambda>logical_size.
          and_then (validate_record_run records logical_size) (\<lambda>_.
            Inr (bt_insert path (of_nat (length ordinals)) ordinals,
                 TreeEntry_File executable planner contract records)))
      | Pending_Symlink target \<Rightarrow> Inr (ordinals, TreeEntry_Symlink target)
      | Pending_HardlinkTo target_path \<Rightarrow>
          and_then (ok_or (map_of ordinals target_path) Tfm1Error_HardlinkOrdinal) (\<lambda>ordinal.
            Inr (ordinals, TreeEntry_Hardlink ordinal)))"

fun resolve_entries :: "(str \<times> u64) list \<Rightarrow> pending_map \<Rightarrow> tfm1_error + (str \<times> tree_entry) list" where
  "resolve_entries ordinals [] = Inr []"
| "resolve_entries ordinals ((path, p) # rest) =
     and_then (resolve_entry ordinals path p) (\<lambda>(ordinals, e).
     and_then (resolve_entries ordinals rest) (\<lambda>es. Inr ((path, e) # es)))"

definition builder_resolve :: "unicode \<Rightarrow> snapshot_builder \<Rightarrow> tfm1_error + (str \<times> tree_entry) list" where
  "builder_resolve u b =
     and_then (collect_pending u (sb_pending b) []) (\<lambda>entries.
     and_then (group_links entries entries []) (\<lambda>groups.
     and_then (resolve_entries [] (reroot groups entries)) (\<lambda>resolved.
     and_then (validate_tree u tree_is_Directory resolved) (\<lambda>_. Inr resolved))))"

definition builder_finish_tree :: "unicode \<Rightarrow> snapshot_builder \<Rightarrow> tfm1_error + (str \<times> tree_entry) list" where
  "builder_finish_tree u b = builder_resolve u b"

definition canonical_body :: "planner_id \<Rightarrow> stamp \<Rightarrow> file_record list \<Rightarrow> tfm1_error + file_body" where
  "canonical_body planner contract records =
     (case planner_tensor_format planner of
        Some f \<Rightarrow>
          let logical_size = sum_list (map record_length records) in
          and_then (validate_records records logical_size) (\<lambda>_.
            Inr (FileBody_Tensor f contract logical_size records))
      | None \<Rightarrow>
          (case records of
             [] \<Rightarrow> Inr (FileBody_Blob 0 EMPTY_BLOB_DIGEST)
           | [FileRecord_Data d len] \<Rightarrow> Inr (FileBody_Blob len d)
           | _ \<Rightarrow> Inl Tfm1Error_BlobRecords))"

fun canonical_entry :: "tree_entry \<Rightarrow> tfm1_error + entry" where
  "canonical_entry TreeEntry_Directory = Inr Entry_Directory"
| "canonical_entry (TreeEntry_File executable planner contract records) =
     and_then (canonical_body planner contract records) (\<lambda>body. Inr (Entry_File executable body))"
| "canonical_entry (TreeEntry_Symlink target) = Inr (Entry_Symlink target)"
| "canonical_entry (TreeEntry_Hardlink ordinal) = Inr (Entry_Hardlink ordinal)"

fun canonical_entries :: "(str \<times> tree_entry) list \<Rightarrow> tfm1_error + (str \<times> entry) list" where
  "canonical_entries [] = Inr []"
| "canonical_entries ((path, e) # rest) =
     and_then (canonical_entry e) (\<lambda>e'. and_then (canonical_entries rest) (\<lambda>es. Inr ((path, e') # es)))"

definition builder_finish :: "unicode \<Rightarrow> snapshot_builder \<Rightarrow> tfm1_error + snapshot" where
  "builder_finish u b =
     and_then (builder_resolve u b) (\<lambda>resolved.
     and_then (canonical_entries resolved) (\<lambda>entries.
       Inr \<lparr>snap_parent = sb_parent b, snap_entries = entries\<rparr>))"


section \<open>Re-rooting\<close>

lemma map_of_fold_insert:
  "map_of (fold (\<lambda>l. bt_insert l v) ls m) = (\<lambda>x. if x \<in> set ls then Some v else map_of m x)"
  by (induction ls arbitrary: m) (auto simp: map_of_bt_insert fun_eq_iff)

lemma bt_sorted_fold_insert: "bt_sorted m \<Longrightarrow> bt_sorted (fold (\<lambda>l. bt_insert l v) ls m)"
  by (induction ls arbitrary: m) (auto simp: bt_sorted_insert)

lemma bt_sorted_reroot_group: "bt_sorted m \<Longrightarrow> bt_sorted (reroot_group f ls m)"
  by (auto simp: reroot_group_def Let_def bt_sorted_insert bt_sorted_remove bt_sorted_fold_insert
      split: option.splits)

lemma bt_sorted_reroot: "bt_sorted m \<Longrightarrow> bt_sorted (reroot gs m)"
  by (induction gs m rule: reroot.induct) (simp_all add: bt_sorted_reroot_group)

definition group_ok :: "pending_map \<Rightarrow> str \<times> str list \<Rightarrow> bool" where
  "group_ok m = (\<lambda>(f, ls). (\<exists>b. map_of m f = Some b \<and> is_pending_file b) \<and>
     (\<forall>l \<in> set ls. map_of m l = Some (Pending_HardlinkTo f)))"

definition members :: "(str \<times> str list) list \<Rightarrow> str set" where
  "members gs = (\<Union>(f, ls) \<in> set gs. insert f (set ls))"

lemma min_list_members: "(xs :: str list) \<noteq> [] \<Longrightarrow> min_list xs \<in> set xs \<and> (\<forall>x \<in> set xs. min_list xs \<le> x)"
  by (simp add: min_list_Min)

lemma map_of_reroot_group:
  assumes "bt_sorted m" "group_ok m (f, ls)"
  defines "c \<equiv> min_list (ls @ [f])"
  shows "map_of (reroot_group f ls m) =
    (\<lambda>x. if x = c then map_of m f else if x = f \<or> x \<in> set ls then Some (Pending_HardlinkTo c) else map_of m x)"
proof (cases "c = f")
  case True
  then show ?thesis using assms(2) by (auto simp: reroot_group_def group_ok_def fun_eq_iff c_def)
next
  case False
  then show ?thesis using assms(1,2)
    by (auto simp: reroot_group_def group_ok_def fun_eq_iff c_def Let_def map_of_bt_insert
        map_of_fold_insert map_of_bt_remove)
qed


text \<open>What the re-rooting keeps: the remaining groups stay groups, and every hardlink outside
  them already points at an earlier file.\<close>

definition links_settled :: "(str \<times> str list) list \<Rightarrow> pending_map \<Rightarrow> bool" where
  "links_settled gs m \<longleftrightarrow> (\<forall>x t. map_of m x = Some (Pending_HardlinkTo t) \<longrightarrow>
     (\<exists>ls. (t, ls) \<in> set gs \<and> x \<in> set ls) \<or>
     t < x \<and> (\<exists>b. map_of m t = Some b \<and> is_pending_file b) \<and> t \<notin> members gs)"

lemma group_ok_disjoint:
  assumes "group_ok m (f, ls)" "group_ok m (g, ks)" "f \<noteq> g"
  shows "insert f (set ls) \<inter> insert g (set ks) = {}"
  using assms by (fastforce simp: group_ok_def)

lemma reroot_group_keeps:
  assumes "bt_sorted m" "\<forall>g \<in> set ((f, ls) # gs). group_ok m g" "distinct (map fst ((f, ls) # gs))"
    and "links_settled ((f, ls) # gs) m"
  shows "(\<forall>g \<in> set gs. group_ok (reroot_group f ls m) g) \<and> links_settled gs (reroot_group f ls m)"
proof -
  define c where "c = min_list (ls @ [f])"
  let ?m = "reroot_group f ls m"
  have c: "c \<in> insert f (set ls)" "\<And>x. x \<in> insert f (set ls) \<Longrightarrow> c \<le> x"
    using min_list_members [of "ls @ [f]"] by (auto simp: c_def)
  have gf: "group_ok m (f, ls)" using assms(2) by simp
  note mo = map_of_reroot_group [OF assms(1) gf, folded c_def]
  have same: "map_of ?m x = map_of m x" if "x \<notin> insert f (set ls)" for x
    using that c(1) by (auto simp: mo)
  have "insert f (set ls) \<inter> insert h (set ks) = {}" if "(h, ks) \<in> set gs" for h ks
  proof (rule group_ok_disjoint [OF gf])
    show "group_ok m (h, ks)" using assms(2) that by simp
    show "f \<noteq> h" using assms(3) that by force
  qed
  then have disj: "insert f (set ls) \<inter> members gs = {}" by (auto simp: members_def)
  have "group_ok ?m g" if g: "g \<in> set gs" for g
  proof -
    obtain h ks where gp: "g = (h, ks)" by (cases g)
    have "insert h (set ks) \<subseteq> members gs" using g gp by (auto simp: members_def)
    then have "\<And>x. x \<in> insert h (set ks) \<Longrightarrow> map_of ?m x = map_of m x" using disj same by blast
    moreover have "group_ok m (h, ks)" using assms(2) g gp by auto
    ultimately show ?thesis by (simp add: gp group_ok_def)
  qed
  moreover have "links_settled gs ?m"
    unfolding links_settled_def
  proof (intro allI impI)
    fix x t assume x: "map_of ?m x = Some (Pending_HardlinkTo t)"
    show "(\<exists>ls. (t, ls) \<in> set gs \<and> x \<in> set ls) \<or>
      t < x \<and> (\<exists>b. map_of ?m t = Some b \<and> is_pending_file b) \<and> t \<notin> members gs"
    proof (cases "x \<in> insert f (set ls)")
      case True
      have "x \<noteq> c" using x gf by (auto simp: mo group_ok_def)
      with True x have "t = c" by (auto simp: mo split: if_splits)
      moreover have "c < x" using c(2) [OF True] \<open>x \<noteq> c\<close> by simp
      ultimately show ?thesis using gf disj c(1) by (auto simp: mo group_ok_def)
    next
      case False
      with x same have mx: "map_of m x = Some (Pending_HardlinkTo t)" by simp
      with assms(4) have "(\<exists>ls'. (t, ls') \<in> set ((f, ls) # gs) \<and> x \<in> set ls') \<or>
        t < x \<and> (\<exists>b. map_of m t = Some b \<and> is_pending_file b) \<and> t \<notin> members ((f, ls) # gs)"
        unfolding links_settled_def by blast
      then show ?thesis using False same by (auto simp: members_def)
    qed
  qed
  ultimately show ?thesis by blast
qed

lemma reroot_settles:
  "bt_sorted m \<Longrightarrow> \<forall>g \<in> set gs. group_ok m g \<Longrightarrow> distinct (map fst gs) \<Longrightarrow> links_settled gs m \<Longrightarrow>
   links_settled [] (reroot gs m)"
proof (induction gs m rule: reroot.induct)
  case (2 f ls gs m)
  from reroot_group_keeps [OF 2(2-5)] 2(1) 2(4) bt_sorted_reroot_group [OF 2(2)] show ?case by simp
qed simp

text \<open>Re-rooting only moves entries within a group: the keys stay, and every value is an old one
  or a hardlink.\<close>

lemma reroot_group_values:
  assumes "bt_sorted m" "group_ok m (f, ls)"
  shows "dom (map_of (reroot_group f ls m)) = dom (map_of m)"
    and "map_of (reroot_group f ls m) x = Some v \<Longrightarrow> v \<in> ran (map_of m) \<or> (\<exists>t. v = Pending_HardlinkTo t)"
    and "map_of (reroot_group f ls m) x = Some Pending_Directory \<longleftrightarrow> map_of m x = Some Pending_Directory"
proof -
  let ?c = "min_list (ls @ [f])"
  have c: "?c \<in> insert f (set ls)" using min_list_members [of "ls @ [f]"] by auto
  note mo = map_of_reroot_group [OF assms]
  show "dom (map_of (reroot_group f ls m)) = dom (map_of m)"
    using c assms(2) by (auto simp: mo group_ok_def dom_def)
  show "map_of (reroot_group f ls m) x = Some v \<Longrightarrow> v \<in> ran (map_of m) \<or> (\<exists>t. v = Pending_HardlinkTo t)"
    by (auto simp: mo ran_def split: if_splits)
  show "map_of (reroot_group f ls m) x = Some Pending_Directory \<longleftrightarrow> map_of m x = Some Pending_Directory"
    using c assms(2) by (auto simp: mo group_ok_def)
qed


section \<open>Collecting and grouping\<close>

lemma bt_sorted_Nil [simp]: "bt_sorted []"
  by (simp add: bt_sorted_def)

lemma collect_pending_Inr_iff:
  "collect_pending u ps m0 = Inr m \<longleftrightarrow>
   (\<forall>x \<in> set ps. validate_path u (fst x) = Inr () \<and> check_pending (snd x) = Inr ()) \<and>
   distinct (map fst ps) \<and> (\<forall>x \<in> set ps. map_of m0 (fst x) = None) \<and>
   m = fold (\<lambda>(k, v). bt_insert k v) ps m0"
proof (induction u ps m0 rule: collect_pending.induct)
  case (2 u path p rest m0)
  show ?case
  proof (cases "map_of m0 path")
    case None
    have "(\<forall>x \<in> set rest. map_of (bt_insert path p m0) (fst x) = None) \<longleftrightarrow>
        path \<notin> fst ` set rest \<and> (\<forall>x \<in> set rest. map_of m0 (fst x) = None)"
      by (auto simp: map_of_bt_insert)
    with None 2 show ?thesis by (auto simp: result_simps)
  qed (auto simp: result_simps)
qed auto

lemma in_map_iff: "bt_sorted m \<Longrightarrow> (k, v) \<in> set m \<longleftrightarrow> map_of m k = Some v"
  by (rule bt.in_entries_iff)

lemma group_links_step:
  assumes "group_links m ((x, p) # rest) gs0 = Inr gs"
  shows "(\<forall>t. p \<noteq> Pending_HardlinkTo t) \<and> group_links m rest gs0 = Inr gs \<or>
    (\<exists>t b. p = Pending_HardlinkTo t \<and> map_of m t = Some b \<and> is_pending_file b \<and>
      group_links m rest (bt_insert t ((case map_of gs0 t of None \<Rightarrow> [] | Some ls \<Rightarrow> ls) @ [x]) gs0) = Inr gs)"
  using assms by (cases p) (auto split: option.splits pending.splits)

lemma group_links_ok:
  assumes "group_links m es gs0 = Inr gs" "bt_sorted gs0" "\<forall>g \<in> set gs0. group_ok m g"
    and "\<forall>(x, p) \<in> set es. map_of m x = Some p"
  shows "bt_sorted gs \<and> (\<forall>g \<in> set gs. group_ok m g) \<and>
    (\<forall>x t. (x, Pending_HardlinkTo t) \<in> set es \<or> (\<exists>ls. map_of gs0 t = Some ls \<and> x \<in> set ls) \<longrightarrow>
      (\<exists>ls. map_of gs t = Some ls \<and> x \<in> set ls))"
  using assms
proof (induction es arbitrary: gs0)
  case Nil
  then show ?case by simp
next
  case (Cons y es)
  obtain x p where y: "y = (x, p)" by (cases y)
  from group_links_step [OF Cons.prems(1) [unfolded y]] show ?case
  proof (elim disjE exE conjE)
    assume "\<forall>t. p \<noteq> Pending_HardlinkTo t" "group_links m es gs0 = Inr gs"
    note np = this(1) and ih = Cons.IH [OF this(2) Cons.prems(2,3)]
    have "(z, Pending_HardlinkTo s) \<in> set (y # es) \<longleftrightarrow> (z, Pending_HardlinkTo s) \<in> set es" for z s
      using np y by auto
    with ih Cons.prems(4) show ?thesis by simp
  next
    fix t b assume p: "p = Pending_HardlinkTo t" and b: "map_of m t = Some b" "is_pending_file b"
    let ?ls = "case map_of gs0 t of None \<Rightarrow> [] | Some ls \<Rightarrow> ls"
    let ?gs = "bt_insert t (?ls @ [x]) gs0"
    assume rest: "group_links m es ?gs = Inr gs"
    have sorted: "bt_sorted ?gs" by (rule bt_sorted_insert [OF Cons.prems(2)])
    have old: "group_ok m (f, ls)" if "map_of gs0 f = Some ls" for f ls
      using that Cons.prems(2,3) by (auto simp: in_map_iff)
    have "group_ok m (t, ?ls @ [x])"
      using old [of t] b p y Cons.prems(4) by (cases "map_of gs0 t") (auto simp: group_ok_def)
    then have "\<forall>g \<in> set ?gs. group_ok m g"
      using old sorted by (auto simp: in_map_iff map_of_bt_insert split: if_splits)
    note ih = Cons.IH [OF rest sorted this]
    have "(z, Pending_HardlinkTo s) \<in> set es \<or> (\<exists>ls. map_of ?gs s = Some ls \<and> z \<in> set ls)"
      if "(z, Pending_HardlinkTo s) \<in> set (y # es) \<or> (\<exists>ls. map_of gs0 s = Some ls \<and> z \<in> set ls)" for z s
      using that y p by (auto simp: map_of_bt_insert)
    moreover have "\<forall>(x, p) \<in> set es. map_of m x = Some p" using Cons.prems(4) by simp
    ultimately show ?thesis using ih by blast
  qed
qed

lemma reroot_links_settled:
  assumes "bt_sorted m" "group_links m m [] = Inr gs"
  shows "links_settled [] (reroot gs m)" "\<forall>g \<in> set gs. group_ok m g" "distinct (map fst gs)"
    "links_settled gs m"
proof -
  have "\<forall>(x, p) \<in> set m. map_of m x = Some p" using assms(1) by (auto simp: in_map_iff)
  from group_links_ok [OF assms(2) _ _ this] have
    gs: "bt_sorted gs" "\<forall>g \<in> set gs. group_ok m g"
    and cov: "(x, Pending_HardlinkTo t) \<in> set m \<Longrightarrow> \<exists>ls. map_of gs t = Some ls \<and> x \<in> set ls" for x t
    by auto
  show "\<forall>g \<in> set gs. group_ok m g" by (rule gs(2))
  show d: "distinct (map fst gs)" using gs(1) by (rule bt.entries_distinct)
  show "links_settled gs m"
    using cov assms(1) gs(1) by (auto simp: links_settled_def in_map_iff)
  then show "links_settled [] (reroot gs m)" using reroot_settles assms(1) gs(2) d by blast
qed

lemma reroot_values:
  assumes "bt_sorted m" "\<forall>g \<in> set gs. group_ok m g" "distinct (map fst gs)" "links_settled gs m"
  shows "dom (map_of (reroot gs m)) = dom (map_of m) \<and>
    (\<forall>x v. map_of (reroot gs m) x = Some v \<longrightarrow> v \<in> ran (map_of m) \<or> (\<exists>t. v = Pending_HardlinkTo t))"
  using assms
proof (induction gs m rule: reroot.induct)
  case (1 m)
  then show ?case by (auto simp: ran_def)
next
  case (2 f ls gs m)
  let ?m = "reroot_group f ls m"
  have g: "group_ok m (f, ls)" using 2(3) by simp
  note keeps = reroot_group_keeps [OF 2(2-5)] and vals = reroot_group_values [OF 2(2) g]
  have ran: "v \<in> ran (map_of m) \<or> (\<exists>t. v = Pending_HardlinkTo t)" if "v \<in> ran (map_of ?m)" for v
    using that vals(2) by (auto simp: ran_def)
  have "dom (map_of (reroot gs ?m)) = dom (map_of ?m) \<and>
    (\<forall>x v. map_of (reroot gs ?m) x = Some v \<longrightarrow> v \<in> ran (map_of ?m) \<or> (\<exists>t. v = Pending_HardlinkTo t))"
    using 2(1) [OF bt_sorted_reroot_group [OF 2(2)]] keeps 2(4) by simp
  with vals(1) ran show ?case by (metis reroot.simps(2))
qed


section \<open>Everything the builder finishes is a valid snapshot\<close>

text \<open>The invariants of the Rust types the builder is handed: strings are UTF-8, stamps come from
  their constructors.\<close>

fun pending_typed :: "pending \<Rightarrow> bool" where
  "pending_typed (Pending_File _ _ contract _) = stamp_ok contract"
| "pending_typed (Pending_Symlink target) = is_str target"
| "pending_typed _ = True"

definition builder_typed :: "snapshot_builder \<Rightarrow> bool" where
  "builder_typed b \<longleftrightarrow> length (sb_pending b) < 2 ^ 64 \<and>
     (\<forall>x \<in> set (sb_pending b). is_str (fst x) \<and> pending_typed (snd x))"

lemma length_bt_insert: "k \<notin> fst ` set m \<Longrightarrow> length (bt_insert k v m) = Suc (length m)"
  by (induction k v m rule: bt_insert.induct) auto

lemma set_bt_insert_new: "k \<notin> fst ` set m \<Longrightarrow> set (bt_insert k v m) = insert (k, v) (set m)"
  by (induction k v m rule: bt_insert.induct) auto

lemma canonical_body_ok:
  assumes "resolve_entry ords path (Pending_File x planner contract records) = Inr r"
    and "canonical_body planner contract records = Inr body" "stamp_ok contract"
  shows "body_ok body"
proof (cases "planner_tensor_format planner")
  case None
  have "\<forall>r \<in> set records. record_length r \<noteq> 0" if "sum_records n records = Inr k" for n k
    using that by (induction records arbitrary: n) (auto simp: result_simps)
  then have "\<forall>r \<in> set records. record_length r \<noteq> 0"
    using assms(1) by (auto simp: resolve_entry_def result_simps)
  with None assms(2) show ?thesis
    by (auto simp: canonical_body_def split: list.splits file_record.splits)
next
  case (Some f)
  with assms(2,3) show ?thesis by (auto simp: canonical_body_def Let_def result_simps)
qed

lemma resolve_entry_cases:
  assumes "resolve_entry ords path p = Inr (ords', t)" "canonical_entry t = Inr e"
    and "\<forall>x \<in> set ords. unat (snd x) < length ords" "length ords < 2 ^ 64"
    and "pending_typed p" "check_pending p = Inr ()" "path \<notin> fst ` set ords"
  shows "entry_ok (of_nat (length ords)) e"
    and "is_File e \<longleftrightarrow> is_pending_file p"
    and "ords' = (if is_pending_file p then bt_insert path (of_nat (length ords)) ords else ords)"
    and "tree_is_Directory t \<longleftrightarrow> is_Directory e"
proof -
  have "entry_ok (of_nat (length ords)) e \<and> (is_File e \<longleftrightarrow> is_pending_file p) \<and>
    ords' = (if is_pending_file p then bt_insert path (of_nat (length ords)) ords else ords) \<and>
    (tree_is_Directory t \<longleftrightarrow> is_Directory e)"
  proof (cases p)
    case (Pending_File x planner contract records)
    with assms(1,2) obtain body where e: "e = Entry_File x body" "t = TreeEntry_File x planner contract records"
      "ords' = bt_insert path (of_nat (length ords)) ords"
      and body: "canonical_body planner contract records = Inr body"
      by (auto simp: resolve_entry_def result_simps)
    have "body_ok body"
      by (rule canonical_body_ok [OF assms(1) [unfolded Pending_File] body])
        (use assms(5) Pending_File in simp)
    with e Pending_File show ?thesis by simp
  next
    case (Pending_HardlinkTo target)
    with assms(1,2) obtain k where "map_of ords target = Some k" "t = TreeEntry_Hardlink k"
      "e = Entry_Hardlink k" "ords' = ords" by (auto simp: resolve_entry_def result_simps)
    moreover from this(1) have "unat k < length ords" using assms(3) by (fastforce dest: map_of_SomeD)
    ultimately show ?thesis using assms(4) Pending_HardlinkTo by (simp add: u64_nat)
  qed (use assms in \<open>auto simp: resolve_entry_def\<close>)
  then show "entry_ok (of_nat (length ords)) e" "is_File e \<longleftrightarrow> is_pending_file p"
    "ords' = (if is_pending_file p then bt_insert path (of_nat (length ords)) ords else ords)"
    "tree_is_Directory t \<longleftrightarrow> is_Directory e" by blast+
qed

lemma resolved_entries_ok:
  assumes "resolve_entries ords es = Inr ts" "canonical_entries ts = Inr fs"
    and "sorted_wrt (<) (map fst es)" "\<forall>x \<in> set es. \<forall>k \<in> fst ` set ords. k < fst x"
    and "\<forall>x \<in> set es. \<forall>p. previous = Some p \<longrightarrow> p < fst x"
    and "\<forall>x \<in> set ords. unat (snd x) < length ords" "length ords + length es < 2 ^ 64"
    and "\<forall>x \<in> set es. is_str (fst x) \<and> validate_path u (fst x) = Inr () \<and>
      pending_typed (snd x) \<and> check_pending (snd x) = Inr ()"
  shows "entries_ok u previous (of_nat (length ords)) fs \<and> map fst fs = map fst ts \<and>
    map (is_Directory \<circ> snd) fs = map (tree_is_Directory \<circ> snd) ts"
  using assms
proof (induction es arbitrary: ords ts fs previous)
  case (Cons y es)
  obtain path p where y: "y = (path, p)" by (cases y)
  from Cons.prems(1,2) y obtain ords' t ts' e fs' where
    r: "resolve_entry ords path p = Inr (ords', t)" "resolve_entries ords' es = Inr ts'"
    and c: "canonical_entry t = Inr e" "canonical_entries ts' = Inr fs'"
    and ts: "ts = (path, t) # ts'" "fs = (path, e) # fs'" by (auto simp: result_simps)
  have new: "path \<notin> fst ` set ords" using Cons.prems(4) y by auto
  have one: "entry_ok (of_nat (length ords)) e" "is_File e \<longleftrightarrow> is_pending_file p"
    "ords' = (if is_pending_file p then bt_insert path (of_nat (length ords)) ords else ords)"
    "tree_is_Directory t \<longleftrightarrow> is_Directory e"
    using resolve_entry_cases [OF r(1) c(1) Cons.prems(6)] Cons.prems(7,8) new y by simp_all
  have ords': "\<forall>x \<in> set ords'. unat (snd x) < length ords'"
    "length ords' = (if is_pending_file p then Suc (length ords) else length ords)"
    "fst ` set ords' \<subseteq> insert path (fst ` set ords)"
    using Cons.prems(6,7) new by (auto simp: one(3) length_bt_insert set_bt_insert_new)
  have "entries_ok u (Some path) (of_nat (length ords')) fs' \<and> map fst fs' = map fst ts' \<and>
    map (is_Directory \<circ> snd) fs' = map (tree_is_Directory \<circ> snd) ts'"
  proof (rule Cons.IH [OF r(2) c(2)])
    show "\<forall>x \<in> set es. \<forall>k \<in> fst ` set ords'. k < fst x"
    proof (intro ballI)
      fix x k assume "x \<in> set es" "k \<in> fst ` set ords'"
      with ords'(3) have "k = path \<or> k \<in> fst ` set ords" by blast
      with Cons.prems(3,4) y \<open>x \<in> set es\<close> show "k < fst x" by auto
    qed
  qed (use Cons.prems y ords' in auto)
  moreover have "(of_nat (length ords') :: u64) =
      (if is_File e then of_nat (length ords) + 1 else of_nat (length ords))"
    using one(2) ords'(2) by simp
  moreover have "check_order previous path = Inr ()" using Cons.prems(5) y by (auto simp: check_order_iff)
  ultimately show ?case using one Cons.prems(8) y ts by (simp add: comp_def)
qed simp

lemma set_fold_bt_insert:
  "bt_sorted m \<Longrightarrow> distinct (map fst ps) \<Longrightarrow> \<forall>x \<in> set ps. map_of m (fst x) = None \<Longrightarrow>
   bt_sorted (fold (\<lambda>(k, v). bt_insert k v) ps m) \<and>
   set (fold (\<lambda>(k, v). bt_insert k v) ps m) = set ps \<union> set m \<and>
   length (fold (\<lambda>(k, v). bt_insert k v) ps m) = length ps + length m"
proof (induction ps arbitrary: m)
  case (Cons x ps)
  obtain k v where x: "x = (k, v)" by (cases x)
  have new: "k \<notin> fst ` set m" using Cons.prems(3) x by (simp add: map_of_eq_None_iff)
  have "\<forall>y \<in> set ps. map_of (bt_insert k v m) (fst y) = None"
    using Cons.prems(2,3) x by (auto simp: map_of_bt_insert)
  with Cons.IH [OF bt_sorted_insert [OF Cons.prems(1)]] Cons.prems(2) x new show ?case
    by (auto simp: set_bt_insert_new length_bt_insert)
qed simp

lemma validate_tree_transfer:
  assumes "map fst fs = map fst ts" "map (d \<circ> snd) fs = map (d' \<circ> snd) ts"
  shows "validate_tree u d fs = validate_tree u d' ts"
proof -
  have "map fst (filter (\<lambda>(path, entry). d entry) fs) = map fst (filter (\<lambda>(path, entry). d' entry) ts)"
    using assms
  proof (induction fs arbitrary: ts)
    case (Cons x fs)
    then show ?case by (cases ts) (auto split: prod.splits)
  qed simp
  moreover have "map (case_fold u \<circ> fst) fs = map (case_fold u \<circ> fst) ts"
    by (simp only: map_map [symmetric] assms(1))
  ultimately show ?thesis using assms(1) by (simp add: validate_tree_def)
qed

lemma builder_finish_ok:
  assumes "builder_finish u b = Inr s" "builder_typed b"
  shows "snapshot_ok u s"
proof -
  from assms(1) obtain m gs ts fs where
    m: "collect_pending u (sb_pending b) [] = Inr m" and gs: "group_links m m [] = Inr gs"
    and ts: "resolve_entries [] (reroot gs m) = Inr ts" "validate_tree u tree_is_Directory ts = Inr ()"
    and fs: "canonical_entries ts = Inr fs" and s: "s = \<lparr>snap_parent = sb_parent b, snap_entries = fs\<rparr>"
    by (auto simp: builder_finish_def builder_resolve_def result_simps)
  let ?m = "reroot gs m"
  from m have coll: "\<forall>x \<in> set (sb_pending b). validate_path u (fst x) = Inr () \<and> check_pending (snd x) = Inr ()"
    "distinct (map fst (sb_pending b))" "m = fold (\<lambda>(k, v). bt_insert k v) (sb_pending b) []"
    by (simp_all add: collect_pending_Inr_iff)
  from set_fold_bt_insert [of "[]", OF _ coll(2)] coll(3)
  have sm: "bt_sorted m" "set m = set (sb_pending b)" "length m = length (sb_pending b)" by simp_all
  note rl = reroot_links_settled [OF sm(1) gs]
  note rv = reroot_values [OF sm(1) rl(2,3,4)]
  have sorted: "bt_sorted ?m" by (rule bt_sorted_reroot [OF sm(1)])
  have keys: "fst ` set ?m = fst ` set m" using rv by (simp add: dom_map_of_conv_image_fst)
  have "length ?m = length m"
    using bt.entries_distinct [OF sorted] bt.entries_distinct [OF sm(1)] keys
    by (metis distinct_card length_map list.set_map)
  moreover have "pending_typed (snd x) \<and> check_pending (snd x) = Inr () \<and> is_str (fst x) \<and>
      validate_path u (fst x) = Inr ()" if "x \<in> set ?m" for x
  proof -
    have "map_of ?m (fst x) = Some (snd x)" using that in_map_iff [OF sorted, of "fst x" "snd x"] by simp
    with rv have "snd x \<in> ran (map_of m) \<or> (\<exists>t. snd x = Pending_HardlinkTo t)" by blast
    then have "pending_typed (snd x) \<and> check_pending (snd x) = Inr ()"
    proof
      assume "snd x \<in> ran (map_of m)"
      then obtain k where "(k, snd x) \<in> set (sb_pending b)"
        using sm(2) by (auto simp: ran_def dest!: map_of_SomeD)
      with coll(1) assms(2) show ?thesis by (force simp: builder_typed_def)
    qed auto
    moreover have "fst x \<in> fst ` set ?m" using that by simp
    then have "fst x \<in> fst ` set (sb_pending b)" unfolding keys sm(2) .
    then have "is_str (fst x)" "validate_path u (fst x) = Inr ()"
      using coll(1) assms(2) by (auto simp: builder_typed_def)
    ultimately show ?thesis by blast
  qed
  ultimately have "entries_ok u None (of_nat (length ([] :: (str \<times> u64) list))) fs \<and> map fst fs = map fst ts \<and>
      map (is_Directory \<circ> snd) fs = map (tree_is_Directory \<circ> snd) ts"
    using assms(2) bt.entries_sorted [OF sorted] sm(3)
    by (intro resolved_entries_ok [OF ts(1) fs]) (auto simp: builder_typed_def)
  with validate_tree_transfer [of fs ts is_Directory tree_is_Directory u] ts(2) s show ?thesis
    by (simp add: snapshot_ok_def)
qed

text \<open>The order of the declarations does not matter to a successful finish.\<close>

lemma collect_pending_permuted:
  assumes "collect_pending u ps [] = Inr m" "mset ps = mset ps'"
  shows "collect_pending u ps' [] = Inr m"
proof -
  from assms(1) have *: "\<forall>x \<in> set ps. validate_path u (fst x) = Inr () \<and> check_pending (snd x) = Inr ()"
    "distinct (map fst ps)" "m = fold (\<lambda>(k, v). bt_insert k v) ps []"
    by (simp_all add: collect_pending_Inr_iff)
  have "set ps = set ps'" using assms(2) by (rule mset_eq_setD)
  moreover have "distinct (map fst ps')"
    using assms(2) *(2) by (metis mset_eq_imp_distinct_iff mset_map)
  moreover have "m = fold (\<lambda>(k, v). bt_insert k v) ps' []"
    using bt.insert_all_permuted [OF bt_sorted_Nil *(2) assms(2)] *(3) by simp
  ultimately show ?thesis using *(1) by (simp add: collect_pending_Inr_iff)
qed

lemma builder_finish_permuted:
  assumes "builder_finish u b = Inr s" "mset (sb_pending b) = mset (sb_pending b')"
    and "sb_parent b = sb_parent b'"
  shows "builder_finish u b' = Inr s"
proof -
  from assms(1) obtain m where "collect_pending u (sb_pending b) [] = Inr m"
    by (auto simp: builder_finish_def builder_resolve_def result_simps)
  with collect_pending_permuted [OF this assms(2)] assms(1,3) show ?thesis
    by (simp add: builder_finish_def builder_resolve_def)
qed


text \<open>A declared hardlink either names no file and is refused as such, or gets an ordinal: the
  ordinal lookup never fails.\<close>

lemma sum_records_error: "sum_records n rs = Inl e \<Longrightarrow> e \<noteq> Tfm1Error_HardlinkOrdinal"
  by (induction rs arbitrary: n) (auto simp: and_then_Inl_iff ok_or_Inl_iff split: if_splits)

lemma record_run_error: "record_run n h rs = Inl e \<Longrightarrow> e \<noteq> Tfm1Error_HardlinkOrdinal"
  by (induction rs arbitrary: n h)
    (auto simp: and_then_Inl_iff ok_or_Inl_iff split: if_splits file_record.splits)

lemma resolve_entry_error:
  "resolve_entry ords path p = Inl e \<Longrightarrow> \<forall>t. p = Pending_HardlinkTo t \<longrightarrow> map_of ords t \<noteq> None \<Longrightarrow>
   e \<noteq> Tfm1Error_HardlinkOrdinal"
  by (cases p) (auto simp: resolve_entry_def validate_record_run_def and_then_Inl_iff ok_or_Inl_iff
      split: if_splits dest: sum_records_error record_run_error)

lemma resolve_entry_ords:
  "resolve_entry ords path p = Inr (ords', t) \<Longrightarrow>
   ords' = (if is_pending_file p then bt_insert path (of_nat (length ords)) ords else ords)"
  by (cases p) (auto simp: resolve_entry_def result_simps)

lemma resolve_entries_error:
  assumes "bt_sorted (before @ es)" "links_settled [] (before @ es)"
    and "\<forall>x \<in> set before. is_pending_file (snd x) \<longrightarrow> map_of ords (fst x) \<noteq> None"
    and "resolve_entries ords es = Inl e"
  shows "e \<noteq> Tfm1Error_HardlinkOrdinal"
  using assms
proof (induction es arbitrary: before ords)
  case (Cons y es)
  obtain path p where y: "y = (path, p)" by (cases y)
  have known: "map_of ords t \<noteq> None" if "p = Pending_HardlinkTo t" for t
  proof -
    have "(path, p) \<in> set (before @ y # es)" using y by simp
    with Cons.prems(1) have "map_of (before @ y # es) path = Some (Pending_HardlinkTo t)"
      using that in_map_iff [OF Cons.prems(1), of path p] by blast
    with Cons.prems(2) obtain b where t: "t < path" "map_of (before @ y # es) t = Some b" "is_pending_file b"
      by (auto simp: links_settled_def simp del: map_of_append)
    then have "(t, b) \<in> set (before @ y # es)" by (blast dest: map_of_SomeD)
    moreover have "\<forall>z \<in> set (y # es). path \<le> fst z"
      using Cons.prems(1) y by (fastforce simp: bt_sorted_def sorted_wrt_append)
    ultimately have "(t, b) \<in> set before" using t(1) by fastforce
    with Cons.prems(3) t(3) show ?thesis by auto
  qed
  show ?case
  proof (cases "resolve_entry ords path p")
    case (Inl x)
    with Cons.prems(4) y resolve_entry_error [OF Inl] known show ?thesis by auto
  next
    case (Inr q)
    obtain ords' t where q: "q = (ords', t)" by (cases q)
    with Inr Cons.prems(4) y have rest: "resolve_entries ords' es = Inl e"
      by (auto simp: and_then_Inl_iff)
    show ?thesis
    proof (rule Cons.IH [of "before @ [y]", OF _ _ _ rest])
      show "\<forall>x \<in> set (before @ [y]). is_pending_file (snd x) \<longrightarrow> map_of ords' (fst x) \<noteq> None"
        using Cons.prems(3) y resolve_entry_ords [OF Inr [unfolded q]] by (auto simp: map_of_bt_insert)
    qed (use Cons.prems(1,2) in simp_all)
  qed
qed simp

lemma builder_resolve_error:
  assumes "builder_resolve u b = Inl e"
  shows "e \<noteq> Tfm1Error_HardlinkOrdinal"
proof
  assume e: "e = Tfm1Error_HardlinkOrdinal"
  have seg: "validate_segments ss = Inl x \<Longrightarrow> x \<noteq> Tfm1Error_HardlinkOrdinal" for ss x
    by (induction ss) (auto simp: and_then_Inl_iff validate_segment_def Let_def split: if_splits)
  have coll: "collect_pending u ps m = Inl x \<Longrightarrow> x \<noteq> Tfm1Error_HardlinkOrdinal" for ps m x
  proof (induction u ps m rule: collect_pending.induct)
    case (2 u path p rest m)
    then show ?case
      by (cases p) (auto simp: and_then_Inl_iff validate_path_def validate_symlink_target_def
          split: if_splits dest: seg)
  qed simp
  have grp: "group_links m es gs = Inl x \<Longrightarrow> x \<noteq> Tfm1Error_HardlinkOrdinal" for m es gs x
    by (induction m es gs rule: group_links.induct) (auto split: option.splits pending.splits)
  have tree: "validate_tree u d ts = Inl x \<Longrightarrow> x \<noteq> Tfm1Error_HardlinkOrdinal" for d ts x
    by (auto simp: validate_tree_def split: if_splits)
  from assms e obtain m gs where m: "collect_pending u (sb_pending b) [] = Inr m"
    and gs: "group_links m m [] = Inr gs" and r: "resolve_entries [] (reroot gs m) = Inl e"
    by (auto simp: builder_resolve_def and_then_Inl_iff dest: coll grp tree)
  have "bt_sorted m"
    using m set_fold_bt_insert [of "[]" "sb_pending b"] by (auto simp: collect_pending_Inr_iff)
  with resolve_entries_error [of "[]" "reroot gs m" "[]", OF _ _ _ r] e
    reroot_links_settled(1) [OF _ gs] bt_sorted_reroot
  show False by simp
qed

end
