(* ===== verification/Samples.thy ===== *)
theory Samples
  imports Planner Tfm1_Builder
begin

text \<open>
  Concrete inputs at which the properties are evaluated, with the facts that evaluate them:
  a snapshot and the builder that declares it, a GGUF file and a safetensors file, a hasher.
\<close>

section \<open>Sample values\<close>

text \<open>Concrete inputs for the witnesses: the Unicode facts of the ASCII range, and a snapshot with
  a directory, an executable blob, a symlink and a hardlink.\<close>

definition ascii_unicode :: unicode where
  "ascii_unicode = \<lparr>uc_is_nfc = list_all is_ascii_char,
     uc_to_lowercase = (\<lambda>c. [if 65 \<le> c \<and> c \<le> 90 then c + 32 else c])\<rparr>"

definition sample_snapshot :: snapshot where
  "sample_snapshot = \<lparr>snap_parent = None, snap_entries =
     [(''a'', Entry_Directory), (''a/b'', Entry_File True (FileBody_Blob 3 7)),
      (''a/c'', Entry_Symlink ''b''), (''d'', Entry_Hardlink 0)]\<rparr>"

definition sample_builder :: snapshot_builder where
  "sample_builder =
     builder_hardlink ''a/b'' ''d'' (builder_symlink ''a/c'' ''b''
       (builder_file ''d'' True PlannerId_BlobV1 [FileRecord_Data 7 3]
         (builder_directory ''a'' (builder_new None))))"

lemmas text_eval = as_bytes_def byte_of_def is_str_def utf8_valid_def chars_def
  is_ascii_char_def is_control_def split_once_def rsplit_once_def eq_ignore_ascii_case_def
  to_ascii_lowercase_def is_ascii_uppercase_def is_ascii_lowercase_def is_ascii_digit_def

lemmas path_eval = text_eval ascii_unicode_def validate_path_def validate_segment_def
  forbidden_char_def WINDOWS_RESERVED_def MAX_PATH_BYTES_def check_order_def
  validate_symlink_target_def MAX_SYMLINK_TARGET_BYTES_def validate_tree_def case_fold_def Let_def

lemmas builder_eval = sample_builder_def builder_hardlink_def builder_symlink_def builder_file_def
  builder_file_under_def builder_directory_def builder_new_def builder_push_def

lemma sample_snapshot_ok: "snapshot_ok ascii_unicode sample_snapshot"
  by (simp add: snapshot_ok_def sample_snapshot_def path_eval)

lemma sample_snapshot_length: "length (to_bytes sample_snapshot) < 2 ^ 64"
  by (simp add: to_bytes_def emit_def emit_parent_def emit_pair_def emit_path_def sample_snapshot_def
      TFM1_MAGIC_def)

lemma sample_builder_finish: "builder_finish ascii_unicode sample_builder = Inr sample_snapshot"
  by (simp add: builder_finish_def builder_resolve_def builder_eval path_eval reroot_group_def
      resolve_entry_def checked_add_def validate_record_run_def MAX_FILE_RECORDS_def canonical_body_def
      sample_snapshot_def)

lemma sample_builder_typed: "builder_typed sample_builder"
  by (simp add: builder_typed_def builder_eval path_eval)

section \<open>Sample files\<close>

text \<open>A GGUF file and a safetensors file that hold the same eight tensor bytes. The JSON parser of
  the second is the constant function that returns its header.\<close>

definition sample_tensor :: bytes where
  "sample_tensor = [1, 2, 3, 4, 5, 6, 7, 8]"

definition sample_gguf :: bytes where
  "sample_gguf = as_bytes ''GGUF'' @ u32_le 3 @ u64_le 1 @ u64_le 1 @
     u64_le 3 @ as_bytes ''a.b'' @ u32_le 8 @ u64_le 2 @ as_bytes ''xy'' @
     u64_le 1 @ as_bytes ''w'' @ u32_le 1 @ u64_le 2 @ u32_le 0 @ u64_le 0 @
     replicate 14 0 @ sample_tensor @ replicate 24 0"

definition sample_header :: json where
  "sample_header = Json_Object [(''v'', Json_Object [(''dtype'', Json_String ''U8''),
     (''shape'', Json_Array [Json_Number (Some 8)]),
     (''data_offsets'', Json_Array [Json_Number (Some 0), Json_Number (Some 8)])])]"

definition sample_json :: "bytes \<Rightarrow> json option" where
  "sample_json bs = Some sample_header"

definition sample_safetensors :: bytes where
  "sample_safetensors = u64_le 16 @ as_bytes ''{'' @ replicate 15 32 @ sample_tensor"

definition sample_hasher :: "bytes hasher" where
  "sample_hasher = \<lparr>hs_new = [], hs_update = (@), hs_finalize = digest_of_bytes\<rparr>"

lemma sample_hasher_streams: "hasher_streams sample_hasher digest_of_bytes"
proof -
  have "fold (\<lambda>bs h. h @ bs) pieces h = h @ concat pieces" for pieces :: "bytes list" and h
    by (induction pieces arbitrary: h) simp_all
  then show ?thesis by (simp add: hasher_streams_def sample_hasher_def)
qed

lemma replicate_numeral: "replicate (numeral k) x = x # replicate (pred_numeral k) x"
  by (simp only: numeral_eq_Suc replicate_Suc)

lemma le_bytes_numeral:
  "le_bytes (numeral k) n = of_nat n # le_bytes (pred_numeral k) (n div 256)"
  unfolding numeral_eq_Suc [of k] by (rule le_bytes.simps)

lemmas bytes_eval = u32_le_def u64_le_def u32_of_le_def u64_of_le_def le_bytes_numeral
  replicate_numeral

lemmas source_eval = slice_source_def slice_read_def map_err_def Let_def

lemma gr_utf8_loop_once:
  assumes "0 < remaining" "remaining \<le> 8192"
  shows "gr_utf8_loop remaining pending r = and_then (gr_fetch remaining r) (\<lambda>(bs, r).
     case utf8_scan (pending @ bs) of
       (_, _, Utf8_Done) \<Rightarrow> Inr ([], r)
     | (_, tail, Utf8_Cut) \<Rightarrow> if 3 < length tail then Inl ParseFailure_Invalid else Inr (tail, r)
     | (_, _, Utf8_Error) \<Rightarrow> Inl ParseFailure_Invalid)"
  using assms
  by (subst gr_utf8_loop.simps) (simp add: min_def gr_utf8_loop.simps [of 0] cong: if_cong utf8_end.case_cong)

lemma char_at_eval:
  "char_at 46 = CHR ''.''" "char_at 97 = CHR ''a''" "char_at 98 = CHR ''b''" "char_at 119 = CHR ''w''"
  using char_at_byte_of [of "CHR ''.''"] char_at_byte_of [of "CHR ''a''"]
    char_at_byte_of [of "CHR ''b''"] char_at_byte_of [of "CHR ''w''"]
  by (simp_all add: byte_of_def)

lemmas gguf_eval = gr_new_def gr_read_def gr_fetch_def gr_ensure_def gr_remaining_def gr_read_u8_def
  gr_read_u32_def gr_read_u64_def gr_skip_def gr_limit_next_def gr_clear_limit_def
  gr_read_bounded_bytes_def mb_charge_def mb_charge_bytes_def gr_skip_utf8_string_def
  GGUF_MAGIC_def validate_counts_def validate_key_def validate_name_def charge_symbol_bytes_def
  is_lower_snake_case_def parse_metadata_entry_def parse_tensor_def tensor_length_def ggml_layout_def
  ggml_layouts_def align_up_def MAX_METADATA_COUNT_def MAX_TENSOR_COUNT_def MAX_SYMBOL_BYTES_def
  MAX_METADATA_VALUE_BYTES_def MAX_METADATA_INSPECTION_BYTES_def MAX_METADATA_KEY_LEN_def
  MAX_TENSOR_NAME_LEN_def GENERAL_ALIGNMENT_def DEFAULT_ALIGNMENT_def I64_MAX_def checked_add_def
  checked_mul_def is_ascii_alphanumeric_def gguf_fixed_size_def GGUF_TYPE_BOOL_def GGUF_TYPE_STRING_def
  parse_metadata_value.simps from_utf8_def checked_product_def is_multiple_of_def gr_utf8_loop_once char_at_eval

lemmas sample_safetensors_eval = sample_safetensors_def sample_tensor_def bytes_eval text_eval

lemmas sample_gguf_eval = sample_gguf_def sample_tensor_def bytes_eval text_eval

lemma sample_safetensors_layout:
  "st_read_layout sample_json (slice_source sample_safetensors) =
   Inr (Some \<lparr>st_header_end = 24, st_tensors = [\<lparr>te_name = ''v'', te_dtype = ''U8'', te_shape = [8],
     te_start = 0, te_end = 8\<rparr>]\<rparr>)"
  by (simp add: st_read_layout_def slice_source_def slice_read_def sample_safetensors_eval PREFIX_SIZE_def
      MAX_HEADER_SIZE_def sample_json_def sample_header_def header_of_def json_descriptor.simps
      descriptor_of_def tensor_byte_size_def dtype_bits_def checked_product_def checked_mul_def bytes_eval text_eval
      MAX_OBJECT_COUNT_def map_err_def Let_def)

lemma sample_gguf_parse:
  "gguf_parse (slice_source sample_gguf) = Inr \<lparr>gl_alignment = 32, gl_directory_start = 49,
     gl_directory_end = 82, gl_data_start = 96, gl_tensors = [\<lparr>ti_name = ''w'', ti_dimensions = [2, 1, 1, 1],
     ti_dimension_count = 1, ti_ggml_type = 0, ti_offset = 0, ti_length = 8\<rparr>]\<rparr>"
  using is_power_of_two_exp [of 5]
  by (simp add: gguf_parse_def gguf_directory_def gguf_eval source_eval sample_gguf_eval bytes_eval
      text_eval)

lemma sample_safetensors_not_gguf: "gguf_read_layout (slice_source sample_safetensors) = Inr None"
  by (simp add: gguf_read_layout_def lift_parse_def gguf_parse_def gguf_eval source_eval
      sample_safetensors_eval text_eval)

lemma sample_safetensors_length: "length sample_safetensors < 2 ^ 64"
  by (simp add: sample_safetensors_eval)

lemma sample_gguf_length: "length sample_gguf < 2 ^ 64"
  by (simp add: sample_gguf_eval)

lemma sample_safetensors_inventory:
  "inventory sample_json 0 (slice_source sample_safetensors) =
   Inr (Some \<lparr>inv_format = TensorFormat_SafetensorsV1, inv_tensors = [\<lparr>inv_name = ''v'',
     inv_dtype = ''U8'', inv_shape = [8], inv_offset = 24, inv_length = 8\<rparr>]\<rparr>)"
  by (simp add: inventory_def sample_safetensors_not_gguf sample_safetensors_layout st_inventory_def)
    (simp add: source_eval check_unchanged_def)

lemma sample_gguf_inventory:
  "inventory sample_json 0 (slice_source sample_gguf) =
   Inr (Some \<lparr>inv_format = TensorFormat_GgufV1, inv_tensors = [\<lparr>inv_name = ''w'',
     inv_dtype = ''F32'', inv_shape = [2], inv_offset = 96, inv_length = 8\<rparr>]\<rparr>)"
  by (simp add: inventory_def gguf_read_layout_def lift_parse_def sample_gguf_parse gguf_inventory_def
      logical_shape_def ggml_type_name_def ggml_type_names_def)
    (simp add: source_eval check_unchanged_def sample_gguf_eval)

lemma split_loop_small:
  "0 < len \<Longrightarrow> len \<le> MAX_OBJECT_SIZE \<Longrightarrow>
   split_loop kind offset len = [\<lparr>reg_offset = offset, reg_length = len, reg_kind = kind\<rparr>]"
  by (subst split_loop.simps) (simp add: split_loop.simps [of kind _ 0] min_def)

lemmas grid_eval = append_split_region_def append_tensor_regions_def split_loop_small MAX_OBJECT_SIZE_def
  MAX_OBJECT_COUNT_def div_ceil_def

lemma sample_safetensors_plan:
  "plan_once sha256 sample_json (slice_source sample_safetensors) None =
   Inr \<lparr>plan_planner = PlannerId_SafetensorsV1, plan_contract = Stamp_None, plan_file_size = 32,
     plan_regions = [\<lparr>reg_offset = 0, reg_length = 24, reg_kind = RegionKind_Header\<rparr>,
       \<lparr>reg_offset = 24, reg_length = 8, reg_kind = RegionKind_Tensor\<rparr>]\<rparr>"
proof -
  have "gguf_try_plan sha256 (slice_source sample_safetensors) None = Inr None"
    using sample_safetensors_not_gguf
    by (auto simp: gguf_read_layout_def gguf_try_plan_def lift_parse_def and_then_def
        split: sum.splits parse_failure.splits)
  moreover have "st_try_plan sha256 sample_json (slice_source sample_safetensors) None =
      Inr (Some \<lparr>plan_planner = PlannerId_SafetensorsV1, plan_contract = Stamp_None, plan_file_size = 32,
     plan_regions = [\<lparr>reg_offset = 0, reg_length = 24, reg_kind = RegionKind_Header\<rparr>,
       \<lparr>reg_offset = 24, reg_length = 8, reg_kind = RegionKind_Tensor\<rparr>]\<rparr>)"
    by (simp add: st_try_plan_def sample_safetensors_layout grid_eval contract_seams_def plan_stamp_def Let_def)
      (simp add: slice_source_def sample_safetensors_eval)
  moreover have "src_len (slice_source sample_safetensors) = 32"
    by (simp add: slice_source_def sample_safetensors_eval)
  ultimately show ?thesis
    by (simp add: plan_once_def validated_def plan_validate_def MAX_OBJECT_COUNT_def MAX_OBJECT_SIZE_def
        checked_add_def)
qed

lemma sample_gguf_plan:
  "plan_once sha256 sample_json (slice_source sample_gguf) None =
   Inr \<lparr>plan_planner = PlannerId_GgufV1, plan_contract = Stamp_None, plan_file_size = 128,
     plan_regions = [\<lparr>reg_offset = 0, reg_length = 49, reg_kind = RegionKind_Header\<rparr>,
       \<lparr>reg_offset = 49, reg_length = 33, reg_kind = RegionKind_Header\<rparr>,
       \<lparr>reg_offset = 82, reg_length = 14, reg_kind = RegionKind_Header\<rparr>,
       \<lparr>reg_offset = 96, reg_length = 8, reg_kind = RegionKind_Tensor\<rparr>,
       \<lparr>reg_offset = 104, reg_length = 24, reg_kind = RegionKind_Header\<rparr>]\<rparr>"
proof -
  have len: "src_len (slice_source sample_gguf) = 128"
    by (simp add: slice_source_def sample_gguf_eval)
  show ?thesis
    by (simp add: plan_once_def gguf_try_plan_def len sample_gguf_parse lift_parse_def plan_layout_def
        append_domain_def append_seamed_domain_def grid_eval contract_seams_def plan_stamp_def Let_def
        map_err_def validated_def plan_validate_def checked_add_def align_up_def)
qed

text \<open>Contracts for the tensor \<open>w\<close> as two fused parts, with the document each comes from; the second
  list of shares sums to more than \<open>2\<^sup>64\<close>.\<close>

definition sample_pattern :: "str \<Rightarrow> pattern" where
  "sample_pattern s = \<lparr>pat_pieces = [Piece_Literal s], pat_text = s\<rparr>"

definition fused_contract :: "str list \<Rightarrow> fusion_part list \<Rightarrow> contract" where
  "fused_contract dtypes parts = \<lparr>con_handle = None, con_description = [], con_dtype = None,
     con_tensors = [\<lparr>tp_role = sample_pattern ''w'', tp_pattern = sample_pattern ''w'', tp_dtypes = dtypes,
       tp_rank = None, tp_required = True, tp_fusion = Some \<lparr>fus_groups = 1, fus_parts = parts\<rparr>,
       tp_permute = None\<rparr>], con_sets = []\<rparr>"

definition fused_raw :: "str list \<Rightarrow> fusion_part list \<Rightarrow> raw_contract" where
  "fused_raw dtypes parts = \<lparr>rc_format = CONTRACT_FORMAT, rc_name = None, rc_version = None,
     rc_description = [], rc_dtype = None,
     rc_tensors = [\<lparr>rt_role = ''w'', rt_pattern = ''w'', rt_dtypes = dtypes, rt_rank = None,
       rt_required = True, rt_fusion = Some \<lparr>rf_axis = 0, rf_groups = 1, rf_parts = parts\<rparr>,
       rt_permute = None\<rparr>], rc_sets = []\<rparr>"

definition sample_parts :: "fusion_part list" where
  "sample_parts = [\<lparr>part_role = ''q'', part_share = 1\<rparr>, \<lparr>part_role = ''k'', part_share = 1\<rparr>]"

definition wrapping_parts :: "fusion_part list" where
  "wrapping_parts = [\<lparr>part_role = ''q'', part_share = 9223372036854775808\<rparr>,
     \<lparr>part_role = ''k'', part_share = 9223372036854775808\<rparr>, \<lparr>part_role = ''v'', part_share = 1048576\<rparr>]"

lemma pattern_parse_w: "pattern_parse ''w'' = Inr (sample_pattern ''w'')"
  by (simp add: pattern_parse_def pattern_loop.simps sample_pattern_def)

lemma fused_raw_validates:
  "raw_validate (fused_raw dtypes sample_parts) = Inr (fused_contract dtypes sample_parts)"
  "raw_validate (fused_raw dtypes wrapping_parts) = Inr (fused_contract dtypes wrapping_parts)"
  by (simp_all add: raw_validate_def fused_raw_def fused_contract_def pattern_parse_w validate_optional_def
      validate_fusion_def sample_parts_def wrapping_parts_def pattern_holes_def)

lemmas fusion_eval = seam_offsets_def runs_of_def entry_for_def fused_contract_def sample_parts_def
  wrapping_parts_def pattern_matches_def captures_def sample_pattern_def fusion_runs_def fusion_units_def
  checked_mul_def is_multiple_of_def MIN_SEAM_PART_BYTES_def

lemma sample_contract_fits: "contract_fits (Some (fused_contract dtypes sample_parts))"
  by (simp add: contract_fits_def con_shares_fit_def shares_fit_def fused_contract_def sample_parts_def)

lemma sample_contract_seams: "seam_offsets (fused_contract [] sample_parts) ''w'' [2] 2097152 = [1048576]"
  by (simp add: fusion_eval)

lemma sample_hole_pattern:
  "pattern_parse ''b.{i}.w'' = Inr \<lparr>pat_pieces = [Piece_Literal ''b.'', Piece_Integer, Piece_Literal ''.w''],
     pat_text = ''b.{i}.w''\<rparr>"
  by (simp add: pattern_parse_def pattern_loop.simps is_ascii_digit_def)

lemma sample_hashed:
  "\<exists>h. plan_and_hash_under sample_hasher digest_of_bytes sample_json (slice_source sample_gguf) None = Inr h"
  "\<exists>h. plan_and_hash_under sample_hasher digest_of_bytes sample_json (slice_source sample_safetensors) None = Inr h"
  by (rule plan_and_hash_slice_total, rule sample_gguf_length sample_safetensors_length,
      simp add: contract_fits_def)+

end
