(* ===== verification/Fused_Samples.thy ===== *)
theory Fused_Samples
  imports Fused_Objects Samples
begin

text \<open>
  Two safetensors files of the fusion property: one holds a tensor of two mebibytes that its contract declares
  to be two fused parts, the other holds the first part as a tensor of its own. The JSON parser tells their
  headers apart by the second byte.
\<close>

definition mebibyte :: "u8 \<Rightarrow> bytes" where
  "mebibyte b = replicate 1048576 b"

lemma length_mebibyte [simp]: "length (mebibyte b) = 1048576"
  by (simp add: mebibyte_def)

definition tensor_header :: "str \<Rightarrow> u64 list \<Rightarrow> u64 \<Rightarrow> json" where
  "tensor_header name shape len = Json_Object [(name, Json_Object [(''dtype'', Json_String ''U8''),
     (''shape'', Json_Array (map (Json_Number \<circ> Some) shape)),
     (''data_offsets'', Json_Array [Json_Number (Some 0), Json_Number (Some len)])])]"

definition parts_json :: "bytes \<Rightarrow> json option" where
  "parts_json bs = Some (if bs ! 1 = 1 then tensor_header ''w'' [2, 1048576] 2097152 else tensor_header ''q'' [1048576] 1048576)"

definition stub_file :: "u8 \<Rightarrow> bytes \<Rightarrow> bytes" where
  "stub_file b content = u64_le 16 @ [123, b] @ replicate 14 32 @ content"

definition fused_file :: bytes where
  "fused_file = stub_file 1 (mebibyte 7 @ mebibyte 9)"

definition split_file :: bytes where
  "split_file = stub_file 2 (mebibyte 7)"

abbreviation parts_contract :: contract where
  "parts_contract \<equiv> fused_contract [] sample_parts"

lemma stub_length: "length (stub_file b content) = 24 + length content"
  by (simp add: stub_file_def u64_le_def)

lemma parts_lengths: "length fused_file = 2097176" "length split_file = 1048600"
  by (simp_all add: fused_file_def split_file_def stub_length)

text \<open>The file without its content is evaluated; the content stays a variable.\<close>

lemmas stub_eval = stub_file_def bytes_eval text_eval

lemma stub_not_gguf:
  assumes "length content = 2097152 \<or> length content = 1048576"
  shows "gguf_parse (slice_source (stub_file b content)) = Inl ParseFailure_Invalid"
  using assms by (auto simp: gguf_parse_def gguf_eval source_eval stub_eval)

lemma parts_layout:
  "length content = 2097152 \<Longrightarrow> st_read_layout parts_json (slice_source (stub_file 1 content)) = Inr (Some \<lparr>st_header_end = 24,
     st_tensors = [\<lparr>te_name = ''w'', te_dtype = ''U8'', te_shape = [2, 1048576], te_start = 0, te_end = 2097152\<rparr>]\<rparr>)"
  "length content = 1048576 \<Longrightarrow> st_read_layout parts_json (slice_source (stub_file 2 content)) = Inr (Some \<lparr>st_header_end = 24,
     st_tensors = [\<lparr>te_name = ''q'', te_dtype = ''U8'', te_shape = [1048576], te_start = 0, te_end = 1048576\<rparr>]\<rparr>)"
  by (simp_all add: st_read_layout_def slice_source_def slice_read_def stub_eval PREFIX_SIZE_def
      MAX_HEADER_SIZE_def parts_json_def tensor_header_def header_of_def json_descriptor.simps
      descriptor_of_def tensor_byte_size_def dtype_bits_def checked_product_def checked_mul_def
      MAX_OBJECT_COUNT_def map_err_def Let_def)

lemma parts_inventory:
  "inventory parts_json 0 (slice_source fused_file) = Inr (Some \<lparr>inv_format = TensorFormat_SafetensorsV1, inv_tensors = [\<lparr>inv_name = ''w'',
     inv_dtype = ''U8'', inv_shape = [2, 1048576], inv_offset = 24, inv_length = 2097152\<rparr>]\<rparr>)"
  "inventory parts_json 0 (slice_source split_file) = Inr (Some \<lparr>inv_format = TensorFormat_SafetensorsV1, inv_tensors = [\<lparr>inv_name = ''q'',
     inv_dtype = ''U8'', inv_shape = [1048576], inv_offset = 24, inv_length = 1048576\<rparr>]\<rparr>)"
  by (simp_all add: fused_file_def split_file_def inventory_def check_unchanged_def gguf_read_layout_def lift_parse_def
      stub_not_gguf parts_layout st_inventory_def)
    (simp_all add: slice_source_def stub_length)

lemma parts_seams: "seam_offsets parts_contract ''w'' [2, 1048576] 2097152 = [1048576]"
  by (simp add: fusion_eval)

lemma parts_planner:
  "plan_once sha256 parts_json (slice_source fused_file) (Some parts_contract) = Inr p \<Longrightarrow> plan_planner p = PlannerId_SafetensorsV1"
  "plan_once sha256 parts_json (slice_source split_file) None = Inr q \<Longrightarrow> plan_planner q = PlannerId_SafetensorsV1"
proof -
  have n: "src_len (slice_source fused_file) = 2097176" "src_len (slice_source split_file) = 1048600"
    by (simp_all add: slice_source_def parts_lengths)
  have "gguf_try_plan sha256 (slice_source fused_file) con = Inr None" "gguf_try_plan sha256 (slice_source split_file) con = Inr None" for con
    by (simp_all add: gguf_try_plan_def fused_file_def split_file_def stub_not_gguf lift_parse_def)
  moreover have "\<exists>p. st_try_plan sha256 parts_json (slice_source fused_file) (Some parts_contract) = Inr (Some p) \<and> plan_planner p = PlannerId_SafetensorsV1"
    "\<exists>q. st_try_plan sha256 parts_json (slice_source split_file) None = Inr (Some q) \<and> plan_planner q = PlannerId_SafetensorsV1"
    by (simp_all add: fused_file_def split_file_def st_try_plan_def parts_layout grid_eval contract_seams_def parts_seams Let_def)
  ultimately show "plan_once sha256 parts_json (slice_source fused_file) (Some parts_contract) = Inr p \<Longrightarrow> plan_planner p = PlannerId_SafetensorsV1"
    "plan_once sha256 parts_json (slice_source split_file) None = Inr q \<Longrightarrow> plan_planner q = PlannerId_SafetensorsV1"
    by (auto simp: plan_once_def n validated_def result_simps)
qed

lemma parts_hashed:
  "\<exists>h. plan_and_hash_under sample_hasher digest_of_bytes parts_json (slice_source fused_file) (Some parts_contract) = Inr h \<and>
    planner_tensor_format (hp_planner h) = Some TensorFormat_SafetensorsV1"
  "\<exists>g. plan_and_hash_under sample_hasher digest_of_bytes parts_json (slice_source split_file) None = Inr g \<and>
    planner_tensor_format (hp_planner g) = Some TensorFormat_SafetensorsV1"
  using plan_and_hash_slice_total [of fused_file "Some parts_contract" sample_hasher digest_of_bytes parts_json] sample_contract_fits [of "[]"]
    plan_and_hash_slice_total [of split_file None sample_hasher digest_of_bytes parts_json] parts_planner
  by (auto simp: parts_lengths plan_and_hash_under_Inr_iff contract_fits_def)

lemma parts_bytes: "tensor_bytes fused_file 24 2097152 = mebibyte 7 @ mebibyte 9" "tensor_bytes split_file 24 1048576 = mebibyte 7"
  by (simp_all add: tensor_bytes_def fused_file_def split_file_def stub_file_def u64_le_def)

lemma parts_declared:
  "entry_for parts_contract ''w'' = Some \<lparr>tp_role = sample_pattern ''w'', tp_pattern = sample_pattern ''w'', tp_dtypes = [],
     tp_rank = None, tp_required = True, tp_fusion = Some \<lparr>fus_groups = 1, fus_parts = sample_parts\<rparr>, tp_permute = None\<rparr>"
  "shares_fit \<lparr>fus_groups = 1, fus_parts = sample_parts\<rparr>" "fusion_rows \<lparr>fus_groups = 1, fus_parts = sample_parts\<rparr> = 2"
  "declared_pieces \<lparr>fus_groups = 1, fus_parts = sample_parts\<rparr> (mebibyte 7 @ mebibyte 9) [mebibyte 7, mebibyte 9]"
  by (simp_all add: entry_for_def fused_contract_def pattern_matches_def captures_def sample_pattern_def sample_parts_def shares_fit_def
      fusion_rows_def declared_pieces_def fusion_cells_def All_less_Suc nth_Cons')

end
