(* ===== verification/Tfp1.thy ===== *)
theory Tfp1
  imports Planner
begin

text \<open>
  TFP1, the upload pack (\<open>tfp1.rs\<close>): a sorted index of whole objects followed by their bytes. The
  strict parser, the digest check and the builder are modelled, with SHA-256 as a parameter; a pack
  decodes exactly when it is what the builder emits for its own objects.
\<close>

section \<open>The format\<close>

definition MAX_PACK_PAYLOAD :: u64 where
  "MAX_PACK_PAYLOAD = MAX_OBJECT_SIZE"

definition MAX_PACK_OBJECTS :: nat where
  "MAX_PACK_OBJECTS = 1000000"

definition TFP1_MAGIC :: bytes where
  "TFP1_MAGIC = as_bytes ''TFP1''"

definition ROW_BYTES :: u64 where
  "ROW_BYTES = 32 + 8 + 8"

datatype tfp1_error =
    Tfp1Error_Truncated
  | Tfp1Error_BadMagic
  | Tfp1Error_ZeroObjects
  | Tfp1Error_ObjectLimit
  | Tfp1Error_CountExceedsInput
  | Tfp1Error_IndexOrder
  | Tfp1Error_DuplicateDigest
  | Tfp1Error_ZeroLengthObject
  | Tfp1Error_ObjectTooLarge
  | Tfp1Error_PayloadTooLarge
  | Tfp1Error_OffsetMismatch
  | Tfp1Error_TrailingBytes
  | Tfp1Error_DigestMismatch

fun tfp1_error_reason :: "tfp1_error \<Rightarrow> str" where
  "tfp1_error_reason Tfp1Error_Truncated = ''truncated''"
| "tfp1_error_reason Tfp1Error_BadMagic = ''bad-magic''"
| "tfp1_error_reason Tfp1Error_ZeroObjects = ''zero-objects''"
| "tfp1_error_reason Tfp1Error_ObjectLimit = ''object-limit''"
| "tfp1_error_reason Tfp1Error_CountExceedsInput = ''count-exceeds-input''"
| "tfp1_error_reason Tfp1Error_IndexOrder = ''index-order''"
| "tfp1_error_reason Tfp1Error_DuplicateDigest = ''duplicate-digest''"
| "tfp1_error_reason Tfp1Error_ZeroLengthObject = ''zero-length-object''"
| "tfp1_error_reason Tfp1Error_ObjectTooLarge = ''object-too-large''"
| "tfp1_error_reason Tfp1Error_PayloadTooLarge = ''payload-too-large''"
| "tfp1_error_reason Tfp1Error_OffsetMismatch = ''offset-mismatch''"
| "tfp1_error_reason Tfp1Error_TrailingBytes = ''trailing-bytes''"
| "tfp1_error_reason Tfp1Error_DigestMismatch = ''digest-mismatch''"

record index_row =
  row_digest :: digest
  row_offset :: u64
  row_length :: u64

record pack_object =
  pko_digest :: digest
  pko_bytes :: bytes

record pack =
  pack_rows :: "index_row list"
  pack_payload :: bytes

abbreviation tfp1_digest :: "reader \<Rightarrow> tfp1_error + digest \<times> reader" where
  "tfp1_digest \<equiv> take_digest Tfp1Error_Truncated"

abbreviation tfp1_u64 :: "reader \<Rightarrow> tfp1_error + u64 \<times> reader" where
  "tfp1_u64 \<equiv> take_u64 Tfp1Error_Truncated"

definition check_digest_order :: "digest option \<Rightarrow> digest \<Rightarrow> tfp1_error + unit" where
  "check_digest_order previous d =
     (case previous of
        None \<Rightarrow> Inr ()
      | Some p \<Rightarrow>
          if digest_bytes p < digest_bytes d then Inr ()
          else if digest_bytes p = digest_bytes d then Inl Tfp1Error_DuplicateDigest
          else Inl Tfp1Error_IndexOrder)"

text \<open>The index loop: \<open>previous\<close> is the digest of the last row, \<open>used\<close> the sum of the lengths.\<close>

fun parse_rows :: "nat \<Rightarrow> digest option \<Rightarrow> u64 \<Rightarrow> reader \<Rightarrow>
    tfp1_error + index_row list \<times> u64 \<times> reader" where
  "parse_rows 0 previous used r = Inr ([], used, r)"
| "parse_rows (Suc n) previous used r =
     and_then (tfp1_digest r) (\<lambda>(d, r).
     and_then (tfp1_u64 r) (\<lambda>(offset, r).
     and_then (tfp1_u64 r) (\<lambda>(len, r).
       if len = 0 then Inl Tfp1Error_ZeroLengthObject
       else if MAX_OBJECT_SIZE < len then Inl Tfp1Error_ObjectTooLarge
       else if offset \<noteq> used then Inl Tfp1Error_OffsetMismatch
       else
       and_then (check_digest_order previous d) (\<lambda>_.
       and_then (ok_or (checked_add used len) Tfp1Error_PayloadTooLarge) (\<lambda>used.
         if MAX_PACK_PAYLOAD < used then Inl Tfp1Error_PayloadTooLarge
         else
         and_then (parse_rows n (Some d) used r) (\<lambda>(rows, used, r).
           Inr (\<lparr>row_digest = d, row_offset = offset, row_length = len\<rparr> # rows, used, r)))))))"

definition pack_parse :: "bytes \<Rightarrow> tfp1_error + pack" where
  "pack_parse bs =
     and_then (reader_take Tfp1Error_Truncated 4 (new_reader bs)) (\<lambda>(magic, r).
       if magic \<noteq> TFP1_MAGIC then Inl Tfp1Error_BadMagic
       else
       and_then (tfp1_u64 r) (\<lambda>(n, r).
         if n = 0 then Inl Tfp1Error_ZeroObjects
         else if of_nat MAX_PACK_OBJECTS < n then Inl Tfp1Error_ObjectLimit
         else if remaining_u64 r div ROW_BYTES < n then Inl Tfp1Error_CountExceedsInput
         else
         and_then (parse_rows (unat n) None 0 r) (\<lambda>(rows, used, r).
           if remaining_u64 r < used then Inl Tfp1Error_Truncated
           else if used < remaining_u64 r then Inl Tfp1Error_TrailingBytes
           else Inr \<lparr>pack_rows = rows, pack_payload = drop (rd_position r) (rd_bytes r)\<rparr>)))"

definition object_count :: "pack \<Rightarrow> nat" where
  "object_count p = length (pack_rows p)"

definition row_object :: "bytes \<Rightarrow> index_row \<Rightarrow> pack_object" where
  "row_object payload row =
     \<lparr>pko_digest = row_digest row,
      pko_bytes = take (unat (row_offset row + row_length row) - unat (row_offset row))
        (drop (unat (row_offset row)) payload)\<rparr>"

definition pack_objects :: "pack \<Rightarrow> pack_object list" where
  "pack_objects p = map (row_object (pack_payload p)) (pack_rows p)"

definition verify_objects :: "(bytes \<Rightarrow> digest) \<Rightarrow> pack \<Rightarrow> tfp1_error + unit" where
  "verify_objects sha256 p =
     (if list_ex (\<lambda>object. sha256 (pko_bytes object) \<noteq> pko_digest object) (pack_objects p)
      then Inl Tfp1Error_DigestMismatch else Inr ())"

definition pack_decode :: "(bytes \<Rightarrow> digest) \<Rightarrow> bytes \<Rightarrow> tfp1_error + pack" where
  "pack_decode sha256 bs =
     and_then (pack_parse bs) (\<lambda>p. and_then (verify_objects sha256 p) (\<lambda>_. Inr p))"

fun check_objects :: "(bytes \<Rightarrow> digest) \<Rightarrow> u64 \<Rightarrow> pack_object list \<Rightarrow> tfp1_error + unit" where
  "check_objects sha256 used [] = Inr ()"
| "check_objects sha256 used (object # objects) =
     (if pko_bytes object = [] then Inl Tfp1Error_ZeroLengthObject
      else if MAX_OBJECT_SIZE < of_nat (length (pko_bytes object)) then Inl Tfp1Error_ObjectTooLarge
      else
      and_then (ok_or (checked_add used (of_nat (length (pko_bytes object)))) Tfp1Error_PayloadTooLarge)
        (\<lambda>used.
          if MAX_PACK_PAYLOAD < used then Inl Tfp1Error_PayloadTooLarge
          else if sha256 (pko_bytes object) \<noteq> pko_digest object then Inl Tfp1Error_DigestMismatch
          else check_objects sha256 used objects))"

fun adjacent_duplicate :: "pack_object list \<Rightarrow> bool" where
  "adjacent_duplicate (a # b # objects) =
     (pko_digest a = pko_digest b \<or> adjacent_duplicate (b # objects))"
| "adjacent_duplicate _ = False"

definition emit_row :: "index_row \<Rightarrow> bytes" where
  "emit_row row = digest_bytes (row_digest row) @ u64_le (row_offset row) @ u64_le (row_length row)"

fun index_rows :: "u64 \<Rightarrow> pack_object list \<Rightarrow> index_row list" where
  "index_rows offset [] = []"
| "index_rows offset (object # objects) =
     \<lparr>row_digest = pko_digest object, row_offset = offset, row_length = of_nat (length (pko_bytes object))\<rparr>
       # index_rows (offset + of_nat (length (pko_bytes object))) objects"

definition emit_pack :: "pack_object list \<Rightarrow> bytes" where
  "emit_pack ordered =
     TFP1_MAGIC @ u64_le (of_nat (length ordered)) @ concat (map emit_row (index_rows 0 ordered))
       @ concat (map pko_bytes ordered)"

definition pack_encode :: "(bytes \<Rightarrow> digest) \<Rightarrow> pack_object list \<Rightarrow> tfp1_error + bytes" where
  "pack_encode sha256 objects =
     (if objects = [] then Inl Tfp1Error_ZeroObjects
      else if MAX_PACK_OBJECTS < length objects then Inl Tfp1Error_ObjectLimit
      else
      and_then (check_objects sha256 0 objects) (\<lambda>_.
        let ordered = sort_key (digest_bytes \<circ> pko_digest) objects in
        if adjacent_duplicate ordered then Inl Tfp1Error_DuplicateDigest
        else Inr (emit_pack ordered)))"


section \<open>What the index loop accepts\<close>

fun rows_ok :: "digest option \<Rightarrow> nat \<Rightarrow> index_row list \<Rightarrow> bool" where
  "rows_ok previous used [] = True"
| "rows_ok previous used (row # rows) =
     (row_length row \<noteq> 0 \<and> unat (row_offset row) = used \<and> used + unat (row_length row) \<le> 67108864 \<and>
      (case previous of None \<Rightarrow> True | Some p \<Rightarrow> digest_bytes p < digest_bytes (row_digest row)) \<and>
      rows_ok (Some (row_digest row)) (used + unat (row_length row)) rows)"

abbreviation rows_total :: "index_row list \<Rightarrow> nat" where
  "rows_total rows \<equiv> sum_list (map (\<lambda>row. unat (row_length row)) rows)"

lemma check_digest_order_iff [result_simps]:
  "check_digest_order previous d = Inr u \<longleftrightarrow>
     (case previous of None \<Rightarrow> True | Some p \<Rightarrow> digest_bytes p < digest_bytes d)"
  by (auto simp: check_digest_order_def split: option.splits)

lemma rows_ok_total: "rows_ok previous used rows \<Longrightarrow> used \<le> 67108864 \<Longrightarrow> used + rows_total rows \<le> 67108864"
  by (induction previous used rows rule: rows_ok.induct) (auto simp: add.assoc)

text \<open>One turn of the loop, in natural numbers.\<close>

lemma row_guards:
  assumes "unat used \<le> 67108864"
  shows "len \<noteq> 0 \<and> \<not> MAX_OBJECT_SIZE < len \<and> offset = used \<and> checked_add used len = Some used' \<and>
      \<not> MAX_PACK_PAYLOAD < used' \<longleftrightarrow>
    len \<noteq> 0 \<and> unat offset = unat used \<and> unat used + unat len \<le> 67108864 \<and> used' = used + len"
  using assms
  by (auto simp: checked_add_def MAX_PACK_PAYLOAD_def MAX_OBJECT_SIZE_def not_less u64_nat u64_eq_nat
      unat_add_u64 split: if_splits)

lemma parse_rows_Suc_iff:
  assumes "unat used \<le> 67108864"
  shows "parse_rows (Suc n) previous used r = Inr (row # rows, used', r') \<longleftrightarrow>
    (\<exists>r1 r2 r3. tfp1_digest r = Inr (row_digest row, r1) \<and> tfp1_u64 r1 = Inr (row_offset row, r2) \<and>
      tfp1_u64 r2 = Inr (row_length row, r3) \<and>
      row_length row \<noteq> 0 \<and> unat (row_offset row) = unat used \<and>
      unat used + unat (row_length row) \<le> 67108864 \<and>
      (case previous of None \<Rightarrow> True | Some p \<Rightarrow> digest_bytes p < digest_bytes (row_digest row)) \<and>
      parse_rows n (Some (row_digest row)) (used + row_length row) r3 = Inr (rows, used', r'))"
(is "?l \<longleftrightarrow> ?r")
proof
  assume ?l
  then obtain r1 r2 r3 u where m: "tfp1_digest r = Inr (row_digest row, r1)"
      "tfp1_u64 r1 = Inr (row_offset row, r2)" "tfp1_u64 r2 = Inr (row_length row, r3)"
    and g: "row_length row \<noteq> 0 \<and> \<not> MAX_OBJECT_SIZE < row_length row \<and> row_offset row = used \<and>
        checked_add used (row_length row) = Some u \<and> \<not> MAX_PACK_PAYLOAD < u"
    and c: "check_digest_order previous (row_digest row) = Inr ()"
    and p: "parse_rows n (Some (row_digest row)) u r3 = Inr (rows, used', r')"
    by (auto simp: result_simps(1-4) if_Inl_Inr_iff split: prod.splits)
  from g have "row_length row \<noteq> 0 \<and> unat (row_offset row) = unat used \<and>
      unat used + unat (row_length row) \<le> 67108864 \<and> u = used + row_length row"
    by (rule row_guards [OF assms, THEN iffD1])
  with m c p show ?r by (auto simp: check_digest_order_iff)
next
  assume ?r
  then show ?l using row_guards [OF assms, of "row_length row" "row_offset row" "used + row_length row"]
    by (auto simp: check_digest_order_def split: option.splits)
qed

lemma parse_rows_iff:
  "reader_valid r \<Longrightarrow> unat used \<le> 67108864 \<Longrightarrow>
   parse_rows n previous used r = Inr (rows, used', r') \<longleftrightarrow>
     length rows = n \<and> rows_ok previous (unat used) rows \<and>
     unat used' = unat used + rows_total rows \<and> consumes (concat (map emit_row rows)) r r'"
proof (induction n arbitrary: previous used r rows)
  case 0
  then show ?case by (auto simp: consumes_simps u64_eq_nat)
next
  case (Suc n)
  show ?case
  proof (cases rows)
    case Nil
    then show ?thesis by (simp add: result_simps split: prod.splits)
  next
    case (Cons row rest)
    have step: "parse_rows n (Some (row_digest row)) (used + row_length row) r3 = Inr (rest, used', r') \<longleftrightarrow>
        length rest = n \<and> rows_ok (Some (row_digest row)) (unat used + unat (row_length row)) rest \<and>
        unat used' = unat used + unat (row_length row) + rows_total rest \<and>
        consumes (concat (map emit_row rest)) r3 r'"
      if "reader_valid r3" "unat used + unat (row_length row) \<le> 67108864" for r3
    proof -
      have "unat (used + row_length row) = unat used + unat (row_length row)"
        using that(2) by (simp add: unat_add_u64)
      then show ?thesis using Suc.IH [OF that(1), of "used + row_length row"] that(2) by simp
    qed
    show ?thesis
      using Suc.prems
      by (simp add: Cons parse_rows_Suc_iff consumes_simps emit_row_def [of row] step add.assoc
          del: parse_rows.simps cong: conj_cong) blast
  qed
qed


section \<open>Index and objects determine each other\<close>

abbreviation payload_size :: "pack_object list \<Rightarrow> nat" where
  "payload_size objs \<equiv> sum_list (map (\<lambda>object. length (pko_bytes object)) objs)"

abbreviation object_key :: "pack_object \<Rightarrow> bytes" where
  "object_key object \<equiv> digest_bytes (pko_digest object)"

fun key_below :: "digest option \<Rightarrow> pack_object list \<Rightarrow> bool" where
  "key_below None objs = True"
| "key_below (Some p) objs = list_all (\<lambda>object. digest_bytes p < object_key object) objs"

lemma unat_row_advance:
  "used + n \<le> 67108864 \<Longrightarrow> unat (of_nat used :: u64) = used \<and> unat (of_nat n :: u64) = n \<and>
   (of_nat used + of_nat n :: u64) = of_nat (used + n)"
  by simp

lemma index_rows_total: "payload_size objs \<le> 67108864 \<Longrightarrow> rows_total (index_rows off objs) = payload_size objs"
  by (induction objs arbitrary: off) simp_all

lemma length_index_rows [simp]: "length (index_rows off objs) = length objs"
  by (induction objs arbitrary: off) simp_all

lemma rows_ok_index:
  "used + payload_size objs \<le> 67108864 \<Longrightarrow>
   rows_ok previous used (index_rows (of_nat used) objs) \<longleftrightarrow>
     list_all (\<lambda>object. pko_bytes object \<noteq> []) objs \<and>
     sorted_wrt (<) (map object_key objs) \<and> key_below previous objs"
proof (induction objs arbitrary: previous used)
  case Nil
  then show ?case by (cases previous) simp_all
next
  case (Cons object objs)
  let ?n = "length (pko_bytes object)"
  have n: "used + ?n \<le> 67108864" and rest: "used + ?n + payload_size objs \<le> 67108864"
    using Cons.prems by simp_all
  have nz: "(of_nat ?n :: u64) \<noteq> 0 \<longleftrightarrow> pko_bytes object \<noteq> []"
    using n by (simp add: u64_eq_0_nat)
  have lt: "list_all (\<lambda>x. object_key object < object_key x) objs \<Longrightarrow> digest_bytes p < object_key object \<Longrightarrow>
      list_all (\<lambda>x. digest_bytes p < object_key x) objs" for p
    by (auto simp: list_all_iff dest: order.strict_trans)
  show ?case
    using Cons.IH [OF rest, of "Some (pko_digest object)"] n nz lt
    by (cases previous) (auto simp: list_all_iff)
qed

lemma row_object_index:
  "length pre + payload_size objs \<le> 67108864 \<Longrightarrow>
   map (row_object (pre @ concat (map pko_bytes objs))) (index_rows (of_nat (length pre)) objs) = objs"
proof (induction objs arbitrary: pre)
  case (Cons object objs)
  let ?n = "length (pko_bytes object)"
  have n: "length pre + ?n \<le> 67108864" using Cons.prems by simp
  have "map (row_object ((pre @ pko_bytes object) @ concat (map pko_bytes objs)))
      (index_rows (of_nat (length (pre @ pko_bytes object))) objs) = objs"
    using Cons.prems by (intro Cons.IH) simp
  moreover have "row_object (pre @ pko_bytes object @ concat (map pko_bytes objs))
      \<lparr>row_digest = pko_digest object, row_offset = of_nat (length pre), row_length = of_nat ?n\<rparr> = object"
    using n by (simp add: row_object_def unat_add_u64)
  ultimately show ?case by simp
qed simp

lemma rows_are_index:
  "rows_ok previous used rows \<Longrightarrow> used + rows_total rows = length payload \<Longrightarrow> length payload \<le> 67108864 \<Longrightarrow>
   index_rows (of_nat used) (map (row_object payload) rows) = rows \<and>
   concat (map (pko_bytes \<circ> row_object payload) rows) = drop used payload"
proof (induction previous used rows rule: rows_ok.induct)
  case (2 previous used row rows)
  let ?n = "unat (row_length row)"
  have le: "used + ?n \<le> length payload" using "2.prems"(2) by simp
  have off: "unat (row_offset row + row_length row) = used + ?n" "row_offset row = of_nat used"
    using "2.prems" le by (simp_all add: unat_add_u64 u64_eq_nat)
  have bs: "pko_bytes (row_object payload row) = take ?n (drop used payload)"
    using "2.prems"(1) off by (simp add: row_object_def)
  have len: "length (pko_bytes (row_object payload row)) = ?n" using le by (simp add: bs)
  have dr: "pko_bytes (row_object payload row) @ drop (used + ?n) payload = drop used payload"
    unfolding bs by (metis append_take_drop_id drop_drop add.commute)
  have ih: "index_rows (of_nat (used + ?n)) (map (row_object payload) rows) = rows \<and>
      concat (map (pko_bytes \<circ> row_object payload) rows) = drop (used + ?n) payload"
    using "2.prems" by (intro "2.IH") simp_all
  have "(of_nat used + of_nat ?n :: u64) = of_nat (used + ?n)" by simp
  moreover have "\<lparr>row_digest = pko_digest (row_object payload row), row_offset = of_nat used,
      row_length = of_nat ?n\<rparr> = row"
    using off(2) by (simp add: row_object_def)
  ultimately show ?case using ih dr by (simp add: len comp_def del: of_nat_add)
qed simp


section \<open>Packs\<close>

definition objects_ok :: "(bytes \<Rightarrow> digest) \<Rightarrow> pack_object list \<Rightarrow> bool" where
  "objects_ok sha256 objs \<longleftrightarrow>
     objs \<noteq> [] \<and> length objs \<le> 1000000 \<and> payload_size objs \<le> 67108864 \<and>
     list_all (\<lambda>object. pko_bytes object \<noteq> [] \<and> sha256 (pko_bytes object) = pko_digest object) objs \<and>
     sorted_wrt (<) (map object_key objs)"

definition pack_of :: "pack_object list \<Rightarrow> pack" where
  "pack_of objs = \<lparr>pack_rows = index_rows 0 objs, pack_payload = concat (map pko_bytes objs)\<rparr>"

lemma pack_objects_pack_of: "payload_size objs \<le> 67108864 \<Longrightarrow> pack_objects (pack_of objs) = objs"
  using row_object_index [of "[]" objs] by (simp add: pack_objects_def pack_of_def)

lemma length_emit_row: "length (emit_row row) = 48"
  by (simp add: emit_row_def)

lemma pack_parse_iff:
  assumes "length bs < 2 ^ 64"
  shows "pack_parse bs = Inr p \<longleftrightarrow>
    (\<exists>objs. objs \<noteq> [] \<and> length objs \<le> 1000000 \<and> payload_size objs \<le> 67108864 \<and>
      list_all (\<lambda>object. pko_bytes object \<noteq> []) objs \<and> sorted_wrt (<) (map object_key objs) \<and>
      p = pack_of objs \<and> bs = emit_pack objs)" (is "?l \<longleftrightarrow> ?r")
proof
  assume ?l
  then obtain r1 n r2 rows used r3 where m: "consumes TFP1_MAGIC (new_reader bs) r1"
      "consumes (u64_le n) r1 r2" and n: "n \<noteq> 0" "\<not> of_nat MAX_PACK_OBJECTS < n"
    and rows: "parse_rows (unat n) None 0 r2 = Inr (rows, used, r3)"
    and fin: "\<not> remaining_u64 r3 < used" "\<not> used < remaining_u64 r3"
      "p = \<lparr>pack_rows = rows, pack_payload = drop (rd_position r3) (rd_bytes r3)\<rparr>"
    using assms by (auto simp: pack_parse_def decode_simps split: prod.splits)
  have v: "reader_valid r2" using m by simp
  have ok: "length rows = unat n" "rows_ok None 0 rows" "unat used = rows_total rows"
    "consumes (concat (map emit_row rows)) r2 r3"
    using rows parse_rows_iff [OF v, of 0] by auto
  let ?payload = "reader_rest r3"
  have "reader_remaining r3 < 2 ^ 64"
    using ok(4) by (auto simp: consumes_def reader_remaining_rest reader_valid_def reader_rest_def)
  then have size: "rows_total rows = length ?payload"
    using fin(1,2) ok(3) by (simp add: remaining_u64_def not_less u64_nat reader_remaining_rest)
  then have le: "length ?payload \<le> 67108864" using rows_ok_total [OF ok(2)] by simp
  let ?objs = "map (row_object ?payload) rows"
  have ix: "index_rows 0 ?objs = rows" "concat (map pko_bytes ?objs) = ?payload"
    using rows_are_index [OF ok(2), of ?payload] size le by simp_all
  have ps: "payload_size ?objs \<le> 67108864"
    using le arg_cong [OF ix(2), of length] by (simp add: length_concat comp_def)
  have "list_all (\<lambda>object. pko_bytes object \<noteq> []) ?objs \<and> sorted_wrt (<) (map object_key ?objs)"
    using rows_ok_index [of 0 ?objs None] ps ix(1) ok(2) by simp
  moreover have "bs = emit_pack ?objs"
  proof -
    have e: "bs = TFP1_MAGIC @ reader_rest r1" "reader_rest r1 = u64_le n @ reader_rest r2"
      "reader_rest r2 = concat (map emit_row rows) @ ?payload"
      using m [unfolded consumes_def] ok(4) [unfolded consumes_def] by (simp_all only: reader_rest_new)
    have n: "n = of_nat (length ?objs)" using ok(1) by simp
    show ?thesis unfolding e(1) e(2) e(3) emit_pack_def ix n ..
  qed
  moreover have "p = pack_of ?objs" using fin(3) ix by (simp add: pack_of_def reader_rest_def)
  moreover have "?objs \<noteq> []" "length ?objs \<le> 1000000"
    using n ok(1) by (auto simp: u64_nat MAX_PACK_OBJECTS_def)
  ultimately show ?r using ps by blast
next
  assume ?r
  then obtain objs where o: "objs \<noteq> []" "length objs \<le> 1000000" "payload_size objs \<le> 67108864"
      "list_all (\<lambda>object. pko_bytes object \<noteq> []) objs" "sorted_wrt (<) (map object_key objs)"
    and p: "p = pack_of objs" and bs: "bs = emit_pack objs" by blast
  let ?rows = "index_rows 0 objs" and ?payload = "concat (map pko_bytes objs)"
  have "consumes (emit_pack objs) (new_reader bs) (reader_advance (length bs) (new_reader bs))"
    using assms bs by (simp add: consumes_advance_iff)
  then obtain r1 r2 r3 where m: "consumes TFP1_MAGIC (new_reader bs) r1"
      "consumes (u64_le (of_nat (length objs))) r1 r2" "consumes (concat (map emit_row ?rows)) r2 r3"
      "consumes ?payload r3 (reader_advance (length bs) (new_reader bs))"
    by (auto simp: emit_pack_def consumes_append)
  have v: "reader_valid r1" "reader_valid r2" using m by simp_all
  have "reader_rest r3 = ?payload @ reader_rest (reader_advance (length bs) (new_reader bs))"
    using m(4) unfolding consumes_def by blast
  then have rest: "reader_rest r3 = ?payload" by simp
  have size: "length ?payload = payload_size objs" by (simp add: length_concat comp_def)
  have tot: "rows_total ?rows = payload_size objs" by (rule index_rows_total [OF o(3)])
  have "parse_rows (length objs) None 0 r2 = Inr (?rows, of_nat (payload_size objs), r3)"
    using parse_rows_iff [OF v(2), of 0 "length objs" None ?rows "of_nat (payload_size objs)" r3]
      rows_ok_index [of 0 objs None] o m(3) tot by simp
  moreover have "\<not> remaining_u64 r2 div ROW_BYTES < of_nat (length objs)"
    using o(2) by (intro count_fits [OF m(3) length_concat_ge [of ?rows 48]])
      (simp_all add: length_emit_row ROW_BYTES_def)
  moreover have "remaining_u64 r3 = of_nat (payload_size objs)"
    by (simp add: remaining_u64_def reader_remaining_rest rest size)
  moreover have "(of_nat (length objs) :: u64) \<noteq> 0" "\<not> of_nat MAX_PACK_OBJECTS < (of_nat (length objs) :: u64)"
    using o(1,2) by (simp_all add: u64_eq_0_nat MAX_PACK_OBJECTS_def not_less u64_nat)
  moreover have "reader_take Tfp1Error_Truncated 4 (new_reader bs) = Inr (TFP1_MAGIC, r1)"
    "tfp1_u64 r1 = Inr (of_nat (length objs), r2)"
    using m assms v by (simp_all add: consumes_simps TFP1_MAGIC_def)
  ultimately show ?l using o(2) rest
    by (simp add: pack_parse_def p pack_of_def reader_rest_def)
qed

lemma pack_decode_iff:
  assumes "length bs < 2 ^ 64"
  shows "pack_decode sha256 bs = Inr p \<longleftrightarrow>
    (\<exists>objs. objects_ok sha256 objs \<and> p = pack_of objs \<and> bs = emit_pack objs)"
proof -
  have "verify_objects sha256 (pack_of objs) = Inr () \<longleftrightarrow>
      list_all (\<lambda>object. sha256 (pko_bytes object) = pko_digest object) objs"
    if "payload_size objs \<le> 67108864" for objs
    using pack_objects_pack_of [OF that] by (auto simp: verify_objects_def list_ex_iff list_all_iff)
  then show ?thesis
    by (auto simp: pack_decode_def result_simps pack_parse_iff [OF assms] objects_ok_def list_all_iff)
qed

text \<open>Slices are shorter than the address range.\<close>

definition slices :: "pack_object list \<Rightarrow> bool" where
  "slices objs = list_all (\<lambda>object. length (pko_bytes object) < 2 ^ 64) objs"

lemma check_objects_iff:
  "unat used \<le> 67108864 \<Longrightarrow> slices objs \<Longrightarrow>
   check_objects sha256 used objs = Inr () \<longleftrightarrow>
     unat used + payload_size objs \<le> 67108864 \<and>
     list_all (\<lambda>object. pko_bytes object \<noteq> [] \<and> sha256 (pko_bytes object) = pko_digest object) objs"
proof (induction objs arbitrary: used)
  case (Cons object objs)
  let ?n = "length (pko_bytes object)"
  have n: "unat (of_nat ?n :: u64) = ?n" and sl: "slices objs" using Cons.prems(2) by (simp_all add: slices_def)
  show ?case
  proof (cases "pko_bytes object \<noteq> [] \<and> unat used + ?n \<le> 67108864 \<and> sha256 (pko_bytes object) = pko_digest object")
    case True
    have "unat (used + of_nat ?n) = unat used + ?n" using True n by (simp add: unat_add_u64)
    with Cons.IH [of "used + of_nat ?n"] True n sl show ?thesis
      by (simp add: checked_add_def MAX_PACK_PAYLOAD_def MAX_OBJECT_SIZE_def u64_nat add.assoc)
  next
    case False
    with n show ?thesis
      by (auto simp: checked_add_def MAX_PACK_PAYLOAD_def MAX_OBJECT_SIZE_def u64_nat unat_add_u64
          result_simps split: if_splits)
  qed
qed simp

lemma adjacent_duplicate_iff:
  "sorted (map object_key objs) \<Longrightarrow>
   \<not> adjacent_duplicate objs \<longleftrightarrow> sorted_wrt (<) (map object_key objs)"
proof (induction objs rule: adjacent_duplicate.induct)
  case (1 a b objects)
  then show ?case by (auto simp: le_less dest: order.strict_trans)
qed simp_all

lemma pack_encode_iff:
  assumes "slices objs"
  shows "pack_encode sha256 objs = Inr bs \<longleftrightarrow>
    objects_ok sha256 (sort_key object_key objs) \<and> bs = emit_pack (sort_key object_key objs)"
proof -
  let ?sorted = "sort_key object_key objs"
  have mset: "mset (map f ?sorted) = mset (map f objs)" for f :: "pack_object \<Rightarrow> nat" by simp
  have "payload_size ?sorted = payload_size objs"
    using mset [of "\<lambda>object. length (pko_bytes object)"] by (metis sum_mset_sum_list)
  moreover have "(digest_bytes \<circ> pko_digest) = object_key" by (simp add: fun_eq_iff)
  moreover have "?sorted = [] \<longleftrightarrow> objs = []" by (metis length_0_conv length_sort)
  ultimately show ?thesis
    using assms adjacent_duplicate_iff [of ?sorted]
    by (auto simp: pack_encode_def result_simps check_objects_iff objects_ok_def MAX_PACK_OBJECTS_def
        list_all_iff Let_def)
qed

end
