(* ===== verification/Store.thy ===== *)
theory Store
  imports Planner
begin

text \<open>
  The object store (\<open>store.rs\<close>): leased temporary files, the verifying writer, the no-clobber
  installation at the digest path, verification, removal and the collection of abandoned
  temporaries. The two directories of the store are ordered maps: digest paths to what resides
  there, temporary names to files. File system calls on them succeed exactly as the maps dictate;
  an error of the underlying device is modelled only for the collector, reads of the byte source may
  fail. Process id and clock are parameters, and so are the other processes the collector runs beside.
\<close>

section \<open>State\<close>

definition VERIFY_BUFFER_SIZE :: nat where
  "VERIFY_BUFFER_SIZE = 1048576"

definition TEMP_PREFIX :: str where
  "TEMP_PREFIX = ''obj-''"

definition TEMP_SUFFIX :: str where
  "TEMP_SUFFIX = ''.tmp''"

definition DEFAULT_INGEST_BUDGET :: u64 where
  "DEFAULT_INGEST_BUDGET = 8 * MAX_OBJECT_SIZE"

text \<open>\<open>ingest_concurrency\<close>, given the budget the environment variable spells (absent when unset or not
  a number) and the parallelism the machine reports.\<close>

definition ingest_concurrency :: "u64 option \<Rightarrow> nat option \<Rightarrow> nat" where
  "ingest_concurrency budget_env cores =
     (let budget = (case budget_env of None \<Rightarrow> DEFAULT_INGEST_BUDGET | Some b \<Rightarrow> b);
          by_memory = unat (budget div MAX_OBJECT_SIZE);
          by_cores = (case cores of None \<Rightarrow> 1 | Some n \<Rightarrow> n)
      in min (max by_memory 1) (max by_cores 1))"

datatype store_error =
    StoreError_Io io_error
  | StoreError_LengthMismatch u64 u64
  | StoreError_DigestMismatch digest digest
  | StoreError_Missing digest
  | StoreError_NotARegularFile digest
  | StoreError_CorruptObject digest digest
  | StoreError_InvalidGrace

record admitted_object =
  ao_digest :: digest
  ao_length :: u64
  ao_preexisting :: bool

record temp_collection =
  tc_examined :: u64
  tc_deleted :: u64
  tc_bytes_deleted :: u64

text \<open>What a digest path names: a regular file with its bytes and whether it is read-only, a symbolic
  link (that may or may not lead to a regular file), or something else.\<close>

datatype resident = Resident_File bytes bool | Resident_Link bool | Resident_Other

text \<open>A temporary: its times are nanoseconds from the epoch and may lie before it, and the lease is the
  advisory lock on its inode.\<close>

record temp_file =
  tf_bytes :: bytes
  tf_modified :: "int option"
  tf_inode :: nat
  tf_leased :: bool
  tf_read_only :: bool

datatype temp_entry = Temp_File temp_file | Temp_Other

record object_store =
  os_objects :: "(digest \<times> resident) list"
  os_temps :: "(str \<times> temp_entry) list"
  os_sequence :: u64
  os_inodes :: nat

text \<open>The process: its id, and the clock in nanoseconds at each value of the sequence counter.\<close>

record process_env =
  env_pid :: nat
  env_nanos :: "u64 \<Rightarrow> nat"

definition store_new :: object_store where
  "store_new = \<lparr>os_objects = [], os_temps = [], os_sequence = 0, os_inodes = 0\<rparr>"

definition object_path :: "digest \<Rightarrow> str list" where
  "object_path d = (let hex = object_to_hex d in [take 2 hex, take 2 (drop 2 hex), hex])"

definition resident_at :: "object_store \<Rightarrow> digest \<Rightarrow> resident option" where
  "resident_at st d = map_of (os_objects st) d"


section \<open>Stateful results\<close>

text \<open>An operation returns its result together with the store it leaves behind, on errors too;
  \<open>op_then\<close> is the early return of \<open>?\<close> for such operations.\<close>

definition op_then :: "('e + 'a) \<times> 's \<Rightarrow> ('a \<Rightarrow> 's \<Rightarrow> ('e + 'b) \<times> 's) \<Rightarrow> ('e + 'b) \<times> 's" where
  "op_then m f = (case m of (Inl e, s) \<Rightarrow> (Inl e, s) | (Inr a, s) \<Rightarrow> f a s)"

lemma op_then_simps [simp]: "op_then (Inl e, s) f = (Inl e, s)" "op_then (Inr a, s) f = f a s"
  by (simp_all add: op_then_def)

lemma op_then_cong [fundef_cong]:
  "m = m' \<Longrightarrow> (\<And>a s. m' = (Inr a, s) \<Longrightarrow> f a s = g a s) \<Longrightarrow> op_then m f = op_then m' g"
  by (auto simp: op_then_def split: prod.splits sum.splits)


section \<open>Writers\<close>

record 'h object_writer =
  ow_path :: str
  ow_hasher :: 'h
  ow_written :: u64

definition temp_name :: "process_env \<Rightarrow> u64 \<Rightarrow> str" where
  "temp_name env seq =
     TEMP_PREFIX @ to_decimal (env_pid env) @ ''-'' @ decimal_u64 seq @ ''-''
       @ to_decimal (env_nanos env seq) @ TEMP_SUFFIX"

text \<open>The retry loop of \<open>writer\<close>: each turn draws a sequence number and tries to create that name. The
  fuel bounds the turns; one more than the number of temporary files is always enough.\<close>

fun writer_loop :: "nat \<Rightarrow> process_env \<Rightarrow> 'h hasher \<Rightarrow> object_store \<Rightarrow> ('h object_writer \<times> object_store) option" where
  "writer_loop 0 env hs st = None"
| "writer_loop (Suc fuel) env hs st =
     (let path = temp_name env (os_sequence st);
          st = st\<lparr>os_sequence := os_sequence st + 1\<rparr> in
      case map_of (os_temps st) path of
        Some _ \<Rightarrow> writer_loop fuel env hs st
      | None \<Rightarrow>
          Some (\<lparr>ow_path = path, ow_hasher = hs_new hs, ow_written = 0\<rparr>,
            st\<lparr>os_temps := bt_insert path (Temp_File \<lparr>tf_bytes = [], tf_modified = None,
                 tf_inode = os_inodes st, tf_leased = True, tf_read_only = False\<rparr>) (os_temps st),
               os_inodes := os_inodes st + 1\<rparr>))"

definition store_writer :: "process_env \<Rightarrow> 'h hasher \<Rightarrow> object_store \<Rightarrow> 'h object_writer \<times> object_store" where
  "store_writer env hs st = the (writer_loop (Suc (length (os_temps st))) env hs st)"

definition update_temp :: "str \<Rightarrow> (temp_file \<Rightarrow> temp_file) \<Rightarrow> object_store \<Rightarrow> object_store" where
  "update_temp path f st =
     (case map_of (os_temps st) path of
        Some (Temp_File t) \<Rightarrow> st\<lparr>os_temps := bt_insert path (Temp_File (f t)) (os_temps st)\<rparr>
      | _ \<Rightarrow> st)"

definition remove_temp :: "str \<Rightarrow> object_store \<Rightarrow> object_store" where
  "remove_temp path st = st\<lparr>os_temps := bt_remove path (os_temps st)\<rparr>"

definition writer_write :: "'h hasher \<Rightarrow> bytes \<Rightarrow> 'h object_writer \<Rightarrow> object_store \<Rightarrow>
    'h object_writer \<times> object_store" where
  "writer_write hs buffer w st =
     (w\<lparr>ow_hasher := hs_update hs (ow_hasher w) buffer,
        ow_written := ow_written w + of_nat (length buffer)\<rparr>,
      update_temp (ow_path w) (\<lambda>t. t\<lparr>tf_bytes := tf_bytes t @ buffer\<rparr>) st)"

text \<open>\<open>Write::write_all\<close>: an empty buffer makes no call.\<close>

definition writer_write_all :: "'h hasher \<Rightarrow> bytes \<Rightarrow> 'h object_writer \<Rightarrow> object_store \<Rightarrow>
    'h object_writer \<times> object_store" where
  "writer_write_all hs buffer w st = (if buffer = [] then (w, st) else writer_write hs buffer w st)"


section \<open>Reading and verifying residents\<close>

definition open_object :: "digest \<Rightarrow> object_store \<Rightarrow> store_error + bytes" where
  "open_object d st =
     (case resident_at st d of
        None \<Rightarrow> Inl (StoreError_Missing d)
      | Some (Resident_File bs ro) \<Rightarrow> Inr bs
      | Some _ \<Rightarrow> Inl (StoreError_NotARegularFile d))"

text \<open>The read loop of \<open>verify\<close>, one buffer at a time.\<close>

function verify_loop :: "'h hasher \<Rightarrow> bytes \<Rightarrow> 'h \<Rightarrow> u64 \<Rightarrow> 'h \<times> u64" where
  "verify_loop hs rest h len =
     (let buffer = take VERIFY_BUFFER_SIZE rest in
      if buffer = [] then (h, len)
      else verify_loop hs (drop VERIFY_BUFFER_SIZE rest) (hs_update hs h buffer)
        (len + of_nat (length buffer)))"
  by pat_completeness auto
termination
  by (relation "measure (\<lambda>(hs, rest, h, len). length rest)") (auto simp: VERIFY_BUFFER_SIZE_def)

declare verify_loop.simps [simp del]

definition store_verify :: "'h hasher \<Rightarrow> digest \<Rightarrow> object_store \<Rightarrow> store_error + u64" where
  "store_verify hs d st =
     and_then (open_object d st) (\<lambda>bs.
       let (h, len) = verify_loop hs bs (hs_new hs) 0; actual = hs_finalize hs h in
       if actual \<noteq> d then Inl (StoreError_CorruptObject d actual) else Inr len)"

definition store_exists :: "digest \<Rightarrow> object_store \<Rightarrow> bool" where
  "store_exists d st =
     (case resident_at st d of
        Some (Resident_File bs ro) \<Rightarrow> True
      | Some (Resident_Link to_file) \<Rightarrow> to_file
      | _ \<Rightarrow> False)"

definition remove_object :: "digest \<Rightarrow> object_store \<Rightarrow> bool \<times> object_store" where
  "remove_object d st =
     (case resident_at st d of
        Some (Resident_File bs ro) \<Rightarrow> (True, st\<lparr>os_objects := bt_remove d (os_objects st)\<rparr>)
      | _ \<Rightarrow> (False, st))"

definition each_object :: "object_store \<Rightarrow> (digest \<times> u64) list" where
  "each_object st =
     List.map_filter (\<lambda>(d, r). case r of Resident_File bs ro \<Rightarrow> Some (d, of_nat (length bs)) | _ \<Rightarrow> None)
       (os_objects st)"


section \<open>Installing\<close>

text \<open>\<open>install\<close> followed by the writer's drop: whatever happens, the temporary name is gone
  afterwards.\<close>

definition writer_install :: "'h hasher \<Rightarrow> 'h object_writer \<Rightarrow> digest \<Rightarrow> object_store \<Rightarrow>
    (store_error + admitted_object) \<times> object_store" where
  "writer_install hs w d st =
     (let st = update_temp (ow_path w) (\<lambda>t. t\<lparr>tf_read_only := True\<rparr>) st in
      case map_of (os_temps st) (ow_path w) of
        Some (Temp_File t) \<Rightarrow>
          (case resident_at st d of
             None \<Rightarrow>
               (Inr \<lparr>ao_digest = d, ao_length = ow_written w, ao_preexisting = False\<rparr>,
                remove_temp (ow_path w)
                  (st\<lparr>os_objects := bt_insert d (Resident_File (tf_bytes t) (tf_read_only t)) (os_objects st)\<rparr>))
           | Some _ \<Rightarrow>
               (and_then (store_verify hs d st) (\<lambda>_.
                  Inr \<lparr>ao_digest = d, ao_length = ow_written w, ao_preexisting = True\<rparr>),
                remove_temp (ow_path w) st))
      | _ \<Rightarrow> (Inl (StoreError_Io ''not found''), remove_temp (ow_path w) st))"

definition writer_finish :: "'h hasher \<Rightarrow> 'h object_writer \<Rightarrow> object_store \<Rightarrow>
    (store_error + admitted_object) \<times> object_store" where
  "writer_finish hs w st = writer_install hs w (hs_finalize hs (ow_hasher w)) st"

definition writer_finish_expecting :: "'h hasher \<Rightarrow> digest \<Rightarrow> u64 \<Rightarrow> 'h object_writer \<Rightarrow> object_store \<Rightarrow>
    (store_error + admitted_object) \<times> object_store" where
  "writer_finish_expecting hs expected len w st =
     (if ow_written w \<noteq> len then
        (Inl (StoreError_LengthMismatch len (ow_written w)), remove_temp (ow_path w) st)
      else
        let d = hs_finalize hs (ow_hasher w) in
        if d \<noteq> expected then (Inl (StoreError_DigestMismatch expected d), remove_temp (ow_path w) st)
        else writer_install hs w d st)"

definition put_bytes :: "process_env \<Rightarrow> 'h hasher \<Rightarrow> bytes \<Rightarrow> object_store \<Rightarrow>
    (store_error + admitted_object) \<times> object_store" where
  "put_bytes env hs bs st =
     (let (w, st) = store_writer env hs st; (w, st) = writer_write_all hs bs w st in
      writer_finish hs w st)"

definition admit_region :: "process_env \<Rightarrow> 'h hasher \<Rightarrow> byte_source \<Rightarrow> region \<Rightarrow> object_store \<Rightarrow>
    (store_error + admitted_object) \<times> object_store" where
  "admit_region env hs source r st =
     op_then (map_err StoreError_Io (src_read source (reg_offset r) (unat (reg_length r))), st)
       (\<lambda>buffer st. put_bytes env hs buffer st)"

text \<open>\<open>admit_regions\<close>: with one worker the regions are admitted in order up to the first error; with
  several, every region is admitted in some interleaving of whole admissions, \<open>schedule\<close>, and the
  results are collected in region order.\<close>

fun admit_serial :: "process_env \<Rightarrow> 'h hasher \<Rightarrow> byte_source \<Rightarrow> region list \<Rightarrow> object_store \<Rightarrow>
    (store_error + admitted_object list) \<times> object_store" where
  "admit_serial env hs source [] st = (Inr [], st)"
| "admit_serial env hs source (r # rs) st =
     op_then (admit_region env hs source r st) (\<lambda>object st.
     op_then (admit_serial env hs source rs st) (\<lambda>objects st. (Inr (object # objects), st)))"

fun admit_scheduled :: "process_env \<Rightarrow> 'h hasher \<Rightarrow> byte_source \<Rightarrow> region list \<Rightarrow> nat list \<Rightarrow> object_store \<Rightarrow>
    (nat \<times> (store_error + admitted_object)) list \<times> object_store" where
  "admit_scheduled env hs source regions [] st = ([], st)"
| "admit_scheduled env hs source regions (i # is) st =
     (let (result, st) = admit_region env hs source (regions ! i) st;
          (collected, st) = admit_scheduled env hs source regions is st in
      ((i, result) # collected, st))"

fun collect_results :: "('e + 'a) list \<Rightarrow> 'e + 'a list" where
  "collect_results [] = Inr []"
| "collect_results (r # rs) = and_then r (\<lambda>x. and_then (collect_results rs) (\<lambda>xs. Inr (x # xs)))"

definition admit_regions :: "process_env \<Rightarrow> 'h hasher \<Rightarrow> nat \<Rightarrow> nat list \<Rightarrow> byte_source \<Rightarrow> region list \<Rightarrow>
    object_store \<Rightarrow> (store_error + admitted_object list) \<times> object_store" where
  "admit_regions env hs concurrency schedule source regions st =
     (if regions = [] then (Inr [], st)
      else if min concurrency (length regions) \<le> 1 then admit_serial env hs source regions st
      else
        let (collected, st) = admit_scheduled env hs source regions schedule st in
        (collect_results (map snd (sort_key fst collected)), st))"

text \<open>The block loop of \<open>admit_source_range\<close>.\<close>

function range_loop :: "'h hasher \<Rightarrow> byte_source \<Rightarrow> u64 \<Rightarrow> u64 \<Rightarrow> 'h object_writer \<Rightarrow> object_store \<Rightarrow>
    (store_error + 'h object_writer) \<times> object_store" where
  "range_loop hs source position stop w st =
     (if position < stop then
        let block = min (stop - position) (of_nat VERIFY_BUFFER_SIZE) in
        case src_read source position (unat block) of
          Inl e \<Rightarrow> (Inl (StoreError_Io e), remove_temp (ow_path w) st)
        | Inr buffer \<Rightarrow>
            let (w, st) = writer_write_all hs buffer w st in
            range_loop hs source (position + block) stop w st
      else (Inr w, st))"
  by pat_completeness auto

lemma range_decreases:
  assumes "(position :: u64) < stop" "block = min (stop - position) (of_nat VERIFY_BUFFER_SIZE)"
  shows "0 < unat block" "unat (position + block) = unat position + unat block"
    "unat position + unat block \<le> unat stop"
proof -
  have d: "unat (stop - position) = unat stop - unat position" using assms(1) by (simp add: unat_sub_u64)
  have b: "unat block = min (unat stop - unat position) 1048576"
    using assms(2) d by (simp add: min_def u64_nat VERIFY_BUFFER_SIZE_def)
  with assms(1) show "0 < unat block" by (simp add: u64_nat)
  from b assms(1) show le: "unat position + unat block \<le> unat stop" by (simp add: u64_nat)
  then show "unat (position + block) = unat position + unat block"
    using unat_u64_lt [of stop] by (simp add: unat_add_u64)
qed

termination range_loop
proof (relation "measure (\<lambda>(hs, source, position, stop, w, st). unat stop - unat position)")
  fix hs :: "'h hasher" and source :: byte_source and position stop :: u64 and w :: "'h object_writer"
    and st st' :: object_store and block :: u64 and buffer w' and e
  assume "position < stop" "block = min (stop - position) (of_nat VERIFY_BUFFER_SIZE)"
  note r = range_decreases [OF this]
  show "((hs, source, position + block, stop, w', st'), (hs, source, position, stop, w, st))
      \<in> measure (\<lambda>(hs, source, position, stop, w, st). unat stop - unat position)"
    using r by simp
qed simp

declare range_loop.simps [simp del]

definition admit_source_range :: "process_env \<Rightarrow> 'h hasher \<Rightarrow> byte_source \<Rightarrow> u64 \<Rightarrow> u64 \<Rightarrow> object_store \<Rightarrow>
    (store_error + admitted_object) \<times> object_store" where
  "admit_source_range env hs source offset len st =
     (case checked_add offset len of
        None \<Rightarrow> (Inl (StoreError_Io ''invalid input''), st)
      | Some stop \<Rightarrow>
          let (w, st) = store_writer env hs st in
          op_then (range_loop hs source offset stop w st) (\<lambda>w st. writer_finish hs w st))"


section \<open>Abandoned temporaries\<close>

record temp_identity =
  id_length :: nat
  id_modified :: "int option"
  id_inode :: nat

definition temp_identity_of :: "temp_file \<Rightarrow> temp_identity" where
  "temp_identity_of t = \<lparr>id_length = length (tf_bytes t), id_modified = tf_modified t, id_inode = tf_inode t\<rparr>"

text \<open>The collector runs beside writers and collectors of other processes, which may change the temporaries
  between any two of its system calls: \<open>ce_rival\<close> is what they do before the next call on a path. The other
  fields are the clock and the answers of the system calls: whether the metadata of an entry can be read,
  a path opened and an entry unlinked, and the errors of listing the directory and of syncing it.\<close>

datatype collector_moment = Before_Metadata | Before_Open | Before_Lease | Before_Restat | Before_Remove

record collector_env =
  ce_now :: int
  ce_rival :: "collector_moment \<Rightarrow> str \<Rightarrow> (str \<times> temp_entry) list \<Rightarrow> (str \<times> temp_entry) list"
  ce_reads :: "str \<Rightarrow> bool"
  ce_opens :: "str \<Rightarrow> bool"
  ce_unlinks :: "str \<Rightarrow> temp_entry \<Rightarrow> bool"
  ce_list_error :: "str option"
  ce_sync_error :: "str option"

definition rival_acts :: "collector_env \<Rightarrow> collector_moment \<Rightarrow> str \<Rightarrow> object_store \<Rightarrow> object_store" where
  "rival_acts env moment path st = st\<lparr>os_temps := ce_rival env moment path (os_temps st)\<rparr>"

definition temp_at :: "str \<Rightarrow> (str \<times> temp_entry) list \<Rightarrow> temp_file option" where
  "temp_at path temps = (case map_of temps path of Some (Temp_File t) \<Rightarrow> Some t | _ \<Rightarrow> None)"

definition lease_held :: "nat \<Rightarrow> (str \<times> temp_entry) list \<Rightarrow> bool" where
  "lease_held inode temps =
     list_ex (\<lambda>(_, entry). case entry of Temp_File t \<Rightarrow> tf_inode t = inode \<and> tf_leased t | Temp_Other \<Rightarrow> False) temps"

definition reclaim_candidate :: "collector_env \<Rightarrow> str \<Rightarrow> temp_identity \<Rightarrow> temp_collection \<Rightarrow> object_store \<Rightarrow>
    temp_collection \<times> object_store" where
  "reclaim_candidate env path listed report st =
     (let st = rival_acts env Before_Open path st in
      case if ce_opens env path then temp_at path (os_temps st) else None of
        None \<Rightarrow> (report, st)
      | Some opened \<Rightarrow>
          let held = temp_identity_of opened in
          if held \<noteq> listed then (report, st)
          else
            let st = rival_acts env Before_Lease path st in
            if lease_held (tf_inode opened) (os_temps st) then (report, st)
            else
              let st = rival_acts env Before_Restat path st in
              case temp_at path (os_temps st) of
                None \<Rightarrow> (report, st)
              | Some current \<Rightarrow>
                  if temp_identity_of current \<noteq> held then (report, st)
                  else
                    let st = rival_acts env Before_Remove path st in
                    case map_of (os_temps st) path of
                      None \<Rightarrow> (report, st)
                    | Some entry \<Rightarrow>
                        if ce_unlinks env path entry
                        then (report\<lparr>tc_deleted := tc_deleted report + 1,
                                tc_bytes_deleted := tc_bytes_deleted report + of_nat (length (tf_bytes current))\<rparr>,
                              remove_temp path st)
                        else (report, st))"

definition is_temp_name :: "str \<Rightarrow> bool" where
  "is_temp_name name = (strip_prefix TEMP_PREFIX name \<noteq> None \<and> strip_prefix (rev TEMP_SUFFIX) (rev name) \<noteq> None)"

definition old_enough :: "int option \<Rightarrow> temp_file \<Rightarrow> bool" where
  "old_enough cutoff t = (case (tf_modified t, cutoff) of (Some modified, Some c) \<Rightarrow> modified \<le> c | _ \<Rightarrow> False)"

fun collect_temps_loop :: "collector_env \<Rightarrow> int option \<Rightarrow> str list \<Rightarrow> temp_collection \<Rightarrow> object_store \<Rightarrow>
    temp_collection \<times> object_store" where
  "collect_temps_loop env cutoff [] report st = (report, st)"
| "collect_temps_loop env cutoff (name # names) report st =
     (if \<not> is_temp_name name then collect_temps_loop env cutoff names report st
      else
        let st = rival_acts env Before_Metadata name st in
        case if ce_reads env name then temp_at name (os_temps st) else None of
          None \<Rightarrow> collect_temps_loop env cutoff names report st
        | Some t \<Rightarrow>
            let report = report\<lparr>tc_examined := tc_examined report + 1\<rparr> in
            if \<not> old_enough cutoff t then collect_temps_loop env cutoff names report st
            else let (report, st) = reclaim_candidate env name (temp_identity_of t) report st in
                 collect_temps_loop env cutoff names report st)"

text \<open>A system time is a signed number of seconds of 64 bits and nanoseconds; subtracting the grace is
  checked against the earliest of them.\<close>

definition earliest_time :: int where
  "earliest_time = - (2 ^ 63 * 1000000000)"

definition grace_cutoff :: "int \<Rightarrow> nat \<Rightarrow> int option" where
  "grace_cutoff now grace = (if earliest_time \<le> now - int grace then Some (now - int grace) else None)"

definition collect_abandoned_temps :: "collector_env \<Rightarrow> nat \<Rightarrow> object_store \<Rightarrow>
    (store_error + temp_collection) \<times> object_store" where
  "collect_abandoned_temps env grace st =
     (if grace = 0 then (Inl StoreError_InvalidGrace, st)
      else
        case ce_list_error env of
          Some e \<Rightarrow> (Inl (StoreError_Io e), st)
        | None \<Rightarrow>
            let (report, st) = collect_temps_loop env (grace_cutoff (ce_now env) grace) (map fst (os_temps st))
                  \<lparr>tc_examined = 0, tc_deleted = 0, tc_bytes_deleted = 0\<rparr> st in
            case if 0 < tc_deleted report then ce_sync_error env else None of
              Some e \<Rightarrow> (Inl (StoreError_Io e), st)
            | None \<Rightarrow> (Inr report, st))"


section \<open>The abstract store\<close>

text \<open>What an admission does to the digest paths, with the whole temporary-file protocol left out.\<close>

definition admit :: "(bytes \<Rightarrow> digest) \<Rightarrow> bytes \<Rightarrow> (digest \<times> resident) list \<Rightarrow>
    (store_error + admitted_object) \<times> (digest \<times> resident) list" where
  "admit sha256 bs objects =
     (let d = sha256 bs in
      case map_of objects d of
        None \<Rightarrow> (Inr \<lparr>ao_digest = d, ao_length = of_nat (length bs), ao_preexisting = False\<rparr>,
          bt_insert d (Resident_File bs True) objects)
      | Some (Resident_File b ro) \<Rightarrow>
          (if sha256 b = d then Inr \<lparr>ao_digest = d, ao_length = of_nat (length bs), ao_preexisting = True\<rparr>
           else Inl (StoreError_CorruptObject d (sha256 b)), objects)
      | Some _ \<Rightarrow> (Inl (StoreError_NotARegularFile d), objects))"

definition store_wf :: "object_store \<Rightarrow> bool" where
  "store_wf st \<longleftrightarrow> bt_sorted (os_objects st) \<and> bt_sorted (os_temps st) \<and> length (os_temps st) < 2 ^ 64"

lemma bt_insert_twice: "bt_sorted m \<Longrightarrow> bt_insert k v (bt_insert k w m) = bt_insert k v m"
  by (rule bt.entries_eqI) (simp_all add: bt_sorted_insert map_of_bt_insert)

lemma bt_remove_insert:
  "bt_sorted m \<Longrightarrow> map_of m k = None \<Longrightarrow> bt_remove k (bt_insert k v m) = m"
  by (rule bt.entries_eqI)
    (auto simp: bt_sorted_insert bt_sorted_remove map_of_bt_insert map_of_bt_remove)

lemma bt_remove_absent: "map_of m k = None \<Longrightarrow> bt_remove k m = m"
  by (induction k m rule: bt_remove.induct) (auto split: if_splits)


section \<open>A fresh temporary name is always found\<close>

lemma temp_name_inj: "temp_name env a = temp_name env b \<longleftrightarrow> a = b"
proof
  assume "temp_name env a = temp_name env b"
  then have eq: "decimal_u64 a @ CHR ''-'' # to_decimal (env_nanos env a) @ TEMP_SUFFIX =
      decimal_u64 b @ CHR ''-'' # to_decimal (env_nanos env b) @ TEMP_SUFFIX"
    by (simp add: temp_name_def)
  have plain: "CHR ''-'' \<notin> set (decimal_u64 x)" for x
    using to_decimal_digits [of "unat x"] by (auto simp: decimal_u64_def list_all_iff is_ascii_digit_def)
  have head: "takeWhile (\<lambda>c. c \<noteq> CHR ''-'') (decimal_u64 x @ CHR ''-'' # t) = decimal_u64 x" for x t
    using plain [of x] by (subst takeWhile_append2) auto
  have "decimal_u64 a = decimal_u64 b" using arg_cong [OF eq, of "takeWhile (\<lambda>c. c \<noteq> CHR ''-'')"]
    by (simp only: head)
  then show "a = b" by (metis option.inject parse_u64_decimal)
qed simp

lemma writer_loop_total:
  assumes "writer_loop fuel env hs st = None"
  shows "\<forall>i < fuel. temp_name env (os_sequence st + of_nat i) \<in> fst ` set (os_temps st)"
  using assms
proof (induction fuel arbitrary: st)
  case (Suc fuel)
  from Suc.prems obtain e where e: "map_of (os_temps st) (temp_name env (os_sequence st)) = Some e"
    and rest: "writer_loop fuel env hs (st\<lparr>os_sequence := os_sequence st + 1\<rparr>) = None"
    by (auto simp: Let_def split: option.splits)
  have "temp_name env (os_sequence st + of_nat i) \<in> fst ` set (os_temps st)" if "i < Suc fuel" for i
  proof (cases i)
    case 0
    with map_of_SomeD [OF e] show ?thesis by force
  next
    case (Suc j)
    then show ?thesis using Suc.IH [OF rest] that by (auto simp: algebra_simps)
  qed
  then show ?case by blast
qed simp

lemma writer_loop_Some:
  assumes "length (os_temps st) < 2 ^ 64"
  obtains w st' where "writer_loop (Suc (length (os_temps st))) env hs st = Some (w, st')"
proof (cases "writer_loop (Suc (length (os_temps st))) env hs st")
  case None
  let ?n = "length (os_temps st)" and ?f = "\<lambda>i. temp_name env (os_sequence st + of_nat i)"
  have "inj_on ?f {..<Suc ?n}"
  proof
    fix i j assume ij: "i \<in> {..<Suc ?n}" "j \<in> {..<Suc ?n}" and "?f i = ?f j"
    then have "(of_nat i :: u64) = of_nat j" by (simp add: temp_name_inj)
    then show "i = j" using ij assms by (simp add: u64_eq_nat)
  qed
  then have "card (?f ` {..<Suc ?n}) = Suc ?n" by (simp add: card_image)
  moreover have "?f ` {..<Suc ?n} \<subseteq> fst ` set (os_temps st)"
    using writer_loop_total [OF None] by auto
  ultimately have "Suc ?n \<le> card (fst ` set (os_temps st))"
    by (metis List.finite_set card_mono finite_imageI)
  also have "\<dots> \<le> ?n" by (metis List.finite_set card_image_le card_length le_trans)
  finally show ?thesis by simp
qed (use that in force)

lemma writer_loop_result:
  assumes "writer_loop fuel env hs st = Some (w, st')"
  shows "map_of (os_temps st) (ow_path w) = None \<and> ow_hasher w = hs_new hs \<and> ow_written w = 0 \<and>
    os_objects st' = os_objects st \<and>
    (\<exists>t. os_temps st' = bt_insert (ow_path w) (Temp_File t) (os_temps st) \<and> tf_bytes t = [] \<and> tf_leased t)"
  using assms
proof (induction fuel arbitrary: st)
  case (Suc fuel)
  show ?case
  proof (cases "map_of (os_temps st) (temp_name env (os_sequence st))")
    case None
    with Suc.prems show ?thesis by (auto simp: Let_def)
  next
    case (Some e)
    with Suc.prems Suc.IH [of "st\<lparr>os_sequence := os_sequence st + 1\<rparr>"] show ?thesis by (simp add: Let_def)
  qed
qed simp


section \<open>The writer protocol refines the abstract store\<close>

text \<open>\<open>writing hs st0 w st bs\<close>: the writer \<open>w\<close>, opened in \<open>st0\<close>, has received the bytes \<open>bs\<close>; nothing but
  its own temporary file was touched.\<close>

definition writing :: "'h hasher \<Rightarrow> object_store \<Rightarrow> 'h object_writer \<Rightarrow> object_store \<Rightarrow> bytes \<Rightarrow> bool" where
  "writing hs st0 w st bs \<longleftrightarrow> store_wf st0 \<and> map_of (os_temps st0) (ow_path w) = None \<and>
     os_objects st = os_objects st0 \<and> ow_written w = of_nat (length bs) \<and>
     (\<exists>pieces. ow_hasher w = fold (\<lambda>b h. hs_update hs h b) pieces (hs_new hs) \<and> concat pieces = bs) \<and>
     (\<exists>t. os_temps st = bt_insert (ow_path w) (Temp_File t) (os_temps st0) \<and> tf_bytes t = bs)"

lemma store_writer_writing:
  assumes "store_wf st"
  shows "writing hs st (fst (store_writer env hs st)) (snd (store_writer env hs st)) []"
proof -
  obtain w st' where w: "writer_loop (Suc (length (os_temps st))) env hs st = Some (w, st')"
    using assms writer_loop_Some unfolding store_wf_def by blast
  have "\<exists>pieces. hs_new hs = fold (\<lambda>b h. hs_update hs h b) pieces (hs_new hs) \<and> concat pieces = []"
    by (rule exI [of _ "[]"]) simp
  then show ?thesis
    using writer_loop_result [OF w] assms unfolding store_writer_def w writing_def by auto
qed

lemma writer_write_writing:
  assumes "writing hs st0 w st bs" "writer_write hs buffer w st = (w', st')"
  shows "writing hs st0 w' st' (bs @ buffer)"
proof -
  from assms(1) obtain pieces t where p: "ow_hasher w = fold (\<lambda>b h. hs_update hs h b) pieces (hs_new hs)"
      "concat pieces = bs" and t: "os_temps st = bt_insert (ow_path w) (Temp_File t) (os_temps st0)" "tf_bytes t = bs"
    by (auto simp: writing_def)
  have "ow_hasher w' = fold (\<lambda>b h. hs_update hs h b) (pieces @ [buffer]) (hs_new hs)"
    using assms(2) p(1) by (auto simp: writer_write_def)
  moreover have "concat (pieces @ [buffer]) = bs @ buffer" using p(2) by simp
  moreover have "os_temps st' = bt_insert (ow_path w) (Temp_File (t\<lparr>tf_bytes := bs @ buffer\<rparr>)) (os_temps st0)"
    using assms t by (auto simp: writer_write_def update_temp_def map_of_bt_insert bt_insert_twice
        writing_def store_wf_def)
  moreover have "ow_path w' = ow_path w" "ow_written w' = of_nat (length (bs @ buffer))"
    "os_objects st' = os_objects st"
    using assms by (auto simp: writer_write_def writing_def update_temp_def split: option.splits temp_entry.splits)
  ultimately show ?thesis using assms(1) unfolding writing_def by (metis (no_types, lifting) temp_file.select_convs(1) temp_file.update_convs(1) temp_file.surjective)
qed

lemma writer_write_all_writing:
  "writing hs st0 w st bs \<Longrightarrow> writer_write_all hs buffer w st = (w', st') \<Longrightarrow>
   writing hs st0 w' st' (bs @ buffer)"
  using writer_write_writing [of hs st0 w st bs buffer w' st']
  by (auto simp: writer_write_all_def split: if_splits)

lemma writing_digest:
  "writing hs st0 w st bs \<Longrightarrow> hasher_streams hs sha256 \<Longrightarrow> hs_finalize hs (ow_hasher w) = sha256 bs"
  by (auto simp: writing_def hasher_streams_def)

lemma verify_loop_pieces:
  "\<exists>pieces. verify_loop hs rest h len = (fold (\<lambda>b h. hs_update hs h b) pieces h, len + of_nat (length rest)) \<and>
    concat pieces = rest"
proof (induction hs rest h len rule: verify_loop.induct)
  case (1 hs rest h len)
  show ?case
  proof (cases "rest = []")
    case True
    then show ?thesis by (intro exI [of _ "[]"]) (simp add: verify_loop.simps)
  next
    case False
    let ?b = "take VERIFY_BUFFER_SIZE rest"
    have nz: "?b \<noteq> []" using False by (simp add: VERIFY_BUFFER_SIZE_def)
    from 1 [OF refl nz] obtain pieces where
      p: "verify_loop hs (drop VERIFY_BUFFER_SIZE rest) (hs_update hs h ?b) (len + of_nat (length ?b)) =
        (fold (\<lambda>b h. hs_update hs h b) pieces (hs_update hs h ?b),
         len + of_nat (length ?b) + of_nat (length (drop VERIFY_BUFFER_SIZE rest)))"
      "concat pieces = drop VERIFY_BUFFER_SIZE rest" by blast
    have "length ?b + length (drop VERIFY_BUFFER_SIZE rest) = length rest" by simp
    then have "(of_nat (length ?b) + of_nat (length (drop VERIFY_BUFFER_SIZE rest)) :: u64) = of_nat (length rest)"
      by (metis of_nat_add)
    then have "verify_loop hs rest h len =
        (fold (\<lambda>b h. hs_update hs h b) (?b # pieces) h, len + of_nat (length rest))"
      using p(1) nz by (subst verify_loop.simps) (simp add: Let_def add.assoc)
    moreover have "concat (?b # pieces) = rest" using p(2) by simp
    ultimately show ?thesis by blast
  qed
qed

lemma store_verify_eq:
  assumes "hasher_streams hs sha256"
  shows "store_verify hs d st =
    (case resident_at st d of
       None \<Rightarrow> Inl (StoreError_Missing d)
     | Some (Resident_File bs ro) \<Rightarrow>
         if sha256 bs = d then Inr (of_nat (length bs)) else Inl (StoreError_CorruptObject d (sha256 bs))
     | Some _ \<Rightarrow> Inl (StoreError_NotARegularFile d))"
proof -
  have "hs_finalize hs (fst (verify_loop hs bs (hs_new hs) 0)) = sha256 bs \<and>
      snd (verify_loop hs bs (hs_new hs) 0) = of_nat (length bs)" for bs
    using verify_loop_pieces [of hs bs "hs_new hs" 0] assms by (auto simp: hasher_streams_def)
  then show ?thesis
    by (simp add: store_verify_def open_object_def Let_def case_prod_beta split: option.split resident.split)
qed

lemma writer_finish_refines:
  assumes "hasher_streams hs sha256" "writing hs st0 w st bs"
  shows "fst (writer_finish hs w st) = fst (admit sha256 bs (os_objects st0))"
    and "os_objects (snd (writer_finish hs w st)) = snd (admit sha256 bs (os_objects st0))"
    and "os_temps (snd (writer_finish hs w st)) = os_temps st0"
proof -
  from assms(2) obtain t where wf: "store_wf st0" and fresh: "map_of (os_temps st0) (ow_path w) = None"
    and objs: "os_objects st = os_objects st0" and len: "ow_written w = of_nat (length bs)"
    and t: "os_temps st = bt_insert (ow_path w) (Temp_File t) (os_temps st0)" "tf_bytes t = bs"
    by (auto simp: writing_def)
  have d: "hs_finalize hs (ow_hasher w) = sha256 bs" by (rule writing_digest [OF assms(2,1)])
  define st1 where "st1 = update_temp (ow_path w) (\<lambda>t. t\<lparr>tf_read_only := True\<rparr>) st"
  have st1: "os_objects st1 = os_objects st0"
    "os_temps st1 = bt_insert (ow_path w) (Temp_File (t\<lparr>tf_read_only := True\<rparr>)) (os_temps st0)"
    using wf objs t by (simp_all add: st1_def update_temp_def map_of_bt_insert bt_insert_twice store_wf_def)
  have rm: "bt_remove (ow_path w) (os_temps st1) = os_temps st0"
    using wf fresh by (simp add: st1 bt_remove_insert store_wf_def)
  have fin: "writer_finish hs w st =
    (case resident_at st1 (sha256 bs) of
       None \<Rightarrow> (Inr \<lparr>ao_digest = sha256 bs, ao_length = ow_written w, ao_preexisting = False\<rparr>,
         remove_temp (ow_path w)
           (st1\<lparr>os_objects := bt_insert (sha256 bs) (Resident_File bs True) (os_objects st1)\<rparr>))
     | Some _ \<Rightarrow> (and_then (store_verify hs (sha256 bs) st1) (\<lambda>_.
           Inr \<lparr>ao_digest = sha256 bs, ao_length = ow_written w, ao_preexisting = True\<rparr>),
         remove_temp (ow_path w) st1))"
    using t(2) by (simp add: writer_finish_def writer_install_def d st1_def [symmetric] st1(2) map_of_bt_insert
        Let_def cong: option.case_cong)
  note eqs = fin store_verify_eq [OF assms(1)] admit_def resident_at_def st1(1) len rm remove_temp_def Let_def
  show "fst (writer_finish hs w st) = fst (admit sha256 bs (os_objects st0))"
    by (simp add: eqs split: option.split resident.split)
  show "os_objects (snd (writer_finish hs w st)) = snd (admit sha256 bs (os_objects st0))"
    by (simp add: eqs split: option.split resident.split)
  show "os_temps (snd (writer_finish hs w st)) = os_temps st0"
    by (simp add: eqs split: option.split resident.split)
qed

lemma put_bytes_refines:
  assumes "hasher_streams hs sha256" "store_wf st"
  shows "fst (put_bytes env hs bs st) = fst (admit sha256 bs (os_objects st))"
    and "os_objects (snd (put_bytes env hs bs st)) = snd (admit sha256 bs (os_objects st))"
    and "os_temps (snd (put_bytes env hs bs st)) = os_temps st"
proof -
  obtain w1 st1 where w1: "store_writer env hs st = (w1, st1)" by (cases "store_writer env hs st")
  obtain w2 st2 where w2: "writer_write_all hs bs w1 st1 = (w2, st2)" by (cases "writer_write_all hs bs w1 st1")
  have "writing hs st w2 st2 bs"
    using writer_write_all_writing [of hs st w1 st1 "[]" bs w2 st2] store_writer_writing [OF assms(2), of hs env]
    by (simp add: w1 w2)
  from writer_finish_refines [OF assms(1) this]
  show "fst (put_bytes env hs bs st) = fst (admit sha256 bs (os_objects st))"
    "os_objects (snd (put_bytes env hs bs st)) = snd (admit sha256 bs (os_objects st))"
    "os_temps (snd (put_bytes env hs bs st)) = os_temps st"
    by (simp_all add: put_bytes_def w1 w2)
qed


section \<open>The interface of a content-addressed store\<close>

text \<open>What the clients of the store rely on: an admission succeeds on a sound store, names the bytes by
  their hash, keeps every object that was there, and what is read back hashes to its name.\<close>

locale content_store =
  fixes put :: "bytes \<Rightarrow> 's \<Rightarrow> ('e + admitted_object) \<times> 's"
    and get :: "'s \<Rightarrow> digest \<Rightarrow> bytes option"
    and sound :: "'s \<Rightarrow> bool"
    and sha256 :: "bytes \<Rightarrow> digest"
  assumes put_ok: "sound s \<Longrightarrow> \<exists>a. fst (put bs s) = Inr a \<and> ao_digest a = sha256 bs \<and>
      ao_length a = of_nat (length bs)"
    and put_sound: "sound s \<Longrightarrow> sound (snd (put bs s))"
    and put_get: "sound s \<Longrightarrow> get (snd (put bs s)) (sha256 bs) =
      Some (case get s (sha256 bs) of None \<Rightarrow> bs | Some b \<Rightarrow> b)"
    and put_other: "sound s \<Longrightarrow> d \<noteq> sha256 bs \<Longrightarrow> get (snd (put bs s)) d = get s d"
    and get_hash: "sound s \<Longrightarrow> get s d = Some b \<Longrightarrow> sha256 b = d"
begin

lemma put_keeps: "sound s \<Longrightarrow> get s d = Some b \<Longrightarrow> get (snd (put bs s)) d = Some b"
  by (cases "d = sha256 bs") (simp_all add: put_get put_other)

lemma put_dom: "sound s \<Longrightarrow> dom (get (snd (put bs s))) = insert (sha256 bs) (dom (get s))"
  using put_get [of s bs] put_other [of s _ bs] by (auto simp: dom_def) metis

lemma put_all_sound: "sound s \<Longrightarrow> sound (fold (\<lambda>bs s. snd (put bs s)) pieces s)"
  by (induction pieces arbitrary: s) (simp_all add: put_sound)

lemma put_all_keeps: "sound s \<Longrightarrow> get s d = Some b \<Longrightarrow> get (fold (\<lambda>bs s. snd (put bs s)) pieces s) d = Some b"
  by (induction pieces arbitrary: s) (simp_all add: put_sound put_keeps)

lemma put_all_dom: "sound s \<Longrightarrow> dom (get (fold (\<lambda>bs s. snd (put bs s)) pieces s)) = sha256 ` set pieces \<union> dom (get s)"
  by (induction pieces arbitrary: s) (simp_all add: put_sound put_dom)

text \<open>Reading back: unless the hash collides, the store returns the very bytes that were put.\<close>

lemma put_all_get:
  assumes "sound s" "bs \<in> set pieces" "inj_on sha256 (insert bs (ran (get (fold (\<lambda>bs s. snd (put bs s)) pieces s))))"
  shows "get (fold (\<lambda>bs s. snd (put bs s)) pieces s) (sha256 bs) = Some bs"
proof -
  have "sha256 bs \<in> dom (get (fold (\<lambda>bs s. snd (put bs s)) pieces s))" using assms by (simp add: put_all_dom)
  then obtain b where b: "get (fold (\<lambda>bs s. snd (put bs s)) pieces s) (sha256 bs) = Some b" by blast
  then have "sha256 b = sha256 bs" using get_hash put_all_sound [OF assms(1)] by blast
  moreover have "b \<in> ran (get (fold (\<lambda>bs s. snd (put bs s)) pieces s))" using b by (auto simp: ran_def)
  ultimately have "b = bs" using inj_onD [OF assms(3)] by blast
  with b show ?thesis by simp
qed

end

definition object_bytes :: "(digest \<times> resident) list \<Rightarrow> digest \<Rightarrow> bytes option" where
  "object_bytes objects d =
     (case map_of objects d of Some (Resident_File bs ro) \<Rightarrow> Some bs | _ \<Rightarrow> None)"

text \<open>A sound store: at every digest path there is a read-only regular file that hashes to the path.\<close>

definition objects_sound :: "(bytes \<Rightarrow> digest) \<Rightarrow> (digest \<times> resident) list \<Rightarrow> bool" where
  "objects_sound sha256 objects \<longleftrightarrow> bt_sorted objects \<and>
     (\<forall>d r. map_of objects d = Some r \<longrightarrow> (\<exists>bs. r = Resident_File bs True \<and> sha256 bs = d))"

lemma objects_sound_cases:
  assumes "objects_sound sha256 objects"
  obtains "map_of objects d = None" | bs where "map_of objects d = Some (Resident_File bs True)" "sha256 bs = d"
  using assms unfolding objects_sound_def by (cases "map_of objects d") blast+

lemma admit_sound:
  assumes "objects_sound sha256 objects"
  shows "objects_sound sha256 (snd (admit sha256 bs objects))"
    and "\<exists>a. fst (admit sha256 bs objects) = Inr a \<and> ao_digest a = sha256 bs \<and> ao_length a = of_nat (length bs)"
    and "object_bytes (snd (admit sha256 bs objects)) = (object_bytes objects)
      (sha256 bs \<mapsto> case object_bytes objects (sha256 bs) of None \<Rightarrow> bs | Some b \<Rightarrow> b)"
proof -
  have sorted: "bt_sorted objects" using assms by (simp add: objects_sound_def)
  consider "map_of objects (sha256 bs) = None"
    | b where "map_of objects (sha256 bs) = Some (Resident_File b True)" "sha256 b = sha256 bs"
    using assms by (rule objects_sound_cases)
  then have "objects_sound sha256 (snd (admit sha256 bs objects)) \<and>
    (\<exists>a. fst (admit sha256 bs objects) = Inr a \<and> ao_digest a = sha256 bs \<and> ao_length a = of_nat (length bs)) \<and>
    object_bytes (snd (admit sha256 bs objects)) = (object_bytes objects)
      (sha256 bs \<mapsto> case object_bytes objects (sha256 bs) of None \<Rightarrow> bs | Some b \<Rightarrow> b)"
  proof cases
    case 1
    with assms sorted show ?thesis
      by (auto simp: admit_def objects_sound_def bt_sorted_insert map_of_bt_insert object_bytes_def fun_eq_iff
          Let_def split: if_splits)
  next
    case 2
    with assms show ?thesis by (auto simp: admit_def object_bytes_def fun_eq_iff Let_def)
  qed
  then show "objects_sound sha256 (snd (admit sha256 bs objects))"
    "\<exists>a. fst (admit sha256 bs objects) = Inr a \<and> ao_digest a = sha256 bs \<and> ao_length a = of_nat (length bs)"
    "object_bytes (snd (admit sha256 bs objects)) = (object_bytes objects)
      (sha256 bs \<mapsto> case object_bytes objects (sha256 bs) of None \<Rightarrow> bs | Some b \<Rightarrow> b)" by blast+
qed

interpretation cas: content_store "admit sha256" object_bytes "objects_sound sha256" sha256
proof
  fix s d b assume "objects_sound sha256 s" and b: "object_bytes s d = Some b"
  from this(1) show "sha256 b = d"
    by (cases rule: objects_sound_cases [of sha256 s d]) (use b in \<open>simp_all add: object_bytes_def\<close>)
qed (simp_all add: admit_sound)


section \<open>The invariant of a store\<close>

definition store_ok :: "(bytes \<Rightarrow> digest) \<Rightarrow> object_store \<Rightarrow> bool" where
  "store_ok sha256 st \<longleftrightarrow> store_wf st \<and> objects_sound sha256 (os_objects st)"

lemma store_ok_refined:
  "store_ok sha256 st \<Longrightarrow> os_temps st' = os_temps st \<Longrightarrow>
   os_objects st' = snd (admit sha256 bs (os_objects st)) \<Longrightarrow> store_ok sha256 st'"
  using admit_sound(1) [of sha256 "os_objects st" bs]
  by (simp add: store_ok_def store_wf_def objects_sound_def)

lemma put_bytes_ok:
  assumes "hasher_streams hs sha256" "store_ok sha256 st"
  shows "store_ok sha256 (snd (put_bytes env hs bs st))"
    and "\<exists>a. fst (put_bytes env hs bs st) = Inr a \<and> ao_digest a = sha256 bs \<and> ao_length a = of_nat (length bs)"
    and "os_objects (snd (put_bytes env hs bs st)) = snd (admit sha256 bs (os_objects st))"
    and "os_temps (snd (put_bytes env hs bs st)) = os_temps st"
  using assms put_bytes_refines [OF assms(1), of st env bs] cas.put_ok [of sha256 "os_objects st" bs]
    store_ok_refined [of sha256 st "snd (put_bytes env hs bs st)" bs]
  by (simp_all add: store_ok_def)

end
