(* ===== verification/Store_Admission.thy ===== *)
theory Store_Admission
  imports Store
begin

text \<open>
  Admission of regions and ranges of a byte source, and the collection of abandoned temporaries
  (\<open>admit_regions\<close>, \<open>admit_source_range\<close>, \<open>collect_abandoned_temps\<close> of \<open>store.rs\<close>): whatever the
  interleaving of the workers, the result is the one of the serial loop.
\<close>

section \<open>Regions in any order\<close>

definition map_ok :: "('a \<Rightarrow> 'b) \<Rightarrow> 'e + 'a \<Rightarrow> 'e + 'b" where
  "map_ok f r = (case r of Inl e \<Rightarrow> Inl e | Inr a \<Rightarrow> Inr (f a))"

lemma map_ok_simps [simp]: "map_ok f (Inl e) = Inl e" "map_ok f (Inr a) = Inr (f a)"
  by (simp_all add: map_ok_def)

text \<open>What admitting one region yields, whatever the store already holds: the read error, or the
  identity of the bytes read.\<close>

definition identity_of :: "admitted_object \<Rightarrow> digest \<times> u64" where
  "identity_of a = (ao_digest a, ao_length a)"

definition admission :: "(bytes \<Rightarrow> digest) \<Rightarrow> byte_source \<Rightarrow> region \<Rightarrow> store_error + digest \<times> u64" where
  "admission sha256 source r =
     (case src_read source (reg_offset r) (unat (reg_length r)) of
        Inl e \<Rightarrow> Inl (StoreError_Io e)
      | Inr bs \<Rightarrow> Inr (sha256 bs, of_nat (length bs)))"

definition admitted_digests :: "(bytes \<Rightarrow> digest) \<Rightarrow> byte_source \<Rightarrow> region list \<Rightarrow> digest set" where
  "admitted_digests sha256 source regions = {d. \<exists>r \<in> set regions. \<exists>n. admission sha256 source r = Inr (d, n)}"

definition store_digests :: "object_store \<Rightarrow> digest set" where
  "store_digests st = dom (object_bytes (os_objects st))"

lemma admitted_digests_simps [simp]:
  "admitted_digests sha256 source [] = {}"
  "admitted_digests sha256 source (r # rs) =
     (case admission sha256 source r of Inl e \<Rightarrow> {} | Inr i \<Rightarrow> {fst i}) \<union> admitted_digests sha256 source rs"
  by (auto simp: admitted_digests_def split: sum.splits)

lemma admit_region_spec:
  assumes "hasher_streams hs sha256" "store_ok sha256 st"
  shows "store_ok sha256 (snd (admit_region env hs source r st))"
    and "map_ok identity_of (fst (admit_region env hs source r st)) = admission sha256 source r"
    and "os_temps (snd (admit_region env hs source r st)) = os_temps st"
    and "store_digests (snd (admit_region env hs source r st)) =
      admitted_digests sha256 source [r] \<union> store_digests st"
proof -
  note ok = put_bytes_ok [OF assms, of env] 
  have sound: "objects_sound sha256 (os_objects st)" using assms(2) by (simp add: store_ok_def)
  show "store_ok sha256 (snd (admit_region env hs source r st))"
    "os_temps (snd (admit_region env hs source r st)) = os_temps st"
    using ok assms(2) by (auto simp: admit_region_def map_err_def split: sum.splits)
  show "map_ok identity_of (fst (admit_region env hs source r st)) = admission sha256 source r"
  proof (cases "src_read source (reg_offset r) (unat (reg_length r))")
    case (Inr bs)
    with ok(2) [of bs] show ?thesis by (auto simp: admit_region_def map_err_def admission_def identity_of_def)
  qed (simp add: admit_region_def map_err_def admission_def)
  show "store_digests (snd (admit_region env hs source r st)) = admitted_digests sha256 source [r] \<union> store_digests st"
    using cas.put_dom [OF sound] ok(3)
    by (auto simp: admit_region_def map_err_def admission_def store_digests_def split: sum.splits)
qed

lemma sorted_collected:
  assumes "mset (map fst collected) = mset [0..<n]" "list_all (\<lambda>(i, x). P (xs ! i) x) collected" "length xs = n"
  shows "list_all2 P xs (map snd (sort_key fst collected))"
proof -
  have "sorted (map fst (sort_key fst collected))" by simp
  moreover have "mset (map fst (sort_key fst collected)) = mset [0..<n]" using assms(1) by simp
  ultimately have ix: "map fst (sort_key fst collected) = [0..<n]"
    by (metis properties_for_sort sorted_sort_id sorted_upt)
  then have len: "length (sort_key fst collected) = n" by (metis diff_zero length_map length_upt)
  have "P (xs ! i) (map snd (sort_key fst collected) ! i)" if "i < n" for i
  proof -
    have "fst (sort_key fst collected ! i) = i" using that len ix by (metis add_0 diff_zero nth_map nth_upt)
    moreover have "sort_key fst collected ! i \<in> set collected" using that len by (metis nth_mem set_sort)
    ultimately show ?thesis using assms(2) that len by (auto simp: list_all_iff)
  qed
  then show ?thesis using assms(3) len by (simp add: list_all2_conv_all_nth)
qed

lemma collect_results_map:
  "map_ok (map f) (collect_results results) = collect_results (map (map_ok f) results)"
proof (induction results)
  case (Cons r rs)
  show ?case
  proof (cases r)
    case (Inr x)
    with Cons [symmetric] show ?thesis by (cases "collect_results rs") auto
  qed simp
qed simp

lemma admit_scheduled_spec:
  assumes "hasher_streams hs sha256"
  shows "store_ok sha256 st \<Longrightarrow> admit_scheduled env hs source regions schedule st = (collected, st') \<Longrightarrow>
    store_ok sha256 st' \<and> os_temps st' = os_temps st \<and>
    map fst collected = schedule \<and>
    list_all (\<lambda>(i, result). map_ok identity_of result = admission sha256 source (regions ! i)) collected \<and>
    store_digests st' = admitted_digests sha256 source (map ((!) regions) schedule) \<union> store_digests st"
proof (induction schedule arbitrary: st collected)
  case (Cons i schedule)
  let ?a = "admit_region env hs source (regions ! i) st"
  note r = admit_region_spec [OF assms Cons.prems(1), of env source "regions ! i"]
  obtain rest where rest: "admit_scheduled env hs source regions schedule (snd ?a) = (rest, st')"
    and c: "collected = (i, fst ?a) # rest"
    using Cons.prems(2) by (auto simp: Let_def split: prod.splits)
  from Cons.IH [OF r(1) rest] r(2-4) c show ?case by (simp add: Un_ac)
qed simp

lemma admit_serial_spec:
  assumes "hasher_streams hs sha256"
  shows "store_ok sha256 st \<Longrightarrow>
    store_ok sha256 (snd (admit_serial env hs source regions st)) \<and>
    os_temps (snd (admit_serial env hs source regions st)) = os_temps st \<and>
    map_ok (map identity_of) (fst (admit_serial env hs source regions st)) =
      collect_results (map (admission sha256 source) regions) \<and>
    (case fst (admit_serial env hs source regions st) of
       Inl e \<Rightarrow> store_digests st \<subseteq> store_digests (snd (admit_serial env hs source regions st))
     | Inr _ \<Rightarrow> store_digests (snd (admit_serial env hs source regions st)) =
         admitted_digests sha256 source regions \<union> store_digests st)"
proof (induction regions arbitrary: st)
  case (Cons r regions)
  note r = admit_region_spec [OF assms Cons.prems, of env source r]
  show ?case
  proof (cases "admit_region env hs source r st")
    case (Pair result st1)
    show ?thesis
    proof (cases result)
      case (Inl e)
      with r Pair show ?thesis by (simp add: r(2) [symmetric])
    next
      case (Inr a)
      have ok: "store_ok sha256 st1" using r(1) Pair by simp
      note IH = Cons.IH [OF ok]
      obtain results st2 where st2: "admit_serial env hs source regions st1 = (results, st2)"
        by (cases "admit_serial env hs source regions st1")
      have step: "admit_serial env hs source (r # regions) st =
          op_then (results, st2) (\<lambda>objects st. (Inr (a # objects), st))"
        using Pair Inr st2 by simp
      have adm: "admission sha256 source r = Inr (identity_of a)" using r(2) Pair Inr by simp
      have d: "store_digests st1 = {fst (identity_of a)} \<union> store_digests st" using r(4) Pair adm by simp
      have col: "collect_results (map (admission sha256 source) regions) = map_ok (map identity_of) results"
        using IH st2 by simp
      show ?thesis
        using IH r(3) Pair unfolding step st2 by (cases results) (auto simp: adm d col)
    qed
  qed
qed simp

lemma nth_schedule:
  assumes "mset schedule = mset [0..<length regions]"
  shows "set (map ((!) regions) schedule) = set regions"
  using mset_eq_setD [OF assms] by (metis list.set_map map_nth)

lemma admitted_digests_set:
  "set rs = set rs' \<Longrightarrow> admitted_digests sha256 source rs = admitted_digests sha256 source rs'"
  by (simp add: admitted_digests_def)

lemma admit_regions_spec:
  assumes "hasher_streams hs sha256" "store_ok sha256 st" "mset schedule = mset [0..<length regions]"
  shows "store_ok sha256 (snd (admit_regions env hs concurrency schedule source regions st))"
    and "os_temps (snd (admit_regions env hs concurrency schedule source regions st)) = os_temps st"
    and "map_ok (map identity_of) (fst (admit_regions env hs concurrency schedule source regions st)) =
      collect_results (map (admission sha256 source) regions)"
    and "store_digests st \<subseteq> store_digests (snd (admit_regions env hs concurrency schedule source regions st))"
    and "fst (admit_regions env hs concurrency schedule source regions st) = Inr objects \<Longrightarrow>
      store_digests (snd (admit_regions env hs concurrency schedule source regions st)) =
        admitted_digests sha256 source regions \<union> store_digests st"
proof -
  obtain collected st' where c: "admit_scheduled env hs source regions schedule st = (collected, st')"
    by (cases "admit_scheduled env hs source regions schedule st")
  note sp = admit_scheduled_spec [OF assms(1,2) c]
  have "mset (map fst collected) = mset [0..<length regions]" using sp assms(3) by simp
  from sorted_collected [OF this, of "\<lambda>r result. map_ok identity_of result = admission sha256 source r" regions]
  have "list_all2 (\<lambda>r result. map_ok identity_of result = admission sha256 source r) regions
      (map snd (sort_key fst collected))" using sp by simp
  then have "map (map_ok identity_of) (map snd (sort_key fst collected)) = map (admission sha256 source) regions"
    by (induction rule: list_all2_induct) auto
  then have res: "map_ok (map identity_of) (collect_results (map snd (sort_key fst collected))) =
      collect_results (map (admission sha256 source) regions)"
    by (simp add: collect_results_map del: map_map)
  note defs = admit_regions_def Let_def c
  have digests: "admitted_digests sha256 source (map ((!) regions) schedule) = admitted_digests sha256 source regions"
    by (rule admitted_digests_set [OF nth_schedule [OF assms(3)]])
  show "store_ok sha256 (snd (admit_regions env hs concurrency schedule source regions st))"
    "os_temps (snd (admit_regions env hs concurrency schedule source regions st)) = os_temps st"
    "map_ok (map identity_of) (fst (admit_regions env hs concurrency schedule source regions st)) =
      collect_results (map (admission sha256 source) regions)"
    using sp res admit_serial_spec [OF assms(1,2)] assms(2) by (auto simp: defs)
  show "store_digests st \<subseteq> store_digests (snd (admit_regions env hs concurrency schedule source regions st))"
    using sp admit_serial_spec [OF assms(1,2), of env source regions]
    by (auto simp: defs split: sum.splits)
  show "store_digests (snd (admit_regions env hs concurrency schedule source regions st)) =
        admitted_digests sha256 source regions \<union> store_digests st"
    if "fst (admit_regions env hs concurrency schedule source regions st) = Inr objects"
    using that sp digests admit_serial_spec [OF assms(1,2), of env source regions]
    by (auto simp: defs split: if_splits)
qed


lemma collect_results_digests:
  "collect_results (map (admission sha256 source) regions) = Inr ids \<Longrightarrow>
   admitted_digests sha256 source regions = fst ` set ids"
proof (induction regions arbitrary: ids)
  case (Cons r regions)
  then obtain i rest where "admission sha256 source r = Inr i" "ids = i # rest"
      "collect_results (map (admission sha256 source) regions) = Inr rest"
    by (auto simp: result_simps)
  with Cons.IH show ?case by simp
qed simp

lemma admit_regions_digests:
  assumes "hasher_streams hs sha256" "store_ok sha256 st" "mset schedule = mset [0..<length regions]"
    and "admit_regions env hs concurrency schedule source regions st = (Inr objects, st')"
  shows "store_digests st' = ao_digest ` set objects \<union> store_digests st"
proof -
  note spec = admit_regions_spec [OF assms(1-3), of env concurrency source, unfolded assms(4) fst_conv snd_conv]
  have "admitted_digests sha256 source regions = ao_digest ` set objects"
    using collect_results_digests [of sha256 source regions "map identity_of objects"] spec(3)
    by (simp add: image_image identity_of_def)
  then show ?thesis using spec(5) [OF refl] by simp
qed


section \<open>Reading back\<close>

text \<open>Reading a digest of a sound store gives the bytes it was made from, unless the hash collides.\<close>

lemma stored_piece:
  assumes "store_ok sha256 st" "sha256 piece \<in> store_digests st" "inj_on sha256 (insert piece (ran (object_bytes (os_objects st))))"
  shows "open_object (sha256 piece) st = Inr piece"
proof -
  obtain b where b: "object_bytes (os_objects st) (sha256 piece) = Some b"
    using assms(2) by (auto simp: store_digests_def)
  then have "sha256 b = sha256 piece" using cas.get_hash assms(1) unfolding store_ok_def by blast
  moreover have "b \<in> ran (object_bytes (os_objects st))" using b by (auto simp: ran_def)
  ultimately have "b = piece" using inj_onD [OF assms(3)] by blast
  with b show ?thesis
    by (auto simp: object_bytes_def open_object_def resident_at_def split: option.splits resident.splits)
qed

lemma stored_pieces:
  assumes "store_ok sha256 st" "map ao_digest objects = map sha256 pieces" "ao_digest ` set objects \<subseteq> store_digests st"
    and "inj_on sha256 (set pieces \<union> ran (object_bytes (os_objects st)))"
  shows "map (\<lambda>a. open_object (ao_digest a) st) objects = map Inr pieces"
proof -
  have "open_object (sha256 piece) st = Inr piece" if "piece \<in> set pieces" for piece
  proof (rule stored_piece [OF assms(1)])
    show "sha256 piece \<in> store_digests st"
      using that assms(2,3) by (metis imageI image_set subsetD)
    show "inj_on sha256 (insert piece (ran (object_bytes (os_objects st))))"
      using that by (intro inj_on_subset [OF assms(4)]) auto
  qed
  then have "map (\<lambda>d. open_object d st) (map sha256 pieces) = map Inr pieces" by simp
  then show ?thesis by (simp add: comp_def flip: assms(2))
qed


section \<open>A range as one object\<close>

lemma writing_dropped:
  "writing hs st0 w st bs \<Longrightarrow> os_temps (remove_temp (ow_path w) st) = os_temps st0 \<and>
     os_objects (remove_temp (ow_path w) st) = os_objects st0"
  by (auto simp: writing_def remove_temp_def store_wf_def bt_remove_insert)

lemma range_loop_writes:
  assumes "writing hs st0 w st bs" "range_loop hs source position stop w st = (result, st')"
  shows "case result of
      Inl e \<Rightarrow> os_objects st' = os_objects st0 \<and> os_temps st' = os_temps st0
    | Inr w' \<Rightarrow> \<exists>more. writing hs st0 w' st' (bs @ more)"
  using assms
proof (induction hs source position stop w st arbitrary: bs rule: range_loop.induct)
  case (1 hs source position stop w st)
  show ?case
  proof (cases "position < stop")
    case True
    let ?block = "min (stop - position) (of_nat VERIFY_BUFFER_SIZE)"
    show ?thesis
    proof (cases "src_read source position (unat ?block)")
      case (Inl e)
      with 1(3) True have "result = Inl (StoreError_Io e)" "st' = remove_temp (ow_path w) st"
        by (simp_all add: range_loop.simps [of hs source position] Let_def)
      with writing_dropped [OF 1(2)] show ?thesis by simp
    next
      case (Inr buffer)
      obtain w1 st1 where w1: "writer_write_all hs buffer w st = (w1, st1)"
        by (cases "writer_write_all hs buffer w st")
      have "range_loop hs source (position + ?block) stop w1 st1 = (result, st')"
        using 1(3) True Inr w1 by (simp add: range_loop.simps [of hs source position] Let_def)
      from 1(1) [OF True refl Inr w1 [symmetric] refl writer_write_all_writing [OF 1(2) w1] this]
      show ?thesis by (cases result) auto
    qed
  next
    case False
    with 1 have "result = Inr w" "st' = st" by (simp_all add: range_loop.simps [of hs source position])
    with 1(2) show ?thesis by (auto intro: exI [of _ "[]"])
  qed
qed

text \<open>Whatever the source does, the attempt leaves no temporary behind and an error leaves the objects
  alone.\<close>

lemma admit_source_range_clean:
  assumes "hasher_streams hs sha256" "store_ok sha256 st"
  shows "os_temps (snd (admit_source_range env hs source offset len st)) = os_temps st"
    and "store_ok sha256 (snd (admit_source_range env hs source offset len st))"
    and "fst (admit_source_range env hs source offset len st) = Inl e \<Longrightarrow>
      os_objects (snd (admit_source_range env hs source offset len st)) = os_objects st"
proof -
  have wf: "store_wf st" using assms(2) by (simp add: store_ok_def)
  obtain w st1 where w: "store_writer env hs st = (w, st1)" by (cases "store_writer env hs st")
  have wr: "writing hs st w st1 []" using store_writer_writing [OF wf, of hs env] w by simp
  have "os_temps (snd (admit_source_range env hs source offset len st)) = os_temps st \<and>
    store_ok sha256 (snd (admit_source_range env hs source offset len st)) \<and>
    (fst (admit_source_range env hs source offset len st) = Inl e \<longrightarrow>
      os_objects (snd (admit_source_range env hs source offset len st)) = os_objects st)"
  proof (cases "checked_add offset len")
    case None
    then show ?thesis using assms(2) by (simp add: admit_source_range_def)
  next
    case (Some stop)
    obtain result st2 where r: "range_loop hs source offset stop w st1 = (result, st2)"
      by (cases "range_loop hs source offset stop w st1")
    note loop = range_loop_writes [OF wr r]
    show ?thesis
    proof (cases result)
      case (Inl e')
      then show ?thesis using loop r w Some assms(2)
        by (auto simp: admit_source_range_def store_ok_def store_wf_def)
    next
      case (Inr w')
      then obtain more where more: "writing hs st w' st2 more" using loop by auto
      note fin = writer_finish_refines [OF assms(1) more]
      have eq: "admit_source_range env hs source offset len st = writer_finish hs w' st2"
        using r w Some Inr by (simp add: admit_source_range_def)
      have "fst (admit sha256 more (os_objects st)) \<noteq> Inl e"
        using cas.put_ok [of sha256 "os_objects st" more] assms(2) by (auto simp: store_ok_def)
      then show ?thesis unfolding eq using fin store_ok_refined [OF assms(2) fin(3,2)] by simp
    qed
  qed
  then show "os_temps (snd (admit_source_range env hs source offset len st)) = os_temps st"
    "store_ok sha256 (snd (admit_source_range env hs source offset len st))"
    "fst (admit_source_range env hs source offset len st) = Inl e \<Longrightarrow>
      os_objects (snd (admit_source_range env hs source offset len st)) = os_objects st" by blast+
qed


section \<open>Sources that view a fixed content\<close>

text \<open>The contract between a byte source and its readers: the reported length is the length of the
  content, and every read inside it returns the bytes there. A slice in memory and the records of a
  committed file both fulfil it; what the store admits from such a source is the content.\<close>

definition region_inside :: "nat \<Rightarrow> region \<Rightarrow> bool" where
  "region_inside n r \<longleftrightarrow> unat (reg_offset r) + unat (reg_length r) \<le> n"

lemma tiles_inside: "tiles a rs b \<Longrightarrow> b \<le> n \<Longrightarrow> list_all (region_inside n) rs"
  by (auto simp: list_all_iff region_inside_def dest: tiles_bounded)

locale file_view =
  fixes source_of :: "'a \<Rightarrow> byte_source"
    and content :: "'a \<Rightarrow> bytes"
    and valid :: "'a \<Rightarrow> bool"
  assumes short: "valid x \<Longrightarrow> length (content x) < 2 ^ 64"
    and reported: "valid x \<Longrightarrow> src_len (source_of x) = of_nat (length (content x))"
    and reads: "valid x \<Longrightarrow> unat offset + n \<le> length (content x) \<Longrightarrow>
      src_read (source_of x) offset n = Inr (take n (drop (unat offset) (content x)))"
begin

lemma admission_inside:
  assumes "valid x"
  shows "list_all (region_inside (length (content x))) rs \<Longrightarrow>
   collect_results (map (admission sha256 (source_of x)) rs) =
     Inr (map (\<lambda>r. (sha256 (region_bytes (content x) r), reg_length r)) rs)"
proof (induction rs)
  case (Cons r rs)
  have "unat (reg_offset r) + unat (reg_length r) \<le> length (content x)"
    using Cons.prems by (simp add: region_inside_def)
  then have "admission sha256 (source_of x) r = Inr (sha256 (region_bytes (content x) r), reg_length r)"
    by (simp add: admission_def reads [OF assms] region_bytes_def)
  with Cons show ?case by auto
qed simp

lemma admit_regions_inside:
  assumes "hasher_streams hs sha256" "store_ok sha256 st" "valid x" "list_all (region_inside (length (content x))) regions"
    and "mset schedule = mset [0..<length regions]"
    and "admit_regions env hs concurrency schedule (source_of x) regions st = (result, st')"
  shows "\<exists>objects. result = Inr objects \<and> map ao_digest objects = map (sha256 \<circ> region_bytes (content x)) regions \<and>
    map ao_length objects = map reg_length regions"
proof -
  have "map_ok (map identity_of) result = Inr (map (\<lambda>r. (sha256 (region_bytes (content x) r), reg_length r)) regions)"
    using admit_regions_spec(3) [OF assms(1,2,5), of env concurrency "source_of x"] assms(6)
    by (simp add: admission_inside [OF assms(3,4)])
  then obtain objects where o: "result = Inr objects"
    "map identity_of objects = map (\<lambda>r. (sha256 (region_bytes (content x) r), reg_length r)) regions"
    by (cases result) auto
  have "map ao_digest objects = map fst (map identity_of objects)"
    "map ao_length objects = map snd (map identity_of objects)" by (simp_all add: identity_of_def)
  with o show ?thesis by (simp add: comp_def)
qed

lemma admit_regions_tiles:
  assumes "hasher_streams hs sha256" "store_ok sha256 st" "valid x" "tiles a regions b" "b \<le> length (content x)"
    and "mset schedule = mset [0..<length regions]"
    and "admit_regions env hs concurrency schedule (source_of x) regions st = (result, st')"
  shows "\<exists>objects. result = Inr objects \<and> map ao_digest objects = map (sha256 \<circ> region_bytes (content x)) regions \<and>
    map ao_length objects = map reg_length regions"
  using admit_regions_inside [OF assms(1-3) tiles_inside [OF assms(4,5)] assms(6,7)] .

lemma range_loop_content:
  assumes "valid x" "unat stop \<le> length (content x)"
  shows "writing hs st0 w st bs \<Longrightarrow> position \<le> stop \<Longrightarrow>
    \<exists>w' st'. range_loop hs (source_of x) position stop w st = (Inr w', st') \<and>
      writing hs st0 w' st' (bs @ take (unat stop - unat position) (drop (unat position) (content x)))"
proof (induction "unat stop - unat position" arbitrary: position w st bs rule: less_induct)
  case less
  show ?case
  proof (cases "position < stop")
    case True
    define block where "block = min (stop - position) (of_nat VERIFY_BUFFER_SIZE)"
    define buffer where "buffer = take (unat block) (drop (unat position) (content x))"
    note b = range_decreases [OF True block_def]
    have read: "src_read (source_of x) position (unat block) = Inr buffer"
      using b assms by (simp add: reads buffer_def)
    obtain w1 st1 where w1: "writer_write_all hs buffer w st = (w1, st1)"
      by (cases "writer_write_all hs buffer w st")
    have step: "range_loop hs (source_of x) position stop w st =
        range_loop hs (source_of x) (position + block) stop w1 st1"
      using True read w1 by (simp add: range_loop.simps [of hs "source_of x" position] block_def Let_def)
    have "unat stop - unat (position + block) < unat stop - unat position" "position + block \<le> stop"
      using b by (simp_all add: u64_nat)
    from less.hyps [OF this(1) writer_write_all_writing [OF less.prems(1) w1] this(2)]
    obtain w' st' where rest: "range_loop hs (source_of x) (position + block) stop w1 st1 = (Inr w', st')"
      "writing hs st0 w' st' ((bs @ buffer) @
         take (unat stop - unat (position + block)) (drop (unat (position + block)) (content x)))" by blast
    have "take (unat stop - unat position) (drop (unat position) (content x)) =
        buffer @ take (unat stop - unat (position + block)) (drop (unat (position + block)) (content x))"
      using b by (simp add: buffer_def add.commute [of "unat position"] flip: take_add drop_drop)
    with step rest show ?thesis by simp
  next
    case False
    then show ?thesis using less.prems by (simp add: range_loop.simps [of hs "source_of x" position] u64_nat)
  qed
qed

lemma admit_source_range_content:
  assumes "hasher_streams hs sha256" "store_ok sha256 st" "valid x"
    and "unat offset + unat len \<le> length (content x)"
  defines "bs \<equiv> take (unat len) (drop (unat offset) (content x))"
  shows "fst (admit_source_range env hs (source_of x) offset len st) = fst (admit sha256 bs (os_objects st))"
    and "os_objects (snd (admit_source_range env hs (source_of x) offset len st)) =
      snd (admit sha256 bs (os_objects st))"
    and "os_temps (snd (admit_source_range env hs (source_of x) offset len st)) = os_temps st"
proof -
  have sum: "unat (offset + len) = unat offset + unat len" using assms(4) short [OF assms(3)] by (simp add: unat_add_u64)
  have stop: "checked_add offset len = Some (offset + len)"
    using assms(4) short [OF assms(3)] by (simp add: checked_add_def)
  have wf: "store_wf st" using assms(2) by (simp add: store_ok_def)
  obtain w st1 where w: "store_writer env hs st = (w, st1)" by (cases "store_writer env hs st")
  have "writing hs st w st1 []" using store_writer_writing [OF wf, of hs env] w by simp
  from range_loop_content [OF assms(3) _ this, of "offset + len" offset] sum assms(4)
  obtain w' st' where r: "range_loop hs (source_of x) offset (offset + len) w st1 = (Inr w', st')"
    "writing hs st w' st' bs"
    by (auto simp: u64_nat bs_def)
  have "admit_source_range env hs (source_of x) offset len st = writer_finish hs w' st'"
    by (simp add: admit_source_range_def stop w r(1))
  with writer_finish_refines [OF assms(1) r(2)]
  show "fst (admit_source_range env hs (source_of x) offset len st) = fst (admit sha256 bs (os_objects st))"
    "os_objects (snd (admit_source_range env hs (source_of x) offset len st)) =
      snd (admit sha256 bs (os_objects st))"
    "os_temps (snd (admit_source_range env hs (source_of x) offset len st)) = os_temps st"
    by simp_all
qed

lemma unat_reported: "valid x \<Longrightarrow> unat (src_len (source_of x)) = length (content x)"
  using short [of x] by (simp add: reported)

end

interpretation slice: file_view slice_source "\<lambda>file. file" "\<lambda>file. length file < 2 ^ 64"
  by unfold_locales (simp_all add: slice_source_def slice_read_def Let_def)


section \<open>Expected identities\<close>

lemma writer_finish_expecting_spec:
  assumes "hasher_streams hs sha256" "writing hs st0 w st bs"
  shows "fst (writer_finish_expecting hs d len w st) =
      (if of_nat (length bs) \<noteq> len then Inl (StoreError_LengthMismatch len (of_nat (length bs)))
       else if sha256 bs \<noteq> d then Inl (StoreError_DigestMismatch d (sha256 bs))
       else fst (admit sha256 bs (os_objects st0)))"
    and "os_objects (snd (writer_finish_expecting hs d len w st)) =
      (if of_nat (length bs) = len \<and> sha256 bs = d then snd (admit sha256 bs (os_objects st0)) else os_objects st0)"
    and "os_temps (snd (writer_finish_expecting hs d len w st)) = os_temps st0"
proof -
  have d: "hs_finalize hs (ow_hasher w) = sha256 bs" by (rule writing_digest [OF assms(2,1)])
  have w: "ow_written w = of_nat (length bs)" using assms(2) by (simp add: writing_def)
  note facts = writer_finish_refines [OF assms, unfolded writer_finish_def d] writing_dropped [OF assms(2)]
  show "fst (writer_finish_expecting hs d len w st) =
      (if of_nat (length bs) \<noteq> len then Inl (StoreError_LengthMismatch len (of_nat (length bs)))
       else if sha256 bs \<noteq> d then Inl (StoreError_DigestMismatch d (sha256 bs))
       else fst (admit sha256 bs (os_objects st0)))"
    "os_objects (snd (writer_finish_expecting hs d len w st)) =
      (if of_nat (length bs) = len \<and> sha256 bs = d then snd (admit sha256 bs (os_objects st0)) else os_objects st0)"
    "os_temps (snd (writer_finish_expecting hs d len w st)) = os_temps st0"
    using facts by (auto simp: writer_finish_expecting_def d w Let_def)
qed


section \<open>Abandoned temporaries\<close>

text \<open>What the collector may delete when nobody interferes: a regular file with the store's temporary name,
  not modified after the cutoff, on whose inode nobody holds the lease.\<close>

definition undisturbed :: "collector_env \<Rightarrow> bool" where
  "undisturbed env \<longleftrightarrow> (\<forall>moment path temps. ce_rival env moment path temps = temps) \<and> (\<forall>path. ce_reads env path \<and> ce_opens env path) \<and>
     (\<forall>path entry. ce_unlinks env path entry) \<and> ce_list_error env = None \<and> ce_sync_error env = None"

definition reclaimable :: "int option \<Rightarrow> (str \<times> temp_entry) list \<Rightarrow> str \<times> temp_entry \<Rightarrow> bool" where
  "reclaimable cutoff temps entry =
     (case entry of
        (name, Temp_File t) \<Rightarrow> is_temp_name name \<and> \<not> lease_held (tf_inode t) temps \<and> old_enough cutoff t
      | _ \<Rightarrow> False)"

definition examinable :: "str \<times> temp_entry \<Rightarrow> bool" where
  "examinable entry = (case entry of (name, Temp_File t) \<Rightarrow> is_temp_name name | _ \<Rightarrow> False)"

definition entry_bytes :: "str \<times> temp_entry \<Rightarrow> nat" where
  "entry_bytes entry = (case entry of (name, Temp_File t) \<Rightarrow> length (tf_bytes t) | _ \<Rightarrow> 0)"

lemma bt_remove_middle:
  "distinct (map fst (kept @ (k, v) # rest)) \<Longrightarrow> bt_remove k (kept @ (k, v) # rest) = kept @ rest"
  by (induction kept) auto

lemma map_of_middle: "distinct (map fst (kept @ (k, v) # rest)) \<Longrightarrow> map_of (kept @ (k, v) # rest) k = Some v"
  by (induction kept) auto

text \<open>Deleting entries on whose inodes no lease is held changes no lease.\<close>

lemma lease_held_kept:
  "(\<forall>e \<in> set temps. e \<notin> set temps' \<longrightarrow> (\<forall>name t. e = (name, Temp_File t) \<longrightarrow> \<not> lease_held (tf_inode t) temps)) \<Longrightarrow>
   set temps' \<subseteq> set temps \<Longrightarrow> lease_held i temps' = lease_held i temps"
  unfolding lease_held_def list_ex_iff by (fastforce split: temp_entry.splits)

lemma reclaim_candidate_undisturbed:
  assumes "undisturbed env" "map_of (os_temps st) name = Some (Temp_File t)"
  shows "reclaim_candidate env name (temp_identity_of t) report st =
    (if lease_held (tf_inode t) (os_temps st) then (report, st)
     else (report\<lparr>tc_deleted := tc_deleted report + 1,
              tc_bytes_deleted := tc_bytes_deleted report + of_nat (length (tf_bytes t))\<rparr>, remove_temp name st))"
  using assms by (simp add: reclaim_candidate_def undisturbed_def rival_acts_def temp_at_def)

lemma collect_temps_loop_spec:
  assumes "undisturbed env" "temps = front @ listing" "distinct (map fst temps)"
    and "os_temps st = filter (\<lambda>e. \<not> reclaimable cutoff temps e) front @ listing"
  shows "collect_temps_loop env cutoff (map fst listing) report st =
     (\<lparr>tc_examined = tc_examined report + of_nat (length (filter examinable listing)),
       tc_deleted = tc_deleted report + of_nat (length (filter (reclaimable cutoff temps) listing)),
       tc_bytes_deleted = tc_bytes_deleted report + of_nat (sum_list (map entry_bytes (filter (reclaimable cutoff temps) listing)))\<rparr>,
      st\<lparr>os_temps := filter (\<lambda>e. \<not> reclaimable cutoff temps e) temps\<rparr>)"
  using assms(2,4)
proof (induction listing arbitrary: front report st)
  case (Cons entry listing)
  obtain name e where entry: "entry = (name, e)" by (cases entry)
  let ?kept = "filter (\<lambda>e. \<not> reclaimable cutoff temps e) front"
  have dist: "distinct (map fst (?kept @ (name, e) # listing))"
    using assms(3) Cons.prems(1) by (auto simp: entry distinct_map_filter)
  have here: "map_of (os_temps st) name = Some e" using map_of_middle [OF dist] Cons.prems(2) by (simp add: entry)
  have lease: "lease_held i (os_temps st) = lease_held i temps" for i
    using Cons.prems by (intro lease_held_kept) (auto simp: reclaimable_def)
  have quiet: "rival_acts env moment path st = st" "ce_reads env path" for moment path
    using assms(1) by (simp_all add: undisturbed_def rival_acts_def)
  show ?case
  proof (cases "reclaimable cutoff temps entry")
    case True
    then obtain t where e: "e = Temp_File t" and ok: "is_temp_name name" "\<not> lease_held (tf_inode t) temps" "old_enough cutoff t"
      by (auto simp: reclaimable_def entry split: temp_entry.splits)
    have rm: "remove_temp name st = st\<lparr>os_temps := ?kept @ listing\<rparr>"
      using Cons.prems(2) bt_remove_middle [OF dist] by (simp add: remove_temp_def entry)
    note candidate = reclaim_candidate_undisturbed [OF assms(1) here [unfolded e]]
    show ?thesis
      using ok True Cons.IH [of "front @ [entry]" "remove_temp name st"] Cons.prems(1) here
      by (simp add: entry e candidate lease rm quiet temp_at_def examinable_def entry_bytes_def Let_def algebra_simps)
  next
    case False
    have skip: "collect_temps_loop env cutoff (map fst (entry # listing)) report st =
        collect_temps_loop env cutoff (map fst listing)
          (if examinable entry then report\<lparr>tc_examined := tc_examined report + 1\<rparr> else report) st"
    proof (cases e)
      case (Temp_File t)
      show ?thesis using False here reclaim_candidate_undisturbed [OF assms(1) here [unfolded Temp_File]]
        by (auto simp: entry Temp_File reclaimable_def examinable_def temp_at_def quiet lease Let_def)
    qed (use here in \<open>simp add: entry examinable_def temp_at_def quiet\<close>)
    show ?thesis
      using Cons.IH [of "front @ [entry]" st] Cons.prems False unfolding skip by (simp add: entry)
  qed
qed (use assms(2) in simp)

lemma bt_sorted_distinct: "bt_sorted m \<Longrightarrow> distinct (map fst m)"
  by (simp add: bt_sorted_def strict_sorted_iff)

lemma collect_abandoned_temps_spec:
  assumes "store_wf st" "undisturbed env" "0 < grace"
  shows "collect_abandoned_temps env grace st =
    (let gone = filter (reclaimable (grace_cutoff (ce_now env) grace) (os_temps st)) (os_temps st) in
       (Inr \<lparr>tc_examined = of_nat (length (filter examinable (os_temps st))), tc_deleted = of_nat (length gone),
             tc_bytes_deleted = of_nat (sum_list (map entry_bytes gone))\<rparr>,
        st\<lparr>os_temps := filter (\<lambda>e. \<not> reclaimable (grace_cutoff (ce_now env) grace) (os_temps st) e) (os_temps st)\<rparr>))"
  using collect_temps_loop_spec [OF assms(2), of "os_temps st" "[]" "os_temps st" st] assms bt_sorted_distinct [of "os_temps st"]
  by (simp add: collect_abandoned_temps_def store_wf_def undisturbed_def Let_def)

text \<open>What survives among rivals: a temporary that its writer keeps leased, and one that is modified after the
  cutoff, whatever else the other processes do. The objects are never touched.\<close>

definition spared :: "(temp_file \<Rightarrow> bool) \<Rightarrow> str \<Rightarrow> (str \<times> temp_entry) list \<Rightarrow> bool" where
  "spared keeps name temps \<longleftrightarrow> (\<exists>t. map_of temps name = Some (Temp_File t) \<and> keeps t)"

lemma map_of_bt_remove_other: "k \<noteq> n \<Longrightarrow> map_of (bt_remove k m) n = map_of m n"
  by (induction m rule: bt_remove.induct) auto

lemma rival_acts_frame: "os_objects (rival_acts env moment path st) = os_objects st"
  "os_temps (rival_acts env moment path st) = ce_rival env moment path (os_temps st)"
  by (simp_all add: rival_acts_def)

lemma spared_lease:
  "spared keeps n temps \<Longrightarrow> (\<And>t. keeps t \<Longrightarrow> tf_leased t \<and> tf_inode t = i) \<Longrightarrow> lease_held i temps"
  by (auto simp: spared_def lease_held_def list_ex_iff dest!: map_of_SomeD intro!: bexI [rotated])

lemma reclaim_candidate_spares:
  assumes "reclaim_candidate env path listed report st = (report', st')"
    and "\<forall>moment p temps. spared keeps n temps \<longrightarrow> spared keeps n (ce_rival env moment p temps)"
    and "spared keeps n (os_temps st)" "path = n \<Longrightarrow> (\<forall>t. keeps t \<longrightarrow> tf_leased t \<and> tf_inode t = i)"
  shows "spared keeps n (os_temps st')"
proof (cases "path = n")
  case True
  have keep: "spared keeps n (os_temps st) \<Longrightarrow> spared keeps n (os_temps (rival_acts env moment path st))" for moment st
    using assms(2) by (simp add: rival_acts_frame)
  let ?open = "rival_acts env Before_Open path st"
  have o: "spared keeps n (os_temps ?open)" using keep assms(3) by blast
  have l: "lease_held (tf_inode t) (os_temps (rival_acts env Before_Lease path ?open))" if "temp_at path (os_temps ?open) = Some t" for t
  proof -
    have "tf_inode t = i" using that o assms(4) True by (auto simp: temp_at_def spared_def)
    then show ?thesis using spared_lease [OF keep [OF o]] assms(4) True by blast
  qed
  show ?thesis using assms(1) o keep [OF o] l
    by (auto simp: reclaim_candidate_def Let_def split: if_splits option.splits)
next
  case False
  have "spared keeps n (bt_remove path temps) = spared keeps n temps" for temps
    using False by (simp add: spared_def map_of_bt_remove_other)
  then show ?thesis using assms(1-3) unfolding reclaim_candidate_def Let_def
    by (auto simp: rival_acts_frame remove_temp_def split: if_splits option.splits)
qed

lemma reclaim_candidate_objects:
  "reclaim_candidate env path listed report st = (report', st') \<Longrightarrow> os_objects st' = os_objects st"
  by (auto simp: reclaim_candidate_def Let_def rival_acts_frame remove_temp_def split: if_splits option.splits)

lemma collect_temps_loop_objects:
  "collect_temps_loop env cutoff names report st = (report', st') \<Longrightarrow> os_objects st' = os_objects st"
  by (induction names arbitrary: report st)
    (auto simp: rival_acts_frame Let_def dest: reclaim_candidate_objects split: if_splits option.splits prod.splits)

lemma collect_temps_loop_spares:
  assumes rivals: "\<forall>moment p temps. spared keeps n temps \<longrightarrow> spared keeps n (ce_rival env moment p temps)"
    and why: "(\<forall>t. keeps t \<longrightarrow> tf_leased t \<and> tf_inode t = i) \<or> (\<forall>t. keeps t \<longrightarrow> \<not> old_enough cutoff t)"
  shows "collect_temps_loop env cutoff names report st = (report', st') \<Longrightarrow> spared keeps n (os_temps st) \<Longrightarrow>
    spared keeps n (os_temps st')"
proof (induction names arbitrary: report st)
  case (Cons name names)
  let ?st = "rival_acts env Before_Metadata name st"
  have s: "spared keeps n (os_temps ?st)" using rivals Cons.prems(2) by (simp add: rival_acts_frame)
  show ?case
  proof (cases "\<exists>t. is_temp_name name \<and> ce_reads env name \<and> temp_at name (os_temps ?st) = Some t \<and> old_enough cutoff t")
    case True
    then obtain t where t: "is_temp_name name" "ce_reads env name" "temp_at name (os_temps ?st) = Some t" "old_enough cutoff t"
      by blast
    obtain report2 st2 where r: "reclaim_candidate env name (temp_identity_of t) (report\<lparr>tc_examined := tc_examined report + 1\<rparr>) ?st = (report2, st2)"
      by (cases "reclaim_candidate env name (temp_identity_of t) (report\<lparr>tc_examined := tc_examined report + 1\<rparr>) ?st")
    have "spared keeps n (os_temps st2)"
    proof (rule reclaim_candidate_spares [OF r rivals s])
      assume "name = n"
      then have "keeps t" using t(3) s by (auto simp: temp_at_def spared_def)
      then show "\<forall>t. keeps t \<longrightarrow> tf_leased t \<and> tf_inode t = i" using why t(4) by blast
    qed
    then show ?thesis using Cons.IH [of report2 st2] Cons.prems(1) t r by (simp add: Let_def)
  next
    case False
    then show ?thesis using Cons.IH [OF _ Cons.prems(2)] Cons.IH [OF _ s] Cons.prems(1)
      by (auto simp: Let_def split: if_splits option.splits)
  qed
qed simp

lemma collect_abandoned_temps_spares:
  assumes "\<forall>moment p temps. spared keeps n temps \<longrightarrow> spared keeps n (ce_rival env moment p temps)"
    and "(\<forall>t. keeps t \<longrightarrow> tf_leased t \<and> tf_inode t = i) \<or> (\<forall>t. keeps t \<longrightarrow> \<not> old_enough (grace_cutoff (ce_now env) grace) t)"
    and "collect_abandoned_temps env grace st = (result, st')" "spared keeps n (os_temps st)"
  shows "spared keeps n (os_temps st')"
  using assms(3,4) collect_temps_loop_spares [OF assms(1,2)]
  by (auto simp: collect_abandoned_temps_def Let_def split: if_splits option.splits prod.splits)

lemma collect_abandoned_temps_objects:
  "collect_abandoned_temps env grace st = (result, st') \<Longrightarrow> os_objects st' = os_objects st"
  by (auto simp: collect_abandoned_temps_def Let_def dest: collect_temps_loop_objects split: if_splits option.splits prod.splits)

end
