(* ===== verification/Store_Samples.thy ===== *)
theory Store_Samples
  imports Samples Tfp1 Store_Admission
begin

text \<open>
  Concrete packs, stores and regions, on which the properties of the packs and of the object store are
  evaluated.
\<close>

definition sample_env :: process_env where
  "sample_env = \<lparr>env_pid = 7, env_nanos = (\<lambda>_. 11)\<rparr>"

text \<open>A store whose one object does not hash to its path.\<close>

definition damaged_store :: object_store where
  "damaged_store = store_new\<lparr>os_objects := [(digest_of_bytes [1, 2], Resident_File [9] True)]\<rparr>"

definition sample_regions :: "region list" where
  "sample_regions = [\<lparr>reg_offset = 0, reg_length = 2, reg_kind = RegionKind_Header\<rparr>,
     \<lparr>reg_offset = 2, reg_length = 1, reg_kind = RegionKind_Header\<rparr>]"

definition sample_pack :: "pack_object list" where
  "sample_pack = map (\<lambda>b. \<lparr>pko_digest = digest_of_bytes (replicate 32 b), pko_bytes = replicate 32 b\<rparr>) [2, 1]"

definition sample_temp :: "nat \<Rightarrow> int option \<Rightarrow> bool \<Rightarrow> temp_entry" where
  "sample_temp inode modified leased = Temp_File \<lparr>tf_bytes = [1], tf_modified = modified, tf_inode = inode,
     tf_leased = leased, tf_read_only = False\<rparr>"

text \<open>A leased temporary, an abandoned one from before the epoch, one too young to collect, and a file of another name.\<close>

definition sample_temps :: object_store where
  "sample_temps = store_new\<lparr>os_temps := [(''obj-1.tmp'', sample_temp 1 (Some 5) True),
     (''obj-2.tmp'', sample_temp 2 (Some (-7)) False), (''obj-3.tmp'', sample_temp 3 (Some 95) False),
     (''x'', sample_temp 4 (Some 5) False)]\<rparr>"

text \<open>A collector that runs alone, and one beside a process that takes the name of the abandoned temporary
  for a new one after the collector has opened the old one.\<close>

definition quiet_collector :: collector_env where
  "quiet_collector = \<lparr>ce_now = 100, ce_rival = (\<lambda>_ _ temps. temps), ce_reads = (\<lambda>_. True), ce_opens = (\<lambda>_. True),
     ce_unlinks = (\<lambda>_ _. True), ce_list_error = None, ce_sync_error = None\<rparr>"

definition recycling_collector :: collector_env where
  "recycling_collector = quiet_collector\<lparr>ce_rival := (\<lambda>moment path temps. case moment of
     Before_Lease \<Rightarrow> bt_insert ''obj-2.tmp'' (sample_temp 5 (Some 99) True) temps | _ \<Rightarrow> temps)\<rparr>"

lemma store_new_empty: "os_objects store_new = []" "os_temps store_new = []"
  by (simp_all add: store_new_def)

lemma store_new_ok: "store_ok sha256 store_new"
  by (simp add: store_ok_def store_wf_def store_new_def objects_sound_def bt_sorted_def)

lemma sample_pack_slices: "slices sample_pack"
  by (simp add: slices_def sample_pack_def)

lemma sample_pack_sorted: "sort_key object_key sample_pack = rev sample_pack"
  by (simp add: sample_pack_def digest_bytes_digest_of_bytes replicate_numeral)

lemma sample_pack_ok: "objects_ok digest_of_bytes (rev sample_pack)"
  by (simp add: objects_ok_def sample_pack_def digest_bytes_digest_of_bytes replicate_numeral)

lemma sample_pack_encodes:
  "\<exists>bs. pack_encode digest_of_bytes sample_pack = Inr bs \<and> length bs < 2 ^ 64"
proof -
  have "length (emit_pack (rev sample_pack)) < 2 ^ 64"
    by (simp add: emit_pack_def sample_pack_def length_emit_row TFP1_MAGIC_def bytes_eval)
  then show ?thesis
    using pack_encode_iff [OF sample_pack_slices, of digest_of_bytes] sample_pack_sorted sample_pack_ok by simp
qed

lemma sample_blob_plan:
  "plan_once sha256 sample_json (slice_source [1, 2, 3]) None = Inr \<lparr>plan_planner = PlannerId_BlobV1,
     plan_contract = Stamp_None, plan_file_size = 3,
     plan_regions = [\<lparr>reg_offset = 0, reg_length = 3, reg_kind = RegionKind_Blob\<rparr>]\<rparr>"
  by (simp add: plan_once_def validated_def blob_plan_valid slice_source_def) (simp add: blob_plan_def)

end
