(* ===== verification/Records.thy ===== *)
theory Records
  imports Store_Admission Tfm1_Types
begin

text \<open>
  The readers of a committed file: its ordered records over the object store as a byte source
  (\<open>workspace_source.rs\<close>) and as a stream into caller-owned memory, buffered or direct
  (\<open>stream.rs\<close>). Both return the concatenation of the record contents, holes as zeros; the direct
  mode, with its aligned blocks and its bounce buffer, agrees with the buffered one.
\<close>

section \<open>Segments\<close>

text \<open>The constructors of both readers: each record with the offset it starts at, and the total.\<close>

fun record_segments :: "u64 \<Rightarrow> file_record list \<Rightarrow> (u64 \<times> file_record) list \<times> u64" where
  "record_segments position [] = ([], position)"
| "record_segments position (r # rs) =
     (let (segments, len) = record_segments (position + record_length r) rs in
      ((position, r) # segments, len))"

definition splice :: "bytes \<Rightarrow> nat \<Rightarrow> bytes \<Rightarrow> bytes" where
  "splice destination i part = take i destination @ part @ drop (i + length part) destination"

text \<open>The loop over the segments of \<open>read_exact_at\<close>. \<open>fetch\<close> reads part of one object: digest, offset
  inside the object, index in the destination, count. A slice out of range is a panic.\<close>

fun read_segments :: "(digest \<Rightarrow> u64 \<Rightarrow> nat \<Rightarrow> nat \<Rightarrow> io_error + bytes) \<Rightarrow> u64 \<Rightarrow> u64 \<Rightarrow>
    (u64 \<times> file_record) list \<Rightarrow> bytes \<Rightarrow> io_error + bytes" where
  "read_segments fetch offset stop [] destination = Inr destination"
| "read_segments fetch offset stop ((start, r) # segments) destination =
     (let segment_end = start + record_length r in
      if segment_end \<le> offset then read_segments fetch offset stop segments destination
      else if stop \<le> start then Inr destination
      else
        let first = max offset start; last = min stop segment_end;
            i = unat (first - offset); j = unat (last - offset) in
        if j < i \<or> length destination < j then Inl ''slice index panic''
        else
          and_then (case r of
              FileRecord_Hole _ \<Rightarrow> Inr (replicate (j - i) 0)
            | FileRecord_Data d _ \<Rightarrow> fetch d (first - start) i (j - i))
            (\<lambda>part. read_segments fetch offset stop segments (splice destination i part)))"

definition read_run :: "(digest \<Rightarrow> u64 \<Rightarrow> nat \<Rightarrow> nat \<Rightarrow> io_error + bytes) \<Rightarrow> file_record list \<Rightarrow>
    u64 \<Rightarrow> bytes \<Rightarrow> io_error + bytes" where
  "read_run fetch records offset destination =
     (let (segments, len) = record_segments 0 records in
      case checked_add offset (of_nat (length destination)) of
        None \<Rightarrow> Inl ''range overflow''
      | Some stop \<Rightarrow>
          if len < stop then Inl ''range exceeds the committed length''
          else read_segments fetch offset stop segments destination)"


section \<open>Records as a byte source\<close>

text \<open>Seek and \<open>read_exact\<close> on an open object.\<close>

definition object_read :: "bytes \<Rightarrow> u64 \<Rightarrow> nat \<Rightarrow> io_error + bytes" where
  "object_read bs within n =
     (if n = 0 \<or> unat within + n \<le> length bs then Inr (take n (drop (unat within) bs))
      else Inl ''unexpected eof'')"

definition read_object :: "object_store \<Rightarrow> digest \<Rightarrow> u64 \<Rightarrow> nat \<Rightarrow> io_error + bytes" where
  "read_object st d within n =
     and_then (map_err (\<lambda>_. ''other'') (open_object d st)) (\<lambda>bs. object_read bs within n)"

definition records_source :: "object_store \<Rightarrow> file_record list \<Rightarrow> byte_source" where
  "records_source st records =
     \<lparr>src_len = snd (record_segments 0 records),
      src_read = (\<lambda>offset n. read_run (\<lambda>d within at n. read_object st d within n) records offset (replicate n 0)),
      src_check = (\<lambda>_. Inr ())\<rparr>"


section \<open>The stream reader\<close>

definition DIRECT_ALIGNMENT :: nat where
  "DIRECT_ALIGNMENT = 4096"

definition BOUNCE_BYTES :: nat where
  "BOUNCE_BYTES = 8388608"

datatype read_mode = ReadMode_Buffered | ReadMode_Direct

text \<open>\<open>read_at\<close> of the kernel: at the end of the file nothing, otherwise at least one byte and at most
  what was asked for. How short it is, is up to \<open>reads\<close>.\<close>

definition kernel_read :: "(nat \<Rightarrow> nat \<Rightarrow> nat) \<Rightarrow> bytes \<Rightarrow> nat \<Rightarrow> nat \<Rightarrow> bytes" where
  "kernel_read reads file offset want =
     (let available = min want (length file - offset) in
      take (if available = 0 then 0 else max 1 (min available (reads offset available))) (drop offset file))"

function read_up_to_at :: "(nat \<Rightarrow> nat \<Rightarrow> nat) \<Rightarrow> bytes \<Rightarrow> nat \<Rightarrow> nat \<Rightarrow> bytes \<Rightarrow> bytes" where
  "read_up_to_at reads file offset want filled =
     (if length filled < want then
        let part = kernel_read reads file (offset + length filled) (want - length filled) in
        if part = [] then filled else read_up_to_at reads file offset want (filled @ part)
      else filled)"
  by pat_completeness auto
termination
  by (relation "measure (\<lambda>(reads, file, offset, want, filled). want - length filled)") (auto simp: neq_Nil_conv)

declare read_up_to_at.simps [simp del]

definition read_full_at :: "(nat \<Rightarrow> nat \<Rightarrow> nat) \<Rightarrow> bytes \<Rightarrow> nat \<Rightarrow> nat \<Rightarrow> io_error + bytes" where
  "read_full_at reads file offset want =
     (let got = read_up_to_at reads file offset want [] in
      if length got < want then Inl ''unexpected eof'' else Inr got)"

definition next_multiple_of :: "nat \<Rightarrow> nat \<Rightarrow> nat" where
  "next_multiple_of n a = (if n mod a = 0 then n else n + (a - n mod a))"

text \<open>The bounce loop of \<open>direct_read\<close>.\<close>

function bounce_loop :: "(nat \<Rightarrow> nat \<Rightarrow> nat) \<Rightarrow> bytes \<Rightarrow> nat \<Rightarrow> nat \<Rightarrow> bytes \<Rightarrow> io_error + bytes" where
  "bounce_loop reads file cursor len written =
     (if length written < len then
        let start = cursor - cursor mod DIRECT_ALIGNMENT; skip = cursor - start;
            want = min (len - length written) (BOUNCE_BYTES - skip); need = skip + want;
            read_len = min (next_multiple_of need DIRECT_ALIGNMENT) BOUNCE_BYTES;
            got = read_up_to_at reads file start read_len [] in
        if length got < need then Inl ''unexpected eof''
        else bounce_loop reads file (cursor + want) len (written @ take want (drop skip got))
      else Inr written)"
  by pat_completeness auto

lemma bounce_skip: "cursor - (cursor - cursor mod 4096) = cursor mod (4096::nat)"
  by (simp add: diff_diff_cancel del: minus_mod_eq_mult_div)

termination bounce_loop
proof (relation "measure (\<lambda>(reads, data, cursor, len, written). len - length written)")
  fix reads data cursor len start skip want need read_len and got written :: bytes
  assume "length written < len" "start = cursor - cursor mod DIRECT_ALIGNMENT" "skip = cursor - start"
    "want = min (len - length written) (BOUNCE_BYTES - skip)" "need = skip + want"
    and got: "\<not> length got < need"
  then have "skip < 4096" and "0 < want"
    by (auto simp: DIRECT_ALIGNMENT_def BOUNCE_BYTES_def bounce_skip intro: less_le_trans [OF mod_less_divisor])
  moreover have "length (take want (drop skip got)) = want" using got \<open>need = skip + want\<close> by simp
  ultimately show "((reads, data, cursor + want, len, written @ take want (drop skip got)),
      (reads, data, cursor, len, written)) \<in> measure (\<lambda>(reads, data, cursor, len, written). len - length written)"
    using \<open>length written < len\<close> by simp
qed simp

declare bounce_loop.simps [simp del]

text \<open>\<open>direct_read\<close> into a destination at address \<open>addr\<close>.\<close>

definition direct_read :: "(nat \<Rightarrow> nat \<Rightarrow> nat) \<Rightarrow> object_store \<Rightarrow> digest \<Rightarrow> u64 \<Rightarrow> nat \<Rightarrow> nat \<Rightarrow> io_error + bytes" where
  "direct_read reads st d within addr n =
     and_then (map_err (\<lambda>_. ''other'') (open_object d st)) (\<lambda>file.
       if unat within mod DIRECT_ALIGNMENT = 0 \<and> addr mod DIRECT_ALIGNMENT = 0 then
         let body = n - n mod DIRECT_ALIGNMENT; tail = n - body in
         and_then (read_full_at reads file (unat within) body) (\<lambda>head.
           if 0 < tail then
             let got = read_up_to_at reads file (unat within + body) DIRECT_ALIGNMENT [] in
             if length got < tail then Inl ''unexpected eof'' else Inr (head @ take tail got)
           else Inr head)
       else bounce_loop reads file (unat within) n [])"

definition stream_read :: "(nat \<Rightarrow> nat \<Rightarrow> nat) \<Rightarrow> object_store \<Rightarrow> read_mode \<Rightarrow> file_record list \<Rightarrow> nat \<Rightarrow> u64 \<Rightarrow>
    bytes \<Rightarrow> io_error + bytes" where
  "stream_read reads st mode records addr offset destination =
     read_run (\<lambda>d within i n. case mode of
         ReadMode_Buffered \<Rightarrow> read_object st d within n
       | ReadMode_Direct \<Rightarrow> direct_read reads st d within (addr + i) n) records offset destination"


section \<open>Direct reads are buffered reads\<close>

lemma kernel_read_part:
  obtains n where "kernel_read reads data offset want = take n (drop offset data)" "n \<le> want"
    "n = 0 \<longrightarrow> want = 0 \<or> length data \<le> offset"
proof
  let ?n = "let available = min want (length data - offset) in
    if available = 0 then 0 else max 1 (min available (reads offset available))"
  show "kernel_read reads data offset want = take ?n (drop offset data)" by (simp add: kernel_read_def Let_def)
  show "?n \<le> want" by (auto simp: Let_def min_def max_def)
  show "?n = 0 \<longrightarrow> want = 0 \<or> length data \<le> offset" by (auto simp: Let_def split: if_splits)
qed

lemma read_up_to_at_take:
  "filled = take k (drop offset data) \<Longrightarrow> k \<le> want \<Longrightarrow>
   read_up_to_at reads data offset want filled = take want (drop offset data)"
proof (induction reads data offset want filled arbitrary: k rule: read_up_to_at.induct)
  case (1 reads data offset want filled)
  let ?part = "kernel_read reads data (offset + length filled) (want - length filled)"
  obtain n where n: "?part = take n (drop (offset + length filled) data)" "n \<le> want - length filled"
    "n = 0 \<longrightarrow> want - length filled = 0 \<or> length data \<le> offset + length filled" by (rule kernel_read_part)
  show ?case
  proof (cases "length filled < want \<and> ?part \<noteq> []")
    case True
    have "length filled + n \<le> want" using n(2) True by linarith
    have len: "length filled = min k (length data - offset)" using "1.prems" by simp
    have "filled @ ?part = take (length filled + n) (drop offset data)"
    proof -
      have "filled = take (length filled) (drop offset data)" using "1.prems"(1) by (simp add: min_def)
      then show ?thesis unfolding n(1) by (metis take_add drop_drop add.commute)
    qed
    from "1.IH" [OF _ refl _ this \<open>length filled + n \<le> want\<close>] True show ?thesis
      by (subst read_up_to_at.simps) (simp add: Let_def)
  next
    case False
    have "take want (drop offset data) = filled"
    proof (cases "length filled < want")
      case True
      with False have "n = 0 \<or> length data \<le> offset + length filled" using n(1) by auto
      then have "length data \<le> offset + length filled" using n(3) True by auto
      then show ?thesis using "1.prems" by (auto simp: min_def split: if_splits)
    next
      case False
      with "1.prems" show ?thesis by (auto simp: min_def split: if_splits)
    qed
    with False show ?thesis by (subst read_up_to_at.simps) (auto simp: Let_def)
  qed
qed

lemma read_up_to_at_eq: "read_up_to_at reads data offset want [] = take want (drop offset data)"
  by (rule read_up_to_at_take [of _ 0]) simp_all

lemma next_multiple_of_ge: "n \<le> next_multiple_of n a"
  unfolding next_multiple_of_def by (cases "n mod a = 0") (simp_all only: if_True if_False le_add1 order_refl simp_thms)

lemma bounce_loop_eq:
  "length written \<le> len \<Longrightarrow>
   bounce_loop reads data cursor len written =
     (if length written = len \<or> cursor + (len - length written) \<le> length data
      then Inr (written @ take (len - length written) (drop cursor data)) else Inl ''unexpected eof'')"
proof (induction reads data cursor len written rule: bounce_loop.induct)
  case (1 reads data cursor len written)
  define start where "start = cursor - cursor mod DIRECT_ALIGNMENT"
  define skip where "skip = cursor - start"
  define want where "want = min (len - length written) (BOUNCE_BYTES - skip)"
  define read_len where "read_len = min (next_multiple_of (skip + want) DIRECT_ALIGNMENT) BOUNCE_BYTES"
  define got where "got = read_up_to_at reads data start read_len []"
  have sk: "skip = cursor mod 4096" by (simp add: skip_def start_def DIRECT_ALIGNMENT_def bounce_skip)
  then have le: "skip \<le> cursor" "skip < 4096" "start = cursor - skip"
    by (simp_all add: start_def DIRECT_ALIGNMENT_def)
  have bound: "want \<le> len - length written" "skip + want \<le> 8388608"
    using le by (simp_all add: want_def BOUNCE_BYTES_def)
  have rl: "skip + want \<le> read_len"
    using next_multiple_of_ge [of "skip + want" 4096] bound(2)
    by (simp add: read_len_def BOUNCE_BYTES_def DIRECT_ALIGNMENT_def)
  have got: "got = take read_len (drop start data)" by (simp add: got_def read_up_to_at_eq)
  show ?case
  proof (cases "length written < len")
    case True
    have pos: "0 < want" using True le by (simp add: want_def BOUNCE_BYTES_def)
    have step: "bounce_loop reads data cursor len written =
        (if length got < skip + want then Inl ''unexpected eof''
         else bounce_loop reads data (cursor + want) len (written @ take want (drop skip got)))"
      by (subst bounce_loop.simps)
        (simp only: True if_True Let_def start_def skip_def want_def read_len_def got_def)
    show ?thesis
    proof (cases "length got < skip + want")
      case False
      then have len: "cursor + want \<le> length data" using le pos unfolding got by simp
      have part: "take want (drop skip got) = take want (drop cursor data)"
        using rl le unfolding got by (simp add: drop_take min_def)
      have n: "length (written @ take want (drop cursor data)) = length written + want" using len by simp
      have "length (written @ take want (drop cursor data)) \<le> len" using bound(1) True n by linarith
      from "1.IH" [OF True start_def skip_def want_def refl read_len_def got_def False, unfolded part, OF this]
      have IH: "bounce_loop reads data (cursor + want) len (written @ take want (drop cursor data)) =
        (if length written + want = len \<or> cursor + want + (len - (length written + want)) \<le> length data
         then Inr ((written @ take want (drop cursor data)) @
           take (len - (length written + want)) (drop (cursor + want) data))
         else Inl ''unexpected eof'')"
        unfolding n .
      have "take (want + (len - (length written + want))) (drop cursor data) =
          take want (drop cursor data) @ take (len - (length written + want)) (drop want (drop cursor data))"
        by (rule take_add)
      moreover have "want + (len - (length written + want)) = len - length written" using bound(1) True by linarith
      moreover have "drop want (drop cursor data) = drop (cursor + want) data" by (simp add: add.commute)
      ultimately have split: "take (len - length written) (drop cursor data) =
          take want (drop cursor data) @ take (len - (length written + want)) (drop (cursor + want) data)"
        by simp
      have cond: "length written + want = len \<or> cursor + want + (len - (length written + want)) \<le> length data \<longleftrightarrow>
          length written = len \<or> cursor + (len - length written) \<le> length data"
        using bound(1) True len by linarith
      show ?thesis unfolding step part IH split using False cond by simp
    next
      case short: True
      then have "length data < cursor + want" using rl le pos unfolding got by auto
      then show ?thesis unfolding step using short True bound(1) by simp
    qed
  next
    case False
    with 1 show ?thesis by (subst bounce_loop.simps) simp
  qed
qed

lemma fast_path_eq:
  assumes "body = n - n mod DIRECT_ALIGNMENT"
  shows "and_then (read_full_at reads data w body) (\<lambda>head.
      if 0 < n - body then
        let got = read_up_to_at reads data (w + body) DIRECT_ALIGNMENT [] in
        if length got < n - body then Inl ''unexpected eof'' else Inr (head @ take (n - body) got)
      else Inr head) =
    (if n = 0 \<or> w + n \<le> length data then Inr (take n (drop w data)) else Inl ''unexpected eof'')"
proof -
  have b: "body \<le> n" "n - body = n mod 4096" "n mod 4096 < 4096"
    using assms by (simp_all add: DIRECT_ALIGNMENT_def)
  have join: "take body (drop w data) @ take (n - body) (drop (w + body) data) = take n (drop w data)"
    using take_add [of body "n - body" "drop w data"] b(1) by (simp add: add.commute)
  show ?thesis
  proof (cases "n = 0 \<or> w + n \<le> length data")
    case True
    then have "body \<le> length data - w" "n - body \<le> length data - (w + body)" using b(1) by auto
    then show ?thesis using True b join
      by (cases "n = body") (auto simp: read_full_at_def read_up_to_at_eq DIRECT_ALIGNMENT_def Let_def)
  next
    case False
    then have "length data - w < body \<or> length data - (w + body) < n - body" using b(1) by linarith
    then show ?thesis using False b
      by (cases "n = body") (auto simp: read_full_at_def read_up_to_at_eq DIRECT_ALIGNMENT_def Let_def)
  qed
qed

lemma direct_read_is_buffered: "direct_read reads st d within addr n = read_object st d within n"
proof (cases "open_object d st")
  case (Inr data)
  have "bounce_loop reads data (unat within) n [] = object_read data within n"
    using bounce_loop_eq [of "[]" n reads data "unat within"] by (auto simp: object_read_def)
  moreover note fast_path_eq [OF refl, of reads data "unat within" n, unfolded Let_def, folded object_read_def]
  ultimately show ?thesis
    by (simp only: direct_read_def read_object_def Inr map_err_simps and_then_simps Let_def if_cancel)
qed (simp add: direct_read_def read_object_def)


section \<open>Reading records is reading their content\<close>

definition record_size :: "file_record \<Rightarrow> nat" where
  "record_size r = unat (record_length r)"

definition record_content :: "object_store \<Rightarrow> file_record \<Rightarrow> bytes" where
  "record_content st r =
     (case r of
        FileRecord_Hole len \<Rightarrow> replicate (unat len) 0
      | FileRecord_Data d len \<Rightarrow>
          (case open_object d st of Inr bs \<Rightarrow> take (unat len) bs | Inl _ \<Rightarrow> []))"

definition records_content :: "object_store \<Rightarrow> file_record list \<Rightarrow> bytes" where
  "records_content st records = concat (map (record_content st) records)"

definition record_resident :: "object_store \<Rightarrow> file_record \<Rightarrow> bool" where
  "record_resident st r =
     (case r of
        FileRecord_Hole len \<Rightarrow> True
      | FileRecord_Data d len \<Rightarrow> (case open_object d st of Inr bs \<Rightarrow> unat len \<le> length bs | Inl _ \<Rightarrow> False))"

definition records_readable :: "object_store \<Rightarrow> file_record list \<Rightarrow> bool" where
  "records_readable st records \<longleftrightarrow>
     list_all (record_resident st) records \<and> sum_list (map record_size records) < 2 ^ 64"

lemma length_record_content: "record_resident st r \<Longrightarrow> length (record_content st r) = record_size r"
  by (auto simp: record_resident_def record_content_def record_size_def split: file_record.splits sum.splits)

lemma length_records_content:
  "list_all (record_resident st) rs \<Longrightarrow> length (records_content st rs) = sum_list (map record_size rs)"
  by (induction rs) (simp_all add: records_content_def length_record_content)

lemma record_segments_length:
  "unat position + sum_list (map record_size rs) < 2 ^ 64 \<Longrightarrow>
   unat (snd (record_segments position rs)) = unat position + sum_list (map record_size rs)"
proof (induction rs arbitrary: position)
  case (Cons r rs)
  have "unat (position + record_length r) = unat position + record_size r"
    using Cons.prems by (simp add: record_size_def unat_add_u64)
  with Cons.IH [of "position + record_length r"] Cons.prems show ?case
    by (simp add: Let_def case_prod_beta)
qed simp

text \<open>The part of a list between two positions, as the loop assembles it.\<close>

lemma skip_head:
  "p + length c0 \<le> off \<Longrightarrow> drop (off - (p + length c0)) c1 = drop (off - p) (c0 @ c1)"
  by (simp add: diff_diff_left add.commute)

lemma splice_head:
  assumes "k = p - off" "off < p + length c0" "p < e" "e = off + length destination"
    and "part = take (min e (p + length c0) - max off p) (drop (max off p - p) c0)"
  shows "take (p + length c0 - off) (splice destination k part) @ take (e - (p + length c0)) c1 =
    take k destination @ take (e - (off + k)) (drop (off + k - p) (c0 @ c1))"
proof -
  have m: "max off p = off + k" using assms(1) by simp
  have k: "k \<le> length destination" using assms(1-4) by auto
  show ?thesis
  proof (cases "p + length c0 \<le> e")
    case True
    then have part: "part = drop (off + k - p) c0" using assms(2,5) m by (simp add: min_def)
    have lp: "length part = p + length c0 - (off + k)" using assms(1,2) part by auto
    then have "k + length part = p + length c0 - off" using assms(1,2) by linarith
    then have "take (p + length c0 - off) (splice destination k part) = take k destination @ part"
      using k by (simp add: splice_def flip: append_assoc)
    moreover have "take (e - (off + k)) (drop (off + k - p) (c0 @ c1)) = part @ take (e - (p + length c0)) c1"
      using True assms(1,2,3) lp by (simp add: part diff_diff_left)
    ultimately show ?thesis by simp
  next
    case False
    then have part: "part = take (e - (off + k)) (drop (off + k - p) c0)" using assms(5) m by (simp add: min_def)
    have lp: "length part = e - (off + k)" using False assms(1,2,3) part by auto
    then have "k + length part = length destination" using k assms(4) by linarith
    then have "splice destination k part = take k destination @ part" by (simp add: splice_def)
    moreover have "length (take k destination @ part) \<le> p + length c0 - off"
      using lp k False assms(4) by simp
    ultimately have "take (p + length c0 - off) (splice destination k part) = take k destination @ part"
      by (simp only: take_all)
    moreover have "take (e - (off + k)) (drop (off + k - p) (c0 @ c1)) = part"
      using False assms(1,2) by (simp add: part)
    ultimately show ?thesis using False by simp
  qed
qed

lemma read_segments_content:
  assumes "\<And>d len bs within i n. FileRecord_Data d len \<in> set records \<Longrightarrow> open_object d st = Inr bs \<Longrightarrow>
      unat within + n \<le> length bs \<Longrightarrow> fetch d within i n = Inr (take n (drop (unat within) bs))"
    and "list_all (record_resident st) records"
    and "unat position + sum_list (map record_size records) < 2 ^ 64"
    and "unat stop = unat offset + length destination" "unat stop \<le> unat position + sum_list (map record_size records)"
  shows "read_segments fetch offset stop (fst (record_segments position records)) destination =
    Inr (let k = unat position - unat offset in take k destination @
      take (unat stop - (unat offset + k)) (drop (unat offset + k - unat position) (records_content st records)))"
  using assms
proof (induction records arbitrary: position destination)
  case Nil
  then show ?case by (simp add: records_content_def Let_def)
next
  case (Cons r records)
  let ?p = "unat position" and ?off = "unat offset" and ?e = "unat stop" and ?c0 = "record_content st r"
  have l: "length ?c0 = record_size r" using Cons.prems(2) by (simp add: length_record_content)
  have nxt: "unat (position + record_length r) = ?p + length ?c0"
    using Cons.prems(3) l by (simp add: record_size_def unat_add_u64)
  have IH: "read_segments fetch offset stop (fst (record_segments (position + record_length r) records)) dst =
    Inr (let k = ?p + length ?c0 - ?off in take k dst @
      take (?e - (?off + k)) (drop (?off + k - (?p + length ?c0)) (records_content st records)))"
    if "length dst = length destination" for dst
  proof -
    have f: "fetch d within i n = Inr (take n (drop (unat within) bs))"
      if "FileRecord_Data d len \<in> set records" "open_object d st = Inr bs" "unat within + n \<le> length bs"
      for d len bs within i n
      using Cons.prems(1) [of d len bs within n i] that by simp
    show ?thesis
      using Cons.IH [OF f, where position = "position + record_length r" and destination = dst]
        Cons.prems(2-) that nxt l by simp
  qed
  have cc: "records_content st (r # records) = ?c0 @ records_content st records" by (simp add: records_content_def)
  have segs: "fst (record_segments position (r # records)) =
      (position, r) # fst (record_segments (position + record_length r) records)"
    by (simp add: Let_def case_prod_beta)
  consider "?p + length ?c0 \<le> ?off" | "?off < ?p + length ?c0" "?e \<le> ?p" | "?off < ?p + length ?c0" "?p < ?e"
    by linarith
  then show ?case
  proof cases
    case 1
    then have z: "?p - ?off = 0" "?p + length ?c0 - ?off = 0" by simp_all
    have "position + record_length r \<le> offset" using 1 nxt by (simp add: u64_nat)
    then have "read_segments fetch offset stop (fst (record_segments position (r # records))) destination =
        read_segments fetch offset stop (fst (record_segments (position + record_length r) records)) destination"
      unfolding segs by (simp add: Let_def)
    then show ?thesis unfolding IH [OF refl] Let_def z cc
      by (simp only: add_0_right skip_head [OF 1])
  next
    case 2
    then show ?thesis unfolding segs using nxt Cons.prems(4) by (simp add: u64_nat Let_def)
  next
    case 3
    define first where "first = max offset position"
    define last where "last = min stop (position + record_length r)"
    define k where "k = ?p - ?off"
    define part where "part = take (unat last - unat first) (drop (unat first - ?p) ?c0)"
    have un: "unat first = max ?off ?p" "unat last = min ?e (?p + length ?c0)"
      using nxt by (simp_all add: first_def last_def max_def min_def u64_nat)
    have ij: "unat (first - offset) = k" "unat (last - offset) = unat last - ?off" "unat (first - position) = unat first - ?p"
      using un 3 Cons.prems(4) by (simp_all add: k_def unat_sub_u64 u64_nat)
    have n: "unat last - ?off - k = unat last - unat first" using un by (simp add: k_def)
    have le: "\<not> unat last - ?off < k" "\<not> length destination < unat last - ?off"
      using un 3 Cons.prems(4) by (auto simp: k_def)
    have lp: "length part = unat last - unat first" using un 3 by (simp add: part_def)
    have got: "(case r of FileRecord_Hole _ \<Rightarrow> Inr (replicate (unat last - unat first) 0)
        | FileRecord_Data d _ \<Rightarrow> fetch d (first - position) k (unat last - unat first)) = Inr part"
    proof (cases r)
      case (FileRecord_Data d len)
      then obtain bs where bs: "open_object d st = Inr bs" "unat len \<le> length bs"
        using Cons.prems(2) by (auto simp: record_resident_def split: sum.splits)
      have "?c0 = take (unat len) bs" using FileRecord_Data bs by (simp add: record_content_def)
      moreover have "fetch d (first - position) k (unat last - unat first) =
          Inr (take (unat last - unat first) (drop (unat first - ?p) bs))"
      proof -
        have "unat first - ?p + (unat last - unat first) \<le> length bs"
          using un 3 bs(2) l FileRecord_Data by (auto simp: record_size_def max_def min_def)
        then show ?thesis
          using Cons.prems(1) [of d len bs "first - position" "unat last - unat first" k] FileRecord_Data bs(1)
          by (simp add: ij(3))
      qed
      ultimately show ?thesis using FileRecord_Data un l lp by (auto simp: part_def drop_take record_size_def)
    next
      case (FileRecord_Hole len)
      then show ?thesis using un l by (auto simp: part_def record_content_def record_size_def)
    qed
    have "read_segments fetch offset stop (fst (record_segments position (r # records))) destination =
        read_segments fetch offset stop (fst (record_segments (position + record_length r) records))
          (splice destination k part)"
      unfolding segs using 3 nxt got le n
      by (simp add: u64_nat Let_def ij cong: file_record.case_cong flip: first_def last_def)
    moreover have "length (splice destination k part) = length destination"
      using le lp n by (simp add: splice_def)
    moreover have "take (?p + length ?c0 - ?off) (splice destination k part) @
        take (?e - (?p + length ?c0)) (records_content st records) =
      take k destination @ take (?e - (?off + k)) (drop (?off + k - ?p) (?c0 @ records_content st records))"
      using splice_head [OF k_def 3 Cons.prems(4)] un by (simp add: part_def)
    ultimately show ?thesis using IH [of "splice destination k part"] 3 by (simp add: cc Let_def k_def)
  qed
qed

lemma read_run_content:
  assumes "\<And>d len bs within i n. FileRecord_Data d len \<in> set records \<Longrightarrow> open_object d st = Inr bs \<Longrightarrow>
      unat within + n \<le> length bs \<Longrightarrow> fetch d within i n = Inr (take n (drop (unat within) bs))"
    and "records_readable st records" "length destination < 2 ^ 64"
  shows "read_run fetch records offset destination =
    (if 2 ^ 64 \<le> unat offset + length destination then Inl ''range overflow''
     else if length (records_content st records) < unat offset + length destination
     then Inl ''range exceeds the committed length''
     else Inr (take (length destination) (drop (unat offset) (records_content st records))))"
proof -
  let ?n = "length destination" and ?len = "snd (record_segments 0 records)"
  have ok: "list_all (record_resident st) records" "sum_list (map record_size records) < 2 ^ 64"
    using assms(2) by (simp_all add: records_readable_def)
  have len: "unat ?len = length (records_content st records)"
    using record_segments_length [of 0 records] ok by (simp add: length_records_content)
  show ?thesis
  proof (cases "2 ^ 64 \<le> unat offset + ?n")
    case True
    then show ?thesis using assms(3) by (simp add: read_run_def case_prod_beta checked_add_def)
  next
    case False
    define stop where "stop = offset + of_nat ?n"
    have stop: "unat stop = unat offset + ?n" using False assms(3) by (simp add: stop_def unat_add_u64)
    have eq: "read_run fetch records offset destination =
        (if ?len < stop then Inl ''range exceeds the committed length''
         else read_segments fetch offset stop (fst (record_segments 0 records)) destination)"
      using False assms(3) by (simp add: read_run_def case_prod_beta checked_add_def stop_def)
    show ?thesis
    proof (cases "?len < stop")
      case True
      with eq False stop len show ?thesis by (simp add: u64_nat)
    next
      case le: False
      have "read_segments fetch offset stop (fst (record_segments 0 records)) destination =
          Inr (take ?n (drop (unat offset) (records_content st records)))"
        using read_segments_content [of records st fetch 0 stop offset destination] assms(1) ok stop le len
        by (simp add: u64_nat length_records_content)
      with eq False le stop len show ?thesis by (simp add: u64_nat)
    qed
  qed
qed

lemma read_object_exact:
  "open_object d st = Inr bs \<Longrightarrow> unat within + n \<le> length bs \<Longrightarrow>
   read_object st d within n = Inr (take n (drop (unat within) bs))"
  by (simp add: read_object_def object_read_def)

interpretation committed: file_view "\<lambda>(st, records). records_source st records"
  "\<lambda>(st, records). records_content st records" "\<lambda>(st, records). records_readable st records"
proof
  fix x :: "object_store \<times> file_record list" and offset :: u64 and n :: nat
  obtain st records where x: "x = (st, records)" by (cases x)
  assume "case x of (st, records) \<Rightarrow> records_readable st records"
  then have ok: "records_readable st records" by (simp add: x)
  then have res: "list_all (record_resident st) records" "sum_list (map record_size records) < 2 ^ 64"
    by (simp_all add: records_readable_def)
  then show short: "length (case x of (st, records) \<Rightarrow> records_content st records) < 2 ^ 64"
    by (simp add: x length_records_content)
  show "src_len (case x of (st, records) \<Rightarrow> records_source st records) =
      of_nat (length (case x of (st, records) \<Rightarrow> records_content st records))"
    using record_segments_length [of 0 records] res
    by (simp add: x records_source_def length_records_content word_unat_eq_iff)
  assume "unat offset + n \<le> length (case x of (st, records) \<Rightarrow> records_content st records)"
  then show "src_read (case x of (st, records) \<Rightarrow> records_source st records) offset n =
      Inr (take n (drop (unat offset) (case x of (st, records) \<Rightarrow> records_content st records)))"
    using read_run_content [OF read_object_exact ok, where destination = "replicate n 0" and offset = offset] short
    by (simp add: x records_source_def)
qed

lemma stream_read_content:
  assumes "records_readable st records" "length destination < 2 ^ 64"
  shows "stream_read reads st mode records addr offset destination =
    (if 2 ^ 64 \<le> unat offset + length destination then Inl ''range overflow''
     else if length (records_content st records) < unat offset + length destination
     then Inl ''range exceeds the committed length''
     else Inr (take (length destination) (drop (unat offset) (records_content st records))))"
  unfolding stream_read_def
  by (rule read_run_content [OF _ assms]) (auto simp: direct_read_is_buffered read_object_exact split: read_mode.split)

end
