(* ===== verification/Workspace_Db.thy ===== *)
theory Workspace_Db
  imports Records Tfm1_Builder "HOL-Library.Product_Lexorder"
begin

text \<open>
  The metadata of the workspaces (\<open>workspace.rs\<close>): the tables of the database as ordered maps, with
  the key, foreign-key and cascade rules of the schema, path resolution, and the mutations of a tree.
  A statement that violates a constraint is the error \<open>WorkspaceError_Db\<close>; an \<open>expect\<close> that fails is
  \<open>WorkspaceError_Panic\<close>. An error aborts the transaction, so the operations return the new tables
  only on success.
\<close>

section \<open>Tables\<close>

type_synonym rowid = int

datatype inode_kind = KIND_DIRECTORY | KIND_FILE | KIND_SYMLINK

datatype lease_kind = LeaseKind_Unlinked | LeaseKind_PendingSync

record workspace_row =
  wr_id :: rowid
  wr_head_generation :: u64
  wr_root_inode :: rowid

record inode_row =
  in_workspace :: rowid
  in_kind :: inode_kind
  in_executable :: bool
  in_planner :: "int option"
  in_contract :: "str option"
  in_symlink_target :: "str option"

record lease_row =
  le_kind :: lease_kind
  le_holder :: str
  le_workspace :: "rowid option"
  le_inode :: "rowid option"

text \<open>\<open>object_maps\<close> holds the records of an inode in ordinal order; an inode without rows has none.\<close>

record metadata =
  md_workspaces :: "(str \<times> workspace_row) list"
  md_inodes :: "(rowid \<times> inode_row) list"
  md_dirents :: "((rowid \<times> str) \<times> rowid) list"
  md_object_maps :: "(rowid \<times> file_record list) list"
  md_snapshots :: "(snapshot_id \<times> u64) list"
  md_leases :: "(rowid \<times> lease_row) list"
  md_lease_objects :: "(rowid \<times> digest) list"
  md_epoch :: int
  md_quarantine :: "(digest \<times> int) list"

definition metadata_new :: metadata where
  "metadata_new = \<lparr>md_workspaces = [], md_inodes = [], md_dirents = [], md_object_maps = [],
     md_snapshots = [], md_leases = [], md_lease_objects = [], md_epoch = 0, md_quarantine = []\<rparr>"

datatype mutation =
    Mutation_Mkdir str
  | Mutation_CreateFile str bool planner_id "file_record list"
  | Mutation_SetRecords str "file_record list"
  | Mutation_Truncate str u64
  | Mutation_Rename str str
  | Mutation_Unlink str
  | Mutation_Rmdir str
  | Mutation_Symlink str str
  | Mutation_Hardlink str str
  | Mutation_SetExecutable str bool

datatype workspace_error =
    WorkspaceError_Db
  | WorkspaceError_Panic
  | WorkspaceError_Store store_error
  | WorkspaceError_Tfm1 tfm1_error
  | WorkspaceError_UnknownWorkspace str
  | WorkspaceError_WorkspaceExists str
  | WorkspaceError_Missing str
  | WorkspaceError_Exists str
  | WorkspaceError_NotADirectory str
  | WorkspaceError_NotAFile str
  | WorkspaceError_NotEmpty str
  | WorkspaceError_CaseFoldCollision str
  | WorkspaceError_MidRecordTruncate str u64
  | WorkspaceError_MissingObject digest
  | WorkspaceError_UnknownSnapshot snapshot_id
  | WorkspaceError_SnapshotCorrupt
  | WorkspaceError_UnknownLease rowid
  | WorkspaceError_RenameIntoSelf str
  | WorkspaceError_Plan plan_error
  | WorkspaceError_SealContention

text \<open>The row id that SQLite assigns to a row of a table whose key is declared \<open>INTEGER PRIMARY KEY\<close> without
  \<open>AUTOINCREMENT\<close>: by its documented rule, one more than the largest key in the table. So the key of a deleted
  row is assigned again when it was the largest.\<close>

definition next_rowid :: "rowid list \<Rightarrow> rowid" where
  "next_rowid ids = fold max ids 0 + 1"

definition workspace_exists :: "metadata \<Rightarrow> rowid \<Rightarrow> bool" where
  "workspace_exists db w = list_ex (\<lambda>(name, row). wr_id row = w) (md_workspaces db)"

definition inode_exists :: "metadata \<Rightarrow> rowid \<Rightarrow> bool" where
  "inode_exists db i = (map_of (md_inodes db) i \<noteq> None)"

definition insert_inode :: "inode_row \<Rightarrow> metadata \<Rightarrow> workspace_error + rowid \<times> metadata" where
  "insert_inode row db =
     (if \<not> workspace_exists db (in_workspace row) then Inl WorkspaceError_Db
      else let i = next_rowid (map fst (md_inodes db)) in
        Inr (i, db\<lparr>md_inodes := bt_insert i row (md_inodes db)\<rparr>))"

definition insert_dirent :: "rowid \<Rightarrow> str \<Rightarrow> rowid \<Rightarrow> metadata \<Rightarrow> workspace_error + metadata" where
  "insert_dirent parent name child db =
     (if \<not> inode_exists db parent \<or> \<not> inode_exists db child \<or> map_of (md_dirents db) (parent, name) \<noteq> None
      then Inl WorkspaceError_Db
      else Inr (db\<lparr>md_dirents := bt_insert (parent, name) child (md_dirents db)\<rparr>))"

definition delete_dirent :: "rowid \<Rightarrow> str \<Rightarrow> metadata \<Rightarrow> metadata" where
  "delete_dirent parent name db = db\<lparr>md_dirents := bt_remove (parent, name) (md_dirents db)\<rparr>"

definition insert_records :: "rowid \<Rightarrow> file_record list \<Rightarrow> metadata \<Rightarrow> workspace_error + metadata" where
  "insert_records i records db =
     (if records = [] then Inr (db\<lparr>md_object_maps := bt_remove i (md_object_maps db)\<rparr>)
      else if \<not> inode_exists db i then Inl WorkspaceError_Db
      else Inr (db\<lparr>md_object_maps := bt_insert i records (md_object_maps db)\<rparr>))"

definition read_records :: "metadata \<Rightarrow> rowid \<Rightarrow> file_record list" where
  "read_records db i = (case map_of (md_object_maps db) i of None \<Rightarrow> [] | Some rs \<Rightarrow> rs)"

definition link_count :: "metadata \<Rightarrow> rowid \<Rightarrow> nat" where
  "link_count db i = length (filter (\<lambda>(key, child). child = i) (md_dirents db))"

definition lease_count :: "metadata \<Rightarrow> rowid \<Rightarrow> nat" where
  "lease_count db i = length (filter (\<lambda>(l, row). le_inode row = Some i) (md_leases db))"

text \<open>Deleting inodes cascades to their dirents and object maps; a dirent or a lease that still refers
  to one of them refuses the deletion.\<close>

definition delete_inodes :: "(rowid \<Rightarrow> bool) \<Rightarrow> metadata \<Rightarrow> workspace_error + metadata" where
  "delete_inodes gone db =
     (let dirents = filter (\<lambda>((parent, name), child). \<not> gone parent) (md_dirents db) in
      if list_ex (\<lambda>(key, child). gone child) dirents \<or>
         list_ex (\<lambda>(l, row). case le_inode row of Some i \<Rightarrow> gone i | None \<Rightarrow> False) (md_leases db)
      then Inl WorkspaceError_Db
      else Inr (db\<lparr>md_inodes := filter (\<lambda>(i, row). \<not> gone i) (md_inodes db), md_dirents := dirents,
        md_object_maps := filter (\<lambda>(i, records). \<not> gone i) (md_object_maps db)\<rparr>))"

definition drop_inode_if_orphaned :: "rowid \<Rightarrow> metadata \<Rightarrow> workspace_error + metadata" where
  "drop_inode_if_orphaned i db =
     (if link_count db i = 0 \<and> lease_count db i = 0 then delete_inodes (\<lambda>j. j = i) db else Inr db)"


section \<open>Paths\<close>

definition workspace_row_of :: "metadata \<Rightarrow> str \<Rightarrow> workspace_error + workspace_row" where
  "workspace_row_of db name = ok_or (map_of (md_workspaces db) name) (WorkspaceError_UnknownWorkspace name)"

fun walk_path :: "metadata \<Rightarrow> rowid \<times> inode_kind \<Rightarrow> str list \<Rightarrow> (rowid \<times> inode_kind) option" where
  "walk_path db current [] = Some current"
| "walk_path db (i, kind) (segment # segments) =
     (if kind \<noteq> KIND_DIRECTORY then None
      else case map_of (md_dirents db) (i, segment) of
        None \<Rightarrow> None
      | Some child \<Rightarrow>
          (case map_of (md_inodes db) child of
             None \<Rightarrow> None
           | Some row \<Rightarrow> walk_path db (child, in_kind row) segments))"

definition resolve_path :: "unicode \<Rightarrow> metadata \<Rightarrow> workspace_row \<Rightarrow> str \<Rightarrow>
    workspace_error + (rowid \<times> inode_kind) option" where
  "resolve_path u db w path =
     (if path = [] then Inr (Some (wr_root_inode w, KIND_DIRECTORY))
      else and_then (map_err WorkspaceError_Tfm1 (validate_path u path)) (\<lambda>_.
        Inr (walk_path db (wr_root_inode w, KIND_DIRECTORY) (split_on CHR ''/'' path))))"

definition resolve_existing :: "unicode \<Rightarrow> metadata \<Rightarrow> workspace_row \<Rightarrow> str \<Rightarrow>
    workspace_error + rowid \<times> inode_kind" where
  "resolve_existing u db w path =
     and_then (resolve_path u db w path) (\<lambda>found. ok_or found (WorkspaceError_Missing path))"

definition split_parent :: "str \<Rightarrow> str option \<times> str" where
  "split_parent path =
     (case rsplit_once CHR ''/'' path of Some (parent, name) \<Rightarrow> (Some parent, name) | None \<Rightarrow> (None, path))"

definition siblings :: "metadata \<Rightarrow> rowid \<Rightarrow> str list" where
  "siblings db parent = map (snd \<circ> fst) (filter (\<lambda>((p, name), child). p = parent) (md_dirents db))"

definition resolve_new_leaf :: "unicode \<Rightarrow> metadata \<Rightarrow> workspace_row \<Rightarrow> str \<Rightarrow> workspace_error + rowid \<times> str" where
  "resolve_new_leaf u db w path =
     and_then (map_err WorkspaceError_Tfm1 (validate_path u path)) (\<lambda>_.
     let (parent, name) = split_parent path in
     and_then (case parent of
         None \<Rightarrow> Inr (wr_root_inode w)
       | Some parent_path \<Rightarrow>
           and_then (resolve_existing u db w parent_path) (\<lambda>(i, kind).
             if kind \<noteq> KIND_DIRECTORY then Inl (WorkspaceError_NotADirectory parent_path) else Inr i))
     (\<lambda>parent_inode.
       if map_of (md_dirents db) (parent_inode, name) \<noteq> None then Inl (WorkspaceError_Exists path)
       else if list_ex (\<lambda>sibling. case_fold u sibling = case_fold u name) (siblings db parent_inode)
       then Inl (WorkspaceError_CaseFoldCollision path)
       else Inr (parent_inode, name)))"

text \<open>The inode of the directory a resolved path lies in, as rename, unlink and rmdir look it up.\<close>

definition parent_inode_of :: "unicode \<Rightarrow> metadata \<Rightarrow> workspace_row \<Rightarrow> str \<Rightarrow> workspace_error + rowid" where
  "parent_inode_of u db w path =
     (case fst (split_parent path) of
        None \<Rightarrow> Inr (wr_root_inode w)
      | Some parent_path \<Rightarrow>
          and_then (resolve_path u db w parent_path) (\<lambda>found.
            case found of Some (i, kind) \<Rightarrow> Inr i | None \<Rightarrow> Inl WorkspaceError_Panic))"


section \<open>Rows of planners and contracts\<close>

fun planner_to_row :: "planner_id \<Rightarrow> int" where
  "planner_to_row PlannerId_SafetensorsV1 = 1"
| "planner_to_row PlannerId_GgufV1 = 2"
| "planner_to_row PlannerId_BlobV1 = 4"

definition planner_from_row :: "int \<Rightarrow> planner_id" where
  "planner_from_row tag =
     (if tag = 1 then PlannerId_SafetensorsV1 else if tag = 2 then PlannerId_GgufV1 else PlannerId_BlobV1)"

fun contract_to_row :: "stamp \<Rightarrow> str option" where
  "contract_to_row Stamp_None = None"
| "contract_to_row s = Some (stamp_display s)"

definition contract_from_row :: "str option \<Rightarrow> stamp" where
  "contract_from_row stored =
     (case stored of None \<Rightarrow> Stamp_None
      | Some text \<Rightarrow> (case stamp_parse text of Inr s \<Rightarrow> s | Inl _ \<Rightarrow> Stamp_None))"

lemma planner_from_to_row [simp]: "planner_from_row (planner_to_row p) = p"
  by (cases p) (simp_all add: planner_from_row_def)

lemma contract_from_to_row: "stamp_ok s \<Longrightarrow> contract_from_row (contract_to_row s) = s"
  by (cases s) (simp_all add: contract_from_row_def stamp_parse_display_lemma del: stamp_display.simps)


section \<open>Truncation\<close>

fun truncate_loop :: "u64 \<Rightarrow> u64 \<Rightarrow> file_record list \<Rightarrow> file_record list \<Rightarrow> (file_record list \<times> u64) option" where
  "truncate_loop len position kept [] = Some (kept, position)"
| "truncate_loop len position kept (r # rs) =
     (if len \<le> position then Some (kept, position)
      else case checked_add position (record_length r) of
        None \<Rightarrow> None
      | Some stop \<Rightarrow>
          if stop \<le> len then truncate_loop len stop (kept @ [r]) rs
          else (case r of
              FileRecord_Hole _ \<Rightarrow> Some (kept @ [FileRecord_Hole (len - position)], len)
            | FileRecord_Data _ _ \<Rightarrow> None))"

definition truncate_records :: "file_record list \<Rightarrow> u64 \<Rightarrow> file_record list option" where
  "truncate_records records len =
     (case truncate_loop len 0 [] records of
        None \<Rightarrow> None
      | Some (kept, position) \<Rightarrow>
          if position < len then
            (case rev kept of
               FileRecord_Hole hole # before \<Rightarrow> Some (rev before @ [FileRecord_Hole (hole + (len - position))])
             | _ \<Rightarrow> Some (kept @ [FileRecord_Hole (len - position)]))
          else Some kept)"


section \<open>Mutations\<close>

definition file_inode :: "unicode \<Rightarrow> metadata \<Rightarrow> workspace_row \<Rightarrow> str \<Rightarrow> workspace_error + rowid" where
  "file_inode u db w path =
     and_then (resolve_existing u db w path) (\<lambda>(i, kind).
       if kind \<noteq> KIND_FILE then Inl (WorkspaceError_NotAFile path) else Inr i)"

definition create_leaf :: "unicode \<Rightarrow> workspace_row \<Rightarrow> str \<Rightarrow> inode_row \<Rightarrow> metadata \<Rightarrow> workspace_error + rowid \<times> metadata" where
  "create_leaf u w path row db =
     and_then (resolve_new_leaf u db w path) (\<lambda>(parent, name).
     and_then (insert_inode row db) (\<lambda>(i, db).
     and_then (insert_dirent parent name i db) (\<lambda>db. Inr (i, db))))"

definition unlink_leaf :: "unicode \<Rightarrow> workspace_row \<Rightarrow> str \<Rightarrow> rowid \<Rightarrow> metadata \<Rightarrow> workspace_error + metadata" where
  "unlink_leaf u w path i db =
     and_then (parent_inode_of u db w path) (\<lambda>parent.
       drop_inode_if_orphaned i (delete_dirent parent (snd (split_parent path)) db))"

definition empty_inode :: "workspace_row \<Rightarrow> inode_kind \<Rightarrow> inode_row" where
  "empty_inode w kind = \<lparr>in_workspace = wr_id w, in_kind = kind, in_executable = False, in_planner = None,
     in_contract = None, in_symlink_target = None\<rparr>"

fun apply_mutation :: "unicode \<Rightarrow> workspace_row \<Rightarrow> mutation \<Rightarrow> metadata \<Rightarrow> workspace_error + metadata" where
  "apply_mutation u w (Mutation_Mkdir path) db =
     and_then (create_leaf u w path (empty_inode w KIND_DIRECTORY) db) (\<lambda>(i, db). Inr db)"
| "apply_mutation u w (Mutation_CreateFile path executable planner records) db =
     and_then (create_leaf u w path ((empty_inode w KIND_FILE)\<lparr>in_executable := executable,
         in_planner := Some (planner_to_row planner)\<rparr>) db) (\<lambda>(i, db). insert_records i records db)"
| "apply_mutation u w (Mutation_SetRecords path records) db =
     and_then (file_inode u db w path) (\<lambda>i. insert_records i records db)"
| "apply_mutation u w (Mutation_Truncate path len) db =
     and_then (file_inode u db w path) (\<lambda>i.
     and_then (ok_or (truncate_records (read_records db i) len) (WorkspaceError_MidRecordTruncate path len))
     (\<lambda>truncated.
     and_then (map_err WorkspaceError_Tfm1 (validate_record_run truncated len)) (\<lambda>_.
       insert_records i truncated db)))"
| "apply_mutation u w (Mutation_Rename source target) db =
     and_then (resolve_existing u db w source) (\<lambda>(i, kind).
     if kind = KIND_DIRECTORY \<and> (target = source \<or> strip_prefix (source @ ''/'') target \<noteq> None)
     then Inl (WorkspaceError_RenameIntoSelf source)
     else
     and_then (resolve_new_leaf u db w target) (\<lambda>(new_parent, new_name).
     and_then (parent_inode_of u db w source) (\<lambda>old_parent.
       case map_of (md_dirents db) (old_parent, snd (split_parent source)) of
         None \<Rightarrow> Inr db
       | Some child \<Rightarrow> insert_dirent new_parent new_name child
           (delete_dirent old_parent (snd (split_parent source)) db))))"
| "apply_mutation u w (Mutation_Unlink path) db =
     and_then (resolve_existing u db w path) (\<lambda>(i, kind).
     if kind = KIND_DIRECTORY then Inl (WorkspaceError_NotAFile path) else unlink_leaf u w path i db)"
| "apply_mutation u w (Mutation_Rmdir path) db =
     and_then (resolve_existing u db w path) (\<lambda>(i, kind).
     if kind \<noteq> KIND_DIRECTORY then Inl (WorkspaceError_NotADirectory path)
     else if siblings db i \<noteq> [] then Inl (WorkspaceError_NotEmpty path)
     else unlink_leaf u w path i db)"
| "apply_mutation u w (Mutation_Symlink path target) db =
     and_then (map_err WorkspaceError_Tfm1 (validate_symlink_target target)) (\<lambda>_.
     and_then (create_leaf u w path ((empty_inode w KIND_SYMLINK)\<lparr>in_symlink_target := Some target\<rparr>) db)
       (\<lambda>(i, db). Inr db))"
| "apply_mutation u w (Mutation_Hardlink path target) db =
     and_then (file_inode u db w target) (\<lambda>i.
     and_then (resolve_new_leaf u db w path) (\<lambda>(parent, name). insert_dirent parent name i db))"
| "apply_mutation u w (Mutation_SetExecutable path executable) db =
     and_then (file_inode u db w path) (\<lambda>i.
       case map_of (md_inodes db) i of
         None \<Rightarrow> Inr db
       | Some row \<Rightarrow> Inr (db\<lparr>md_inodes := bt_insert i (row\<lparr>in_executable := executable\<rparr>) (md_inodes db)\<rparr>))"

fun apply_mutations :: "unicode \<Rightarrow> workspace_row \<Rightarrow> mutation list \<Rightarrow> metadata \<Rightarrow> workspace_error + metadata" where
  "apply_mutations u w [] db = Inr db"
| "apply_mutations u w (m # ms) db =
     and_then (apply_mutation u w m db) (\<lambda>db. apply_mutations u w ms db)"

end
