(* ===== verification/Workspace.thy ===== *)
theory Workspace
  imports Workspace_Db
begin

text \<open>
  The operations of a workspace store (\<open>workspace.rs\<close>): workspaces, committed generations, snapshot
  roots, leases and the two-epoch collection. The state is the object store together with the
  metadata; an operation returns its result and the state it leaves behind. The projected trees and
  refs of \<open>layout.rs\<close> pin nothing and are left out of the state.
\<close>

section \<open>State\<close>

record workspace_store =
  ws_store :: object_store
  ws_db :: metadata

type_synonym 'a ws_result = "(workspace_error + 'a) \<times> workspace_store"

text \<open>A transaction commits its tables or leaves the state as it was.\<close>

definition transact :: "workspace_store \<Rightarrow> (workspace_error + 'a \<times> metadata) \<Rightarrow> 'a ws_result" where
  "transact ws r = (case r of Inl e \<Rightarrow> (Inl e, ws) | Inr (a, db) \<Rightarrow> (Inr a, ws\<lparr>ws_db := db\<rparr>))"


section \<open>Workspaces\<close>

definition create_workspace :: "str \<Rightarrow> workspace_store \<Rightarrow> unit ws_result" where
  "create_workspace name ws =
     (let db = ws_db ws in
      transact ws
        (if is_ok (workspace_row_of db name) then Inl (WorkspaceError_WorkspaceExists name)
         else
           let w = next_rowid (map (wr_id \<circ> snd) (md_workspaces db));
               row = \<lparr>wr_id = w, wr_head_generation = 0, wr_root_inode = 0\<rparr>;
               db = db\<lparr>md_workspaces := bt_insert name row (md_workspaces db)\<rparr> in
           and_then (insert_inode (empty_inode row KIND_DIRECTORY) db) (\<lambda>(i, db).
             Inr ((), db\<lparr>md_workspaces := bt_insert name (row\<lparr>wr_root_inode := i\<rparr>) (md_workspaces db)\<rparr>))))"

text \<open>Deleting a workspace cascades to its inodes and leases, and through them to dirents, object maps
  and pinned digests.\<close>

definition delete_workspace :: "str \<Rightarrow> workspace_store \<Rightarrow> unit ws_result" where
  "delete_workspace name ws =
     (let db = ws_db ws in
      transact ws
        (and_then (workspace_row_of db name) (\<lambda>w.
         let owned = (\<lambda>i. case map_of (md_inodes db) i of None \<Rightarrow> False | Some row \<Rightarrow> in_workspace row = wr_id w);
             held = (\<lambda>l. case map_of (md_leases db) l of None \<Rightarrow> False | Some row \<Rightarrow> le_workspace row = Some (wr_id w));
             db = db\<lparr>md_dirents := filter (\<lambda>((parent, name), child). \<not> owned parent) (md_dirents db),
               md_leases := filter (\<lambda>(l, row). \<not> held l) (md_leases db),
               md_lease_objects := filter (\<lambda>(l, d). \<not> held l) (md_lease_objects db),
               md_workspaces := bt_remove name (md_workspaces db)\<rparr> in
         and_then (delete_inodes owned db) (\<lambda>db. Inr ((), db)))))"

definition head_generation :: "str \<Rightarrow> workspace_store \<Rightarrow> workspace_error + u64" where
  "head_generation name ws =
     and_then (workspace_row_of (ws_db ws) name) (\<lambda>w. Inr (wr_head_generation w))"


section \<open>Committing a generation\<close>

fun records_length :: "u64 \<Rightarrow> file_record list \<Rightarrow> tfm1_error + u64" where
  "records_length acc [] = Inr acc"
| "records_length acc (r # rs) =
     and_then (ok_or (checked_add acc (record_length r)) Tfm1Error_LengthSumMismatch) (\<lambda>acc. records_length acc rs)"

fun record_digests :: "file_record list \<Rightarrow> digest list" where
  "record_digests [] = []"
| "record_digests (FileRecord_Data d len # rs) = d # record_digests rs"
| "record_digests (FileRecord_Hole len # rs) = record_digests rs"

fun mutation_records :: "mutation \<Rightarrow> file_record list option" where
  "mutation_records (Mutation_CreateFile path executable planner records) = Some records"
| "mutation_records (Mutation_SetRecords path records) = Some records"
| "mutation_records _ = None"

text \<open>The digests a batch newly refers to, in the order of mention (the set of the source has no
  order).\<close>

fun referenced_digests :: "mutation list \<Rightarrow> tfm1_error + digest list" where
  "referenced_digests [] = Inr []"
| "referenced_digests (m # ms) =
     and_then (case mutation_records m of
         None \<Rightarrow> Inr []
       | Some records \<Rightarrow>
           and_then (records_length 0 records) (\<lambda>logical_size.
           and_then (validate_record_run records logical_size) (\<lambda>_. Inr (record_digests records))))
     (\<lambda>ds. and_then (referenced_digests ms) (\<lambda>rest. Inr (ds @ rest)))"

definition first_missing :: "(digest \<Rightarrow> bool) \<Rightarrow> digest list \<Rightarrow> workspace_error + unit" where
  "first_missing present ds =
     (case find (\<lambda>d. \<not> present d) ds of None \<Rightarrow> Inr () | Some d \<Rightarrow> Inl (WorkspaceError_MissingObject d))"

text \<open>\<open>commit_generation\<close> in its two parts: what runs before the lock, and the transaction.\<close>

definition commit_prepare :: "'h hasher \<Rightarrow> mutation list \<Rightarrow> object_store \<Rightarrow> workspace_error + digest list" where
  "commit_prepare hs mutations st =
     and_then (map_err WorkspaceError_Tfm1 (referenced_digests mutations)) (\<lambda>referenced.
     and_then (first_missing (\<lambda>d. is_ok (store_verify hs d st)) referenced) (\<lambda>_. Inr referenced))"

definition commit_transaction :: "unicode \<Rightarrow> str \<Rightarrow> mutation list \<Rightarrow> digest list \<Rightarrow> workspace_store \<Rightarrow> u64 ws_result" where
  "commit_transaction u name mutations referenced ws =
     transact ws
       (and_then (first_missing (\<lambda>d. store_exists d (ws_store ws)) referenced) (\<lambda>_.
        and_then (workspace_row_of (ws_db ws) name) (\<lambda>w.
        and_then (apply_mutations u w mutations (ws_db ws)) (\<lambda>db.
          let next_generation = wr_head_generation w + 1 in
          Inr (next_generation, db\<lparr>md_workspaces := bt_insert name
            (w\<lparr>wr_head_generation := next_generation\<rparr>) (md_workspaces db)\<rparr>)))))"

definition commit_generation :: "unicode \<Rightarrow> 'h hasher \<Rightarrow> str \<Rightarrow> mutation list \<Rightarrow> workspace_store \<Rightarrow> u64 ws_result" where
  "commit_generation u hs name mutations ws =
     (case commit_prepare hs mutations (ws_store ws) of
        Inl e \<Rightarrow> (Inl e, ws)
      | Inr referenced \<Rightarrow> commit_transaction u name mutations referenced ws)"


section \<open>Snapshot roots\<close>

definition read_manifest_object :: "unicode \<Rightarrow> (bytes \<Rightarrow> digest) \<Rightarrow> object_store \<Rightarrow> snapshot_id \<Rightarrow>
    workspace_error + snapshot" where
  "read_manifest_object u sha256 st sid =
     (case open_object sid st of
        Inl _ \<Rightarrow> Inl WorkspaceError_SnapshotCorrupt
      | Inr bs \<Rightarrow>
          if sha256 bs \<noteq> sid then Inl WorkspaceError_SnapshotCorrupt
          else map_err WorkspaceError_Tfm1 (decode u bs))"

definition read_rooted_snapshot :: "unicode \<Rightarrow> (bytes \<Rightarrow> digest) \<Rightarrow> workspace_store \<Rightarrow> snapshot_id \<Rightarrow>
    workspace_error + snapshot" where
  "read_rooted_snapshot u sha256 ws sid =
     (if map_of (md_snapshots (ws_db ws)) sid = None then Inl (WorkspaceError_UnknownSnapshot sid)
      else read_manifest_object u sha256 (ws_store ws) sid)"

definition load_snapshot :: "unicode \<Rightarrow> (bytes \<Rightarrow> digest) \<Rightarrow> workspace_store \<Rightarrow> snapshot_id \<Rightarrow>
    workspace_error + snapshot" where
  "load_snapshot u sha256 ws sid = read_rooted_snapshot u sha256 ws sid"

text \<open>The data records a manifest names, through the records of its bodies.\<close>

fun entry_records :: "entry \<Rightarrow> file_record list" where
  "entry_records (Entry_File executable body) = body_records body"
| "entry_records _ = []"

definition snapshot_record_digests :: "snapshot \<Rightarrow> digest list" where
  "snapshot_record_digests s = concat (map (record_digests \<circ> entry_records \<circ> snd) (snap_entries s))"

definition insert_snapshot :: "snapshot_id \<Rightarrow> u64 \<Rightarrow> metadata \<Rightarrow> metadata" where
  "insert_snapshot sid generation db =
     (if map_of (md_snapshots db) sid \<noteq> None then db
      else db\<lparr>md_snapshots := bt_insert sid generation (md_snapshots db)\<rparr>)"

text \<open>\<open>adopt_snapshot\<close> in its two parts: the checks and the admission of the manifest run without the
  lock, only the insertion of the root row takes it.\<close>

definition adopt_prepare :: "unicode \<Rightarrow> process_env \<Rightarrow> 'h hasher \<Rightarrow> (bytes \<Rightarrow> digest) \<Rightarrow> bytes \<Rightarrow>
    workspace_store \<Rightarrow> snapshot_id ws_result" where
  "adopt_prepare u env hs sha256 bs ws =
     (case map_err WorkspaceError_Tfm1 (decode u bs) of
        Inl e \<Rightarrow> (Inl e, ws)
      | Inr s \<Rightarrow>
          (case first_missing (\<lambda>d. store_exists d (ws_store ws)) (snapshot_record_digests s) of
             Inl e \<Rightarrow> (Inl e, ws)
           | Inr _ \<Rightarrow>
               (case put_bytes env hs bs (ws_store ws) of
                  (Inl e, st) \<Rightarrow> (Inl (WorkspaceError_Store e), ws\<lparr>ws_store := st\<rparr>)
                | (Inr _, st) \<Rightarrow> (Inr (snapshot_id_of sha256 s), ws\<lparr>ws_store := st\<rparr>))))"

definition adopt_insert :: "snapshot_id \<Rightarrow> workspace_store \<Rightarrow> workspace_store" where
  "adopt_insert sid ws = ws\<lparr>ws_db := insert_snapshot sid 0 (ws_db ws)\<rparr>"

definition adopt_snapshot :: "unicode \<Rightarrow> process_env \<Rightarrow> 'h hasher \<Rightarrow> (bytes \<Rightarrow> digest) \<Rightarrow> bytes \<Rightarrow>
    workspace_store \<Rightarrow> snapshot_id ws_result" where
  "adopt_snapshot u env hs sha256 bs ws =
     op_then (adopt_prepare u env hs sha256 bs ws) (\<lambda>sid ws. (Inr sid, adopt_insert sid ws))"

text \<open>The metadata part of \<open>delete_snapshot\<close>; the projected tree and the refs that follow are cache.\<close>

definition delete_snapshot :: "snapshot_id \<Rightarrow> workspace_store \<Rightarrow> unit ws_result" where
  "delete_snapshot sid ws =
     (if map_of (md_snapshots (ws_db ws)) sid = None then (Inl (WorkspaceError_UnknownSnapshot sid), ws)
      else (Inr (), ws\<lparr>ws_db := (ws_db ws)\<lparr>md_snapshots := bt_remove sid (md_snapshots (ws_db ws))\<rparr>\<rparr>))"

text \<open>Cloning a sealed snapshot: every entry of the decoded tree as a mutation of a fresh workspace.\<close>

definition entry_mutation :: "snapshot \<Rightarrow> str \<times> entry \<Rightarrow> workspace_error + mutation" where
  "entry_mutation s e =
     (case e of (path, entry) \<Rightarrow>
        (case entry of
           Entry_Directory \<Rightarrow> Inr (Mutation_Mkdir path)
         | Entry_File executable body \<Rightarrow>
             Inr (Mutation_CreateFile path executable (body_planner_id body) (body_records body))
         | Entry_Symlink target \<Rightarrow> Inr (Mutation_Symlink path target)
         | Entry_Hardlink ordinal \<Rightarrow>
             and_then (ok_or (ordinal_path s ordinal) WorkspaceError_Panic) (\<lambda>target.
               Inr (Mutation_Hardlink path target))))"

definition create_workspace_from_snapshot :: "unicode \<Rightarrow> 'h hasher \<Rightarrow> (bytes \<Rightarrow> digest) \<Rightarrow> str \<Rightarrow>
    snapshot_id \<Rightarrow> workspace_store \<Rightarrow> unit ws_result" where
  "create_workspace_from_snapshot u hs sha256 name sid ws =
     op_then (load_snapshot u sha256 ws sid, ws) (\<lambda>s ws.
     op_then (create_workspace name ws) (\<lambda>_ ws.
     op_then (collect_results (map (entry_mutation s) (snap_entries s)), ws) (\<lambda>mutations ws.
     op_then (commit_generation u hs name mutations ws) (\<lambda>_ ws. (Inr (), ws)))))"


section \<open>Leases\<close>

definition insert_lease :: "lease_row \<Rightarrow> metadata \<Rightarrow> rowid \<times> metadata" where
  "insert_lease row db =
     (let l = next_rowid (map fst (md_leases db)) in
      (l, db\<lparr>md_leases := bt_insert l row (md_leases db)\<rparr>))"

definition insert_lease_object :: "rowid \<Rightarrow> digest \<Rightarrow> metadata \<Rightarrow> metadata" where
  "insert_lease_object l d db =
     (if (l, d) \<in> set (md_lease_objects db) then db
      else db\<lparr>md_lease_objects := md_lease_objects db @ [(l, d)]\<rparr>)"

definition acquire_unlinked_lease :: "unicode \<Rightarrow> str \<Rightarrow> str \<Rightarrow> str \<Rightarrow> workspace_store \<Rightarrow> rowid ws_result" where
  "acquire_unlinked_lease u name path holder ws =
     (let db = ws_db ws in
      transact ws
        (and_then (workspace_row_of db name) (\<lambda>w.
         and_then (resolve_existing u db w path) (\<lambda>(i, kind).
           if \<not> inode_exists db i then Inl WorkspaceError_Db
           else Inr (insert_lease \<lparr>le_kind = LeaseKind_Unlinked, le_holder = holder,
             le_workspace = Some (wr_id w), le_inode = Some i\<rparr> db)))))"

definition acquire_pending_sync_lease :: "unicode \<Rightarrow> (bytes \<Rightarrow> digest) \<Rightarrow> snapshot_id \<Rightarrow> str \<Rightarrow>
    workspace_store \<Rightarrow> (rowid \<times> snapshot) ws_result" where
  "acquire_pending_sync_lease u sha256 sid holder ws =
     transact ws
       (and_then (read_rooted_snapshot u sha256 ws sid) (\<lambda>s.
        let (l, db) = insert_lease \<lparr>le_kind = LeaseKind_PendingSync, le_holder = holder,
              le_workspace = None, le_inode = None\<rparr> (ws_db ws) in
        Inr ((l, s), fold (insert_lease_object l) (sid # snapshot_record_digests s) db)))"

definition release_lease :: "rowid \<Rightarrow> workspace_store \<Rightarrow> unit ws_result" where
  "release_lease l ws =
     (let db = ws_db ws in
      transact ws
        (case map_of (md_leases db) l of
           None \<Rightarrow> Inl (WorkspaceError_UnknownLease l)
         | Some row \<Rightarrow>
             let db = db\<lparr>md_lease_objects := filter (\<lambda>(l', d). l' \<noteq> l) (md_lease_objects db),
                   md_leases := bt_remove l (md_leases db)\<rparr> in
             and_then (case le_inode row of
                 Some i \<Rightarrow> drop_inode_if_orphaned i db
               | None \<Rightarrow> Inr db) (\<lambda>db. Inr ((), db))))"


section \<open>Marking and collecting\<close>

text \<open>\<open>manifest_objects\<close>: the objects one manifest names.\<close>

fun body_objects :: "file_body \<Rightarrow> digest list" where
  "body_objects (FileBody_Tensor f contract logical_size records) = record_digests records"
| "body_objects (FileBody_Blob logical_size d) = (if logical_size \<noteq> 0 then [d] else [])"

fun entry_objects :: "entry \<Rightarrow> digest list" where
  "entry_objects (Entry_File executable body) = body_objects body"
| "entry_objects _ = []"

definition manifest_objects :: "snapshot \<Rightarrow> digest list" where
  "manifest_objects s = concat (map (entry_objects \<circ> snd) (snap_entries s))"

record snapshot_mark =
  sm_id :: snapshot_id
  sm_objects :: "digest list"
  sm_logical :: u64

record marks =
  mk_reached :: "(digest \<times> u32) list"
  mk_snapshots :: "snapshot_mark list"

definition add_root :: "digest list \<Rightarrow> marks \<Rightarrow> marks" where
  "add_root objects m =
     m\<lparr>mk_reached := fold (\<lambda>d reached. bt_insert d
         ((case map_of reached d of None \<Rightarrow> 0 | Some n \<Rightarrow> n) + 1) reached) (remdups objects) (mk_reached m)\<rparr>"

definition is_rooted :: "marks \<Rightarrow> digest \<Rightarrow> bool" where
  "is_rooted m d = (map_of (mk_reached m) d \<noteq> None)"

fun entry_logical :: "entry \<Rightarrow> u64" where
  "entry_logical (Entry_File executable body) = body_logical_size body"
| "entry_logical _ = 0"

definition mark_snapshot :: "unicode \<Rightarrow> (bytes \<Rightarrow> digest) \<Rightarrow> object_store \<Rightarrow> snapshot_id \<Rightarrow> marks \<Rightarrow>
    workspace_error + marks" where
  "mark_snapshot u sha256 st sid m =
     and_then (read_manifest_object u sha256 st sid) (\<lambda>s.
       let objects = remdups (sid # manifest_objects s);
           logical = sum_list (map (entry_logical \<circ> snd) (snap_entries s));
           m = add_root objects m in
       Inr (m\<lparr>mk_snapshots := mk_snapshots m @ [\<lparr>sm_id = sid, sm_objects = objects, sm_logical = logical\<rparr>]\<rparr>))"

fun mark_snapshots :: "unicode \<Rightarrow> (bytes \<Rightarrow> digest) \<Rightarrow> object_store \<Rightarrow> snapshot_id list \<Rightarrow> marks \<Rightarrow>
    workspace_error + marks" where
  "mark_snapshots u sha256 st [] m = Inr m"
| "mark_snapshots u sha256 st (sid # sids) m =
     and_then (mark_snapshot u sha256 st sid m) (\<lambda>m. mark_snapshots u sha256 st sids m)"

definition head_objects :: "metadata \<Rightarrow> digest list" where
  "head_objects db = concat (map (record_digests \<circ> snd) (md_object_maps db))"

definition mark_roots :: "unicode \<Rightarrow> (bytes \<Rightarrow> digest) \<Rightarrow> workspace_store \<Rightarrow> workspace_error + marks" where
  "mark_roots u sha256 ws =
     (let m = \<lparr>mk_reached = [], mk_snapshots = []\<rparr>;
          m = add_root (head_objects (ws_db ws)) m;
          m = add_root (map snd (md_lease_objects (ws_db ws))) m in
      mark_snapshots u sha256 (ws_store ws) (map fst (md_snapshots (ws_db ws))) m)"

record gc_report =
  gc_roots :: u64
  gc_resident :: u64
  gc_newly_quarantined :: u64
  gc_rescued :: u64
  gc_deleted :: u64
  gc_bytes_deleted :: u64
  gc_epoch :: u64

record gc_state =
  gs_store :: object_store
  gs_quarantine :: "(digest \<times> int) list"
  gs_report :: gc_report

definition gc_row :: "int \<Rightarrow> marks \<Rightarrow> (digest \<times> u64) list \<Rightarrow> digest \<times> int \<Rightarrow> gc_state \<Rightarrow> gc_state" where
  "gc_row epoch m resident row g =
     (case row of (d, marked) \<Rightarrow>
      let forget = (\<lambda>g. g\<lparr>gs_quarantine := bt_remove d (gs_quarantine g)\<rparr>) in
      if is_rooted m d \<or> d \<notin> fst ` set resident then
        forget (if is_rooted m d
          then g\<lparr>gs_report := (gs_report g)\<lparr>gc_rescued := gc_rescued (gs_report g) + 1\<rparr>\<rparr> else g)
      else if marked \<le> epoch - 2 then
        let (gone, st) = remove_object d (gs_store g) in
        forget (if gone
          then g\<lparr>gs_store := st, gs_report := (gs_report g)\<lparr>gc_deleted := gc_deleted (gs_report g) + 1,
            gc_bytes_deleted := gc_bytes_deleted (gs_report g) +
              (case map_of resident d of None \<Rightarrow> 0 | Some n \<Rightarrow> n)\<rparr>\<rparr>
          else g\<lparr>gs_store := st\<rparr>)
      else g)"

definition gc_quarantine_new :: "int \<Rightarrow> marks \<Rightarrow> (digest \<times> int) list \<Rightarrow> digest \<Rightarrow> gc_state \<Rightarrow> gc_state" where
  "gc_quarantine_new epoch m already d g =
     (if \<not> is_rooted m d \<and> d \<notin> fst ` set already then
        g\<lparr>gs_quarantine := (if map_of (gs_quarantine g) d \<noteq> None then gs_quarantine g
            else bt_insert d epoch (gs_quarantine g)),
          gs_report := (gs_report g)\<lparr>gc_newly_quarantined := gc_newly_quarantined (gs_report g) + 1\<rparr>\<rparr>
      else g)"

definition collect :: "unicode \<Rightarrow> (bytes \<Rightarrow> digest) \<Rightarrow> workspace_store \<Rightarrow> gc_report ws_result" where
  "collect u sha256 ws =
     (let db = ws_db ws; epoch = md_epoch db + 1 in
      case mark_roots u sha256 ws of
        Inl e \<Rightarrow> (Inl e, ws)
      | Inr m \<Rightarrow>
          let resident = each_object (ws_store ws);
              report = \<lparr>gc_roots = of_nat (length (mk_reached m)), gc_resident = of_nat (length resident),
                gc_newly_quarantined = 0, gc_rescued = 0, gc_deleted = 0, gc_bytes_deleted = 0,
                gc_epoch = word_of_int epoch\<rparr>;
              g = \<lparr>gs_store = ws_store ws, gs_quarantine = md_quarantine db, gs_report = report\<rparr>;
              g = fold (gc_row epoch m resident) (md_quarantine db) g;
              g = fold (gc_quarantine_new epoch m (md_quarantine db)) (map fst resident) g in
          (Inr (gs_report g), ws\<lparr>ws_store := gs_store g,
             ws_db := db\<lparr>md_epoch := epoch, md_quarantine := gs_quarantine g\<rparr>\<rparr>))"

record snapshot_usage =
  su_id :: snapshot_id
  su_logical :: u64
  su_resident :: u64
  su_exclusive :: u64

definition usage_of :: "marks \<Rightarrow> (digest \<times> u64) list \<Rightarrow> snapshot_mark \<Rightarrow> snapshot_usage" where
  "usage_of m lengths s =
     (let sized = List.map_filter (\<lambda>d. map_option (Pair d) (map_of lengths d)) (sm_objects s) in
      \<lparr>su_id = sm_id s, su_logical = sm_logical s, su_resident = sum_list (map snd sized),
       su_exclusive = sum_list (map snd (filter (\<lambda>(d, n). map_of (mk_reached m) d = Some 1) sized))\<rparr>)"

definition usage :: "unicode \<Rightarrow> (bytes \<Rightarrow> digest) \<Rightarrow> workspace_store \<Rightarrow> workspace_error + snapshot_usage list" where
  "usage u sha256 ws =
     and_then (mark_roots u sha256 ws) (\<lambda>m.
       Inr (sort_key (\<lambda>entry. digest_bytes (su_id entry))
         (map (usage_of m (each_object (ws_store ws))) (mk_snapshots m))))"

end
