(* ===== verification/Workspace_Seal.thy ===== *)
theory Workspace_Seal
  imports Workspace Planner
begin

text \<open>
  Staging and sealing of a committed head (\<open>stage_builder\<close>, \<open>head_tree\<close>, \<open>plan_seal_job\<close> and
  \<open>seal_snapshot\<close> of \<open>workspace.rs\<close>). The walk over the dirents has no bound of its own, so it is a
  partial function whose value \<open>None\<close> stands for a walk that does not end. Sealing captures the tree,
  plans and admits without the lock, and commits in one transaction.
\<close>

section \<open>Staging\<close>

record staged =
  sg_paths_by_inode :: "(rowid \<times> str list) list"
  sg_directories :: "str list"
  sg_symlinks :: "(str \<times> str) list"

definition staged_empty :: staged where
  "staged_empty = \<lparr>sg_paths_by_inode = [], sg_directories = [], sg_symlinks = []\<rparr>"

definition join_path :: "str \<Rightarrow> str \<Rightarrow> str" where
  "join_path base name = (if base = [] then name else base @ ''/'' @ name)"

text \<open>The rows of one directory: its dirents joined with the inodes they name.\<close>

definition child_rows :: "metadata \<Rightarrow> rowid \<Rightarrow> (str \<times> rowid \<times> inode_row) list" where
  "child_rows db i = List.map_filter (\<lambda>((parent, name), child).
     if parent = i then map_option (\<lambda>row. (name, child, row)) (map_of (md_inodes db) child) else None) (md_dirents db)"

fun stage_children :: "str \<Rightarrow> (str \<times> rowid \<times> inode_row) list \<Rightarrow> (rowid \<times> str) list \<Rightarrow> staged \<Rightarrow>
    workspace_error + (rowid \<times> str) list \<times> staged" where
  "stage_children base [] stack sg = Inr (stack, sg)"
| "stage_children base ((name, child, row) # rows) stack sg =
     (let path = join_path base name in
      case in_kind row of
        KIND_DIRECTORY \<Rightarrow>
          stage_children base rows ((child, path) # stack) (sg\<lparr>sg_directories := sg_directories sg @ [path]\<rparr>)
      | KIND_FILE \<Rightarrow>
          stage_children base rows stack (sg\<lparr>sg_paths_by_inode := bt_insert child
            ((case map_of (sg_paths_by_inode sg) child of None \<Rightarrow> [] | Some paths \<Rightarrow> paths) @ [path])
            (sg_paths_by_inode sg)\<rparr>)
      | KIND_SYMLINK \<Rightarrow>
          (case in_symlink_target row of
             None \<Rightarrow> Inl WorkspaceError_Db
           | Some target \<Rightarrow>
               stage_children base rows stack (sg\<lparr>sg_symlinks := sg_symlinks sg @ [(path, target)]\<rparr>)))"

partial_function (option) stage_walk :: "metadata \<Rightarrow> (rowid \<times> str) list \<Rightarrow> staged \<Rightarrow> (workspace_error + staged) option" where
  "stage_walk db stack sg =
     (case stack of
        [] \<Rightarrow> Some (Inr sg)
      | (i, base) # rest \<Rightarrow>
          (case stage_children base (child_rows db i) rest sg of
             Inl e \<Rightarrow> Some (Inl e)
           | Inr (stack, sg) \<Rightarrow> stage_walk db stack sg))"

definition stage_file :: "metadata \<Rightarrow> rowid \<times> str list \<Rightarrow> snapshot_builder \<Rightarrow> workspace_error + snapshot_builder" where
  "stage_file db entry b =
     (case entry of (i, paths) \<Rightarrow>
      (case sort paths of
         [] \<Rightarrow> Inl WorkspaceError_Panic
       | carrier # links \<Rightarrow>
           (case map_of (md_inodes db) i of
              None \<Rightarrow> Inl WorkspaceError_Db
            | Some row \<Rightarrow>
                (case in_planner row of
                   None \<Rightarrow> Inl WorkspaceError_Db
                 | Some planner \<Rightarrow>
                     Inr (fold (\<lambda>path. builder_hardlink path carrier) links
                       (builder_file_under carrier (in_executable row) (planner_from_row planner)
                         (contract_from_row (in_contract row)) (read_records db i) b))))))"

fun stage_files :: "metadata \<Rightarrow> (rowid \<times> str list) list \<Rightarrow> snapshot_builder \<Rightarrow> workspace_error + snapshot_builder" where
  "stage_files db [] b = Inr b"
| "stage_files db (e # es) b = and_then (stage_file db e b) (\<lambda>b. stage_files db es b)"

definition stage_builder :: "metadata \<Rightarrow> workspace_row \<Rightarrow> snapshot_id option \<Rightarrow> (workspace_error + snapshot_builder) option" where
  "stage_builder db w parent =
     map_option (\<lambda>walked. and_then walked (\<lambda>sg.
       let b = builder_new parent;
           b = fold builder_directory (sg_directories sg) b;
           b = fold (\<lambda>(path, target). builder_symlink path target) (sg_symlinks sg) b in
       stage_files db (sg_paths_by_inode sg) b)) (stage_walk db [(wr_root_inode w, [])] staged_empty)"

definition build_tree :: "unicode \<Rightarrow> metadata \<Rightarrow> workspace_row \<Rightarrow> (workspace_error + (str \<times> tree_entry) list) option" where
  "build_tree u db w = map_option (\<lambda>staged. and_then staged (\<lambda>b.
     map_err WorkspaceError_Tfm1 (builder_finish_tree u b))) (stage_builder db w None)"

definition build_snapshot :: "unicode \<Rightarrow> metadata \<Rightarrow> workspace_row \<Rightarrow> snapshot_id option \<Rightarrow> (workspace_error + snapshot) option" where
  "build_snapshot u db w parent = map_option (\<lambda>staged. and_then staged (\<lambda>b.
     map_err WorkspaceError_Tfm1 (builder_finish u b))) (stage_builder db w parent)"

definition head_tree :: "unicode \<Rightarrow> str \<Rightarrow> workspace_store \<Rightarrow> (workspace_error + (str \<times> tree_entry) list) option" where
  "head_tree u name ws =
     (case workspace_row_of (ws_db ws) name of Inl e \<Rightarrow> Some (Inl e) | Inr w \<Rightarrow> build_tree u (ws_db ws) w)"


section \<open>Planning the seal of a file\<close>

record seal_job =
  sj_path :: str
  sj_planner :: planner_id
  sj_contract :: stamp
  sj_records :: "file_record list"
  sj_update_records :: bool
  sj_new_digests :: "digest list"

text \<open>The circumstances of a process that admits objects: its names, how many workers run and in which
  order they take their regions.\<close>

record admission_env =
  ae_env :: process_env
  ae_concurrency :: nat
  ae_schedule :: "nat \<Rightarrow> nat list"

definition blob_seal_job :: "admission_env \<Rightarrow> 'h hasher \<Rightarrow> str \<Rightarrow> byte_source \<Rightarrow> object_store \<Rightarrow>
    (workspace_error + seal_job) \<times> object_store" where
  "blob_seal_job ae hs path source st =
     (case admit_source_range (ae_env ae) hs source 0 (src_len source) st of
        (Inl e, st) \<Rightarrow> (Inl (WorkspaceError_Store e), st)
      | (Inr admitted, st) \<Rightarrow>
          (Inr \<lparr>sj_path = path, sj_planner = PlannerId_BlobV1, sj_contract = Stamp_None,
             sj_records = [FileRecord_Data (ao_digest admitted) (ao_length admitted)],
             sj_update_records = True, sj_new_digests = [ao_digest admitted]\<rparr>, st))"

fun committed_ranges :: "u64 \<Rightarrow> file_record list \<Rightarrow> ((u64 \<times> u64) \<times> digest) list option" where
  "committed_ranges position [] = Some []"
| "committed_ranges position (FileRecord_Hole len # rs) = None"
| "committed_ranges position (FileRecord_Data d len # rs) =
     map_option (\<lambda>rest. ((position, len), d) # rest) (committed_ranges (position + len) rs)"

definition region_range :: "region \<Rightarrow> u64 \<times> u64" where
  "region_range r = (reg_offset r, reg_length r)"

definition by_range :: "((u64 \<times> u64) \<times> digest) list \<Rightarrow> ((u64 \<times> u64) \<times> digest) list" where
  "by_range committed = fold (\<lambda>(range, d). bt_insert range d) committed []"

definition pending_slots :: "((u64 \<times> u64) \<times> digest) list \<Rightarrow> region list \<Rightarrow> (nat \<times> region) list" where
  "pending_slots ranges regions = filter (\<lambda>(slot, r). map_of ranges (region_range r) = None) (enumerate 0 regions)"

definition new_record :: "((u64 \<times> u64) \<times> digest) list \<Rightarrow> (nat \<times> digest) list \<Rightarrow> nat \<times> region \<Rightarrow>
    workspace_error + file_record" where
  "new_record ranges fresh slot =
     (case slot of (i, r) \<Rightarrow>
        and_then (ok_or (case map_of ranges (region_range r) of Some d \<Rightarrow> Some d | None \<Rightarrow> map_of fresh i)
          WorkspaceError_Panic) (\<lambda>d. Inr (FileRecord_Data d (reg_length r))))"

text \<open>A region that the committed head covers keeps its object; the others are admitted.\<close>

definition replan_job :: "admission_env \<Rightarrow> 'h hasher \<Rightarrow> str \<Rightarrow> byte_source \<Rightarrow> ((u64 \<times> u64) \<times> digest) list \<Rightarrow> plan \<Rightarrow>
    object_store \<Rightarrow> (workspace_error + seal_job) \<times> object_store" where
  "replan_job ae hs path source committed planned st =
     (let ranges = by_range committed;
          pending = pending_slots ranges (plan_regions planned) in
      case admit_regions (ae_env ae) hs (ae_concurrency ae) (ae_schedule ae (length pending)) source
          (map snd pending) st of
        (Inl e, st) \<Rightarrow> (Inl (WorkspaceError_Store e), st)
      | (Inr admitted, st) \<Rightarrow>
          let fresh = zip (map fst pending) (map ao_digest admitted) in
          (and_then (collect_results (map (new_record ranges fresh) (enumerate 0 (plan_regions planned))))
            (\<lambda>records. Inr \<lparr>sj_path = path, sj_planner = plan_planner planned, sj_contract = plan_contract planned,
               sj_records = records, sj_update_records = True, sj_new_digests = map snd fresh\<rparr>), st))"

definition plan_seal_job :: "admission_env \<Rightarrow> 'h hasher \<Rightarrow> (bytes \<Rightarrow> digest) \<Rightarrow> (bytes \<Rightarrow> json option) \<Rightarrow> contract option \<Rightarrow>
    str \<Rightarrow> planner_id \<Rightarrow> stamp \<Rightarrow> file_record list \<Rightarrow> object_store \<Rightarrow>
    (workspace_error + seal_job option) \<times> object_store" where
  "plan_seal_job ae hs sha256 json_parse seams path stored_planner stored_contract records st =
     (let has_holes = list_ex is_hole records;
          source = records_source st records;
          some = (\<lambda>(result, st). (map_ok Some result, st));
          relabel = (\<lambda>planner contract. \<lparr>sj_path = path, sj_planner = planner, sj_contract = contract,
            sj_records = records, sj_update_records = False, sj_new_digests = []\<rparr>) in
      if records = [] then (Inr None, st)
      else if has_holes \<and> planner_tensor_format stored_planner \<noteq> None then (Inr None, st)
      else if has_holes then some (blob_seal_job ae hs path source st)
      else
        case plan_with sha256 json_parse 0 source seams of
          Inl e \<Rightarrow> (Inl (WorkspaceError_Plan e), st)
        | Inr planned \<Rightarrow>
            if plan_planner planned = PlannerId_BlobV1 then
              (case records of
                 [FileRecord_Data _ _] \<Rightarrow>
                   (if stored_planner = PlannerId_BlobV1 \<and> stored_contract = Stamp_None then (Inr None, st)
                    else (Inr (Some (relabel PlannerId_BlobV1 Stamp_None)), st))
               | _ \<Rightarrow> some (blob_seal_job ae hs path source st))
            else
              (case committed_ranges 0 records of
                 None \<Rightarrow> (Inl WorkspaceError_Panic, st)
               | Some committed \<Rightarrow>
                   if map fst committed = map region_range (plan_regions planned) then
                     (if plan_planner planned = stored_planner \<and> plan_contract planned = stored_contract
                      then (Inr None, st)
                      else (Inr (Some (relabel (plan_planner planned) (plan_contract planned))), st))
                   else some (replan_job ae hs path source committed planned st)))"


section \<open>Sealing\<close>

fun plan_seal_jobs :: "admission_env \<Rightarrow> 'h hasher \<Rightarrow> (bytes \<Rightarrow> digest) \<Rightarrow> (bytes \<Rightarrow> json option) \<Rightarrow> contract option \<Rightarrow>
    (str \<times> tree_entry) list \<Rightarrow> object_store \<Rightarrow> (workspace_error + seal_job list) \<times> object_store" where
  "plan_seal_jobs ae hs sha256 json_parse seams [] st = (Inr [], st)"
| "plan_seal_jobs ae hs sha256 json_parse seams ((path, entry) # entries) st =
     op_then (case entry of
         TreeEntry_File executable planner contract records \<Rightarrow>
           plan_seal_job ae hs sha256 json_parse seams path planner contract records st
       | _ \<Rightarrow> (Inr None, st)) (\<lambda>job st.
     op_then (plan_seal_jobs ae hs sha256 json_parse seams entries st) (\<lambda>jobs st.
       (Inr (case job of None \<Rightarrow> jobs | Some j \<Rightarrow> j # jobs), st)))"

definition apply_seal_job :: "unicode \<Rightarrow> workspace_row \<Rightarrow> seal_job \<Rightarrow> metadata \<Rightarrow> workspace_error + metadata" where
  "apply_seal_job u w job db =
     and_then (if sj_update_records job then apply_mutation u w (Mutation_SetRecords (sj_path job) (sj_records job)) db
       else Inr db) (\<lambda>db.
     and_then (resolve_existing u db w (sj_path job)) (\<lambda>(i, kind).
       case map_of (md_inodes db) i of
         None \<Rightarrow> Inr db
       | Some row \<Rightarrow> Inr (db\<lparr>md_inodes := bt_insert i (row\<lparr>in_planner := Some (planner_to_row (sj_planner job)),
           in_contract := contract_to_row (sj_contract job)\<rparr>) (md_inodes db)\<rparr>)))"

fun apply_seal_jobs :: "unicode \<Rightarrow> workspace_row \<Rightarrow> seal_job list \<Rightarrow> metadata \<Rightarrow> workspace_error + metadata" where
  "apply_seal_jobs u w [] db = Inr db"
| "apply_seal_jobs u w (job # jobs) db = and_then (apply_seal_job u w job db) (\<lambda>db. apply_seal_jobs u w jobs db)"

text \<open>The tables of the third phase: the jobs applied and the generation advanced.\<close>

definition seal_tables :: "unicode \<Rightarrow> str \<Rightarrow> seal_job list \<Rightarrow> workspace_row \<Rightarrow> workspace_store \<Rightarrow>
    workspace_error + workspace_row \<times> metadata" where
  "seal_tables u name jobs w ws =
     and_then (first_missing (\<lambda>d. store_exists d (ws_store ws)) (concat (map sj_new_digests jobs))) (\<lambda>_.
     and_then (apply_seal_jobs u w jobs (ws_db ws)) (\<lambda>db.
       if jobs = [] then Inr (w, db)
       else let w = w\<lparr>wr_head_generation := wr_head_generation w + 1\<rparr> in
         Inr (w, db\<lparr>md_workspaces := bt_insert name w (md_workspaces db)\<rparr>)))"

text \<open>The transaction of one attempt; \<open>Inr None\<close> says that the head has moved and the attempt is
  repeated.\<close>

definition seal_transaction :: "unicode \<Rightarrow> admission_env \<Rightarrow> 'h hasher \<Rightarrow> (bytes \<Rightarrow> digest) \<Rightarrow> str \<Rightarrow> snapshot_id option \<Rightarrow>
    u64 \<Rightarrow> seal_job list \<Rightarrow> workspace_store \<Rightarrow> snapshot_id option ws_result option" where
  "seal_transaction u ae hs sha256 name parent generation jobs ws =
     (case workspace_row_of (ws_db ws) name of
        Inl e \<Rightarrow> Some (Inl e, ws)
      | Inr w \<Rightarrow>
          if wr_head_generation w \<noteq> generation then Some (Inr None, ws)
          else
            (case seal_tables u name jobs w ws of
               Inl e \<Rightarrow> Some (Inl e, ws)
             | Inr (w, db) \<Rightarrow>
                 (case build_snapshot u db w parent of
                    None \<Rightarrow> None
                  | Some (Inl e) \<Rightarrow> Some (Inl e, ws)
                  | Some (Inr s) \<Rightarrow>
                      (case put_bytes (ae_env ae) hs (to_bytes s) (ws_store ws) of
                         (Inl e, st) \<Rightarrow> Some (Inl (WorkspaceError_Store e), ws\<lparr>ws_store := st\<rparr>)
                       | (Inr _, st) \<Rightarrow> Some (Inr (Some (snapshot_id_of sha256 s)),
                           ws\<lparr>ws_store := st, ws_db := insert_snapshot (snapshot_id_of sha256 s)
                             (wr_head_generation w) db\<rparr>)))))"

text \<open>\<open>meanwhile\<close> is what other callers do between the second and the third phase of an attempt.\<close>

fun seal_attempts :: "nat \<Rightarrow> (nat \<Rightarrow> workspace_store \<Rightarrow> workspace_store) \<Rightarrow> unicode \<Rightarrow> admission_env \<Rightarrow> 'h hasher \<Rightarrow>
    (bytes \<Rightarrow> digest) \<Rightarrow> (bytes \<Rightarrow> json option) \<Rightarrow> contract option \<Rightarrow> str \<Rightarrow> snapshot_id option \<Rightarrow>
    workspace_store \<Rightarrow> snapshot_id ws_result option" where
  "seal_attempts 0 meanwhile u ae hs sha256 json_parse seams name parent ws = Some (Inl WorkspaceError_SealContention, ws)"
| "seal_attempts (Suc n) meanwhile u ae hs sha256 json_parse seams name parent ws =
     (case workspace_row_of (ws_db ws) name of
        Inl e \<Rightarrow> Some (Inl e, ws)
      | Inr w \<Rightarrow>
          (case build_tree u (ws_db ws) w of
             None \<Rightarrow> None
           | Some (Inl e) \<Rightarrow> Some (Inl e, ws)
           | Some (Inr tree) \<Rightarrow>
               (case plan_seal_jobs ae hs sha256 json_parse seams tree (ws_store ws) of
                  (Inl e, st) \<Rightarrow> Some (Inl e, ws\<lparr>ws_store := st\<rparr>)
                | (Inr jobs, st) \<Rightarrow>
                    (case seal_transaction u ae hs sha256 name parent (wr_head_generation w) jobs
                        (meanwhile n (ws\<lparr>ws_store := st\<rparr>)) of
                       None \<Rightarrow> None
                     | Some (Inl e, ws) \<Rightarrow> Some (Inl e, ws)
                     | Some (Inr (Some sid), ws) \<Rightarrow> Some (Inr sid, ws)
                     | Some (Inr None, ws) \<Rightarrow>
                         seal_attempts n meanwhile u ae hs sha256 json_parse seams name parent ws))))"

definition seal_snapshot :: "(nat \<Rightarrow> workspace_store \<Rightarrow> workspace_store) \<Rightarrow> unicode \<Rightarrow> admission_env \<Rightarrow> 'h hasher \<Rightarrow>
    (bytes \<Rightarrow> digest) \<Rightarrow> (bytes \<Rightarrow> json option) \<Rightarrow> contract option \<Rightarrow> str \<Rightarrow> snapshot_id option \<Rightarrow>
    workspace_store \<Rightarrow> snapshot_id ws_result option" where
  "seal_snapshot meanwhile = seal_attempts 3 meanwhile"

end
