(* ===== verification/Workspace_Gc.thy ===== *)
theory Workspace_Gc
  imports Workspace
begin

text \<open>
  The collection of a workspace store as an operation on sets and maps: which objects the marking
  reaches, which ones a pass deletes, what it leaves in quarantine; and what follows for the life of
  an object.
\<close>

section \<open>What the marking reaches\<close>

definition file_resident :: "object_store \<Rightarrow> digest \<Rightarrow> bool" where
  "file_resident st d = (\<exists>bs ro. resident_at st d = Some (Resident_File bs ro))"

text \<open>The closure of one snapshot row: the manifest itself and every object it names.\<close>

definition snapshot_closure :: "unicode \<Rightarrow> (bytes \<Rightarrow> digest) \<Rightarrow> object_store \<Rightarrow> snapshot_id \<Rightarrow> digest set" where
  "snapshot_closure u sha256 st sid =
     insert sid (case read_manifest_object u sha256 st sid of Inr s \<Rightarrow> set (manifest_objects s) | Inl _ \<Rightarrow> {})"

definition root_objects :: "unicode \<Rightarrow> (bytes \<Rightarrow> digest) \<Rightarrow> workspace_store \<Rightarrow> digest set" where
  "root_objects u sha256 ws =
     set (head_objects (ws_db ws)) \<union> snd ` set (md_lease_objects (ws_db ws)) \<union>
     (\<Union>sid \<in> fst ` set (md_snapshots (ws_db ws)). snapshot_closure u sha256 (ws_store ws) sid)"

definition reach_count :: "marks \<Rightarrow> digest \<Rightarrow> u32" where
  "reach_count m d = (case map_of (mk_reached m) d of None \<Rightarrow> 0 | Some n \<Rightarrow> n)"

lemma add_root_fold:
  fixes reached :: "(digest \<times> u32) list"
  assumes "distinct ds"
  shows "map_of (fold (\<lambda>d reached. bt_insert d ((case map_of reached d of None \<Rightarrow> 0 | Some n \<Rightarrow> n) + 1) reached)
      ds reached) d =
    (if d \<in> set ds then Some ((case map_of reached d of None \<Rightarrow> 0 | Some n \<Rightarrow> n) + 1) else map_of reached d)"
  using assms by (induction ds arbitrary: reached) (auto simp: map_of_bt_insert)

lemma map_of_add_root:
  "map_of (mk_reached (add_root objects m)) d =
    (if d \<in> set objects then Some (reach_count m d + 1) else map_of (mk_reached m) d)"
  using add_root_fold [of "remdups objects" "mk_reached m" d] by (simp add: add_root_def reach_count_def)

lemma is_rooted_add_root [simp]: "is_rooted (add_root objects m) d \<longleftrightarrow> d \<in> set objects \<or> is_rooted m d"
  by (simp add: is_rooted_def map_of_add_root)

lemma reach_count_add_root [simp]:
  "reach_count (add_root objects m) d = reach_count m d + (if d \<in> set objects then 1 else 0)"
  by (simp add: reach_count_def map_of_add_root)

lemma mk_snapshots_add_root [simp]: "mk_snapshots (add_root objects m) = mk_snapshots m"
  by (simp add: add_root_def)

lemma is_rooted_snapshots [simp]: "is_rooted (m\<lparr>mk_snapshots := ss\<rparr>) d = is_rooted m d"
  by (simp add: is_rooted_def)

lemma reach_count_snapshots [simp]: "reach_count (m\<lparr>mk_snapshots := ss\<rparr>) d = reach_count m d"
  by (simp add: reach_count_def)

text \<open>The closures the walk records, one for each row, and the count of the roots that reach an
  object.\<close>

lemma mark_snapshots_spec:
  "mark_snapshots u sha256 st sids m = Inr m' \<Longrightarrow>
   (\<forall>d. is_rooted m' d \<longleftrightarrow> is_rooted m d \<or> (\<exists>sid \<in> set sids. d \<in> snapshot_closure u sha256 st sid)) \<and>
   (\<forall>d. reach_count m' d = reach_count m d +
      of_nat (length (filter (\<lambda>sid. d \<in> snapshot_closure u sha256 st sid) sids))) \<and>
   (\<exists>ss. mk_snapshots m' = mk_snapshots m @ ss \<and> map sm_id ss = sids \<and>
      list_all (\<lambda>s. set (sm_objects s) = snapshot_closure u sha256 st (sm_id s) \<and> distinct (sm_objects s)) ss)"
proof (induction sids arbitrary: m)
  case (Cons sid sids)
  from Cons.prems obtain s m1 where s: "read_manifest_object u sha256 st sid = Inr s"
    and m1: "m1 = (let m2 = add_root (remdups (sid # manifest_objects s)) m in
      m2\<lparr>mk_snapshots := mk_snapshots m2 @ [\<lparr>sm_id = sid, sm_objects = remdups (sid # manifest_objects s),
        sm_logical = sum_list (map (entry_logical \<circ> snd) (snap_entries s))\<rparr>]\<rparr>)"
    and rest: "mark_snapshots u sha256 st sids m1 = Inr m'"
    by (auto simp: mark_snapshot_def result_simps Let_def)
  have cl: "snapshot_closure u sha256 st sid = insert sid (set (manifest_objects s))"
    using s by (simp add: snapshot_closure_def)
  from Cons.IH [OF rest] obtain ss where IH:
    "\<And>d. is_rooted m' d \<longleftrightarrow> is_rooted m1 d \<or> (\<exists>sid \<in> set sids. d \<in> snapshot_closure u sha256 st sid)"
    "\<And>d. reach_count m' d = reach_count m1 d +
      of_nat (length (filter (\<lambda>sid. d \<in> snapshot_closure u sha256 st sid) sids))"
    "mk_snapshots m' = mk_snapshots m1 @ ss" "map sm_id ss = sids"
    "list_all (\<lambda>s. set (sm_objects s) = snapshot_closure u sha256 st (sm_id s) \<and> distinct (sm_objects s)) ss"
    by blast
  have "\<exists>ss. mk_snapshots m' = mk_snapshots m @ ss \<and> map sm_id ss = sid # sids \<and>
      list_all (\<lambda>s. set (sm_objects s) = snapshot_closure u sha256 st (sm_id s) \<and> distinct (sm_objects s)) ss"
    using IH(3-5) cl by (intro exI [of _ "last (mk_snapshots m1) # ss"]) (simp add: m1 Let_def del: remdups.simps)
  moreover have "\<forall>d. is_rooted m1 d \<longleftrightarrow> d \<in> snapshot_closure u sha256 st sid \<or> is_rooted m d"
    "\<forall>d. reach_count m1 d = reach_count m d + (if d \<in> snapshot_closure u sha256 st sid then 1 else 0)"
    by (simp_all add: m1 Let_def cl del: remdups.simps)
  ultimately show ?case using IH(1,2) by (auto simp: algebra_simps)
qed simp

lemma mark_roots_spec:
  assumes "mark_roots u sha256 ws = Inr m"
  shows "is_rooted m d \<longleftrightarrow> d \<in> root_objects u sha256 ws"
    and "reach_count m d = (if d \<in> set (head_objects (ws_db ws)) then 1 else 0) +
      (if d \<in> snd ` set (md_lease_objects (ws_db ws)) then 1 else 0) +
      of_nat (length (filter (\<lambda>sid. d \<in> snapshot_closure u sha256 (ws_store ws) sid) (map fst (md_snapshots (ws_db ws)))))"
    and "map sm_id (mk_snapshots m) = map fst (md_snapshots (ws_db ws))"
    and "s \<in> set (mk_snapshots m) \<Longrightarrow>
      set (sm_objects s) = snapshot_closure u sha256 (ws_store ws) (sm_id s) \<and> distinct (sm_objects s)"
proof -
  let ?m0 = "\<lparr>mk_reached = [], mk_snapshots = []\<rparr>"
  have z: "\<not> is_rooted ?m0 d" "reach_count ?m0 d = 0" by (simp_all add: is_rooted_def reach_count_def)
  note spec = mark_snapshots_spec [OF assms [unfolded mark_roots_def Let_def]]
  show "is_rooted m d \<longleftrightarrow> d \<in> root_objects u sha256 ws"
    using spec z by (auto simp: root_objects_def)
  show "reach_count m d = (if d \<in> set (head_objects (ws_db ws)) then 1 else 0) +
      (if d \<in> snd ` set (md_lease_objects (ws_db ws)) then 1 else 0) +
      of_nat (length (filter (\<lambda>sid. d \<in> snapshot_closure u sha256 (ws_store ws) sid) (map fst (md_snapshots (ws_db ws)))))"
    using spec z by (auto simp del: filter_map)
  show "map sm_id (mk_snapshots m) = map fst (md_snapshots (ws_db ws))"
    "s \<in> set (mk_snapshots m) \<Longrightarrow>
      set (sm_objects s) = snapshot_closure u sha256 (ws_store ws) (sm_id s) \<and> distinct (sm_objects s)"
    using spec by (auto simp: list_all_iff)
qed


section \<open>One pass\<close>

lemma each_object_iff:
  assumes "store_wf st"
  shows "d \<in> fst ` set (each_object st) \<longleftrightarrow> file_resident st d"
    and "map_of (each_object st) d = (case resident_at st d of
      Some (Resident_File bs ro) \<Rightarrow> Some (of_nat (length bs)) | _ \<Rightarrow> None)"
    and "distinct (map fst (each_object st))"
proof -
  have d: "distinct (map fst (os_objects st))" using assms by (simp add: store_wf_def bt_sorted_distinct)
  let ?f = "\<lambda>(d, r). case r of Resident_File bs ro \<Rightarrow> Some (d, of_nat (length bs) :: u64) | _ \<Rightarrow> None"
  have m: "map_of (List.map_filter ?f m) d = (case map_of m d of
      Some (Resident_File bs ro) \<Rightarrow> Some (of_nat (length bs) :: u64) | _ \<Rightarrow> None) \<and>
      fst ` set (List.map_filter ?f m) \<subseteq> fst ` set m \<and> distinct (map fst (List.map_filter ?f m))"
    if "distinct (map fst m)" for m :: "(digest \<times> resident) list" and d
    using that
  proof (induction m)
    case (Cons e m)
    obtain k r where e: "e = (k, r)" by (cases e)
    from Cons.prems e have k: "k \<notin> fst ` set m" by simp
    then have none: "map_of m k = None" by (metis map_of_eq_None_iff)
    have IH: "fst ` set (List.map_filter ?f m) \<subseteq> fst ` set m" using Cons by simp
    then have "k \<notin> fst ` set (List.map_filter ?f m)" using k by blast
    with Cons e k none show ?case by (cases r) (simp_all add: map_filter_simps subset_insertI2)
  qed (simp add: map_filter_simps)
  show at: "map_of (each_object st) d = (case resident_at st d of
      Some (Resident_File bs ro) \<Rightarrow> Some (of_nat (length bs)) | _ \<Rightarrow> None)"
    using m [OF d] by (simp add: each_object_def resident_at_def)
  show "distinct (map fst (each_object st))" using m [OF d] by (simp add: each_object_def)
  have "d \<in> fst ` set (each_object st) \<longleftrightarrow> map_of (each_object st) d \<noteq> None"
    by (metis map_of_eq_None_iff)
  also have "\<dots> \<longleftrightarrow> file_resident st d"
    unfolding at by (auto simp: file_resident_def split: option.splits resident.splits)
  finally show "d \<in> fst ` set (each_object st) \<longleftrightarrow> file_resident st d" .
qed

definition doomed :: "int \<Rightarrow> marks \<Rightarrow> (digest \<times> u64) list \<Rightarrow> digest \<Rightarrow> int \<Rightarrow> bool" where
  "doomed epoch m resident d marked \<longleftrightarrow> \<not> is_rooted m d \<and> d \<in> fst ` set resident \<and> marked \<le> epoch - 2"

definition gc_sound :: "gc_state \<Rightarrow> bool" where
  "gc_sound g \<longleftrightarrow> bt_sorted (os_objects (gs_store g)) \<and> bt_sorted (gs_quarantine g)"

lemma remove_object_map:
  "bt_sorted (os_objects st) \<Longrightarrow>
   bt_sorted (os_objects (snd (remove_object d st))) \<and> os_temps (snd (remove_object d st)) = os_temps st \<and>
   resident_at (snd (remove_object d st)) k =
     (if k = d \<and> file_resident st d then None else resident_at st k) \<and>
   (fst (remove_object d st) \<longleftrightarrow> file_resident st d)"
  by (auto simp: remove_object_def resident_at_def file_resident_def bt_sorted_remove map_of_bt_remove
      split: option.splits resident.splits)

lemma gc_row_spec:
  assumes "gc_sound g" "gc_row epoch m resident (d, marked) g = g'"
  shows "gc_sound g' \<and> os_temps (gs_store g') = os_temps (gs_store g) \<and>
    (\<forall>k. resident_at (gs_store g') k = (if k = d \<and> doomed epoch m resident d marked \<and> file_resident (gs_store g) d
        then None else resident_at (gs_store g) k)) \<and>
    (\<forall>k. map_of (gs_quarantine g') k =
      (if k = d \<and> (is_rooted m d \<or> d \<notin> fst ` set resident \<or> marked \<le> epoch - 2) then None
       else map_of (gs_quarantine g) k))"
proof -
  let ?o = "remove_object d (gs_store g)"
  have ro: "bt_sorted (os_objects (snd ?o))" "os_temps (snd ?o) = os_temps (gs_store g)"
    "\<And>k. resident_at (snd ?o) k = (if k = d \<and> file_resident (gs_store g) d then None else resident_at (gs_store g) k)"
    "fst ?o \<longleftrightarrow> file_resident (gs_store g) d"
    using assms(1) remove_object_map [of "gs_store g" d] by (auto simp: gc_sound_def)
  have rm: "bt_sorted (bt_remove d (gs_quarantine g))"
    "\<And>k. map_of (bt_remove d (gs_quarantine g)) k = (if k = d then None else map_of (gs_quarantine g) k)"
    using assms(1) by (auto simp: gc_sound_def bt_sorted_remove map_of_bt_remove)
  consider "is_rooted m d \<or> d \<notin> fst ` set resident"
    | "\<not> (is_rooted m d \<or> d \<notin> fst ` set resident)" "marked \<le> epoch - 2"
    | "\<not> (is_rooted m d \<or> d \<notin> fst ` set resident)" "\<not> marked \<le> epoch - 2" by blast
  then show ?thesis
  proof cases
    case 1
    then have "gs_store g' = gs_store g" "gs_quarantine g' = bt_remove d (gs_quarantine g)"
      using assms(2) by (auto simp: gc_row_def Let_def)
    then show ?thesis using 1 rm assms(1) by (auto simp: gc_sound_def doomed_def)
  next
    case 2
    then have "gs_store g' = snd ?o" "gs_quarantine g' = bt_remove d (gs_quarantine g)"
      using assms(2) by (auto simp: gc_row_def Let_def split: prod.splits)
    then show ?thesis using 2 rm ro by (auto simp: gc_sound_def doomed_def)
  next
    case 3
    then have "g' = g" using assms(2) by (auto simp: gc_row_def Let_def)
    then show ?thesis using 3 assms(1) by (auto simp: doomed_def)
  qed
qed

lemma gc_rows_spec:
  assumes "distinct (map fst rows)" "gc_sound g" "fold (gc_row epoch m resident) rows g = g'"
  shows "gc_sound g' \<and> os_temps (gs_store g') = os_temps (gs_store g) \<and>
    (\<forall>k. resident_at (gs_store g') k =
      (if (\<exists>marked. map_of rows k = Some marked \<and> doomed epoch m resident k marked) \<and> file_resident (gs_store g) k
       then None else resident_at (gs_store g) k)) \<and>
    (\<forall>k. map_of (gs_quarantine g') k =
      (case map_of rows k of
         None \<Rightarrow> map_of (gs_quarantine g) k
       | Some marked \<Rightarrow> if is_rooted m k \<or> k \<notin> fst ` set resident \<or> marked \<le> epoch - 2 then None
           else map_of (gs_quarantine g) k))"
  using assms
proof (induction rows arbitrary: g)
  case (Cons row rows)
  obtain d marked where row: "row = (d, marked)" by (cases row)
  let ?g1 = "gc_row epoch m resident (d, marked) g"
  have d: "map_of rows d = None" using Cons.prems(1) row by (simp add: map_of_eq_None_iff)
  note s1 = gc_row_spec [OF Cons.prems(2) refl, of epoch m resident d marked]
  from Cons.IH [of ?g1] Cons.prems row s1
  have "gc_sound g'" "os_temps (gs_store g') = os_temps (gs_store g)"
    and st: "\<And>k. resident_at (gs_store g') k =
      (if (\<exists>marked. map_of rows k = Some marked \<and> doomed epoch m resident k marked) \<and> file_resident (gs_store ?g1) k
       then None else resident_at (gs_store ?g1) k)"
    and q: "\<And>k. map_of (gs_quarantine g') k =
      (case map_of rows k of
         None \<Rightarrow> map_of (gs_quarantine ?g1) k
       | Some marked \<Rightarrow> if is_rooted m k \<or> k \<notin> fst ` set resident \<or> marked \<le> epoch - 2 then None
           else map_of (gs_quarantine ?g1) k)"
    by simp_all
  then show ?case using s1 d row by (auto simp: file_resident_def split: option.splits if_splits)
qed simp

lemma gc_new_spec:
  assumes "bt_sorted (gs_quarantine g)" "fold (gc_quarantine_new epoch m already) ds g = g'"
  shows "gs_store g' = gs_store g \<and> bt_sorted (gs_quarantine g') \<and>
    (\<forall>k. map_of (gs_quarantine g') k =
      (if k \<in> set ds \<and> \<not> is_rooted m k \<and> k \<notin> fst ` set already \<and> map_of (gs_quarantine g) k = None
       then Some epoch else map_of (gs_quarantine g) k))"
  using assms
proof (induction ds arbitrary: g)
  case (Cons d ds)
  let ?g1 = "gc_quarantine_new epoch m already d g"
  have s1: "gs_store ?g1 = gs_store g" "bt_sorted (gs_quarantine ?g1)"
    "\<And>k. map_of (gs_quarantine ?g1) k =
      (if k = d \<and> \<not> is_rooted m k \<and> k \<notin> fst ` set already \<and> map_of (gs_quarantine g) k = None
       then Some epoch else map_of (gs_quarantine g) k)"
    using Cons.prems(1) by (auto simp: gc_quarantine_new_def bt_sorted_insert map_of_bt_insert)
  have IH: "gs_store g' = gs_store ?g1" "bt_sorted (gs_quarantine g')"
    "\<And>k. map_of (gs_quarantine g') k =
      (if k \<in> set ds \<and> \<not> is_rooted m k \<and> k \<notin> fst ` set already \<and> map_of (gs_quarantine ?g1) k = None
       then Some epoch else map_of (gs_quarantine ?g1) k)"
    using Cons.IH [OF s1(2) Cons.prems(2) [unfolded fold_simps]] by blast+
  have "map_of (gs_quarantine g') k =
      (if k \<in> set (d # ds) \<and> \<not> is_rooted m k \<and> k \<notin> fst ` set already \<and> map_of (gs_quarantine g) k = None
       then Some epoch else map_of (gs_quarantine g) k)" for k
    unfolding IH(3) s1(3) by (cases "k = d") simp_all
  with IH(1,2) s1(1) show ?case by simp
qed simp

text \<open>The specification of a pass: the objects it takes and the quarantine it leaves.\<close>

definition taken_by :: "unicode \<Rightarrow> (bytes \<Rightarrow> digest) \<Rightarrow> workspace_store \<Rightarrow> digest \<Rightarrow> bool" where
  "taken_by u sha256 ws d \<longleftrightarrow> d \<notin> root_objects u sha256 ws \<and> file_resident (ws_store ws) d \<and>
     (\<exists>marked. map_of (md_quarantine (ws_db ws)) d = Some marked \<and> marked + 1 \<le> md_epoch (ws_db ws))"

definition quarantine_after :: "unicode \<Rightarrow> (bytes \<Rightarrow> digest) \<Rightarrow> workspace_store \<Rightarrow> digest \<Rightarrow> int option" where
  "quarantine_after u sha256 ws d =
     (if d \<in> root_objects u sha256 ws \<or> \<not> file_resident (ws_store ws) d then None
      else case map_of (md_quarantine (ws_db ws)) d of
        None \<Rightarrow> Some (md_epoch (ws_db ws) + 1)
      | Some marked \<Rightarrow> if marked + 1 \<le> md_epoch (ws_db ws) then None else Some marked)"

lemma collect_spec:
  assumes "store_wf (ws_store ws)" "bt_sorted (md_quarantine (ws_db ws))"
    and "collect u sha256 ws = (Inr report, ws')"
  shows "resident_at (ws_store ws') d = (if taken_by u sha256 ws d then None else resident_at (ws_store ws) d)"
    and "map_of (md_quarantine (ws_db ws')) d = quarantine_after u sha256 ws d"
    and "ws_db ws' = (ws_db ws)\<lparr>md_epoch := md_epoch (ws_db ws) + 1, md_quarantine := md_quarantine (ws_db ws')\<rparr>"
    and "store_wf (ws_store ws')" "bt_sorted (md_quarantine (ws_db ws'))"
    and "os_temps (ws_store ws') = os_temps (ws_store ws)"
proof -
  obtain m where m: "mark_roots u sha256 ws = Inr m"
    using assms(3) by (auto simp: collect_def Let_def split: sum.splits)
  define epoch where "epoch = md_epoch (ws_db ws) + 1"
  define resident where "resident = each_object (ws_store ws)"
  define report0 where "report0 = \<lparr>gc_roots = of_nat (length (mk_reached m)), gc_resident = of_nat (length resident),
                gc_newly_quarantined = 0, gc_rescued = 0, gc_deleted = 0, gc_bytes_deleted = 0,
                gc_epoch = word_of_int epoch\<rparr>"
  define g0 where "g0 = \<lparr>gs_store = ws_store ws, gs_quarantine = md_quarantine (ws_db ws), gs_report = report0\<rparr>"
  define g1 where "g1 = fold (gc_row epoch m resident) (md_quarantine (ws_db ws)) g0"
  define g2 where "g2 = fold (gc_quarantine_new epoch m (md_quarantine (ws_db ws))) (map fst resident) g1"
  have ws': "ws' = ws\<lparr>ws_store := gs_store g2,
      ws_db := (ws_db ws)\<lparr>md_epoch := epoch, md_quarantine := gs_quarantine g2\<rparr>\<rparr>"
    using assms(3) m
    by (simp add: collect_def Let_def g2_def g1_def g0_def resident_def epoch_def report0_def)
  have sound: "gc_sound g0" using assms(1,2) by (simp add: gc_sound_def g0_def store_wf_def)
  have dist: "distinct (map fst (md_quarantine (ws_db ws)))" using assms(2) by (rule bt_sorted_distinct)
  note s1 = gc_rows_spec [OF dist sound g1_def [symmetric]]
  have "bt_sorted (gs_quarantine g1)" using s1 by (simp add: gc_sound_def)
  note s2 = gc_new_spec [OF this g2_def [symmetric]]
  have res: "\<And>k. k \<in> fst ` set resident \<longleftrightarrow> file_resident (ws_store ws) k"
    unfolding resident_def by (rule each_object_iff(1) [OF assms(1)])
  have rooted: "\<And>k. is_rooted m k \<longleftrightarrow> k \<in> root_objects u sha256 ws" by (rule mark_roots_spec(1) [OF m])
  show "resident_at (ws_store ws') d = (if taken_by u sha256 ws d then None else resident_at (ws_store ws) d)"
    using s1 s2 res rooted by (auto simp: ws' g0_def taken_by_def doomed_def epoch_def)
  have already: "k \<in> fst ` set (md_quarantine (ws_db ws)) \<longleftrightarrow> map_of (md_quarantine (ws_db ws)) k \<noteq> None" for k
    by (metis map_of_eq_None_iff)
  show "map_of (md_quarantine (ws_db ws')) d = quarantine_after u sha256 ws d"
    using s1 s2 res rooted already
    by (auto simp: ws' g0_def quarantine_after_def epoch_def split: option.splits)
  show "ws_db ws' = (ws_db ws)\<lparr>md_epoch := md_epoch (ws_db ws) + 1, md_quarantine := md_quarantine (ws_db ws')\<rparr>"
    by (simp add: ws' epoch_def)
  show "store_wf (ws_store ws')" "bt_sorted (md_quarantine (ws_db ws'))"
    "os_temps (ws_store ws') = os_temps (ws_store ws)"
    using s1 s2 assms(1) by (simp_all add: ws' gc_sound_def store_wf_def g0_def)
qed


section \<open>Passes in a row\<close>

lemma collect_Inr_iff:
  "(\<exists>report ws'. collect u sha256 ws = (Inr report, ws')) \<longleftrightarrow> (\<exists>m. mark_roots u sha256 ws = Inr m)"
  by (auto simp: collect_def Let_def split: sum.splits)

lemma open_object_cong: "resident_at st d = resident_at st' d \<Longrightarrow> open_object d st = open_object d st'"
  by (simp add: open_object_def)

lemma read_manifest_cong:
  "resident_at st sid = resident_at st' sid \<Longrightarrow>
   read_manifest_object u sha256 st sid = read_manifest_object u sha256 st' sid"
  using open_object_cong [of st sid st'] by (simp add: read_manifest_object_def)

lemma mark_snapshots_cong:
  assumes "\<And>sid. sid \<in> set sids \<Longrightarrow> resident_at st sid = resident_at st' sid"
  shows "mark_snapshots u sha256 st sids m = mark_snapshots u sha256 st' sids m"
  using assms
proof (induction sids arbitrary: m)
  case (Cons sid sids)
  have "mark_snapshot u sha256 st sid m = mark_snapshot u sha256 st' sid m"
    using read_manifest_cong [of st sid st' u sha256] Cons.prems by (simp add: mark_snapshot_def)
  with Cons show ?case by (cases "mark_snapshot u sha256 st' sid m") simp_all
qed simp

lemma snapshot_row_rooted: "sid \<in> fst ` set (md_snapshots (ws_db ws)) \<Longrightarrow> sid \<in> root_objects u sha256 ws"
  by (auto simp: root_objects_def snapshot_closure_def)

lemma collect_stable:
  assumes "store_wf (ws_store ws)" "bt_sorted (md_quarantine (ws_db ws))"
    and "collect u sha256 ws = (Inr report, ws')"
  shows "root_objects u sha256 ws' = root_objects u sha256 ws"
    and "mark_roots u sha256 ws' = mark_roots u sha256 ws"
proof -
  note spec = collect_spec [OF assms]
  have same: "resident_at (ws_store ws') sid = resident_at (ws_store ws) sid"
    if "sid \<in> fst ` set (md_snapshots (ws_db ws))" for sid
    using spec(1) [of sid] snapshot_row_rooted [OF that, of u sha256] by (simp add: taken_by_def)
  have db: "head_objects (ws_db ws') = head_objects (ws_db ws)"
    "md_lease_objects (ws_db ws') = md_lease_objects (ws_db ws)" "md_snapshots (ws_db ws') = md_snapshots (ws_db ws)"
    by (subst spec(3); simp add: head_objects_def)+
  have "snapshot_closure u sha256 (ws_store ws') sid = snapshot_closure u sha256 (ws_store ws) sid"
    if "sid \<in> fst ` set (md_snapshots (ws_db ws))" for sid
    using read_manifest_cong [OF same [OF that], of u sha256] by (simp add: snapshot_closure_def)
  then show "root_objects u sha256 ws' = root_objects u sha256 ws"
    by (auto simp: root_objects_def db)
  show "mark_roots u sha256 ws' = mark_roots u sha256 ws"
    using same mark_snapshots_cong [of "map fst (md_snapshots (ws_db ws))" "ws_store ws'" "ws_store ws" u sha256]
    by (simp add: mark_roots_def Let_def db)
qed

definition quarantine_ok :: "metadata \<Rightarrow> bool" where
  "quarantine_ok db \<longleftrightarrow> bt_sorted (md_quarantine db) \<and>
     (\<forall>d marked. map_of (md_quarantine db) d = Some marked \<longrightarrow> marked \<le> md_epoch db)"

lemma collect_quarantine_ok:
  assumes "store_wf (ws_store ws)" "quarantine_ok (ws_db ws)" "collect u sha256 ws = (Inr report, ws')"
  shows "quarantine_ok (ws_db ws')"
proof -
  have sorted: "bt_sorted (md_quarantine (ws_db ws))" using assms(2) by (simp add: quarantine_ok_def)
  note spec = collect_spec [OF assms(1) sorted assms(3)]
  have "md_epoch (ws_db ws') = md_epoch (ws_db ws) + 1" by (subst spec(3)) simp
  then show ?thesis
    using assms(2) spec(2,5) by (auto simp: quarantine_ok_def quarantine_after_def split: if_splits option.splits; force)
qed

text \<open>\<open>passes n\<close>: that many collections with nothing in between.\<close>

fun passes :: "unicode \<Rightarrow> (bytes \<Rightarrow> digest) \<Rightarrow> nat \<Rightarrow> workspace_store \<Rightarrow> (workspace_error + unit) \<times> workspace_store" where
  "passes u sha256 0 ws = (Inr (), ws)"
| "passes u sha256 (Suc n) ws = op_then (collect u sha256 ws) (\<lambda>_ ws. passes u sha256 n ws)"

lemma passes_Suc:
  assumes "store_wf (ws_store ws)" "quarantine_ok (ws_db ws)" "mark_roots u sha256 ws = Inr m"
  obtains ws' where "passes u sha256 (Suc n) ws = passes u sha256 n ws'"
    "store_wf (ws_store ws')" "quarantine_ok (ws_db ws')" "mark_roots u sha256 ws' = Inr m"
    "root_objects u sha256 ws' = root_objects u sha256 ws" "md_epoch (ws_db ws') = md_epoch (ws_db ws) + 1"
    "\<And>d. resident_at (ws_store ws') d = (if taken_by u sha256 ws d then None else resident_at (ws_store ws) d)"
    "\<And>d. map_of (md_quarantine (ws_db ws')) d = quarantine_after u sha256 ws d"
proof -
  have sorted: "bt_sorted (md_quarantine (ws_db ws))" using assms(2) by (simp add: quarantine_ok_def)
  obtain report ws' where c: "collect u sha256 ws = (Inr report, ws')"
    using collect_Inr_iff assms(3) by blast
  note spec = collect_spec [OF assms(1) sorted c] and st = collect_stable [OF assms(1) sorted c]
  have "md_epoch (ws_db ws') = md_epoch (ws_db ws) + 1" by (subst spec(3)) simp
  with that [of ws'] spec(1,2,4) st assms(3) collect_quarantine_ok [OF assms(1,2) c] c show ?thesis by simp
qed

lemma three_passes:
  assumes "store_wf (ws_store ws)" "quarantine_ok (ws_db ws)" "mark_roots u sha256 ws = Inr m"
  shows "\<exists>ws'. passes u sha256 3 ws = (Inr (), ws') \<and>
    (\<forall>d. resident_at (ws_store ws') d =
      (if file_resident (ws_store ws) d \<and> d \<notin> root_objects u sha256 ws then None else resident_at (ws_store ws) d))"
proof -
  have three: "(3 :: nat) = Suc (Suc (Suc 0))" by simp
  obtain ws1 where w1: "passes u sha256 (Suc (Suc (Suc 0))) ws = passes u sha256 (Suc (Suc 0)) ws1"
    "store_wf (ws_store ws1)" "quarantine_ok (ws_db ws1)" "mark_roots u sha256 ws1 = Inr m"
    "root_objects u sha256 ws1 = root_objects u sha256 ws" "md_epoch (ws_db ws1) = md_epoch (ws_db ws) + 1"
    "\<And>d. resident_at (ws_store ws1) d = (if taken_by u sha256 ws d then None else resident_at (ws_store ws) d)"
    "\<And>d. map_of (md_quarantine (ws_db ws1)) d = quarantine_after u sha256 ws d"
    by (rule passes_Suc [OF assms, of "Suc (Suc 0)"]) (rule that, assumption+)
  obtain ws2 where w2: "passes u sha256 (Suc (Suc 0)) ws1 = passes u sha256 (Suc 0) ws2"
    "store_wf (ws_store ws2)" "quarantine_ok (ws_db ws2)" "mark_roots u sha256 ws2 = Inr m"
    "root_objects u sha256 ws2 = root_objects u sha256 ws1" "md_epoch (ws_db ws2) = md_epoch (ws_db ws1) + 1"
    "\<And>d. resident_at (ws_store ws2) d = (if taken_by u sha256 ws1 d then None else resident_at (ws_store ws1) d)"
    "\<And>d. map_of (md_quarantine (ws_db ws2)) d = quarantine_after u sha256 ws1 d"
    by (rule passes_Suc [OF w1(2-4), of "Suc 0"]) (rule that, assumption+)
  obtain ws3 where w3: "passes u sha256 (Suc 0) ws2 = passes u sha256 0 ws3"
    "\<And>d. resident_at (ws_store ws3) d = (if taken_by u sha256 ws2 d then None else resident_at (ws_store ws2) d)"
    by (rule passes_Suc [OF w2(2-4), of 0]) (rule that, assumption+)
  have old: "marked \<le> md_epoch (ws_db ws)" if "map_of (md_quarantine (ws_db ws)) d = Some marked" for d marked
    using assms(2) that by (auto simp: quarantine_ok_def)
  have fr: "file_resident st d \<longleftrightarrow> file_resident st' d" if "resident_at st d = resident_at st' d" for st st' d
    using that by (simp add: file_resident_def)
  have kept: "resident_at (ws_store ws3) d = resident_at (ws_store ws) d"
    if "\<not> (file_resident (ws_store ws) d \<and> d \<notin> root_objects u sha256 ws)" for d
  proof -
    have 1: "resident_at (ws_store ws1) d = resident_at (ws_store ws) d"
      using that w1(7) [of d] by (auto simp: taken_by_def)
    then have 2: "resident_at (ws_store ws2) d = resident_at (ws_store ws) d"
      using that w2(7) [of d] w1(5) fr [OF 1] by (auto simp: taken_by_def)
    then show ?thesis using that w3(2) [of d] w1(5) w2(5) fr [OF 2] by (auto simp: taken_by_def)
  qed
  have gone: "resident_at (ws_store ws3) d = None"
    if d: "file_resident (ws_store ws) d" "d \<notin> root_objects u sha256 ws" for d
  proof (cases "resident_at (ws_store ws2) d = None")
    case False
    then have 2: "\<not> taken_by u sha256 ws1 d" "resident_at (ws_store ws2) d = resident_at (ws_store ws1) d"
      "resident_at (ws_store ws1) d \<noteq> None" using w2(7) [of d] by (auto split: if_splits)
    then have 1: "\<not> taken_by u sha256 ws d" "resident_at (ws_store ws1) d = resident_at (ws_store ws) d"
      using w1(7) [of d] by (auto split: if_splits)
    have fr1: "file_resident (ws_store ws1) d" and fr2: "file_resident (ws_store ws2) d"
      using d(1) fr [OF 1(2)] fr [OF 2(2)] by simp_all
    obtain k where k: "map_of (md_quarantine (ws_db ws1)) d = Some k" "k \<le> md_epoch (ws_db ws) + 1"
      using 1(1) d old [of d] w1(8) [of d] by (auto simp: taken_by_def quarantine_after_def split: option.splits)
    have "map_of (md_quarantine (ws_db ws2)) d = Some k"
      using 2(1) k fr1 d(2) w1(5) w2(8) [of d] by (auto simp: taken_by_def quarantine_after_def)
    then have "taken_by u sha256 ws2 d"
      using fr2 d(2) w1(5,6) w2(5,6) k(2) by (auto simp: taken_by_def)
    then show ?thesis by (simp add: w3(2))
  qed (simp add: w3(2))
  have "resident_at (ws_store ws3) d =
      (if file_resident (ws_store ws) d \<and> d \<notin> root_objects u sha256 ws then None else resident_at (ws_store ws) d)" for d
    using kept [of d] gone [of d] by auto
  then show ?thesis unfolding three w1(1) w2(1) w3(1) by auto
qed


section \<open>Usage\<close>

definition object_size :: "object_store \<Rightarrow> digest \<Rightarrow> u64" where
  "object_size st d = (case resident_at st d of Some (Resident_File bs ro) \<Rightarrow> of_nat (length bs) | _ \<Rightarrow> 0)"

lemma sum_sized:
  fixes f :: "digest \<Rightarrow> u64 option"
  shows "sum_list (map snd (filter (\<lambda>(d, n). P d) (List.map_filter (\<lambda>d. map_option (Pair d) (f d)) ds))) =
    sum_list (map (\<lambda>d. case f d of None \<Rightarrow> 0 | Some n \<Rightarrow> n) (filter P ds))"
  by (induction ds) (auto simp: map_filter_simps split: option.split)

lemma filter_count_one:
  assumes "distinct xs" "x \<in> set xs" "P x"
  shows "length (filter P xs) = 1 \<longleftrightarrow> (\<forall>y \<in> set xs. P y \<longrightarrow> y = x)"
proof -
  have "length (filter P xs) = card {y \<in> set xs. P y}"
    using assms(1) by (metis distinct_card distinct_filter set_filter)
  moreover have "card {y \<in> set xs. P y} = 1 \<longleftrightarrow> {y \<in> set xs. P y} = {x}"
  proof
    assume "card {y \<in> set xs. P y} = 1"
    then obtain a where "{y \<in> set xs. P y} = {a}" by (rule card_1_singletonE)
    moreover from this have "x = a" using assms(2,3) by blast
    ultimately show "{y \<in> set xs. P y} = {x}" by simp
  qed simp
  ultimately show ?thesis using assms(2,3) by auto
qed

lemma root_objects_without:
  assumes "bt_sorted (md_snapshots (ws_db ws))" "sid \<in> fst ` set (md_snapshots (ws_db ws))"
  shows "root_objects u sha256 (snd (delete_snapshot sid ws)) =
    set (head_objects (ws_db ws)) \<union> snd ` set (md_lease_objects (ws_db ws)) \<union>
    (\<Union>other \<in> fst ` set (md_snapshots (ws_db ws)) - {sid}. snapshot_closure u sha256 (ws_store ws) other)"
proof -
  have "fst ` set (bt_remove sid (md_snapshots (ws_db ws))) = dom (map_of (bt_remove sid (md_snapshots (ws_db ws))))"
    by (simp add: dom_map_of_conv_image_fst)
  also have "\<dots> = fst ` set (md_snapshots (ws_db ws)) - {sid}"
    using assms(1) by (auto simp: map_of_bt_remove dom_map_of_conv_image_fst [symmetric])
  finally show ?thesis
    using assms(2) by (auto simp: delete_snapshot_def root_objects_def head_objects_def map_of_eq_None_iff)
qed

lemma u32_of_nat_eq: "a < 2 ^ 32 \<Longrightarrow> b < 2 ^ 32 \<Longrightarrow> (of_nat a :: u32) = of_nat b \<longleftrightarrow> a = b"
  by (simp add: word_of_nat_eq_iff take_bit_eq_mod)

lemma exclusive_iff:
  assumes "mark_roots u sha256 ws = Inr m" "bt_sorted (md_snapshots (ws_db ws))"
    and "length (md_snapshots (ws_db ws)) + 2 < 2 ^ 32"
    and "sid \<in> fst ` set (md_snapshots (ws_db ws))" "d \<in> snapshot_closure u sha256 (ws_store ws) sid"
  shows "map_of (mk_reached m) d = Some 1 \<longleftrightarrow> d \<notin> root_objects u sha256 (snd (delete_snapshot sid ws))"
proof -
  let ?ids = "map fst (md_snapshots (ws_db ws))" and ?cl = "\<lambda>sid. d \<in> snapshot_closure u sha256 (ws_store ws) sid"
  let ?h = "if d \<in> set (head_objects (ws_db ws)) then 1 else 0 :: nat"
  let ?l = "if d \<in> snd ` set (md_lease_objects (ws_db ws)) then 1 else 0 :: nat"
  let ?n = "length (filter ?cl ?ids)"
  have cnt: "reach_count m d = of_nat (?h + ?l + ?n)" using mark_roots_spec(2) [OF assms(1), of d] by simp
  have le: "?h + ?l + ?n < 2 ^ 32"
    using assms(3) length_filter_le [of ?cl ?ids] by (auto simp del: length_filter_le)
  have pos: "1 \<le> ?n" using assms(4,5) by (auto simp: Suc_le_eq length_greater_0_conv filter_empty_conv)
  have "d \<in> root_objects u sha256 ws" using assms(4,5) by (auto simp: root_objects_def)
  then have "map_of (mk_reached m) d = Some (reach_count m d)"
    using mark_roots_spec(1) [OF assms(1), of d] by (auto simp: is_rooted_def reach_count_def)
  then have "map_of (mk_reached m) d = Some 1 \<longleftrightarrow> (of_nat (?h + ?l + ?n) :: u32) = of_nat 1"
    using cnt by simp
  also have "\<dots> \<longleftrightarrow> ?h + ?l + ?n = 1"
    using le by (intro u32_of_nat_eq) simp_all
  also have "\<dots> \<longleftrightarrow> ?h = 0 \<and> ?l = 0 \<and> ?n = 1" using pos by auto
  also have "?n = 1 \<longleftrightarrow> (\<forall>other \<in> set ?ids. ?cl other \<longrightarrow> other = sid)"
    using assms(2,4,5) by (intro filter_count_one) (simp_all add: bt_sorted_distinct)
  finally show ?thesis unfolding root_objects_without [OF assms(2,4)] by (auto split: if_splits)
qed

lemma usage_spec:
  assumes "usage u sha256 ws = Inr entries" "store_wf (ws_store ws)" "bt_sorted (md_snapshots (ws_db ws))"
    and "length (md_snapshots (ws_db ws)) + 2 < 2 ^ 32" "e \<in> set entries"
  shows "su_id e \<in> fst ` set (md_snapshots (ws_db ws))"
    and "su_resident e = (\<Sum>d \<in> snapshot_closure u sha256 (ws_store ws) (su_id e). object_size (ws_store ws) d)"
    and "su_exclusive e = (\<Sum>d \<in> snapshot_closure u sha256 (ws_store ws) (su_id e) -
      root_objects u sha256 (snd (delete_snapshot (su_id e) ws)). object_size (ws_store ws) d)"
proof -
  obtain m s where m: "mark_roots u sha256 ws = Inr m" and s: "s \<in> set (mk_snapshots m)"
    and e: "e = usage_of m (each_object (ws_store ws)) s"
    using assms(1,5) by (auto simp: usage_def result_simps)
  have sid: "sm_id s \<in> fst ` set (md_snapshots (ws_db ws))"
    using mark_roots_spec(3) [OF m] s by (metis image_eqI list.set_map)
  note cl = mark_roots_spec(4) [OF m s]
  have "su_id e = sm_id s" by (simp add: e usage_of_def Let_def)
  then show "su_id e \<in> fst ` set (md_snapshots (ws_db ws))" using sid by simp
  have sz: "(case map_of (each_object (ws_store ws)) d of None \<Rightarrow> 0 | Some n \<Rightarrow> n) = object_size (ws_store ws) d" for d
    unfolding each_object_iff(2) [OF assms(2)] by (simp add: object_size_def split: option.split resident.split)
  have "su_resident e = sum_list (map (object_size (ws_store ws)) (sm_objects s))"
    using sum_sized [of "\<lambda>_. True" "map_of (each_object (ws_store ws))" "sm_objects s"]
    by (simp add: e usage_of_def Let_def sz)
  then show "su_resident e = (\<Sum>d \<in> snapshot_closure u sha256 (ws_store ws) (su_id e). object_size (ws_store ws) d)"
    using cl \<open>su_id e = sm_id s\<close> by (simp add: sum_list_distinct_conv_sum_set)
  have "su_exclusive e = sum_list (map (object_size (ws_store ws))
      (filter (\<lambda>d. map_of (mk_reached m) d = Some 1) (sm_objects s)))"
    using sum_sized [of "\<lambda>d. map_of (mk_reached m) d = Some 1" "map_of (each_object (ws_store ws))" "sm_objects s"]
    by (simp add: e usage_of_def Let_def sz)
  also have "\<dots> = (\<Sum>d \<in> {d \<in> set (sm_objects s). map_of (mk_reached m) d = Some 1}. object_size (ws_store ws) d)"
    using cl by (simp add: sum_list_distinct_conv_sum_set)
  also have "{d \<in> set (sm_objects s). map_of (mk_reached m) d = Some 1} =
      snapshot_closure u sha256 (ws_store ws) (su_id e) - root_objects u sha256 (snd (delete_snapshot (su_id e) ws))"
    using cl exclusive_iff [OF m assms(3,4) sid] \<open>su_id e = sm_id s\<close> by auto
  finally show "su_exclusive e = (\<Sum>d \<in> snapshot_closure u sha256 (ws_store ws) (su_id e) -
      root_objects u sha256 (snd (delete_snapshot (su_id e) ws)). object_size (ws_store ws) d)" .
qed

end
