(* ===== verification/Workspace_Safety.thy ===== *)
theory Workspace_Safety
  imports Workspace_Gc
begin

text \<open>
  The invariant of a workspace store: every object a root refers to is resident and hashes to its name,
  and every snapshot row leads to a readable manifest. Each operation keeps it, the transaction of a
  commit even when other operations ran between its checks and its lock.
\<close>

section \<open>The invariant\<close>

definition snapshot_rooted_ok :: "unicode \<Rightarrow> (bytes \<Rightarrow> digest) \<Rightarrow> object_store \<Rightarrow> snapshot_id \<Rightarrow> bool" where
  "snapshot_rooted_ok u sha256 st sid \<longleftrightarrow>
     (\<exists>s. read_manifest_object u sha256 st sid = Inr s \<and> set (manifest_objects s) \<subseteq> store_digests st)"

definition ws_ok :: "unicode \<Rightarrow> (bytes \<Rightarrow> digest) \<Rightarrow> workspace_store \<Rightarrow> bool" where
  "ws_ok u sha256 ws \<longleftrightarrow> store_ok sha256 (ws_store ws) \<and> quarantine_ok (ws_db ws) \<and>
     bt_sorted (md_snapshots (ws_db ws)) \<and>
     set (head_objects (ws_db ws)) \<union> snd ` set (md_lease_objects (ws_db ws)) \<subseteq> store_digests (ws_store ws) \<and>
     (\<forall>sid \<in> fst ` set (md_snapshots (ws_db ws)). snapshot_rooted_ok u sha256 (ws_store ws) sid)"

lemma store_digests_file_resident: "d \<in> store_digests st \<longleftrightarrow> file_resident st d"
  by (auto simp: store_digests_def object_bytes_def file_resident_def resident_at_def
      split: option.splits resident.splits)

lemma snapshot_rooted_resident:
  assumes "snapshot_rooted_ok u sha256 st sid"
  shows "snapshot_closure u sha256 st sid \<subseteq> store_digests st"
proof -
  from assms obtain s where s: "read_manifest_object u sha256 st sid = Inr s"
    "set (manifest_objects s) \<subseteq> store_digests st" by (auto simp: snapshot_rooted_ok_def)
  then have "sid \<in> store_digests st"
    by (auto simp: read_manifest_object_def open_object_def store_digests_file_resident file_resident_def
        split: sum.splits option.splits resident.splits)
  with s show ?thesis by (simp add: snapshot_closure_def)
qed

text \<open>In such a state the marking succeeds and everything it reaches is there.\<close>

lemma ws_ok_roots: "ws_ok u sha256 ws \<Longrightarrow> root_objects u sha256 ws \<subseteq> store_digests (ws_store ws)"
  using snapshot_rooted_resident [of u sha256 "ws_store ws"] unfolding ws_ok_def root_objects_def by blast

lemma mark_snapshots_total:
  "(\<And>sid. sid \<in> set sids \<Longrightarrow> snapshot_rooted_ok u sha256 st sid) \<Longrightarrow>
   \<exists>m'. mark_snapshots u sha256 st sids m = Inr m'"
proof (induction sids arbitrary: m)
  case (Cons sid sids)
  then have "snapshot_rooted_ok u sha256 st sid" by simp
  then obtain s where "read_manifest_object u sha256 st sid = Inr s"
    by (auto simp: snapshot_rooted_ok_def)
  with Cons show ?case by (simp add: mark_snapshot_def Let_def)
qed simp

lemma ws_ok_marks: "ws_ok u sha256 ws \<Longrightarrow> \<exists>m. mark_roots u sha256 ws = Inr m"
  unfolding mark_roots_def Let_def by (rule mark_snapshots_total) (auto simp: ws_ok_def)


section \<open>Growing stores\<close>

definition store_grows :: "object_store \<Rightarrow> object_store \<Rightarrow> bool" where
  "store_grows st st' \<longleftrightarrow> (\<forall>d. file_resident st d \<longrightarrow> resident_at st' d = resident_at st d)"

lemma store_grows_digests: "store_grows st st' \<Longrightarrow> store_digests st \<subseteq> store_digests st'"
  by (auto simp: store_grows_def store_digests_file_resident file_resident_def)

lemma snapshot_rooted_grows:
  assumes "snapshot_rooted_ok u sha256 st sid" "store_grows st st'"
  shows "snapshot_rooted_ok u sha256 st' sid"
proof -
  have "sid \<in> store_digests st" using snapshot_rooted_resident [OF assms(1)] by (auto simp: snapshot_closure_def)
  then have "resident_at st sid = resident_at st' sid"
    using assms(2) by (simp add: store_grows_def store_digests_file_resident)
  from read_manifest_cong [OF this, of u sha256] show ?thesis
    using assms(1) store_grows_digests [OF assms(2)] by (auto simp: snapshot_rooted_ok_def)
qed

lemma ws_ok_grows:
  assumes "ws_ok u sha256 ws" "store_ok sha256 st'" "store_grows (ws_store ws) st'"
  shows "ws_ok u sha256 (ws\<lparr>ws_store := st'\<rparr>)"
  using assms store_grows_digests [OF assms(3)] snapshot_rooted_grows [OF _ assms(3)]
  by (auto simp: ws_ok_def)

lemma admit_grows:
  "objects_sound sha256 (os_objects st) \<Longrightarrow> os_objects st' = snd (admit sha256 bs (os_objects st)) \<Longrightarrow> store_grows st st'"
  by (auto simp: store_grows_def admit_def resident_at_def file_resident_def map_of_bt_insert Let_def
      split: option.splits resident.splits)

lemma put_bytes_grows:
  assumes "hasher_streams hs sha256" "store_ok sha256 st"
  shows "store_grows st (snd (put_bytes env hs bs st))"
  using put_bytes_ok(3) [OF assms] assms(2) by (intro admit_grows) (auto simp: store_ok_def)


section \<open>Collecting\<close>

lemma collect_ok:
  assumes "ws_ok u sha256 ws"
  shows "\<exists>report ws'. collect u sha256 ws = (Inr report, ws') \<and> ws_ok u sha256 ws'"
proof -
  obtain report ws' where c: "collect u sha256 ws = (Inr report, ws')"
    using ws_ok_marks [OF assms] collect_Inr_iff by blast
  have wf: "store_wf (ws_store ws)" "bt_sorted (md_quarantine (ws_db ws))" "quarantine_ok (ws_db ws)"
    using assms by (simp_all add: ws_ok_def store_ok_def quarantine_ok_def)
  note spec = collect_spec [OF wf(1,2) c]
  have kept: "resident_at (ws_store ws') d = resident_at (ws_store ws) d" if "d \<in> root_objects u sha256 ws" for d
    using spec(1) [of d] that by (simp add: taken_by_def)
  have res: "d \<in> store_digests (ws_store ws')" if "d \<in> root_objects u sha256 ws" for d
    using kept [OF that] that ws_ok_roots [OF assms]
    by (auto simp: store_digests_file_resident file_resident_def)
  have "objects_sound sha256 (os_objects (ws_store ws'))"
    using assms spec(1,4) unfolding ws_ok_def store_ok_def objects_sound_def store_wf_def resident_at_def
    by (auto split: if_splits)
  moreover have "snapshot_rooted_ok u sha256 (ws_store ws') sid" if sid: "sid \<in> fst ` set (md_snapshots (ws_db ws))" for sid
  proof -
    obtain s where s: "read_manifest_object u sha256 (ws_store ws) sid = Inr s"
      using assms sid by (auto simp: ws_ok_def snapshot_rooted_ok_def)
    have "set (manifest_objects s) \<subseteq> root_objects u sha256 ws"
      using s sid by (fastforce simp: root_objects_def snapshot_closure_def)
    moreover have "read_manifest_object u sha256 (ws_store ws') sid = Inr s"
      using s read_manifest_cong [OF kept [OF snapshot_row_rooted [OF sid]], of u sha256] by simp
    ultimately show ?thesis using res by (auto simp: snapshot_rooted_ok_def)
  qed
  moreover have "head_objects (ws_db ws') = head_objects (ws_db ws)"
    "md_lease_objects (ws_db ws') = md_lease_objects (ws_db ws)" "md_snapshots (ws_db ws') = md_snapshots (ws_db ws)"
    by (subst spec(3); simp add: head_objects_def)+
  ultimately have "ws_ok u sha256 ws'"
    using assms spec(4) collect_quarantine_ok [OF wf(1,3) c] res
    by (auto simp: ws_ok_def store_ok_def root_objects_def)
  with c show ?thesis by blast
qed


section \<open>Metadata that names fewer or verified objects\<close>

definition mutation_digests :: "mutation \<Rightarrow> digest set" where
  "mutation_digests m = (case mutation_records m of None \<Rightarrow> {} | Some records \<Rightarrow> set (record_digests records))"

text \<open>The tables a tree mutation does not touch.\<close>

definition same_roots :: "metadata \<Rightarrow> metadata \<Rightarrow> bool" where
  "same_roots db db' \<longleftrightarrow> md_snapshots db' = md_snapshots db \<and> md_lease_objects db' = md_lease_objects db \<and>
     md_leases db' = md_leases db \<and> md_epoch db' = md_epoch db \<and> md_quarantine db' = md_quarantine db"

definition names_within :: "digest set \<Rightarrow> metadata \<Rightarrow> metadata \<Rightarrow> bool" where
  "names_within extra db db' \<longleftrightarrow> same_roots db db' \<and> set (head_objects db') \<subseteq> set (head_objects db) \<union> extra"

lemma names_within_refl [simp]: "names_within extra db db"
  by (simp add: names_within_def same_roots_def)

lemma names_within_trans:
  "names_within a db db' \<Longrightarrow> names_within b db' db'' \<Longrightarrow> names_within (a \<union> b) db db''"
  by (auto simp: names_within_def same_roots_def)

lemma names_within_mono: "names_within a db db' \<Longrightarrow> a \<subseteq> b \<Longrightarrow> names_within b db db'"
  by (auto simp: names_within_def)

lemma set_bt_insert_subset: "set (bt_insert k v m) \<subseteq> insert (k, v) (set m)"
  by (induction k v m rule: bt_insert.induct) auto

lemma head_objects_cong: "md_object_maps db' = md_object_maps db \<Longrightarrow> head_objects db' = head_objects db"
  by (simp add: head_objects_def)

lemma head_objects_insert:
  "set (head_objects (db\<lparr>md_object_maps := bt_insert i records (md_object_maps db)\<rparr>)) \<subseteq>
   set (head_objects db) \<union> set (record_digests records)"
  using set_bt_insert_subset [of i records "md_object_maps db"] by (fastforce simp: head_objects_def)

lemma head_objects_subset:
  "set (md_object_maps db') \<subseteq> set (md_object_maps db) \<Longrightarrow> set (head_objects db') \<subseteq> set (head_objects db)"
  by (auto simp: head_objects_def)

lemma insert_records_names:
  "insert_records i records db = Inr db' \<Longrightarrow> names_within (set (record_digests records)) db db'"
  using head_objects_insert [where db = db and i = i and records = records] set_bt_remove [of i "md_object_maps db"]
    head_objects_subset [of "db\<lparr>md_object_maps := bt_remove i (md_object_maps db)\<rparr>" db]
  by (auto simp: insert_records_def names_within_def same_roots_def split: if_splits)

lemma delete_inodes_names: "delete_inodes gone db = Inr db' \<Longrightarrow> names_within {} db db'"
  by (auto simp: delete_inodes_def names_within_def same_roots_def head_objects_def Let_def split: if_splits)

lemma drop_inode_names: "drop_inode_if_orphaned i db = Inr db' \<Longrightarrow> names_within {} db db'"
  by (auto simp: drop_inode_if_orphaned_def dest: delete_inodes_names split: if_splits)

lemma insert_inode_names: "insert_inode row db = Inr (i, db') \<Longrightarrow> names_within {} db db'"
  by (auto simp: insert_inode_def names_within_def same_roots_def head_objects_def Let_def split: if_splits)

lemma insert_dirent_names: "insert_dirent parent name child db = Inr db' \<Longrightarrow> names_within {} db db'"
  by (auto simp: insert_dirent_def names_within_def same_roots_def head_objects_def split: if_splits)

lemma delete_dirent_names: "names_within {} db (delete_dirent parent name db)"
  by (simp add: delete_dirent_def names_within_def same_roots_def head_objects_def)

lemma create_leaf_names: "create_leaf u w path row db = Inr (i, db') \<Longrightarrow> names_within {} db db'"
  by (auto simp: create_leaf_def result_simps dest!: insert_inode_names insert_dirent_names dest: names_within_trans)

lemma unlink_leaf_names: "unlink_leaf u w path i db = Inr db' \<Longrightarrow> names_within {} db db'"
  using names_within_trans [OF delete_dirent_names drop_inode_names]
  by (fastforce simp: unlink_leaf_def result_simps)

lemma record_digests_append [simp]: "record_digests (a @ b) = record_digests a @ record_digests b"
  by (induction a rule: record_digests.induct) simp_all

lemma truncate_loop_digests:
  "truncate_loop len position kept records = Some (kept', position') \<Longrightarrow>
   set (record_digests kept') \<subseteq> set (record_digests kept) \<union> set (record_digests records)"
proof (induction len position kept records rule: truncate_loop.induct)
  case (2 len position kept r rs)
  then show ?case by (cases r) (fastforce split: if_splits option.splits)+
qed simp

lemma truncate_records_digests:
  assumes "truncate_records records len = Some truncated"
  shows "set (record_digests truncated) \<subseteq> set (record_digests records)"
proof -
  obtain kept position where k: "truncate_loop len 0 [] records = Some (kept, position)"
    using assms by (auto simp: truncate_records_def split: option.splits)
  have "set (record_digests truncated) \<subseteq> set (record_digests kept)"
  proof (cases "rev kept")
    case (Cons r before)
    then have "kept = rev before @ [r]" by (metis rev.simps(2) rev_rev_ident)
    then show ?thesis using assms k Cons by (cases r) (auto simp: truncate_records_def split: if_splits)
  qed (use assms k in \<open>auto simp: truncate_records_def split: if_splits\<close>)
  with truncate_loop_digests [OF k] show ?thesis by simp
qed

lemma read_records_digests: "set (record_digests (read_records db i)) \<subseteq> set (head_objects db)"
  by (force simp: read_records_def head_objects_def split: option.splits dest: map_of_SomeD)

lemma apply_mutation_names:
  assumes "apply_mutation u w m db = Inr db'"
  shows "names_within (mutation_digests m) db db'"
proof (cases m)
  case (Mutation_CreateFile path executable planner records)
  with assms obtain i db1 where "names_within {} db db1" "insert_records i records db1 = Inr db'"
    by (auto simp: result_simps dest: create_leaf_names)
  with names_within_trans [OF this(1) insert_records_names [OF this(2)]] Mutation_CreateFile show ?thesis
    by (simp add: mutation_digests_def)
next
  case (Mutation_Truncate path len)
  with assms obtain i truncated where t: "truncate_records (read_records db i) len = Some truncated"
      "insert_records i truncated db = Inr db'"
    by (auto simp: result_simps ok_or_def split: option.splits)
  have "set (record_digests truncated) \<subseteq> set (head_objects db)"
    using truncate_records_digests [OF t(1)] read_records_digests by blast
  with insert_records_names [OF t(2)] show ?thesis by (auto simp: names_within_def)
next
  case (Mutation_Rename source target)
  with assms show ?thesis
    by (auto simp: result_simps split: if_splits option.splits
        dest!: insert_dirent_names names_within_trans [OF delete_dirent_names] intro: names_within_mono)
next
  case (Mutation_SetExecutable path executable)
  with assms have "db' = db \<or> (\<exists>rows. db' = db\<lparr>md_inodes := rows\<rparr>)"
    by (auto simp: result_simps split: option.splits)
  then show ?thesis by (auto simp: names_within_def same_roots_def head_objects_def)
qed (use assms in \<open>auto simp: result_simps mutation_digests_def split: if_splits
    dest!: create_leaf_names unlink_leaf_names insert_records_names insert_dirent_names intro: names_within_mono\<close>)

lemma apply_mutations_names:
  "apply_mutations u w ms db = Inr db' \<Longrightarrow> names_within (\<Union>m \<in> set ms. mutation_digests m) db db'"
proof (induction ms arbitrary: db)
  case (Cons m ms)
  then obtain db1 where "apply_mutation u w m db = Inr db1" "apply_mutations u w ms db1 = Inr db'"
    by (auto simp: result_simps)
  with names_within_trans [OF apply_mutation_names Cons.IH] show ?case by simp
qed simp


section \<open>Every operation keeps the invariant\<close>

lemma ws_ok_db:
  assumes "ws_ok u sha256 ws" "quarantine_ok db'" "bt_sorted (md_snapshots db')"
    and "set (head_objects db') \<union> snd ` set (md_lease_objects db') \<subseteq> store_digests (ws_store ws)"
    and "fst ` set (md_snapshots db') \<subseteq> fst ` set (md_snapshots (ws_db ws))"
  shows "ws_ok u sha256 (ws\<lparr>ws_db := db'\<rparr>)"
proof -
  have old: "\<forall>sid \<in> fst ` set (md_snapshots (ws_db ws)). snapshot_rooted_ok u sha256 (ws_store ws) sid"
    using assms(1) unfolding ws_ok_def by (elim conjE)
  have "\<forall>sid \<in> fst ` set (md_snapshots db'). snapshot_rooted_ok u sha256 (ws_store ws) sid"
    by (rule ballI, rule bspec [OF old], rule subsetD [OF assms(5)])
  moreover have "store_ok sha256 (ws_store ws)" using assms(1) by (simp add: ws_ok_def)
  ultimately show ?thesis using assms(2-4) by (simp add: ws_ok_def)
qed

lemma ws_ok_names:
  assumes "ws_ok u sha256 ws" "names_within extra (ws_db ws) db'" "extra \<subseteq> store_digests (ws_store ws)"
  shows "ws_ok u sha256 (ws\<lparr>ws_db := db'\<rparr>)"
  using assms by (intro ws_ok_db) (auto simp: ws_ok_def names_within_def same_roots_def quarantine_ok_def)

lemma names_within_workspaces: "names_within extra db (db'\<lparr>md_workspaces := rows\<rparr>) \<longleftrightarrow> names_within extra db db'"
  by (simp add: names_within_def same_roots_def head_objects_def)

lemma transact_ok:
  assumes "ws_ok u sha256 ws" "transact ws r = (result, ws')"
    and "\<And>a db'. r = Inr (a, db') \<Longrightarrow> ws_ok u sha256 (ws\<lparr>ws_db := db'\<rparr>)"
  shows "ws_ok u sha256 ws'"
  using assms by (auto simp: transact_def split: sum.splits prod.splits)

lemma first_missing_Inr_iff [result_simps]: "first_missing present ds = Inr x \<longleftrightarrow> (\<forall>d \<in> set ds. present d)"
  by (auto simp: first_missing_def find_None_iff find_Some_iff split: option.splits)

lemma store_exists_resident: "store_ok sha256 st \<Longrightarrow> store_exists d st \<longleftrightarrow> d \<in> store_digests st"
  by (auto simp: store_exists_def store_digests_file_resident file_resident_def store_ok_def objects_sound_def
      resident_at_def split: option.splits resident.splits)

lemma referenced_digests_set:
  "referenced_digests ms = Inr ds \<Longrightarrow> set ds = (\<Union>m \<in> set ms. mutation_digests m)"
proof (induction ms arbitrary: ds)
  case (Cons m ms)
  then show ?case
    by (cases "mutation_records m") (auto simp: result_simps mutation_digests_def)
qed simp

text \<open>The transaction of a commit may run in any later state: it checks the objects again.\<close>

lemma commit_transaction_ok:
  assumes "ws_ok u sha256 ws" "referenced_digests mutations = Inr referenced"
    and "commit_transaction u name mutations referenced ws = (result, ws')"
  shows "ws_ok u sha256 ws'"
proof (rule transact_ok [OF assms(1) assms(3) [unfolded commit_transaction_def]])
  fix a db' assume *: "and_then (first_missing (\<lambda>d. store_exists d (ws_store ws)) referenced) (\<lambda>_.
        and_then (workspace_row_of (ws_db ws) name) (\<lambda>w.
        and_then (apply_mutations u w mutations (ws_db ws)) (\<lambda>db.
          let next_generation = wr_head_generation w + 1 in
          Inr (next_generation, db\<lparr>md_workspaces := bt_insert name
            (w\<lparr>wr_head_generation := next_generation\<rparr>) (md_workspaces db)\<rparr>)))) = Inr (a, db')"
  then obtain w db where present: "\<forall>d \<in> set referenced. store_exists d (ws_store ws)"
    and db: "apply_mutations u w mutations (ws_db ws) = Inr db"
    and db': "db' = db\<lparr>md_workspaces := bt_insert name
      (w\<lparr>wr_head_generation := wr_head_generation w + 1\<rparr>) (md_workspaces db)\<rparr>"
    by (auto simp: result_simps Let_def)
  have "set referenced \<subseteq> store_digests (ws_store ws)"
    using present store_exists_resident assms(1) by (auto simp: ws_ok_def)
  moreover have "names_within (set referenced) (ws_db ws) db'"
    using apply_mutations_names [OF db] referenced_digests_set [OF assms(2)]
    by (simp add: db' names_within_workspaces)
  ultimately show "ws_ok u sha256 (ws\<lparr>ws_db := db'\<rparr>)" using ws_ok_names [OF assms(1)] by blast
qed

lemma commit_generation_ok:
  assumes "ws_ok u sha256 ws" "commit_generation u hs name mutations ws = (result, ws')"
  shows "ws_ok u sha256 ws'"
  using assms commit_transaction_ok [OF assms(1)]
  by (auto simp: commit_generation_def commit_prepare_def result_simps split: sum.splits)

lemma create_workspace_ok:
  assumes "ws_ok u sha256 ws" "create_workspace name ws = (result, ws')"
  shows "ws_ok u sha256 ws'"
  unfolding create_workspace_def Let_def
proof (rule transact_ok [OF assms(1) assms(2) [unfolded create_workspace_def Let_def]])
  fix a db'
  let ?db = "\<lambda>row. (ws_db ws)\<lparr>md_workspaces := bt_insert name row (md_workspaces (ws_db ws))\<rparr>"
  let ?row = "\<lparr>wr_id = next_rowid (map (wr_id \<circ> snd) (md_workspaces (ws_db ws))), wr_head_generation = 0, wr_root_inode = 0\<rparr>"
  assume "(if is_ok (workspace_row_of (ws_db ws) name) then Inl (WorkspaceError_WorkspaceExists name)
     else and_then (insert_inode (empty_inode ?row KIND_DIRECTORY) (?db ?row)) (\<lambda>(i, db).
       Inr ((), db\<lparr>md_workspaces := bt_insert name (?row\<lparr>wr_root_inode := i\<rparr>) (md_workspaces db)\<rparr>))) = Inr (a, db')"
  then obtain i db where "insert_inode (empty_inode ?row KIND_DIRECTORY) (?db ?row) = Inr (i, db)"
    "db' = db\<lparr>md_workspaces := bt_insert name (?row\<lparr>wr_root_inode := i\<rparr>) (md_workspaces db)\<rparr>"
    by (auto simp: result_simps split: if_splits)
  with insert_inode_names [OF this(1)] have "names_within {} (?db ?row) db'"
    by (simp add: names_within_workspaces)
  then have "names_within {} (ws_db ws) db'"
    by (simp add: names_within_def same_roots_def head_objects_def)
  then show "ws_ok u sha256 (ws\<lparr>ws_db := db'\<rparr>)" using ws_ok_names [OF assms(1)] by blast
qed

lemma subset_filter_objects: "set (md_object_maps db') \<subseteq> set (md_object_maps db) \<Longrightarrow>
   set (head_objects db) \<subseteq> S \<Longrightarrow> set (head_objects db') \<subseteq> S"
  using head_objects_subset by blast

lemma delete_workspace_ok:
  assumes "ws_ok u sha256 ws" "delete_workspace name ws = (result, ws')"
  shows "ws_ok u sha256 ws'"
proof (rule transact_ok [OF assms(1) assms(2) [unfolded delete_workspace_def Let_def]])
  fix a db'
  let ?db = "ws_db ws"
  let ?held = "\<lambda>w l. case map_of (md_leases ?db) l of None \<Rightarrow> False | Some row \<Rightarrow> le_workspace row = Some (wr_id w)"
  let ?owned = "\<lambda>w i. case map_of (md_inodes ?db) i of None \<Rightarrow> False | Some row \<Rightarrow> in_workspace row = wr_id w"
  let ?cut = "\<lambda>w. ?db\<lparr>md_dirents := filter (\<lambda>((parent, name), child). \<not> ?owned w parent) (md_dirents ?db),
    md_leases := filter (\<lambda>(l, row). \<not> ?held w l) (md_leases ?db),
    md_lease_objects := filter (\<lambda>(l, d). \<not> ?held w l) (md_lease_objects ?db),
    md_workspaces := bt_remove name (md_workspaces ?db)\<rparr>"
  assume "and_then (workspace_row_of ?db name) (\<lambda>w.
      and_then (delete_inodes (?owned w) (?cut w)) (\<lambda>db. Inr ((), db))) = Inr (a, db')"
  then obtain w :: workspace_row where "and_then (delete_inodes (?owned w) (?cut w)) (\<lambda>db. Inr ((), db)) = Inr (a, db')"
    by (rule and_then_InrE) (erule that)
  then have "delete_inodes (?owned w) (?cut w) = Inr db'" by (rule and_then_InrE) simp
  then have nw: "names_within {} (?cut w) db'" by (rule delete_inodes_names)
  have "set (md_lease_objects db') \<subseteq> set (md_lease_objects ?db)"
    using nw by (auto simp: names_within_def same_roots_def)
  then have "snd ` set (md_lease_objects db') \<subseteq> store_digests (ws_store ws)"
    using assms(1) by (auto simp: ws_ok_def)
  moreover have "set (head_objects db') \<subseteq> store_digests (ws_store ws)"
    using nw assms(1) by (auto simp: names_within_def ws_ok_def head_objects_def)
  ultimately show "ws_ok u sha256 (ws\<lparr>ws_db := db'\<rparr>)"
    using nw assms(1) by (intro ws_ok_db) (auto simp: names_within_def same_roots_def ws_ok_def quarantine_ok_def)
qed

lemma delete_snapshot_ok:
  assumes "ws_ok u sha256 ws" "delete_snapshot sid ws = (result, ws')"
  shows "ws_ok u sha256 ws'"
proof (cases "map_of (md_snapshots (ws_db ws)) sid = None")
  case False
  then have "ws' = ws\<lparr>ws_db := (ws_db ws)\<lparr>md_snapshots := bt_remove sid (md_snapshots (ws_db ws))\<rparr>\<rparr>"
    using assms(2) by (auto simp: delete_snapshot_def split: if_splits)
  then show ?thesis using assms(1) set_bt_remove [of sid "md_snapshots (ws_db ws)"]
    by (auto simp: ws_ok_def quarantine_ok_def bt_sorted_remove head_objects_def
        intro!: ws_ok_db [OF assms(1)])
qed (use assms in \<open>simp add: delete_snapshot_def\<close>)

lemma insert_lease_same:
  "insert_lease row db = (l, db') \<Longrightarrow> head_objects db' = head_objects db \<and> md_snapshots db' = md_snapshots db \<and>
   md_lease_objects db' = md_lease_objects db \<and> (quarantine_ok db' \<longleftrightarrow> quarantine_ok db)"
  by (auto simp: insert_lease_def Let_def head_objects_def quarantine_ok_def)

lemma acquire_unlinked_lease_ok:
  assumes "ws_ok u sha256 ws" "acquire_unlinked_lease u' name path holder ws = (result, ws')"
  shows "ws_ok u sha256 ws'"
proof (rule transact_ok [OF assms(1) assms(2) [unfolded acquire_unlinked_lease_def Let_def]])
  fix a db'
  assume "and_then (workspace_row_of (ws_db ws) name) (\<lambda>w.
      and_then (resolve_existing u' (ws_db ws) w path) (\<lambda>(i, kind).
        if \<not> inode_exists (ws_db ws) i then Inl WorkspaceError_Db
        else Inr (insert_lease \<lparr>le_kind = LeaseKind_Unlinked, le_holder = holder,
          le_workspace = Some (wr_id w), le_inode = Some i\<rparr> (ws_db ws)))) = Inr (a, db')"
  then obtain row where "insert_lease row (ws_db ws) = (a, db')" by (auto simp: result_simps split: if_splits)
  from insert_lease_same [OF this] assms(1) show "ws_ok u sha256 (ws\<lparr>ws_db := db'\<rparr>)"
    by (auto simp: ws_ok_def intro!: ws_ok_db [OF assms(1)])
qed

lemma fold_lease_objects:
  "let db' = fold (insert_lease_object l) ds db in
   head_objects db' = head_objects db \<and> md_snapshots db' = md_snapshots db \<and>
   (quarantine_ok db' \<longleftrightarrow> quarantine_ok db) \<and>
   snd ` set (md_lease_objects db') \<subseteq> snd ` set (md_lease_objects db) \<union> set ds \<and>
   set ds \<subseteq> snd ` set (md_lease_objects db') \<and> set (md_lease_objects db) \<subseteq> set (md_lease_objects db')"
proof (induction ds arbitrary: db)
  case (Cons d ds)
  have "head_objects (insert_lease_object l d db) = head_objects db"
    "md_snapshots (insert_lease_object l d db) = md_snapshots db"
    "quarantine_ok (insert_lease_object l d db) \<longleftrightarrow> quarantine_ok db"
    "set (md_lease_objects (insert_lease_object l d db)) = insert (l, d) (set (md_lease_objects db))"
    by (auto simp: insert_lease_object_def head_objects_def quarantine_ok_def)
  note step = this
  let ?db' = "fold (insert_lease_object l) ds (insert_lease_object l d db)"
  have IH: "head_objects ?db' = head_objects db" "md_snapshots ?db' = md_snapshots db"
    "quarantine_ok ?db' \<longleftrightarrow> quarantine_ok db"
    "snd ` set (md_lease_objects ?db') \<subseteq> snd ` insert (l, d) (set (md_lease_objects db)) \<union> set ds"
    "set ds \<subseteq> snd ` set (md_lease_objects ?db')" "insert (l, d) (set (md_lease_objects db)) \<subseteq> set (md_lease_objects ?db')"
    using Cons.IH [of "insert_lease_object l d db"] unfolding Let_def step by blast+
  have "d \<in> snd ` set (md_lease_objects ?db')" using IH(6) by force
  with IH show ?case unfolding fold_simps Let_def by auto
qed simp

lemma manifest_objects_records: "manifest_objects s = snapshot_record_digests s"
proof -
  have "entry_objects e = record_digests (entry_records e)" for e
  proof (cases e)
    case (Entry_File executable body)
    then show ?thesis by (cases body) simp_all
  qed simp_all
  then show ?thesis by (simp add: manifest_objects_def snapshot_record_digests_def comp_def)
qed

lemma acquire_pending_sync_lease_ok:
  assumes "ws_ok u sha256 ws" "acquire_pending_sync_lease u sha256 sid holder ws = (result, ws')"
  shows "ws_ok u sha256 ws'"
proof (rule transact_ok [OF assms(1) assms(2) [unfolded acquire_pending_sync_lease_def]])
  fix a db'
  assume *: "and_then (read_rooted_snapshot u sha256 ws sid) (\<lambda>s.
        let (l, db) = insert_lease \<lparr>le_kind = LeaseKind_PendingSync, le_holder = holder,
              le_workspace = None, le_inode = None\<rparr> (ws_db ws) in
        Inr ((l, s), fold (insert_lease_object l) (sid # snapshot_record_digests s) db)) = Inr (a, db')"
  then obtain s l db row where s: "read_rooted_snapshot u sha256 ws sid = Inr s"
    and l: "insert_lease row (ws_db ws) = (l, db)"
    and db': "db' = fold (insert_lease_object l) (sid # snapshot_record_digests s) db"
    by (cases "insert_lease \<lparr>le_kind = LeaseKind_PendingSync, le_holder = holder,
        le_workspace = None, le_inode = None\<rparr> (ws_db ws)") (auto simp: result_simps)
  have row: "sid \<in> fst ` set (md_snapshots (ws_db ws))" "read_manifest_object u sha256 (ws_store ws) sid = Inr s"
    using s by (auto simp: read_rooted_snapshot_def map_of_eq_None_iff split: if_splits)
  then have "snapshot_closure u sha256 (ws_store ws) sid \<subseteq> store_digests (ws_store ws)"
    using assms(1) snapshot_rooted_resident unfolding ws_ok_def by blast
  then have ds: "set (sid # snapshot_record_digests s) \<subseteq> store_digests (ws_store ws)"
    using row(2) by (simp add: snapshot_closure_def manifest_objects_records)
  note folded = fold_lease_objects [of l "sid # snapshot_record_digests s" db, folded db', unfolded Let_def]
    insert_lease_same [OF l]
  have "quarantine_ok (ws_db ws)" "bt_sorted (md_snapshots (ws_db ws))"
    and held: "set (head_objects (ws_db ws)) \<union> snd ` set (md_lease_objects (ws_db ws)) \<subseteq> store_digests (ws_store ws)"
    using assms(1) by (simp_all add: ws_ok_def)
  moreover have "set (head_objects db') \<union> snd ` set (md_lease_objects db') \<subseteq> store_digests (ws_store ws)"
  proof -
    have "snd ` set (md_lease_objects db') \<subseteq> snd ` set (md_lease_objects db) \<union> set (sid # snapshot_record_digests s)"
      "head_objects db' = head_objects (ws_db ws)" "md_lease_objects db = md_lease_objects (ws_db ws)"
      using folded by simp_all
    with subset_trans [OF this(1)] held ds show ?thesis by simp
  qed
  ultimately show "ws_ok u sha256 (ws\<lparr>ws_db := db'\<rparr>)"
    by (intro ws_ok_db [OF assms(1)]) (simp_all only: folded subset_refl)
qed

lemma release_lease_ok:
  assumes "ws_ok u sha256 ws" "release_lease l ws = (result, ws')"
  shows "ws_ok u sha256 ws'"
proof (rule transact_ok [OF assms(1) assms(2) [unfolded release_lease_def Let_def]])
  fix a db'
  let ?cut = "(ws_db ws)\<lparr>md_lease_objects := filter (\<lambda>(l', d). l' \<noteq> l) (md_lease_objects (ws_db ws)),
    md_leases := bt_remove l (md_leases (ws_db ws))\<rparr>"
  assume "(case map_of (md_leases (ws_db ws)) l of
      None \<Rightarrow> Inl (WorkspaceError_UnknownLease l)
    | Some row \<Rightarrow> and_then (case le_inode row of Some i \<Rightarrow> drop_inode_if_orphaned i ?cut | None \<Rightarrow> Inr ?cut)
        (\<lambda>db. Inr ((), db))) = Inr (a, db')"
  then have nw: "names_within {} ?cut db'"
    by (auto simp: result_simps dest: drop_inode_names split: option.splits)
  then have "set (head_objects db') \<subseteq> set (head_objects (ws_db ws))"
    "set (md_lease_objects db') \<subseteq> set (md_lease_objects (ws_db ws))"
    by (auto simp: names_within_def same_roots_def head_objects_def)
  then have "set (head_objects db') \<union> snd ` set (md_lease_objects db') \<subseteq> store_digests (ws_store ws)"
    using assms(1) unfolding ws_ok_def by blast
  then show "ws_ok u sha256 (ws\<lparr>ws_db := db'\<rparr>)"
    using nw assms(1) by (intro ws_ok_db) (auto simp: names_within_def same_roots_def ws_ok_def quarantine_ok_def)
qed


text \<open>Adopting a manifest: without a collision of the hash on its bytes, the object at its id is the
  manifest itself.\<close>

definition uncollided :: "(bytes \<Rightarrow> digest) \<Rightarrow> bytes \<Rightarrow> object_store \<Rightarrow> bool" where
  "uncollided sha256 bs st = (case object_bytes (os_objects st) (sha256 bs) of None \<Rightarrow> True | Some b \<Rightarrow> b = bs)"

lemma put_bytes_opens:
  assumes "hasher_streams hs sha256" "store_ok sha256 st" "uncollided sha256 bs st"
  shows "open_object (sha256 bs) (snd (put_bytes env hs bs st)) = Inr bs"
proof -
  have "object_bytes (os_objects (snd (put_bytes env hs bs st))) (sha256 bs) = Some bs"
    using put_bytes_ok(3) [OF assms(1,2), of env bs] admit_sound(3) [of sha256 "os_objects st" bs] assms(2,3)
    by (auto simp: store_ok_def uncollided_def split: option.splits)
  then show ?thesis
    by (auto simp: object_bytes_def open_object_def resident_at_def split: option.splits resident.splits)
qed

lemma put_bytes_ws_ok:
  assumes "ws_ok u sha256 ws" "hasher_streams hs sha256"
  shows "ws_ok u sha256 (ws\<lparr>ws_store := snd (put_bytes env hs bs (ws_store ws))\<rparr>)"
  using assms put_bytes_ok(1) [OF assms(2)] put_bytes_grows [OF assms(2)]
  by (intro ws_ok_grows [OF assms(1)]) (auto simp: ws_ok_def)

lemma adopt_prepare_Inr:
  assumes "adopt_prepare u env hs sha256 bs ws = (Inr sid, ws')"
  obtains s where "decode u bs = Inr s" "\<forall>d \<in> set (snapshot_record_digests s). store_exists d (ws_store ws)"
    "sid = snapshot_id_of sha256 s" "ws' = ws\<lparr>ws_store := snd (put_bytes env hs bs (ws_store ws))\<rparr>"
proof (cases "decode u bs")
  case (Inr s)
  with assms show ?thesis
    by (intro that [of s])
      (auto simp: adopt_prepare_def result_simps split: sum.splits prod.splits)
qed (use assms in \<open>simp add: adopt_prepare_def\<close>)

lemma adopt_prepare_ok:
  assumes "ws_ok u sha256 ws" "hasher_streams hs sha256" "adopt_prepare u env hs sha256 bs ws = (result, ws')"
  shows "ws_ok u sha256 ws'"
  using assms put_bytes_ws_ok [OF assms(1,2), of env bs]
  by (auto simp: adopt_prepare_def split: sum.splits prod.splits)

lemma adopt_insert_ok:
  assumes "ws_ok u sha256 ws" "snapshot_rooted_ok u sha256 (ws_store ws) sid"
  shows "ws_ok u sha256 (adopt_insert sid ws)"
proof -
  have sids: "fst ` set (md_snapshots (ws_db (adopt_insert sid ws))) \<subseteq> insert sid (fst ` set (md_snapshots (ws_db ws)))"
    using set_bt_insert_subset [of sid 0 "md_snapshots (ws_db ws)"]
    by (auto simp: adopt_insert_def insert_snapshot_def)
  have old: "\<forall>i \<in> fst ` set (md_snapshots (ws_db ws)). snapshot_rooted_ok u sha256 (ws_store ws) i"
    using assms(1) unfolding ws_ok_def by (elim conjE)
  have rooted: "\<forall>i \<in> fst ` set (md_snapshots (ws_db (adopt_insert sid ws))). snapshot_rooted_ok u sha256 (ws_store ws) i"
  proof
    fix i assume "i \<in> fst ` set (md_snapshots (ws_db (adopt_insert sid ws)))"
    with sids have "i = sid \<or> i \<in> fst ` set (md_snapshots (ws_db ws))" by blast
    then show "snapshot_rooted_ok u sha256 (ws_store ws) i" using bspec [OF old, of i] assms(2) by blast
  qed
  have "bt_sorted (md_snapshots (ws_db (adopt_insert sid ws)))"
    using assms(1) by (simp add: adopt_insert_def insert_snapshot_def bt_sorted_insert ws_ok_def)
  moreover have "head_objects (ws_db (adopt_insert sid ws)) = head_objects (ws_db ws)"
    "md_lease_objects (ws_db (adopt_insert sid ws)) = md_lease_objects (ws_db ws)"
    "quarantine_ok (ws_db (adopt_insert sid ws)) = quarantine_ok (ws_db ws)"
    "ws_store (adopt_insert sid ws) = ws_store ws"
    by (simp_all add: adopt_insert_def insert_snapshot_def head_objects_def quarantine_ok_def)
  ultimately show ?thesis using assms(1) rooted by (simp add: ws_ok_def)
qed

lemma adopt_snapshot_ok:
  assumes "ws_ok u sha256 ws" "hasher_streams hs sha256" "uncollided sha256 bs (ws_store ws)" "length bs < 2 ^ 64"
    and "adopt_snapshot u env hs sha256 bs ws = (result, ws')"
  shows "ws_ok u sha256 ws'"
proof (cases "adopt_prepare u env hs sha256 bs ws")
  case (Pair r ws1)
  have ok1: "ws_ok u sha256 ws1" by (rule adopt_prepare_ok [OF assms(1,2) Pair])
  show ?thesis
  proof (cases r)
    case (Inl e)
    then show ?thesis using assms(5) Pair ok1 by (simp add: adopt_snapshot_def op_then_def)
  next
    case (Inr sid)
    then have ws': "ws' = adopt_insert sid ws1" using assms(5) Pair by (simp add: adopt_snapshot_def op_then_def)
    from Pair Inr have "adopt_prepare u env hs sha256 bs ws = (Inr sid, ws1)" by simp
    then obtain s where s: "decode u bs = Inr s" "\<forall>d \<in> set (snapshot_record_digests s). store_exists d (ws_store ws)"
      "sid = snapshot_id_of sha256 s" "ws1 = ws\<lparr>ws_store := snd (put_bytes env hs bs (ws_store ws))\<rparr>"
      by (rule adopt_prepare_Inr)
    have st: "store_ok sha256 (ws_store ws)" using assms(1) by (simp add: ws_ok_def)
    have sid: "sid = sha256 bs" using s(1,3) decode_iff [OF assms(4)] by (auto simp: snapshot_id_of_def)
    have "read_manifest_object u sha256 (ws_store ws1) sid = Inr s"
      using put_bytes_opens [OF assms(2) st assms(3), of env] s(1,4) sid by (simp add: read_manifest_object_def)
    moreover have "set (manifest_objects s) \<subseteq> store_digests (ws_store ws1)"
      using s(2,4) store_exists_resident [OF st] store_grows_digests [OF put_bytes_grows [OF assms(2) st, of env bs]]
      by (auto simp: manifest_objects_records)
    ultimately show ?thesis using ok1 unfolding ws' by (intro adopt_insert_ok) (auto simp: snapshot_rooted_ok_def)
  qed
qed

end
