(* ===== verification/Head_Tree.thy ===== *)
theory Head_Tree
  imports Workspace_Seal Workspace_Safety
begin

text \<open>
  The committed head as a tree: the walk of \<open>stage_builder\<close> ends on every acyclic directory graph, and
  what \<open>head_tree\<close> lists is exactly what path resolution finds.
\<close>

section \<open>What the builder resolves\<close>

definition same_file :: "pending \<Rightarrow> tree_entry \<Rightarrow> bool" where
  "same_file p t = (case t of
       TreeEntry_File x planner contract records \<Rightarrow> p = Pending_File x planner contract records
     | _ \<Rightarrow> True)"

lemma resolve_entries_spec:
  "resolve_entries ords es = Inr ts \<Longrightarrow> list_all2 (\<lambda>(path, p) (path', t). path' = path \<and> same_file p t) es ts"
proof (induction ords es arbitrary: ts rule: resolve_entries.induct)
  case (2 ords path p rest)
  then obtain ords' e es where e: "resolve_entry ords path p = Inr (ords', e)"
    "resolve_entries ords' rest = Inr es" "ts = (path, e) # es" by (auto simp: result_simps)
  have "same_file p e" using e(1) by (cases p) (auto simp: resolve_entry_def result_simps same_file_def)
  with 2(1) [OF e(1) refl e(2)] e(3) show ?case by simp
qed simp

lemma builder_resolve_spec:
  assumes "builder_resolve u b = Inr ts"
  shows "fst ` set ts = fst ` set (sb_pending b)"
    and "(path, TreeEntry_File x planner contract records) \<in> set ts \<Longrightarrow>
      \<exists>k. (k, Pending_File x planner contract records) \<in> set (sb_pending b)"
    and "\<forall>y \<in> set (sb_pending b). validate_path u (fst y) = Inr ()"
proof -
  from assms obtain m gs where m: "collect_pending u (sb_pending b) [] = Inr m" and gs: "group_links m m [] = Inr gs"
    and ts: "resolve_entries [] (reroot gs m) = Inr ts" by (auto simp: builder_resolve_def result_simps)
  from m have coll: "\<forall>x \<in> set (sb_pending b). validate_path u (fst x) = Inr ()"
    "distinct (map fst (sb_pending b))" "m = fold (\<lambda>(k, v). bt_insert k v) (sb_pending b) []"
    by (simp_all add: collect_pending_Inr_iff)
  from set_fold_bt_insert [of "[]", OF _ coll(2)] coll(3)
  have sm: "bt_sorted m" "set m = set (sb_pending b)" by simp_all
  note rl = reroot_links_settled [OF sm(1) gs]
  note rv = reroot_values [OF sm(1) rl(2,3,4)]
  have sorted: "bt_sorted (reroot gs m)" by (rule bt_sorted_reroot [OF sm(1)])
  note spec = resolve_entries_spec [OF ts]
  have "map fst ts = map fst (reroot gs m)"
    using spec by (induction rule: list_all2_induct) auto
  then have "fst ` set ts = fst ` set (reroot gs m)" by (metis list.set_map)
  also have "\<dots> = fst ` set m" using rv by (simp add: dom_map_of_conv_image_fst)
  finally show "fst ` set ts = fst ` set (sb_pending b)" using sm(2) by simp
  show "\<exists>k. (k, Pending_File x planner contract records) \<in> set (sb_pending b)"
    if "(path, TreeEntry_File x planner contract records) \<in> set ts"
  proof -
    have "(path, Pending_File x planner contract records) \<in> set (reroot gs m)"
      using spec that by (induction rule: list_all2_induct) (auto simp: same_file_def)
    then have "map_of (reroot gs m) path = Some (Pending_File x planner contract records)"
      using in_map_iff [OF sorted] by simp
    then have "Pending_File x planner contract records \<in> ran (map_of m)" using rv by blast
    then show ?thesis using sm(2) by (auto simp: ran_def dest!: map_of_SomeD)
  qed
  show "\<forall>y \<in> set (sb_pending b). validate_path u (fst y) = Inr ()" by (rule coll(1))
qed

fun pending_digests :: "pending \<Rightarrow> digest set" where
  "pending_digests (Pending_File x planner contract records) = set (record_digests records)"
| "pending_digests _ = {}"

lemma canonical_entries_objects:
  "canonical_entries ts = Inr es \<Longrightarrow> (path, e) \<in> set es \<Longrightarrow> d \<in> set (entry_objects e) \<Longrightarrow>
   \<exists>path x planner contract records. (path, TreeEntry_File x planner contract records) \<in> set ts \<and> d \<in> set (record_digests records)"
proof (induction ts arbitrary: es rule: canonical_entries.induct)
  case (2 p t rest)
  then obtain e' es' where e': "canonical_entry t = Inr e'" "canonical_entries rest = Inr es'" "es = (p, e') # es'"
    by (auto simp: result_simps)
  show ?case
  proof (cases "(path, e) = (p, e')")
    case True
    with "2.prems"(3) e'(1) obtain x planner contract records body where
      t: "t = TreeEntry_File x planner contract records" and body: "canonical_body planner contract records = Inr body"
      "d \<in> set (body_objects body)" by (cases t) (auto simp: result_simps)
    have "d \<in> set (record_digests records)"
      using body by (auto simp: canonical_body_def Let_def result_simps split: option.splits list.splits file_record.splits if_splits)
    with t show ?thesis by (intro exI [of _ p] exI [of _ x]) auto
  next
    case False
    then have "(path, e) \<in> set es'" using "2.prems"(2) e'(3) by auto
    from "2.IH" [OF e'(1) e'(2) this "2.prems"(3)] show ?thesis by (meson list.set_intros(2))
  qed
qed simp

lemma builder_finish_objects:
  assumes "builder_finish u b = Inr s"
  shows "set (manifest_objects s) \<subseteq> (\<Union>(path, p) \<in> set (sb_pending b). pending_digests p)"
proof
  fix d assume d: "d \<in> set (manifest_objects s)"
  from assms obtain ts es where ts: "builder_resolve u b = Inr ts" and es: "canonical_entries ts = Inr es"
    and s: "s = \<lparr>snap_parent = sb_parent b, snap_entries = es\<rparr>" by (auto simp: builder_finish_def result_simps)
  from d s obtain path e where "(path, e) \<in> set es" "d \<in> set (entry_objects e)"
    by (auto simp: manifest_objects_def)
  from canonical_entries_objects [OF es this] builder_resolve_spec(2) [OF ts]
  show "d \<in> (\<Union>(path, p) \<in> set (sb_pending b). pending_digests p)" by fastforce
qed


section \<open>The walk finds what resolution finds\<close>

definition join_segments :: "str \<Rightarrow> str list \<Rightarrow> str" where
  "join_segments base segments = foldl join_path base segments"

text \<open>The paths and kinds below a directory, by path resolution.\<close>

definition below :: "metadata \<Rightarrow> rowid \<times> str \<Rightarrow> (str \<times> inode_kind) set" where
  "below db = (\<lambda>(i, base). {(join_segments base segments, kind) | segments kind.
     segments \<noteq> [] \<and> (\<exists>j. walk_path db (i, KIND_DIRECTORY) segments = Some (j, kind))})"

lemma belowI:
  "segments \<noteq> [] \<Longrightarrow> walk_path db (i, KIND_DIRECTORY) segments = Some (j, kind) \<Longrightarrow>
   (join_segments base segments, kind) \<in> below db (i, base)"
  by (auto simp: below_def)

definition staged_paths :: "staged \<Rightarrow> (str \<times> inode_kind) set" where
  "staged_paths sg = (\<lambda>path. (path, KIND_DIRECTORY)) ` set (sg_directories sg) \<union>
     {(path, KIND_FILE) | path i paths. (i, paths) \<in> set (sg_paths_by_inode sg) \<and> path \<in> set paths} \<union>
     (\<lambda>(path, target). (path, KIND_SYMLINK)) ` set (sg_symlinks sg)"

lemma map_filter_mem: "y \<in> set (List.map_filter f xs) \<longleftrightarrow> (\<exists>x \<in> set xs. f x = Some y)"
  by (induction xs) (auto simp: map_filter_simps split: option.splits)

lemma child_rows_iff:
  assumes "bt_sorted (md_dirents db)"
  shows "(name, child, row) \<in> set (child_rows db i) \<longleftrightarrow>
    map_of (md_dirents db) (i, name) = Some child \<and> map_of (md_inodes db) child = Some row"
  using bt.in_entries_iff [OF assms, of "(i, name)" child]
  by (force simp: child_rows_def map_filter_mem split: if_splits)

definition row_paths :: "metadata \<Rightarrow> str \<Rightarrow> str \<times> rowid \<times> inode_row \<Rightarrow> (str \<times> inode_kind) set" where
  "row_paths db base = (\<lambda>(name, child, row). insert (join_path base name, in_kind row)
     (if in_kind row = KIND_DIRECTORY then below db (child, join_path base name) else {}))"

lemma below_step:
  assumes "bt_sorted (md_dirents db)"
  shows "below db (i, base) = (\<Union>r \<in> set (child_rows db i). row_paths db base r)"
proof (intro equalityI subsetI)
  fix x assume "x \<in> below db (i, base)"
  then obtain name rest kind j where x: "x = (join_segments base (name # rest), kind)"
    "walk_path db (i, KIND_DIRECTORY) (name # rest) = Some (j, kind)"
  proof -
    from \<open>x \<in> below db (i, base)\<close> obtain segments kind j where s: "segments \<noteq> []" "x = (join_segments base segments, kind)"
      "walk_path db (i, KIND_DIRECTORY) segments = Some (j, kind)" by (auto simp: below_def)
    then obtain name rest where "segments = name # rest" by (cases segments) auto
    with s that show thesis by blast
  qed
  then obtain child row where row: "map_of (md_dirents db) (i, name) = Some child" "map_of (md_inodes db) child = Some row"
    "walk_path db (child, in_kind row) rest = Some (j, kind)" by (auto split: option.splits)
  have "x \<in> row_paths db base (name, child, row)"
  proof (cases rest)
    case Nil
    then show ?thesis using x row by (auto simp: row_paths_def join_segments_def)
  next
    case (Cons a as)
    then have "in_kind row = KIND_DIRECTORY" using row(3) by (auto split: if_splits)
    moreover from this have "(join_segments (join_path base name) rest, kind) \<in> below db (child, join_path base name)"
      using row(3) Cons by (intro belowI) simp_all
    ultimately show ?thesis using x(1) by (simp add: row_paths_def join_segments_def)
  qed
  then show "x \<in> (\<Union>r \<in> set (child_rows db i). row_paths db base r)"
    using row(1,2) child_rows_iff [OF assms] by blast
next
  fix x assume "x \<in> (\<Union>r \<in> set (child_rows db i). row_paths db base r)"
  then obtain name child row where row: "map_of (md_dirents db) (i, name) = Some child"
    "map_of (md_inodes db) child = Some row" and x: "x \<in> row_paths db base (name, child, row)"
    using child_rows_iff [OF assms] by (metis UN_E prod_cases3)
  from x consider "x = (join_path base name, in_kind row)"
    | segments kind j where "in_kind row = KIND_DIRECTORY" "x = (join_segments (join_path base name) segments, kind)"
      "walk_path db (child, KIND_DIRECTORY) segments = Some (j, kind)"
    by (auto simp: row_paths_def below_def split: if_splits)
  then show "x \<in> below db (i, base)"
  proof cases
    case 1
    then show ?thesis using row unfolding below_def by (auto simp: join_segments_def intro!: exI [of _ "[name]"])
  next
    case (2 segments kind j)
    then show ?thesis using row unfolding below_def
      by (auto simp: join_segments_def intro!: exI [of _ "name # segments"] exI [of _ j])
  qed
qed

lemma files_insert:
  "(\<exists>i ps. map_of (bt_insert child ((case map_of m child of None \<Rightarrow> [] | Some paths \<Rightarrow> paths) @ [path]) m) i = Some ps \<and> p \<in> set ps)
   \<longleftrightarrow> p = path \<or> (\<exists>i ps. map_of m i = Some ps \<and> p \<in> set ps)"
proof (cases "map_of m child")
  case None
  then show ?thesis by (auto simp: map_of_bt_insert) (metis option.distinct(1))
next
  case (Some paths)
  then show ?thesis by (auto simp: map_of_bt_insert) (metis option.inject)
qed

lemma staged_insert:
  "staged_paths (sg\<lparr>sg_directories := sg_directories sg @ [path]\<rparr>) = insert (path, KIND_DIRECTORY) (staged_paths sg)"
  "staged_paths (sg\<lparr>sg_symlinks := sg_symlinks sg @ [(path, target)]\<rparr>) = insert (path, KIND_SYMLINK) (staged_paths sg)"
  "bt_sorted (sg_paths_by_inode sg) \<Longrightarrow> staged_paths (sg\<lparr>sg_paths_by_inode := bt_insert child
      ((case map_of (sg_paths_by_inode sg) child of None \<Rightarrow> [] | Some paths \<Rightarrow> paths) @ [path]) (sg_paths_by_inode sg)\<rparr>) =
    insert (path, KIND_FILE) (staged_paths sg)"
proof -
  assume sorted: "bt_sorted (sg_paths_by_inode sg)"
  note mem = bt.in_entries_iff [OF sorted] bt.in_entries_iff [OF bt_sorted_insert [OF sorted]]
  show "staged_paths (sg\<lparr>sg_paths_by_inode := bt_insert child
      ((case map_of (sg_paths_by_inode sg) child of None \<Rightarrow> [] | Some paths \<Rightarrow> paths) @ [path]) (sg_paths_by_inode sg)\<rparr>) =
    insert (path, KIND_FILE) (staged_paths sg)"
    using files_insert [of child "sg_paths_by_inode sg" path]
    by (simp add: staged_paths_def mem set_eq_iff) blast
qed (auto simp: staged_paths_def)

lemma stage_children_paths:
  assumes "stage_children base rows stack sg = Inr (stack', sg')" "bt_sorted (sg_paths_by_inode sg)"
  shows "bt_sorted (sg_paths_by_inode sg') \<and>
    staged_paths sg' \<union> (\<Union>x \<in> set stack'. below db x) =
    staged_paths sg \<union> (\<Union>x \<in> set stack. below db x) \<union> (\<Union>r \<in> set rows. row_paths db base r)"
  using assms
proof (induction base rows stack sg rule: stage_children.induct)
  case (2 base name child row rows stack sg)
  show ?case
  proof (cases "in_kind row")
    case KIND_DIRECTORY
    have rp: "row_paths db base (name, child, row) =
        insert (join_path base name, KIND_DIRECTORY) (below db (child, join_path base name))"
      by (simp add: row_paths_def KIND_DIRECTORY)
    from 2(1) [OF refl KIND_DIRECTORY] 2(4,5) KIND_DIRECTORY show ?thesis
      by (simp add: rp staged_insert Let_def Un_ac)
  next
    case KIND_FILE
    with 2(2) [OF refl KIND_FILE] 2(4,5) show ?thesis
      by (simp add: row_paths_def staged_insert bt_sorted_insert Let_def)
  next
    case KIND_SYMLINK
    then obtain target where t: "in_symlink_target row = Some target" using 2(4) by (auto split: option.splits)
    with 2(3) [OF refl KIND_SYMLINK t] 2(4,5) KIND_SYMLINK show ?thesis
      by (simp add: row_paths_def staged_insert Let_def)
  qed
qed simp

lemma stage_walk_paths:
  assumes "stage_walk db stack sg = Some (Inr sg')" "bt_sorted (md_dirents db)" "bt_sorted (sg_paths_by_inode sg)"
  shows "bt_sorted (sg_paths_by_inode sg') \<and> staged_paths sg' = staged_paths sg \<union> (\<Union>x \<in> set stack. below db x)"
proof -
  have "result = Inr sg' \<longrightarrow> bt_sorted (md_dirents db) \<longrightarrow> bt_sorted (sg_paths_by_inode sg) \<longrightarrow>
      bt_sorted (sg_paths_by_inode sg') \<and> staged_paths sg' = staged_paths sg \<union> (\<Union>x \<in> set stack. below db x)"
    if "stage_walk db stack sg = Some result" for result
    using that
  proof (induction rule: stage_walk.raw_induct [rotated, consumes 1])
    case (1 walk db stack sg result)
    show ?case
    proof (cases stack)
      case Nil
      then show ?thesis using 1(2) by auto
    next
      case (Cons x rest)
      obtain i base where x: "x = (i, base)" by (cases x)
      show ?thesis
      proof (cases "stage_children base (child_rows db i) rest sg")
        case (Inr after)
        obtain stack1 sg1 where n: "after = (stack1, sg1)" by (cases after)
        have "walk db stack1 sg1 = Some result" using 1(2) Cons x Inr n by simp
        from 1(1) [OF this] stage_children_paths [OF Inr [unfolded n], of db] show ?thesis
          using Cons x below_step by auto
      qed (use 1(2) Cons x in auto)
    qed
  qed
  with assms show ?thesis by blast
qed


section \<open>What is staged\<close>

lemma sb_pending_push [simp]:
  "sb_pending (builder_push path p b) = sb_pending b @ [(path, p)]" "sb_parent (builder_push path p b) = sb_parent b"
  by (simp_all add: builder_push_def)

lemmas builder_defs = builder_directory_def builder_symlink_def builder_hardlink_def builder_file_under_def

lemma fold_builder:
  "sb_pending (fold (\<lambda>path. builder_hardlink path carrier) links b) =
     sb_pending b @ map (\<lambda>path. (path, Pending_HardlinkTo carrier)) links"
  "sb_pending (fold builder_directory dirs b) = sb_pending b @ map (\<lambda>path. (path, Pending_Directory)) dirs"
  "sb_pending (fold (\<lambda>(path, target). builder_symlink path target) symlinks b) =
     sb_pending b @ map (\<lambda>(path, target). (path, Pending_Symlink target)) symlinks"
proof -
  show "sb_pending (fold (\<lambda>path. builder_hardlink path carrier) links b) =
     sb_pending b @ map (\<lambda>path. (path, Pending_HardlinkTo carrier)) links"
    by (induction links arbitrary: b) (simp_all add: builder_defs)
  show "sb_pending (fold builder_directory dirs b) = sb_pending b @ map (\<lambda>path. (path, Pending_Directory)) dirs"
    by (induction dirs arbitrary: b) (simp_all add: builder_defs)
  show "sb_pending (fold (\<lambda>(path, target). builder_symlink path target) symlinks b) =
     sb_pending b @ map (\<lambda>(path, target). (path, Pending_Symlink target)) symlinks"
    by (induction symlinks arbitrary: b) (auto simp: builder_defs)
qed

definition adds :: "str set \<Rightarrow> digest set \<Rightarrow> snapshot_builder \<Rightarrow> snapshot_builder \<Rightarrow> bool" where
  "adds paths ds b b' \<longleftrightarrow> fst ` set (sb_pending b') = fst ` set (sb_pending b) \<union> paths \<and>
     (\<Union>(path, p) \<in> set (sb_pending b'). pending_digests p) \<subseteq> (\<Union>(path, p) \<in> set (sb_pending b). pending_digests p) \<union> ds"

lemma adds_trans: "adds P D b b1 \<Longrightarrow> adds Q D b1 b2 \<Longrightarrow> adds (P \<union> Q) D b b2"
proof -
  have within: "X \<subseteq> Y \<union> D \<Longrightarrow> Y \<subseteq> Z \<union> D \<Longrightarrow> X \<subseteq> Z \<union> D" for X Y Z :: "digest set" by blast
  assume "adds P D b b1" "adds Q D b1 b2"
  then show ?thesis unfolding adds_def by (elim conjE) (intro conjI, simp add: Un_assoc, erule (1) within)
qed

lemma stage_file_adds:
  assumes "stage_file db (i, paths) b = Inr b'"
  shows "adds (set paths) (set (head_objects db)) b b'"
proof -
  have "\<exists>carrier links x planner contract. sort paths = carrier # links \<and> sb_pending b' = sb_pending b @
      (carrier, Pending_File x planner contract (read_records db i)) # map (\<lambda>path. (path, Pending_HardlinkTo carrier)) links"
    using assms by (auto simp: stage_file_def fold_builder builder_file_under_def split: list.splits option.splits)
  then obtain carrier links x planner contract where s: "sort paths = carrier # links"
    and b': "sb_pending b' = sb_pending b @ (carrier, Pending_File x planner contract (read_records db i)) #
      map (\<lambda>path. (path, Pending_HardlinkTo carrier)) links" by blast
  have "set paths = insert carrier (set links)" using arg_cong [OF s, of set] by simp
  then show ?thesis using read_records_digests [of db i]
    by (auto simp: adds_def b' image_image image_Un)
qed

lemma stage_files_adds:
  "stage_files db es b = Inr b' \<Longrightarrow> adds (\<Union>(i, paths) \<in> set es. set paths) (set (head_objects db)) b b'"
proof (induction db es b rule: stage_files.induct)
  case (2 db e es b)
  obtain i paths where e: "e = (i, paths)" by (cases e)
  obtain b1 where b1: "stage_file db e b = Inr b1" "stage_files db es b1 = Inr b'"
    using 2(2) by (auto simp: result_simps)
  from adds_trans [OF stage_file_adds [OF b1(1) [unfolded e]] 2(1) [OF b1]] show ?case by (simp add: e)
qed (simp add: adds_def)

lemma staged_paths_fst:
  "fst ` staged_paths sg = set (sg_directories sg) \<union> fst ` set (sg_symlinks sg) \<union>
     (\<Union>(i, paths) \<in> set (sg_paths_by_inode sg). set paths)"
proof -
  have "fst ` {(path, KIND_FILE) | path i paths. (i, paths) \<in> set (sg_paths_by_inode sg) \<and> path \<in> set paths} =
      (\<Union>(i, paths) \<in> set (sg_paths_by_inode sg). set paths)" by force
  then show ?thesis by (simp add: staged_paths_def image_Un image_image case_prod_unfold Un_ac)
qed

lemma stage_builder_spec:
  assumes "stage_builder db w parent = Some (Inr b)" "bt_sorted (md_dirents db)"
  shows "fst ` set (sb_pending b) = fst ` below db (wr_root_inode w, [])"
    and "(\<Union>(path, p) \<in> set (sb_pending b). pending_digests p) \<subseteq> set (head_objects db)"
proof -
  let ?start = "\<lambda>sg. fold (\<lambda>(path, target). builder_symlink path target) (sg_symlinks sg)
      (fold builder_directory (sg_directories sg) (builder_new parent))"
  obtain sg where walk: "stage_walk db [(wr_root_inode w, [])] staged_empty = Some (Inr sg)"
    and files: "stage_files db (sg_paths_by_inode sg) (?start sg) = Inr b"
    using assms(1) by (auto simp: stage_builder_def result_simps)
  have "staged_paths sg = below db (wr_root_inode w, [])"
    using stage_walk_paths [OF walk assms(2)] by (simp add: staged_empty_def staged_paths_def)
  moreover have start: "fst ` set (sb_pending (?start sg)) = set (sg_directories sg) \<union> fst ` set (sg_symlinks sg)"
    "(\<Union>(path, p) \<in> set (sb_pending (?start sg)). pending_digests p) = {}"
    unfolding fold_builder by (auto simp: builder_new_def image_Un image_image case_prod_unfold)
  moreover note stage_files_adds [OF files, unfolded adds_def start]
  ultimately show "fst ` set (sb_pending b) = fst ` below db (wr_root_inode w, [])"
    "(\<Union>(path, p) \<in> set (sb_pending b). pending_digests p) \<subseteq> set (head_objects db)"
    using staged_paths_fst [of sg] by auto
qed

lemma build_snapshot_objects:
  assumes "build_snapshot u db w parent = Some (Inr s)" "bt_sorted (md_dirents db)"
  shows "set (manifest_objects s) \<subseteq> set (head_objects db)"
proof -
  obtain b where b: "stage_builder db w parent = Some (Inr b)" "builder_finish u b = Inr s"
    using assms(1) by (auto simp: build_snapshot_def result_simps)
  show ?thesis using builder_finish_objects [OF b(2)] stage_builder_spec(2) [OF b(1) assms(2)] by blast
qed


section \<open>Listing and resolving\<close>

lemma split_on_append: "split_on c (a @ c # b) = split_on c a @ split_on c b"
  by (induction a) (auto split: list.splits)

lemma split_on_single: "c \<notin> set s \<Longrightarrow> split_on c s = [s]"
  by (induction s) auto

lemma join_segments_snoc: "join_segments base (xs @ [x]) = join_path (join_segments base xs) x"
  by (simp add: join_segments_def)

lemma join_segments_nonempty: "segments \<noteq> [] \<Longrightarrow> \<forall>s \<in> set segments. s \<noteq> [] \<Longrightarrow> join_segments [] segments \<noteq> []"
  by (cases segments rule: rev_cases) (auto simp: join_segments_snoc join_path_def)

lemma split_join:
  "segments \<noteq> [] \<Longrightarrow> \<forall>s \<in> set segments. s \<noteq> [] \<and> CHR ''/'' \<notin> set s \<Longrightarrow>
   split_on CHR ''/'' (join_segments [] segments) = segments"
proof (induction segments rule: rev_induct)
  case (snoc x xs)
  show ?case
  proof (cases "xs = []")
    case True
    then show ?thesis using snoc.prems by (simp add: join_segments_def join_path_def split_on_single)
  next
    case False
    have "join_segments [] xs \<noteq> []" using snoc.prems False by (intro join_segments_nonempty) auto
    then show ?thesis using snoc False
      by (simp add: join_segments_snoc join_path_def split_on_append split_on_single)
  qed
qed simp

lemma join_split:
  "\<forall>s \<in> set (split_on CHR ''/'' path). s \<noteq> [] \<Longrightarrow> join_segments [] (split_on CHR ''/'' path) = path"
proof (induction "length path" arbitrary: path rule: less_induct)
  case less
  show ?case
  proof (cases "CHR ''/'' \<in> set path")
    case False
    then show ?thesis by (simp add: split_on_single join_segments_def join_path_def)
  next
    case True
    then obtain a b where p: "path = a @ CHR ''/'' # b" "CHR ''/'' \<notin> set b" by (metis split_list_last)
    have split: "split_on CHR ''/'' path = split_on CHR ''/'' a @ [b]"
      using p by (simp add: split_on_append split_on_single)
    have a: "join_segments [] (split_on CHR ''/'' a) = a"
    proof (rule less.hyps)
      show "length a < length path" by (simp add: p(1))
      show "\<forall>s \<in> set (split_on CHR ''/'' a). s \<noteq> []" using less.prems unfolding split by simp
    qed
    have "a \<noteq> []" using less.prems by (auto simp: split)
    then show ?thesis by (simp add: split join_segments_snoc a join_path_def) (simp add: p(1))
  qed
qed

definition names_ok :: "metadata \<Rightarrow> bool" where
  "names_ok db \<longleftrightarrow> (\<forall>((parent, name), child) \<in> set (md_dirents db). name \<noteq> [] \<and> CHR ''/'' \<notin> set name)"

lemma walk_path_names:
  "names_ok db \<Longrightarrow> walk_path db x segments = Some y \<Longrightarrow> \<forall>s \<in> set segments. s \<noteq> [] \<and> CHR ''/'' \<notin> set s"
proof (induction db x segments rule: walk_path.induct)
  case (2 db i kind segment segments)
  then obtain child row where c: "kind = KIND_DIRECTORY" "map_of (md_dirents db) (i, segment) = Some child"
    "map_of (md_inodes db) child = Some row" "walk_path db (child, in_kind row) segments = Some y"
    by (auto split: if_splits option.splits)
  have "segment \<noteq> [] \<and> CHR ''/'' \<notin> set segment"
    using map_of_SomeD [OF c(2)] 2(2) by (auto simp: names_ok_def)
  with 2(1) [OF _ c(2,3) 2(2) c(4)] c(1) show ?case by simp
qed simp

lemma head_tree_lists:
  assumes "workspace_row_of (ws_db ws) name = Inr w" "head_tree u name ws = Some (Inr tree)"
    and "bt_sorted (md_dirents (ws_db ws))" "names_ok (ws_db ws)" "path \<noteq> []"
  shows "path \<in> fst ` set tree \<longleftrightarrow> (\<exists>found. resolve_path u (ws_db ws) w path = Inr (Some found))"
proof -
  let ?db = "ws_db ws" and ?root = "wr_root_inode w"
  obtain b where b: "stage_builder ?db w None = Some (Inr b)" "builder_resolve u b = Inr tree"
    using assms(1,2) by (auto simp: head_tree_def build_tree_def builder_finish_tree_def result_simps)
  have listed: "fst ` set tree = fst ` below ?db (?root, [])"
    using builder_resolve_spec(1) [OF b(2)] stage_builder_spec(1) [OF b(1) assms(3)] by simp
  show ?thesis
  proof
    assume "path \<in> fst ` set tree"
    then obtain segments kind j where s: "path = join_segments [] segments" "segments \<noteq> []"
      "walk_path ?db (?root, KIND_DIRECTORY) segments = Some (j, kind)" by (auto simp: listed below_def)
    have "path \<in> fst ` set (sb_pending b)" using \<open>path \<in> fst ` set tree\<close> builder_resolve_spec(1) [OF b(2)] by simp
    then have "validate_path u path = Inr ()" using builder_resolve_spec(3) [OF b(2)] by auto
    moreover have "split_on CHR ''/'' path = segments"
      unfolding s(1) by (rule split_join [OF s(2) walk_path_names [OF assms(4) s(3)]])
    ultimately show "\<exists>found. resolve_path u ?db w path = Inr (Some found)"
      using s(3) assms(5) by (simp add: resolve_path_def)
  next
    assume "\<exists>found. resolve_path u ?db w path = Inr (Some found)"
    then obtain j kind where walk: "walk_path ?db (?root, KIND_DIRECTORY) (split_on CHR ''/'' path) = Some (j, kind)"
      using assms(5) by (auto simp: resolve_path_def result_simps)
    have "join_segments [] (split_on CHR ''/'' path) = path"
      using walk_path_names [OF assms(4) walk] by (intro join_split) blast
    with belowI [OF _ walk, of "[]"] show "path \<in> fst ` set tree" by (force simp: listed)
  qed
qed


section \<open>When the walk ends\<close>

text \<open>Directories are ranked when every directory entry leads to a directory of smaller rank. Then each
  step of the walk replaces one rank on the stack by smaller ones.\<close>

definition ranked :: "metadata \<Rightarrow> (rowid \<Rightarrow> nat) \<Rightarrow> bool" where
  "ranked db rank \<longleftrightarrow> (\<forall>i. \<forall>(name, child, row) \<in> set (child_rows db i).
     in_kind row = KIND_DIRECTORY \<longrightarrow> rank child < rank i)"

definition stack_ranks :: "(rowid \<Rightarrow> nat) \<Rightarrow> (rowid \<times> str) list \<Rightarrow> nat multiset" where
  "stack_ranks rank stack = mset (map (rank \<circ> fst) stack)"

lemma stage_children_ranks:
  assumes "stage_children base rows stack sg = Inr (stack', sg')"
    and "\<forall>(name, child, row) \<in> set rows. in_kind row = KIND_DIRECTORY \<longrightarrow> rank child < n"
  shows "\<exists>new. stack_ranks rank stack' = stack_ranks rank stack + new \<and> (\<forall>k \<in># new. k < n)"
  using assms
proof (induction base rows stack sg rule: stage_children.induct)
  case (2 base name child row rows stack sg)
  show ?case
  proof (cases "in_kind row")
    case KIND_DIRECTORY
    with 2(1) [OF refl KIND_DIRECTORY] 2(4,5) obtain new where
      "stack_ranks rank stack' = stack_ranks rank ((child, join_path base name) # stack) + new" "\<forall>k \<in># new. k < n"
      by (auto simp: Let_def)
    then show ?thesis using KIND_DIRECTORY 2(5)
      by (intro exI [of _ "add_mset (rank child) new"]) (simp add: stack_ranks_def)
  next
    case KIND_FILE
    with 2(2) [OF refl KIND_FILE] 2(4,5) show ?thesis by (simp add: Let_def)
  next
    case KIND_SYMLINK
    then obtain target where t: "in_symlink_target row = Some target" using 2(4) by (auto split: option.splits)
    with 2(3) [OF refl KIND_SYMLINK t] 2(4,5) KIND_SYMLINK show ?thesis by (simp add: Let_def)
  qed
qed (auto simp: stack_ranks_def)

lemma stage_walk_simps:
  "stage_walk db [] sg = Some (Inr sg)"
  "stage_walk db ((i, base) # rest) sg = (case stage_children base (child_rows db i) rest sg of
     Inl e \<Rightarrow> Some (Inl e) | Inr (stack, sg) \<Rightarrow> stage_walk db stack sg)"
  by (subst stage_walk.simps; simp)+

lemma stage_walk_ends:
  assumes "ranked db rank"
  shows "\<exists>result. stage_walk db stack sg = Some result"
proof (induction "stack_ranks rank stack" arbitrary: stack sg rule: wf_induct_rule [OF wf_mult [OF wf_less]])
  case (1 stack sg)
  show ?case
  proof (cases stack)
    case Nil
    then show ?thesis by (simp add: stage_walk_simps)
  next
    case (Cons x rest)
    obtain i base where x: "x = (i, base)" by (cases x)
    show ?thesis
    proof (cases "stage_children base (child_rows db i) rest sg")
      case (Inl e)
      then show ?thesis using Cons x by (simp add: stage_walk_simps)
    next
      case (Inr after)
      obtain stack1 sg1 where n: "after = (stack1, sg1)" by (cases after)
      have "\<forall>(name, child, row) \<in> set (child_rows db i). in_kind row = KIND_DIRECTORY \<longrightarrow> rank child < rank i"
        using assms unfolding ranked_def by blast
      from stage_children_ranks [OF Inr [unfolded n] this] obtain new where
        new: "stack_ranks rank stack1 = stack_ranks rank rest + new" "\<forall>k \<in># new. k < rank i" by blast
      have "(stack_ranks rank stack1, stack_ranks rank stack) \<in> mult {(a, b). a < b}"
        using one_step_implies_mult [of "{#rank i#}" new "{(a, b). a < b}" "stack_ranks rank rest"] new
        by (simp add: Cons x stack_ranks_def)
      from 1 [OF this] obtain result where "stage_walk db stack1 sg1 = Some result" by blast
      then show ?thesis using Cons x Inr n by (simp add: stage_walk_simps)
    qed
  qed
qed

text \<open>A directory that is its own child: the walk over it has no end.\<close>

lemma stage_walk_diverges:
  assumes "child_rows db i = [(name, i, row)]" "in_kind row = KIND_DIRECTORY"
  shows "stage_walk db [(i, base)] sg = None"
proof -
  have "False" if "stage_walk db' stack sg = Some result" "db' = db" "\<exists>base. stack = [(i, base)]" for db' stack sg result
    using that
  proof (induction rule: stage_walk.raw_induct [rotated, consumes 1])
    case (1 walk db' stack sg result)
    then obtain base where "stack = [(i, base)]" by blast
    then have "walk db [(i, join_path base name)] (sg\<lparr>sg_directories := sg_directories sg @ [join_path base name]\<rparr>) = Some result"
      using 1(2,3) assms by (simp add: Let_def)
    from 1(1) [OF this] show ?case by simp
  qed
  then show ?thesis by (metis not_None_eq)
qed


section \<open>A root directory that is removed\<close>

text \<open>Removing the empty path resolves to the root inode, which the batch deletes when it is an empty directory
  that nothing else names. A directory created after it gets the root's row id when the engine assigns that id
  again, and is then its own child; otherwise its entry would refer to a row that is gone.\<close>

definition rootless :: "workspace_row \<Rightarrow> metadata \<Rightarrow> metadata" where
  "rootless w db = db\<lparr>md_inodes := filter (\<lambda>(i, row). i \<noteq> wr_root_inode w) (md_inodes db),
     md_object_maps := filter (\<lambda>(i, records). i \<noteq> wr_root_inode w) (md_object_maps db)\<rparr>"

lemma no_siblings: "siblings db i = [] \<Longrightarrow> ((i, name), child) \<notin> set (md_dirents db)"
  by (auto simp: siblings_def filter_empty_conv)

lemma rmdir_root:
  assumes "siblings db (wr_root_inode w) = []" "link_count db (wr_root_inode w) = 0" "lease_count db (wr_root_inode w) = 0"
  shows "apply_mutation u w (Mutation_Rmdir []) db = Inr (rootless w db)"
proof -
  let ?i = "wr_root_inode w"
  have "map_of (md_dirents db) (?i, []) = None" using no_siblings [OF assms(1)] by (meson map_of_SomeD not_None_eq)
  then have kept: "delete_dirent ?i [] db = db" by (simp add: delete_dirent_def bt_remove_absent)
  have "filter (\<lambda>((parent, name), child). parent \<noteq> ?i) (md_dirents db) = md_dirents db"
    using no_siblings [OF assms(1)] by (auto simp: filter_id_conv)
  moreover have "\<not> list_ex (\<lambda>(key, child). child = ?i) (md_dirents db)"
    using assms(2) by (auto simp: link_count_def list_ex_iff filter_empty_conv)
  moreover have "\<not> list_ex (\<lambda>(l, row). case le_inode row of Some j \<Rightarrow> j = ?i | None \<Rightarrow> False) (md_leases db)"
    using assms(3) by (auto simp: lease_count_def list_ex_iff filter_empty_conv split: option.splits)
  ultimately have "delete_inodes (\<lambda>j. j = ?i) db = Inr (rootless w db)"
    by (simp add: delete_inodes_def rootless_def)
  then show ?thesis using assms kept
    by (simp add: resolve_existing_def resolve_path_def ok_or_def unlink_leaf_def parent_inode_of_def split_parent_def
        rsplit_once_def split_once_def drop_inode_if_orphaned_def)
qed

lemma mkdir_in_removed_root:
  assumes "siblings db (wr_root_inode w) = []" "(name, w) \<in> set (md_workspaces db)"
    and "validate_path u p = Inr ()" "rsplit_once CHR ''/'' p = None"
  shows "apply_mutation u w (Mutation_Mkdir p) (rootless w db) =
    (let next_id = next_rowid (map fst (md_inodes (rootless w db))) in
     if next_id = wr_root_inode w
     then Inr ((rootless w db)\<lparr>md_inodes := bt_insert next_id (empty_inode w KIND_DIRECTORY) (md_inodes (rootless w db)),
            md_dirents := bt_insert (next_id, p) next_id (md_dirents db)\<rparr>)
     else Inl WorkspaceError_Db)"
proof -
  let ?i = "wr_root_inode w" and ?db = "rootless w db"
  have d: "md_dirents ?db = md_dirents db" "siblings ?db ?i = []" "workspace_exists ?db (wr_id w)"
    using assms(1,2) by (auto simp: rootless_def siblings_def workspace_exists_def list_ex_iff)
  have free: "map_of (md_dirents db) (?i, p) = None" using no_siblings [OF assms(1)] by (meson map_of_SomeD not_None_eq)
  have gone: "map_of (md_inodes ?db) ?i = None" by (auto simp: rootless_def map_of_eq_None_iff)
  show ?thesis
    using assms(3,4) d free gone
    by (auto simp: create_leaf_def resolve_new_leaf_def split_parent_def insert_inode_def insert_dirent_def inode_exists_def
        map_of_bt_insert empty_inode_def Let_def)
qed

lemma child_rows_self:
  assumes "siblings db i = []" "map_of (md_inodes db') i = Some row" "md_dirents db' = bt_insert (i, p) i (md_dirents db)"
  shows "child_rows db' i = [(p, i, row)]"
proof -
  have none: "List.map_filter f m = []" if "\<forall>e \<in> set m. f e = None" for f and m :: "((rowid \<times> str) \<times> rowid) list"
    using that by (simp add: List.map_filter_def filter_empty_conv)
  have one: "List.map_filter f (bt_insert k v m) = [x]" if "f (k, v) = Some x" "\<forall>e \<in> set m. f e = None" for f k x
    and v :: rowid and m :: "((rowid \<times> str) \<times> rowid) list"
    using that by (induction k v m rule: bt_insert.induct) (auto simp: map_filter_simps none)
  show ?thesis unfolding child_rows_def assms(3)
    by (rule one) (use assms(2) no_siblings [OF assms(1)] in auto)
qed

lemma removed_root_batch:
  assumes "map_of (md_workspaces (ws_db ws)) name = Some w"
    and "siblings (ws_db ws) (wr_root_inode w) = []" "link_count (ws_db ws) (wr_root_inode w) = 0" "lease_count (ws_db ws) (wr_root_inode w) = 0"
    and "validate_path u p = Inr ()" "rsplit_once CHR ''/'' p = None"
    and "commit_generation u hs name [Mutation_Rmdir [], Mutation_Mkdir p] ws = (result, ws')"
  shows "if next_rowid (filter (\<lambda>i. i \<noteq> wr_root_inode w) (map fst (md_inodes (ws_db ws)))) = wr_root_inode w
    then result = Inr (wr_head_generation w + 1) \<and> head_tree u name ws' = None
    else result = Inl WorkspaceError_Db \<and> ws' = ws"
proof -
  let ?i = "wr_root_inode w" and ?db = "rootless w (ws_db ws)"
  have ids: "map fst (md_inodes ?db) = filter (\<lambda>i. i \<noteq> ?i) (map fst (md_inodes (ws_db ws)))"
    by (simp add: rootless_def filter_map comp_def case_prod_unfold)
  note mk = mkdir_in_removed_root [OF assms(2) map_of_SomeD [OF assms(1)] assms(5,6), unfolded ids]
  have unit: "and_then r (apply_mutations u w []) = r" for r by (cases r) simp_all
  have run: "commit_generation u hs name [Mutation_Rmdir [], Mutation_Mkdir p] ws =
      transact ws (and_then (apply_mutation u w (Mutation_Mkdir p) ?db) (\<lambda>db. Inr (wr_head_generation w + 1,
        db\<lparr>md_workspaces := bt_insert name (w\<lparr>wr_head_generation := wr_head_generation w + 1\<rparr>) (md_workspaces db)\<rparr>)))"
    using assms(1) rmdir_root [OF assms(2-4), of u] unit
    by (simp add: commit_generation_def commit_prepare_def first_missing_def commit_transaction_def workspace_row_of_def ok_or_def
        Let_def del: apply_mutation.simps)
  show ?thesis
  proof (cases "next_rowid (filter (\<lambda>i. i \<noteq> ?i) (map fst (md_inodes (ws_db ws)))) = ?i")
    case True
    let ?db' = "?db\<lparr>md_inodes := bt_insert ?i (empty_inode w KIND_DIRECTORY) (md_inodes ?db), md_dirents := bt_insert (?i, p) ?i (md_dirents (ws_db ws)),
        md_workspaces := bt_insert name (w\<lparr>wr_head_generation := wr_head_generation w + 1\<rparr>) (md_workspaces ?db)\<rparr>"
    have ws': "result = Inr (wr_head_generation w + 1)" "ws' = ws\<lparr>ws_db := ?db'\<rparr>"
      using assms(7) True unfolding run mk by (simp_all add: transact_def Let_def)
    have "child_rows ?db' ?i = [(p, ?i, empty_inode w KIND_DIRECTORY)]"
      by (rule child_rows_self [OF assms(2)]) (simp_all add: map_of_bt_insert)
    from stage_walk_diverges [OF this, of "[]" staged_empty] show ?thesis
      using ws' True by (simp add: empty_inode_def head_tree_def workspace_row_of_def ok_or_def map_of_bt_insert build_tree_def stage_builder_def)
  next
    case False
    then show ?thesis using assms(7) unfolding run mk by (simp add: transact_def Let_def)
  qed
qed

end
