(* ===== verification/Workspace_Truncate.thy ===== *)
theory Workspace_Truncate
  imports Workspace
begin

text \<open>
  Truncation of a record run (\<open>truncate_records\<close> of \<open>workspace.rs\<close>): the bytes of the shortened or
  extended file, and exactly which lengths are refused.
\<close>

definition run_size :: "file_record list \<Rightarrow> nat" where
  "run_size records = sum_list (map record_size records)"

lemma run_size_simps [simp]:
  "run_size [] = 0" "run_size (r # rs) = record_size r + run_size rs" "run_size (xs @ ys) = run_size xs + run_size ys"
  by (simp_all add: run_size_def)

lemma records_content_simps [simp]:
  "records_content st [] = []" "records_content st (r # rs) = record_content st r @ records_content st rs"
  "records_content st (xs @ ys) = records_content st xs @ records_content st ys"
  by (simp_all add: records_content_def)

lemma run_content_length: "list_all (record_resident st) rs \<Longrightarrow> length (records_content st rs) = run_size rs"
  by (simp add: length_records_content run_size_def)

text \<open>A length that falls strictly inside a data record.\<close>

fun cuts_data :: "nat \<Rightarrow> file_record list \<Rightarrow> bool" where
  "cuts_data len [] = False"
| "cuts_data len (r # rs) =
     (if record_size r \<le> len then cuts_data (len - record_size r) rs
      else 0 < len \<and> (case r of FileRecord_Data d n \<Rightarrow> True | FileRecord_Hole n \<Rightarrow> False))"

lemma unat_checked_stop:
  assumes "unat position + record_size r < 2 ^ 64"
  shows "checked_add position (record_length r) = Some (position + record_length r)"
    "unat (position + record_length r) = unat position + record_size r"
  using assms by (auto simp: checked_add_def record_size_def unat_add_u64)

lemma truncate_loop_spec:
  assumes "unat position = run_size kept" "unat position \<le> unat len" "unat position + run_size rs < 2 ^ 64"
    and "list_all (record_resident st) (kept @ rs)"
  shows "if cuts_data (unat len - unat position) rs then truncate_loop len position kept rs = None
    else \<exists>kept' position'. truncate_loop len position kept rs = Some (kept', position') \<and>
      unat position' = run_size kept' \<and> list_all (record_resident st) kept' \<and>
      run_size kept' = min (unat len) (run_size (kept @ rs)) \<and>
      records_content st kept' = take (unat len) (records_content st (kept @ rs))"
  using assms
proof (induction len position kept rs rule: truncate_loop.induct)
  case (1 len position kept)
  then show ?case by (simp add: run_content_length)
next
  case (2 len position kept r rs)
  note stop = unat_checked_stop [of position r]
  have fits: "unat position + record_size r < 2 ^ 64" using 2(4) by simp
  have res: "length (records_content st kept) = run_size kept" using 2(5) by (simp add: run_content_length)
  show ?case
  proof (cases "len \<le> position")
    case True
    then have eq: "unat len = run_size kept" using 2(2,3) by (simp add: word_le_nat_alt)
    have "\<not> cuts_data 0 rs'" for rs' by (induction rs') simp_all
    then show ?thesis using True eq 2(2,5) res by simp
  next
    case False
    note stop = stop [OF fits]
    show ?thesis
    proof (cases "position + record_length r \<le> len")
      case True
      then have le: "unat position + record_size r \<le> unat len" by (simp add: word_le_nat_alt stop(2))
      have IH: "if cuts_data (unat len - unat (position + record_length r)) rs
          then truncate_loop len (position + record_length r) (kept @ [r]) rs = None
          else \<exists>kept' position'. truncate_loop len (position + record_length r) (kept @ [r]) rs = Some (kept', position') \<and>
            unat position' = run_size kept' \<and> list_all (record_resident st) kept' \<and>
            run_size kept' = min (unat len) (run_size ((kept @ [r]) @ rs)) \<and>
            records_content st kept' = take (unat len) (records_content st ((kept @ [r]) @ rs))"
        by (rule 2(1) [OF False stop(1) True]) (use 2(2-5) le stop(2) in simp_all)
      have "cuts_data (unat len - unat position) (r # rs) = cuts_data (unat len - unat (position + record_length r)) rs"
        using le stop(2) by (simp add: le_diff_conv2 add.commute)
      moreover have "truncate_loop len position kept (r # rs) = truncate_loop len (position + record_length r) (kept @ [r]) rs"
        using False True stop(1) by simp
      moreover have "(kept @ [r]) @ rs = kept @ r # rs" by simp
      ultimately show ?thesis using IH by (simp only: refl)
    next
      case cut: False
      then have gt: "unat len < unat position + record_size r" by (simp add: word_le_nat_alt stop(2))
      have lt: "unat position < unat len" using False by (simp add: word_le_nat_alt)
      show ?thesis
      proof (cases r)
        case (FileRecord_Data d n)
        then show ?thesis using False cut stop(1) gt lt by (auto simp: le_diff_conv2)
      next
        case (FileRecord_Hole n)
        have hole: "unat (len - position) = unat len - unat position" using False by (simp add: unat_sub word_le_nat_alt)
        have "take (unat len) (records_content st (kept @ r # rs)) =
            records_content st kept @ replicate (unat len - unat position) 0"
          using res gt lt 2(2) FileRecord_Hole by (simp add: record_content_def record_size_def)
        then show ?thesis using False cut stop(1) gt lt hole 2(2,5) FileRecord_Hole
          by (auto simp: record_size_def record_content_def record_resident_def)
      qed
    qed
  qed
qed

lemma truncate_extend:
  assumes "unat position = run_size kept" "position < len" "list_all (record_resident st) kept"
  obtains records where
    "(case rev kept of
       FileRecord_Hole hole # before \<Rightarrow> Some (rev before @ [FileRecord_Hole (hole + (len - position))])
     | _ \<Rightarrow> Some (kept @ [FileRecord_Hole (len - position)])) = Some records"
    "run_size records = unat len" "list_all (record_resident st) records"
    "records_content st records = records_content st kept @ replicate (unat len - unat position) 0"
proof -
  have gap: "unat (len - position) = unat len - unat position"
    using assms(2) by (intro unat_sub) simp
  have lt: "unat position < unat len" using assms(2) by (simp add: word_less_nat_alt)
  show thesis
  proof (cases "rev kept")
    case Nil
    then show thesis using gap lt assms
      by (intro that [of "kept @ [FileRecord_Hole (len - position)]"])
        (simp_all add: record_content_def record_size_def record_resident_def)
  next
    case (Cons r before)
    then have kept: "kept = rev before @ [r]" by (metis rev.simps(2) rev_rev_ident)
    show thesis
    proof (cases r)
      case (FileRecord_Data d n)
      then show thesis using gap lt assms Cons
        by (intro that [of "kept @ [FileRecord_Hole (len - position)]"])
          (simp_all add: record_content_def record_size_def record_resident_def)
    next
      case (FileRecord_Hole hole)
      have "unat hole \<le> unat position" using assms(1) kept FileRecord_Hole by (simp add: record_size_def)
      then have small: "unat hole + (unat len - unat position) < 2 ^ 64"
        using lt unsigned_less [of len, where 'a = nat] by simp
      have h: "unat (hole + (len - position)) = unat hole + (unat len - unat position)"
        using unat_add_u64 [of hole "len - position"] small gap by simp
      show thesis using gap lt assms Cons kept FileRecord_Hole h
        by (intro that [of "rev before @ [FileRecord_Hole (hole + (len - position))]"])
          (simp_all add: record_content_def record_size_def record_resident_def replicate_add [symmetric])
    qed
  qed
qed

lemma truncate_records_spec:
  assumes "records_readable st records"
  shows "if cuts_data (unat len) records then truncate_records records len = None
    else \<exists>records'. truncate_records records len = Some records' \<and> run_size records' = unat len \<and>
      list_all (record_resident st) records' \<and>
      records_content st records' = take (unat len) (records_content st records @ replicate (unat len) 0)"
proof -
  have res: "list_all (record_resident st) records" "run_size records < 2 ^ 64"
    using assms by (simp_all add: records_readable_def run_size_def)
  have loop: "if cuts_data (unat len) records then truncate_loop len 0 [] records = None
    else \<exists>kept position. truncate_loop len 0 [] records = Some (kept, position) \<and>
      unat position = run_size kept \<and> list_all (record_resident st) kept \<and>
      run_size kept = min (unat len) (run_size records) \<and>
      records_content st kept = take (unat len) (records_content st records)"
    using truncate_loop_spec [of 0 "[]" len records st, simplified append_Nil] res by simp
  show ?thesis
  proof (cases "cuts_data (unat len) records")
    case True
    then show ?thesis using loop by (simp add: truncate_records_def)
  next
    case False
    then obtain kept position where k: "truncate_loop len 0 [] records = Some (kept, position)"
      "unat position = run_size kept" "list_all (record_resident st) kept"
      "run_size kept = min (unat len) (run_size records)"
      "records_content st kept = take (unat len) (records_content st records)" using loop by auto
    have all: "length (records_content st records) = run_size records" by (rule run_content_length [OF res(1)])
    show ?thesis
    proof (cases "position < len")
      case True
      then obtain records' where "(case rev kept of
           FileRecord_Hole hole # before \<Rightarrow> Some (rev before @ [FileRecord_Hole (hole + (len - position))])
         | _ \<Rightarrow> Some (kept @ [FileRecord_Hole (len - position)])) = Some records'"
        "run_size records' = unat len" "list_all (record_resident st) records'"
        "records_content st records' = records_content st kept @ replicate (unat len - unat position) 0"
        by (rule truncate_extend [OF k(2) _ k(3)]) (rule that, assumption+)
      moreover have "unat position = run_size records" "unat position \<le> unat len"
        using True k(2,4) by (auto simp: word_less_nat_alt)
      ultimately show ?thesis using False True k(1,5) all by (simp add: truncate_records_def)
    next
      case full: False
      then have "run_size kept = unat len" "unat len \<le> run_size records"
        using k(2,4) by (auto simp: word_less_nat_alt)
      with False full k all show ?thesis by (simp add: truncate_records_def)
    qed
  qed
qed

end
