(* ===== verification/Seal_Content.thy ===== *)
theory Seal_Content
  imports Workspace_Seal Workspace_Truncate Workspace_Safety
begin

text \<open>
  Sealing changes how a file is cut into objects and never its bytes: the records that a seal job
  puts in the place of the committed ones read back as the same content.
\<close>

section \<open>Admission only adds objects\<close>

lemma store_grows_refl [simp]: "store_grows st st"
  by (simp add: store_grows_def)

lemma store_grows_trans: "store_grows st st' \<Longrightarrow> store_grows st' st'' \<Longrightarrow> store_grows st st''"
  by (auto simp: store_grows_def file_resident_def)

lemma store_grows_open: "store_grows st st' \<Longrightarrow> open_object d st = Inr bs \<Longrightarrow> open_object d st' = Inr bs"
  by (force simp: store_grows_def file_resident_def open_object_def split: option.splits resident.splits)

lemma record_grows:
  assumes "store_grows st st'" "record_resident st r"
  shows "record_content st' r = record_content st r" "record_resident st' r"
  using assms store_grows_open [OF assms(1)]
  by (auto simp: record_content_def record_resident_def split: file_record.splits sum.splits)

lemma records_grow:
  assumes "store_grows st st'" "list_all (record_resident st) rs"
  shows "records_content st' rs = records_content st rs" "list_all (record_resident st') rs"
  using assms by (induction rs) (simp_all add: record_grows [OF assms(1)])

lemma admit_region_grows:
  assumes "hasher_streams hs sha256" "store_ok sha256 st"
  shows "store_grows st (snd (admit_region env hs source r st))"
  using put_bytes_grows [OF assms] by (auto simp: admit_region_def map_err_def split: sum.splits)

lemma admit_serial_grows:
  assumes "hasher_streams hs sha256"
  shows "store_ok sha256 st \<Longrightarrow> store_grows st (snd (admit_serial env hs source regions st))"
proof (induction regions arbitrary: st)
  case (Cons r regions)
  note r = admit_region_spec(1) [OF assms Cons.prems, of env source r] admit_region_grows [OF assms Cons.prems, of env source r]
  obtain result st1 where st1: "admit_region env hs source r st = (result, st1)"
    by (cases "admit_region env hs source r st")
  have one: "store_grows st st1" using r(2) st1 by simp
  have "store_grows st1 (snd (admit_serial env hs source regions st1))" using Cons.IH r(1) st1 by simp
  note both = store_grows_trans [OF one this]
  show ?case using one both st1
    by (cases result; cases "admit_serial env hs source regions st1") (auto simp: op_then_def split: sum.splits)
qed simp

lemma admit_scheduled_grows:
  assumes "hasher_streams hs sha256"
  shows "store_ok sha256 st \<Longrightarrow> store_grows st (snd (admit_scheduled env hs source regions schedule st))"
proof (induction schedule arbitrary: st)
  case (Cons i schedule)
  note r = admit_region_spec(1) [OF assms Cons.prems, of env source "regions ! i"]
    admit_region_grows [OF assms Cons.prems, of env source "regions ! i"]
  show ?case using Cons.IH [OF r(1)] r(2) store_grows_trans
    by (auto simp: Let_def split: prod.splits)
qed simp

lemma admit_regions_grows:
  assumes "hasher_streams hs sha256" "store_ok sha256 st"
  shows "store_grows st (snd (admit_regions env hs concurrency schedule source regions st))"
  using admit_serial_grows [OF assms] admit_scheduled_grows [OF assms]
  by (auto simp: admit_regions_def Let_def split: prod.splits) (metis snd_conv)


section \<open>The ranges of a committed head\<close>

lemma record_size_data [simp]: "record_size (FileRecord_Data d n) = unat n"
  by (simp add: record_size_def)

lemma committed_ranges_content:
  assumes "committed_ranges position records = Some committed" "list_all (record_resident st) records"
    and "unat position + run_size records < 2 ^ 64" "((p, len), d) \<in> set committed"
  shows "unat position \<le> unat p \<and> unat p + unat len \<le> unat position + run_size records \<and>
    FileRecord_Data d len \<in> set records \<and>
    record_content st (FileRecord_Data d len) = take (unat len) (drop (unat p - unat position) (records_content st records))"
  using assms
proof (induction position records arbitrary: committed rule: committed_ranges.induct)
  case (3 position d' n rs)
  then obtain rest where rest: "committed_ranges (position + n) rs = Some rest" "committed = ((position, n), d') # rest"
    by auto
  have next_position: "unat (position + n) = unat position + unat n"
    using "3.prems"(3) by (simp add: unat_add_u64)
  have first: "length (record_content st (FileRecord_Data d' n)) = unat n"
    using "3.prems"(2) length_record_content [of st "FileRecord_Data d' n"] by simp
  show ?case
  proof (cases "((p, len), d) \<in> set rest")
    case True
    from "3.IH" [OF rest(1) _ _ True] "3.prems"(2,3) next_position first show ?thesis by (auto simp: diff_diff_left)
  next
    case False
    then show ?thesis using "3.prems"(4) rest(2) first by simp
  qed
qed simp_all

lemma fold_insert_mem:
  "map_of (fold (\<lambda>(range, d). bt_insert range d) xs m) k = Some v \<Longrightarrow> (k, v) \<in> set xs \<or> map_of m k = Some v"
  by (induction xs arbitrary: m) (fastforce simp: map_of_bt_insert split: if_splits)+

lemma by_range_mem: "map_of (by_range committed) k = Some d \<Longrightarrow> (k, d) \<in> set committed"
  using fold_insert_mem [of committed "[]" k d] by (simp add: by_range_def)


section \<open>Seal jobs keep the bytes\<close>

text \<open>The hash does not collide on the pieces of the file and the resident objects.\<close>

definition pieces_of :: "bytes \<Rightarrow> bytes set" where
  "pieces_of file = {take n (drop k file) | k n. True}"

lemma whole_piece: "file \<in> pieces_of file"
proof -
  have "file = take (length file) (drop 0 file)" by simp
  then show ?thesis unfolding pieces_of_def by blast
qed

lemma region_piece: "region_bytes file r \<in> pieces_of file"
  by (auto simp: pieces_of_def region_bytes_def)

definition clash_free :: "(bytes \<Rightarrow> digest) \<Rightarrow> bytes \<Rightarrow> object_store \<Rightarrow> bool" where
  "clash_free sha256 file st \<longleftrightarrow> inj_on sha256 (pieces_of file \<union> ran (object_bytes (os_objects st)))"

lemma clash_free_opens:
  assumes "store_ok sha256 st" "clash_free sha256 file st" "piece \<in> pieces_of file" "sha256 piece \<in> store_digests st"
  shows "open_object (sha256 piece) st = Inr piece"
proof (rule stored_piece [OF assms(1,4)])
  show "inj_on sha256 (insert piece (ran (object_bytes (os_objects st))))"
    by (rule inj_on_subset [OF assms(2) [unfolded clash_free_def]]) (use assms(3) in blast)
qed

text \<open>What a job promises about the file it replaces.\<close>

definition job_keeps :: "object_store \<Rightarrow> file_record list \<Rightarrow> object_store \<Rightarrow> seal_job \<Rightarrow> bool" where
  "job_keeps st records st' job \<longleftrightarrow>
     records_content st' (sj_records job) = records_content st records \<and>
     list_all (record_resident st') (sj_records job) \<and> set (sj_new_digests job) \<subseteq> store_digests st' \<and>
     set (record_digests (sj_records job)) \<subseteq> set (sj_new_digests job) \<union> set (record_digests records)"

lemma data_piece:
  assumes "open_object d st = Inr bs" "unat len = length bs"
  shows "record_content st (FileRecord_Data d len) = bs" "record_resident st (FileRecord_Data d len)"
  using assms by (simp_all add: record_content_def record_resident_def)

lemma blob_seal_job_keeps:
  assumes "hasher_streams hs sha256" "store_ok sha256 st" "records_readable st records"
    and "blob_seal_job ae hs path (records_source st records) st = (result, st')"
    and "clash_free sha256 (records_content st records) st'"
  shows "store_ok sha256 st' \<and> store_grows st st' \<and> (\<exists>job. result = Inr job \<and> job_keeps st records st' job)"
proof -
  let ?file = "records_content st records" and ?source = "records_source st records"
  have valid: "case (st, records) of (st, records) \<Rightarrow> records_readable st records" using assms(3) by simp
  have len: "unat (src_len ?source) = length ?file" "length ?file < 2 ^ 64"
    using committed.unat_reported [OF valid] committed.short [OF valid] by simp_all
  note adm = committed.admit_source_range_content [OF assms(1,2) valid, of 0 "src_len ?source" "ae_env ae",
      unfolded prod.case, simplified len, simplified]
  note clean = admit_source_range_clean [OF assms(1,2), of "ae_env ae" ?source 0 "src_len ?source"]
  have sound: "objects_sound sha256 (os_objects st)" using assms(2) by (simp add: store_ok_def)
  obtain a where a: "fst (admit sha256 ?file (os_objects st)) = Inr a" "ao_digest a = sha256 ?file"
    "ao_length a = of_nat (length ?file)" using admit_sound(2) [OF sound, of ?file] by blast
  obtain st1 where st1: "admit_source_range (ae_env ae) hs ?source 0 (src_len ?source) st = (Inr a, st1)"
    using adm(1) a(1) by (metis prod.collapse)
  then have res: "st' = st1" "result = Inr \<lparr>sj_path = path, sj_planner = PlannerId_BlobV1, sj_contract = Stamp_None,
      sj_records = [FileRecord_Data (sha256 ?file) (of_nat (length ?file))], sj_update_records = True,
      sj_new_digests = [sha256 ?file]\<rparr>"
    using assms(4) a(2,3) by (simp_all add: blob_seal_job_def)
  have ok: "store_ok sha256 st'" using clean(2) st1 res(1) by simp
  have obj: "os_objects st' = snd (admit sha256 ?file (os_objects st))" using adm(2) st1 res(1) by simp
  then have dig: "sha256 ?file \<in> store_digests st'"
    using admit_sound(3) [OF sound, of ?file] by (simp add: store_digests_def)
  have opens: "open_object (sha256 ?file) st' = Inr ?file"
    by (rule clash_free_opens [OF ok assms(5) whole_piece dig])
  have "unat (of_nat (length ?file) :: u64) = length ?file" using len(2) by (simp add: unat_of_nat)
  note piece = data_piece [OF opens this]
  show ?thesis using ok admit_grows [OF sound obj] piece dig by (simp add: res(2) job_keeps_def)
qed

lemma record_digests_mem: "FileRecord_Data d n \<in> set rs \<Longrightarrow> d \<in> set (record_digests rs)"
  by (induction rs rule: record_digests.induct) auto

lemma record_digests_data [simp]: "record_digests (map (\<lambda>r. FileRecord_Data (f r) (g r)) rs) = map f rs"
  by (induction rs) simp_all

lemma map_of_zip_same:
  assumes "distinct (map fst ps)" "(i, r) \<in> set ps"
  shows "map_of (zip (map fst ps) (map (f \<circ> snd) ps)) i = Some (f r)"
  using assms by (induction ps) (auto simp: image_iff)

lemma collect_results_Inr: "(\<And>x. x \<in> set xs \<Longrightarrow> f x = Inr (g x)) \<Longrightarrow> collect_results (map f xs) = Inr (map g xs)"
  by (induction xs) simp_all

text \<open>A file cut again: a region with a committed range keeps its object, the others are in the store.\<close>

definition recut :: "(bytes \<Rightarrow> digest) \<Rightarrow> bytes \<Rightarrow> ((u64 \<times> u64) \<times> digest) list \<Rightarrow> region \<Rightarrow> file_record" where
  "recut sha256 file ranges r =
     FileRecord_Data (case map_of ranges (region_range r) of Some d \<Rightarrow> d | None \<Rightarrow> sha256 (region_bytes file r)) (reg_length r)"

lemma recut_keeps:
  assumes "store_ok sha256 st'" "store_grows st st'" "records_readable st records"
    and "tiles 0 regions (length (records_content st records))" "clash_free sha256 (records_content st records) st'"
    and "\<And>p len d. map_of ranges (p, len) = Some d \<Longrightarrow> FileRecord_Data d len \<in> set records \<and>
      record_content st (FileRecord_Data d len) = take (unat len) (drop (unat p) (records_content st records))"
    and "\<And>r. r \<in> set regions \<Longrightarrow> map_of ranges (region_range r) = None \<Longrightarrow>
      sha256 (region_bytes (records_content st records) r) \<in> store_digests st'"
  shows "records_content st' (map (recut sha256 (records_content st records) ranges) regions) = records_content st records"
    "list_all (record_resident st') (map (recut sha256 (records_content st records) ranges) regions)"
proof -
  let ?file = "records_content st records"
  have inside: "list_all (region_inside (length ?file)) regions" by (rule tiles_inside [OF assms(4) order_refl])
  have piece: "record_content st' (recut sha256 ?file ranges r) = region_bytes ?file r \<and> record_resident st' (recut sha256 ?file ranges r)"
    if r: "r \<in> set regions" for r
  proof (cases "map_of ranges (region_range r)")
    case (Some d)
    then have "FileRecord_Data d (reg_length r) \<in> set records" "record_content st (FileRecord_Data d (reg_length r)) = region_bytes ?file r"
      using assms(6) [of "reg_offset r" "reg_length r" d] by (simp_all add: region_range_def region_bytes_def)
    then show ?thesis
      using record_grows [OF assms(2), of "FileRecord_Data d (reg_length r)"] assms(3) Some
      by (simp add: recut_def records_readable_def list_all_iff)
  next
    case None
    have opens: "open_object (sha256 (region_bytes ?file r)) st' = Inr (region_bytes ?file r)"
      by (rule clash_free_opens [OF assms(1,5) region_piece assms(7) [OF r None]])
    have "unat (reg_length r) = length (region_bytes ?file r)"
      using inside r by (auto simp: list_all_iff region_inside_def region_bytes_def)
    then show ?thesis using data_piece [OF opens] None by (simp add: recut_def)
  qed
  have "records_content st' (map (recut sha256 ?file ranges) regions) = concat (map (region_bytes ?file) regions)"
    using piece by (simp add: records_content_def comp_def cong: map_cong)
  also have "\<dots> = ?file" using tiles_concat [OF assms(4) order_refl] by simp
  finally show "records_content st' (map (recut sha256 ?file ranges) regions) = ?file" .
  show "list_all (record_resident st') (map (recut sha256 ?file ranges) regions)" using piece by (simp add: list_all_iff)
qed

lemma replan_job_keeps:
  assumes "hasher_streams hs sha256" "store_ok sha256 st" "records_readable st records"
    and "committed_ranges 0 records = Some committed"
    and "tiles 0 (plan_regions planned) (length (records_content st records))"
    and "\<And>n. mset (ae_schedule ae n) = mset [0..<n]"
    and "replan_job ae hs path (records_source st records) committed planned st = (result, st')"
    and "clash_free sha256 (records_content st records) st'"
  shows "store_ok sha256 st' \<and> store_grows st st' \<and> (\<exists>job. result = Inr job \<and> job_keeps st records st' job)"
proof -
  let ?file = "records_content st records" and ?source = "records_source st records"
  let ?regions = "plan_regions planned" and ?ranges = "by_range committed"
  let ?pending = "pending_slots ?ranges ?regions"
  have readable: "list_all (record_resident st) records" "run_size records < 2 ^ 64"
    using assms(3) by (simp_all add: records_readable_def run_size_def)
  have valid: "case (st, records) of (st, records) \<Rightarrow> records_readable st records" using assms(3) by simp
  have inside: "list_all (region_inside (length ?file)) ?regions" by (rule tiles_inside [OF assms(5) order_refl])
  have pend: "set (map snd ?pending) \<subseteq> set ?regions"
    by (auto simp: pending_slots_def in_set_enumerate_eq)
  then have inside': "list_all (region_inside (length ?file)) (map snd ?pending)"
    using inside by (auto simp: list_all_iff)
  have sched: "mset (ae_schedule ae (length ?pending)) = mset [0..<length (map snd ?pending)]" using assms(6) by simp
  obtain admitted where adm: "admit_regions (ae_env ae) hs (ae_concurrency ae) (ae_schedule ae (length ?pending)) ?source
      (map snd ?pending) st = (Inr admitted, st')"
    and dg: "map ao_digest admitted = map (sha256 \<circ> region_bytes ?file) (map snd ?pending)"
    using committed.admit_regions_inside [OF assms(1,2) valid, of "map snd ?pending", unfolded prod.case, OF inside' sched]
      assms(7)
    by (cases "admit_regions (ae_env ae) hs (ae_concurrency ae) (ae_schedule ae (length ?pending)) ?source
      (map snd ?pending) st") (fastforce simp: replan_job_def Let_def)
  note spec = admit_regions_spec [OF assms(1,2) sched, of "ae_env ae" "ae_concurrency ae" ?source, unfolded adm snd_conv]
  have grows: "store_grows st st'"
    using admit_regions_grows [OF assms(1,2), of "ae_env ae" "ae_concurrency ae" "ae_schedule ae (length ?pending)" ?source
        "map snd ?pending"] adm by simp
  have digests: "store_digests st' = ao_digest ` set admitted \<union> store_digests st"
    by (rule admit_regions_digests [OF assms(1,2) sched adm])
  let ?fresh = "zip (map fst ?pending) (map ao_digest admitted)"
  have fresh: "map snd ?fresh = map ao_digest admitted"
    using arg_cong [OF dg, of length] by simp
  have fr: "?fresh = zip (map fst ?pending) (map ((\<lambda>r. sha256 (region_bytes ?file r)) \<circ> snd) ?pending)"
    using dg by (simp add: comp_def)
  have slot: "new_record ?ranges ?fresh (i, r) = Inr (recut sha256 ?file ?ranges r)"
    if "(i, r) \<in> set (enumerate 0 ?regions)" for i r
  proof (cases "map_of ?ranges (region_range r)")
    case None
    with that have "(i, r) \<in> set ?pending" by (simp add: pending_slots_def)
    moreover have "distinct (map fst ?pending)"
      by (simp add: pending_slots_def distinct_map_filter)
    ultimately have "map_of ?fresh i = Some (sha256 (region_bytes ?file r))"
      unfolding fr by (intro map_of_zip_same)
    then show ?thesis using None by (simp add: new_record_def recut_def)
  qed (simp add: new_record_def recut_def)
  have "collect_results (map (new_record ?ranges ?fresh) (enumerate 0 ?regions)) =
      Inr (map (\<lambda>(i, r). recut sha256 ?file ?ranges r) (enumerate 0 ?regions))"
    by (rule collect_results_Inr) (auto simp: slot)
  also have "map (\<lambda>(i, r). recut sha256 ?file ?ranges r) (enumerate 0 ?regions) =
      map (recut sha256 ?file ?ranges) (map snd (enumerate 0 ?regions))"
    by (simp only: map_map comp_def case_prod_unfold)
  finally have records: "collect_results (map (new_record ?ranges ?fresh) (enumerate 0 ?regions)) =
      Inr (map (recut sha256 ?file ?ranges) ?regions)" by simp
  have committed_piece: "FileRecord_Data d len \<in> set records \<and>
      record_content st (FileRecord_Data d len) = take (unat len) (drop (unat p) ?file)"
    if "map_of ?ranges (p, len) = Some d" for p len d
    using committed_ranges_content [OF assms(4) readable(1) _ by_range_mem [OF that]] readable(2) by simp
  have new: "sha256 (region_bytes ?file r) \<in> set (map snd ?fresh)"
    if r: "r \<in> set ?regions" "map_of ?ranges (region_range r) = None" for r
  proof -
    obtain i where "i < length ?regions" "r = ?regions ! i" using r by (auto simp: in_set_conv_nth)
    then have "(i, r) \<in> set (enumerate 0 ?regions)" by (simp add: in_set_enumerate_eq)
    then have "(i, r) \<in> set ?pending" using r(2) by (simp add: pending_slots_def)
    then show ?thesis unfolding fresh dg by (force simp: image_iff)
  qed
  have stored: "sha256 (region_bytes ?file r) \<in> store_digests st'"
    if "r \<in> set ?regions" "map_of ?ranges (region_range r) = None" for r
    using new [OF that] digests fresh by auto
  note keep = recut_keeps [OF spec(1) grows assms(3,5,8) committed_piece stored]
  let ?job = "\<lparr>sj_path = path, sj_planner = plan_planner planned, sj_contract = plan_contract planned,
      sj_records = map (recut sha256 ?file ?ranges) ?regions,
      sj_update_records = True, sj_new_digests = map snd ?fresh\<rparr>"
  have res: "result = Inr ?job" using assms(7) adm records by (simp add: replan_job_def Let_def)
  have "record_digests (map (recut sha256 ?file ?ranges) ?regions) =
      map (\<lambda>r. case map_of ?ranges (region_range r) of Some d \<Rightarrow> d | None \<Rightarrow> sha256 (region_bytes ?file r)) ?regions"
    unfolding recut_def by (rule record_digests_data)
  moreover have "(case map_of ?ranges (region_range r) of Some d \<Rightarrow> d | None \<Rightarrow> sha256 (region_bytes ?file r)) \<in>
      set (map snd ?fresh) \<union> set (record_digests records)" if "r \<in> set ?regions" for r
    using new [OF that] committed_piece [of "reg_offset r" "reg_length r"] record_digests_mem
    by (fastforce simp: region_range_def split: option.split)
  ultimately have "set (record_digests (sj_records ?job)) \<subseteq> set (sj_new_digests ?job) \<union> set (record_digests records)" by auto
  moreover have "set (sj_new_digests ?job) \<subseteq> store_digests st'" using digests fresh by simp
  ultimately have "job_keeps st records st' ?job" using keep by (simp only: job_keeps_def seal_job.select_convs)
  with spec(1) grows res show ?thesis by blast
qed


text \<open>Committed records are readable, so the planner finds its plan and the plan partitions the content.\<close>

lemma records_source_readable:
  assumes "records_readable st records"
  shows "source_readable (records_source st records)"
  using committed.reads [of "(st, records)"] committed.unat_reported [of "(st, records)"] assms
  by (simp add: source_readable_def is_ok_def)

lemma plan_records:
  assumes "records_readable st records" "contract_fits seams"
  obtains p where "plan_with sha256 json_parse 0 (records_source st records) seams = Inr p"
    "tiles 0 (plan_regions p) (length (records_content st records))"
proof -
  obtain p where p: "plan_once sha256 json_parse (records_source st records) seams = Inr p"
    using plan_once_total [OF records_source_readable [OF assms(1)] assms(2)] by blast
  then have "tiles 0 (plan_regions p) (length (records_content st records))"
    using plan_once_Inr(1,2) [OF p] committed.unat_reported [of "(st, records)"] assms(1) by (simp add: plan_validate_iff)
  moreover have "plan_with sha256 json_parse 0 (records_source st records) seams = Inr p"
    using p by (simp add: plan_with_Inr_iff records_source_def)
  ultimately show thesis by (rule that [rotated])
qed

lemma committed_ranges_total: "\<not> list_ex is_hole records \<Longrightarrow> \<exists>committed. committed_ranges position records = Some committed"
  by (induction position records rule: committed_ranges.induct) auto

lemma relabel_keeps: "list_all (record_resident st) records \<Longrightarrow> sj_records job = records \<Longrightarrow> sj_new_digests job = [] \<Longrightarrow>
   job_keeps st records st job"
  by (simp add: job_keeps_def)

lemma plan_seal_job_keeps:
  assumes "hasher_streams hs sha256" "store_ok sha256 st" "records_readable st records" "contract_fits seams"
    and "\<And>n. mset (ae_schedule ae n) = mset [0..<n]"
    and "plan_seal_job ae hs sha256 json_parse seams path stored_planner stored_contract records st = (result, st')"
    and "clash_free sha256 (records_content st records) st'"
  shows "store_ok sha256 st' \<and> store_grows st st' \<and>
    (\<exists>found. result = Inr found \<and> (\<forall>job. found = Some job \<longrightarrow> job_keeps st records st' job))"
proof -
  have res: "list_all (record_resident st) records" using assms(3) by (simp add: records_readable_def)
  obtain p where p: "plan_with sha256 json_parse 0 (records_source st records) seams = Inr p"
    "tiles 0 (plan_regions p) (length (records_content st records))" by (rule plan_records [OF assms(3,4)])
  consider (same) "st' = st" "result = Inr None"
    | (relabel) job where "st' = st" "result = Inr (Some job)" "sj_records job = records" "sj_new_digests job = []"
    | (blob) r where "blob_seal_job ae hs path (records_source st records) st = (r, st')" "result = map_ok Some r"
    | (replan) committed r where "committed_ranges 0 records = Some committed"
        "replan_job ae hs path (records_source st records) committed p st = (r, st')" "result = map_ok Some r"
    using assms(6) p(1) committed_ranges_total [of records 0]
    by (auto simp: plan_seal_job_def Let_def split: if_splits list.splits file_record.splits prod.splits option.splits)
  then show ?thesis
  proof cases
    case same
    then show ?thesis using assms(2) by simp
  next
    case (relabel job)
    then show ?thesis using assms(2) relabel_keeps [OF res] by simp
  next
    case (blob r)
    from blob_seal_job_keeps [OF assms(1-3) blob(1) assms(7)] blob(2) show ?thesis by auto
  next
    case (replan committed r)
    from replan_job_keeps [OF assms(1-3) replan(1) p(2) assms(5) replan(2) assms(7)] replan(3) show ?thesis by auto
  qed
qed

end
