(* ===== verification/Seal_Safety.thy ===== *)
theory Seal_Safety
  imports Head_Tree Seal_Content
begin

text \<open>
  The directory tables stay well formed under every operation, and sealing keeps the invariant of the
  workspace store: the snapshot it roots can be read and everything it names is resident.
\<close>

section \<open>Well-formed directory tables\<close>

definition db_wf :: "metadata \<Rightarrow> bool" where
  "db_wf db \<longleftrightarrow> bt_sorted (md_dirents db) \<and> names_ok db"

lemma db_wf_cong: "md_dirents db' = md_dirents db \<Longrightarrow> db_wf db' \<longleftrightarrow> db_wf db"
  by (simp add: db_wf_def names_ok_def)

lemma db_wf_update [simp]:
  "db_wf (db\<lparr>md_inodes := inodes\<rparr>) \<longleftrightarrow> db_wf db" "db_wf (db\<lparr>md_workspaces := rows\<rparr>) \<longleftrightarrow> db_wf db"
  "db_wf (db\<lparr>md_snapshots := snapshots\<rparr>) \<longleftrightarrow> db_wf db" "db_wf (db\<lparr>md_leases := leases\<rparr>) \<longleftrightarrow> db_wf db"
  "db_wf (db\<lparr>md_lease_objects := objects\<rparr>) \<longleftrightarrow> db_wf db"
  by (simp_all add: db_wf_def names_ok_def)

lemma bt_sorted_filter: "bt_sorted m \<Longrightarrow> bt_sorted (filter P m)"
  by (induction m) (auto simp: bt_sorted_def)

lemma db_wf_subset:
  "db_wf db \<Longrightarrow> bt_sorted (md_dirents db') \<Longrightarrow> set (md_dirents db') \<subseteq> set (md_dirents db) \<Longrightarrow> db_wf db'"
  by (auto simp: db_wf_def names_ok_def)

lemma db_wf_delete_inodes: "db_wf db \<Longrightarrow> delete_inodes gone db = Inr db' \<Longrightarrow> db_wf db'"
  by (rule db_wf_subset) (auto simp: delete_inodes_def Let_def bt_sorted_filter db_wf_def split: if_splits)

lemma db_wf_delete_dirent: "db_wf db \<Longrightarrow> db_wf (delete_dirent parent name db)"
  using set_bt_remove [of "(parent, name)" "md_dirents db"]
  by (rule_tac db_wf_subset) (auto simp: delete_dirent_def bt_sorted_remove db_wf_def)

lemma db_wf_insert_dirent:
  assumes "db_wf db" "insert_dirent parent name child db = Inr db'" "name \<noteq> []" "CHR ''/'' \<notin> set name"
  shows "db_wf db'"
proof -
  have "db' = db\<lparr>md_dirents := bt_insert (parent, name) child (md_dirents db)\<rparr>"
    using assms(2) by (auto simp: insert_dirent_def split: if_splits)
  then show ?thesis using assms(1,3,4) set_bt_insert_subset [of "(parent, name)" child "md_dirents db"]
    by (auto simp: db_wf_def names_ok_def bt_sorted_insert)
qed

lemma db_wf_insert_inode: "insert_inode row db = Inr (i, db') \<Longrightarrow> db_wf db' \<longleftrightarrow> db_wf db"
  by (auto simp: insert_inode_def Let_def split: if_splits intro!: db_wf_cong)

lemma db_wf_insert_records: "insert_records i records db = Inr db' \<Longrightarrow> db_wf db' \<longleftrightarrow> db_wf db"
  by (auto simp: insert_records_def split: if_splits intro!: db_wf_cong)

lemma db_wf_drop_inode: "db_wf db \<Longrightarrow> drop_inode_if_orphaned i db = Inr db' \<Longrightarrow> db_wf db'"
  by (auto simp: drop_inode_if_orphaned_def split: if_splits dest: db_wf_delete_inodes)

lemma validate_segments_nonempty: "validate_segments segments = Inr () \<Longrightarrow> s \<in> set segments \<Longrightarrow> s \<noteq> []"
  by (induction segments) (auto simp: result_simps validate_segment_def)

lemma split_parent_name: "CHR ''/'' \<notin> set (snd (split_parent path))" "snd (split_parent path) \<in> set (split_on CHR ''/'' path)"
proof -
  have "CHR ''/'' \<notin> set (snd (split_parent path)) \<and> snd (split_parent path) \<in> set (split_on CHR ''/'' path)"
  proof (cases "rsplit_once CHR ''/'' path")
    case None
    then have "CHR ''/'' \<notin> set path" by (simp add: rsplit_once_def split_once_None_iff)
    then show ?thesis by (simp add: split_parent_def None split_on_single)
  next
    case (Some ab)
    obtain a b where ab: "ab = (a, b)" by (cases ab)
    then have "path = a @ CHR ''/'' # b" "CHR ''/'' \<notin> set b" using Some by (simp_all add: rsplit_once_Some_iff)
    then show ?thesis using Some ab by (simp add: split_parent_def split_on_append split_on_single)
  qed
  then show "CHR ''/'' \<notin> set (snd (split_parent path))" "snd (split_parent path) \<in> set (split_on CHR ''/'' path)" by blast+
qed

lemma resolve_new_leaf_name:
  assumes "resolve_new_leaf u db w path = Inr (parent, name)"
  shows "name \<noteq> []" "CHR ''/'' \<notin> set name"
proof -
  have v: "validate_path u path = Inr ()" and n: "name = snd (split_parent path)"
    using assms by (auto simp: resolve_new_leaf_def result_simps Let_def split: prod.splits if_splits)
  have "validate_segments (split_on CHR ''/'' path) = Inr ()"
    using v by (auto simp: validate_path_def split: if_splits)
  then show "name \<noteq> []" "CHR ''/'' \<notin> set name"
    using split_parent_name [of path] n validate_segments_nonempty by auto
qed

lemma db_wf_new_leaf:
  "resolve_new_leaf u db0 w path = Inr (parent, name) \<Longrightarrow> insert_dirent parent name child db = Inr db' \<Longrightarrow> db_wf db \<Longrightarrow> db_wf db'"
  using resolve_new_leaf_name db_wf_insert_dirent by blast

lemma db_wf_create_leaf: "db_wf db \<Longrightarrow> create_leaf u w path row db = Inr (i, db') \<Longrightarrow> db_wf db'"
  using db_wf_insert_inode by (fastforce simp: create_leaf_def result_simps dest: db_wf_new_leaf)

lemma db_wf_unlink_leaf: "db_wf db \<Longrightarrow> unlink_leaf u w path i db = Inr db' \<Longrightarrow> db_wf db'"
  by (auto simp: unlink_leaf_def result_simps dest: db_wf_drop_inode db_wf_delete_dirent)

lemma db_wf_apply_mutation: "db_wf db \<Longrightarrow> apply_mutation u w m db = Inr db' \<Longrightarrow> db_wf db'"
proof (cases m)
  case (Mutation_Rename source target)
  assume "db_wf db" "apply_mutation u w m db = Inr db'"
  with Mutation_Rename show ?thesis
    by (auto simp: result_simps split: if_splits option.splits
        dest: db_wf_new_leaf intro: db_wf_delete_dirent)
next
  case (Mutation_Hardlink path target)
  assume "db_wf db" "apply_mutation u w m db = Inr db'"
  with Mutation_Hardlink show ?thesis
    by (auto simp: result_simps dest: db_wf_new_leaf)
qed (auto simp: result_simps db_wf_insert_records split: if_splits option.splits
    intro: db_wf_create_leaf db_wf_unlink_leaf)

lemma db_wf_apply_mutations: "db_wf db \<Longrightarrow> apply_mutations u w ms db = Inr db' \<Longrightarrow> db_wf db'"
  by (induction u w ms db rule: apply_mutations.induct) (auto simp: result_simps dest: db_wf_apply_mutation)


section \<open>The other operations\<close>

lemma transact_wf:
  assumes "db_wf (ws_db ws)" "transact ws r = (result, ws')" "\<And>a db'. r = Inr (a, db') \<Longrightarrow> db_wf db'"
  shows "db_wf (ws_db ws')"
  using assms by (auto simp: transact_def split: sum.splits prod.splits)

lemma create_workspace_wf:
  "db_wf (ws_db ws) \<Longrightarrow> create_workspace name ws = (result, ws') \<Longrightarrow> db_wf (ws_db ws')"
  unfolding create_workspace_def Let_def
  by (rule transact_wf, assumption, assumption) (auto simp: result_simps db_wf_insert_inode split: if_splits)

lemma delete_workspace_wf:
  assumes "db_wf (ws_db ws)" "delete_workspace name ws = (result, ws')"
  shows "db_wf (ws_db ws')"
proof (rule transact_wf [OF assms(1) assms(2) [unfolded delete_workspace_def Let_def]])
  let ?owned = "\<lambda>w i. case map_of (md_inodes (ws_db ws)) i of None \<Rightarrow> False | Some row \<Rightarrow> in_workspace row = wr_id w"
  have cut: "db_wf ((ws_db ws)\<lparr>md_dirents := filter P (md_dirents (ws_db ws))\<rparr>)" for P
    using assms(1) by (intro db_wf_subset [OF assms(1)]) (auto simp: db_wf_def bt_sorted_filter)
  fix a db'
  assume "and_then (workspace_row_of (ws_db ws) name) (\<lambda>w. and_then (delete_inodes (?owned w) ((ws_db ws)
      \<lparr>md_dirents := filter (\<lambda>((parent, name), child). \<not> ?owned w parent) (md_dirents (ws_db ws)),
       md_leases := filter (\<lambda>(l, row). \<not> (case map_of (md_leases (ws_db ws)) l of None \<Rightarrow> False
         | Some row \<Rightarrow> le_workspace row = Some (wr_id w))) (md_leases (ws_db ws)),
       md_lease_objects := filter (\<lambda>(l, d). \<not> (case map_of (md_leases (ws_db ws)) l of None \<Rightarrow> False
         | Some row \<Rightarrow> le_workspace row = Some (wr_id w))) (md_lease_objects (ws_db ws)),
       md_workspaces := bt_remove name (md_workspaces (ws_db ws))\<rparr>)) (\<lambda>db. Inr ((), db))) = Inr (a, db')"
  then show "db_wf db'" by (auto simp: result_simps dest!: db_wf_delete_inodes [rotated] intro: cut)
qed

lemma commit_transaction_wf:
  "db_wf (ws_db ws) \<Longrightarrow> commit_transaction u name mutations referenced ws = (result, ws') \<Longrightarrow> db_wf (ws_db ws')"
  unfolding commit_transaction_def
  by (rule transact_wf, assumption, assumption) (auto simp: result_simps Let_def dest: db_wf_apply_mutations)

lemma delete_snapshot_wf: "db_wf (ws_db ws) \<Longrightarrow> delete_snapshot sid ws = (result, ws') \<Longrightarrow> db_wf (ws_db ws')"
  by (auto simp: delete_snapshot_def split: if_splits)

lemma acquire_unlinked_lease_wf:
  "db_wf (ws_db ws) \<Longrightarrow> acquire_unlinked_lease u name path holder ws = (result, ws') \<Longrightarrow> db_wf (ws_db ws')"
  unfolding acquire_unlinked_lease_def Let_def
  by (rule transact_wf, assumption, assumption) (auto simp: result_simps insert_lease_def Let_def split: if_splits)

lemma fold_lease_objects_wf: "db_wf (fold (insert_lease_object l) ds db) \<longleftrightarrow> db_wf db"
  by (induction ds arbitrary: db) (simp_all add: insert_lease_object_def)

lemma acquire_pending_sync_lease_wf:
  "db_wf (ws_db ws) \<Longrightarrow> acquire_pending_sync_lease u sha256 sid holder ws = (result, ws') \<Longrightarrow> db_wf (ws_db ws')"
  unfolding acquire_pending_sync_lease_def
  by (rule transact_wf, assumption, assumption)
    (auto simp: result_simps insert_lease_def Let_def fold_lease_objects_wf insert_lease_object_def)

lemma release_lease_wf: "db_wf (ws_db ws) \<Longrightarrow> release_lease l ws = (result, ws') \<Longrightarrow> db_wf (ws_db ws')"
  unfolding release_lease_def Let_def
  by (rule transact_wf, assumption, assumption) (auto simp: result_simps split: option.splits dest!: db_wf_drop_inode [rotated])

lemma adopt_snapshot_wf:
  "db_wf (ws_db ws) \<Longrightarrow> adopt_snapshot u env hs sha256 bs ws = (result, ws') \<Longrightarrow> db_wf (ws_db ws')"
  by (auto simp: adopt_snapshot_def adopt_prepare_def adopt_insert_def insert_snapshot_def op_then_def
      split: sum.splits prod.splits)

lemma collect_wf: "db_wf (ws_db ws) \<Longrightarrow> collect u sha256 ws = (result, ws') \<Longrightarrow> db_wf (ws_db ws')"
  by (auto simp: collect_def Let_def db_wf_def names_ok_def split: sum.splits)

lemmas operation_wf = create_workspace_wf delete_workspace_wf commit_transaction_wf delete_snapshot_wf
  acquire_unlinked_lease_wf acquire_pending_sync_lease_wf release_lease_wf adopt_snapshot_wf collect_wf


section \<open>Sealing\<close>

text \<open>What is relied on of the staged rows: they hold strings, the manifest fits in memory and the hash
  does not collide on it.\<close>

definition sealable :: "unicode \<Rightarrow> (bytes \<Rightarrow> digest) \<Rightarrow> object_store \<Rightarrow> metadata \<Rightarrow> workspace_row \<Rightarrow> snapshot_id option \<Rightarrow> bool" where
  "sealable u sha256 st db w parent \<longleftrightarrow>
     (\<forall>b s. stage_builder db w parent = Some (Inr b) \<longrightarrow> builder_finish u b = Inr s \<longrightarrow>
       builder_typed b \<and> length (to_bytes s) < 2 ^ 64 \<and> uncollided sha256 (to_bytes s) st)"

text \<open>A job puts in only what it admitted and what is resident already.\<close>

definition job_backed :: "object_store \<Rightarrow> seal_job \<Rightarrow> bool" where
  "job_backed st job \<longleftrightarrow> set (record_digests (sj_records job)) \<subseteq> set (sj_new_digests job) \<union> store_digests st"

lemma names_within_inodes: "names_within extra db (db'\<lparr>md_inodes := rows\<rparr>) \<longleftrightarrow> names_within extra db db'"
  by (simp add: names_within_def same_roots_def head_objects_def)

lemma apply_seal_job_names:
  assumes "apply_seal_job u w job db = Inr db'"
  shows "names_within (set (record_digests (sj_records job))) db db'" "db_wf db \<Longrightarrow> db_wf db'"
proof -
  let ?m = "Mutation_SetRecords (sj_path job) (sj_records job)"
  obtain db1 where db1: "(if sj_update_records job then apply_mutation u w ?m db else Inr db) = Inr db1"
    and db': "db' = db1 \<or> (\<exists>inodes. db' = db1\<lparr>md_inodes := inodes\<rparr>)"
    using assms by (auto simp: apply_seal_job_def result_simps split: option.splits)
  have "names_within (set (record_digests (sj_records job))) db db1"
    using db1 apply_mutation_names [of u w ?m db db1]
    by (auto simp: mutation_digests_def split: if_splits)
  then show "names_within (set (record_digests (sj_records job))) db db'"
    using db' by (auto simp: names_within_inodes)
  assume "db_wf db"
  then have "db_wf db1" using db1 db_wf_apply_mutation [of db u w ?m db1]
    by (cases "sj_update_records job") (simp_all only: if_True if_False Inr_inject, blast?)
  then show "db_wf db'" using db' by auto
qed

lemma apply_seal_jobs_names:
  "apply_seal_jobs u w jobs db = Inr db' \<Longrightarrow>
   names_within (\<Union>job \<in> set jobs. set (record_digests (sj_records job))) db db' \<and> (db_wf db \<longrightarrow> db_wf db')"
proof (induction u w jobs db rule: apply_seal_jobs.induct)
  case (2 u w job jobs db)
  then obtain db1 where db1: "apply_seal_job u w job db = Inr db1" "apply_seal_jobs u w jobs db1 = Inr db'"
    by (auto simp: result_simps)
  let ?all = "\<Union>job \<in> set (job # jobs). set (record_digests (sj_records job))"
  have "names_within ?all db db1" by (rule names_within_mono [OF apply_seal_job_names(1) [OF db1(1)]]) auto
  moreover have "names_within ?all db1 db'"
    by (rule names_within_mono [OF 2(1) [OF db1, THEN conjunct1]]) auto
  ultimately have "names_within ?all db db'" using names_within_trans [of ?all db db1 ?all db'] by simp
  then show ?case using apply_seal_job_names(2) [OF db1(1)] 2(1) [OF db1] by blast
qed simp

lemma seal_tables_names:
  assumes "seal_tables u name jobs w ws = Inr (w', db)" "ws_ok u sha256 ws" "\<forall>job \<in> set jobs. job_backed (ws_store ws) job"
  shows "names_within (store_digests (ws_store ws)) (ws_db ws) db" "db_wf (ws_db ws) \<Longrightarrow> db_wf db"
proof -
  obtain db1 where present: "\<forall>d \<in> set (concat (map sj_new_digests jobs)). store_exists d (ws_store ws)"
    and db1: "apply_seal_jobs u w jobs (ws_db ws) = Inr db1"
    and db: "db = db1 \<or> (\<exists>rows. db = db1\<lparr>md_workspaces := rows\<rparr>)"
    using assms(1) by (auto simp: seal_tables_def result_simps Let_def split: if_splits)
  have st: "store_ok sha256 (ws_store ws)" using assms(2) by (simp add: ws_ok_def)
  have "set (record_digests (sj_records job)) \<subseteq> store_digests (ws_store ws)" if job: "job \<in> set jobs" for job
  proof -
    have "set (sj_new_digests job) \<subseteq> store_digests (ws_store ws)"
      using present job store_exists_resident [OF st] by auto
    then show ?thesis using assms(3) job unfolding job_backed_def by blast
  qed
  then have "(\<Union>job \<in> set jobs. set (record_digests (sj_records job))) \<subseteq> store_digests (ws_store ws)" by blast
  from names_within_mono [OF conjunct1 [OF apply_seal_jobs_names [OF db1]] this]
  have "names_within (store_digests (ws_store ws)) (ws_db ws) db1" .
  then show "names_within (store_digests (ws_store ws)) (ws_db ws) db"
    using db by (auto simp: names_within_workspaces)
  show "db_wf (ws_db ws) \<Longrightarrow> db_wf db" using apply_seal_jobs_names [OF db1] db by auto
qed

lemma insert_snapshot_ok:
  assumes "ws_ok u sha256 ws" "snapshot_rooted_ok u sha256 (ws_store ws) sid"
  shows "ws_ok u sha256 (ws\<lparr>ws_db := insert_snapshot sid generation (ws_db ws)\<rparr>)"
proof -
  let ?db = "insert_snapshot sid generation (ws_db ws)"
  have "fst ` set (md_snapshots ?db) = insert sid (fst ` set (md_snapshots (ws_db ws)))"
    by (auto simp: insert_snapshot_def set_bt_insert map_of_eq_None_iff)
  moreover have "bt_sorted (md_snapshots ?db)"
    using assms(1) by (simp add: insert_snapshot_def bt_sorted_insert ws_ok_def)
  moreover have "head_objects ?db = head_objects (ws_db ws)" "md_lease_objects ?db = md_lease_objects (ws_db ws)"
    "quarantine_ok ?db = quarantine_ok (ws_db ws)"
    by (simp_all add: insert_snapshot_def head_objects_def quarantine_ok_def)
  ultimately show ?thesis using assms by (simp add: ws_ok_def)
qed

lemma seal_transaction_ok:
  assumes "ws_ok u sha256 ws" "db_wf (ws_db ws)" "hasher_streams hs sha256"
    and "\<forall>job \<in> set jobs. job_backed (ws_store ws) job"
    and "\<And>w w' db. seal_tables u name jobs w ws = Inr (w', db) \<Longrightarrow> sealable u sha256 (ws_store ws) db w' parent"
    and "seal_transaction u ae hs sha256 name parent generation jobs ws = Some (result, ws')"
  shows "ws_ok u sha256 ws' \<and> db_wf (ws_db ws')"
proof -
  consider "ws' = ws"
    | w w' db s r st where "seal_tables u name jobs w ws = Inr (w', db)" "build_snapshot u db w' parent = Some (Inr s)"
      "put_bytes (ae_env ae) hs (to_bytes s) (ws_store ws) = (r, st)"
      "ws' = ws\<lparr>ws_store := st\<rparr> \<or>
       ws' = ws\<lparr>ws_store := st, ws_db := insert_snapshot (snapshot_id_of sha256 s) (wr_head_generation w') db\<rparr>"
    using assms(6) by (auto simp: seal_transaction_def split: option.splits sum.splits if_splits prod.splits)
  then show ?thesis
  proof cases
    case 1
    then show ?thesis using assms by simp
  next
    case (2 w w' db s r st)
    note tables = seal_tables_names [OF 2(1) assms(1,4)]
    have st: "store_ok sha256 (ws_store ws)" using assms(1) by (simp add: ws_ok_def)
    let ?bs = "to_bytes s"
    have put: "st = snd (put_bytes (ae_env ae) hs ?bs (ws_store ws))" using 2(3) by simp
    have ok1: "ws_ok u sha256 (ws\<lparr>ws_store := st\<rparr>)" unfolding put by (rule put_bytes_ws_ok [OF assms(1,3)])
    have grows: "store_digests (ws_store ws) \<subseteq> store_digests st"
      unfolding put by (rule store_grows_digests [OF put_bytes_grows [OF assms(3) st]])
    have ok2: "ws_ok u sha256 (ws\<lparr>ws_store := st, ws_db := db\<rparr>)"
      using ws_ok_names [OF ok1, of "store_digests (ws_store ws)" db] tables(1) grows by simp
    obtain b where b: "stage_builder db w' parent = Some (Inr b)" "builder_finish u b = Inr s"
      using 2(2) by (auto simp: build_snapshot_def result_simps)
    have fits: "builder_typed b" "length ?bs < 2 ^ 64" "uncollided sha256 ?bs (ws_store ws)"
      using assms(5) [OF 2(1)] b unfolding sealable_def by blast+
    have dec: "decode u ?bs = Inr s" using decode_iff [OF fits(2)] builder_finish_ok [OF b(2) fits(1)] by blast
    have "read_manifest_object u sha256 st (snapshot_id_of sha256 s) = Inr s"
      using put_bytes_opens [OF assms(3) st fits(3), of "ae_env ae"] dec
      by (simp add: read_manifest_object_def snapshot_id_of_def put)
    moreover have "set (manifest_objects s) \<subseteq> store_digests st"
    proof -
      have "bt_sorted (md_dirents db)" using tables(2) [OF assms(2)] by (simp add: db_wf_def)
      then have "set (manifest_objects s) \<subseteq> set (head_objects db)" by (rule build_snapshot_objects [OF 2(2)])
      then show ?thesis using ok2 by (auto simp: ws_ok_def)
    qed
    ultimately have "snapshot_rooted_ok u sha256 (ws_store (ws\<lparr>ws_store := st, ws_db := db\<rparr>)) (snapshot_id_of sha256 s)"
      by (auto simp: snapshot_rooted_ok_def)
    from insert_snapshot_ok [OF ok2 this, of "wr_head_generation w'"]
    have "ws_ok u sha256 (ws\<lparr>ws_store := st, ws_db := insert_snapshot (snapshot_id_of sha256 s) (wr_head_generation w') db\<rparr>)"
      by simp
    moreover have "db_wf (insert_snapshot (snapshot_id_of sha256 s) (wr_head_generation w') db)"
      using tables(2) [OF assms(2)] by (simp add: insert_snapshot_def)
    ultimately show ?thesis using 2(4) ok1 assms(2) by auto
  qed
qed

end
