(* ===== verification/Workspace_Runs.thy ===== *)
theory Workspace_Runs
  imports Seal_Safety
begin

text \<open>
  The workspace store as a state machine. A step is one operation under the metadata lock, or one
  admission to the object store, which takes no lock. A commit contributes its transaction: what runs
  before the lock changes nothing, so a commit that was prepared in an earlier state is a step of the
  state its transaction runs in. A seal contributes its admissions and the transaction of its last
  phase, with jobs that put in what they admitted and what is resident. Every state that is reached
  satisfies the invariant.
\<close>

section \<open>Steps\<close>

inductive ws_step :: "unicode \<Rightarrow> 'h hasher \<Rightarrow> (bytes \<Rightarrow> digest) \<Rightarrow> workspace_store \<Rightarrow> workspace_store \<Rightarrow> bool"
  for u :: unicode and hs :: "'h hasher" and sha256 :: "bytes \<Rightarrow> digest" where
  put: "ws_step u hs sha256 ws (ws\<lparr>ws_store := snd (put_bytes env hs bs (ws_store ws))\<rparr>)"
| create: "create_workspace name ws = (result, ws') \<Longrightarrow> ws_step u hs sha256 ws ws'"
| delete: "delete_workspace name ws = (result, ws') \<Longrightarrow> ws_step u hs sha256 ws ws'"
| commit: "commit_prepare hs mutations earlier = Inr referenced \<Longrightarrow>
    commit_transaction u name mutations referenced ws = (result, ws') \<Longrightarrow> ws_step u hs sha256 ws ws'"
| adopt: "uncollided sha256 bs (ws_store ws) \<Longrightarrow> length bs < 2 ^ 64 \<Longrightarrow>
    adopt_snapshot u env hs sha256 bs ws = (result, ws') \<Longrightarrow> ws_step u hs sha256 ws ws'"
| delete_root: "delete_snapshot sid ws = (result, ws') \<Longrightarrow> ws_step u hs sha256 ws ws'"
| lease_unlinked: "acquire_unlinked_lease u name path holder ws = (result, ws') \<Longrightarrow> ws_step u hs sha256 ws ws'"
| lease_pending: "acquire_pending_sync_lease u sha256 sid holder ws = (result', ws') \<Longrightarrow> ws_step u hs sha256 ws ws'"
| release: "release_lease l ws = (result, ws') \<Longrightarrow> ws_step u hs sha256 ws ws'"
| seal: "\<forall>job \<in> set jobs. job_backed (ws_store ws) job \<Longrightarrow>
    (\<And>w w' db. seal_tables u name jobs w ws = Inr (w', db) \<Longrightarrow> sealable u sha256 (ws_store ws) db w' parent) \<Longrightarrow>
    seal_transaction u ae hs sha256 name parent generation jobs ws = Some (sealed, ws') \<Longrightarrow> ws_step u hs sha256 ws ws'"
| gc: "collect u sha256 ws = (result'', ws') \<Longrightarrow> ws_step u hs sha256 ws ws'"

inductive ws_reach :: "unicode \<Rightarrow> 'h hasher \<Rightarrow> (bytes \<Rightarrow> digest) \<Rightarrow> workspace_store \<Rightarrow> bool"
  for u :: unicode and hs :: "'h hasher" and sha256 :: "bytes \<Rightarrow> digest" where
  start: "ws_reach u hs sha256 \<lparr>ws_store = store_new, ws_db = metadata_new\<rparr>"
| next_step: "ws_reach u hs sha256 ws \<Longrightarrow> ws_step u hs sha256 ws ws' \<Longrightarrow> ws_reach u hs sha256 ws'"

lemmas operation_ok = create_workspace_ok delete_workspace_ok commit_transaction_ok delete_snapshot_ok
  acquire_unlinked_lease_ok acquire_pending_sync_lease_ok release_lease_ok adopt_snapshot_ok

lemma commit_prepare_referenced:
  "commit_prepare hs mutations st = Inr referenced \<Longrightarrow> referenced_digests mutations = Inr referenced"
  by (auto simp: commit_prepare_def result_simps)

lemma ws_step_ok:
  assumes "ws_step u hs sha256 ws ws'" "hasher_streams hs sha256" "ws_ok u sha256 ws" "db_wf (ws_db ws)"
  shows "ws_ok u sha256 ws'"
  using assms(1)
proof cases
  case (put env bs)
  then show ?thesis using put_bytes_ws_ok assms by simp
next
  case (commit mutations earlier referenced name result)
  then show ?thesis using commit_transaction_ok [OF assms(3)] commit_prepare_referenced by blast
next
  case (adopt bs env result)
  then show ?thesis using adopt_snapshot_ok assms by blast
next
  case (seal jobs name parent ae generation sealed)
  show ?thesis using seal_transaction_ok [OF assms(3,4,2) seal(1) _ seal(3)] seal(2) by blast
next
  case (gc result)
  then show ?thesis using collect_ok [OF assms(3)] by auto
qed (rule operation_ok, rule assms, assumption)+

lemma ws_step_wf:
  assumes "ws_step u hs sha256 ws ws'" "hasher_streams hs sha256" "ws_ok u sha256 ws" "db_wf (ws_db ws)"
  shows "db_wf (ws_db ws')"
  using assms(1)
proof cases
  case (put env bs)
  then show ?thesis using assms(4) by simp
next
  case (seal jobs name parent ae generation sealed)
  show ?thesis using seal_transaction_ok [OF assms(3,4,2) seal(1) _ seal(3)] seal(2) by blast
qed (rule operation_wf, rule assms, assumption)+

lemma start_ok: "ws_ok u sha256 \<lparr>ws_store = store_new, ws_db = metadata_new\<rparr>"
  by (simp add: ws_ok_def store_ok_def store_wf_def objects_sound_def store_new_def metadata_new_def
      quarantine_ok_def bt_sorted_def head_objects_def)

lemma start_wf: "db_wf metadata_new"
  by (simp add: db_wf_def names_ok_def metadata_new_def bt_sorted_def)

lemma ws_reach_ok:
  assumes "ws_reach u hs sha256 ws" "hasher_streams hs sha256"
  shows "ws_ok u sha256 ws" "db_wf (ws_db ws)"
proof -
  have "ws_ok u sha256 ws \<and> db_wf (ws_db ws)"
    using assms
  proof (induction rule: ws_reach.induct)
    case start
    show ?case using start_ok start_wf by simp
  next
    case (next_step ws ws')
    then show ?case using ws_step_ok ws_step_wf by blast
  qed
  then show "ws_ok u sha256 ws" "db_wf (ws_db ws)" by blast+
qed

text \<open>What the invariant gives: every root can be loaded, and a collection keeps what is rooted.\<close>

lemma ws_ok_loads:
  assumes "ws_ok u sha256 ws" "sid \<in> fst ` set (md_snapshots (ws_db ws))"
  shows "\<exists>s. load_snapshot u sha256 ws sid = Inr s"
proof -
  have "snapshot_rooted_ok u sha256 (ws_store ws) sid" using assms by (auto simp: ws_ok_def)
  then show ?thesis using assms(2)
    by (auto simp: load_snapshot_def read_rooted_snapshot_def snapshot_rooted_ok_def map_of_eq_None_iff)
qed

lemma collect_keeps_roots:
  assumes "ws_ok u sha256 ws"
  shows "\<exists>report ws'. collect u sha256 ws = (Inr report, ws') \<and>
    (\<forall>d \<in> root_objects u sha256 ws. resident_at (ws_store ws') d = resident_at (ws_store ws) d)"
proof -
  obtain report ws' where c: "collect u sha256 ws = (Inr report, ws')" using collect_ok [OF assms] by blast
  have "store_wf (ws_store ws)" "bt_sorted (md_quarantine (ws_db ws))"
    using assms by (simp_all add: ws_ok_def store_ok_def quarantine_ok_def)
  from collect_spec(1) [OF this c] c show ?thesis by (auto simp: taken_by_def)
qed

text \<open>The composed operations are runs of steps.\<close>

lemma commit_generation_reach:
  assumes "ws_reach u hs sha256 ws" "commit_generation u hs name mutations ws = (result, ws')"
  shows "ws_reach u hs sha256 ws'"
  using assms by (auto simp: commit_generation_def split: sum.splits intro: ws_reach.next_step ws_step.commit)

lemma create_workspace_from_snapshot_reach:
  assumes "ws_reach u hs sha256 ws" "create_workspace_from_snapshot u hs sha256 name sid ws = (result, ws')"
  shows "ws_reach u hs sha256 ws'"
proof (cases "create_workspace name ws")
  case (Pair r ws1)
  then have 1: "ws_reach u hs sha256 ws1"
    using assms(1) by (blast intro: ws_reach.next_step ws_step.create)
  show ?thesis using assms Pair 1 commit_generation_reach [OF 1]
    by (auto simp: create_workspace_from_snapshot_def op_then_def split: sum.splits prod.splits)
qed


section \<open>Collections between the two halves of an adoption\<close>

text \<open>\<open>adopt_snapshot\<close> looks for the objects without the lock. An object that is resident but due for
  deletion passes the check; a collection that runs before the row is inserted takes it, and the row
  then roots a snapshot with a missing object.\<close>

lemma adopt_race_lemma:
  assumes "ws_ok u sha256 ws" "hasher_streams hs sha256" "uncollided sha256 bs (ws_store ws)" "length bs < 2 ^ 64"
    and "adopt_prepare u env hs sha256 bs ws = (Inr sid, ws1)" "decode u bs = Inr s"
    and "d \<in> set (snapshot_record_digests s)" "taken_by u sha256 ws1 d"
  shows "\<exists>report ws2. collect u sha256 ws1 = (Inr report, ws2) \<and>
    sid \<in> fst ` set (md_snapshots (ws_db (adopt_insert sid ws2))) \<and>
    d \<notin> store_digests (ws_store (adopt_insert sid ws2)) \<and> \<not> ws_ok u sha256 (adopt_insert sid ws2)"
proof -
  have ok1: "ws_ok u sha256 ws1" by (rule adopt_prepare_ok [OF assms(1,2,5)])
  then obtain report ws2 where c: "collect u sha256 ws1 = (Inr report, ws2)" using collect_ok by blast
  have wf: "store_wf (ws_store ws1)" "bt_sorted (md_quarantine (ws_db ws1))"
    using ok1 by (simp_all add: ws_ok_def store_ok_def quarantine_ok_def)
  note spec = collect_spec [OF wf c]
  let ?ws = "adopt_insert sid ws2"
  have st: "ws_store ?ws = ws_store ws2" by (simp add: adopt_insert_def)
  have gone: "d \<notin> store_digests (ws_store ?ws)"
    using spec(1) [of d] assms(8) by (simp add: st store_digests_file_resident file_resident_def)
  have row: "sid \<in> fst ` set (md_snapshots (ws_db ?ws))"
    by (auto simp: adopt_insert_def insert_snapshot_def set_bt_insert map_of_eq_None_iff)
  have "\<not> snapshot_rooted_ok u sha256 (ws_store ?ws) sid"
  proof
    assume "snapshot_rooted_ok u sha256 (ws_store ?ws) sid"
    then obtain t where t: "read_manifest_object u sha256 (ws_store ws2) sid = Inr t"
      "set (manifest_objects t) \<subseteq> store_digests (ws_store ws2)" by (auto simp: snapshot_rooted_ok_def st)
    obtain s' where s': "decode u bs = Inr s'" "sid = snapshot_id_of sha256 s'"
      "ws1 = ws\<lparr>ws_store := snd (put_bytes env hs bs (ws_store ws))\<rparr>"
      by (rule adopt_prepare_Inr [OF assms(5)])
    have sid: "sid = sha256 bs" using s'(1,2) decode_iff [OF assms(4)] by (auto simp: snapshot_id_of_def)
    have "store_ok sha256 (ws_store ws)" using assms(1) by (simp add: ws_ok_def)
    then have open1: "open_object sid (ws_store ws1) = Inr bs"
      using put_bytes_opens [OF assms(2) _ assms(3), of env] by (simp add: s'(3) sid)
    have "resident_at (ws_store ws2) sid = resident_at (ws_store ws1) sid"
      using spec(1) [of sid] t(1) by (auto simp: read_manifest_object_def open_object_def split: if_splits)
    then have "open_object sid (ws_store ws2) = Inr bs" using open1 open_object_cong by metis
    then have "t = s" using t(1) assms(6) by (auto simp: read_manifest_object_def split: if_splits)
    with t(2) gone assms(7) show False by (auto simp: manifest_objects_records st)
  qed
  then have "\<not> ws_ok u sha256 ?ws" using row unfolding ws_ok_def by blast
  with c gone row show ?thesis by blast
qed


section \<open>A lease on the root\<close>

text \<open>The empty path names the root directory of a workspace, which no dirent links to. A lease on it
  therefore leaves an orphan when it is released, and the tree goes with it.\<close>

lemma fold_max_ge: "(i :: rowid) \<le> fold max ids i" "x \<in> set ids \<Longrightarrow> x \<le> fold max ids i"
  by (induction ids arbitrary: i) (auto, (metis max.cobounded1 max.cobounded2 order_trans)+)

lemma next_rowid_fresh: "map_of rows (next_rowid (map fst rows)) = None"
proof -
  have "next_rowid (map fst rows) \<notin> set (map fst rows)"
    using fold_max_ge(2) [of "next_rowid (map fst rows)" "map fst rows" 0] by (auto simp: next_rowid_def)
  then show ?thesis by (simp add: map_of_eq_None_iff)
qed

lemma walk_path_no_children:
  "(\<And>name. map_of (md_dirents db) (i, name) = None) \<Longrightarrow> segments \<noteq> [] \<Longrightarrow>
   walk_path db (i, KIND_DIRECTORY) segments = None"
  by (cases segments) simp_all

lemma root_lease_lemma:
  assumes "workspace_row_of (ws_db ws) name = Inr w" "inode_exists (ws_db ws) (wr_root_inode w)"
    and "link_count (ws_db ws) (wr_root_inode w) = 0" "lease_count (ws_db ws) (wr_root_inode w) = 0"
    and "bt_sorted (md_leases (ws_db ws))"
  shows "\<exists>l ws1 ws2. acquire_unlinked_lease u name [] holder ws = (Inr l, ws1) \<and>
    release_lease l ws1 = (Inr (), ws2) \<and> \<not> inode_exists (ws_db ws2) (wr_root_inode w) \<and>
    workspace_row_of (ws_db ws2) name = Inr w \<and>
    (\<forall>path found. path \<noteq> [] \<longrightarrow> resolve_path u (ws_db ws2) w path \<noteq> Inr (Some found))"
proof -
  let ?db = "ws_db ws" and ?i = "wr_root_inode w" and ?l = "next_rowid (map fst (md_leases (ws_db ws)))"
  let ?row = "\<lparr>le_kind = LeaseKind_Unlinked, le_holder = holder, le_workspace = Some (wr_id w), le_inode = Some ?i\<rparr>"
  let ?db1 = "?db\<lparr>md_leases := bt_insert ?l ?row (md_leases ?db)\<rparr>"
  have acq: "acquire_unlinked_lease u name [] holder ws = (Inr ?l, ws\<lparr>ws_db := ?db1\<rparr>)"
    using assms(1,2)
    by (simp add: acquire_unlinked_lease_def transact_def resolve_existing_def resolve_path_def ok_or_def insert_lease_def Let_def)
  have fresh: "map_of (md_leases ?db) ?l = None"
    by (rule next_rowid_fresh)
  let ?db2 = "?db1\<lparr>md_lease_objects := filter (\<lambda>(l', d). l' \<noteq> ?l) (md_lease_objects ?db), md_leases := md_leases ?db\<rparr>"
  have rel: "release_lease ?l (ws\<lparr>ws_db := ?db1\<rparr>) =
      transact (ws\<lparr>ws_db := ?db1\<rparr>) (and_then (drop_inode_if_orphaned ?i ?db2) (\<lambda>db. Inr ((), db)))"
    using fresh assms(5) by (simp add: release_lease_def Let_def map_of_bt_insert bt_remove_insert)
  have unlinked: "list_all (\<lambda>(key, child). child \<noteq> ?i) (md_dirents ?db)"
    "list_all (\<lambda>(l, row). le_inode row \<noteq> Some ?i) (md_leases ?db)"
    using assms(3,4) by (auto simp: link_count_def lease_count_def list_all_iff filter_empty_conv)
  have drop: "drop_inode_if_orphaned ?i ?db2 = Inr (?db2\<lparr>md_inodes := filter (\<lambda>(j, row). j \<noteq> ?i) (md_inodes ?db),
      md_dirents := filter (\<lambda>((parent, name), child). parent \<noteq> ?i) (md_dirents ?db),
      md_object_maps := filter (\<lambda>(j, records). j \<noteq> ?i) (md_object_maps ?db)\<rparr>)" (is "_ = Inr ?db3")
    using assms(3,4) unlinked
    by (auto simp: drop_inode_if_orphaned_def delete_inodes_def Let_def link_count_def lease_count_def list_ex_iff
        list_all_iff split: option.splits)
  have "map_of (md_dirents ?db3) (?i, segment) = None" for segment
    by (auto simp: map_of_eq_None_iff)
  then have "walk_path ?db3 (?i, KIND_DIRECTORY) segments = None" if "segments \<noteq> []" for segments
    using that by (rule walk_path_no_children)
  moreover have "\<not> inode_exists ?db3 ?i" by (auto simp: inode_exists_def map_of_eq_None_iff)
  moreover have "workspace_row_of ?db3 name = Inr w" using assms(1) by (simp add: workspace_row_of_def)
  ultimately show ?thesis
    using acq rel drop split_on_not_Nil
    by (intro exI [of _ ?l] exI [of _ "ws\<lparr>ws_db := ?db1\<rparr>"] exI [of _ "ws\<lparr>ws_db := ?db3\<rparr>"])
      (simp add: transact_def resolve_path_def result_simps)
qed

end
