(* ===== verification/Workspace_Samples.thy ===== *)
theory Workspace_Samples
  imports Store_Samples Workspace_Runs
begin

text \<open>
  Concrete workspace stores: a workspace whose one file holds the one object of the store, and a store
  whose one object nothing refers to and whose quarantine has run out.
\<close>

definition sample_digest :: digest where
  "sample_digest = digest_of_bytes [1, 2, 3]"

definition sample_store :: object_store where
  "sample_store = snd (put_bytes sample_env sample_hasher [1, 2, 3] store_new)"

lemma sample_store_objects:
  "os_objects sample_store = [(sample_digest, Resident_File [1, 2, 3] True)]" "os_temps sample_store = []"
  using put_bytes_ok(3,4) [OF sample_hasher_streams store_new_ok, of sample_env "[1, 2, 3]"]
  by (simp_all add: sample_store_def admit_def store_new_empty sample_digest_def Let_def)

lemma sample_store_ok: "store_ok digest_of_bytes sample_store"
  unfolding sample_store_def by (rule put_bytes_ok(1) [OF sample_hasher_streams store_new_ok])

lemma sample_store_verify: "store_verify sample_hasher sample_digest sample_store = Inr 3"
  by (simp add: store_verify_eq [OF sample_hasher_streams] resident_at_def sample_store_objects sample_digest_def)

lemma sample_store_exists: "store_exists sample_digest sample_store"
  by (simp add: store_exists_def resident_at_def sample_store_objects)

section \<open>A committed file\<close>

definition sample_mutations :: "mutation list" where
  "sample_mutations = [Mutation_CreateFile ''f'' False PlannerId_BlobV1 [FileRecord_Data sample_digest 3]]"

definition sample_db :: metadata where
  "sample_db = metadata_new\<lparr>
     md_workspaces := [(''w'', \<lparr>wr_id = 1, wr_head_generation = 1, wr_root_inode = 1\<rparr>)],
     md_inodes := [(1, \<lparr>in_workspace = 1, in_kind = KIND_DIRECTORY, in_executable = False, in_planner = None,
         in_contract = None, in_symlink_target = None\<rparr>),
       (2, \<lparr>in_workspace = 1, in_kind = KIND_FILE, in_executable = False, in_planner = Some 4,
         in_contract = None, in_symlink_target = None\<rparr>)],
     md_dirents := [((1, ''f''), 2)],
     md_object_maps := [(2, [FileRecord_Data sample_digest 3])]\<rparr>"

definition sample_workspace :: workspace_store where
  "sample_workspace = \<lparr>ws_store = sample_store, ws_db = sample_db\<rparr>"

lemmas db_eval = create_workspace_def transact_def workspace_row_of_def ok_or_def is_ok_def next_rowid_def
  insert_inode_def workspace_exists_def empty_inode_def metadata_new_def Let_def

lemma sample_created:
  "create_workspace ''w'' \<lparr>ws_store = sample_store, ws_db = metadata_new\<rparr> = (Inr (), \<lparr>ws_store = sample_store,
     ws_db = metadata_new\<lparr>md_workspaces := [(''w'', \<lparr>wr_id = 1, wr_head_generation = 0, wr_root_inode = 1\<rparr>)],
       md_inodes := [(1, \<lparr>in_workspace = 1, in_kind = KIND_DIRECTORY, in_executable = False, in_planner = None,
         in_contract = None, in_symlink_target = None\<rparr>)]\<rparr>\<rparr>)"
  by (simp add: db_eval)

lemma sample_prepared:
  "commit_prepare sample_hasher sample_mutations sample_store = Inr [sample_digest]"
  by (simp add: commit_prepare_def sample_mutations_def first_missing_def is_ok_def sample_store_verify
      ok_or_def checked_add_def validate_record_run_def MAX_FILE_RECORDS_def)

lemma sample_committed:
  "commit_transaction ascii_unicode ''w'' sample_mutations [sample_digest] (snd (create_workspace ''w''
     \<lparr>ws_store = sample_store, ws_db = metadata_new\<rparr>)) = (Inr 1, sample_workspace)"
  unfolding sample_created
  by (simp add: commit_transaction_def first_missing_def sample_store_exists sample_mutations_def db_eval
      create_leaf_def resolve_new_leaf_def split_parent_def path_eval siblings_def insert_dirent_def
      inode_exists_def insert_records_def sample_workspace_def sample_db_def)

lemma sample_workspace_reach: "ws_reach ascii_unicode sample_hasher digest_of_bytes sample_workspace"
proof -
  let ?reach = "ws_reach ascii_unicode sample_hasher digest_of_bytes"
  have "?reach \<lparr>ws_store = sample_store, ws_db = metadata_new\<rparr>"
    using ws_reach.next_step [OF ws_reach.start ws_step.put [of _ _ _ _ sample_env "[1, 2, 3]"]]
    by (simp add: sample_store_def)
  then have "?reach (snd (create_workspace ''w'' \<lparr>ws_store = sample_store, ws_db = metadata_new\<rparr>))"
    using ws_reach.next_step [OF _ ws_step.create [OF sample_created]] by (simp add: sample_created)
  then show ?thesis by (rule ws_reach.next_step) (rule ws_step.commit [OF sample_prepared sample_committed])
qed

lemma sample_workspace_roots: "sample_digest \<in> root_objects u sha256 sample_workspace"
  by (simp add: root_objects_def head_objects_def sample_workspace_def sample_db_def)

definition sample_row :: workspace_row where
  "sample_row = \<lparr>wr_id = 1, wr_head_generation = 1, wr_root_inode = 1\<rparr>"

lemma sample_workspace_row: "workspace_row_of (ws_db sample_workspace) ''w'' = Inr sample_row"
  by (simp add: workspace_row_of_def ok_or_def sample_workspace_def sample_db_def sample_row_def)

lemma sample_workspace_root:
  "inode_exists (ws_db sample_workspace) (wr_root_inode sample_row)"
  "link_count (ws_db sample_workspace) (wr_root_inode sample_row) = 0"
  "lease_count (ws_db sample_workspace) (wr_root_inode sample_row) = 0"
  "bt_sorted (md_leases (ws_db sample_workspace))"
  by (simp_all add: sample_workspace_def sample_db_def sample_row_def inode_exists_def link_count_def
      lease_count_def metadata_new_def bt_sorted_def)

lemma sample_workspace_resolves:
  "resolve_path ascii_unicode (ws_db sample_workspace) sample_row ''f'' = Inr (Some (2, KIND_FILE))"
  by (simp add: resolve_path_def path_eval sample_workspace_def sample_db_def sample_row_def)

lemma sample_records_readable:
  "records_readable sample_store [FileRecord_Hole 2, FileRecord_Data sample_digest 3]"
  by (simp add: records_readable_def record_resident_def record_size_def open_object_def resident_at_def sample_store_objects)

lemma sample_records_content:
  "record_content sample_store (FileRecord_Hole 2) = [0, 0]"
  "record_content sample_store (FileRecord_Data sample_digest 3) = [1, 2, 3]"
  by (simp_all add: record_content_def open_object_def resident_at_def sample_store_objects replicate_numeral)


section \<open>An object due for deletion\<close>

definition sample_due :: workspace_store where
  "sample_due = \<lparr>ws_store = sample_store, ws_db = metadata_new\<lparr>md_epoch := 3, md_quarantine := [(sample_digest, 1)]\<rparr>\<rparr>"

definition sample_manifest :: snapshot where
  "sample_manifest = \<lparr>snap_parent = None, snap_entries = [(''f'', Entry_File False (FileBody_Blob 3 sample_digest)),
     (''g'', Entry_Directory)]\<rparr>"

lemma sample_manifest_decodes:
  "decode ascii_unicode (to_bytes sample_manifest) = Inr sample_manifest" "length (to_bytes sample_manifest) < 2 ^ 64"
proof -
  show "length (to_bytes sample_manifest) < 2 ^ 64"
    by (simp add: to_bytes_def emit_def emit_parent_def emit_pair_def emit_path_def sample_manifest_def TFM1_MAGIC_def)
  then show "decode ascii_unicode (to_bytes sample_manifest) = Inr sample_manifest"
    by (simp add: decode_iff snapshot_ok_def sample_manifest_def path_eval)
qed

lemma sample_due_ok: "ws_ok ascii_unicode digest_of_bytes sample_due"
  by (simp add: ws_ok_def sample_due_def sample_store_ok quarantine_ok_def metadata_new_def bt_sorted_def head_objects_def)

lemma digest_of_bytes_last:
  assumes "digest_of_bytes (xs @ [b]) = digest_of_bytes (ys @ [c])"
  shows "b = c"
proof -
  have "unat (digest_of_bytes (zs @ [d])) mod 256 = unat d" for zs d
    using unsigned_less [of d, where 'a = nat]
    unfolding digest_of_bytes_def unat_of_nat by (simp add: mod_mod_cancel)
  with assms have "unat b = unat c" by metis
  then show ?thesis by (rule word_unat_eq_iff [THEN iffD2])
qed

lemma sample_due_uncollided: "uncollided digest_of_bytes (to_bytes sample_manifest) (ws_store sample_due)"
proof -
  obtain xs where xs: "to_bytes sample_manifest = xs @ [1]"
    by (rule that [of "TFM1_MAGIC @ emit_parent None @ u64_le 2 @
        emit_pair (''f'', Entry_File False (FileBody_Blob 3 sample_digest)) @ emit_path ''g''"])
      (simp add: to_bytes_def emit_def emit_pair_def sample_manifest_def)
  have "digest_of_bytes (xs @ [1]) \<noteq> sample_digest"
    using digest_of_bytes_last [of xs 1 "[1, 2]" 3] by (auto simp: sample_digest_def)
  then show ?thesis
    by (simp add: uncollided_def sample_due_def object_bytes_def sample_store_objects xs)
qed

lemma sample_due_prepared:
  "adopt_prepare ascii_unicode sample_env sample_hasher digest_of_bytes (to_bytes sample_manifest) sample_due =
   (Inr (snapshot_id_of digest_of_bytes sample_manifest), sample_due\<lparr>ws_store :=
     snd (put_bytes sample_env sample_hasher (to_bytes sample_manifest) sample_store)\<rparr>)"
proof -
  obtain a where "fst (put_bytes sample_env sample_hasher (to_bytes sample_manifest) sample_store) = Inr a"
    using put_bytes_ok(2) [OF sample_hasher_streams sample_store_ok] by blast
  then show ?thesis using sample_manifest_decodes(1)
    by (cases "put_bytes sample_env sample_hasher (to_bytes sample_manifest) sample_store")
      (simp add: adopt_prepare_def sample_manifest_def snapshot_record_digests_def first_missing_def
        sample_store_exists sample_due_def)
qed

lemma sample_due_taken:
  "taken_by ascii_unicode digest_of_bytes (sample_due\<lparr>ws_store :=
     snd (put_bytes sample_env sample_hasher (to_bytes sample_manifest) sample_store)\<rparr>) sample_digest"
proof -
  have "file_resident sample_store sample_digest"
    unfolding file_resident_def by (intro exI) (simp add: resident_at_def sample_store_objects)
  then have "file_resident (snd (put_bytes sample_env sample_hasher (to_bytes sample_manifest) sample_store)) sample_digest"
    using put_bytes_grows [OF sample_hasher_streams sample_store_ok, of sample_env "to_bytes sample_manifest"]
    by (simp add: store_grows_def file_resident_def)
  then show ?thesis
    by (auto simp: taken_by_def root_objects_def sample_due_def metadata_new_def head_objects_def)
qed

lemma sample_manifest_names: "sample_digest \<in> set (snapshot_record_digests sample_manifest)"
  by (simp add: sample_manifest_def snapshot_record_digests_def)

lemma sample_due_garbage:
  "file_resident (ws_store sample_due) sample_digest" "sample_digest \<notin> root_objects u sha256 sample_due"
proof -
  show "file_resident (ws_store sample_due) sample_digest"
    unfolding file_resident_def by (intro exI) (simp add: resident_at_def sample_due_def sample_store_objects)
  show "sample_digest \<notin> root_objects u sha256 sample_due"
    by (simp add: root_objects_def sample_due_def metadata_new_def head_objects_def)
qed

definition sample_adopted :: workspace_store where
  "sample_adopted = snd (adopt_snapshot ascii_unicode sample_env sample_hasher digest_of_bytes
     (to_bytes sample_manifest) sample_due)"

lemma sample_adopted_eq:
  "ws_store sample_adopted = snd (put_bytes sample_env sample_hasher (to_bytes sample_manifest) sample_store)"
  "md_snapshots (ws_db sample_adopted) = [(snapshot_id_of digest_of_bytes sample_manifest, 0)]"
  unfolding sample_adopted_def adopt_snapshot_def sample_due_prepared
  by (simp_all add: op_then_def adopt_insert_def insert_snapshot_def sample_due_def metadata_new_def)

lemma sample_adopted_wf:
  "store_wf (ws_store sample_adopted)" "bt_sorted (md_snapshots (ws_db sample_adopted))"
  "length (md_snapshots (ws_db sample_adopted)) + 2 < 2 ^ 32"
  using put_bytes_ok(1) [OF sample_hasher_streams sample_store_ok, of sample_env "to_bytes sample_manifest"]
  by (simp_all add: sample_adopted_eq store_ok_def bt_sorted_def)

lemma sample_adopted_usage:
  obtains e where "usage ascii_unicode digest_of_bytes sample_adopted = Inr [e]"
    "su_id e = snapshot_id_of digest_of_bytes sample_manifest"
proof -
  have "read_manifest_object ascii_unicode digest_of_bytes (ws_store sample_adopted)
      (snapshot_id_of digest_of_bytes sample_manifest) = Inr sample_manifest"
    using put_bytes_opens [OF sample_hasher_streams sample_store_ok, of "to_bytes sample_manifest" sample_env]
      sample_due_uncollided sample_manifest_decodes(1)
    by (simp add: sample_adopted_eq snapshot_id_of_def read_manifest_object_def sample_due_def)
  then obtain m s where "mark_roots ascii_unicode digest_of_bytes sample_adopted = Inr m" "mk_snapshots m = [s]"
    "sm_id s = snapshot_id_of digest_of_bytes sample_manifest"
    by (simp add: mark_roots_def mark_snapshot_def sample_adopted_eq(2) Let_def add_root_def)
  then show thesis
    by (intro that [of "usage_of m (each_object (ws_store sample_adopted)) s"])
      (simp_all add: usage_def, simp add: usage_of_def Let_def)
qed

end
