(* ===== verification/Seal_Samples.thy ===== *)
theory Seal_Samples
  imports Workspace_Samples
begin

text \<open>
  Concrete inputs of the sealing properties: a file of two records that a seal joins to one object, and
  a workspace whose root directory was removed and took its own child as its successor.
\<close>

section \<open>Two records to join\<close>

lemma le_nat_inj: "le_nat xs = le_nat ys \<Longrightarrow> 0 \<notin> set xs \<Longrightarrow> 0 \<notin> set ys \<Longrightarrow> xs = ys"
proof (induction xs arbitrary: ys)
  case Nil
  then show ?case by (cases ys) (auto simp: unat_eq_0)
next
  case (Cons x xs)
  then obtain y zs where ys: "ys = y # zs" by (cases ys) (auto simp: unat_eq_0)
  have "unat x < 256" "unat y < 256" using unsigned_less [of x, where 'a = nat] unsigned_less [of y, where 'a = nat] by simp_all
  moreover have "unat x + 256 * le_nat xs = unat y + 256 * le_nat zs" using Cons.prems(1) ys by simp
  ultimately have "unat x = unat y \<and> le_nat xs = le_nat zs"
    by (metis add.commute div_mult_self4 mod_mult_self2 mod_less div_less add_0_left zero_neq_numeral)
  then show ?case using Cons ys by (simp add: word_unat_eq_iff)
qed

lemma digest_of_bytes_inj: "inj_on digest_of_bytes {bs. length bs \<le> 32 \<and> 0 \<notin> set bs}"
proof (rule inj_onI)
  fix xs ys :: bytes
  assume a: "xs \<in> {bs. length bs \<le> 32 \<and> 0 \<notin> set bs}" "ys \<in> {bs. length bs \<le> 32 \<and> 0 \<notin> set bs}"
    and eq: "digest_of_bytes xs = digest_of_bytes ys"
  have small: "le_nat (rev bs) < 2 ^ 256" if "length bs \<le> 32" for bs
  proof -
    have "le_nat (rev bs) < 256 ^ length bs" using le_nat_less [of "rev bs"] by simp
    also have "\<dots> \<le> 256 ^ 32" using that by (intro power_increasing) auto
    finally show ?thesis by simp
  qed
  have "le_nat (rev xs) = le_nat (rev ys)"
    using arg_cong [OF eq, of unat] small [of xs] small [of ys] a by (simp add: digest_of_bytes_def unat_of_nat)
  from le_nat_inj [OF this] a show "xs = ys" by simp
qed

definition sample_twice :: "file_record list" where
  "sample_twice = [FileRecord_Data sample_digest 3, FileRecord_Data sample_digest 3]"

definition sample_admission :: admission_env where
  "sample_admission = \<lparr>ae_env = sample_env, ae_concurrency = 4, ae_schedule = (\<lambda>n. [0..<n])\<rparr>"

lemma sample_twice_readable: "records_readable sample_store sample_twice"
  by (simp add: records_readable_def sample_twice_def record_resident_def record_size_def open_object_def
      resident_at_def sample_store_objects)

lemma sample_twice_content: "records_content sample_store sample_twice = [1, 2, 3, 1, 2, 3]"
  by (simp add: records_content_def sample_twice_def sample_records_content)

lemma sample_twice_sealed:
  "plan_seal_job sample_admission sample_hasher digest_of_bytes sample_json None ''f'' PlannerId_BlobV1 Stamp_None
     sample_twice sample_store =
   (\<lambda>(result, st). (map_ok Some result, st)) (blob_seal_job sample_admission sample_hasher ''f''
     (records_source sample_store sample_twice) sample_store)"
proof -
  have len: "src_len (records_source sample_store sample_twice) = 6"
    by (simp add: records_source_def sample_twice_def)
  have "plan_once digest_of_bytes sample_json (records_source sample_store sample_twice) None =
    Inr (blob_plan 6)"
    by (simp add: plan_once_def validated_def blob_plan_valid len)
  then show ?thesis
    by (simp add: plan_seal_job_def Let_def plan_with_def check_unchanged_def records_source_def sample_twice_def
        blob_plan_def split: prod.splits)
qed

lemma sample_twice_objects:
  "os_objects (snd (blob_seal_job sample_admission sample_hasher path (records_source sample_store sample_twice)
     sample_store)) = snd (admit digest_of_bytes [1, 2, 3, 1, 2, 3] (os_objects sample_store))"
proof -
  note content = committed.admit_source_range_content [OF sample_hasher_streams sample_store_ok,
      of "(sample_store, sample_twice)" 0 6 sample_env]
  have len: "src_len (records_source sample_store sample_twice) = 6"
    by (simp add: records_source_def sample_twice_def)
  have "os_objects (snd (admit_source_range sample_env sample_hasher (records_source sample_store sample_twice) 0 6
      sample_store)) = snd (admit digest_of_bytes [1, 2, 3, 1, 2, 3] (os_objects sample_store))"
    using content(2) sample_twice_readable sample_twice_content by simp
  then show ?thesis
    by (auto simp: blob_seal_job_def sample_admission_def len split: prod.splits sum.splits)
qed

lemma sample_twice_clash_free:
  "clash_free digest_of_bytes (records_content sample_store sample_twice) (snd (blob_seal_job sample_admission
     sample_hasher path (records_source sample_store sample_twice) sample_store))"
proof -
  let ?file = "[1, 2, 3, 1, 2, 3] :: bytes"
  have "pieces_of ?file \<subseteq> {bs. length bs \<le> 32 \<and> 0 \<notin> set bs}"
    by (auto simp: pieces_of_def dest!: in_set_takeD in_set_dropD)
  moreover have "ran (object_bytes (snd (admit digest_of_bytes ?file (os_objects sample_store)))) \<subseteq> {[1, 2, 3], ?file}"
    by (auto simp: admit_def object_bytes_def ran_def Let_def sample_store_objects split: option.splits if_splits)
  moreover have "{[1, 2, 3], ?file} \<subseteq> {bs. length bs \<le> 32 \<and> 0 \<notin> set bs}" by simp
  ultimately show ?thesis
    unfolding clash_free_def sample_twice_content sample_twice_objects
    by (intro inj_on_subset [OF digest_of_bytes_inj]) blast
qed


section \<open>The tree of the sample workspace\<close>

lemma sample_workspace_children:
  "child_rows (ws_db sample_workspace) 1 = [(''f'', 2, \<lparr>in_workspace = 1, in_kind = KIND_FILE, in_executable = False,
     in_planner = Some 4, in_contract = None, in_symlink_target = None\<rparr>)]"
  by (simp add: child_rows_def sample_workspace_def sample_db_def List.map_filter_def)

lemma sample_workspace_head: "\<exists>tree. head_tree ascii_unicode ''w'' sample_workspace = Some (Inr tree)"
proof -
  have walk: "stage_walk (ws_db sample_workspace) [(1, [])] staged_empty =
      Some (Inr (staged_empty\<lparr>sg_paths_by_inode := [(2, [''f''])]\<rparr>))"
    by (simp add: stage_walk_simps sample_workspace_children staged_empty_def join_path_def)
  have "stage_builder (ws_db sample_workspace) sample_row None = Some (Inr
      (builder_file_under ''f'' False PlannerId_BlobV1 Stamp_None [FileRecord_Data sample_digest 3] (builder_new None)))"
    by (simp add: stage_builder_def sample_row_def walk stage_file_def)
      (simp add: staged_empty_def stage_file_def sample_workspace_def sample_db_def read_records_def planner_from_row_def contract_from_row_def)
  then show ?thesis
    by (simp add: head_tree_def sample_workspace_row build_tree_def builder_finish_tree_def builder_resolve_def
        builder_eval path_eval reroot_group_def resolve_entry_def checked_add_def validate_record_run_def
        MAX_FILE_RECORDS_def canonical_body_def)
qed


section \<open>A workspace whose root can be removed\<close>

lemma looped_created:
  "create_workspace ''w'' \<lparr>ws_store = store_new, ws_db = metadata_new\<rparr> = (Inr (), \<lparr>ws_store = store_new,
     ws_db = metadata_new\<lparr>md_workspaces := [(''w'', \<lparr>wr_id = 1, wr_head_generation = 0, wr_root_inode = 1\<rparr>)],
       md_inodes := [(1, \<lparr>in_workspace = 1, in_kind = KIND_DIRECTORY, in_executable = False, in_planner = None,
         in_contract = None, in_symlink_target = None\<rparr>)]\<rparr>\<rparr>)"
  by (simp add: db_eval)

lemma looped_created_reach: "ws_reach ascii_unicode sample_hasher digest_of_bytes (snd (create_workspace ''w''
    \<lparr>ws_store = store_new, ws_db = metadata_new\<rparr>))"
  using ws_reach.next_step [OF ws_reach.start ws_step.create [OF looped_created]] by (simp add: looped_created)

end
