(* ===== verification/Layout_Morphism.thy ===== *)
theory Layout_Morphism
  imports Rust_Text "HOL-Library.Monad_Syntax"
begin

text \<open>
  Storage arrangements (layout\_morphism.rs): records of the catalog and their self-check, the shape
  formulas, the plan of an arrangement for a concrete shape, the walk over its runs, the two copies
  driven by the walk, and the ratification of a record. The texts of the error details are not
  modelled. The outer option of the walk and of what it drives is None where the code panics: an index
  outside the permutation of a record that was not checked, or a slice outside its buffer. Arithmetic
  on u64 wraps, as in the release profile.
\<close>

section \<open>Records\<close>

datatype layout_error =
    LayoutError_Catalog str
  | LayoutError_Record str
  | LayoutError_Rank str nat nat
  | LayoutError_ShortAxis str nat u64 u64
  | LayoutError_Formula str
  | LayoutError_Buffer nat nat
  | LayoutError_Candidate str

datatype layout_class = LayoutClass_Inductor | LayoutClass_EndpointDeclared

record sub_axis =
  sa_axis :: nat
  sa_extent :: str

record layout_morphism =
  lm_format :: str
  lm_name :: str
  lm_version :: u32
  lm_class :: layout_class
  lm_description :: str
  lm_rank :: nat
  lm_sub_axes :: "sub_axis list"
  lm_permutation :: "nat list"
  lm_candidate :: bool
  lm_provenance :: "str list"
  lm_digest :: str

definition LAYOUT_MORPHISM_FORMAT :: str where
  "LAYOUT_MORPHISM_FORMAT = ''tensorfs-layout-morphism-v2''"

definition DEFAULT_LAYOUT :: str where
  "DEFAULT_LAYOUT = ''torch.contiguous@1''"

definition morphism_handle :: "layout_morphism \<Rightarrow> str" where
  "morphism_handle m = lm_name m @ ''@'' @ decimal_u32 (lm_version m)"

definition is_identity :: "layout_morphism \<Rightarrow> bool" where
  "is_identity m = (lm_sub_axes m = [])"

definition ensure_ratified :: "layout_morphism \<Rightarrow> layout_error + unit" where
  "ensure_ratified m = (if lm_candidate m then Inl (LayoutError_Candidate (morphism_handle m)) else Inr ())"

text \<open>The scan over the sub-axes returns the number of axes they cover.\<close>

fun check_axes :: "str \<Rightarrow> nat \<Rightarrow> nat \<Rightarrow> nat \<Rightarrow> sub_axis list \<Rightarrow> layout_error + nat" where
  "check_axes handle at axis covered [] = Inr covered"
| "check_axes handle at axis covered (sub # subs) =
     (if at = 0 then
        (if sa_axis sub \<noteq> 0 then Inl (LayoutError_Record handle)
         else check_axes handle (at + 1) (sa_axis sub) 1 subs)
      else if sa_axis sub = axis + 1 then check_axes handle (at + 1) (sa_axis sub) (covered + 1) subs
      else if sa_axis sub \<noteq> axis then Inl (LayoutError_Record handle)
      else check_axes handle (at + 1) (sa_axis sub) covered subs)"

fun check_permutation :: "str \<Rightarrow> bool list \<Rightarrow> nat list \<Rightarrow> layout_error + unit" where
  "check_permutation handle seen [] = Inr ()"
| "check_permutation handle seen (to # rest) =
     (if length seen \<le> to then Inl (LayoutError_Record handle)
      else if seen ! to then Inl (LayoutError_Record handle)
      else check_permutation handle (seen[to := True]) rest)"

definition layout_check :: "layout_morphism \<Rightarrow> layout_error + unit" where
  "layout_check m =
     (let bad = Inl (LayoutError_Record (morphism_handle m)) in
      if lm_format m \<noteq> LAYOUT_MORPHISM_FORMAT then bad
      else if lm_provenance m = [] then bad
      else if is_identity m then
        (if lm_permutation m \<noteq> [] then bad else if lm_rank m \<noteq> 0 then bad else Inr ())
      else if lm_rank m = 0 then bad
      else if length (lm_permutation m) \<noteq> length (lm_sub_axes m) then bad
      else and_then (check_axes (morphism_handle m) 0 0 0 (lm_sub_axes m)) (\<lambda>covered.
        if covered \<noteq> lm_rank m then bad
        else check_permutation (morphism_handle m) (replicate (length (lm_permutation m)) False) (lm_permutation m)))"


section \<open>Shape formulas\<close>

datatype formula_error =
    Formula_Empty
  | Formula_Unclosed
  | Formula_NotAxis
  | Formula_AxisRange
  | Formula_NotInteger
  | Formula_DivideByZero
  | Formula_Inexact
  | Formula_Stray
  | Formula_TrailingOperator

text \<open>The part before the parenthesis that closes depth one, and the part after it.\<close>

fun close_paren :: "nat \<Rightarrow> str \<Rightarrow> (str \<times> str) option" where
  "close_paren depth [] = None"
| "close_paren depth (c # cs) =
     (if c = CHR '')'' \<and> depth = 1 then Some ([], cs)
      else map_option (\<lambda>(inner, rest). (c # inner, rest))
        (close_paren (if c = CHR ''('' then depth + 1 else if c = CHR '')'' then depth - 1 else depth) cs))"

lemma close_paren_length: "close_paren depth cs = Some (inner, rest) \<Longrightarrow> length inner + length rest < length cs"
  by (induction depth cs arbitrary: inner rest rule: close_paren.induct) (fastforce split: if_splits)+

lemma strip_prefix_length: "strip_prefix p s = Some r \<Longrightarrow> length r \<le> length s"
  by (induction p s arbitrary: r rule: strip_prefix.induct) (auto split: if_splits)

definition is_operator :: "char \<Rightarrow> bool" where
  "is_operator c \<longleftrightarrow> c = CHR ''*'' \<or> c = CHR ''/''"

definition eval_token :: "str \<Rightarrow> u64 list \<Rightarrow> formula_error + u64" where
  "eval_token token shape =
     (case strip_prefix ''d'' token of
        Some digits \<Rightarrow>
          and_then (ok_or (parse_u64 digits) Formula_NotAxis) (\<lambda>axis.
            if unat axis < length shape then Inr (shape ! unat axis) else Inl Formula_AxisRange)
      | None \<Rightarrow>
          and_then (ok_or (parse_u64 token) Formula_NotInteger) (\<lambda>literal.
            if literal = 0 then Inl Formula_NotInteger else Inr literal))"

definition combine :: "bool \<Rightarrow> bool \<Rightarrow> u64 \<Rightarrow> u64 \<Rightarrow> formula_error + u64" where
  "combine ceiling dividing acc operand =
     (if dividing then
        (if operand = 0 then Inl Formula_DivideByZero
         else if ceiling then Inr (div_ceil acc operand)
         else if \<not> is_multiple_of acc operand then Inl Formula_Inexact
         else Inr (acc div operand))
      else Inr (acc * operand))"

text \<open>\<open>eval_chain\<close> is the loop of the code from the operand at the start of \<open>rest\<close> on; a nested
  \<open>ceil(\<dots>)\<close> starts the loop afresh on what it encloses.\<close>

function eval_chain :: "u64 list \<Rightarrow> bool \<Rightarrow> u64 \<Rightarrow> bool \<Rightarrow> str \<Rightarrow> formula_error + u64" where
  "eval_chain shape ceiling acc dividing rest =
     and_then (case strip_prefix ''ceil('' rest of
         Some inner \<Rightarrow>
           (case close_paren 1 inner of
              None \<Rightarrow> Inl Formula_Unclosed
            | Some (body, rest') \<Rightarrow>
                if body = [] then Inl Formula_Empty
                else and_then (eval_chain shape True 1 False body) (\<lambda>operand. Inr (operand, rest')))
       | None \<Rightarrow>
           and_then (eval_token (takeWhile (Not \<circ> is_operator) rest) shape) (\<lambda>operand.
             Inr (operand, dropWhile (Not \<circ> is_operator) rest)))
     (\<lambda>(operand, rest').
     and_then (combine ceiling dividing acc operand) (\<lambda>acc.
       case rest' of
         [] \<Rightarrow> Inr acc
       | c # cs \<Rightarrow>
           if c \<noteq> CHR ''*'' \<and> c \<noteq> CHR ''/'' then Inl Formula_Stray
           else if cs = [] then Inl Formula_TrailingOperator
           else eval_chain shape ceiling acc (c = CHR ''/'') cs))"
  by pat_completeness auto
termination
  by (relation "measure (\<lambda>(shape, ceiling, acc, dividing, rest). length rest)")
    (auto simp: result_simps dest!: close_paren_length strip_prefix_length split: option.splits if_splits,
      (metis length_Cons length_dropWhile_le less_eq_Suc_le)+)

declare eval_chain.simps [simp del]

definition eval_formula :: "str \<Rightarrow> u64 list \<Rightarrow> formula_error + u64" where
  "eval_formula body shape =
     (let squeezed = filter (\<lambda>c. c \<noteq> CHR '' '') body in
      if squeezed = [] then Inl Formula_Empty else eval_chain shape False 1 False squeezed)"


section \<open>Plans\<close>

record layout_plan =
  lp_handle :: str
  lp_shape :: "u64 list"
  lp_axes :: "nat list"
  lp_extents :: "u64 list"
  lp_within :: "u64 list"
  lp_permutation :: "nat list"
  lp_logical_stride :: "u64 list"
  lp_src_stride :: "u64 list"
  lp_padded_axis :: "bool list"
  lp_source_elements :: u64
  lp_dest_elements :: u64
  lp_padded :: bool

definition saturating_mul :: "u64 \<Rightarrow> u64 \<Rightarrow> u64" where
  "saturating_mul a b = (if unat a * unat b < 2 ^ 64 then a * b else - 1)"

fun logical_strides :: "u64 list \<Rightarrow> u64 list" where
  "logical_strides [] = []"
| "logical_strides [d] = [1]"
| "logical_strides (d # e # ds) =
     (case logical_strides (e # ds) of [] \<Rightarrow> [] | s # ss \<Rightarrow> (s * e) # s # ss)"

fun sub_extents :: "str \<Rightarrow> u64 list \<Rightarrow> sub_axis list \<Rightarrow> layout_error + (nat \<times> u64) list" where
  "sub_extents handle shape [] = Inr []"
| "sub_extents handle shape (sub # subs) =
     and_then (map_err (\<lambda>_. LayoutError_Formula handle) (eval_formula (sa_extent sub) shape)) (\<lambda>extent.
       if extent = 0 then Inl (LayoutError_Formula handle)
       else and_then (sub_extents handle shape subs) (\<lambda>rest. Inr ((sa_axis sub, extent) # rest)))"

text \<open>The multipliers of the factors of one axis and their product, from the innermost outwards.\<close>

fun within_of :: "u64 list \<Rightarrow> u64 list \<times> u64" where
  "within_of [] = ([], 1)"
| "within_of (extent # extents) = (case within_of extents of (within, running) \<Rightarrow> (running # within, running * extent))"

text \<open>One turn of the outer loop takes the factors of one axis; the turns return the multipliers and
  the padded axes.\<close>

function plan_groups :: "str \<Rightarrow> nat \<Rightarrow> u64 list \<Rightarrow> (nat \<times> u64) list \<Rightarrow> bool list \<Rightarrow> bool \<Rightarrow>
    layout_error + u64 list \<times> bool list \<times> bool" where
  "plan_groups handle rank shape [] padded_axis padded = Inr ([], padded_axis, padded)"
| "plan_groups handle rank shape ((axis, extent) # factors) padded_axis padded =
     (case within_of (extent # map snd (takeWhile (\<lambda>(a, e). a = axis) factors)) of (within, running) \<Rightarrow>
      if length shape \<le> axis then Inl (LayoutError_Rank handle rank (length shape))
      else if running < shape ! axis then Inl (LayoutError_ShortAxis handle axis running (shape ! axis))
      else
        let over = shape ! axis < running in
        and_then (plan_groups handle rank shape (dropWhile (\<lambda>(a, e). a = axis) factors)
          (if over then padded_axis[axis := True] else padded_axis) (padded \<or> over)) (\<lambda>(rest, flags).
        Inr (within @ rest, flags)))"
  by pat_completeness auto
termination
  by (relation "measure (\<lambda>(handle, rank, shape, factors, padded_axis, padded). length factors)")
    (auto simp: less_Suc_eq_le length_dropWhile_le)

definition morphism_plan :: "layout_morphism \<Rightarrow> u64 list \<Rightarrow> layout_error + layout_plan" where
  "morphism_plan m shape =
     (let handle = morphism_handle m in
      if lm_rank m \<noteq> 0 \<and> length shape \<noteq> lm_rank m then
        Inl (LayoutError_Rank handle (lm_rank m) (length shape))
      else if shape = [] \<or> 0 \<in> set shape then Inl (LayoutError_Record handle)
      else
        and_then (if is_identity m then Inr (enumerate 0 shape) else sub_extents handle shape (lm_sub_axes m)) (\<lambda>factors.
        and_then (plan_groups handle (lm_rank m) shape factors (replicate (length shape) False) False)
          (\<lambda>(within, padded_axis, padded).
        let axes = map fst factors;
            extents = map snd factors;
            logical_stride = logical_strides shape in
        Inr \<lparr>lp_handle = handle, lp_shape = shape, lp_axes = axes, lp_extents = extents, lp_within = within,
          lp_permutation = (if is_identity m then [0..<length extents] else lm_permutation m),
          lp_logical_stride = logical_stride,
          lp_src_stride = map (\<lambda>at. within ! at * logical_stride ! (axes ! at)) [0..<length extents],
          lp_padded_axis = padded_axis,
          lp_source_elements = fold (\<lambda>dim n. saturating_mul n dim) shape 1,
          lp_dest_elements = prod_list extents, lp_padded = padded\<rparr>)))"

definition storage_extents :: "layout_plan \<Rightarrow> u64 list option" where
  "storage_extents p =
     those (map (\<lambda>at. if at < length (lp_extents p) then Some (lp_extents p ! at) else None) (lp_permutation p))"


section \<open>The walk\<close>

text \<open>The sub-axis at a storage position. The other arrays of a plan have the length of its extents, so
  this is the only access that can be out of range.\<close>

definition sub_axis_at :: "layout_plan \<Rightarrow> nat \<Rightarrow> nat option" where
  "sub_axis_at p position =
     (if position < length (lp_permutation p) \<and> lp_permutation p ! position < length (lp_extents p)
      then Some (lp_permutation p ! position) else None)"

fun fold_run :: "layout_plan \<Rightarrow> nat \<Rightarrow> u64 \<Rightarrow> (u64 \<times> nat) option" where
  "fold_run p 0 run = Some (run, 0)"
| "fold_run p (Suc position) run = do {
     at \<leftarrow> sub_axis_at p position;
     if lp_padded_axis p ! (lp_axes p ! at) \<or> lp_src_stride p ! at \<noteq> run then Some (run, Suc position)
     else fold_run p position (run * lp_extents p ! at)
   }"

text \<open>The source element of the coordinates, from the given axis on.\<close>

fun run_source :: "u64 list \<Rightarrow> u64 list \<Rightarrow> u64 list \<Rightarrow> u64 \<Rightarrow> u64 option" where
  "run_source (position # coord) (dim # shape) (stride # strides) offset =
     (if dim \<le> position then None else run_source coord shape strides (offset + position * stride))"
| "run_source _ _ _ offset = Some offset"

fun odometer :: "layout_plan \<Rightarrow> nat \<Rightarrow> u64 list \<Rightarrow> u64 list \<Rightarrow> (u64 list \<times> u64 list) option" where
  "odometer p 0 counters coord = Some (counters, coord)"
| "odometer p (Suc position) counters coord = do {
     at \<leftarrow> sub_axis_at p position;
     let axis = lp_axes p ! at;
         count = counters ! at + 1;
         coord = coord[axis := coord ! axis + lp_within p ! at] in
     if count < lp_extents p ! at then Some (counters[at := count], coord)
     else odometer p position (counters[at := 0]) (coord[axis := coord ! axis - count * lp_within p ! at])
   }"

type_synonym visit = "u64 \<times> u64 option \<times> u64"

fun run_steps :: "layout_plan \<Rightarrow> u64 \<Rightarrow> nat \<Rightarrow> nat \<Rightarrow> u64 \<Rightarrow> u64 list \<Rightarrow> u64 list \<Rightarrow> visit list option" where
  "run_steps p run outer 0 step counters coord = Some []"
| "run_steps p run outer (Suc n) step counters coord = do {
     (counters', coord') \<leftarrow> odometer p outer counters coord;
     rest \<leftarrow> run_steps p run outer n (step + 1) counters' coord';
     Some ((step * run, run_source coord (lp_shape p) (lp_logical_stride p) 0, run) # rest)
   }"

definition for_each_run :: "layout_plan \<Rightarrow> visit list option" where
  "for_each_run p = do {
     (run, outer) \<leftarrow> fold_run p (length (lp_extents p)) 1;
     run_steps p run outer (unat (lp_dest_elements p div max run 1)) 0
       (replicate (length (lp_extents p)) 0) (replicate (length (lp_shape p)) 0)
   }"

definition expand_run :: "visit \<Rightarrow> (u64 \<times> u64 option) list" where
  "expand_run v = (case v of (to, from, len) \<Rightarrow>
     map (\<lambda>step. (to + of_nat step, map_option (\<lambda>i. i + of_nat step) from)) [0..<unat len])"

definition for_each :: "layout_plan \<Rightarrow> (u64 \<times> u64 option) list option" where
  "for_each p = map_option (\<lambda>runs. concat (map expand_run runs)) (for_each_run p)"

definition run_count :: "layout_plan \<Rightarrow> u64 option" where
  "run_count p = map_option (\<lambda>runs. of_nat (length runs)) (for_each_run p)"


section \<open>Moving the bytes\<close>

definition plan_sized :: "layout_plan \<Rightarrow> nat \<Rightarrow> nat \<Rightarrow> u64 \<Rightarrow> layout_error + unit" where
  "plan_sized p src dst element =
     (let want_src = unat (lp_source_elements p * element);
          want_dst = unat (lp_dest_elements p * element) in
      if src \<noteq> want_src then Inl (LayoutError_Buffer src want_src)
      else if dst \<noteq> want_dst then Inl (LayoutError_Buffer dst want_dst)
      else Inr ())"

definition slice_bytes :: "bytes \<Rightarrow> nat \<Rightarrow> nat \<Rightarrow> bytes option" where
  "slice_bytes bs at span = (if at + span \<le> length bs then Some (take span (drop at bs)) else None)"

definition copy_into :: "bytes \<Rightarrow> nat \<Rightarrow> bytes \<Rightarrow> bytes option" where
  "copy_into bs at piece =
     (if at + length piece \<le> length bs then Some (take at bs @ piece @ drop (at + length piece) bs) else None)"

definition apply_visit :: "u64 \<Rightarrow> bytes \<Rightarrow> visit \<Rightarrow> bytes \<Rightarrow> bytes option" where
  "apply_visit element source v destination =
     (case v of (to, from, len) \<Rightarrow>
      let at = unat (to * element); span = unat (len * element) in
      case from of
        Some i \<Rightarrow> do {
          piece \<leftarrow> slice_bytes source (unat (i * element)) span;
          copy_into destination at piece
        }
      | None \<Rightarrow> copy_into destination at (replicate span 0))"

definition inverse_visit :: "u64 \<Rightarrow> bytes \<Rightarrow> visit \<Rightarrow> bytes \<Rightarrow> bytes option" where
  "inverse_visit element destination v source =
     (case v of (to, from, len) \<Rightarrow>
      case from of
        Some i \<Rightarrow> do {
          piece \<leftarrow> slice_bytes destination (unat (to * element)) (unat (len * element));
          copy_into source (unat (i * element)) piece
        }
      | None \<Rightarrow> Some source)"

fun visit_all :: "(visit \<Rightarrow> bytes \<Rightarrow> bytes option) \<Rightarrow> visit list \<Rightarrow> bytes \<Rightarrow> bytes option" where
  "visit_all f [] bs = Some bs"
| "visit_all f (v # vs) bs = do { bs' \<leftarrow> f v bs; visit_all f vs bs' }"

text \<open>The value of a copy is what it leaves in the buffer it writes.\<close>

definition plan_apply :: "layout_plan \<Rightarrow> bytes \<Rightarrow> bytes \<Rightarrow> u64 \<Rightarrow> (layout_error + bytes) option" where
  "plan_apply p source destination element =
     (case plan_sized p (length source) (length destination) element of
        Inl e \<Rightarrow> Some (Inl e)
      | Inr _ \<Rightarrow> do {
          runs \<leftarrow> for_each_run p;
          written \<leftarrow> visit_all (apply_visit element source) runs destination;
          Some (Inr written)
        })"

definition plan_apply_inverse :: "layout_plan \<Rightarrow> bytes \<Rightarrow> bytes \<Rightarrow> u64 \<Rightarrow> (layout_error + bytes) option" where
  "plan_apply_inverse p destination source element =
     (case plan_sized p (length source) (length destination) element of
        Inl e \<Rightarrow> Some (Inl e)
      | Inr _ \<Rightarrow> do {
          runs \<leftarrow> for_each_run p;
          written \<leftarrow> visit_all (inverse_visit element destination) runs source;
          Some (Inr written)
        })"


section \<open>Ratification\<close>

record probe =
  pb_shape :: "u64 list"
  pb_dest_elements :: u64
  pb_padded :: bool

record ratification =
  rt_handle :: str
  rt_probes :: "probe list"

definition POISON :: u8 where
  "POISON = 0xA5"

definition ELEMENT :: u64 where
  "ELEMENT = 4"

text \<open>\<open>str::trim\<close> removes the characters with the Unicode property White\_Space at both ends; they are
  listed by their UTF-8 encodings.\<close>

definition WHITE_SPACE :: "str list" where
  "WHITE_SPACE = map (\<lambda>n. [char_of n]) ([9..<14] @ [32]) @ map (map char_of)
     ([[0xC2, 0x85], [0xC2, 0xA0], [0xE1, 0x9A, 0x80 :: nat]] @ map (\<lambda>n. [0xE2, 0x80, n]) ([0x80..<0x8B] @ [0xA8, 0xA9, 0xAF]) @
      [[0xE2, 0x81, 0x9F], [0xE3, 0x80, 0x80]])"

lemma strip_prefix_shrinks: "strip_prefix p s = Some r \<Longrightarrow> p \<noteq> [] \<Longrightarrow> length r < length s"
  by (cases p; cases s) (auto split: if_splits dest: strip_prefix_length)

function trim_start :: "str list \<Rightarrow> str \<Rightarrow> str" where
  "trim_start spaces s =
     (case List.map_filter (\<lambda>w. if w = [] then None else strip_prefix w s) spaces of
        [] \<Rightarrow> s
      | rest # _ \<Rightarrow> trim_start spaces rest)"
  by pat_completeness auto
termination
proof (relation "measure (length \<circ> snd)")
  fix spaces s rest more
  assume "List.map_filter (\<lambda>w. if w = [] then None else strip_prefix w s) spaces = rest # more"
  then have "rest \<in> set (List.map_filter (\<lambda>w. if w = [] then None else strip_prefix w s) spaces)" by simp
  then show "((spaces, rest), spaces, s) \<in> measure (length \<circ> snd)"
    by (auto simp: List.map_filter_def dest: strip_prefix_shrinks split: if_splits)
qed simp

declare trim_start.simps [simp del]

definition trim :: "str \<Rightarrow> str" where
  "trim s = rev (trim_start (map rev WHITE_SPACE) (rev (trim_start WHITE_SPACE s)))"

fun probe_alignment :: "sub_axis list \<Rightarrow> u64 list \<Rightarrow> u64 list option" where
  "probe_alignment [] alignment = Some alignment"
| "probe_alignment (sub # subs) alignment =
     (case parse_u64 (trim (sa_extent sub)) of
        Some literal \<Rightarrow>
          if sa_axis sub < length alignment
          then probe_alignment subs (alignment[sa_axis sub := alignment ! sa_axis sub * literal])
          else None
      | None \<Rightarrow> probe_alignment subs alignment)"

definition probe_shapes :: "layout_morphism \<Rightarrow> u64 list list option" where
  "probe_shapes m =
     (if is_identity m then Some (map (\<lambda>rank. map (\<lambda>at. of_nat at + 2) [0..<rank]) [1..<5])
      else do {
        alignment \<leftarrow> probe_alignment (lm_sub_axes m) (replicate (lm_rank m) 1);
        let aligned = map (\<lambda>(at, align). align * (of_nat at + 2)) (enumerate 0 alignment);
            ragged = map (\<lambda>dim. if 1 < dim then dim - 1 else dim) aligned in
        Some (if ragged = aligned then [aligned] else [aligned, ragged])
      })"

definition tag_bytes :: "nat \<Rightarrow> bytes" where
  "tag_bytes index = u32_le (of_nat index * 2654435761)"

definition is_padding :: "u64 \<times> u64 option \<Rightarrow> bool" where
  "is_padding v = (snd v = None)"

text \<open>One turn of the loop over the probe shapes, after the plan has succeeded.\<close>

definition ratify_probe :: "str \<Rightarrow> u64 list \<Rightarrow> layout_plan \<Rightarrow> (layout_error + probe) option" where
  "ratify_probe handle shape p =
     (let source = concat (map tag_bytes [0..<unat (lp_source_elements p)]);
          blank = replicate (unat (lp_dest_elements p * ELEMENT)) POISON in
      plan_apply p source blank ELEMENT \<bind> (\<lambda>applied.
      case applied of Inl e \<Rightarrow> Some (Inl e) | Inr destination \<Rightarrow>
      for_each p \<bind> (\<lambda>visits.
      let pad_slots = map fst (filter is_padding visits) in
      if of_nat (length (filter (Not \<circ> is_padding) visits)) \<noteq> lp_source_elements p then
        Some (Inl (LayoutError_Record handle))
      else
      those (map (\<lambda>slot. slice_bytes destination (unat (slot * ELEMENT)) (unat ELEMENT)) pad_slots) \<bind> (\<lambda>padding.
      if list_ex (\<lambda>piece. piece \<noteq> replicate (unat ELEMENT) 0) padding then Some (Inl (LayoutError_Record handle))
      else if \<not> lp_padded p \<and> pad_slots \<noteq> [] then Some (Inl (LayoutError_Record handle))
      else
      plan_apply_inverse p destination (replicate (length source) POISON) ELEMENT \<bind> (\<lambda>inverted.
      case inverted of Inl e \<Rightarrow> Some (Inl e) | Inr back \<Rightarrow>
      if back \<noteq> source then Some (Inl (LayoutError_Record handle))
      else Some (Inr \<lparr>pb_shape = shape, pb_dest_elements = lp_dest_elements p, pb_padded = lp_padded p\<rparr>))))))"

fun ratify_probes :: "layout_morphism \<Rightarrow> u64 list list \<Rightarrow> (layout_error + probe list) option" where
  "ratify_probes m [] = Some (Inr [])"
| "ratify_probes m (shape # shapes) =
     (case morphism_plan m shape of
        Inl _ \<Rightarrow> ratify_probes m shapes
      | Inr p \<Rightarrow>
          ratify_probe (morphism_handle m) shape p \<bind> (\<lambda>probed.
          case probed of
            Inl e \<Rightarrow> Some (Inl e)
          | Inr pb \<Rightarrow> ratify_probes m shapes \<bind> (\<lambda>rest. Some (and_then rest (\<lambda>pbs. Inr (pb # pbs))))))"

definition ratify :: "layout_morphism \<Rightarrow> (layout_error + ratification) option" where
  "ratify m =
     (case layout_check m of
        Inl e \<Rightarrow> Some (Inl e)
      | Inr _ \<Rightarrow>
          probe_shapes m \<bind> (\<lambda>shapes.
          ratify_probes m shapes \<bind> (\<lambda>probed.
          Some (and_then probed (\<lambda>probes.
            if probes = [] then Inl (LayoutError_Record (morphism_handle m))
            else Inr \<lparr>rt_handle = morphism_handle m, rt_probes = probes\<rparr>)))))"


section \<open>The catalog\<close>

text \<open>The documents of the catalog are generated by the build and the deserialiser is serde's; both are
  parameters.\<close>

fun catalog_loop :: "(str \<Rightarrow> layout_morphism option) \<Rightarrow> (str \<times> str) list \<Rightarrow> (str \<times> layout_morphism) list \<Rightarrow>
    layout_error + (str \<times> layout_morphism) list" where
  "catalog_loop from_str [] out = Inr out"
| "catalog_loop from_str ((name, document) # docs) out =
     and_then (ok_or (from_str document) (LayoutError_Catalog name)) (\<lambda>m.
     and_then (layout_check m) (\<lambda>_.
       if map_of out (morphism_handle m) \<noteq> None then Inl (LayoutError_Catalog name)
       else catalog_loop from_str docs (bt_insert (morphism_handle m) m out)))"

definition layout_catalog :: "(str \<Rightarrow> layout_morphism option) \<Rightarrow> (str \<times> str) list \<Rightarrow>
    layout_error + (str \<times> layout_morphism) list" where
  "layout_catalog from_str docs =
     and_then (catalog_loop from_str docs []) (\<lambda>out.
       if map_of out DEFAULT_LAYOUT = None then Inl (LayoutError_Catalog ''spec/v2/layouts'') else Inr out)"

definition arrangement :: "(str \<Rightarrow> layout_morphism option) \<Rightarrow> (str \<times> str) list \<Rightarrow> str \<Rightarrow> layout_error + layout_morphism" where
  "arrangement from_str docs handle =
     and_then (layout_catalog from_str docs) (\<lambda>records. ok_or (map_of records handle) (LayoutError_Record handle))"

end
