(* ===== verification/Mixed_Radix.thy ===== *)
theory Mixed_Radix
  imports "HOL-Library.Multiset"
begin

text \<open>
  Mixed-radix numbers: digit lists under a list of extents, most significant first. The walk of an
  arrangement counts in such a system, an axis factors a coordinate in one, and the strides of a shape
  are the weights of one. A permutation of the extents permutes the digits.
\<close>

section \<open>Weights, values and digits\<close>

fun weights :: "nat list \<Rightarrow> nat list" where
  "weights [] = []"
| "weights (e # es) = prod_list es # weights es"

fun radix_value :: "nat list \<Rightarrow> nat list \<Rightarrow> nat" where
  "radix_value (e # es) (d # ds) = d * prod_list es + radix_value es ds"
| "radix_value _ _ = 0"

fun radix_digits :: "nat list \<Rightarrow> nat \<Rightarrow> nat list" where
  "radix_digits [] t = []"
| "radix_digits (e # es) t = (t div prod_list es) mod e # radix_digits es t"

abbreviation digits_ok :: "nat list \<Rightarrow> nat list \<Rightarrow> bool" where
  "digits_ok es ds \<equiv> list_all2 (<) ds es"

lemma length_weights [simp]: "length (weights es) = length es"
  by (induction es) simp_all

lemma length_radix_digits [simp]: "length (radix_digits es t) = length es"
  by (induction es) simp_all

lemma prod_list_pos: "(\<forall>e \<in> set es. 0 < e) \<Longrightarrow> 0 < prod_list (es :: nat list)"
  by (induction es) simp_all

lemma prod_list_dvd_le: "(\<forall>e \<in> set (xs @ ys). 0 < e) \<Longrightarrow> prod_list (ys :: nat list) \<le> prod_list (xs @ ys)"
  using prod_list_pos [of xs] by (simp add: Suc_leI)

lemma prod_list_member_le: "(\<forall>e \<in> set es. 0 < e) \<Longrightarrow> e \<in> set es \<Longrightarrow> e \<le> prod_list (es :: nat list)"
  using prod_list_pos by (induction es) (auto, metis One_nat_def Suc_leI mult.right_neutral mult_le_mono2,
      metis One_nat_def Suc_leI mult.commute mult.right_neutral mult_le_mono order_trans)

lemma prod_list_concat_le:
  "(\<forall>e \<in> set (concat gs). 0 < e) \<Longrightarrow> a < length gs \<Longrightarrow> prod_list (gs ! a) \<le> prod_list (concat gs :: nat list)"
proof (induction gs arbitrary: a)
  case (Cons g gs)
  have "0 < prod_list g" "0 < prod_list (concat gs)" using Cons.prems(1) by (auto intro!: prod_list_pos)
  then have le: "prod_list g \<le> prod_list g * prod_list (concat gs)" "prod_list (concat gs) \<le> prod_list g * prod_list (concat gs)"
    by simp_all
  show ?case
  proof (cases a)
    case 0
    then show ?thesis using le by simp
  next
    case (Suc b)
    then have "prod_list (gs ! b) \<le> prod_list (concat gs)" using Cons by simp
    also note le(2)
    finally show ?thesis using Suc by simp
  qed
qed simp

lemma digits_ok_radix_digits: "(\<forall>e \<in> set es. 0 < e) \<Longrightarrow> digits_ok es (radix_digits es t)"
  by (induction es) simp_all

lemma digits_ok_pos: "digits_ok es ds \<Longrightarrow> \<forall>e \<in> set es. 0 < e"
  by (auto simp: list_all2_conv_all_nth in_set_conv_nth) (metis gr_zeroI not_less_zero)

lemma radix_value_less: "digits_ok es ds \<Longrightarrow> radix_value es ds < prod_list es"
proof (induction es ds rule: radix_value.induct)
  case (1 e es d ds)
  then have "radix_value es ds < prod_list es" "Suc d \<le> e" by auto
  then have "d * prod_list es + radix_value es ds < Suc d * prod_list es" by simp
  also have "\<dots> \<le> e * prod_list es" using \<open>Suc d \<le> e\<close> by (rule mult_le_mono1)
  finally show ?case by simp
qed auto

lemma radix_digits_add: "(\<forall>e \<in> set es. 0 < e) \<Longrightarrow> radix_digits es (k * prod_list es + t) = radix_digits es t"
proof (induction es arbitrary: k)
  case (Cons e es)
  have pos: "0 < prod_list es" using Cons.prems prod_list_pos by simp
  have "(k * (e * prod_list es) + t) div prod_list es = k * e + t div prod_list es"
    using pos by (metis div_mult_self3 mult.assoc less_not_refl2)
  moreover have "radix_digits es (k * e * prod_list es + t) = radix_digits es t" using Cons by simp
  ultimately show ?case by (simp add: mult.assoc)
qed simp

lemma radix_digits_value: "digits_ok es ds \<Longrightarrow> radix_digits es (radix_value es ds) = ds"
proof (induction es ds rule: radix_value.induct)
  case (1 e es d ds)
  then have ok: "digits_ok es ds" "d < e" by auto
  then have less: "radix_value es ds < prod_list es" by (simp add: radix_value_less)
  then have "(d * prod_list es + radix_value es ds) div prod_list es = d" by simp
  moreover have "radix_digits es (d * prod_list es + radix_value es ds) = ds"
    using 1 ok radix_digits_add [OF digits_ok_pos [OF ok(1)]] by simp
  ultimately show ?case using ok(2) by simp
qed auto

lemma radix_value_digits: "(\<forall>e \<in> set es. 0 < e) \<Longrightarrow> radix_value es (radix_digits es t) = t mod prod_list es"
proof (induction es)
  case (Cons e es)
  have "t mod (prod_list es * e) = prod_list es * (t div prod_list es mod e) + t mod prod_list es"
    by (rule mod_mult2_eq)
  then show ?case using Cons by (simp add: mult.commute)
qed simp

lemma radix_value_weights: "length ds = length es \<Longrightarrow> radix_value es ds = (\<Sum>i<length es. ds ! i * weights es ! i)"
  by (induction es ds rule: radix_value.induct) (simp_all add: sum.lessThan_Suc_shift del: sum.lessThan_Suc)


section \<open>Prefixes and the odometer\<close>

lemma radix_digits_append:
  assumes "\<forall>e \<in> set ys. 0 < e"
  shows "radix_digits (xs @ ys) t = radix_digits xs (t div prod_list ys) @ radix_digits ys t"
  by (induction xs) (simp_all add: div_mult2_eq [symmetric] mult.commute)

lemma radix_digits_split:
  assumes "\<forall>e \<in> set ys. 0 < e" "k < prod_list ys"
  shows "radix_digits (xs @ ys) (s * prod_list ys + k) = radix_digits xs s @ radix_digits ys k"
  using assms by (simp add: radix_digits_append radix_digits_add)

lemma radix_digits_snoc: "0 < e \<Longrightarrow> radix_digits (es @ [e]) t = radix_digits es (t div e) @ [t mod e]"
  by (simp add: radix_digits_append)

lemma radix_digits_Suc:
  assumes "0 < e"
  shows "radix_digits (es @ [e]) (Suc t) =
    (if t mod e + 1 < e then radix_digits es (t div e) @ [t mod e + 1] else radix_digits es (Suc (t div e)) @ [0])"
proof (cases "t mod e + 1 < e")
  case True
  then have "Suc t mod e = Suc (t mod e)" by (simp add: mod_Suc)
  then show ?thesis using assms True by (simp add: radix_digits_snoc div_Suc)
next
  case False
  then have "Suc (t mod e) = e" using mod_less_divisor [OF assms, of t] by linarith
  then show ?thesis using assms by (simp add: radix_digits_snoc div_Suc mod_Suc)
qed

lemma radix_digits_zero: "radix_digits es 0 = replicate (length es) 0"
  by (induction es) simp_all


section \<open>Groups of digits\<close>

fun digit_groups :: "nat list list \<Rightarrow> 'a list \<Rightarrow> 'a list list" where
  "digit_groups [] ds = []"
| "digit_groups (g # gs) ds = take (length g) ds # digit_groups gs (drop (length g) ds)"

lemma concat_digit_groups: "length ds = length (concat gs) \<Longrightarrow> concat (digit_groups gs ds) = ds"
  by (induction gs arbitrary: ds) simp_all

lemma length_digit_groups [simp]: "length (digit_groups gs ds) = length gs"
  by (induction gs arbitrary: ds) simp_all

lemma digit_groups_concat: "list_all2 (\<lambda>g ds. length ds = length g) gs dss \<Longrightarrow> digit_groups gs (concat dss) = dss"
  by (induction rule: list_all2_induct) simp_all

lemma digit_groups_ok: "digits_ok (concat gs) ds \<Longrightarrow> list_all2 digits_ok gs (digit_groups gs ds)"
proof (induction gs arbitrary: ds)
  case (Cons g gs)
  then have "digits_ok g (take (length g) ds)" "digits_ok (concat gs) (drop (length g) ds)"
    by (auto simp: list_all2_append2)
  then show ?case using Cons by simp
qed simp

lemma concat_ok: "list_all2 digits_ok gs dss \<Longrightarrow> digits_ok (concat gs) (concat dss)"
  by (induction rule: list_all2_induct) (simp_all add: list_all2_appendI)

definition group_coords :: "nat list list \<Rightarrow> nat list \<Rightarrow> nat list" where
  "group_coords gs ds = map2 radix_value gs (digit_groups gs ds)"

definition group_digits :: "nat list list \<Rightarrow> nat list \<Rightarrow> nat list" where
  "group_digits gs coords = concat (map2 radix_digits gs coords)"

lemma length_group_coords [simp]: "length (group_coords gs ds) = length gs"
  by (simp add: group_coords_def)

lemma group_coords_less: "digits_ok (concat gs) ds \<Longrightarrow> list_all2 (<) (group_coords gs ds) (map prod_list gs)"
  using digit_groups_ok [of ds gs] unfolding group_coords_def
  by (auto simp: list_all2_conv_all_nth radix_value_less)

lemma group_digits_coords: "digits_ok (concat gs) ds \<Longrightarrow> group_digits gs (group_coords gs ds) = ds"
proof -
  assume ok: "digits_ok (concat gs) ds"
  have "map2 radix_digits gs (group_coords gs ds) = digit_groups gs ds"
    using digit_groups_ok [OF ok] unfolding group_coords_def
    by (auto simp: list_all2_conv_all_nth radix_digits_value intro!: nth_equalityI)
  then show ?thesis using ok by (simp add: group_digits_def concat_digit_groups list_all2_lengthD)
qed

lemma group_coords_digits:
  assumes "list_all2 (<) coords (map prod_list gs)" "\<forall>e \<in> set (concat gs). 0 < e"
  shows "group_coords gs (group_digits gs coords) = coords" "digits_ok (concat gs) (group_digits gs coords)"
proof -
  have len: "length coords = length gs" using assms(1) by (simp add: list_all2_lengthD)
  have pos: "\<forall>e \<in> set (gs ! i). 0 < e" if "i < length gs" for i using assms(2) that by auto
  have "list_all2 (\<lambda>g ds. length ds = length g) gs (map2 radix_digits gs coords)"
    using len by (auto simp: list_all2_conv_all_nth)
  then have "group_coords gs (group_digits gs coords) = map2 radix_value gs (map2 radix_digits gs coords)"
    by (simp add: group_coords_def group_digits_def digit_groups_concat)
  also have "\<dots> = coords"
    using assms(1) pos len by (auto simp: list_all2_conv_all_nth radix_value_digits intro!: nth_equalityI)
  finally show "group_coords gs (group_digits gs coords) = coords" .
  show "digits_ok (concat gs) (group_digits gs coords)"
    unfolding group_digits_def using pos len
    by (intro concat_ok) (auto simp: list_all2_conv_all_nth [of digits_ok] digits_ok_radix_digits)
qed


section \<open>Permuted digits\<close>

definition unpermute :: "nat list \<Rightarrow> 'a list \<Rightarrow> 'a list" where
  "unpermute perm ds = map (\<lambda>j. ds ! length (takeWhile (\<lambda>x. x \<noteq> j) perm)) [0..<length perm]"

abbreviation permutes :: "nat list \<Rightarrow> bool" where
  "permutes perm \<equiv> mset perm = mset [0..<length perm]"

lemma permutes_set: "permutes perm \<Longrightarrow> set perm = {..<length perm}" "permutes perm \<Longrightarrow> distinct perm"
  by (metis atLeast_upt mset_eq_setD) (metis distinct_upt mset_eq_imp_distinct_iff)

lemma permutes_nth: "permutes perm \<Longrightarrow> q < length perm \<Longrightarrow> perm ! q < length perm"
  using permutes_set(1) [of perm] nth_mem by blast

lemma takeWhile_distinct: "distinct perm \<Longrightarrow> q < length perm \<Longrightarrow> length (takeWhile (\<lambda>x. x \<noteq> perm ! q) perm) = q"
  by (induction perm arbitrary: q) (auto simp: nth_Cons split: nat.splits)

lemma unpermute_nth: "permutes perm \<Longrightarrow> q < length perm \<Longrightarrow> unpermute perm ds ! (perm ! q) = ds ! q"
  using permutes_nth [of perm q] takeWhile_distinct [OF permutes_set(2), of perm q] by (simp add: unpermute_def)

lemma length_unpermute [simp]: "length (unpermute perm ds) = length perm"
  by (simp add: unpermute_def)

lemma permutes_cases:
  assumes "permutes perm" "j < length perm"
  obtains q where "q < length perm" "perm ! q = j"
  using assms permutes_set(1) [of perm] by (metis in_set_conv_nth lessThan_iff)

lemma permute_unpermute: "permutes perm \<Longrightarrow> length ds = length perm \<Longrightarrow> map ((!) (unpermute perm ds)) perm = ds"
  by (rule nth_equalityI) (simp_all add: unpermute_nth)

lemma unpermute_permute: "permutes perm \<Longrightarrow> length ds = length perm \<Longrightarrow> unpermute perm (map ((!) ds) perm) = ds"
  by (rule nth_equalityI) (simp, metis length_unpermute nth_map permutes_cases unpermute_nth)

lemma permuted_ok:
  "permutes perm \<Longrightarrow> length es = length perm \<Longrightarrow> digits_ok (map ((!) es) perm) ds \<Longrightarrow> digits_ok es (unpermute perm ds)"
  unfolding list_all2_conv_all_nth
  by (metis length_map length_unpermute nth_map permutes_cases unpermute_nth)

lemma permute_ok: "permutes perm \<Longrightarrow> digits_ok es ds \<Longrightarrow> length es = length perm \<Longrightarrow> digits_ok (map ((!) es) perm) (map ((!) ds) perm)"
  using permutes_nth by (auto simp: list_all2_conv_all_nth)

lemma prod_permuted: "permutes perm \<Longrightarrow> length es = length perm \<Longrightarrow> prod_list (map ((!) es) perm) = prod_list (es :: nat list)"
proof -
  assume p: "permutes perm" "length es = length perm"
  have "mset (map ((!) es) perm) = image_mset ((!) es) (mset [0..<length perm])" using p(1) by simp
  also have "\<dots> = mset (map ((!) es) [0..<length es])" by (simp add: p(2))
  finally show ?thesis by (metis map_nth prod_mset_prod_list)
qed

lemma set_permuted: "permutes perm \<Longrightarrow> length es = length perm \<Longrightarrow> set (map ((!) es) perm) = set es"
  using permutes_set(1) [of perm] nth_image [of "length es" es] by (simp add: lessThan_atLeast0)

end
