(* ===== verification/Layout_Walk.thy ===== *)
theory Layout_Walk
  imports Layout_Morphism Mixed_Radix
begin

text \<open>
  What the walk of a plan visits. The reference is stated on numbers without wrap-around: a destination
  element has digits in storage order, these give digits per sub-axis, these a coordinate per logical
  axis, and coordinates inside the shape the source element. The walk over folded runs with its
  odometer visits exactly that, and the map is a bijection from the elements that are not padding to
  the source elements.
\<close>

section \<open>The reference\<close>

definition arranged :: "layout_plan \<Rightarrow> nat list list \<Rightarrow> bool" where
  "arranged p gs \<longleftrightarrow>
     length gs = length (lp_shape p) \<and>
     map unat (lp_extents p) = concat gs \<and> (\<forall>e \<in> set (concat gs). 0 < e) \<and> prod_list (concat gs) < 2 ^ 64 \<and>
     lp_axes p = concat (map (\<lambda>(a, g). replicate (length g) a) (enumerate 0 gs)) \<and>
     map unat (lp_within p) = concat (map weights gs) \<and>
     map unat (lp_logical_stride p) = weights (map unat (lp_shape p)) \<and>
     lp_src_stride p = map (\<lambda>at. lp_within p ! at * lp_logical_stride p ! (lp_axes p ! at)) [0..<length (lp_extents p)] \<and>
     list_all2 (\<lambda>d g. 0 < unat d \<and> unat d \<le> prod_list g) (lp_shape p) gs \<and>
     lp_padded_axis p = map2 (\<lambda>d g. unat d < prod_list g) (lp_shape p) gs \<and>
     (lp_padded p \<longleftrightarrow> True \<in> set (lp_padded_axis p)) \<and>
     permutes (lp_permutation p) \<and> length (lp_permutation p) = length (lp_extents p) \<and>
     unat (lp_dest_elements p) = prod_list (concat gs) \<and>
     unat (lp_source_elements p) = prod_list (map unat (lp_shape p))"

definition storage_radix :: "layout_plan \<Rightarrow> nat list" where
  "storage_radix p = map ((!) (map unat (lp_extents p))) (lp_permutation p)"

definition sub_digits :: "layout_plan \<Rightarrow> nat \<Rightarrow> nat list" where
  "sub_digits p t = unpermute (lp_permutation p) (radix_digits (storage_radix p) t)"

definition element_source :: "layout_plan \<Rightarrow> nat list list \<Rightarrow> nat \<Rightarrow> nat option" where
  "element_source p gs t =
     (let coords = group_coords gs (sub_digits p t) in
      if list_all2 (<) coords (map unat (lp_shape p)) then Some (radix_value (map unat (lp_shape p)) coords) else None)"

definition element_dest :: "layout_plan \<Rightarrow> nat list list \<Rightarrow> nat \<Rightarrow> nat" where
  "element_dest p gs x = radix_value (storage_radix p)
     (map ((!) (group_digits gs (radix_digits (map unat (lp_shape p)) x))) (lp_permutation p))"

lemma arranged_radix:
  assumes "arranged p gs"
  shows "length (concat gs) = length (lp_permutation p)" "prod_list (storage_radix p) = prod_list (concat gs)"
    "\<forall>e \<in> set (storage_radix p). 0 < e" "length (storage_radix p) = length (lp_permutation p)"
proof -
  have e: "map unat (lp_extents p) = concat gs" "permutes (lp_permutation p)"
    using assms by (simp_all add: arranged_def)
  have len: "length (concat gs) = length (lp_extents p)" by (metis e(1) length_map)
  then show len': "length (concat gs) = length (lp_permutation p)" using assms by (simp add: arranged_def)
  then show "prod_list (storage_radix p) = prod_list (concat gs)"
    using prod_permuted [OF e(2), of "concat gs"] by (simp add: storage_radix_def e(1))
  show "\<forall>e \<in> set (storage_radix p). 0 < e"
    using set_permuted [OF e(2), of "concat gs"] len' assms by (auto simp: storage_radix_def e(1) arranged_def)
qed (simp add: storage_radix_def)

lemma sub_digits_ok:
  assumes "arranged p gs"
  shows "digits_ok (concat gs) (sub_digits p t)"
proof -
  have e: "map unat (lp_extents p) = concat gs" "permutes (lp_permutation p)" "length (concat gs) = length (lp_permutation p)"
    using assms arranged_radix(1) [OF assms] by (simp_all add: arranged_def)
  have "digits_ok (map ((!) (concat gs)) (lp_permutation p)) (radix_digits (storage_radix p) t)"
    using digits_ok_radix_digits [OF arranged_radix(3) [OF assms]] by (simp add: storage_radix_def e(1))
  then show ?thesis unfolding sub_digits_def by (rule permuted_ok [OF e(2,3)])
qed

lemma arranged_dim:
  assumes "arranged p gs" "a < length (lp_shape p)"
  shows "0 < unat (lp_shape p ! a)" "unat (lp_shape p ! a) \<le> prod_list (gs ! a)"
    "lp_padded_axis p ! a \<longleftrightarrow> unat (lp_shape p ! a) < prod_list (gs ! a)"
proof -
  have "list_all2 (\<lambda>d g. 0 < unat d \<and> unat d \<le> prod_list g) (lp_shape p) gs"
    "lp_padded_axis p = map2 (\<lambda>d g. unat d < prod_list g) (lp_shape p) gs" "length gs = length (lp_shape p)"
    using assms(1) unfolding arranged_def by blast+
  then show "0 < unat (lp_shape p ! a)" "unat (lp_shape p ! a) \<le> prod_list (gs ! a)"
    "lp_padded_axis p ! a \<longleftrightarrow> unat (lp_shape p ! a) < prod_list (gs ! a)"
    using assms(2) by (simp_all add: list_all2_conv_all_nth)
qed

lemma arranged_lengths:
  assumes "arranged p gs"
  shows "length gs = length (lp_shape p)" "length (lp_axes p) = length (lp_extents p)"
    "length (lp_within p) = length (lp_extents p)" "length (lp_logical_stride p) = length (lp_shape p)"
    "length (lp_permutation p) = length (lp_extents p)" "length (lp_src_stride p) = length (lp_extents p)"
proof -
  have n: "length (lp_extents p) = length (concat gs)" using assms unfolding arranged_def by (metis length_map)
  have "length (concat (map (\<lambda>(a, g). replicate (length g) a) (enumerate k gs))) = length (concat gs)" for k
    by (induction gs arbitrary: k) simp_all
  then show "length (lp_axes p) = length (lp_extents p)" using assms n unfolding arranged_def by metis
  have "length (concat (map weights gs)) = length (concat gs)" by (induction gs) simp_all
  then show "length (lp_within p) = length (lp_extents p)" using assms n unfolding arranged_def by (metis length_map)
  have "map unat (lp_logical_stride p) = weights (map unat (lp_shape p))" using assms unfolding arranged_def by blast
  from arg_cong [OF this, of length] show "length (lp_logical_stride p) = length (lp_shape p)" by simp
  show "length gs = length (lp_shape p)" "length (lp_permutation p) = length (lp_extents p)"
    using assms unfolding arranged_def by blast+
  have "lp_src_stride p = map (\<lambda>at. lp_within p ! at * lp_logical_stride p ! (lp_axes p ! at)) [0..<length (lp_extents p)]"
    using assms unfolding arranged_def by blast
  then show "length (lp_src_stride p) = length (lp_extents p)" by (simp only: length_map length_upt minus_nat.diff_0)
qed

lemma shape_coords:
  assumes "arranged p gs" "list_all2 (<) coords (map unat (lp_shape p))"
  shows "list_all2 (<) coords (map prod_list gs)"
  unfolding list_all2_conv_all_nth
proof (intro conjI allI impI)
  show len: "length coords = length (map prod_list gs)"
    using list_all2_lengthD [OF assms(2)] arranged_lengths(1) [OF assms(1)] by simp
  fix a
  assume a: "a < length coords"
  then have "coords ! a < unat (lp_shape p ! a)" using list_all2_nthD [OF assms(2) a] list_all2_lengthD [OF assms(2)] by simp
  also have "\<dots> \<le> prod_list (gs ! a)" using arranged_dim(2) [OF assms(1)] a list_all2_lengthD [OF assms(2)] by simp
  finally show "coords ! a < map prod_list gs ! a" using a len by simp
qed

text \<open>Every source element has exactly one destination element.\<close>

lemma element_dest_inverse:
  assumes "arranged p gs" "x < prod_list (map unat (lp_shape p))"
  shows "element_source p gs (element_dest p gs x) = Some x" "element_dest p gs x < prod_list (concat gs)"
proof -
  let ?perm = "lp_permutation p" and ?shape = "map unat (lp_shape p)"
  let ?coords = "radix_digits ?shape x"
  have e: "map unat (lp_extents p) = concat gs" "permutes ?perm" "length (concat gs) = length ?perm"
    using assms(1) arranged_radix(1) [OF assms(1)] by (simp_all add: arranged_def)
  have pos: "\<forall>e \<in> set ?shape. 0 < e" using arranged_dim(1) [OF assms(1)] by (auto simp: in_set_conv_nth)
  have coords: "list_all2 (<) ?coords ?shape" using pos by (rule digits_ok_radix_digits)
  note g = group_coords_digits [OF shape_coords [OF assms(1) coords]]
  have gpos: "\<forall>e \<in> set (concat gs). 0 < e" using assms(1) by (simp add: arranged_def)
  have ok: "digits_ok (storage_radix p) (map ((!) (group_digits gs ?coords)) ?perm)"
    using permute_ok [OF e(2) g(2) [OF gpos] e(3)] by (simp add: storage_radix_def e(1))
  have len: "length (group_digits gs ?coords) = length ?perm" using list_all2_lengthD [OF g(2) [OF gpos]] e(3) by simp
  have "sub_digits p (element_dest p gs x) = group_digits gs ?coords"
    by (simp add: sub_digits_def element_dest_def radix_digits_value [OF ok] unpermute_permute [OF e(2) len])
  then show "element_source p gs (element_dest p gs x) = Some x"
    using g(1) [OF gpos] coords radix_value_digits [OF pos, of x] assms(2) by (simp add: element_source_def)
  show "element_dest p gs x < prod_list (concat gs)"
    unfolding element_dest_def using radix_value_less [OF ok] arranged_radix(2) [OF assms(1)] by simp
qed

lemma element_source_inverse:
  assumes "arranged p gs" "t < prod_list (concat gs)" "element_source p gs t = Some x"
  shows "x < prod_list (map unat (lp_shape p))" "element_dest p gs x = t"
proof -
  let ?perm = "lp_permutation p" and ?shape = "map unat (lp_shape p)"
  let ?coords = "group_coords gs (sub_digits p t)"
  have perm: "permutes ?perm" using assms(1) by (simp add: arranged_def)
  have c: "list_all2 (<) ?coords ?shape" "x = radix_value ?shape ?coords"
    using assms(3) by (auto simp: element_source_def Let_def split: if_splits)
  then show "x < prod_list ?shape" by (simp add: radix_value_less)
  have "group_digits gs (radix_digits ?shape x) = sub_digits p t"
    by (simp add: c(2) radix_digits_value [OF c(1)] group_digits_coords [OF sub_digits_ok [OF assms(1)]])
  moreover have "map ((!) (sub_digits p t)) ?perm = radix_digits (storage_radix p) t"
    unfolding sub_digits_def by (rule permute_unpermute [OF perm]) (simp add: arranged_radix(4) [OF assms(1)])
  ultimately show "element_dest p gs x = t"
    using radix_value_digits [OF arranged_radix(3) [OF assms(1)], of t] assms(2) arranged_radix(2) [OF assms(1)]
    by (simp add: element_dest_def)
qed


section \<open>Coordinates as sums over the sub-axes\<close>

definition group_axes :: "nat \<Rightarrow> 'a list list \<Rightarrow> nat list" where
  "group_axes k gs = concat (map (\<lambda>(a, g). replicate (length g) a) (enumerate k gs))"

definition axis_sum :: "nat list \<Rightarrow> nat list \<Rightarrow> nat list \<Rightarrow> nat \<Rightarrow> nat" where
  "axis_sum axes ds ws a = (\<Sum>(x, d, w) \<leftarrow> zip axes (zip ds ws). if x = a then d * w else 0)"

lemma group_axes_simps [simp]:
  "group_axes k [] = []" "group_axes k (g # gs) = replicate (length g) k @ group_axes (Suc k) gs"
  by (simp_all add: group_axes_def)

lemma set_group_axes: "set (group_axes k gs) \<subseteq> {k..<k + length gs}"
  by (induction gs arbitrary: k) fastforce+

lemma length_group_axes [simp]: "length (group_axes k gs) = length (concat gs)"
  by (induction gs arbitrary: k) simp_all

lemma axis_sum_append:
  "length axes = length ds \<Longrightarrow> length ds = length ws \<Longrightarrow>
   axis_sum (axes @ axes') (ds @ ds') (ws @ ws') a = axis_sum axes ds ws a + axis_sum axes' ds' ws' a"
  by (simp add: axis_sum_def)

lemma axis_sum_other: "a \<notin> set axes \<Longrightarrow> axis_sum axes ds ws a = 0"
  by (auto simp: axis_sum_def dest!: set_zip_leftD intro!: sum_list_0 [THEN trans [rotated]] arg_cong [where f = sum_list]
      map_cong)

lemma axis_sum_group: "length ds = length g \<Longrightarrow> axis_sum (replicate (length g) k) ds (weights g) k = radix_value g ds"
  by (induction g ds rule: radix_value.induct) (simp_all add: axis_sum_def)

lemma group_coords_sum:
  "length ds = length (concat gs) \<Longrightarrow> a < length gs \<Longrightarrow>
   group_coords gs ds ! a = axis_sum (group_axes k gs) ds (concat (map weights gs)) (k + a)"
proof (induction gs arbitrary: ds a k)
  case (Cons g gs)
  let ?first = "take (length g) ds" and ?rest = "drop (length g) ds"
  have len: "length ?first = length g" "length ?rest = length (concat gs)" using Cons.prems by simp_all
  have "axis_sum (group_axes k (g # gs)) (?first @ ?rest) (concat (map weights (g # gs))) (k + a) =
      axis_sum (replicate (length g) k) ?first (weights g) (k + a) +
      axis_sum (group_axes (Suc k) gs) ?rest (concat (map weights gs)) (k + a)"
    using axis_sum_append [of "replicate (length g) k" ?first "weights g"] len(1)
    by (simp only: group_axes_simps list.map concat.simps length_replicate length_weights)
  moreover have "axis_sum (group_axes (Suc k) gs) ?rest (concat (map weights gs)) k = 0"
    using set_group_axes [of "Suc k" gs] by (intro axis_sum_other) auto
  ultimately show ?case
    using Cons.IH [OF len(2), of "a - 1" "Suc k"] Cons.prems axis_sum_group [OF len(1)]
    by (cases a) (simp_all add: group_coords_def axis_sum_other)
qed simp

lemma axis_sum_nth:
  assumes "length ds = length axes" "length ws = length axes"
  shows "axis_sum axes ds ws a = (\<Sum>j<length axes. if axes ! j = a then ds ! j * ws ! j else 0)"
  using assms by (simp add: axis_sum_def sum_list_sum_nth atLeast0LessThan)

text \<open>The coordinates that the walk keeps, in wrapping arithmetic.\<close>

definition coords_of :: "layout_plan \<Rightarrow> u64 list \<Rightarrow> u64 list" where
  "coords_of p counters = map (\<lambda>a. \<Sum>j<length (lp_extents p). if lp_axes p ! j = a then counters ! j * lp_within p ! j else 0)
     [0..<length (lp_shape p)]"

lemma arranged_axes:
  assumes "arranged p gs"
  shows "lp_axes p = group_axes 0 gs" "j < length (lp_extents p) \<Longrightarrow> lp_axes p ! j < length (lp_shape p)"
proof -
  show axes: "lp_axes p = group_axes 0 gs" using assms unfolding arranged_def group_axes_def by blast
  assume "j < length (lp_extents p)"
  then have "lp_axes p ! j \<in> set (lp_axes p)" using arranged_lengths(2) [OF assms] by simp
  then show "lp_axes p ! j < length (lp_shape p)"
    using set_group_axes [of 0 gs] arranged_lengths(1) [OF assms] unfolding axes by auto
qed

lemma group_coords_nth:
  assumes "arranged p gs" "length ds = length (lp_extents p)" "a < length (lp_shape p)"
  shows "group_coords gs ds ! a = (\<Sum>j<length (lp_extents p). if lp_axes p ! j = a then ds ! j * unat (lp_within p ! j) else 0)"
proof -
  note len = arranged_lengths [OF assms(1)]
  have c: "length (concat gs) = length (lp_extents p)" using arranged_radix(1) [OF assms(1)] len(5) by simp
  have w: "concat (map weights gs) = map unat (lp_within p)" using assms(1) unfolding arranged_def by metis
  have "group_coords gs ds ! a = axis_sum (lp_axes p) ds (map unat (lp_within p)) a"
    using group_coords_sum [of ds gs a 0] assms(2,3) c len(1) by (simp add: w arranged_axes(1) [OF assms(1)])
  also have "\<dots> = (\<Sum>j<length (lp_extents p). if lp_axes p ! j = a then ds ! j * map unat (lp_within p) ! j else 0)"
    using assms(2) len by (simp add: axis_sum_nth)
  also have "\<dots> = (\<Sum>j<length (lp_extents p). if lp_axes p ! j = a then ds ! j * unat (lp_within p ! j) else 0)"
    using len(3) by (intro sum.cong) auto
  finally show ?thesis .
qed

lemma coords_of_nat:
  assumes "arranged p gs" "length ds = length (lp_extents p)"
  shows "coords_of p (map of_nat ds) = map of_nat (group_coords gs ds)"
proof (rule nth_equalityI)
  show "length (coords_of p (map of_nat ds)) = length (map of_nat (group_coords gs ds))"
    by (simp add: coords_of_def arranged_lengths(1) [OF assms(1)])
  fix a
  assume "a < length (coords_of p (map of_nat ds))"
  then have a: "a < length (lp_shape p)" by (simp add: coords_of_def)
  have "of_nat (if lp_axes p ! j = a then ds ! j * unat (lp_within p ! j) else 0) =
      (if lp_axes p ! j = a then map of_nat ds ! j * lp_within p ! j else 0)" if "j < length (lp_extents p)" for j
    using that assms(2) by simp
  then have "of_nat (group_coords gs ds ! a) =
      (\<Sum>j<length (lp_extents p). if lp_axes p ! j = a then map of_nat ds ! j * lp_within p ! j else 0)"
    unfolding group_coords_nth [OF assms a] of_nat_sum by (intro sum.cong) auto
  then show "coords_of p (map of_nat ds) ! a = map of_nat (group_coords gs ds) ! a"
    using a arranged_lengths(1) [OF assms(1)] by (simp add: coords_of_def)
qed

lemma coords_of_update:
  assumes "at < length (lp_extents p)" "length counters = length (lp_extents p)" "lp_axes p ! at < length (lp_shape p)"
  shows "coords_of p (counters[at := v]) =
    (coords_of p counters)[lp_axes p ! at := coords_of p counters ! (lp_axes p ! at) + (v - counters ! at) * lp_within p ! at]"
proof (rule nth_equalityI)
  fix a
  assume "a < length (coords_of p (counters[at := v]))"
  then have a: "a < length (lp_shape p)" by (simp add: coords_of_def)
  let ?f = "\<lambda>cs j. if lp_axes p ! j = a then cs ! j * lp_within p ! j else 0"
  have split: "(\<Sum>j<length (lp_extents p). ?f cs j) = ?f cs at + (\<Sum>j\<in>{..<length (lp_extents p)} - {at}. ?f cs j)" for cs
    using assms(1) by (simp add: sum.remove)
  have "(\<Sum>j\<in>{..<length (lp_extents p)} - {at}. ?f (counters[at := v]) j) =
      (\<Sum>j\<in>{..<length (lp_extents p)} - {at}. ?f counters j)"
    by (intro sum.cong) auto
  then have "(\<Sum>j<length (lp_extents p). ?f (counters[at := v]) j) =
      (\<Sum>j<length (lp_extents p). ?f counters j) + (if lp_axes p ! at = a then (v - counters ! at) * lp_within p ! at else 0)"
    unfolding split [of counters] split [of "counters[at := v]"] using assms(1,2) by (simp add: algebra_simps)
  then show "coords_of p (counters[at := v]) ! a =
    (coords_of p counters)[lp_axes p ! at := coords_of p counters ! (lp_axes p ! at) + (v - counters ! at) * lp_within p ! at] ! a"
    using a assms(3) by (auto simp: coords_of_def nth_list_update)
qed (simp add: coords_of_def)

end
