(* ===== verification/Layout_Runs.thy ===== *)
theory Layout_Runs
  imports Layout_Walk
begin

text \<open>
  The walk of the code against the reference: the folded run, the odometer, and the source element of a
  run. Together they say that the walk visits the destination elements in order, each with its source.
\<close>

section \<open>The odometer\<close>

lemma sub_axis_at_arranged:
  assumes "arranged p gs" "q < length (lp_extents p)"
  shows "sub_axis_at p q = Some (lp_permutation p ! q)" "lp_permutation p ! q < length (lp_extents p)"
    "storage_radix p ! q = unat (lp_extents p ! (lp_permutation p ! q))"
proof -
  have perm: "permutes (lp_permutation p)" "length (lp_permutation p) = length (lp_extents p)"
    using assms(1) unfolding arranged_def by blast+
  show at: "lp_permutation p ! q < length (lp_extents p)" using permutes_nth [OF perm(1)] assms(2) perm(2) by simp
  then show "sub_axis_at p q = Some (lp_permutation p ! q)" using assms(2) perm(2) by (simp add: sub_axis_at_def)
  show "storage_radix p ! q = unat (lp_extents p ! (lp_permutation p ! q))"
    using assms(2) perm(2) at by (simp add: storage_radix_def)
qed

definition counts_to :: "layout_plan \<Rightarrow> nat \<Rightarrow> nat \<Rightarrow> u64 list \<Rightarrow> bool" where
  "counts_to p k s counters \<longleftrightarrow> length counters = length (lp_extents p) \<and>
     (\<forall>q<k. unat (counters ! (lp_permutation p ! q)) = radix_digits (take k (storage_radix p)) s ! q)"

lemma odometer_counts:
  assumes "arranged p gs" "k \<le> length (lp_extents p)" "counts_to p k s counters"
  shows "\<exists>counters'. odometer p k counters (coords_of p counters) = Some (counters', coords_of p counters') \<and>
    counts_to p k (Suc s) counters' \<and>
    (\<forall>q. k \<le> q \<longrightarrow> q < length (lp_extents p) \<longrightarrow> counters' ! (lp_permutation p ! q) = counters ! (lp_permutation p ! q))"
  using assms(2,3)
proof (induction k arbitrary: s counters)
  case 0
  then show ?case by (simp add: counts_to_def)
next
  case (Suc k)
  let ?perm = "lp_permutation p" and ?R = "storage_radix p"
  define at where "at = ?perm ! k"
  define e where "e = unat (lp_extents p ! at)"
  have k: "k < length (lp_extents p)" using Suc.prems by simp
  note sub = sub_axis_at_arranged [OF assms(1) k, folded at_def, folded e_def]
  have len: "length counters = length (lp_extents p)" using Suc.prems by (simp add: counts_to_def)
  have perm: "distinct ?perm" "length ?perm = length (lp_extents p)"
    using assms(1) permutes_set(2) [of ?perm] unfolding arranged_def by blast+
  have axis: "lp_axes p ! at < length (lp_shape p)" by (rule arranged_axes(2) [OF assms(1) sub(2)])
  have R: "take (Suc k) ?R = take k ?R @ [e]"
    using k arranged_radix(4) [OF assms(1)] perm(2) by (simp add: take_Suc_conv_app_nth sub(3))
  have e: "0 < e" using arranged_radix(3) [OF assms(1)] sub(3) k arranged_radix(4) [OF assms(1)] perm(2) by (metis nth_mem)
  have lk: "length (radix_digits (take k ?R) t) = k" for t using k arranged_radix(4) [OF assms(1)] perm(2) by simp
  have at_digit: "unat (counters ! at) = s mod e"
    and before: "\<And>q. q < k \<Longrightarrow> unat (counters ! (?perm ! q)) = radix_digits (take k ?R) (s div e) ! q"
    using Suc.prems(2) unfolding counts_to_def R radix_digits_snoc [OF e]
    by (auto simp: at_def nth_append lk less_Suc_eq simp del: length_radix_digits)
  have other: "?perm ! q \<noteq> at" if "q < length (lp_extents p)" "q \<noteq> k" for q
    using that k perm nth_eq_iff_index_eq [of ?perm q k] by (auto simp: at_def)
  have keep: "counters[at := v] ! (?perm ! q) = counters ! (?perm ! q)" if "q < k" for q v
    using that other [of q] k by (metis less_trans nat_neq_iff nth_list_update_neq)
  have "e < 2 ^ 64" unfolding e_def using unsigned_less [of "lp_extents p ! at", where 'a = nat] by simp
  then have succ: "unat (counters ! at + 1) = s mod e + 1"
    using at_digit mod_less_divisor [OF e, of s] by (simp add: unat_word_ariths)
  have digits: "radix_digits (take (Suc k) ?R) (Suc s) = (if s mod e + 1 < e
      then radix_digits (take k ?R) (s div e) @ [s mod e + 1] else radix_digits (take k ?R) (Suc (s div e)) @ [0])"
    unfolding R by (rule radix_digits_Suc [OF e])
  note upd = coords_of_update [OF sub(2) len axis]
  have lc: "lp_axes p ! at < length (coords_of p counters)" using axis by (simp add: coords_of_def)
  show ?case
  proof (cases "s mod e + 1 < e")
    case True
    let ?c = "counters[at := counters ! at + 1]"
    have "odometer p (Suc k) counters (coords_of p counters) = Some (?c, coords_of p ?c)"
      using True succ sub(1) by (simp add: at_def [symmetric] e_def word_less_nat_alt upd Let_def)
    moreover have "counts_to p (Suc k) (Suc s) ?c"
      unfolding counts_to_def digits using True before k succ len sub(2)
      by (auto simp: nth_append lk less_Suc_eq at_def [symmetric] keep simp del: length_radix_digits)
    moreover have "\<forall>q. Suc k \<le> q \<longrightarrow> q < length (lp_extents p) \<longrightarrow> ?c ! (?perm ! q) = counters ! (?perm ! q)"
      using other by (metis Suc_n_not_le_n nth_list_update_neq)
    ultimately show ?thesis by blast
  next
    case False
    let ?c = "counters[at := 0]"
    have "counts_to p k (s div e) ?c"
      unfolding counts_to_def using before len by (auto simp: keep)
    from Suc.IH [OF _ this] k obtain c' where c': "odometer p k ?c (coords_of p ?c) = Some (c', coords_of p c')"
      "counts_to p k (Suc (s div e)) c'"
      "\<forall>q. k \<le> q \<longrightarrow> q < length (lp_extents p) \<longrightarrow> c' ! (?perm ! q) = ?c ! (?perm ! q)" by auto
    have "odometer p (Suc k) counters (coords_of p counters) = odometer p k ?c (coords_of p ?c)"
      using False succ sub(1) lc by (simp add: at_def [symmetric] e_def word_less_nat_alt upd Let_def algebra_simps)
    moreover have "c' ! at = 0" using c'(3) k len sub(2) by (auto simp: at_def)
    then have "counts_to p (Suc k) (Suc s) c'"
      using c'(2) False unfolding counts_to_def digits by (auto simp: nth_append lk less_Suc_eq at_def [symmetric] simp del: length_radix_digits)
    moreover have "\<forall>q. Suc k \<le> q \<longrightarrow> q < length (lp_extents p) \<longrightarrow> c' ! (?perm ! q) = counters ! (?perm ! q)"
      using c'(3) other by (metis Suc_leD Suc_n_not_le_n nth_list_update_neq)
    ultimately show ?thesis using c'(1) by metis
  qed
qed

text \<open>The counters at a step of the walk: digits on the outer positions, zero on the folded ones.\<close>

definition step_counters :: "layout_plan \<Rightarrow> nat \<Rightarrow> nat \<Rightarrow> nat list" where
  "step_counters p outer s = unpermute (lp_permutation p)
     (radix_digits (take outer (storage_radix p)) s @ replicate (length (lp_extents p) - outer) 0)"

lemma radix_digit_less:
  assumes "\<And>e. e \<in> set es \<Longrightarrow> 0 < e \<and> e < 2 ^ 64" "i < length es"
  shows "radix_digits es t ! i < 2 ^ 64"
proof -
  have "digits_ok es (radix_digits es t)" using assms(1) by (intro digits_ok_radix_digits) blast
  then have "radix_digits es t ! i < es ! i" using assms(2) by (simp add: list_all2_conv_all_nth)
  also have "es ! i < 2 ^ 64" using assms by simp
  finally show ?thesis .
qed

lemma storage_radix_bound:
  assumes "arranged p gs" "e \<in> set (storage_radix p)"
  shows "0 < e \<and> e < 2 ^ 64"
proof -
  have "e \<le> prod_list (storage_radix p)" by (rule prod_list_member_le [OF arranged_radix(3) [OF assms(1)] assms(2)])
  moreover have "prod_list (concat gs) < 2 ^ 64" using assms(1) unfolding arranged_def by blast
  ultimately show ?thesis using arranged_radix(2,3) [OF assms(1)] assms(2) by simp
qed

lemma step_counters_nth:
  assumes "arranged p gs" "outer \<le> length (lp_extents p)" "q < length (lp_extents p)"
  shows "step_counters p outer s ! (lp_permutation p ! q) =
    (if q < outer then radix_digits (take outer (storage_radix p)) s ! q else 0)"
proof -
  have perm: "permutes (lp_permutation p)" "length (lp_permutation p) = length (lp_extents p)"
    using assms(1) unfolding arranged_def by blast+
  then show ?thesis using assms arranged_radix(4) [OF assms(1)]
    by (simp add: step_counters_def unpermute_nth nth_append min_def)
qed

lemma length_step_counters: "arranged p gs \<Longrightarrow> length (step_counters p outer s) = length (lp_extents p)"
  by (simp add: step_counters_def arranged_lengths(5))

lemma step_counters_counts:
  assumes "arranged p gs" "outer \<le> length (lp_extents p)"
  shows "counts_to p outer s (map of_nat (step_counters p outer s))"
  unfolding counts_to_def
proof (intro conjI allI impI)
  show "length (map of_nat (step_counters p outer s)) = length (lp_extents p)"
    by (simp add: length_step_counters [OF assms(1)])
  fix q
  assume q: "q < outer"
  then have "radix_digits (take outer (storage_radix p)) s ! q < 2 ^ 64"
    using storage_radix_bound [OF assms(1)] assms(2) arranged_radix(4) [OF assms(1)] arranged_lengths(5) [OF assms(1)]
    by (intro radix_digit_less) (auto dest: in_set_takeD)
  then show "unat (map of_nat (step_counters p outer s) ! (lp_permutation p ! q) :: u64) =
      radix_digits (take outer (storage_radix p)) s ! q"
    using step_counters_nth [OF assms, of q s] sub_axis_at_arranged(2) [OF assms(1), of q] q assms(2)
    by (simp add: length_step_counters [OF assms(1)] unat_of_nat)
qed

lemma odometer_step:
  assumes "arranged p gs" "outer \<le> length (lp_extents p)"
  shows "odometer p outer (map of_nat (step_counters p outer s)) (coords_of p (map of_nat (step_counters p outer s))) =
    Some (map of_nat (step_counters p outer (Suc s)), coords_of p (map of_nat (step_counters p outer (Suc s))))"
proof -
  let ?n = "length (lp_extents p)" and ?perm = "lp_permutation p"
  obtain c where c: "odometer p outer (map of_nat (step_counters p outer s))
      (coords_of p (map of_nat (step_counters p outer s))) = Some (c, coords_of p c)"
    "counts_to p outer (Suc s) c" "\<forall>q. outer \<le> q \<longrightarrow> q < ?n \<longrightarrow> c ! (?perm ! q) = map of_nat (step_counters p outer s) ! (?perm ! q)"
    using odometer_counts [OF assms step_counters_counts [OF assms]] by blast
  have perm: "permutes ?perm" "length ?perm = ?n" using assms(1) unfolding arranged_def by blast+
  have "c = map of_nat (step_counters p outer (Suc s))"
  proof (rule nth_equalityI)
    show "length c = length (map of_nat (step_counters p outer (Suc s)))"
      using c(2) by (simp add: counts_to_def length_step_counters [OF assms(1)])
    fix j
    assume "j < length c"
    then have j: "j < ?n" using c(2) by (simp add: counts_to_def)
    then obtain q where q: "q < ?n" "?perm ! q = j" using permutes_cases [OF perm(1), of j] perm(2) by metis
    show "c ! j = map of_nat (step_counters p outer (Suc s)) ! j"
    proof (cases "q < outer")
      case True
      have "unat (c ! j) = radix_digits (take outer (storage_radix p)) (Suc s) ! q"
        using c(2) True q(2) by (auto simp: counts_to_def)
      then have "c ! j = of_nat (radix_digits (take outer (storage_radix p)) (Suc s) ! q)" by (metis of_nat_unat ucast_id)
      then show ?thesis using step_counters_nth [OF assms q(1), of "Suc s"] True q j by (simp add: length_step_counters [OF assms(1)])
    next
      case False
      then have "c ! j = map of_nat (step_counters p outer s) ! j" using c(3) q by auto
      then show ?thesis
        using False q j step_counters_nth [OF assms q(1)] by (simp add: length_step_counters [OF assms(1)])
    qed
  qed
  then show ?thesis using c(1) by simp
qed

lemma run_steps_arranged:
  assumes "arranged p gs" "outer \<le> length (lp_extents p)"
  shows "run_steps p run outer m (of_nat s) (map of_nat (step_counters p outer s))
      (coords_of p (map of_nat (step_counters p outer s))) =
    Some (map (\<lambda>i. (of_nat i * run, run_source (coords_of p (map of_nat (step_counters p outer i))) (lp_shape p)
      (lp_logical_stride p) 0, run)) [s..<s + m])"
proof (induction m arbitrary: s)
  case (Suc m)
  have "of_nat s + 1 = (of_nat (Suc s) :: u64)" by simp
  then have rest: "run_steps p run outer m (of_nat s + 1) (map of_nat (step_counters p outer (Suc s)))
      (coords_of p (map of_nat (step_counters p outer (Suc s)))) =
    Some (map (\<lambda>i. (of_nat i * run, run_source (coords_of p (map of_nat (step_counters p outer i))) (lp_shape p)
      (lp_logical_stride p) 0, run)) [Suc s..<s + Suc m])"
    using Suc [of "Suc s"] by (simp only: add_Suc_shift)
  have "[s..<s + Suc m] = s # [Suc s..<s + Suc m]" by (simp only: upt_conv_Cons less_add_Suc1)
  then show ?case
    by (simp only: run_steps.simps odometer_step [OF assms] rest bind.bind_lunit prod.case list.map)
qed simp


section \<open>The folded run\<close>

definition folded_from :: "layout_plan \<Rightarrow> nat \<Rightarrow> bool" where
  "folded_from p k \<longleftrightarrow> (\<forall>q. k \<le> q \<longrightarrow> q < length (lp_extents p) \<longrightarrow>
     \<not> lp_padded_axis p ! (lp_axes p ! (lp_permutation p ! q)) \<and>
     lp_src_stride p ! (lp_permutation p ! q) = of_nat (prod_list (drop (Suc q) (storage_radix p))))"

lemma fold_run_arranged:
  assumes "arranged p gs" "k \<le> length (lp_extents p)" "folded_from p k"
  shows "\<exists>outer \<le> k. fold_run p k (of_nat (prod_list (drop k (storage_radix p)))) =
    Some (of_nat (prod_list (drop outer (storage_radix p))), outer) \<and> folded_from p outer"
  using assms(2,3)
proof (induction k)
  case (Suc k)
  let ?R = "storage_radix p" and ?at = "lp_permutation p ! k"
  have k: "k < length (lp_extents p)" using Suc.prems by simp
  note sub = sub_axis_at_arranged [OF assms(1) k]
  have drop: "drop k ?R = unat (lp_extents p ! ?at) # drop (Suc k) ?R"
    using k arranged_radix(4) [OF assms(1)] arranged_lengths(5) [OF assms(1)] sub(3) by (metis Cons_nth_drop_Suc)
  show ?case
  proof (cases "lp_padded_axis p ! (lp_axes p ! ?at) \<or> lp_src_stride p ! ?at \<noteq> of_nat (prod_list (drop (Suc k) ?R))")
    case True
    then show ?thesis using sub(1) Suc.prems(2) by (intro exI [of _ "Suc k"]) simp
  next
    case False
    have "folded_from p k"
      unfolding folded_from_def
    proof (intro allI impI)
      fix q
      assume q: "k \<le> q" "q < length (lp_extents p)"
      show "\<not> lp_padded_axis p ! (lp_axes p ! (lp_permutation p ! q)) \<and>
          lp_src_stride p ! (lp_permutation p ! q) = of_nat (prod_list (drop (Suc q) ?R))"
      proof (cases "q = k")
        case True
        then show ?thesis using False by blast
      next
        case False
        then show ?thesis using Suc.prems(2) q unfolding folded_from_def by simp
      qed
    qed
    from Suc.IH [OF _ this] k obtain outer where outer: "outer \<le> k"
      "fold_run p k (of_nat (prod_list (drop k ?R))) = Some (of_nat (prod_list (drop outer ?R)), outer)" "folded_from p outer"
      by auto
    have "of_nat (prod_list (drop (Suc k) ?R)) * lp_extents p ! ?at = of_nat (prod_list (drop k ?R))"
      unfolding drop by (simp add: mult.commute)
    then have "fold_run p (Suc k) (of_nat (prod_list (drop (Suc k) ?R))) = fold_run p k (of_nat (prod_list (drop k ?R)))"
      using False sub(1) by simp
    then show ?thesis using outer by (intro exI [of _ outer]) simp
  qed
qed simp

lemma run_source_sum:
  "length coord = length shape \<Longrightarrow> length strides = length shape \<Longrightarrow>
   run_source coord shape strides offset =
     (if list_all2 (<) coord shape then Some (offset + (\<Sum>a<length shape. coord ! a * strides ! a)) else None)"
proof (induction coord shape strides offset rule: run_source.induct)
  case (1 position coord dim shape stride strides offset)
  then show ?case
    by (auto simp: sum.lessThan_Suc_shift add.assoc simp del: sum.lessThan_Suc)
qed auto

text \<open>The source element as one linear form over the sub-axes.\<close>

definition linear_source :: "layout_plan \<Rightarrow> nat list \<Rightarrow> u64" where
  "linear_source p ds = (\<Sum>j<length (lp_extents p). of_nat (ds ! j) * lp_src_stride p ! j)"

lemma src_stride_nth:
  assumes "arranged p gs" "j < length (lp_extents p)"
  shows "lp_src_stride p ! j = lp_within p ! j * lp_logical_stride p ! (lp_axes p ! j)"
proof -
  have "lp_src_stride p = map (\<lambda>at. lp_within p ! at * lp_logical_stride p ! (lp_axes p ! at)) [0..<length (lp_extents p)]"
    using assms(1) unfolding arranged_def by blast
  from arg_cong [OF this, of "\<lambda>xs. xs ! j"] show ?thesis using assms(2) by simp
qed

lemma linear_source_coords:
  assumes "arranged p gs" "length ds = length (lp_extents p)"
  shows "linear_source p ds = (\<Sum>a<length (lp_shape p). of_nat (group_coords gs ds ! a) * lp_logical_stride p ! a)"
proof -
  let ?n = "length (lp_extents p)" and ?r = "length (lp_shape p)"
  have "(\<Sum>a<?r. of_nat (group_coords gs ds ! a) * lp_logical_stride p ! a) =
      (\<Sum>a<?r. \<Sum>j<?n. if lp_axes p ! j = a then of_nat (ds ! j) * lp_within p ! j * lp_logical_stride p ! a else 0)"
  proof (rule sum.cong [OF refl])
    fix a
    assume "a \<in> {..<?r}"
    then have "of_nat (group_coords gs ds ! a) = (\<Sum>j<?n. if lp_axes p ! j = a then of_nat (ds ! j) * lp_within p ! j else 0)"
      by (simp add: group_coords_nth [OF assms] of_nat_sum if_distrib [of of_nat] cong: if_cong)
    then show "of_nat (group_coords gs ds ! a) * lp_logical_stride p ! a =
        (\<Sum>j<?n. if lp_axes p ! j = a then of_nat (ds ! j) * lp_within p ! j * lp_logical_stride p ! a else 0)"
      by (simp add: sum_distrib_right if_distrib [of "\<lambda>x. x * _"] cong: if_cong)
  qed
  also have "\<dots> = (\<Sum>j<?n. \<Sum>a<?r. if lp_axes p ! j = a then of_nat (ds ! j) * lp_within p ! j * lp_logical_stride p ! a else 0)"
    by (rule sum.swap)
  also have "\<dots> = linear_source p ds"
    unfolding linear_source_def
    using arranged_axes(2) [OF assms(1)] src_stride_nth [OF assms(1)]
    by (intro sum.cong refl) (simp add: sum.delta mult.assoc)
  finally show ?thesis by (rule sym)
qed


section \<open>The elements of a run\<close>

lemma weights_nth: "i < length es \<Longrightarrow> weights es ! i = prod_list (drop (Suc i) es)"
  by (induction es arbitrary: i) (auto simp: nth_Cons split: nat.splits)

lemma sub_digits_split:
  assumes "arranged p gs" "outer \<le> length (lp_extents p)" "k < prod_list (drop outer (storage_radix p))"
    and "q < length (lp_extents p)"
  shows "sub_digits p (s * prod_list (drop outer (storage_radix p)) + k) ! (lp_permutation p ! q) =
    (if q < outer then radix_digits (take outer (storage_radix p)) s ! q
     else radix_digits (drop outer (storage_radix p)) k ! (q - outer))"
proof -
  let ?R = "storage_radix p"
  have pos: "\<forall>e \<in> set (drop outer ?R). 0 < e" using arranged_radix(3) [OF assms(1)] by (meson in_set_dropD)
  have perm: "permutes (lp_permutation p)" "length (lp_permutation p) = length (lp_extents p)"
    using assms(1) unfolding arranged_def by blast+
  have "radix_digits ?R (s * prod_list (drop outer ?R) + k) = radix_digits (take outer ?R) s @ radix_digits (drop outer ?R) k"
    using radix_digits_split [OF pos assms(3), of "take outer ?R" s] by simp
  then show ?thesis using assms(2,4) perm arranged_radix(4) [OF assms(1)]
    by (simp add: sub_digits_def unpermute_nth nth_append min_def)
qed

lemma length_sub_digits: "arranged p gs \<Longrightarrow> length (sub_digits p t) = length (lp_extents p)"
  by (simp add: sub_digits_def arranged_lengths(5))

lemma storage_run_pos: "arranged p gs \<Longrightarrow> 0 < prod_list (drop outer (storage_radix p))"
  using arranged_radix(3) by (meson in_set_dropD prod_list_pos)

lemma sub_digits_step:
  assumes "arranged p gs" "outer \<le> length (lp_extents p)"
  shows "sub_digits p (s * prod_list (drop outer (storage_radix p))) = step_counters p outer s"
proof (rule nth_equalityI)
  show "length (sub_digits p (s * prod_list (drop outer (storage_radix p)))) = length (step_counters p outer s)"
    by (simp add: length_sub_digits [OF assms(1)] length_step_counters [OF assms(1)])
  fix j
  assume "j < length (sub_digits p (s * prod_list (drop outer (storage_radix p))))"
  then have j: "j < length (lp_extents p)" by (simp add: length_sub_digits [OF assms(1)])
  have perm: "permutes (lp_permutation p)" "length (lp_permutation p) = length (lp_extents p)"
    using assms(1) unfolding arranged_def by blast+
  obtain q where q: "q < length (lp_extents p)" "lp_permutation p ! q = j" using permutes_cases [OF perm(1), of j] j perm(2) by metis
  have "outer \<le> length (storage_radix p)" using assms(2) arranged_radix(4) [OF assms(1)] perm(2) by simp
  then show "sub_digits p (s * prod_list (drop outer (storage_radix p))) ! j = step_counters p outer s ! j"
    using sub_digits_split [OF assms storage_run_pos [OF assms(1)] q(1), of s] step_counters_nth [OF assms q(1), of s] q
      arranged_radix(4) [OF assms(1)] perm(2)
    by (simp add: radix_digits_zero)
qed

lemma linear_source_permuted:
  assumes "arranged p gs"
  shows "linear_source p ds = (\<Sum>q<length (lp_extents p).
    of_nat (ds ! (lp_permutation p ! q)) * lp_src_stride p ! (lp_permutation p ! q))"
proof -
  have perm: "permutes (lp_permutation p)" "length (lp_permutation p) = length (lp_extents p)"
    using assms(1) unfolding arranged_def by blast+
  have "bij_betw ((!) (lp_permutation p)) {..<length (lp_extents p)} {..<length (lp_extents p)}"
    using bij_betw_nth [OF permutes_set(2) [OF perm(1)]] permutes_set(1) [OF perm(1)] perm(2) by simp
  from sum.reindex_bij_betw [OF this, of "\<lambda>j. of_nat (ds ! j) * lp_src_stride p ! j"]
  show ?thesis by (simp add: linear_source_def)
qed

lemma linear_source_run:
  assumes "arranged p gs" "outer \<le> length (lp_extents p)" "folded_from p outer" "k < prod_list (drop outer (storage_radix p))"
  shows "linear_source p (sub_digits p (s * prod_list (drop outer (storage_radix p)) + k)) =
    linear_source p (step_counters p outer s) + of_nat k"
proof -
  let ?R = "storage_radix p" and ?n = "length (lp_extents p)" and ?perm = "lp_permutation p"
  let ?inner = "drop outer ?R"
  define f where "f ds q = of_nat (ds ! (?perm ! q)) * lp_src_stride p ! (?perm ! q)" for ds q
  have lR: "length ?R = ?n" using arranged_radix(4) [OF assms(1)] arranged_lengths(5) [OF assms(1)] by simp
  have split: "linear_source p ds = (\<Sum>q\<in>{0..<outer}. f ds q) + (\<Sum>q\<in>{outer..<?n}. f ds q)" for ds
    unfolding linear_source_permuted [OF assms(1)] f_def [symmetric]
    using sum.atLeastLessThan_concat [of 0 outer ?n "f ds"] assms(2) by (simp add: atLeast0LessThan)
  let ?sub = "sub_digits p (s * prod_list ?inner + k)" and ?step = "step_counters p outer s"
  note sub = sub_digits_split [OF assms(1,2,4), of _ s] and step = step_counters_nth [OF assms(1,2), of _ s]
  have low: "(\<Sum>q\<in>{0..<outer}. f ?sub q) = (\<Sum>q\<in>{0..<outer}. f ?step q)"
    using assms(2) by (intro sum.cong refl) (simp add: f_def sub step)
  have zero: "(\<Sum>q\<in>{outer..<?n}. f ?step q) = 0" by (intro sum.neutral ballI) (simp add: f_def step)
  have "(\<Sum>q\<in>{outer..<?n}. f ?sub q) = (\<Sum>i<?n - outer. f ?sub (outer + i))"
    unfolding sum.atLeastLessThan_shift_0 [of "f ?sub" outer] by (simp only: comp_def atLeast0LessThan)
  also have "\<dots> = (\<Sum>i<?n - outer. of_nat (radix_digits ?inner k ! i * weights ?inner ! i))"
  proof (rule sum.cong [OF refl])
    fix i
    assume i: "i \<in> {..<?n - outer}"
    then have q: "outer + i < ?n" by auto
    have "lp_src_stride p ! (?perm ! (outer + i)) = of_nat (prod_list (drop (Suc (outer + i)) ?R))"
      using assms(3) q unfolding folded_from_def by simp
    moreover have "?sub ! (?perm ! (outer + i)) = radix_digits ?inner k ! i" using sub [OF q] by simp
    ultimately show "f ?sub (outer + i) = of_nat (radix_digits ?inner k ! i * weights ?inner ! i)"
      using i lR unfolding f_def by (simp add: weights_nth add.commute)
  qed
  also have "\<dots> = of_nat (radix_value ?inner (radix_digits ?inner k))"
    by (simp add: radix_value_weights lR)
  also have "\<dots> = of_nat k"
  proof -
    have "\<forall>e \<in> set ?inner. 0 < e" using arranged_radix(3) [OF assms(1)] by (meson in_set_dropD)
    then show ?thesis using assms(4) by (simp add: radix_value_digits)
  qed
  finally show ?thesis unfolding split low zero by simp
qed

text \<open>Inside a run only axes without padding move, so the run is inside the shape as a whole or not at
  all.\<close>

lemma run_inside:
  assumes "arranged p gs" "outer \<le> length (lp_extents p)" "folded_from p outer" "k < prod_list (drop outer (storage_radix p))"
  shows "list_all2 (<) (group_coords gs (sub_digits p (s * prod_list (drop outer (storage_radix p)) + k))) (map unat (lp_shape p)) \<longleftrightarrow>
    list_all2 (<) (group_coords gs (step_counters p outer s)) (map unat (lp_shape p))"
proof -
  let ?sub = "sub_digits p (s * prod_list (drop outer (storage_radix p)) + k)" and ?step = "step_counters p outer s"
  let ?n = "length (lp_extents p)" and ?perm = "lp_permutation p"
  have perm: "permutes ?perm" "length ?perm = ?n" using assms(1) unfolding arranged_def by blast+
  have len: "length ?sub = ?n" "length ?step = ?n" "length gs = length (lp_shape p)"
    using length_sub_digits [OF assms(1)] length_step_counters [OF assms(1)] arranged_lengths(1) [OF assms(1)] by simp_all
  have "group_coords gs ?sub ! a < unat (lp_shape p ! a) \<longleftrightarrow> group_coords gs ?step ! a < unat (lp_shape p ! a)"
    if a: "a < length (lp_shape p)" for a
  proof (cases "lp_padded_axis p ! a")
    case True
    have "?sub ! j = ?step ! j" if j: "j < ?n" "lp_axes p ! j = a" for j
    proof -
      obtain q where q: "q < ?n" "?perm ! q = j" using permutes_cases [OF perm(1), of j] j perm(2) by metis
      have "q < outer"
      proof (rule ccontr)
        assume "\<not> q < outer"
        then show False using assms(3) q True j unfolding folded_from_def by auto
      qed
      then show ?thesis using sub_digits_split [OF assms(1,2,4) q(1), of s] step_counters_nth [OF assms(1,2) q(1), of s] q by simp
    qed
    then have "group_coords gs ?sub ! a = group_coords gs ?step ! a"
      unfolding group_coords_nth [OF assms(1) len(1) a] group_coords_nth [OF assms(1) len(2) a]
      by (intro sum.cong) auto
    then show ?thesis by simp
  next
    case False
    have "group_coords gs (sub_digits p t) ! a < unat (lp_shape p ! a)" for t
    proof -
      have "group_coords gs (sub_digits p t) ! a < prod_list (gs ! a)"
        using group_coords_less [OF sub_digits_ok [OF assms(1)], of t] a len(3) by (simp add: list_all2_conv_all_nth)
      then show ?thesis using False arranged_dim(2,3) [OF assms(1) a] by simp
    qed
    then show ?thesis using sub_digits_step [OF assms(1,2), of s] by metis
  qed
  then show ?thesis using len(3) by (simp add: list_all2_conv_all_nth)
qed


lemma run_element:
  assumes "arranged p gs" "outer \<le> length (lp_extents p)" "folded_from p outer" "k < prod_list (drop outer (storage_radix p))"
  shows "map_option of_nat (element_source p gs (s * prod_list (drop outer (storage_radix p)) + k)) =
    map_option (\<lambda>i. i + of_nat k) (run_source (coords_of p (map of_nat (step_counters p outer s))) (lp_shape p) (lp_logical_stride p) 0)"
proof -
  let ?t = "s * prod_list (drop outer (storage_radix p)) + k" and ?step = "step_counters p outer s"
  note len = arranged_lengths [OF assms(1)]
  have coords: "coords_of p (map of_nat ?step) = map of_nat (group_coords gs ?step)"
    by (rule coords_of_nat [OF assms(1) length_step_counters [OF assms(1)]])
  have small: "group_coords gs ?step ! a < 2 ^ 64" if "a < length (lp_shape p)" for a
  proof -
    have "group_coords gs ?step ! a < prod_list (gs ! a)"
      using group_coords_less [OF sub_digits_ok [OF assms(1)]] sub_digits_step [OF assms(1,2), of s] that len(1)
      by (metis length_group_coords list_all2_nthD nth_map)
    also have "prod_list (gs ! a) \<le> prod_list (concat gs)"
      using assms(1) that len(1) unfolding arranged_def by (intro prod_list_concat_le) auto
    also have "\<dots> < 2 ^ 64" using assms(1) unfolding arranged_def by blast
    finally show ?thesis .
  qed
  have inside: "list_all2 (<) (map of_nat (group_coords gs ?step)) (lp_shape p) \<longleftrightarrow>
      list_all2 (<) (group_coords gs ?step) (map unat (lp_shape p))"
    using small len(1) by (simp add: list_all2_conv_all_nth word_less_nat_alt unat_of_nat)
  have linear: "(of_nat (radix_value (map unat (lp_shape p)) (group_coords gs ds)) :: u64) = linear_source p ds"
    if "length ds = length (lp_extents p)" for ds
  proof -
    have w: "weights (map unat (lp_shape p)) = map unat (lp_logical_stride p)" using assms(1) unfolding arranged_def by metis
    have "(of_nat (radix_value (map unat (lp_shape p)) (group_coords gs ds)) :: u64) =
        (\<Sum>a<length (lp_shape p). of_nat (group_coords gs ds ! a) * lp_logical_stride p ! a)"
      using len by (simp add: radix_value_weights w)
    then show ?thesis using linear_source_coords [OF assms(1) that] by simp
  qed
  have sum: "(\<Sum>a<length (lp_shape p). map of_nat (group_coords gs ?step) ! a * lp_logical_stride p ! a) = linear_source p ?step"
    using linear_source_coords [OF assms(1) length_step_counters [OF assms(1)]] len(1) by simp
  have "element_source p gs ?t = (if list_all2 (<) (group_coords gs ?step) (map unat (lp_shape p))
      then Some (radix_value (map unat (lp_shape p)) (group_coords gs (sub_digits p ?t))) else None)"
    by (simp only: element_source_def Let_def run_inside [OF assms])
  then have "map_option of_nat (element_source p gs ?t) = (if list_all2 (<) (group_coords gs ?step) (map unat (lp_shape p))
      then Some (linear_source p ?step + of_nat k) else None)"
    by (simp add: linear [OF length_sub_digits [OF assms(1)]] linear_source_run [OF assms])
  moreover have "run_source (coords_of p (map of_nat ?step)) (lp_shape p) (lp_logical_stride p) 0 =
      (if list_all2 (<) (group_coords gs ?step) (map unat (lp_shape p)) then Some (0 + linear_source p ?step) else None)"
    unfolding coords inside [symmetric] sum [symmetric] by (rule run_source_sum) (simp_all add: len)
  ultimately show ?thesis by simp
qed


section \<open>The walk is the reference\<close>

lemma concat_runs: "concat (map (\<lambda>s. map (\<lambda>k. f (s * r + k)) [0..<r]) [0..<m]) = map f [0..<m * r]"
proof (induction m)
  case (Suc m)
  have "map (\<lambda>k. f (m * r + k)) [0..<r] = map f [m * r..<m * r + r]"
    by (intro nth_equalityI) simp_all
  moreover have "[0..<Suc m * r] = [0..<m * r] @ [m * r..<m * r + r]"
    using upt_add_eq_append [of 0 "m * r" r] by (simp add: add.commute)
  ultimately show ?case using Suc by (simp only: upt_Suc_append map_append concat_append list.map concat.simps append_Nil2 le0)
qed simp

lemma for_each_run_arranged:
  assumes "arranged p gs"
  obtains outer where "outer \<le> length (lp_extents p)" "folded_from p outer"
    "for_each_run p = Some (map (\<lambda>s. (of_nat s * of_nat (prod_list (drop outer (storage_radix p))),
      run_source (coords_of p (map of_nat (step_counters p outer s))) (lp_shape p) (lp_logical_stride p) 0,
      of_nat (prod_list (drop outer (storage_radix p))))) [0..<prod_list (take outer (storage_radix p))])"
proof -
  let ?R = "storage_radix p" and ?n = "length (lp_extents p)"
  have lR: "length ?R = ?n" using arranged_radix(4) [OF assms] arranged_lengths(5) [OF assms] by simp
  have "folded_from p ?n" by (simp add: folded_from_def)
  from fold_run_arranged [OF assms order_refl this] obtain outer where outer: "outer \<le> ?n" "folded_from p outer"
    "fold_run p ?n 1 = Some (of_nat (prod_list (drop outer ?R)), outer)" by (auto simp: lR)
  let ?run = "prod_list (drop outer ?R)"
  have total: "prod_list (take outer ?R) * ?run = prod_list (concat gs)"
    using arranged_radix(2) [OF assms] by (metis append_take_drop_id prod_list.append)
  have D: "prod_list (concat gs) < 2 ^ 64" "unat (lp_dest_elements p) = prod_list (concat gs)"
    using assms unfolding arranged_def by blast+
  have pos: "0 < ?run" by (rule storage_run_pos [OF assms])
  have "0 < prod_list (take outer ?R)" using arranged_radix(3) [OF assms] by (meson in_set_takeD prod_list_pos)
  then have run: "?run < 2 ^ 64" using total D(1) by (metis le_less_trans mult_le_mono1 Suc_leI nat_mult_1 One_nat_def)
  then have u: "unat (of_nat ?run :: u64) = ?run" by (simp add: unat_of_nat)
  then have "max (of_nat ?run) 1 = (of_nat ?run :: u64)" using pos by (simp add: max_def word_le_nat_alt) (metis One_nat_def le_antisym of_nat_1 Suc_leI)
  then have runs: "unat (lp_dest_elements p div max (of_nat ?run) 1) = prod_list (take outer ?R)"
    using pos by (simp add: unat_div_distrib D(2) u total [symmetric])
  have perm: "permutes (lp_permutation p)" "length (lp_permutation p) = ?n" using assms unfolding arranged_def by blast+
  have none: "step_counters p outer 0 ! j = 0" if j: "j < ?n" for j
  proof -
    obtain q where q: "q < ?n" "lp_permutation p ! q = j" using permutes_cases [OF perm(1), of j] j perm(2) by metis
    show ?thesis using step_counters_nth [OF assms outer(1) q(1), of 0] q lR outer(1) by (simp add: radix_digits_zero)
  qed
  have start: "replicate ?n 0 = (map of_nat (step_counters p outer 0) :: u64 list)"
    by (rule nth_equalityI) (simp_all add: length_step_counters [OF assms] none)
  have zero: "replicate (length (lp_shape p)) 0 = coords_of p (replicate ?n 0)"
    by (rule nth_equalityI) (auto simp: coords_of_def intro!: sum.neutral)
  have "for_each_run p = run_steps p (of_nat ?run) outer (prod_list (take outer ?R)) (of_nat 0)
      (map of_nat (step_counters p outer 0)) (coords_of p (map of_nat (step_counters p outer 0)))"
    by (simp add: for_each_run_def outer(3) runs zero start [symmetric])
  then have "for_each_run p = Some (map (\<lambda>s. (of_nat s * of_nat ?run,
      run_source (coords_of p (map of_nat (step_counters p outer s))) (lp_shape p) (lp_logical_stride p) 0,
      of_nat ?run)) [0..<prod_list (take outer ?R)])"
    using run_steps_arranged [OF assms outer(1), of "of_nat ?run" "prod_list (take outer ?R)" 0] by simp
  with outer(1,2) show thesis by (rule that)
qed

lemma for_each_arranged:
  assumes "arranged p gs"
  shows "for_each p = Some (map (\<lambda>t. (of_nat t, map_option of_nat (element_source p gs t))) [0..<prod_list (concat gs)])"
proof -
  let ?R = "storage_radix p"
  obtain outer where outer: "outer \<le> length (lp_extents p)" "folded_from p outer"
    and runs: "for_each_run p = Some (map (\<lambda>s. (of_nat s * of_nat (prod_list (drop outer ?R)),
      run_source (coords_of p (map of_nat (step_counters p outer s))) (lp_shape p) (lp_logical_stride p) 0,
      of_nat (prod_list (drop outer ?R)))) [0..<prod_list (take outer ?R)])"
    by (rule for_each_run_arranged [OF assms])
  let ?run = "prod_list (drop outer ?R)"
  let ?f = "\<lambda>t. (of_nat t :: u64, map_option of_nat (element_source p gs t) :: u64 option)"
  have total: "prod_list (take outer ?R) * ?run = prod_list (concat gs)"
    using arranged_radix(2) [OF assms] by (metis append_take_drop_id prod_list.append)
  have "prod_list (concat gs) < 2 ^ 64" using assms unfolding arranged_def by blast
  moreover have "0 < prod_list (take outer ?R)" using arranged_radix(3) [OF assms] by (meson in_set_takeD prod_list_pos)
  ultimately have "?run < 2 ^ 64" using total by (metis le_less_trans mult_le_mono1 Suc_leI nat_mult_1 One_nat_def)
  then have u: "unat (of_nat ?run :: u64) = ?run" by (simp add: unat_of_nat)
  have "expand_run (of_nat s * of_nat ?run, run_source (coords_of p (map of_nat (step_counters p outer s))) (lp_shape p)
      (lp_logical_stride p) 0, of_nat ?run) = map (\<lambda>k. ?f (s * ?run + k)) [0..<?run]" for s
    unfolding expand_run_def prod.case u
    by (intro map_cong refl) (simp add: run_element [OF assms outer])
  then have "map expand_run (the (for_each_run p)) = map (\<lambda>s. map (\<lambda>k. ?f (s * ?run + k)) [0..<?run]) [0..<prod_list (take outer ?R)]"
    unfolding runs option.sel map_map comp_def by (intro map_cong refl)
  then have "concat (map expand_run (the (for_each_run p))) = map ?f [0..<prod_list (concat gs)]"
    using concat_runs [of ?f ?run "prod_list (take outer ?R)"] by (simp only: total)
  then show ?thesis by (simp add: for_each_def runs)
qed

end
