(* ===== verification/Layout_Plans.thy ===== *)
theory Layout_Plans
  imports Layout_Runs
begin

text \<open>
  The plan of a checked record is arranged: the groups of the reference are the factors of each axis.
  The one hypothesis is that the destination has fewer than $2^{64}$ elements.
\<close>

section \<open>What the check establishes\<close>

fun covers :: "nat \<Rightarrow> nat list \<Rightarrow> nat option" where
  "covers axis [] = Some 0"
| "covers axis (x # xs) =
     (if x = axis + 1 then map_option Suc (covers x xs) else if x = axis then covers x xs else None)"

lemma check_axes_covers:
  "check_axes handle (Suc n) axis covered subs = Inr c \<Longrightarrow> \<exists>m. covers axis (map sa_axis subs) = Some m \<and> c = covered + m"
proof (induction subs arbitrary: n axis covered)
  case (Cons sub subs)
  then show ?case by (fastforce split: if_splits)
qed simp

lemma covers_groups:
  "covers axis (map fst xs) = Some m \<Longrightarrow>
   \<exists>g gs. map snd xs = g @ concat gs \<and> map fst xs = replicate (length g) axis @ group_axes (Suc axis) gs \<and>
     length gs = m \<and> [] \<notin> set gs"
proof (induction xs arbitrary: axis m)
  case (Cons x xs)
  show ?case
  proof (cases "fst x = axis + 1")
    case True
    then obtain m' where m: "covers (Suc axis) (map fst xs) = Some m'" "m = Suc m'" using Cons.prems by auto
    from Cons.IH [OF m(1)] obtain g gs where "map snd xs = g @ concat gs"
      "map fst xs = replicate (length g) (Suc axis) @ group_axes (Suc (Suc axis)) gs" "length gs = m'" "[] \<notin> set gs" by blast
    then show ?thesis using True m by (intro exI [of _ "[]"] exI [of _ "(snd x # g) # gs"]) simp
  next
    case False
    then have x: "fst x = axis" "covers axis (map fst xs) = Some m" using Cons.prems by (auto split: if_splits)
    from Cons.IH [OF x(2)] obtain g gs where "map snd xs = g @ concat gs"
      "map fst xs = replicate (length g) axis @ group_axes (Suc axis) gs" "length gs = m" "[] \<notin> set gs" by blast
    then show ?thesis using x by (intro exI [of _ "snd x # g"] exI [of _ gs]) simp
  qed
qed (auto intro!: exI [of _ "[]"])

lemma checked_groups:
  assumes "check_axes handle 0 0 0 subs = Inr c" "map fst xs = map sa_axis subs" "subs \<noteq> []"
  obtains gs where "map snd xs = concat gs" "map fst xs = group_axes 0 gs" "length gs = c" "[] \<notin> set gs"
proof -
  obtain sub rest where subs: "subs = sub # rest" using assms(3) by (cases subs) auto
  obtain x ys where xs: "xs = x # ys" using assms(2) subs by (cases xs) auto
  have x: "fst x = 0" "map fst ys = map sa_axis rest" "sa_axis sub = 0"
    using assms(1,2) subs xs by (auto split: if_splits)
  then obtain m where m: "covers 0 (map fst ys) = Some m" "c = 1 + m"
    using assms(1) subs check_axes_covers [of handle 0 0 1 rest c] by (auto split: if_splits)
  from covers_groups [OF m(1)] obtain g gs where g: "map snd ys = g @ concat gs"
    "map fst ys = replicate (length g) 0 @ group_axes (Suc 0) gs" "length gs = m" "[] \<notin> set gs" by blast
  show thesis by (rule that [of "(snd x # g) # gs"]) (use g x xs m in simp_all)
qed

lemma check_permutation_Inr:
  "check_permutation handle seen perm = Inr () \<Longrightarrow> distinct perm \<and> (\<forall>x \<in> set perm. x < length seen \<and> \<not> seen ! x)"
  by (induction handle seen perm rule: check_permutation.induct) (fastforce simp: nth_list_update split: if_splits)+

lemma checked_permutes:
  assumes "check_permutation handle (replicate (length perm) False) perm = Inr ()"
  shows "permutes perm"
proof -
  have d: "distinct perm" "set perm \<subseteq> {..<length perm}" using check_permutation_Inr [OF assms] by auto
  then have "set perm = {..<length perm}" by (metis card_lessThan card_subset_eq distinct_card finite_lessThan)
  then show ?thesis using d(1) by (metis atLeast_upt distinct_upt set_eq_iff_mset_eq_distinct)
qed


section \<open>The numbers of a plan\<close>

lemma prod_list_unat:
  "prod_list (map unat es) < 2 ^ 64 \<Longrightarrow> unat (prod_list (es :: u64 list)) = prod_list (map unat es)"
proof -
  have "prod_list es = of_nat (prod_list (map unat es))" by (induction es) simp_all
  then show "prod_list (map unat es) < 2 ^ 64 \<Longrightarrow> unat (prod_list es) = prod_list (map unat es)"
    by (simp add: unat_of_nat)
qed

lemma prod_tail_less:
  assumes "prod_list (map unat (e # es)) < 2 ^ 64" "\<forall>x \<in> set (e # es). 0 < unat x"
  shows "prod_list (map unat es) < 2 ^ 64"
proof -
  have "prod_list (map unat es) \<le> unat e * prod_list (map unat es)" using assms(2) by simp
  also have "\<dots> < 2 ^ 64" using assms(1) by simp
  finally show ?thesis .
qed

lemma within_of_arranged:
  assumes "prod_list (map unat es) < 2 ^ 64" "\<forall>x \<in> set es. 0 < unat x" "within_of es = (within, running)"
  shows "map unat within = weights (map unat es)" "unat running = prod_list (map unat es)"
proof -
  have "map unat (fst (within_of es)) = weights (map unat es) \<and> snd (within_of es) = prod_list es"
    using assms(1,2)
  proof (induction es)
    case (Cons e es)
    have "prod_list (map unat es) < 2 ^ 64" by (rule prod_tail_less [OF Cons.prems])
    then show ?case using Cons by (auto simp: prod_list_unat mult.commute split: prod.splits)
  qed simp
  then show "map unat within = weights (map unat es)" "unat running = prod_list (map unat es)"
    using assms by (simp_all add: prod_list_unat)
qed

lemma logical_strides_arranged:
  "prod_list (map unat shape) < 2 ^ 64 \<Longrightarrow> \<forall>d \<in> set shape. 0 < unat d \<Longrightarrow>
   map unat (logical_strides shape) = weights (map unat shape)"
proof (induction shape rule: logical_strides.induct)
  case (3 d e ds)
  have less: "prod_list (map unat (e # ds)) < 2 ^ 64" by (rule prod_tail_less [OF 3(2,3)])
  then have IH: "map unat (logical_strides (e # ds)) = prod_list (map unat ds) # weights (map unat ds)" using 3 by simp
  then obtain s ss where s: "logical_strides (e # ds) = s # ss" "unat s = prod_list (map unat ds)" "map unat ss = weights (map unat ds)"
    by (cases "logical_strides (e # ds)") auto
  have "unat (s * e) = prod_list (map unat (e # ds))"
    using less s(2) by (simp add: unat_word_ariths mult.commute)
  then show ?case using s by simp
qed simp_all

lemma saturating_fold:
  "unat n * prod_list (map unat shape) < 2 ^ 64 \<Longrightarrow> \<forall>d \<in> set shape. 0 < unat d \<Longrightarrow>
   unat (fold (\<lambda>dim n. saturating_mul n dim) shape n) = unat n * prod_list (map unat shape)"
proof (induction shape arbitrary: n)
  case (Cons d ds)
  have pos: "0 < prod_list (map unat ds)" using Cons.prems(2) by (intro prod_list_pos) auto
  have "unat n * unat d \<le> unat n * unat d * prod_list (map unat ds)" using pos by simp
  also have "\<dots> < 2 ^ 64" using Cons.prems(1) by (simp add: mult.assoc)
  finally have u: "unat n * unat d < 2 ^ 64" .
  then have "saturating_mul n d = n * d" "unat (n * d) = unat n * unat d"
    by (simp_all add: saturating_mul_def unat_word_ariths)
  then show ?case using Cons by (simp add: mult.assoc)
qed simp

lemma sub_extents_Inr:
  "sub_extents handle shape subs = Inr factors \<Longrightarrow>
   map fst factors = map sa_axis subs \<and> (\<forall>e \<in> set (map snd factors). 0 < unat e)"
  by (induction subs arbitrary: factors) (fastforce simp: result_simps unat_gt_0 split: if_splits)+


section \<open>The groups of a plan\<close>

lemma group_split:
  assumes "map fst xs = replicate (length g) k @ group_axes (Suc k) gs" "map snd xs = g @ es"
  shows "map snd (takeWhile (\<lambda>(a, e). a = k) xs) = g" "map fst (dropWhile (\<lambda>(a, e). a = k) xs) = group_axes (Suc k) gs"
    "map snd (dropWhile (\<lambda>(a, e). a = k) xs) = es"
proof -
  let ?n = "length g"
  have P: "(\<lambda>(a, e). a = k) = (\<lambda>x. fst x = k)" by auto
  have t: "map fst (take ?n xs) = replicate ?n k" "map fst (drop ?n xs) = group_axes (Suc k) gs"
    "map snd (take ?n xs) = g" "map snd (drop ?n xs) = es"
    using assms by (simp_all add: take_map [symmetric] drop_map [symmetric])
  have all: "\<forall>x \<in> set (take ?n xs). fst x = k"
    using t(1) by (metis in_set_replicate image_eqI image_set)
  have none: "takeWhile (\<lambda>x. fst x = k) (drop ?n xs) = [] \<and> dropWhile (\<lambda>x. fst x = k) (drop ?n xs) = drop ?n xs"
  proof (cases "drop ?n xs")
    case (Cons y ys)
    then have "fst y \<in> set (group_axes (Suc k) gs)" using t(2) by (metis list.set_intros(1) list.simps(9))
    then have "fst y \<noteq> k" using set_group_axes [of "Suc k" gs] by auto
    then show ?thesis using Cons by simp
  qed simp
  have "takeWhile (\<lambda>x. fst x = k) (take ?n xs @ drop ?n xs) = take ?n xs"
    "dropWhile (\<lambda>x. fst x = k) (take ?n xs @ drop ?n xs) = drop ?n xs"
    using all none by (simp_all only: takeWhile_append2 dropWhile_append2) simp_all
  then show "map snd (takeWhile (\<lambda>(a, e). a = k) xs) = g" "map fst (dropWhile (\<lambda>(a, e). a = k) xs) = group_axes (Suc k) gs"
    "map snd (dropWhile (\<lambda>(a, e). a = k) xs) = es"
    unfolding P using t by simp_all
qed

lemma plan_groups_arranged:
  assumes "map fst xs = group_axes k gs" "map snd xs = concat gs" "[] \<notin> set gs"
    and "prod_list (map unat (concat gs)) < 2 ^ 64" "\<forall>e \<in> set (concat gs). 0 < unat e"
    and "plan_groups handle rank shape xs flags padded = Inr (within, flags', padded')"
  shows "map unat within = concat (map (weights \<circ> map unat) gs) \<and>
    (\<forall>i<length gs. k + i < length shape \<and> unat (shape ! (k + i)) \<le> prod_list (map unat (gs ! i))) \<and>
    length flags' = length flags \<and>
    (length flags = length shape \<longrightarrow> (\<forall>a<length shape. flags' ! a \<longleftrightarrow> flags ! a \<or>
      (\<exists>i<length gs. a = k + i \<and> unat (shape ! a) < prod_list (map unat (gs ! i))))) \<and>
    (padded' \<longleftrightarrow> padded \<or> (\<exists>i<length gs. unat (shape ! (k + i)) < prod_list (map unat (gs ! i))))"
  using assms
proof (induction gs arbitrary: xs k flags padded within)
  case (Cons g gs)
  obtain e g' where g: "g = e # g'" using Cons.prems(3) by (cases g) auto
  obtain x ys where xs: "xs = x # ys" using Cons.prems(1) g by (cases xs) auto
  have x: "x = (k, e)" and ys: "map fst ys = replicate (length g') k @ group_axes (Suc k) gs" "map snd ys = g' @ concat gs"
    using Cons.prems(1,2) g xs by (auto simp: prod_eq_iff)
  note split = group_split [OF ys]
  obtain ws running where w: "within_of g = (ws, running)" by (cases "within_of g")
  have pos: "\<forall>e \<in> set g. 0 < unat e" "\<forall>e \<in> set (concat gs). 0 < unat e" using Cons.prems(5) by auto
  have pp: "0 < prod_list (map unat g)" "0 < prod_list (map unat (concat gs))" using pos by (auto intro!: prod_list_pos)
  have prod: "prod_list (map unat g) * prod_list (map unat (concat gs)) < 2 ^ 64" using Cons.prems(4) by simp
  have "prod_list (map unat g) \<le> prod_list (map unat g) * prod_list (map unat (concat gs))"
    "prod_list (map unat (concat gs)) \<le> prod_list (map unat g) * prod_list (map unat (concat gs))"
    using pp by (simp_all del: prod_list.append map_concat)
  then have less: "prod_list (map unat g) < 2 ^ 64" "prod_list (map unat (concat gs)) < 2 ^ 64"
    using prod by linarith+
  note ws = within_of_arranged [OF less(1) pos(1) w]
  let ?over = "shape ! k < running"
  let ?flags = "if ?over then flags[k := True] else flags"
  obtain rest where r: "k < length shape" "\<not> running < shape ! k" "within = ws @ rest"
    "plan_groups handle rank shape (dropWhile (\<lambda>(a, e). a = k) ys) ?flags (padded \<or> ?over) = Inr (rest, flags', padded')"
    using Cons.prems(6) w split(1) unfolding xs x g
    by (auto simp: Let_def result_simps split: if_splits)
  have "[] \<notin> set gs" using Cons.prems(3) by simp
  note IH = Cons.IH [OF split(2,3) this less(2) pos(2) r(4)]
  have over: "?over \<longleftrightarrow> unat (shape ! k) < prod_list (map unat g)" and le: "unat (shape ! k) \<le> prod_list (map unat g)"
    using r(2) ws(2) by (simp_all add: word_less_nat_alt)
  have ex: "(\<exists>i<length (g # gs). P i ((g # gs) ! i)) \<longleftrightarrow> P 0 g \<or> (\<exists>i<length gs. P (Suc i) (gs ! i))" for P
    by (auto simp: less_Suc_eq_0_disj)
  have all: "(\<forall>i<length (g # gs). P i ((g # gs) ! i)) \<longleftrightarrow> P 0 g \<and> (\<forall>i<length gs. P (Suc i) (gs ! i))" for P
    by (auto simp: less_Suc_eq_0_disj)
  show ?case
  proof (intro conjI)
    show "map unat within = concat (map (weights \<circ> map unat) (g # gs))" using IH r(3) ws(1) by (simp add: comp_def)
    show "\<forall>i<length (g # gs). k + i < length shape \<and> unat (shape ! (k + i)) \<le> prod_list (map unat ((g # gs) ! i))"
      using IH r(1) le by (subst all [of "\<lambda>i h. k + i < length shape \<and> unat (shape ! (k + i)) \<le> prod_list (map unat h)"]) simp
    show "length flags' = length flags" using IH by simp
    show "padded' \<longleftrightarrow> padded \<or> (\<exists>i<length (g # gs). unat (shape ! (k + i)) < prod_list (map unat ((g # gs) ! i)))"
      using IH over by (subst ex [of "\<lambda>i h. unat (shape ! (k + i)) < prod_list (map unat h)"]) auto
    show "length flags = length shape \<longrightarrow> (\<forall>a<length shape. flags' ! a \<longleftrightarrow> flags ! a \<or>
        (\<exists>i<length (g # gs). a = k + i \<and> unat (shape ! a) < prod_list (map unat ((g # gs) ! i))))"
    proof (intro impI allI)
      fix a
      assume a: "length flags = length shape" "a < length shape"
      have "flags' ! a \<longleftrightarrow> ?flags ! a \<or> (\<exists>i<length gs. a = Suc k + i \<and> unat (shape ! a) < prod_list (map unat (gs ! i)))"
        using IH a by simp
      moreover have "?flags ! a \<longleftrightarrow> flags ! a \<or> a = k \<and> unat (shape ! a) < prod_list (map unat g)"
        using over a r(1) by (auto simp: nth_list_update)
      ultimately show "flags' ! a \<longleftrightarrow> flags ! a \<or>
          (\<exists>i<length (g # gs). a = k + i \<and> unat (shape ! a) < prod_list (map unat ((g # gs) ! i)))"
        by (subst ex [of "\<lambda>i h. a = k + i \<and> unat (shape ! a) < prod_list (map unat h)"]) auto
    qed
  qed
qed simp


section \<open>The plan of a checked record\<close>

lemma prod_list_mono:
  "list_all2 (\<lambda>d g. unat d \<le> prod_list g) shape gs \<Longrightarrow> prod_list (map unat shape) \<le> prod_list (concat gs)"
  by (induction rule: list_all2_induct) (simp_all add: mult_le_mono)

lemma plan_factors_arranged:
  assumes factors: "map fst factors = group_axes 0 gs" "map snd factors = concat gs" "[] \<notin> set gs" "length gs = length shape"
    and pos: "\<forall>e \<in> set (concat gs). 0 < unat e" "\<forall>d \<in> set shape. 0 < unat d"
    and less: "prod_list (map unat (concat gs)) < 2 ^ 64"
    and groups: "plan_groups handle rank shape factors (replicate (length shape) False) False = Inr (within, padded_axis, padded)"
    and perm: "permutes perm" "length perm = length factors"
  shows "arranged \<lparr>lp_handle = handle, lp_shape = shape, lp_axes = map fst factors, lp_extents = map snd factors, lp_within = within,
      lp_permutation = perm, lp_logical_stride = logical_strides shape,
      lp_src_stride = map (\<lambda>at. within ! at * logical_strides shape ! (map fst factors ! at)) [0..<length (map snd factors)],
      lp_padded_axis = padded_axis, lp_source_elements = fold (\<lambda>dim n. saturating_mul n dim) shape 1,
      lp_dest_elements = prod_list (map snd factors), lp_padded = padded\<rparr> (map (map unat) gs)"
proof -
  let ?gs = "map (map unat) gs"
  note g = plan_groups_arranged [OF factors(1,2,3) less pos(1) groups]
  have cg: "concat ?gs = map unat (concat gs)" by (simp add: map_concat)
  have dims: "list_all2 (\<lambda>d g. unat d \<le> prod_list g) shape ?gs"
    using g factors(4) by (simp add: list_all2_conv_all_nth)
  have shape: "prod_list (map unat shape) < 2 ^ 64" using prod_list_mono [OF dims] less by (simp add: cg)
  have axes: "group_axes k ?gs = group_axes k gs" for k by (induction gs arbitrary: k) simp_all
  have flags: "padded_axis = map2 (\<lambda>d g. unat d < prod_list g) shape ?gs"
    by (rule nth_equalityI) (use g factors(4) in \<open>auto\<close>)
  have pad: "padded \<longleftrightarrow> True \<in> set padded_axis"
  proof -
    have "True \<in> set padded_axis \<longleftrightarrow> (\<exists>a<length shape. unat (shape ! a) < prod_list (map unat (gs ! a)))"
      using g factors(4) by (fastforce simp: in_set_conv_nth)
    then show ?thesis using g factors(4) by simp
  qed
  have "length factors = length (concat gs)" using factors(2) by (metis length_map)
  moreover have "concat (map (weights \<circ> map unat) gs) = concat (map weights ?gs)" by simp
  ultimately show ?thesis
    using g factors pos less perm shape dims flags pad logical_strides_arranged [OF shape pos(2)] saturating_fold [of 1 shape]
      prod_list_unat [OF less]
    by (auto simp: arranged_def cg axes [symmetric] group_axes_def [symmetric] list_all2_conv_all_nth simp del: map_concat)
qed

theorem morphism_plan_arranged:
  assumes "layout_check m = Inr ()" "morphism_plan m shape = Inr p" "prod_list (map unat (lp_extents p)) < 2 ^ 64"
  shows "\<exists>gs. arranged p gs \<and> lp_shape p = shape"
proof -
  obtain factors within padded_axis padded where
    f: "(if is_identity m then Inr (enumerate 0 shape) else sub_extents (morphism_handle m) shape (lm_sub_axes m)) = Inr factors"
    and g: "plan_groups (morphism_handle m) (lm_rank m) shape factors (replicate (length shape) False) False = Inr (within, padded_axis, padded)"
    and p: "p = \<lparr>lp_handle = morphism_handle m, lp_shape = shape, lp_axes = map fst factors, lp_extents = map snd factors,
      lp_within = within, lp_permutation = (if is_identity m then [0..<length (map snd factors)] else lm_permutation m),
      lp_logical_stride = logical_strides shape,
      lp_src_stride = map (\<lambda>at. within ! at * logical_strides shape ! (map fst factors ! at)) [0..<length (map snd factors)],
      lp_padded_axis = padded_axis, lp_source_elements = fold (\<lambda>dim n. saturating_mul n dim) shape 1,
      lp_dest_elements = prod_list (map snd factors), lp_padded = padded\<rparr>"
    and shape: "shape \<noteq> []" "0 \<notin> set shape" "lm_rank m \<noteq> 0 \<longrightarrow> length shape = lm_rank m"
  proof -
    have "\<not> (lm_rank m \<noteq> 0 \<and> length shape \<noteq> lm_rank m)" "\<not> (shape = [] \<or> 0 \<in> set shape)"
      using assms(2) by (auto simp: morphism_plan_def Let_def split: if_splits)
    then show ?thesis using assms(2) that
      unfolding morphism_plan_def Let_def and_then_Inr_iff
      by (simp only: if_False and_then_Inr_iff) (fastforce simp only: prod.case Inr_inject de_Morgan_disj de_Morgan_conj)
  qed
  have dims: "\<forall>d \<in> set shape. 0 < unat d" using shape(2) by (auto simp: unat_gt_0)
  obtain gs where gs: "map fst factors = group_axes 0 gs" "map snd factors = concat gs" "[] \<notin> set gs" "length gs = length shape"
    and pos: "\<forall>e \<in> set (concat gs). 0 < unat e" and perm: "permutes (lp_permutation p)" "length (lp_permutation p) = length factors"
  proof (cases "is_identity m")
    case True
    have "group_axes k (map (\<lambda>d. [d]) shape) = map fst (enumerate k shape)" for k
      by (induction shape arbitrary: k) simp_all
    moreover have "concat (map (\<lambda>d. [d]) shape) = shape" by (induction shape) simp_all
    ultimately show ?thesis
      using True f dims by (intro that [of "map (\<lambda>d. [d]) shape"]) (auto simp: p)
  next
    case False
    have f': "sub_extents (morphism_handle m) shape (lm_sub_axes m) = Inr factors" using f False by simp
    note e = sub_extents_Inr [OF f']
    have c: "check_axes (morphism_handle m) 0 0 0 (lm_sub_axes m) = Inr (lm_rank m)" "lm_rank m \<noteq> 0"
      "length (lm_permutation m) = length (lm_sub_axes m)"
      "check_permutation (morphism_handle m) (replicate (length (lm_permutation m)) False) (lm_permutation m) = Inr ()"
      using assms(1) False by (auto simp: layout_check_def Let_def result_simps split: if_splits)
    obtain gs where gs: "map snd factors = concat gs" "map fst factors = group_axes 0 gs" "length gs = lm_rank m" "[] \<notin> set gs"
      by (rule checked_groups [OF c(1)]) (use e False in \<open>auto simp: is_identity_def\<close>)
    have "length factors = length (lm_sub_axes m)" using e by (metis length_map)
    then show ?thesis
      using False gs e shape c checked_permutes [OF c(4)] by (intro that [of gs]) (auto simp: p)
  qed
  have "prod_list (map unat (concat gs)) < 2 ^ 64" using assms(3) by (simp add: p gs(2) del: map_concat)
  from plan_factors_arranged [OF gs pos dims this g perm] show ?thesis using p by auto
qed

end
