(* ===== verification/Layout_Copies.thy ===== *)
theory Layout_Copies
  imports Layout_Plans
begin

text \<open>
  The copies driven by the walk. The destination is given byte by byte: the bytes of an element are
  those of its source element, or zero where it is padding. The inverse copy brings the source back,
  whatever was in its buffer, and every check of the ratification succeeds.
\<close>

section \<open>Runs in numbers without wrap-around\<close>

lemma arranged_sizes:
  assumes "arranged p gs"
  shows "unat (lp_dest_elements p) = prod_list (concat gs)" "prod_list (concat gs) < 2 ^ 64"
    "unat (lp_source_elements p) = prod_list (map unat (lp_shape p))" "unat (lp_source_elements p) \<le> prod_list (concat gs)"
proof -
  show "unat (lp_dest_elements p) = prod_list (concat gs)" "prod_list (concat gs) < 2 ^ 64"
    and S: "unat (lp_source_elements p) = prod_list (map unat (lp_shape p))"
    using assms unfolding arranged_def by blast+
  have "list_all2 (\<lambda>d g. unat d \<le> prod_list g) (lp_shape p) gs"
    using arranged_dim(2) [OF assms] arranged_lengths(1) [OF assms] by (simp add: list_all2_conv_all_nth)
  from prod_list_mono [OF this] show "unat (lp_source_elements p) \<le> prod_list (concat gs)" by (simp only: S)
qed

lemma element_source_bound:
  assumes "arranged p gs" "t < prod_list (concat gs)" "element_source p gs t = Some x"
  shows "x < unat (lp_source_elements p)"
  using element_source_inverse(1) [OF assms] by (simp only: arranged_sizes(3) [OF assms(1)])

text \<open>The walk is \<open>m\<close> runs of the same length, and the source is consecutive inside a run.\<close>

definition visit_at :: "layout_plan \<Rightarrow> nat list list \<Rightarrow> nat \<Rightarrow> nat \<Rightarrow> visit" where
  "visit_at p gs run s = (of_nat (s * run), map_option of_nat (element_source p gs (s * run)), of_nat run)"

definition runs_as :: "layout_plan \<Rightarrow> nat list list \<Rightarrow> nat \<Rightarrow> nat \<Rightarrow> bool" where
  "runs_as p gs m run \<longleftrightarrow> m * run = prod_list (concat gs) \<and> 0 < run \<and>
     (\<forall>s<m. \<forall>k<run. element_source p gs (s * run + k) = map_option (\<lambda>x. x + k) (element_source p gs (s * run))) \<and>
     for_each_run p = Some (map (visit_at p gs run) [0..<m])"

lemma runs_asD:
  assumes "runs_as p gs m run"
  shows "m * run = prod_list (concat gs)" "0 < run" "for_each_run p = Some (map (visit_at p gs run) [0..<m])"
    "s < m \<Longrightarrow> k < run \<Longrightarrow> element_source p gs (s * run + k) = map_option (\<lambda>x. x + k) (element_source p gs (s * run))"
  using assms unfolding runs_as_def by blast+

lemma nat_runs:
  assumes "arranged p gs"
  obtains m run where "runs_as p gs m run"
proof -
  let ?R = "storage_radix p"
  obtain outer where outer: "outer \<le> length (lp_extents p)" "folded_from p outer"
    and runs: "for_each_run p = Some (map (\<lambda>s. (of_nat s * of_nat (prod_list (drop outer ?R)),
      run_source (coords_of p (map of_nat (step_counters p outer s))) (lp_shape p) (lp_logical_stride p) 0,
      of_nat (prod_list (drop outer ?R)))) [0..<prod_list (take outer ?R)])"
    by (rule for_each_run_arranged [OF assms])
  define run where "run = prod_list (drop outer ?R)"
  define m where "m = prod_list (take outer ?R)"
  have total: "m * run = prod_list (concat gs)"
    using arranged_radix(2) [OF assms] unfolding run_def m_def by (metis append_take_drop_id prod_list.append)
  have pos: "0 < run" unfolding run_def by (rule storage_run_pos [OF assms])
  note element = run_element [OF assms outer, folded run_def]
  have base: "map_option of_nat (element_source p gs (s * run)) =
      run_source (coords_of p (map of_nat (step_counters p outer s))) (lp_shape p) (lp_logical_stride p) 0" for s
    using element [of 0 s] pos by (simp add: option.map_id0 [unfolded id_def])
  have step: "map_option of_nat (element_source p gs (s * run + k)) =
      (map_option (\<lambda>x. of_nat x + of_nat k) (element_source p gs (s * run)) :: u64 option)" if "k < run" for s k
    using element [OF that, of s] base [of s] by (metis (no_types, lifting) map_option_case option.map_comp comp_apply option.map_cong0)
  have "element_source p gs (s * run + k) = map_option (\<lambda>x. x + k) (element_source p gs (s * run))"
    if s: "s < m" and k: "k < run" for s k
  proof (cases "element_source p gs (s * run)")
    case None
    then show ?thesis using step [OF k, of s] by simp
  next
    case (Some x)
    have "element_source p gs (s * run + k) = Some (x + k)"
      using k
    proof (induction k)
      case 0
      then show ?case using Some by simp
    next
      case (Suc k)
      have inside: "s * run + j < prod_list (concat gs)" if "j < run" for j
      proof -
        have "s * run + j < Suc s * run" using that by simp
        also have "\<dots> \<le> m * run" using s by (intro mult_le_mono1) simp
        finally show ?thesis using total by simp
      qed
      have "x + k < unat (lp_source_elements p)"
        using element_source_bound [OF assms inside Suc.IH] Suc.prems by simp
      then have small: "x + Suc k < 2 ^ 64" using unsigned_less [of "lp_source_elements p", where 'a = nat] by simp
      obtain y where y: "element_source p gs (s * run + Suc k) = Some y" "(of_nat y :: u64) = of_nat (x + Suc k)"
        using step [OF Suc.prems, of s] Some by auto
      have "y < 2 ^ 64"
        using element_source_bound [OF assms inside y(1)] Suc.prems unsigned_less [of "lp_source_elements p", where 'a = nat] by simp
      then have "unat (of_nat y :: u64) = y" "unat (of_nat (x + Suc k) :: u64) = x + Suc k"
        using small by (simp_all add: unat_of_nat del: of_nat_Suc of_nat_add)
      then have "y = x + Suc k" using y(2) by metis
      then show ?case using y(1) by simp
    qed
    then show ?thesis using Some by simp
  qed
  moreover have "for_each_run p = Some (map (visit_at p gs run) [0..<m])"
    using base unfolding runs run_def m_def by (simp add: visit_at_def)
  ultimately show thesis using total pos unfolding runs_as_def by (intro that [of m run]) (unfold runs_as_def, blast)
qed


section \<open>Buffers\<close>

lemma slice_bytes_nth:
  assumes "at + span \<le> length bs"
  obtains piece where "slice_bytes bs at span = Some piece" "length piece = span" "\<And>i. i < span \<Longrightarrow> piece ! i = bs ! (at + i)"
  using assms by (intro that [of "take span (drop at bs)"]) (simp_all add: slice_bytes_def)

lemma copy_into_nth:
  assumes "at + length piece \<le> length bs"
  obtains bs' where "copy_into bs at piece = Some bs'" "length bs' = length bs"
    "\<And>i. i < length bs \<Longrightarrow> bs' ! i = (if at \<le> i \<and> i < at + length piece then piece ! (i - at) else bs ! i)"
  using assms by (intro that [of "take at bs @ piece @ drop (at + length piece) bs"]) (auto simp: copy_into_def nth_append)

lemma run_byte_offset:
  fixes x w i run :: nat
  assumes "x * w \<le> i" "i < x * w + run * w"
  obtains k where "k < run" "i div w = x + k" "i - x * w = k * w + i mod w"
proof -
  have w: "0 < w" using assms by (cases w) auto
  have "x \<le> i div w" using assms(1) w by (simp add: less_eq_div_iff_mult_less_eq)
  moreover have "i div w < x + run" using assms(2) w by (simp add: div_less_iff_less_mult add_mult_distrib)
  moreover have "i = i div w * w + i mod w" by simp
  ultimately show thesis
    by (intro that [of "i div w - x"]) (simp_all add: diff_mult_distrib)
qed

text \<open>What the destination holds.\<close>

definition arranged_byte :: "layout_plan \<Rightarrow> nat list list \<Rightarrow> bytes \<Rightarrow> nat \<Rightarrow> nat \<Rightarrow> u8" where
  "arranged_byte p gs source w i =
     (case element_source p gs (i div w) of Some x \<Rightarrow> source ! (x * w + i mod w) | None \<Rightarrow> 0)"

lemma unat_scaled: "a * unat element < 2 ^ 64 \<Longrightarrow> a < 2 ^ 64 \<Longrightarrow> unat (of_nat a * element :: u64) = a * unat element"
  by (simp add: unat_word_ariths unat_of_nat)

text \<open>The byte positions of a run.\<close>

lemma run_scaled:
  assumes "arranged p gs" "runs_as p gs m run" "unat (lp_dest_elements p) * unat element < 2 ^ 64" "s < m"
  shows "s * run * unat element + run * unat element \<le> unat (lp_dest_elements p) * unat element"
    "unat (of_nat (s * run) * element :: u64) = s * run * unat element" "unat (of_nat run * element :: u64) = run * unat element"
    "s * run + run \<le> prod_list (concat gs)"
proof -
  note D = arranged_sizes [OF assms(1)]
  have "Suc s * run \<le> m * run" using assms(4) by (intro mult_le_mono1) simp
  then show le: "s * run + run \<le> prod_list (concat gs)" using assms(2) by (simp add: runs_as_def add.commute)
  then have "(s * run + run) * unat element \<le> unat (lp_dest_elements p) * unat element" unfolding D(1) by (rule mult_le_mono1)
  then show bytes: "s * run * unat element + run * unat element \<le> unat (lp_dest_elements p) * unat element" by (simp only: add_mult_distrib)
  show "unat (of_nat (s * run) * element :: u64) = s * run * unat element" "unat (of_nat run * element :: u64) = run * unat element"
    using le bytes D(2) assms(3) by (intro unat_scaled; linarith)+
qed

lemma run_sourced:
  assumes "arranged p gs" "runs_as p gs m run" "unat (lp_dest_elements p) * unat element < 2 ^ 64" "s < m"
    and "element_source p gs (s * run) = Some x"
  shows "x * unat element + run * unat element \<le> unat (lp_source_elements p) * unat element"
    "unat (of_nat x * element :: u64) = x * unat element"
proof -
  have run: "0 < run" "element_source p gs (s * run + (run - 1)) = map_option (\<lambda>x. x + (run - 1)) (element_source p gs (s * run))"
    by (rule runs_asD(2) [OF assms(2)], rule runs_asD(4) [OF assms(2,4)]) (use runs_asD(2) [OF assms(2)] in simp)
  have "s * run + (run - 1) < prod_list (concat gs)" using run_scaled(4) [OF assms(1-4)] run(1) by linarith
  from element_source_bound [OF assms(1) this] have x: "x + run \<le> unat (lp_source_elements p)" using run assms(5) by simp
  then have "(x + run) * unat element \<le> unat (lp_source_elements p) * unat element" by (rule mult_le_mono1)
  then show bytes: "x * unat element + run * unat element \<le> unat (lp_source_elements p) * unat element" by (simp only: add_mult_distrib)
  have "unat (lp_source_elements p) * unat element < 2 ^ 64"
    using arranged_sizes(1,4) [OF assms(1)] assms(3) by (metis mult_le_mono1 order_le_less_trans)
  then show "unat (of_nat x * element :: u64) = x * unat element"
    using bytes x unsigned_less [of "lp_source_elements p", where 'a = nat] by (intro unat_scaled) simp_all
qed

lemma runs_sized:
  assumes "arranged p gs" "unat (lp_dest_elements p) * unat element < 2 ^ 64"
  shows "plan_sized p (unat (lp_source_elements p) * unat element) (unat (lp_dest_elements p) * unat element) element = Inr ()"
proof -
  have "unat (lp_source_elements p) * unat element < 2 ^ 64"
    using arranged_sizes(1,4) [OF assms(1)] assms(2) by (metis mult_le_mono1 order_le_less_trans)
  then show ?thesis using assms(2) by (simp add: plan_sized_def Let_def unat_word_ariths)
qed

lemma visit_all_snoc: "visit_all f (vs @ [v]) bs = visit_all f vs bs \<bind> f v"
  by (induction vs arbitrary: bs) (auto split: bind_splits)

text \<open>A property of the buffer that every visit extends by its run holds at the end.\<close>

lemma visit_all_runs:
  assumes "runs_as p gs m run" "P 0 bs"
    and "\<And>n b. n < m \<Longrightarrow> P n b \<Longrightarrow> \<exists>b'. f (visit_at p gs run n) b = Some b' \<and> P (Suc n) b'"
  shows "\<exists>out. for_each_run p \<bind> (\<lambda>runs. visit_all f runs bs) = Some out \<and> P m out"
proof -
  have "n \<le> m \<Longrightarrow> \<exists>out. visit_all f (map (visit_at p gs run) [0..<n]) bs = Some out \<and> P n out" for n
  proof (induction n)
    case 0
    then show ?case using assms(2) by simp
  next
    case (Suc n)
    then obtain b where "visit_all f (map (visit_at p gs run) [0..<n]) bs = Some b" "P n b" by auto
    then show ?case using assms(3) [of n b] Suc.prems by (auto simp: visit_all_snoc)
  qed
  then show ?thesis using assms(1) by (simp add: runs_as_def)
qed


section \<open>The copy\<close>

lemma apply_run:
  assumes "arranged p gs" "runs_as p gs m run" "unat (lp_dest_elements p) * unat element < 2 ^ 64" "n < m"
    and "length source = unat (lp_source_elements p) * unat element"
  obtains piece where "length piece = run * unat element"
    "apply_visit element source (visit_at p gs run n) b = copy_into b (n * run * unat element) piece"
    "\<And>i. n * run * unat element \<le> i \<Longrightarrow> i < n * run * unat element + run * unat element \<Longrightarrow>
      piece ! (i - n * run * unat element) = arranged_byte p gs source (unat element) i"
proof -
  let ?w = "unat element"
  note scaled = run_scaled [OF assms(1-4)]
  have inner: "element_source p gs (n * run + k) = map_option (\<lambda>x. x + k) (element_source p gs (n * run))" if "k < run" for k
    by (rule runs_asD(4) [OF assms(2,4) that])
  show thesis
  proof (cases "element_source p gs (n * run)")
    case None
    have "arranged_byte p gs source ?w i = 0" if i: "n * run * ?w \<le> i" "i < n * run * ?w + run * ?w" for i
    proof -
      obtain k where "k < run" "i div ?w = n * run + k" by (rule run_byte_offset [OF i])
      then show ?thesis using inner None by (simp add: arranged_byte_def)
    qed
    then show ?thesis using None scaled
      by (intro that [of "replicate (run * ?w) 0"]) (simp_all add: apply_visit_def visit_at_def Let_def)
  next
    case (Some x)
    note sourced = run_sourced [OF assms(1-4) Some]
    obtain piece where pc: "slice_bytes source (x * ?w) (run * ?w) = Some piece" "length piece = run * ?w"
      "\<And>i. i < run * ?w \<Longrightarrow> piece ! i = source ! (x * ?w + i)"
      using slice_bytes_nth [of "x * ?w" "run * ?w" source] sourced(1) assms(5) by metis
    have "piece ! (i - n * run * ?w) = arranged_byte p gs source ?w i" if i: "n * run * ?w \<le> i" "i < n * run * ?w + run * ?w" for i
    proof -
      obtain k where k: "k < run" "i div ?w = n * run + k" "i - n * run * ?w = k * ?w + i mod ?w" by (rule run_byte_offset [OF i])
      have "i - n * run * ?w < run * ?w" using i by simp
      then show ?thesis using pc(3) k inner [OF k(1)] Some by (simp add: arranged_byte_def add_mult_distrib add.assoc)
    qed
    then show ?thesis using Some scaled sourced(2) pc
      by (intro that [of piece]) (simp_all add: apply_visit_def visit_at_def Let_def)
  qed
qed

lemma plan_apply_bytes:
  assumes "arranged p gs" "unat (lp_dest_elements p) * unat element < 2 ^ 64"
    and "length source = unat (lp_source_elements p) * unat element"
    and "length destination = unat (lp_dest_elements p) * unat element"
  obtains out where "plan_apply p source destination element = Some (Inr out)" "length out = length destination"
    "\<And>i. i < length destination \<Longrightarrow> out ! i = arranged_byte p gs source (unat element) i"
proof -
  let ?w = "unat element"
  obtain m run where runs: "runs_as p gs m run" by (rule nat_runs [OF assms(1)])
  let ?P = "\<lambda>n b. length b = length destination \<and>
    (\<forall>i<length destination. b ! i = (if i < n * run * ?w then arranged_byte p gs source ?w i else destination ! i))"
  have "\<exists>out. for_each_run p \<bind> (\<lambda>runs. visit_all (apply_visit element source) runs destination) = Some out \<and> ?P m out"
  proof (rule visit_all_runs [OF runs, where P = ?P])
    fix n b
    assume n: "n < m" and b: "?P n b"
    obtain piece where piece: "length piece = run * ?w"
      "apply_visit element source (visit_at p gs run n) b = copy_into b (n * run * ?w) piece"
      "\<And>i. n * run * ?w \<le> i \<Longrightarrow> i < n * run * ?w + run * ?w \<Longrightarrow> piece ! (i - n * run * ?w) = arranged_byte p gs source ?w i"
      by (rule apply_run [OF assms(1) runs assms(2) n assms(3)]) blast
    obtain out where out: "copy_into b (n * run * ?w) piece = Some out" "length out = length b"
      "\<And>i. i < length b \<Longrightarrow> out ! i = (if n * run * ?w \<le> i \<and> i < n * run * ?w + length piece then piece ! (i - n * run * ?w) else b ! i)"
      by (rule copy_into_nth [of "n * run * ?w" piece b]) (use run_scaled(1) [OF assms(1) runs assms(2) n] piece(1) b assms(4) in auto)
    have "?P (Suc n) out" using b out(2,3) piece(1,3) by (auto simp: add_mult_distrib)
    then show "\<exists>b'. apply_visit element source (visit_at p gs run n) b = Some b' \<and> ?P (Suc n) b'"
      using piece(2) out(1) by (intro exI [of _ out]) simp
  qed simp
  then obtain out where out: "for_each_run p \<bind> (\<lambda>runs. visit_all (apply_visit element source) runs destination) = Some out" "?P m out"
    by blast
  have "plan_apply p source destination element = Some (Inr out)"
    using out(1) runs_sized [OF assms(1,2)] runs unfolding runs_as_def by (simp add: plan_apply_def assms(3,4))
  moreover have "m * run * ?w = length destination" using assms(4) arranged_sizes(1) [OF assms(1)] runs by (simp add: runs_as_def)
  ultimately show thesis using out(2) by (intro that [of out]) simp_all
qed


section \<open>The inverse\<close>

text \<open>The source elements whose destination is in a run are those the run copies.\<close>

lemma inverse_run:
  assumes "arranged p gs" "runs_as p gs m run" "n < m" "x < prod_list (map unat (lp_shape p))"
  shows "element_dest p gs x < Suc n * run \<longleftrightarrow> element_dest p gs x < n * run \<or>
    (\<exists>y k. element_source p gs (n * run) = Some y \<and> k < run \<and> x = y + k \<and> element_dest p gs x = n * run + k)"
proof -
  have "\<exists>y k. element_source p gs (n * run) = Some y \<and> k < run \<and> x = y + k \<and> element_dest p gs x = n * run + k"
    if within: "n * run \<le> element_dest p gs x" "element_dest p gs x < n * run + run"
  proof -
    let ?k = "element_dest p gs x - n * run"
    obtain k where k: "k < run" "element_dest p gs x = n * run + k"
      by (rule that [of ?k]) (use within in linarith)+
    then have "map_option (\<lambda>x. x + k) (element_source p gs (n * run)) = Some x"
      using element_dest_inverse(1) [OF assms(1,4)] runs_asD(4) [OF assms(2,3) k(1)] by simp
    then show ?thesis using k by auto
  qed
  moreover have "element_dest p gs x < Suc n * run \<longleftrightarrow> element_dest p gs x < n * run \<or>
      n * run \<le> element_dest p gs x \<and> element_dest p gs x < n * run + run" by auto
  moreover have "element_dest p gs x < n * run + run" if "k < run" "element_dest p gs x = n * run + k" for k using that by simp
  ultimately show ?thesis by fastforce
qed

lemma inverse_byte:
  assumes "arranged p gs" "runs_as p gs m run" "n < m" "element_source p gs (n * run) = Some x" "0 < w"
    and "x * w \<le> i" "i < x * w + run * w"
  shows "arranged_byte p gs source w (n * run * w + (i - x * w)) = source ! i" "element_dest p gs (i div w) < Suc n * run"
proof -
  obtain k where k: "k < run" "i div w = x + k" "i - x * w = k * w + i mod w" by (rule run_byte_offset [OF assms(6,7)])
  have eq: "element_source p gs (n * run + k) = Some (x + k)" using runs_asD(4) [OF assms(2,3) k(1)] assms(4) by simp
  have "Suc n * run \<le> prod_list (concat gs)" using runs_asD(1) [OF assms(2)] assms(3) by (metis Suc_leI mult_le_mono1)
  then have "n * run + k < prod_list (concat gs)" using k(1) by simp
  from element_source_inverse(2) [OF assms(1) this eq] k show "element_dest p gs (i div w) < Suc n * run" by simp
  have pos: "n * run * w + (i - x * w) = (n * run + k) * w + i mod w" using k(3) by (simp add: add_mult_distrib)
  have "(n * run * w + (i - x * w)) div w = n * run + k" "(n * run * w + (i - x * w)) mod w = i mod w"
    unfolding pos using assms(5) by simp_all
  moreover have "(x + k) * w + i mod w = i" using k(2) by (metis div_mult_mod_eq)
  ultimately show "arranged_byte p gs source w (n * run * w + (i - x * w)) = source ! i"
    using eq by (simp add: arranged_byte_def)
qed

lemma inverse_copy:
  assumes "arranged p gs" "runs_as p gs m run" "unat (lp_dest_elements p) * unat element < 2 ^ 64" "n < m"
    and "length destination = unat (lp_dest_elements p) * unat element" "length b = unat (lp_source_elements p) * unat element"
    and "element_source p gs (n * run) = Some x"
  obtains out where "inverse_visit element destination (visit_at p gs run n) b = Some out" "length out = length b"
    "\<And>i. i < length b \<Longrightarrow> out ! i = (if x * unat element \<le> i \<and> i < x * unat element + run * unat element
      then destination ! (n * run * unat element + (i - x * unat element)) else b ! i)"
proof -
  let ?w = "unat element"
  note scaled = run_scaled [OF assms(1-4)] and sourced = run_sourced [OF assms(1-4,7)]
  obtain piece where pc: "slice_bytes destination (n * run * ?w) (run * ?w) = Some piece" "length piece = run * ?w"
    "\<And>i. i < run * ?w \<Longrightarrow> piece ! i = destination ! (n * run * ?w + i)"
    using slice_bytes_nth [of "n * run * ?w" "run * ?w" destination] scaled(1) assms(5) by metis
  obtain out where "copy_into b (x * ?w) piece = Some out" "length out = length b"
    "\<And>i. i < length b \<Longrightarrow> out ! i = (if x * ?w \<le> i \<and> i < x * ?w + length piece then piece ! (i - x * ?w) else b ! i)"
    by (rule copy_into_nth [of "x * ?w" piece b]) (use sourced(1) pc(2) assms(6) in auto)
  then show thesis using assms(7) scaled sourced(2) pc
    by (intro that [of out]) (auto simp: inverse_visit_def visit_at_def)
qed

lemma plan_apply_inverse_bytes:
  assumes "arranged p gs" "unat (lp_dest_elements p) * unat element < 2 ^ 64"
    and "length source = unat (lp_source_elements p) * unat element"
    and "length destination = unat (lp_dest_elements p) * unat element"
    and "\<And>i. i < length destination \<Longrightarrow> destination ! i = arranged_byte p gs source (unat element) i"
    and "length blank = length source"
  shows "plan_apply_inverse p destination blank element = Some (Inr source)"
proof -
  let ?w = "unat element"
  obtain m run where runs: "runs_as p gs m run" by (rule nat_runs [OF assms(1)])
  have inside: "i div ?w < prod_list (map unat (lp_shape p))" if "i < length source" for i
    using that assms(3) arranged_sizes(3) [OF assms(1)] by (simp add: less_mult_imp_div_less)
  let ?P = "\<lambda>n b. length b = length source \<and>
    (\<forall>i<length source. b ! i = (if element_dest p gs (i div ?w) < n * run then source ! i else blank ! i))"
  have "\<exists>out. for_each_run p \<bind> (\<lambda>runs. visit_all (inverse_visit element destination) runs blank) = Some out \<and> ?P m out"
  proof (rule visit_all_runs [OF runs, where P = ?P])
    fix n b
    assume n: "n < m" and b: "?P n b"
    note dest = inverse_run [OF assms(1) runs n inside]
    show "\<exists>b'. inverse_visit element destination (visit_at p gs run n) b = Some b' \<and> ?P (Suc n) b'"
    proof (cases "element_source p gs (n * run)")
      case None
      then show ?thesis using b dest by (intro exI [of _ b]) (auto simp: inverse_visit_def visit_at_def)
    next
      case (Some x)
      have len: "length b = unat (lp_source_elements p) * ?w" using b assms(3) by simp
      obtain out where out: "inverse_visit element destination (visit_at p gs run n) b = Some out" "length out = length b"
        "\<And>i. i < length b \<Longrightarrow> out ! i = (if x * ?w \<le> i \<and> i < x * ?w + run * ?w
          then destination ! (n * run * ?w + (i - x * ?w)) else b ! i)"
        by (rule inverse_copy [OF assms(1) runs assms(2) n assms(4) len Some]) blast
      have "out ! i = (if element_dest p gs (i div ?w) < Suc n * run then source ! i else blank ! i)" if i: "i < length source" for i
      proof (cases "x * ?w \<le> i \<and> i < x * ?w + run * ?w")
        case True
        have w: "0 < ?w" using True by (cases ?w) auto
        note byte = inverse_byte [OF assms(1) runs n Some w, of i] True
        have "n * run * ?w + (i - x * ?w) < length destination"
          using True run_scaled(1) [OF assms(1) runs assms(2) n] assms(4) by linarith
        then show ?thesis using byte assms(5) out(3) i b by simp
      next
        case False
        have "\<not> (k < run \<and> i div ?w = x + k)" for k
        proof
          assume k: "k < run \<and> i div ?w = x + k"
          have "i = (x + k) * ?w + i mod ?w" using k by (metis div_mult_mod_eq)
          moreover have "i mod ?w < ?w" using i assms(3) by (cases ?w) auto
          moreover have "Suc (x + k) * ?w \<le> (x + run) * ?w" using k by (intro mult_le_mono1) simp
          ultimately show False using False by (simp add: add_mult_distrib)
        qed
        then show ?thesis using dest [OF i] out(3) i b False Some by auto
      qed
      then show ?thesis using out(1,2) b by (intro exI [of _ out]) simp
    qed
  qed (simp add: assms(6))
  then obtain out where out: "for_each_run p \<bind> (\<lambda>runs. visit_all (inverse_visit element destination) runs blank) = Some out" "?P m out"
    by blast
  have "out = source"
    using out(2) element_dest_inverse(2) [OF assms(1) inside] runs by (intro nth_equalityI) (simp_all add: runs_as_def)
  then show ?thesis
    using out(1) runs_sized [OF assms(1,2)] runs unfolding runs_as_def by (simp add: plan_apply_inverse_def assms(3,4,6))
qed


section \<open>Ratification\<close>

lemma element_source_total:
  assumes "arranged p gs" "\<not> lp_padded p"
  shows "element_source p gs t \<noteq> None"
proof -
  have flags: "\<not> lp_padded_axis p ! a" if "a < length (lp_shape p)" for a
  proof -
    have pad: "lp_padded p \<longleftrightarrow> True \<in> set (lp_padded_axis p)" "lp_padded_axis p = map2 (\<lambda>d g. unat d < prod_list g) (lp_shape p) gs"
      using assms(1) unfolding arranged_def by blast+
    have "length (lp_padded_axis p) = length (lp_shape p)" using arranged_lengths(1) [OF assms(1)] by (simp add: pad(2))
    then show ?thesis using that assms(2) pad(1) nth_mem by metis
  qed
  have "list_all2 (<) (group_coords gs (sub_digits p t)) (map unat (lp_shape p))"
    unfolding list_all2_conv_all_nth
  proof (intro conjI allI impI)
    show "length (group_coords gs (sub_digits p t)) = length (map unat (lp_shape p))"
      using arranged_lengths(1) [OF assms(1)] by simp
    fix a
    assume "a < length (group_coords gs (sub_digits p t))"
    then have a: "a < length (lp_shape p)" using arranged_lengths(1) [OF assms(1)] by simp
    have "group_coords gs (sub_digits p t) ! a < prod_list (gs ! a)"
      using group_coords_less [OF sub_digits_ok [OF assms(1)], of t] a arranged_lengths(1) [OF assms(1)]
      by (simp add: list_all2_conv_all_nth)
    then show "group_coords gs (sub_digits p t) ! a < map unat (lp_shape p) ! a"
      using arranged_dim(2,3) [OF assms(1) a] flags [OF a] a by simp
  qed
  then show ?thesis by (simp add: element_source_def Let_def)
qed

lemma mapped_count:
  assumes "arranged p gs"
  shows "length (filter (\<lambda>t. element_source p gs t \<noteq> None) [0..<prod_list (concat gs)]) = unat (lp_source_elements p)"
proof -
  let ?D = "prod_list (concat gs)" and ?S = "prod_list (map unat (lp_shape p))"
  have "bij_betw (element_dest p gs) {..<?S} {t. t < ?D \<and> element_source p gs t \<noteq> None}"
  proof (rule bij_betw_byWitness [where f' = "\<lambda>t. the (element_source p gs t)"])
    show "\<forall>x \<in> {..<?S}. the (element_source p gs (element_dest p gs x)) = x"
      using element_dest_inverse(1) [OF assms] by simp
    show "\<forall>t \<in> {t. t < ?D \<and> element_source p gs t \<noteq> None}. element_dest p gs (the (element_source p gs t)) = t"
      using element_source_inverse(2) [OF assms] by auto
    show "element_dest p gs ` {..<?S} \<subseteq> {t. t < ?D \<and> element_source p gs t \<noteq> None}"
      using element_dest_inverse [OF assms] by auto
    show "(\<lambda>t. the (element_source p gs t)) ` {t. t < ?D \<and> element_source p gs t \<noteq> None} \<subseteq> {..<?S}"
      using element_source_inverse(1) [OF assms] by auto
  qed
  from bij_betw_same_card [OF this] have "card {t. t < ?D \<and> element_source p gs t \<noteq> None} = ?S" by simp
  moreover have "set (filter (\<lambda>t. element_source p gs t \<noteq> None) [0..<?D]) = {t. t < ?D \<and> element_source p gs t \<noteq> None}" by auto
  moreover have "distinct (filter (\<lambda>t. element_source p gs t \<noteq> None) [0..<?D])" by simp
  ultimately show ?thesis using distinct_card arranged_sizes(3) [OF assms] by metis
qed

lemma padding_zero:
  assumes "arranged p gs" "unat (lp_dest_elements p) * unat element < 2 ^ 64" "t < prod_list (concat gs)" "element_source p gs t = None"
    and "length out = unat (lp_dest_elements p) * unat element"
    and "\<And>i. i < length out \<Longrightarrow> out ! i = arranged_byte p gs source (unat element) i"
  shows "slice_bytes out (unat (of_nat t * element :: u64)) (unat element) = Some (replicate (unat element) 0)"
proof -
  let ?w = "unat element"
  note D = arranged_sizes [OF assms(1)]
  have "Suc t * ?w \<le> prod_list (concat gs) * ?w" using assms(3) by (intro mult_le_mono1) simp
  then have fits: "t * ?w + ?w \<le> length out" using assms(5) D(1) by (simp add: add.commute)
  then have at: "unat (of_nat t * element :: u64) = t * ?w" using assms(2,3,5) D(2) by (intro unat_scaled) linarith+
  obtain piece where piece: "slice_bytes out (t * ?w) ?w = Some piece" "length piece = ?w"
    "\<And>i. i < ?w \<Longrightarrow> piece ! i = out ! (t * ?w + i)" using slice_bytes_nth [OF fits] by metis
  have "piece = replicate ?w 0"
    using piece(2,3) assms(4,6) fits by (intro nth_equalityI) (simp_all add: arranged_byte_def)
  then show ?thesis using piece(1) at by simp
qed

lemma those_all: "(\<And>x. x \<in> set xs \<Longrightarrow> f x = Some c) \<Longrightarrow> those (map f xs) = Some (replicate (length xs) c)"
  by (induction xs) simp_all

lemma length_tags: "length (concat (map tag_bytes xs)) = length xs * 4"
  by (induction xs) (simp_all add: tag_bytes_def)

text \<open>Every check of the probe succeeds.\<close>

lemma ratify_probe_arranged:
  assumes "arranged p gs" "unat (lp_dest_elements p) * unat ELEMENT < 2 ^ 64"
  shows "ratify_probe handle shape p = Some (Inr \<lparr>pb_shape = shape, pb_dest_elements = lp_dest_elements p, pb_padded = lp_padded p\<rparr>)"
proof -
  let ?S = "unat (lp_source_elements p)" and ?D = "unat (lp_dest_elements p)"
  define source where "source = concat (map tag_bytes [0..<?S])"
  define blank where "blank = replicate (unat (lp_dest_elements p * ELEMENT)) POISON"
  have len: "length source = ?S * unat ELEMENT" "length blank = ?D * unat ELEMENT"
    using assms(2) by (simp_all add: source_def blank_def length_tags ELEMENT_def unat_word_ariths)
  obtain out where out: "plan_apply p source blank ELEMENT = Some (Inr out)" "length out = length blank"
    "\<And>i. i < length blank \<Longrightarrow> out ! i = arranged_byte p gs source (unat ELEMENT) i"
    by (rule plan_apply_bytes [OF assms len]) blast
  have inv: "plan_apply_inverse p out (replicate (length source) POISON) ELEMENT = Some (Inr source)"
    by (rule plan_apply_inverse_bytes [OF assms len(1)]) (use out(2,3) len in simp_all)
  define visits where "visits = map (\<lambda>t. (of_nat t :: u64, map_option of_nat (element_source p gs t) :: u64 option)) [0..<prod_list (concat gs)]"
  have each: "for_each p = Some visits" unfolding visits_def by (rule for_each_arranged [OF assms(1)])
  have "filter (Not \<circ> is_padding) visits = map (\<lambda>t. (of_nat t, map_option of_nat (element_source p gs t)))
      (filter (\<lambda>t. element_source p gs t \<noteq> None) [0..<prod_list (concat gs)])"
    by (simp add: visits_def filter_map comp_def is_padding_def)
  then have mapped: "of_nat (length (filter (Not \<circ> is_padding) visits)) = lp_source_elements p"
    using mapped_count [OF assms(1)] by simp
  have pads: "map fst (filter is_padding visits) = map of_nat (filter (\<lambda>t. element_source p gs t = None) [0..<prod_list (concat gs)])"
    by (simp add: visits_def filter_map comp_def is_padding_def)
  have slot: "slice_bytes out (unat (slot * ELEMENT)) (unat ELEMENT) = Some (replicate (unat ELEMENT) 0)"
    if "slot \<in> set (map fst (filter is_padding visits))" for slot
  proof -
    obtain t where "t < prod_list (concat gs)" "element_source p gs t = None" "slot = of_nat t"
      using \<open>slot \<in> _\<close> unfolding pads by auto
    then show ?thesis using padding_zero [OF assms(1,2), of t out source] out(2,3) len(2) by simp
  qed
  have zero: "those (map (\<lambda>slot. slice_bytes out (unat (slot * ELEMENT)) (unat ELEMENT)) (map fst (filter is_padding visits))) =
      Some (replicate (length (filter is_padding visits)) (replicate (unat ELEMENT) 0))"
    using those_all [of "map fst (filter is_padding visits)", OF slot] by (simp only: length_map)
  have "lp_padded p \<or> filter is_padding visits = []"
    using pads element_source_total [OF assms(1)] by (auto simp: filter_empty_conv)
  then show ?thesis
    using out(1) each mapped zero inv
    by (simp add: ratify_probe_def Let_def source_def [symmetric] blank_def [symmetric] list_ex_iff)
qed


definition planned_probe :: "layout_morphism \<Rightarrow> u64 list \<Rightarrow> probe option" where
  "planned_probe m shape = (case morphism_plan m shape of Inl _ \<Rightarrow> None
     | Inr p \<Rightarrow> Some \<lparr>pb_shape = shape, pb_dest_elements = lp_dest_elements p, pb_padded = lp_padded p\<rparr>)"

lemma ratify_probes_arranged:
  assumes "layout_check m = Inr ()"
    and "\<And>shape p. shape \<in> set shapes \<Longrightarrow> morphism_plan m shape = Inr p \<Longrightarrow> prod_list (map unat (lp_extents p)) * 4 < 2 ^ 64"
  shows "ratify_probes m shapes = Some (Inr (List.map_filter (planned_probe m) shapes))"
  using assms(2)
proof (induction shapes)
  case (Cons shape shapes)
  have IH: "ratify_probes m shapes = Some (Inr (List.map_filter (planned_probe m) shapes))"
    by (rule Cons.IH) (use Cons.prems in auto)
  show ?case
  proof (cases "morphism_plan m shape")
    case (Inr p)
    have fits: "prod_list (map unat (lp_extents p)) * 4 < 2 ^ 64" by (rule Cons.prems [OF _ Inr]) simp
    then obtain gs where gs: "arranged p gs" using morphism_plan_arranged [OF assms(1) Inr] by auto
    have "map unat (lp_extents p) = concat gs" using gs unfolding arranged_def by blast
    then have "unat (lp_dest_elements p) * unat ELEMENT < 2 ^ 64"
      using fits arranged_sizes(1) [OF gs] by (simp add: ELEMENT_def)
    from ratify_probe_arranged [OF gs this] show ?thesis using IH Inr by (simp add: map_filter_simps planned_probe_def [of m shape])
  qed (use IH in \<open>simp add: map_filter_simps planned_probe_def [of m shape]\<close>)
qed (simp add: map_filter_simps)

lemma check_axes_bound:
  "check_axes handle at axis covered subs = Inr c \<Longrightarrow> (at = 0 \<or> axis < covered) \<Longrightarrow> sub \<in> set subs \<Longrightarrow> sa_axis sub < c"
proof -
  have le: "check_axes handle at axis covered subs = Inr c \<Longrightarrow> (at \<noteq> 0 \<longrightarrow> axis < covered) \<Longrightarrow> at \<noteq> 0 \<Longrightarrow> covered \<le> c"
    for at axis covered subs
    by (induction subs arbitrary: at axis covered) (fastforce split: if_splits)+
  show "check_axes handle at axis covered subs = Inr c \<Longrightarrow> (at = 0 \<or> axis < covered) \<Longrightarrow> sub \<in> set subs \<Longrightarrow> sa_axis sub < c"
  proof (induction subs arbitrary: at axis covered)
    case (Cons s subs)
    then show ?case
      using le [of "at + 1" "sa_axis s" 1 subs] le [of "at + 1" "sa_axis s" "covered + 1" subs] le [of "at + 1" "sa_axis s" covered subs]
      by (fastforce split: if_splits)
  qed simp
qed

lemma probe_alignment_total:
  "(\<And>sub. sub \<in> set subs \<Longrightarrow> sa_axis sub < length alignment) \<Longrightarrow> probe_alignment subs alignment \<noteq> None"
  by (induction subs alignment rule: probe_alignment.induct) (auto split: option.splits)

lemma probe_shapes_total: "layout_check m = Inr () \<Longrightarrow> \<exists>shapes. probe_shapes m = Some shapes"
proof (cases "is_identity m")
  case False
  assume "layout_check m = Inr ()"
  then have "check_axes (morphism_handle m) 0 0 0 (lm_sub_axes m) = Inr (lm_rank m)"
    using False by (auto simp: layout_check_def Let_def result_simps split: if_splits)
  then have "probe_alignment (lm_sub_axes m) (replicate (lm_rank m) 1) \<noteq> None"
    using check_axes_bound by (intro probe_alignment_total) fastforce
  then show ?thesis using False by (auto simp: probe_shapes_def Let_def)
qed (simp add: probe_shapes_def)

end
