(* ===== verification/Layout_Fill.thy ===== *)
theory Layout_Fill
  imports Layout_Copies
begin

text \<open>
  The fill path (layout\_fill.rs): the chunks of a tensor are read, arranged and handed to a sink that
  owns the destination. The sink is an interface: a record of its two calls and of the write through
  the buffer it lends, with its contract as a locale. None is a panic, as in the walk.
\<close>

section \<open>Chunked sources\<close>

record chunked_source =
  cs_chunks :: "bytes list"
  cs_starts :: "u64 list"

fun chunk_starts :: "u64 \<Rightarrow> bytes list \<Rightarrow> u64 list" where
  "chunk_starts at [] = [at]"
| "chunk_starts at (chunk # chunks) = at # chunk_starts (at + of_nat (length chunk)) chunks"

definition chunked_source_new :: "bytes list \<Rightarrow> chunked_source" where
  "chunked_source_new chunks = \<lparr>cs_chunks = chunks, cs_starts = chunk_starts 0 chunks\<rparr>"

definition source_len :: "chunked_source \<Rightarrow> u64" where
  "source_len source = (if cs_starts source = [] then 0 else last (cs_starts source))"

definition source_is_empty :: "chunked_source \<Rightarrow> bool" where
  "source_is_empty source = (source_len source = 0)"

definition source_contiguous :: "chunked_source \<Rightarrow> bytes option" where
  "source_contiguous source = (case cs_chunks source of [only] \<Rightarrow> Some only | _ \<Rightarrow> None)"

text \<open>The search of the standard library: an equal element (\<open>Inr\<close>) or the insertion point (\<open>Inl\<close>).\<close>

function search_base :: "u64 list \<Rightarrow> u64 \<Rightarrow> nat \<Rightarrow> nat \<Rightarrow> nat" where
  "search_base xs x base len =
     (if len \<le> 1 then base
      else let half = len div 2; mid = base + half in
        search_base xs x (if x < xs ! mid then base else mid) (len - half))"
  by pat_completeness auto
termination by (relation "measure (\<lambda>(xs, x, base, len). len)") auto

declare search_base.simps [simp del]

definition binary_search :: "u64 list \<Rightarrow> u64 \<Rightarrow> nat + nat" where
  "binary_search xs x =
     (if xs = [] then Inl 0
      else let base = search_base xs x 0 (length xs) in
        if xs ! base = x then Inr base else Inl (if xs ! base < x then base + 1 else base))"

function read_loop :: "chunked_source \<Rightarrow> nat \<Rightarrow> u64 \<Rightarrow> nat \<Rightarrow> u64 \<Rightarrow> (bytes \<times> u64) option" where
  "read_loop source index cursor want touched =
     (if want = 0 then Some ([], touched)
      else if length (cs_chunks source) \<le> index then None
      else
        let chunk = cs_chunks source ! index;
            within = unat (cursor - cs_starts source ! index);
            take_len = min (length chunk - within) want in
        if length chunk < within then None
        else map_option (\<lambda>(bs, touched). (take take_len (drop within chunk) @ bs, touched))
          (read_loop source (index + 1) (cursor + of_nat take_len) (want - take_len) (touched + 1)))"
  by pat_completeness auto
termination by (relation "measure (\<lambda>(source, index, cursor, want, touched). length (cs_chunks source) - index)") auto

declare read_loop.simps [simp del]

definition source_read_at :: "chunked_source \<Rightarrow> u64 \<Rightarrow> nat \<Rightarrow> u64 \<Rightarrow> (layout_error + bytes \<times> u64) option" where
  "source_read_at source offset want touched =
     (if source_len source < offset + of_nat want then
        Some (Inl (LayoutError_Buffer (unat (source_len source)) (unat (offset + of_nat want))))
      else
        map_option Inr (read_loop source
          (case binary_search (cs_starts source) offset of Inr at \<Rightarrow> at | Inl at \<Rightarrow> at - 1) offset want touched))"


section \<open>The fill\<close>

record 's fill_sink =
  fs_staging :: "nat \<Rightarrow> u64 \<Rightarrow> 's \<Rightarrow> ((layout_error + bytes) \<times> 's) option"
  fs_write :: "bytes \<Rightarrow> 's \<Rightarrow> 's"
  fs_commit :: "'s \<Rightarrow> (layout_error + unit) \<times> 's"

record tensor_fill =
  tf_layout :: layout_morphism
  tf_shape :: "u64 list"
  tf_element_bytes :: u64
  tf_device_offset :: u64

record fill_stats =
  st_source_bytes :: u64
  st_destination_bytes :: u64
  st_padding_bytes :: u64
  st_runs :: u64
  st_chunks :: u64

definition count_run :: "u64 \<Rightarrow> visit \<Rightarrow> fill_stats \<Rightarrow> fill_stats" where
  "count_run element v stats =
     (case v of (to, from, len) \<Rightarrow>
      let stats = stats\<lparr>st_runs := st_runs stats + 1\<rparr> in
      if from = None then stats\<lparr>st_padding_bytes := st_padding_bytes stats + len * element\<rparr> else stats)"

text \<open>One run of the chunked path; a failure stops the copying of the later runs and leaves what was
  staged before.\<close>

definition fill_run :: "chunked_source \<Rightarrow> u64 \<Rightarrow> visit \<Rightarrow> fill_stats \<Rightarrow> bytes \<Rightarrow>
    ((layout_error + fill_stats) \<times> bytes) option" where
  "fill_run source element v stats staging =
     (case v of (to, from, len) \<Rightarrow>
      let at = unat (to * element); span = unat (len * element);
          counted = stats\<lparr>st_runs := st_runs stats + 1\<rparr> in
      if length staging < at + span then None
      else
        case from of
          Some i \<Rightarrow>
            (case source_read_at source (i * element) span (st_chunks counted) of
               None \<Rightarrow> None
             | Some (Inl e) \<Rightarrow> Some (Inl e, staging)
             | Some (Inr (piece, touched)) \<Rightarrow>
                 map_option (\<lambda>staging. (Inr (counted\<lparr>st_chunks := touched\<rparr>), staging)) (copy_into staging at piece))
        | None \<Rightarrow>
            map_option (\<lambda>staging. (Inr (counted\<lparr>st_padding_bytes := st_padding_bytes counted + of_nat span\<rparr>), staging))
              (copy_into staging at (replicate span 0)))"

fun fill_runs :: "chunked_source \<Rightarrow> u64 \<Rightarrow> visit list \<Rightarrow> fill_stats \<Rightarrow> bytes \<Rightarrow>
    ((layout_error + fill_stats) \<times> bytes) option" where
  "fill_runs source element [] stats staging = Some (Inr stats, staging)"
| "fill_runs source element (v # vs) stats staging =
     (case fill_run source element v stats staging of
        None \<Rightarrow> None
      | Some (Inl e, staging) \<Rightarrow> Some (Inl e, staging)
      | Some (Inr stats, staging) \<Rightarrow> fill_runs source element vs stats staging)"

text \<open>The two ways the staging buffer is filled.\<close>

definition fill_staging :: "chunked_source \<Rightarrow> u64 \<Rightarrow> layout_plan \<Rightarrow> fill_stats \<Rightarrow> bytes \<Rightarrow>
    ((layout_error + fill_stats) \<times> bytes) option" where
  "fill_staging source element p stats staging =
     (case source_contiguous source of
        Some whole \<Rightarrow>
          plan_apply p whole staging element \<bind> (\<lambda>applied.
          case applied of
            Inl e \<Rightarrow> Some (Inl e, staging)
          | Inr staging \<Rightarrow>
              map_option (\<lambda>runs. (Inr ((fold (count_run element) runs stats)\<lparr>st_chunks := 1\<rparr>), staging)) (for_each_run p))
      | None \<Rightarrow> for_each_run p \<bind> (\<lambda>runs. fill_runs source element runs stats staging))"

definition fill :: "'s fill_sink \<Rightarrow> chunked_source \<Rightarrow> tensor_fill \<Rightarrow> 's \<Rightarrow> ((layout_error + fill_stats) \<times> 's) option" where
  "fill sink source tensor s =
     (case ensure_ratified (tf_layout tensor) of Inl e \<Rightarrow> Some (Inl e, s) | Inr _ \<Rightarrow>
      let element = tf_element_bytes tensor in
      if element = 0 then Some (Inl (LayoutError_Buffer 0 1), s)
      else
        case morphism_plan (tf_layout tensor) (tf_shape tensor) of Inl e \<Rightarrow> Some (Inl e, s) | Inr p \<Rightarrow>
        let want_source = lp_source_elements p * element;
            destination_bytes = lp_dest_elements p * element in
        if source_len source \<noteq> want_source then
          Some (Inl (LayoutError_Buffer (unat (source_len source)) (unat want_source)), s)
        else
          fs_staging sink (unat destination_bytes) (tf_device_offset tensor) s \<bind> (\<lambda>lent.
          case lent of (Inl e, s) \<Rightarrow> Some (Inl e, s) | (Inr staging, s) \<Rightarrow>
          fill_staging source element p \<lparr>st_source_bytes = want_source, st_destination_bytes = destination_bytes,
            st_padding_bytes = 0, st_runs = 0, st_chunks = 0\<rparr> staging \<bind> (\<lambda>filled.
          case filled of (Inl e, staging) \<Rightarrow> Some (Inl e, fs_write sink staging s) | (Inr stats, staging) \<Rightarrow>
          (case fs_commit sink (fs_write sink staging s) of
             (Inl e, s) \<Rightarrow> Some (Inl e, s)
           | (Inr _, s) \<Rightarrow> Some (Inr stats, s)))))"


section \<open>The host sink\<close>

record host_sink =
  hs_buffer :: bytes
  hs_pending :: "(nat \<times> nat) option"

definition host_with_capacity :: "nat \<Rightarrow> host_sink" where
  "host_with_capacity n = \<lparr>hs_buffer = replicate n 0, hs_pending = None\<rparr>"

definition host_staging :: "nat \<Rightarrow> u64 \<Rightarrow> host_sink \<Rightarrow> ((layout_error + bytes) \<times> host_sink) option" where
  "host_staging n device_offset h =
     (let at = unat device_offset;
          stop = unat (device_offset + of_nat n) in
      if length (hs_buffer h) < stop then Some (Inl (LayoutError_Buffer (length (hs_buffer h)) stop), h)
      else if stop < at then None
      else Some (Inr (take (stop - at) (drop at (hs_buffer h))), h\<lparr>hs_pending := Some (at, n)\<rparr>))"

text \<open>Writes through the lent buffer land at the place it was lent from.\<close>

definition host_write :: "bytes \<Rightarrow> host_sink \<Rightarrow> host_sink" where
  "host_write staging h =
     (case hs_pending h of
        None \<Rightarrow> h
      | Some (at, n) \<Rightarrow> h\<lparr>hs_buffer := take at (hs_buffer h) @ staging @ drop (at + length staging) (hs_buffer h)\<rparr>)"

definition host_commit :: "host_sink \<Rightarrow> (layout_error + unit) \<times> host_sink" where
  "host_commit h = (Inr (), h\<lparr>hs_pending := None\<rparr>)"

definition host :: "host_sink fill_sink" where
  "host = \<lparr>fs_staging = host_staging, fs_write = host_write, fs_commit = host_commit\<rparr>"


section \<open>Reading across chunks\<close>

lemma length_chunk_starts [simp]: "length (chunk_starts at chunks) = Suc (length chunks)"
  by (induction at chunks rule: chunk_starts.induct) simp_all

lemma chunk_starts_nth:
  "i \<le> length chunks \<Longrightarrow> chunk_starts at chunks ! i = at + of_nat (length (concat (take i chunks)))"
proof (induction at chunks arbitrary: i rule: chunk_starts.induct)
  case (2 at chunk chunks)
  then show ?case by (cases i) (simp_all add: add.assoc)
qed simp

lemma cs_chunks_new [simp]: "cs_chunks (chunked_source_new chunks) = chunks"
  by (simp add: chunked_source_new_def)

lemma source_len_new:
  "length (concat chunks) < 2 ^ 64 \<Longrightarrow> unat (source_len (chunked_source_new chunks)) = length (concat chunks)"
proof -
  have "chunk_starts 0 chunks \<noteq> []" by (cases chunks) simp_all
  then have "last (chunk_starts 0 chunks) = of_nat (length (concat chunks))"
    using chunk_starts_nth [of "length chunks" chunks 0] by (simp add: last_conv_nth)
  then show "length (concat chunks) < 2 ^ 64 \<Longrightarrow> ?thesis"
    using \<open>chunk_starts 0 chunks \<noteq> []\<close> by (simp add: source_len_def chunked_source_new_def unat_of_nat)
qed

text \<open>The search keeps an element that is not above the wanted one at its base, and everything behind
  its window is above it.\<close>

lemma search_base_spec:
  assumes "sorted xs" "0 < len" "base + len \<le> length xs" "xs ! 0 \<le> x" "xs ! base \<le> x"
    and "\<And>i. base + len \<le> i \<Longrightarrow> i < length xs \<Longrightarrow> x < xs ! i"
  shows "search_base xs x base len < length xs \<and> xs ! search_base xs x base len \<le> x \<and>
    (\<forall>i. search_base xs x base len < i \<longrightarrow> i < length xs \<longrightarrow> x < xs ! i)"
  using assms
proof (induction xs x base len rule: search_base.induct)
  case (1 xs x base len)
  show ?case
  proof (cases "len \<le> 1")
    case True
    then have "len = 1" "search_base xs x base len = base" using 1(3) by (simp, subst search_base.simps, simp)
    then show ?thesis using 1 by auto
  next
    case False
    let ?half = "len div 2"
    let ?base = "if x < xs ! (base + ?half) then base else base + ?half"
    have above: "x < xs ! i" if i: "?base + (len - ?half) \<le> i" "i < length xs" for i
    proof (cases "x < xs ! (base + ?half)")
      case True
      have "base + ?half \<le> i" using i True by auto
      then have "xs ! (base + ?half) \<le> xs ! i" using i 1(2) by (intro sorted_nth_mono) auto
      with True show ?thesis by (rule order_less_le_trans)
    next
      case False
      then show ?thesis using i 1(7) by auto
    qed
    have eq: "search_base xs x base len = search_base xs x ?base (len - ?half)"
      using False by (subst search_base.simps) (simp only: Let_def if_False)
    have "0 < len - ?half" "?base + (len - ?half) \<le> length xs" "xs ! ?base \<le> x" using False 1(4,6) by auto
    from 1(1) [OF False refl refl 1(2) this(1,2) 1(5) this(3) above] show ?thesis unfolding eq .
  qed
qed


lemma chunk_starts_sorted:
  assumes "length (concat chunks) < 2 ^ 64"
  shows "sorted (chunk_starts 0 chunks)"
proof -
  have "length (concat (take i chunks)) \<le> length (concat (take j chunks))" if "i \<le> j" for i j
    using that by (metis concat_append length_append le_add1 take_add le_iff_add)
  moreover have "length (concat (take i chunks)) < 2 ^ 64" for i
    using assms by (metis concat_append append_take_drop_id length_append add_lessD1)
  ultimately show ?thesis
    unfolding sorted_iff_nth_mono by (simp add: chunk_starts_nth word_le_nat_alt unat_of_nat)
qed

definition chunk_index :: "u64 list \<Rightarrow> u64 \<Rightarrow> nat" where
  "chunk_index starts offset = (case binary_search starts offset of Inr at \<Rightarrow> at | Inl at \<Rightarrow> at - 1)"

lemma chunk_index_spec:
  assumes "length (concat chunks) < 2 ^ 64" "c \<le> length (concat chunks)"
  defines "i \<equiv> chunk_index (chunk_starts 0 chunks) (of_nat c)"
  shows "i \<le> length chunks" "length (concat (take i chunks)) \<le> c"
    "i < length chunks \<Longrightarrow> c < length (concat (take (Suc i) chunks))"
proof -
  let ?xs = "chunk_starts 0 chunks"
  define base where "base = search_base ?xs (of_nat c) 0 (length ?xs)"
  have ne: "?xs \<noteq> []" by (cases chunks) simp_all
  have "?xs ! 0 = 0" using chunk_starts_nth [of 0 chunks 0] by simp
  then have spec: "base < length ?xs" "?xs ! base \<le> of_nat c" "\<And>j. base < j \<Longrightarrow> j < length ?xs \<Longrightarrow> of_nat c < ?xs ! j"
    using search_base_spec [OF chunk_starts_sorted [OF assms(1)], of "length ?xs" 0 "of_nat c"] unfolding base_def by auto
  have i: "i = base" using spec(2) ne unfolding i_def chunk_index_def binary_search_def base_def by (auto simp: Let_def)
  have small: "length (concat (take j chunks)) < 2 ^ 64" for j
    using assms(1) by (metis concat_append append_take_drop_id length_append add_lessD1)
  have c: "c < 2 ^ 64" using assms by simp
  show "i \<le> length chunks" using spec(1) i by simp
  then show "length (concat (take i chunks)) \<le> c"
    using spec(2) i c small [of i] by (simp add: chunk_starts_nth word_le_nat_alt unat_of_nat)
  show "i < length chunks \<Longrightarrow> c < length (concat (take (Suc i) chunks))"
    using spec(3) [of "Suc i"] i c small [of "Suc i"] by (simp add: chunk_starts_nth word_less_nat_alt unat_of_nat)
qed

lemma read_loop_reads:
  assumes "length (concat chunks) < 2 ^ 64"
  shows "length (concat (take index chunks)) \<le> c \<Longrightarrow> (index < length chunks \<longrightarrow> c \<le> length (concat (take (Suc index) chunks))) \<Longrightarrow>
    index \<le> length chunks \<Longrightarrow> c + want \<le> length (concat chunks) \<Longrightarrow>
    \<exists>touched'. read_loop (chunked_source_new chunks) index (of_nat c) want touched =
      Some (take want (drop c (concat chunks)), touched')"
proof (induction "length chunks - index" arbitrary: index c want touched)
  case 0
  then have "want = 0" by simp
  then show ?case by (subst read_loop.simps) simp
next
  case (Suc n)
  let ?source = "chunked_source_new chunks" and ?before = "concat (take index chunks)"
  let ?chunk = "chunks ! index"
  have index: "index < length chunks" using Suc.hyps(2) by simp
  have split: "concat chunks = ?before @ ?chunk @ concat (drop (Suc index) chunks)"
    using index by (metis append_take_drop_id concat.simps(2) concat_append Cons_nth_drop_Suc)
  have upto: "concat (take (Suc index) chunks) = ?before @ ?chunk" using index by (simp add: take_Suc_conv_app_nth)
  have b: "length ?before \<le> c" "c \<le> length ?before + length ?chunk" using Suc.prems(1,2) index upto by simp_all
  let ?within = "c - length ?before"
  let ?len = "min (length ?chunk - ?within) want"
  have "cs_starts ?source ! index = of_nat (length ?before)"
    using index by (simp add: chunked_source_new_def chunk_starts_nth)
  then have "of_nat c - cs_starts ?source ! index = (of_nat ?within :: u64)" using b(1) by (simp add: of_nat_diff)
  moreover have "?within < 2 ^ 64" using b(1) Suc.prems(4) assms by linarith
  ultimately have within: "unat (of_nat c - cs_starts ?source ! index) = ?within" by (simp add: unat_of_nat)
  have piece: "take ?len (drop ?within ?chunk) = take ?len (drop c (concat chunks))"
    unfolding split using b by simp
  have "\<exists>touched'. read_loop ?source (Suc index) (of_nat (c + ?len)) (want - ?len) (touched + 1) =
      Some (take (want - ?len) (drop (c + ?len) (concat chunks)), touched')"
  proof (cases "want \<le> length ?chunk - ?within")
    case True
    then show ?thesis by (subst read_loop.simps) simp
  next
    case False
    have at: "c + ?len = length (concat (take (Suc index) chunks))" using False b upto by simp
    show ?thesis
    proof (rule Suc.hyps(1))
      show "n = length chunks - Suc index" using Suc.hyps(2) by linarith
      show "length (concat (take (Suc index) chunks)) \<le> c + ?len" by (simp only: at)
      have "length (concat (take (Suc index) chunks)) \<le> length (concat (take (Suc (Suc index)) chunks))" if "Suc index < length chunks"
        unfolding take_Suc_conv_app_nth [OF that] by simp
      then show "Suc index < length chunks \<longrightarrow> c + ?len \<le> length (concat (take (Suc (Suc index)) chunks))" by (simp only: at) blast
      show "Suc index \<le> length chunks" using index by simp
      show "c + ?len + (want - ?len) \<le> length (concat chunks)" using Suc.prems(4) by simp
    qed
  qed
  then obtain t where t: "read_loop ?source (Suc index) (of_nat c + of_nat ?len) (want - ?len) (touched + 1) =
      Some (take (want - ?len) (drop (c + ?len) (concat chunks)), t)" by auto
  have join: "take ?len (drop c (concat chunks)) @ take (want - ?len) (drop (c + ?len) (concat chunks)) = take want (drop c (concat chunks))"
    using take_add [of ?len "want - ?len" "drop c (concat chunks)"] by (simp add: add.commute)
  show ?case
  proof (cases "want = 0")
    case True
    then show ?thesis by (subst read_loop.simps) simp
  next
    case False
    have c: "\<not> length chunks \<le> index" "\<not> length ?chunk < ?within" using b index by simp_all
    have "read_loop ?source index (of_nat c) want touched =
        map_option (\<lambda>(bs, touched). (take ?len (drop ?within ?chunk) @ bs, touched))
          (read_loop ?source (Suc index) (of_nat c + of_nat ?len) (want - ?len) (touched + 1))"
      by (subst read_loop.simps) (simp only: Let_def cs_chunks_new if_False False c within Suc_eq_plus1)
    then show ?thesis by (simp only: t piece join option.map prod.case) blast
  qed
qed

lemma source_read_at_reads:
  assumes "length (concat chunks) < 2 ^ 64" "c + want \<le> length (concat chunks)"
  shows "\<exists>touched'. source_read_at (chunked_source_new chunks) (of_nat c) want touched =
    Some (Inr (take want (drop c (concat chunks)), touched'))"
proof -
  have "unat (of_nat c + of_nat want :: u64) = c + want"
    using assms by (simp add: unat_of_nat flip: of_nat_add)
  then have "\<not> source_len (chunked_source_new chunks) < of_nat c + of_nat want"
    using source_len_new [OF assms(1)] assms(2) by (simp add: word_less_nat_alt)
  moreover have "c \<le> length (concat chunks)" using assms(2) by simp
  note i = chunk_index_spec [OF assms(1) this]
  have "\<exists>touched'. read_loop (chunked_source_new chunks) (chunk_index (chunk_starts 0 chunks) (of_nat c)) (of_nat c) want touched =
      Some (take want (drop c (concat chunks)), touched')"
    using i by (intro read_loop_reads [OF assms(1) i(2) _ i(1) assms(2)]) auto
  ultimately show ?thesis
    by (auto simp: source_read_at_def chunk_index_def chunked_source_new_def)
qed

end
