(* ===== verification/Layout_Sinks.thy ===== *)
theory Layout_Sinks
  imports Layout_Fill
begin

text \<open>
  The fill against the copy: the chunked path moves the bytes of the contiguous one, the counted
  padding is what the destination has more than the source, and under the contract of a sink the
  arranged bytes end up in the region that was asked for. The host sink meets the contract.
\<close>

section \<open>The chunked path is the copy\<close>

definition padding_of :: "u64 \<Rightarrow> visit list \<Rightarrow> u64" where
  "padding_of element vs = (\<Sum>(to, from, len) \<leftarrow> vs. if from = None then len * element else 0)"

lemma padding_total:
  assumes "arranged p gs" "for_each_run p = Some runs"
  shows "padding_of element runs = (lp_dest_elements p - lp_source_elements p) * element"
proof -
  let ?visits = "concat (map expand_run runs)"
  let ?spec = "map (\<lambda>t. (of_nat t :: u64, map_option of_nat (element_source p gs t) :: u64 option)) [0..<prod_list (concat gs)]"
  have visits: "?visits = ?spec" using for_each_arranged [OF assms(1)] assms(2) by (simp add: for_each_def)
  have "filter (Not \<circ> is_padding) ?spec = map (\<lambda>t. (of_nat t, map_option of_nat (element_source p gs t)))
      (filter (\<lambda>t. element_source p gs t \<noteq> None) [0..<prod_list (concat gs)])"
    by (simp add: filter_map comp_def is_padding_def)
  then have "length (filter (Not \<circ> is_padding) ?visits) = unat (lp_source_elements p)"
    unfolding visits using mapped_count [OF assms(1)] by simp
  moreover have "length ?visits = unat (lp_dest_elements p)" unfolding visits by (simp add: arranged_sizes(1) [OF assms(1)])
  moreover have "length (filter is_padding ?visits) + length (filter (Not \<circ> is_padding) ?visits) = length ?visits"
    by (simp add: sum_length_filter_compl comp_def)
  ultimately have "length (filter is_padding ?visits) + unat (lp_source_elements p) = unat (lp_dest_elements p)"
    by (simp only:)
  from arg_cong [OF this, of "of_nat :: nat \<Rightarrow> u64"]
  have "of_nat (length (filter is_padding ?visits)) + lp_source_elements p = lp_dest_elements p"
    by (simp only: of_nat_add of_nat_unat ucast_id)
  then have "of_nat (length (filter is_padding ?visits)) = lp_dest_elements p - lp_source_elements p"
    by (simp only: eq_diff_eq)
  moreover have "of_nat (length (filter is_padding (concat (map expand_run vs)))) * element = padding_of element vs" for vs
  proof (induction vs)
    case (Cons v vs)
    obtain to "from" len where v: "v = (to, from, len)" by (cases v)
    have "of_nat (length (filter is_padding (expand_run v))) = (if from = None then len else 0)"
      by (auto simp: v expand_run_def is_padding_def filter_map comp_def)
    then show ?case using Cons by (simp add: padding_of_def v algebra_simps)
  qed (simp add: padding_of_def)
  ultimately show ?thesis by metis
qed

lemma count_runs:
  "st_padding_bytes (fold (count_run element) vs stats) = st_padding_bytes stats + padding_of element vs"
  "st_runs (fold (count_run element) vs stats) = st_runs stats + of_nat (length vs)"
  "st_source_bytes (fold (count_run element) vs stats) = st_source_bytes stats"
  "st_destination_bytes (fold (count_run element) vs stats) = st_destination_bytes stats"
  by (induction vs arbitrary: stats)
    (auto simp: count_run_def padding_of_def Let_def add.assoc add.left_commute add.commute split: prod.splits)

definition stats_after :: "u64 \<Rightarrow> visit list \<Rightarrow> fill_stats \<Rightarrow> fill_stats \<Rightarrow> bool" where
  "stats_after element vs stats stats' \<longleftrightarrow>
     st_padding_bytes stats' = st_padding_bytes stats + padding_of element vs \<and>
     st_runs stats' = st_runs stats + of_nat (length vs) \<and>
     st_source_bytes stats' = st_source_bytes stats \<and> st_destination_bytes stats' = st_destination_bytes stats"

lemma stats_after_Cons:
  "stats_after element [v] stats stats1 \<Longrightarrow> stats_after element vs stats1 stats' \<Longrightarrow> stats_after element (v # vs) stats stats'"
  by (auto simp: stats_after_def padding_of_def)

lemma fill_run_applies:
  assumes "arranged p gs" "runs_as p gs m run" "unat (lp_dest_elements p) * unat element < 2 ^ 64" "n < m"
    and "length (concat chunks) = unat (lp_source_elements p) * unat element"
    and "length staging = unat (lp_dest_elements p) * unat element"
  shows "\<exists>stats' staging'. fill_run (chunked_source_new chunks) element (visit_at p gs run n) stats staging =
      Some (Inr stats', staging') \<and> apply_visit element (concat chunks) (visit_at p gs run n) staging = Some staging' \<and>
    stats_after element [visit_at p gs run n] stats stats'"
proof -
  let ?w = "unat element"
  note scaled = run_scaled [OF assms(1-4)]
  have fits: "n * run * ?w + run * ?w \<le> length staging" using scaled(1) assms(6) by simp
  show ?thesis
  proof (cases "element_source p gs (n * run)")
    case None
    have "of_nat (run * ?w) = (of_nat run * element :: u64)" by simp
    then show ?thesis using None scaled fits
      by (auto simp: fill_run_def apply_visit_def visit_at_def Let_def copy_into_def stats_after_def padding_of_def)
  next
    case (Some x)
    note sourced = run_sourced [OF assms(1-4) Some]
    have total: "length (concat chunks) < 2 ^ 64"
      using assms(5) arranged_sizes(1,4) [OF assms(1)] assms(3) by (metis mult_le_mono1 order_le_less_trans)
    have xw: "x * ?w + run * ?w \<le> length (concat chunks)" using sourced(1) assms(5) by simp
    have "of_nat x * element = (of_nat (x * ?w) :: u64)" by simp
    then obtain t where t: "source_read_at (chunked_source_new chunks) (of_nat x * element) (run * ?w) (st_chunks stats) =
        Some (Inr (take (run * ?w) (drop (x * ?w) (concat chunks)), t))"
      using source_read_at_reads [OF total xw, of "st_chunks stats"] by (metis (no_types))
    show ?thesis using Some scaled fits sourced xw t
      by (auto simp: fill_run_def apply_visit_def visit_at_def Let_def slice_bytes_def copy_into_def stats_after_def padding_of_def
          simp del: length_concat)
  qed
qed

lemma apply_visit_length: "apply_visit element source v staging = Some staging' \<Longrightarrow> length staging' = length staging"
  by (auto simp: apply_visit_def copy_into_def Let_def split: prod.splits option.splits if_splits bind_splits)

lemma fill_runs_applies:
  assumes "arranged p gs" "runs_as p gs m run" "unat (lp_dest_elements p) * unat element < 2 ^ 64"
    and "length (concat chunks) = unat (lp_source_elements p) * unat element"
    and "length staging = unat (lp_dest_elements p) * unat element" "set ns \<subseteq> {..<m}"
  shows "\<exists>stats' staging'. fill_runs (chunked_source_new chunks) element (map (visit_at p gs run) ns) stats staging =
      Some (Inr stats', staging') \<and>
    visit_all (apply_visit element (concat chunks)) (map (visit_at p gs run) ns) staging = Some staging' \<and>
    stats_after element (map (visit_at p gs run) ns) stats stats'"
  using assms(5,6)
proof (induction ns arbitrary: stats staging)
  case Nil
  then show ?case by (simp add: stats_after_def padding_of_def)
next
  case (Cons n ns)
  obtain stats1 staging1 where one: "fill_run (chunked_source_new chunks) element (visit_at p gs run n) stats staging =
      Some (Inr stats1, staging1)" "apply_visit element (concat chunks) (visit_at p gs run n) staging = Some staging1"
    "stats_after element [visit_at p gs run n] stats stats1"
    using fill_run_applies [OF assms(1-3) _ assms(4) Cons.prems(1), of n stats] Cons.prems(2) by auto
  have "length staging1 = unat (lp_dest_elements p) * unat element" using apply_visit_length [OF one(2)] Cons.prems(1) by simp
  from Cons.IH [OF this, of stats1] obtain stats2 staging2 where
    two: "fill_runs (chunked_source_new chunks) element (map (visit_at p gs run) ns) stats1 staging1 = Some (Inr stats2, staging2)"
    "visit_all (apply_visit element (concat chunks)) (map (visit_at p gs run) ns) staging1 = Some staging2"
    "stats_after element (map (visit_at p gs run) ns) stats1 stats2" using Cons.prems(2) by auto
  show ?case using one two stats_after_Cons [OF one(3) two(3)] by simp
qed

text \<open>Both paths stage what the copy writes, with the same statistics apart from the chunks touched.\<close>

lemma fill_staging_applies:
  assumes "arranged p gs" "unat (lp_dest_elements p) * unat element < 2 ^ 64"
    and "length (concat chunks) = unat (lp_source_elements p) * unat element"
    and "length staging = unat (lp_dest_elements p) * unat element"
  shows "\<exists>stats' out runs. fill_staging (chunked_source_new chunks) element p stats staging = Some (Inr stats', out) \<and>
    plan_apply p (concat chunks) staging element = Some (Inr out) \<and> for_each_run p = Some runs \<and> stats_after element runs stats stats'"
proof -
  obtain m run where runs: "runs_as p gs m run" by (rule nat_runs [OF assms(1)])
  have each: "for_each_run p = Some (map (visit_at p gs run) [0..<m])" by (rule runs_asD(3) [OF runs])
  obtain out where out: "plan_apply p (concat chunks) staging element = Some (Inr out)"
    by (rule plan_apply_bytes [OF assms]) blast
  show ?thesis
  proof (cases "source_contiguous (chunked_source_new chunks)")
    case (Some whole)
    then have "concat chunks = whole" by (auto simp: source_contiguous_def split: list.splits)
    then show ?thesis using Some out each
      by (auto simp: fill_staging_def stats_after_def count_runs)
  next
    case None
    have "set [0..<m] \<subseteq> {..<m}" by auto
    from fill_runs_applies [OF assms(1) runs assms(2-4) this, of stats] obtain stats' staging' where
      f: "fill_runs (chunked_source_new chunks) element (map (visit_at p gs run) [0..<m]) stats staging = Some (Inr stats', staging')"
      "visit_all (apply_visit element (concat chunks)) (map (visit_at p gs run) [0..<m]) staging = Some staging'"
      "stats_after element (map (visit_at p gs run) [0..<m]) stats stats'" by blast
    have "plan_apply p (concat chunks) staging element = Some (Inr staging')"
      using runs_sized [OF assms(1,2)] each f(2) by (simp add: plan_apply_def assms(3,4) del: length_concat)
    then show ?thesis using None f each by (simp add: fill_staging_def)
  qed
qed


section \<open>The contract of a sink\<close>

definition filled_stats :: "fill_stats \<Rightarrow> nat \<Rightarrow> nat \<Rightarrow> bool" where
  "filled_stats stats source destination \<longleftrightarrow>
     unat (st_source_bytes stats) = source \<and> unat (st_destination_bytes stats) = destination \<and>
     st_padding_bytes stats = st_destination_bytes stats - st_source_bytes stats"

lemma plan_fits:
  assumes "layout_check m = Inr ()" "morphism_plan m shape = Inr p" "element \<noteq> 0"
    and "prod_list (map unat (lp_extents p)) * unat element < 2 ^ 64"
  obtains gs where "arranged p gs" "unat (lp_dest_elements p) * unat element < 2 ^ 64" "lp_shape p = shape"
proof -
  have "0 < unat element" using assms(3) by (simp add: unat_gt_0)
  then have "prod_list (map unat (lp_extents p)) < 2 ^ 64"
    using assms(4) by (metis le_less_trans mult_le_mono2 nat_mult_1_right Suc_leI One_nat_def)
  then obtain gs where gs: "arranged p gs" "lp_shape p = shape" using morphism_plan_arranged [OF assms(1,2)] by blast
  have "map unat (lp_extents p) = concat gs" using gs unfolding arranged_def by blast
  then show thesis using that gs assms(4) arranged_sizes(1) [OF gs(1)] by simp
qed

locale sink =
  fixes ops :: "'s fill_sink"
    and region :: "nat \<Rightarrow> u64 \<Rightarrow> 's \<Rightarrow> bytes"
    and kept :: "nat \<Rightarrow> u64 \<Rightarrow> 's \<Rightarrow> 's \<Rightarrow> bool"
  assumes staging_sized: "fs_staging ops n offset s = Some (Inr buffer, s') \<Longrightarrow> n < 2 ^ 64 \<Longrightarrow> length buffer = n"
    and commit_stores: "fs_staging ops n offset s = Some (Inr buffer, s') \<Longrightarrow> n < 2 ^ 64 \<Longrightarrow> length staged = n \<Longrightarrow>
      fs_commit ops (fs_write ops staged s') = (Inr u, s'') \<Longrightarrow> region n offset s'' = staged \<and> kept n offset s s''"
begin

lemma fill_staged:
  assumes "layout_check (tf_layout tensor) = Inr ()" "ensure_ratified (tf_layout tensor) = Inr ()"
    and "morphism_plan (tf_layout tensor) (tf_shape tensor) = Inr p" "tf_element_bytes tensor \<noteq> 0"
    and "prod_list (map unat (lp_extents p)) * unat (tf_element_bytes tensor) < 2 ^ 64"
    and "length (concat chunks) = unat (lp_source_elements p) * unat (tf_element_bytes tensor)"
    and "fs_staging ops (unat (lp_dest_elements p * tf_element_bytes tensor)) (tf_device_offset tensor) s = Some (Inr buffer, s')"
  shows "\<exists>out stats. plan_apply p (concat chunks) buffer (tf_element_bytes tensor) = Some (Inr out) \<and>
    length buffer = length out \<and> length out = unat (lp_dest_elements p * tf_element_bytes tensor) \<and>
    filled_stats stats (length (concat chunks)) (length out) \<and>
    fill ops (chunked_source_new chunks) tensor s =
      (case fs_commit ops (fs_write ops out s') of (Inl e, s'') \<Rightarrow> Some (Inl e, s'') | (Inr _, s'') \<Rightarrow> Some (Inr stats, s''))"
proof -
  let ?element = "tf_element_bytes tensor" and ?source = "chunked_source_new chunks"
  obtain gs where gs: "arranged p gs" and Dw: "unat (lp_dest_elements p) * unat ?element < 2 ^ 64"
    by (rule plan_fits [OF assms(1,3,4,5)])
  have Sw: "unat (lp_source_elements p) * unat ?element < 2 ^ 64"
    using arranged_sizes(1,4) [OF gs] Dw by (metis mult_le_mono1 order_le_less_trans)
  have u: "unat (lp_dest_elements p * ?element) = unat (lp_dest_elements p) * unat ?element"
    "unat (lp_source_elements p * ?element) = unat (lp_source_elements p) * unat ?element"
    using Dw Sw by (simp_all add: unat_word_ariths)
  have src: "source_len ?source = lp_source_elements p * ?element"
    using source_len_new [of chunks] assms(6) Sw u(2) by (simp add: word_unat_eq_iff del: length_concat)
  let ?stats = "\<lparr>st_source_bytes = lp_source_elements p * ?element, st_destination_bytes = lp_dest_elements p * ?element,
    st_padding_bytes = 0, st_runs = 0, st_chunks = 0\<rparr>"
  have buffer: "length buffer = unat (lp_dest_elements p) * unat ?element" using staging_sized [OF assms(7)] u(1) Dw by simp
  obtain stats out runs where f: "fill_staging ?source ?element p ?stats buffer = Some (Inr stats, out)"
    "plan_apply p (concat chunks) buffer ?element = Some (Inr out)" "for_each_run p = Some runs" "stats_after ?element runs ?stats stats"
    using fill_staging_applies [OF gs Dw assms(6) buffer] by blast
  have len: "length out = length buffer"
    using plan_apply_bytes [OF gs Dw assms(6) buffer] f(2) by (metis option.inject sum.inject(2))
  have "filled_stats stats (length (concat chunks)) (length out)"
    using f(4) padding_total [OF gs f(3), of ?element] unfolding filled_stats_def stats_after_def
    by (simp add: len buffer assms(6) u left_diff_distrib del: length_concat)
  moreover have "fill ops ?source tensor s =
      (case fs_commit ops (fs_write ops out s') of (Inl e, s'') \<Rightarrow> Some (Inl e, s'') | (Inr _, s'') \<Rightarrow> Some (Inr stats, s''))"
    using assms(2-4,7) src f(1) by (simp add: fill_def Let_def)
  moreover have "length buffer = length out" "length out = unat (lp_dest_elements p * ?element)"
    using len buffer u(1) by simp_all
  ultimately show ?thesis using f(2) by blast
qed

lemma fill_lands:
  assumes "layout_check (tf_layout tensor) = Inr ()" "ensure_ratified (tf_layout tensor) = Inr ()"
    and "morphism_plan (tf_layout tensor) (tf_shape tensor) = Inr p" "tf_element_bytes tensor \<noteq> 0"
    and "prod_list (map unat (lp_extents p)) * unat (tf_element_bytes tensor) < 2 ^ 64"
    and "length (concat chunks) = unat (lp_source_elements p) * unat (tf_element_bytes tensor)"
    and "fs_staging ops (unat (lp_dest_elements p * tf_element_bytes tensor)) (tf_device_offset tensor) s = Some (Inr buffer, s')"
    and "\<And>staged. fst (fs_commit ops (fs_write ops staged s')) = Inr ()"
  shows "\<exists>out stats s''. fill ops (chunked_source_new chunks) tensor s = Some (Inr stats, s'') \<and>
    plan_apply p (concat chunks) buffer (tf_element_bytes tensor) = Some (Inr out) \<and>
    region (length out) (tf_device_offset tensor) s'' = out \<and> kept (length out) (tf_device_offset tensor) s s'' \<and>
    length out = unat (lp_dest_elements p * tf_element_bytes tensor) \<and>
    filled_stats stats (length (concat chunks)) (length out)"
proof -
  let ?n = "unat (lp_dest_elements p * tf_element_bytes tensor)"
  obtain out stats where f: "plan_apply p (concat chunks) buffer (tf_element_bytes tensor) = Some (Inr out)"
    "length out = ?n" "filled_stats stats (length (concat chunks)) (length out)"
    "fill ops (chunked_source_new chunks) tensor s =
      (case fs_commit ops (fs_write ops out s') of (Inl e, s'') \<Rightarrow> Some (Inl e, s'') | (Inr _, s'') \<Rightarrow> Some (Inr stats, s''))"
    using fill_staged [OF assms(1-7)] by blast
  obtain s'' where c: "fs_commit ops (fs_write ops out s') = (Inr (), s'')" using assms(8) [of out] by (metis prod.collapse)
  have n: "?n < 2 ^ 64" using unsigned_less [of "lp_dest_elements p * tf_element_bytes tensor", where 'a = nat] by simp
  show ?thesis using f c commit_stores [OF assms(7) n f(2) c] by auto
qed

end

text \<open>The region of the host sink is the part of its buffer at the offset; the rest stays as it is.\<close>

definition host_region :: "nat \<Rightarrow> u64 \<Rightarrow> host_sink \<Rightarrow> bytes" where
  "host_region n offset h = take n (drop (unat offset) (hs_buffer h))"

definition host_kept :: "nat \<Rightarrow> u64 \<Rightarrow> host_sink \<Rightarrow> host_sink \<Rightarrow> bool" where
  "host_kept n offset h h' \<longleftrightarrow>
     take (unat offset) (hs_buffer h') = take (unat offset) (hs_buffer h) \<and>
     drop (unat offset + n) (hs_buffer h') = drop (unat offset + n) (hs_buffer h)"

lemma host_staging_lends:
  assumes "n < 2 ^ 64" "unat offset + n \<le> length (hs_buffer h)" "length (hs_buffer h) < 2 ^ 64"
  shows "host_staging n offset h = Some (Inr (host_region n offset h), h\<lparr>hs_pending := Some (unat offset, n)\<rparr>)"
proof -
  have "unat (offset + of_nat n) = unat offset + n" using assms by (simp add: unat_word_ariths unat_of_nat)
  then show ?thesis using assms(2) by (simp add: host_staging_def host_region_def Let_def)
qed

interpretation host: sink host host_region host_kept
proof
  fix n offset s buffer s' staged u s''
  assume st: "fs_staging host n offset s = Some (Inr buffer, s')" and n: "n < 2 ^ 64"
  have stop: "unat offset \<le> unat (offset + of_nat n)" "unat (offset + of_nat n) \<le> length (hs_buffer s)"
    and buf: "buffer = take (unat (offset + of_nat n) - unat offset) (drop (unat offset) (hs_buffer s))"
    and s': "s' = s\<lparr>hs_pending := Some (unat offset, n)\<rparr>"
    using st by (auto simp: host_def host_staging_def Let_def split: if_splits)
  have "unat (offset + of_nat n) = unat offset + n"
  proof -
    have "unat (of_nat n :: u64) = n" using n by (simp add: unat_of_nat)
    then show ?thesis using stop(1) by (metis unat_plus_simple word_le_nat_alt)
  qed
  then have fits: "unat offset + n \<le> length (hs_buffer s)" and "length buffer = n" using stop buf by simp_all
  then show "length buffer = n" by simp
  assume "length staged = n" "fs_commit host (fs_write host staged s') = (Inr u, s'')"
  then show "host_region n offset s'' = staged \<and> host_kept n offset s s''"
    using fits by (auto simp: host_def host_commit_def host_write_def s' host_region_def host_kept_def)
qed

text \<open>A copy does not depend on what its destination held.\<close>

lemma plan_apply_blank:
  assumes "arranged p gs" "unat (lp_dest_elements p) * unat element < 2 ^ 64"
    and "length source = unat (lp_source_elements p) * unat element"
    and "length destination = unat (lp_dest_elements p) * unat element" "length blank = length destination"
  shows "plan_apply p source destination element = plan_apply p source blank element"
proof -
  obtain out where out: "plan_apply p source destination element = Some (Inr out)" "length out = length destination"
    "\<And>i. i < length destination \<Longrightarrow> out ! i = arranged_byte p gs source (unat element) i"
    by (rule plan_apply_bytes [OF assms(1-4)]) blast
  have len: "length blank = unat (lp_dest_elements p) * unat element" using assms(4,5) by simp
  obtain out' where out': "plan_apply p source blank element = Some (Inr out')" "length out' = length blank"
    "\<And>i. i < length blank \<Longrightarrow> out' ! i = arranged_byte p gs source (unat element) i"
    by (rule plan_apply_bytes [OF assms(1-3) len]) blast
  have "out = out'" using out out' assms(5) by (intro nth_equalityI) simp_all
  then show ?thesis using out(1) out'(1) by simp
qed

text \<open>The walk meets every element of the source exactly once.\<close>

lemma for_each_covers:
  assumes "arranged p gs"
  shows "\<exists>visits. for_each p = Some visits \<and>
    map fst visits = map of_nat [0..<prod_list (map unat (lp_extents p))] \<and>
    distinct (List.map_filter snd visits) \<and> set (List.map_filter snd visits) = {x. x < lp_source_elements p} \<and>
    unat (lp_source_elements p) = prod_list (map unat (lp_shape p))"
proof -
  let ?D = "prod_list (concat gs)" and ?S = "prod_list (map unat (lp_shape p))"
  let ?visits = "map (\<lambda>t. (of_nat t :: u64, map_option of_nat (element_source p gs t) :: u64 option)) [0..<?D]"
  note S = arranged_sizes [OF assms]
  have ext: "map unat (lp_extents p) = concat gs" using assms unfolding arranged_def by blast
  have small: "?S < 2 ^ 64" using S(3) unsigned_less [of "lp_source_elements p", where 'a = nat] by simp
  have hit: "x < ?S \<and> element_dest p gs x = t" if "t < ?D" "element_source p gs t = Some x" for t x
    using element_source_inverse [OF assms that] by blast
  have "List.map_filter snd ?visits = map (\<lambda>t. of_nat (the (element_source p gs t)))
      (filter (\<lambda>t. element_source p gs t \<noteq> None) [0..<?D])"
    by (auto simp: List.map_filter_def filter_map comp_def)
  moreover have "inj_on (\<lambda>t. of_nat (the (element_source p gs t)) :: u64) {t. t < ?D \<and> element_source p gs t \<noteq> None}"
  proof (rule inj_onI)
    fix t u
    assume t: "t \<in> {t. t < ?D \<and> element_source p gs t \<noteq> None}" and u: "u \<in> {t. t < ?D \<and> element_source p gs t \<noteq> None}"
      and eq: "(of_nat (the (element_source p gs t)) :: u64) = of_nat (the (element_source p gs u))"
    obtain x y where xy: "element_source p gs t = Some x" "element_source p gs u = Some y" using t u by auto
    have h: "x < ?S \<and> element_dest p gs x = t" "y < ?S \<and> element_dest p gs y = u" using hit xy t u by auto
    have "x = y" using arg_cong [OF eq, of unat] h small by (simp add: xy unat_of_nat)
    then show "t = u" using h by simp
  qed
  ultimately have "distinct (List.map_filter snd ?visits)" by (simp add: distinct_map)
  moreover have "set (List.map_filter snd ?visits) = {x. x < lp_source_elements p}"
  proof
    show "set (List.map_filter snd ?visits) \<subseteq> {x. x < lp_source_elements p}"
      using hit small S(3) by (fastforce simp: List.map_filter_def word_less_nat_alt unat_of_nat)
    show "{x. x < lp_source_elements p} \<subseteq> set (List.map_filter snd ?visits)"
    proof
      fix x
      assume "x \<in> {x. x < lp_source_elements p}"
      then have "unat x < ?S" using S(3) by (simp add: word_less_nat_alt)
      note e = element_dest_inverse [OF assms this]
      have "(of_nat (element_dest p gs (unat x)), Some x) \<in> set ?visits" using e by (auto intro!: image_eqI [of _ _ "element_dest p gs (unat x)"])
      then have "x \<in> (\<lambda>v. the (snd v)) ` {v \<in> set ?visits. snd v \<noteq> None}"
        by (intro image_eqI [of _ _ "(of_nat (element_dest p gs (unat x)), Some x)"] CollectI conjI) simp_all
      then show "x \<in> set (List.map_filter snd ?visits)" by (simp only: List.map_filter_def set_map set_filter comp_def)
    qed
  qed
  ultimately show ?thesis using for_each_arranged [OF assms] S(3) by (intro exI [of _ ?visits]) (simp add: ext)
qed

end
