(* ===== verification/Layout_Samples.thy ===== *)
theory Layout_Samples
  imports Layout_Sinks
begin

text \<open>
  Concrete inputs of the layout properties: a record that cuts the columns of a matrix in tiles of two
  and stores the tiles one after the other, its plan for a matrix of two by three elements, which pads,
  and a sink that lends more than it was asked for.
\<close>

definition sample_tiled :: layout_morphism where
  "sample_tiled = \<lparr>lm_format = LAYOUT_MORPHISM_FORMAT, lm_name = ''sample.tiled'', lm_version = 1,
     lm_class = LayoutClass_EndpointDeclared, lm_description = '''', lm_rank = 2,
     lm_sub_axes = [\<lparr>sa_axis = 0, sa_extent = ''d0''\<rparr>, \<lparr>sa_axis = 1, sa_extent = ''ceil(d1 / 2)''\<rparr>,
       \<lparr>sa_axis = 1, sa_extent = ''2''\<rparr>],
     lm_permutation = [1, 0, 2], lm_candidate = False, lm_provenance = [''sample''], lm_digest = ''''\<rparr>"

definition sample_plan :: layout_plan where
  "sample_plan = \<lparr>lp_handle = morphism_handle sample_tiled, lp_shape = [2, 3], lp_axes = [0, 1, 1], lp_extents = [2, 2, 2],
     lp_within = [1, 2, 1], lp_permutation = [1, 0, 2], lp_logical_stride = [3, 1], lp_src_stride = [3, 2, 1],
     lp_padded_axis = [False, True], lp_source_elements = 6, lp_dest_elements = 8, lp_padded = True\<rparr>"

lemma sample_tiled_check: "layout_check sample_tiled = Inr ()"
  by code_simp

lemma sample_numbers: "parse_u64 ''0'' = Some 0" "parse_u64 ''1'' = Some 1" "parse_u64 ''2'' = Some 2"
  by (simp_all add: parse_u64_def from_str_radix_def to_digit_def)

lemmas token_eval = eval_token_def combine_def is_operator_def sample_numbers Let_def

lemma sample_formulas:
  "eval_formula ''d0'' [2, 3] = Inr 2" "eval_formula ''ceil(d1 / 2)'' [2, 3] = Inr 2" "eval_formula ''2'' [2, 3] = Inr 2"
proof -
  have two: "eval_chain [2, 3] True 3 True ''2'' = Inr 2"
    by (subst eval_chain.simps) (simp add: token_eval div_ceil_def)
  have "eval_chain [2, 3] True 1 False ''d1/2'' = Inr 2"
    by (subst eval_chain.simps) (simp add: token_eval two)
  then have "eval_chain [2, 3] False 1 False ''ceil(d1/2)'' = Inr 2"
    by (subst eval_chain.simps) (simp add: token_eval)
  then show "eval_formula ''ceil(d1 / 2)'' [2, 3] = Inr 2" by (simp add: eval_formula_def)
  show "eval_formula ''d0'' [2, 3] = Inr 2" "eval_formula ''2'' [2, 3] = Inr 2"
    unfolding eval_formula_def Let_def by (subst eval_chain.simps; simp add: token_eval)+
qed

lemma sample_tiled_plan: "morphism_plan sample_tiled [2, 3] = Inr sample_plan"
  by (simp add: morphism_plan_def sample_tiled_def sample_plan_def sample_formulas is_identity_def Let_def
      saturating_mul_def upt_rec)

lemma sample_tiled_ratified: "ensure_ratified sample_tiled = Inr ()"
  by (simp add: ensure_ratified_def sample_tiled_def)

definition sample_fill :: tensor_fill where
  "sample_fill = \<lparr>tf_layout = sample_tiled, tf_shape = [2, 3], tf_element_bytes = 1, tf_device_offset = 1\<rparr>"

lemma six: "Suc (Suc (Suc (Suc (Suc (Suc 0))))) = 6"
  by simp

lemma sample_fill_fields [simp]:
  "tf_layout sample_fill = sample_tiled" "tf_shape sample_fill = [2, 3]" "tf_element_bytes sample_fill = 1"
  "tf_device_offset sample_fill = 1"
  by (simp_all add: sample_fill_def)

lemma sample_plan_sizes [simp]:
  "lp_extents sample_plan = [2, 2, 2]" "lp_source_elements sample_plan = 6" "lp_dest_elements sample_plan = 8"
  by (simp_all add: sample_plan_def)

text \<open>A sink that lends one byte more than it was asked for, and the identity arrangement of two bytes.\<close>

definition generous :: "bytes fill_sink" where
  "generous = \<lparr>fs_staging = (\<lambda>n offset s. Some (Inr (replicate (n + 1) 0), s)), fs_write = (\<lambda>staged s. staged),
     fs_commit = (\<lambda>s. (Inr (), s))\<rparr>"

definition sample_contiguous :: layout_morphism where
  "sample_contiguous = \<lparr>lm_format = LAYOUT_MORPHISM_FORMAT, lm_name = ''torch.contiguous'', lm_version = 1,
     lm_class = LayoutClass_Inductor, lm_description = '''', lm_rank = 0, lm_sub_axes = [],
     lm_permutation = [], lm_candidate = False, lm_provenance = [''sample''], lm_digest = ''''\<rparr>"

definition sample_pair :: tensor_fill where
  "sample_pair = \<lparr>tf_layout = sample_contiguous, tf_shape = [2], tf_element_bytes = 1, tf_device_offset = 0\<rparr>"

definition sample_pair_plan :: layout_plan where
  "sample_pair_plan = \<lparr>lp_handle = morphism_handle sample_contiguous, lp_shape = [2], lp_axes = [0], lp_extents = [2],
     lp_within = [1], lp_permutation = [0], lp_logical_stride = [1], lp_src_stride = [1],
     lp_padded_axis = [False], lp_source_elements = 2, lp_dest_elements = 2, lp_padded = False\<rparr>"

lemma sample_pair_check: "layout_check sample_contiguous = Inr ()" "ensure_ratified sample_contiguous = Inr ()"
  by (simp_all add: layout_check_def sample_contiguous_def ensure_ratified_def is_identity_def Let_def)

lemma sample_pair_planned: "morphism_plan sample_contiguous [2] = Inr sample_pair_plan"
  by (simp add: morphism_plan_def sample_contiguous_def sample_pair_plan_def is_identity_def Let_def
      saturating_mul_def upt_rec)

lemma sample_probe_shapes: "probe_shapes sample_contiguous = Some [[2], [2, 3], [2, 3, 4], [2, 3, 4, 5]]"
  by (simp add: probe_shapes_def is_identity_def sample_contiguous_def upt_rec)

lemma sample_probe_extents: "morphism_plan sample_contiguous shape = Inr p \<Longrightarrow> lp_extents p = shape"
  by (auto simp: morphism_plan_def is_identity_def sample_contiguous_def Let_def result_simps split: if_splits)

lemma sample_pair_runs: "for_each_run sample_pair_plan = Some [(0, Some 0, 2)]"
  by (simp add: for_each_run_def sample_pair_plan_def sub_axis_at_def)

lemma sample_pair_reads: "source_read_at (chunked_source_new [[7], [9]]) 0 2 0 = Some (Inr ([7, 9], 2))"
proof -
  have "binary_search [0, 1, 2] (0 :: u64) = Inr 0"
    by (simp add: binary_search_def search_base.simps Let_def)
  moreover have "read_loop (chunked_source_new [[7], [9]]) 0 0 2 0 = Some ([7, 9], 2)"
    by (subst read_loop.simps, simp, subst read_loop.simps, simp add: chunked_source_new_def Let_def, subst read_loop.simps, simp)
  ultimately show ?thesis by (simp add: source_read_at_def chunked_source_new_def source_len_def)
qed

lemma sample_pair_fill:
  assumes "source_len source = 2"
  shows "fill generous source sample_pair s =
    (case fill_staging source 1 sample_pair_plan \<lparr>st_source_bytes = 2, st_destination_bytes = 2, st_padding_bytes = 0,
        st_runs = 0, st_chunks = 0\<rparr> [0, 0, 0] of
       None \<Rightarrow> None | Some (Inl e, staging) \<Rightarrow> Some (Inl e, staging) | Some (Inr stats, staging) \<Rightarrow> Some (Inr stats, staging))"
proof -
  have sizes: "lp_source_elements sample_pair_plan = 2" "lp_dest_elements sample_pair_plan = 2" by (simp_all add: sample_pair_plan_def)
  have lend: "replicate 2 (0 :: u8) = [0, 0]" by (simp add: numeral_2_eq_2)
  show ?thesis using assms
    by (simp add: lend fill_def sample_pair_def sample_pair_check sample_pair_planned sizes generous_def split: option.splits sum.splits prod.splits)
qed

end
