(* ===== verification/Adapter.thy ===== *)
theory Adapter
  imports Contract_Document Layout_Morphism Mixed_Radix
begin

text \<open>
  Layout-only adapters (adapter.rs): the byte runs of a file by the roles its contract gives them, the
  decision whether a target contract can be served from those bytes, the transform inside a tensor, and
  the permute kernel. A reason that the code renders to a text is a constructor with the values of the
  text. None as the value of the kernel is a panic or a loop that does not end.
\<close>

section \<open>Runs and their roles\<close>

datatype not_derivable =
    DuplicateRole str
  | NotRows str
  | PermutedDifferently str
  | PermutedTwice str

datatype adapter_error = AdapterError_SourceMismatch | AdapterError_NotDerivable not_derivable

record source_run =
  sr_role :: str
  sr_tensor :: str
  sr_dtype :: str
  sr_permute :: "permute option"
  sr_offset :: u64
  sr_length :: u64
  sr_rows :: u64
  sr_row_shape :: "u64 list"

datatype transform = Transform_Identity | Transform_Forward permute | Transform_Inverse permute

fun is_identity_transform :: "transform \<Rightarrow> bool" where
  "is_identity_transform Transform_Identity = True"
| "is_identity_transform _ = False"

record derived_tensor =
  dt_name :: str
  dt_dtype :: str
  dt_shape :: "u64 list"
  dt_runs :: "source_run list"
  dt_transform :: transform

definition derived_length :: "derived_tensor \<Rightarrow> u64" where
  "derived_length t = sum_list (map sr_length (dt_runs t))"

definition is_whole_source_tensor :: "derived_tensor \<Rightarrow> bool" where
  "is_whole_source_tensor t =
     (case dt_runs t of [only] \<Rightarrow> sr_rows only = (case dt_shape t of [] \<Rightarrow> 0 | d # _ \<Rightarrow> d) | _ \<Rightarrow> False)"

record adapter =
  ad_tensors :: "derived_tensor list"

datatype conversion_reason =
    Reason_Required str
  | Reason_NoBytes str
  | Reason_NoRuns
  | Reason_Cast str str str
  | Reason_RowShapes str
  | Reason_NothingDescribed
  | Reason_NoPlace str

datatype decision =
    Decision_RunPreserving adapter
  | Decision_Rearranged adapter "str list"
  | Decision_Conversion conversion_reason

fun is_viewable :: "decision \<Rightarrow> bool" where
  "is_viewable (Decision_Conversion reason) = False"
| "is_viewable _ = True"

fun decision_adapter :: "decision \<Rightarrow> adapter option" where
  "decision_adapter (Decision_RunPreserving adapter) = Some adapter"
| "decision_adapter (Decision_Rearranged adapter rearranged) = Some adapter"
| "decision_adapter (Decision_Conversion reason) = None"

definition source_run_of :: "inventory_tensor \<Rightarrow> str \<Rightarrow> u64 \<Rightarrow> u64 \<Rightarrow> adapter_error + source_run" where
  "source_run_of tensor role offset len =
     (let outer = max (case inv_shape tensor of [] \<Rightarrow> 1 | d # _ \<Rightarrow> d) 1;
          row_bytes = inv_length tensor div outer in
      if row_bytes = 0 \<or> \<not> is_multiple_of len row_bytes then Inl (AdapterError_NotDerivable (NotRows role))
      else Inr \<lparr>sr_role = role, sr_tensor = inv_name tensor, sr_dtype = inv_dtype tensor, sr_permute = None,
        sr_offset = offset, sr_length = len, sr_rows = len div row_bytes, sr_row_shape = drop 1 (inv_shape tensor)\<rparr>)"

fun part_runs :: "inventory_tensor \<Rightarrow> permute option \<Rightarrow> str \<Rightarrow> u64 \<Rightarrow> fusion_run list \<Rightarrow> (str \<times> source_run) list \<Rightarrow>
    adapter_error + (str \<times> source_run) list" where
  "part_runs tensor perm base offset [] runs = Inr runs"
| "part_runs tensor perm base offset (part # parts) runs =
     (let role = base @ run_role part in
      and_then (source_run_of tensor role offset (run_length part)) (\<lambda>run.
        if map_of runs role \<noteq> None then Inl (AdapterError_NotDerivable (DuplicateRole role))
        else part_runs tensor perm base (offset + run_length part) parts
          (bt_insert role (run\<lparr>sr_permute := perm\<rparr>) runs)))"

fun tensor_runs :: "contract \<Rightarrow> inventory_tensor list \<Rightarrow> (str \<times> source_run) list \<Rightarrow>
    adapter_error + (str \<times> source_run) list" where
  "tensor_runs c [] runs = Inr runs"
| "tensor_runs c (tensor # tensors) runs =
     (case entry_for c (inv_name tensor) of
        None \<Rightarrow> tensor_runs c tensors runs
      | Some entry \<Rightarrow>
          and_then (ok_or (captures (tp_pattern entry) (inv_name tensor)) AdapterError_SourceMismatch) (\<lambda>values.
          and_then (ok_or (instantiate (tp_role entry) values) AdapterError_SourceMismatch) (\<lambda>base.
          let parts = (case runs_of c (inv_name tensor) (inv_shape tensor) (inv_length tensor) of
                Some parts \<Rightarrow> parts
              | None \<Rightarrow> [fusion_run_whole (inv_length tensor)]) in
          and_then (part_runs tensor (tp_permute entry) base (inv_offset tensor) parts runs) (\<lambda>runs.
          tensor_runs c tensors runs))))"

definition role_runs :: "contract \<Rightarrow> tensor_inventory \<Rightarrow> adapter_error + (str \<times> source_run) list" where
  "role_runs c inventory = tensor_runs c (inv_tensors inventory) []"


section \<open>The decision\<close>

definition part_suffix :: "fusion \<Rightarrow> nat \<Rightarrow> fusion_part \<Rightarrow> str" where
  "part_suffix f g part =
     (if part_role part = [] then [] else CHR ''#'' # part_role part) @
     (if 1 < fus_groups f then CHR ''@'' # to_decimal g else [])"

definition entry_suffixes :: "tensor_pattern \<Rightarrow> str list" where
  "entry_suffixes entry =
     (case tp_fusion entry of
        None \<Rightarrow> [[]]
      | Some f \<Rightarrow> concat (map (\<lambda>g. map (part_suffix f g) (fus_parts f)) [0..<unat (fus_groups f)]))"

definition strip_suffix :: "str \<Rightarrow> str \<Rightarrow> str option" where
  "strip_suffix suf s = map_option rev (strip_prefix (rev suf) (rev s))"

datatype derivation_failure = NotALayoutChange conversion_reason | Inexpressible not_derivable

fun check_runs :: "str \<Rightarrow> source_run \<Rightarrow> source_run list \<Rightarrow> derivation_failure + unit" where
  "check_runs name first [] = Inr ()"
| "check_runs name first (run # runs) =
     (if sr_dtype run \<noteq> sr_dtype first then Inl (NotALayoutChange (Reason_Cast name (sr_dtype first) (sr_dtype run)))
      else if sr_row_shape run \<noteq> sr_row_shape first then Inl (NotALayoutChange (Reason_RowShapes name))
      else if sr_permute run \<noteq> sr_permute first then Inl (Inexpressible (PermutedDifferently name))
      else check_runs name first runs)"

definition transform_between :: "str \<Rightarrow> permute option \<Rightarrow> permute option \<Rightarrow> derivation_failure + transform" where
  "transform_between name source_permute target_permute =
     (case (source_permute, target_permute) of
        (None, None) \<Rightarrow> Inr Transform_Identity
      | (Some source, Some target) \<Rightarrow>
          if source = target then Inr Transform_Identity else Inl (Inexpressible (PermutedTwice name))
      | (None, Some target) \<Rightarrow> Inr (Transform_Forward target)
      | (Some source, None) \<Rightarrow> Inr (Transform_Inverse source))"

definition derive_tensor :: "str \<Rightarrow> source_run list \<Rightarrow> permute option \<Rightarrow> derivation_failure + derived_tensor" where
  "derive_tensor name runs target_permute =
     (case runs of
        [] \<Rightarrow> Inl (NotALayoutChange Reason_NoRuns)
      | first # _ \<Rightarrow>
          and_then (check_runs name first runs) (\<lambda>_.
          and_then (transform_between name (sr_permute first) target_permute) (\<lambda>transform.
          Inr \<lparr>dt_name = name, dt_dtype = sr_dtype first,
            dt_shape = sum_list (map sr_rows runs) # sr_row_shape first, dt_runs = runs, dt_transform = transform\<rparr>)))"

text \<open>The hole values a declaration covers, in the order of the set they are collected in.\<close>

definition entry_captures :: "(str \<times> source_run) list \<Rightarrow> str list \<Rightarrow> tensor_pattern \<Rightarrow> u64 list list" where
  "entry_captures available suffixes entry =
     map fst (fold (\<lambda>values m. bt_insert values () m)
       (concat (map (\<lambda>(role, run). List.map_filter (\<lambda>suf.
          Option.bind (strip_suffix suf role) (captures (tp_role entry))) suffixes) available)) [])"

text \<open>The runs of one derived tensor, or the role that is missing.\<close>

fun collect_runs :: "(str \<times> source_run) list \<Rightarrow> str \<Rightarrow> str list \<Rightarrow> str + source_run list" where
  "collect_runs available base [] = Inr []"
| "collect_runs available base (suf # suffixes) =
     (case map_of available (base @ suf) of
        None \<Rightarrow> Inl (base @ suf)
      | Some run \<Rightarrow> and_then (collect_runs available base suffixes) (\<lambda>runs. Inr (run # runs)))"

text \<open>A loop of \<open>decide\<close> ends with an error, with a decision made early, or with the tensors so far.\<close>

type_synonym 'a early = "adapter_error + decision + 'a"

fun decide_values :: "(str \<times> source_run) list \<Rightarrow> tensor_pattern \<Rightarrow> str list \<Rightarrow> u64 list list \<Rightarrow> derived_tensor list early" where
  "decide_values available entry suffixes [] = Inr (Inr [])"
| "decide_values available entry suffixes (values # rest) =
     and_then (ok_or (instantiate (tp_pattern entry) values) AdapterError_SourceMismatch) (\<lambda>name.
     and_then (ok_or (instantiate (tp_role entry) values) AdapterError_SourceMismatch) (\<lambda>base.
     case collect_runs available base suffixes of
       Inl role \<Rightarrow> Inr (Inl (Decision_Conversion (Reason_NoBytes role)))
     | Inr runs \<Rightarrow>
         (case derive_tensor name runs (tp_permute entry) of
            Inl (NotALayoutChange reason) \<Rightarrow> Inr (Inl (Decision_Conversion reason))
          | Inl (Inexpressible reason) \<Rightarrow> Inl (AdapterError_NotDerivable reason)
          | Inr tensor \<Rightarrow>
              and_then (decide_values available entry suffixes rest) (\<lambda>more.
                Inr (and_then more (\<lambda>tensors. Inr (tensor # tensors)))))))"

fun decide_entries :: "(str \<times> source_run) list \<Rightarrow> tensor_pattern list \<Rightarrow> derived_tensor list early" where
  "decide_entries available [] = Inr (Inr [])"
| "decide_entries available (entry # entries) =
     (let suffixes = entry_suffixes entry;
          values = entry_captures available suffixes entry in
      if values = [] \<and> tp_required entry then
        Inr (Inl (Decision_Conversion (Reason_Required (pat_text (tp_role entry)))))
      else
        and_then (decide_values available entry suffixes values) (\<lambda>decided.
        case decided of
          Inl early \<Rightarrow> Inr (Inl early)
        | Inr tensors \<Rightarrow>
            and_then (decide_entries available entries) (\<lambda>more.
              Inr (and_then more (\<lambda>rest. Inr (tensors @ rest))))))"

definition decide :: "contract \<Rightarrow> tensor_inventory \<Rightarrow> contract \<Rightarrow> adapter_error + decision" where
  "decide source inventory target =
     and_then (role_runs source inventory) (\<lambda>available.
     and_then (decide_entries available (con_tensors target)) (\<lambda>decided.
     case decided of
       Inl early \<Rightarrow> Inr early
     | Inr tensors \<Rightarrow>
         let claimed = concat (map (map sr_role \<circ> dt_runs) tensors);
             rearranged = map dt_name (filter (\<lambda>t. \<not> is_identity_transform (dt_transform t)) tensors) in
         if tensors = [] then Inr (Decision_Conversion Reason_NothingDescribed)
         else
           case find (\<lambda>role. role \<notin> set claimed) (map fst available) of
             Some orphan \<Rightarrow> Inr (Decision_Conversion (Reason_NoPlace orphan))
           | None \<Rightarrow>
               if rearranged = [] then Inr (Decision_RunPreserving \<lparr>ad_tensors = tensors\<rparr>)
               else Inr (Decision_Rearranged \<lparr>ad_tensors = tensors\<rparr> rearranged)))"


section \<open>The permute kernel\<close>

fun step_counter :: "u64 list \<Rightarrow> nat \<Rightarrow> u64 list \<Rightarrow> u64 list" where
  "step_counter out_dims 0 counter = counter"
| "step_counter out_dims (Suc axis) counter =
     (let count = counter ! axis + 1 in
      if count < out_dims ! axis then counter[axis := count]
      else step_counter out_dims axis (counter[axis := 0]))"

partial_function (option) permute_loop ::
    "bytes \<Rightarrow> u64 \<Rightarrow> u64 list \<Rightarrow> u64 list \<Rightarrow> nat \<Rightarrow> u64 \<Rightarrow> u64 list \<Rightarrow> bytes \<Rightarrow> nat \<Rightarrow> bytes option" where
  "permute_loop input element_size out_dims out_strides outer block counter output written =
     (let source = sum_list (map2 (*) counter (take outer out_strides));
          from = unat (source * element_size);
          span = unat (block * element_size) in
      Option.bind (slice_bytes input from span) (\<lambda>piece.
      Option.bind (copy_into output written piece) (\<lambda>output.
        if written + span = length output then Some output
        else permute_loop input element_size out_dims out_strides outer block
          (step_counter out_dims outer counter) output (written + span))))"

definition permute_bytes :: "bytes \<Rightarrow> u64 \<Rightarrow> u64 list \<Rightarrow> nat list \<Rightarrow> bytes option" where
  "permute_bytes input element_size dims axes =
     (let rank = length dims;
          strides = logical_strides dims in
      if list_ex (\<lambda>axis. rank \<le> axis) axes \<or> length axes < rank then None
      else
        let out_dims = map ((!) dims) axes;
            out_strides = map ((!) strides) axes;
            block = (if 0 < rank \<and> axes ! (rank - 1) = rank - 1 then out_dims ! (rank - 1) else 1);
            outer = rank - (if 1 < block then 1 else 0) in
        permute_loop input element_size out_dims out_strides outer block (replicate outer 0)
          (replicate (length input) 0) 0)"

fun invert_loop :: "nat \<Rightarrow> nat list \<Rightarrow> nat list \<Rightarrow> nat list option" where
  "invert_loop position [] undo = Some undo"
| "invert_loop position (axis # axes) undo =
     (if length undo \<le> axis then None else invert_loop (position + 1) axes (undo[axis := position]))"

definition invert_axes :: "nat list \<Rightarrow> nat list option" where
  "invert_axes axes = invert_loop 0 axes (replicate (length axes) 0)"

text \<open>The outer option is None on a panic, the inner one is the value of the code.\<close>

definition transform_apply :: "transform \<Rightarrow> bytes \<Rightarrow> u64 \<Rightarrow> u64 list \<Rightarrow> bytes option option" where
  "transform_apply t bs element_size shape =
     (case t of
        Transform_Identity \<Rightarrow> Some (Some bs)
      | Transform_Forward p \<Rightarrow>
          (case permute_resolve p shape of
             None \<Rightarrow> Some None
           | Some dims \<Rightarrow> map_option Some (permute_bytes bs element_size dims (perm_axes p)))
      | Transform_Inverse p \<Rightarrow>
          (case permute_resolve p shape of
             None \<Rightarrow> Some None
           | Some dims \<Rightarrow>
               if list_ex (\<lambda>axis. length dims \<le> axis) (perm_axes p) then None
               else Option.bind (invert_axes (perm_axes p)) (\<lambda>undo.
                 map_option Some (permute_bytes bs element_size (map ((!) dims) (perm_axes p)) undo))))"

end
