(* ===== verification/Compose.thy ===== *)
theory Compose
  imports Adapter Workspace_Seal
begin

text \<open>
  Composition (compose.rs): a new container out of the objects of a committed one. A re-key or a trim
  writes a new header and inherits the record runs of the tensors it keeps, adoption cuts a file again
  under a contract and inherits every object whose range stays, derivation serves a target contract and
  materialises what is rearranged. The JSON quoting of a string is serde's and a parameter. A panic of
  the code is an error of its own.
\<close>

section \<open>Selecting and inheriting\<close>

datatype compose_reason =
    ComposeReason_Adapter adapter_error
  | ComposeReason_Conversion conversion_reason
  | ComposeReason_ElementSize str
  | ComposeReason_Permute str

datatype compose_error =
    ComposeError_NotATensorContainer
  | ComposeError_Unreadable str
  | ComposeError_UnknownTensor str
  | ComposeError_UnnamedTensor str
  | ComposeError_DuplicateName str
  | ComposeError_UnusableName str
  | ComposeError_NotObjectAligned str
  | ComposeError_HeaderTooLarge
  | ComposeError_NotDerivable compose_reason
  | ComposeError_Plan plan_error
  | ComposeError_Store store_error
  | ComposeError_Panic

datatype unnamed = Unnamed_Refuse | Unnamed_Drop

fun select_loop :: "('t \<Rightarrow> str) \<Rightarrow> (str \<times> str) list \<Rightarrow> unnamed \<Rightarrow> str list \<Rightarrow> 't list \<Rightarrow> compose_error + (str \<times> 't) list" where
  "select_loop name_of names unnamed taken [] = Inr []"
| "select_loop name_of names unnamed taken (tensor # tensors) =
     (case (map_of names (name_of tensor), unnamed) of
        (None, Unnamed_Drop) \<Rightarrow> select_loop name_of names unnamed taken tensors
      | (None, Unnamed_Refuse) \<Rightarrow> Inl (ComposeError_UnnamedTensor (name_of tensor))
      | (Some new, _) \<Rightarrow>
          if new \<in> set taken then Inl (ComposeError_DuplicateName new)
          else and_then (select_loop name_of names unnamed (new # taken) tensors) (\<lambda>kept. Inr ((new, tensor) # kept)))"

definition select :: "('t \<Rightarrow> str) \<Rightarrow> (str \<times> str) list \<Rightarrow> unnamed \<Rightarrow> 't list \<Rightarrow> compose_error + (str \<times> 't) list" where
  "select name_of names unnamed tensors =
     and_then (select_loop name_of names unnamed [] tensors) (\<lambda>kept.
       case find (\<lambda>old. old \<notin> set (map name_of tensors)) (map fst names) of
         Some old \<Rightarrow> Inl (ComposeError_UnknownTensor old)
       | None \<Rightarrow> Inr kept)"

fun inherit_loop :: "u64 \<Rightarrow> u64 \<Rightarrow> u64 \<Rightarrow> file_record list \<Rightarrow> file_record list option" where
  "inherit_loop start stop position [] = Some []"
| "inherit_loop start stop position (r # rs) =
     (let record_end = position + record_length r in
      if record_end \<le> start then inherit_loop start stop record_end rs
      else if stop \<le> position then Some []
      else if position < start \<or> stop < record_end then None
      else map_option (Cons r) (inherit_loop start stop record_end rs))"

definition inherit :: "file_record list \<Rightarrow> u64 \<Rightarrow> u64 \<Rightarrow> file_record list option" where
  "inherit records start len =
     Option.bind (checked_add start len) (\<lambda>stop.
     Option.bind (inherit_loop start stop 0 records) (\<lambda>taken.
       if sum_list (map record_length taken) = len then Some taken else None))"

text \<open>The record runs of several ranges, each with the name its refusal carries.\<close>

fun inherit_all :: "file_record list \<Rightarrow> (u64 \<times> u64 \<times> str) list \<Rightarrow> compose_error + file_record list" where
  "inherit_all records [] = Inr []"
| "inherit_all records ((start, len, name) # ranges) =
     and_then (ok_or (inherit records start len) (ComposeError_NotObjectAligned name)) (\<lambda>taken.
     and_then (inherit_all records ranges) (\<lambda>rest. Inr (taken @ rest)))"

fun put_pieces :: "process_env \<Rightarrow> 'h hasher \<Rightarrow> bytes list \<Rightarrow> object_store \<Rightarrow>
    (compose_error + file_record list) \<times> object_store" where
  "put_pieces env hs [] st = (Inr [], st)"
| "put_pieces env hs (piece # pieces) st =
     (case put_bytes env hs piece st of
        (Inl e, st) \<Rightarrow> (Inl (ComposeError_Store e), st)
      | (Inr a, st) \<Rightarrow>
          op_then (put_pieces env hs pieces st) (\<lambda>records st.
            (Inr (FileRecord_Data (ao_digest a) (ao_length a) # records), st)))"

definition compose_admit :: "process_env \<Rightarrow> 'h hasher \<Rightarrow> bytes \<Rightarrow> object_store \<Rightarrow>
    (compose_error + file_record list) \<times> object_store" where
  "compose_admit env hs bs st = put_pieces env hs (slice_chunks (unat MAX_OBJECT_SIZE) bs) st"


section \<open>The safetensors header\<close>

definition key_text :: "str \<Rightarrow> str" where
  "key_text s = CHR 0x22 # s @ [CHR 0x22]"

text \<open>One declared tensor: its name, element type, shape and length.\<close>

type_synonym declared = "str \<times> str \<times> u64 list \<times> u64"

definition header_entry :: "(str \<Rightarrow> str) \<Rightarrow> u64 \<Rightarrow> declared \<Rightarrow> str" where
  "header_entry quote cursor t =
     (case t of (name, dtype, shape, len) \<Rightarrow>
      quote name @ '':{'' @ key_text ''dtype'' @ '':'' @ quote dtype @ '','' @ key_text ''shape'' @ '':['' @
      join '','' (map decimal_u64 shape) @ ''],'' @ key_text ''data_offsets'' @ '':['' @
      decimal_u64 cursor @ '','' @ decimal_u64 (cursor + len) @ '']}'')"

fun header_entries :: "(str \<Rightarrow> str) \<Rightarrow> u64 \<Rightarrow> declared list \<Rightarrow> str list" where
  "header_entries quote cursor [] = []"
| "header_entries quote cursor ((name, dtype, shape, len) # ts) =
     header_entry quote cursor (name, dtype, shape, len) # header_entries quote (cursor + len) ts"

definition safetensors_header :: "(str \<Rightarrow> str) \<Rightarrow> declared list \<Rightarrow> bytes" where
  "safetensors_header quote tensors =
     (let header = as_bytes (''{'' @ join '','' (header_entries quote 0 tensors) @ ''}'');
          padded = header @ replicate (next_multiple_of (length header) 8 - length header) (byte_of CHR '' '') in
      u64_le (of_nat (length padded)) @ padded)"


section \<open>Re-keying and trimming\<close>

definition SAFETENSORS_METADATA_KEY :: str where
  "SAFETENSORS_METADATA_KEY = ''__metadata__''"

definition st_declared :: "str \<times> tensor_entry \<Rightarrow> declared" where
  "st_declared kept = (case kept of (name, t) \<Rightarrow> (name, te_dtype t, te_shape t, te_end t - te_start t))"

definition st_range :: "u64 \<Rightarrow> str \<times> tensor_entry \<Rightarrow> u64 \<times> u64 \<times> str" where
  "st_range header_end kept = (case kept of (name, t) \<Rightarrow> (header_end + te_start t, te_end t - te_start t, te_name t))"

definition compose_safetensors :: "process_env \<Rightarrow> 'h hasher \<Rightarrow> (bytes \<Rightarrow> json option) \<Rightarrow> (str \<Rightarrow> str) \<Rightarrow> file_record list \<Rightarrow>
    (str \<times> str) list \<Rightarrow> unnamed \<Rightarrow> object_store \<Rightarrow> (compose_error + file_record list) \<times> object_store" where
  "compose_safetensors env hs json_parse quote records names unnamed st =
     op_then (and_then (map_err ComposeError_Plan (st_read_layout json_parse (records_source st records)))
       (\<lambda>found. ok_or found (ComposeError_Unreadable ''safetensors'')), st) (\<lambda>layout st.
     op_then (select te_name names unnamed (st_tensors layout), st) (\<lambda>kept st.
       case find (\<lambda>name. name = [] \<or> name = SAFETENSORS_METADATA_KEY) (map fst kept) of
         Some name \<Rightarrow> (Inl (ComposeError_UnusableName name), st)
       | None \<Rightarrow>
           op_then (compose_admit env hs (safetensors_header quote (map st_declared kept)) st) (\<lambda>header st.
             (map_ok (\<lambda>taken. header @ taken) (inherit_all records (map (st_range (st_header_end layout)) kept)), st))))"

text \<open>The directory of a GGUF container; the offsets grow by the aligned lengths.\<close>

definition gguf_entry :: "u64 \<Rightarrow> str \<times> tensor_info \<Rightarrow> bytes" where
  "gguf_entry offset kept =
     (case kept of (name, t) \<Rightarrow>
      u64_le (of_nat (length name)) @ as_bytes name @ u32_le (ti_dimension_count t) @
      concat (map u64_le (take (unat (ti_dimension_count t)) (ti_dimensions t))) @ u32_le (ti_ggml_type t) @ u64_le offset)"

fun compose_directory :: "u64 \<Rightarrow> u64 \<Rightarrow> (str \<times> tensor_info) list \<Rightarrow> compose_error + bytes" where
  "compose_directory alignment offset [] = Inr []"
| "compose_directory alignment offset ((name, t) # kept) =
     (if length (ti_dimensions t) < unat (ti_dimension_count t) then Inl ComposeError_Panic
      else and_then (ok_or (align_up (ti_length t) alignment) ComposeError_HeaderTooLarge) (\<lambda>padded.
      and_then (compose_directory alignment (offset + padded) kept) (\<lambda>rest. Inr (gguf_entry offset (name, t) @ rest))))"

definition gguf_metadata :: "process_env \<Rightarrow> 'h hasher \<Rightarrow> file_record list \<Rightarrow> gguf_layout \<Rightarrow> nat \<Rightarrow> object_store \<Rightarrow>
    (compose_error + file_record list) \<times> object_store" where
  "gguf_metadata env hs records layout kept st =
     (if kept = length (gl_tensors layout) then
        (ok_or (inherit records 0 (gl_directory_start layout)) (ComposeError_NotObjectAligned ''the metadata block''), st)
      else
        op_then (map_err (ComposeError_Plan \<circ> PlanError_Read)
          (src_read (records_source st records) 0 (unat (gl_directory_start layout))), st) (\<lambda>metadata st.
        if length metadata < 16 then (Inl ComposeError_Panic, st)
        else compose_admit env hs (take 8 metadata @ u64_le (of_nat kept) @ drop 16 metadata) st))"

fun gguf_ranges :: "gguf_layout \<Rightarrow> (str \<times> tensor_info) list \<Rightarrow> compose_error + (u64 \<times> u64 \<times> str) list" where
  "gguf_ranges layout [] = Inr []"
| "gguf_ranges layout ((name, t) # kept) =
     and_then (ok_or (align_up (ti_length t) (gl_alignment layout)) ComposeError_HeaderTooLarge) (\<lambda>padded.
     and_then (gguf_ranges layout kept) (\<lambda>rest. Inr ((gl_data_start layout + ti_offset t, padded, ti_name t) # rest)))"

definition compose_gguf :: "process_env \<Rightarrow> 'h hasher \<Rightarrow> file_record list \<Rightarrow> (str \<times> str) list \<Rightarrow> unnamed \<Rightarrow> object_store \<Rightarrow>
    (compose_error + file_record list) \<times> object_store" where
  "compose_gguf env hs records names unnamed st =
     op_then (and_then (map_err ComposeError_Plan (gguf_read_layout (records_source st records)))
       (\<lambda>found. ok_or found (ComposeError_Unreadable ''gguf'')), st) (\<lambda>layout st.
     op_then (select ti_name names unnamed (gl_tensors layout), st) (\<lambda>kept st.
       case find (\<lambda>name. MAX_TENSOR_NAME_LEN < of_nat (length name) \<or> 0 \<in> set (as_bytes name)) (map fst kept) of
         Some name \<Rightarrow> (Inl (ComposeError_UnusableName name), st)
       | None \<Rightarrow>
           op_then (gguf_metadata env hs records layout (length kept) st) (\<lambda>metadata st.
           op_then (compose_directory (gl_alignment layout) 0 kept, st) (\<lambda>directory st.
           op_then (ok_or (checked_add (gl_directory_start layout) (of_nat (length directory))) ComposeError_HeaderTooLarge, st)
             (\<lambda>directory_end st.
           op_then (if kept = [] then Inr directory_end
             else ok_or (align_up directory_end (gl_alignment layout)) ComposeError_HeaderTooLarge, st) (\<lambda>data_start st.
           op_then (compose_admit env hs directory st) (\<lambda>directory_records st.
           op_then (if directory_end < data_start
             then compose_admit env hs (replicate (unat (data_start - directory_end)) 0) st else (Inr [], st)) (\<lambda>padding st.
             (and_then (gguf_ranges layout kept) (\<lambda>ranges.
               map_ok (\<lambda>taken. metadata @ directory_records @ padding @ taken) (inherit_all records ranges)), st)))))))))"

definition compose :: "process_env \<Rightarrow> 'h hasher \<Rightarrow> (bytes \<Rightarrow> json option) \<Rightarrow> (str \<Rightarrow> str) \<Rightarrow> file_body \<Rightarrow> (str \<times> str) list \<Rightarrow>
    unnamed \<Rightarrow> object_store \<Rightarrow> (compose_error + file_body) \<times> object_store" where
  "compose env hs json_parse quote body names unnamed st =
     (case body of
        FileBody_Blob _ _ \<Rightarrow> (Inl ComposeError_NotATensorContainer, st)
      | FileBody_Tensor fmt stamp _ records \<Rightarrow>
          op_then (case fmt of
              TensorFormat_SafetensorsV1 \<Rightarrow> compose_safetensors env hs json_parse quote records names unnamed st
            | TensorFormat_GgufV1 \<Rightarrow> compose_gguf env hs records names unnamed st) (\<lambda>composed st.
            (Inr (FileBody_Tensor fmt stamp (sum_list (map record_length composed)) composed), st)))"

definition rekey :: "process_env \<Rightarrow> 'h hasher \<Rightarrow> (bytes \<Rightarrow> json option) \<Rightarrow> (str \<Rightarrow> str) \<Rightarrow> file_body \<Rightarrow> (str \<times> str) list \<Rightarrow>
    object_store \<Rightarrow> (compose_error + file_body) \<times> object_store" where
  "rekey env hs json_parse quote body names st = compose env hs json_parse quote body names Unnamed_Refuse st"

definition subset_compose :: "process_env \<Rightarrow> 'h hasher \<Rightarrow> (bytes \<Rightarrow> json option) \<Rightarrow> (str \<Rightarrow> str) \<Rightarrow> file_body \<Rightarrow>
    (str \<times> str) list \<Rightarrow> object_store \<Rightarrow> (compose_error + file_body) \<times> object_store" where
  "subset_compose env hs json_parse quote body names st = compose env hs json_parse quote body names Unnamed_Drop st"


section \<open>Adopting a contract\<close>

fun adopt_ranges :: "u64 \<Rightarrow> file_record list \<Rightarrow> ((u64 \<times> u64) \<times> digest) list" where
  "adopt_ranges position [] = []"
| "adopt_ranges position (FileRecord_Hole len # rs) = adopt_ranges (position + len) rs"
| "adopt_ranges position (FileRecord_Data d len # rs) = ((position, len), d) # adopt_ranges (position + len) rs"

text \<open>A region whose range is committed keeps its object, the others take the admitted ones in order.\<close>

fun assign_regions :: "((u64 \<times> u64) \<times> digest) list \<Rightarrow> region list \<Rightarrow> digest list \<Rightarrow> compose_error + file_record list" where
  "assign_regions ranges [] fresh = Inr []"
| "assign_regions ranges (r # rs) fresh =
     (case map_of ranges (region_range r) of
        Some d \<Rightarrow> and_then (assign_regions ranges rs fresh) (\<lambda>rest. Inr (FileRecord_Data d (reg_length r) # rest))
      | None \<Rightarrow>
          (case fresh of
             [] \<Rightarrow> Inl ComposeError_Panic
           | d # fresh \<Rightarrow> and_then (assign_regions ranges rs fresh) (\<lambda>rest. Inr (FileRecord_Data d (reg_length r) # rest))))"

fun format_name :: "tensor_format \<Rightarrow> str" where
  "format_name TensorFormat_SafetensorsV1 = ''safetensors''"
| "format_name TensorFormat_GgufV1 = ''gguf''"

definition adopt :: "admission_env \<Rightarrow> 'h hasher \<Rightarrow> (bytes \<Rightarrow> digest) \<Rightarrow> (bytes \<Rightarrow> json option) \<Rightarrow> file_body \<Rightarrow> contract option \<Rightarrow>
    object_store \<Rightarrow> (compose_error + file_body) \<times> object_store" where
  "adopt ae hs sha256 json_parse body con st =
     (case body of
        FileBody_Blob _ _ \<Rightarrow> (Inl ComposeError_NotATensorContainer, st)
      | FileBody_Tensor fmt _ _ records \<Rightarrow>
          let source = records_source st records in
          case plan_with sha256 json_parse 0 source con of
            Inl e \<Rightarrow> (Inl (ComposeError_Plan e), st)
          | Inr planned \<Rightarrow>
              if planner_tensor_format (plan_planner planned) \<noteq> Some fmt then
                (Inl (ComposeError_Unreadable (format_name fmt)), st)
              else
                let ranges = by_range (adopt_ranges 0 records);
                    pending = filter (\<lambda>r. map_of ranges (region_range r) = None) (plan_regions planned) in
                case admit_regions (ae_env ae) hs (ae_concurrency ae) (ae_schedule ae (length pending)) source pending st of
                  (Inl e, st) \<Rightarrow> (Inl (ComposeError_Store e), st)
                | (Inr admitted, st) \<Rightarrow>
                    (map_ok (\<lambda>composed. FileBody_Tensor fmt (plan_contract planned)
                       (sum_list (map record_length composed)) composed)
                     (assign_regions ranges (plan_regions planned) (map ao_digest admitted)), st))"


section \<open>Deriving a layout\<close>

text \<open>The runs of a rearranged tensor, read into a buffer of the length of the tensor.\<close>

fun read_runs :: "byte_source \<Rightarrow> nat \<Rightarrow> nat \<Rightarrow> source_run list \<Rightarrow> compose_error + bytes" where
  "read_runs source buffer written [] = Inr (replicate (buffer - written) 0)"
| "read_runs source buffer written (run # runs) =
     (let span = unat (sr_length run) in
      if buffer < written + span then Inl ComposeError_Panic
      else and_then (map_err (ComposeError_Plan \<circ> PlanError_Read) (src_read source (sr_offset run) span)) (\<lambda>part.
        and_then (read_runs source buffer (written + span) runs) (\<lambda>rest. Inr (part @ rest))))"

definition rearrange :: "byte_source \<Rightarrow> derived_tensor \<Rightarrow> compose_error + bytes" where
  "rearrange source t =
     and_then (read_runs source (unat (derived_length t)) 0 (dt_runs t)) (\<lambda>bs.
     let elements = prod_list (dt_shape t);
         element_size = derived_length t div max elements 1 in
     if element_size = 0 then Inl (ComposeError_NotDerivable (ComposeReason_ElementSize (dt_name t)))
     else
       case transform_apply (dt_transform t) bs element_size (dt_shape t) of
         None \<Rightarrow> Inl ComposeError_Panic
       | Some None \<Rightarrow> Inl (ComposeError_NotDerivable (ComposeReason_Permute (dt_name t)))
       | Some (Some moved) \<Rightarrow> Inr moved)"

definition run_range :: "source_run \<Rightarrow> u64 \<times> u64 \<times> str" where
  "run_range run = (sr_offset run, sr_length run, sr_role run)"

fun derive_tensors :: "process_env \<Rightarrow> 'h hasher \<Rightarrow> file_record list \<Rightarrow> derived_tensor list \<Rightarrow> object_store \<Rightarrow>
    (compose_error + file_record list) \<times> object_store" where
  "derive_tensors env hs records [] st = (Inr [], st)"
| "derive_tensors env hs records (t # ts) st =
     op_then (if is_identity_transform (dt_transform t) then (inherit_all records (map run_range (dt_runs t)), st)
       else op_then (rearrange (records_source st records) t, st) (\<lambda>moved st. compose_admit env hs moved st)) (\<lambda>taken st.
     op_then (derive_tensors env hs records ts st) (\<lambda>rest st. (Inr (taken @ rest), st)))"

definition derived_declared :: "derived_tensor \<Rightarrow> declared" where
  "derived_declared t = (dt_name t, dt_dtype t, dt_shape t, derived_length t)"

definition derive_view :: "process_env \<Rightarrow> 'h hasher \<Rightarrow> (bytes \<Rightarrow> digest) \<Rightarrow> (str \<Rightarrow> str) \<Rightarrow> file_record list \<Rightarrow> contract \<Rightarrow>
    adapter \<Rightarrow> object_store \<Rightarrow> (compose_error + file_body) \<times> object_store" where
  "derive_view env hs sha256 quote records target_contract adapter st =
     op_then (compose_admit env hs (safetensors_header quote (map derived_declared (ad_tensors adapter))) st) (\<lambda>header st.
     op_then (derive_tensors env hs records (ad_tensors adapter) st) (\<lambda>taken st.
       let composed = header @ taken in
       (Inr (FileBody_Tensor TensorFormat_SafetensorsV1 (contract_stamp sha256 target_contract)
         (sum_list (map record_length composed)) composed), st)))"

definition derive :: "process_env \<Rightarrow> 'h hasher \<Rightarrow> (bytes \<Rightarrow> digest) \<Rightarrow> (bytes \<Rightarrow> json option) \<Rightarrow> (str \<Rightarrow> str) \<Rightarrow> file_body \<Rightarrow>
    contract \<Rightarrow> contract \<Rightarrow> object_store \<Rightarrow> (compose_error + file_body) \<times> object_store" where
  "derive env hs sha256 json_parse quote body source_contract target_contract st =
     (case body of
        FileBody_Blob _ _ \<Rightarrow> (Inl ComposeError_NotATensorContainer, st)
      | FileBody_Tensor _ _ _ records \<Rightarrow>
          op_then (and_then (map_err ComposeError_Plan (inventory json_parse 0 (records_source st records)))
            (\<lambda>found. ok_or found (ComposeError_Unreadable ''safetensors'')), st) (\<lambda>found st.
          op_then (map_err (ComposeError_NotDerivable \<circ> ComposeReason_Adapter) (decide source_contract found target_contract), st)
            (\<lambda>decision st.
          case decision of
            Decision_Conversion reason \<Rightarrow> (Inl (ComposeError_NotDerivable (ComposeReason_Conversion reason)), st)
          | Decision_RunPreserving adapter \<Rightarrow> derive_view env hs sha256 quote records target_contract adapter st
          | Decision_Rearranged adapter rearranged \<Rightarrow> derive_view env hs sha256 quote records target_contract adapter st)))"

end
