(* ===== verification/Permute_Kernel.thy ===== *)
theory Permute_Kernel
  imports Adapter Layout_Copies
begin

text \<open>
  The permute kernel moves every element where the transposition of the view puts it, block copy or not,
  and the inverted axes undo it.
\<close>

section \<open>The transposition\<close>

text \<open>The source element of an output element: its digits under the permuted extents, put restored in the
  order of the source axes.\<close>

definition transpose_source :: "nat list \<Rightarrow> nat list \<Rightarrow> nat \<Rightarrow> nat" where
  "transpose_source ds axes t = radix_value ds (unpermute axes (radix_digits (map ((!) ds) axes) t))"

definition transposed_index :: "nat list \<Rightarrow> nat list \<Rightarrow> nat \<Rightarrow> nat \<Rightarrow> nat" where
  "transposed_index ds axes w i = transpose_source ds axes (i div w) * w + i mod w"

lemma transpose_source_less:
  assumes "permutes axes" "length ds = length axes" "\<forall>d \<in> set ds. 0 < d"
  shows "transpose_source ds axes t < prod_list ds"
proof -
  have "digits_ok (map ((!) ds) axes) (radix_digits (map ((!) ds) axes) t)"
    using assms set_permuted [OF assms(1,2)] by (intro digits_ok_radix_digits) metis
  from radix_value_less [OF permuted_ok [OF assms(1,2) this]] show ?thesis by (simp add: transpose_source_def)
qed

lemma transpose_source_sum:
  assumes "permutes axes" "length ds = length axes"
  shows "transpose_source ds axes t =
    (\<Sum>i<length axes. radix_digits (map ((!) ds) axes) t ! i * weights ds ! (axes ! i))"
proof -
  let ?f = "\<lambda>j. unpermute axes (radix_digits (map ((!) ds) axes) t) ! j * weights ds ! j"
  have bij: "bij_betw ((!) axes) {..<length axes} {..<length axes}"
    by (rule bij_betw_nth [OF permutes_set(2) [OF assms(1)] refl]) (rule permutes_set(1) [OF assms(1), symmetric])
  have "transpose_source ds axes t = (\<Sum>j<length axes. ?f j)"
    using radix_value_weights [of "unpermute axes (radix_digits (map ((!) ds) axes) t)" ds] assms(2)
    by (simp add: transpose_source_def)
  also have "\<dots> = (\<Sum>i<length axes. ?f (axes ! i))" using sum.reindex_bij_betw [OF bij, of ?f] by simp
  finally show ?thesis by (simp add: unpermute_nth [OF assms(1)])
qed

text \<open>One block of the kernel: the outer digits fix where it starts, and it lies together in the source.\<close>

definition block_of :: "nat list \<Rightarrow> nat list \<Rightarrow> nat \<Rightarrow> bool" where
  "block_of ds axes outer \<longleftrightarrow>
     outer = length axes \<or> (0 < length axes \<and> outer = length axes - 1 \<and> axes ! outer = outer)"

definition block_source :: "nat list \<Rightarrow> nat list \<Rightarrow> nat \<Rightarrow> nat \<Rightarrow> nat" where
  "block_source ds axes outer s =
     (\<Sum>i<outer. radix_digits (take outer (map ((!) ds) axes)) s ! i * weights ds ! (axes ! i))"

lemma block_source_run:
  assumes "permutes axes" "length ds = length axes" "\<forall>d \<in> set ds. 0 < d" "block_of ds axes outer"
    and "k < prod_list (drop outer (map ((!) ds) axes))"
  shows "transpose_source ds axes (s * prod_list (drop outer (map ((!) ds) axes)) + k) = block_source ds axes outer s + k"
proof -
  let ?R = "map ((!) ds) axes" and ?n = "length axes"
  have pos: "\<forall>e \<in> set (drop outer ?R). 0 < e"
    using assms(3) set_permuted [OF assms(1,2)] by (metis in_set_dropD)
  have digits: "radix_digits ?R (s * prod_list (drop outer ?R) + k) = radix_digits (take outer ?R) s @ radix_digits (drop outer ?R) k"
    using radix_digits_split [OF pos assms(5), of "take outer ?R" s] by simp
  have outer: "outer \<le> ?n" using assms(4) by (auto simp: block_of_def)
  then have head: "(radix_digits (take outer ?R) s @ radix_digits (drop outer ?R) k) ! i = radix_digits (take outer ?R) s ! i" if "i < outer" for i
    using that by (simp add: nth_append)
  show ?thesis
  proof (cases "outer = ?n")
    case True
    then have "k = 0" using assms(5) by simp
    then show ?thesis using transpose_source_sum [OF assms(1,2), of "s * prod_list (drop outer ?R) + k"] True head
      unfolding digits by (simp add: block_source_def)
  next
    case False
    then have o: "Suc outer = ?n" "axes ! outer = outer" using assms(4) by (auto simp: block_of_def)
    then have d: "drop outer ?R = [ds ! outer]" using assms(2) by (simp add: Cons_nth_drop_Suc [symmetric])
    have w: "weights ds ! outer = 1" using o(1) assms(2) weights_nth [of outer ds] by simp
    have "k mod ds ! outer = k" using assms(5) d by simp
    then have last: "(radix_digits (take outer ?R) s @ radix_digits (drop outer ?R) k) ! outer = k"
      using o(1) by (simp add: nth_append d)
    show ?thesis using transpose_source_sum [OF assms(1,2), of "s * prod_list (drop outer ?R) + k"] head last
      unfolding digits o(1) [symmetric] sum.lessThan_Suc by (simp add: block_source_def w o(2))
  qed
qed


section \<open>The loop\<close>

lemma step_counter_next:
  assumes "\<forall>d \<in> set (take n out_dims). 0 < unat d" "n \<le> length out_dims" "n \<le> length counter"
    and "take n counter = map of_nat (radix_digits (map unat (take n out_dims)) s)"
  shows "take n (step_counter out_dims n counter) = map of_nat (radix_digits (map unat (take n out_dims)) (Suc s)) \<and>
    drop n (step_counter out_dims n counter) = drop n counter \<and> length (step_counter out_dims n counter) = length counter"
  using assms
proof (induction n arbitrary: counter s)
  case (Suc n)
  let ?e = "unat (out_dims ! n)" and ?R = "map unat (take n out_dims)"
  have R: "map unat (take (Suc n) out_dims) = ?R @ [?e]" using Suc.prems(2) by (simp add: take_Suc_conv_app_nth)
  have e: "0 < ?e" using Suc.prems(1,2) by (simp add: take_Suc_conv_app_nth)
  have c: "take (Suc n) counter = take n counter @ [counter ! n]" using Suc.prems(3) by (simp add: take_Suc_conv_app_nth)
  have eq: "take n counter = map of_nat (radix_digits ?R (s div ?e))" "counter ! n = of_nat (s mod ?e)"
    using Suc.prems(4) unfolding R radix_digits_snoc [OF e] c by simp_all
  have "s mod ?e < ?e" using e by simp
  moreover have "?e < 2 ^ 64" using unsigned_less [of "out_dims ! n", where 'a = nat] by simp
  ultimately have "s mod ?e + 1 < 2 ^ 64" by linarith
  then have "unat (of_nat (s mod ?e + 1) :: u64) = s mod ?e + 1" by (intro unat_of_nat_u64) simp
  then have "unat (of_nat (s mod ?e) + 1 :: u64) = s mod ?e + 1" by (simp only: of_nat_add of_nat_1)
  then have less: "counter ! n + 1 < out_dims ! n \<longleftrightarrow> s mod ?e + 1 < ?e" by (simp add: eq(2) word_less_nat_alt)
  show ?case
  proof (cases "s mod ?e + 1 < ?e")
    case True
    then have step: "step_counter out_dims (Suc n) counter = counter[n := of_nat (s mod ?e + 1)]"
      using less by (simp add: Let_def eq(2) add.commute)
    have "take (Suc n) (counter[n := of_nat (s mod ?e + 1)]) = take n counter @ [of_nat (s mod ?e + 1)]"
      using Suc.prems(3) by (simp add: take_Suc_conv_app_nth)
    then show ?thesis unfolding step R radix_digits_Suc [OF e] using True eq(1) by simp
  next
    case False
    let ?c = "counter[n := 0]"
    have step: "step_counter out_dims (Suc n) counter = step_counter out_dims n ?c" using False less by (simp add: Let_def)
    have IH: "take n (step_counter out_dims n ?c) = map of_nat (radix_digits ?R (Suc (s div ?e))) \<and>
        drop n (step_counter out_dims n ?c) = drop n ?c \<and> length (step_counter out_dims n ?c) = length ?c"
    proof (rule Suc.IH)
      show "\<forall>d \<in> set (take n out_dims). 0 < unat d" using Suc.prems(1,2) by (simp add: take_Suc_conv_app_nth)
      show "n \<le> length out_dims" "n \<le> length ?c" using Suc.prems by simp_all
      show "take n ?c = map of_nat (radix_digits ?R (s div ?e))" using eq(1) by simp
    qed
    have n: "n < length counter" using Suc.prems(3) by simp
    then have dn: "drop n ?c = 0 # drop (Suc n) counter" by (simp add: drop_update_swap Cons_nth_drop_Suc [symmetric])
    have "take (Suc n) (step_counter out_dims n ?c) = take n (step_counter out_dims n ?c) @ [0]"
      using IH dn n by (metis Cons_nth_drop_Suc length_list_update list.inject take_Suc_conv_app_nth)
    moreover have "drop (Suc n) (step_counter out_dims n ?c) = drop (Suc n) counter"
      using IH dn by (metis drop_Suc list.sel(3) tl_drop)
    ultimately show ?thesis unfolding step R radix_digits_Suc [OF e] using IH False by simp
  qed
qed simp


text \<open>The part of the loop that does not change, and what it has to be for the loop to be right.\<close>

definition kernel_ok :: "bytes \<Rightarrow> u64 \<Rightarrow> u64 list \<Rightarrow> nat list \<Rightarrow> nat \<Rightarrow> u64 \<Rightarrow> bool" where
  "kernel_ok input element dims axes outer block \<longleftrightarrow>
     permutes axes \<and> length dims = length axes \<and> 0 \<notin> set dims \<and> element \<noteq> 0 \<and>
     length input = prod_list (map unat dims) * unat element \<and> length input < 2 ^ 64 \<and>
     block_of (map unat dims) axes outer \<and> unat block = prod_list (drop outer (map ((!) (map unat dims)) axes))"

lemma kernel_okD:
  assumes "kernel_ok input element dims axes outer block"
  defines "ds \<equiv> map unat dims"
  shows "permutes axes" "length ds = length axes" "\<forall>d \<in> set ds. 0 < d" "0 < unat element" "outer \<le> length axes"
    "prod_list ds < 2 ^ 64" "map unat (logical_strides dims) = weights ds"
    "prod_list ds = prod_list (take outer (map ((!) ds) axes)) * unat block"
proof -
  show p: "permutes axes" and l: "length ds = length axes" and w: "0 < unat element" and outer: "outer \<le> length axes"
    using assms by (auto simp: kernel_ok_def block_of_def unat_gt_0)
  show pos: "\<forall>d \<in> set ds. 0 < d" using assms by (auto simp: kernel_ok_def unat_gt_0)
  have "prod_list ds \<le> prod_list ds * unat element" using w by (metis One_nat_def Suc_leI mult.right_neutral mult_le_mono2)
  moreover have "prod_list ds * unat element < 2 ^ 64" using assms by (metis kernel_ok_def)
  ultimately show less: "prod_list ds < 2 ^ 64" by (rule order_le_less_trans)
  show "map unat (logical_strides dims) = weights ds"
    using logical_strides_arranged [of dims] less pos by (simp add: ds_def)
  have "prod_list ds = prod_list (take outer (map ((!) ds) axes) @ drop outer (map ((!) ds) axes))"
    using prod_permuted [OF p l] by (simp only: append_take_drop_id)
  moreover have "unat block = prod_list (drop outer (map ((!) ds) axes))" using assms(1) unfolding kernel_ok_def ds_def by blast
  ultimately show "prod_list ds = prod_list (take outer (map ((!) ds) axes)) * unat block" by (simp only: prod_list.append)
qed

lemma block_start:
  assumes "kernel_ok input element dims axes outer block"
  defines "ds \<equiv> map unat dims"
  assumes "s < prod_list (take outer (map ((!) ds) axes))"
  shows "block_source ds axes outer s * unat element + unat block * unat element \<le> length input"
    "unat (sum_list (map2 (*) (map of_nat (radix_digits (take outer (map ((!) ds) axes)) s))
      (take outer (map ((!) (logical_strides dims)) axes))) * element) = block_source ds axes outer s * unat element"
proof -
  note k = kernel_okD [OF assms(1), folded ds_def]
  let ?R = "map ((!) ds) axes" and ?src = "block_source ds axes outer s"
  have b: "block_of ds axes outer" "unat block = prod_list (drop outer ?R)"
    using assms(1) by (simp_all add: kernel_ok_def ds_def)
  have "0 < unat block" unfolding b(2) using k(3) set_permuted [OF k(1,2)] by (intro prod_list_pos) (metis in_set_dropD)
  then have "unat block - 1 < prod_list (drop outer ?R)" using b(2) by simp
  from block_source_run [OF k(1-3) b(1) this, of s]
  have "?src + (unat block - 1) < prod_list ds" using transpose_source_less [OF k(1-3)] by metis
  then have "?src + unat block \<le> prod_list ds" using \<open>0 < unat block\<close> by linarith
  then have "(?src + unat block) * unat element \<le> prod_list ds * unat element" by (rule mult_le_mono1)
  then show fits: "?src * unat element + unat block * unat element \<le> length input"
    using assms(1) by (simp add: kernel_ok_def ds_def add_mult_distrib)
  have small: "length input < 2 ^ 64" using assms(1) by (simp add: kernel_ok_def)
  have stride: "logical_strides dims ! (axes ! i) = of_nat (weights ds ! (axes ! i))" if "i < length axes" for i
  proof -
    have "axes ! i < length (logical_strides dims)"
      using permutes_nth [OF k(1) that] k(2) arg_cong [OF k(7), of length] by simp
    then show ?thesis using k(7) by (metis nth_map of_nat_unat ucast_id)
  qed
  have "sum_list (map2 (*) (map of_nat (radix_digits (take outer ?R) s)) (take outer (map ((!) (logical_strides dims)) axes))) =
      (\<Sum>i<outer. (of_nat (radix_digits (take outer ?R) s ! i) * of_nat (weights ds ! (axes ! i)) :: u64))"
    using k(5) by (simp add: sum_list_sum_nth lessThan_atLeast0 stride)
  also have "\<dots> = of_nat ?src" by (simp add: block_source_def)
  finally show "unat (sum_list (map2 (*) (map of_nat (radix_digits (take outer ?R) s))
      (take outer (map ((!) (logical_strides dims)) axes))) * element) = ?src * unat element"
    using unat_scaled [of ?src element] fits small k(4)
    by (metis add_leD1 le_less_trans mult_le_mono2 nat_mult_1_right Suc_leI One_nat_def)
qed


definition kernel_out :: "bytes \<Rightarrow> u64 \<Rightarrow> u64 list \<Rightarrow> nat list \<Rightarrow> nat \<Rightarrow> bytes \<Rightarrow> bool" where
  "kernel_out input element dims axes n output \<longleftrightarrow> length output = length input \<and>
     (\<forall>i<n. i < length input \<longrightarrow> output ! i = input ! transposed_index (map unat dims) axes (unat element) i)"

lemma kernel_block:
  assumes "kernel_ok input element dims axes outer block"
  defines "ds \<equiv> map unat dims" and "w \<equiv> unat element"
  assumes "s < prod_list (take outer (map ((!) ds) axes))" "kernel_out input element dims axes (s * unat block * w) output"
  obtains piece output' where "slice_bytes input (block_source ds axes outer s * w) (unat block * w) = Some piece"
    "copy_into output (s * unat block * w) piece = Some output'"
    "kernel_out input element dims axes (Suc s * unat block * w) output'"
proof -
  note k = kernel_okD [OF assms(1), folded ds_def]
  let ?M = "prod_list (take outer (map ((!) ds) axes))" and ?b = "unat block" and ?src = "block_source ds axes outer s"
  have len: "length input = ?M * ?b * w" using assms(1) k(8) by (simp add: kernel_ok_def ds_def w_def)
  obtain piece where piece: "slice_bytes input (?src * w) (?b * w) = Some piece" "length piece = ?b * w"
    "\<And>i. i < ?b * w \<Longrightarrow> piece ! i = input ! (?src * w + i)"
    by (rule slice_bytes_nth [OF block_start(1) [OF assms(1) assms(4) [unfolded ds_def], folded ds_def w_def]]) blast
  have "Suc s * (?b * w) \<le> ?M * (?b * w)" using assms(4) by (intro mult_le_mono1) simp
  then have "s * ?b * w + length piece \<le> length output"
    using len piece(2) assms(5) by (simp add: kernel_out_def algebra_simps)
  then obtain output' where out': "copy_into output (s * ?b * w) piece = Some output'" "length output' = length output"
    "\<And>i. i < length output \<Longrightarrow> output' ! i = (if s * ?b * w \<le> i \<and> i < s * ?b * w + length piece then piece ! (i - s * ?b * w) else output ! i)"
    by (rule copy_into_nth) blast
  have "output' ! i = input ! transposed_index ds axes w i" if i: "i < Suc s * ?b * w" "i < length input" for i
  proof (cases "s * ?b * w \<le> i")
    case True
    have "i < s * ?b * w + ?b * w" using i(1) by (simp add: add_mult_distrib)
    from run_byte_offset [OF True this] obtain j where j: "j < ?b" "i div w = s * ?b + j" "i - s * ?b * w = j * w + i mod w" by metis
    have "unat block = prod_list (drop outer (map ((!) ds) axes))" "block_of ds axes outer"
      using assms(1) by (simp_all add: kernel_ok_def ds_def)
    then have "transpose_source ds axes (i div w) = ?src + j"
      using block_source_run [OF k(1-3), of outer j s] j(1,2) by simp
    then have "transposed_index ds axes w i = ?src * w + (i - s * ?b * w)"
      using j(3) by (simp add: transposed_index_def add_mult_distrib)
    moreover have "i - s * ?b * w < ?b * w" using True i(1) by (simp add: add_mult_distrib less_diff_conv2 add.commute)
    ultimately show ?thesis using out'(3) [of i] piece(2,3) True i assms(5) by (simp add: kernel_out_def add_mult_distrib add.commute)
  next
    case False
    then show ?thesis using out'(3) [of i] assms(5) i(2) by (simp add: kernel_out_def ds_def w_def)
  qed
  then have "kernel_out input element dims axes (Suc s * ?b * w) output'"
    using out'(2) assms(5) by (simp add: kernel_out_def ds_def w_def)
  then show thesis by (rule that [OF piece(1) out'(1)])
qed


lemma permute_loop_done:
  assumes "kernel_ok input element dims axes outer block"
  defines "R \<equiv> take outer (map ((!) (map unat dims)) axes)"
  assumes "s < prod_list R" "kernel_out input element dims axes (s * unat block * unat element) held"
    and "counter = map of_nat (radix_digits R s)"
  shows "\<exists>out. permute_loop input element (map ((!) dims) axes) (map ((!) (logical_strides dims)) axes) outer block counter held
      (s * unat block * unat element) = Some out \<and> kernel_out input element dims axes (length input) out"
  using assms(3-)
proof (induction "prod_list R - s" arbitrary: s counter held)
  case (Suc n)
  let ?ds = "map unat dims" and ?w = "unat element" and ?b = "unat block"
  note k = kernel_okD [OF assms(1)]
  note start = block_start [OF assms(1) Suc.prems(1) [unfolded R_def], folded R_def]
  obtain piece held' where step: "slice_bytes input (block_source ?ds axes outer s * ?w) (?b * ?w) = Some piece"
    "copy_into held (s * ?b * ?w) piece = Some held'" "kernel_out input element dims axes (Suc s * ?b * ?w) held'"
    using kernel_block [OF assms(1) Suc.prems(1) [unfolded R_def] Suc.prems(2)] by blast
  have len: "length input = prod_list R * ?b * ?w" using assms(1) k(8) by (simp add: kernel_ok_def R_def)
  have "?b * ?w < 2 ^ 64" using start(1) assms(1) by (auto simp: kernel_ok_def)
  then have span: "unat (block * element) = ?b * ?w" by (simp add: unat_word_ariths)
  have out: "length held' = length input" using step(3) by (simp add: kernel_out_def)
  have unfold_loop: "permute_loop input element (map ((!) dims) axes) (map ((!) (logical_strides dims)) axes) outer block counter held (s * ?b * ?w) =
      (if Suc s * ?b * ?w = length input then Some held'
       else permute_loop input element (map ((!) dims) axes) (map ((!) (logical_strides dims)) axes) outer block
         (step_counter (map ((!) dims) axes) outer counter) held' (Suc s * ?b * ?w))"
    using step(1,2) start(2) span out Suc.prems(3)
    by (subst permute_loop.simps) (simp add: Let_def add_mult_distrib add.commute)
  show ?case
  proof (cases "Suc s * ?b * ?w = length input")
    case True
    then show ?thesis using step(3) unfold_loop by simp
  next
    case False
    then have "Suc s \<noteq> prod_list R" using len by (metis (no_types))
    then have s: "Suc s < prod_list R" using Suc.prems(1) by simp
    have outer: "outer \<le> length axes" "length counter = outer" using k(5) Suc.prems(3) by (simp_all add: R_def)
    have R: "map unat (take outer (map ((!) dims) axes)) = R"
      using permutes_nth [OF k(1)] k(2) by (auto simp: R_def take_map in_set_conv_nth intro!: nth_equalityI)
    have pos: "\<forall>d \<in> set (take outer (map ((!) dims) axes)). 0 < unat d"
      using k(3) set_permuted [OF k(1), of dims] k(2) by (auto dest!: in_set_takeD)
    have "step_counter (map ((!) dims) axes) outer counter = map of_nat (radix_digits R (Suc s))"
      using step_counter_next [OF pos, of counter s] outer Suc.prems(3) unfolding R by (metis length_map order_refl take_all)
    from Suc.hyps(1) [OF _ s step(3) this] show ?thesis using unfold_loop False Suc.hyps(2) by simp
  qed
qed simp

text \<open>The kernel is the transposition.\<close>

lemma permute_bytes_transposes:
  assumes "permutes axes" "length dims = length axes" "0 \<notin> set dims" "element \<noteq> 0"
    and "length input = prod_list (map unat dims) * unat element" "length input < 2 ^ 64"
  shows "\<exists>out. permute_bytes input element dims axes = Some out \<and> length out = length input \<and>
    (\<forall>i<length input. out ! i = input ! transposed_index (map unat dims) axes (unat element) i)"
proof -
  let ?rank = "length dims" and ?R = "map ((!) (map unat dims)) axes"
  define block where "block = (if 0 < ?rank \<and> axes ! (?rank - 1) = ?rank - 1 then map ((!) dims) axes ! (?rank - 1) else 1)"
  define outer where "outer = ?rank - (if 1 < block then 1 else 0)"
  have inside: "axes ! i < ?rank" if "i < ?rank" for i using permutes_nth [OF assms(1)] assms(2) that by simp
  have "block_of (map unat dims) axes outer \<and> unat block = prod_list (drop outer ?R)"
  proof (cases "1 < block")
    case True
    then have c: "0 < ?rank" "axes ! (?rank - 1) = ?rank - 1" "block = dims ! (?rank - 1)" "outer = ?rank - 1"
      using assms(2) by (auto simp: block_def outer_def split: if_splits)
    have "drop outer ?R = [unat (dims ! (?rank - 1))]"
      using c assms(2) Cons_nth_drop_Suc [of outer ?R] by simp
    then show ?thesis using c assms(2) by (simp add: block_of_def)
  next
    case False
    have "block \<noteq> 0" using assms(2,3) inside [of "?rank - 1"] by (auto simp: block_def in_set_conv_nth)
    then have "block = 1" using False by (simp add: word_less_nat_alt word_unat_eq_iff unat_eq_0 [symmetric] not_less le_Suc_eq)
    then show ?thesis using False assms(2) by (simp add: block_of_def outer_def)
  qed
  then have ok: "kernel_ok input element dims axes outer block" using assms by (simp add: kernel_ok_def)
  note k = kernel_okD [OF ok]
  have "0 < prod_list (take outer ?R)"
    using k(3) set_permuted [OF k(1,2)] by (intro prod_list_pos) (metis in_set_takeD)
  moreover have "kernel_out input element dims axes (0 * unat block * unat element) (replicate (length input) 0)" by (simp add: kernel_out_def)
  moreover have "replicate outer 0 = map of_nat (radix_digits (take outer ?R) 0)"
    using k(5) by (simp add: radix_digits_zero)
  ultimately obtain out where out: "permute_loop input element (map ((!) dims) axes) (map ((!) (logical_strides dims)) axes) outer block
      (replicate outer 0) (replicate (length input) 0) (0 * unat block * unat element) = Some out"
    "kernel_out input element dims axes (length input) out"
    using permute_loop_done [OF ok] by blast
  have "\<not> list_ex (\<lambda>axis. ?rank \<le> axis) axes" using inside assms(2) by (auto simp: list_ex_iff in_set_conv_nth not_le)
  then have "permute_bytes input element dims axes = Some out"
    using out(1) assms(2) unfolding permute_bytes_def Let_def block_def [symmetric] outer_def [symmetric]
    by (simp only: if_False less_irrefl mult_0 de_Morgan_disj not_False_eq_True simp_thms)
  then show ?thesis using out(2) by (auto simp: kernel_out_def)
qed



section \<open>Undoing a permute\<close>

lemma invert_loop_places:
  "distinct axes \<Longrightarrow> \<forall>axis \<in> set axes. axis < length undo \<Longrightarrow>
   \<exists>r. invert_loop position axes undo = Some r \<and> length r = length undo \<and>
     (\<forall>q<length axes. r ! (axes ! q) = position + q) \<and> (\<forall>j. j \<notin> set axes \<longrightarrow> r ! j = undo ! j)"
proof (induction axes arbitrary: position undo)
  case (Cons axis axes)
  have "distinct axes" "\<forall>axis' \<in> set axes. axis' < length (undo[axis := position])" using Cons.prems by simp_all
  from Cons.IH [OF this, of "position + 1"] obtain r where
    r: "invert_loop (position + 1) axes (undo[axis := position]) = Some r" "length r = length undo"
    "\<forall>q<length axes. r ! (axes ! q) = position + 1 + q" "\<forall>j. j \<notin> set axes \<longrightarrow> r ! j = undo[axis := position] ! j"
    by auto
  have "r ! ((axis # axes) ! q) = position + q" if "q < length (axis # axes)" for q
    using r(3,4) that Cons.prems by (cases q) auto
  then show ?case using r Cons.prems by auto
qed simp

lemma invert_axes_permutes:
  assumes "permutes axes"
  shows "invert_axes axes = Some (unpermute axes [0..<length axes])"
proof -
  have "\<forall>axis \<in> set axes. axis < length (replicate (length axes) (0 :: nat))" using permutes_set(1) [OF assms] by simp
  from invert_loop_places [OF permutes_set(2) [OF assms] this, of 0] obtain r where
    r: "invert_axes axes = Some r" "length r = length axes" "\<forall>q<length axes. r ! (axes ! q) = q"
    unfolding invert_axes_def by auto
  have "r = unpermute axes [0..<length axes]"
  proof (rule nth_equalityI)
    fix j
    assume "j < length r"
    then obtain q where q: "q < length axes" "axes ! q = j" using permutes_cases [OF assms, of j] r(2) by auto
    have "r ! (axes ! q) = q" using r(3) q(1) by blast
    then have "r ! (axes ! q) = unpermute axes [0..<length axes] ! (axes ! q)"
      unfolding unpermute_nth [OF assms q(1), of "[0..<length axes]"] using q(1) by simp
    then show "r ! j = unpermute axes [0..<length axes] ! j" by (simp only: q(2))
  qed (simp add: r(2))
  then show ?thesis using r(1) by simp
qed

lemma inverse_axes:
  assumes "permutes axes"
  defines "undo \<equiv> unpermute axes [0..<length axes]"
  shows "permutes undo" "length undo = length axes" "\<And>q. q < length axes \<Longrightarrow> undo ! (axes ! q) = q"
    "\<And>j. j < length axes \<Longrightarrow> undo ! j < length axes \<and> axes ! (undo ! j) = j"
proof -
  show len: "length undo = length axes" by (simp add: undo_def)
  show at: "undo ! (axes ! q) = q" if "q < length axes" for q
    using unpermute_nth [OF assms(1) that, of "[0..<length axes]"] that by (simp add: undo_def)
  show "undo ! j < length axes \<and> axes ! (undo ! j) = j" if j: "j < length axes" for j
    using permutes_cases [OF assms(1) j] at by metis
  have "set (map ((!) undo) axes) = set undo" by (rule set_permuted [OF assms(1) len])
  moreover have "map ((!) undo) axes = [0..<length axes]" unfolding undo_def by (rule permute_unpermute [OF assms(1)]) simp
  ultimately have s: "set undo = set [0..<length undo]" by (simp only: len)
  then have "card (set undo) = length undo" by simp
  then have "distinct undo" by (rule card_distinct)
  then show "permutes undo" using s set_eq_iff_mset_eq_distinct [of undo "[0..<length undo]"] by simp
qed

lemma transpose_back:
  assumes "permutes axes" "length ds = length axes" "\<forall>d \<in> set ds. 0 < d" "t < prod_list ds"
  defines "undo \<equiv> unpermute axes [0..<length axes]"
  shows "map ((!) (map ((!) ds) axes)) undo = ds"
    "transpose_source ds axes (transpose_source (map ((!) ds) axes) undo t) = t"
proof -
  note u = inverse_axes [OF assms(1), folded undo_def]
  let ?R = "map ((!) ds) axes"
  show restored: "map ((!) ?R) undo = ds" using u(2,4) assms(2) by (intro nth_equalityI) simp_all
  let ?dt = "radix_digits ds t"
  have len: "length ?dt = length axes" using assms(2) by simp
  have "unpermute undo ?dt = map ((!) ?dt) axes"
  proof (rule nth_equalityI)
    fix q
    assume "q < length (unpermute undo ?dt)"
    then have q: "q < length axes" using u(2) by simp
    have "axes ! q < length undo" using permutes_nth [OF assms(1) q] u(2) by simp
    from unpermute_nth [OF u(1) this, of ?dt] show "unpermute undo ?dt ! q = map ((!) ?dt) axes ! q" using u(3) [OF q] q by simp
  qed (simp add: u(2))
  then have src: "transpose_source ?R undo t = radix_value ?R (map ((!) ?dt) axes)" by (simp add: transpose_source_def restored)
  have "digits_ok ?R (map ((!) ?dt) axes)"
    by (rule Mixed_Radix.permute_ok [OF assms(1) digits_ok_radix_digits [OF assms(3)] assms(2)])
  from radix_digits_value [OF this] show "transpose_source ds axes (transpose_source ?R undo t) = t"
    unfolding src transpose_source_def [of ds]
    using unpermute_permute [OF assms(1) len] radix_value_digits [OF assms(3), of t] assms(4) by simp
qed

lemma permute_bytes_back:
  assumes "permutes axes" "length dims = length axes" "0 \<notin> set dims" "element \<noteq> 0"
    and "length input = prod_list (map unat dims) * unat element" "length input < 2 ^ 64"
  shows "\<exists>moved undo. permute_bytes input element dims axes = Some moved \<and> length moved = length input \<and> invert_axes axes = Some undo \<and>
    permute_bytes moved element (map ((!) dims) axes) undo = Some input"
proof -
  let ?w = "unat element" and ?ds = "map unat dims" and ?dims = "map ((!) dims) axes"
  define undo where "undo = unpermute axes [0..<length axes]"
  note u = inverse_axes [OF assms(1), folded undo_def]
  obtain moved where m: "permute_bytes input element dims axes = Some moved" "length moved = length input"
    "\<forall>i<length input. moved ! i = input ! transposed_index ?ds axes ?w i"
    using permute_bytes_transposes [OF assms] by blast
  have R: "map unat ?dims = map ((!) ?ds) axes" using permutes_nth [OF assms(1)] assms(2) by (auto simp: in_set_conv_nth)
  have P: "prod_list (map unat ?dims) = prod_list ?ds" unfolding R by (rule prod_permuted [OF assms(1)]) (simp add: assms(2))
  have "0 \<notin> set ?dims" using set_permuted [OF assms(1,2)] assms(3) by simp
  then obtain restored where b: "permute_bytes moved element ?dims undo = Some restored" "length restored = length moved"
    "\<forall>i<length moved. restored ! i = moved ! transposed_index (map unat ?dims) undo ?w i"
    using permute_bytes_transposes [OF u(1), of ?dims element moved] u(2) assms(4-6) m(2) P by auto
  have w: "0 < ?w" using assms(4) by (simp add: unat_gt_0)
  have pos: "\<forall>d \<in> set ?ds. 0 < d" using assms(3) by (auto simp: unat_gt_0)
  have "restored ! i = input ! i" if i: "i < length input" for i
  proof -
    let ?t = "transpose_source (map unat ?dims) undo (i div ?w)"
    have "i div ?w < prod_list ?ds" using i assms(5) by (simp add: less_mult_imp_div_less)
    then have t: "transpose_source ?ds axes ?t = i div ?w"
      unfolding R undo_def using assms(2) by (intro transpose_back(2) [OF assms(1) _ pos]) simp_all
    have "?t < prod_list (map unat ?dims)"
      using \<open>0 \<notin> set ?dims\<close> by (intro transpose_source_less [OF u(1)]) (auto simp: u(2) unat_gt_0)
    then have "Suc ?t * ?w \<le> prod_list ?ds * ?w" unfolding P by (intro mult_le_mono1) simp
    then have "?t * ?w + i mod ?w < prod_list ?ds * ?w" using mod_less_divisor [OF w, of i] by simp
    moreover have "(?t * ?w + i mod ?w) div ?w = ?t" "(?t * ?w + i mod ?w) mod ?w = i mod ?w" using w by simp_all
    ultimately show ?thesis using b(3) m(2,3) i t assms(5) by (simp add: transposed_index_def)
  qed
  then have "restored = input" using b(2) m(2) by (intro nth_equalityI) simp_all
  then show ?thesis using m b(1) invert_axes_permutes [OF assms(1)] by (simp add: undo_def)
qed

end
