(* ===== verification/Adapter_Views.thy ===== *)
theory Adapter_Views
  imports Permute_Kernel
begin

text \<open>
  What a decision promises: the runs of a file tile its described tensors, an adapter names only such
  runs and names all of them, and the shape of a derived tensor is the shape of its bytes.
\<close>

section \<open>The runs of a file\<close>

definition good_run :: "inventory_tensor \<Rightarrow> source_run \<Rightarrow> bool" where
  "good_run tensor run \<longleftrightarrow>
     (let row_bytes = inv_length tensor div max (case inv_shape tensor of [] \<Rightarrow> 1 | d # _ \<Rightarrow> d) 1 in
      sr_tensor run = inv_name tensor \<and> sr_dtype run = inv_dtype tensor \<and> sr_row_shape run = drop 1 (inv_shape tensor) \<and>
      row_bytes \<noteq> 0 \<and> is_multiple_of (sr_length run) row_bytes \<and> sr_rows run = sr_length run div row_bytes)"

lemma source_run_of_good:
  "source_run_of tensor role offset len = Inr run \<Longrightarrow>
   good_run tensor (run\<lparr>sr_permute := perm\<rparr>) \<and> sr_role run = role \<and> sr_offset run = offset \<and> sr_length run = len"
  by (auto simp: source_run_of_def good_run_def Let_def split: if_splits)

lemma set_bt_insert_fresh: "k \<notin> fst ` set m \<Longrightarrow> set (bt_insert k v m) = insert (k, v) (set m)"
  by (induction k v m rule: bt_insert.induct) auto

text \<open>The map of runs: sorted, keyed by the roles of its runs, each run cut from a tensor of the list.\<close>

definition runs_ok :: "inventory_tensor list \<Rightarrow> (str \<times> source_run) list \<Rightarrow> bool" where
  "runs_ok tensors runs \<longleftrightarrow>
     bt_sorted runs \<and> (\<forall>(role, run) \<in> set runs. sr_role run = role \<and> (\<exists>tensor \<in> set tensors. good_run tensor run))"

lemma runs_ok_insert:
  assumes "runs_ok tensors runs" "tensor \<in> set tensors" "good_run tensor run" "sr_role run = role"
    and "map_of runs role = None"
  shows "runs_ok tensors (bt_insert role run runs)"
    "set (bt_insert role run runs) = insert (role, run) (set runs)"
proof -
  show s: "set (bt_insert role run runs) = insert (role, run) (set runs)"
    using assms(5) by (intro set_bt_insert_fresh) (simp add: map_of_eq_None_iff)
  show "runs_ok tensors (bt_insert role run runs)"
    using assms(1-4) unfolding runs_ok_def s by (auto simp: bt_sorted_insert)
qed

definition run_at :: "inventory_tensor \<Rightarrow> nat \<Rightarrow> source_run \<Rightarrow> bool" where
  "run_at tensor i run \<longleftrightarrow>
     good_run tensor run \<and> unat (sr_offset run) \<le> i \<and> i < unat (sr_offset run) + unat (sr_length run)"

lemma part_runs_cover:
  assumes "tensor \<in> set tensors"
  shows "part_runs tensor perm base offset parts runs = Inr runs' \<Longrightarrow> runs_ok tensors runs \<Longrightarrow>
    unat offset + sum_list (map (unat \<circ> run_length) parts) < 2 ^ 64 \<Longrightarrow>
    runs_ok tensors runs' \<and> set runs \<subseteq> set runs' \<and>
    (\<forall>i. unat offset \<le> i \<longrightarrow> i < unat offset + sum_list (map (unat \<circ> run_length) parts) \<longrightarrow> (\<exists>run \<in> snd ` set runs'. run_at tensor i run))"
proof (induction parts arbitrary: offset runs)
  case (Cons part parts)
  let ?role = "base @ run_role part"
  obtain run where run: "source_run_of tensor ?role offset (run_length part) = Inr run" "map_of runs ?role = None"
    and rest: "part_runs tensor perm base (offset + run_length part) parts (bt_insert ?role (run\<lparr>sr_permute := perm\<rparr>) runs) = Inr runs'"
    using Cons.prems(1) by (auto simp: Let_def result_simps split: if_splits)
  let ?run = "run\<lparr>sr_permute := perm\<rparr>"
  note g = source_run_of_good [OF run(1), of perm]
  have ins: "runs_ok tensors (bt_insert ?role ?run runs)" "set (bt_insert ?role ?run runs) = insert (?role, ?run) (set runs)"
    using runs_ok_insert [OF Cons.prems(2) assms, of ?run ?role] g run(2) by simp_all
  have step: "unat (offset + run_length part) = unat offset + unat (run_length part)"
    using Cons.prems(3) by (simp add: unat_add_u64)
  have IH: "runs_ok tensors runs' \<and> set (bt_insert ?role ?run runs) \<subseteq> set runs' \<and>
      (\<forall>i. unat (offset + run_length part) \<le> i \<longrightarrow>
        i < unat (offset + run_length part) + sum_list (map (unat \<circ> run_length) parts) \<longrightarrow> (\<exists>run \<in> snd ` set runs'. run_at tensor i run))"
    by (rule Cons.IH [OF rest ins(1)]) (use Cons.prems(3) step in simp)
  have "\<exists>run \<in> snd ` set runs'. run_at tensor i run"
    if i: "unat offset \<le> i" "i < unat offset + sum_list (map (unat \<circ> run_length) (part # parts))" for i
  proof (cases "i < unat offset + unat (run_length part)")
    case True
    then have "run_at tensor i ?run" using g i(1) by (simp add: run_at_def)
    moreover have "(?role, ?run) \<in> set runs'" using IH ins(2) by blast
    ultimately show ?thesis by force
  next
    case False
    then show ?thesis using IH i step by simp
  qed
  then show ?case using IH ins(2) by blast
qed simp

definition declared_parts :: "contract \<Rightarrow> inventory_tensor \<Rightarrow> fusion_run list" where
  "declared_parts c tensor = (case runs_of c (inv_name tensor) (inv_shape tensor) (inv_length tensor) of
     Some parts \<Rightarrow> parts | None \<Rightarrow> [fusion_run_whole (inv_length tensor)])"

lemma declared_parts_total:
  "con_shares_fit c \<Longrightarrow> sum_list (map (unat \<circ> run_length) (declared_parts c tensor)) = unat (inv_length tensor)"
  using runs_of_total(1) [of c] by (auto simp: declared_parts_def fusion_run_whole_def comp_def split: option.splits)

lemma tensor_runs_cover:
  assumes "con_shares_fit c"
  shows "tensor_runs c todo runs = Inr runs' \<Longrightarrow> runs_ok tensors runs \<Longrightarrow> set todo \<subseteq> set tensors \<Longrightarrow>
    \<forall>t \<in> set todo. unat (inv_offset t) + unat (inv_length t) < 2 ^ 64 \<Longrightarrow>
    runs_ok tensors runs' \<and> set runs \<subseteq> set runs' \<and>
    (\<forall>t \<in> set todo. entry_for c (inv_name t) \<noteq> None \<longrightarrow> (\<forall>i. unat (inv_offset t) \<le> i \<longrightarrow>
      i < unat (inv_offset t) + unat (inv_length t) \<longrightarrow> (\<exists>run \<in> snd ` set runs'. run_at t i run)))"
proof (induction todo arbitrary: runs)
  case (Cons tensor todo)
  show ?case
  proof (cases "entry_for c (inv_name tensor)")
    case None
    then show ?thesis using Cons.IH [of runs] Cons.prems by auto
  next
    case (Some entry)
    obtain base runs1 where
      one: "part_runs tensor (tp_permute entry) base (inv_offset tensor) (declared_parts c tensor) runs = Inr runs1"
      and rest: "tensor_runs c todo runs1 = Inr runs'"
      using Cons.prems(1) Some by (auto simp: Let_def result_simps declared_parts_def)
    note total = declared_parts_total [OF assms, of tensor]
    have c1: "runs_ok tensors runs1 \<and> set runs \<subseteq> set runs1 \<and> (\<forall>i. unat (inv_offset tensor) \<le> i \<longrightarrow>
        i < unat (inv_offset tensor) + unat (inv_length tensor) \<longrightarrow> (\<exists>run \<in> snd ` set runs1. run_at tensor i run))"
      using part_runs_cover [OF _ one Cons.prems(2)] Cons.prems(3,4) total by simp
    then have "runs_ok tensors runs' \<and> set runs1 \<subseteq> set runs' \<and>
      (\<forall>t \<in> set todo. entry_for c (inv_name t) \<noteq> None \<longrightarrow> (\<forall>i. unat (inv_offset t) \<le> i \<longrightarrow>
        i < unat (inv_offset t) + unat (inv_length t) \<longrightarrow> (\<exists>run \<in> snd ` set runs'. run_at t i run)))"
      using Cons.IH [OF rest] Cons.prems(3,4) by simp
    then show ?thesis using c1 by (auto simp del: not_None_eq) (metis image_mono subsetD)+
  qed
qed simp


section \<open>Decisions\<close>

lemma collect_runs_Inr: "collect_runs available base suffixes = Inr runs \<Longrightarrow> set runs \<subseteq> snd ` set available"
proof (induction suffixes arbitrary: runs)
  case (Cons suf suffixes)
  then obtain run rest where "map_of available (base @ suf) = Some run" "runs = run # rest" "collect_runs available base suffixes = Inr rest"
    by (auto simp: result_simps split: option.splits)
  then show ?case using Cons.IH [of rest] map_of_SomeD [of available "base @ suf" run] by force
qed simp

lemma check_runs_Inr:
  "check_runs name first runs = Inr () \<Longrightarrow> run \<in> set runs \<Longrightarrow>
   sr_dtype run = sr_dtype first \<and> sr_row_shape run = sr_row_shape first \<and> sr_permute run = sr_permute first"
  by (induction name first runs rule: check_runs.induct) (auto split: if_splits)

definition derived_ok :: "(str \<times> source_run) list \<Rightarrow> derived_tensor \<Rightarrow> bool" where
  "derived_ok available t \<longleftrightarrow>
     dt_runs t \<noteq> [] \<and> set (dt_runs t) \<subseteq> snd ` set available \<and>
     (\<forall>run \<in> set (dt_runs t). sr_dtype run = dt_dtype t \<and> dt_shape t = sum_list (map sr_rows (dt_runs t)) # sr_row_shape run)"

lemma derive_tensor_ok:
  "derive_tensor name runs target_permute = Inr t \<Longrightarrow> set runs \<subseteq> snd ` set available \<Longrightarrow> derived_ok available t"
proof (cases runs)
  case (Cons first rest)
  assume "derive_tensor name runs target_permute = Inr t" and sub: "set runs \<subseteq> snd ` set available"
  then obtain tr where c: "check_runs name first runs = Inr ()" and t: "t = \<lparr>dt_name = name, dt_dtype = sr_dtype first,
      dt_shape = sum_list (map sr_rows runs) # sr_row_shape first, dt_runs = runs, dt_transform = tr\<rparr>"
    using Cons by (auto simp: derive_tensor_def result_simps)
  have "runs \<noteq> []" using Cons by simp
  moreover have "sr_dtype run = sr_dtype first \<and> sr_row_shape run = sr_row_shape first" if "run \<in> set runs" for run
    using check_runs_Inr [OF c that] by blast
  ultimately show ?thesis unfolding derived_ok_def t using sub by simp
qed (simp add: derive_tensor_def)

lemma decide_values_ok:
  "decide_values available entry suffixes vs = Inr decided \<Longrightarrow>
   (case decided of Inl early \<Rightarrow> decision_adapter early = None | Inr tensors \<Rightarrow> \<forall>t \<in> set tensors. derived_ok available t)"
proof (induction vs arbitrary: decided)
  case (Cons v vs)
  obtain name base where nb: "instantiate (tp_pattern entry) v = Some name" "instantiate (tp_role entry) v = Some base"
    using Cons.prems by (auto simp: result_simps)
  show ?case
  proof (cases "collect_runs available base suffixes")
    case (Inr runs)
    show ?thesis
    proof (cases "derive_tensor name runs (tp_permute entry)")
      case (Inl e)
      then show ?thesis using Cons.prems nb Inr by (auto split: derivation_failure.splits)
    next
      case t: (Inr t)
      have "derived_ok available t" by (rule derive_tensor_ok [OF t collect_runs_Inr [OF Inr]])
      moreover obtain more where more: "decide_values available entry suffixes vs = Inr more" "decided = and_then more (\<lambda>tensors. Inr (t # tensors))"
        using Cons.prems nb Inr t by (auto simp: result_simps)
      ultimately show ?thesis using Cons.IH [OF more(1)] more(2) by (cases more) auto
    qed
  qed (use Cons.prems nb in auto)
qed auto

lemma decide_entries_ok:
  "decide_entries available entries = Inr decided \<Longrightarrow>
   (case decided of Inl early \<Rightarrow> decision_adapter early = None | Inr tensors \<Rightarrow> \<forall>t \<in> set tensors. derived_ok available t)"
proof (induction entries arbitrary: decided)
  case (Cons entry entries)
  let ?suffixes = "entry_suffixes entry"
  let ?found = "entry_captures available ?suffixes entry"
  show ?case
  proof (cases "?found = [] \<and> tp_required entry")
    case False
    then obtain here where here: "decide_values available entry ?suffixes ?found = Inr here"
      "(case here of Inl early \<Rightarrow> Inr (Inl early) | Inr tensors \<Rightarrow> and_then (decide_entries available entries)
         (\<lambda>more. Inr (and_then more (\<lambda>rest. Inr (tensors @ rest))))) = Inr decided"
      using Cons.prems by (auto simp: Let_def result_simps split: if_splits)
    show ?thesis
    proof (cases here)
      case (Inl early)
      then show ?thesis using decide_values_ok [OF here(1)] here(2) by auto
    next
      case (Inr tensors)
      then obtain more where more: "decide_entries available entries = Inr more" "decided = and_then more (\<lambda>rest. Inr (tensors @ rest))"
        using here(2) by (auto simp: result_simps)
      show ?thesis using decide_values_ok [OF here(1)] Inr Cons.IH [OF more(1)] more(2) by (cases more) auto
    qed
  qed (use Cons.prems in auto)
qed auto

lemma decide_adapter:
  assumes "decide source inventory target = Inr d" "decision_adapter d = Some a"
  obtains available where "role_runs source inventory = Inr available" "\<forall>t \<in> set (ad_tensors a). derived_ok available t"
    "\<forall>role \<in> fst ` set available. \<exists>t \<in> set (ad_tensors a). role \<in> sr_role ` set (dt_runs t)"
    "d = Decision_RunPreserving a \<longleftrightarrow> (\<forall>t \<in> set (ad_tensors a). dt_transform t = Transform_Identity)"
proof -
  obtain available decided where av: "role_runs source inventory = Inr available"
    and de: "decide_entries available (con_tensors target) = Inr decided"
    using assms(1) by (auto simp: decide_def result_simps)
  note ok = decide_entries_ok [OF de]
  show thesis
  proof (cases decided)
    case (Inl early)
    then show ?thesis using assms av de ok by (simp add: decide_def)
  next
    case (Inr tensors)
    let ?claimed = "concat (map (map sr_role \<circ> dt_runs) tensors)"
    have none: "find (\<lambda>role. role \<notin> set ?claimed) (map fst available) = None"
      and a: "ad_tensors a = tensors" "d = Decision_RunPreserving a \<longleftrightarrow> filter (\<lambda>t. \<not> is_identity_transform (dt_transform t)) tensors = []"
      using assms av de Inr by (auto simp: decide_def Let_def split: if_splits option.splits)
    have "\<forall>role \<in> fst ` set available. role \<in> set ?claimed" using none by (auto simp: find_None_iff)
    moreover have "is_identity_transform t \<longleftrightarrow> t = Transform_Identity" for t by (cases t) simp_all
    ultimately show ?thesis using that [OF av] ok a Inr by (auto simp: filter_empty_conv)
  qed
qed

text \<open>Every run of the file is used, because a role determines its run.\<close>

lemma adapter_uses_all:
  assumes "con_shares_fit source" "\<forall>t \<in> set (inv_tensors inventory). unat (inv_offset t) + unat (inv_length t) < 2 ^ 64"
    and "decide source inventory target = Inr d" "decision_adapter d = Some a"
  obtains available where "role_runs source inventory = Inr available" "runs_ok (inv_tensors inventory) available"
    "\<forall>t \<in> set (ad_tensors a). derived_ok available t"
    "\<forall>run \<in> snd ` set available. \<exists>t \<in> set (ad_tensors a). run \<in> set (dt_runs t)"
    "\<forall>t \<in> set (inv_tensors inventory). entry_for source (inv_name t) \<noteq> None \<longrightarrow> (\<forall>i. unat (inv_offset t) \<le> i \<longrightarrow>
      i < unat (inv_offset t) + unat (inv_length t) \<longrightarrow> (\<exists>run \<in> snd ` set available. run_at t i run))"
proof -
  obtain available where av: "role_runs source inventory = Inr available" "\<forall>t \<in> set (ad_tensors a). derived_ok available t"
    "\<forall>role \<in> fst ` set available. \<exists>t \<in> set (ad_tensors a). role \<in> sr_role ` set (dt_runs t)"
    using decide_adapter [OF assms(3,4)] by metis
  have "runs_ok (inv_tensors inventory) []" by (simp add: runs_ok_def bt_sorted_def)
  from tensor_runs_cover [OF assms(1) av(1) [unfolded role_runs_def] this subset_refl assms(2)]
  have ok: "runs_ok (inv_tensors inventory) available" and cover: "\<forall>t \<in> set (inv_tensors inventory). entry_for source (inv_name t) \<noteq> None \<longrightarrow>
      (\<forall>i. unat (inv_offset t) \<le> i \<longrightarrow> i < unat (inv_offset t) + unat (inv_length t) \<longrightarrow> (\<exists>run \<in> snd ` set available. run_at t i run))"
    by blast+
  have "\<exists>t \<in> set (ad_tensors a). run \<in> set (dt_runs t)" if used: "run \<in> snd ` set available" for run
  proof -
    obtain role where rr: "(role, run) \<in> set available" using used by force
    obtain t run' where t: "t \<in> set (ad_tensors a)" "run' \<in> set (dt_runs t)" "sr_role run' = role"
      using av(3) rr by force
    then have "run' \<in> snd ` set available" using av(2) by (auto simp: derived_ok_def)
    then have "(role, run') \<in> set available" using ok t(3) by (auto simp: runs_ok_def)
    moreover have "distinct (map fst available)" using ok by (auto simp: runs_ok_def bt_sorted_def strict_sorted_iff)
    ultimately have "run' = run" using rr by (metis map_of_is_SomeI option.inject)
    then show ?thesis using t by blast
  qed
  then show thesis using that [OF av(1) ok av(2) _ cover] by blast
qed


section \<open>Shapes\<close>

lemma good_run_bytes:
  assumes "good_run tensor run" "unat (inv_length tensor) = prod_list (map unat (inv_shape tensor)) * w"
  shows "unat (sr_length run) = unat (sr_rows run) * (prod_list (map unat (sr_row_shape run)) * w)"
    "0 < prod_list (map unat (sr_row_shape run)) * w"
proof -
  define outer where "outer = max (case inv_shape tensor of [] \<Rightarrow> 1 | d # _ \<Rightarrow> d) 1"
  define row_bytes where "row_bytes = inv_length tensor div outer"
  have g: "sr_row_shape run = drop 1 (inv_shape tensor)" "row_bytes \<noteq> 0" "is_multiple_of (sr_length run) row_bytes"
    "sr_rows run = sr_length run div row_bytes"
    using assms(1) by (simp_all add: good_run_def Let_def row_bytes_def outer_def)
  have row: "unat row_bytes = prod_list (map unat (sr_row_shape run)) * w"
  proof (cases "inv_shape tensor")
    case Nil
    then show ?thesis using assms(2) g(1) by (simp add: row_bytes_def outer_def)
  next
    case (Cons d ds)
    have "unat row_bytes \<noteq> 0" using g(2) by (simp add: unat_eq_0)
    then have "unat (inv_length tensor) \<noteq> 0" unfolding row_bytes_def unat_div_u64 by (metis div_0)
    then have "d \<noteq> 0" using assms(2) Cons by auto
    then have "1 \<le> d" by (simp add: u64_le_nat Suc_le_eq unat_gt_0)
    then have "outer = d" using Cons by (simp add: outer_def max_absorb1)
    then show ?thesis using assms(2) g(1) Cons \<open>d \<noteq> 0\<close> by (simp add: row_bytes_def unat_div_u64 u64_nat mult.assoc)
  qed
  then show "0 < prod_list (map unat (sr_row_shape run)) * w" using g(2) by (simp add: u64_nat)
  have "unat row_bytes dvd unat (sr_length run)" using g(3) by (simp add: is_multiple_of_nat)
  then show "unat (sr_length run) = unat (sr_rows run) * (prod_list (map unat (sr_row_shape run)) * w)"
    unfolding row [symmetric] g(4) by (simp add: unat_div_u64)
qed

lemma unat_sum_list: "sum_list (map (unat \<circ> f) xs) < 2 ^ 64 \<Longrightarrow> unat (sum_list (map f xs) :: u64) = sum_list (map (unat \<circ> f) xs)"
  by (induction xs) (simp_all add: unat_add_u64)

text \<open>The shape of a derived tensor counts its bytes, when the tensors of the file are dense.\<close>

lemma derived_shape_bytes:
  assumes "derived_ok available t" "runs_ok tensors available"
    and "\<forall>tensor \<in> set tensors. unat (inv_length tensor) = prod_list (map unat (inv_shape tensor)) * width (inv_dtype tensor)"
    and "sum_list (map (unat \<circ> sr_length) (dt_runs t)) < 2 ^ 64"
  shows "unat (derived_length t) = prod_list (map unat (dt_shape t)) * width (dt_dtype t)"
proof -
  obtain first where first: "first \<in> set (dt_runs t)" using assms(1) by (cases "dt_runs t") (auto simp: derived_ok_def)
  let ?rows = "sr_row_shape first" and ?w = "width (dt_dtype t)"
  let ?R = "prod_list (map unat ?rows) * ?w"
  have each: "unat (sr_length run) = unat (sr_rows run) * ?R \<and> 0 < ?R" if run: "run \<in> set (dt_runs t)" for run
  proof -
    have "run \<in> snd ` set available" using assms(1) run by (auto simp: derived_ok_def)
    then obtain tensor where tensor: "tensor \<in> set tensors" "good_run tensor run" using assms(2) by (auto simp: runs_ok_def)
    have same: "sr_dtype run = dt_dtype t" "sr_row_shape run = ?rows"
      using assms(1) run first unfolding derived_ok_def by (metis list.inject)+
    have "inv_dtype tensor = dt_dtype t" using tensor(2) same(1) by (simp add: good_run_def Let_def)
    then show ?thesis using good_run_bytes [OF tensor(2), of ?w] assms(3) tensor(1) same(2) by simp
  qed
  have shape: "dt_shape t = sum_list (map sr_rows (dt_runs t)) # ?rows" using assms(1) first by (auto simp: derived_ok_def)
  have total: "sum_list (map (unat \<circ> sr_length) runs) = sum_list (map (unat \<circ> sr_rows) runs) * ?R" if "set runs \<subseteq> set (dt_runs t)" for runs
    using that each by (induction runs) (simp_all add: add_mult_distrib)
  have "1 \<le> ?R" using each [OF first] by simp
  then have "sum_list (map (unat \<circ> sr_rows) (dt_runs t)) \<le> sum_list (map (unat \<circ> sr_rows) (dt_runs t)) * ?R"
    by (metis mult.right_neutral mult_le_mono2)
  then have "sum_list (map (unat \<circ> sr_rows) (dt_runs t)) < 2 ^ 64"
    using assms(4) unfolding total [OF subset_refl] by (rule order_le_less_trans)
  then show ?thesis using unat_sum_list [OF assms(4)] unat_sum_list [of sr_rows "dt_runs t"] total [OF subset_refl]
    by (simp add: derived_length_def shape mult.assoc)
qed

lemma nonzero_dims: "0 \<notin> set shape \<Longrightarrow> prod_list (map unat dims) = prod_list (map unat shape) \<Longrightarrow> 0 \<notin> set (dims :: u64 list)"
  for shape :: "u64 list"
proof
  assume a: "0 \<notin> set shape" "prod_list (map unat dims) = prod_list (map unat shape)" "0 \<in> set dims"
  have "prod_list (map unat dims) = 0" using a(3) by (induction dims) auto
  moreover have "prod_list (map unat shape) \<noteq> 0" using a(1) by (induction shape) (auto simp: unat_eq_0)
  ultimately show False using a(2) by simp
qed



section \<open>The roles a target asks for\<close>

text \<open>A declaration of the contract, with some values in its holes, asks for this role.\<close>

definition declares_role :: "contract \<Rightarrow> str \<Rightarrow> bool" where
  "declares_role c role \<longleftrightarrow> (\<exists>entry \<in> set (con_tensors c). \<exists>vs base. instantiate (tp_role entry) vs = Some base \<and>
     role \<in> (@) base ` set (entry_suffixes entry))"

definition keyed :: "(str \<times> source_run) list \<Rightarrow> bool" where
  "keyed available \<longleftrightarrow> (\<forall>(role, run) \<in> set available. sr_role run = role)"

lemma part_runs_keyed:
  "part_runs tensor perm base offset parts runs = Inr runs' \<Longrightarrow> keyed runs \<Longrightarrow>
   keyed runs' \<and> fst ` set runs' = fst ` set runs \<union> (@) base ` run_role ` set parts"
proof (induction parts arbitrary: offset runs)
  case (Cons part parts)
  let ?role = "base @ run_role part"
  obtain run where run: "source_run_of tensor ?role offset (run_length part) = Inr run" "map_of runs ?role = None"
    and rest: "part_runs tensor perm base (offset + run_length part) parts (bt_insert ?role (run\<lparr>sr_permute := perm\<rparr>) runs) = Inr runs'"
    using Cons.prems(1) by (auto simp: Let_def result_simps split: if_splits)
  have ins: "set (bt_insert ?role (run\<lparr>sr_permute := perm\<rparr>) runs) = insert (?role, run\<lparr>sr_permute := perm\<rparr>) (set runs)"
    using run(2) by (intro set_bt_insert_fresh) (simp add: map_of_eq_None_iff)
  have "keyed (bt_insert ?role (run\<lparr>sr_permute := perm\<rparr>) runs)"
    using Cons.prems(2) source_run_of_good [OF run(1)] unfolding keyed_def ins by simp
  from Cons.IH [OF rest this] show ?case unfolding ins by auto
qed simp

text \<open>A described tensor is available under the roles of its runs, or whole under its bare role.\<close>

lemma tensor_runs_keyed:
  "tensor_runs c todo runs = Inr runs' \<Longrightarrow> keyed runs \<Longrightarrow>
   keyed runs' \<and> fst ` set runs \<subseteq> fst ` set runs' \<and>
   (\<forall>t \<in> set todo. \<forall>entry vs base. entry_for c (inv_name t) = Some entry \<longrightarrow> captures (tp_pattern entry) (inv_name t) = Some vs \<longrightarrow>
      instantiate (tp_role entry) vs = Some base \<longrightarrow> (@) base ` run_role ` set (declared_parts c t) \<subseteq> fst ` set runs')"
proof (induction todo arbitrary: runs)
  case (Cons tensor todo)
  show ?case
  proof (cases "entry_for c (inv_name tensor)")
    case None
    then show ?thesis using Cons.IH [of runs] Cons.prems by auto
  next
    case (Some entry)
    obtain vs base mid where v: "captures (tp_pattern entry) (inv_name tensor) = Some vs" "instantiate (tp_role entry) vs = Some base"
      and mid: "part_runs tensor (tp_permute entry) base (inv_offset tensor) (declared_parts c tensor) runs = Inr mid"
      and rest: "tensor_runs c todo mid = Inr runs'"
      using Cons.prems(1) Some by (auto simp: declared_parts_def Let_def result_simps)
    have one: "keyed mid" "fst ` set mid = fst ` set runs \<union> (@) base ` run_role ` set (declared_parts c tensor)"
      using part_runs_keyed [OF mid Cons.prems(2)] by blast+
    note more = Cons.IH [OF rest one(1)]
    then show ?thesis using one(2) v Some by simp
  qed
qed simp

lemma collect_runs_roles:
  "collect_runs available base suffixes = Inr runs \<Longrightarrow> keyed available \<Longrightarrow> sr_role ` set runs \<subseteq> (@) base ` set suffixes"
proof (induction suffixes arbitrary: runs)
  case (Cons suf suffixes)
  then obtain run rest where r: "map_of available (base @ suf) = Some run" "runs = run # rest" "collect_runs available base suffixes = Inr rest"
    by (auto simp: result_simps split: option.splits)
  have "sr_role run = base @ suf" using map_of_SomeD [OF r(1)] Cons.prems(2) by (auto simp: keyed_def)
  then show ?case using Cons.IH [OF r(3) Cons.prems(2)] r(2) by auto
qed simp

lemma decide_values_roles:
  "decide_values available entry suffixes vals = Inr (Inr tensors) \<Longrightarrow> keyed available \<Longrightarrow> t \<in> set tensors \<Longrightarrow>
   \<exists>vs base. instantiate (tp_role entry) vs = Some base \<and> sr_role ` set (dt_runs t) \<subseteq> (@) base ` set suffixes"
proof (induction vals arbitrary: tensors)
  case (Cons v vals)
  obtain name base where nb: "instantiate (tp_pattern entry) v = Some name" "instantiate (tp_role entry) v = Some base"
    using Cons.prems(1) by (auto simp: result_simps)
  show ?case
  proof (cases "collect_runs available base suffixes")
    case (Inr runs)
    show ?thesis
    proof (cases "derive_tensor name runs (tp_permute entry)")
      case (Inl e)
      then show ?thesis using Cons.prems nb Inr by (auto split: derivation_failure.splits)
    next
      case first: (Inr first)
      obtain more where more: "decide_values available entry suffixes vals = Inr (Inr more)" "tensors = first # more"
        using Cons.prems(1) nb Inr first by (auto simp: result_simps)
      have "dt_runs first = runs" using first by (auto simp: derive_tensor_def result_simps Let_def split: list.splits if_splits)
      then show ?thesis using Cons.IH [OF more(1) Cons.prems(2)] Cons.prems(3) nb(2) more(2) collect_runs_roles [OF Inr Cons.prems(2)] by auto
    qed
  qed (use Cons.prems(1) nb in auto)
qed simp

lemma decide_entries_roles:
  "decide_entries available entries = Inr (Inr tensors) \<Longrightarrow> keyed available \<Longrightarrow> t \<in> set tensors \<Longrightarrow>
   \<exists>entry \<in> set entries. \<exists>vs base. instantiate (tp_role entry) vs = Some base \<and> sr_role ` set (dt_runs t) \<subseteq> (@) base ` set (entry_suffixes entry)"
proof (induction entries arbitrary: tensors)
  case (Cons entry entries)
  let ?found = "decide_values available entry (entry_suffixes entry) (entry_captures available (entry_suffixes entry) entry)"
  obtain decided where d: "?found = Inr decided" using Cons.prems(1) by (auto simp: Let_def result_simps split: if_splits)
  show ?case
  proof (cases decided)
    case (Inr here)
    then obtain more where h: "decide_entries available entries = Inr (Inr more)" "tensors = here @ more"
      using Cons.prems(1) d by (auto simp: Let_def result_simps split: if_splits)
    show ?thesis using Cons.IH [OF h(1) Cons.prems(2)] Cons.prems(3) h(2) decide_values_roles [OF d [unfolded Inr] Cons.prems(2)] by auto
  qed (use Cons.prems(1) d in \<open>auto simp: Let_def split: if_splits\<close>)
qed simp

text \<open>A view declares every role that the file makes available.\<close>

lemma view_declares_roles:
  assumes "decide source inventory target = Inr d" "is_viewable d" "role_runs source inventory = Inr available" "role \<in> fst ` set available"
  shows "declares_role target role"
proof -
  obtain a where a: "decision_adapter d = Some a" using assms(2) by (cases d) auto
  obtain decided where de: "decide_entries available (con_tensors target) = Inr decided"
    using assms(1,3) by (auto simp: decide_def result_simps)
  have "keyed available" using tensor_runs_keyed [of source "inv_tensors inventory" "[]"] assms(3) by (simp add: role_runs_def keyed_def)
  have "decided = Inr (ad_tensors a)"
    using assms(1,3) de a decide_entries_ok [OF de]
    by (auto simp: decide_def result_simps Let_def split: sum.splits if_splits option.splits)
  then obtain t where t: "t \<in> set (ad_tensors a)" "role \<in> sr_role ` set (dt_runs t)"
    using decide_adapter [OF assms(1) a] assms(3,4) by (metis sum.inject(2))
  from decide_entries_roles [OF _ \<open>keyed available\<close> t(1)] de \<open>decided = Inr (ad_tensors a)\<close> t(2) show ?thesis
    unfolding declares_role_def by blast
qed

lemma small_fusion_role:
  assumes "decide source inventory target = Inr d" "is_viewable d" "t \<in> set (inv_tensors inventory)"
    and "entry_for source (inv_name t) = Some entry" "tp_fusion entry = Some f"
    and "fusion_runs f (inv_shape t) (inv_length t) = Some runs" "run \<in> set runs" "run_length run < MIN_SEAM_PART_BYTES"
    and "captures (tp_pattern entry) (inv_name t) = Some vs" "instantiate (tp_role entry) vs = Some base"
  shows "declares_role target base"
proof -
  obtain available where av: "role_runs source inventory = Inr available" using assms(1) by (auto simp: decide_def result_simps)
  have "runs_of source (inv_name t) (inv_shape t) (inv_length t) = None"
    using assms(4-8) by (auto simp: runs_of_def list_ex_iff)
  then have "run_role ` set (declared_parts source t) = {[]}" by (simp add: declared_parts_def fusion_run_whole_def)
  moreover have "(@) base ` run_role ` set (declared_parts source t) \<subseteq> fst ` set available"
    using tensor_runs_keyed [of source "inv_tensors inventory" "[]" available] av assms(3,4,9,10) by (simp add: role_runs_def keyed_def)
  ultimately have "base \<in> fst ` set available" by auto
  then show ?thesis by (rule view_declares_roles [OF assms(1,2) av])
qed

end
