(* ===== verification/Compose_Content.thy ===== *)
theory Compose_Content
  imports Compose Seal_Content Adapter_Views
begin

text \<open>
  What a composition holds: an inherited run is the part of the records on the range, so it reads as the
  range of the file; an admitted text reads as the text; and a composed file is its new header followed
  by the bytes of the tensors it keeps.
\<close>

section \<open>Inherited runs\<close>

declare record_size_def [simp]

lemma inherit_loop_sound:
  "inherit_loop start stop position rs = Some taken \<Longrightarrow> unat position + run_size rs < 2 ^ 64 \<Longrightarrow>
   \<exists>pre post. rs = pre @ taken @ post \<and> (taken = [] \<or>
     (unat position \<le> unat start \<and> unat position + run_size pre = unat start) \<or> (unat start < unat position \<and> pre = []))"
proof (induction rs arbitrary: position taken)
  case (Cons r rs)
  let ?next = "position + record_length r"
  have nx: "unat ?next = unat position + unat (record_length r)" using Cons.prems(2) by (simp add: unat_add_u64)
  then have fits: "unat ?next + run_size rs < 2 ^ 64" using Cons.prems(2) by simp
  consider (skip) "?next \<le> start" "inherit_loop start stop ?next rs = Some taken"
    | (stop) "taken = []"
    | (keep) rest where "\<not> ?next \<le> start" "\<not> position < start" "taken = r # rest" "inherit_loop start stop ?next rs = Some rest"
    using Cons.prems(1) by (auto simp: Let_def split: if_splits)
  then show ?case
  proof cases
    case skip
    from Cons.IH [OF skip(2) fits] obtain pre post where p: "rs = pre @ taken @ post"
      "taken = [] \<or> unat ?next + run_size pre = unat start" using skip(1) by (auto simp: u64_nat)
    show ?thesis using p skip(1) nx by (intro exI [of _ "r # pre"] exI [of _ post]) (auto simp: u64_nat)
  next
    case stop
    then show ?thesis by (intro exI [of _ "[]"] exI [of _ "r # rs"]) simp
  next
    case (keep rest)
    have "\<exists>post. rs = rest @ post" using Cons.IH [OF keep(4) fits] keep(1) by (auto simp: u64_nat)
    then obtain post where "rs = rest @ post" ..
    then show ?thesis using keep(2,3) by (intro exI [of _ "[]"] exI [of _ post]) (auto simp: u64_nat)
  qed
qed simp

lemma inherit_loop_skips:
  "unat position + run_size pre \<le> unat start \<Longrightarrow> unat position + run_size (pre @ rs) < 2 ^ 64 \<Longrightarrow>
   inherit_loop start stop position (pre @ rs) = inherit_loop start stop (position + of_nat (run_size pre)) rs"
proof (induction pre arbitrary: position)
  case (Cons r pre)
  let ?next = "position + record_length r"
  have nx: "unat ?next = unat position + unat (record_length r)" using Cons.prems(2) by (simp add: unat_add_u64)
  have "?next \<le> start" using Cons.prems(1) nx by (simp add: u64_nat)
  then show ?case using Cons.IH [of ?next] Cons.prems nx by (simp add: add.assoc)
qed simp

lemma inherit_loop_takes:
  "list_all (\<lambda>r. record_length r \<noteq> 0) taken \<Longrightarrow> unat start \<le> unat position \<Longrightarrow> unat position + run_size taken = unat stop \<Longrightarrow>
   unat position + run_size (taken @ post) < 2 ^ 64 \<Longrightarrow> list_all (\<lambda>r. record_length r \<noteq> 0) post \<Longrightarrow>
   inherit_loop start stop position (taken @ post) = Some taken"
proof (induction taken arbitrary: position)
  case Nil
  show ?case
  proof (cases post)
    case (Cons r rs)
    have "unat (position + record_length r) = unat position + unat (record_length r)"
      using Nil Cons by (simp add: unat_add_u64)
    then show ?thesis using Nil Cons by (auto simp: Let_def u64_nat)
  qed simp
next
  case (Cons r taken)
  let ?next = "position + record_length r"
  have nx: "unat ?next = unat position + unat (record_length r)" "0 < unat (record_length r)"
    using Cons.prems(1,4) by (simp_all add: unat_add_u64 unat_gt_0)
  then have "inherit_loop start stop ?next (taken @ post) = Some taken" using Cons.prems by (intro Cons.IH) simp_all
  then show ?case using Cons.prems(2,3) nx by (simp add: Let_def u64_nat)
qed

lemma unat_sum_lengths: "run_size rs < 2 ^ 64 \<Longrightarrow> unat (sum_list (map record_length rs)) = run_size rs"
  by (induction rs) (simp_all add: unat_add_u64 run_size_def)

text \<open>For a range that is not empty, inheriting succeeds exactly when the records split at both ends.\<close>

lemma inherit_iff:
  assumes "run_size records < 2 ^ 64" "list_all (\<lambda>r. record_length r \<noteq> 0) records" "len \<noteq> 0"
  shows "inherit records start len = Some taken \<longleftrightarrow>
    (\<exists>pre post. records = pre @ taken @ post \<and> run_size pre = unat start \<and> run_size taken = unat len)"
proof
  assume "inherit records start len = Some taken"
  then obtain stop where stop: "inherit_loop start stop 0 records = Some taken" "sum_list (map record_length taken) = len"
    by (auto simp: inherit_def bind_eq_Some_conv split: if_splits)
  from inherit_loop_sound [OF stop(1)] assms(1) obtain pre post where
    p: "records = pre @ taken @ post" "taken = [] \<or> run_size pre = unat start" by auto
  have "taken \<noteq> []" using stop(2) assms(3) by auto
  moreover have "run_size taken < 2 ^ 64" using assms(1) p(1) by simp
  ultimately show "\<exists>pre post. records = pre @ taken @ post \<and> run_size pre = unat start \<and> run_size taken = unat len"
    using p stop(2) unat_sum_lengths [of taken] by metis
next
  assume "\<exists>pre post. records = pre @ taken @ post \<and> run_size pre = unat start \<and> run_size taken = unat len"
  then obtain pre post where p: "records = pre @ taken @ post" "run_size pre = unat start" "run_size taken = unat len" by blast
  have sizes: "unat start + unat len + run_size post < 2 ^ 64" using assms(1) p by simp
  then have stop: "checked_add start len = Some (start + len)" "unat (start + len) = unat start + unat len"
    by (simp_all add: checked_add_def unat_add_u64)
  have "inherit_loop start (start + len) 0 records = inherit_loop start (start + len) (of_nat (run_size pre)) (taken @ post)"
    using inherit_loop_skips [of 0 pre start "taken @ post"] p sizes by simp
  also have "\<dots> = inherit_loop start (start + len) start (taken @ post)" by (simp only: p(2) of_nat_unat ucast_id)
  also have "\<dots> = Some taken"
    using assms(2) p stop(2) sizes by (intro inherit_loop_takes) simp_all
  finally show "inherit records start len = Some taken"
    using stop(1) p(3) sizes unat_sum_lengths [of taken] by (simp add: inherit_def word_unat_eq_iff)
qed


section \<open>Content\<close>

definition file_range :: "bytes \<Rightarrow> u64 \<Rightarrow> u64 \<Rightarrow> bytes" where
  "file_range file start len = take (unat len) (drop (unat start) file)"

lemma records_content_append [simp]: "records_content st (xs @ ys) = records_content st xs @ records_content st ys"
  by (simp add: records_content_def)

lemma length_run_content: "list_all (record_resident st) rs \<Longrightarrow> length (records_content st rs) = run_size rs"
  by (simp only: length_records_content run_size_def)

text \<open>An inherited run reads as the range of the file and names only records of the file.\<close>

lemma inherit_content:
  assumes "inherit records start len = Some taken" "records_readable st records"
  shows "records_content st taken = file_range (records_content st records) start len \<and> set taken \<subseteq> set records"
proof -
  have fits: "run_size records < 2 ^ 64" and res: "list_all (record_resident st) records"
    using assms(2) by (simp_all add: records_readable_def run_size_def)
  obtain stop where stop: "inherit_loop start stop 0 records = Some taken" "sum_list (map record_length taken) = len"
    using assms(1) by (auto simp: inherit_def bind_eq_Some_conv split: if_splits)
  from inherit_loop_sound [OF stop(1)] fits obtain pre post where
    p: "records = pre @ taken @ post" "taken = [] \<or> run_size pre = unat start" by auto
  have sizes: "length (records_content st pre) = run_size pre" "length (records_content st taken) = unat len"
    using res p(1) fits stop(2) unat_sum_lengths [of taken] by (simp_all add: length_run_content)
  show ?thesis
  proof (cases "taken = []")
    case True
    then show ?thesis using sizes(2) by (simp add: file_range_def records_content_def)
  next
    case False
    then have "run_size pre = unat start" using p(2) by simp
    then show ?thesis using p(1) sizes by (auto simp: file_range_def)
  qed
qed

lemma inherit_all_content:
  "inherit_all records ranges = Inr taken \<Longrightarrow> records_readable st records \<Longrightarrow>
   records_content st taken = concat (map (\<lambda>(start, len, name). file_range (records_content st records) start len) ranges) \<and>
   set taken \<subseteq> set records"
proof (induction records ranges arbitrary: taken rule: inherit_all.induct)
  case (2 records start len name ranges)
  then obtain here rest where h: "inherit records start len = Some here" "inherit_all records ranges = Inr rest" "taken = here @ rest"
    by (auto simp: result_simps)
  show ?case using inherit_content [OF h(1) "2.prems"(2)] "2.IH" [OF _ h(2) "2.prems"(2)] h by simp
qed (simp add: records_content_def)

lemma chunk_of_bytes: "piece \<in> set (slice_chunks n bs) \<Longrightarrow> piece \<in> pieces_of bs \<and> length piece \<le> n"
proof (induction n bs rule: slice_chunks.induct)
  case (1 n bs)
  have tail: "piece' \<in> pieces_of (drop n bs) \<Longrightarrow> piece' \<in> pieces_of bs" for piece'
    by (auto simp: pieces_of_def)
  have head: "take n bs \<in> pieces_of bs" unfolding pieces_of_def by (metis (mono_tags) drop_0 mem_Collect_eq)
  show ?case using 1 tail head by (auto simp: slice_chunks.simps [of n bs] split: if_splits)
qed

lemma put_pieces_ok:
  assumes "hasher_streams hs sha256"
  shows "store_ok sha256 st \<Longrightarrow> \<exists>st'. put_pieces env hs pieces st =
      (Inr (map (\<lambda>piece. FileRecord_Data (sha256 piece) (of_nat (length piece))) pieces), st') \<and>
    store_ok sha256 st' \<and> store_grows st st' \<and> sha256 ` set pieces \<subseteq> store_digests st'"
proof (induction pieces arbitrary: st)
  case (Cons piece pieces)
  let ?st1 = "snd (put_bytes env hs piece st)"
  note ok = put_bytes_ok [OF assms Cons.prems, of env piece]
  obtain a where a: "put_bytes env hs piece st = (Inr a, ?st1)" "ao_digest a = sha256 piece" "ao_length a = of_nat (length piece)"
    using ok(2) by (metis prod.collapse)
  have grows: "store_grows st ?st1" by (rule put_bytes_grows [OF assms Cons.prems])
  have here: "sha256 piece \<in> store_digests ?st1"
    using ok(3) admit_sound(3) [of sha256 "os_objects st" piece] Cons.prems by (auto simp: store_ok_def store_digests_def)
  obtain st' where st': "put_pieces env hs pieces ?st1 =
      (Inr (map (\<lambda>piece. FileRecord_Data (sha256 piece) (of_nat (length piece))) pieces), st')"
    "store_ok sha256 st'" "store_grows ?st1 st'" "sha256 ` set pieces \<subseteq> store_digests st'"
    using Cons.IH [OF ok(1)] by blast
  have "sha256 piece \<in> store_digests st'" using here store_grows_digests [OF st'(3)] by blast
  then show ?case using a st' store_grows_trans [OF grows st'(3)] by (auto split: prod.split)
qed simp


text \<open>An admitted text reads back as the text.\<close>

lemma compose_admit_content:
  assumes "hasher_streams hs sha256" "store_ok sha256 st"
  obtains recs st' where "compose_admit env hs bs st = (Inr recs, st')" "store_ok sha256 st'" "store_grows st st'"
    "\<And>st''. store_ok sha256 st'' \<Longrightarrow> store_grows st' st'' \<Longrightarrow> clash_free sha256 bs st'' \<Longrightarrow>
      records_content st'' recs = bs \<and> list_all (record_resident st'') recs"
proof -
  let ?pieces = "slice_chunks (unat MAX_OBJECT_SIZE) bs"
  let ?recs = "map (\<lambda>piece. FileRecord_Data (sha256 piece) (of_nat (length piece))) ?pieces"
  obtain st' where st': "put_pieces env hs ?pieces st = (Inr ?recs, st')" "store_ok sha256 st'" "store_grows st st'"
    "sha256 ` set ?pieces \<subseteq> store_digests st'"
    using put_pieces_ok [OF assms, of env ?pieces] by blast
  have pos: "0 < unat MAX_OBJECT_SIZE" "unat MAX_OBJECT_SIZE < 2 ^ 64" by (simp_all add: MAX_OBJECT_SIZE_def)
  have "records_content st'' ?recs = bs \<and> list_all (record_resident st'') ?recs"
    if ok: "store_ok sha256 st''" "store_grows st' st''" "clash_free sha256 bs st''" for st''
  proof -
    have piece: "record_content st'' (FileRecord_Data (sha256 piece) (of_nat (length piece))) = piece \<and>
        record_resident st'' (FileRecord_Data (sha256 piece) (of_nat (length piece)))" if "piece \<in> set ?pieces" for piece
    proof -
      have "sha256 piece \<in> store_digests st''" using st'(4) that store_grows_digests [OF ok(2)] by blast
      then have "open_object (sha256 piece) st'' = Inr piece"
        using clash_free_opens [OF ok(1,3)] chunk_of_bytes [OF that] by blast
      moreover have "unat (of_nat (length piece) :: u64) = length piece" using chunk_of_bytes [OF that] pos(2) by (simp add: unat_of_nat)
      ultimately show ?thesis using data_piece by blast
    qed
    have "records_content st'' ?recs = concat ?pieces" using piece by (simp add: records_content_def comp_def cong: map_cong)
    then show ?thesis using concat_slice_chunks [OF pos(1)] piece by (simp add: list_all_iff)
  qed
  then show thesis using that st' by (simp add: compose_admit_def)
qed

lemma readable_grows: "store_grows st st' \<Longrightarrow> records_readable st records \<Longrightarrow>
    records_readable st' records \<and> records_content st' records = records_content st records"
  using records_grow [of st st' records] by (simp add: records_readable_def)

lemma inherited_resident: "records_readable st records \<Longrightarrow> set taken \<subseteq> set records \<Longrightarrow> list_all (record_resident st) taken"
  by (auto simp: records_readable_def list_all_iff)

text \<open>A composed safetensors file: the new header, then the tensors that were kept, in their order.\<close>

lemma compose_safetensors_content:
  assumes "hasher_streams hs sha256" "store_ok sha256 st" "records_readable st records"
    and "compose_safetensors env hs json_parse quote records names unnamed st = (Inr composed, st')"
  obtains layout kept where "st_read_layout json_parse (records_source st records) = Inr (Some layout)"
    "select te_name names unnamed (st_tensors layout) = Inr kept" "store_ok sha256 st'" "store_grows st st'"
    "clash_free sha256 (safetensors_header quote (map st_declared kept)) st' \<Longrightarrow>
      records_content st' composed = safetensors_header quote (map st_declared kept) @
        concat (map (\<lambda>(name, t). file_range (records_content st records) (st_header_end layout + te_start t) (te_end t - te_start t)) kept) \<and>
      list_all (record_resident st') composed"
proof -
  obtain layout kept where lay: "st_read_layout json_parse (records_source st records) = Inr (Some layout)"
    and kept: "select te_name names unnamed (st_tensors layout) = Inr kept"
    and rest: "op_then (compose_admit env hs (safetensors_header quote (map st_declared kept)) st) (\<lambda>header st.
      (map_ok (\<lambda>taken. header @ taken) (inherit_all records (map (st_range (st_header_end layout)) kept)), st)) = (Inr composed, st')"
    using assms(4) unfolding compose_safetensors_def
    by (auto simp: op_then_def result_simps split: sum.splits option.splits)
  let ?header = "safetensors_header quote (map st_declared kept)"
  obtain recs st1 where adm: "compose_admit env hs ?header st = (Inr recs, st1)" "store_ok sha256 st1" "store_grows st st1"
    "\<And>st''. store_ok sha256 st'' \<Longrightarrow> store_grows st1 st'' \<Longrightarrow> clash_free sha256 ?header st'' \<Longrightarrow>
      records_content st'' recs = ?header \<and> list_all (record_resident st'') recs"
    by (rule compose_admit_content [OF assms(1,2)]) blast
  obtain taken where t: "st' = st1" "inherit_all records (map (st_range (st_header_end layout)) kept) = Inr taken" "composed = recs @ taken"
    using rest adm(1) by (auto simp: map_ok_def split: sum.splits)
  have readable: "records_readable st' records" "records_content st' records = records_content st records"
    using readable_grows [OF adm(3) assms(3)] t(1) by simp_all
  note inh = inherit_all_content [OF t(2) readable(1)]
  have "concat (map (\<lambda>(start, len, name). file_range (records_content st records) start len) (map (st_range (st_header_end layout)) kept)) =
      concat (map (\<lambda>(name, t). file_range (records_content st records) (st_header_end layout + te_start t) (te_end t - te_start t)) kept)"
    by (simp add: comp_def st_range_def case_prod_unfold)
  then show thesis using that [OF lay kept] adm t inh readable(2) inherited_resident [OF readable(1)] by auto
qed


section \<open>Adoption\<close>

lemma adopt_ranges_content:
  assumes "list_all (record_resident st) records" "unat position + run_size records < 2 ^ 64"
    and "((p, len), d) \<in> set (adopt_ranges position records)"
  shows "unat position \<le> unat p \<and> FileRecord_Data d len \<in> set records \<and>
    record_content st (FileRecord_Data d len) = take (unat len) (drop (unat p - unat position) (records_content st records))"
  using assms
proof (induction records arbitrary: position)
  case (Cons r rs)
  let ?next = "position + record_length r"
  have nx: "unat ?next = unat position + unat (record_length r)" using Cons.prems(2) by (simp add: unat_add_u64)
  have len: "length (record_content st r) = unat (record_length r)" using Cons.prems(1) length_record_content [of st r] by simp
  have content: "records_content st (r # rs) = record_content st r @ records_content st rs" by (simp add: records_content_def)
  have rest: "unat ?next \<le> unat p \<and> FileRecord_Data d len \<in> set rs \<and>
      record_content st (FileRecord_Data d len) = take (unat len) (drop (unat p - unat ?next) (records_content st rs))"
    if "((p, len), d) \<in> set (adopt_ranges ?next rs)"
    using Cons.IH [OF _ _ that] Cons.prems(1,2) nx by simp
  show ?case
  proof (cases "((p, len), d) \<in> set (adopt_ranges ?next rs)")
    case True
    from rest [OF this] show ?thesis unfolding content using nx len by (auto simp: diff_diff_left)
  next
    case False
    then have "r = FileRecord_Data d len" "p = position" using Cons.prems(3) by (cases r; auto)+
    then show ?thesis unfolding content using len by simp
  qed
qed simp

lemma assign_regions_recut:
  "fresh = map (\<lambda>r. sha256 (region_bytes file r)) (filter (\<lambda>r. map_of ranges (region_range r) = None) regions) \<Longrightarrow>
   assign_regions ranges regions fresh = Inr (map (recut sha256 file ranges) regions)"
  by (induction regions arbitrary: fresh) (auto simp: recut_def split: option.splits)

lemma adopt_keeps:
  assumes "hasher_streams hs sha256" "store_ok sha256 st" "records_readable st records" "contract_fits con"
    and "\<And>n. mset (ae_schedule ae n) = mset [0..<n]"
    and "adopt ae hs sha256 json_parse (FileBody_Tensor fmt stamp len records) con st = (result, st')"
    and "clash_free sha256 (records_content st records) st'"
  shows "store_ok sha256 st' \<and> store_grows st st' \<and>
    (\<exists>p. plan_with sha256 json_parse 0 (records_source st records) con = Inr p \<and>
      (if planner_tensor_format (plan_planner p) = Some fmt then \<exists>composed.
         result = Inr (FileBody_Tensor fmt (plan_contract p) (of_nat (length (records_content st records))) composed) \<and>
         map record_length composed = map reg_length (plan_regions p) \<and>
         records_content st' composed = records_content st records \<and> list_all (record_resident st') composed
       else result = Inl (ComposeError_Unreadable (format_name fmt)) \<and> st' = st))"
proof -
  let ?file = "records_content st records" and ?source = "records_source st records"
  obtain p where p: "plan_with sha256 json_parse 0 ?source con = Inr p" "tiles 0 (plan_regions p) (length ?file)"
    by (rule plan_records [OF assms(3,4)])
  have readable: "list_all (record_resident st) records" "run_size records < 2 ^ 64"
    using assms(3) by (simp_all add: records_readable_def run_size_def)
  show ?thesis
  proof (cases "planner_tensor_format (plan_planner p) = Some fmt")
    case False
    then show ?thesis using assms(2,6) p(1) by (simp add: adopt_def)
  next
    case True
    let ?regions = "plan_regions p" and ?ranges = "by_range (adopt_ranges 0 records)"
    let ?pending = "filter (\<lambda>r. map_of ?ranges (region_range r) = None) ?regions"
    have inside: "list_all (region_inside (length ?file)) ?pending"
      using tiles_inside [OF p(2) order_refl] by (auto simp: list_all_iff)
    have sched: "mset (ae_schedule ae (length ?pending)) = mset [0..<length ?pending]" using assms(5) by simp
    have valid: "case (st, records) of (st, records) \<Rightarrow> records_readable st records" using assms(3) by simp
    obtain outcome st1 where run: "admit_regions (ae_env ae) hs (ae_concurrency ae) (ae_schedule ae (length ?pending)) ?source ?pending st =
        (outcome, st1)" by (rule prod.exhaust)
    obtain admitted where admitted: "outcome = Inr admitted" and dg: "map ao_digest admitted = map (sha256 \<circ> region_bytes ?file) ?pending"
      using committed.admit_regions_inside [OF assms(1,2) valid, of ?pending, unfolded prod.case, OF inside sched run] by blast
    note adm = run [unfolded admitted]
    have dg': "map ao_digest admitted = map (\<lambda>r. sha256 (region_bytes ?file r)) ?pending" using dg by (simp add: comp_def)
    have res: "st' = st1" "result = Inr (FileBody_Tensor fmt (plan_contract p)
        (sum_list (map record_length (map (recut sha256 ?file ?ranges) ?regions))) (map (recut sha256 ?file ?ranges) ?regions))"
      using assms(6) p(1) True adm assign_regions_recut [OF dg'] by (simp_all add: adopt_def Let_def map_ok_def)
    note spec = admit_regions_spec [OF assms(1,2) sched, of "ae_env ae" "ae_concurrency ae" ?source, unfolded adm snd_conv]
    have grows: "store_grows st st1"
      using admit_regions_grows [OF assms(1,2), of "ae_env ae" "ae_concurrency ae" "ae_schedule ae (length ?pending)" ?source ?pending] adm by simp
    have digests: "store_digests st1 = ao_digest ` set admitted \<union> store_digests st"
      by (rule admit_regions_digests [OF assms(1,2) sched adm])
    have old: "FileRecord_Data d n \<in> set records \<and> record_content st (FileRecord_Data d n) = take (unat n) (drop (unat q) ?file)"
      if "map_of ?ranges (q, n) = Some d" for q n d
      using adopt_ranges_content [OF readable(1) _ by_range_mem [OF that]] readable(2) by simp
    have new: "sha256 (region_bytes ?file r) \<in> store_digests st1"
      if "r \<in> set ?regions" "map_of ?ranges (region_range r) = None" for r
      using that digests arg_cong [OF dg', of set] by auto
    note keep = recut_keeps [OF spec(1) grows assms(3) p(2) assms(7) [unfolded res(1)] old new]
    have lens: "map record_length (map (recut sha256 ?file ?ranges) ?regions) = map reg_length ?regions"
      by (simp add: recut_def comp_def)
    have "run_size (map (recut sha256 ?file ?ranges) ?regions) = length ?file"
      using length_run_content [OF keep(2)] keep(1) by simp
    then have "sum_list (map record_length (map (recut sha256 ?file ?ranges) ?regions)) = of_nat (length ?file)"
      using unat_sum_lengths [of "map (recut sha256 ?file ?ranges) ?regions"] length_run_content [OF readable(1)] readable(2)
      by (simp add: word_unat_eq_iff unat_of_nat)
    then show ?thesis using True p(1) res spec(1) grows keep lens by auto
  qed
qed


section \<open>Derivation\<close>

definition run_bytes :: "bytes \<Rightarrow> source_run list \<Rightarrow> bytes" where
  "run_bytes file runs = concat (map (\<lambda>run. file_range file (sr_offset run) (sr_length run)) runs)"

text \<open>What a derived tensor holds: its runs, rearranged by its transform.\<close>

definition derived_bytes :: "bytes \<Rightarrow> derived_tensor \<Rightarrow> bytes option" where
  "derived_bytes file t =
     (if is_identity_transform (dt_transform t) then Some (run_bytes file (dt_runs t))
      else Option.bind (transform_apply (dt_transform t) (run_bytes file (dt_runs t))
        (derived_length t div max (prod_list (dt_shape t)) 1) (dt_shape t)) (\<lambda>moved. moved))"

lemma read_of_records:
  assumes "records_readable st records" "src_read (records_source st records) offset (unat len) = Inr part"
  shows "part = file_range (records_content st records) offset len \<and> length part = unat len"
  using assms(2) read_run_content [OF read_object_exact assms(1), where destination = "replicate (unat len) 0" and offset = offset]
    unat_u64_lt [of len]
  by (auto simp: records_source_def file_range_def split: if_splits)

lemma unat_sum_list_le: "unat (sum_list (map f xs) :: u64) \<le> sum_list (map (unat \<circ> f) xs)"
proof (induction xs)
  case (Cons x xs)
  have "unat (f x + sum_list (map f xs)) \<le> unat (f x) + unat (sum_list (map f xs))" by (simp add: unat_word_ariths)
  then show ?case using Cons by simp
qed simp

lemma read_runs_content:
  "read_runs (records_source st records) buffer written runs = Inr bs \<Longrightarrow> records_readable st records \<Longrightarrow>
   written + sum_list (map (unat \<circ> sr_length) runs) \<le> max buffer written \<and>
   bs = run_bytes (records_content st records) runs @ replicate (buffer - (written + sum_list (map (unat \<circ> sr_length) runs))) 0"
proof (induction runs arbitrary: written bs)
  case (Cons run runs)
  obtain part rest where p: "written + unat (sr_length run) \<le> buffer"
    "src_read (records_source st records) (sr_offset run) (unat (sr_length run)) = Inr part"
    "read_runs (records_source st records) buffer (written + unat (sr_length run)) runs = Inr rest" "bs = part @ rest"
    using Cons.prems(1) by (auto simp: Let_def result_simps map_err_def not_less split: if_splits sum.splits)
  show ?case using Cons.IH [OF p(3) Cons.prems(2)] read_of_records [OF Cons.prems(2) p(2)] p(1,4)
    by (simp add: run_bytes_def add.assoc)
qed (simp add: run_bytes_def)

lemma rearrange_content:
  assumes "rearrange (records_source st records) t = Inr moved" "records_readable st records"
    and "\<not> is_identity_transform (dt_transform t)"
  shows "derived_bytes (records_content st records) t = Some moved"
proof -
  obtain bs where bs: "read_runs (records_source st records) (unat (derived_length t)) 0 (dt_runs t) = Inr bs"
    and apply_bs: "transform_apply (dt_transform t) bs (derived_length t div max (prod_list (dt_shape t)) 1) (dt_shape t) = Some (Some moved)"
    using assms(1) by (auto simp: rearrange_def Let_def result_simps split: if_splits option.splits)
  have "unat (derived_length t) \<le> sum_list (map (unat \<circ> sr_length) (dt_runs t))"
    unfolding derived_length_def by (rule unat_sum_list_le)
  then have "bs = run_bytes (records_content st records) (dt_runs t)" using read_runs_content [OF bs assms(2)] by simp
  then show ?thesis using apply_bs assms(3) by (simp add: derived_bytes_def)
qed

lemma derive_tensors_content:
  assumes "hasher_streams hs sha256"
  shows "derive_tensors env hs records ts st = (Inr taken, st') \<Longrightarrow> store_ok sha256 st \<Longrightarrow> records_readable st records \<Longrightarrow>
    store_ok sha256 st' \<and> store_grows st st' \<and>
    (\<exists>held. those (map (derived_bytes (records_content st records)) ts) = Some held \<and>
      ((\<forall>t \<in> set ts. \<forall>bs. derived_bytes (records_content st records) t = Some bs \<longrightarrow> clash_free sha256 bs st') \<longrightarrow>
        records_content st' taken = concat held \<and> list_all (record_resident st') taken)) \<and>
    ((\<forall>t \<in> set ts. is_identity_transform (dt_transform t)) \<longrightarrow> set taken \<subseteq> set records \<and> st' = st)"
proof (induction ts arbitrary: st taken)
  case Nil
  then show ?case by (simp add: records_content_def)
next
  case (Cons t ts)
  let ?file = "records_content st records"
  obtain here st1 rest where one: "(if is_identity_transform (dt_transform t) then (inherit_all records (map run_range (dt_runs t)), st)
       else op_then (rearrange (records_source st records) t, st) (\<lambda>moved st. compose_admit env hs moved st)) = (Inr here, st1)"
    and two: "derive_tensors env hs records ts st1 = (Inr rest, st')" "taken = here @ rest"
    using Cons.prems(1) by (auto simp: op_then_def split: prod.splits sum.splits)
  have H: "store_ok sha256 st1 \<and> store_grows st st1 \<and> (\<exists>bs. derived_bytes ?file t = Some bs \<and>
      (\<forall>st''. store_ok sha256 st'' \<longrightarrow> store_grows st1 st'' \<longrightarrow> clash_free sha256 bs st'' \<longrightarrow>
        records_content st'' here = bs \<and> list_all (record_resident st'') here)) \<and>
      (is_identity_transform (dt_transform t) \<longrightarrow> set here \<subseteq> set records \<and> st1 = st)"
  proof (cases "is_identity_transform (dt_transform t)")
    case True
    then have here: "inherit_all records (map run_range (dt_runs t)) = Inr here" "st1 = st" using one by simp_all
    have "records_content st'' here = run_bytes ?file (dt_runs t) \<and> list_all (record_resident st'') here \<and> set here \<subseteq> set records"
      if "store_grows st st''" for st''
    proof -
      have r: "records_readable st'' records" "records_content st'' records = ?file" using readable_grows [OF that Cons.prems(3)] by simp_all
      show ?thesis using inherit_all_content [OF here(1) r(1)] inherited_resident [OF r(1), of here] r(2)
        by (simp add: run_bytes_def run_range_def comp_def)
    qed
    from this [OF store_grows_refl] this show ?thesis using True here(2) Cons.prems(2) by (auto simp: derived_bytes_def)
  next
    case False
    obtain moved where m: "rearrange (records_source st records) t = Inr moved" "compose_admit env hs moved st = (Inr here, st1)"
      using one False by (auto simp: op_then_def split: sum.splits)
    from compose_admit_content [OF assms Cons.prems(2), of env moved] m(2)
    have "store_ok sha256 st1 \<and> store_grows st st1 \<and> (\<forall>st''. store_ok sha256 st'' \<longrightarrow> store_grows st1 st'' \<longrightarrow> clash_free sha256 moved st'' \<longrightarrow>
        records_content st'' here = moved \<and> list_all (record_resident st'') here)"
      by (metis Pair_inject sum.inject(2))
    then show ?thesis using rearrange_content [OF m(1) Cons.prems(3) False] False by auto
  qed
  then obtain bs where bs: "derived_bytes ?file t = Some bs" "store_ok sha256 st1" "store_grows st st1"
    "\<And>st''. store_ok sha256 st'' \<Longrightarrow> store_grows st1 st'' \<Longrightarrow> clash_free sha256 bs st'' \<Longrightarrow>
      records_content st'' here = bs \<and> list_all (record_resident st'') here"
    "is_identity_transform (dt_transform t) \<Longrightarrow> set here \<subseteq> set records \<and> st1 = st" by blast
  have r: "records_readable st1 records" "records_content st1 records = ?file" using readable_grows [OF bs(3) Cons.prems(3)] by simp_all
  note IH = Cons.IH [OF two(1) bs(2) r(1), unfolded r(2)]
  show ?case using IH bs store_grows_trans [OF bs(3)] two(2) by auto
qed


lemma derive_content:
  assumes "hasher_streams hs sha256" "store_ok sha256 st" "records_readable st records"
    and "derive env hs sha256 json_parse quote (FileBody_Tensor fmt stamp len records) source target st = (Inr body, st')"
  obtains found d a composed held where "inventory json_parse 0 (records_source st records) = Inr (Some found)"
    "decide source found target = Inr d" "decision_adapter d = Some a"
    "body = FileBody_Tensor TensorFormat_SafetensorsV1 (contract_stamp sha256 target) (sum_list (map record_length composed)) composed"
    "store_ok sha256 st'" "store_grows st st'"
    "those (map (derived_bytes (records_content st records)) (ad_tensors a)) = Some held"
    "clash_free sha256 (safetensors_header quote (map derived_declared (ad_tensors a))) st' \<Longrightarrow> \<forall>bs \<in> set held. clash_free sha256 bs st' \<Longrightarrow>
      records_content st' composed = safetensors_header quote (map derived_declared (ad_tensors a)) @ concat held \<and>
      list_all (record_resident st') composed"
proof -
  obtain found d a where fd: "inventory json_parse 0 (records_source st records) = Inr (Some found)"
    "decide source found target = Inr d" "decision_adapter d = Some a"
    and view: "derive_view env hs sha256 quote records target a st = (Inr body, st')"
    using assms(4) unfolding derive_def
    by (auto simp: op_then_def result_simps map_err_def split: sum.splits decision.splits)
  let ?header = "safetensors_header quote (map derived_declared (ad_tensors a))"
  obtain recs st1 where adm: "compose_admit env hs ?header st = (Inr recs, st1)" "store_ok sha256 st1" "store_grows st st1"
    "\<And>st''. store_ok sha256 st'' \<Longrightarrow> store_grows st1 st'' \<Longrightarrow> clash_free sha256 ?header st'' \<Longrightarrow>
      records_content st'' recs = ?header \<and> list_all (record_resident st'') recs"
    by (rule compose_admit_content [OF assms(1,2)]) blast
  obtain taken where t: "derive_tensors env hs records (ad_tensors a) st1 = (Inr taken, st')"
    and body: "body = FileBody_Tensor TensorFormat_SafetensorsV1 (contract_stamp sha256 target)
      (sum_list (map record_length (recs @ taken))) (recs @ taken)"
    using view adm(1) by (auto simp: derive_view_def op_then_def Let_def split: sum.splits prod.splits)
  have r: "records_readable st1 records" "records_content st1 records = records_content st records"
    using readable_grows [OF adm(3) assms(3)] by simp_all
  note D = derive_tensors_content [OF assms(1) t adm(2) r(1), unfolded r(2)]
  obtain held where held: "those (map (derived_bytes (records_content st records)) (ad_tensors a)) = Some held"
    "(\<forall>t \<in> set (ad_tensors a). \<forall>bs. derived_bytes (records_content st records) t = Some bs \<longrightarrow> clash_free sha256 bs st') \<longrightarrow>
      records_content st' taken = concat held \<and> list_all (record_resident st') taken" using D by blast
  have mem: "bs \<in> set held" if "t \<in> set (ad_tensors a)" "derived_bytes (records_content st records) t = Some bs" for t bs
  proof -
    have "map (derived_bytes (records_content st records)) (ad_tensors a) = map Some held" using held(1) by (simp add: those_Some_iff)
    then have "Some bs \<in> set (map Some held)" using that by (metis image_eqI list.set_map)
    then show ?thesis by auto
  qed
  show thesis
  proof (rule that [OF fd body _ _ held(1)])
    show "store_ok sha256 st'" "store_grows st st'" using D store_grows_trans [OF adm(3)] by blast+
    assume free: "clash_free sha256 ?header st'" "\<forall>bs \<in> set held. clash_free sha256 bs st'"
    then show "records_content st' (recs @ taken) = ?header @ concat held \<and> list_all (record_resident st') (recs @ taken)"
      using adm(4) [of st'] held(2) mem D by auto
  qed
qed


section \<open>Selection\<close>

definition renamed :: "('t \<Rightarrow> str) \<Rightarrow> (str \<times> str) list \<Rightarrow> 't list \<Rightarrow> (str \<times> 't) list" where
  "renamed name_of names ts = List.map_filter (\<lambda>t. map_option (\<lambda>new. (new, t)) (map_of names (name_of t))) ts"

lemma select_loop_renamed:
  "select_loop name_of names unnamed taken ts = Inr kept \<Longrightarrow>
   kept = renamed name_of names ts \<and> distinct (map fst kept) \<and> set (map fst kept) \<inter> set taken = {} \<and>
   (unnamed = Unnamed_Refuse \<longrightarrow> (\<forall>t \<in> set ts. map_of names (name_of t) \<noteq> None))"
proof (induction ts arbitrary: taken kept)
  case (Cons t ts)
  show ?case
  proof (cases "map_of names (name_of t)")
    case None
    then have "unnamed = Unnamed_Drop" "select_loop name_of names unnamed taken ts = Inr kept"
      using Cons.prems by (auto split: unnamed.splits)
    then show ?thesis using Cons.IH None by (simp add: renamed_def map_filter_simps)
  next
    case (Some new)
    then obtain rest where r: "new \<notin> set taken" "select_loop name_of names unnamed (new # taken) ts = Inr rest" "kept = (new, t) # rest"
      using Cons.prems by (auto simp: result_simps split: if_splits)
    show ?thesis using Cons.IH [OF r(2)] r(1,3) Some by (auto simp: renamed_def map_filter_simps)
  qed
qed (simp add: renamed_def map_filter_simps)

lemma select_renamed:
  "select name_of names unnamed ts = Inr kept \<Longrightarrow>
   kept = renamed name_of names ts \<and> distinct (map fst kept) \<and> fst ` set names \<subseteq> name_of ` set ts \<and>
   (unnamed = Unnamed_Refuse \<longrightarrow> name_of ` set ts = fst ` set names)"
  using select_loop_renamed [of name_of names unnamed "[]" ts kept]
  by (auto simp: select_def result_simps find_None_iff map_of_eq_None_iff split: option.splits)

end
