(* ===== verification/Adapter_Samples.thy ===== *)
theory Adapter_Samples
  imports Adapter_Views
begin

text \<open>
  Concrete inputs of the adapter properties: a file of two tensors that a target contract fuses to one,
  a small fused tensor, and a permute that swaps the axes of a matrix.
\<close>

definition literal_pattern :: "str \<Rightarrow> pattern" where
  "literal_pattern s = \<lparr>pat_pieces = [Piece_Literal s], pat_text = s\<rparr>"

definition sample_entry :: "str \<Rightarrow> str \<Rightarrow> fusion option \<Rightarrow> tensor_pattern" where
  "sample_entry role name f = \<lparr>tp_role = literal_pattern role, tp_pattern = literal_pattern name, tp_dtypes = [],
     tp_rank = None, tp_required = True, tp_fusion = f, tp_permute = None\<rparr>"

definition joined_fusion :: fusion where
  "joined_fusion = \<lparr>fus_groups = 1, fus_parts = [\<lparr>part_role = ''a'', part_share = 1\<rparr>, \<lparr>part_role = ''b'', part_share = 1\<rparr>]\<rparr>"

definition split_contract :: contract where
  "split_contract = \<lparr>con_handle = None, con_description = [], con_dtype = None,
     con_tensors = [sample_entry ''w#a'' ''left'' None, sample_entry ''w#b'' ''right'' None], con_sets = []\<rparr>"

definition joined_contract :: contract where
  "joined_contract = \<lparr>con_handle = None, con_description = [], con_dtype = None,
     con_tensors = [sample_entry ''w'' ''both'' (Some joined_fusion)], con_sets = []\<rparr>"

definition split_tensor :: "str \<Rightarrow> u64 \<Rightarrow> inventory_tensor" where
  "split_tensor name offset = \<lparr>inv_name = name, inv_dtype = ''U8'', inv_shape = [2, 3], inv_offset = offset, inv_length = 6\<rparr>"

definition split_inventory :: tensor_inventory where
  "split_inventory = \<lparr>inv_format = TensorFormat_SafetensorsV1,
     inv_tensors = [split_tensor ''left'' 8, split_tensor ''right'' 14]\<rparr>"

definition joined_inventory :: tensor_inventory where
  "joined_inventory = \<lparr>inv_format = TensorFormat_SafetensorsV1, inv_tensors = [split_tensor ''both'' 8]\<rparr>"

definition split_run :: "str \<Rightarrow> str \<Rightarrow> u64 \<Rightarrow> source_run" where
  "split_run role name offset = \<lparr>sr_role = role, sr_tensor = name, sr_dtype = ''U8'', sr_permute = None, sr_offset = offset,
     sr_length = 6, sr_rows = 2, sr_row_shape = [3]\<rparr>"

definition joined_tensor :: derived_tensor where
  "joined_tensor = \<lparr>dt_name = ''both'', dt_dtype = ''U8'', dt_shape = [4, 3],
     dt_runs = [split_run ''w#a'' ''left'' 8, split_run ''w#b'' ''right'' 14], dt_transform = Transform_Identity\<rparr>"

lemmas adapter_eval = literal_pattern_def sample_entry_def joined_fusion_def captures_def instantiate_def entry_for_def
  pattern_matches_def pattern_holes_def runs_of_def Let_def

lemma split_runs: "role_runs split_contract split_inventory =
    Inr [(''w#a'', split_run ''w#a'' ''left'' 8), (''w#b'', split_run ''w#b'' ''right'' 14)]"
  by (simp add: role_runs_def split_contract_def split_inventory_def split_tensor_def split_run_def adapter_eval
      source_run_of_def fusion_run_whole_def is_multiple_of_def)

lemma split_joined: "decide split_contract split_inventory joined_contract = Inr (Decision_RunPreserving \<lparr>ad_tensors = [joined_tensor]\<rparr>)"
proof -
  let ?available = "[(''w#a'', split_run ''w#a'' ''left'' 8), (''w#b'', split_run ''w#b'' ''right'' 14)]"
  let ?entry = "sample_entry ''w'' ''both'' (Some joined_fusion)"
  have suffixes: "entry_suffixes ?entry = [''#a'', ''#b'']"
    by (simp add: entry_suffixes_def part_suffix_def sample_entry_def joined_fusion_def)
  have vals: "entry_captures ?available [''#a'', ''#b''] ?entry = [[]]"
    by (simp add: entry_captures_def strip_suffix_def adapter_eval map_filter_simps)
  have "decide_values ?available ?entry [''#a'', ''#b''] [[]] = Inr (Inr [joined_tensor])"
    by (simp add: adapter_eval derive_tensor_def split_run_def joined_tensor_def transform_between_def)
  then show ?thesis using split_runs suffixes vals
    by (simp add: decide_def joined_contract_def Let_def joined_tensor_def split_run_def)
qed

text \<open>Both parts of the fused tensor are below the smallest part that is cut out, so the tensor is one run
  under its bare role.\<close>

lemma joined_fusion_runs:
  "fusion_runs joined_fusion [2, 3] 6 = Some [\<lparr>run_role = ''#a'', run_length = 3\<rparr>, \<lparr>run_role = ''#b'', run_length = 3\<rparr>]"
  by (simp add: fusion_runs_def joined_fusion_def fusion_units_def checked_mul_def is_multiple_of_def fusion_role_def)

lemma joined_runs: "role_runs joined_contract joined_inventory = Inr [(''w'', split_run ''w'' ''both'' 8)]"
proof -
  have "runs_of joined_contract ''both'' [2, 3] 6 = None"
    by (simp add: joined_fusion_runs runs_of_def joined_contract_def entry_for_def pattern_matches_def captures_def sample_entry_def
        literal_pattern_def MIN_SEAM_PART_BYTES_def)
  then show ?thesis
    by (simp add: role_runs_def joined_inventory_def split_tensor_def split_run_def entry_for_def pattern_matches_def captures_def
        joined_contract_def sample_entry_def literal_pattern_def instantiate_def pattern_holes_def
        source_run_of_def fusion_run_whole_def is_multiple_of_def Let_def)
qed

lemma joined_decision: "decide joined_contract joined_inventory joined_contract = Inr (Decision_Conversion (Reason_Required ''w''))"
proof -
  have "entry_captures [(''w'', split_run ''w'' ''both'' 8)] (entry_suffixes (sample_entry ''w'' ''both'' (Some joined_fusion)))
      (sample_entry ''w'' ''both'' (Some joined_fusion)) = []"
    by (simp add: entry_captures_def entry_suffixes_def part_suffix_def strip_suffix_def sample_entry_def joined_fusion_def map_filter_simps)
  then show ?thesis using joined_runs by (simp add: decide_def joined_contract_def sample_entry_def literal_pattern_def)
qed

lemma joined_no_bare_role: "\<not> declares_role joined_contract ''w''"
  by (auto simp: declares_role_def joined_contract_def sample_entry_def literal_pattern_def joined_fusion_def entry_suffixes_def
      part_suffix_def instantiate_def pattern_holes_def)

definition swap_axes :: permute where
  "swap_axes = \<lparr>perm_view = [Dim_Axis 0 1, Dim_Axis 1 1], perm_axes = [1, 0]\<rparr>"

lemma swap_axes_ok: "permute_ok swap_axes" "permute_resolve swap_axes [2, 3] = Some [2, 3]"
  by (auto simp: Contract_Document.permute_ok_def swap_axes_def permute_resolve_def checked_product_def checked_mul_def is_multiple_of_def)

end
