(* ===== verification/Compose_Samples.thy ===== *)
theory Compose_Samples
  imports Compose_Content Adapter_Samples Seal_Samples
begin

text \<open>
  Concrete inputs of the composition properties: a committed safetensors file of two objects, with a hash
  that is injective on the pieces of the files at hand, and the store after its objects were admitted.
\<close>

section \<open>A hash without collisions on given files\<close>

definition all_pieces :: "bytes \<Rightarrow> bytes list" where
  "all_pieces bs = concat (map (\<lambda>k. map (\<lambda>n. take n (drop k bs)) [0..<Suc (length bs)]) [0..<Suc (length bs)])"

lemma set_all_pieces: "set (all_pieces bs) = pieces_of bs"
proof -
  have "\<exists>k'\<le>length bs. \<exists>n'\<le>length bs. take n (drop k bs) = take n' (drop k' bs)" for k n
    by (rule exI [of _ "min k (length bs)"], simp, rule exI [of _ "min n (length bs)"]) (auto simp: min_def)
  then have "\<exists>k' \<in> {0..<Suc (length bs)}. \<exists>n' \<in> {0..<Suc (length bs)}. take n (drop k bs) = take n' (drop k' bs)" for k n
    by (simp only: atLeast0LessThan lessThan_iff less_Suc_eq_le Bex_def)
  then show ?thesis unfolding all_pieces_def pieces_of_def set_concat set_map set_upt image_image by blast
qed

lemma length_all_pieces: "length (all_pieces bs) = Suc (length bs) * Suc (length bs)"
  by (simp add: all_pieces_def length_concat comp_def sum_list_triv)

definition table_hash :: "bytes list \<Rightarrow> bytes \<Rightarrow> digest" where
  "table_hash files bs = of_nat (length (takeWhile (\<lambda>x. x \<noteq> bs) (concat (map all_pieces files))))"

definition table_hasher :: "bytes list \<Rightarrow> bytes hasher" where
  "table_hasher files = \<lparr>hs_new = [], hs_update = (@), hs_finalize = table_hash files\<rparr>"

lemma table_hasher_streams: "hasher_streams (table_hasher files) (table_hash files)"
proof -
  have "fold (\<lambda>bs h. h @ bs) pieces h = h @ concat pieces" for pieces :: "bytes list" and h
    by (induction pieces arbitrary: h) simp_all
  then show ?thesis by (simp add: hasher_streams_def table_hasher_def)
qed

lemma takeWhile_position: "x \<in> set xs \<Longrightarrow> length (takeWhile (\<lambda>z. z \<noteq> x) xs) < length xs \<and> xs ! length (takeWhile (\<lambda>z. z \<noteq> x) xs) = x"
  by (induction xs) auto

lemma table_hash_inj:
  assumes "sum_list (map (\<lambda>f. Suc (length f) * Suc (length f)) files) < 2 ^ 256"
  shows "inj_on (table_hash files) (\<Union> (pieces_of ` set files))"
proof (rule inj_onI)
  let ?table = "concat (map all_pieces files)"
  fix x y
  assume "x \<in> \<Union> (pieces_of ` set files)" "y \<in> \<Union> (pieces_of ` set files)" and eq: "table_hash files x = table_hash files y"
  then have mem: "x \<in> set ?table" "y \<in> set ?table" by (auto simp: set_all_pieces)
  have "length ?table = sum_list (map (\<lambda>f. Suc (length f) * Suc (length f)) files)"
    by (simp add: length_concat comp_def length_all_pieces)
  then have small: "length ?table < 2 ^ 256" using assms by simp
  define position where "position z = length (takeWhile (\<lambda>w. w \<noteq> z) ?table)" for z
  have hash: "table_hash files z = of_nat (position z)" for z by (simp only: table_hash_def position_def)
  have pos: "position z < length ?table \<and> ?table ! position z = z" if "z \<in> set ?table" for z
    unfolding position_def by (rule takeWhile_position [OF that])
  have "unat (of_nat (position z) :: digest) = position z" if "z \<in> set ?table" for z
    using order.strict_trans [OF conjunct1 [OF pos [OF that]] small] by (simp add: unat_of_nat)
  then have "position x = position y" using arg_cong [OF eq, of unat] mem unfolding hash by metis
  then show "x = y" using pos mem by metis
qed

lemma admit_objects_ran: "ran (object_bytes (snd (admit sha256 bs objects))) \<subseteq> insert bs (ran (object_bytes objects))"
proof -
  have "object_bytes (bt_insert d (Resident_File bs True) objects) = (object_bytes objects)(d \<mapsto> bs)" for d
    by (rule ext) (simp add: object_bytes_def map_of_bt_insert)
  then have "ran (object_bytes (bt_insert d (Resident_File bs True) objects)) \<subseteq> insert bs (ran (object_bytes objects))" for d
    by (auto simp: ran_def split: if_splits)
  then show ?thesis by (auto simp: admit_def Let_def split: option.splits resident.splits)
qed

lemma put_pieces_ran:
  assumes "hasher_streams hs sha256"
  shows "store_ok sha256 st \<Longrightarrow>
    ran (object_bytes (os_objects (snd (put_pieces env hs pieces st)))) \<subseteq> set pieces \<union> ran (object_bytes (os_objects st))"
proof (induction pieces arbitrary: st)
  case (Cons piece pieces)
  let ?st1 = "snd (put_bytes env hs piece st)"
  note ok = put_bytes_ok [OF assms Cons.prems, of env piece]
  obtain a where a: "put_bytes env hs piece st = (Inr a, ?st1)" using ok(2) by (metis prod.collapse)
  have "snd (put_pieces env hs (piece # pieces) st) = snd (put_pieces env hs pieces ?st1)"
    by (subst put_pieces.simps, subst a) (auto simp: op_then_def split: prod.split sum.split)
  moreover have "ran (object_bytes (os_objects ?st1)) \<subseteq> insert piece (ran (object_bytes (os_objects st)))"
    using ok(3) admit_objects_ran by simp
  ultimately show ?case using Cons.IH [OF ok(1)] by auto
qed simp



lemma pieces_of_mono:
  assumes "piece \<in> pieces_of bs"
  shows "pieces_of piece \<subseteq> pieces_of bs"
proof -
  obtain k n where "piece = take n (drop k bs)" using assms by (auto simp: pieces_of_def)
  then have "take m (drop j piece) = take (min m (n - j)) (drop (j + k) bs)" for m j by (simp add: drop_take)
  then show ?thesis by (auto simp: pieces_of_def)
qed


section \<open>A committed file\<close>

definition sample_pieces :: "bytes list" where
  "sample_pieces = [take 24 sample_safetensors, sample_tensor]"

definition sample_committed :: "bytes list \<Rightarrow> object_store" where
  "sample_committed files = snd (put_pieces sample_env (table_hasher files) sample_pieces store_new)"

definition sample_run :: "bytes list \<Rightarrow> file_record list" where
  "sample_run files = [FileRecord_Data (table_hash files (take 24 sample_safetensors)) 24, FileRecord_Data (table_hash files sample_tensor) 8]"

definition sample_files :: "bytes \<Rightarrow> bytes list" where
  "sample_files header = [sample_safetensors, header]"

lemma sample_pieces_concat: "concat sample_pieces = sample_safetensors"
  by (simp add: sample_pieces_def sample_safetensors_eval)

lemma sample_pieces_mem: "set sample_pieces \<subseteq> pieces_of sample_safetensors"
proof -
  have "take 24 sample_safetensors \<in> pieces_of sample_safetensors" unfolding pieces_of_def by (metis (mono_tags) drop_0 mem_Collect_eq)
  moreover have "sample_tensor = take 8 (drop 24 sample_safetensors)" by (simp add: sample_safetensors_eval)
  ultimately show ?thesis unfolding sample_pieces_def by (auto simp: pieces_of_def)
qed

lemma sample_lengths: "length (take 24 sample_safetensors) = 24" "length sample_tensor = 8" "length sample_safetensors = 32"
  by (simp_all add: sample_safetensors_eval)

lemma files_clash_free:
  assumes "length header < 2 ^ 20" "ran (object_bytes (os_objects st)) \<subseteq> \<Union> (pieces_of ` {sample_safetensors, header})"
    and "file \<in> {sample_safetensors, header}"
  shows "clash_free (table_hash (sample_files header)) file st"
proof -
  have "Suc (length header) * Suc (length header) \<le> 2 ^ 20 * 2 ^ 20" using assms(1) by (intro mult_le_mono) simp_all
  then have "inj_on (table_hash (sample_files header)) (\<Union> (pieces_of ` set (sample_files header)))"
    by (intro table_hash_inj) (simp add: sample_files_def sample_lengths)
  then show ?thesis unfolding clash_free_def
    by (rule inj_on_subset) (use assms(2,3) in \<open>auto simp: sample_files_def\<close>)
qed

lemma sample_committed_objects: "ran (object_bytes (os_objects (sample_committed files))) \<subseteq> pieces_of sample_safetensors"
  using put_pieces_ran [OF table_hasher_streams store_new_ok, of sample_env files sample_pieces] sample_pieces_mem
  by (auto simp: sample_committed_def store_new_empty object_bytes_def ran_def)

lemma sample_committed_ok: "store_ok (table_hash files) (sample_committed files)"
    "put_pieces sample_env (table_hasher files) sample_pieces store_new = (Inr (sample_run files), sample_committed files)"
    "table_hash files ` set sample_pieces \<subseteq> store_digests (sample_committed files)"
  using put_pieces_ok [OF table_hasher_streams store_new_ok, of sample_env files sample_pieces]
  by (auto simp: sample_committed_def sample_run_def sample_pieces_def sample_lengths)

lemma sample_run_readable:
  assumes "length header < 2 ^ 20"
  shows "records_readable (sample_committed (sample_files header)) (sample_run (sample_files header))"
    and "records_content (sample_committed (sample_files header)) (sample_run (sample_files header)) = sample_safetensors"
proof -
  let ?hash = "table_hash (sample_files header)" and ?st = "sample_committed (sample_files header)"
  have free: "clash_free ?hash sample_safetensors ?st"
    using sample_committed_objects by (intro files_clash_free [OF assms]) auto
  have piece: "record_content ?st (FileRecord_Data (?hash piece) (of_nat (length piece))) = piece \<and>
      record_resident ?st (FileRecord_Data (?hash piece) (of_nat (length piece)))" if "piece \<in> set sample_pieces" for piece
  proof -
    have "open_object (?hash piece) ?st = Inr piece"
      using clash_free_opens [OF sample_committed_ok(1) free] sample_pieces_mem sample_committed_ok(3) that by blast
    moreover have "unat (of_nat (length piece) :: u64) = length piece" using that by (auto simp: sample_pieces_def sample_lengths)
    ultimately show ?thesis using data_piece by blast
  qed
  have "record_content ?st (FileRecord_Data (?hash (take 24 sample_safetensors)) 24) = take 24 sample_safetensors \<and>
      record_resident ?st (FileRecord_Data (?hash (take 24 sample_safetensors)) 24)"
    "record_content ?st (FileRecord_Data (?hash sample_tensor) 8) = sample_tensor \<and>
      record_resident ?st (FileRecord_Data (?hash sample_tensor) 8)"
    using piece [of "take 24 sample_safetensors"] piece [of sample_tensor] by (simp_all add: sample_pieces_def sample_lengths)
  then show "records_readable ?st (sample_run (sample_files header))" "records_content ?st (sample_run (sample_files header)) = sample_safetensors"
    using sample_pieces_concat
    by (simp_all add: records_readable_def records_content_def sample_run_def sample_pieces_def)
qed


lemma sample_run_source:
  assumes "length header < 2 ^ 20"
  shows "src_len (records_source (sample_committed (sample_files header)) (sample_run (sample_files header))) = 32"
    and "n < 2 ^ 64 \<Longrightarrow> unat offset + n \<le> 32 \<Longrightarrow>
      src_read (records_source (sample_committed (sample_files header)) (sample_run (sample_files header))) offset n =
      Inr (take n (drop (unat offset) sample_safetensors))"
    and "src_check (records_source (sample_committed (sample_files header)) (sample_run (sample_files header))) k = Inr ()"
  using read_run_content [OF read_object_exact sample_run_readable(1) [OF assms], where destination = "replicate n 0" and offset = offset]
  by (simp_all add: records_source_def sample_run_readable(2) [OF assms] sample_lengths) (simp_all add: sample_run_def)

definition sample_layout :: st_layout where
  "sample_layout = \<lparr>st_header_end = 24, st_tensors = [\<lparr>te_name = ''v'', te_dtype = ''U8'', te_shape = [8], te_start = 0, te_end = 8\<rparr>]\<rparr>"

lemma sample_run_layout:
  assumes "length header < 2 ^ 20"
  shows "st_read_layout sample_json (records_source (sample_committed (sample_files header)) (sample_run (sample_files header))) =
     Inr (Some sample_layout)"
  by (simp add: st_read_layout_def sample_run_source [OF assms] sample_safetensors_eval PREFIX_SIZE_def
      MAX_HEADER_SIZE_def sample_json_def sample_header_def header_of_def json_descriptor.simps
      descriptor_of_def tensor_byte_size_def dtype_bits_def checked_product_def checked_mul_def bytes_eval text_eval
      MAX_OBJECT_COUNT_def map_err_def Let_def sample_layout_def)

lemma sample_run_not_gguf:
  assumes "length header < 2 ^ 20"
  shows "gguf_read_layout (records_source (sample_committed (sample_files header)) (sample_run (sample_files header))) = Inr None"
    "gguf_try_plan sha256 (records_source (sample_committed (sample_files header)) (sample_run (sample_files header))) con = Inr None"
  by (simp_all add: gguf_read_layout_def gguf_try_plan_def lift_parse_def gguf_parse_def gguf_eval source_eval sample_run_source [OF assms]
      sample_safetensors_eval text_eval)


section \<open>Composed samples\<close>

definition rekeyed_header :: bytes where
  "rekeyed_header = safetensors_header key_text [(''u'', ''U8'', [8], 8)]"

lemma rekeyed_header_short: "length rekeyed_header < 2 ^ 20"
  by (simp add: rekeyed_header_def safetensors_header_def header_entry_def key_text_def u64_le_def as_bytes_def Let_def
      decimal_u64_def to_decimal.simps next_multiple_of_def)

lemma compose_admit_ran:
  assumes "hasher_streams hs sha256" "store_ok sha256 st" "compose_admit env hs bs st = (r, st')"
  shows "ran (object_bytes (os_objects st')) \<subseteq> pieces_of bs \<union> ran (object_bytes (os_objects st))"
  using put_pieces_ran [OF assms(1,2), of env "slice_chunks (unat MAX_OBJECT_SIZE) bs"] assms(3) chunk_of_bytes [of _ "unat MAX_OBJECT_SIZE" bs]
  by (auto simp: compose_admit_def)

text \<open>A header is admitted next to the committed file, and the hash stays injective.\<close>

lemma sample_admitted:
  assumes "length header < 2 ^ 20"
  obtains recs st' where "compose_admit sample_env (table_hasher (sample_files header)) header (sample_committed (sample_files header)) = (Inr recs, st')"
    "clash_free (table_hash (sample_files header)) header st'" "clash_free (table_hash (sample_files header)) sample_safetensors st'"
proof -
  let ?files = "sample_files header"
  obtain recs st' where adm: "compose_admit sample_env (table_hasher ?files) header (sample_committed ?files) = (Inr recs, st')"
    by (rule compose_admit_content [OF table_hasher_streams sample_committed_ok(1), of sample_env ?files header]) blast
  have ran: "ran (object_bytes (os_objects st')) \<subseteq> \<Union> (pieces_of ` {sample_safetensors, header})"
    using compose_admit_ran [OF table_hasher_streams sample_committed_ok(1) adm] sample_committed_objects [of ?files] by auto
  show thesis by (rule that [OF adm]) (rule files_clash_free [OF assms ran], simp)+
qed

lemma sample_inherited: "inherit (sample_run files) 24 8 = Some [FileRecord_Data (table_hash files sample_tensor) 8]"
  by (simp add: inherit_def sample_run_def checked_add_def)

lemma sample_rekeyed_free:
  obtains composed st' where "rekey sample_env (table_hasher (sample_files rekeyed_header)) sample_json key_text
      (FileBody_Tensor TensorFormat_SafetensorsV1 Stamp_None 32 (sample_run (sample_files rekeyed_header))) [(''v'', ''u'')]
      (sample_committed (sample_files rekeyed_header)) =
    (Inr (FileBody_Tensor TensorFormat_SafetensorsV1 Stamp_None (sum_list (map record_length composed)) composed), st')"
    "clash_free (table_hash (sample_files rekeyed_header)) rekeyed_header st'"
proof -
  obtain recs st' where adm: "compose_admit sample_env (table_hasher (sample_files rekeyed_header)) rekeyed_header
      (sample_committed (sample_files rekeyed_header)) = (Inr recs, st')" "clash_free (table_hash (sample_files rekeyed_header)) rekeyed_header st'"
    by (rule sample_admitted [OF rekeyed_header_short])
  show thesis
    using adm sample_inherited sample_run_layout [OF rekeyed_header_short]
    by (intro that [of "recs @ [FileRecord_Data (table_hash (sample_files rekeyed_header) sample_tensor) 8]" st'])
      (simp_all add: rekey_def compose_def compose_safetensors_def sample_layout_def select_def st_declared_def
        st_range_def SAFETENSORS_METADATA_KEY_def map_err_def rekeyed_header_def)
qed

lemma sample_committed_free: "length header < 2 ^ 20 \<Longrightarrow>
    clash_free (table_hash (sample_files header)) sample_safetensors (sample_committed (sample_files header))"
  using sample_committed_objects by (intro files_clash_free) auto

lemma sample_run_plan:
  "plan_with sha256 sample_json 0 (records_source (sample_committed (sample_files [])) (sample_run (sample_files []))) None =
   Inr \<lparr>plan_planner = PlannerId_SafetensorsV1, plan_contract = Stamp_None, plan_file_size = 32,
     plan_regions = [\<lparr>reg_offset = 0, reg_length = 24, reg_kind = RegionKind_Header\<rparr>,
       \<lparr>reg_offset = 24, reg_length = 8, reg_kind = RegionKind_Tensor\<rparr>]\<rparr>"
proof -
  let ?source = "records_source (sample_committed (sample_files [])) (sample_run (sample_files []))"
  have "st_try_plan sha256 sample_json ?source None =
      Inr (Some \<lparr>plan_planner = PlannerId_SafetensorsV1, plan_contract = Stamp_None, plan_file_size = 32,
     plan_regions = [\<lparr>reg_offset = 0, reg_length = 24, reg_kind = RegionKind_Header\<rparr>,
       \<lparr>reg_offset = 24, reg_length = 8, reg_kind = RegionKind_Tensor\<rparr>]\<rparr>)"
    using sample_run_layout [of "[]"] sample_run_source(1) [of "[]"]
    by (simp add: st_try_plan_def sample_layout_def grid_eval contract_seams_def plan_stamp_def Let_def)
  then have "plan_once sha256 sample_json ?source None = Inr \<lparr>plan_planner = PlannerId_SafetensorsV1, plan_contract = Stamp_None,
     plan_file_size = 32, plan_regions = [\<lparr>reg_offset = 0, reg_length = 24, reg_kind = RegionKind_Header\<rparr>,
       \<lparr>reg_offset = 24, reg_length = 8, reg_kind = RegionKind_Tensor\<rparr>]\<rparr>"
    using sample_run_not_gguf(2) [of "[]"] sample_run_source(1) [of "[]"]
    by (simp add: plan_once_def validated_def plan_validate_def MAX_OBJECT_COUNT_def MAX_OBJECT_SIZE_def checked_add_def)
  then show ?thesis by (simp add: plan_with_def check_unchanged_def map_err_def sample_run_source(3) [of "[]", simplified])
qed

lemma sample_adopted:
  "adopt sample_admission (table_hasher (sample_files [])) (table_hash (sample_files [])) sample_json
      (FileBody_Tensor TensorFormat_SafetensorsV1 Stamp_None 32 (sample_run (sample_files []))) None (sample_committed (sample_files [])) =
    (Inr (FileBody_Tensor TensorFormat_SafetensorsV1 Stamp_None 32 (sample_run (sample_files []))), sample_committed (sample_files []))"
  by (simp add: adopt_def sample_run_plan) (simp add: sample_run_def by_range_def region_range_def sample_admission_def admit_regions_def)


section \<open>A derived sample\<close>

definition kept_contract :: contract where
  "kept_contract = \<lparr>con_handle = None, con_description = [], con_dtype = None, con_tensors = [sample_entry ''r'' ''v'' None], con_sets = []\<rparr>"

definition served_contract :: contract where
  "served_contract = \<lparr>con_handle = None, con_description = [], con_dtype = None, con_tensors = [sample_entry ''r'' ''z'' None], con_sets = []\<rparr>"

definition served_tensor :: derived_tensor where
  "served_tensor = \<lparr>dt_name = ''z'', dt_dtype = ''U8'', dt_shape = [8], dt_runs = [\<lparr>sr_role = ''r'', sr_tensor = ''v'', sr_dtype = ''U8'',
     sr_permute = None, sr_offset = 24, sr_length = 8, sr_rows = 8, sr_row_shape = []\<rparr>], dt_transform = Transform_Identity\<rparr>"

definition served_header :: bytes where
  "served_header = safetensors_header key_text [(''z'', ''U8'', [8], 8)]"

lemma served_header_short: "length served_header < 2 ^ 20"
  by (simp add: served_header_def safetensors_header_def header_entry_def key_text_def u64_le_def as_bytes_def Let_def
      decimal_u64_def to_decimal.simps next_multiple_of_def)

lemma sample_run_inventory:
  assumes "length header < 2 ^ 20"
  shows "inventory sample_json 0 (records_source (sample_committed (sample_files header)) (sample_run (sample_files header))) =
     Inr (Some (st_inventory sample_layout))"
  by (simp add: inventory_def sample_run_not_gguf(1) [OF assms] sample_run_layout [OF assms] sample_run_source(3) [OF assms] check_unchanged_def map_err_def)

lemma stored_served: "decide kept_contract (st_inventory sample_layout) served_contract = Inr (Decision_RunPreserving \<lparr>ad_tensors = [served_tensor]\<rparr>)"
proof -
  let ?run = "\<lparr>sr_role = ''r'', sr_tensor = ''v'', sr_dtype = ''U8'', sr_permute = None, sr_offset = 24, sr_length = 8, sr_rows = 8, sr_row_shape = []\<rparr>"
  have runs: "role_runs kept_contract (st_inventory sample_layout) = Inr [(''r'', ?run)]"
    by (simp add: role_runs_def kept_contract_def st_inventory_def sample_layout_def adapter_eval
        source_run_of_def fusion_run_whole_def is_multiple_of_def)
  let ?entry = "sample_entry ''r'' ''z'' None"
  have suffixes: "entry_suffixes ?entry = [[]]" by (simp add: entry_suffixes_def sample_entry_def)
  have vals: "entry_captures [(''r'', ?run)] [[]] ?entry = [[]]"
    by (simp add: entry_captures_def strip_suffix_def adapter_eval map_filter_simps)
  have "decide_values [(''r'', ?run)] ?entry [[]] [[]] = Inr (Inr [served_tensor])"
    by (simp add: adapter_eval derive_tensor_def served_tensor_def transform_between_def)
  then show ?thesis using runs suffixes vals by (simp add: decide_def served_contract_def Let_def served_tensor_def)
qed

lemma sample_derived:
  obtains body st' where "derive sample_env (table_hasher (sample_files served_header)) (table_hash (sample_files served_header)) sample_json key_text
      (FileBody_Tensor TensorFormat_SafetensorsV1 Stamp_None 32 (sample_run (sample_files served_header))) kept_contract served_contract
      (sample_committed (sample_files served_header)) = (Inr body, st')"
    "clash_free (table_hash (sample_files served_header)) served_header st'" "clash_free (table_hash (sample_files served_header)) sample_tensor st'"
proof -
  obtain recs st' where adm: "compose_admit sample_env (table_hasher (sample_files served_header)) served_header
      (sample_committed (sample_files served_header)) = (Inr recs, st')" "clash_free (table_hash (sample_files served_header)) served_header st'"
    "clash_free (table_hash (sample_files served_header)) sample_safetensors st'"
    by (rule sample_admitted [OF served_header_short])
  have "pieces_of sample_tensor \<subseteq> pieces_of sample_safetensors"
    by (rule pieces_of_mono) (use sample_pieces_mem in \<open>simp add: sample_pieces_def\<close>)
  then have "clash_free (table_hash (sample_files served_header)) sample_tensor st'"
    using adm(3) unfolding clash_free_def by (elim inj_on_subset) blast
  then show thesis
    using adm(1,2) sample_inherited sample_run_inventory [OF served_header_short] stored_served
    by (intro that) (simp_all add: derive_def derive_view_def served_header_def derived_declared_def served_tensor_def run_range_def map_err_def
      derived_length_def Let_def)
qed

end
