(* ===== verification/Sync.thy ===== *)
theory Sync
  imports Workspace Tfp1 Records
begin

text \<open>
  Snapshot sync (sync.rs): pushing a sealed snapshot to a remote and pulling one into the local store.
  The transport is a trait of the source and code the engine only calls, so it is a record of answers: a
  remote may answer every call by everything that was called before, the last element of the list being
  the call itself. A transfer also yields the byte counts it reported while it moved. Sleeping adds up
  in the state, in milliseconds.
\<close>

section \<open>The transport\<close>

definition DOWNLOAD_GRANT_BATCH :: nat where
  "DOWNLOAD_GRANT_BATCH = 256"

definition BLOB_GRANT_BATCH :: nat where
  "BLOB_GRANT_BATCH = 16"

definition DOWNLOAD_ATTEMPTS :: u32 where
  "DOWNLOAD_ATTEMPTS = 4"

datatype progress = Progress_Bytes u64 | Progress_Object digest u64

record pack_grant =
  pg_sha256 :: str
  pg_staging_key :: str
  pg_url :: str
  pg_headers :: "(str \<times> str) list"

record download_grant =
  dg_digest :: digest
  dg_length :: u64
  dg_url :: str

record blob_part =
  bp_number :: u32
  bp_size :: u64
  bp_url :: str
  bp_headers :: "(str \<times> str) list"

record blob_grant =
  bg_digest :: digest
  bg_length :: u64
  bg_staging_key :: str
  bg_upload_id :: str
  bg_part_size :: u64
  bg_parts :: "blob_part list"
  bg_uploaded :: "u32 list"

record part_report =
  pr_number :: u32
  pr_etag :: str

record staged_pack =
  stp_sha256 :: str
  stp_staged :: bool

record pack_claim =
  pc_sha256 :: str
  pc_size :: u64
  pc_objects :: "digest list"

record sync_plan =
  spl_snapshot_id :: snapshot_id
  spl_session :: str
  spl_have :: "digest list"
  spl_staged_packs :: "staged_pack list"
  spl_missing :: "(digest \<times> u64) list"
  spl_missing_blobs :: "(digest \<times> u64) list"
  spl_max_pack_payload :: u64
  spl_max_packs_per_request :: u64

record grants_plan =
  gp_grants :: "pack_grant list"
  gp_staged_packs :: "staged_pack list"
  gp_missing :: "(digest \<times> u64) list"
  gp_missing_blobs :: "(digest \<times> u64) list"

datatype complete_status =
    CompleteStatus_Promoted
  | CompleteStatus_Incomplete str u64 u64
  | CompleteStatus_Failed str

datatype transport_error =
    TransportError_Expired str
  | TransportError_Refused str str
  | TransportError_Io str

datatype sync_call =
    Call_Declare bytes "snapshot_id option"
  | Call_PackGrants str "pack_claim list"
  | Call_UploadPack pack_grant bytes
  | Call_BlobGrants str "digest list"
  | Call_UploadPart blob_part bytes
  | Call_ReportParts str digest "part_report list"
  | Call_Complete str
  | Call_Head
  | Call_DownloadGrants "digest list"
  | Call_Download download_grant

text \<open>A download is the list of the writes to its sink, the reported counts and the outcome.\<close>

record sync_transport =
  tr_declare :: "sync_call list \<Rightarrow> transport_error + sync_plan"
  tr_pack_grants :: "sync_call list \<Rightarrow> transport_error + grants_plan"
  tr_upload_pack :: "sync_call list \<Rightarrow> u64 list \<times> (transport_error + unit)"
  tr_blob_grants :: "sync_call list \<Rightarrow> transport_error + blob_grant list"
  tr_upload_part :: "sync_call list \<Rightarrow> u64 list \<times> (transport_error + str)"
  tr_report_parts :: "sync_call list \<Rightarrow> transport_error + unit"
  tr_complete :: "sync_call list \<Rightarrow> transport_error + complete_status"
  tr_head :: "sync_call list \<Rightarrow> transport_error + snapshot_id option"
  tr_download_grants :: "sync_call list \<Rightarrow> transport_error + download_grant list"
  tr_download :: "sync_call list \<Rightarrow> bytes list \<times> u64 list \<times> (transport_error + u64)"

datatype sync_error =
    SyncError_Workspace workspace_error
  | SyncError_Store store_error
  | SyncError_Transport transport_error
  | SyncError_Pack tfp1_error
  | SyncError_Manifest tfm1_error
  | SyncError_IdentityMismatch snapshot_id snapshot_id
  | SyncError_HeadRefused str
  | SyncError_RemoteManifestCorrupt snapshot_id
  | SyncError_NoRemoteHead
  | SyncError_LocalObjectLength digest u64 u64
  | SyncError_GrantOmitted digest
  | SyncError_MissingNotCanonical digest
  | SyncError_MissingLength digest u64 u64
  | SyncError_PackGrantOmitted str
  | SyncError_ReplansStalled u32 nat
  | SyncError_CompletionStalled u32 u64 str
  | SyncError_BlobGrantOmitted digest
  | SyncError_BlobLaneMismatch digest u64 u64 str
  | SyncError_BlobPartCoverage digest u64 u64
  | SyncError_BlobPartAttemptsExhausted digest u32
  | SyncError_BlobNotAccepted digest

record push_options =
  po_max_stalled_replans :: u32
  po_max_upload_attempts :: u32
  po_max_completion_stalls :: u32

definition push_options_default :: push_options where
  "push_options_default = \<lparr>po_max_stalled_replans = 16, po_max_upload_attempts = 8, po_max_completion_stalls = 24\<rparr>"

record push_report =
  pu_uploaded_objects :: u64
  pu_uploaded_bytes :: u64
  pu_packs :: u64
  pu_blobs :: u64
  pu_blob_parts :: u64
  pu_skipped_remote_resident :: u64
  pu_complete_attempts :: u32
  pu_replans :: u32

definition push_report_default :: push_report where
  "push_report_default = \<lparr>pu_uploaded_objects = 0, pu_uploaded_bytes = 0, pu_packs = 0, pu_blobs = 0, pu_blob_parts = 0,
     pu_skipped_remote_resident = 0, pu_complete_attempts = 0, pu_replans = 0\<rparr>"

record pull_report =
  pl_fetched_objects :: u64
  pl_fetched_bytes :: u64
  pl_skipped_local_resident :: u64


section \<open>The state of a transfer\<close>

text \<open>The local store, the calls made to the transport, the observed progress, the report of a push
  under construction and the time slept.\<close>

record sync_world =
  sw_ws :: workspace_store
  sw_calls :: "sync_call list"
  sw_progress :: "progress list"
  sw_report :: push_report
  sw_slept :: nat

type_synonym 'a sync_result = "(sync_error + 'a) \<times> sync_world"

definition ask :: "sync_call \<Rightarrow> (sync_call list \<Rightarrow> 'a) \<Rightarrow> sync_world \<Rightarrow> 'a \<times> sync_world" where
  "ask call answer w = (answer (sw_calls w @ [call]), w\<lparr>sw_calls := sw_calls w @ [call]\<rparr>)"

text \<open>\<open>ProgressSink\<close>: a zero count is dropped.\<close>

definition sink_bytes :: "u64 list \<Rightarrow> sync_world \<Rightarrow> sync_world" where
  "sink_bytes moved w = w\<lparr>sw_progress := sw_progress w @ map Progress_Bytes (filter (\<lambda>n. 0 < n) moved)\<rparr>"

definition sink_object :: "digest \<Rightarrow> u64 \<Rightarrow> sync_world \<Rightarrow> sync_world" where
  "sink_object d len w = w\<lparr>sw_progress := sw_progress w @ [Progress_Object d len]\<rparr>"

definition update_report :: "(push_report \<Rightarrow> push_report) \<Rightarrow> sync_world \<Rightarrow> sync_world" where
  "update_report f w = w\<lparr>sw_report := f (sw_report w)\<rparr>"

definition back_off_delay :: "nat \<Rightarrow> nat" where
  "back_off_delay attempt = min (250 * 2 ^ min attempt 6) 8000"

definition back_off :: "nat \<Rightarrow> sync_world \<Rightarrow> sync_world" where
  "back_off attempt w = w\<lparr>sw_slept := sw_slept w + back_off_delay attempt\<rparr>"


section \<open>The closure and the remote's view of it\<close>

fun closure_loop :: "digest list \<Rightarrow> file_record list \<Rightarrow> (digest \<times> u64) list" where
  "closure_loop seen [] = []"
| "closure_loop seen (FileRecord_Data d len # records) =
     (if d \<in> set seen then closure_loop seen records else (d, len) # closure_loop (d # seen) records)"
| "closure_loop seen (FileRecord_Hole len # records) = closure_loop seen records"

definition data_closure :: "snapshot \<Rightarrow> (digest \<times> u64) list" where
  "data_closure s = closure_loop [] (concat (map (entry_records \<circ> snd) (snap_entries s)))"

text \<open>The scan only goes forward, so the rest of the closure is the cursor.\<close>

fun verify_canonical_missing :: "(digest \<times> u64) list \<Rightarrow> (digest \<times> u64) list \<Rightarrow> sync_error + unit" where
  "verify_canonical_missing closure [] = Inr ()"
| "verify_canonical_missing closure ((d, len) # missing) =
     (case dropWhile (\<lambda>row. fst row \<noteq> d) closure of
        [] \<Rightarrow> Inl (SyncError_MissingNotCanonical d)
      | (c, expected) # rest \<Rightarrow>
          if len \<noteq> expected then Inl (SyncError_MissingLength d expected len)
          else verify_canonical_missing rest missing)"

definition verify_lanes :: "(digest \<times> u64) list \<Rightarrow> (digest \<times> u64) list \<Rightarrow> (digest \<times> u64) list \<Rightarrow> u64 \<Rightarrow>
    sync_error + unit" where
  "verify_lanes closure missing missing_blobs max_payload =
     and_then (verify_canonical_missing closure missing) (\<lambda>_.
     and_then (verify_canonical_missing closure missing_blobs) (\<lambda>_.
       case find (\<lambda>row. max_payload < snd row) missing of
         Some (d, len) \<Rightarrow> Inl (SyncError_BlobLaneMismatch d len max_payload ''pack'')
       | None \<Rightarrow>
           (case find (\<lambda>row. snd row \<le> max_payload) missing_blobs of
              Some (d, len) \<Rightarrow> Inl (SyncError_BlobLaneMismatch d len max_payload ''blob'')
            | None \<Rightarrow> Inr ())))"

definition manifest_object_digest :: "snapshot_id \<Rightarrow> digest" where
  "manifest_object_digest sid = sid"

definition lowercase_hex :: "bytes \<Rightarrow> str" where
  "lowercase_hex bs = hex_bytes bs"


section \<open>Packs\<close>

text \<open>The greedy assembly: \<open>group\<close> is the open pack and \<open>used\<close> its bytes.\<close>

fun pack_groups :: "u64 \<Rightarrow> (digest \<times> u64) list \<Rightarrow> u64 \<Rightarrow> (digest \<times> u64) list \<Rightarrow> (digest \<times> u64) list list" where
  "pack_groups max_payload opened used [] = (if opened = [] then [] else [opened])"
| "pack_groups max_payload opened used ((d, len) # missing) =
     (if opened \<noteq> [] \<and> (max_payload < used + len \<or> MAX_PACK_OBJECTS \<le> length opened)
      then opened # pack_groups max_payload [(d, len)] len missing
      else pack_groups max_payload (opened @ [(d, len)]) (used + len) missing)"

fun load_pack_members :: "object_store \<Rightarrow> (digest \<times> u64) list \<Rightarrow> sync_error + pack_object list" where
  "load_pack_members st [] = Inr []"
| "load_pack_members st ((d, expected) # carried) =
     and_then (map_err SyncError_Store (open_object d st)) (\<lambda>bs.
       if of_nat (length bs) \<noteq> expected then Inl (SyncError_LocalObjectLength d expected (of_nat (length bs)))
       else and_then (load_pack_members st carried) (\<lambda>loaded. Inr (\<lparr>pko_digest = d, pko_bytes = bs\<rparr> # loaded)))"

text \<open>The attempts at one pack; the value is False when the grant has expired. An attempt counter is at
  most the budget, so it never wraps.\<close>

function upload_pack_loop :: "sync_transport \<Rightarrow> u32 \<Rightarrow> nat \<Rightarrow> pack_grant \<Rightarrow> bytes \<Rightarrow> sync_world \<Rightarrow> bool sync_result" where
  "upload_pack_loop T budget attempt grant encoded w =
     (case ask (Call_UploadPack grant encoded) (tr_upload_pack T) w of ((moved, answer), w) \<Rightarrow>
      let w = sink_bytes moved w in
      case answer of
        Inr _ \<Rightarrow> (Inr True, w)
      | Inl (TransportError_Io e) \<Rightarrow>
          if unat budget \<le> attempt + 1 then (Inl (SyncError_Transport (TransportError_Io e)), w)
          else upload_pack_loop T budget (attempt + 1) grant encoded (back_off (attempt + 1) w)
      | Inl (TransportError_Expired e) \<Rightarrow> (Inr False, w)
      | Inl e \<Rightarrow> (Inl (SyncError_Transport e), w))"
  by pat_completeness auto
termination by (relation "measure (\<lambda>(T, budget, attempt, _). unat budget - attempt)") auto

declare upload_pack_loop.simps [simp del]

definition encode_group :: "(bytes \<Rightarrow> digest) \<Rightarrow> object_store \<Rightarrow> (digest \<times> u64) list \<Rightarrow> sync_error + bytes" where
  "encode_group sha256 st carried =
     and_then (load_pack_members st carried) (\<lambda>loaded. map_err SyncError_Pack (pack_encode sha256 loaded))"

definition claim_of :: "(bytes \<Rightarrow> digest) \<Rightarrow> (digest \<times> u64) list \<Rightarrow> bytes \<Rightarrow> pack_claim" where
  "claim_of sha256 carried encoded = \<lparr>pc_sha256 = lowercase_hex (digest_bytes (sha256 encoded)),
     pc_size = of_nat (length encoded), pc_objects = map fst carried\<rparr>"

text \<open>One pack: encoded, claimed, granted and uploaded. The value is False when an authorization has
  expired, which ends the pass over the groups.\<close>

definition push_group :: "sync_transport \<Rightarrow> (bytes \<Rightarrow> digest) \<Rightarrow> push_options \<Rightarrow> str \<Rightarrow> (digest \<times> u64) list \<Rightarrow>
    sync_world \<Rightarrow> bool sync_result" where
  "push_group T sha256 options session carried w =
     op_then (encode_group sha256 (ws_store (sw_ws w)) carried, w) (\<lambda>encoded w.
     let claim = claim_of sha256 carried encoded in
     case ask (Call_PackGrants session [claim]) (tr_pack_grants T) w of
       (Inl (TransportError_Expired e), w) \<Rightarrow> (Inr False, w)
     | (Inl e, w) \<Rightarrow> (Inl (SyncError_Transport e), w)
     | (Inr granted, w) \<Rightarrow>
         (case find (\<lambda>grant. pg_sha256 grant = pc_sha256 claim) (gp_grants granted) of
            None \<Rightarrow>
              (if list_ex (\<lambda>p. stp_sha256 p = pc_sha256 claim \<and> stp_staged p) (gp_staged_packs granted)
               then (Inr True, w) else (Inl (SyncError_PackGrantOmitted (pc_sha256 claim)), w))
          | Some grant \<Rightarrow>
              op_then (upload_pack_loop T (po_max_upload_attempts options) 0 grant encoded w) (\<lambda>landed w.
                if landed then
                  (Inr True, fold (\<lambda>(d, len). sink_object d len) carried
                    (update_report (\<lambda>r. r\<lparr>pu_uploaded_objects := pu_uploaded_objects r + of_nat (length carried),
                       pu_uploaded_bytes := pu_uploaded_bytes r + sum_list (map snd carried),
                       pu_packs := pu_packs r + 1\<rparr>) w))
                else (Inr False, w))))"

fun push_groups :: "sync_transport \<Rightarrow> (bytes \<Rightarrow> digest) \<Rightarrow> push_options \<Rightarrow> str \<Rightarrow> (digest \<times> u64) list list \<Rightarrow>
    sync_world \<Rightarrow> unit sync_result" where
  "push_groups T sha256 options session [] w = (Inr (), w)"
| "push_groups T sha256 options session (carried # groups) w =
     op_then (push_group T sha256 options session carried w) (\<lambda>going w.
       if going then push_groups T sha256 options session groups w else (Inr (), w))"

text \<open>The rounds of the pack lane. A round that left fewer objects owed is free, so nothing bounds the
  rounds against a remote whose answers grow and shrink.\<close>

partial_function (option) push_rounds :: "sync_transport \<Rightarrow> (bytes \<Rightarrow> digest) \<Rightarrow> push_options \<Rightarrow> str \<Rightarrow>
    (digest \<times> u64) list \<Rightarrow> u64 \<Rightarrow> (digest \<times> u64) list \<Rightarrow> nat \<Rightarrow> sync_world \<Rightarrow> unit sync_result option" where
  "push_rounds T sha256 options session closure max_payload missing stalled w =
     (if missing = [] then Some (Inr (), w)
      else case push_groups T sha256 options session (pack_groups max_payload [] 0 missing) w of
        (Inl e, w) \<Rightarrow> Some (Inl e, w)
      | (Inr _, w) \<Rightarrow>
          (case ask (Call_PackGrants session []) (tr_pack_grants T)
              (update_report (\<lambda>r. r\<lparr>pu_replans := pu_replans r + 1\<rparr>) w) of
             (Inl e, w) \<Rightarrow> Some (Inl (SyncError_Transport e), w)
           | (Inr refreshed, w) \<Rightarrow>
               (case verify_lanes closure (gp_missing refreshed) (gp_missing_blobs refreshed) max_payload of
                  Inl e \<Rightarrow> Some (Inl e, w)
                | Inr _ \<Rightarrow>
                    if length (gp_missing refreshed) < length missing then
                      push_rounds T sha256 options session closure max_payload (gp_missing refreshed) 0 w
                    else if unat (po_max_stalled_replans options) \<le> stalled + 1 then
                      Some (Inl (SyncError_ReplansStalled (of_nat (stalled + 1)) (length (gp_missing refreshed))), w)
                    else push_rounds T sha256 options session closure max_payload (gp_missing refreshed) (stalled + 1) w)))"


section \<open>Completion\<close>

function complete_loop :: "sync_transport \<Rightarrow> push_options \<Rightarrow> str \<Rightarrow> u64 \<Rightarrow> nat \<Rightarrow> sync_world \<Rightarrow> push_report sync_result" where
  "complete_loop T options session admitted stalls w =
     (case ask (Call_Complete session) (tr_complete T)
         (update_report (\<lambda>r. r\<lparr>pu_complete_attempts := pu_complete_attempts r + 1\<rparr>) w) of (answer, w) \<Rightarrow>
      let budget = unat (po_max_completion_stalls options) in
      case answer of
        Inr CompleteStatus_Promoted \<Rightarrow> (Inr (sw_report w), w)
      | Inr (CompleteStatus_Incomplete code promoted all) \<Rightarrow>
          if admitted < promoted then complete_loop T options session promoted 0 w
          else if budget \<le> stalls + 1 then (Inl (SyncError_CompletionStalled (of_nat (stalls + 1)) admitted code), w)
          else complete_loop T options session admitted (stalls + 1) (back_off (stalls + 1) w)
      | Inr (CompleteStatus_Failed code) \<Rightarrow> (Inl (SyncError_HeadRefused code), w)
      | Inl (TransportError_Io e) \<Rightarrow>
          if budget \<le> stalls + 1 then (Inl (SyncError_Transport (TransportError_Io e)), w)
          else complete_loop T options session admitted (stalls + 1) (back_off (stalls + 1) w)
      | Inl e \<Rightarrow> (Inl (SyncError_Transport e), w))"
  by pat_completeness auto
termination
proof (relation "measures [\<lambda>(T, options, session, admitted, stalls, w). 2 ^ 64 - unat admitted,
    \<lambda>(T, options, session, admitted, stalls, w). unat (po_max_completion_stalls options) - stalls]")
  fix T options session admitted stalls w w' and promoted :: u64
  assume "admitted < promoted"
  then have "2 ^ 64 - unat promoted < 2 ^ 64 - unat admitted" using unat_u64_lt [of promoted] by (simp add: u64_nat)
  then show "((T, options, session, promoted, 0, w'), (T, options, session, admitted, stalls, w)) \<in> measures
      [\<lambda>(T, options, session, admitted, stalls, w). 2 ^ 64 - unat admitted,
       \<lambda>(T, options, session, admitted, stalls, w). unat (po_max_completion_stalls options) - stalls]" by simp
qed auto

declare complete_loop.simps [simp del]


section \<open>The blob lane\<close>

datatype blob_outcome = BlobOutcome_Expired | BlobOutcome_Failed sync_error

type_synonym 'a blob_result = "(blob_outcome + 'a) \<times> sync_world"

text \<open>Reports the parts that have landed; nothing is called for none.\<close>

definition report_landed :: "sync_transport \<Rightarrow> str \<Rightarrow> digest \<Rightarrow> part_report list \<Rightarrow> sync_world \<Rightarrow> unit blob_result" where
  "report_landed T session d landed w =
     (if landed = [] then (Inr (), w)
      else case ask (Call_ReportParts session d landed) (tr_report_parts T) w of
        (Inl e, w) \<Rightarrow> (Inl (BlobOutcome_Failed (SyncError_Transport e)), w)
      | (Inr _, w) \<Rightarrow> (Inr (), w))"

function upload_part_loop :: "sync_transport \<Rightarrow> u32 \<Rightarrow> nat \<Rightarrow> str \<Rightarrow> digest \<Rightarrow> part_report list \<Rightarrow> blob_part \<Rightarrow> bytes \<Rightarrow>
    sync_world \<Rightarrow> str blob_result" where
  "upload_part_loop T budget attempt session d landed part buffer w =
     (case ask (Call_UploadPart part buffer) (tr_upload_part T) w of ((moved, answer), w) \<Rightarrow>
      let w = sink_bytes moved w in
      case answer of
        Inr etag \<Rightarrow> (Inr etag, w)
      | Inl (TransportError_Io e) \<Rightarrow>
          if unat budget \<le> attempt + 1 then
            (Inl (BlobOutcome_Failed (SyncError_BlobPartAttemptsExhausted d (of_nat (attempt + 1)))), w)
          else upload_part_loop T budget (attempt + 1) session d landed part buffer (back_off (attempt + 1) w)
      | Inl (TransportError_Expired e) \<Rightarrow>
          op_then (report_landed T session d landed w) (\<lambda>_ w. (Inl BlobOutcome_Expired, w))
      | Inl e \<Rightarrow> (Inl (BlobOutcome_Failed (SyncError_Transport e)), w))"
  by pat_completeness auto
termination by (relation "measure (\<lambda>(T, budget, attempt, _). unat budget - attempt)") auto

declare upload_part_loop.simps [simp del]

fun part_loop :: "sync_transport \<Rightarrow> push_options \<Rightarrow> str \<Rightarrow> blob_grant \<Rightarrow> byte_source \<Rightarrow> u64 \<Rightarrow> part_report list \<Rightarrow>
    blob_part list \<Rightarrow> sync_world \<Rightarrow> unit blob_result" where
  "part_loop T options session grant source offset landed [] w = report_landed T session (bg_digest grant) landed w"
| "part_loop T options session grant source offset landed (part # parts) w =
     (if bp_number part \<in> set (bg_uploaded grant) then
        part_loop T options session grant source (offset + bp_size part) landed parts w
      else
        op_then (map_err (\<lambda>e. BlobOutcome_Failed (SyncError_Store (StoreError_Io e)))
          (src_read source offset (unat (bp_size part))), w) (\<lambda>buffer w.
        op_then (upload_part_loop T (po_max_upload_attempts options) 0 session (bg_digest grant) landed part buffer w) (\<lambda>etag w.
          part_loop T options session grant source (offset + bp_size part)
            (landed @ [\<lparr>pr_number = bp_number part, pr_etag = etag\<rparr>]) parts
            (update_report (\<lambda>r. r\<lparr>pu_blob_parts := pu_blob_parts r + 1\<rparr>) w))))"

definition push_one_blob :: "sync_transport \<Rightarrow> push_options \<Rightarrow> str \<Rightarrow> blob_grant \<Rightarrow> u64 \<Rightarrow> sync_world \<Rightarrow> unit blob_result" where
  "push_one_blob T options session grant len w =
     (let d = bg_digest grant; granted = sum_list (map bp_size (bg_parts grant)); st = ws_store (sw_ws w) in
      if bg_length grant \<noteq> len then (Inl (BlobOutcome_Failed (SyncError_MissingLength d len (bg_length grant))), w)
      else if granted \<noteq> len then (Inl (BlobOutcome_Failed (SyncError_BlobPartCoverage d len granted)), w)
      else
        op_then (map_err (\<lambda>e. BlobOutcome_Failed (SyncError_Store e)) (open_object d st), w) (\<lambda>bs w.
          if of_nat (length bs) \<noteq> len then
            (Inl (BlobOutcome_Failed (SyncError_LocalObjectLength d len (of_nat (length bs)))), w)
          else part_loop T options session grant (records_source st [FileRecord_Data d len]) 0 [] (bg_parts grant) w))"

text \<open>One batch of grants; the value is the list of the blobs that were deferred.\<close>

fun push_batch :: "sync_transport \<Rightarrow> push_options \<Rightarrow> str \<Rightarrow> blob_grant list \<Rightarrow> (digest \<times> u64) list \<Rightarrow> sync_world \<Rightarrow>
    (digest \<times> u64) list sync_result" where
  "push_batch T options session grants [] w = (Inr [], w)"
| "push_batch T options session grants ((d, len) # batch) w =
     (case find (\<lambda>grant. bg_digest grant = d) grants of
        None \<Rightarrow> (Inl (SyncError_BlobGrantOmitted d), w)
      | Some grant \<Rightarrow>
          (case push_one_blob T options session grant len w of
             (Inr _, w) \<Rightarrow>
               push_batch T options session grants batch (sink_object d len
                 (update_report (\<lambda>r. r\<lparr>pu_blobs := pu_blobs r + 1, pu_uploaded_objects := pu_uploaded_objects r + 1,
                    pu_uploaded_bytes := pu_uploaded_bytes r + len\<rparr>) w))
           | (Inl BlobOutcome_Expired, w) \<Rightarrow>
               op_then (push_batch T options session grants batch w) (\<lambda>deferred w. (Inr ((d, len) # deferred), w))
           | (Inl (BlobOutcome_Failed e), w) \<Rightarrow> (Inl e, w)))"

fun push_batches :: "sync_transport \<Rightarrow> push_options \<Rightarrow> str \<Rightarrow> (digest \<times> u64) list list \<Rightarrow> sync_world \<Rightarrow>
    (digest \<times> u64) list sync_result" where
  "push_batches T options session [] w = (Inr [], w)"
| "push_batches T options session (batch # rest) w =
     (case ask (Call_BlobGrants session (map fst batch)) (tr_blob_grants T) w of
        (Inl (TransportError_Expired e), w) \<Rightarrow>
          op_then (push_batches T options session rest w) (\<lambda>deferred w. (Inr (batch @ deferred), w))
      | (Inl e, w) \<Rightarrow> (Inl (SyncError_Transport e), w)
      | (Inr grants, w) \<Rightarrow>
          op_then (push_batch T options session grants batch w) (\<lambda>here w.
          op_then (push_batches T options session rest w) (\<lambda>deferred w. (Inr (here @ deferred), w))))"

partial_function (option) push_blob_lane :: "sync_transport \<Rightarrow> push_options \<Rightarrow> str \<Rightarrow> (digest \<times> u64) list \<Rightarrow> nat \<Rightarrow>
    sync_world \<Rightarrow> unit sync_result option" where
  "push_blob_lane T options session pending stalled w =
     (if pending = [] then Some (Inr (), w)
      else case push_batches T options session (slice_chunks BLOB_GRANT_BATCH pending) w of
        (Inl e, w') \<Rightarrow> Some (Inl e, w')
      | (Inr deferred, w') \<Rightarrow>
          (let landed = pu_blob_parts (sw_report w') > pu_blob_parts (sw_report w);
               w' = update_report (\<lambda>r. r\<lparr>pu_replans := pu_replans r + 1\<rparr>) w' in
           if landed \<or> length deferred < length pending then push_blob_lane T options session deferred 0 w'
           else if unat (po_max_stalled_replans options) \<le> stalled + 1 then
             Some (Inl (SyncError_ReplansStalled (of_nat (stalled + 1)) (length deferred)), w')
           else push_blob_lane T options session deferred (stalled + 1) w'))"


section \<open>Pushing\<close>

definition PUSH_LEASE_HOLDER :: str where
  "PUSH_LEASE_HOLDER = ''sync-push''"

definition payload_bound :: "u64 \<Rightarrow> u64" where
  "payload_bound granted = (if granted = 0 then MAX_PACK_PAYLOAD else min granted MAX_PACK_PAYLOAD)"

text \<open>The objects the remote holds are progress.\<close>

definition report_have :: "(digest \<times> u64) list \<Rightarrow> digest list \<Rightarrow> sync_world \<Rightarrow> sync_world" where
  "report_have closure have w =
     fold (\<lambda>d w. case map_of closure d of Some len \<Rightarrow> sink_object d len w | None \<Rightarrow> w) have
       (update_report (\<lambda>r. r\<lparr>pu_skipped_remote_resident := of_nat (length have)\<rparr>) w)"

text \<open>The blob lane with the refreshed view after it: what the pack lane still owes.\<close>

definition push_blobs :: "sync_transport \<Rightarrow> push_options \<Rightarrow> str \<Rightarrow> (digest \<times> u64) list \<Rightarrow> u64 \<Rightarrow>
    (digest \<times> u64) list \<Rightarrow> (digest \<times> u64) list \<Rightarrow> sync_world \<Rightarrow> (digest \<times> u64) list sync_result option" where
  "push_blobs T options session closure max_payload missing missing_blobs w =
     (if missing_blobs = [] then Some (Inr missing, w)
      else Option.bind (push_blob_lane T options session missing_blobs 0 w) (\<lambda>result. Some (
        op_then result (\<lambda>_ w.
        case ask (Call_PackGrants session []) (tr_pack_grants T) w of
          (Inl e, w) \<Rightarrow> (Inl (SyncError_Transport e), w)
        | (Inr refreshed, w) \<Rightarrow>
            op_then (verify_lanes closure (gp_missing refreshed) (gp_missing_blobs refreshed) max_payload, w) (\<lambda>_ w.
              case gp_missing_blobs refreshed of
                (d, len) # rest \<Rightarrow> (Inl (SyncError_BlobNotAccepted d), w)
              | [] \<Rightarrow> (Inr (gp_missing refreshed), w))))))"

definition push_leased :: "sync_transport \<Rightarrow> (bytes \<Rightarrow> digest) \<Rightarrow> push_options \<Rightarrow> snapshot_id \<Rightarrow> snapshot_id option \<Rightarrow>
    snapshot \<Rightarrow> sync_world \<Rightarrow> push_report sync_result option" where
  "push_leased T sha256 options sid expected_head decoded w =
     (let closure = data_closure decoded in
      case ask (Call_Declare (to_bytes decoded) expected_head) (tr_declare T) (w\<lparr>sw_report := push_report_default\<rparr>) of
        (Inl e, w) \<Rightarrow> Some (Inl (SyncError_Transport e), w)
      | (Inr plan, w) \<Rightarrow>
          if spl_snapshot_id plan \<noteq> sid then Some (Inl (SyncError_IdentityMismatch sid (spl_snapshot_id plan)), w)
          else
            let w = report_have closure (spl_have plan) w; session = spl_session plan;
                max_payload = payload_bound (spl_max_pack_payload plan) in
            case verify_lanes closure (spl_missing plan) (spl_missing_blobs plan) max_payload of
              Inl e \<Rightarrow> Some (Inl e, w)
            | Inr _ \<Rightarrow>
                Option.bind (push_blobs T options session closure max_payload (spl_missing plan) (spl_missing_blobs plan) w)
                  (\<lambda>blobs. case blobs of
                    (Inl e, w) \<Rightarrow> Some (Inl e, w)
                  | (Inr missing, w) \<Rightarrow>
                      Option.bind (push_rounds T sha256 options session closure max_payload missing 0 w) (\<lambda>rounds.
                        Some (op_then rounds (\<lambda>_ w. complete_loop T options session 0 0 w)))))"

text \<open>The pin releases the lease on every exit.\<close>

definition drop_pin :: "rowid \<Rightarrow> 'a sync_result \<Rightarrow> 'a sync_result" where
  "drop_pin lease result = (case result of (answer, w) \<Rightarrow> (answer, w\<lparr>sw_ws := snd (release_lease lease (sw_ws w))\<rparr>))"

definition push_snapshot :: "unicode \<Rightarrow> (bytes \<Rightarrow> digest) \<Rightarrow> sync_transport \<Rightarrow> snapshot_id \<Rightarrow> snapshot_id option \<Rightarrow>
    push_options \<Rightarrow> sync_world \<Rightarrow> push_report sync_result option" where
  "push_snapshot u sha256 T sid expected_head options w =
     (case acquire_pending_sync_lease u sha256 sid PUSH_LEASE_HOLDER (sw_ws w) of
        (Inl e, ws) \<Rightarrow> Some (Inl (SyncError_Workspace e), w\<lparr>sw_ws := ws\<rparr>)
      | (Inr (lease, decoded), ws) \<Rightarrow>
          map_option (drop_pin lease) (push_leased T sha256 options sid expected_head decoded (w\<lparr>sw_ws := ws\<rparr>)))"


section \<open>Pulling\<close>

fun write_pieces :: "'h hasher \<Rightarrow> bytes list \<Rightarrow> 'h object_writer \<Rightarrow> object_store \<Rightarrow> 'h object_writer \<times> object_store" where
  "write_pieces hs [] wr st = (wr, st)"
| "write_pieces hs (piece # pieces) wr st = (case writer_write_all hs piece wr st of (wr, st) \<Rightarrow> write_pieces hs pieces wr st)"

definition set_store :: "object_store \<Rightarrow> sync_world \<Rightarrow> sync_world" where
  "set_store st w = w\<lparr>sw_ws := (sw_ws w)\<lparr>ws_store := st\<rparr>\<rparr>"

text \<open>Every attempt has its own writer, whose drop removes the temporary of an attempt that failed.\<close>

function download_and_admit :: "sync_transport \<Rightarrow> process_env \<Rightarrow> 'h hasher \<Rightarrow> u32 \<Rightarrow> nat \<Rightarrow> download_grant \<Rightarrow> sync_world \<Rightarrow>
    unit sync_result" where
  "download_and_admit T env hs attempts attempt grant w =
     (case store_writer env hs (ws_store (sw_ws w)) of (wr, st) \<Rightarrow>
      case ask (Call_Download grant) (tr_download T) w of ((pieces, moved, answer), w) \<Rightarrow>
      case write_pieces hs pieces wr st of (wr, st) \<Rightarrow>
      let w = sink_bytes moved w; dropped = set_store (remove_temp (ow_path wr) st) w in
      case answer of
        Inr _ \<Rightarrow>
          (case writer_finish_expecting hs (dg_digest grant) (dg_length grant) wr st of
             (Inl e, st) \<Rightarrow> (Inl (SyncError_Store e), set_store st w)
           | (Inr _, st) \<Rightarrow> (Inr (), set_store st w))
      | Inl (TransportError_Io e) \<Rightarrow>
          if unat attempts \<le> attempt + 1 then (Inl (SyncError_Transport (TransportError_Io e)), dropped)
          else download_and_admit T env hs attempts (attempt + 1) grant (back_off (attempt + 1) dropped)
      | Inl e \<Rightarrow> (Inl (SyncError_Transport e), dropped))"
  by pat_completeness auto
termination by (relation "measure (\<lambda>(T, env, hs, attempts, attempt, _). unat attempts - attempt)") auto

declare download_and_admit.simps [simp del]

fun pull_batch :: "sync_transport \<Rightarrow> process_env \<Rightarrow> 'h hasher \<Rightarrow> download_grant list \<Rightarrow> (digest \<times> u64) list \<Rightarrow>
    pull_report \<Rightarrow> sync_world \<Rightarrow> pull_report sync_result" where
  "pull_batch T env hs grants [] report w = (Inr report, w)"
| "pull_batch T env hs grants ((d, len) # batch) report w =
     (case find (\<lambda>grant. dg_digest grant = d) grants of
        None \<Rightarrow> (Inl (SyncError_GrantOmitted d), w)
      | Some grant \<Rightarrow>
          op_then (download_and_admit T env hs DOWNLOAD_ATTEMPTS 0 grant w) (\<lambda>_ w.
            pull_batch T env hs grants batch (report\<lparr>pl_fetched_objects := pl_fetched_objects report + 1,
              pl_fetched_bytes := pl_fetched_bytes report + len\<rparr>) (sink_object d len w)))"

fun pull_batches :: "sync_transport \<Rightarrow> process_env \<Rightarrow> 'h hasher \<Rightarrow> (digest \<times> u64) list list \<Rightarrow> pull_report \<Rightarrow>
    sync_world \<Rightarrow> pull_report sync_result" where
  "pull_batches T env hs [] report w = (Inr report, w)"
| "pull_batches T env hs (batch # rest) report w =
     (case ask (Call_DownloadGrants (map fst batch)) (tr_download_grants T) w of
        (Inl e, w) \<Rightarrow> (Inl (SyncError_Transport e), w)
      | (Inr grants, w) \<Rightarrow>
          op_then (pull_batch T env hs grants batch report w) (\<lambda>report w. pull_batches T env hs rest report w))"

definition fetch_manifest :: "sync_transport \<Rightarrow> (bytes \<Rightarrow> digest) \<Rightarrow> snapshot_id \<Rightarrow> sync_world \<Rightarrow> bytes sync_result" where
  "fetch_manifest T sha256 sid w =
     (let manifest = manifest_object_digest sid in
      case ask (Call_DownloadGrants [manifest]) (tr_download_grants T) w of
        (Inl e, w) \<Rightarrow> (Inl (SyncError_Transport e), w)
      | (Inr grants, w) \<Rightarrow>
          (case find (\<lambda>grant. dg_digest grant = manifest) grants of
             None \<Rightarrow> (Inl (SyncError_GrantOmitted manifest), w)
           | Some grant \<Rightarrow>
               (case ask (Call_Download grant) (tr_download T) w of ((pieces, moved, answer), w) \<Rightarrow>
                let bs = concat pieces; w = sink_bytes moved w in
                case answer of
                  Inl e \<Rightarrow> (Inl (SyncError_Transport e), w)
                | Inr _ \<Rightarrow> if sha256 bs \<noteq> sid then (Inl (SyncError_RemoteManifestCorrupt sid), w) else (Inr bs, w))))"

text \<open>The rows of the closure that are not resident; a resident one is progress.\<close>

fun missing_rows :: "(digest \<times> u64) list \<Rightarrow> pull_report \<Rightarrow> sync_world \<Rightarrow> (digest \<times> u64) list \<times> pull_report \<times> sync_world" where
  "missing_rows [] report w = ([], report, w)"
| "missing_rows ((d, len) # closure) report w =
     (if store_exists d (ws_store (sw_ws w)) then
        missing_rows closure (report\<lparr>pl_skipped_local_resident := pl_skipped_local_resident report + 1\<rparr>) (sink_object d len w)
      else case missing_rows closure report w of (missing, report, w) \<Rightarrow> ((d, len) # missing, report, w))"

definition local_manifest :: "unicode \<Rightarrow> sync_transport \<Rightarrow> (bytes \<Rightarrow> digest) \<Rightarrow> snapshot_id \<Rightarrow> sync_world \<Rightarrow> bytes sync_result" where
  "local_manifest u T sha256 sid w =
     (case load_snapshot u sha256 (sw_ws w) sid of
        Inr s \<Rightarrow> (Inr (to_bytes s), w)
      | Inl (WorkspaceError_UnknownSnapshot _) \<Rightarrow> fetch_manifest T sha256 sid w
      | Inl e \<Rightarrow> (Inl (SyncError_Workspace e), w))"

definition pull_snapshot :: "unicode \<Rightarrow> process_env \<Rightarrow> 'h hasher \<Rightarrow> (bytes \<Rightarrow> digest) \<Rightarrow> sync_transport \<Rightarrow> snapshot_id \<Rightarrow>
    sync_world \<Rightarrow> pull_report sync_result" where
  "pull_snapshot u env hs sha256 T sid w =
     op_then (local_manifest u T sha256 sid w) (\<lambda>bs w.
     op_then (map_err SyncError_Manifest (decode u bs), w) (\<lambda>s w.
     case missing_rows (data_closure s) \<lparr>pl_fetched_objects = 0, pl_fetched_bytes = 0, pl_skipped_local_resident = 0\<rparr> w of
       (missing, report, w) \<Rightarrow>
     op_then (pull_batches T env hs (slice_chunks DOWNLOAD_GRANT_BATCH missing) report w) (\<lambda>report w.
     case adopt_snapshot u env hs sha256 bs (sw_ws w) of
       (Inl e, ws) \<Rightarrow> (Inl (SyncError_Workspace e), w\<lparr>sw_ws := ws\<rparr>)
     | (Inr _, ws) \<Rightarrow> (Inr report, w\<lparr>sw_ws := ws\<rparr>))))"

definition pull_head :: "unicode \<Rightarrow> process_env \<Rightarrow> 'h hasher \<Rightarrow> (bytes \<Rightarrow> digest) \<Rightarrow> sync_transport \<Rightarrow> sync_world \<Rightarrow>
    (snapshot_id \<times> pull_report) sync_result" where
  "pull_head u env hs sha256 T w =
     (case ask Call_Head (tr_head T) w of
        (Inl e, w) \<Rightarrow> (Inl (SyncError_Transport e), w)
      | (Inr None, w) \<Rightarrow> (Inl SyncError_NoRemoteHead, w)
      | (Inr (Some head), w) \<Rightarrow>
          op_then (pull_snapshot u env hs sha256 T head w) (\<lambda>report w. (Inr (head, report), w)))"

end
