(* ===== verification/Sync_Pull.thy ===== *)
theory Sync_Pull
  imports Sync Workspace_Runs "HOL-Library.Sublist"
begin

text \<open>
  What a pull does, whatever the remote answers: only missing objects are downloaded, every object it
  admits hashes to its name, nothing of the local store is lost, and when it succeeds the snapshot is
  adopted with everything it names.
\<close>

section \<open>One download\<close>

lemma write_pieces_writing:
  "writing hs st0 wr st bs \<Longrightarrow> write_pieces hs pieces wr st = (wr', st') \<Longrightarrow>
   writing hs st0 wr' st' (bs @ concat pieces) \<and> ow_path wr' = ow_path wr"
proof (induction pieces arbitrary: wr st bs)
  case (Cons piece pieces)
  obtain wr1 st1 where one: "writer_write_all hs piece wr st = (wr1, st1)" by (cases "writer_write_all hs piece wr st")
  have "ow_path wr1 = ow_path wr" using one by (auto simp: writer_write_all_def writer_write_def split: if_splits)
  then show ?case using Cons.IH [OF writer_write_all_writing [OF Cons.prems(1) one]] Cons.prems(2) one by simp
qed simp

lemma finish_expecting_spec:
  assumes "hasher_streams hs sha256" "store_ok sha256 st0" "writing hs st0 wr st bs"
    and "writer_finish_expecting hs d len wr st = (r, st')"
  shows "store_ok sha256 st' \<and> store_grows st0 st' \<and> os_temps st' = os_temps st0 \<and>
    (\<forall>a. r = Inr a \<longrightarrow> sha256 bs = d \<and> d \<in> store_digests st')"
proof (cases "ow_written wr = len \<and> sha256 bs = d")
  case False
  then have "st' = remove_temp (ow_path wr) st" "\<exists>e. r = Inl e"
    using assms(4) writing_digest [OF assms(3,1)] by (auto simp: writer_finish_expecting_def Let_def split: if_splits)
  then show ?thesis using writing_dropped [OF assms(3)] assms(2)
    by (auto simp: store_ok_def store_wf_def store_grows_def resident_at_def)
next
  case True
  then have fin: "writer_finish hs wr st = (r, st')"
    using assms(4) writing_digest [OF assms(3,1)] by (simp add: writer_finish_expecting_def writer_finish_def)
  note ref = writer_finish_refines [OF assms(1,3), unfolded fin]
  have "store_ok sha256 st'" using store_ok_refined [OF assms(2), of st' bs] ref by simp
  moreover have "store_grows st0 st'" using ref assms(2) by (intro admit_grows [of sha256 _ _ bs]) (auto simp: store_ok_def)
  moreover have "d \<in> store_digests st'"
    using ref(2) True admit_sound(3) [of sha256 "os_objects st0" bs] assms(2) by (auto simp: store_ok_def store_digests_def)
  ultimately show ?thesis using ref True by simp
qed

text \<open>What a transfer keeps of the local state: the store is sound and has grown, no temporary is left, the
  metadata are untouched.\<close>

definition grown :: "(bytes \<Rightarrow> digest) \<Rightarrow> sync_world \<Rightarrow> sync_world \<Rightarrow> bool" where
  "grown sha256 w w' \<longleftrightarrow> store_ok sha256 (ws_store (sw_ws w')) \<and> store_grows (ws_store (sw_ws w)) (ws_store (sw_ws w')) \<and>
     os_temps (ws_store (sw_ws w')) = os_temps (ws_store (sw_ws w)) \<and> ws_db (sw_ws w') = ws_db (sw_ws w)"

lemma grown_trans: "grown sha256 w w1 \<Longrightarrow> grown sha256 w1 w2 \<Longrightarrow> grown sha256 w w2"
  unfolding grown_def using store_grows_trans by metis

lemma world_updates [simp]:
  "sw_ws (sink_bytes moved w) = sw_ws w" "sw_calls (sink_bytes moved w) = sw_calls w"
  "sw_ws (sink_object d len w) = sw_ws w" "sw_calls (sink_object d len w) = sw_calls w"
  "sw_ws (back_off n w) = sw_ws w" "sw_calls (back_off n w) = sw_calls w"
  "sw_ws (update_report f w) = sw_ws w" "sw_calls (update_report f w) = sw_calls w"
  "ws_store (sw_ws (set_store st w)) = st" "ws_db (sw_ws (set_store st w)) = ws_db (sw_ws w)" "sw_calls (set_store st w) = sw_calls w"
  by (simp_all add: sink_bytes_def sink_object_def back_off_def update_report_def set_store_def)

lemma download_and_admit_spec:
  assumes "hasher_streams hs sha256"
  shows "store_ok sha256 (ws_store (sw_ws w)) \<Longrightarrow> download_and_admit T env hs attempts attempt grant w = (r, w') \<Longrightarrow>
    grown sha256 w w' \<and> (r = Inr () \<longrightarrow> dg_digest grant \<in> store_digests (ws_store (sw_ws w'))) \<and>
    (\<exists>k. 0 < k \<and> k \<le> max 1 (unat attempts - attempt) \<and> sw_calls w' = sw_calls w @ replicate k (Call_Download grant))"
proof (induction "unat attempts - attempt" arbitrary: attempt w r w' rule: less_induct)
  case less
  obtain wr st where wr: "store_writer env hs (ws_store (sw_ws w)) = (wr, st)" by (cases "store_writer env hs (ws_store (sw_ws w))")
  obtain pieces moved answer where an: "tr_download T (sw_calls w @ [Call_Download grant]) = (pieces, moved, answer)"
    by (cases "tr_download T (sw_calls w @ [Call_Download grant])")
  obtain wr1 st1 where w1: "write_pieces hs pieces wr st = (wr1, st1)" by (cases "write_pieces hs pieces wr st")
  have "writing hs (ws_store (sw_ws w)) wr st []"
    using store_writer_writing [of "ws_store (sw_ws w)" hs env] wr less.prems(1) by (simp add: store_ok_def)
  from write_pieces_writing [OF this w1] have wg: "writing hs (ws_store (sw_ws w)) wr1 st1 (concat pieces)" by simp
  let ?w = "sink_bytes moved (w\<lparr>sw_calls := sw_calls w @ [Call_Download grant]\<rparr>)"
  let ?dropped = "set_store (remove_temp (ow_path wr1) st1) ?w"
  have dropped: "grown sha256 w ?dropped" "sw_calls ?dropped = sw_calls w @ [Call_Download grant]"
    using writing_dropped [OF wg] less.prems(1)
    by (simp_all add: grown_def store_ok_def store_wf_def store_grows_def resident_at_def)
  have once: "\<exists>k. 0 < k \<and> k \<le> max 1 (unat attempts - attempt) \<and> sw_calls w @ [Call_Download grant] = sw_calls w @ replicate k (Call_Download grant)"
    by (intro exI [of _ 1]) simp
  note eqn = less.prems(2) [unfolded download_and_admit.simps [of T env hs attempts attempt grant w] ask_def wr an w1 prod.case Let_def]
  consider (finished) n where "answer = Inr n" | (again) e where "answer = Inl (TransportError_Io e)" "attempt + 1 < unat attempts"
    | (stop) e where "answer = Inl e" "r = Inl (SyncError_Transport e)" "w' = ?dropped"
    using eqn by (auto split: sum.splits transport_error.splits if_splits)
  then show ?case
  proof cases
    case finished
    obtain a st2 where fin: "writer_finish_expecting hs (dg_digest grant) (dg_length grant) wr1 st1 = (a, st2)"
      by (cases "writer_finish_expecting hs (dg_digest grant) (dg_length grant) wr1 st1")
    have res: "w' = set_store st2 ?w" "r = Inr () \<Longrightarrow> \<exists>b. a = Inr b" using eqn finished fin by (auto split: sum.splits)
    note spec = finish_expecting_spec [OF assms less.prems(1) wg fin]
    have "grown sha256 w w'" using spec by (simp add: res(1) grown_def)
    moreover have "r = Inr () \<longrightarrow> dg_digest grant \<in> store_digests (ws_store (sw_ws w'))" using spec res by auto
    ultimately show ?thesis using once by (simp add: res(1))
  next
    case again
    have step: "download_and_admit T env hs attempts (attempt + 1) grant (back_off (attempt + 1) ?dropped) = (r, w')"
      using eqn again by (simp split: if_splits)
    have "store_ok sha256 (ws_store (sw_ws (back_off (attempt + 1) ?dropped)))" using dropped(1) by (simp add: grown_def)
    have "unat attempts - (attempt + 1) < unat attempts - attempt" using again(2) by simp
    from less.hyps [OF this \<open>store_ok sha256 (ws_store (sw_ws (back_off (attempt + 1) ?dropped)))\<close> step] obtain k where
      k: "grown sha256 (back_off (attempt + 1) ?dropped) w'" "r = Inr () \<longrightarrow> dg_digest grant \<in> store_digests (ws_store (sw_ws w'))"
      "k \<le> max 1 (unat attempts - (attempt + 1))" "sw_calls w' = sw_calls w @ [Call_Download grant] @ replicate k (Call_Download grant)"
      using dropped(2) by auto
    have "grown sha256 w w'" using grown_trans [OF dropped(1), of w'] k(1) by (simp add: grown_def)
    moreover have "\<exists>k. 0 < k \<and> k \<le> max 1 (unat attempts - attempt) \<and> sw_calls w' = sw_calls w @ replicate k (Call_Download grant)"
      using k(3,4) again(2) by (intro exI [of _ "Suc k"]) auto
    ultimately show ?thesis using k(2) by blast
  next
    case stop
    then show ?thesis using dropped once by simp
  qed
qed


section \<open>Batches\<close>

fun fetches :: "digest \<Rightarrow> sync_call \<Rightarrow> bool" where
  "fetches d (Call_Download grant) = (dg_digest grant = d)"
| "fetches d _ = False"

definition fetch_count :: "digest \<Rightarrow> sync_call list \<Rightarrow> nat" where
  "fetch_count d calls = length (filter (fetches d) calls)"

lemma fetch_count_simps [simp]:
  "fetch_count d [] = 0" "fetch_count d (xs @ ys) = fetch_count d xs + fetch_count d ys"
  "fetch_count d (c # xs) = (if fetches d c then 1 else 0) + fetch_count d xs"
  "fetch_count d (replicate k (Call_Download grant)) = (if dg_digest grant = d then k else 0)"
  by (simp_all add: fetch_count_def)

lemma grown_refl: "store_ok sha256 (ws_store (sw_ws w)) \<Longrightarrow> grown sha256 w w"
  by (simp add: grown_def store_grows_refl)

lemma grown_ok: "grown sha256 w w' \<Longrightarrow> store_ok sha256 (ws_store (sw_ws w'))"
  by (simp add: grown_def)

lemma grown_digests: "grown sha256 w w' \<Longrightarrow> store_digests (ws_store (sw_ws w)) \<subseteq> store_digests (ws_store (sw_ws w'))"
  by (simp add: grown_def store_grows_digests)

lemma grown_same_ws: "sw_ws w1 = sw_ws w \<Longrightarrow> grown sha256 w1 w' \<Longrightarrow> grown sha256 w w'"
  by (simp add: grown_def)

lemma pull_batch_spec:
  assumes "hasher_streams hs sha256"
  shows "store_ok sha256 (ws_store (sw_ws w)) \<Longrightarrow> pull_batch T env hs grants batch report w = (r, w') \<Longrightarrow>
    grown sha256 w w' \<and> (\<forall>rep. r = Inr rep \<longrightarrow> fst ` set batch \<subseteq> store_digests (ws_store (sw_ws w'))) \<and>
    (\<exists>new. sw_calls w' = sw_calls w @ new \<and> (\<forall>d. fetch_count d new \<le> 4 * count_list (map fst batch) d))"
proof (induction batch arbitrary: report w)
  case Nil
  then show ?case by (simp add: grown_refl)
next
  case (Cons row batch)
  obtain d len where row: "row = (d, len)" by (cases row)
  show ?case
  proof (cases "find (\<lambda>grant. dg_digest grant = d) grants")
    case None
    then show ?thesis using Cons.prems row by (auto simp: grown_refl)
  next
    case (Some grant)
    then have g: "dg_digest grant = d" by (auto simp: find_Some_iff)
    obtain one w1 where one: "download_and_admit T env hs DOWNLOAD_ATTEMPTS 0 grant w = (one, w1)"
      by (cases "download_and_admit T env hs DOWNLOAD_ATTEMPTS 0 grant w")
    from download_and_admit_spec [OF assms Cons.prems(1) one] g obtain k where
      k: "grown sha256 w w1" "one = Inr () \<Longrightarrow> d \<in> store_digests (ws_store (sw_ws w1))" "k \<le> 4"
      "sw_calls w1 = sw_calls w @ replicate k (Call_Download grant)" by (auto simp: DOWNLOAD_ATTEMPTS_def)
    show ?thesis
    proof (cases one)
      case (Inl e)
      then have "w' = w1" "r = Inl e" using Cons.prems(2) row Some one by simp_all
      then show ?thesis using k row g by auto
    next
      case (Inr u)
      let ?w1 = "sink_object d len w1"
      from Inr have step: "pull_batch T env hs grants batch (report\<lparr>pl_fetched_objects := pl_fetched_objects report + 1,
          pl_fetched_bytes := pl_fetched_bytes report + len\<rparr>) ?w1 = (r, w')"
        using Cons.prems(2) row Some one by simp
      have ok1: "store_ok sha256 (ws_store (sw_ws ?w1))" using grown_ok [OF k(1)] by simp
      from Cons.IH [OF ok1 step] obtain new where
        n: "grown sha256 ?w1 w'" "\<forall>rep. r = Inr rep \<longrightarrow> fst ` set batch \<subseteq> store_digests (ws_store (sw_ws w'))"
        "sw_calls w' = sw_calls w1 @ new" "\<forall>d. fetch_count d new \<le> 4 * count_list (map fst batch) d" by auto
      have g1: "grown sha256 w1 w'" by (rule grown_same_ws [OF _ n(1)]) simp
      have "d \<in> store_digests (ws_store (sw_ws w'))" using k(2) Inr grown_digests [OF g1] by auto
      moreover have "\<forall>d'. fetch_count d' (replicate k (Call_Download grant) @ new) \<le> 4 * count_list (map fst (row # batch)) d'"
        using n(4) k(3) row g by (auto intro: add_mono)
      ultimately show ?thesis using grown_trans [OF k(1) g1] n(2,3) k(4) row by auto
    qed
  qed
qed

lemma pull_batches_spec:
  assumes "hasher_streams hs sha256"
  shows "store_ok sha256 (ws_store (sw_ws w)) \<Longrightarrow> pull_batches T env hs groups report w = (r, w') \<Longrightarrow>
    grown sha256 w w' \<and> (\<forall>rep. r = Inr rep \<longrightarrow> fst ` set (concat groups) \<subseteq> store_digests (ws_store (sw_ws w'))) \<and>
    (\<exists>new. sw_calls w' = sw_calls w @ new \<and> (\<forall>d. fetch_count d new \<le> 4 * count_list (map fst (concat groups)) d))"
proof (induction groups arbitrary: report w)
  case Nil
  then show ?case by (simp add: grown_refl)
next
  case (Cons batch groups)
  let ?call = "Call_DownloadGrants (map fst batch)"
  let ?w = "w\<lparr>sw_calls := sw_calls w @ [?call]\<rparr>"
  show ?case
  proof (cases "tr_download_grants T (sw_calls w @ [?call])")
    case (Inl e)
    then have "w' = ?w" "r = Inl (SyncError_Transport e)" using Cons.prems(2) by (simp_all add: ask_def)
    then show ?thesis using Cons.prems(1) by (auto simp: grown_def store_grows_refl)
  next
    case (Inr grants)
    obtain one w1 where one: "pull_batch T env hs grants batch report ?w = (one, w1)" by (cases "pull_batch T env hs grants batch report ?w")
    have "store_ok sha256 (ws_store (sw_ws ?w))" using Cons.prems(1) by simp
    from pull_batch_spec [OF assms this one] obtain new where n: "grown sha256 ?w w1"
      "\<forall>rep. one = Inr rep \<longrightarrow> fst ` set batch \<subseteq> store_digests (ws_store (sw_ws w1))"
      "sw_calls w1 = sw_calls w @ ?call # new" "\<forall>d. fetch_count d new \<le> 4 * count_list (map fst batch) d" by auto
    have g: "grown sha256 w w1" by (rule grown_same_ws [OF _ n(1)]) simp
    show ?thesis
    proof (cases one)
      case (Inl e)
      then have "w' = w1" "r = Inl e" using Cons.prems(2) Inr one by (simp_all add: ask_def)
      then show ?thesis using g n(3,4) by (auto intro: exI [of _ "?call # new"] trans_le_add1)
    next
      case rep: (Inr rep)
      then have "pull_batches T env hs groups rep w1 = (r, w')" using Cons.prems(2) Inr one by (simp add: ask_def)
      from Cons.IH [OF grown_ok [OF g] this] obtain more where m: "grown sha256 w1 w'"
        "\<forall>rep. r = Inr rep \<longrightarrow> fst ` set (concat groups) \<subseteq> store_digests (ws_store (sw_ws w'))"
        "sw_calls w' = sw_calls w1 @ more" "\<forall>d. fetch_count d more \<le> 4 * count_list (map fst (concat groups)) d" by auto
      have "fst ` set batch \<subseteq> store_digests (ws_store (sw_ws w'))" using n(2) rep grown_digests [OF m(1)] by blast
      moreover have "\<forall>d. fetch_count d (?call # new @ more) \<le> 4 * count_list (map fst (concat (batch # groups))) d"
        using n(4) m(4) by (auto intro: add_mono)
      ultimately show ?thesis using grown_trans [OF g m(1)] m(2,3) n(3)
        by (auto simp: image_Un intro!: exI [of _ "?call # new @ more"])
    qed
  qed
qed


section \<open>The closure\<close>

lemma closure_loop_digests:
  "fst ` set (closure_loop seen records) = set (record_digests records) - set seen \<and> distinct (map fst (closure_loop seen records))"
  by (induction seen records rule: closure_loop.induct) auto

lemma closure_loop_records: "(d, len) \<in> set (closure_loop seen records) \<Longrightarrow> FileRecord_Data d len \<in> set records"
  by (induction seen records rule: closure_loop.induct) (auto split: if_splits)

lemma data_closure_digests: "fst ` set (data_closure s) = set (snapshot_record_digests s)" "distinct (map fst (data_closure s))"
proof -
  have "record_digests (concat rss) = concat (map record_digests rss)" for rss
    by (induction rss) (simp_all add: record_digests_append)
  then show "fst ` set (data_closure s) = set (snapshot_record_digests s)" "distinct (map fst (data_closure s))"
    using closure_loop_digests [of "[]" "concat (map (entry_records \<circ> snd) (snap_entries s))"]
    by (simp_all add: data_closure_def snapshot_record_digests_def comp_def)
qed

lemma missing_rows_filter:
  "missing_rows closure report w = (missing, report', w') \<Longrightarrow>
   missing = filter (\<lambda>row. \<not> store_exists (fst row) (ws_store (sw_ws w))) closure \<and> sw_ws w' = sw_ws w \<and> sw_calls w' = sw_calls w"
proof (induction closure report w arbitrary: missing report' w' rule: missing_rows.induct)
  case (2 d len closure report w)
  show ?case
  proof (cases "store_exists d (ws_store (sw_ws w))")
    case True
    have "missing_rows closure (report\<lparr>pl_skipped_local_resident := pl_skipped_local_resident report + 1\<rparr>) (sink_object d len w) =
        (missing, report', w')" using "2.prems" True by simp
    from "2.IH"(1) [OF True this] True show ?thesis by simp
  next
    case False
    obtain rest where rest: "missing_rows closure report w = (rest, report', w')" "missing = (d, len) # rest"
      using "2.prems" False by (auto split: prod.splits)
    from "2.IH"(2) [OF False rest(1)] False rest(2) show ?thesis by simp
  qed
qed simp


section \<open>The whole pull\<close>

text \<open>The bytes a pull decodes: the stored manifest, or a download that hashes to the id.\<close>

lemma local_manifest_spec:
  assumes "\<And>d bs. open_object d (ws_store (sw_ws w)) = Inr bs \<Longrightarrow> length bs < 2 ^ 64"
    and "\<And>h pieces moved n. tr_download T h = (pieces, moved, n) \<Longrightarrow> length (concat pieces) < 2 ^ 64"
    and "local_manifest u T sha256 sid w = (r, w')"
  shows "sw_ws w' = sw_ws w \<and> (\<forall>bs. r = Inr bs \<longrightarrow> sha256 bs = sid \<and> length bs < 2 ^ 64) \<and>
    (\<exists>new. sw_calls w' = sw_calls w @ new \<and> (\<forall>d. fetch_count d new \<le> (if d = sid then 1 else 0)))"
proof (cases "load_snapshot u sha256 (sw_ws w) sid")
  case (Inr s)
  then obtain b where b: "open_object sid (ws_store (sw_ws w)) = Inr b" "sha256 b = sid" "decode u b = Inr s"
    by (auto simp: load_snapshot_def read_rooted_snapshot_def read_manifest_object_def result_simps split: if_splits sum.splits)
  then have "b = to_bytes s" using decode_iff [OF assms(1) [OF b(1)]] by auto
  then show ?thesis using assms(3) Inr b assms(1) [OF b(1)] by (auto simp: local_manifest_def)
next
  case (Inl e)
  show ?thesis
  proof (cases "\<exists>i. e = WorkspaceError_UnknownSnapshot i")
    case False
    then show ?thesis using assms(3) Inl by (cases e) (auto simp: local_manifest_def)
  next
    case True
    then have "fetch_manifest T sha256 sid w = (r, w')" using assms(3) Inl by (auto simp: local_manifest_def)
    then show ?thesis using assms(2)
      by (auto simp: fetch_manifest_def manifest_object_digest_def ask_def Let_def find_Some_iff simp del: length_concat
          split: sum.splits option.splits prod.splits if_splits)
  qed
qed

lemma put_bytes_uncollided:
  assumes "hasher_streams hs sha256" "store_ok sha256 st"
  shows "uncollided sha256 bs (snd (put_bytes env hs bs st)) \<longleftrightarrow> uncollided sha256 bs st"
  using put_bytes_ok(3) [OF assms, of env bs] admit_sound(3) [of sha256 "os_objects st" bs] assms(2)
  by (auto simp: store_ok_def uncollided_def split: option.splits)

text \<open>Adopting a manifest whose objects are resident.\<close>

lemma adopt_pulled:
  assumes "hasher_streams hs sha256" "ws_ok u sha256 ws" "length bs < 2 ^ 64" "adopt_snapshot u env hs sha256 bs ws = (r, ws')"
  shows "store_ok sha256 (ws_store ws') \<and> store_grows (ws_store ws) (ws_store ws') \<and> os_temps (ws_store ws') = os_temps (ws_store ws) \<and>
    (\<forall>e. r = Inl e \<longrightarrow> ws_ok u sha256 ws' \<and> ws_db ws' = ws_db ws) \<and>
    (\<forall>x. r = Inr x \<longrightarrow> sha256 bs \<in> fst ` set (md_snapshots (ws_db ws')) \<and>
      (\<exists>s. decode u bs = Inr s \<and> bs = to_bytes s \<and> set (snapshot_record_digests s) \<subseteq> store_digests (ws_store ws') \<and>
        (uncollided sha256 bs (ws_store ws') \<longrightarrow> ws_ok u sha256 ws' \<and> load_snapshot u sha256 ws' (sha256 bs) = Inr s)))"
proof -
  obtain prepared ws1 where pre: "adopt_prepare u env hs sha256 bs ws = (prepared, ws1)" by (cases "adopt_prepare u env hs sha256 bs ws")
  have st: "store_ok sha256 (ws_store ws)" using assms(2) by (simp add: ws_ok_def)
  let ?put = "snd (put_bytes env hs bs (ws_store ws))"
  note ok = put_bytes_ok [OF assms(1) st, of env bs] put_bytes_grows [OF assms(1) st, of env bs]
  have ws1: "ws_db ws1 = ws_db ws \<and> (ws_store ws1 = ?put \<or> ws_store ws1 = ws_store ws)"
    using pre by (auto simp: adopt_prepare_def split: sum.splits prod.splits)
  then have kept: "store_ok sha256 (ws_store ws1)" "store_grows (ws_store ws) (ws_store ws1)" "os_temps (ws_store ws1) = os_temps (ws_store ws)"
    using ok st store_grows_refl by auto
  show ?thesis
  proof (cases prepared)
    case (Inl e)
    then have "ws' = ws1" "r = Inl e" using assms(4) pre by (simp_all add: adopt_snapshot_def)
    then show ?thesis using kept ws1 adopt_prepare_ok [OF assms(2,1) pre] by simp
  next
    case (Inr x)
    with pre have "adopt_prepare u env hs sha256 bs ws = (Inr x, ws1)" by simp
    then obtain s where s: "decode u bs = Inr s" "\<forall>d \<in> set (snapshot_record_digests s). store_exists d (ws_store ws)"
      "x = snapshot_id_of sha256 s" "ws1 = ws\<lparr>ws_store := ?put\<rparr>" by (rule adopt_prepare_Inr)
    have ws': "ws' = adopt_insert x ws1" "r = Inr x" using assms(4) pre Inr by (simp_all add: adopt_snapshot_def)
    have bs: "bs = to_bytes s" using s(1) decode_iff [OF assms(3)] by auto
    then have x: "x = sha256 bs" using s(3) by (simp add: snapshot_id_of_def)
    have store': "ws_store ws' = ?put" using ws' s(4) by (simp add: adopt_insert_def)
    have row: "sha256 bs \<in> fst ` set (md_snapshots (ws_db ws'))"
      using ws' x by (auto simp: adopt_insert_def insert_snapshot_def set_bt_insert map_of_eq_None_iff)
    have named: "set (snapshot_record_digests s) \<subseteq> store_digests ?put"
      using s(2) store_exists_resident [OF st] store_grows_digests [OF ok(5)] by auto
    have "ws_ok u sha256 ws' \<and> load_snapshot u sha256 ws' (sha256 bs) = Inr s" if un: "uncollided sha256 bs ?put"
    proof -
      have un0: "uncollided sha256 bs (ws_store ws)" using un put_bytes_uncollided [OF assms(1) st] by simp
      have "read_manifest_object u sha256 ?put (sha256 bs) = Inr s"
        using put_bytes_opens [OF assms(1) st un0, of env] s(1) by (simp add: read_manifest_object_def)
      moreover have "map_of (md_snapshots (ws_db ws')) (sha256 bs) \<noteq> None" using row by (simp add: map_of_eq_None_iff)
      ultimately show ?thesis using adopt_snapshot_ok [OF assms(2,1) un0 assms(3,4)] store'
        by (simp add: load_snapshot_def read_rooted_snapshot_def)
    qed
    then show ?thesis using kept s(1,4) bs row named ws'(2) store' by auto
  qed
qed

lemma count_list_distinct: "distinct xs \<Longrightarrow> count_list xs x \<le> 1"
  by (induction xs) (auto simp: count_notin)

lemma pull_snapshot_spec:
  assumes "hasher_streams hs sha256" "ws_ok u sha256 (sw_ws w)"
    and "\<And>d bs. open_object d (ws_store (sw_ws w)) = Inr bs \<Longrightarrow> length bs < 2 ^ 64"
    and "\<And>h pieces moved n. tr_download T h = (pieces, moved, n) \<Longrightarrow> length (concat pieces) < 2 ^ 64"
    and "pull_snapshot u env hs sha256 T sid w = (r, w')"
  shows "store_ok sha256 (ws_store (sw_ws w')) \<and> store_grows (ws_store (sw_ws w)) (ws_store (sw_ws w')) \<and>
    os_temps (ws_store (sw_ws w')) = os_temps (ws_store (sw_ws w)) \<and>
    (\<exists>new. sw_calls w' = sw_calls w @ new \<and>
      (\<forall>d. fetch_count d new \<le> (if d = sid then 1 else 0) + (if d \<in> store_digests (ws_store (sw_ws w)) then 0 else 4))) \<and>
    (\<forall>e. r = Inl e \<longrightarrow> ws_ok u sha256 (sw_ws w') \<and> ws_db (sw_ws w') = ws_db (sw_ws w)) \<and>
    (\<forall>report. r = Inr report \<longrightarrow> sid \<in> fst ` set (md_snapshots (ws_db (sw_ws w'))) \<and>
      (\<exists>s. snapshot_id_of sha256 s = sid \<and> set (snapshot_record_digests s) \<subseteq> store_digests (ws_store (sw_ws w')) \<and>
        (uncollided sha256 (to_bytes s) (ws_store (sw_ws w')) \<longrightarrow>
          ws_ok u sha256 (sw_ws w') \<and> load_snapshot u sha256 (sw_ws w') sid = Inr s)))"
proof -
  let ?st = "ws_store (sw_ws w)"
  have st: "store_ok sha256 ?st" using assms(2) by (simp add: ws_ok_def)
  obtain m w1 where m: "local_manifest u T sha256 sid w = (m, w1)" by (cases "local_manifest u T sha256 sid w")
  have "sw_ws w1 = sw_ws w \<and> (\<forall>bs. m = Inr bs \<longrightarrow> sha256 bs = sid \<and> length bs < 2 ^ 64) \<and>
    (\<exists>new. sw_calls w1 = sw_calls w @ new \<and> (\<forall>d. fetch_count d new \<le> (if d = sid then 1 else 0)))"
    by (rule local_manifest_spec [OF _ _ m]) (rule assms(3) assms(4), assumption)+
  then obtain first where
    one: "sw_ws w1 = sw_ws w" "\<And>bs. m = Inr bs \<Longrightarrow> sha256 bs = sid \<and> length bs < 2 ^ 64"
    "sw_calls w1 = sw_calls w @ first" "\<And>d. fetch_count d first \<le> (if d = sid then 1 else 0)" by blast
  have early: "\<forall>d. fetch_count d first \<le> (if d = sid then 1 else 0) + (if d \<in> store_digests ?st then 0 else 4)"
    using one(4) by (meson trans_le_add1)
  have run: "(case m of Inl e \<Rightarrow> (Inl e, w1) | Inr bs \<Rightarrow> op_then (map_err SyncError_Manifest (decode u bs), w1) (\<lambda>s w.
     case missing_rows (data_closure s) \<lparr>pl_fetched_objects = 0, pl_fetched_bytes = 0, pl_skipped_local_resident = 0\<rparr> w of
       (missing, report, w) \<Rightarrow>
     op_then (pull_batches T env hs (slice_chunks DOWNLOAD_GRANT_BATCH missing) report w) (\<lambda>report w.
     case adopt_snapshot u env hs sha256 bs (sw_ws w) of
       (Inl e, ws) \<Rightarrow> (Inl (SyncError_Workspace e), w\<lparr>sw_ws := ws\<rparr>)
     | (Inr _, ws) \<Rightarrow> (Inr report, w\<lparr>sw_ws := ws\<rparr>)))) = (r, w')"
    using assms(5) m by (cases m) (simp_all add: pull_snapshot_def)
  show ?thesis
  proof (cases "(\<exists>e. m = Inl e) \<or> (\<exists>bs e. m = Inr bs \<and> decode u bs = Inl e)")
    case True
    then have "w' = w1" "\<exists>e. r = Inl e" using run by auto
    then show ?thesis using one(1,3) early st store_grows_refl assms(2) by auto
  next
    case False
    then obtain bs s where bs: "m = Inr bs" "decode u bs = Inr s"
      by (metis sum.exhaust_sel)
    obtain missing report w2 where rows: "missing_rows (data_closure s)
        \<lparr>pl_fetched_objects = 0, pl_fetched_bytes = 0, pl_skipped_local_resident = 0\<rparr> w1 = (missing, report, w2)"
      by (cases "missing_rows (data_closure s) \<lparr>pl_fetched_objects = 0, pl_fetched_bytes = 0, pl_skipped_local_resident = 0\<rparr> w1")
    note mr = missing_rows_filter [OF rows, unfolded one(1)]
    obtain got w3 where got: "pull_batches T env hs (slice_chunks DOWNLOAD_GRANT_BATCH missing) report w2 = (got, w3)"
      by (cases "pull_batches T env hs (slice_chunks DOWNLOAD_GRANT_BATCH missing) report w2")
    have chunks: "concat (slice_chunks DOWNLOAD_GRANT_BATCH missing) = missing" by (simp add: concat_slice_chunks DOWNLOAD_GRANT_BATCH_def)
    have st2: "store_ok sha256 (ws_store (sw_ws w2))" using mr st by simp
    from pull_batches_spec [OF assms(1) st2 got, unfolded chunks] mr one(3) obtain rest where
      b: "grown sha256 w2 w3" "sw_calls w3 = sw_calls w @ first @ rest" "\<And>d. fetch_count d rest \<le> 4 * count_list (map fst missing) d" by auto
    have counts: "fetch_count d (first @ rest) \<le> (if d = sid then 1 else 0) + (if d \<in> store_digests ?st then 0 else 4)" for d
    proof -
      have "distinct (map fst missing)" using mr data_closure_digests(2) [of s] by (simp add: distinct_map_filter)
      moreover have "d \<in> store_digests ?st \<Longrightarrow> count_list (map fst missing) d = 0"
        using mr store_exists_resident [OF st, of d] by (auto intro!: count_notin)
      ultimately show ?thesis using count_list_distinct [of "map fst missing" d] one(4) [of d] b(3) [of d] by auto
    qed
    have g: "grown sha256 w w3" by (rule grown_same_ws [OF _ b(1)]) (use mr one(1) in simp)
    have ok3: "ws_ok u sha256 (sw_ws w3)"
    proof -
      have "sw_ws w3 = (sw_ws w)\<lparr>ws_store := ws_store (sw_ws w3)\<rparr>" using g by (simp add: grown_def)
      then show ?thesis using ws_ok_grows [OF assms(2), of "ws_store (sw_ws w3)"] g by (simp add: grown_def)
    qed
    show ?thesis
    proof (cases got)
      case (Inl e)
      then have "w' = w3" "r = Inl e" using run bs rows got by simp_all
      then show ?thesis using g ok3 b(2) counts by (auto simp: grown_def)
    next
      case (Inr rep)
      obtain a ws where a: "adopt_snapshot u env hs sha256 bs (sw_ws w3) = (a, ws)" by (cases "adopt_snapshot u env hs sha256 bs (sw_ws w3)")
      have res: "w' = w3\<lparr>sw_ws := ws\<rparr>" "\<And>e. r = Inl e \<Longrightarrow> \<exists>e. a = Inl e" "\<And>rp. r = Inr rp \<Longrightarrow> \<exists>x. a = Inr x"
        using run bs rows got Inr a by (auto split: sum.splits)
      have id: "sha256 bs = sid" "length bs < 2 ^ 64" using one(2) [OF bs(1)] by simp_all
      note ad = adopt_pulled [OF assms(1) ok3 id(2) a]
      have grows: "store_grows ?st (ws_store ws)" "os_temps (ws_store ws) = os_temps ?st"
        using ad g store_grows_trans by (auto simp: grown_def)
      show ?thesis using ad grows res b(2) counts g id(1) by (fastforce simp: grown_def snapshot_id_of_def)
    qed
  qed
qed


section \<open>A remote that holds the snapshot\<close>

text \<open>Every digest it holds is granted with its length and downloads without failing.\<close>

definition serves :: "sync_transport \<Rightarrow> (digest \<rightharpoonup> bytes) \<Rightarrow> bool" where
  "serves T content \<longleftrightarrow>
     (\<forall>h ds. set ds \<subseteq> dom content \<longrightarrow> (\<exists>grants. tr_download_grants T (h @ [Call_DownloadGrants ds]) = Inr grants \<and>
        set ds \<subseteq> dg_digest ` set grants \<and>
        (\<forall>g bs. g \<in> set grants \<and> content (dg_digest g) = Some bs \<longrightarrow> dg_length g = of_nat (length bs)))) \<and>
     (\<forall>h g bs. content (dg_digest g) = Some bs \<longrightarrow>
        (\<exists>pieces moved n. tr_download T (h @ [Call_Download g]) = (pieces, moved, Inr n) \<and> concat pieces = bs))"

lemma download_served:
  assumes "hasher_streams hs sha256" "store_ok sha256 (ws_store (sw_ws w))" "serves T content"
    and "content (dg_digest grant) = Some bs" "sha256 bs = dg_digest grant" "dg_length grant = of_nat (length bs)"
  shows "fst (download_and_admit T env hs attempts attempt grant w) = Inr ()"
proof -
  obtain wr st where wr: "store_writer env hs (ws_store (sw_ws w)) = (wr, st)" by (cases "store_writer env hs (ws_store (sw_ws w))")
  obtain pieces moved n where an: "tr_download T (sw_calls w @ [Call_Download grant]) = (pieces, moved, Inr n)" "concat pieces = bs"
    using assms(3,4) unfolding serves_def by blast
  obtain wr1 st1 where w1: "write_pieces hs pieces wr st = (wr1, st1)" by (cases "write_pieces hs pieces wr st")
  have "writing hs (ws_store (sw_ws w)) wr st []"
    using store_writer_writing [of "ws_store (sw_ws w)" hs env] wr assms(2) by (simp add: store_ok_def)
  from write_pieces_writing [OF this w1] have wg: "writing hs (ws_store (sw_ws w)) wr1 st1 bs" using an(2) by simp
  have "\<exists>a. fst (writer_finish_expecting hs (dg_digest grant) (dg_length grant) wr1 st1) = Inr a"
    using writer_finish_expecting_spec(1) [OF assms(1) wg, of "dg_digest grant" "dg_length grant"] assms(2,5,6)
      admit_sound(2) [of sha256 "os_objects (ws_store (sw_ws w))" bs] by (auto simp: store_ok_def)
  then show ?thesis
    by (auto simp: download_and_admit.simps [of T env hs attempts attempt] wr ask_def an(1) w1 Let_def split: prod.splits sum.splits)
qed

lemma pull_batch_served:
  assumes "hasher_streams hs sha256" "serves T content" "\<And>d bs. content d = Some bs \<Longrightarrow> sha256 bs = d"
    and "fst ` set batch \<subseteq> dom content \<inter> dg_digest ` set grants"
    and "\<And>g bs. g \<in> set grants \<Longrightarrow> content (dg_digest g) = Some bs \<Longrightarrow> dg_length g = of_nat (length bs)"
  shows "store_ok sha256 (ws_store (sw_ws w)) \<Longrightarrow> \<exists>rep w'. pull_batch T env hs grants batch report w = (Inr rep, w')"
  using assms(4)
proof (induction batch arbitrary: report w)
  case (Cons row batch)
  obtain d len where row: "row = (d, len)" by (cases row)
  have "d \<in> dg_digest ` set grants" "d \<in> dom content" using Cons.prems(2) row by auto
  then obtain grant where g: "find (\<lambda>grant. dg_digest grant = d) grants = Some grant"
    by (cases "find (\<lambda>grant. dg_digest grant = d) grants") (auto simp: find_None_iff)
  then have gd: "grant \<in> set grants" "dg_digest grant = d" by (auto simp: find_Some_iff)
  obtain bs where bs: "content d = Some bs" using \<open>d \<in> dom content\<close> by blast
  obtain one w1 where one: "download_and_admit T env hs DOWNLOAD_ATTEMPTS 0 grant w = (one, w1)"
    by (cases "download_and_admit T env hs DOWNLOAD_ATTEMPTS 0 grant w")
  have "one = Inr ()"
    using download_served [OF assms(1) Cons.prems(1) assms(2), of grant bs env DOWNLOAD_ATTEMPTS 0] one bs gd assms(3,5) by simp
  moreover have "store_ok sha256 (ws_store (sw_ws (sink_object d len w1)))"
    using download_and_admit_spec [OF assms(1) Cons.prems(1) one] by (auto simp: grown_def)
  ultimately show ?case using Cons.IH Cons.prems(2) by (simp add: row g one)
qed simp

lemma pull_batches_served:
  assumes "hasher_streams hs sha256" "serves T content" "\<And>d bs. content d = Some bs \<Longrightarrow> sha256 bs = d"
  shows "store_ok sha256 (ws_store (sw_ws w)) \<Longrightarrow> fst ` set (concat batches) \<subseteq> dom content \<Longrightarrow>
    \<exists>rep w'. pull_batches T env hs batches report w = (Inr rep, w')"
proof (induction batches arbitrary: report w)
  case (Cons batch batches)
  let ?h = "sw_calls w @ [Call_DownloadGrants (map fst batch)]"
  have "set (map fst batch) \<subseteq> dom content" using Cons.prems(2) by auto
  then obtain grants where g: "tr_download_grants T ?h = Inr grants" "set (map fst batch) \<subseteq> dg_digest ` set grants"
    "\<And>g bs. g \<in> set grants \<Longrightarrow> content (dg_digest g) = Some bs \<Longrightarrow> dg_length g = of_nat (length bs)"
    using assms(2) unfolding serves_def by blast
  have sub: "fst ` set batch \<subseteq> dom content \<inter> dg_digest ` set grants" using Cons.prems(2) g(2) by auto
  have ok: "store_ok sha256 (ws_store (sw_ws (w\<lparr>sw_calls := ?h\<rparr>)))" using Cons.prems(1) by simp
  obtain rep w1 where one: "pull_batch T env hs grants batch report (w\<lparr>sw_calls := ?h\<rparr>) = (Inr rep, w1)"
    using pull_batch_served [OF assms sub g(3) ok] by blast
  have "store_ok sha256 (ws_store (sw_ws w1))" using pull_batch_spec [OF assms(1) ok one] grown_ok by blast
  moreover have "fst ` set (concat batches) \<subseteq> dom content" using Cons.prems(2) by auto
  ultimately show ?case using Cons.IH by (simp add: ask_def g(1) one)
qed simp

lemma adopt_resident:
  assumes "hasher_streams hs sha256" "store_ok sha256 (ws_store ws)" "decode u bs = Inr s"
    and "set (snapshot_record_digests s) \<subseteq> store_digests (ws_store ws)"
  shows "\<exists>x ws'. adopt_snapshot u env hs sha256 bs ws = (Inr x, ws')"
proof -
  have "first_missing (\<lambda>d. store_exists d (ws_store ws)) (snapshot_record_digests s) = Inr ()"
    using assms(4) store_exists_resident [OF assms(2)] by (auto simp: first_missing_def find_None_iff split: option.splits)
  moreover obtain a st where "put_bytes env hs bs (ws_store ws) = (Inr a, st)"
    using put_bytes_ok(2) [OF assms(1,2), of env bs] by (cases "put_bytes env hs bs (ws_store ws)") auto
  ultimately show ?thesis using assms(3) by (simp add: adopt_snapshot_def adopt_prepare_def)
qed

text \<open>The manifest that a pull decodes: the rooted one, or the one the remote holds.\<close>

lemma local_manifest_served:
  assumes "ws_ok u sha256 (sw_ws w)" "serves T content" "content sid = Some (to_bytes s)" "sha256 (to_bytes s) = sid"
    and "\<And>d bs. open_object d (ws_store (sw_ws w)) = Inr bs \<Longrightarrow> length bs < 2 ^ 64" "decode u (to_bytes s) = Inr s"
  obtains m w' where "local_manifest u T sha256 sid w = (Inr (to_bytes m), w')" "sw_ws w' = sw_ws w" "decode u (to_bytes m) = Inr m"
    "m = s \<or> set (snapshot_record_digests m) \<subseteq> store_digests (ws_store (sw_ws w))"
proof (cases "sid \<in> fst ` set (md_snapshots (ws_db (sw_ws w)))")
  case True
  then have "snapshot_rooted_ok u sha256 (ws_store (sw_ws w)) sid" using assms(1) unfolding ws_ok_def by blast
  then obtain m where m: "read_manifest_object u sha256 (ws_store (sw_ws w)) sid = Inr m"
    "set (snapshot_record_digests m) \<subseteq> store_digests (ws_store (sw_ws w))"
    unfolding snapshot_rooted_ok_def manifest_objects_records by blast
  then obtain b where b: "open_object sid (ws_store (sw_ws w)) = Inr b" "decode u b = Inr m"
    by (auto simp: read_manifest_object_def result_simps split: if_splits sum.splits)
  have "b = to_bytes m" using b(2) decode_iff [OF assms(5) [OF b(1)]] by auto
  moreover have "load_snapshot u sha256 (sw_ws w) sid = Inr m"
    using True m(1) by (simp add: load_snapshot_def read_rooted_snapshot_def map_of_eq_None_iff)
  ultimately show thesis using that [of m w] m b by (simp add: local_manifest_def)
next
  case False
  have unknown: "load_snapshot u sha256 (sw_ws w) sid = Inl (WorkspaceError_UnknownSnapshot sid)"
    using False by (simp add: load_snapshot_def read_rooted_snapshot_def map_of_eq_None_iff)
  let ?h = "sw_calls w @ [Call_DownloadGrants [sid]]"
  have "set [sid] \<subseteq> dom content" using assms(3) by auto
  then obtain grants where g: "tr_download_grants T ?h = Inr grants" "set [sid] \<subseteq> dg_digest ` set grants"
    using assms(2) unfolding serves_def by blast
  then obtain grant where grant: "find (\<lambda>grant. dg_digest grant = sid) grants = Some grant"
    by (cases "find (\<lambda>grant. dg_digest grant = sid) grants") (auto simp: find_None_iff)
  then have "content (dg_digest grant) = Some (to_bytes s)" using assms(3) by (auto simp: find_Some_iff)
  then obtain pieces moved n where an: "tr_download T (?h @ [Call_Download grant]) = (pieces, moved, Inr n)" "concat pieces = to_bytes s"
    using assms(2) unfolding serves_def by blast
  let ?w = "sink_bytes moved (w\<lparr>sw_calls := ?h @ [Call_Download grant]\<rparr>)"
  have "local_manifest u T sha256 sid w = (Inr (to_bytes s), ?w)"
    using an assms(4) by (simp add: local_manifest_def unknown fetch_manifest_def manifest_object_digest_def ask_def g(1) grant Let_def)
  then show thesis using that [of s ?w] assms(6) by simp
qed

lemma pull_snapshot_served:
  assumes "hasher_streams hs sha256" "ws_ok u sha256 (sw_ws w)" "serves T content"
    and "\<And>d bs. content d = Some bs \<Longrightarrow> sha256 bs = d"
    and "content sid = Some (to_bytes s)" "decode u (to_bytes s) = Inr s" "set (snapshot_record_digests s) \<subseteq> dom content"
    and "\<And>d bs. open_object d (ws_store (sw_ws w)) = Inr bs \<Longrightarrow> length bs < 2 ^ 64"
  shows "\<exists>report w'. pull_snapshot u env hs sha256 T sid w = (Inr report, w')"
proof -
  obtain m w1 where m: "local_manifest u T sha256 sid w = (Inr (to_bytes m), w1)" "sw_ws w1 = sw_ws w" "decode u (to_bytes m) = Inr m"
    "m = s \<or> set (snapshot_record_digests m) \<subseteq> store_digests (ws_store (sw_ws w))"
    by (rule local_manifest_served [OF assms(2,3,5) assms(4) [OF assms(5)] assms(8,6)])
  obtain missing report w2 where rows: "missing_rows (data_closure m)
      \<lparr>pl_fetched_objects = 0, pl_fetched_bytes = 0, pl_skipped_local_resident = 0\<rparr> w1 = (missing, report, w2)"
    by (cases "missing_rows (data_closure m) \<lparr>pl_fetched_objects = 0, pl_fetched_bytes = 0, pl_skipped_local_resident = 0\<rparr> w1")
  note mr = missing_rows_filter [OF rows, unfolded m(2)]
  have st: "store_ok sha256 (ws_store (sw_ws w2))" using assms(2) mr by (simp add: ws_ok_def)
  have resident: "store_exists d (ws_store (sw_ws w2)) \<longleftrightarrow> d \<in> store_digests (ws_store (sw_ws w2))" for d
    by (rule store_exists_resident [OF st])
  have gone: "fst ` set missing = set (snapshot_record_digests m) - store_digests (ws_store (sw_ws w2))"
  proof -
    have "missing = filter (\<lambda>row. fst row \<notin> store_digests (ws_store (sw_ws w2))) (data_closure m)" using mr resident by simp
    then show ?thesis using data_closure_digests(1) [of m, symmetric] by auto
  qed
  have chunks: "concat (slice_chunks DOWNLOAD_GRANT_BATCH missing) = missing" by (simp add: concat_slice_chunks DOWNLOAD_GRANT_BATCH_def)
  have "fst ` set missing \<subseteq> dom content" using gone m(4) assms(7) mr by auto
  then obtain rep w3 where b: "pull_batches T env hs (slice_chunks DOWNLOAD_GRANT_BATCH missing) report w2 = (Inr rep, w3)"
    using pull_batches_served [OF assms(1,3,4) st] chunks by metis
  have g: "grown sha256 w2 w3" "fst ` set missing \<subseteq> store_digests (ws_store (sw_ws w3))"
    using pull_batches_spec [OF assms(1) st b] chunks by auto
  have "set (snapshot_record_digests m) \<subseteq> store_digests (ws_store (sw_ws w3))"
    using gone g(2) grown_digests [OF g(1)] by blast
  then obtain x ws where "adopt_snapshot u env hs sha256 (to_bytes m) (sw_ws w3) = (Inr x, ws)"
    using adopt_resident [OF assms(1) grown_ok [OF g(1)] m(3)] by blast
  then show ?thesis by (simp add: pull_snapshot_def m rows b)
qed

end
