(* ===== verification/Sync_Push.thy ===== *)
theory Sync_Push
  imports Sync_Pull
begin

text \<open>
  What a push sends, whatever the remote answers: the manifest of the snapshot, packs that decode to
  stored objects of its closure under a grant for exactly their checksum, and ranges of such objects. The
  checks of the remote's view are exact, and the packs are cut greedily within their bounds.
\<close>

section \<open>The remote's view of the closure\<close>

lemma dropWhile_split: "dropWhile P xs = y # ys \<Longrightarrow> \<exists>pre. xs = pre @ y # ys \<and> (\<forall>x \<in> set pre. P x)"
  by (metis set_takeWhileD takeWhile_dropWhile_id)

lemma verify_canonical_missing_subseq:
  "verify_canonical_missing closure missing = Inr () \<Longrightarrow> subseq missing closure"
proof (induction closure missing rule: verify_canonical_missing.induct)
  case (2 closure d len missing)
  then obtain c expected rest where d: "dropWhile (\<lambda>row. fst row \<noteq> d) closure = (c, expected) # rest" "len = expected"
    "verify_canonical_missing rest missing = Inr ()" by (auto split: list.splits if_splits)
  have "c = d" using d(1) by (metis (mono_tags) dropWhile_eq_Cons_conv fst_conv)
  have "subseq missing rest" using 2 d by auto
  then have "subseq ((d, len) # missing) ((c, expected) # rest)" using d(2) \<open>c = d\<close> by simp
  then show ?case using dropWhile_split [OF d(1)] subseq_drop_many by metis
qed simp

lemma verify_canonical_missing_complete:
  "subseq missing closure \<Longrightarrow> distinct (map fst closure) \<Longrightarrow> verify_canonical_missing closure missing = Inr ()"
proof (induction closure missing rule: verify_canonical_missing.induct)
  case (2 closure d len missing)
  from "2.prems"(1) obtain pre rest where cl: "closure = pre @ (d, len) # rest" "subseq missing rest"
    by (auto dest: list_emb_ConsD)
  have "\<forall>row \<in> set pre. fst row \<noteq> d" using "2.prems"(2) cl(1) by (force simp: image_iff)
  then have "dropWhile (\<lambda>row. fst row \<noteq> d) closure = (d, len) # rest" using cl(1) by (simp add: dropWhile_append)
  then show ?case using 2 cl by auto
qed simp

lemma verify_lanes_iff:
  assumes "distinct (map fst closure)"
  shows "verify_lanes closure missing blobs bound = Inr () \<longleftrightarrow> subseq missing closure \<and> subseq blobs closure \<and>
    (\<forall>row \<in> set missing. snd row \<le> bound) \<and> (\<forall>row \<in> set blobs. bound < snd row)"
proof -
  have "verify_canonical_missing closure xs = Inr () \<longleftrightarrow> subseq xs closure" for xs
    using verify_canonical_missing_subseq verify_canonical_missing_complete [OF _ assms] by blast
  moreover have "(case find P xs of Some (a, b) \<Rightarrow> Inl (f a b) | None \<Rightarrow> (r :: sync_error + unit)) = Inr () \<longleftrightarrow>
      (\<forall>x \<in> set xs. \<not> P x) \<and> r = Inr ()" for P :: "digest \<times> u64 \<Rightarrow> bool" and xs f r
  proof (cases "find P xs")
    case None
    then show ?thesis using find_None_iff [of P xs] by auto
  next
    case (Some row)
    then have "\<exists>x \<in> set xs. P x" by (auto simp: find_Some_iff)
    then show ?thesis using Some by (cases row) auto
  qed
  ultimately show ?thesis by (simp add: verify_lanes_def result_simps not_less not_le)
qed


section \<open>The packs of a round\<close>

definition group_bytes :: "(digest \<times> u64) list \<Rightarrow> nat" where
  "group_bytes rows = sum_list (map (unat \<circ> snd) rows)"

lemma concat_pack_groups: "concat (pack_groups bound opened used missing) = opened @ missing"
  by (induction bound opened used missing rule: pack_groups.induct) auto

lemma pack_groups_bounded:
  assumes "\<forall>row \<in> set missing. unat (snd row) \<le> unat bound" "unat bound \<le> 67108864"
    and "unat used = group_bytes opened" "group_bytes opened \<le> unat bound" "length opened \<le> MAX_PACK_OBJECTS"
    and "rows \<in> set (pack_groups bound opened used missing)"
  shows "rows \<noteq> [] \<and> group_bytes rows \<le> unat bound \<and> length rows \<le> MAX_PACK_OBJECTS"
  using assms
proof (induction bound opened used missing rule: pack_groups.induct)
  case (1 bound opened used)
  then show ?case by (auto split: if_splits)
next
  case (2 bound opened used d len missing)
  have sum: "unat (used + len) = unat used + unat len"
    using "2.prems"(1-4) by (simp add: unat_add_u64)
  show ?case
  proof (cases "opened \<noteq> [] \<and> (bound < used + len \<or> MAX_PACK_OBJECTS \<le> length opened)")
    case True
    show ?thesis
    proof (cases "rows = opened")
      case False
      then have "rows \<in> set (pack_groups bound [(d, len)] len missing)" using "2.prems"(6) True by simp
      then show ?thesis using "2.IH"(1) [OF True] "2.prems"(1,2) by (simp add: group_bytes_def MAX_PACK_OBJECTS_def)
    qed (use True "2.prems" in simp)
  next
    case False
    then have small: "opened = [] \<or> used + len \<le> bound \<and> length opened < MAX_PACK_OBJECTS" by auto
    have "rows \<in> set (pack_groups bound (opened @ [(d, len)]) (used + len) missing)" using "2.prems"(6) False by simp
    moreover have "group_bytes (opened @ [(d, len)]) \<le> unat bound" "length (opened @ [(d, len)]) \<le> MAX_PACK_OBJECTS"
      using small sum "2.prems"(1,3) by (auto simp: group_bytes_def u64_nat MAX_PACK_OBJECTS_def)
    ultimately show ?thesis using "2.IH"(2) [OF False] "2.prems"(1-3) sum by (simp add: group_bytes_def)
  qed
qed

text \<open>A pack is closed only when the next object does not fit.\<close>

lemma pack_groups_greedy:
  assumes "\<forall>row \<in> set missing. unat (snd row) \<le> unat bound" "unat bound \<le> 67108864"
    and "unat used = group_bytes opened" "group_bytes opened \<le> unat bound"
    and "pack_groups bound opened used missing = pre @ rows # next_rows # post"
  shows "unat bound < group_bytes rows + unat (snd (hd next_rows)) \<or> MAX_PACK_OBJECTS \<le> length rows"
  using assms
proof (induction bound opened used missing arbitrary: pre rule: pack_groups.induct)
  case (1 bound opened used)
  then show ?case by (cases pre) (auto split: if_splits)
next
  case (2 bound opened used d len missing)
  have sum: "unat (used + len) = unat used + unat len"
    using "2.prems"(1-4) by (simp add: unat_add_u64)
  have hd_group: "hd (hd (pack_groups b (x # xs) n ms)) = x" for b x xs n ms
    by (induction b "x # xs" n ms arbitrary: xs rule: pack_groups.induct) auto
  show ?case
  proof (cases "opened \<noteq> [] \<and> (bound < used + len \<or> MAX_PACK_OBJECTS \<le> length opened)")
    case True
    have one: "group_bytes [(d, len)] \<le> unat bound" "unat len = group_bytes [(d, len)]"
      using "2.prems"(1) by (simp_all add: group_bytes_def)
    show ?thesis
    proof (cases pre)
      case Nil
      then have "rows = opened" "next_rows = hd (pack_groups bound [(d, len)] len missing)" using "2.prems"(5) True by auto
      then show ?thesis using True sum "2.prems"(3) hd_group [of bound "(d, len)" "[]" len missing] by (auto simp: u64_nat)
    next
      case (Cons first pre')
      then have "pack_groups bound [(d, len)] len missing = pre' @ rows # next_rows # post" using "2.prems"(5) True by simp
      then show ?thesis using "2.IH"(1) [OF True] "2.prems"(1,2) one by simp
    qed
  next
    case False
    then have small: "opened = [] \<or> used + len \<le> bound" by auto
    have "group_bytes (opened @ [(d, len)]) \<le> unat bound"
      using small sum "2.prems"(1,3) by (auto simp: group_bytes_def u64_nat)
    moreover have "pack_groups bound (opened @ [(d, len)]) (used + len) missing = pre @ rows # next_rows # post"
      using "2.prems"(5) False by simp
    ultimately show ?thesis using "2.IH"(2) [OF False] "2.prems"(1-3) sum by (simp add: group_bytes_def)
  qed
qed


section \<open>What is sent\<close>

text \<open>An upload authorization was answered to an earlier claim of its checksum.\<close>

definition granted_before :: "sync_transport \<Rightarrow> pack_grant \<Rightarrow> sync_call list \<Rightarrow> bool" where
  "granted_before T grant h \<longleftrightarrow> (\<exists>pre session claim post g. h = pre @ Call_PackGrants session [claim] # post \<and>
     tr_pack_grants T (pre @ [Call_PackGrants session [claim]]) = Inr g \<and> grant \<in> set (gp_grants g) \<and>
     pc_sha256 claim = pg_sha256 grant)"

text \<open>A part of a multipart upload was granted for an object, at the offset its predecessors add up to.\<close>

definition blob_granted :: "sync_transport \<Rightarrow> blob_grant \<Rightarrow> sync_call list \<Rightarrow> bool" where
  "blob_granted T grant h \<longleftrightarrow> (\<exists>pre session ds post grants. h = pre @ Call_BlobGrants session ds # post \<and>
     tr_blob_grants T (pre @ [Call_BlobGrants session ds]) = Inr grants \<and> grant \<in> set grants)"

definition part_granted :: "sync_transport \<Rightarrow> digest \<Rightarrow> blob_part \<Rightarrow> u64 \<Rightarrow> sync_call list \<Rightarrow> bool" where
  "part_granted T d part start h \<longleftrightarrow> (\<exists>grant before rest. blob_granted T grant h \<and> bg_digest grant = d \<and>
     bg_parts grant = before @ part # rest \<and> start = sum_list (map bp_size before))"

definition stored_object :: "object_store \<Rightarrow> (digest \<times> u64) list \<Rightarrow> digest \<Rightarrow> bytes \<Rightarrow> bool" where
  "stored_object st closure d bs \<longleftrightarrow> (d, of_nat (length bs)) \<in> set closure \<and> open_object d st = Inr bs"

text \<open>The last call of a history is one that a push of the snapshot may make.\<close>

definition sent_ok :: "sync_transport \<Rightarrow> (bytes \<Rightarrow> digest) \<Rightarrow> object_store \<Rightarrow> snapshot \<Rightarrow> sync_call list \<Rightarrow> bool" where
  "sent_ok T sha256 st decoded h \<longleftrightarrow>
     (case last h of
        Call_Declare bs head \<Rightarrow> bs = to_bytes decoded
      | Call_PackGrants session claims \<Rightarrow> \<forall>claim \<in> set claims. set (pc_objects claim) \<subseteq> fst ` set (data_closure decoded)
      | Call_UploadPack grant bs \<Rightarrow>
          pg_sha256 grant = lowercase_hex (digest_bytes (sha256 bs)) \<and> granted_before T grant (butlast h) \<and>
          (\<exists>p. pack_decode sha256 bs = Inr p \<and>
            (\<forall>object \<in> set (pack_objects p). stored_object st (data_closure decoded) (pko_digest object) (pko_bytes object)))
      | Call_BlobGrants session ds \<Rightarrow> set ds \<subseteq> fst ` set (data_closure decoded)
      | Call_UploadPart part bs \<Rightarrow>
          (\<exists>d whole start. part_granted T d part start (butlast h) \<and> stored_object st (data_closure decoded) d whole \<and>
            unat start + unat (bp_size part) \<le> length whole \<and> bs = take (unat (bp_size part)) (drop (unat start) whole))
      | Call_ReportParts session d landed \<Rightarrow> d \<in> fst ` set (data_closure decoded)
      | Call_Complete session \<Rightarrow> True
      | _ \<Rightarrow> False)"

definition follows :: "(sync_call list \<Rightarrow> bool) \<Rightarrow> sync_world \<Rightarrow> sync_world \<Rightarrow> bool" where
  "follows P w w' \<longleftrightarrow> sw_ws w' = sw_ws w \<and> prefix (sw_calls w) (sw_calls w') \<and>
     (\<forall>i. length (sw_calls w) < i \<and> i \<le> length (sw_calls w') \<longrightarrow> P (take i (sw_calls w')))"

lemma follows_same: "sw_ws w' = sw_ws w \<Longrightarrow> sw_calls w' = sw_calls w \<Longrightarrow> follows P w w'"
  by (auto simp: follows_def)

lemma follows_refl [simp]: "follows P w w"
  by (rule follows_same) simp_all

lemma follows_trans:
  assumes "follows P w w1" "follows P w1 w2"
  shows "follows P w w2"
proof -
  have "P (take i (sw_calls w2))" if i: "length (sw_calls w) < i" "i \<le> length (sw_calls w2)" for i
  proof (cases "i \<le> length (sw_calls w1)")
    case True
    have "take i (sw_calls w2) = take i (sw_calls w1)" using assms(2) True by (auto simp: follows_def prefix_def)
    then show ?thesis using assms(1) True i by (simp add: follows_def)
  next
    case False
    then show ?thesis using assms(2) i by (simp add: follows_def)
  qed
  then show ?thesis using assms prefix_order.trans by (auto simp: follows_def)
qed

lemma follows_call:
  assumes "P (sw_calls w @ [call])"
  shows "follows P w (w\<lparr>sw_calls := sw_calls w @ [call]\<rparr>)"
proof -
  have "take i (sw_calls w @ [call]) = sw_calls w @ [call]" if "length (sw_calls w) < i" for i using that by simp
  then show ?thesis using assms by (auto simp: follows_def)
qed

lemma follows_then: "follows P w w1 \<Longrightarrow> sw_ws w2 = sw_ws w1 \<Longrightarrow> sw_calls w2 = sw_calls w1 \<Longrightarrow> follows P w w2"
  using follows_trans follows_same by metis

lemma follows_prefix: "follows P w w' \<Longrightarrow> prefix (sw_calls w) (sw_calls w')"
  by (simp add: follows_def)

lemma follows_ws: "follows P w w' \<Longrightarrow> sw_ws w' = sw_ws w"
  by (simp add: follows_def)

lemma granted_before_mono: "granted_before T grant h \<Longrightarrow> prefix h h' \<Longrightarrow> granted_before T grant h'"
  unfolding granted_before_def prefix_def by (metis append.assoc append_Cons)

lemma blob_granted_mono: "blob_granted T grant h \<Longrightarrow> prefix h h' \<Longrightarrow> blob_granted T grant h'"
  unfolding blob_granted_def prefix_def by (metis append.assoc append_Cons)

lemma upload_pack_loop_follows:
  "(\<And>h. prefix (sw_calls w) h \<Longrightarrow> P (h @ [Call_UploadPack grant encoded])) \<Longrightarrow>
   upload_pack_loop T budget attempt grant encoded w = (r, w') \<Longrightarrow> follows P w w'"
proof (induction T budget attempt grant encoded w arbitrary: r w' rule: upload_pack_loop.induct)
  case (1 T budget attempt grant encoded w)
  let ?call = "Call_UploadPack grant encoded"
  obtain moved answer where an: "tr_upload_pack T (sw_calls w @ [?call]) = (moved, answer)" by (cases "tr_upload_pack T (sw_calls w @ [?call])")
  let ?w = "sink_bytes moved (w\<lparr>sw_calls := sw_calls w @ [?call]\<rparr>)"
  have one: "follows P w ?w" by (rule follows_then [OF follows_call [of P w ?call]]) (use "1.prems"(1) [of "sw_calls w"] in simp_all)
  note eqn = "1.prems"(2) [unfolded upload_pack_loop.simps [of T budget attempt grant encoded w] ask_def an prod.case Let_def]
  show ?case
  proof (cases "\<exists>e. answer = Inl (TransportError_Io e) \<and> \<not> unat budget \<le> attempt + 1")
    case False
    then have "w' = ?w" using eqn by (auto split: sum.splits transport_error.splits if_splits)
    then show ?thesis using one by simp
  next
    case True
    then obtain e where e: "answer = Inl (TransportError_Io e)" "\<not> unat budget \<le> attempt + 1" by blast
    have next_run: "upload_pack_loop T budget (attempt + 1) grant encoded (back_off (attempt + 1) ?w) = (r, w')" using eqn e by simp
    have "follows P (back_off (attempt + 1) ?w) w'"
    proof (rule "1.IH" [OF _ _ _ _ _ _ _ next_run])
      fix h assume "prefix (sw_calls (back_off (attempt + 1) ?w)) h"
      then have "prefix (sw_calls w) h" by (auto simp: prefix_def)
      then show "P (h @ [?call])" by (rule "1.prems"(1))
    qed (use an e in \<open>simp_all add: ask_def\<close>)
    moreover have "follows P w (back_off (attempt + 1) ?w)" by (rule follows_then [OF one]) simp_all
    ultimately show ?thesis by (metis follows_trans)
  qed
qed


section \<open>The pack lane\<close>

lemma load_pack_members_objects:
  "load_pack_members st rows = Inr loaded \<Longrightarrow>
   map pko_digest loaded = map fst rows \<and>
   (\<forall>object \<in> set loaded. open_object (pko_digest object) st = Inr (pko_bytes object) \<and>
     (pko_digest object, of_nat (length (pko_bytes object))) \<in> set rows)"
  by (induction st rows arbitrary: loaded rule: load_pack_members.induct) (auto simp: result_simps split: if_splits)

lemma length_emit_pack: "length (emit_pack objs) = 12 + 48 * length objs + payload_size objs"
proof -
  have "length (concat (map emit_row rows)) = 48 * length rows" for rows
    by (induction rows) (simp_all add: length_emit_row)
  then show ?thesis
    by (simp add: emit_pack_def TFP1_MAGIC_def length_index_rows length_concat comp_def)
qed

lemma encoded_pack_decodes:
  assumes "slices objs" "pack_encode sha256 objs = Inr bs"
  obtains p where "pack_decode sha256 bs = Inr p" "set (pack_objects p) = set objs"
proof -
  let ?sorted = "sort_key object_key objs"
  have e: "objects_ok sha256 ?sorted" "bs = emit_pack ?sorted" using pack_encode_iff [OF assms(1)] assms(2) by blast+
  then have "length bs < 2 ^ 64" by (simp add: length_emit_pack objects_ok_def)
  then have "pack_decode sha256 bs = Inr (pack_of ?sorted)" using pack_decode_iff e by blast
  moreover have "set (pack_objects (pack_of ?sorted)) = set objs" using pack_objects_pack_of e(1) by (simp add: objects_ok_def)
  ultimately show thesis by (rule that)
qed

lemma encode_group_sent:
  assumes "encode_group sha256 st rows = Inr bs" "set rows \<subseteq> set closure" "\<And>d b. open_object d st = Inr b \<Longrightarrow> length b < 2 ^ 64"
  shows "\<exists>p. pack_decode sha256 bs = Inr p \<and> (\<forall>object \<in> set (pack_objects p). stored_object st closure (pko_digest object) (pko_bytes object))"
proof -
  obtain loaded where l: "load_pack_members st rows = Inr loaded" "pack_encode sha256 loaded = Inr bs"
    using assms(1) by (auto simp: encode_group_def result_simps)
  note objs = load_pack_members_objects [OF l(1)]
  have "slices loaded" using objs assms(3) by (auto simp: slices_def list_all_iff)
  from encoded_pack_decodes [OF this l(2)] obtain p where "pack_decode sha256 bs = Inr p" "set (pack_objects p) = set loaded" by blast
  then show ?thesis using objs assms(2) by (auto simp: stored_object_def)
qed

lemma fold_sink_objects [simp]:
  "sw_ws (fold (\<lambda>(d, len). sink_object d len) rows w) = sw_ws w"
  "sw_calls (fold (\<lambda>(d, len). sink_object d len) rows w) = sw_calls w"
  by (induction rows arbitrary: w) auto

lemma push_group_follows:
  assumes "\<And>d b. open_object d (ws_store (sw_ws w)) = Inr b \<Longrightarrow> length b < 2 ^ 64" "set rows \<subseteq> set (data_closure decoded)"
    and "push_group T sha256 options session rows w = (r, w')"
  shows "follows (sent_ok T sha256 (ws_store (sw_ws w)) decoded) w w'"
proof (cases "encode_group sha256 (ws_store (sw_ws w)) rows")
  case (Inl e)
  then show ?thesis using assms(3) by (simp add: push_group_def)
next
  case (Inr encoded)
  let ?P = "sent_ok T sha256 (ws_store (sw_ws w)) decoded"
  let ?claim = "claim_of sha256 rows encoded" let ?call = "Call_PackGrants session [?claim]"
  let ?w = "w\<lparr>sw_calls := sw_calls w @ [?call]\<rparr>"
  have one: "follows ?P w ?w" by (rule follows_call) (use assms(2) in \<open>auto simp: sent_ok_def claim_of_def\<close>)
  note run = assms(3) [unfolded push_group_def Inr op_then_simps Let_def ask_def]
  show ?thesis
  proof (cases "\<exists>g grant. tr_pack_grants T (sw_calls w @ [?call]) = Inr g \<and>
      find (\<lambda>grant. pg_sha256 grant = pc_sha256 ?claim) (gp_grants g) = Some grant")
    case False
    then have "w' = ?w" using run by (auto split: sum.splits option.splits transport_error.splits if_splits)
    then show ?thesis using one by simp
  next
    case True
    then obtain g grant where g: "tr_pack_grants T (sw_calls w @ [?call]) = Inr g"
      "find (\<lambda>grant. pg_sha256 grant = pc_sha256 ?claim) (gp_grants g) = Some grant" by blast
    obtain landed w1 where up: "upload_pack_loop T (po_max_upload_attempts options) 0 grant encoded ?w = (landed, w1)"
      by (cases "upload_pack_loop T (po_max_upload_attempts options) 0 grant encoded ?w")
    have grant: "grant \<in> set (gp_grants g)" "pg_sha256 grant = pc_sha256 ?claim" using g(2) by (auto simp: find_Some_iff)
    then have before: "granted_before T grant (sw_calls w @ [?call])" using g(1) unfolding granted_before_def by fastforce
    have "?P (h @ [Call_UploadPack grant encoded])" if "prefix (sw_calls ?w) h" for h
      using granted_before_mono [OF before, of h] that encode_group_sent [OF Inr assms(2,1)] grant(2)
      by (simp add: sent_ok_def claim_of_def)
    from upload_pack_loop_follows [where P = ?P, OF this up] have "follows ?P w w1" by (rule follows_trans [OF one])
    moreover have "sw_ws w' = sw_ws w1" "sw_calls w' = sw_calls w1" using run g up by (cases landed; auto split: if_splits)+
    ultimately show ?thesis by (metis follows_then)
  qed
qed

lemma push_groups_follows:
  "(\<And>d b. open_object d (ws_store (sw_ws w)) = Inr b \<Longrightarrow> length b < 2 ^ 64) \<Longrightarrow> set (concat groups) \<subseteq> set (data_closure decoded) \<Longrightarrow>
   push_groups T sha256 options session groups w = (r, w') \<Longrightarrow> follows (sent_ok T sha256 (ws_store (sw_ws w)) decoded) w w'"
proof (induction groups arbitrary: w)
  case (Cons rows groups)
  obtain going w1 where one: "push_group T sha256 options session rows w = (going, w1)" by (cases "push_group T sha256 options session rows w")
  have f: "follows (sent_ok T sha256 (ws_store (sw_ws w)) decoded) w w1"
    by (rule push_group_follows [OF Cons.prems(1) _ one]) (use Cons.prems(2) in auto)
  show ?case
  proof (cases "going = Inr True")
    case True
    then have "push_groups T sha256 options session groups w1 = (r, w')" using Cons.prems(3) one by simp
    from Cons.IH [OF _ _ this] have "follows (sent_ok T sha256 (ws_store (sw_ws w1)) decoded) w1 w'"
      using Cons.prems(1,2) follows_ws [OF f] by simp
    then show ?thesis using follows_trans [OF f] follows_ws [OF f] by simp
  next
    case False
    then have "w' = w1" using Cons.prems(3) one by (cases going) (auto split: if_splits)
    then show ?thesis using f by simp
  qed
qed simp


section \<open>The blob lane\<close>

lemma report_landed_follows:
  "(\<And>h. landed \<noteq> [] \<Longrightarrow> P (h @ [Call_ReportParts session d landed])) \<Longrightarrow> report_landed T session d landed w = (r, w') \<Longrightarrow> follows P w w'"
  using follows_call [of P w "Call_ReportParts session d landed"]
  by (auto simp: report_landed_def ask_def split: if_splits sum.splits)

lemma upload_part_loop_follows:
  "(\<And>h. prefix (sw_calls w) h \<Longrightarrow> P (h @ [Call_UploadPart part buffer])) \<Longrightarrow>
   (\<And>h. landed \<noteq> [] \<Longrightarrow> P (h @ [Call_ReportParts session d landed])) \<Longrightarrow>
   upload_part_loop T budget attempt session d landed part buffer w = (r, w') \<Longrightarrow> follows P w w'"
proof (induction T budget attempt session d landed part buffer w arbitrary: r w' rule: upload_part_loop.induct)
  case (1 T budget attempt session d landed part buffer w)
  let ?call = "Call_UploadPart part buffer"
  obtain moved answer where an: "tr_upload_part T (sw_calls w @ [?call]) = (moved, answer)" by (cases "tr_upload_part T (sw_calls w @ [?call])")
  let ?w = "sink_bytes moved (w\<lparr>sw_calls := sw_calls w @ [?call]\<rparr>)"
  have one: "follows P w ?w" by (rule follows_then [OF follows_call [of P w ?call]]) (use "1.prems"(1) [of "sw_calls w"] in simp_all)
  note eqn = "1.prems"(3) [unfolded upload_part_loop.simps [of T budget attempt session d landed part buffer w] ask_def an prod.case Let_def]
  consider (retry) e where "answer = Inl (TransportError_Io e)" "\<not> unat budget \<le> attempt + 1"
    | (expired) e where "answer = Inl (TransportError_Expired e)"
    | (ends) "w' = ?w" using eqn by (auto split: sum.splits transport_error.splits if_splits)
  then show ?case
  proof cases
    case retry
    have next_run: "upload_part_loop T budget (attempt + 1) session d landed part buffer (back_off (attempt + 1) ?w) = (r, w')"
      using eqn retry by simp
    have "follows P (back_off (attempt + 1) ?w) w'"
    proof (rule "1.IH" [OF _ _ _ _ _ _ _ _ next_run])
      fix h assume "prefix (sw_calls (back_off (attempt + 1) ?w)) h"
      then have "prefix (sw_calls w) h" by (auto simp: prefix_def)
      then show "P (h @ [?call])" by (rule "1.prems"(1))
    qed (use an retry "1.prems"(2) in \<open>simp_all add: ask_def\<close>)
    moreover have "follows P w (back_off (attempt + 1) ?w)" by (rule follows_then [OF one]) simp_all
    ultimately show ?thesis by (metis follows_trans)
  next
    case expired
    obtain q w2 where rep: "report_landed T session d landed ?w = (q, w2)" by (cases "report_landed T session d landed ?w")
    have "w' = w2" using eqn expired rep by (cases q) auto
    then show ?thesis using report_landed_follows [where P = P, OF "1.prems"(2) rep] follows_trans [OF one] by metis
  qed (use one in simp)
qed

lemma object_source_read:
  assumes "open_object d st = Inr whole" "length whole < 2 ^ 64"
    and "src_read (records_source st [FileRecord_Data d (of_nat (length whole))]) start (unat (n :: u64)) = Inr buffer"
  shows "unat start + unat n \<le> length whole \<and> buffer = take (unat n) (drop (unat start) whole)"
proof -
  let ?records = "[FileRecord_Data d (of_nat (length whole))]"
  have len: "unat (of_nat (length whole) :: u64) = length whole" using assms(2) by (simp add: unat_of_nat_u64)
  have "records_readable st ?records" using assms(1,2) len by (simp add: records_readable_def record_resident_def record_size_def)
  moreover have "records_content st ?records = whole" using assms(1) len by (simp add: records_content_def record_content_def)
  ultimately show ?thesis
    using assms(3) read_run_content [of ?records st "\<lambda>d within at n. read_object st d within n" "replicate (unat n) 0" start]
      read_object_exact unat_u64_lt [of n] by (simp add: records_source_def split: if_splits)
qed

text \<open>The loop over the parts: \<open>before\<close> are the parts already passed.\<close>

lemma part_loop_follows:
  assumes "part_loop T options session grant source offset landed parts w = (r, w')"
    and "bg_parts grant = before @ parts" "offset = sum_list (map bp_size before)"
    and "\<And>before part rest start buffer h. bg_parts grant = before @ part # rest \<Longrightarrow> start = sum_list (map bp_size before) \<Longrightarrow>
      src_read source start (unat (bp_size part)) = Inr buffer \<Longrightarrow> prefix (sw_calls w) h \<Longrightarrow> P (h @ [Call_UploadPart part buffer])"
    and "\<And>h landed. P (h @ [Call_ReportParts session (bg_digest grant) landed])"
  shows "follows P w w'"
  using assms
proof (induction parts arbitrary: offset landed before w r w')
  case Nil
  then show ?case using report_landed_follows [of landed P session "bg_digest grant" T w r w'] by simp
next
  case (Cons part parts)
  have split: "bg_parts grant = (before @ [part]) @ parts" "offset + bp_size part = sum_list (map bp_size (before @ [part]))"
    using Cons.prems(2,3) by simp_all
  show ?case
  proof (cases "bp_number part \<in> set (bg_uploaded grant)")
    case True
    then have "part_loop T options session grant source (offset + bp_size part) landed parts w = (r, w')" using Cons.prems(1) by simp
    then show ?thesis by (rule Cons.IH [OF _ split Cons.prems(4,5)])
  next
    case False
    show ?thesis
    proof (cases "src_read source offset (unat (bp_size part))")
      case (Inl e)
      then show ?thesis using Cons.prems(1) False by simp
    next
      case (Inr buffer)
      obtain answer w1 where up: "upload_part_loop T (po_max_upload_attempts options) 0 session (bg_digest grant) landed part buffer w = (answer, w1)"
        by (cases "upload_part_loop T (po_max_upload_attempts options) 0 session (bg_digest grant) landed part buffer w")
      have one: "follows P w w1"
        by (rule upload_part_loop_follows [OF _ _ up]) (use Cons.prems(2,3,5) in \<open>auto intro: Cons.prems(4) [OF _ _ Inr]\<close>)
      show ?thesis
      proof (cases answer)
        case (Inl e)
        then show ?thesis using Cons.prems(1) False Inr up one by simp
      next
        case etag: (Inr etag)
        let ?w = "update_report (\<lambda>r. r\<lparr>pu_blob_parts := pu_blob_parts r + 1\<rparr>) w1"
        have go: "part_loop T options session grant source (offset + bp_size part)
            (landed @ [\<lparr>pr_number = bp_number part, pr_etag = etag\<rparr>]) parts ?w = (r, w')"
          using Cons.prems(1) False Inr up etag by simp
        have two: "follows P w ?w" by (rule follows_then [OF one]) simp_all
        have "follows P ?w w'"
        proof (rule Cons.IH [OF go split _ Cons.prems(5)])
          fix before part rest start buffer h
          assume a: "bg_parts grant = before @ part # rest" "start = sum_list (map bp_size before)"
            "src_read source start (unat (bp_size part)) = Inr buffer" "prefix (sw_calls ?w) h"
          show "P (h @ [Call_UploadPart part buffer])"
            by (rule Cons.prems(4) [OF a(1-3)]) (use follows_prefix [OF two] a(4) prefix_order.trans in blast)
        qed
        then show ?thesis by (rule follows_trans [OF two])
      qed
    qed
  qed
qed

lemma push_one_blob_follows:
  assumes lens: "\<And>d b. open_object d (ws_store (sw_ws w)) = Inr b \<Longrightarrow> length b < 2 ^ 64"
    and "(bg_digest grant, len) \<in> set (data_closure decoded)" "blob_granted T grant (sw_calls w)"
    and "push_one_blob T options session grant len w = (r, w')"
  shows "follows (sent_ok T sha256 (ws_store (sw_ws w)) decoded) w w'"
proof (cases "\<exists>whole. open_object (bg_digest grant) (ws_store (sw_ws w)) = Inr whole \<and> of_nat (length whole) = len \<and>
    bg_length grant = len \<and> sum_list (map bp_size (bg_parts grant)) = len")
  case False
  then have "w' = w" using assms(4)
    by (cases "open_object (bg_digest grant) (ws_store (sw_ws w))") (auto simp: push_one_blob_def Let_def split: if_splits)
  then show ?thesis by simp
next
  case True
  let ?st = "ws_store (sw_ws w)"
  obtain whole where o: "open_object (bg_digest grant) ?st = Inr whole" "of_nat (length whole) = len"
    "bg_length grant = len" "sum_list (map bp_size (bg_parts grant)) = len" using True by blast
  have run: "part_loop T options session grant (records_source ?st [FileRecord_Data (bg_digest grant) len]) 0 [] (bg_parts grant) w = (r, w')"
    using assms(4) o by (simp add: push_one_blob_def)
  have stored: "stored_object ?st (data_closure decoded) (bg_digest grant) whole" using o assms(2) by (simp add: stored_object_def)
  show ?thesis
  proof (rule part_loop_follows [OF run, of "[]"])
    fix before part rest start buffer h
    assume a: "bg_parts grant = before @ part # rest" "start = sum_list (map bp_size before)"
      "src_read (records_source ?st [FileRecord_Data (bg_digest grant) len]) start (unat (bp_size part)) = Inr buffer" "prefix (sw_calls w) h"
    have "part_granted T (bg_digest grant) part start h"
      using blob_granted_mono [OF assms(3) a(4)] a(1,2) unfolding part_granted_def by blast
    moreover note object_source_read [OF o(1) lens [OF o(1)], of start "bp_size part" buffer, unfolded o(2), OF a(3)]
    ultimately show "sent_ok T sha256 ?st decoded (h @ [Call_UploadPart part buffer])"
      using stored by (auto simp: sent_ok_def)
  next
    fix h landed
    show "sent_ok T sha256 ?st decoded (h @ [Call_ReportParts session (bg_digest grant) landed])"
      using assms(2) by (force simp: sent_ok_def image_iff)
  qed simp_all
qed

lemma push_batch_follows:
  assumes "\<And>d b. open_object d (ws_store (sw_ws w)) = Inr b \<Longrightarrow> length b < 2 ^ 64" "set batch \<subseteq> set (data_closure decoded)"
    and "\<And>grant. grant \<in> set grants \<Longrightarrow> blob_granted T grant (sw_calls w)"
    and "push_batch T options session grants batch w = (r, w')"
  shows "follows (sent_ok T sha256 (ws_store (sw_ws w)) decoded) w w' \<and> (\<forall>deferred. r = Inr deferred \<longrightarrow> set deferred \<subseteq> set batch)"
  using assms
proof (induction batch arbitrary: w r w')
  case (Cons row batch)
  obtain d len where row: "row = (d, len)" by (cases row)
  show ?case
  proof (cases "find (\<lambda>grant. bg_digest grant = d) grants")
    case None
    then show ?thesis using Cons.prems(4) row by auto
  next
    case (Some grant)
    have g: "grant \<in> set grants" "bg_digest grant = d" using Some by (auto simp: find_Some_iff)
    obtain answer w1 where one: "push_one_blob T options session grant len w = (answer, w1)" by (cases "push_one_blob T options session grant len w")
    have f: "follows (sent_ok T sha256 (ws_store (sw_ws w)) decoded) w w1"
      by (rule push_one_blob_follows [OF Cons.prems(1) _ _ one]) (use Cons.prems(2,3) g row in auto)
    define w2 where "w2 = (if isl answer then w1 else sink_object d len
      (update_report (\<lambda>r. r\<lparr>pu_blobs := pu_blobs r + 1, pu_uploaded_objects := pu_uploaded_objects r + 1,
         pu_uploaded_bytes := pu_uploaded_bytes r + len\<rparr>) w1))"
    have f2: "follows (sent_ok T sha256 (ws_store (sw_ws w)) decoded) w w2"
      by (rule follows_then [OF f]) (simp_all add: w2_def)
    show ?thesis
    proof (cases "\<exists>e. answer = Inl (BlobOutcome_Failed e)")
      case True
      then show ?thesis using Cons.prems(4) row Some one f by auto
    next
      case False
      obtain q w3 where rest: "push_batch T options session grants batch w2 = (q, w3)" by (cases "push_batch T options session grants batch w2")
      have "w' = w3 \<and> (\<forall>deferred. r = Inr deferred \<longrightarrow> (\<exists>more. q = Inr more \<and> set deferred \<subseteq> insert (d, len) (set more)))"
        using Cons.prems(4) row Some one rest False w2_def
        by (cases answer; cases q) (auto simp: w2_def split: blob_outcome.splits)
      moreover have "follows (sent_ok T sha256 (ws_store (sw_ws w2)) decoded) w2 w3 \<and> (\<forall>deferred. q = Inr deferred \<longrightarrow> set deferred \<subseteq> set batch)"
        by (rule Cons.IH [OF _ _ _ rest])
          (use Cons.prems(1,2) follows_ws [OF f2] blob_granted_mono [OF Cons.prems(3) follows_prefix [OF f2]] in auto)
      ultimately have tail: "w' = w3" "follows (sent_ok T sha256 (ws_store (sw_ws w)) decoded) w2 w3"
        "\<And>deferred. r = Inr deferred \<Longrightarrow> set deferred \<subseteq> insert row (set batch)" using follows_ws [OF f2] row by (simp, simp, blast)
      then show ?thesis using follows_trans [OF f2] by simp
    qed
  qed
qed auto

lemma push_batches_follows:
  assumes "\<And>d b. open_object d (ws_store (sw_ws w)) = Inr b \<Longrightarrow> length b < 2 ^ 64" "set (concat batches) \<subseteq> set (data_closure decoded)"
    and "push_batches T options session batches w = (r, w')"
  shows "follows (sent_ok T sha256 (ws_store (sw_ws w)) decoded) w w' \<and> (\<forall>deferred. r = Inr deferred \<longrightarrow> set deferred \<subseteq> set (concat batches))"
  using assms
proof (induction batches arbitrary: w r w')
  case (Cons batch batches)
  let ?P = "sent_ok T sha256 (ws_store (sw_ws w)) decoded" and ?call = "Call_BlobGrants session (map fst batch)"
  let ?w = "w\<lparr>sw_calls := sw_calls w @ [?call]\<rparr>"
  have f: "follows ?P w ?w" by (rule follows_call) (use Cons.prems(2) in \<open>auto simp: sent_ok_def\<close>)
  define here where "here = (case tr_blob_grants T (sw_calls w @ [?call]) of
      Inl (TransportError_Expired e) \<Rightarrow> (Inr batch, ?w) | Inl e \<Rightarrow> (Inl (SyncError_Transport e), ?w)
    | Inr grants \<Rightarrow> push_batch T options session grants batch ?w)"
  obtain q w1 where q: "here = (q, w1)" by (cases here)
  have run: "op_then here (\<lambda>here w. op_then (push_batches T options session batches w) (\<lambda>deferred w. (Inr (here @ deferred), w))) = (r, w')"
    using Cons.prems(3) by (auto simp: here_def ask_def split: sum.splits transport_error.splits)
  have f1: "follows ?P w w1 \<and> (\<forall>deferred. q = Inr deferred \<longrightarrow> set deferred \<subseteq> set batch)"
  proof (cases "tr_blob_grants T (sw_calls w @ [?call])")
    case (Inl e)
    then show ?thesis using q f by (cases e) (auto simp: here_def)
  next
    case (Inr grants)
    then have pb: "push_batch T options session grants batch ?w = (q, w1)" using q by (simp add: here_def)
    have "blob_granted T grant (sw_calls ?w)" if "grant \<in> set grants" for grant
      using that Inr unfolding blob_granted_def by fastforce
    then show ?thesis using push_batch_follows [of ?w batch decoded grants T options session q w1 sha256] pb Cons.prems(1,2) follows_trans [OF f]
      by simp
  qed
  show ?case
  proof (cases q)
    case (Inl e)
    then show ?thesis using run q f1 by auto
  next
    case (Inr deferred)
    obtain q2 w2 where rest: "push_batches T options session batches w1 = (q2, w2)" by (cases "push_batches T options session batches w1")
    have "follows (sent_ok T sha256 (ws_store (sw_ws w1)) decoded) w1 w2 \<and> (\<forall>deferred. q2 = Inr deferred \<longrightarrow> set deferred \<subseteq> set (concat batches))"
      by (rule Cons.IH [OF _ _ rest]) (use Cons.prems(1,2) follows_ws f1 in auto)
    moreover have "w' = w2 \<and> (\<forall>ds. r = Inr ds \<longrightarrow> (\<exists>more. q2 = Inr more \<and> ds = deferred @ more))"
      using run q Inr rest by (cases q2) auto
    ultimately have tail: "w' = w2" "follows ?P w1 w2" "\<And>ds. r = Inr ds \<Longrightarrow> \<exists>more. ds = deferred @ more \<and> set more \<subseteq> set (concat batches)"
      using follows_ws [OF f1 [THEN conjunct1]] by (simp, simp, blast)
    have "set ds \<subseteq> set (concat (batch # batches))" if "r = Inr ds" for ds
      using tail(3) [OF that] f1 Inr by (simp only: concat.simps set_append) (elim exE, simp, blast)
    then show ?thesis using tail f1 follows_trans by blast
  qed
qed auto

lemma push_blob_lane_follows:
  assumes "push_blob_lane T options session pending stalled w = Some (r, w')"
    and "\<And>d b. open_object d (ws_store (sw_ws w)) = Inr b \<Longrightarrow> length b < 2 ^ 64" "set pending \<subseteq> set (data_closure decoded)"
  shows "follows (sent_ok T sha256 (ws_store (sw_ws w)) decoded) w w'"
proof -
  have "(\<forall>d b. open_object d (ws_store (sw_ws w)) = Inr b \<longrightarrow> length b < 2 ^ 64) \<longrightarrow> set pending \<subseteq> set (data_closure decoded) \<longrightarrow>
    follows (sent_ok T sha256 (ws_store (sw_ws w)) decoded) w (snd (r, w'))" (is "?Q T options session pending stalled w (r, w')")
    using assms(1)
  proof (induction rule: push_blob_lane.raw_induct [rotated, consumes 1])
    case (1 lane T options session pending stalled w result)
    obtain r' w'' where res: "result = (r', w'')" by (cases result)
    show ?case
    proof (intro impI)
      assume lens: "\<forall>d b. open_object d (ws_store (sw_ws w)) = Inr b \<longrightarrow> length b < 2 ^ 64" and sub: "set pending \<subseteq> set (data_closure decoded)"
      obtain q w1 where q: "push_batches T options session (slice_chunks BLOB_GRANT_BATCH pending) w = (q, w1)"
        by (cases "push_batches T options session (slice_chunks BLOB_GRANT_BATCH pending) w")
      have chunks: "concat (slice_chunks BLOB_GRANT_BATCH pending) = pending" by (simp add: concat_slice_chunks BLOB_GRANT_BATCH_def)
      have f: "follows (sent_ok T sha256 (ws_store (sw_ws w)) decoded) w w1 \<and> (\<forall>deferred. q = Inr deferred \<longrightarrow> set deferred \<subseteq> set pending)"
        using push_batches_follows [OF _ _ q, of decoded sha256] lens sub chunks by simp
      let ?w = "update_report (\<lambda>r. r\<lparr>pu_replans := pu_replans r + 1\<rparr>) w1"
      have f2: "follows (sent_ok T sha256 (ws_store (sw_ws w)) decoded) w ?w" by (rule follows_then [OF f [THEN conjunct1]]) simp_all
      consider "snd result = w" | "snd result = w1" | "snd result = ?w"
        | deferred n where "q = Inr deferred" "lane T options session deferred n ?w = Some result"
        using 1(2) q by (auto simp: Let_def split: if_splits sum.splits)
      then show "follows (sent_ok T sha256 (ws_store (sw_ws w)) decoded) w (snd result)"
      proof cases
        case (4 deferred n)
        from 1(1) [OF 4(2)] have "follows (sent_ok T sha256 (ws_store (sw_ws w)) decoded) ?w (snd result)"
          using lens sub f 4(1) follows_ws [OF f2] by auto
        then show ?thesis by (rule follows_trans [OF f2])
      qed (use f f2 in simp_all)
    qed
  qed
  then show ?thesis using assms(2,3) by simp
qed


section \<open>The rounds and the completion\<close>

text \<open>The last call of a history told the client that no object is missing from the pack lane.\<close>

definition settled :: "sync_transport \<Rightarrow> str \<Rightarrow> sync_call list \<Rightarrow> bool" where
  "settled T session h \<longleftrightarrow>
     (\<exists>bs head plan. last h = Call_Declare bs head \<and> tr_declare T h = Inr plan \<and> spl_session plan = session \<and>
        spl_missing plan = [] \<and> spl_missing_blobs plan = []) \<or>
     (\<exists>answer. last h = Call_PackGrants session [] \<and> tr_pack_grants T h = Inr answer \<and> gp_missing answer = [])"

lemma probe_follows: "follows (sent_ok T sha256 st decoded) w (w\<lparr>sw_calls := sw_calls w @ [Call_PackGrants session []]\<rparr>)"
  by (rule follows_call) (simp add: sent_ok_def)

lemma subseq_rows: "subseq rows closure \<Longrightarrow> set rows \<subseteq> set closure"
  by (auto dest: list_emb_set)

lemma push_rounds_follows:
  assumes "push_rounds T sha256 options session (data_closure decoded) bound missing stalled w = Some (r, w')"
    and "\<And>d b. open_object d (ws_store (sw_ws w)) = Inr b \<Longrightarrow> length b < 2 ^ 64" "set missing \<subseteq> set (data_closure decoded)"
    and "missing = [] \<Longrightarrow> settled T session (sw_calls w)"
  shows "follows (sent_ok T sha256 (ws_store (sw_ws w)) decoded) w w' \<and> (r = Inr () \<longrightarrow> settled T session (sw_calls w'))"
proof -
  have "(\<forall>d b. open_object d (ws_store (sw_ws w)) = Inr b \<longrightarrow> length b < 2 ^ 64) \<longrightarrow> set missing \<subseteq> set (data_closure decoded) \<longrightarrow>
    (missing = [] \<longrightarrow> settled T session (sw_calls w)) \<longrightarrow> data_closure decoded = data_closure decoded \<longrightarrow>
    follows (sent_ok T sha256 (ws_store (sw_ws w)) decoded) w (snd (r, w')) \<and>
    (fst (r, w') = Inr () \<longrightarrow> settled T session (sw_calls (snd (r, w'))))"
    using assms(1)
  proof (induction arbitrary: rule: push_rounds.raw_induct [rotated, consumes 1,
      of _ _ _ _ _ _ _ _ _ _ "\<lambda>T sha256 options session closure bound missing stalled w res.
        (\<forall>d b. open_object d (ws_store (sw_ws w)) = Inr b \<longrightarrow> length b < 2 ^ 64) \<longrightarrow> set missing \<subseteq> set closure \<longrightarrow>
        (missing = [] \<longrightarrow> settled T session (sw_calls w)) \<longrightarrow> closure = data_closure decoded \<longrightarrow>
        follows (sent_ok T sha256 (ws_store (sw_ws w)) decoded) w (snd res) \<and>
        (fst res = Inr () \<longrightarrow> settled T session (sw_calls (snd res)))"])
    case (1 rounds T sha256 options session closure bound missing stalled w result)
    show ?case
    proof (intro impI)
      assume lens: "\<forall>d b. open_object d (ws_store (sw_ws w)) = Inr b \<longrightarrow> length b < 2 ^ 64" and sub: "set missing \<subseteq> set closure"
        and start: "missing = [] \<longrightarrow> settled T session (sw_calls w)" and cl: "closure = data_closure decoded"
      let ?P = "sent_ok T sha256 (ws_store (sw_ws w)) decoded"
      obtain q w1 where q: "push_groups T sha256 options session (pack_groups bound [] 0 missing) w = (q, w1)"
        by (cases "push_groups T sha256 options session (pack_groups bound [] 0 missing) w")
      have f: "follows ?P w w1"
        by (rule push_groups_follows [OF _ _ q]) (use lens sub cl concat_pack_groups [of bound "[]" 0 missing] in auto)
      let ?w = "update_report (\<lambda>r. r\<lparr>pu_replans := pu_replans r + 1\<rparr>) w1"
      let ?w2 = "?w\<lparr>sw_calls := sw_calls ?w @ [Call_PackGrants session []]\<rparr>"
      have f2: "follows ?P w ?w2" by (rule follows_trans [OF follows_then [OF f, of ?w] probe_follows]) simp_all
      show "follows ?P w (snd result) \<and> (fst result = Inr () \<longrightarrow> settled T session (sw_calls (snd result)))"
      proof (cases "missing = []")
        case True
        then show ?thesis using 1(2) start by auto
      next
        case False
        consider e where "result = (Inl e, w1)" | e where "result = (Inl e, ?w2)"
          | refreshed n where "tr_pack_grants T (sw_calls ?w @ [Call_PackGrants session []]) = Inr refreshed"
            "verify_lanes closure (gp_missing refreshed) (gp_missing_blobs refreshed) bound = Inr ()"
            "rounds T sha256 options session closure bound (gp_missing refreshed) n ?w2 = Some result"
          using 1(2) False by (auto simp: q ask_def split: sum.splits if_splits)
        then show ?thesis
        proof cases
          case (3 refreshed n)
          have "subseq (gp_missing refreshed) closure"
            using 3(2) verify_lanes_iff [of closure] data_closure_digests(2) [of decoded] cl by blast
          then have "set (gp_missing refreshed) \<subseteq> set closure" by (rule subseq_rows)
          moreover have "settled T session (sw_calls ?w2)" if "gp_missing refreshed = []"
            unfolding settled_def using 3(1) that by simp
          ultimately show ?thesis using 1(1) [OF 3(3)] lens cl follows_ws [OF f2] follows_trans [OF f2] by simp
        qed (use f f2 in simp_all)
      qed
    qed
  qed
  then show ?thesis using assms(2-4) by simp
qed

text \<open>Completion only calls \<open>complete\<close>, and returns a report exactly on a promotion.\<close>

lemma complete_loop_calls:
  "complete_loop T options session admitted stalls w = (r, w') \<Longrightarrow> sw_ws w' = sw_ws w \<and>
   (\<exists>n. sw_calls w' = sw_calls w @ replicate (Suc n) (Call_Complete session)) \<and>
   (\<forall>report. r = Inr report \<longrightarrow> tr_complete T (sw_calls w') = Inr CompleteStatus_Promoted)"
proof (induction T options session admitted stalls w arbitrary: r w' rule: complete_loop.induct)
  case (1 T options session admitted stalls w)
  let ?w = "(update_report (\<lambda>r. r\<lparr>pu_complete_attempts := pu_complete_attempts r + 1\<rparr>) w)\<lparr>sw_calls := sw_calls w @ [Call_Complete session]\<rparr>"
  let ?answer = "tr_complete T (sw_calls w @ [Call_Complete session])"
  have ask: "ask (Call_Complete session) (tr_complete T)
      (update_report (\<lambda>r. r\<lparr>pu_complete_attempts := pu_complete_attempts r + 1\<rparr>) w) = (?answer, ?w)" by (simp add: ask_def)
  note eqn = "1.prems" [unfolded complete_loop.simps [of T options session admitted stalls w] ask prod.case Let_def]
  let ?b = "back_off (stalls + 1) ?w"
  consider (ends) "w' = ?w" "\<forall>report. r = Inr report \<longrightarrow> ?answer = Inr CompleteStatus_Promoted"
    | (rises) code promoted all where "?answer = Inr (CompleteStatus_Incomplete code promoted all)" "admitted < promoted"
        "complete_loop T options session promoted 0 ?w = (r, w')"
    | (stays) code promoted all where "?answer = Inr (CompleteStatus_Incomplete code promoted all)" "\<not> admitted < promoted"
        "\<not> unat (po_max_completion_stalls options) \<le> stalls + 1" "complete_loop T options session admitted (stalls + 1) ?b = (r, w')"
    | (io) e where "?answer = Inl (TransportError_Io e)" "\<not> unat (po_max_completion_stalls options) \<le> stalls + 1"
        "complete_loop T options session admitted (stalls + 1) ?b = (r, w')"
    using eqn by (auto split: sum.splits transport_error.splits complete_status.splits if_splits)
  then show ?case
  proof cases
    case ends
    then show ?thesis by (auto intro!: exI [of _ 0])
  next
    case rises
    from "1.IH"(2) [OF ask [symmetric] refl rises(1) refl rises(2,3)]
    show ?thesis by (auto intro: exI [of _ "Suc _"])
  next
    case stays
    from "1.IH"(3) [OF ask [symmetric] refl stays(1) refl stays(2,3,4)]
    show ?thesis by (auto intro: exI [of _ "Suc _"])
  next
    case io
    from "1.IH"(1) [OF ask [symmetric] refl io(1) refl io(2,3)]
    show ?thesis by (auto intro: exI [of _ "Suc _"])
  qed
qed

end
