(* ===== verification/Sync_Session.thy ===== *)
theory Sync_Session
  imports Sync_Push
begin

text \<open>
  The whole push: its calls, its end and what it leaves behind; that it returns against a remote whose
  missing set never grows, and that nothing bounds it against one whose missing set grows and shrinks.
\<close>

section \<open>The calls of a push\<close>

lemma follows_replicate:
  assumes "\<And>h. P (h @ [call])" "sw_ws w' = sw_ws w" "sw_calls w' = sw_calls w @ replicate n call"
  shows "follows P w w'"
proof -
  have "P (take i (sw_calls w'))" if i: "length (sw_calls w) < i" "i \<le> length (sw_calls w')" for i
  proof -
    obtain k where k: "i = length (sw_calls w) + Suc k" using i(1) less_imp_Suc_add by auto
    then have "take i (sw_calls w') = (sw_calls w @ replicate k call) @ [call]"
      using i(2) assms(3) by (simp add: take_replicate replicate_append_same)
    then show ?thesis using assms(1) by (simp del: append_assoc)
  qed
  then show ?thesis unfolding follows_def using assms(2,3) by (intro conjI) auto
qed

text \<open>The number of objects of the pack lane that the answer to the last call of a history leaves owed.\<close>

definition owed_after :: "sync_transport \<Rightarrow> sync_call list \<Rightarrow> nat option" where
  "owed_after T h =
     (case last h of
        Call_Declare bs head \<Rightarrow> (case tr_declare T h of Inr plan \<Rightarrow> Some (length (spl_missing plan)) | Inl _ \<Rightarrow> None)
      | Call_PackGrants session claims \<Rightarrow> (case tr_pack_grants T h of Inr answer \<Rightarrow> Some (length (gp_missing answer)) | Inl _ \<Rightarrow> None)
      | _ \<Rightarrow> None)"

lemma push_blobs_follows:
  assumes "push_blobs T options session (data_closure decoded) bound missing blobs w = Some (r, w')"
    and "\<And>d b. open_object d (ws_store (sw_ws w)) = Inr b \<Longrightarrow> length b < 2 ^ 64"
    and "set missing \<subseteq> set (data_closure decoded)" "set blobs \<subseteq> set (data_closure decoded)"
    and "missing = [] \<Longrightarrow> blobs = [] \<Longrightarrow> settled T session (sw_calls w)"
  shows "follows (sent_ok T sha256 (ws_store (sw_ws w)) decoded) w w' \<and>
    (\<forall>owed. r = Inr owed \<longrightarrow> set owed \<subseteq> set (data_closure decoded) \<and> (owed = [] \<longrightarrow> settled T session (sw_calls w')) \<and>
      (if blobs = [] then owed = missing \<and> w' = w else owed_after T (sw_calls w') = Some (length owed)))"
proof (cases "blobs = []")
  case True
  then show ?thesis using assms(1,3,5) by (auto simp: push_blobs_def)
next
  case False
  let ?P = "sent_ok T sha256 (ws_store (sw_ws w)) decoded"
  obtain q w1 where q: "push_blob_lane T options session blobs 0 w = Some (q, w1)"
    using assms(1) False by (cases "push_blob_lane T options session blobs 0 w") (auto simp: push_blobs_def)
  let ?w = "w1\<lparr>sw_calls := sw_calls w1 @ [Call_PackGrants session []]\<rparr>"
  have f: "follows ?P w w1" by (rule push_blob_lane_follows [OF q assms(2,4)])
  then have f2: "follows ?P w ?w" using follows_trans probe_follows by blast
  have run: "op_then (q, w1) (\<lambda>_ w. case ask (Call_PackGrants session []) (tr_pack_grants T) w of
      (Inl e, w) \<Rightarrow> (Inl (SyncError_Transport e), w)
    | (Inr refreshed, w) \<Rightarrow>
        op_then (verify_lanes (data_closure decoded) (gp_missing refreshed) (gp_missing_blobs refreshed) bound, w) (\<lambda>_ w.
          case gp_missing_blobs refreshed of (d, len) # rest \<Rightarrow> (Inl (SyncError_BlobNotAccepted d), w)
          | [] \<Rightarrow> (Inr (gp_missing refreshed), w))) = (r, w')"
    using assms(1) False by (simp add: push_blobs_def q)
  show ?thesis
  proof (cases "\<exists>x refreshed. q = Inr x \<and> tr_pack_grants T (sw_calls w1 @ [Call_PackGrants session []]) = Inr refreshed \<and>
      verify_lanes (data_closure decoded) (gp_missing refreshed) (gp_missing_blobs refreshed) bound = Inr ()")
    case True
    then obtain x refreshed where ok: "q = Inr x" "tr_pack_grants T (sw_calls w1 @ [Call_PackGrants session []]) = Inr refreshed"
      "verify_lanes (data_closure decoded) (gp_missing refreshed) (gp_missing_blobs refreshed) bound = Inr ()" by blast
    have "subseq (gp_missing refreshed) (data_closure decoded)"
      using ok(3) verify_lanes_iff [of "data_closure decoded"] data_closure_digests(2) [of decoded] by blast
    then have "set (gp_missing refreshed) \<subseteq> set (data_closure decoded)" by (rule subseq_rows)
    moreover have "settled T session (sw_calls ?w)" if "gp_missing refreshed = []" unfolding settled_def using ok(2) that by simp
    moreover have "owed_after T (sw_calls ?w) = Some (length (gp_missing refreshed))" using ok(2) by (simp add: owed_after_def)
    moreover have "w' = ?w" "\<And>owed. r = Inr owed \<Longrightarrow> owed = gp_missing refreshed"
      using run ok by (auto simp: ask_def split: list.splits)
    ultimately show ?thesis using f2 \<open>blobs \<noteq> []\<close> by auto
  next
    case False
    then have "(w' = w1 \<or> w' = ?w) \<and> (\<exists>e. r = Inl e)"
      using run by (cases q; cases "tr_pack_grants T (sw_calls w1 @ [Call_PackGrants session []])") (auto simp: ask_def op_then_def split: sum.splits)
    then show ?thesis using f f2 by auto
  qed
qed

text \<open>A push that returned a report was promoted, after the remote had answered that nothing is missing.\<close>

definition promoted :: "sync_transport \<Rightarrow> snapshot_id \<Rightarrow> bytes \<Rightarrow> snapshot_id option \<Rightarrow> sync_call list \<Rightarrow> sync_call list \<Rightarrow> bool" where
  "promoted T sid bs head before calls \<longleftrightarrow> (\<exists>plan h n. tr_declare T (before @ [Call_Declare bs head]) = Inr plan \<and>
     spl_snapshot_id plan = sid \<and> prefix (before @ [Call_Declare bs head]) h \<and> settled T (spl_session plan) h \<and>
     calls = h @ replicate (Suc n) (Call_Complete (spl_session plan)) \<and> tr_complete T calls = Inr CompleteStatus_Promoted)"

lemma report_have_same [simp]:
  "sw_ws (report_have closure have_list w) = sw_ws w" "sw_calls (report_have closure have_list w) = sw_calls w"
proof -
  have "sw_ws (fold (\<lambda>d w. case map_of closure d of Some len \<Rightarrow> sink_object d len w | None \<Rightarrow> w) ds v) = sw_ws v \<and>
      sw_calls (fold (\<lambda>d w. case map_of closure d of Some len \<Rightarrow> sink_object d len w | None \<Rightarrow> w) ds v) = sw_calls v" for ds v
    by (induction ds arbitrary: v) (auto split: option.splits)
  then show "sw_ws (report_have closure have_list w) = sw_ws w" "sw_calls (report_have closure have_list w) = sw_calls w"
    by (simp_all add: report_have_def)
qed

lemma push_leased_spec:
  assumes "push_leased T sha256 options sid head decoded w = Some (r, w')"
    and lens: "\<And>d b. open_object d (ws_store (sw_ws w)) = Inr b \<Longrightarrow> length b < 2 ^ 64"
  shows "follows (sent_ok T sha256 (ws_store (sw_ws w)) decoded) w w' \<and>
    (\<forall>report. r = Inr report \<longrightarrow> promoted T sid (to_bytes decoded) head (sw_calls w) (sw_calls w'))"
proof -
  let ?P = "sent_ok T sha256 (ws_store (sw_ws w)) decoded" and ?call = "Call_Declare (to_bytes decoded) head"
  let ?w = "w\<lparr>sw_report := push_report_default, sw_calls := sw_calls w @ [?call]\<rparr>"
  have f: "follows ?P w ?w" by (rule follows_then [OF follows_call [of ?P w ?call]]) (simp_all add: sent_ok_def)
  show ?thesis
  proof (cases "tr_declare T (sw_calls w @ [?call])")
    case (Inl e)
    then show ?thesis using assms(1) f by (auto simp: push_leased_def ask_def)
  next
    case (Inr plan)
    let ?cl = "data_closure decoded" and ?bound = "payload_bound (spl_max_pack_payload plan)"
    let ?w1 = "report_have ?cl (spl_have plan) ?w"
    have f1: "follows ?P w ?w1" by (rule follows_then [OF f]) simp_all
    show ?thesis
    proof (cases "spl_snapshot_id plan \<noteq> sid \<or> (\<exists>e. verify_lanes ?cl (spl_missing plan) (spl_missing_blobs plan) ?bound = Inl e)")
      case True
      then have "\<exists>e. r = Inl e" "w' = ?w \<or> w' = ?w1" using assms(1) Inr by (auto simp: push_leased_def ask_def Let_def split: if_splits)
      then show ?thesis using f f1 by auto
    next
      case False
      then have id: "spl_snapshot_id plan = sid" and lanes: "verify_lanes ?cl (spl_missing plan) (spl_missing_blobs plan) ?bound = Inr ()"
        by (simp, cases "verify_lanes ?cl (spl_missing plan) (spl_missing_blobs plan) ?bound") auto
      have "subseq (spl_missing plan) ?cl" "subseq (spl_missing_blobs plan) ?cl"
        using lanes verify_lanes_iff [of ?cl] data_closure_digests(2) [of decoded] by blast+
      then have sub: "set (spl_missing plan) \<subseteq> set ?cl" "set (spl_missing_blobs plan) \<subseteq> set ?cl" by (simp_all add: subseq_rows)
      have st: "settled T (spl_session plan) (sw_calls ?w1)" if "spl_missing plan = []" "spl_missing_blobs plan = []"
        unfolding settled_def using Inr that by simp
      obtain q w2 where q: "push_blobs T options (spl_session plan) ?cl ?bound (spl_missing plan) (spl_missing_blobs plan) ?w1 = Some (q, w2)"
        using assms(1) Inr id lanes
        by (cases "push_blobs T options (spl_session plan) ?cl ?bound (spl_missing plan) (spl_missing_blobs plan) ?w1")
          (auto simp: push_leased_def ask_def Let_def)
      have f2: "follows ?P ?w1 w2" and owed: "\<And>owed. q = Inr owed \<Longrightarrow> set owed \<subseteq> set ?cl \<and> (owed = [] \<longrightarrow> settled T (spl_session plan) (sw_calls w2))"
        using push_blobs_follows [OF q _ sub st, of sha256] lens by auto
      have ws2: "sw_ws w2 = sw_ws w" using follows_ws [OF f1] follows_ws [OF f2] by simp
      show ?thesis
      proof (cases q)
        case (Inl e)
        then show ?thesis using assms(1) \<open>tr_declare T _ = Inr plan\<close> id lanes q follows_trans [OF f1 f2]
          by (auto simp: push_leased_def ask_def Let_def)
      next
        case owe: (Inr owe)
        obtain p w3 where p: "push_rounds T sha256 options (spl_session plan) ?cl ?bound owe 0 w2 = Some (p, w3)"
          using assms(1) Inr id lanes q owe
          by (cases "push_rounds T sha256 options (spl_session plan) ?cl ?bound owe 0 w2") (auto simp: push_leased_def ask_def Let_def)
        have f3: "follows ?P w2 w3" and done_: "p = Inr () \<Longrightarrow> settled T (spl_session plan) (sw_calls w3)"
          using push_rounds_follows [OF p, of] owed [OF owe] lens ws2 by auto
        have f4: "follows ?P w w3" using follows_trans [OF follows_trans [OF f1 f2] f3] .
        show ?thesis
        proof (cases p)
          case (Inl e)
          then show ?thesis using assms(1) \<open>tr_declare T _ = Inr plan\<close> id lanes q owe p f4
            by (auto simp: push_leased_def ask_def Let_def)
        next
          case last: (Inr x)
          have c: "complete_loop T options (spl_session plan) 0 0 w3 = (r, w')"
            using assms(1) Inr id lanes q owe p last by (auto simp: push_leased_def ask_def Let_def)
          from complete_loop_calls [OF c] obtain n where n: "sw_ws w' = sw_ws w3"
            "sw_calls w' = sw_calls w3 @ replicate (Suc n) (Call_Complete (spl_session plan))"
            "\<And>report. r = Inr report \<Longrightarrow> tr_complete T (sw_calls w') = Inr CompleteStatus_Promoted" by blast
          have "follows ?P w3 w'" by (rule follows_replicate [OF _ n(1,2)]) (simp add: sent_ok_def)
          then have "follows ?P w w'" by (rule follows_trans [OF f4])
          moreover have "prefix (sw_calls w @ [?call]) (sw_calls w3)"
            using follows_prefix [OF follows_trans [OF f2 f3]] by simp
          moreover have "settled T (spl_session plan) (sw_calls w3)" using done_ last by simp
          ultimately show ?thesis using n Inr id unfolding promoted_def by blast
        qed
      qed
    qed
  qed
qed


section \<open>The lease\<close>

text \<open>Every pinned digest belongs to a lease: the foreign key of the table.\<close>

definition leases_wf :: "metadata \<Rightarrow> bool" where
  "leases_wf db \<longleftrightarrow> bt_sorted (md_leases db) \<and> fst ` set (md_lease_objects db) \<subseteq> fst ` set (md_leases db)"

lemma insert_lease_objects:
  "\<exists>new. fold (insert_lease_object l) ds db = db\<lparr>md_lease_objects := md_lease_objects db @ new\<rparr> \<and> (\<forall>row \<in> set new. fst row = l)"
proof (induction ds arbitrary: db)
  case Nil
  show ?case by (rule exI [of _ "[]"]) simp
next
  case (Cons d ds)
  obtain one where one: "insert_lease_object l d db = db\<lparr>md_lease_objects := md_lease_objects db @ one\<rparr>" "\<forall>row \<in> set one. fst row = l"
  proof (cases "(l, d) \<in> set (md_lease_objects db)")
    case True
    then show thesis by (intro that [of "[]"]) (simp_all add: insert_lease_object_def)
  next
    case False
    then show thesis by (intro that [of "[(l, d)]"]) (simp_all add: insert_lease_object_def)
  qed
  obtain new where new: "fold (insert_lease_object l) ds (insert_lease_object l d db) =
      (insert_lease_object l d db)\<lparr>md_lease_objects := md_lease_objects (insert_lease_object l d db) @ new\<rparr>" "\<forall>row \<in> set new. fst row = l"
    using Cons.IH by blast
  show ?case by (rule exI [of _ "one @ new"]) (use one new in auto)
qed

lemma pending_lease_released:
  assumes "leases_wf (ws_db ws)" "acquire_pending_sync_lease u sha256 sid holder ws = (Inr (l, s), ws1)"
  shows "snd (release_lease l ws1) = ws \<and> ws_store ws1 = ws_store ws \<and> load_snapshot u sha256 ws sid = Inr s"
proof -
  let ?db = "ws_db ws" and ?row = "\<lparr>le_kind = LeaseKind_PendingSync, le_holder = holder, le_workspace = None, le_inode = None\<rparr>"
  have l: "l = next_rowid (map fst (md_leases ?db))" and s: "read_rooted_snapshot u sha256 ws sid = Inr s"
    and ws1: "ws1 = ws\<lparr>ws_db := fold (insert_lease_object l) (sid # snapshot_record_digests s) (?db\<lparr>md_leases := bt_insert l ?row (md_leases ?db)\<rparr>)\<rparr>"
    using assms(2) by (auto simp: acquire_pending_sync_lease_def transact_def insert_lease_def Let_def result_simps split: sum.splits)
  have fresh: "map_of (md_leases ?db) l = None" unfolding l by (rule next_rowid_fresh)
  obtain new where new: "ws1 = ws\<lparr>ws_db := ?db\<lparr>md_leases := bt_insert l ?row (md_leases ?db), md_lease_objects := md_lease_objects ?db @ new\<rparr>\<rparr>"
    "\<forall>row \<in> set new. fst row = l"
    using ws1 insert_lease_objects [of l "sid # snapshot_record_digests s" "?db\<lparr>md_leases := bt_insert l ?row (md_leases ?db)\<rparr>"] by auto
  have "filter (\<lambda>(l', d). l' \<noteq> l) (md_lease_objects ?db @ new) = md_lease_objects ?db"
  proof -
    have "l \<notin> fst ` set (md_lease_objects ?db)" using assms(1) fresh by (auto simp: leases_wf_def map_of_eq_None_iff)
    then have "filter (\<lambda>(l', d). l' \<noteq> l) (md_lease_objects ?db) = md_lease_objects ?db" by (force simp: filter_id_conv)
    moreover have "filter (\<lambda>(l', d). l' \<noteq> l) new = []" using new(2) by (auto simp: filter_empty_conv)
    ultimately show ?thesis by simp
  qed
  then show ?thesis using new(1) s fresh assms(1)
    by (simp add: release_lease_def transact_def load_snapshot_def leases_wf_def map_of_bt_insert bt_remove_insert)
qed

text \<open>A push changes nothing locally, sends only the snapshot, and reports success only after a promotion.\<close>

lemma push_snapshot_spec:
  assumes "leases_wf (ws_db (sw_ws w))" "\<And>d b. open_object d (ws_store (sw_ws w)) = Inr b \<Longrightarrow> length b < 2 ^ 64"
    and "push_snapshot u sha256 T sid head options w = Some (r, w')"
  shows "sw_ws w' = sw_ws w \<and>
    (case load_snapshot u sha256 (sw_ws w) sid of
       Inl e \<Rightarrow> r = Inl (SyncError_Workspace e) \<and> w' = w
     | Inr s \<Rightarrow> prefix (sw_calls w) (sw_calls w') \<and>
         (\<forall>i. length (sw_calls w) < i \<and> i \<le> length (sw_calls w') \<longrightarrow> sent_ok T sha256 (ws_store (sw_ws w)) s (take i (sw_calls w'))) \<and>
         (\<forall>report. r = Inr report \<longrightarrow> promoted T sid (to_bytes s) head (sw_calls w) (sw_calls w')))"
proof -
  obtain got ws1 where got: "acquire_pending_sync_lease u sha256 sid PUSH_LEASE_HOLDER (sw_ws w) = (got, ws1)"
    by (cases "acquire_pending_sync_lease u sha256 sid PUSH_LEASE_HOLDER (sw_ws w)")
  show ?thesis
  proof (cases got)
    case (Inl e)
    have "ws1 = sw_ws w" "load_snapshot u sha256 (sw_ws w) sid = Inl e" using got Inl
      by (auto simp: acquire_pending_sync_lease_def transact_def load_snapshot_def insert_lease_def Let_def and_then_def split: sum.splits)
    then show ?thesis using assms(3) got Inl by (auto simp: push_snapshot_def)
  next
    case (Inr held)
    obtain l s where held: "held = (l, s)" by (cases held)
    note lease = pending_lease_released [OF assms(1), of u sha256 sid PUSH_LEASE_HOLDER l s ws1]
    have pin: "snd (release_lease l ws1) = sw_ws w" "ws_store ws1 = ws_store (sw_ws w)" "load_snapshot u sha256 (sw_ws w) sid = Inr s"
      using lease got Inr held by auto
    obtain q w2 where q: "push_leased T sha256 options sid head s (w\<lparr>sw_ws := ws1\<rparr>) = Some (q, w2)" "(r, w') = drop_pin l (q, w2)"
      using assms(3) got Inr held by (auto simp: push_snapshot_def)
    have lens1: "length b < 2 ^ 64" if "open_object d (ws_store (sw_ws (w\<lparr>sw_ws := ws1\<rparr>))) = Inr b" for d b
      using assms(2) that pin(2) by simp
    have f: "follows (sent_ok T sha256 (ws_store (sw_ws w)) s) (w\<lparr>sw_ws := ws1\<rparr>) w2"
      "\<forall>report. q = Inr report \<longrightarrow> promoted T sid (to_bytes s) head (sw_calls w) (sw_calls w2)"
      using push_leased_spec [OF q(1) lens1] pin(2) by auto
    have "r = q" "w' = w2\<lparr>sw_ws := sw_ws w\<rparr>" using q(2) follows_ws [OF f(1)] pin(1) by (simp_all add: drop_pin_def)
    then show ?thesis using f pin(3) by (auto simp: follows_def)
  qed
qed


section \<open>Returning\<close>

text \<open>Within one session a remote that only admits objects never owes more than it did, and one whose blob
  authorizations outlive the round never sends a blob back.\<close>

definition never_grows :: "sync_transport \<Rightarrow> sync_call list \<Rightarrow> bool" where
  "never_grows T start \<longleftrightarrow> (\<forall>h h' n n' session claims. prefix start h \<and> prefix h h' \<and>
     last h' = Call_PackGrants session claims \<and> owed_after T h = Some n \<and> owed_after T h' = Some n' \<longrightarrow> n' \<le> n)"

definition blobs_unexpired :: "sync_transport \<Rightarrow> bool" where
  "blobs_unexpired T \<longleftrightarrow> (\<forall>h e. tr_blob_grants T h \<noteq> Inl (TransportError_Expired e)) \<and>
     (\<forall>h e. snd (tr_upload_part T h) \<noteq> Inl (TransportError_Expired e))"

lemma push_group_calls: "push_group T sha256 options session rows w = (r, w') \<Longrightarrow> prefix (sw_calls w) (sw_calls w')"
proof (cases "encode_group sha256 (ws_store (sw_ws w)) rows")
  case (Inr encoded)
  let ?claim = "claim_of sha256 rows encoded" let ?call = "Call_PackGrants session [?claim]"
  let ?w = "w\<lparr>sw_calls := sw_calls w @ [?call]\<rparr>"
  assume "push_group T sha256 options session rows w = (r, w')"
  note run = this [unfolded push_group_def Inr op_then_simps Let_def ask_def]
  show ?thesis
  proof (cases "\<exists>g grant. tr_pack_grants T (sw_calls w @ [?call]) = Inr g \<and>
      find (\<lambda>grant. pg_sha256 grant = pc_sha256 ?claim) (gp_grants g) = Some grant")
    case False
    then have "w' = ?w" using run by (auto split: sum.splits option.splits transport_error.splits if_splits)
    then show ?thesis by simp
  next
    case True
    then obtain g grant where g: "tr_pack_grants T (sw_calls w @ [?call]) = Inr g"
      "find (\<lambda>grant. pg_sha256 grant = pc_sha256 ?claim) (gp_grants g) = Some grant" by blast
    obtain landed w1 where up: "upload_pack_loop T (po_max_upload_attempts options) 0 grant encoded ?w = (landed, w1)"
      by (cases "upload_pack_loop T (po_max_upload_attempts options) 0 grant encoded ?w")
    have "prefix (sw_calls ?w) (sw_calls w1)"
      by (rule follows_prefix [OF upload_pack_loop_follows [where P = "\<lambda>_. True", OF _ up]]) simp
    moreover have "sw_calls w' = sw_calls w1" using run g up by (cases landed; auto split: if_splits)
    ultimately show ?thesis by (auto simp: prefix_def)
  qed
qed (simp add: push_group_def)

lemma push_groups_calls: "push_groups T sha256 options session groups w = (r, w') \<Longrightarrow> prefix (sw_calls w) (sw_calls w')"
proof (induction groups arbitrary: w)
  case (Cons rows groups)
  obtain going w1 where one: "push_group T sha256 options session rows w = (going, w1)" by (cases "push_group T sha256 options session rows w")
  have "prefix (sw_calls w1) (sw_calls w')" using Cons one by (cases going) (auto split: if_splits)
  then show ?case using push_group_calls [OF one] prefix_order.trans by blast
qed simp

lemma push_rounds_return:
  assumes "never_grows T start" "prefix start h0" "prefix h0 (sw_calls w)" "owed_after T h0 = Some (length missing)"
  shows "push_rounds T sha256 options session closure bound missing stalled w \<noteq> None"
  using assms(2-4)
proof (induction "length missing * (unat (po_max_stalled_replans options) + 1) + (unat (po_max_stalled_replans options) - stalled)"
    arbitrary: missing stalled w h0 rule: less_induct)
  case less
  let ?B = "unat (po_max_stalled_replans options)"
  show ?case
  proof (cases "missing = []")
    case False
    obtain q w1 where q: "push_groups T sha256 options session (pack_groups bound [] 0 missing) w = (q, w1)"
      by (cases "push_groups T sha256 options session (pack_groups bound [] 0 missing) w")
    let ?h = "sw_calls w1 @ [Call_PackGrants session []]"
    let ?w = "(update_report (\<lambda>r. r\<lparr>pu_replans := pu_replans r + 1\<rparr>) w1)\<lparr>sw_calls := ?h\<rparr>"
    have pre: "prefix h0 ?h" using less.prems(2) push_groups_calls [OF q] by (meson prefix_order.trans prefixI)
    show ?thesis
    proof (cases "\<exists>x refreshed. q = Inr x \<and> tr_pack_grants T ?h = Inr refreshed \<and>
        verify_lanes closure (gp_missing refreshed) (gp_missing_blobs refreshed) bound = Inr ()")
      case True
      then obtain x refreshed where ok: "q = Inr x" "tr_pack_grants T ?h = Inr refreshed"
        "verify_lanes closure (gp_missing refreshed) (gp_missing_blobs refreshed) bound = Inr ()" by blast
      have owed: "owed_after T ?h = Some (length (gp_missing refreshed))" using ok(2) by (simp add: owed_after_def)
      then have le: "length (gp_missing refreshed) \<le> length missing"
        using assms(1) less.prems(1,3) pre unfolding never_grows_def by (meson last_snoc)
      have more: "push_rounds T sha256 options session closure bound (gp_missing refreshed) n ?w \<noteq> None"
        if "length (gp_missing refreshed) * (?B + 1) + (?B - n) < length missing * (?B + 1) + (?B - stalled)" for n
        by (rule less.hyps [OF that, of ?h]) (use less.prems(1) pre owed in \<open>auto intro: prefix_order.trans\<close>)
      have shrink: "length (gp_missing refreshed) * (?B + 1) + (?B - 0) < length missing * (?B + 1) + (?B - stalled)"
        if "length (gp_missing refreshed) < length missing"
      proof -
        have "(length (gp_missing refreshed) + 1) * (?B + 1) \<le> length missing * (?B + 1)" using that by (intro mult_le_mono1) simp
        then show ?thesis by (simp add: algebra_simps)
      qed
      show ?thesis
        by (subst push_rounds.simps) (use False q ok le more [OF shrink] more [of "stalled + 1"] in \<open>auto simp: ask_def not_less\<close>)
    next
      case bad: False
      then show ?thesis
        by (subst push_rounds.simps) (use False q in \<open>auto simp: ask_def split: sum.splits\<close>)
    qed
  qed (simp add: push_rounds.simps)
qed

lemma report_landed_unexpired: "report_landed T session d landed w = (r, w') \<Longrightarrow> r \<noteq> Inl BlobOutcome_Expired"
  by (auto simp: report_landed_def ask_def split: if_splits sum.splits)

lemma upload_part_loop_unexpired:
  assumes "blobs_unexpired T" "upload_part_loop T budget attempt session d landed part buffer w = (r, w')"
  shows "r \<noteq> Inl BlobOutcome_Expired"
  using assms
proof (induction "unat budget - attempt" arbitrary: attempt w rule: less_induct)
  case less
  let ?h = "sw_calls w @ [Call_UploadPart part buffer]"
  obtain moved answer where an: "tr_upload_part T ?h = (moved, answer)" by (cases "tr_upload_part T ?h")
  have "answer \<noteq> Inl (TransportError_Expired e)" for e using less.prems(1) an unfolding blobs_unexpired_def by (metis snd_conv)
  then show ?case using less.prems(2) less.hyps [OF _ assms(1), of "attempt + 1"]
    by (auto simp: upload_part_loop.simps [of T budget attempt] ask_def an Let_def split: sum.splits transport_error.splits if_splits)
qed

lemma part_loop_unexpired:
  "blobs_unexpired T \<Longrightarrow> part_loop T options session grant source offset landed parts w = (r, w') \<Longrightarrow> r \<noteq> Inl BlobOutcome_Expired"
proof (induction parts arbitrary: offset landed w)
  case Nil
  then show ?case using report_landed_unexpired by simp
next
  case (Cons part parts)
  show ?case
  proof (cases "bp_number part \<in> set (bg_uploaded grant)")
    case True
    then show ?thesis using Cons by simp
  next
    case False
    show ?thesis
    proof (cases "src_read source offset (unat (bp_size part))")
      case (Inl e)
      then show ?thesis using Cons.prems(2) False by auto
    next
      case (Inr buffer)
      obtain answer w1 where up: "upload_part_loop T (po_max_upload_attempts options) 0 session (bg_digest grant) landed part buffer w = (answer, w1)"
        by (cases "upload_part_loop T (po_max_upload_attempts options) 0 session (bg_digest grant) landed part buffer w")
      then show ?thesis using Cons False Inr upload_part_loop_unexpired [OF Cons.prems(1) up] by (cases answer) auto
    qed
  qed
qed

lemma push_batches_undeferred:
  assumes "blobs_unexpired T" "push_batches T options session batches w = (Inr deferred, w')"
  shows "deferred = []"
  using assms(2)
proof (induction batches arbitrary: w deferred)
  case (Cons batch batches)
  have one: "push_one_blob T options session grant len v = (q, v') \<Longrightarrow> q \<noteq> Inl BlobOutcome_Expired" for grant len v q v'
    using part_loop_unexpired [OF assms(1)]
    by (cases "open_object (bg_digest grant) (ws_store (sw_ws v))") (auto simp: push_one_blob_def Let_def split: if_splits)
  have batch: "push_batch T options session grants rows v = (Inr ds, v') \<Longrightarrow> ds = []" for grants rows v ds v'
  proof (induction rows arbitrary: v ds)
    case (Cons row rows)
    obtain d len where row: "row = (d, len)" by (cases row)
    from Cons.prems obtain grant where g: "find (\<lambda>grant. bg_digest grant = d) grants = Some grant" by (auto simp: row split: option.splits)
    obtain q v1 where q: "push_one_blob T options session grant len v = (q, v1)" by (cases "push_one_blob T options session grant len v")
    show ?case using Cons one [OF q] by (auto simp: row g q split: sum.splits blob_outcome.splits)
  qed simp
  let ?h = "sw_calls w @ [Call_BlobGrants session (map fst batch)]"
  obtain grants where g: "tr_blob_grants T ?h = Inr grants"
    using Cons.prems assms(1) by (auto simp: ask_def blobs_unexpired_def split: sum.splits transport_error.splits)
  obtain here w1 where h: "push_batch T options session grants batch (w\<lparr>sw_calls := ?h\<rparr>) = (here, w1)"
    by (cases "push_batch T options session grants batch (w\<lparr>sw_calls := ?h\<rparr>)")
  obtain rest w2 where r: "push_batches T options session batches w1 = (rest, w2)" by (cases "push_batches T options session batches w1")
  have "here = Inr ds \<Longrightarrow> ds = []" for ds using batch h by blast
  then show ?case using Cons.prems Cons.IH [of w1] by (cases here; cases rest) (auto simp: ask_def g h r)
qed simp

lemma push_blob_lane_returns:
  assumes "blobs_unexpired T"
  shows "push_blob_lane T options session pending stalled w \<noteq> None"
proof -
  obtain q w1 where q: "push_batches T options session (slice_chunks BLOB_GRANT_BATCH pending) w = (q, w1)"
    by (cases "push_batches T options session (slice_chunks BLOB_GRANT_BATCH pending) w")
  have none: "push_blob_lane T options session [] n v \<noteq> None" for n v by (simp add: push_blob_lane.simps)
  show ?thesis
  proof (cases q)
    case (Inl e)
    then show ?thesis by (subst push_blob_lane.simps) (simp add: q)
  next
    case (Inr deferred)
    then have "deferred = []" using push_batches_undeferred [OF assms] q by blast
    then show ?thesis using none by (subst push_blob_lane.simps) (simp add: q Inr Let_def)
  qed
qed

lemma push_leased_returns:
  assumes "never_grows T (sw_calls w)" "blobs_unexpired T" and lens: "\<And>d b. open_object d (ws_store (sw_ws w)) = Inr b \<Longrightarrow> length b < 2 ^ 64"
  shows "push_leased T sha256 options sid head decoded w \<noteq> None"
proof -
  let ?call = "Call_Declare (to_bytes decoded) head" and ?cl = "data_closure decoded"
  let ?h = "sw_calls w @ [?call]"
  show ?thesis
  proof (cases "tr_declare T ?h")
    case (Inr plan)
    let ?bound = "payload_bound (spl_max_pack_payload plan)"
    let ?w = "report_have ?cl (spl_have plan) (w\<lparr>sw_report := push_report_default, sw_calls := ?h\<rparr>)"
    have owed: "owed_after T ?h = Some (length (spl_missing plan))" using Inr by (simp add: owed_after_def)
    show ?thesis
    proof (cases "spl_snapshot_id plan \<noteq> sid \<or> (\<exists>e. verify_lanes ?cl (spl_missing plan) (spl_missing_blobs plan) ?bound = Inl e)")
      case True
      then show ?thesis using Inr by (auto simp: push_leased_def ask_def Let_def split: sum.splits)
    next
      case False
      then have ok: "spl_snapshot_id plan = sid" and lanes: "verify_lanes ?cl (spl_missing plan) (spl_missing_blobs plan) ?bound = Inr ()"
        by (simp, cases "verify_lanes ?cl (spl_missing plan) (spl_missing_blobs plan) ?bound") auto
      have "subseq (spl_missing plan) ?cl" "subseq (spl_missing_blobs plan) ?cl"
        using lanes verify_lanes_iff [of ?cl] data_closure_digests(2) [of decoded] by blast+
      then have sub: "set (spl_missing plan) \<subseteq> set ?cl" "set (spl_missing_blobs plan) \<subseteq> set ?cl" by (simp_all add: subseq_rows)
      have "push_blobs T options (spl_session plan) ?cl ?bound (spl_missing plan) (spl_missing_blobs plan) ?w \<noteq> None"
        using push_blob_lane_returns [OF assms(2), of options "spl_session plan" "spl_missing_blobs plan" 0 ?w]
        by (auto simp: push_blobs_def)
      then obtain q w2 where q: "push_blobs T options (spl_session plan) ?cl ?bound (spl_missing plan) (spl_missing_blobs plan) ?w = Some (q, w2)"
        by (metis not_None_eq surj_pair)
      have rounds: "\<exists>p w3. push_rounds T sha256 options (spl_session plan) ?cl ?bound owe 0 w2 = Some (p, w3)" if "q = Inr owe" for owe
      proof -
        have "\<exists>h0. prefix (sw_calls w) h0 \<and> prefix h0 (sw_calls w2) \<and> owed_after T h0 = Some (length owe)"
        proof (cases "spl_missing_blobs plan = []")
          case True
          then show ?thesis using q that owed by (intro exI [of _ ?h]) (auto simp: push_blobs_def)
        next
          case blobs: False
          have st: "settled T (spl_session plan) (sw_calls ?w)" if "spl_missing plan = []" "spl_missing_blobs plan = []"
            using blobs that by simp
          note spec = push_blobs_follows [OF q _ sub st, of sha256]
          have f: "follows (sent_ok T sha256 (ws_store (sw_ws ?w)) decoded) ?w w2" and "owed_after T (sw_calls w2) = Some (length owe)"
            using spec lens blobs that by auto
          moreover note follows_prefix [OF f]
          ultimately show ?thesis by (intro exI [of _ "sw_calls w2"]) (auto simp: prefix_def)
        qed
        then show ?thesis using push_rounds_return [OF assms(1)] by fastforce
      qed
      show ?thesis
      proof (cases q)
        case (Inl e)
        then show ?thesis using Inr ok lanes q by (simp add: push_leased_def ask_def Let_def)
      next
        case owe: (Inr owe)
        then show ?thesis using Inr ok lanes q rounds [OF owe] by (auto simp: push_leased_def ask_def Let_def)
      qed
    qed
  qed (simp add: push_leased_def ask_def)
qed

lemma push_snapshot_returns:
  assumes "never_grows T (sw_calls w)" "blobs_unexpired T" "\<And>d b. open_object d (ws_store (sw_ws w)) = Inr b \<Longrightarrow> length b < 2 ^ 64"
  shows "push_snapshot u sha256 T sid head options w \<noteq> None"
proof -
  obtain got ws where got: "acquire_pending_sync_lease u sha256 sid PUSH_LEASE_HOLDER (sw_ws w) = (got, ws)"
    by (cases "acquire_pending_sync_lease u sha256 sid PUSH_LEASE_HOLDER (sw_ws w)")
  have "ws_store ws = ws_store (sw_ws w)"
    using got by (auto simp: acquire_pending_sync_lease_def transact_def split: sum.splits)
  then have "push_leased T sha256 options sid head s (w\<lparr>sw_ws := ws\<rparr>) \<noteq> None" for s
    using push_leased_returns [of T "w\<lparr>sw_ws := ws\<rparr>" sha256 options sid head s] assms by simp
  then show ?thesis using got by (cases got) (simp_all add: push_snapshot_def split: prod.splits del: not_None_eq)
qed

end
