(* ===== verification/Sync_Stall.thy ===== *)
theory Sync_Stall
  imports Sync_Session
begin

text \<open>
  Pushes that never end (sync.rs, the rounds of the pack lane): a remote whose list of missing objects
  shrinks and grows again in turn keeps a push going for ever, although no pack is ever uploaded.
\<close>

section \<open>Every pack of a round can be encoded\<close>

definition rows_stored :: "(bytes \<Rightarrow> digest) \<Rightarrow> object_store \<Rightarrow> (digest \<times> u64) list \<Rightarrow> bool" where
  "rows_stored sha256 st rows \<longleftrightarrow> (\<forall>(d, len) \<in> set rows. \<exists>bs. open_object d st = Inr bs \<and> sha256 bs = d \<and> bs \<noteq> [] \<and> length bs = unat len)"

lemma load_pack_members_stored:
  "rows_stored sha256 st rows \<Longrightarrow> \<exists>loaded. load_pack_members st rows = Inr loaded \<and> map pko_digest loaded = map fst rows \<and>
     payload_size loaded = group_bytes rows \<and> slices loaded \<and>
     list_all (\<lambda>object. pko_bytes object \<noteq> [] \<and> sha256 (pko_bytes object) = pko_digest object) loaded"
proof (induction rows)
  case (Cons row rows)
  obtain d len where row: "row = (d, len)" by (cases row)
  obtain bs where bs: "open_object d st = Inr bs" "sha256 bs = d" "bs \<noteq> []" "length bs = unat len"
    using Cons.prems by (auto simp: rows_stored_def row)
  obtain loaded where l: "load_pack_members st rows = Inr loaded" "map pko_digest loaded = map fst rows"
     "payload_size loaded = group_bytes rows" "slices loaded"
     "list_all (\<lambda>object. pko_bytes object \<noteq> [] \<and> sha256 (pko_bytes object) = pko_digest object) loaded"
    using Cons.IH Cons.prems by (auto simp: rows_stored_def)
  have "length bs < 2 ^ 64" unfolding bs(4) using unsigned_less [of len] by simp
  then show ?case using bs l by (simp add: row group_bytes_def slices_def)
qed (simp add: group_bytes_def slices_def)

lemma subseq_keeps_distinct: "subseq xs ys \<Longrightarrow> distinct ys \<Longrightarrow> distinct xs"
  by (induction rule: list_emb.induct) (auto dest: list_emb_set)

lemma group_encodes:
  assumes "rows_stored sha256 st closure" "distinct (map fst closure)" "subseq missing closure"
    and "\<forall>row \<in> set missing. snd row \<le> bound" "unat bound \<le> 67108864" "rows \<in> set (pack_groups bound [] 0 missing)"
  shows "\<exists>encoded. encode_group sha256 st rows = Inr encoded"
proof -
  have whole: "concat (pack_groups bound [] 0 missing) = missing" by (simp add: concat_pack_groups)
  have sub: "set rows \<subseteq> set missing" using assms(6) whole by (metis UN_upper set_concat)
  have "distinct (map fst missing)" by (rule subseq_keeps_distinct [OF subseq_map [OF assms(3)] assms(2)])
  then have dist: "distinct (map fst rows)"
    using assms(6) whole distinct_concat_iff [of "map (map fst) (pack_groups bound [] 0 missing)"] by (auto simp: map_concat [symmetric])
  have "set missing \<subseteq> set closure" using assms(3) by (auto dest: list_emb_set)
  then have "rows_stored sha256 st rows" using assms(1) sub unfolding rows_stored_def by blast
  then obtain loaded where l: "load_pack_members st rows = Inr loaded" "map pko_digest loaded = map fst rows"
     "payload_size loaded = group_bytes rows" "slices loaded"
     "list_all (\<lambda>object. pko_bytes object \<noteq> [] \<and> sha256 (pko_bytes object) = pko_digest object) loaded"
    using load_pack_members_stored by blast
  have bounds: "rows \<noteq> []" "group_bytes rows \<le> unat bound" "length rows \<le> MAX_PACK_OBJECTS"
    using pack_groups_bounded [OF _ assms(5) _ _ _ assms(6)] assms(4) by (simp_all add: group_bytes_def word_le_nat_alt)
  let ?sorted = "sort_key object_key loaded"
  have "mset (map (\<lambda>object. length (pko_bytes object)) ?sorted) = mset (map (\<lambda>object. length (pko_bytes object)) loaded)" by simp
  then have "payload_size ?sorted = payload_size loaded" by (metis sum_mset_sum_list)
  moreover have "sorted_wrt (<) (map object_key ?sorted)"
  proof -
    have "distinct (map digest_bytes (map pko_digest loaded))" using dist unfolding l(2) by (simp add: distinct_map inj_on_def)
    moreover have "mset (map object_key ?sorted) = mset (map object_key loaded)" by simp
    ultimately have "distinct (map object_key ?sorted)" using mset_eq_imp_distinct_iff by (fastforce simp: comp_def)
    then show ?thesis using sorted_sort_key [of object_key loaded] by (simp add: strict_sorted_iff)
  qed
  moreover have "loaded \<noteq> []" "length loaded = length rows" using l(2) bounds(1) map_eq_imp_length_eq [OF l(2)] by auto
  ultimately have "objects_ok sha256 ?sorted"
    using l(3,5) bounds(2,3) assms(5) by (simp add: objects_ok_def list_all_iff MAX_PACK_OBJECTS_def)
      (metis length_0_conv length_sort)
  then show ?thesis using l(1) pack_encode_iff [OF l(4), of sha256 "emit_pack ?sorted"] by (simp add: encode_group_def)
qed

lemma payload_bound_limit: "unat (payload_bound granted) \<le> 67108864"
  by (simp add: payload_bound_def MAX_PACK_PAYLOAD_def MAX_OBJECT_SIZE_def min_def word_le_nat_alt)


section \<open>A remote that grows and shrinks\<close>

fun is_probe :: "sync_call \<Rightarrow> bool" where
  "is_probe (Call_PackGrants session []) = True"
| "is_probe _ = False"

definition probes :: "sync_call list \<Rightarrow> nat" where
  "probes h = length (filter is_probe h)"

text \<open>Every claim has expired, and the probes list more and fewer missing objects in turn.\<close>

definition oscillates :: "sync_transport \<Rightarrow> (digest \<times> u64) list \<Rightarrow> (digest \<times> u64) list \<Rightarrow> bool" where
  "oscillates T many few \<longleftrightarrow>
     (\<forall>h session claim claims. \<exists>e. tr_pack_grants T (h @ [Call_PackGrants session (claim # claims)]) = Inl (TransportError_Expired e)) \<and>
     (\<forall>h session. \<exists>answer. tr_pack_grants T (h @ [Call_PackGrants session []]) = Inr answer \<and> gp_missing_blobs answer = [] \<and>
        gp_missing answer = (if even (probes h) then few else many))"

lemma push_groups_expired:
  assumes "oscillates T many few" "encode_group sha256 (ws_store (sw_ws w)) rows = Inr encoded"
  shows "push_groups T sha256 options session (rows # groups) w =
    (Inr (), w\<lparr>sw_calls := sw_calls w @ [Call_PackGrants session [claim_of sha256 rows encoded]]\<rparr>)"
proof -
  obtain e where "tr_pack_grants T (sw_calls w @ [Call_PackGrants session [claim_of sha256 rows encoded]]) = Inl (TransportError_Expired e)"
    using assms(1) unfolding oscillates_def by blast
  then show ?thesis using assms(2) by (simp add: push_group_def ask_def Let_def)
qed

lemma oscillating_rounds:
  assumes osc: "oscillates T many few" and less: "few \<noteq> []" "length few < length many"
    and lanes: "verify_lanes closure many [] bound = Inr ()" "verify_lanes closure few [] bound = Inr ()"
    and enc: "\<exists>encoded. encode_group sha256 (ws_store (sw_ws w)) (hd (pack_groups bound [] 0 many)) = Inr encoded"
      "\<exists>encoded. encode_group sha256 (ws_store (sw_ws w)) (hd (pack_groups bound [] 0 few)) = Inr encoded"
    and "1 < unat (po_max_stalled_replans options)" "even (probes (sw_calls w))"
  shows "push_rounds T sha256 options session closure bound many 0 w = None"
proof -
  let ?inv = "\<lambda>missing stalled v. sw_ws v = sw_ws w \<and>
    (missing = many \<and> even (probes (sw_calls v)) \<and> stalled \<le> 1 \<or> missing = few \<and> odd (probes (sw_calls v)) \<and> stalled = (0 :: nat))"
  have "T' = T \<longrightarrow> sha' = sha256 \<longrightarrow> options' = options \<longrightarrow> closure' = closure \<longrightarrow> bound' = bound \<longrightarrow> \<not> ?inv missing stalled v"
    if "push_rounds T' sha' options' session' closure' bound' missing stalled v = Some result"
    for T' sha' options' session' closure' bound' missing stalled v result
    using that
  proof (induction rule: push_rounds.raw_induct [rotated, consumes 1])
    case (1 rounds T' sha' options' session closure' bound' missing stalled v result)
    show ?case
    proof (intro impI notI)
      assume eqs: "T' = T" "sha' = sha256" "options' = options" "closure' = closure" "bound' = bound" and inv: "?inv missing stalled v"
      have ne: "missing \<noteq> []" using inv less by auto
      then obtain rows groups where groups: "pack_groups bound [] 0 missing = rows # groups"
        using concat_pack_groups [of bound "[]" 0 missing] by (cases "pack_groups bound [] 0 missing") auto
      obtain encoded where "encode_group sha256 (ws_store (sw_ws v)) rows = Inr encoded" using enc inv groups by auto
      note gone = push_groups_expired [OF osc this, of options session groups]
      let ?v = "v\<lparr>sw_calls := sw_calls v @ [Call_PackGrants session [claim_of sha256 rows encoded]]\<rparr>"
      let ?u = "update_report (\<lambda>r. r\<lparr>pu_replans := pu_replans r + 1\<rparr>) ?v"
      have same: "probes (sw_calls ?u) = probes (sw_calls v)" by (simp add: probes_def)
      have "\<exists>answer. tr_pack_grants T (h @ [Call_PackGrants session []]) = Inr answer \<and> gp_missing_blobs answer = [] \<and>
        gp_missing answer = (if even (probes h) then few else many)" for h
        by (rule osc [unfolded oscillates_def, THEN conjunct2, THEN spec, THEN spec])
      from this [of "sw_calls ?u"] obtain answer where an: "tr_pack_grants T (sw_calls ?u @ [Call_PackGrants session []]) = Inr answer"
        "gp_missing_blobs answer = []" "gp_missing answer = (if even (probes (sw_calls v)) then few else many)"
        unfolding same by blast
      let ?z = "?u\<lparr>sw_calls := sw_calls ?u @ [Call_PackGrants session []]\<rparr>"
      have lane: "verify_lanes closure (gp_missing answer) (gp_missing_blobs answer) bound = Inr ()" using lanes an by simp
      have more: "\<exists>n. rounds T sha256 options session closure bound (gp_missing answer) n ?z = Some result \<and> ?inv (gp_missing answer) n ?z"
        using 1(2) ne gone groups an(1,3) lane inv less assms(8) unfolding eqs
        by (auto simp: ask_def probes_def split: if_splits)
      then show False using 1(1) eqs by blast
    qed
  qed
  then have "push_rounds T sha256 options session closure bound many 0 w \<noteq> Some result" for result using assms(9) by blast
  then show ?thesis by (cases "push_rounds T sha256 options session closure bound many 0 w") auto
qed


section \<open>The calls of a push that does not end\<close>

text \<open>The remote that answers like another one, and refuses every call once the history is longer than \<open>n\<close>:
  it shows what a push has called after so many answers.\<close>

definition cut_error :: transport_error where
  "cut_error = TransportError_Refused ''cut'' ''off''"

definition cut :: "nat \<Rightarrow> 'a \<Rightarrow> (sync_call list \<Rightarrow> 'a) \<Rightarrow> sync_call list \<Rightarrow> 'a" where
  "cut n refusal answer h = (if n < length h then refusal else answer h)"

definition cut_off :: "nat \<Rightarrow> sync_transport \<Rightarrow> sync_transport" where
  "cut_off n T =
     \<lparr>tr_declare = cut n (Inl cut_error) (tr_declare T), tr_pack_grants = cut n (Inl cut_error) (tr_pack_grants T),
      tr_upload_pack = cut n ([], Inl cut_error) (tr_upload_pack T), tr_blob_grants = cut n (Inl cut_error) (tr_blob_grants T),
      tr_upload_part = cut n ([], Inl cut_error) (tr_upload_part T), tr_report_parts = cut n (Inl cut_error) (tr_report_parts T),
      tr_complete = cut n (Inl cut_error) (tr_complete T), tr_head = cut n (Inl cut_error) (tr_head T),
      tr_download_grants = cut n (Inl cut_error) (tr_download_grants T), tr_download = cut n ([], [], Inl cut_error) (tr_download T)\<rparr>"

fun is_upload :: "sync_call \<Rightarrow> bool" where
  "is_upload (Call_UploadPack grant encoded) = True"
| "is_upload (Call_UploadPart part buffer) = True"
| "is_upload _ = False"

text \<open>A cut push: it was refused at the end of the allowed history, and uploaded nothing on the way.\<close>

definition idle_until :: "nat \<Rightarrow> sync_world \<Rightarrow> (sync_error + 'a) \<times> sync_world \<Rightarrow> bool" where
  "idle_until n w outcome \<longleftrightarrow> fst outcome = Inl (SyncError_Transport cut_error) \<and>
     (\<exists>calls. sw_calls (snd outcome) = sw_calls w @ calls \<and> length (sw_calls w @ calls) = Suc n \<and> (\<forall>call \<in> set calls. \<not> is_upload call)) \<and>
     pu_uploaded_bytes (sw_report (snd outcome)) = pu_uploaded_bytes (sw_report w)"

lemma cut_off_answers:
  "tr_declare (cut_off n T) h = (if n < length h then Inl cut_error else tr_declare T h)"
  "tr_pack_grants (cut_off n T) h = (if n < length h then Inl cut_error else tr_pack_grants T h)"
  by (simp_all add: cut_off_def cut_def)

lemma idle_until_step:
  "idle_until n w1 outcome \<Longrightarrow> sw_calls w1 = sw_calls w @ calls \<Longrightarrow> \<forall>call \<in> set calls. \<not> is_upload call \<Longrightarrow>
   pu_uploaded_bytes (sw_report w1) = pu_uploaded_bytes (sw_report w) \<Longrightarrow> idle_until n w outcome"
  unfolding idle_until_def by (metis Un_iff append.assoc set_append)

lemma idle_rounds:
  assumes osc: "oscillates T many few" and less: "few \<noteq> []" "length few < length many"
    and lanes: "verify_lanes closure many [] bound = Inr ()" "verify_lanes closure few [] bound = Inr ()"
    and enc: "\<exists>encoded. encode_group sha256 (ws_store (sw_ws v)) (hd (pack_groups bound [] 0 many)) = Inr encoded"
      "\<exists>encoded. encode_group sha256 (ws_store (sw_ws v)) (hd (pack_groups bound [] 0 few)) = Inr encoded"
    and budget: "1 < unat (po_max_stalled_replans options)"
    and "missing = many \<and> even (probes (sw_calls v)) \<and> stalled \<le> 1 \<or> missing = few \<and> odd (probes (sw_calls v)) \<and> stalled = (0 :: nat)"
    and "length (sw_calls v) \<le> n"
  shows "\<exists>outcome. push_rounds (cut_off n T) sha256 options session closure bound missing stalled v = Some outcome \<and> idle_until n v outcome"
  using enc assms(9,10)
proof (induction "n - length (sw_calls v)" arbitrary: v missing stalled rule: less_induct)
  case less: less
  have ne: "missing \<noteq> []" using less.prems(3) assms(2,3) by auto
  then obtain rows groups where groups: "pack_groups bound [] 0 missing = rows # groups"
    using concat_pack_groups [of bound "[]" 0 missing] by (cases "pack_groups bound [] 0 missing") auto
  obtain encoded where e: "encode_group sha256 (ws_store (sw_ws v)) rows = Inr encoded" using less.prems(1-3) groups by auto
  let ?claim = "Call_PackGrants session [claim_of sha256 rows encoded]" and ?probe = "Call_PackGrants session []"
  let ?v = "v\<lparr>sw_calls := sw_calls v @ [?claim]\<rparr>"
  let ?u = "update_report (\<lambda>r. r\<lparr>pu_replans := pu_replans r + 1\<rparr>) ?v"
  let ?z = "?u\<lparr>sw_calls := sw_calls ?u @ [?probe]\<rparr>"
  obtain x where x: "tr_pack_grants T (sw_calls v @ [?claim]) = Inl (TransportError_Expired x)" using osc unfolding oscillates_def by blast
  show ?case
  proof (cases "length (sw_calls v) = n")
    case True
    then have "push_groups (cut_off n T) sha256 options session (rows # groups) v = (Inl (SyncError_Transport cut_error), ?v)"
      using e by (simp add: push_group_def ask_def cut_off_answers cut_error_def Let_def)
    then show ?thesis using ne groups True by (subst push_rounds.simps) (simp add: idle_until_def)
  next
    case False
    then have one: "push_groups (cut_off n T) sha256 options session (rows # groups) v = (Inr (), ?v)"
      using e x less.prems(4) by (simp add: push_group_def ask_def cut_off_answers Let_def)
    show ?thesis
    proof (cases "Suc (length (sw_calls v)) = n")
      case True
      then show ?thesis using ne groups one
        by (subst push_rounds.simps) (simp add: ask_def cut_off_answers update_report_def idle_until_def)
    next
      case more: False
      have same: "probes (sw_calls ?u) = probes (sw_calls v)" by (simp add: probes_def update_report_def)
      obtain answer where an: "tr_pack_grants T (sw_calls ?u @ [?probe]) = Inr answer"
        "gp_missing_blobs answer = []" "gp_missing answer = (if even (probes (sw_calls v)) then few else many)"
        using osc unfolding oscillates_def same [symmetric] by blast
      have fits: "length (sw_calls ?z) \<le> n" using False more less.prems(4) by (simp add: update_report_def)
      have lane: "verify_lanes closure (gp_missing answer) (gp_missing_blobs answer) bound = Inr ()" using lanes an by simp
      have "\<exists>k. push_rounds (cut_off n T) sha256 options session closure bound missing stalled v =
          push_rounds (cut_off n T) sha256 options session closure bound (gp_missing answer) k ?z \<and>
          (gp_missing answer = many \<and> even (probes (sw_calls ?z)) \<and> k \<le> 1 \<or> gp_missing answer = few \<and> odd (probes (sw_calls ?z)) \<and> k = 0)"
        using ne one groups an lane less.prems(3) assms(3) budget fits
        by (subst push_rounds.simps) (auto simp: ask_def cut_off_answers probes_def update_report_def)
      then obtain k where k: "push_rounds (cut_off n T) sha256 options session closure bound missing stalled v =
          push_rounds (cut_off n T) sha256 options session closure bound (gp_missing answer) k ?z"
        "gp_missing answer = many \<and> even (probes (sw_calls ?z)) \<and> k \<le> 1 \<or> gp_missing answer = few \<and> odd (probes (sw_calls ?z)) \<and> k = 0"
        by blast
      obtain outcome where o: "push_rounds (cut_off n T) sha256 options session closure bound (gp_missing answer) k ?z = Some outcome" "idle_until n ?z outcome"
      proof -
        have "n - length (sw_calls ?z) < n - length (sw_calls v)" "sw_ws ?z = sw_ws v" using fits by (simp_all add: update_report_def)
        then show thesis using that less.hyps [OF _ _ _ k(2) fits] less.prems(1,2) by auto
      qed
      have "idle_until n v outcome"
        by (rule idle_until_step [OF o(2), of v "[?claim, ?probe]"]) (simp_all add: update_report_def)
      then show ?thesis using o(1) k(1) by simp
    qed
  qed
qed


section \<open>A whole push against such a remote\<close>

lemma pending_lease_acquired:
  assumes "load_snapshot u sha256 ws sid = Inr s"
  obtains l ws1 where "acquire_pending_sync_lease u sha256 sid holder ws = (Inr (l, s), ws1)" "ws_store ws1 = ws_store ws"
  using assms by (simp add: load_snapshot_def acquire_pending_sync_lease_def transact_def insert_lease_def Let_def)

lemma report_have_uploads [simp]:
  "pu_uploaded_bytes (sw_report (report_have closure held w)) = pu_uploaded_bytes (sw_report w)"
proof -
  have "sw_report (fold (\<lambda>d w. case map_of closure d of Some len \<Rightarrow> sink_object d len w | None \<Rightarrow> w) held w) = sw_report w" for w
    by (induction held arbitrary: w) (auto simp: sink_object_def split: option.splits)
  then show ?thesis by (simp add: report_have_def update_report_def)
qed

lemma turning_push:
  assumes load: "load_snapshot u sha256 (sw_ws w) sid = Inr s" and stored: "rows_stored sha256 (ws_store (sw_ws w)) (data_closure s)"
    and osc: "oscillates T many few" and less: "few \<noteq> []" "length few < length many"
    and plan: "tr_declare T (sw_calls w @ [Call_Declare (to_bytes s) head]) = Inr plan" "spl_snapshot_id plan = sid"
      "spl_missing plan = many" "spl_missing_blobs plan = []"
    and rows: "subseq many (data_closure s)" "subseq few (data_closure s)"
      "\<forall>row \<in> set many \<union> set few. snd row \<le> payload_bound (spl_max_pack_payload plan)"
    and budget: "1 < unat (po_max_stalled_replans options)" "even (probes (sw_calls w))"
  shows "push_snapshot u sha256 T sid head options w = None"
    and "length (sw_calls w) \<le> n \<Longrightarrow> \<exists>outcome. push_snapshot u sha256 (cut_off n T) sid head options w = Some outcome \<and>
      idle_until n (w\<lparr>sw_report := push_report_default\<rparr>) outcome"
proof -
  obtain l ws1 where l: "acquire_pending_sync_lease u sha256 sid PUSH_LEASE_HOLDER (sw_ws w) = (Inr (l, s), ws1)" "ws_store ws1 = ws_store (sw_ws w)"
    by (rule pending_lease_acquired [OF load])
  let ?cl = "data_closure s" and ?bound = "payload_bound (spl_max_pack_payload plan)" and ?call = "Call_Declare (to_bytes s) head"
  let ?w = "report_have ?cl (spl_have plan) ((w\<lparr>sw_ws := ws1\<rparr>)\<lparr>sw_report := push_report_default, sw_calls := sw_calls w @ [?call]\<rparr>)"
  have lanes: "verify_lanes ?cl many [] ?bound = Inr ()" "verify_lanes ?cl few [] ?bound = Inr ()"
    using rows by (simp_all add: verify_lanes_iff data_closure_digests(2))
  have ne: "pack_groups ?bound [] 0 missing \<noteq> []" if "missing \<noteq> []" for missing
    using that concat_pack_groups [of ?bound "[]" 0 missing] by auto
  have enc: "\<exists>encoded. encode_group sha256 (ws_store (sw_ws ?w)) (hd (pack_groups ?bound [] 0 missing)) = Inr encoded"
    if "missing = many \<or> missing = few" for missing
  proof -
    have "missing \<noteq> []" "subseq missing ?cl" "\<forall>row \<in> set missing. snd row \<le> ?bound" using that less rows by auto
    then show ?thesis
      using group_encodes [OF stored data_closure_digests(2) _ _ payload_bound_limit hd_in_set [OF ne]] l(2) by simp
  qed
  note encs = enc [OF disjI1 [OF refl]] enc [OF disjI2 [OF refl]]
  have probe: "even (probes (sw_calls ?w))" using budget(2) by (simp add: probes_def)
  have "push_rounds T sha256 options (spl_session plan) ?cl ?bound many 0 ?w = None"
    by (rule oscillating_rounds [OF osc less lanes encs budget(1) probe])
  then show "push_snapshot u sha256 T sid head options w = None"
    using plan lanes(1) by (simp add: push_snapshot_def l push_leased_def ask_def push_blobs_def Let_def)
  assume n: "length (sw_calls w) \<le> n"
  let ?start = "w\<lparr>sw_report := push_report_default\<rparr>"
  have pinned: "idle_until n v (drop_pin l outcome) = idle_until n v outcome" for v :: sync_world and outcome :: "push_report sync_result"
    by (simp add: idle_until_def drop_pin_def split: prod.splits)
  show "\<exists>outcome. push_snapshot u sha256 (cut_off n T) sid head options w = Some outcome \<and> idle_until n ?start outcome"
  proof (cases "length (sw_calls w) = n")
    case True
    let ?v = "(w\<lparr>sw_ws := ws1\<rparr>)\<lparr>sw_report := push_report_default, sw_calls := sw_calls w @ [?call]\<rparr>"
    have "idle_until n ?start (Inl (SyncError_Transport cut_error), ?v)" using True by (simp add: idle_until_def)
    then show ?thesis using True pinned
      by (simp add: push_snapshot_def l push_leased_def ask_def cut_off_answers Let_def)
  next
    case False
    then have fits: "length (sw_calls ?w) \<le> n" using n by simp
    obtain e v where o: "push_rounds (cut_off n T) sha256 options (spl_session plan) ?cl ?bound many 0 ?w = Some (e, v)" "idle_until n ?w (e, v)"
      using idle_rounds [OF osc less lanes encs budget(1) _ fits, of many 0 "spl_session plan"] probe by auto
    have cutting: "e = Inl (SyncError_Transport cut_error)" using o(2) by (simp add: idle_until_def)
    have "push_leased (cut_off n T) sha256 options sid head s (w\<lparr>sw_ws := ws1\<rparr>) = Some (Inl (SyncError_Transport cut_error), v)"
      using plan lanes(1) o(1) fits by (simp add: push_leased_def ask_def cut_off_answers push_blobs_def cutting Let_def)
    moreover have "idle_until n ?w (Inl (SyncError_Transport cut_error) :: sync_error + push_report, v)" using o(2) by (simp add: idle_until_def)
    then have "idle_until n ?start (Inl (SyncError_Transport cut_error) :: sync_error + push_report, v)"
      by (rule idle_until_step [where calls = "[?call]"]) simp_all
    ultimately show ?thesis using pinned by (simp add: push_snapshot_def l)
  qed
qed

end
