(* ===== verification/Sync_Samples.thy ===== *)
theory Sync_Samples
  imports Sync_Stall Workspace_Samples
begin

text \<open>
  A snapshot of two objects, a local store that holds it, a remote that accepts and serves it, and one
  that takes turns in what it says is missing.
\<close>

definition twin :: "u8 \<Rightarrow> bytes" where
  "twin b = replicate 32 b"

definition twin_digest :: "u8 \<Rightarrow> digest" where
  "twin_digest b = digest_of_bytes (twin b)"

definition twin_snapshot :: snapshot where
  "twin_snapshot = \<lparr>snap_parent = None, snap_entries = [(''f'', Entry_File False (FileBody_Blob 32 (twin_digest 2))),
     (''g'', Entry_File False (FileBody_Blob 32 (twin_digest 3))), (''h'', Entry_Directory)]\<rparr>"

definition twin_id :: snapshot_id where
  "twin_id = snapshot_id_of digest_of_bytes twin_snapshot"

lemma twin_decodes:
  "decode ascii_unicode (to_bytes twin_snapshot) = Inr twin_snapshot" "length (to_bytes twin_snapshot) < 2 ^ 64"
proof -
  show "length (to_bytes twin_snapshot) < 2 ^ 64"
    by (simp add: to_bytes_def emit_def emit_parent_def emit_pair_def emit_path_def twin_snapshot_def TFM1_MAGIC_def)
  then show "decode ascii_unicode (to_bytes twin_snapshot) = Inr twin_snapshot"
    by (simp add: decode_iff snapshot_ok_def twin_snapshot_def path_eval)
qed

lemma twin_snoc: "twin b = replicate 31 b @ [b]"
  by (simp add: twin_def replicate_append_same flip: replicate_Suc)

lemma twin_distinct: "twin_digest 2 \<noteq> twin_digest 3" "twin_digest 3 \<noteq> twin_digest 2"
  "twin_id \<noteq> twin_digest 2" "twin_id \<noteq> twin_digest 3" "twin_digest 2 \<noteq> twin_id" "twin_digest 3 \<noteq> twin_id"
proof -
  obtain xs where xs: "to_bytes twin_snapshot = xs @ [1]"
    by (rule that [of "TFM1_MAGIC @ emit_parent None @ u64_le 3 @ emit_pair (''f'', Entry_File False (FileBody_Blob 32 (twin_digest 2))) @
        emit_pair (''g'', Entry_File False (FileBody_Blob 32 (twin_digest 3))) @ emit_path ''h''"])
      (simp add: to_bytes_def emit_def emit_pair_def twin_snapshot_def)
  have id: "twin_id = digest_of_bytes (xs @ [1])" by (simp add: twin_id_def snapshot_id_of_def xs)
  have tw: "twin_digest b = digest_of_bytes (replicate 31 b @ [b])" for b by (simp add: twin_digest_def twin_snoc)
  show "twin_digest 2 \<noteq> twin_digest 3" "twin_id \<noteq> twin_digest 2" "twin_id \<noteq> twin_digest 3"
    unfolding id tw by (auto dest: digest_of_bytes_last)
  then show "twin_digest 3 \<noteq> twin_digest 2" "twin_digest 2 \<noteq> twin_id" "twin_digest 3 \<noteq> twin_id" by auto
qed

definition twin_rows :: "(digest \<times> u64) list" where
  "twin_rows = [(twin_digest 2, 32), (twin_digest 3, 32)]"

lemma twin_closure: "data_closure twin_snapshot = twin_rows"
  using twin_distinct by (simp add: data_closure_def twin_snapshot_def twin_rows_def)

lemma twin_records: "set (snapshot_record_digests twin_snapshot) = {twin_digest 2, twin_digest 3}"
  by (simp add: snapshot_record_digests_def twin_snapshot_def)


section \<open>The local side\<close>

definition twin_store :: object_store where
  "twin_store = store_new\<lparr>os_objects := [(twin_id, Resident_File (to_bytes twin_snapshot) True),
     (twin_digest 2, Resident_File (twin 2) True), (twin_digest 3, Resident_File (twin 3) True)]\<rparr>"

definition world_of :: "workspace_store \<Rightarrow> sync_world" where
  "world_of ws = \<lparr>sw_ws = ws, sw_calls = [], sw_progress = [], sw_report = push_report_default, sw_slept = 0\<rparr>"

definition twin_world :: sync_world where
  "twin_world = world_of \<lparr>ws_store = twin_store, ws_db = metadata_new\<lparr>md_snapshots := [(twin_id, 0)]\<rparr>\<rparr>"

definition empty_world :: sync_world where
  "empty_world = world_of \<lparr>ws_store = store_new, ws_db = metadata_new\<rparr>"

lemma world_of_fields [simp]:
  "sw_ws (world_of ws) = ws" "sw_calls (world_of ws) = []"
  by (simp_all add: world_of_def)

lemma twin_opens:
  "open_object twin_id twin_store = Inr (to_bytes twin_snapshot)" "open_object (twin_digest 2) twin_store = Inr (twin 2)"
  "open_object (twin_digest 3) twin_store = Inr (twin 3)"
  using twin_distinct by (simp_all add: open_object_def resident_at_def twin_store_def)

lemma twin_lens: "open_object d (ws_store (sw_ws twin_world)) = Inr b \<Longrightarrow> length b < 2 ^ 64"
  using twin_decodes(2)
  by (auto simp: twin_world_def open_object_def resident_at_def twin_store_def twin_def split: if_splits option.splits resident.splits)

lemma empty_lens: "open_object d (ws_store (sw_ws empty_world)) = Inr b \<Longrightarrow> length b < 2 ^ 64"
  by (simp add: empty_world_def open_object_def resident_at_def store_new_def)

lemma empty_ok: "ws_ok u sha256 (sw_ws empty_world)"
  by (simp add: empty_world_def ws_ok_def store_new_ok quarantine_ok_def metadata_new_def bt_sorted_def head_objects_def)

lemma twin_hash: "digest_of_bytes (to_bytes twin_snapshot) = twin_id"
  by (simp add: twin_id_def snapshot_id_of_def)

lemma twin_loads: "load_snapshot ascii_unicode digest_of_bytes (sw_ws twin_world) twin_id = Inr twin_snapshot"
  using twin_decodes(1)
  by (simp add: load_snapshot_def read_rooted_snapshot_def read_manifest_object_def twin_world_def twin_opens twin_hash)

lemma twin_leases: "leases_wf (ws_db (sw_ws twin_world))"
  by (simp add: leases_wf_def twin_world_def metadata_new_def bt_sorted_def)


section \<open>The remote side\<close>

definition twin_content :: "digest \<rightharpoonup> bytes" where
  "twin_content = map_of [(twin_id, to_bytes twin_snapshot), (twin_digest 2, twin 2), (twin_digest 3, twin 3)]"

definition twin_remote :: sync_transport where
  "twin_remote =
     \<lparr>tr_declare = (\<lambda>h. Inr \<lparr>spl_snapshot_id = twin_id, spl_session = ''s'', spl_have = [], spl_staged_packs = [],
        spl_missing = twin_rows, spl_missing_blobs = [], spl_max_pack_payload = 0, spl_max_packs_per_request = 1\<rparr>),
      tr_pack_grants = (\<lambda>h. Inr \<lparr>gp_grants = (case last h of
          Call_PackGrants session claims \<Rightarrow> map (\<lambda>c. \<lparr>pg_sha256 = pc_sha256 c, pg_staging_key = [], pg_url = [], pg_headers = []\<rparr>) claims
        | _ \<Rightarrow> []), gp_staged_packs = [], gp_missing = [], gp_missing_blobs = []\<rparr>),
      tr_upload_pack = (\<lambda>h. ([], Inr ())),
      tr_blob_grants = (\<lambda>h. Inr []), tr_upload_part = (\<lambda>h. ([], Inr [])), tr_report_parts = (\<lambda>h. Inr ()),
      tr_complete = (\<lambda>h. Inr CompleteStatus_Promoted), tr_head = (\<lambda>h. Inr (Some twin_id)),
      tr_download_grants = (\<lambda>h. case last h of
          Call_DownloadGrants ds \<Rightarrow> Inr (map (\<lambda>d. \<lparr>dg_digest = d,
            dg_length = (case twin_content d of Some bs \<Rightarrow> of_nat (length bs) | None \<Rightarrow> 0), dg_url = []\<rparr>) ds)
        | _ \<Rightarrow> Inr []),
      tr_download = (\<lambda>h. case last h of
          Call_Download g \<Rightarrow> ([case twin_content (dg_digest g) of Some bs \<Rightarrow> bs | None \<Rightarrow> []], [], Inr 0)
        | _ \<Rightarrow> ([], [], Inr 0))\<rparr>"

lemma twin_content_hash: "twin_content d = Some bs \<Longrightarrow> digest_of_bytes bs = d"
  by (auto simp: twin_content_def twin_id_def snapshot_id_of_def twin_digest_def split: if_splits)

lemma twin_serves: "serves twin_remote twin_content"
  by (auto simp: serves_def twin_remote_def image_image)

lemma twin_content_names: "twin_content twin_id = Some (to_bytes twin_snapshot)"
  "set (snapshot_record_digests twin_snapshot) \<subseteq> dom twin_content"
  by (auto simp: twin_content_def twin_records)

lemma twin_never_grows: "never_grows twin_remote h"
  by (auto simp: never_grows_def owed_after_def twin_remote_def)

lemma twin_unexpired: "blobs_unexpired twin_remote"
  by (simp add: blobs_unexpired_def twin_remote_def)

lemma twin_downloads: "tr_download twin_remote h = (pieces, moved, n) \<Longrightarrow> length (concat pieces) < 2 ^ 64"
  using twin_decodes(2)
  by (auto simp: twin_remote_def twin_content_def twin_def split: sync_call.splits option.splits if_splits)

lemma twin_pulled:
  "\<exists>report w'. pull_snapshot ascii_unicode sample_env sample_hasher digest_of_bytes twin_remote twin_id empty_world = (Inr report, w')"
  by (rule pull_snapshot_served [OF sample_hasher_streams empty_ok twin_serves twin_content_hash
      twin_content_names(1) twin_decodes(1) twin_content_names(2) empty_lens])


section \<open>A whole push\<close>

lemma twin_objects_ok: "objects_ok digest_of_bytes (map (\<lambda>b. \<lparr>pko_digest = twin_digest b, pko_bytes = twin b\<rparr>) [2, 3])"
  "objects_ok digest_of_bytes [\<lparr>pko_digest = twin_digest 2, pko_bytes = twin 2\<rparr>]"
  by (simp_all add: objects_ok_def twin_digest_def twin_def digest_bytes_digest_of_bytes replicate_numeral)

lemma twin_encodes:
  "\<exists>bs. encode_group digest_of_bytes twin_store twin_rows = Inr bs"
  "\<exists>bs. encode_group digest_of_bytes twin_store [hd twin_rows] = Inr bs"
proof -
  let ?objs = "map (\<lambda>b. \<lparr>pko_digest = twin_digest b, pko_bytes = twin b\<rparr>) [2, 3 :: u8]" and ?one = "[\<lparr>pko_digest = twin_digest 2, pko_bytes = twin 2\<rparr>]"
  have len: "length (twin b) = 32" for b by (simp add: twin_def)
  have loaded: "load_pack_members twin_store twin_rows = Inr ?objs" "load_pack_members twin_store [hd twin_rows] = Inr ?one"
    by (simp_all add: twin_rows_def twin_opens len)
  have slices: "slices ?objs" "slices ?one" by (simp_all add: slices_def len)
  have sorted_objs: "sort_key object_key ?objs = ?objs"
    by (simp add: twin_digest_def twin_def digest_bytes_digest_of_bytes replicate_numeral)
  show "\<exists>bs. encode_group digest_of_bytes twin_store twin_rows = Inr bs"
  proof -
    have "pack_encode digest_of_bytes ?objs = Inr (emit_pack ?objs)"
      by (rule pack_encode_iff [OF slices(1), THEN iffD2]) (use twin_objects_ok(1) sorted_objs in simp)
    then show ?thesis using loaded(1) by (simp add: encode_group_def)
  qed
  show "\<exists>bs. encode_group digest_of_bytes twin_store [hd twin_rows] = Inr bs"
  proof -
    have "pack_encode digest_of_bytes ?one = Inr (emit_pack ?one)"
      by (rule pack_encode_iff [OF slices(2), THEN iffD2]) (use twin_objects_ok(2) in simp)
    then show ?thesis using loaded(2) by (simp add: encode_group_def)
  qed
qed

lemma twin_lanes: "verify_lanes (data_closure twin_snapshot) twin_rows [] (payload_bound 0) = Inr ()"
  "verify_lanes (data_closure twin_snapshot) [hd twin_rows] [] (payload_bound 0) = Inr ()"
  using twin_distinct by (simp_all add: twin_closure twin_rows_def verify_lanes_def payload_bound_def MAX_PACK_PAYLOAD_def MAX_OBJECT_SIZE_def)

lemma twin_groups: "pack_groups (payload_bound 0) [] 0 twin_rows = [twin_rows]" "pack_groups (payload_bound 0) [] 0 [hd twin_rows] = [[hd twin_rows]]"
  by (simp_all add: twin_rows_def payload_bound_def MAX_PACK_PAYLOAD_def MAX_OBJECT_SIZE_def MAX_PACK_OBJECTS_def)

lemma twin_acquired:
  "\<exists>l ws1. acquire_pending_sync_lease ascii_unicode digest_of_bytes twin_id PUSH_LEASE_HOLDER (sw_ws twin_world) = (Inr (l, twin_snapshot), ws1) \<and>
     ws_store ws1 = twin_store"
  using twin_loads
  by (simp add: load_snapshot_def acquire_pending_sync_lease_def transact_def insert_lease_def Let_def twin_world_def)

lemma twin_answers:
  "tr_pack_grants twin_remote (h @ [Call_PackGrants session claims]) = Inr \<lparr>gp_grants =
     map (\<lambda>c. \<lparr>pg_sha256 = pc_sha256 c, pg_staging_key = [], pg_url = [], pg_headers = []\<rparr>) claims,
     gp_staged_packs = [], gp_missing = [], gp_missing_blobs = []\<rparr>"
  "tr_upload_pack twin_remote h = ([], Inr ())" "tr_complete twin_remote h = Inr CompleteStatus_Promoted"
  by (simp_all add: twin_remote_def)

lemma twin_group: "ws_store (sw_ws w) = twin_store \<Longrightarrow>
   \<exists>w1. push_group twin_remote digest_of_bytes options ''s'' twin_rows w = (Inr True, w1)"
  using twin_encodes(1) by (auto simp: push_group_def ask_def twin_answers upload_pack_loop.simps Let_def)

lemma twin_round:
  assumes "ws_store (sw_ws w) = twin_store"
  shows "\<exists>w1. push_rounds twin_remote digest_of_bytes options ''s'' (data_closure twin_snapshot) (payload_bound 0) twin_rows 0 w = Some (Inr (), w1)"
proof -
  obtain w1 where w1: "push_group twin_remote digest_of_bytes options ''s'' twin_rows w = (Inr True, w1)" using twin_group [OF assms] by blast
  have none: "verify_lanes (data_closure twin_snapshot) [] [] (payload_bound 0) = Inr ()" by (simp add: verify_lanes_def)
  have "twin_rows \<noteq> []" by (simp add: twin_rows_def)
  then show ?thesis
    by (subst push_rounds.simps) (simp add: twin_groups w1 ask_def twin_answers none push_rounds.simps [where missing = "[]"])
qed

lemma twin_pushed:
  "\<exists>report w'. push_snapshot ascii_unicode digest_of_bytes twin_remote twin_id head options twin_world = Some (Inr report, w')"
proof -
  obtain l ws1 where l: "acquire_pending_sync_lease ascii_unicode digest_of_bytes twin_id PUSH_LEASE_HOLDER (sw_ws twin_world) = (Inr (l, twin_snapshot), ws1)"
    "ws_store ws1 = twin_store" using twin_acquired by blast
  let ?w = "report_have (data_closure twin_snapshot) [] ((twin_world\<lparr>sw_ws := ws1\<rparr>)\<lparr>sw_report := push_report_default,
    sw_calls := [Call_Declare (to_bytes twin_snapshot) head]\<rparr>)"
  obtain w1 where w1: "push_rounds twin_remote digest_of_bytes options ''s'' (data_closure twin_snapshot) (payload_bound 0) twin_rows 0 ?w = Some (Inr (), w1)"
    using twin_round [of ?w] l(2) by auto
  have calls: "sw_calls twin_world = []" by (simp add: twin_world_def)
  have plan: "tr_declare twin_remote h = Inr \<lparr>spl_snapshot_id = twin_id, spl_session = ''s'', spl_have = [], spl_staged_packs = [],
      spl_missing = twin_rows, spl_missing_blobs = [], spl_max_pack_payload = 0, spl_max_packs_per_request = 1\<rparr>" for h
    by (simp add: twin_remote_def)
  show ?thesis
    by (simp add: push_snapshot_def l push_leased_def ask_def plan twin_lanes push_blobs_def w1 calls complete_loop.simps twin_answers drop_pin_def Let_def)
qed


section \<open>A remote that takes turns\<close>

definition turning_remote :: sync_transport where
  "turning_remote = twin_remote\<lparr>tr_pack_grants := (\<lambda>h. case last h of
      Call_PackGrants session [] \<Rightarrow> Inr \<lparr>gp_grants = [], gp_staged_packs = [],
        gp_missing = (if even (probes (butlast h)) then [hd twin_rows] else twin_rows), gp_missing_blobs = []\<rparr>
    | _ \<Rightarrow> Inl (TransportError_Expired ''claim''))\<rparr>"

lemma turning_oscillates: "oscillates turning_remote twin_rows [hd twin_rows]"
  by (auto simp: oscillates_def turning_remote_def)

lemma twin_stored: "rows_stored digest_of_bytes (ws_store (sw_ws twin_world)) (data_closure twin_snapshot)"
proof -
  have "digest_of_bytes (twin b) = twin_digest b" "twin b \<noteq> []" "length (twin b) = 32" for b by (simp_all add: twin_digest_def twin_def)
  then show ?thesis unfolding twin_closure by (simp add: rows_stored_def twin_rows_def twin_world_def twin_opens)
qed

lemma twin_subseqs: "subseq twin_rows (data_closure twin_snapshot)" "subseq [hd twin_rows] (data_closure twin_snapshot)"
  "\<forall>row \<in> set twin_rows \<union> set [hd twin_rows]. snd row \<le> payload_bound 0"
  unfolding twin_closure by (simp_all add: twin_rows_def payload_bound_def MAX_PACK_PAYLOAD_def MAX_OBJECT_SIZE_def)

end
