(* ===== verification/Spec2Isabelle.thy ===== *)
theory Spec2Isabelle
  imports Fused_Samples Seal_Samples Layout_Samples Compose_Samples Sync_Samples
begin

text \<open>
  A model of the core crate of tensorfs: content-addressed storage of model files. A file is cut
  into objects by the sole canonical planner, its objects are named by their SHA-256, and a tree of
  files is recorded as a canonical manifest whose hash names the snapshot.

  Theories and what they model (files under src/crates/tensorfs-core/src):
    \<^item> Prelude: results, checked arithmetic on machine words, little-endian fields, the readers of
      the binary formats with the interface of a field codec, and ordered maps.
    \<^item> Rust_Text: the parts of the standard library on text that the code uses: UTF-8 validation,
      splitting, decimal and hexadecimal numbers.
    \<^item> Contract_Stamp, Contract_Pattern, Contract_Fusion, Contract_Document (contract.rs): contract
      names and stamps, tensor name patterns with holes, fusions and permutes, the contract document,
      its validation, its canonical text, and the seams it declares inside a tensor.
    \<^item> Planner_Types, Planner_Grid (planner/mod.rs): regions, the 64 MiB grid, seams, the coverage
      check. Safetensors (planner/safetensors.rs) and Gguf (planner/gguf.rs): the two containers.
      Planner (planner/mod.rs, object.rs): the entry points and the hashing of a plan. Fused_Objects: the
      seams of a fused tensor cut exactly the parts its contract declares.
    \<^item> Tfm1_Types, Tfm1_Decode, Tfm1_Builder (tfm1.rs): the manifest, its encoding, the strict decoder
      and the builder.
    \<^item> Tfp1 (tfp1.rs): packs of objects, their index and their canonical encoder.
    \<^item> Store, Store_Admission (store.rs): the object store on disk as ordered maps of digest paths and
      temporary names, the leased and verifying writer, admission of bytes, regions and ranges,
      removal, listing and the collection of abandoned temporaries beside other processes, and their
      refinement of the abstract content-addressed store.
    \<^item> Records (workspace_source.rs, stream.rs): a committed record run as a byte source and as a
      stream, buffered or with aligned direct reads.
    \<^item> Workspace_Db, Workspace (workspace.rs): the metadata tables with their key, foreign-key and
      cascade rules, paths, mutations; workspaces, commits, snapshot roots, leases, marking,
      collection and usage. Workspace_Gc says what a collection does, Workspace_Safety that every
      operation keeps the invariant, Workspace_Runs composes them to a state machine,
      Workspace_Truncate is about truncation.
    \<^item> Workspace_Seal (workspace.rs): the staging walk over the directories, the listing of a head, the
      planning of a seal and its transaction. Head_Tree relates the listing to path resolution and says
      when the walk ends, Seal_Content that a seal keeps the bytes of a file, Seal_Safety that it keeps
      the invariant.
    \<^item> Layout_Morphism (layout_morphism.rs): records of storage arrangements, shape formulas, plans, the
      walk over runs, both copies, ratification, the catalog. Mixed_Radix and Layout_Walk give the
      reference: an arrangement as a change of mixed-radix digits. Layout_Plans shows that the plan of a
      checked record is an arrangement, Layout_Runs that the walk is the reference, Layout_Copies what
      the copies write. Layout_Fill (layout_fill.rs): chunked sources and the fill; Layout_Sinks: the
      contract of a sink as a locale, and that the host sink meets it.
    \<^item> Adapter (adapter.rs): the byte runs of a file by role, the decision whether a target contract is a
      view of it, and the permute kernel. Adapter_Views says what a view covers, Permute_Kernel that the
      kernel is the transposition of Mixed_Radix and is undone by the inverse axes.
    \<^item> Compose (compose.rs): selection, inheritance of record runs, the header writer, re-keying, trimming,
      adoption and derivation over the object store. Compose_Content says which bytes they compose.
    \<^item> Sync (sync.rs): the transport as a record of answers to the calls made so far, the closure of a
      snapshot, the checks of the remote's view, packs, the blob lane, completion, pushing under a lease and
      pulling. Sync_Pull says what a pull does against any remote and that it succeeds against one that holds
      the snapshot, Sync_Push which calls a push makes, Sync_Session what a whole push leaves behind and when it
      returns, Sync_Stall when it does not and what it calls then.
    \<^item> Samples, Fused_Samples, Store_Samples, Workspace_Samples, Seal_Samples, Layout_Samples, Adapter_Samples,
      Compose_Samples, Sync_Samples: the concrete inputs of the witnesses.

  State and effects. A byte source is a record of its captured length, its positional reads and the
  outcome of each call of check_unchanged, numbered in the order of the calls. Fallible code returns
  a sum with the error on the left; every error of the source is a constructor. Integers are words of
  their width; loops over them are functions with a termination proof, so no fuel is used; the walk over
  the directories, the loop of the permute kernel and the replan rounds of a push, which may run forever, are
  partial functions whose value is then None.
  Allocation failure is not modelled: a failing reservation is the only error constructor that no
  definition returns. A usize is 64 bits wide.

  The state of the store is the object map, the temporaries and the counters; the state of the
  workspaces adds the metadata tables. An operation returns its result and the state it leaves, on
  errors too. Concurrency: a step of the state machine is one operation under the metadata lock or one
  admission; what commit and adoption do before they take the lock is a separate definition, so that
  other steps can come in between. A transfer runs on one local state that nothing else changes; the remote
  is arbitrary, so that no property of a transfer assumes more of its answers than is written in it.

  Parameters. The sync transport, SHA-256, the incremental hasher, the JSON parser, the JSON quoting of a string, the JSON
  deserialiser of a contract document and the Unicode tables (normalisation check, lower-casing) are arguments; what is relied on
  is a named hypothesis: hasher_streams, or injectivity of the hash on the two inputs in question. The collector of
  abandoned temporaries takes the clock, the answers of its system calls and what other processes do between them
  as arguments. The row id of a new row follows SQLite's documented rule for an integer primary key without
  autoincrement (one more than the largest), which is written out as next_rowid.

  What the properties show. Snapshots: the decoder accepts exactly the canonical encodings, the builder
  produces decodable snapshots independent of declaration order, hardlinks and parents resolve. Plans:
  every returned plan partitions the file, every readable file gets one, the objects of the plan are
  the file, and equal tensors share their objects across containers and across the fused and the split
  packaging. Store: puts refine the abstract map, concurrent admission equals the serial loop, the
  stored regions rebuild the file, the collector of temporaries takes exactly the abandoned ones and never
  one that a writer keeps leased. Workspaces: in every
  reachable state what is named is resident, garbage is gone after three passes, usage is exact,
  reads and truncation agree with the content, sealing keeps the bytes of a file, listing a head agrees
  with path resolution; three properties record a lease that destroys a tree, an adoption that races
  with a collection and a removal that makes the listing run forever when the row id of the root is assigned again. Arrangements: the walk is a
  bijection onto the mapped slots, the copies are inverse, ratification accepts every sound record and a
  fill lands the arranged bytes; one property records a sink that its interface allows and the fill
  refuses. Adapters and compositions: a view keeps every byte of the described tensors and its shapes count
  its bytes, a rearrangement is undone exactly, an inherited run is the block of records on its range, and
  a re-keyed, adopted or derived file holds exactly the bytes it should; one property records that a file with a
  small fused tensor is no view of a contract that asks for its parts. Sync: a pull admits only verified bytes and changes no
  metadata unless it succeeds, a push sends only the snapshot under matching grants, both get through when
  the remote does its part; one property records the remotes that a push follows forever without
  an upload. Contracts: patterns, stamps and permutes behave as inverse
  pairs, validated documents are well formed, seams stay inside the tensor; three properties record where
  the code departs from its documentation.

  Not modelled: the Python and CUDA bindings (foreign-function glue), the SQL of workspace_db.rs, the
  projected directory trees of layout.rs, the HTTP adapter of the sync transport, the
  floating-point ratio of the fill statistics, the texts of error details, and the parts listed as such
  in the component list.
\<close>

section \<open>Snapshots and their canonical bytes\<close>

text \<open>C1: The decoder accepts exactly the canonical encodings: a byte string (shorter than the
  address range) decodes to a snapshot if and only if the snapshot satisfies every path, record,
  ordering, hardlink and topology rule and the bytes are its encoding. So re-encoding a decoded
  manifest reproduces the input, and no second byte string denotes the same snapshot.\<close>

theorem tfm1_decode_exact:
  "length bs < 2 ^ 64 \<Longrightarrow> decode u bs = Inr s \<longleftrightarrow> snapshot_ok u s \<and> bs = to_bytes s"
  by (rule decode_iff)

theorem tfm1_decode_exact_witness:
  "length (to_bytes sample_snapshot) < 2 ^ 64 \<and>
   decode ascii_unicode (to_bytes sample_snapshot) = Inr sample_snapshot"
  using tfm1_decode_exact [OF sample_snapshot_length, of ascii_unicode sample_snapshot]
    sample_snapshot_ok sample_snapshot_length by blast

text \<open>C2: Whatever the builder finishes is readable: the canonical bytes of the snapshot it returns
  decode to that very snapshot.\<close>

theorem builder_finish_decodes:
  assumes "builder_typed b" "builder_finish u b = Inr s" "length (to_bytes s) < 2 ^ 64"
  shows "decode u (to_bytes s) = Inr s"
  using assms by (simp add: decode_iff builder_finish_ok)

theorem builder_finish_decodes_witness:
  "builder_finish ascii_unicode sample_builder = Inr sample_snapshot \<and>
   decode ascii_unicode (to_bytes sample_snapshot) = Inr sample_snapshot"
  using builder_finish_decodes [OF sample_builder_typed sample_builder_finish sample_snapshot_length]
    sample_builder_finish by blast

text \<open>C3: The snapshot depends on the tree and not on the order of the declarations: permuting the
  declarations of a builder that finishes gives the same snapshot, hence the same bytes and the
  same identity.\<close>

theorem builder_order_independent:
  assumes "builder_finish u b = Inr s" "mset (sb_pending b) = mset (sb_pending b')"
    and "sb_parent b = sb_parent b'"
  shows "builder_finish u b' = Inr s"
  using assms by (rule builder_finish_permuted)

theorem builder_order_independent_witness:
  "builder_finish ascii_unicode \<lparr>sb_parent = None, sb_pending = rev (sb_pending sample_builder)\<rparr> =
   Inr sample_snapshot"
  using builder_order_independent [OF sample_builder_finish,
      of "\<lparr>sb_parent = None, sb_pending = rev (sb_pending sample_builder)\<rparr>"]
  by (simp add: builder_eval)

text \<open>C4: The encoding is injective on valid snapshots, so two snapshots with the same identity are
  equal unless the hash collides on their two encodings.\<close>

theorem snapshot_identity:
  assumes "snapshot_ok u s" "snapshot_ok u t" "length (to_bytes s) < 2 ^ 64"
    and "snapshot_id_of sha256 s = snapshot_id_of sha256 t"
    and "inj_on sha256 {to_bytes s, to_bytes t}"
  shows "s = t"
proof -
  have eq: "to_bytes s = to_bytes t"
    using inj_onD [OF assms(5) assms(4) [unfolded snapshot_id_of_def]] by blast
  have "decode u (to_bytes s) = Inr s" using decode_iff [OF assms(3)] assms(1) by blast
  moreover have "decode u (to_bytes s) = Inr t" using decode_iff [OF assms(3)] assms(2) eq by blast
  ultimately show ?thesis by simp
qed

theorem snapshot_identity_witness:
  "snapshot_ok ascii_unicode sample_snapshot \<and>
   snapshot_id_of (\<lambda>_. 0) sample_snapshot =
     snapshot_id_of (\<lambda>_. 0) \<lparr>snap_parent = None, snap_entries = snap_entries sample_snapshot\<rparr> \<and>
   sample_snapshot = \<lparr>snap_parent = None, snap_entries = snap_entries sample_snapshot\<rparr>"
proof -
  have eq: "\<lparr>snap_parent = None, snap_entries = snap_entries sample_snapshot\<rparr> = sample_snapshot"
    by (simp add: sample_snapshot_def)
  have "sample_snapshot = sample_snapshot"
    by (rule snapshot_identity [OF sample_snapshot_ok sample_snapshot_ok sample_snapshot_length])
      simp_all
  then show ?thesis using sample_snapshot_ok eq by simp
qed

text \<open>In a decoded manifest every hardlink ordinal names a regular file that stands earlier in
  the manifest, and \<open>ordinal_path\<close> resolves it to that file's path.\<close>

theorem hardlink_resolves:
  assumes "length bs < 2 ^ 64" "decode u bs = Inr s" "(path, Entry_Hardlink k) \<in> set (snap_entries s)"
  shows "\<exists>carrier executable body. ordinal_path s k = Some carrier \<and> carrier < path \<and>
    (carrier, Entry_File executable body) \<in> set (snap_entries s)"
  using hardlink_carrier [of u "snap_entries s" path k] assms
  by (simp add: decode_iff snapshot_ok_def ordinal_path_def)

theorem hardlink_resolves_witness:
  "\<exists>carrier executable body. ordinal_path sample_snapshot 0 = Some carrier \<and> carrier < ''d'' \<and>
    (carrier, Entry_File executable body) \<in> set (snap_entries sample_snapshot)"
  by (rule hardlink_resolves [OF sample_snapshot_length, of ascii_unicode])
    (simp add: decode_iff [OF sample_snapshot_length] sample_snapshot_ok, simp add: sample_snapshot_def)

text \<open>In a decoded manifest every ancestor of an entry is itself an entry, and a directory.\<close>

theorem ancestors_are_directories:
  assumes "length bs < 2 ^ 64" "decode u bs = Inr s" "(q @ ''/'' @ r, e) \<in> set (snap_entries s)"
  shows "(q, Entry_Directory) \<in> set (snap_entries s)"
  using ancestor_is_directory [of u "snap_entries s" q r e] assms
  by (simp add: decode_iff snapshot_ok_def)

theorem ancestors_are_directories_witness:
  "(''a'', Entry_Directory) \<in> set (snap_entries sample_snapshot)"
  by (rule ancestors_are_directories [OF sample_snapshot_length, of ascii_unicode _ _ "''b''"])
    (simp add: decode_iff [OF sample_snapshot_length] sample_snapshot_ok, simp add: sample_snapshot_def)

text \<open>A declared hardlink is refused only because its target is not a declared file; once the
  groups are formed, looking up the ordinal of its carrier never fails.\<close>

theorem builder_ordinals_assigned:
  "builder_resolve u b \<noteq> Inl Tfm1Error_HardlinkOrdinal"
  using builder_resolve_error by blast

text \<open>The record rule of a tensor body: bounded count, no empty record, no two holes in a row,
  data records on the grid, and lengths that sum to the logical size as natural numbers, so
  without wrap-around.\<close>

theorem validate_records_exact:
  "validate_records records logical_size = Inr () \<longleftrightarrow>
   length records \<le> 1000000 \<and> list_all (\<lambda>r. record_length r \<noteq> 0) records \<and>
   successively (\<lambda>a b. \<not> (is_hole a \<and> is_hole b)) records \<and>
   sum_list (map (unat \<circ> record_length) records) = unat logical_size \<and>
   \<not> list_ex data_too_large records"
  by (simp add: validate_records_iff list_all_iff)

section \<open>Planning and hashing a file\<close>

text \<open>C5: A returned plan covers the source exactly: its regions start at zero, follow each other
  without gap or overlap, none is empty, and they end at the captured length; there are at most a
  million of them, a blob plan has at most one, and the regions of a tensor plan fit the grid.\<close>

theorem plan_covers_file:
  assumes "plan_with sha256 json_parse k source con = Inr p"
  shows "tiles 0 (plan_regions p) (unat (src_len source)) \<and> length (plan_regions p) \<le> 1000000 \<and>
    (if plan_planner p = PlannerId_BlobV1 then length (plan_regions p) \<le> 1 \<and> plan_contract p = Stamp_None
     else on_grid (plan_regions p) \<and> plan_contract p = plan_stamp sha256 con)"
  using assms plan_once_Inr [of sha256 json_parse source con p]
  by (simp add: plan_with_Inr_iff plan_validate_iff MAX_OBJECT_COUNT_def)

theorem plan_covers_file_witness:
  "\<exists>p. plan_with digest_of_bytes sample_json 0 (slice_source sample_gguf) None = Inr p \<and>
   tiles 0 (plan_regions p) 128 \<and> on_grid (plan_regions p)"
proof -
  have len: "unat (src_len (slice_source sample_gguf)) = 128"
    by (simp add: slice_source_def sample_gguf_eval)
  obtain p where p: "plan_with digest_of_bytes sample_json 0 (slice_source sample_gguf) None = Inr p"
    and fmt: "plan_planner p = PlannerId_GgufV1"
    using sample_gguf_plan [of digest_of_bytes] by (simp add: plan_with_Inr_iff slice_source_def)
  show ?thesis using plan_covers_file [OF p] p fmt by (simp add: len)
qed

text \<open>C6: Planning and hashing a readable, unchanging file always returns: a malformed or
  adversarial header is never an error but falls back to the next planner and in the end to the
  whole-file blob. The only condition is that the shares of every declared fusion sum without
  wrap-around.\<close>

theorem plan_and_hash_returns:
  assumes "length file < 2 ^ 64" "contract_fits con"
  shows "\<exists>h. plan_and_hash_under hs sha256 json_parse (slice_source file) con = Inr h"
  using assms by (rule plan_and_hash_slice_total)

theorem plan_and_hash_returns_witness:
  "contract_fits None \<and>
   (\<exists>h. plan_and_hash_under sample_hasher digest_of_bytes sample_json (slice_source [1, 2, 3]) None = Inr h)"
  using plan_and_hash_returns [of "[1, 2, 3]" None] by (simp add: contract_fits_def)

text \<open>C7: The hashed plan is the file: the digests are those of consecutive pieces whose
  concatenation is the file, each object records the length of its piece, and the pieces of a tensor
  format are at most 64 MiB. Fetching the objects in order therefore rebuilds the file.\<close>

theorem hashed_objects_are_the_file:
  assumes "hasher_streams hs sha256" "length file < 2 ^ 64"
    and "plan_and_hash_under hs sha256 json_parse (slice_source file) con = Inr h"
  shows "\<exists>pieces. concat pieces = file \<and> map po_digest (hp_objects h) = map sha256 pieces \<and>
    map (unat \<circ> po_length) (hp_objects h) = map length pieces \<and>
    (hp_planner h = PlannerId_BlobV1 \<or> list_all (\<lambda>piece. length piece \<le> 67108864) pieces)"
  using assms by (rule hashed_pieces)

theorem hashed_objects_are_the_file_witness:
  "\<exists>h pieces. plan_and_hash_under sample_hasher digest_of_bytes sample_json
      (slice_source sample_gguf) None = Inr h \<and> concat pieces = sample_gguf \<and>
    map po_digest (hp_objects h) = map digest_of_bytes pieces"
proof -
  obtain h where "plan_and_hash_under sample_hasher digest_of_bytes sample_json
      (slice_source sample_gguf) None = Inr h"
    using sample_hashed(1) by blast
  with hashed_objects_are_the_file [OF sample_hasher_streams sample_gguf_length this]
  show ?thesis by blast
qed

text \<open>C8: Deduplication across containers: when two files hold a tensor with the same bytes and the
  same seams, both hashed plans contain the same consecutive run of digests for it, whatever the
  container format, the tensor's name, its position and the rest of the file; the run rebuilds the
  tensor.\<close>

theorem equal_tensors_share_objects:
  assumes "hasher_streams hs sha256" "length f < 2 ^ 64" "length g < 2 ^ 64"
    and "plan_and_hash_under hs sha256 json_parse (slice_source f) con = Inr hf"
    and "plan_and_hash_under hs sha256 json_parse (slice_source g) con' = Inr hg"
    and "inventory json_parse k (slice_source f) = Inr (Some ivf)" "t \<in> set (inv_tensors ivf)"
    and "inventory json_parse k' (slice_source g) = Inr (Some ivg)" "v \<in> set (inv_tensors ivg)"
    and "planner_tensor_format (hp_planner hf) = Some (inv_format ivf)"
    and "planner_tensor_format (hp_planner hg) = Some (inv_format ivg)"
    and "tensor_bytes f (inv_offset t) (inv_length t) = tensor_bytes g (inv_offset v) (inv_length v)"
    and "contract_seams con (inv_name t) (inv_shape t) (inv_length t) =
      contract_seams con' (inv_name v) (inv_shape v) (inv_length v)"
    and "0 < inv_length t" "0 < inv_length v"
  shows "\<exists>objs. sublist (map sha256 objs) (map po_digest (hp_objects hf)) \<and>
    sublist (map sha256 objs) (map po_digest (hp_objects hg)) \<and>
    objs = tensor_objects (contract_seams con (inv_name t) (inv_shape t) (inv_length t))
      (tensor_bytes f (inv_offset t) (inv_length t))"
  using hashed_tensor_run [OF assms(1,2,4,6,10,7,14)] hashed_tensor_run [OF assms(1,3,5,8,11,9,15)]
  by (simp add: assms(12,13))

theorem equal_tensors_share_objects_witness:
  "\<exists>hf hg. plan_and_hash_under sample_hasher digest_of_bytes sample_json
      (slice_source sample_gguf) None = Inr hf \<and>
    plan_and_hash_under sample_hasher digest_of_bytes sample_json
      (slice_source sample_safetensors) None = Inr hg \<and>
    sublist (map digest_of_bytes (tensor_objects [] sample_tensor)) (map po_digest (hp_objects hf)) \<and>
    sublist (map digest_of_bytes (tensor_objects [] sample_tensor)) (map po_digest (hp_objects hg))"
proof -
  obtain hf hg where hf: "plan_and_hash_under sample_hasher digest_of_bytes sample_json
      (slice_source sample_gguf) None = Inr hf"
    and hg: "plan_and_hash_under sample_hasher digest_of_bytes sample_json
      (slice_source sample_safetensors) None = Inr hg"
    using sample_hashed by blast
  have fmt: "hp_planner hf = PlannerId_GgufV1" "hp_planner hg = PlannerId_SafetensorsV1"
    using hf hg by (auto simp: plan_and_hash_under_Inr_iff sample_gguf_plan sample_safetensors_plan)
  have tb: "tensor_bytes sample_gguf 96 8 = sample_tensor" "tensor_bytes sample_safetensors 24 8 = sample_tensor"
    by (simp_all add: tensor_bytes_def sample_gguf_eval sample_safetensors_eval sample_tensor_def)
  show ?thesis
    using equal_tensors_share_objects [OF sample_hasher_streams sample_gguf_length sample_safetensors_length
        hf hg sample_gguf_inventory _ sample_safetensors_inventory] hf hg
    by (simp add: fmt tb contract_seams_def)
qed

text \<open>C9: A declared fusion costs nothing but cut points. Take a file with a tensor that the file's contract
  declares as fused parts, in any number of groups, where the rows divide by the shares and each part has at
  least a mebibyte, and cut its bytes into the declared parts by their shares. The hashed plan holds, in a row,
  the digests of the 64 MiB chunks of each part, each part chunked from its own start. So another file that
  holds one of the parts as a tensor of its own, in any container and under any contract that does not cut
  it, stores that part as the same objects.\<close>

theorem fused_tensor_objects:
  assumes "hasher_streams hs sha256" "length f < 2 ^ 64" "length g < 2 ^ 64"
    and "plan_and_hash_under hs sha256 json_parse (slice_source f) (Some c) = Inr hf"
    and "inventory json_parse k (slice_source f) = Inr (Some ivf)" "planner_tensor_format (hp_planner hf) = Some (inv_format ivf)"
    and "t \<in> set (inv_tensors ivf)" "entry_for c (inv_name t) = Some entry" "tp_fusion entry = Some fus" "shares_fit fus"
    and "inv_shape t = rows # rest" "rows \<noteq> 0" "fusion_rows fus dvd unat rows" "unat rows dvd unat (inv_length t)"
    and "declared_pieces fus (tensor_bytes f (inv_offset t) (inv_length t)) pieces" "\<forall>piece \<in> set pieces. 2 ^ 20 \<le> length piece"
    and "plan_and_hash_under hs sha256 json_parse (slice_source g) con = Inr hg"
    and "inventory json_parse k' (slice_source g) = Inr (Some ivg)" "planner_tensor_format (hp_planner hg) = Some (inv_format ivg)"
    and "v \<in> set (inv_tensors ivg)" "contract_seams con (inv_name v) (inv_shape v) (inv_length v) = []"
    and "tensor_bytes g (inv_offset v) (inv_length v) = piece" "piece \<in> set pieces"
  shows "sublist (concat (map (map sha256 \<circ> grid_chunks) pieces)) (map po_digest (hp_objects hf)) \<and>
    sublist (map sha256 (grid_chunks piece)) (map po_digest (hp_objects hf)) \<and>
    sublist (map sha256 (grid_chunks piece)) (map po_digest (hp_objects hg))"
proof -
  have "pieces \<noteq> []" "piece \<noteq> []" using assms(16,23) by auto
  note run = fused_tensor_run [OF assms(1,2,4-15) this(1) assms(16)] whole_tensor_run [OF assms(1,3,17-22) this(2)]
  have "sublist (map sha256 (grid_chunks piece)) (concat (map (map sha256 \<circ> grid_chunks) pieces))"
    using assms(23) by (intro sublist_concat) auto
  then show ?thesis using run by (meson sublist_order.order_trans)
qed

theorem fused_tensor_objects_witness:
  "\<exists>hf hg. plan_and_hash_under sample_hasher digest_of_bytes parts_json (slice_source fused_file) (Some parts_contract) = Inr hf \<and>
    plan_and_hash_under sample_hasher digest_of_bytes parts_json (slice_source split_file) None = Inr hg \<and>
    sublist (map digest_of_bytes (grid_chunks (mebibyte 7))) (map po_digest (hp_objects hf)) \<and>
    sublist (map digest_of_bytes (grid_chunks (mebibyte 7))) (map po_digest (hp_objects hg))"
proof -
  obtain hf hg where hf: "plan_and_hash_under sample_hasher digest_of_bytes parts_json (slice_source fused_file) (Some parts_contract) = Inr hf"
      "planner_tensor_format (hp_planner hf) = Some TensorFormat_SafetensorsV1"
    and hg: "plan_and_hash_under sample_hasher digest_of_bytes parts_json (slice_source split_file) None = Inr hg"
      "planner_tensor_format (hp_planner hg) = Some TensorFormat_SafetensorsV1"
    using parts_hashed by blast
  have small: "length fused_file < 2 ^ 64" "length split_file < 2 ^ 64" by (simp_all add: parts_lengths)
  note plans = sample_hasher_streams small hf(1) parts_inventory(1) _ _ _ _ parts_declared(2) _ _ _ _ _ _ hg(1) parts_inventory(2)
  show ?thesis
    using fused_tensor_objects [OF plans, where pieces = "[mebibyte 7, mebibyte 9]" and piece = "mebibyte 7"] hf hg
    by (simp add: parts_declared parts_bytes contract_seams_def)
qed

text \<open>The coverage check accepts exactly the partitions: within the object limit, a single
  region for a blob, gap-free and overlap-free non-empty regions from zero to the file size, and
  no region above the grid unless the plan is a blob. No offset arithmetic wraps around.\<close>

theorem plan_validate_exact:
  "plan_validate p = Inr () \<longleftrightarrow>
   length (plan_regions p) \<le> 1000000 \<and> tiles 0 (plan_regions p) (unat (plan_file_size p)) \<and>
   (if plan_planner p = PlannerId_BlobV1 then length (plan_regions p) \<le> 1 else on_grid (plan_regions p))"
  by (auto simp: plan_validate_iff MAX_OBJECT_COUNT_def)

text \<open>The chunked validation of a GGUF string, which carries an incomplete UTF-8 sequence from one
  8 KiB buffer to the next, accepts a string exactly when the whole of it is valid UTF-8, and then
  leaves the reader behind the string.\<close>

theorem chunked_utf8_is_whole_utf8:
  assumes "gr_source r = slice_source file" "length file < 2 ^ 64" "gr_length r = of_nat (length file)"
    and "gr_read_u64 r = Inr (len, after)" "mb_charge_bytes len b = Inr charged" "gr_ensure len after = Inr ()"
  shows "gr_skip_utf8_string r b =
    (if utf8_valid (take (unat len) (drop (unat (gr_position after)) file))
     then Inr (after\<lparr>gr_position := gr_position after + len\<rparr>, charged) else Inl ParseFailure_Invalid)"
  using assms by (rule gr_skip_utf8_string_slice)

theorem chunked_utf8_is_whole_utf8_witness:
  "gr_skip_utf8_string (gr_new (slice_source (u64_le 2 @ [195, 40])))
     \<lparr>mb_array_elements = 0, mb_value_bytes = 0\<rparr> = Inl ParseFailure_Invalid"
  by (subst chunked_utf8_is_whole_utf8 [of _ "u64_le 2 @ [195, 40]" 2
        "(gr_new (slice_source (u64_le 2 @ [195, 40])))\<lparr>gr_position := 8\<rparr>"
        _ "\<lparr>mb_array_elements = 0, mb_value_bytes = 2\<rparr>"])
    (simp_all add: gguf_eval source_eval bytes_eval text_eval)

text \<open>Rounding up to a power-of-two alignment gives the least multiple of the alignment that is
  not below the value, and fails exactly when the addition of \<open>alignment - 1\<close> leaves \<open>u64\<close>.\<close>

theorem align_up_least_multiple:
  assumes "is_power_of_two a"
  shows "align_up v a = Some w \<longleftrightarrow> unat v + unat a \<le> 2 ^ 64 \<and>
    unat a dvd unat w \<and> unat v \<le> unat w \<and> unat w < unat v + unat a"
proof
  assume *: "align_up v a = Some w"
  then have "unat v + unat a - 1 < 2 ^ 64" using align_up_nat(2) [OF assms, of v] by auto
  with align_up_bounds [OF assms *]
  show "unat v + unat a \<le> 2 ^ 64 \<and> unat a dvd unat w \<and> unat v \<le> unat w \<and> unat w < unat v + unat a"
    by simp
next
  assume w: "unat v + unat a \<le> 2 ^ 64 \<and> unat a dvd unat w \<and> unat v \<le> unat w \<and> unat w < unat v + unat a"
  then obtain w' where w': "align_up v a = Some w'"
    using align_up_nat(2) [OF assms, of v] by (cases "align_up v a") auto
  have "unat w' = unat w"
    using align_up_bounds [OF assms w'] w by (intro multiples_unique [of "unat a" _ _ "unat v"]) auto
  then have "w' = w" by (simp add: word_unat_eq_iff)
  then show "align_up v a = Some w" using w' by simp
qed

theorem align_up_least_multiple_witness:
  "align_up 33 32 = Some 64 \<and> \<not> (\<exists>w. align_up 18446744073709551615 32 = Some w)"
  using align_up_least_multiple [of 32 33 64] align_up_least_multiple [of 32 18446744073709551615]
    is_power_of_two_exp [of 5] by simp

text \<open>A source that changes while it is planned and hashed yields an error and no digest: each of
  the four checks, before and after planning and before and after hashing, has to succeed.\<close>

theorem changed_source_is_refused:
  assumes "plan_and_hash_under hs sha256 json_parse source con = Inr h"
  shows "src_check source 0 = Inr () \<and> src_check source 1 = Inr () \<and> src_check source 2 = Inr () \<and>
    src_check source 3 = Inr () \<and> hp_file_size h = src_len source"
  using assms by (auto simp: plan_and_hash_under_Inr_iff dest: plan_once_Inr(2))

theorem changed_source_is_refused_witness:
  "\<exists>h. plan_and_hash_under sample_hasher digest_of_bytes sample_json (slice_source sample_gguf) None = Inr h \<and>
    hp_file_size h = 128 \<and> \<not> is_ok (plan_and_hash_under sample_hasher digest_of_bytes sample_json
      ((slice_source sample_gguf)\<lparr>src_check := (\<lambda>k. if k < 3 then Inr () else Inl ''changed'')\<rparr>) None)"
proof -
  let ?torn = "(slice_source sample_gguf)\<lparr>src_check := (\<lambda>k. if k < 3 then Inr () else Inl ''changed'')\<rparr>"
  obtain h where h: "plan_and_hash_under sample_hasher digest_of_bytes sample_json
      (slice_source sample_gguf) None = Inr h"
    using sample_hashed(1) by blast
  moreover have "src_len (slice_source sample_gguf) = 128" by (simp add: slice_source_def sample_gguf_eval)
  moreover have "plan_and_hash_under sample_hasher digest_of_bytes sample_json ?torn None \<noteq> Inr h'" for h'
    using changed_source_is_refused [of sample_hasher digest_of_bytes sample_json ?torn None h'] by auto
  ultimately show ?thesis using changed_source_is_refused [OF h] by (auto simp: is_ok_iff)
qed

section \<open>Contracts\<close>

text \<open>Capturing and instantiating are inverse: a parsed pattern captures the values \<open>vs\<close> from a
  name exactly when filling its holes with \<open>vs\<close> spells that name. Matching is therefore
  unambiguous, and no second spelling of the numbers (leading zeros, a sign) is accepted.\<close>

theorem captures_inverse_instantiate:
  assumes "pattern_parse doc = Inr p"
  shows "captures p name = Some vs \<longleftrightarrow> instantiate p vs = Some name"
  using assms by (rule captures_iff_instantiate)

theorem captures_inverse_instantiate_witness:
  "\<exists>p. pattern_parse ''b.{i}.w'' = Inr p \<and> captures p ''b.12.w'' = Some [12] \<and>
    captures p ''b.012.w'' \<noteq> Some [12]"
  using captures_inverse_instantiate [OF sample_hole_pattern]
  by (simp add: sample_hole_pattern instantiate_def pattern_holes_def decimal_u64_def to_decimal.simps
      digit_char_def)

text \<open>C10: A document that validates is well formed: at least one tensor, pairwise distinct patterns and
  roles with the same number of holes, fusions with non-zero groups and shares and distinct part
  roles, permutes that are permutations of their view and not the identity, never a fusion together
  with a permute, and a handle and a dtype that obey their spelling rules.\<close>

theorem validated_contract_well_formed:
  assumes "contract_parse from_str document = Inr c"
  shows "contract_ok c"
  using assms raw_validate_contract_ok by (auto simp: contract_parse_def result_simps)

theorem validated_contract_well_formed_witness:
  "contract_parse (\<lambda>_. Inr (fused_raw [] sample_parts)) ''doc'' = Inr (fused_contract [] sample_parts) \<and>
   contract_ok (fused_contract [] sample_parts)"
  using validated_contract_well_formed [of "\<lambda>_. Inr (fused_raw [] sample_parts)" "''doc''"]
  by (simp add: contract_parse_def map_err_def fused_raw_validates)

text \<open>When the shares of a fusion sum without wrap-around, its runs have exactly the length of the
  tensor, so the seams of a contract lie strictly inside the tensor in increasing order.\<close>

theorem seams_inside_tensor:
  assumes "con_shares_fit c"
  shows "sorted_wrt (<) (0 # seam_offsets c name shape len) \<and>
    list_all (\<lambda>seam. seam < len) (seam_offsets c name shape len)"
  using seams_fit_sorted [OF seam_offsets_fit [OF assms]] .

theorem seams_inside_tensor_witness:
  "seam_offsets (fused_contract [] sample_parts) ''w'' [2] 2097152 = [1048576] \<and>
   list_all (\<lambda>seam. seam < 2097152) (seam_offsets (fused_contract [] sample_parts) ''w'' [2] 2097152)"
  using seams_inside_tensor [of "fused_contract [] sample_parts" "''w''" "[2]" 2097152]
    sample_contract_fits [of "[]"] sample_contract_seams
  by (simp add: contract_fits_def)

text \<open>Shares \<open>2\<^sup>63\<close>, \<open>2\<^sup>63\<close> and \<open>2\<^sup>20\<close> pass validation, but their sum wraps around to \<open>2\<^sup>20\<close>:
  for a tensor of a mebibyte of one-byte rows the seams leave the tensor, and cutting it ends in a
  coverage error, which a safetensors plan reports, instead of leaving the tensor uncut.\<close>

theorem wrapping_shares_break_planning:
  "raw_validate (fused_raw [] wrapping_parts) = Inr (fused_contract [] wrapping_parts) \<and>
   seam_offsets (fused_contract [] wrapping_parts) ''w'' [1048576] 1048576 = [9223372036854775808, 0] \<and>
   append_tensor_regions regions offset 1048576
     (seam_offsets (fused_contract [] wrapping_parts) ''w'' [1048576] 1048576) RegionKind_Tensor =
     Inl PlanError_InvalidCoverage"
proof -
  have "seam_offsets (fused_contract [] wrapping_parts) ''w'' [1048576] 1048576 = [9223372036854775808, 0]"
    by (simp add: fusion_eval)
  then show ?thesis using fused_raw_validates(2) by (simp add: append_tensor_regions_def)
qed

text \<open>The resolved view of a permute has the number of elements of the tensor, computed without
  wrap-around, and one dimension for each dimension of the declared view.\<close>

theorem permute_keeps_elements:
  assumes "permute_resolve p shape = Some view"
  shows "prod_list (map unat view) = prod_list (map unat shape) \<and> length view = length (perm_view p)"
  using assms by (rule permute_resolve_product)

theorem permute_keeps_elements_witness:
  "permute_resolve \<lparr>perm_view = [Dim_Axis 0 2, Dim_Literal 2, Dim_Auto], perm_axes = [1, 0, 2]\<rparr> [4, 3] =
     Some [2, 2, 3] \<and> prod_list (map unat [2, 2, 3 :: u64]) = prod_list (map unat [4, 3 :: u64])"
proof -
  have "permute_resolve \<lparr>perm_view = [Dim_Axis 0 2, Dim_Literal 2, Dim_Auto], perm_axes = [1, 0, 2]\<rparr> [4, 3] =
     Some [2, 2, 3]"
    by (simp add: permute_resolve_def checked_product_def checked_mul_def is_multiple_of_def)
  with permute_keeps_elements [OF this] show ?thesis by simp
qed

text \<open>A stamp survives printing and parsing: the text form of every well-formed stamp parses back to
  it.\<close>

theorem stamp_round_trip:
  assumes "stamp_ok s"
  shows "stamp_parse (stamp_display s) = Inr s"
  using assms by (rule stamp_parse_display_lemma)

theorem stamp_round_trip_witness:
  "stamp_parse (stamp_display (Stamp_Named \<lparr>handle_name = ''a.b'', handle_version = 7\<rparr>)) =
   Inr (Stamp_Named \<lparr>handle_name = ''a.b'', handle_version = 7\<rparr>)"
  by (rule stamp_round_trip)
    (simp add: handle_ok_def is_contract_name_def MAX_CONTRACT_NAME_BYTES_def text_eval is_lower_or_digit_def)

text \<open>A stamp has more than one accepted spelling: the version is read by the integer parser of the
  standard library, so a leading plus sign or leading zeros give the same stamp.\<close>

theorem stamp_parse_not_canonical:
  "stamp_parse ''a.b@+7'' = stamp_parse ''a.b@7'' \<and> stamp_parse ''a.b@007'' = stamp_parse ''a.b@7'' \<and>
   is_ok (stamp_parse ''a.b@7'')"
proof -
  have name: "is_contract_name ''a.b''"
    by (simp add: is_contract_name_def MAX_CONTRACT_NAME_BYTES_def text_eval is_lower_or_digit_def)
  have v: "parse_u32 ''7'' = Some 7" "parse_u32 ''+7'' = Some 7" "parse_u32 ''007'' = Some 7"
    by (simp_all add: parse_u32_def from_str_radix_def to_digit_def is_ascii_digit_def)
  show ?thesis
    using stamp_parse_versioned [OF name v(1)] stamp_parse_versioned [OF name v(2)]
      stamp_parse_versioned [OF name v(3)] by simp
qed

text \<open>Two different contracts without a handle can have the same canonical text, hence the same
  digest stamp: the dtypes of a tensor are joined with commas and not escaped.\<close>

theorem contract_canonical_not_injective:
  "raw_validate (fused_raw [''a,b''] sample_parts) = Inr (fused_contract [''a,b''] sample_parts) \<and>
   raw_validate (fused_raw [''a'', ''b''] sample_parts) = Inr (fused_contract [''a'', ''b''] sample_parts) \<and>
   fused_contract [''a,b''] sample_parts \<noteq> fused_contract [''a'', ''b''] sample_parts \<and>
   contract_stamp sha256 (fused_contract [''a,b''] sample_parts) =
     contract_stamp sha256 (fused_contract [''a'', ''b''] sample_parts)"
  using fused_raw_validates(1)
  by (simp add: contract_stamp_def contract_digest_def contract_canonical_def canonical_tensor_def
      fused_contract_def)

text \<open>The hexadecimal text of a snapshot id parses back to the id, and without a plus sign it is the
  only text that does.\<close>

theorem snapshot_id_text:
  assumes "CHR ''+'' \<notin> set s"
  shows "snapshot_id_parse_hex s = Some d \<longleftrightarrow> s = hex_bytes (digest_bytes d)"
  using parse_hex64_canonical [OF _ assms] by (auto simp: snapshot_id_parse_hex_def)

theorem snapshot_id_text_witness:
  "snapshot_id_parse_hex (hex_bytes (digest_bytes 5)) = Some 5"
proof -
  have "CHR ''+'' \<notin> set (hex_bytes (digest_bytes 5))" by (rule hex_bytes_plain)
  then show ?thesis using snapshot_id_text by blast
qed

section \<open>Packs\<close>

text \<open>C11: Encoding and decoding of packs are inverse: an encoding exists exactly when decoding it
  yields the same objects in digest order. Every accepted pack is therefore the canonical encoding of
  its objects: no trailing bytes, no empty or unsorted or duplicate object, no wrong digest.\<close>

theorem pack_round_trip:
  assumes "slices objs" "length bs < 2 ^ 64"
  shows "pack_encode sha256 objs = Inr bs \<longleftrightarrow>
    (\<exists>p. pack_decode sha256 bs = Inr p \<and> pack_objects p = sort_key object_key objs)"
proof
  assume "pack_encode sha256 objs = Inr bs"
  then have e: "objects_ok sha256 (sort_key object_key objs)" "bs = emit_pack (sort_key object_key objs)"
    using pack_encode_iff [OF assms(1)] by blast+
  then have "pack_decode sha256 bs = Inr (pack_of (sort_key object_key objs))"
    using pack_decode_iff [OF assms(2)] by blast
  then show "\<exists>p. pack_decode sha256 bs = Inr p \<and> pack_objects p = sort_key object_key objs"
    using pack_objects_pack_of e(1) by (auto simp: objects_ok_def)
next
  assume "\<exists>p. pack_decode sha256 bs = Inr p \<and> pack_objects p = sort_key object_key objs"
  then obtain os where "objects_ok sha256 os" "bs = emit_pack os"
      "pack_objects (pack_of os) = sort_key object_key objs"
    by (auto simp: pack_decode_iff [OF assms(2)])
  then show "pack_encode sha256 objs = Inr bs"
    using pack_encode_iff [OF assms(1)] pack_objects_pack_of by (auto simp: objects_ok_def)
qed

theorem pack_round_trip_witness:
  "\<exists>bs p. pack_encode digest_of_bytes sample_pack = Inr bs \<and> pack_decode digest_of_bytes bs = Inr p \<and>
    pack_objects p = rev sample_pack"
proof -
  obtain bs where bs: "pack_encode digest_of_bytes sample_pack = Inr bs" "length bs < 2 ^ 64"
    using sample_pack_encodes by blast
  then show ?thesis using pack_round_trip [OF sample_pack_slices bs(2)] sample_pack_sorted by auto
qed

section \<open>The object store\<close>

text \<open>C12: Putting bytes through a leased temporary file, whatever name it gets and however it is
  streamed to the hasher, does to the digest paths exactly what the abstract store does: a new
  read-only object appears at the digest of the bytes, or the resident one is verified and kept, and
  no temporary is left behind, on errors too.\<close>

theorem store_put_refines:
  assumes "hasher_streams hs sha256" "store_wf st"
  shows "fst (put_bytes env hs bs st) = fst (admit sha256 bs (os_objects st)) \<and>
    os_objects (snd (put_bytes env hs bs st)) = snd (admit sha256 bs (os_objects st)) \<and>
    os_temps (snd (put_bytes env hs bs st)) = os_temps st"
  using put_bytes_refines [OF assms, of env bs] by blast

theorem store_put_refines_witness:
  "fst (put_bytes sample_env sample_hasher [1, 2] store_new) =
     Inr \<lparr>ao_digest = digest_of_bytes [1, 2], ao_length = 2, ao_preexisting = False\<rparr> \<and>
   fst (put_bytes sample_env sample_hasher [1, 2] damaged_store) =
     Inl (StoreError_CorruptObject (digest_of_bytes [1, 2]) (digest_of_bytes [9]))"
  using store_put_refines [OF sample_hasher_streams, of store_new sample_env "[1, 2]"]
    store_put_refines [OF sample_hasher_streams, of damaged_store sample_env "[1, 2]"]
  by (simp add: store_new_def damaged_store_def store_wf_def bt_sorted_def admit_def digest_of_bytes_def Let_def)

text \<open>C13: The workers of \<open>admit_regions\<close> give the result of the serial loop: whatever the number of
  workers and the order in which they admit the regions, the identities come back in region order, a
  failure is the first one in region order, the store stays sound and loses nothing, and after a
  success it has gained exactly the digests of the regions.\<close>

theorem admit_regions_any_order:
  assumes "hasher_streams hs sha256" "store_ok sha256 st" "mset schedule = mset [0..<length regions]"
    and "admit_regions env hs concurrency schedule source regions st = (result, st')"
  shows "map_ok (map identity_of) result = map_ok (map identity_of) (fst (admit_serial env hs source regions st)) \<and>
    store_ok sha256 st' \<and> os_temps st' = os_temps st \<and> store_digests st \<subseteq> store_digests st' \<and>
    (\<forall>objects. result = Inr objects \<longrightarrow> store_digests st' = ao_digest ` set objects \<union> store_digests st)"
  using admit_regions_spec(1-4) [OF assms(1-3), of env concurrency source] assms(4)
    admit_regions_digests [OF assms(1-3), of env concurrency source] admit_serial_spec [OF assms(1,2), of env source regions]
  by simp

theorem admit_regions_any_order_witness:
  "\<exists>result st'. admit_regions sample_env sample_hasher 2 [1, 0] (slice_source [1, 2, 3]) sample_regions store_new =
      (result, st') \<and>
    map_ok (map identity_of) result = Inr [(digest_of_bytes [1, 2], 2), (digest_of_bytes [3], 1)] \<and>
    store_ok digest_of_bytes st'"
proof -
  obtain result st' where r: "admit_regions sample_env sample_hasher 2 [1, 0] (slice_source [1, 2, 3])
      sample_regions store_new = (result, st')"
    by (cases "admit_regions sample_env sample_hasher 2 [1, 0] (slice_source [1, 2, 3]) sample_regions store_new")
  have ok: "store_ok digest_of_bytes store_new" by (rule store_new_ok)
  have "mset [1, 0 :: nat] = mset [0..<length sample_regions]" by (simp add: sample_regions_def)
  from admit_regions_any_order [OF sample_hasher_streams ok this r] r
  show ?thesis
    using admit_serial_spec [OF sample_hasher_streams ok, of sample_env "slice_source [1, 2, 3]" sample_regions]
    by (simp add: sample_regions_def admission_def slice_source_def slice_read_def)
qed

text \<open>C14: Ingest: admitting the regions of a plan, in any order, into a sound store succeeds on an
  unchanging file, and then reading the admitted objects back in order gives the file, unless the hash
  collides.\<close>

theorem stored_regions_rebuild_file:
  assumes "hasher_streams hs sha256" "store_ok sha256 st" "length file < 2 ^ 64"
    and "plan_with sha256 json_parse k (slice_source file) con = Inr p"
    and "mset schedule = mset [0..<length (plan_regions p)]"
    and "admit_regions env hs concurrency schedule (slice_source file) (plan_regions p) st = (result, st')"
    and "inj_on sha256 (set (map (region_bytes file) (plan_regions p)) \<union> ran (object_bytes (os_objects st')))"
  shows "\<exists>objects pieces. result = Inr objects \<and>
    map (\<lambda>a. open_object (ao_digest a) st') objects = map Inr pieces \<and> concat pieces = file"
proof -
  have t: "tiles 0 (plan_regions p) (length file)"
    using assms(3,4) plan_once_Inr(1,2) [of sha256 json_parse "slice_source file" con p]
    by (simp add: plan_with_Inr_iff plan_validate_iff slice_source_def)
  obtain objects where o: "result = Inr objects"
    "map ao_digest objects = map (sha256 \<circ> region_bytes file) (plan_regions p)"
    using slice.admit_regions_tiles [OF assms(1-3) t order_refl assms(5,6)] by blast
  have ok: "store_ok sha256 st'"
    using admit_regions_spec(1) [OF assms(1,2,5), of env concurrency "slice_source file"] assms(6) by simp
  have "ao_digest ` set objects \<subseteq> store_digests st'"
    using admit_regions_digests [OF assms(1,2,5) assms(6) [unfolded o(1)]] by simp
  then have "map (\<lambda>a. open_object (ao_digest a) st') objects = map Inr (map (region_bytes file) (plan_regions p))"
    using stored_pieces [OF ok _ _ assms(7), of objects] o(2) by simp
  moreover have "concat (map (region_bytes file) (plan_regions p)) = file"
    using tiles_concat [OF t order_refl] by simp
  ultimately show ?thesis using o(1) by blast
qed

theorem stored_regions_rebuild_file_witness:
  "\<exists>p objects st'. plan_with digest_of_bytes sample_json 0 (slice_source [1, 2, 3]) None = Inr p \<and>
    admit_regions sample_env sample_hasher 4 [0] (slice_source [1, 2, 3]) (plan_regions p) store_new =
      (Inr objects, st') \<and>
    (\<exists>pieces. map (\<lambda>a. open_object (ao_digest a) st') objects = map Inr pieces \<and> concat pieces = [1, 2, 3])"
proof -
  obtain p where p: "plan_with digest_of_bytes sample_json 0 (slice_source [1, 2, 3]) None = Inr p"
    and r: "plan_regions p = [\<lparr>reg_offset = 0, reg_length = 3, reg_kind = RegionKind_Blob\<rparr>]"
    using sample_blob_plan [of digest_of_bytes] by (simp add: plan_with_Inr_iff slice_source_def)
  obtain result st' where a: "admit_regions sample_env sample_hasher 4 [0] (slice_source [1, 2, 3])
      (plan_regions p) store_new = (result, st')"
    by (cases "admit_regions sample_env sample_hasher 4 [0] (slice_source [1, 2, 3]) (plan_regions p) store_new")
  have "os_objects st' = snd (admit digest_of_bytes [1, 2, 3] [])"
    using a put_bytes_refines(2) [OF sample_hasher_streams, of store_new sample_env "[1, 2, 3]"] store_new_ok
    by (auto simp: r admit_regions_def admit_region_def source_eval store_ok_def op_then_def store_new_empty
        split: prod.splits sum.splits)
  then have "ran (object_bytes (os_objects st')) = {[1, 2, 3]}"
    by (auto simp: admit_def object_bytes_def ran_def Let_def split: option.splits if_splits)
  then have "inj_on digest_of_bytes (set (map (region_bytes [1, 2, 3]) (plan_regions p)) \<union>
      ran (object_bytes (os_objects st')))"
    by (simp add: r region_bytes_def)
  from stored_regions_rebuild_file [OF sample_hasher_streams store_new_ok _ p _ a this] r
  show ?thesis using p a by fastforce
qed

text \<open>Admitting a range of a source as one object streams exactly the bytes of the range into the
  store when the range lies in the file; whatever the source does, no temporary stays behind, the
  store stays sound and an error leaves every object as it was.\<close>

theorem admit_source_range_exact:
  assumes "hasher_streams hs sha256" "store_ok sha256 st"
    and "admit_source_range env hs source offset len st = (result, st')"
  shows "store_ok sha256 st' \<and> os_temps st' = os_temps st \<and>
    (\<forall>e. result = Inl e \<longrightarrow> os_objects st' = os_objects st) \<and>
    (\<forall>file. source = slice_source file \<and> length file < 2 ^ 64 \<and> unat offset + unat len \<le> length file \<longrightarrow>
      (result, os_objects st') = admit sha256 (take (unat len) (drop (unat offset) file)) (os_objects st))"
  using admit_source_range_clean [OF assms(1,2), of env source offset len]
    slice.admit_source_range_content [OF assms(1,2), of _ offset len env] assms(3)
  by (auto simp: prod_eq_iff)

theorem admit_source_range_exact_witness:
  "fst (admit_source_range sample_env sample_hasher (slice_source [1, 2, 3]) 1 2 store_new) =
     Inr \<lparr>ao_digest = digest_of_bytes [2, 3], ao_length = 2, ao_preexisting = False\<rparr>"
proof -
  obtain result st' where r: "admit_source_range sample_env sample_hasher (slice_source [1, 2, 3]) 1 2 store_new =
      (result, st')"
    by (cases "admit_source_range sample_env sample_hasher (slice_source [1, 2, 3]) 1 2 store_new")
  have "(result, os_objects st') = admit digest_of_bytes (take 2 (drop 1 [1, 2, 3])) (os_objects store_new)"
    using admit_source_range_exact [OF sample_hasher_streams store_new_ok r, THEN conjunct2, THEN conjunct2,
        THEN conjunct2, rule_format, of "[1, 2, 3]"] by simp
  with r show ?thesis by (simp add: admit_def store_new_empty Let_def)
qed

text \<open>C15: Collecting abandoned temporaries never touches an object and refuses a zero grace. When no other
  process interferes it deletes exactly the regular files that carry the store's temporary name, are not
  modified after the cutoff and on whose inode no lease is held, and the report counts what was examined and
  deleted, modulo the width of its counters. Whatever other processes do between its system calls, a
  temporary that its writer keeps leased survives, and so does one that stays modified after the cutoff.
  Times may lie before the epoch.\<close>

theorem collect_abandoned_temps_exact:
  assumes "store_wf st" "collect_abandoned_temps env grace st = (result, st')"
  shows "os_objects st' = os_objects st \<and>
    (grace = 0 \<longrightarrow> result = Inl StoreError_InvalidGrace \<and> st' = st) \<and>
    (0 < grace \<and> undisturbed env \<longrightarrow> (\<exists>report gone. result = Inr report \<and>
      gone = filter (\<lambda>(name, e). \<exists>t m. e = Temp_File t \<and> is_temp_name name \<and> \<not> lease_held (tf_inode t) (os_temps st) \<and>
        tf_modified t = Some m \<and> earliest_time \<le> ce_now env - int grace \<and> m + int grace \<le> ce_now env) (os_temps st) \<and>
      os_temps st' = filter (\<lambda>e. e \<notin> set gone) (os_temps st) \<and>
      tc_deleted report = of_nat (length gone) \<and> tc_examined report = of_nat (length (filter examinable (os_temps st))) \<and>
      tc_bytes_deleted report = of_nat (sum_list (map entry_bytes gone)))) \<and>
    (\<forall>keeps name inode. (\<forall>t. keeps t \<longrightarrow> tf_leased t \<and> tf_inode t = inode) \<or>
        (\<forall>t m. keeps t \<longrightarrow> tf_modified t = Some m \<longrightarrow> ce_now env < m + int grace) \<longrightarrow>
      (\<forall>moment path temps. spared keeps name temps \<longrightarrow> spared keeps name (ce_rival env moment path temps)) \<longrightarrow>
      spared keeps name (os_temps st) \<longrightarrow> spared keeps name (os_temps st'))"
proof -
  let ?cut = "grace_cutoff (ce_now env) grace"
  have old: "old_enough ?cut t \<longleftrightarrow> (\<exists>m. tf_modified t = Some m \<and> earliest_time \<le> ce_now env - int grace \<and> m + int grace \<le> ce_now env)" for t
    by (auto simp: old_enough_def grace_cutoff_def split: option.splits)
  have what: "(\<lambda>(name, e). \<exists>t m. e = Temp_File t \<and> is_temp_name name \<and> \<not> lease_held (tf_inode t) (os_temps st) \<and>
      tf_modified t = Some m \<and> earliest_time \<le> ce_now env - int grace \<and> m + int grace \<le> ce_now env) = reclaimable ?cut (os_temps st)"
    by (auto simp: fun_eq_iff reclaimable_def old split: temp_entry.splits)
  have rest: "filter (\<lambda>e. e \<notin> set (filter (reclaimable ?cut (os_temps st)) (os_temps st))) (os_temps st) =
      filter (\<lambda>e. \<not> reclaimable ?cut (os_temps st) e) (os_temps st)"
    by (rule filter_cong) auto
  have zero: "grace = 0 \<longrightarrow> result = Inl StoreError_InvalidGrace \<and> st' = st"
    using assms(2) by (auto simp: collect_abandoned_temps_def)
  have exact: "0 < grace \<and> undisturbed env \<longrightarrow> (\<exists>report gone. result = Inr report \<and>
      gone = filter (reclaimable ?cut (os_temps st)) (os_temps st) \<and>
      os_temps st' = filter (\<lambda>e. e \<notin> set gone) (os_temps st) \<and>
      tc_deleted report = of_nat (length gone) \<and> tc_examined report = of_nat (length (filter examinable (os_temps st))) \<and>
      tc_bytes_deleted report = of_nat (sum_list (map entry_bytes gone)))"
    using assms(2) collect_abandoned_temps_spec [OF assms(1), of env grace] rest by (auto simp: Let_def simp del: set_filter)
  have "spared keeps name (os_temps st')"
    if "(\<forall>t. keeps t \<longrightarrow> tf_leased t \<and> tf_inode t = inode) \<or> (\<forall>t m. keeps t \<longrightarrow> tf_modified t = Some m \<longrightarrow> ce_now env < m + int grace)"
      "\<forall>moment path temps. spared keeps name temps \<longrightarrow> spared keeps name (ce_rival env moment path temps)" "spared keeps name (os_temps st)"
    for keeps name inode
    using that(1) by (intro collect_abandoned_temps_spares [OF that(2) _ assms(2) that(3), of inode]) (fastforce simp: old)
  then show ?thesis using collect_abandoned_temps_objects [OF assms(2)] zero exact unfolding what by blast
qed

theorem collect_abandoned_temps_exact_witness:
  "map fst (os_temps (snd (collect_abandoned_temps quiet_collector 10 sample_temps))) = [''obj-1.tmp'', ''obj-3.tmp'', ''x''] \<and>
   spared (\<lambda>t. tf_leased t \<and> tf_inode t = 1) ''obj-1.tmp'' (os_temps (snd (collect_abandoned_temps recycling_collector 10 sample_temps)))"
proof
  have wf: "store_wf sample_temps"
    by (simp add: store_wf_def sample_temps_def store_new_def bt_sorted_def)
  note temps = sample_temps_def sample_temp_def store_new_empty is_temp_name_def TEMP_PREFIX_def TEMP_SUFFIX_def
  obtain result st' where r: "collect_abandoned_temps quiet_collector 10 sample_temps = (result, st')"
    by (cases "collect_abandoned_temps quiet_collector 10 sample_temps")
  from collect_abandoned_temps_exact [OF wf r, THEN conjunct2, THEN conjunct2, THEN conjunct1] r
  show "map fst (os_temps (snd (collect_abandoned_temps quiet_collector 10 sample_temps))) = [''obj-1.tmp'', ''obj-3.tmp'', ''x'']"
    by (auto simp: temps lease_held_def quiet_collector_def undisturbed_def earliest_time_def)
  obtain result st' where r: "collect_abandoned_temps recycling_collector 10 sample_temps = (result, st')"
    by (cases "collect_abandoned_temps recycling_collector 10 sample_temps")
  let ?keeps = "\<lambda>t. tf_leased t \<and> tf_inode t = 1"
  have "spared ?keeps ''obj-1.tmp'' temps \<longrightarrow> spared ?keeps ''obj-1.tmp'' (ce_rival recycling_collector moment path temps)" for moment path temps
    by (simp add: recycling_collector_def quiet_collector_def spared_def map_of_bt_insert split: collector_moment.split)
  moreover have "spared ?keeps ''obj-1.tmp'' (os_temps sample_temps)" by (simp add: spared_def temps)
  ultimately show "spared ?keeps ''obj-1.tmp'' (os_temps (snd (collect_abandoned_temps recycling_collector 10 sample_temps)))"
    using collect_abandoned_temps_exact [OF wf r, THEN conjunct2, THEN conjunct2, THEN conjunct2, rule_format, of ?keeps 1] r by simp
qed

text \<open>The retry loop for a temporary name ends: with one turn more than there are temporaries it
  finds a name nobody uses, and it creates that file, empty and leased, and touches nothing else.\<close>

theorem writer_finds_fresh_name:
  assumes "length (os_temps st) < 2 ^ 64"
  shows "\<exists>w st'. writer_loop (Suc (length (os_temps st))) env hs st = Some (w, st') \<and>
    map_of (os_temps st) (ow_path w) = None \<and> os_objects st' = os_objects st \<and>
    (\<exists>t. os_temps st' = bt_insert (ow_path w) (Temp_File t) (os_temps st) \<and> tf_bytes t = [] \<and> tf_leased t)"
proof -
  obtain w st' where w: "writer_loop (Suc (length (os_temps st))) env hs st = Some (w, st')"
    using writer_loop_Some [OF assms] by blast
  show ?thesis using writer_loop_result [OF w] w by blast
qed

theorem writer_finds_fresh_name_witness:
  "\<exists>w st'. writer_loop (Suc 4) sample_env sample_hasher sample_temps = Some (w, st') \<and>
    map_of (os_temps sample_temps) (ow_path w) = None"
proof -
  have n: "length (os_temps sample_temps) = 4" by (simp add: sample_temps_def)
  then show ?thesis
    using writer_finds_fresh_name [of sample_temps sample_env sample_hasher, unfolded n] by auto
qed

section \<open>Workspaces\<close>

text \<open>C16: However commits, deletions, adoptions, leases, releases, admissions and collections follow
  each other, each as one step, and even when the checks of a commit were made in an earlier state, every
  object that a workspace head, a lease or a snapshot names is in the store, every snapshot root can be
  loaded, and a collection succeeds and leaves all of them untouched. (An adoption is one step here; what
  happens when a collection comes between its two halves is the property on that race.)\<close>

theorem reachable_roots_resident:
  assumes "hasher_streams hs sha256" "ws_reach u hs sha256 ws"
  shows "root_objects u sha256 ws \<subseteq> store_digests (ws_store ws) \<and>
    (\<forall>sid \<in> fst ` set (md_snapshots (ws_db ws)). \<exists>s. load_snapshot u sha256 ws sid = Inr s) \<and>
    (\<exists>report ws'. collect u sha256 ws = (Inr report, ws') \<and>
      (\<forall>d \<in> root_objects u sha256 ws. resident_at (ws_store ws') d = resident_at (ws_store ws) d))"
proof (intro conjI ballI)
  have ok: "ws_ok u sha256 ws" by (rule ws_reach_ok(1) [OF assms(2,1)])
  then show "root_objects u sha256 ws \<subseteq> store_digests (ws_store ws)" by (rule ws_ok_roots)
  show "\<exists>s. load_snapshot u sha256 ws sid = Inr s" if "sid \<in> fst ` set (md_snapshots (ws_db ws))" for sid
    using ok that by (rule ws_ok_loads)
  show "\<exists>report ws'. collect u sha256 ws = (Inr report, ws') \<and>
      (\<forall>d \<in> root_objects u sha256 ws. resident_at (ws_store ws') d = resident_at (ws_store ws) d)"
    using ok by (rule collect_keeps_roots)
qed

theorem reachable_roots_resident_witness:
  "sample_digest \<in> root_objects ascii_unicode digest_of_bytes sample_workspace \<and>
   root_objects ascii_unicode digest_of_bytes sample_workspace \<subseteq> store_digests (ws_store sample_workspace)"
  using reachable_roots_resident [OF sample_hasher_streams sample_workspace_reach] sample_workspace_roots by blast

text \<open>C17: Garbage goes and nothing else does: three collections with nothing in between all succeed
  and delete exactly the resident objects that no head, lease or snapshot names.\<close>

theorem three_passes_collect_garbage:
  assumes "store_wf (ws_store ws)" "quarantine_ok (ws_db ws)" "mark_roots u sha256 ws = Inr m"
  shows "\<exists>ws'. passes u sha256 3 ws = (Inr (), ws') \<and>
    (\<forall>d. resident_at (ws_store ws') d =
      (if file_resident (ws_store ws) d \<and> d \<notin> root_objects u sha256 ws then None else resident_at (ws_store ws) d))"
  using assms by (rule three_passes)

theorem three_passes_collect_garbage_witness:
  "file_resident (ws_store sample_due) sample_digest \<and>
   (\<exists>ws'. passes ascii_unicode digest_of_bytes 3 sample_due = (Inr (), ws') \<and>
     resident_at (ws_store ws') sample_digest = None)"
proof -
  obtain m where m: "mark_roots ascii_unicode digest_of_bytes sample_due = Inr m"
    using ws_ok_marks [OF sample_due_ok] by blast
  have wf: "store_wf (ws_store sample_due)" "quarantine_ok (ws_db sample_due)"
    using sample_due_ok by (simp_all add: ws_ok_def store_ok_def)
  show ?thesis
    using three_passes_collect_garbage [OF wf m] sample_due_garbage by auto
qed



text \<open>C19: Reading a range of a committed file, through the page cache or with aligned direct reads of
  any shortness, gives exactly those bytes of the concatenation of its records (holes read as zeros);
  a range that overflows or passes the end is refused, and no other error occurs.\<close>

theorem stream_read_exact:
  assumes "records_readable st records" "length destination < 2 ^ 64"
  shows "stream_read reads st mode records addr offset destination =
    (if 2 ^ 64 \<le> unat offset + length destination then Inl ''range overflow''
     else if length (records_content st records) < unat offset + length destination
     then Inl ''range exceeds the committed length''
     else Inr (take (length destination) (drop (unat offset) (records_content st records))))"
  using assms by (rule stream_read_content)

theorem stream_read_exact_witness:
  "stream_read (\<lambda>_ _. 1) sample_store ReadMode_Direct [FileRecord_Hole 2, FileRecord_Data sample_digest 3] 5 1 [9, 9, 9] =
   Inr [0, 1, 2]"
  using stream_read_exact [of sample_store "[FileRecord_Hole 2, FileRecord_Data sample_digest 3]" "[9, 9, 9]"
      "\<lambda>_ _. 1" ReadMode_Direct 5 1] sample_records_readable by (simp add: sample_records_content)

text \<open>C20: Truncating is exact: a length strictly inside a data record is refused, every other length
  gives a record run of that length whose content is the old content cut or padded with zeros.\<close>

theorem truncate_records_exact:
  assumes "records_readable st records"
  shows "if cuts_data (unat len) records then truncate_records records len = None
    else \<exists>records'. truncate_records records len = Some records' \<and> run_size records' = unat len \<and>
      records_content st records' = take (unat len) (records_content st records @ replicate (unat len) 0)"
  using truncate_records_spec [OF assms, of len] by (auto split: if_splits)

theorem truncate_records_exact_witness:
  "truncate_records [FileRecord_Hole 2, FileRecord_Data sample_digest 3] 4 = None \<and>
   (\<exists>records'. truncate_records [FileRecord_Hole 2, FileRecord_Data sample_digest 3] 7 = Some records' \<and>
     records_content sample_store records' = [0, 0, 1, 2, 3, 0, 0])"
  using truncate_records_exact [OF sample_records_readable, of 4]
    truncate_records_exact [OF sample_records_readable, of 7]
  by (auto simp: sample_records_content record_size_def replicate_numeral)

text \<open>C21: The root of a workspace is not protected from its leases: leasing the empty path and
  releasing the lease deletes the root inode, after which no path of the workspace resolves, although
  the workspace still exists.\<close>

theorem root_lease_drops_tree:
  assumes "workspace_row_of (ws_db ws) name = Inr w" "inode_exists (ws_db ws) (wr_root_inode w)"
    and "link_count (ws_db ws) (wr_root_inode w) = 0" "lease_count (ws_db ws) (wr_root_inode w) = 0"
    and "bt_sorted (md_leases (ws_db ws))"
  shows "\<exists>l ws1 ws2. acquire_unlinked_lease u name [] holder ws = (Inr l, ws1) \<and>
    release_lease l ws1 = (Inr (), ws2) \<and> \<not> inode_exists (ws_db ws2) (wr_root_inode w) \<and>
    workspace_row_of (ws_db ws2) name = Inr w \<and>
    (\<forall>path found. path \<noteq> [] \<longrightarrow> resolve_path u (ws_db ws2) w path \<noteq> Inr (Some found))"
  using assms by (rule root_lease_lemma)

theorem root_lease_drops_tree_witness:
  "resolve_path ascii_unicode (ws_db sample_workspace) sample_row ''f'' = Inr (Some (2, KIND_FILE)) \<and>
   (\<exists>l ws1 ws2. acquire_unlinked_lease ascii_unicode ''w'' [] ''me'' sample_workspace = (Inr l, ws1) \<and>
     release_lease l ws1 = (Inr (), ws2) \<and>
     resolve_path ascii_unicode (ws_db ws2) sample_row ''f'' \<noteq> Inr (Some (2, KIND_FILE)))"
  using root_lease_drops_tree [OF sample_workspace_row sample_workspace_root, of ascii_unicode "''me''"]
    sample_workspace_resolves by blast

text \<open>C22: Adopting a snapshot is not atomic: its objects are looked up before the lock is taken, so a
  collection in between can delete one whose quarantine has run out, and the adoption then roots a
  snapshot with a missing object.\<close>

theorem adopt_races_with_collect:
  assumes "ws_ok u sha256 ws" "hasher_streams hs sha256" "uncollided sha256 bs (ws_store ws)" "length bs < 2 ^ 64"
    and "adopt_prepare u env hs sha256 bs ws = (Inr sid, ws1)" "decode u bs = Inr s"
    and "d \<in> set (snapshot_record_digests s)" "taken_by u sha256 ws1 d"
  shows "\<exists>report ws2. collect u sha256 ws1 = (Inr report, ws2) \<and>
    sid \<in> fst ` set (md_snapshots (ws_db (adopt_insert sid ws2))) \<and>
    d \<notin> store_digests (ws_store (adopt_insert sid ws2)) \<and> \<not> ws_ok u sha256 (adopt_insert sid ws2)"
  using assms by (rule adopt_race_lemma)

theorem adopt_races_with_collect_witness:
  "\<exists>sid ws1 report ws2. adopt_prepare ascii_unicode sample_env sample_hasher digest_of_bytes (to_bytes sample_manifest)
      sample_due = (Inr sid, ws1) \<and> collect ascii_unicode digest_of_bytes ws1 = (Inr report, ws2) \<and>
     sample_digest \<notin> store_digests (ws_store (adopt_insert sid ws2))"
  using adopt_races_with_collect [OF sample_due_ok sample_hasher_streams sample_due_uncollided
      sample_manifest_decodes(2) sample_due_prepared sample_manifest_decodes(1) sample_manifest_names sample_due_taken]
    sample_due_prepared by blast

section \<open>Sealing a head\<close>

text \<open>C23: Sealing a file keeps its bytes: whatever the canonical planner makes of a committed file that
  is readable, and whichever of its regions are already covered by committed objects, planning the seal
  succeeds, the store stays sound and keeps every object, and the new record run denotes the bytes of
  the old one and names only objects that are resident.\<close>

theorem seal_keeps_bytes:
  assumes "hasher_streams hs sha256" "store_ok sha256 st" "records_readable st records" "contract_fits seams"
    and "\<And>n. mset (ae_schedule ae n) = mset [0..<n]"
    and "plan_seal_job ae hs sha256 json_parse seams path stored_planner stored_contract records st = (result, st')"
    and "clash_free sha256 (records_content st records) st'"
  shows "store_ok sha256 st' \<and> store_grows st st' \<and>
    (\<exists>found. result = Inr found \<and> (\<forall>job. found = Some job \<longrightarrow>
      records_content st' (sj_records job) = records_content st records \<and>
      list_all (record_resident st') (sj_records job) \<and> set (sj_new_digests job) \<subseteq> store_digests st'))"
  using plan_seal_job_keeps [OF assms] unfolding job_keeps_def by blast

theorem seal_keeps_bytes_witness:
  "\<exists>job st'. plan_seal_job sample_admission sample_hasher digest_of_bytes sample_json None ''f'' PlannerId_BlobV1
     Stamp_None sample_twice sample_store = (Inr (Some job), st') \<and>
   records_content st' (sj_records job) = [1, 2, 3, 1, 2, 3] \<and> store_ok digest_of_bytes st'"
proof -
  obtain r st' where b: "blob_seal_job sample_admission sample_hasher ''f'' (records_source sample_store sample_twice)
      sample_store = (r, st')" by (meson surj_pair)
  have p: "plan_seal_job sample_admission sample_hasher digest_of_bytes sample_json None ''f'' PlannerId_BlobV1
      Stamp_None sample_twice sample_store = (map_ok Some r, st')" by (simp add: sample_twice_sealed b)
  have "clash_free digest_of_bytes (records_content sample_store sample_twice) st'"
    using sample_twice_clash_free [of "''f''"] by (simp add: b)
  from seal_keeps_bytes [OF sample_hasher_streams sample_store_ok sample_twice_readable _ _ p this]
  have "store_ok digest_of_bytes st' \<and> (\<exists>found. map_ok Some r = Inr found \<and> (\<forall>job. found = Some job \<longrightarrow>
      records_content st' (sj_records job) = records_content sample_store sample_twice))"
    by (simp add: contract_fits_def sample_admission_def) blast
  with p show ?thesis by (cases r) (auto simp: sample_twice_content)
qed

text \<open>C24: The listing of a head agrees with path resolution: in every reachable state, when the walk over
  the directories of a workspace returns a tree, a path is an entry of the tree exactly when it resolves
  to an inode.\<close>

theorem head_tree_lists_resolvable:
  assumes "hasher_streams hs sha256" "ws_reach u hs sha256 ws" "workspace_row_of (ws_db ws) name = Inr w"
    and "head_tree u name ws = Some (Inr tree)" "path \<noteq> []"
  shows "path \<in> fst ` set tree \<longleftrightarrow> (\<exists>found. resolve_path u (ws_db ws) w path = Inr (Some found))"
  using head_tree_lists [OF assms(3,4)] ws_reach_ok(2) [OF assms(2,1)] assms(5) by (simp add: db_wf_def)

theorem head_tree_lists_resolvable_witness:
  "\<exists>tree. head_tree ascii_unicode ''w'' sample_workspace = Some (Inr tree) \<and> ''f'' \<in> fst ` set tree \<and>
   ''g'' \<notin> fst ` set tree"
proof -
  obtain tree where t: "head_tree ascii_unicode ''w'' sample_workspace = Some (Inr tree)" using sample_workspace_head by blast
  note lists = head_tree_lists_resolvable [OF sample_hasher_streams sample_workspace_reach sample_workspace_row t]
  have "resolve_path ascii_unicode (ws_db sample_workspace) sample_row ''g'' = Inr None"
    by (simp add: resolve_path_def path_eval sample_workspace_def sample_db_def sample_row_def)
  then show ?thesis using t lists [of "''f''"] lists [of "''g''"] sample_workspace_resolves by auto
qed

text \<open>C25: The walk over the directories of a head need not end. When the root of a workspace is an empty
  directory that no lease holds, the batch that removes the empty path and creates a directory of one
  segment deletes the root inode. If its row id is the next one the engine assigns, the new directory gets it
  and becomes its own child: the commit succeeds with the next generation, and from then on listing the head,
  which sealing starts with, does not return. Otherwise the new entry refers to a deleted row, and the commit
  fails with a database error and changes nothing. The witness is the state right after the first workspace
  was created, which is reachable and in which the id is assigned again.\<close>

theorem removed_root_loops:
  assumes "map_of (md_workspaces (ws_db ws)) name = Some w"
    and "siblings (ws_db ws) (wr_root_inode w) = []" "link_count (ws_db ws) (wr_root_inode w) = 0" "lease_count (ws_db ws) (wr_root_inode w) = 0"
    and "validate_path u p = Inr ()" "rsplit_once CHR ''/'' p = None"
    and "commit_generation u hs name [Mutation_Rmdir [], Mutation_Mkdir p] ws = (result, ws')"
  shows "if next_rowid (filter (\<lambda>i. i \<noteq> wr_root_inode w) (map fst (md_inodes (ws_db ws)))) = wr_root_inode w
    then result = Inr (wr_head_generation w + 1) \<and> head_tree u name ws' = None
    else result = Inl WorkspaceError_Db \<and> ws' = ws"
  by (rule removed_root_batch [OF assms])

theorem removed_root_loops_witness:
  "\<exists>ws ws'. ws_reach ascii_unicode sample_hasher digest_of_bytes ws \<and>
    commit_generation ascii_unicode sample_hasher ''w'' [Mutation_Rmdir [], Mutation_Mkdir ''x''] ws = (Inr 1, ws') \<and>
    head_tree ascii_unicode ''w'' ws' = None"
proof -
  let ?ws = "snd (create_workspace ''w'' \<lparr>ws_store = store_new, ws_db = metadata_new\<rparr>)"
  obtain result ws' where c: "commit_generation ascii_unicode sample_hasher ''w'' [Mutation_Rmdir [], Mutation_Mkdir ''x''] ?ws = (result, ws')"
    by (cases "commit_generation ascii_unicode sample_hasher ''w'' [Mutation_Rmdir [], Mutation_Mkdir ''x''] ?ws")
  have valid: "validate_path ascii_unicode ''x'' = Inr ()" "rsplit_once CHR ''/'' ''x'' = None" by (simp_all add: path_eval)
  note tables = looped_created snd_conv
  have "result = Inr 1 \<and> head_tree ascii_unicode ''w'' ws' = None"
    using removed_root_loops [OF _ _ _ _ valid c, of "\<lparr>wr_id = 1, wr_head_generation = 0, wr_root_inode = 1\<rparr>"] unfolding tables
    by (simp add: siblings_def link_count_def lease_count_def next_rowid_def metadata_new_def)
  then show ?thesis using looped_created_reach c by blast
qed


section \<open>Storage arrangements\<close>

text \<open>C31: An arrangement loses nothing: for a record that passes its self-check and a shape it can plan,
  whose arranged size fits the address range, copying the tensor into its arrangement succeeds whatever
  the destination held, and the inverse copy gives back the tensor, padding or not.\<close>

theorem layout_round_trip:
  assumes "layout_check m = Inr ()" "morphism_plan m shape = Inr p" "element \<noteq> 0"
    and "prod_list (map unat (lp_extents p)) * unat element < 2 ^ 64"
    and "length source = unat (lp_source_elements p) * unat element"
    and "length destination = unat (lp_dest_elements p) * unat element" "length blank = length source"
  shows "\<exists>out. plan_apply p source destination element = Some (Inr out) \<and> length out = length destination \<and>
    plan_apply_inverse p out blank element = Some (Inr source)"
proof -
  obtain gs where gs: "arranged p gs" and Dw: "unat (lp_dest_elements p) * unat element < 2 ^ 64"
    by (rule plan_fits [OF assms(1-4)])
  obtain out where out: "plan_apply p source destination element = Some (Inr out)" "length out = length destination"
    "\<And>i. i < length destination \<Longrightarrow> out ! i = arranged_byte p gs source (unat element) i"
    by (rule plan_apply_bytes [OF gs Dw assms(5,6)]) blast
  have "plan_apply_inverse p out blank element = Some (Inr source)"
    by (rule plan_apply_inverse_bytes [OF gs Dw assms(5)]) (use out assms(6,7) in simp_all)
  then show ?thesis using out by blast
qed

theorem layout_round_trip_witness:
  "layout_check sample_tiled = Inr () \<and> morphism_plan sample_tiled [2, 3] = Inr sample_plan \<and>
   (\<exists>out. plan_apply sample_plan [1, 2, 3, 4, 5, 6] (replicate 8 255) 1 = Some (Inr out) \<and> length out = 8 \<and>
     plan_apply_inverse sample_plan out (replicate 6 0) 1 = Some (Inr [1, 2, 3, 4, 5, 6]))"
  using layout_round_trip [OF sample_tiled_check sample_tiled_plan, of 1 "[1, 2, 3, 4, 5, 6]" "replicate 8 255" "replicate 6 0"]
    sample_tiled_check sample_tiled_plan by simp

text \<open>C32: The walk behind both copies visits the destination elements in order, each once, and meets
  every element of the source exactly once; what it does not map is padding. So the walk over runs with
  its folded strides and its odometer is a bijection onto the mapped slots.\<close>

theorem walk_visits_once:
  assumes "layout_check m = Inr ()" "morphism_plan m shape = Inr p" "prod_list (map unat (lp_extents p)) < 2 ^ 64"
  shows "\<exists>visits. for_each p = Some visits \<and>
    map fst visits = map of_nat [0..<prod_list (map unat (lp_extents p))] \<and>
    distinct (List.map_filter snd visits) \<and> set (List.map_filter snd visits) = {x. x < lp_source_elements p} \<and>
    unat (lp_source_elements p) = prod_list (map unat shape)"
proof -
  obtain gs where gs: "arranged p gs" "lp_shape p = shape" using morphism_plan_arranged [OF assms] by blast
  show ?thesis using for_each_covers [OF gs(1)] gs(2) by blast
qed

theorem walk_visits_once_witness:
  "\<exists>visits. for_each sample_plan = Some visits \<and> map fst visits = map of_nat [0..<8] \<and>
    distinct (List.map_filter snd visits) \<and> set (List.map_filter snd visits) = {x. x < 6}"
  using walk_visits_once [OF sample_tiled_check sample_tiled_plan] by simp

text \<open>Ratification cannot refuse a sound record: when a record passes its self-check and the plans of
  its probe shapes fit the address range, ratification does not panic and its checks all succeed. It
  fails exactly when no probe shape can be planned, and otherwise reports one probe for each planned
  shape.\<close>

theorem ratify_exact:
  assumes "layout_check m = Inr ()" "probe_shapes m = Some shapes"
    and "\<forall>shape \<in> set shapes. \<forall>p. morphism_plan m shape = Inr p \<longrightarrow> prod_list (map unat (lp_extents p)) * 4 < 2 ^ 64"
  shows "ratify m = Some (let probes = List.map_filter (planned_probe m) shapes in
    if probes = [] then Inl (LayoutError_Record (morphism_handle m))
    else Inr \<lparr>rt_handle = morphism_handle m, rt_probes = probes\<rparr>)"
  using ratify_probes_arranged [OF assms(1), of shapes] assms by (simp add: ratify_def Let_def)

theorem ratify_exact_witness:
  "ratify sample_contiguous = Some (Inr \<lparr>rt_handle = morphism_handle sample_contiguous,
    rt_probes = List.map_filter (planned_probe sample_contiguous) [[2], [2, 3], [2, 3, 4], [2, 3, 4, 5]]\<rparr>)"
proof -
  have "\<forall>shape \<in> set [[2], [2, 3], [2, 3, 4], [2, 3, 4, 5]]. \<forall>p. morphism_plan sample_contiguous shape = Inr p \<longrightarrow>
      prod_list (map unat (lp_extents p)) * 4 < 2 ^ 64"
    using sample_probe_extents by auto
  from ratify_exact [OF sample_pair_check(1) sample_probe_shapes this] show ?thesis
    by (simp add: Let_def map_filter_simps planned_probe_def [of _ "[2]"] sample_pair_planned)
qed

text \<open>C33: Filling host memory lands the arranged tensor: for a ratified, checked record and chunks that
  together hold the tensor, a fill into a host sink with room succeeds however the chunks are cut, leaves
  at the device offset exactly what the copy of the whole tensor produces, leaves every other byte of the
  sink alone, and reports the sizes and the padding.\<close>

theorem host_fill_lands:
  assumes "layout_check (tf_layout tensor) = Inr ()" "ensure_ratified (tf_layout tensor) = Inr ()"
    and "morphism_plan (tf_layout tensor) (tf_shape tensor) = Inr p" "tf_element_bytes tensor \<noteq> 0"
    and "prod_list (map unat (lp_extents p)) * unat (tf_element_bytes tensor) < 2 ^ 64"
    and "length (concat chunks) = unat (lp_source_elements p) * unat (tf_element_bytes tensor)"
    and "unat (tf_device_offset tensor) + unat (lp_dest_elements p * tf_element_bytes tensor) \<le> length (hs_buffer h)"
    and "length (hs_buffer h) < 2 ^ 64"
  shows "\<exists>out stats h'. fill host (chunked_source_new chunks) tensor h = Some (Inr stats, h') \<and>
    plan_apply p (concat chunks) (replicate (length out) 0) (tf_element_bytes tensor) = Some (Inr out) \<and>
    host_region (length out) (tf_device_offset tensor) h' = out \<and> host_kept (length out) (tf_device_offset tensor) h h' \<and>
    filled_stats stats (length (concat chunks)) (length out)"
proof -
  let ?n = "unat (lp_dest_elements p * tf_element_bytes tensor)"
  obtain gs where gs: "arranged p gs" and Dw: "unat (lp_dest_elements p) * unat (tf_element_bytes tensor) < 2 ^ 64"
    by (rule plan_fits [OF assms(1,3-5)])
  have n: "?n = unat (lp_dest_elements p) * unat (tf_element_bytes tensor)" using Dw by (simp add: unat_word_ariths)
  then have lent: "fs_staging host ?n (tf_device_offset tensor) h =
      Some (Inr (host_region ?n (tf_device_offset tensor) h), h\<lparr>hs_pending := Some (unat (tf_device_offset tensor), ?n)\<rparr>)"
    using host_staging_lends [OF _ assms(7,8)] Dw by (simp add: host_def)
  have "fst (fs_commit host (fs_write host staged s')) = Inr ()" for staged s' by (simp add: host_def host_commit_def)
  from host.fill_lands [OF assms(1-6) lent this] obtain out stats h' where
    f: "fill host (chunked_source_new chunks) tensor h = Some (Inr stats, h')"
    "plan_apply p (concat chunks) (host_region ?n (tf_device_offset tensor) h) (tf_element_bytes tensor) = Some (Inr out)"
    "host_region (length out) (tf_device_offset tensor) h' = out" "host_kept (length out) (tf_device_offset tensor) h h'"
    "length out = ?n" "filled_stats stats (length (concat chunks)) (length out)" by blast
  have "length (host_region ?n (tf_device_offset tensor) h) = ?n" using assms(7) by (simp add: host_region_def)
  then have "length (host_region ?n (tf_device_offset tensor) h) = unat (lp_dest_elements p) * unat (tf_element_bytes tensor)"
    "length (replicate ?n (0 :: u8)) = length (host_region ?n (tf_device_offset tensor) h)" by (simp_all only: n length_replicate)
  from plan_apply_blank [OF gs Dw assms(6) this]
  have "plan_apply p (concat chunks) (replicate (length out) 0) (tf_element_bytes tensor) = Some (Inr out)" by (simp only: f(2,5))
  then show ?thesis using f(1,3,4,6) by blast
qed

theorem host_fill_lands_witness:
  "\<exists>out stats h'. fill host (chunked_source_new [[1, 2], [], [3, 4, 5, 6]]) sample_fill (host_with_capacity 10) = Some (Inr stats, h') \<and>
    plan_apply sample_plan [1, 2, 3, 4, 5, 6] (replicate (length out) 0) 1 = Some (Inr out) \<and>
    host_region (length out) 1 h' = out \<and> host_kept (length out) 1 (host_with_capacity 10) h' \<and>
    filled_stats stats 6 (length out)"
  using host_fill_lands [of sample_fill sample_plan "[[1, 2], [], [3, 4, 5, 6]]" "host_with_capacity 10"]
    sample_tiled_check sample_tiled_plan sample_tiled_ratified
  by (simp add: host_with_capacity_def six)

text \<open>The interface of a sink asks for at least the bytes of the tensor as staging, but the path for a
  single chunk insists on exactly that many: a sink that lends one byte more makes the fill of a tensor
  stored as one chunk fail with a buffer error, while the same tensor in two chunks is filled.\<close>

theorem generous_sink_refused:
  "fill generous (chunked_source_new [[7, 9]]) sample_pair s = Some (Inl (LayoutError_Buffer 3 2), [0, 0, 0]) \<and>
   (\<exists>stats. fill generous (chunked_source_new [[7], [9]]) sample_pair s = Some (Inr stats, [7, 9, 0]))"
proof
  have "source_len (chunked_source_new [[7, 9]]) = 2" "source_contiguous (chunked_source_new [[7, 9]]) = Some [7, 9]"
    by (simp_all add: source_len_def chunked_source_new_def source_contiguous_def)
  moreover have "plan_apply sample_pair_plan [7, 9] [0, 0, 0] 1 = Some (Inl (LayoutError_Buffer 3 2))"
    by (simp add: plan_apply_def plan_sized_def sample_pair_plan_def)
  ultimately show "fill generous (chunked_source_new [[7, 9]]) sample_pair s = Some (Inl (LayoutError_Buffer 3 2), [0, 0, 0])"
    by (simp add: sample_pair_fill fill_staging_def)
  have "source_len (chunked_source_new [[7], [9]]) = 2" "source_contiguous (chunked_source_new [[7], [9]]) = None"
    by (simp_all add: source_len_def chunked_source_new_def source_contiguous_def)
  then show "\<exists>stats. fill generous (chunked_source_new [[7], [9]]) sample_pair s = Some (Inr stats, [7, 9, 0])"
    by (simp add: sample_pair_fill fill_staging_def sample_pair_runs fill_run_def sample_pair_reads copy_into_def)
qed


section \<open>Adapters\<close>

text \<open>C34: A view drops no weight: when the decision for a target contract is an adapter,
  every byte of every source tensor that the source contract describes lies in a run of a derived tensor,
  and that run was cut from this tensor and keeps its element type. The shares of every fusion are
  assumed to sum without wrap-around, and the tensors to lie below the address range.\<close>

theorem view_keeps_every_byte:
  assumes "con_shares_fit source" "\<forall>t \<in> set (inv_tensors found). unat (inv_offset t) + unat (inv_length t) < 2 ^ 64"
    and "decide source found target = Inr d" "decision_adapter d = Some a"
    and "tensor \<in> set (inv_tensors found)" "entry_for source (inv_name tensor) \<noteq> None"
    and "unat (inv_offset tensor) \<le> i" "i < unat (inv_offset tensor) + unat (inv_length tensor)"
  shows "\<exists>derived \<in> set (ad_tensors a). \<exists>run \<in> set (dt_runs derived).
    sr_tensor run = inv_name tensor \<and> dt_dtype derived = inv_dtype tensor \<and>
    unat (sr_offset run) \<le> i \<and> i < unat (sr_offset run) + unat (sr_length run)"
proof -
  obtain available where av: "\<forall>t \<in> set (ad_tensors a). derived_ok available t"
    "\<forall>run \<in> snd ` set available. \<exists>t \<in> set (ad_tensors a). run \<in> set (dt_runs t)"
    "\<exists>run \<in> snd ` set available. run_at tensor i run"
    using adapter_uses_all [OF assms(1-4)] assms(5-8) by metis
  then obtain run derived where r: "run_at tensor i run" "derived \<in> set (ad_tensors a)" "run \<in> set (dt_runs derived)" by blast
  have "sr_dtype run = dt_dtype derived" using av(1) r(2,3) unfolding derived_ok_def by blast
  then show ?thesis using r by (auto simp: run_at_def good_run_def Let_def)
qed

theorem view_keeps_every_byte_witness:
  "decide split_contract split_inventory joined_contract = Inr (Decision_RunPreserving \<lparr>ad_tensors = [joined_tensor]\<rparr>) \<and>
   (\<exists>derived \<in> {joined_tensor}. \<exists>run \<in> set (dt_runs derived). sr_tensor run = ''right'' \<and> dt_dtype derived = ''U8'' \<and>
     unat (sr_offset run) \<le> 17 \<and> 17 < unat (sr_offset run) + unat (sr_length run))"
  using view_keeps_every_byte [OF _ _ split_joined, of "\<lparr>ad_tensors = [joined_tensor]\<rparr>" "split_tensor ''right'' 14" 17] split_joined
  by (simp add: con_shares_fit_def split_contract_def split_inventory_def split_tensor_def adapter_eval)

text \<open>The shape that a view gives a tensor counts its bytes: when every tensor of the file is dense, with
  a width per element type, the bytes of a derived tensor are the product of its shape times the width of
  its element type, so the derived header is consistent.\<close>

theorem derived_shape_counts_bytes:
  assumes "con_shares_fit source" "\<forall>t \<in> set (inv_tensors found). unat (inv_offset t) + unat (inv_length t) < 2 ^ 64"
    and "decide source found target = Inr d" "decision_adapter d = Some a" "derived \<in> set (ad_tensors a)"
    and "\<forall>t \<in> set (inv_tensors found). unat (inv_length t) = prod_list (map unat (inv_shape t)) * width (inv_dtype t)"
    and "sum_list (map (unat \<circ> sr_length) (dt_runs derived)) < 2 ^ 64"
  shows "unat (derived_length derived) = prod_list (map unat (dt_shape derived)) * width (dt_dtype derived)"
  using adapter_uses_all [OF assms(1-4)] derived_shape_bytes [OF _ _ assms(6,7)] assms(5) by metis

theorem derived_shape_counts_bytes_witness:
  "unat (derived_length joined_tensor) = prod_list (map unat (dt_shape joined_tensor)) * 1 \<and> derived_length joined_tensor = 12"
  using derived_shape_counts_bytes [OF _ _ split_joined, of "\<lparr>ad_tensors = [joined_tensor]\<rparr>" joined_tensor "\<lambda>_. 1"]
  by (simp add: con_shares_fit_def split_contract_def split_inventory_def split_tensor_def adapter_eval joined_tensor_def split_run_def
      derived_length_def)

text \<open>C35: A rearrangement is undone exactly: for a permute that a validated document can declare and a shape
  it resolves on, the forward transform of a tensor returns, keeps the length, moves every element where
  the transposition of the view puts it, and the inverse transform gives back the tensor.\<close>

theorem transform_round_trip:
  assumes "permute_ok p" "permute_resolve p shape = Some dims" "0 \<notin> set shape" "element \<noteq> 0"
    and "length bs = prod_list (map unat shape) * unat element" "length bs < 2 ^ 64"
  shows "\<exists>moved. transform_apply (Transform_Forward p) bs element shape = Some (Some moved) \<and> length moved = length bs \<and>
    (\<forall>i<length bs. moved ! i = bs ! transposed_index (map unat dims) (perm_axes p) (unat element) i) \<and>
    transform_apply (Transform_Inverse p) moved element shape = Some (Some bs)"
proof -
  let ?axes = "perm_axes p"
  have n: "length dims = length ?axes" "permutes ?axes"
    using assms(1) permute_resolve_product [OF assms(2)] set_eq_iff_mset_eq_distinct [of ?axes "[0..<length ?axes]"]
    by (auto simp: Contract_Document.permute_ok_def)
  have len: "length bs = prod_list (map unat dims) * unat element" using permute_resolve_product [OF assms(2)] assms(5) by simp
  have nz: "0 \<notin> set dims" using permute_resolve_product [OF assms(2)] assms(3) by (metis nonzero_dims)
  note k = n(2) n(1) nz assms(4) len assms(6)
  obtain moved undo where m: "permute_bytes bs element dims ?axes = Some moved" "length moved = length bs" "invert_axes ?axes = Some undo"
    "permute_bytes moved element (map ((!) dims) ?axes) undo = Some bs"
    using permute_bytes_back [OF k] by blast
  have "\<not> list_ex (\<lambda>axis. length dims \<le> axis) ?axes" using permutes_set(1) [OF n(2)] n(1) by (auto simp: list_ex_iff)
  then show ?thesis using m assms(2) permute_bytes_transposes [OF k] by (simp add: transform_apply_def)
qed

theorem transform_round_trip_witness:
  "permute_ok swap_axes \<and>
   (\<exists>moved. transform_apply (Transform_Forward swap_axes) [1, 2, 3, 4, 5, 6] 1 [2, 3] = Some (Some moved) \<and> length moved = 6 \<and>
     transform_apply (Transform_Inverse swap_axes) moved 1 [2, 3] = Some (Some [1, 2, 3, 4, 5, 6]))"
  using transform_round_trip [OF swap_axes_ok, of 1 "[1, 2, 3, 4, 5, 6]"] swap_axes_ok(1) by auto

text \<open>C36: The role of a run depends on its size: a fused tensor of which one part is below a mebibyte is one
  run under its bare role, although the declared fusion gives each part its own role. So for any source
  contract, file and target: when the file has such a tensor and the target does not declare its bare role as
  a whole tensor, no decision is a view, whatever the target asks for. The witness takes the contract the
  file was written in as the target: the file does not count as a view of its own contract.\<close>

theorem small_fusion_is_no_view:
  assumes "decide source listing target = Inr d" "t \<in> set (inv_tensors listing)"
    and "entry_for source (inv_name t) = Some entry" "tp_fusion entry = Some f"
    and "fusion_runs f (inv_shape t) (inv_length t) = Some runs" "run \<in> set runs" "run_length run < MIN_SEAM_PART_BYTES"
    and "captures (tp_pattern entry) (inv_name t) = Some vs" "instantiate (tp_role entry) vs = Some base"
    and "\<not> declares_role target base"
  shows "\<not> is_viewable d"
  using small_fusion_role [OF assms(1) _ assms(2-9)] assms(10) by blast

theorem small_fusion_is_no_view_witness:
  "decide joined_contract joined_inventory joined_contract = Inr (Decision_Conversion (Reason_Required ''w'')) \<and>
   \<not> is_viewable (Decision_Conversion (Reason_Required ''w''))"
  using small_fusion_is_no_view [OF joined_decision, of "split_tensor ''both'' 8" "sample_entry ''w'' ''both'' (Some joined_fusion)"
    joined_fusion _ "\<lparr>run_role = ''#a'', run_length = 3\<rparr>" "[]" "''w''"] joined_fusion_runs joined_decision joined_no_bare_role
  by (simp add: joined_inventory_def split_tensor_def joined_contract_def adapter_eval)


section \<open>Composition\<close>

text \<open>C40: Inheriting is exact: for a range that is not empty, in records whose lengths are not zero and sum
  below the address range, the inherited run is the one block of records that starts where the range starts
  and has its length, and there is none exactly when the records are not cut at both ends of the range.\<close>

theorem inherit_exact:
  assumes "run_size records < 2 ^ 64" "list_all (\<lambda>r. record_length r \<noteq> 0) records" "len \<noteq> 0"
  shows "inherit records start len = Some taken \<longleftrightarrow>
    (\<exists>pre post. records = pre @ taken @ post \<and> run_size pre = unat start \<and> run_size taken = unat len)"
  by (rule inherit_iff [OF assms])

theorem inherit_exact_witness:
  "inherit [FileRecord_Data 7 3, FileRecord_Hole 2, FileRecord_Data 9 4] 3 6 = Some [FileRecord_Hole 2, FileRecord_Data 9 4]"
  using inherit_exact [of "[FileRecord_Data 7 3, FileRecord_Hole 2, FileRecord_Data 9 4]" 6 3 "[FileRecord_Hole 2, FileRecord_Data 9 4]"]
  by (simp add: exI [of _ "[FileRecord_Data 7 3]"] exI [of _ "[]"])

text \<open>C37: A re-keyed or trimmed safetensors file is what it says: its bytes are the new header, which
  declares the kept tensors under their new names with their types, shapes and lengths, followed by the
  bytes of exactly these tensors in the old order; the new names are distinct, every renamed tensor exists,
  a re-key renames all of them, and every object of the store is still there. SHA-256 is assumed to be
  injective on the objects of the store and the pieces of the new header.\<close>

theorem composed_file_content:
  assumes "hasher_streams hs sha256" "store_ok sha256 st" "records_readable st records"
    and "st_read_layout json_parse (records_source st records) = Inr (Some layout)"
    and "compose env hs json_parse quote (FileBody_Tensor TensorFormat_SafetensorsV1 stamp len records) names unnamed st = (Inr body, st')"
    and "clash_free sha256 (safetensors_header quote (map st_declared (renamed te_name names (st_tensors layout)))) st'"
  shows "\<exists>composed. body = FileBody_Tensor TensorFormat_SafetensorsV1 stamp (sum_list (map record_length composed)) composed \<and>
    records_content st' composed = safetensors_header quote (map st_declared (renamed te_name names (st_tensors layout))) @
      concat (map (\<lambda>(new, t). file_range (records_content st records) (st_header_end layout + te_start t) (te_end t - te_start t))
        (renamed te_name names (st_tensors layout))) \<and>
    list_all (record_resident st') composed \<and> distinct (map fst (renamed te_name names (st_tensors layout))) \<and>
    fst ` set names \<subseteq> te_name ` set (st_tensors layout) \<and>
    (unnamed = Unnamed_Refuse \<longrightarrow> fst ` set names = te_name ` set (st_tensors layout)) \<and>
    store_ok sha256 st' \<and> store_grows st st'"
proof -
  obtain composed where c: "compose_safetensors env hs json_parse quote records names unnamed st = (Inr composed, st')"
    "body = FileBody_Tensor TensorFormat_SafetensorsV1 stamp (sum_list (map record_length composed)) composed"
    using assms(5) by (auto simp: compose_def op_then_def split: prod.splits sum.splits)
  from compose_safetensors_content [OF assms(1-3) c(1)] obtain layout' kept where
    l: "st_read_layout json_parse (records_source st records) = Inr (Some layout')"
    "select te_name names unnamed (st_tensors layout') = Inr kept" "store_ok sha256 st'" "store_grows st st'"
    "clash_free sha256 (safetensors_header quote (map st_declared kept)) st' \<Longrightarrow>
      records_content st' composed = safetensors_header quote (map st_declared kept) @
        concat (map (\<lambda>(name, t). file_range (records_content st records) (st_header_end layout' + te_start t) (te_end t - te_start t)) kept) \<and>
      list_all (record_resident st') composed" by blast
  have "layout' = layout" using l(1) assms(4) by simp
  note k = select_renamed [OF l(2), unfolded this]
  have "kept = renamed te_name names (st_tensors layout)" using k by simp
  then show ?thesis using k c(2) l(3-5) assms(6) \<open>layout' = layout\<close> by auto
qed

theorem composed_file_content_witness:
  "\<exists>composed st'. rekey sample_env (table_hasher (sample_files rekeyed_header)) sample_json key_text
      (FileBody_Tensor TensorFormat_SafetensorsV1 Stamp_None 32 (sample_run (sample_files rekeyed_header))) [(''v'', ''u'')]
      (sample_committed (sample_files rekeyed_header)) =
    (Inr (FileBody_Tensor TensorFormat_SafetensorsV1 Stamp_None (sum_list (map record_length composed)) composed), st') \<and>
    records_content st' composed = safetensors_header key_text [(''u'', ''U8'', [8], 8)] @ sample_tensor"
proof -
  let ?files = "sample_files rekeyed_header"
  obtain composed st' where r: "rekey sample_env (table_hasher ?files) sample_json key_text
      (FileBody_Tensor TensorFormat_SafetensorsV1 Stamp_None 32 (sample_run ?files)) [(''v'', ''u'')] (sample_committed ?files) =
    (Inr (FileBody_Tensor TensorFormat_SafetensorsV1 Stamp_None (sum_list (map record_length composed)) composed), st')"
    and free: "clash_free (table_hash ?files) rekeyed_header st'"
    by (rule sample_rekeyed_free)
  have kept: "renamed te_name [(''v'', ''u'')] (st_tensors sample_layout) =
      [(''u'', \<lparr>te_name = ''v'', te_dtype = ''U8'', te_shape = [8], te_start = 0, te_end = 8\<rparr>)]"
    by (simp add: renamed_def sample_layout_def map_filter_simps)
  have tensor: "file_range sample_safetensors 24 8 = sample_tensor" by (simp add: file_range_def sample_safetensors_eval)
  note composed_file_content [OF table_hasher_streams sample_committed_ok(1) sample_run_readable(1) [OF rekeyed_header_short]
    sample_run_layout [OF rekeyed_header_short] r [unfolded rekey_def], unfolded kept]
  then show ?thesis using r free tensor sample_run_readable(2) [OF rekeyed_header_short]
    by (auto simp: st_declared_def rekeyed_header_def sample_layout_def)
qed

text \<open>C38: Adoption changes no byte: when the records of a tensor file are readable, adopting any contract
  whose shares fit plans the file, and when the plan is of the same format the result has the ranges of the
  plan and reads as the same bytes, under the stamp of the contract, with every object resident and nothing
  of the store lost; otherwise the file is refused and the store is untouched. The order in which the new
  objects are admitted is arbitrary, and SHA-256 is assumed to be injective on the pieces at hand.\<close>

theorem adopt_keeps_bytes:
  assumes "hasher_streams hs sha256" "store_ok sha256 st" "records_readable st records" "contract_fits con"
    and "\<And>n. mset (ae_schedule ae n) = mset [0..<n]"
    and "adopt ae hs sha256 json_parse (FileBody_Tensor fmt stamp len records) con st = (result, st')"
    and "clash_free sha256 (records_content st records) st'"
  shows "store_ok sha256 st' \<and> store_grows st st' \<and>
    (\<exists>p. plan_with sha256 json_parse 0 (records_source st records) con = Inr p \<and>
      (if planner_tensor_format (plan_planner p) = Some fmt then \<exists>composed.
         result = Inr (FileBody_Tensor fmt (plan_contract p) (of_nat (length (records_content st records))) composed) \<and>
         map record_length composed = map reg_length (plan_regions p) \<and>
         records_content st' composed = records_content st records \<and> list_all (record_resident st') composed
       else result = Inl (ComposeError_Unreadable (format_name fmt)) \<and> st' = st))"
  by (rule adopt_keeps [OF assms])

theorem adopt_keeps_bytes_witness:
  "\<exists>composed st'. adopt sample_admission (table_hasher (sample_files [])) (table_hash (sample_files [])) sample_json
      (FileBody_Tensor TensorFormat_SafetensorsV1 Stamp_None 32 (sample_run (sample_files []))) None (sample_committed (sample_files [])) =
    (Inr (FileBody_Tensor TensorFormat_SafetensorsV1 Stamp_None 32 composed), st') \<and>
    map record_length composed = [24, 8] \<and> records_content st' composed = sample_safetensors"
proof -
  let ?files = "sample_files []"
  have "\<And>n. mset (ae_schedule sample_admission n) = mset [0..<n]" by (simp add: sample_admission_def)
  note keeps = adopt_keeps_bytes [OF table_hasher_streams sample_committed_ok(1) sample_run_readable(1) _ this sample_adopted]
  then show ?thesis
    using sample_adopted sample_run_plan sample_run_readable(2) [of "[]"] sample_committed_free [of "[]"]
    by (simp add: contract_fits_def sample_lengths)
qed

text \<open>C39: A derived file is the view it was decided to be: its bytes are the header of the derived tensors
  followed by their bytes in order, which for a tensor that keeps its runs are these runs of the source
  file, and for a rearranged one the runs moved by its permute; it carries the stamp of the target
  contract, every object is resident and nothing of the store is lost. SHA-256 is assumed to be injective
  on the pieces at hand.\<close>

theorem derived_file_content:
  assumes "hasher_streams hs sha256" "store_ok sha256 st" "records_readable st records"
    and "derive env hs sha256 json_parse quote (FileBody_Tensor fmt stamp len records) source target st = (Inr body, st')"
    and "inventory json_parse 0 (records_source st records) = Inr (Some found)" "decide source found target = Inr d" "decision_adapter d = Some a"
    and "clash_free sha256 (safetensors_header quote (map derived_declared (ad_tensors a))) st'"
    and "\<And>t bs. t \<in> set (ad_tensors a) \<Longrightarrow> derived_bytes (records_content st records) t = Some bs \<Longrightarrow> clash_free sha256 bs st'"
  shows "\<exists>composed held. map (derived_bytes (records_content st records)) (ad_tensors a) = map Some held \<and>
    body = FileBody_Tensor TensorFormat_SafetensorsV1 (contract_stamp sha256 target) (sum_list (map record_length composed)) composed \<and>
    records_content st' composed = safetensors_header quote (map derived_declared (ad_tensors a)) @ concat held \<and>
    list_all (record_resident st') composed \<and> store_ok sha256 st' \<and> store_grows st st'"
proof -
  from derive_content [OF assms(1-4)] obtain found' d' a' composed held where
    f: "inventory json_parse 0 (records_source st records) = Inr (Some found')" "decide source found' target = Inr d'" "decision_adapter d' = Some a'"
    and c: "body = FileBody_Tensor TensorFormat_SafetensorsV1 (contract_stamp sha256 target) (sum_list (map record_length composed)) composed"
    "store_ok sha256 st'" "store_grows st st'" "those (map (derived_bytes (records_content st records)) (ad_tensors a')) = Some held"
    "clash_free sha256 (safetensors_header quote (map derived_declared (ad_tensors a'))) st' \<Longrightarrow> \<forall>bs \<in> set held. clash_free sha256 bs st' \<Longrightarrow>
      records_content st' composed = safetensors_header quote (map derived_declared (ad_tensors a')) @ concat held \<and>
      list_all (record_resident st') composed" by blast
  have "a' = a" using f assms(5-7) by simp
  note c = c [unfolded this]
  have held: "map (derived_bytes (records_content st records)) (ad_tensors a) = map Some held" using c(4) by (simp add: those_Some_iff)
  have "\<forall>bs \<in> set held. clash_free sha256 bs st'"
  proof
    fix bs assume "bs \<in> set held"
    then have "Some bs \<in> set (map (derived_bytes (records_content st records)) (ad_tensors a))" unfolding held by simp
    then show "clash_free sha256 bs st'" using assms(9) by auto
  qed
  then show ?thesis using c held assms(8) by blast
qed

theorem derived_file_content_witness:
  "\<exists>composed st'. derive sample_env (table_hasher (sample_files served_header)) (table_hash (sample_files served_header)) sample_json key_text
      (FileBody_Tensor TensorFormat_SafetensorsV1 Stamp_None 32 (sample_run (sample_files served_header))) kept_contract served_contract
      (sample_committed (sample_files served_header)) =
    (Inr (FileBody_Tensor TensorFormat_SafetensorsV1 (contract_stamp (table_hash (sample_files served_header)) served_contract)
      (sum_list (map record_length composed)) composed), st') \<and>
    records_content st' composed = safetensors_header key_text [(''z'', ''U8'', [8], 8)] @ sample_tensor"
proof -
  let ?files = "sample_files served_header"
  obtain body st' where r: "derive sample_env (table_hasher ?files) (table_hash ?files) sample_json key_text
      (FileBody_Tensor TensorFormat_SafetensorsV1 Stamp_None 32 (sample_run ?files)) kept_contract served_contract (sample_committed ?files) =
      (Inr body, st')" and free: "clash_free (table_hash ?files) served_header st'" "clash_free (table_hash ?files) sample_tensor st'"
    by (rule sample_derived)
  have tensor: "derived_bytes sample_safetensors served_tensor = Some sample_tensor"
    by (simp add: derived_bytes_def served_tensor_def run_bytes_def file_range_def sample_safetensors_eval)
  have declared: "map derived_declared [served_tensor] = [(''z'', ''U8'', [8], 8)]"
    by (simp add: derived_declared_def served_tensor_def derived_length_def)
  note derived_file_content [OF table_hasher_streams sample_committed_ok(1) sample_run_readable(1) [OF served_header_short] r
    sample_run_inventory [OF served_header_short] stored_served, of "\<lparr>ad_tensors = [served_tensor]\<rparr>"]
  then show ?thesis using r free tensor sample_run_readable(2) [OF served_header_short] declared
    by (auto simp: served_header_def)
qed


section \<open>Snapshot sync\<close>

text \<open>C26: A pull trusts nothing. Whatever the remote answers, the store stays sound and only grows, no
  temporary is left, an object that is already resident is never downloaded and any other at most four times
  (the manifest once more). A pull that fails leaves the metadata as they were and every root intact. A pull
  that succeeds has rooted the very id it was asked for, with every object its manifest names resident, and
  the snapshot loads (unless the store holds other bytes under the hash of the manifest).\<close>

theorem pull_is_verified:
  assumes "hasher_streams hs sha256" "ws_ok u sha256 (sw_ws w)"
    and "\<And>d bs. open_object d (ws_store (sw_ws w)) = Inr bs \<Longrightarrow> length bs < 2 ^ 64"
    and "\<And>h pieces moved n. tr_download T h = (pieces, moved, n) \<Longrightarrow> length (concat pieces) < 2 ^ 64"
    and "pull_snapshot u env hs sha256 T sid w = (r, w')"
  shows "store_ok sha256 (ws_store (sw_ws w')) \<and> store_grows (ws_store (sw_ws w)) (ws_store (sw_ws w')) \<and>
    os_temps (ws_store (sw_ws w')) = os_temps (ws_store (sw_ws w)) \<and>
    (\<exists>new. sw_calls w' = sw_calls w @ new \<and>
      (\<forall>d. fetch_count d new \<le> (if d = sid then 1 else 0) + (if d \<in> store_digests (ws_store (sw_ws w)) then 0 else 4))) \<and>
    (\<forall>e. r = Inl e \<longrightarrow> ws_ok u sha256 (sw_ws w') \<and> ws_db (sw_ws w') = ws_db (sw_ws w)) \<and>
    (\<forall>report. r = Inr report \<longrightarrow> sid \<in> fst ` set (md_snapshots (ws_db (sw_ws w'))) \<and>
      (\<exists>s. snapshot_id_of sha256 s = sid \<and> set (snapshot_record_digests s) \<subseteq> store_digests (ws_store (sw_ws w')) \<and>
        (uncollided sha256 (to_bytes s) (ws_store (sw_ws w')) \<longrightarrow>
          ws_ok u sha256 (sw_ws w') \<and> load_snapshot u sha256 (sw_ws w') sid = Inr s)))"
  by (rule pull_snapshot_spec [OF assms(1,2) _ _ assms(5)]) (fact assms(3), fact assms(4))

theorem pull_is_verified_witness:
  "\<exists>report w'. pull_snapshot ascii_unicode sample_env sample_hasher digest_of_bytes twin_remote twin_id empty_world = (Inr report, w') \<and>
     twin_id \<in> fst ` set (md_snapshots (ws_db (sw_ws w'))) \<and> store_ok digest_of_bytes (ws_store (sw_ws w'))"
proof -
  obtain report w' where r: "pull_snapshot ascii_unicode sample_env sample_hasher digest_of_bytes twin_remote twin_id empty_world = (Inr report, w')"
    using twin_pulled by blast
  show ?thesis using pull_is_verified [OF sample_hasher_streams empty_ok empty_lens twin_downloads r] r by auto
qed

text \<open>C28: A pull from a remote that holds the snapshot succeeds: when every digest of the manifest and the
  manifest itself are granted with their lengths and download to bytes of that hash, the pull returns a
  report, whatever part of the snapshot was resident before.\<close>

theorem pull_from_holder_succeeds:
  assumes "hasher_streams hs sha256" "ws_ok u sha256 (sw_ws w)" "serves T content"
    and "\<And>d bs. content d = Some bs \<Longrightarrow> sha256 bs = d"
    and "content sid = Some (to_bytes s)" "decode u (to_bytes s) = Inr s" "set (snapshot_record_digests s) \<subseteq> dom content"
    and "\<And>d bs. open_object d (ws_store (sw_ws w)) = Inr bs \<Longrightarrow> length bs < 2 ^ 64"
  shows "\<exists>report w'. pull_snapshot u env hs sha256 T sid w = (Inr report, w')"
  by (rule pull_snapshot_served [OF assms(1-3) _ assms(5-7)]) (fact assms(4), fact assms(8))

theorem pull_from_holder_succeeds_witness:
  "sw_calls empty_world = [] \<and>
   (\<exists>report w'. pull_snapshot ascii_unicode sample_env sample_hasher digest_of_bytes twin_remote twin_id empty_world = (Inr report, w'))"
  using pull_from_holder_succeeds [OF sample_hasher_streams empty_ok twin_serves twin_content_hash
      twin_content_names(1) twin_decodes(1) twin_content_names(2) empty_lens] by (simp add: empty_world_def)

text \<open>C27: A push sends the snapshot and nothing else, whatever the remote answers: its manifest, packs
  that decode to stored objects of the closure under a grant for exactly their checksum, and the granted
  ranges of such objects. It leaves the local store and the metadata as they were (its lease is released on
  every exit). It reports success only when the remote took the manifest for the same id, answered that
  nothing is missing from the pack lane, and then answered a completion with a promotion.\<close>

theorem push_sends_only_the_snapshot:
  assumes "leases_wf (ws_db (sw_ws w))" "\<And>d b. open_object d (ws_store (sw_ws w)) = Inr b \<Longrightarrow> length b < 2 ^ 64"
    and "push_snapshot u sha256 T sid head options w = Some (r, w')"
  shows "sw_ws w' = sw_ws w \<and>
    (case load_snapshot u sha256 (sw_ws w) sid of
       Inl e \<Rightarrow> r = Inl (SyncError_Workspace e) \<and> w' = w
     | Inr s \<Rightarrow> prefix (sw_calls w) (sw_calls w') \<and>
         (\<forall>i. length (sw_calls w) < i \<and> i \<le> length (sw_calls w') \<longrightarrow> sent_ok T sha256 (ws_store (sw_ws w)) s (take i (sw_calls w'))) \<and>
         (\<forall>report. r = Inr report \<longrightarrow> promoted T sid (to_bytes s) head (sw_calls w) (sw_calls w')))"
  by (rule push_snapshot_spec [OF assms(1) _ assms(3)]) (fact assms(2))

theorem push_sends_only_the_snapshot_witness:
  "\<exists>report w'. push_snapshot ascii_unicode digest_of_bytes twin_remote twin_id None push_options_default twin_world = Some (Inr report, w') \<and>
     sw_ws w' = sw_ws twin_world \<and> promoted twin_remote twin_id (to_bytes twin_snapshot) None [] (sw_calls w')"
proof -
  obtain report w' where r: "push_snapshot ascii_unicode digest_of_bytes twin_remote twin_id None push_options_default twin_world =
      Some (Inr report, w')" using twin_pushed by blast
  show ?thesis using push_sends_only_the_snapshot [OF twin_leases twin_lens r] r twin_loads by (simp add: twin_world_def)
qed

text \<open>C29: A push returns against a remote that only makes progress: when the answers of a session never
  list more missing objects than an earlier answer did, and no authorization of the blob lane runs out
  within its round, the push ends with a report or an error, however many rounds it takes.\<close>

theorem push_returns:
  assumes "never_grows T (sw_calls w)" "blobs_unexpired T"
    and "\<And>d b. open_object d (ws_store (sw_ws w)) = Inr b \<Longrightarrow> length b < 2 ^ 64"
  shows "\<exists>r w'. push_snapshot u sha256 T sid head options w = Some (r, w')"
proof -
  have "push_snapshot u sha256 T sid head options w \<noteq> None"
    by (rule push_snapshot_returns [OF assms(1,2)]) (fact assms(3))
  then show ?thesis by auto
qed

theorem push_returns_witness:
  "never_grows twin_remote (sw_calls twin_world) \<and>
   (\<exists>r w'. push_snapshot ascii_unicode digest_of_bytes twin_remote twin_id None push_options_default twin_world = Some (r, w'))"
  using push_returns [where w = twin_world, OF twin_never_grows twin_unexpired twin_lens] twin_never_grows by simp

text \<open>C30: The replan budget does not bound a push that moves nothing. Take any snapshot whose objects are
  stored and any remote that answers the declaration with a list of missing objects, lets every claim of a
  pack expire, and answers the probes between the rounds with a shorter list and the longer one in turn. For
  every budget of more than one stalled round the push does not return, because each shorter list resets the
  count. And it uploads nothing: cut the remote off after any number of calls, and the push ends with that
  refusal, has made exactly so many calls, none of them an upload, and reports no uploaded byte.\<close>

theorem turning_remote_never_ends:
  assumes "load_snapshot u sha256 (sw_ws w) sid = Inr s" "rows_stored sha256 (ws_store (sw_ws w)) (data_closure s)"
    and "oscillates T many few" "few \<noteq> []" "length few < length many"
    and "tr_declare T (sw_calls w @ [Call_Declare (to_bytes s) head]) = Inr plan" "spl_snapshot_id plan = sid"
      "spl_missing plan = many" "spl_missing_blobs plan = []"
    and "subseq many (data_closure s)" "subseq few (data_closure s)"
      "\<forall>row \<in> set many \<union> set few. snd row \<le> payload_bound (spl_max_pack_payload plan)"
    and "1 < unat (po_max_stalled_replans options)" "even (probes (sw_calls w))"
  shows "push_snapshot u sha256 T sid head options w = None \<and>
    (\<forall>n \<ge> length (sw_calls w). \<exists>w' calls.
      push_snapshot u sha256 (cut_off n T) sid head options w = Some (Inl (SyncError_Transport cut_error), w') \<and>
      sw_calls w' = sw_calls w @ calls \<and> length (sw_calls w') = Suc n \<and> (\<forall>call \<in> set calls. \<not> is_upload call) \<and>
      pu_uploaded_bytes (sw_report w') = 0)"
proof -
  note turning = turning_push [OF assms]
  have "\<exists>w' calls. push_snapshot u sha256 (cut_off n T) sid head options w = Some (Inl (SyncError_Transport cut_error), w') \<and>
      sw_calls w' = sw_calls w @ calls \<and> length (sw_calls w') = Suc n \<and> (\<forall>call \<in> set calls. \<not> is_upload call) \<and>
      pu_uploaded_bytes (sw_report w') = 0" if "length (sw_calls w) \<le> n" for n
    using turning(2) [OF that] by (force simp: idle_until_def push_report_default_def)
  then show ?thesis using turning(1) by blast
qed

theorem turning_remote_never_ends_witness:
  "push_snapshot ascii_unicode digest_of_bytes turning_remote twin_id None push_options_default twin_world = None \<and>
   (\<exists>w'. push_snapshot ascii_unicode digest_of_bytes (cut_off 1000 turning_remote) twin_id None push_options_default twin_world =
      Some (Inl (SyncError_Transport cut_error), w') \<and> length (sw_calls w') = 1001 \<and> (\<forall>call \<in> set (sw_calls w'). \<not> is_upload call))"
proof -
  have calls: "sw_calls twin_world = []" by (simp add: twin_world_def)
  have plan: "tr_declare turning_remote h = Inr \<lparr>spl_snapshot_id = twin_id, spl_session = ''s'', spl_have = [], spl_staged_packs = [],
      spl_missing = twin_rows, spl_missing_blobs = [], spl_max_pack_payload = 0, spl_max_packs_per_request = 1\<rparr>" for h
    by (simp add: turning_remote_def twin_remote_def)
  have "[hd twin_rows] \<noteq> []" "length [hd twin_rows] < length twin_rows" by (simp_all add: twin_rows_def)
  from turning_remote_never_ends [OF twin_loads twin_stored turning_oscillates this plan, of push_options_default] twin_subseqs
  show ?thesis by (force simp: calls probes_def push_options_default_def)
qed

end
